(* ===== verification/Prelude.thy ===== *)
theory Prelude
  imports Main "HOL-Library.Word" "HOL-Library.Monad_Syntax" "HOL-Library.Multiset"
begin

text \<open>
  Shared vocabulary of the development: the width-indexed integers of the C++ code, the
  failure monad that models \<open>NEVER_COMPILED_OUT_ASSERT\<close>, loops over fixed arrays, and
  the generic list, multiset and word lemmas that the component theories use.

  A C++ function is a HOL function into \<open>'a option\<close>: \<open>None\<close> is the outcome "an
  assertion fired" (the process aborts or hands control to the reset handler, and the
  function never returns), \<open>Some x\<close> is a normal return. The predicate \<open>returns m Q\<close> is
  total correctness for such a function: it returns and the value satisfies \<open>Q\<close>.
\<close>

unbundle bit_operations_syntax

named_theorems wp \<open>weakest-precondition equations for the assertion monad\<close>
named_theorems inv_intro \<open>invariant preservation lemmas of the components\<close>

type_synonym u8 = "8 word"
type_synonym u16 = "16 word"
type_synonym u32 = "32 word"
type_synonym u64 = "64 word"

section \<open>The assertion monad\<close>

definition nc_assert :: "bool \<Rightarrow> unit option" where
  "nc_assert c = (if c then Some () else None)"

definition returns :: "'a option \<Rightarrow> ('a \<Rightarrow> bool) \<Rightarrow> bool" where
  "returns m Q = (case m of None \<Rightarrow> False | Some x \<Rightarrow> Q x)"

primrec for_each :: "('a \<Rightarrow> 's \<Rightarrow> 's option) \<Rightarrow> 'a list \<Rightarrow> 's \<Rightarrow> 's option" where
  "for_each body [] s = Some s"
| "for_each body (x # xs) s = do { s' \<leftarrow> body x s; for_each body xs s' }"

text \<open>The index of the first array element that satisfies a test: the bounded search loops
  of the code, which return an index or the capacity as "not found" sentinel (\<open>None\<close>).\<close>

primrec first_idx :: "('a \<Rightarrow> bool) \<Rightarrow> 'a list \<Rightarrow> nat option" where
  "first_idx P [] = None"
| "first_idx P (x # xs) = (if P x then Some 0 else map_option Suc (first_idx P xs))"

text \<open>\<open>memcpy (&dst[off], src, n)\<close> on byte arrays; all uses are in range.\<close>

definition blit :: "'a list \<Rightarrow> nat \<Rightarrow> 'a list \<Rightarrow> 'a list" where
  "blit dst off src = take off dst @ src @ drop (off + length src) dst"

text \<open>An array of which the first \<open>k\<close> elements have been rewritten by \<open>f\<close>.\<close>

definition mapped_to :: "nat \<Rightarrow> ('a \<Rightarrow> 'a) \<Rightarrow> 'a list \<Rightarrow> 'a list" where
  "mapped_to k f xs = map f (take k xs) @ drop k xs"

text \<open>A caller's output array \<open>buf\<close> of capacity \<open>cap\<close> whose first \<open>n\<close> elements are the items \<open>xs\<close>
  written so far, as many as fit.\<close>

definition filled :: "'a list \<Rightarrow> nat \<Rightarrow> nat \<Rightarrow> 'a list \<Rightarrow> bool" where
  "filled buf cap n xs \<longleftrightarrow> cap \<le> length buf \<and> n = min cap (length xs) \<and> take n buf = take n xs"

lemma returns_Some [simp, wp]: "returns (Some x) Q = Q x"
  by (simp add: returns_def)

lemma returns_None [simp, wp]: "returns None Q = False"
  by (simp add: returns_def)

lemma returns_bind [simp, wp]: "returns (m \<bind> f) Q = returns m (\<lambda>x. returns (f x) Q)"
  by (cases m) (simp_all add: returns_def)

lemma returns_assert [simp, wp]: "returns (nc_assert c) Q = (c \<and> Q ())"
  by (simp add: nc_assert_def returns_def)

lemma returns_if [wp]:
  "returns (if b then m else n) Q = (if b then returns m Q else returns n Q)"
  by simp

lemma returns_Let [simp, wp]: "returns (let x = v in f x) Q = returns (f v) Q"
  by (simp add: Let_def)

lemma returns_map_option: "returns (map_option f m) Q = returns m (\<lambda>x. Q (f x))"
  by (cases m) simp_all

lemma nc_assert_True [simp]: "nc_assert True = Some ()"
  by (simp add: nc_assert_def)

lemma nc_assert_False [simp]: "nc_assert False = None"
  by (simp add: nc_assert_def)

lemma assert_bind_True [simp]: "c \<Longrightarrow> (nc_assert c \<bind> f) = f ()"
  by (simp add: nc_assert_def)

lemma returns_mono: "returns m Q \<Longrightarrow> (\<And>x. Q x \<Longrightarrow> R x) \<Longrightarrow> returns m R"
  by (cases m) auto

lemma returnsD: "returns m Q \<Longrightarrow> m = Some x \<Longrightarrow> Q x"
  by simp

lemma returnsE: "returns m Q \<Longrightarrow> (\<And>x. m = Some x \<Longrightarrow> Q x \<Longrightarrow> thesis) \<Longrightarrow> thesis"
  by (cases m) auto

lemma returns_ex: "returns m Q \<longleftrightarrow> (\<exists>x. m = Some x \<and> Q x)"
  by (cases m) auto

lemma returns_conj: "returns m Q \<Longrightarrow> returns m R \<Longrightarrow> returns m (\<lambda>x. Q x \<and> R x)"
  by (cases m) auto

text \<open>The loop rule: a predicate indexed by what is still to be processed.\<close>

lemma for_each_returns:
  assumes "P xs s"
    and "\<And>x ys s. P (x # ys) s \<Longrightarrow> returns (body x s) (P ys)"
  shows "returns (for_each body xs s) (P [])"
  using assms(1)
proof (induction xs arbitrary: s)
  case Nil
  then show ?case by simp
next
  case (Cons x xs)
  from assms(2) [OF Cons.prems] have "returns (body x s) (P xs)" .
  then show ?case
    by (auto elim!: returnsE intro: Cons.IH)
qed

lemma for_each_inv:
  assumes "I s"
    and "\<And>x s. x \<in> set xs \<Longrightarrow> I s \<Longrightarrow> returns (body x s) I"
  shows "returns (for_each body xs s) I"
  using assms
proof (induction xs arbitrary: s)
  case Nil
  then show ?case by simp
next
  case (Cons x xs)
  have "returns (body x s) I" using Cons.prems by simp
  then show ?case
    using Cons.IH Cons.prems(2) by (auto elim!: returnsE)
qed

text \<open>The rule for a loop over all indices of an array: the predicate is indexed by the loop counter.\<close>

lemma for_each_upt_from:
  assumes "P i s" and "i \<le> n"
    and "\<And>k s. i \<le> k \<Longrightarrow> k < n \<Longrightarrow> P k s \<Longrightarrow> returns (body k s) (P (Suc k))"
  shows "returns (for_each body [i..<n] s) (P n)"
  using assms
proof (induction "n - i" arbitrary: i s)
  case 0
  then show ?case by simp
next
  case (Suc m)
  then have lt: "i < n" by simp
  have "returns (body i s) (P (Suc i))" using Suc.prems lt by simp
  then obtain s' where "body i s = Some s'" "P (Suc i) s'" by (auto elim: returnsE)
  moreover have "returns (for_each body [Suc i..<n] s') (P n)"
    using Suc.hyps(2) lt \<open>P (Suc i) s'\<close> Suc.prems(3) by (intro Suc.hyps(1)) auto
  ultimately show ?case using lt by (simp add: upt_conv_Cons)
qed

lemma for_each_upt:
  assumes "P 0 s" and "\<And>k s. k < n \<Longrightarrow> P k s \<Longrightarrow> returns (body k s) (P (Suc k))"
  shows "returns (for_each body [0..<n] s) (P n)"
  using assms by (intro for_each_upt_from) auto

text \<open>Partial correctness: what every iteration keeps, a loop that returns has kept.\<close>

lemma for_each_partial:
  "for_each body xs a = Some b \<Longrightarrow> I a \<Longrightarrow> (\<And>x a b. body x a = Some b \<Longrightarrow> I a \<Longrightarrow> I b) \<Longrightarrow> I b"
proof (induction xs arbitrary: a)
  case (Cons x xs)
  then show ?case by (auto simp: bind_eq_Some_conv)
qed simp

section \<open>Arrays\<close>

lemma first_idx_SomeD:
  "first_idx P xs = Some i \<Longrightarrow> i < length xs \<and> P (xs ! i) \<and> (\<forall>j < i. \<not> P (xs ! j))"
proof (induction xs arbitrary: i)
  case Nil
  then show ?case by simp
next
  case (Cons x xs)
  show ?case
  proof (cases "P x")
    case True
    with Cons.prems show ?thesis by simp
  next
    case False
    with Cons.prems obtain k where k: "first_idx P xs = Some k" "i = Suc k" by auto
    with Cons.IH [OF k(1)] False show ?thesis
      by (auto simp: nth_Cons split: nat.splits)
  qed
qed

lemma first_idx_None: "first_idx P xs = None \<longleftrightarrow> (\<forall>x \<in> set xs. \<not> P x)"
  by (induction xs) auto

lemma first_idx_Some_ex: "x \<in> set xs \<Longrightarrow> P x \<Longrightarrow> \<exists>i. first_idx P xs = Some i"
  by (induction xs) auto

lemma first_idx_update_cong: "i < length xs \<Longrightarrow> P v = P (xs ! i) \<Longrightarrow> first_idx P (xs[i := v]) = first_idx P xs"
  by (induction xs arbitrary: i) (auto split: nat.split)

lemma first_idx_update_same: "first_idx P xs = Some i \<Longrightarrow> P v \<Longrightarrow> first_idx P (xs[i := v]) = Some i"
  by (induction xs arbitrary: i) (auto split: if_splits)

lemma first_idx_update_new: "first_idx P xs = None \<Longrightarrow> i < length xs \<Longrightarrow> P v \<Longrightarrow> first_idx P (xs[i := v]) = Some i"
  by (induction xs arbitrary: i) (auto split: nat.split if_splits)

lemma first_idx_lt [dest]: "first_idx P xs = Some i \<Longrightarrow> i < length xs"
  by (simp add: first_idx_SomeD)

lemma first_idx_sat [dest]: "first_idx P xs = Some i \<Longrightarrow> P (xs ! i)"
  by (simp add: first_idx_SomeD)

lemma length_blit [simp]: "off + length src \<le> length dst \<Longrightarrow> length (blit dst off src) = length dst"
  by (simp add: blit_def)

lemma blit_nil [simp]: "blit dst off [] = dst"
  by (simp add: blit_def)

lemma nth_blit:
  assumes "off + length src \<le> length dst" and "i < length dst"
  shows "blit dst off src ! i =
    (if off \<le> i \<and> i < off + length src then src ! (i - off) else dst ! i)"
  using assms by (auto simp: blit_def nth_append min_def)

lemma take_blit_exact:
  "off + length src \<le> length dst \<Longrightarrow> take (off + length src) (blit dst off src) = take off dst @ src"
  by (simp add: blit_def)

text \<open>Live entries of a slot array as a multiset.\<close>

lemma mset_filter_update:
  assumes "i < length xs"
  shows "filter_mset P (mset (xs[i := y])) =
    (filter_mset P (mset xs) - (if P (xs ! i) then {#xs ! i#} else {#})) + (if P y then {#y#} else {#})"
  using assms by (simp add: mset_update filter_diff_mset)

lemma mset_filter_activate:
  "i < length xs \<Longrightarrow> \<not> P (xs ! i) \<Longrightarrow> P y \<Longrightarrow>
   filter_mset P (mset (xs[i := y])) = add_mset y (filter_mset P (mset xs))"
  by (simp add: mset_filter_update)

lemma mset_filter_release:
  "i < length xs \<Longrightarrow> P (xs ! i) \<Longrightarrow> \<not> P y \<Longrightarrow>
   add_mset (xs ! i) (filter_mset P (mset (xs[i := y]))) = filter_mset P (mset xs)"
  by (simp add: mset_filter_update)

lemma mset_filter_replace:
  "i < length xs \<Longrightarrow> P (xs ! i) \<Longrightarrow> P y \<Longrightarrow>
   filter_mset P (mset (xs[i := y])) = add_mset y (filter_mset P (mset xs) - {#xs ! i#})"
  by (simp add: mset_filter_update)

lemma length_filter_size: "length (filter P xs) = size (filter_mset P (mset xs))"
  by (metis mset_filter size_mset)

lemma length_filter_pos: "i < length xs \<Longrightarrow> P (xs ! i) \<Longrightarrow> 0 < length (filter P xs)"
  by (auto simp: filter_empty_conv)

lemma length_filter_activate:
  "i < length xs \<Longrightarrow> \<not> P (xs ! i) \<Longrightarrow> P y \<Longrightarrow>
   length (filter P (xs[i := y])) = Suc (length (filter P xs))"
  by (simp add: length_filter_size mset_filter_activate)

lemma length_filter_release:
  "i < length xs \<Longrightarrow> P (xs ! i) \<Longrightarrow> \<not> P y \<Longrightarrow>
   Suc (length (filter P (xs[i := y]))) = length (filter P xs)"
  using arg_cong [OF mset_filter_release, where f = size] by (simp add: length_filter_size)

lemma length_filter_same:
  "i < length xs \<Longrightarrow> P (xs ! i) = P y \<Longrightarrow>
   length (filter P (xs[i := y])) = length (filter P xs)"
  using length_filter_pos [of i xs P]
  by (auto simp: length_filter_size mset_filter_update size_Diff_singleton)

lemma length_filter_full:
  "(\<And>x. x \<in> set xs \<Longrightarrow> P x) \<Longrightarrow> length (filter P xs) = length xs"
  by simp

lemma mapped_to_0 [simp]: "mapped_to 0 f xs = xs"
  by (simp add: mapped_to_def)

lemma mapped_to_all [simp]: "length xs \<le> n \<Longrightarrow> mapped_to n f xs = map f xs"
  by (simp add: mapped_to_def)

lemma length_mapped_to [simp]: "length (mapped_to k f xs) = length xs"
  by (simp add: mapped_to_def)

lemma nth_mapped_to [simp]: "k < length xs \<Longrightarrow> mapped_to k f xs ! k = xs ! k"
  by (simp add: mapped_to_def nth_append min_def)

lemma mapped_to_update: "k < length xs \<Longrightarrow> (mapped_to k f xs)[k := f (xs ! k)] = mapped_to (Suc k) f xs"
  by (simp add: mapped_to_def take_Suc_conv_app_nth list_update_append Cons_nth_drop_Suc [symmetric])

lemma mapped_to_same: "k < length xs \<Longrightarrow> f (xs ! k) = xs ! k \<Longrightarrow> mapped_to (Suc k) f xs = mapped_to k f xs"
  by (metis list_update_id mapped_to_update nth_mapped_to)

lemma filter_take_Suc:
  "k < length xs \<Longrightarrow> filter P (take (Suc k) xs) = filter P (take k xs) @ (if P (xs ! k) then [xs ! k] else [])"
  by (simp add: take_Suc_conv_app_nth)

lemma filled_Nil: "cap \<le> length buf \<Longrightarrow> filled buf cap 0 []"
  by (simp add: filled_def)

lemma filled_write:
  assumes "filled buf cap n xs" and "n < cap"
  shows "filled (buf[n := x]) cap (Suc n) (xs @ [x])"
  using assms by (auto simp: filled_def min_def take_Suc_conv_app_nth split: if_splits)

lemma filled_skip: "filled buf cap n xs \<Longrightarrow> \<not> n < cap \<Longrightarrow> filled buf cap n (xs @ [x])"
  by (auto simp: filled_def min_def split: if_splits)

lemma filled_le: "filled buf cap n xs \<Longrightarrow> n \<le> cap"
  by (simp add: filled_def)

lemma list_all_updateI: "list_all P xs \<Longrightarrow> P y \<Longrightarrow> list_all P (xs[i := y])"
  by (auto simp: list_all_iff dest: set_update_subset_insert [THEN subsetD])

section \<open>Words\<close>

lemma u64_le_max: "(w :: u64) \<le> 0xFFFFFFFFFFFFFFFF"
proof -
  have "(0xFFFFFFFFFFFFFFFF :: u64) = - 1" by simp
  then show ?thesis by (simp only: word_order.extremum)
qed

lemma u32_le_max: "(w :: u32) \<le> 0xFFFFFFFF"
proof -
  have "(0xFFFFFFFF :: u32) = - 1" by simp
  then show ?thesis by (simp only: word_order.extremum)
qed

lemma u16_le_max: "(w :: u16) \<le> 0xFFFF"
proof -
  have "(0xFFFF :: u16) = - 1" by simp
  then show ?thesis by (simp only: word_order.extremum)
qed

lemma u8_le_max: "(w :: u8) \<le> 255"
proof -
  have "(255 :: u8) = - 1" by simp
  then show ?thesis by (simp only: word_order.extremum)
qed

lemma unat_ucast_up [simp]:
  "LENGTH('a) \<le> LENGTH('b) \<Longrightarrow> unat (ucast (w :: 'a::len word) :: 'b::len word) = unat w"
  by (simp add: unsigned_ucast_eq take_bit_nat_eq_self_iff order_less_le_trans [OF unsigned_less])

lemma unat_ucast_mod:
  "unat (ucast (w :: 'a::len word) :: 'b::len word) = unat w mod 2 ^ LENGTH('b)"
  by (simp add: unsigned_ucast_eq take_bit_eq_mod)

lemma ucast_eq_0_up:
  "LENGTH('a) \<le> LENGTH('b) \<Longrightarrow> (ucast (w :: 'a::len word) = (0 :: 'b::len word)) = (w = 0)"
  by (metis unat_ucast_up unat_eq_0)

lemma unat_diff_le: "(b :: 'a::len word) \<le> a \<Longrightarrow> unat (a - b) = unat a - unat b"
  by (simp add: unat_sub)

lemma unat_add_no_wrap:
  "unat a + unat b < 2 ^ LENGTH('a) \<Longrightarrow> unat (a + b :: 'a::len word) = unat a + unat b"
  by (simp add: unat_word_ariths)

lemma unat_Suc_no_wrap: "(a :: 'a::len word) + 1 \<noteq> 0 \<Longrightarrow> unat (a + 1) = Suc (unat a)"
  by (metis add.commute unatSuc)

lemma mod_add_inj:
  "(a + i) mod M = (a + j) mod (M :: nat) \<Longrightarrow> i < M \<Longrightarrow> j < M \<Longrightarrow> i = j"
proof -
  assume eq: "(a + i) mod M = (a + j) mod M" and lt: "i < M" "j < M"
  from eq obtain q1 q2 where "a + i + M * q1 = a + j + M * q2" by (auto simp: nat_mod_eq_iff)
  then have "(i + M * q1) mod M = (j + M * q2) mod M" by simp
  with lt show ?thesis by simp
qed

end
