(* ===== verification/Types.thy ===== *)
theory Types
  imports Prelude
begin

text \<open>
  \<open>src/core/Types.hpp\<close>, \<open>ConstantTime.hpp\<close>, \<open>Timestamp.hpp\<close> and \<open>MessageId.hpp\<close>:
  the capacity constants and enumerations of the engine, the branch-free identifier
  comparisons, the monotonic-time helpers and the message-id generator.

  Capacities that only bound array indices and element counts are natural numbers; byte
  sizes that are compared with wire fields keep their width.
\<close>

section \<open>Constants\<close>

definition MSG_MAX_PAYLOAD_BYTES :: u32 where [simp]: "MSG_MAX_PAYLOAD_BYTES = 4096"
definition MSG_RING_CAPACITY :: u32 where [simp]: "MSG_RING_CAPACITY = 64"
definition DEDUP_WINDOW_SIZE :: nat where [simp]: "DEDUP_WINDOW_SIZE = 128"
definition ACK_TRACKER_CAPACITY :: nat where [simp]: "ACK_TRACKER_CAPACITY = 32"
definition MAX_PEER_NODES :: nat where [simp]: "MAX_PEER_NODES = 16"
definition NODE_ID_INVALID :: u32 where [simp]: "NODE_ID_INVALID = 0"
definition DELIVERY_EVENT_RING_CAPACITY :: nat where [simp]: "DELIVERY_EVENT_RING_CAPACITY = 64"
definition FRAG_MAX_PAYLOAD_BYTES :: u32 where [simp]: "FRAG_MAX_PAYLOAD_BYTES = 1024"
definition FRAG_MAX_COUNT :: u32 where [simp]: "FRAG_MAX_COUNT = 4"
definition REASSEMBLY_SLOT_COUNT :: nat where [simp]: "REASSEMBLY_SLOT_COUNT = 8"
definition ORDERING_PEER_COUNT :: nat where [simp]: "ORDERING_PEER_COUNT = MAX_PEER_NODES"
definition ORDERING_HOLD_COUNT :: nat where [simp]: "ORDERING_HOLD_COUNT = 8"

section \<open>Enumerations\<close>

datatype MessageType = DATA | ACK | NAK | HEARTBEAT | HELLO | INVALID

datatype ReliabilityClass = BEST_EFFORT | RELIABLE_ACK | RELIABLE_RETRY

datatype OrderingMode = ORDERED | UNORDERED

datatype Result =
  OK | ERR_TIMEOUT | ERR_FULL | ERR_EMPTY | ERR_INVALID | ERR_IO | ERR_DUPLICATE
| ERR_EXPIRED | ERR_OVERRUN | ERR_AGAIN | ERR_IO_PARTIAL

type_synonym NodeId = u32

text \<open>The underlying values of the two enumerations that travel on the wire, and the casts
  back from a byte that the deserializer has range-checked.\<close>

fun message_type_byte :: "MessageType \<Rightarrow> u8" where
  "message_type_byte DATA = 0"
| "message_type_byte ACK = 1"
| "message_type_byte NAK = 2"
| "message_type_byte HEARTBEAT = 3"
| "message_type_byte HELLO = 4"
| "message_type_byte INVALID = 255"

fun reliability_class_byte :: "ReliabilityClass \<Rightarrow> u8" where
  "reliability_class_byte BEST_EFFORT = 0"
| "reliability_class_byte RELIABLE_ACK = 1"
| "reliability_class_byte RELIABLE_RETRY = 2"

definition message_type_of :: "u8 \<Rightarrow> MessageType" where
  "message_type_of b =
     (if b = 0 then DATA else if b = 1 then ACK else if b = 2 then NAK
      else if b = 3 then HEARTBEAT else if b = 4 then HELLO else INVALID)"

definition reliability_class_of :: "u8 \<Rightarrow> ReliabilityClass" where
  "reliability_class_of b =
     (if b = 0 then BEST_EFFORT else if b = 1 then RELIABLE_ACK else RELIABLE_RETRY)"

definition result_ok :: "Result \<Rightarrow> bool" where
  "result_ok r = (r = OK)"

section \<open>Constant-time comparison\<close>

definition ct_node_id_equal :: "NodeId \<Rightarrow> NodeId \<Rightarrow> bool" where
  "ct_node_id_equal a b = (let diff = a XOR b in diff = 0)"

definition ct_id_pair_equal :: "NodeId \<Rightarrow> NodeId \<Rightarrow> u64 \<Rightarrow> u64 \<Rightarrow> bool" where
  "ct_id_pair_equal src_a src_b id_a id_b =
     (let src_diff = src_a XOR src_b;
          id_diff = id_a XOR id_b;
          combined = (ucast src_diff :: u64) OR id_diff
      in combined = 0)"

section \<open>Time\<close>

text \<open>\<open>timestamp_now_us\<close> over what \<open>clock_gettime\<close> returned: the status, \<open>tv_sec\<close> and
  \<open>tv_nsec\<close>. The signed fields are integers in the range of \<open>time_t\<close> and \<open>long\<close>.\<close>

definition timestamp_now_us :: "int \<Rightarrow> int \<Rightarrow> int \<Rightarrow> u64 option" where
  "timestamp_now_us result tv_sec tv_nsec = do {
     nc_assert (result = 0);
     nc_assert (0 \<le> tv_sec);
     let k_sec_max = (- 1 :: u64) div 1000000;
     let tv_sec_u = (of_int tv_sec :: u64);
     if tv_sec_u > k_sec_max then Some (- 1)
     else do {
       let sec_us = tv_sec_u * 1000000;
       let nsec_us = (of_int tv_nsec :: u64) div 1000;
       Some (sec_us + nsec_us)
     }
   }"

definition timestamp_expired :: "u64 \<Rightarrow> u64 \<Rightarrow> bool" where
  "timestamp_expired expiry_us now_us = (expiry_us \<noteq> 0 \<and> now_us \<ge> expiry_us)"

definition timestamp_deadline_us :: "u64 \<Rightarrow> u32 \<Rightarrow> u64" where
  "timestamp_deadline_us now_us duration_ms =
     (let duration_us = (ucast duration_ms :: u64) * 1000;
          k_max = 0xFFFFFFFFFFFFFFFF
      in if now_us > k_max - duration_us then k_max else now_us + duration_us)"

section \<open>Message identifiers\<close>

text \<open>The generator's only member is \<open>m_next\<close>.\<close>

definition MessageIdGen_init :: "u64 \<Rightarrow> u64 option" where
  "MessageIdGen_init seed = do {
     nc_assert (seed \<noteq> 0);
     let m_next = seed;
     nc_assert (m_next = seed);
     Some m_next
   }"

definition MessageIdGen_next :: "u64 \<Rightarrow> (u64 \<times> u64) option" where
  "MessageIdGen_next m_next = do {
     nc_assert (m_next \<noteq> 0);
     let result = m_next;
     let m_next' = m_next + 1;
     let m_next'' = (if m_next' = 0 then 1 else m_next');
     nc_assert (result \<noteq> 0);
     nc_assert (m_next'' \<noteq> 0);
     Some (result, m_next'')
   }"

text \<open>The identifiers handed out by \<open>n\<close> consecutive calls.\<close>

primrec MessageIdGen_draw :: "nat \<Rightarrow> u64 \<Rightarrow> (u64 list \<times> u64) option" where
  "MessageIdGen_draw 0 m = Some ([], m)"
| "MessageIdGen_draw (Suc n) m = do {
     (r, m') \<leftarrow> MessageIdGen_next m;
     (rs, m'') \<leftarrow> MessageIdGen_draw n m';
     Some (r # rs, m'')
   }"

text \<open>The \<open>i\<close>-th identifier after counter value \<open>m\<close>, as a number.\<close>

definition id_after :: "nat \<Rightarrow> u64 \<Rightarrow> nat" where
  "id_after i m = (unat m - 1 + i) mod (2 ^ 64 - 1) + 1"

section \<open>Enumeration round trips\<close>

lemma message_type_of_byte [simp]: "message_type_of (message_type_byte t) = t"
  by (cases t) (simp_all add: message_type_of_def)

lemma reliability_class_of_byte [simp]: "reliability_class_of (reliability_class_byte c) = c"
  by (cases c) (simp_all add: reliability_class_of_def)

section \<open>Comparison\<close>

lemma word_xor_eq_0_iff: "(a XOR b = 0) = (a = (b :: 'a::len word))"
  by (auto simp: bit_eq_iff bit_xor_iff)

lemma ct_node_id_equal_iff [simp]: "ct_node_id_equal a b = (a = b)"
  by (simp add: ct_node_id_equal_def word_xor_eq_0_iff)

lemma ct_id_pair_equal_iff [simp]:
  "ct_id_pair_equal sa sb ia ib = (sa = sb \<and> ia = ib)"
  by (simp add: ct_id_pair_equal_def or_eq_0_iff ucast_eq_0_up word_xor_eq_0_iff)

section \<open>Identifiers are unique\<close>

lemma unat_next_id:
  assumes "m \<noteq> 0"
  shows "returns (MessageIdGen_next m) (\<lambda>(r, m'). r = m \<and> m' \<noteq> 0 \<and>
     unat m' = (unat m mod (2 ^ 64 - 1)) + 1)"
proof (cases "m + 1 = 0")
  case True
  then have "m = - 1" by (simp add: eq_neg_iff_add_eq_0)
  moreover have "(- 1 :: u64) = 0xFFFFFFFFFFFFFFFF" by simp
  ultimately have "m = 0xFFFFFFFFFFFFFFFF" by (simp only:)
  with assms show ?thesis by (simp add: MessageIdGen_next_def)
next
  case False
  then have s: "unat (m + 1) = Suc (unat m)" by (rule unat_Suc_no_wrap)
  have "unat (m + 1) < 2 ^ 64" using unsigned_less [of "m + 1"] by simp
  then have "unat m mod (2 ^ 64 - 1) = unat m" using s by simp
  with False assms s show ?thesis by (simp add: MessageIdGen_next_def Let_def)
qed

lemma unat_pos: "m \<noteq> 0 \<Longrightarrow> 0 < unat (m :: 'a::len word)"
  by (simp add: unat_gt_0)

lemma MessageIdGen_draw_spec:
  "m \<noteq> 0 \<Longrightarrow> returns (MessageIdGen_draw n m) (\<lambda>(rs, m').
     m' \<noteq> 0 \<and> length rs = n \<and> (\<forall>i < n. unat (rs ! i) = id_after i m))"
proof (induction n arbitrary: m)
  case 0
  then show ?case by simp
next
  case (Suc n)
  from unat_next_id [OF Suc.prems] obtain m' where
    n: "MessageIdGen_next m = Some (m, m')" and m': "m' \<noteq> 0"
      and u: "unat m' = (unat m mod (2 ^ 64 - 1)) + 1"
    by (auto elim!: returnsE)
  from Suc.IH [OF m'] obtain rs m'' where
    d: "MessageIdGen_draw n m' = Some (rs, m'')" and m'': "m'' \<noteq> 0" and l: "length rs = n"
      and r: "\<forall>i < n. unat (rs ! i) = id_after i m'"
    by (auto elim!: returnsE)
  have step: "id_after i m' = id_after (Suc i) m" for i
    using unat_pos [OF Suc.prems] u by (simp add: id_after_def mod_simps)
  have "unat m < 2 ^ 64" using unsigned_less [of m] by simp
  then have z: "id_after 0 m = unat m"
    using unat_pos [OF Suc.prems] by (simp add: id_after_def)
  have "\<forall>i < Suc n. unat ((m # rs) ! i) = id_after i m"
    using r step z by (auto simp: nth_Cons split: nat.splits)
  with n d m'' l show ?case by simp
qed

text \<open>
  The message-id generator never fires an assertion once seeded with a non-zero
  value, never hands out the reserved id 0, and the ids of any run of up to
  \<open>2\<^sup>6\<^sup>4 - 1\<close> consecutive calls are pairwise distinct, across the wrap-around of the
  64-bit counter.
\<close>

theorem message_ids_distinct:
  assumes "m \<noteq> 0" and "n \<le> 2 ^ 64 - 1"
  shows "returns (MessageIdGen_draw n m) (\<lambda>(rs, m'). distinct rs \<and> length rs = n \<and> 0 \<notin> set rs \<and> m' \<noteq> 0)"
proof -
  from MessageIdGen_draw_spec [OF assms(1), of n] obtain rs m' where
    d: "MessageIdGen_draw n m = Some (rs, m')" "m' \<noteq> 0" "length rs = n"
      and r: "\<forall>i < n. unat (rs ! i) = id_after i m"
    by (auto elim!: returnsE)
  have "distinct rs"
    unfolding distinct_conv_nth
  proof (intro allI impI notI)
    fix i j assume ij: "i < length rs" "j < length rs" "i \<noteq> j" "rs ! i = rs ! j"
    then have "id_after i m = id_after j m" using r d(3) by metis
    then show False using ij assms(2) d(3) by (auto simp: id_after_def dest!: mod_add_inj)
  qed
  moreover have "0 \<notin> set rs"
  proof
    assume "0 \<in> set rs"
    then obtain i where "i < n" "rs ! i = 0" using d(3) by (auto simp: in_set_conv_nth)
    with r have "id_after i m = 0" by (metis unat_0)
    then show False by (simp add: id_after_def)
  qed
  ultimately show ?thesis using d by simp
qed

theorem message_ids_distinct_witness:
  "returns (MessageIdGen_draw 3 0xFFFFFFFFFFFFFFFE)
     (\<lambda>(rs, m'). distinct rs \<and> length rs = 3 \<and> 0 \<notin> set rs \<and> m' \<noteq> 0)"
  by (rule message_ids_distinct) simp_all

section \<open>Deadlines\<close>

text \<open>
  A deadline never lies before the current time and is the exact sum unless that sum
  does not fit 64 bits, in which case it saturates at the largest time value; so it never wraps
  into the past.
\<close>

theorem timestamp_deadline_exact:
  "unat (timestamp_deadline_us now d) = min (2 ^ 64 - 1) (unat now + unat d * 1000)
   \<and> now \<le> timestamp_deadline_us now d"
proof -
  let ?dur = "(ucast d :: u64) * 1000"
  have "unat d < 2 ^ 32" using unsigned_less [of d] by simp
  then have dur: "unat ?dur = unat d * 1000" by (simp add: unat_word_ariths)
  have le: "?dur \<le> 0xFFFFFFFFFFFFFFFF" by (rule u64_le_max)
  have diff: "unat (0xFFFFFFFFFFFFFFFF - ?dur) = 2 ^ 64 - 1 - unat d * 1000"
    using unat_diff_le [OF le] dur by simp
  have big: "unat d * 1000 < 2 ^ 64 - 1" using \<open>unat d < 2 ^ 32\<close> by simp
  show ?thesis
  proof (cases "now > 0xFFFFFFFFFFFFFFFF - ?dur")
    case True
    then have "unat now > 2 ^ 64 - 1 - unat d * 1000" by (simp add: word_less_nat_alt diff)
    then show ?thesis
      using True by (simp add: timestamp_deadline_us_def Let_def u64_le_max)
  next
    case False
    then have le': "unat now \<le> 2 ^ 64 - 1 - unat d * 1000"
      by (simp add: word_less_nat_alt diff not_less)
    then have "unat (now + ?dur) = unat now + unat d * 1000"
      using big by (simp add: unat_word_ariths dur)
    then show ?thesis
      using False le' big by (simp add: timestamp_deadline_us_def Let_def word_le_nat_alt)
  qed
qed

end
