(* ===== verification/MessageEnvelope.thy ===== *)
theory MessageEnvelope
  imports Types
begin

text \<open>
  \<open>src/core/MessageEnvelope.hpp\<close> and \<open>ProtocolVersion.hpp\<close>: the one data structure every
  component passes on, and its inline helpers. The inline payload array is a byte list of
  fixed length (\<open>env_wf\<close>); \<open>envelope_copy\<close> is assignment, because the C++ copies the
  whole object, unused payload bytes included.
\<close>

record envelope =
  message_id :: u64
  timestamp_us :: u64
  expiry_time_us :: u64
  source_id :: NodeId
  destination_id :: NodeId
  payload_length :: u32
  sequence_num :: u32
  total_payload_length :: u16
  message_type :: MessageType
  priority :: u8
  reliability_class :: ReliabilityClass
  fragment_index :: u8
  fragment_count :: u8
  payload :: "u8 list"

definition PROTO_VERSION :: u8 where [simp]: "PROTO_VERSION = 2"
definition PROTO_MAGIC :: u16 where [simp]: "PROTO_MAGIC = 0x4D45"

abbreviation payload_capacity :: nat where
  "payload_capacity \<equiv> unat MSG_MAX_PAYLOAD_BYTES"

text \<open>What the C++ type guarantees of an envelope: the payload array has its capacity.\<close>

definition env_wf :: "envelope \<Rightarrow> bool" where
  "env_wf env = (length (payload env) = payload_capacity)"

text \<open>The used part of the payload array.\<close>

definition payload_bytes :: "envelope \<Rightarrow> u8 list" where
  "payload_bytes env = take (unat (payload_length env)) (payload env)"

definition envelope_is_fragment :: "envelope \<Rightarrow> bool" where
  "envelope_is_fragment env = (fragment_count env > 1)"

definition envelope_is_last_fragment :: "envelope \<Rightarrow> bool" where
  "envelope_is_last_fragment env =
     (fragment_count env > 1 \<and> fragment_index env = fragment_count env - 1)"

definition envelope_init :: envelope where
  "envelope_init = \<lparr> message_id = 0, timestamp_us = 0, expiry_time_us = 0, source_id = 0,
     destination_id = 0, payload_length = 0, sequence_num = 0, total_payload_length = 0,
     message_type = INVALID, priority = 0, reliability_class = BEST_EFFORT,
     fragment_index = 0, fragment_count = 0, payload = replicate payload_capacity 0 \<rparr>"

text \<open>The envelope array element left by \<open>memset (\<dots>, 0, \<dots>)\<close>: as \<open>envelope_init\<close> but with the
  enumerator of value 0.\<close>

definition envelope_zero :: envelope where
  "envelope_zero = envelope_init\<lparr> message_type := DATA \<rparr>"

definition envelope_valid :: "envelope \<Rightarrow> bool" where
  "envelope_valid env =
     (message_type env \<noteq> INVALID \<and> payload_length env \<le> MSG_MAX_PAYLOAD_BYTES \<and>
      source_id env \<noteq> NODE_ID_INVALID)"

definition envelope_is_data :: "envelope \<Rightarrow> bool" where
  "envelope_is_data env = (message_type env = DATA)"

definition envelope_is_control :: "envelope \<Rightarrow> bool" where
  "envelope_is_control env =
     (message_type env = ACK \<or> message_type env = NAK \<or> message_type env = HEARTBEAT)"

definition envelope_addressed_to :: "envelope \<Rightarrow> NodeId \<Rightarrow> bool" where
  "envelope_addressed_to env this_node =
     (destination_id env = this_node \<or> destination_id env = NODE_ID_INVALID)"

definition envelope_needs_ack_response :: "envelope \<Rightarrow> bool" where
  "envelope_needs_ack_response env =
     (reliability_class env = RELIABLE_ACK \<or> reliability_class env = RELIABLE_RETRY)"

definition envelope_make_ack :: "envelope \<Rightarrow> NodeId \<Rightarrow> u64 \<Rightarrow> envelope" where
  "envelope_make_ack original my_id now_us = envelope_init\<lparr>
     message_type := ACK,
     message_id := message_id original,
     timestamp_us := now_us,
     source_id := my_id,
     destination_id := source_id original,
     priority := priority original,
     reliability_class := BEST_EFFORT,
     expiry_time_us := 0,
     payload_length := 0 \<rparr>"

section \<open>Lemmas\<close>

lemma env_wf_init [simp]: "env_wf envelope_init"
  by (simp add: env_wf_def envelope_init_def)

lemma env_wf_zero [simp]: "env_wf envelope_zero"
  by (simp add: env_wf_def envelope_init_def envelope_zero_def)

lemma env_wf_make_ack [simp]: "env_wf (envelope_make_ack e n t)"
  by (simp add: env_wf_def envelope_init_def envelope_make_ack_def)

lemma message_kinds:
  "message_type e \<noteq> INVALID \<Longrightarrow> \<not> envelope_is_control e \<Longrightarrow> \<not> envelope_is_data e \<Longrightarrow>
   message_type e = HELLO"
  by (cases "message_type e") (simp_all add: envelope_is_control_def envelope_is_data_def)

lemma data_not_control: "envelope_is_data e \<Longrightarrow> \<not> envelope_is_control e"
  by (simp add: envelope_is_data_def envelope_is_control_def)

lemma make_ack_simps [simp]:
  "message_type (envelope_make_ack e n t) = ACK"
  "message_id (envelope_make_ack e n t) = message_id e"
  "source_id (envelope_make_ack e n t) = n"
  "destination_id (envelope_make_ack e n t) = source_id e"
  "payload_length (envelope_make_ack e n t) = 0"
  "expiry_time_us (envelope_make_ack e n t) = 0"
  by (simp_all add: envelope_make_ack_def)

lemma length_payload_bytes:
  "env_wf e \<Longrightarrow> payload_length e \<le> MSG_MAX_PAYLOAD_BYTES \<Longrightarrow>
   length (payload_bytes e) = unat (payload_length e)"
  by (simp add: payload_bytes_def env_wf_def word_le_nat_alt)

end
