(* ===== verification/OrderingBuffer.thy ===== *)
theory OrderingBuffer
  imports MessageEnvelope
begin

text \<open>
  \<open>src/core/OrderingBuffer.cpp\<close>: the gate that releases the ordered messages of each peer in
  sequence and holds early ones, at most eight in all and four per peer.

  The abstraction is one cursor per source, \<open>ob_cursor\<close>: the next sequence number that will be
  delivered, 1 for a source without a table entry.
\<close>

definition k_hold_per_peer_max :: nat where [simp]: "k_hold_per_peer_max = ORDERING_HOLD_COUNT div 2"

record hold_slot =
  ho_env :: envelope
  ho_active :: bool

record peer_state =
  pe_src :: NodeId
  pe_next_expected_seq :: u32
  pe_active :: bool
  pe_lru_stamp :: u32

record ordering_buffer =
  ob_hold :: "hold_slot list"
  ob_peers :: "peer_state list"
  ob_initialized :: bool
  ob_local_node :: NodeId
  ob_lru_counter :: u32

definition OrderingBuffer_init :: "ordering_buffer \<Rightarrow> NodeId \<Rightarrow> ordering_buffer option" where
  "OrderingBuffer_init s local_node = do {
     let s = \<lparr> ob_hold = replicate ORDERING_HOLD_COUNT \<lparr> ho_env = envelope_init, ho_active = False \<rparr>,
               ob_peers = replicate ORDERING_PEER_COUNT
                 \<lparr> pe_src = 0, pe_next_expected_seq = 1, pe_active = False, pe_lru_stamp = 0 \<rparr>,
               ob_initialized = True, ob_local_node = local_node, ob_lru_counter = 0 \<rparr>;
     nc_assert (ob_initialized s);
     Some s
   }"

definition OrderingBuffer_find_peer :: "ordering_buffer \<Rightarrow> NodeId \<Rightarrow> nat option option" where
  "OrderingBuffer_find_peer s src = do {
     nc_assert (ob_initialized s);
     nc_assert (src \<noteq> 0);
     Some (first_idx (\<lambda>p. pe_active p \<and> ct_node_id_equal (pe_src p) src) (ob_peers s))
   }"

definition OrderingBuffer_count_holds_for_peer :: "ordering_buffer \<Rightarrow> NodeId \<Rightarrow> nat option" where
  "OrderingBuffer_count_holds_for_peer s src = do {
     nc_assert (ob_initialized s);
     nc_assert (src \<noteq> 0);
     let count = length (filter (\<lambda>h. ho_active h \<and> ct_node_id_equal (source_id (ho_env h)) src) (ob_hold s));
     nc_assert (count \<le> ORDERING_HOLD_COUNT);
     Some count
   }"

text \<open>The scan of \<open>evict_peer_no_holds\<close> over the remaining indices; the result is the index found.\<close>

primrec no_holds_scan :: "ordering_buffer \<Rightarrow> nat list \<Rightarrow> nat option option" where
  "no_holds_scan s [] = Some None"
| "no_holds_scan s (i # is) =
     (if \<not> pe_active (ob_peers s ! i) then no_holds_scan s is
      else do {
        n \<leftarrow> OrderingBuffer_count_holds_for_peer s (pe_src (ob_peers s ! i));
        if n = 0 then Some (Some i) else no_holds_scan s is
      })"

definition OrderingBuffer_evict_peer_no_holds ::
    "ordering_buffer \<Rightarrow> (nat option \<times> ordering_buffer) option" where
  "OrderingBuffer_evict_peer_no_holds s = do {
     nc_assert (ob_initialized s);
     found \<leftarrow> no_holds_scan s [0..<ORDERING_PEER_COUNT];
     case found of
       Some i \<Rightarrow> Some (Some i, s\<lparr> ob_peers := (ob_peers s)[i := (ob_peers s ! i)\<lparr> pe_active := False \<rparr>] \<rparr>)
     | None \<Rightarrow> Some (None, s)
   }"

definition OrderingBuffer_evict_lru_peer :: "ordering_buffer \<Rightarrow> (nat \<times> ordering_buffer) option" where
  "OrderingBuffer_evict_lru_peer s = do {
     nc_assert (ob_initialized s);
     (no_holds_idx, s) \<leftarrow> OrderingBuffer_evict_peer_no_holds s;
     case no_holds_idx of
       None \<Rightarrow> None
     | Some i \<Rightarrow> Some (i, s)
   }"

text \<open>A fresh table entry for \<open>src\<close> at index \<open>i\<close>.\<close>

definition ob_new_peer :: "nat \<Rightarrow> NodeId \<Rightarrow> ordering_buffer \<Rightarrow> ordering_buffer" where
  "ob_new_peer i src s = s\<lparr> ob_peers := (ob_peers s)[i := \<lparr> pe_src = src, pe_next_expected_seq = 1,
       pe_active = True, pe_lru_stamp = ob_lru_counter s + 1 \<rparr>], ob_lru_counter := ob_lru_counter s + 1 \<rparr>"

definition OrderingBuffer_get_or_create_peer ::
    "ordering_buffer \<Rightarrow> NodeId \<Rightarrow> (nat \<times> ordering_buffer) option" where
  "OrderingBuffer_get_or_create_peer s src = do {
     nc_assert (ob_initialized s);
     nc_assert (src \<noteq> 0);
     found \<leftarrow> OrderingBuffer_find_peer s src;
     case found of
       Some idx \<Rightarrow> Some (idx, s\<lparr> ob_peers := (ob_peers s)[idx := (ob_peers s ! idx)\<lparr> pe_lru_stamp := ob_lru_counter s + 1 \<rparr>],
                                  ob_lru_counter := ob_lru_counter s + 1 \<rparr>)
     | None \<Rightarrow>
         (case first_idx (\<lambda>p. \<not> pe_active p) (ob_peers s) of
            Some i \<Rightarrow> Some (i, ob_new_peer i src s)
          | None \<Rightarrow> do {
              (evicted, s) \<leftarrow> OrderingBuffer_evict_lru_peer s;
              let s = ob_new_peer evicted src s;
              nc_assert (evicted < ORDERING_PEER_COUNT);
              Some (evicted, s)
            })
   }"

definition OrderingBuffer_find_free_hold :: "ordering_buffer \<Rightarrow> nat option option" where
  "OrderingBuffer_find_free_hold s = do {
     nc_assert (ob_initialized s);
     Some (first_idx (\<lambda>h. \<not> ho_active h) (ob_hold s))
   }"

definition OrderingBuffer_find_held :: "ordering_buffer \<Rightarrow> NodeId \<Rightarrow> u32 \<Rightarrow> nat option option" where
  "OrderingBuffer_find_held s src seq = do {
     nc_assert (ob_initialized s);
     nc_assert (src \<noteq> 0);
     Some (first_idx (\<lambda>h. ho_active h \<and> ct_node_id_equal (source_id (ho_env h)) src \<and>
                          sequence_num (ho_env h) = seq) (ob_hold s))
   }"

definition OrderingBuffer_advance_next_expected :: "ordering_buffer \<Rightarrow> nat \<Rightarrow> ordering_buffer option" where
  "OrderingBuffer_advance_next_expected s peer_idx = do {
     nc_assert (peer_idx < ORDERING_PEER_COUNT);
     nc_assert (pe_active (ob_peers s ! peer_idx));
     let next = pe_next_expected_seq (ob_peers s ! peer_idx) + 1;
     let next = (if next = 0 then 1 else next);
     nc_assert (next \<noteq> 0);
     Some (s\<lparr> ob_peers := (ob_peers s)[peer_idx := (ob_peers s ! peer_idx)\<lparr> pe_next_expected_seq := next \<rparr>] \<rparr>)
   }"

definition OrderingBuffer_ingest ::
    "ordering_buffer \<Rightarrow> envelope \<Rightarrow> envelope \<Rightarrow> u64 \<Rightarrow> (Result \<times> envelope \<times> ordering_buffer) option" where
  "OrderingBuffer_ingest s msg out now_us = do {
     nc_assert (ob_initialized s);
     nc_assert (now_us > 0);
     if envelope_is_control msg then Some (OK, msg, s)
     else if sequence_num msg = 0 then Some (OK, msg, s)
     else do {
       (peer_idx, s) \<leftarrow> OrderingBuffer_get_or_create_peer s (source_id msg);
       nc_assert (peer_idx < ORDERING_PEER_COUNT);
       let expected = pe_next_expected_seq (ob_peers s ! peer_idx);
       if sequence_num msg < expected then Some (ERR_AGAIN, out, s)
       else if sequence_num msg = expected then do {
         s \<leftarrow> OrderingBuffer_advance_next_expected s peer_idx;
         Some (OK, msg, s)
       }
       else do {
         existing_hold \<leftarrow> OrderingBuffer_find_held s (source_id msg) (sequence_num msg);
         if existing_hold \<noteq> None then Some (ERR_AGAIN, out, s)
         else do {
           n \<leftarrow> OrderingBuffer_count_holds_for_peer s (source_id msg);
           if n \<ge> k_hold_per_peer_max then Some (ERR_FULL, out, s)
           else do {
             hold_idx \<leftarrow> OrderingBuffer_find_free_hold s;
             case hold_idx of
               None \<Rightarrow> Some (ERR_FULL, out, s)
             | Some i \<Rightarrow> do {
                 let s = s\<lparr> ob_hold := (ob_hold s)[i := \<lparr> ho_env = msg, ho_active = True \<rparr>] \<rparr>;
                 nc_assert (ho_active (ob_hold s ! i));
                 Some (ERR_AGAIN, out, s)
               }
           }
         }
       }
     }
   }"

definition OrderingBuffer_try_release_next ::
    "ordering_buffer \<Rightarrow> NodeId \<Rightarrow> envelope \<Rightarrow> (Result \<times> envelope \<times> ordering_buffer) option" where
  "OrderingBuffer_try_release_next s src out = do {
     nc_assert (ob_initialized s);
     nc_assert (src \<noteq> 0);
     peer_idx \<leftarrow> OrderingBuffer_find_peer s src;
     case peer_idx of
       None \<Rightarrow> Some (ERR_AGAIN, out, s)
     | Some p \<Rightarrow> do {
         let expected = pe_next_expected_seq (ob_peers s ! p);
         hold_idx \<leftarrow> OrderingBuffer_find_held s src expected;
         case hold_idx of
           None \<Rightarrow> Some (ERR_AGAIN, out, s)
         | Some i \<Rightarrow> do {
             let out = ho_env (ob_hold s ! i);
             let s = s\<lparr> ob_hold := (ob_hold s)[i := (ob_hold s ! i)\<lparr> ho_active := False \<rparr>] \<rparr>;
             s \<leftarrow> OrderingBuffer_advance_next_expected s p;
             nc_assert (\<not> ho_active (ob_hold s ! i));
             Some (OK, out, s)
           }
       }
   }"

text \<open>The loops of \<open>reset_peer\<close> and \<open>advance_sequence\<close> release hold slots one by one, each on its own
  contents only.\<close>

definition ob_free_holds :: "(envelope \<Rightarrow> bool) \<Rightarrow> hold_slot list \<Rightarrow> hold_slot list" where
  "ob_free_holds P = map (\<lambda>h. if ho_active h \<and> P (ho_env h) then h\<lparr> ho_active := False \<rparr> else h)"

definition OrderingBuffer_reset_peer :: "ordering_buffer \<Rightarrow> NodeId \<Rightarrow> ordering_buffer option" where
  "OrderingBuffer_reset_peer s src = do {
     nc_assert (ob_initialized s);
     nc_assert (src \<noteq> 0);
     peer_idx \<leftarrow> OrderingBuffer_find_peer s src;
     case peer_idx of
       None \<Rightarrow> Some s
     | Some p \<Rightarrow> do {
         let s = s\<lparr> ob_hold := ob_free_holds (\<lambda>e. source_id e = src) (ob_hold s) \<rparr>;
         let s = s\<lparr> ob_peers := (ob_peers s)[p := (ob_peers s ! p)\<lparr> pe_next_expected_seq := 1 \<rparr>] \<rparr>;
         nc_assert (pe_next_expected_seq (ob_peers s ! p) = 1);
         Some s
       }
   }"

definition OrderingBuffer_advance_sequence :: "ordering_buffer \<Rightarrow> NodeId \<Rightarrow> u32 \<Rightarrow> ordering_buffer option" where
  "OrderingBuffer_advance_sequence s src up_to_seq = do {
     nc_assert (ob_initialized s);
     nc_assert (src \<noteq> 0);
     peer_idx \<leftarrow> OrderingBuffer_find_peer s src;
     case peer_idx of
       None \<Rightarrow> Some s
     | Some p \<Rightarrow> do {
         let s = (if up_to_seq > pe_next_expected_seq (ob_peers s ! p)
                  then s\<lparr> ob_peers := (ob_peers s)[p := (ob_peers s ! p)\<lparr> pe_next_expected_seq := up_to_seq \<rparr>],
                          ob_hold := ob_free_holds (\<lambda>e. source_id e = src \<and> sequence_num e < up_to_seq) (ob_hold s) \<rparr>
                  else s);
         nc_assert (pe_next_expected_seq (ob_peers s ! p) \<ge> up_to_seq);
         Some s
       }
   }"

definition OrderingBuffer_seq_next_guarded :: "u32 \<Rightarrow> u32 option" where
  "OrderingBuffer_seq_next_guarded seq = do {
     nc_assert (seq \<noteq> 0);
     let next = (if seq < 0xFFFFFFFF then seq + 1 else 1);
     nc_assert (next \<noteq> 0);
     Some next
   }"

text \<open>One iteration of the sweep; \<open>out_freed\<close> is the caller's array, never null here.\<close>

definition ob_sweep_slot ::
    "u64 \<Rightarrow> nat \<Rightarrow> nat \<Rightarrow> nat \<times> envelope list \<times> ordering_buffer \<Rightarrow> (nat \<times> envelope list \<times> ordering_buffer) option" where
  "ob_sweep_slot now_us out_cap i = (\<lambda>(freed, out_freed, s).
     if \<not> ho_active (ob_hold s ! i) then Some (freed, out_freed, s)
     else if timestamp_expired (expiry_time_us (ho_env (ob_hold s ! i))) now_us then do {
       let out_freed = (if freed < out_cap then out_freed[freed := ho_env (ob_hold s ! i)] else out_freed);
       next \<leftarrow> OrderingBuffer_seq_next_guarded (sequence_num (ho_env (ob_hold s ! i)));
       s \<leftarrow> OrderingBuffer_advance_sequence s (source_id (ho_env (ob_hold s ! i))) next;
       let s = s\<lparr> ob_hold := (ob_hold s)[i := (ob_hold s ! i)\<lparr> ho_active := False \<rparr>] \<rparr>;
       Some (freed + 1, out_freed, s)
     }
     else Some (freed, out_freed, s))"

definition OrderingBuffer_sweep_expired_holds ::
    "ordering_buffer \<Rightarrow> u64 \<Rightarrow> envelope list \<Rightarrow> nat \<Rightarrow> (nat \<times> envelope list \<times> ordering_buffer) option" where
  "OrderingBuffer_sweep_expired_holds s now_us out_freed out_cap = do {
     nc_assert (ob_initialized s);
     nc_assert (now_us > 0);
     (freed, out_freed, s) \<leftarrow>
       for_each (ob_sweep_slot now_us out_cap) [0..<ORDERING_HOLD_COUNT] (0, out_freed, s);
     nc_assert (freed \<le> ORDERING_HOLD_COUNT);
     Some (freed, out_freed, s)
   }"

section \<open>Invariant and abstraction\<close>

definition ob_is_peer :: "NodeId \<Rightarrow> peer_state \<Rightarrow> bool" where
  "ob_is_peer src p \<longleftrightarrow> pe_active p \<and> pe_src p = src"

definition ob_holds_of :: "ordering_buffer \<Rightarrow> NodeId \<Rightarrow> hold_slot list" where
  "ob_holds_of s src = filter (\<lambda>h. ho_active h \<and> source_id (ho_env h) = src) (ob_hold s)"

definition ob_known :: "ordering_buffer \<Rightarrow> NodeId set" where
  "ob_known s = pe_src ` {p \<in> set (ob_peers s). pe_active p}"

definition ob_inv :: "ordering_buffer \<Rightarrow> bool" where
  "ob_inv s \<longleftrightarrow> length (ob_hold s) = 8 \<and> length (ob_peers s) = 16 \<and> ob_initialized s \<and>
     (\<forall>p \<in> set (ob_peers s). pe_active p \<longrightarrow> pe_src p \<noteq> 0 \<and> pe_next_expected_seq p \<noteq> 0) \<and>
     (\<forall>i < 16. \<forall>j < 16. pe_active (ob_peers s ! i) \<and> pe_active (ob_peers s ! j) \<and>
        pe_src (ob_peers s ! i) = pe_src (ob_peers s ! j) \<longrightarrow> i = j) \<and>
     (\<forall>h \<in> set (ob_hold s). ho_active h \<longrightarrow>
        source_id (ho_env h) \<in> ob_known s \<and> sequence_num (ho_env h) \<noteq> 0 \<and> env_wf (ho_env h) \<and>
        \<not> envelope_is_control (ho_env h)) \<and>
     (\<forall>src. length (ob_holds_of s src) \<le> 4)"

definition ob_cursor :: "ordering_buffer \<Rightarrow> NodeId \<Rightarrow> u32" where
  "ob_cursor s src = (case first_idx (ob_is_peer src) (ob_peers s) of
     Some i \<Rightarrow> pe_next_expected_seq (ob_peers s ! i) | None \<Rightarrow> 1)"

text \<open>The successor on sequence numbers, which skips the reserved value 0.\<close>

definition seq_succ :: "u32 \<Rightarrow> u32" where
  "seq_succ c = (if c + 1 = 0 then 1 else c + 1)"

text \<open>The held messages.\<close>

definition ob_held :: "ordering_buffer \<Rightarrow> envelope multiset" where
  "ob_held s = image_mset ho_env (filter_mset ho_active (mset (ob_hold s)))"

definition ob_holding :: "ordering_buffer \<Rightarrow> NodeId \<Rightarrow> u32 \<Rightarrow> bool" where
  "ob_holding s src seq \<longleftrightarrow> (\<exists>e \<in># ob_held s. source_id e = src \<and> sequence_num e = seq)"

text \<open>Releasing hold slots, whatever the reason.\<close>

definition ob_released :: "hold_slot list \<Rightarrow> hold_slot list \<Rightarrow> bool" where
  "ob_released hs hs' \<longleftrightarrow> list_all2 (\<lambda>h h'. h' = h \<or> h' = h\<lparr> ho_active := False \<rparr>) hs hs'"

text \<open>What an operation on behalf of \<open>src\<close> does to the other cursors: nothing, or one source without
  held messages is forgotten, when sixteen other sources are tracked and \<open>src\<close> is a new one.\<close>

definition ob_others_kept :: "NodeId \<Rightarrow> ordering_buffer \<Rightarrow> ordering_buffer \<Rightarrow> bool" where
  "ob_others_kept src s s' \<longleftrightarrow> (\<forall>x. x \<noteq> src \<longrightarrow> ob_cursor s' x = ob_cursor s x) \<or>
     src \<notin> ob_known s \<and> card (ob_known s) = 16 \<and>
       (\<exists>v. ob_holds_of s v = [] \<and> (\<forall>x. x \<noteq> src \<longrightarrow> ob_cursor s' x = (if x = v then 1 else ob_cursor s x)))"

text \<open>The contract of \<open>ingest\<close> on an ordered message.\<close>

definition ob_ingested ::
    "ordering_buffer \<Rightarrow> envelope \<Rightarrow> envelope \<Rightarrow> Result \<times> envelope \<times> ordering_buffer \<Rightarrow> bool" where
  "ob_ingested s msg out = (\<lambda>(r, out', s').
     let src = source_id msg; seq = sequence_num msg; cur = ob_cursor s src in
     if seq = cur then r = OK \<and> out' = msg \<and> ob_cursor s' src = seq_succ cur \<and> ob_held s' = ob_held s
     else ob_cursor s' src = cur \<and> out' = out \<and>
       (if seq < cur \<or> ob_holding s src seq then r = ERR_AGAIN \<and> ob_held s' = ob_held s
        else if 4 \<le> length (ob_holds_of s src) \<or> size (ob_held s) = 8 then r = ERR_FULL \<and> ob_held s' = ob_held s
        else r = ERR_AGAIN \<and> ob_held s' = add_mset msg (ob_held s)))"

text \<open>A run of the gate: messages ingested and releases tried, in any interleaving; the result lists the
  ordered messages handed to the application, in order of delivery.\<close>

datatype ob_op = Ingest envelope u64 | Release NodeId

fun ob_op_wf :: "ob_op \<Rightarrow> bool" where
  "ob_op_wf (Ingest msg now) \<longleftrightarrow> env_wf msg \<and> source_id msg \<noteq> 0 \<and> 0 < now"
| "ob_op_wf (Release src) \<longleftrightarrow> src \<noteq> 0"

fun ob_op_source :: "ob_op \<Rightarrow> NodeId" where
  "ob_op_source (Ingest msg now) = source_id msg"
| "ob_op_source (Release src) = src"

fun ob_exec :: "ordering_buffer \<Rightarrow> ob_op \<Rightarrow> (Result \<times> envelope \<times> ordering_buffer) option" where
  "ob_exec s (Ingest msg now) = OrderingBuffer_ingest s msg envelope_init now"
| "ob_exec s (Release src) = OrderingBuffer_try_release_next s src envelope_init"

primrec ob_run :: "ordering_buffer \<Rightarrow> ob_op list \<Rightarrow> (envelope list \<times> ordering_buffer) option" where
  "ob_run s [] = Some ([], s)"
| "ob_run s (op # ops) = do {
     (r, out, s) \<leftarrow> ob_exec s op;
     (ds, s) \<leftarrow> ob_run s ops;
     Some (if r = OK \<and> \<not> envelope_is_control out \<and> sequence_num out \<noteq> 0 then out # ds else ds, s)
   }"

primrec seqs_from :: "u32 \<Rightarrow> nat \<Rightarrow> u32 list" where
  "seqs_from c 0 = []"
| "seqs_from c (Suc n) = c # seqs_from (seq_succ c) n"

definition ob_step_ok :: "ordering_buffer \<Rightarrow> Result \<times> envelope \<times> ordering_buffer \<Rightarrow> bool" where
  "ob_step_ok s = (\<lambda>(r, out, s').
     if r = OK \<and> \<not> envelope_is_control out \<and> sequence_num out \<noteq> 0
     then sequence_num out = ob_cursor s (source_id out) \<and>
       (\<forall>x. ob_cursor s' x = (if x = source_id out then seq_succ (ob_cursor s x) else ob_cursor s x))
     else (\<forall>x. ob_cursor s' x = ob_cursor s x))"

text \<open>Concrete messages and a fresh buffer, for the witnesses.\<close>

definition ob_msg :: "NodeId \<Rightarrow> u32 \<Rightarrow> envelope" where
  "ob_msg src seq = envelope_init\<lparr> message_type := DATA, source_id := src, sequence_num := seq \<rparr>"

definition ob_fresh :: ordering_buffer where
  "ob_fresh = \<lparr> ob_hold = replicate 8 \<lparr> ho_env = envelope_init, ho_active = False \<rparr>,
     ob_peers = replicate 16 \<lparr> pe_src = 0, pe_next_expected_seq = 1, pe_active = False, pe_lru_stamp = 0 \<rparr>,
     ob_initialized = True, ob_local_node = 9, ob_lru_counter = 0 \<rparr>"

section \<open>The peer table\<close>

lemma ob_inv_len: "ob_inv s \<Longrightarrow> length (ob_hold s) = 8" "ob_inv s \<Longrightarrow> length (ob_peers s) = 16"
  "ob_inv s \<Longrightarrow> ob_initialized s"
  by (simp_all add: ob_inv_def)

lemma find_peer_eq: "ob_inv s \<Longrightarrow> src \<noteq> 0 \<Longrightarrow> OrderingBuffer_find_peer s src = Some (first_idx (ob_is_peer src) (ob_peers s))"
  by (simp add: OrderingBuffer_find_peer_def ob_inv_len ob_is_peer_def [abs_def])

lemma count_holds_eq: "ob_inv s \<Longrightarrow> src \<noteq> 0 \<Longrightarrow> OrderingBuffer_count_holds_for_peer s src = Some (length (ob_holds_of s src))"
proof -
  assume "ob_inv s" "src \<noteq> 0"
  moreover from this have "length (ob_holds_of s src) \<le> 4" by (simp add: ob_inv_def)
  ultimately show ?thesis
    by (simp add: OrderingBuffer_count_holds_for_peer_def ob_inv_len ob_holds_of_def)
qed

lemma find_held_eq: "ob_inv s \<Longrightarrow> src \<noteq> 0 \<Longrightarrow> OrderingBuffer_find_held s src seq =
    Some (first_idx (\<lambda>h. ho_active h \<and> source_id (ho_env h) = src \<and> sequence_num (ho_env h) = seq) (ob_hold s))"
  by (simp add: OrderingBuffer_find_held_def ob_inv_len)

text \<open>The pigeonhole argument behind the eviction: sixteen distinct active peers, eight hold slots.\<close>

lemma zero_hold_peer_exists:
  assumes "ob_inv s" and "\<forall>p \<in> set (ob_peers s). pe_active p"
  shows "\<exists>i < 16. pe_active (ob_peers s ! i) \<and> ob_holds_of s (pe_src (ob_peers s ! i)) = []"
proof (rule ccontr)
  assume none: "\<not> ?thesis"
  have len: "length (ob_peers s) = 16" "length (ob_hold s) = 8" using assms(1) by (simp_all add: ob_inv_len)
  have d: "distinct (map pe_src (ob_peers s))"
    using assms len by (auto simp: distinct_conv_nth ob_inv_def)
  have sub: "set (map pe_src (ob_peers s)) \<subseteq> (\<lambda>h. source_id (ho_env h)) ` set (ob_hold s)"
  proof
    fix src assume "src \<in> set (map pe_src (ob_peers s))"
    then obtain i where i: "i < 16" "src = pe_src (ob_peers s ! i)" using len by (auto simp: in_set_conv_nth)
    with none assms(2) len have "ob_holds_of s src \<noteq> []" by auto
    then obtain h where "h \<in> set (ob_holds_of s src)" by (cases "ob_holds_of s src") auto
    then show "src \<in> (\<lambda>h. source_id (ho_env h)) ` set (ob_hold s)" by (auto simp: ob_holds_of_def)
  qed
  have "card (set (map pe_src (ob_peers s))) \<le> card ((\<lambda>h. source_id (ho_env h)) ` set (ob_hold s))"
    using sub by (intro card_mono) simp_all
  also have "\<dots> \<le> card (set (ob_hold s))" by (rule card_image_le) simp
  also have "\<dots> \<le> 8" using card_length [of "ob_hold s"] len by simp
  finally show False using distinct_card [OF d] len by simp
qed

lemma no_holds_scan_spec:
  assumes "ob_inv s" and "set is \<subseteq> {..<16}"
    and "\<exists>i \<in> set is. pe_active (ob_peers s ! i) \<and> ob_holds_of s (pe_src (ob_peers s ! i)) = []"
  shows "\<exists>i \<in> set is. no_holds_scan s is = Some (Some i) \<and> pe_active (ob_peers s ! i) \<and>
    ob_holds_of s (pe_src (ob_peers s ! i)) = []"
  using assms(2,3)
proof (induction "is")
  case Nil
  then show ?case by simp
next
  case (Cons i "is")
  have "i < 16" using Cons.prems by simp
  then have "pe_active (ob_peers s ! i) \<Longrightarrow> pe_src (ob_peers s ! i) \<noteq> 0"
    using assms(1) by (simp add: ob_inv_def)
  with Cons count_holds_eq [OF assms(1)] show ?case
    by (cases "pe_active (ob_peers s ! i) \<and> ob_holds_of s (pe_src (ob_peers s ! i)) = []") auto
qed


lemma ob_inv_lru [simp]: "ob_inv (s\<lparr> ob_lru_counter := c \<rparr>) = ob_inv s"
  by (simp add: ob_inv_def ob_known_def ob_holds_of_def)

lemma ob_cursor_lru [simp]: "ob_cursor (s\<lparr> ob_lru_counter := c \<rparr>) src = ob_cursor s src"
  by (simp add: ob_cursor_def split: option.split)

lemma ob_inv_unique:
  "ob_inv s \<Longrightarrow> i < 16 \<Longrightarrow> j < 16 \<Longrightarrow> ob_is_peer src (ob_peers s ! i) \<Longrightarrow> ob_is_peer src (ob_peers s ! j) \<Longrightarrow> i = j"
  unfolding ob_inv_def ob_is_peer_def by blast

lemma find_peer_index:
  assumes "ob_inv s" and "i < 16" and "ob_is_peer src (ob_peers s ! i)"
  shows "first_idx (ob_is_peer src) (ob_peers s) = Some i"
proof -
  have len: "length (ob_peers s) = 16" using assms(1) by (rule ob_inv_len)
  have "ob_peers s ! i \<in> set (ob_peers s)" using assms(2) len by simp
  from first_idx_Some_ex [OF this, of "ob_is_peer src"] assms(3) obtain j where
    j: "first_idx (ob_is_peer src) (ob_peers s) = Some j" by blast
  from first_idx_SomeD [OF j] len have "j < 16" "ob_is_peer src (ob_peers s ! j)" by simp_all
  with ob_inv_unique [OF assms(1)] assms j show ?thesis by metis
qed

lemma ob_cursor_peer:
  "ob_inv s \<Longrightarrow> i < 16 \<Longrightarrow> ob_is_peer src (ob_peers s ! i) \<Longrightarrow> ob_cursor s src = pe_next_expected_seq (ob_peers s ! i)"
  by (simp add: ob_cursor_def find_peer_index)

lemma ob_known_iff: "ob_inv s \<Longrightarrow> src \<in> ob_known s \<longleftrightarrow> (\<exists>i < 16. ob_is_peer src (ob_peers s ! i))"
  by (force simp: ob_known_def ob_is_peer_def in_set_conv_nth dest: ob_inv_len)

lemma find_peer_None: "ob_inv s \<Longrightarrow> first_idx (ob_is_peer src) (ob_peers s) = None \<longleftrightarrow> src \<notin> ob_known s"
  by (auto simp: first_idx_None ob_known_def ob_is_peer_def)

lemma ob_cursor_unknown: "ob_inv s \<Longrightarrow> src \<notin> ob_known s \<Longrightarrow> ob_cursor s src = 1"
  by (simp add: ob_cursor_def find_peer_None [symmetric])

lemma ob_hold_known: "ob_inv s \<Longrightarrow> h \<in> set (ob_hold s) \<Longrightarrow> ho_active h \<Longrightarrow> source_id (ho_env h) \<in> ob_known s"
  by (simp add: ob_inv_def)

text \<open>Replacing a table entry.\<close>

lemma ob_cursor_update:
  assumes "ob_inv s" and "i < 16" and "ob_inv (s\<lparr> ob_peers := (ob_peers s)[i := p] \<rparr>)"
  shows "ob_cursor (s\<lparr> ob_peers := (ob_peers s)[i := p] \<rparr>) x =
    (if ob_is_peer x p then pe_next_expected_seq p
     else if ob_is_peer x (ob_peers s ! i) then 1 else ob_cursor s x)"
proof -
  let ?s = "s\<lparr> ob_peers := (ob_peers s)[i := p] \<rparr>"
  have len: "length (ob_peers s) = 16" using assms(1) by (rule ob_inv_len)
  have nth: "ob_peers ?s ! j = (if j = i then p else ob_peers s ! j)" if "j < 16" for j
    using that len by simp
  show ?thesis
  proof (cases "ob_is_peer x p")
    case True
    with ob_cursor_peer [OF assms(3,2), of x] nth [OF assms(2)] show ?thesis by simp
  next
    case notp: False
    show ?thesis
    proof (cases "ob_is_peer x (ob_peers s ! i)")
      case True
      have "x \<notin> ob_known ?s"
        using notp ob_inv_unique [OF assms(1,2) _ True] nth ob_known_iff [OF assms(3), of x] by metis
      with notp True ob_cursor_unknown [OF assms(3)] show ?thesis by simp
    next
      case noti: False
      have iff: "ob_is_peer x (ob_peers ?s ! j) \<longleftrightarrow> ob_is_peer x (ob_peers s ! j)" if "j < 16" for j
        using nth [OF that] notp noti by auto
      show ?thesis
      proof (cases "x \<in> ob_known s")
        case True
        then obtain j where j: "j < 16" "ob_is_peer x (ob_peers s ! j)" using ob_known_iff [OF assms(1)] by blast
        moreover have "j \<noteq> i" using j noti by auto
        ultimately show ?thesis
          using ob_cursor_peer [OF assms(1) j] ob_cursor_peer [OF assms(3) j(1)] iff nth notp noti by simp
      next
        case False
        then have "x \<notin> ob_known ?s" using iff ob_known_iff [OF assms(1)] ob_known_iff [OF assms(3)] by blast
        with False assms notp noti show ?thesis by (simp add: ob_cursor_unknown)
      qed
    qed
  qed
qed

lemma ob_known_update:
  assumes "length (ob_peers s) = 16" and "i < 16"
  shows "ob_known (s\<lparr> ob_peers := (ob_peers s)[i := p] \<rparr>) \<subseteq> (if pe_active p then {pe_src p} else {}) \<union> ob_known s"
    and "ob_known s \<subseteq> (if pe_active (ob_peers s ! i) then {pe_src (ob_peers s ! i)} else {}) \<union>
           ob_known (s\<lparr> ob_peers := (ob_peers s)[i := p] \<rparr>)"
    and "pe_active p \<Longrightarrow> pe_src p \<in> ob_known (s\<lparr> ob_peers := (ob_peers s)[i := p] \<rparr>)"
proof -
  show "ob_known (s\<lparr> ob_peers := (ob_peers s)[i := p] \<rparr>) \<subseteq> (if pe_active p then {pe_src p} else {}) \<union> ob_known s"
    by (auto simp: ob_known_def dest!: set_update_subset_insert [THEN subsetD])
  show "ob_known s \<subseteq> (if pe_active (ob_peers s ! i) then {pe_src (ob_peers s ! i)} else {}) \<union>
           ob_known (s\<lparr> ob_peers := (ob_peers s)[i := p] \<rparr>)"
  proof
    fix x assume "x \<in> ob_known s"
    then obtain j where j: "j < 16" "pe_active (ob_peers s ! j)" "x = pe_src (ob_peers s ! j)"
      using assms(1) by (auto simp: ob_known_def in_set_conv_nth)
    show "x \<in> (if pe_active (ob_peers s ! i) then {pe_src (ob_peers s ! i)} else {}) \<union>
           ob_known (s\<lparr> ob_peers := (ob_peers s)[i := p] \<rparr>)"
    proof (cases "j = i")
      case False
      then have "(ob_peers s)[i := p] ! j = ob_peers s ! j" by simp
      moreover have "(ob_peers s)[i := p] ! j \<in> set ((ob_peers s)[i := p])" using j(1) assms(1) by simp
      ultimately show ?thesis using j by (auto simp: ob_known_def)
    qed (use j in simp)
  qed
  show "pe_active p \<Longrightarrow> pe_src p \<in> ob_known (s\<lparr> ob_peers := (ob_peers s)[i := p] \<rparr>)"
    using assms by (auto simp: ob_known_def set_update_memI)
qed

lemma ob_inv_peer_update [inv_intro]:
  assumes "ob_inv s" and "i < 16" and "pe_active p \<Longrightarrow> pe_src p \<noteq> 0 \<and> pe_next_expected_seq p \<noteq> 0"
    and "\<And>j. j < 16 \<Longrightarrow> j \<noteq> i \<Longrightarrow> pe_active p \<Longrightarrow> \<not> ob_is_peer (pe_src p) (ob_peers s ! j)"
    and "pe_active (ob_peers s ! i) \<Longrightarrow> \<not> ob_is_peer (pe_src (ob_peers s ! i)) p \<Longrightarrow>
           ob_holds_of s (pe_src (ob_peers s ! i)) = []"
  shows "ob_inv (s\<lparr> ob_peers := (ob_peers s)[i := p] \<rparr>)"
proof -
  let ?s = "s\<lparr> ob_peers := (ob_peers s)[i := p] \<rparr>"
  have len: "length (ob_peers s) = 16" using assms(1) by (rule ob_inv_len)
  note K = ob_known_update [OF len assms(2), of p]
  have "source_id (ho_env h) \<in> ob_known ?s" if h: "h \<in> set (ob_hold s)" "ho_active h" for h
  proof (cases "pe_active (ob_peers s ! i) \<and> source_id (ho_env h) = pe_src (ob_peers s ! i)")
    case True
    with h have "ob_holds_of s (pe_src (ob_peers s ! i)) \<noteq> []" by (auto simp: ob_holds_of_def filter_empty_conv)
    with assms(5) True have "ob_is_peer (pe_src (ob_peers s ! i)) p" by blast
    with True K(3) show ?thesis by (simp add: ob_is_peer_def)
  next
    case False
    with ob_hold_known [OF assms(1) h] K(2) show ?thesis by (auto split: if_splits)
  qed
  moreover have "\<forall>q \<in> set ((ob_peers s)[i := p]). pe_active q \<longrightarrow> pe_src q \<noteq> 0 \<and> pe_next_expected_seq q \<noteq> 0"
    using assms(1,3) by (auto simp: ob_inv_def dest!: set_update_subset_insert [THEN subsetD])
  moreover have "\<forall>a < 16. \<forall>b < 16. pe_active ((ob_peers s)[i := p] ! a) \<and> pe_active ((ob_peers s)[i := p] ! b) \<and>
      pe_src ((ob_peers s)[i := p] ! a) = pe_src ((ob_peers s)[i := p] ! b) \<longrightarrow> a = b"
  proof (intro allI impI)
    fix a b assume ab: "a < 16" "b < 16" and "pe_active ((ob_peers s)[i := p] ! a) \<and> pe_active ((ob_peers s)[i := p] ! b) \<and>
      pe_src ((ob_peers s)[i := p] ! a) = pe_src ((ob_peers s)[i := p] ! b)"
    with len assms(4) [of a] assms(4) [of b] ob_inv_unique [OF assms(1) ab] show "a = b"
      by (cases "a = i"; cases "b = i") (auto simp: ob_is_peer_def)
  qed
  ultimately show ?thesis
    using assms(1) len unfolding ob_inv_def by (simp add: ob_holds_of_def)
qed


section \<open>Finding and creating a peer\<close>

lemma evict_spec:
  assumes "ob_inv s" and "\<forall>p \<in> set (ob_peers s). pe_active p"
  shows "\<exists>i < 16. pe_active (ob_peers s ! i) \<and> ob_holds_of s (pe_src (ob_peers s ! i)) = [] \<and>
    OrderingBuffer_evict_lru_peer s =
      Some (i, s\<lparr> ob_peers := (ob_peers s)[i := (ob_peers s ! i)\<lparr> pe_active := False \<rparr>] \<rparr>)"
proof -
  obtain n :: nat where n: "n = 16" by simp
  from zero_hold_peer_exists [OF assms] n have
    "\<exists>i \<in> set [0..<n]. pe_active (ob_peers s ! i) \<and> ob_holds_of s (pe_src (ob_peers s ! i)) = []" by auto
  moreover have "set [0..<n] \<subseteq> {..<16}" using n by auto
  ultimately obtain i where
    i: "i < 16" "no_holds_scan s [0..<n] = Some (Some i)" "pe_active (ob_peers s ! i)"
      "ob_holds_of s (pe_src (ob_peers s ! i)) = []"
    using no_holds_scan_spec [OF assms(1), of "[0..<n]"] n by (auto simp del: upt_rec_numeral)
  with assms(1) n show ?thesis
    by (auto simp: OrderingBuffer_evict_lru_peer_def OrderingBuffer_evict_peer_no_holds_def ob_inv_len
        simp del: upt_rec_numeral)
qed

lemma all_active_known:
  assumes "ob_inv s" and "\<forall>p \<in> set (ob_peers s). pe_active p"
  shows "card (ob_known s) = 16"
proof -
  have len: "length (ob_peers s) = 16" using assms(1) by (rule ob_inv_len)
  have "distinct (map pe_src (ob_peers s))" using assms len by (auto simp: distinct_conv_nth ob_inv_def)
  moreover have "ob_known s = set (map pe_src (ob_peers s))" using assms(2) by (auto simp: ob_known_def)
  ultimately show ?thesis using len distinct_card [of "map pe_src (ob_peers s)"] by simp
qed

lemma new_peer_spec:
  assumes "ob_inv s" and "src \<noteq> 0" and "src \<notin> ob_known s" and "i < 16"
    and "pe_active (ob_peers s ! i) \<Longrightarrow> ob_holds_of s (pe_src (ob_peers s ! i)) = []"
  shows "ob_inv (ob_new_peer i src s)" and "ob_is_peer src (ob_peers (ob_new_peer i src s) ! i)"
    and "ob_cursor (ob_new_peer i src s) x =
      (if ob_is_peer x (ob_peers s ! i) then 1 else ob_cursor s x)"
    and "ob_known (ob_new_peer i src s) \<subseteq> insert src (ob_known s)"
proof -
  let ?p = "\<lparr> pe_src = src, pe_next_expected_seq = 1, pe_active = True, pe_lru_stamp = ob_lru_counter s + 1 \<rparr>"
  let ?s = "s\<lparr> ob_peers := (ob_peers s)[i := ?p] \<rparr>"
  have len: "length (ob_peers s) = 16" using assms(1) by (rule ob_inv_len)
  have inv: "ob_inv ?s"
    using assms by (intro ob_inv_peer_update) (auto simp: ob_known_iff)
  have eq: "ob_new_peer i src s = ?s\<lparr> ob_lru_counter := ob_lru_counter s + 1 \<rparr>" by (simp add: ob_new_peer_def)
  then show "ob_inv (ob_new_peer i src s)" using inv by simp
  show "ob_is_peer src (ob_peers (ob_new_peer i src s) ! i)"
    using len assms(4) by (simp add: ob_new_peer_def ob_is_peer_def)
  have "ob_cursor s src = 1" using assms(1,3) by (rule ob_cursor_unknown)
  then show "ob_cursor (ob_new_peer i src s) x = (if ob_is_peer x (ob_peers s ! i) then 1 else ob_cursor s x)"
    unfolding eq ob_cursor_lru ob_cursor_update [OF assms(1,4) inv] by (auto simp: ob_is_peer_def)
  have "ob_known (ob_new_peer i src s) = ob_known ?s" by (simp add: eq ob_known_def)
  then show "ob_known (ob_new_peer i src s) \<subseteq> insert src (ob_known s)"
    using ob_known_update(1) [OF len assms(4), of ?p] by auto
qed

text \<open>The peer found or created; a peer may be forgotten, but only one without held messages and only
  when sixteen are tracked and the source is a new one.\<close>

lemma get_or_create_spec:
  assumes "ob_inv s" and "src \<noteq> 0"
  shows "returns (OrderingBuffer_get_or_create_peer s src) (\<lambda>(i, s'). ob_inv s' \<and> i < 16 \<and>
    ob_is_peer src (ob_peers s' ! i) \<and> ob_hold s' = ob_hold s \<and> ob_known s' \<subseteq> insert src (ob_known s) \<and>
    ob_cursor s' src = ob_cursor s src \<and> ob_others_kept src s s')"
proof (cases "src \<in> ob_known s")
  case True
  then obtain i where i: "i < 16" "ob_is_peer src (ob_peers s ! i)" using ob_known_iff [OF assms(1)] by blast
  note f = find_peer_index [OF assms(1) i]
  have len: "length (ob_peers s) = 16" using assms(1) by (rule ob_inv_len)
  let ?p = "\<lambda>c. (ob_peers s ! i)\<lparr> pe_lru_stamp := c \<rparr>"
  have inv: "ob_inv (s\<lparr> ob_peers := (ob_peers s)[i := ?p c] \<rparr>)" for c
    using assms(1) i(1)
  proof (rule ob_inv_peer_update)
    show "pe_active (?p c) \<Longrightarrow> pe_src (?p c) \<noteq> 0 \<and> pe_next_expected_seq (?p c) \<noteq> 0"
      using assms(1) i(1) by (simp add: ob_inv_def)
    show "\<not> ob_is_peer (pe_src (?p c)) (ob_peers s ! j)" if "j < 16" "j \<noteq> i" "pe_active (?p c)" for j
      using ob_inv_unique [OF assms(1) that(1) i(1), of src] i(2) that by (auto simp: ob_is_peer_def)
  qed (simp add: ob_is_peer_def)
  have cur: "ob_cursor (s\<lparr> ob_peers := (ob_peers s)[i := ?p c] \<rparr>) x = ob_cursor s x" for c x
    unfolding ob_cursor_update [OF assms(1) i(1) inv]
    using ob_cursor_peer [OF assms(1) i(1), of x] by (auto simp: ob_is_peer_def)
  have kn: "ob_known (s\<lparr> ob_peers := (ob_peers s)[i := ?p c], ob_lru_counter := d \<rparr>) \<subseteq> insert src (ob_known s)" for c d
    using ob_known_update(1) [OF len i(1), of "?p c"] i(2) by (auto simp: ob_known_def ob_is_peer_def split: if_splits)
  have "ob_is_peer src (?p c)" for c using i(2) by (simp add: ob_is_peer_def)
  with f inv cur kn i len assms show ?thesis
    by (simp add: OrderingBuffer_get_or_create_peer_def find_peer_eq ob_inv_len ob_others_kept_def)
next
  case False
  then have f: "first_idx (ob_is_peer src) (ob_peers s) = None" using find_peer_None [OF assms(1)] by simp
  show ?thesis
  proof (cases "first_idx (\<lambda>p. \<not> pe_active p) (ob_peers s)")
    case (Some i)
    then have i: "i < 16" "\<not> pe_active (ob_peers s ! i)"
      using first_idx_SomeD [OF Some] ob_inv_len(2) [OF assms(1)] by simp_all
    note N = new_peer_spec [OF assms False i(1)]
    from i(2) N f Some assms i(1) show ?thesis
      by (simp add: OrderingBuffer_get_or_create_peer_def find_peer_eq ob_inv_len ob_others_kept_def)
         (simp add: ob_is_peer_def ob_new_peer_def)
  next
    case None
    then have all: "\<forall>p \<in> set (ob_peers s). pe_active p" by (auto simp: first_idx_None)
    from evict_spec [OF assms(1) all] obtain i where i: "i < 16" "pe_active (ob_peers s ! i)"
        "ob_holds_of s (pe_src (ob_peers s ! i)) = []"
        "OrderingBuffer_evict_lru_peer s =
          Some (i, s\<lparr> ob_peers := (ob_peers s)[i := (ob_peers s ! i)\<lparr> pe_active := False \<rparr>] \<rparr>)"
      by blast
    note N = new_peer_spec [OF assms False i(1)]
    let ?v = "pe_src (ob_peers s ! i)"
    have eq: "ob_new_peer i src (s\<lparr> ob_peers := (ob_peers s)[i := (ob_peers s ! i)\<lparr> pe_active := False \<rparr>] \<rparr>) =
      ob_new_peer i src s" by (simp add: ob_new_peer_def)
    have cur: "ob_cursor (ob_new_peer i src s) x = (if x = ?v then 1 else ob_cursor s x)" for x
      using N(3) i(2,3) by (auto simp: ob_is_peer_def)
    have sv: "ob_cursor (ob_new_peer i src s) src = ob_cursor s src"
      using cur ob_cursor_unknown [OF assms(1) False] by simp
    have oth: "ob_others_kept src s (ob_new_peer i src s)"
      using cur i(3) False all_active_known [OF assms(1) all] unfolding ob_others_kept_def by blast
    from N(1,2,4) i sv oth eq f None assms show ?thesis
      by (simp add: OrderingBuffer_get_or_create_peer_def find_peer_eq ob_inv_len)
         (simp add: ob_new_peer_def)
  qed
qed


section \<open>Cursors and hold slots\<close>

lemma set_cursor:
  assumes "ob_inv s" and "i < 16" and "ob_is_peer src (ob_peers s ! i)" and "c \<noteq> 0"
  defines "s' \<equiv> s\<lparr> ob_peers := (ob_peers s)[i := (ob_peers s ! i)\<lparr> pe_next_expected_seq := c \<rparr>] \<rparr>"
  shows "ob_inv s'" and "ob_cursor s' x = (if x = src then c else ob_cursor s x)" and "ob_known s' = ob_known s"
    and "ob_hold s' = ob_hold s"
proof -
  let ?p = "(ob_peers s ! i)\<lparr> pe_next_expected_seq := c \<rparr>"
  have len: "length (ob_peers s) = 16" using assms(1) by (rule ob_inv_len)
  have src: "pe_src (ob_peers s ! i) = src" "pe_active (ob_peers s ! i)" using assms(3) by (simp_all add: ob_is_peer_def)
  show inv: "ob_inv s'"
    unfolding s'_def using assms(1,2)
  proof (rule ob_inv_peer_update)
    show "pe_active ?p \<Longrightarrow> pe_src ?p \<noteq> 0 \<and> pe_next_expected_seq ?p \<noteq> 0"
      using assms(1,2,4) len by (auto simp: ob_inv_def)
    show "\<not> ob_is_peer (pe_src ?p) (ob_peers s ! j)" if "j < 16" "j \<noteq> i" "pe_active ?p" for j
      using ob_inv_unique [OF assms(1) that(1) assms(2), of src] assms(3) that src by auto
  qed (simp add: ob_is_peer_def)
  show "ob_cursor s' x = (if x = src then c else ob_cursor s x)"
    unfolding s'_def ob_cursor_update [OF assms(1,2) inv [unfolded s'_def]] using src by (auto simp: ob_is_peer_def)
  show "ob_known s' = ob_known s"
    unfolding s'_def using ob_known_update [OF len assms(2), of ?p] src
      ob_known_iff [OF assms(1), of src] assms(2,3) by auto
  show "ob_hold s' = ob_hold s" by (simp add: s'_def)
qed

lemma advance_next_spec:
  assumes "ob_inv s" and "i < 16" and "ob_is_peer src (ob_peers s ! i)"
  shows "\<exists>s'. OrderingBuffer_advance_next_expected s i = Some s' \<and> ob_inv s' \<and> ob_hold s' = ob_hold s \<and>
    ob_known s' = ob_known s \<and> (\<forall>x. ob_cursor s' x = (if x = src then seq_succ (ob_cursor s src) else ob_cursor s x))"
proof -
  have "seq_succ c \<noteq> 0" for c by (simp add: seq_succ_def)
  note C = set_cursor [OF assms this]
  have "ob_cursor s src = pe_next_expected_seq (ob_peers s ! i)" using assms by (rule ob_cursor_peer)
  then have "OrderingBuffer_advance_next_expected s i =
    Some (s\<lparr> ob_peers := (ob_peers s)[i := (ob_peers s ! i)\<lparr> pe_next_expected_seq := seq_succ (ob_cursor s src) \<rparr>] \<rparr>)"
    using assms by (simp add: OrderingBuffer_advance_next_expected_def seq_succ_def ob_is_peer_def)
  with C show ?thesis by blast
qed

lemma ob_hold_simps [simp]:
  "ob_known (s\<lparr> ob_hold := h \<rparr>) = ob_known s" "ob_cursor (s\<lparr> ob_hold := h \<rparr>) x = ob_cursor s x"
  by (simp_all add: ob_known_def ob_cursor_def split: option.split)

lemma ob_held_cong: "ob_hold s' = ob_hold s \<Longrightarrow> ob_held s' = ob_held s"
  by (simp add: ob_held_def)

lemma ob_inv_hold_add [inv_intro]:
  assumes "ob_inv s" and "i < 8" and "\<not> ho_active (ob_hold s ! i)" and "source_id e \<in> ob_known s"
    and "sequence_num e \<noteq> 0" and "env_wf e" and "length (ob_holds_of s (source_id e)) < 4"
    and "\<not> envelope_is_control e"
  shows "ob_inv (s\<lparr> ob_hold := (ob_hold s)[i := \<lparr> ho_env = e, ho_active = True \<rparr>] \<rparr>)"
    and "ob_held (s\<lparr> ob_hold := (ob_hold s)[i := \<lparr> ho_env = e, ho_active = True \<rparr>] \<rparr>) = add_mset e (ob_held s)"
proof -
  let ?h = "\<lparr> ho_env = e, ho_active = True \<rparr>"
  have len: "length (ob_hold s) = 8" using assms(1) by (rule ob_inv_len)
  have cnt: "length (ob_holds_of (s\<lparr> ob_hold := (ob_hold s)[i := ?h] \<rparr>) x) \<le> 4" for x
  proof (cases "x = source_id e")
    case True
    with len assms(2,3,7) length_filter_activate [of i "ob_hold s" "\<lambda>h. ho_active h \<and> source_id (ho_env h) = x" ?h]
    show ?thesis by (simp add: ob_holds_of_def)
  next
    case False
    with len assms(1-3) length_filter_same [of i "ob_hold s" "\<lambda>h. ho_active h \<and> source_id (ho_env h) = x" ?h]
    show ?thesis by (simp add: ob_holds_of_def ob_inv_def)
  qed
  moreover have "\<forall>h \<in> set ((ob_hold s)[i := ?h]). ho_active h \<longrightarrow>
      source_id (ho_env h) \<in> ob_known s \<and> sequence_num (ho_env h) \<noteq> 0 \<and> env_wf (ho_env h) \<and>
      \<not> envelope_is_control (ho_env h)"
    using assms(1,4-6,8) by (auto simp: ob_inv_def dest!: set_update_subset_insert [THEN subsetD])
  ultimately show "ob_inv (s\<lparr> ob_hold := (ob_hold s)[i := ?h] \<rparr>)"
    using assms(1) unfolding ob_inv_def by simp
  show "ob_held (s\<lparr> ob_hold := (ob_hold s)[i := ?h] \<rparr>) = add_mset e (ob_held s)"
    using mset_filter_activate [of i "ob_hold s" ho_active ?h] assms(2,3) len by (simp add: ob_held_def)
qed

lemma ob_released_count:
  "ob_released hs hs' \<Longrightarrow> length (filter (\<lambda>h. ho_active h \<and> P (ho_env h)) hs') \<le> length (filter (\<lambda>h. ho_active h \<and> P (ho_env h)) hs)"
  unfolding ob_released_def by (induction rule: list_all2_induct) auto

lemma ob_released_mem:
  "ob_released hs hs' \<Longrightarrow> h' \<in> set hs' \<Longrightarrow> ho_active h' \<Longrightarrow> h' \<in> set hs"
  unfolding ob_released_def by (induction rule: list_all2_induct) auto

lemma ob_inv_release [inv_intro]:
  assumes "ob_inv s" and "ob_released (ob_hold s) hs"
  shows "ob_inv (s\<lparr> ob_hold := hs \<rparr>)"
proof -
  have "length hs = 8" using assms by (auto simp: ob_released_def ob_inv_len dest: list_all2_lengthD)
  moreover have "length (ob_holds_of (s\<lparr> ob_hold := hs \<rparr>) x) \<le> 4" for x
    using ob_released_count [OF assms(2), of "\<lambda>e. source_id e = x"] assms(1)
    by (simp add: ob_holds_of_def ob_inv_def) (meson le_trans)
  ultimately show ?thesis
    using assms ob_released_mem [OF assms(2)] unfolding ob_inv_def by simp
qed

lemma ob_released_free: "ob_released hs (ob_free_holds P hs)"
  by (simp add: ob_released_def ob_free_holds_def list_all2_conv_all_nth)

lemma ob_released_update: "ob_released hs (hs[i := (hs ! i)\<lparr> ho_active := False \<rparr>])"
  unfolding ob_released_def list_all2_conv_all_nth
  by (cases "i < length hs") (auto simp: nth_list_update)

section \<open>The operations\<close>

lemma ob_holding_iff:
  "ob_holding s src seq \<longleftrightarrow> (\<exists>h \<in> set (ob_hold s). ho_active h \<and> source_id (ho_env h) = src \<and> sequence_num (ho_env h) = seq)"
  by (auto simp: ob_holding_def ob_held_def)

lemma find_held_cases:
  assumes "ob_inv s" and "src \<noteq> 0"
  shows "if ob_holding s src seq
    then \<exists>i < 8. OrderingBuffer_find_held s src seq = Some (Some i) \<and> ho_active (ob_hold s ! i) \<and>
      source_id (ho_env (ob_hold s ! i)) = src \<and> sequence_num (ho_env (ob_hold s ! i)) = seq
    else OrderingBuffer_find_held s src seq = Some None"
proof (cases "first_idx (\<lambda>h. ho_active h \<and> source_id (ho_env h) = src \<and> sequence_num (ho_env h) = seq) (ob_hold s)")
  case None
  then have "\<not> ob_holding s src seq" by (auto simp: ob_holding_iff first_idx_None)
  with None find_held_eq [OF assms] show ?thesis by simp
next
  case (Some i)
  from first_idx_SomeD [OF Some] ob_inv_len(1) [OF assms(1)] have i: "i < 8" "ho_active (ob_hold s ! i)"
    "source_id (ho_env (ob_hold s ! i)) = src" "sequence_num (ho_env (ob_hold s ! i)) = seq" by simp_all
  moreover have "ob_hold s ! i \<in> set (ob_hold s)" using i(1) ob_inv_len(1) [OF assms(1)] by simp
  ultimately have "ob_holding s src seq" by (auto simp: ob_holding_iff)
  with i Some find_held_eq [OF assms] show ?thesis by auto
qed

lemma ob_held_full: "ob_inv s \<Longrightarrow> size (ob_held s) = 8 \<longleftrightarrow> (\<forall>h \<in> set (ob_hold s). ho_active h)"
proof -
  assume "ob_inv s"
  then have "length (ob_hold s) = 8" by (rule ob_inv_len)
  moreover have "size (ob_held s) = length (filter ho_active (ob_hold s))"
    by (simp add: ob_held_def length_filter_size)
  ultimately show ?thesis using filter_id_conv [of ho_active "ob_hold s"]
    by (metis filter_True length_filter_less linorder_not_less order_refl)
qed

text \<open>The hold branch of \<open>ingest\<close>.\<close>

lemma hold_spec:
  assumes "ob_inv s" and "i < 16" and "ob_is_peer (source_id e) (ob_peers s ! i)" and "sequence_num e \<noteq> 0" and "env_wf e"
    and "length (ob_holds_of s (source_id e)) < 4" and "\<not> envelope_is_control e"
  shows "if size (ob_held s) = 8 then OrderingBuffer_find_free_hold s = Some None
    else \<exists>k < 8. OrderingBuffer_find_free_hold s = Some (Some k) \<and>
      ob_inv (s\<lparr> ob_hold := (ob_hold s)[k := \<lparr> ho_env = e, ho_active = True \<rparr>] \<rparr>) \<and>
      ob_held (s\<lparr> ob_hold := (ob_hold s)[k := \<lparr> ho_env = e, ho_active = True \<rparr>] \<rparr>) = add_mset e (ob_held s)"
proof (cases "first_idx (\<lambda>h. \<not> ho_active h) (ob_hold s)")
  case None
  then have "size (ob_held s) = 8" using ob_held_full [OF assms(1)] by (simp add: first_idx_None)
  with None assms(1) show ?thesis by (simp add: OrderingBuffer_find_free_hold_def ob_inv_len)
next
  case (Some k)
  have len: "length (ob_hold s) = 8" using assms(1) by (rule ob_inv_len)
  from first_idx_SomeD [OF Some] len have k: "k < 8" "\<not> ho_active (ob_hold s ! k)" by simp_all
  then have "size (ob_held s) \<noteq> 8" using ob_held_full [OF assms(1)] len nth_mem [of k "ob_hold s"] by auto
  moreover have "source_id e \<in> ob_known s" using ob_known_iff [OF assms(1)] assms(2,3) by blast
  ultimately show ?thesis
    using Some k ob_inv_hold_add [OF assms(1) k] assms(1,4-7)
    by (simp add: OrderingBuffer_find_free_hold_def ob_inv_len)
qed

lemma ob_holds_of_cong: "ob_hold s' = ob_hold s \<Longrightarrow> ob_holds_of s' x = ob_holds_of s x"
  by (simp add: ob_holds_of_def)

lemma ob_holding_cong: "ob_hold s' = ob_hold s \<Longrightarrow> ob_holding s' x q = ob_holding s x q"
  by (simp add: ob_holding_iff)

lemma ingest_spec:
  assumes "ob_inv s" and "env_wf msg" and "source_id msg \<noteq> 0" and "0 < now"
    and "\<not> envelope_is_control msg" and "sequence_num msg \<noteq> 0"
  shows "returns (OrderingBuffer_ingest s msg out now) (\<lambda>(r, out', s'). ob_inv s' \<and> ob_ingested s msg out (r, out', s') \<and>
    ob_others_kept (source_id msg) s s' \<and> ob_known s' \<subseteq> insert (source_id msg) (ob_known s))"
proof -
  let ?src = "source_id msg" and ?seq = "sequence_num msg"
  obtain i t where g: "OrderingBuffer_get_or_create_peer s ?src = Some (i, t)"
    and t: "ob_inv t" "i < 16" "ob_is_peer ?src (ob_peers t ! i)" and hold: "ob_hold t = ob_hold s"
    and kn: "ob_known t \<subseteq> insert ?src (ob_known s)" and cur: "ob_cursor t ?src = ob_cursor s ?src"
    and oth: "ob_others_kept ?src s t"
    using get_or_create_spec [OF assms(1,3)] by (auto elim!: returnsE)
  have exp: "pe_next_expected_seq (ob_peers t ! i) = ob_cursor s ?src" using ob_cursor_peer [OF t] cur by simp
  note same = ob_held_cong [OF hold] ob_holds_of_cong [OF hold] ob_holding_cong [OF hold]
  have othI: "(\<And>x. x \<noteq> ?src \<Longrightarrow> ob_cursor u x = ob_cursor t x) \<Longrightarrow> ob_others_kept ?src s u" for u
    using oth by (auto simp: ob_others_kept_def)
  consider "?seq < ob_cursor s ?src" | "?seq = ob_cursor s ?src"
    | "?seq \<noteq> ob_cursor s ?src" "\<not> ?seq < ob_cursor s ?src" by blast
  then show ?thesis
  proof cases
    case 1
    with g t exp assms kn oth cur same show ?thesis
      by (auto simp: OrderingBuffer_ingest_def ob_inv_len ob_ingested_def Let_def)
  next
    case 2
    from advance_next_spec [OF t] obtain u where u: "OrderingBuffer_advance_next_expected t i = Some u"
      "ob_inv u" "ob_hold u = ob_hold t" "ob_known u = ob_known t"
      "\<forall>x. ob_cursor u x = (if x = ?src then seq_succ (ob_cursor t ?src) else ob_cursor t x)" by blast
    then have "ob_others_kept ?src s u" by (intro othI) simp
    moreover have "ob_held u = ob_held s" using u(3) hold by (simp add: ob_held_def)
    ultimately show ?thesis
      using 2 g t exp assms kn cur u by (simp add: OrderingBuffer_ingest_def ob_inv_len ob_ingested_def)
  next
    case 3
    note ing = g exp assms(1,4-6)
    show ?thesis
    proof (cases "ob_holding s ?src ?seq")
      case True
      with find_held_cases [OF t(1) assms(3), of ?seq] same obtain k where
        "OrderingBuffer_find_held t ?src ?seq = Some (Some k)" by auto
      with True 3 t kn oth cur same ing show ?thesis
        by (simp add: OrderingBuffer_ingest_def ob_inv_len ob_ingested_def Let_def)
    next
      case False
      with find_held_cases [OF t(1) assms(3), of ?seq] same have
        fh: "OrderingBuffer_find_held t ?src ?seq = Some None" by simp
      show ?thesis
      proof (cases "4 \<le> length (ob_holds_of s ?src)")
        case full: True
        with False 3 t kn oth cur same fh assms(3) ing show ?thesis
          by (simp add: OrderingBuffer_ingest_def ob_inv_len ob_ingested_def count_holds_eq Let_def)
      next
        case notfull: False
        with same have lt: "length (ob_holds_of t ?src) < 4" by simp
        note H = hold_spec [OF t assms(6,2) lt assms(5)]
        have th: "ob_others_kept ?src s (t\<lparr> ob_hold := h \<rparr>)" for h by (intro othI) simp
        show ?thesis
        proof (cases "size (ob_held s) = 8")
          case True
          with H 3 False notfull t kn oth cur same fh assms(3) ing show ?thesis
            by (simp add: OrderingBuffer_ingest_def ob_inv_len ob_ingested_def count_holds_eq Let_def)
        next
          case sz: False
          with H same obtain k where "k < 8" "OrderingBuffer_find_free_hold t = Some (Some k)"
            "ob_inv (t\<lparr> ob_hold := (ob_hold t)[k := \<lparr> ho_env = msg, ho_active = True \<rparr>] \<rparr>)"
            "ob_held (t\<lparr> ob_hold := (ob_hold t)[k := \<lparr> ho_env = msg, ho_active = True \<rparr>] \<rparr>) = add_mset msg (ob_held s)"
            by auto
          with 3 sz False notfull t kn th cur same fh assms(3) ob_inv_len(1) [OF t(1)] ing show ?thesis
            by (simp add: OrderingBuffer_ingest_def ob_inv_len ob_ingested_def count_holds_eq Let_def)
        qed
      qed
    qed
  qed
qed

lemma ob_held_release:
  assumes "k < length (ob_hold s)" and "ho_active (ob_hold s ! k)"
  shows "ob_held (s\<lparr> ob_hold := (ob_hold s)[k := (ob_hold s ! k)\<lparr> ho_active := False \<rparr>] \<rparr>) =
    ob_held s - {#ho_env (ob_hold s ! k)#}"
proof -
  have "add_mset (ob_hold s ! k) (filter_mset ho_active (mset ((ob_hold s)[k := (ob_hold s ! k)\<lparr> ho_active := False \<rparr>]))) =
      filter_mset ho_active (mset (ob_hold s))"
    using assms by (intro mset_filter_release) simp_all
  then have "add_mset (ho_env (ob_hold s ! k)) (ob_held (s\<lparr> ob_hold := (ob_hold s)[k := (ob_hold s ! k)\<lparr> ho_active := False \<rparr>] \<rparr>)) =
      ob_held s"
    unfolding ob_held_def by (metis image_mset_add_mset ordering_buffer.select_convs(1) ordering_buffer.update_convs(1) ordering_buffer.surjective)
  then show ?thesis by (metis add_mset_diff_bothsides diff_empty)
qed

lemma release_spec:
  assumes "ob_inv s" and "src \<noteq> 0"
  shows "if ob_holding s src (ob_cursor s src)
    then \<exists>e s'. OrderingBuffer_try_release_next s src out = Some (OK, e, s') \<and> e \<in># ob_held s \<and>
      source_id e = src \<and> sequence_num e = ob_cursor s src \<and> sequence_num e \<noteq> 0 \<and> env_wf e \<and>
      \<not> envelope_is_control e \<and> ob_held s' = ob_held s - {#e#} \<and> ob_inv s' \<and>
      ob_known s' = ob_known s \<and> (\<forall>x. ob_cursor s' x = (if x = src then seq_succ (ob_cursor s src) else ob_cursor s x))
    else OrderingBuffer_try_release_next s src out = Some (ERR_AGAIN, out, s)"
proof (cases "src \<in> ob_known s")
  case False
  then have "\<not> ob_holding s src q" for q using ob_hold_known [OF assms(1)] by (auto simp: ob_holding_iff)
  moreover have "first_idx (ob_is_peer src) (ob_peers s) = None" using False find_peer_None [OF assms(1)] by simp
  ultimately show ?thesis
    using assms by (simp add: OrderingBuffer_try_release_next_def find_peer_eq ob_inv_len)
next
  case True
  then obtain i where i: "i < 16" "ob_is_peer src (ob_peers s ! i)" using ob_known_iff [OF assms(1)] by blast
  note f = find_peer_index [OF assms(1) i] and c = ob_cursor_peer [OF assms(1) i]
  note H = find_held_cases [OF assms, of "ob_cursor s src"]
  have len: "length (ob_hold s) = 8" using assms(1) by (rule ob_inv_len)
  show ?thesis
  proof (cases "ob_holding s src (ob_cursor s src)")
    case False
    with H f c assms show ?thesis
      by (simp add: OrderingBuffer_try_release_next_def find_peer_eq ob_inv_len Let_def)
  next
    case hold: True
    with H obtain k where k: "k < 8" "OrderingBuffer_find_held s src (ob_cursor s src) = Some (Some k)"
      "ho_active (ob_hold s ! k)" "source_id (ho_env (ob_hold s ! k)) = src"
      "sequence_num (ho_env (ob_hold s ! k)) = ob_cursor s src" by auto
    let ?t = "s\<lparr> ob_hold := (ob_hold s)[k := (ob_hold s ! k)\<lparr> ho_active := False \<rparr>] \<rparr>"
    have "ob_inv ?t" using assms(1) ob_released_update by (rule ob_inv_release)
    moreover have "ob_is_peer src (ob_peers ?t ! i)" using i(2) by simp
    ultimately obtain u where u: "OrderingBuffer_advance_next_expected ?t i = Some u" "ob_inv u" "ob_hold u = ob_hold ?t"
      "ob_known u = ob_known ?t" "\<forall>x. ob_cursor u x = (if x = src then seq_succ (ob_cursor ?t src) else ob_cursor ?t x)"
      using advance_next_spec [of ?t i src] i(1) by blast
    have mem: "ob_hold s ! k \<in> set (ob_hold s)" using k(1) len by simp
    have "ob_held u = ob_held s - {#ho_env (ob_hold s ! k)#}"
      using ob_held_cong [OF u(3)] ob_held_release [of k s] k len by simp
    moreover have "ho_env (ob_hold s ! k) \<in># ob_held s" using mem k(3) by (auto simp: ob_held_def)
    moreover have "env_wf (ho_env (ob_hold s ! k)) \<and> sequence_num (ho_env (ob_hold s ! k)) \<noteq> 0 \<and>
        \<not> envelope_is_control (ho_env (ob_hold s ! k))"
      using mem k(3) assms(1) by (simp add: ob_inv_def)
    moreover have "\<not> ho_active (ob_hold u ! k)" using u(3) k(1) len by simp
    ultimately show ?thesis
      using hold k u f c assms by (simp add: OrderingBuffer_try_release_next_def find_peer_eq ob_inv_len Let_def)
  qed
qed

lemma ob_held_free:
  "ob_held (s\<lparr> ob_hold := ob_free_holds P (ob_hold s) \<rparr>) = filter_mset (\<lambda>e. \<not> P e) (ob_held s)"
proof -
  have "image_mset ho_env (filter_mset ho_active (mset (ob_free_holds P hs))) =
    filter_mset (\<lambda>e. \<not> P e) (image_mset ho_env (filter_mset ho_active (mset hs)))" for hs
    unfolding ob_free_holds_def by (induction hs) auto
  then show ?thesis by (simp add: ob_held_def)
qed

lemma reset_peer_spec:
  assumes "ob_inv s" and "src \<noteq> 0"
  shows "\<exists>s'. OrderingBuffer_reset_peer s src = Some s' \<and> ob_inv s' \<and> ob_known s' = ob_known s \<and>
    ob_held s' = filter_mset (\<lambda>e. source_id e \<noteq> src) (ob_held s) \<and>
    (\<forall>x. ob_cursor s' x = (if x = src then 1 else ob_cursor s x))"
proof (cases "src \<in> ob_known s")
  case False
  then have "first_idx (ob_is_peer src) (ob_peers s) = None" using find_peer_None [OF assms(1)] by simp
  moreover have "filter_mset (\<lambda>e. source_id e \<noteq> src) (ob_held s) = ob_held s"
    using False ob_hold_known [OF assms(1)] by (auto simp: ob_held_def filter_mset_eq_conv)
  ultimately show ?thesis
    using assms ob_cursor_unknown [OF assms(1) False]
    by (simp add: OrderingBuffer_reset_peer_def find_peer_eq ob_inv_len)
next
  case True
  then obtain i where i: "i < 16" "ob_is_peer src (ob_peers s ! i)" using ob_known_iff [OF assms(1)] by blast
  let ?t = "s\<lparr> ob_hold := ob_free_holds (\<lambda>e. source_id e = src) (ob_hold s) \<rparr>"
  have t: "ob_inv ?t" using assms(1) ob_released_free by (rule ob_inv_release)
  have p: "ob_is_peer src (ob_peers ?t ! i)" using i(2) by simp
  note C = set_cursor [OF t i(1) p, of 1]
  have "OrderingBuffer_reset_peer s src =
    Some (?t\<lparr> ob_peers := (ob_peers ?t)[i := (ob_peers ?t ! i)\<lparr> pe_next_expected_seq := 1 \<rparr>] \<rparr>)"
    using assms find_peer_index [OF assms(1) i] i(1) ob_inv_len(2) [OF assms(1)]
    by (simp add: OrderingBuffer_reset_peer_def find_peer_eq ob_inv_len Let_def)
  with C ob_held_cong [OF C(4)] ob_held_free show ?thesis by simp
qed

lemma advance_sequence_spec:
  assumes "ob_inv s" and "src \<in> ob_known s"
  shows "\<exists>s'. OrderingBuffer_advance_sequence s src n = Some s' \<and> ob_inv s' \<and> ob_known s' = ob_known s \<and>
    ob_hold s' = (if ob_cursor s src < n then ob_free_holds (\<lambda>e. source_id e = src \<and> sequence_num e < n) (ob_hold s) else ob_hold s) \<and>
    (\<forall>x. ob_cursor s' x = (if x = src then max (ob_cursor s src) n else ob_cursor s x))"
proof -
  obtain i where i: "i < 16" "ob_is_peer src (ob_peers s ! i)" using ob_known_iff [OF assms(1)] assms(2) by blast
  then have "src \<noteq> 0" using assms(1) ob_inv_len(2) [OF assms(1)] by (auto simp: ob_inv_def ob_is_peer_def)
  note f = find_peer_index [OF assms(1) i] and c = ob_cursor_peer [OF assms(1) i]
  show ?thesis
  proof (cases "ob_cursor s src < n")
    case False
    then have "max (ob_cursor s src) n = ob_cursor s src" "n \<le> ob_cursor s src" by (simp_all add: max_def)
    with False assms f c \<open>src \<noteq> 0\<close> show ?thesis
      by (simp add: OrderingBuffer_advance_sequence_def find_peer_eq ob_inv_len Let_def)
  next
    case True
    let ?hs = "ob_free_holds (\<lambda>e. source_id e = src \<and> sequence_num e < n) (ob_hold s)"
    let ?t = "s\<lparr> ob_hold := ?hs \<rparr>"
    have t: "ob_inv ?t" using assms(1) ob_released_free by (rule ob_inv_release)
    have p: "ob_is_peer src (ob_peers ?t ! i)" using i(2) by simp
    have "n \<noteq> 0" using True by auto
    note C = set_cursor [OF t i(1) p this]
    have "OrderingBuffer_advance_sequence s src n =
      Some (?t\<lparr> ob_peers := (ob_peers ?t)[i := (ob_peers ?t ! i)\<lparr> pe_next_expected_seq := n \<rparr>] \<rparr>)"
      using True assms f c i(1) ob_inv_len(2) [OF assms(1)] \<open>src \<noteq> 0\<close>
      by (simp add: OrderingBuffer_advance_sequence_def find_peer_eq ob_inv_len Let_def)
    moreover have "max (ob_cursor s src) n = n" using True by simp
    ultimately show ?thesis using C True by simp
  qed
qed

section \<open>Expiry of held messages\<close>

text \<open>One sweep step on an active slot: an expired message is freed together with the earlier held
  messages of its source, and the cursor moves past it.\<close>

lemma u32_succ_nonzero: "(x :: u32) < 0xFFFFFFFF \<Longrightarrow> x + 1 \<noteq> 0"
proof
  assume "x < 0xFFFFFFFF" "x + 1 = 0"
  then have "x = - 1" by (simp add: eq_neg_iff_add_eq_0)
  then have "x = 0xFFFFFFFF" by simp
  with \<open>x < 0xFFFFFFFF\<close> show False by simp
qed

lemma ob_released_refl: "ob_released hs hs"
  by (simp add: ob_released_def list_all2_refl)

lemma ob_released_trans: "ob_released hs hs' \<Longrightarrow> ob_released hs' hs'' \<Longrightarrow> ob_released hs hs''"
  unfolding ob_released_def by (erule (1) list_all2_trans [rotated]) auto

lemma sweep_slot_spec:
  assumes "ob_inv s" and "i < 8" and "length buf = cap"
  shows "returns (ob_sweep_slot now cap i (f, buf, s)) (\<lambda>(f', buf', s'). ob_inv s' \<and> length buf' = cap \<and>
    ob_released (ob_hold s) (ob_hold s') \<and> (\<forall>x. ob_cursor s x \<le> ob_cursor s' x) \<and> ob_known s' = ob_known s \<and>
    f \<le> f' \<and> f' \<le> Suc f \<and> take f buf' = take f buf \<and>
    \<not> (ho_active (ob_hold s' ! i) \<and> timestamp_expired (expiry_time_us (ho_env (ob_hold s' ! i))) now) \<and>
    (f < f' \<and> f < cap \<longrightarrow> buf' ! f \<in># ob_held s \<and> timestamp_expired (expiry_time_us (buf' ! f)) now))"
proof (cases "ho_active (ob_hold s ! i) \<and> timestamp_expired (expiry_time_us (ho_env (ob_hold s ! i))) now")
  case False
  then have "ob_sweep_slot now cap i (f, buf, s) = Some (f, buf, s)" by (auto simp: ob_sweep_slot_def)
  with False assms show ?thesis by (simp add: ob_released_def list_all2_refl)
next
  case True
  let ?h = "ob_hold s ! i"
  have len: "length (ob_hold s) = 8" using assms(1) by (rule ob_inv_len)
  then have mem: "?h \<in> set (ob_hold s)" using assms(2) by simp
  have src: "source_id (ho_env ?h) \<in> ob_known s" and seq: "sequence_num (ho_env ?h) \<noteq> 0"
    using assms(1) mem True by (simp_all add: ob_inv_def)
  define n where "n = (if sequence_num (ho_env ?h) < 0xFFFFFFFF then sequence_num (ho_env ?h) + 1 else 1)"
  have guard: "OrderingBuffer_seq_next_guarded (sequence_num (ho_env ?h)) = Some n"
    using seq u32_succ_nonzero by (auto simp: OrderingBuffer_seq_next_guarded_def n_def)
  obtain t where t: "OrderingBuffer_advance_sequence s (source_id (ho_env ?h)) n = Some t" "ob_inv t"
      "ob_known t = ob_known s" "ob_released (ob_hold s) (ob_hold t)" "\<forall>x. ob_cursor s x \<le> ob_cursor t x"
    using advance_sequence_spec [OF assms(1) src, of n] ob_released_free [of "ob_hold s"]
    by (auto simp: ob_released_refl)
  define u where "u = t\<lparr> ob_hold := (ob_hold t)[i := (ob_hold t ! i)\<lparr> ho_active := False \<rparr>] \<rparr>"
  have u: "ob_inv u" "ob_known u = ob_known s" "\<forall>x. ob_cursor s x \<le> ob_cursor u x"
    using t ob_inv_release [OF t(2) ob_released_update, of i] by (simp_all add: u_def)
  have rel: "ob_released (ob_hold s) (ob_hold u)"
    using ob_released_trans [OF t(4) ob_released_update] by (simp add: u_def)
  have "\<not> ho_active (ob_hold u ! i)" using assms(2) ob_inv_len(1) [OF t(2)] by (simp add: u_def)
  moreover have "ob_sweep_slot now cap i (f, buf, s) =
      Some (f + 1, (if f < cap then buf[f := ho_env ?h] else buf), u)"
    using True guard t(1) by (simp add: ob_sweep_slot_def u_def)
  moreover have "ho_env ?h \<in># ob_held s" using mem True by (auto simp: ob_held_def)
  ultimately show ?thesis using u rel assms True by simp
qed

lemma sweep_holds_spec:
  assumes "ob_inv s" and "0 < now" and "length buf = cap"
  shows "returns (OrderingBuffer_sweep_expired_holds s now buf cap) (\<lambda>(f, buf', s'). ob_inv s' \<and> f \<le> 8 \<and>
    length buf' = cap \<and> ob_known s' = ob_known s \<and> ob_released (ob_hold s) (ob_hold s') \<and>
    (\<forall>x. ob_cursor s x \<le> ob_cursor s' x) \<and>
    (\<forall>e \<in># ob_held s'. \<not> timestamp_expired (expiry_time_us e) now) \<and>
    (\<forall>j < min f cap. buf' ! j \<in># ob_held s \<and> timestamp_expired (expiry_time_us (buf' ! j)) now))"
proof -
  let ?dead = "\<lambda>h. \<not> (ho_active h \<and> timestamp_expired (expiry_time_us (ho_env h)) now)"
  let ?P = "\<lambda>k (f, buf', s'). ob_inv s' \<and> f \<le> k \<and> length buf' = cap \<and> ob_known s' = ob_known s \<and>
    ob_released (ob_hold s) (ob_hold s') \<and> (\<forall>x. ob_cursor s x \<le> ob_cursor s' x) \<and>
    (\<forall>j < k. ?dead (ob_hold s' ! j)) \<and>
    (\<forall>j < min f cap. buf' ! j \<in># ob_held s \<and> timestamp_expired (expiry_time_us (buf' ! j)) now)"
  obtain n :: nat where n: "n = 8" by simp
  have "returns (for_each (ob_sweep_slot now cap) [0..<n] (0, buf, s)) (?P n)"
  proof (rule for_each_upt [where P = ?P])
    show "?P 0 (0, buf, s)" using assms by (simp add: ob_released_refl)
    fix k x assume k: "k < n" and P: "?P k x"
    obtain f b t where x: "x = (f, b, t)" by (cases x)
    from P x have t: "ob_inv t" "length b = cap" by simp_all
    show "returns (ob_sweep_slot now cap k x) (?P (Suc k))"
      unfolding x
    proof (rule returns_mono [OF sweep_slot_spec [OF t(1) _ t(2)]])
      show "k < 8" using k n by simp
      fix y assume "case y of (f', buf', s') \<Rightarrow> ob_inv s' \<and> length buf' = cap \<and>
        ob_released (ob_hold t) (ob_hold s') \<and> (\<forall>x. ob_cursor t x \<le> ob_cursor s' x) \<and> ob_known s' = ob_known t \<and>
        f \<le> f' \<and> f' \<le> Suc f \<and> take f buf' = take f b \<and>
        \<not> (ho_active (ob_hold s' ! k) \<and> timestamp_expired (expiry_time_us (ho_env (ob_hold s' ! k))) now) \<and>
        (f < f' \<and> f < cap \<longrightarrow> buf' ! f \<in># ob_held t \<and> timestamp_expired (expiry_time_us (buf' ! f)) now)"
      then obtain f' b' u where y: "y = (f', b', u)" "ob_inv u" "length b' = cap" "ob_released (ob_hold t) (ob_hold u)"
        "\<forall>x. ob_cursor t x \<le> ob_cursor u x" "ob_known u = ob_known t" "f \<le> f'" "f' \<le> Suc f" "take f b' = take f b"
        "?dead (ob_hold u ! k)"
        "f < f' \<and> f < cap \<longrightarrow> b' ! f \<in># ob_held t \<and> timestamp_expired (expiry_time_us (b' ! f)) now"
        by (cases y) auto
      have dead: "?dead (ob_hold u ! j)" if "j < Suc k" for j
      proof (cases "j = k")
        case False
        then have "?dead (ob_hold t ! j)" "j < 8" using that P x k n by auto
        then show ?thesis using y(4) ob_inv_len(1) [OF t(1)] by (auto simp: ob_released_def list_all2_conv_all_nth)
      qed (use y(10) in simp)
      have sub: "e \<in># ob_held t \<Longrightarrow> e \<in># ob_held s" for e
        using P x ob_released_mem [of "ob_hold s" "ob_hold t"] by (auto simp: ob_held_def)
      have buf: "b' ! j \<in># ob_held s \<and> timestamp_expired (expiry_time_us (b' ! j)) now" if "j < min f' cap" for j
      proof (cases "j < f")
        case True
        then have "b' ! j = b ! j" using y(9) by (metis nth_take)
        with True that P x show ?thesis by simp
      next
        case False
        with that y(8) have "j = f" by simp
        with that y(11) sub show ?thesis by simp
      qed
      have cur: "\<forall>x. ob_cursor s x \<le> ob_cursor u x" 
      proof
        fix z
        have "ob_cursor s z \<le> ob_cursor t z" using P x by simp
        also have "\<dots> \<le> ob_cursor u z" using y(5) by simp
        finally show "ob_cursor s z \<le> ob_cursor u z" .
      qed
      have rel: "ob_released (ob_hold s) (ob_hold u)" using P x y(4) ob_released_trans by auto
      show "?P (Suc k) y" using y P x dead buf cur rel by simp
    qed
  qed
  then show ?thesis
    unfolding OrderingBuffer_sweep_expired_holds_def using assms n
    by (auto elim!: returnsE simp: ob_inv_len ob_held_def in_set_conv_nth simp del: upt_rec_numeral)
qed

section \<open>Runs\<close>

lemma OrderingBuffer_init_spec:
  "\<exists>s'. OrderingBuffer_init s n = Some s' \<and> ob_inv s' \<and> ob_known s' = {} \<and> ob_held s' = {#}"
  by (auto simp: OrderingBuffer_init_def ob_inv_def ob_known_def ob_held_def ob_holds_of_def Let_def
      nth_replicate simp del: replicate_Suc)

lemma no_eviction:
  assumes "ob_others_kept src s s'" and "finite S" and "card S \<le> 16" and "insert src (ob_known s) \<subseteq> S"
    and "x \<noteq> src"
  shows "ob_cursor s' x = ob_cursor s x"
proof -
  have "\<not> (src \<notin> ob_known s \<and> card (ob_known s) = 16)"
  proof
    assume "src \<notin> ob_known s \<and> card (ob_known s) = 16"
    moreover have "finite (ob_known s)" by (simp add: ob_known_def)
    ultimately have "card (insert src (ob_known s)) = 17" by simp
    moreover have "card (insert src (ob_known s)) \<le> card S" using assms(2,4) by (rule card_mono)
    ultimately show False using assms(3) by simp
  qed
  with assms(1,5) show ?thesis by (auto simp: ob_others_kept_def)
qed

lemma ob_exec_spec:
  assumes "ob_inv s" and "ob_op_wf op" and "finite S" and "card S \<le> 16" and "ob_known s \<subseteq> S" and "ob_op_source op \<in> S"
  shows "returns (ob_exec s op) (\<lambda>(r, out, s'). ob_inv s' \<and> ob_known s' \<subseteq> S \<and> ob_step_ok s (r, out, s'))"
proof (cases op)
  case (Release src)
  with assms(2) have "src \<noteq> 0" by simp
  from release_spec [OF assms(1) this, of envelope_init] assms(1,5) Release show ?thesis
    by (auto simp: ob_step_ok_def split: if_splits)
next
  case (Ingest msg now)
  with assms(2,6) have m: "env_wf msg" "source_id msg \<noteq> 0" "0 < now" "source_id msg \<in> S" by simp_all
  show ?thesis
  proof (cases "envelope_is_control msg \<or> sequence_num msg = 0")
    case True
    with Ingest assms m show ?thesis by (auto simp: OrderingBuffer_ingest_def ob_inv_len ob_step_ok_def)
  next
    case False
    then have o: "\<not> envelope_is_control msg" "sequence_num msg \<noteq> 0" by simp_all
    show ?thesis
      unfolding Ingest ob_exec.simps
    proof (rule returns_mono [OF ingest_spec [OF assms(1) m(1-3) o, of envelope_init]])
      fix y assume "case y of (r, out', s') \<Rightarrow> ob_inv s' \<and> ob_ingested s msg envelope_init (r, out', s') \<and>
        ob_others_kept (source_id msg) s s' \<and> ob_known s' \<subseteq> insert (source_id msg) (ob_known s)"
      then obtain r out s' where y: "y = (r, out, s')" "ob_inv s'" "ob_ingested s msg envelope_init (r, out, s')"
        "ob_others_kept (source_id msg) s s'" "ob_known s' \<subseteq> insert (source_id msg) (ob_known s)"
        by (cases y) auto
      have kn: "insert (source_id msg) (ob_known s) \<subseteq> S" using assms(5) m(4) by simp
      note oth = no_eviction [OF y(4) assms(3,4) kn]
      have "ob_known s' \<subseteq> S" using y(5) kn by blast
      moreover have "ob_step_ok s (r, out, s')"
      proof (cases "sequence_num msg = ob_cursor s (source_id msg)")
        case True
        with y(3) o oth show ?thesis by (auto simp: ob_ingested_def ob_step_ok_def Let_def)
      next
        case False
        with y(3) have "r \<noteq> OK" "ob_cursor s' (source_id msg) = ob_cursor s (source_id msg)"
          by (auto simp: ob_ingested_def Let_def split: if_splits)
        with oth show ?thesis unfolding ob_step_ok_def by (simp, metis)
      qed
      ultimately show "case y of (r, out, s') \<Rightarrow> ob_inv s' \<and> ob_known s' \<subseteq> S \<and> ob_step_ok s (r, out, s')"
        using y(1,2) by simp
    qed
  qed
qed

lemma ob_run_spec:
  assumes "ob_inv s" and "\<forall>op \<in> set ops. ob_op_wf op \<and> ob_op_source op \<in> S" and "finite S" and "card S \<le> 16"
    and "ob_known s \<subseteq> S"
  shows "returns (ob_run s ops) (\<lambda>(ds, s'). ob_inv s' \<and>
    (\<forall>src. map sequence_num (filter (\<lambda>e. source_id e = src) ds) =
       seqs_from (ob_cursor s src) (length (filter (\<lambda>e. source_id e = src) ds))))"
  using assms(1,2,5)
proof (induction ops arbitrary: s)
  case Nil
  then show ?case by simp
next
  case (Cons op ops)
  from Cons.prems have wf: "ob_op_wf op" "ob_op_source op \<in> S" by simp_all
  from ob_exec_spec [OF Cons.prems(1) wf(1) assms(3,4) Cons.prems(3) wf(2)] obtain r out t where
    t: "ob_exec s op = Some (r, out, t)" "ob_inv t" "ob_known t \<subseteq> S" "ob_step_ok s (r, out, t)"
    by (auto elim!: returnsE)
  from Cons.IH [OF t(2) _ t(3)] Cons.prems(2) obtain ds u where
    u: "ob_run t ops = Some (ds, u)" "ob_inv u" "\<And>src. map sequence_num (filter (\<lambda>e. source_id e = src) ds) =
       seqs_from (ob_cursor t src) (length (filter (\<lambda>e. source_id e = src) ds))"
    by (auto elim!: returnsE)
  show ?case
    using t(1,4) u by (auto simp: ob_step_ok_def split: if_splits)
qed

lemma seqs_from_eq: "unat c + n \<le> 2 ^ 32 \<Longrightarrow> seqs_from c n = map (\<lambda>k. c + of_nat k) [0..<n]"
proof (induction n arbitrary: c)
  case 0
  then show ?case by simp
next
  case (Suc n)
  show ?case
  proof (cases "n = 0")
    case False
    have "c + 1 \<noteq> 0"
    proof
      assume "c + 1 = 0"
      then have "c = - 1" by (simp add: eq_neg_iff_add_eq_0)
      then have "unat c = 2 ^ 32 - 1" by (simp add: unsigned_minus_1_eq_mask mask_eq_exp_minus_1)
      with Suc.prems False show False by simp
    qed
    then have "seq_succ c = c + 1" "unat (c + 1) = Suc (unat c)" by (simp_all add: seq_succ_def unat_Suc_no_wrap)
    with Suc show ?thesis by (simp add: upt_conv_Cons map_Suc_upt [symmetric] del: upt_Suc)
  qed simp
qed

section \<open>Properties\<close>

text \<open>Claim C34: in every interleaving of ingests and releases on a fresh buffer, with messages of up to
  sixteen sources, no assertion fires and the ordered messages of each source are delivered in sequence
  without gap, duplicate or inversion: their sequence numbers are 1, 2, 3, and so on, 0 being skipped
  when the 32-bit counter wraps.\<close>

theorem ordered_delivery:
  assumes "OrderingBuffer_init s0 n = Some s" and "\<forall>op \<in> set ops. ob_op_wf op"
    and "card (ob_op_source ` set ops) \<le> 16"
  shows "returns (ob_run s ops) (\<lambda>(ds, s'). ob_inv s' \<and>
    (\<forall>src. let qs = map sequence_num (filter (\<lambda>e. source_id e = src) ds) in
       qs = seqs_from 1 (length qs) \<and>
       (length qs < 2 ^ 32 \<longrightarrow> qs = map of_nat [1..<Suc (length qs)])))"
proof -
  from OrderingBuffer_init_spec [of s0 n] assms(1) have s: "ob_inv s" "ob_known s = {}" by auto
  have eq: "seqs_from 1 k = map of_nat [1..<Suc k]" if "k < 2 ^ 32" for k
    using seqs_from_eq [of 1 k] that by (simp add: map_Suc_upt [symmetric] del: upt_Suc)
  have "returns (ob_run s ops) (\<lambda>(ds, s'). ob_inv s' \<and> (\<forall>src. map sequence_num (filter (\<lambda>e. source_id e = src) ds) =
      seqs_from (ob_cursor s src) (length (filter (\<lambda>e. source_id e = src) ds))))"
    using assms(2,3) s by (intro ob_run_spec [where S = "ob_op_source ` set ops"]) auto
  then show ?thesis
    by (rule returns_mono) (auto simp: Let_def s ob_cursor_unknown [OF s(1)] eq simp del: upt_Suc)
qed

lemma ob_msg_sel [simp]:
  "source_id (ob_msg x q) = x" "sequence_num (ob_msg x q) = q" "message_type (ob_msg x q) = DATA"
  "\<not> envelope_is_control (ob_msg x q)" "env_wf (ob_msg x q)"
  by (simp_all add: ob_msg_def envelope_is_control_def env_wf_def env_wf_init [unfolded env_wf_def])

lemma replicate_numeral_unfold: "replicate (numeral k) x = x # replicate (pred_numeral k) x"
  by (simp add: numeral_eq_Suc)

lemmas ob_eval = OrderingBuffer_ingest_def OrderingBuffer_try_release_next_def OrderingBuffer_get_or_create_peer_def
  OrderingBuffer_find_peer_def OrderingBuffer_find_held_def OrderingBuffer_count_holds_for_peer_def
  OrderingBuffer_find_free_hold_def OrderingBuffer_advance_next_expected_def ob_new_peer_def replicate_numeral_unfold
  Let_def

theorem ordered_delivery_witness:
  "OrderingBuffer_init ob_fresh 9 = Some ob_fresh \<and>
    returns (ob_run ob_fresh [Ingest (ob_msg 5 2) 1, Ingest (ob_msg 5 1) 1, Release 5]) (\<lambda>(ds, s').
      length ds = 2 \<and> map sequence_num (filter (\<lambda>e. source_id e = 5) ds) = seqs_from 1 2)"
proof -
  let ?ops = "[Ingest (ob_msg 5 2) 1, Ingest (ob_msg 5 1) 1, Release 5]"
  have s: "OrderingBuffer_init ob_fresh 9 = Some ob_fresh" by (simp add: OrderingBuffer_init_def ob_fresh_def)
  have "\<forall>op \<in> set ?ops. ob_op_wf op" by simp
  moreover have "card (ob_op_source ` set ?ops) \<le> 16" by simp
  ultimately have R: "returns (ob_run ob_fresh ?ops) (\<lambda>(ds, s'). ob_inv s' \<and>
    (\<forall>src. let qs = map sequence_num (filter (\<lambda>e. source_id e = src) ds) in
       qs = seqs_from 1 (length qs) \<and> (length qs < 2 ^ 32 \<longrightarrow> qs = map of_nat [1..<Suc (length qs)])))"
    by (rule ordered_delivery [OF s])
  have "case ob_run ob_fresh ?ops of None \<Rightarrow> False | Some (ds, s') \<Rightarrow> map source_id ds = [5, 5]"
    by (simp add: ob_eval ob_fresh_def)
  then obtain ds s' where ds: "ob_run ob_fresh ?ops = Some (ds, s')" "map source_id ds = [5, 5]"
    by (auto split: option.splits)
  then have len: "length ds = 2" and fl: "filter (\<lambda>e. source_id e = 5) ds = ds" by (auto simp: map_eq_Cons_conv)
  from R [unfolded ds(1) returns_Some split, THEN conjunct2, THEN spec [of _ 5]] len fl
  have "map sequence_num ds = seqs_from 1 2" by (simp add: Let_def)
  then show ?thesis unfolding ds(1) using s len fl by simp
qed

text \<open>On an ordered message \<open>ingest\<close> returns and keeps the invariant, in particular the cap of four
  held messages per source; it delivers exactly the message at the cursor and moves the cursor to the next
  sequence number, discards a message below the cursor or one already held, refuses a message when four of
  its source are held or all eight slots are taken, and holds any other message; no other source's cursor
  changes, unless a new source meets a full peer table, when one source without held messages is
  forgotten.\<close>

theorem ingest_contract:
  assumes "ob_inv s" and "env_wf msg" and "source_id msg \<noteq> 0" and "0 < now"
    and "\<not> envelope_is_control msg" and "sequence_num msg \<noteq> 0"
  shows "returns (OrderingBuffer_ingest s msg out now) (\<lambda>(r, out', s'). ob_inv s' \<and> ob_ingested s msg out (r, out', s') \<and>
    ob_others_kept (source_id msg) s s')"
  using ingest_spec [OF assms, of out] by (rule returns_mono) auto

theorem ingest_contract_witness:
  "returns (OrderingBuffer_ingest ob_fresh (ob_msg 5 2) envelope_init 1) (\<lambda>(r, out', s').
     ob_inv s' \<and> r = ERR_AGAIN \<and> ob_held s' = {#ob_msg 5 2#} \<and> ob_cursor s' 5 = 1)"
proof -
  have init: "OrderingBuffer_init ob_fresh 9 = Some ob_fresh" by (simp add: OrderingBuffer_init_def ob_fresh_def)
  with OrderingBuffer_init_spec [of ob_fresh 9] have s: "ob_inv ob_fresh" "ob_known ob_fresh = {}" "ob_held ob_fresh = {#}"
    by auto
  have "ob_holds_of ob_fresh 5 = []" by (simp add: ob_holds_of_def ob_fresh_def)
  moreover have "ob_cursor ob_fresh 5 = 1" using ob_cursor_unknown [OF s(1)] s(2) by simp
  ultimately show ?thesis
    using ingest_contract [OF s(1), of "ob_msg 5 2" 1 envelope_init] s
    by (auto elim!: returnsE simp: ob_ingested_def ob_holding_def Let_def)
qed

text \<open>The sweep of held messages returns, keeps the invariant and leaves no expired message held;
  cursors only move forward, so nothing already skipped or delivered can be delivered afterwards, and every
  envelope it reports was held and had expired.\<close>

theorem sweep_expired_holds_exact:
  assumes "ob_inv s" and "0 < now" and "length buf = cap"
  shows "returns (OrderingBuffer_sweep_expired_holds s now buf cap) (\<lambda>(f, buf', s'). ob_inv s' \<and> f \<le> 8 \<and>
    (\<forall>e \<in># ob_held s'. e \<in># ob_held s \<and> \<not> timestamp_expired (expiry_time_us e) now) \<and>
    (\<forall>x. ob_cursor s x \<le> ob_cursor s' x) \<and>
    (\<forall>j < min f cap. buf' ! j \<in># ob_held s \<and> timestamp_expired (expiry_time_us (buf' ! j)) now))"
  using sweep_holds_spec [OF assms]
  by (rule returns_mono) (auto simp: ob_held_def dest: ob_released_mem)

theorem sweep_expired_holds_exact_witness:
  "\<exists>s. ob_held s = {#(ob_msg 5 2)\<lparr> expiry_time_us := 3 \<rparr>#} \<and>
    returns (OrderingBuffer_sweep_expired_holds s 7 [envelope_init] 1) (\<lambda>(f, buf', s'). ob_inv s' \<and> ob_held s' = {#})"
proof -
  let ?m = "(ob_msg 5 2)\<lparr> expiry_time_us := 3 \<rparr>"
  have init: "OrderingBuffer_init ob_fresh 9 = Some ob_fresh" by (simp add: OrderingBuffer_init_def ob_fresh_def)
  with OrderingBuffer_init_spec [of ob_fresh 9] have f: "ob_inv ob_fresh" "ob_known ob_fresh = {}" "ob_held ob_fresh = {#}"
    by auto
  have "ob_holds_of ob_fresh 5 = []" by (simp add: ob_holds_of_def ob_fresh_def)
  moreover have "ob_cursor ob_fresh 5 = 1" using ob_cursor_unknown [OF f(1)] f(2) by simp
  moreover have "env_wf ?m" "\<not> envelope_is_control ?m"
    using ob_msg_sel(4,5) [of 5 2] by (simp_all add: env_wf_def envelope_is_control_def)
  ultimately obtain s where s: "ob_inv s" "ob_held s = {#?m#}"
    using ingest_spec [OF f(1), of ?m 1 envelope_init] f
    by (auto elim!: returnsE simp: ob_ingested_def ob_holding_def Let_def)
  have "returns (OrderingBuffer_sweep_expired_holds s 7 [envelope_init] 1) (\<lambda>(f, buf', s'). ob_inv s' \<and> f \<le> 8 \<and>
    (\<forall>e \<in># ob_held s'. e \<in># ob_held s \<and> \<not> timestamp_expired (expiry_time_us e) 7) \<and>
    (\<forall>x. ob_cursor s x \<le> ob_cursor s' x) \<and>
    (\<forall>j < min f 1. buf' ! j \<in># ob_held s \<and> timestamp_expired (expiry_time_us (buf' ! j)) 7))"
    by (rule sweep_expired_holds_exact [OF s(1)]) simp_all
  then have "returns (OrderingBuffer_sweep_expired_holds s 7 [envelope_init] 1) (\<lambda>(f, buf', s'). ob_inv s' \<and> ob_held s' = {#})"
  proof (rule returns_mono, clarify)
    fix g b u assume "ob_inv u" "\<forall>e \<in># ob_held u. e \<in># ob_held s \<and> \<not> timestamp_expired (expiry_time_us e) 7"
    moreover have "timestamp_expired (expiry_time_us ?m) 7" by (simp add: timestamp_expired_def)
    ultimately show "ob_held u = {#}" using s(2) by (cases "ob_held u") auto
  qed
  with s(2) show ?thesis by blast
qed

end
