(* ===== verification/RingBuffer.thy ===== *)
theory RingBuffer
  imports MessageEnvelope
begin

text \<open>
  \<open>src/core/RingBuffer.hpp\<close> and \<open>src/core/DeliveryEventRing.hpp\<close>: the lock-free
  single-producer single-consumer queue of envelopes and the overwrite-on-full ring of
  observability events.

  The queue is modelled twice: its \<open>push\<close> and \<open>pop\<close> as sequential functions with the free-running
  32-bit head and tail counters, and as a step relation in which producer and consumer
  interleave at the granularity of their loads, the slot copy and the release store. The interface both rings offer to a reader is the locale
  \<open>fifo_source\<close>; what each adds for the writer is a locale that extends it.
\<close>

section \<open>The envelope queue\<close>

definition RING_MASK :: u32 where [simp]: "RING_MASK = MSG_RING_CAPACITY - 1"

record ring_buffer =
  rb_buf :: "envelope list"
  rb_head :: u32
  rb_tail :: u32

text \<open>Constructor: zero-initialised storage, both counters 0. \<open>init\<close> resets the counters only.\<close>

definition RingBuffer_new :: ring_buffer where
  "RingBuffer_new = \<lparr> rb_buf = replicate (unat MSG_RING_CAPACITY) envelope_zero,
                      rb_head = 0, rb_tail = 0 \<rparr>"

definition RingBuffer_init :: "ring_buffer \<Rightarrow> ring_buffer option" where
  "RingBuffer_init s = do {
     nc_assert (MSG_RING_CAPACITY > 0);
     nc_assert (MSG_RING_CAPACITY AND (MSG_RING_CAPACITY - 1) = 0);
     Some (s\<lparr> rb_head := 0, rb_tail := 0 \<rparr>)
   }"

definition RingBuffer_push :: "ring_buffer \<Rightarrow> envelope \<Rightarrow> (Result \<times> ring_buffer) option" where
  "RingBuffer_push s env = do {
     let t = rb_tail s;
     let h = rb_head s;
     let cnt = t - h;
     nc_assert (cnt \<le> MSG_RING_CAPACITY);
     if cnt \<ge> MSG_RING_CAPACITY then Some (ERR_FULL, s)
     else do {
       let s = s\<lparr> rb_buf := (rb_buf s)[unat (t AND RING_MASK) := env] \<rparr>;
       let s = s\<lparr> rb_tail := t + 1 \<rparr>;
       nc_assert (t + 1 - h \<le> MSG_RING_CAPACITY);
       Some (OK, s)
     }
   }"

definition RingBuffer_pop ::
    "ring_buffer \<Rightarrow> envelope \<Rightarrow> (Result \<times> envelope \<times> ring_buffer) option" where
  "RingBuffer_pop s env = do {
     let h = rb_head s;
     let t = rb_tail s;
     let cnt = t - h;
     nc_assert (cnt \<le> MSG_RING_CAPACITY);
     if cnt = 0 then Some (ERR_EMPTY, env, s)
     else do {
       let env = rb_buf s ! unat (h AND RING_MASK);
       let s = s\<lparr> rb_head := h + 1 \<rparr>;
       nc_assert (t - (h + 1) < MSG_RING_CAPACITY);
       Some (OK, env, s)
     }
   }"

text \<open>Invariant and abstraction: the queued envelopes, oldest first.\<close>

definition rb_slot :: "u32 \<Rightarrow> nat" where
  "rb_slot t = unat (t AND RING_MASK)"

definition rb_count :: "ring_buffer \<Rightarrow> nat" where
  "rb_count s = unat (rb_tail s - rb_head s)"

definition rb_inv :: "ring_buffer \<Rightarrow> bool" where
  "rb_inv s \<longleftrightarrow> length (rb_buf s) = unat MSG_RING_CAPACITY \<and> rb_count s \<le> unat MSG_RING_CAPACITY"

definition rb_contents :: "ring_buffer \<Rightarrow> envelope list" where
  "rb_contents s = map (\<lambda>i. rb_buf s ! rb_slot (rb_head s + of_nat i)) [0..<rb_count s]"

section \<open>Concurrent access\<close>

text \<open>The producer's and the consumer's program points. \<open>P_Loaded t h env\<close>: \<open>push (env)\<close> has read
  its own tail and the consumer's head. \<open>P_Written\<close>: the slot is filled, the release store of the
  tail is pending. Likewise for \<open>pop\<close>.\<close>

datatype producer = P_Idle | P_Loaded u32 u32 envelope | P_Written u32 u32 envelope

datatype consumer = C_Idle | C_Loaded u32 u32 | C_Read u32 u32 envelope

record spsc =
  sp_ring :: ring_buffer
  sp_prod :: producer
  sp_cons :: consumer
  sp_enq :: "envelope list"
  sp_deq :: "envelope list"

text \<open>\<open>sp_enq\<close> and \<open>sp_deq\<close> are ghost histories: the envelopes whose \<open>push\<close>, \<open>pop\<close> has published
  its counter. The loads of a thread's own counter and of the other's counter are one step: no
  other thread writes the own counter.\<close>

inductive spsc_step :: "spsc \<Rightarrow> spsc \<Rightarrow> bool" where
  p_load: "sp_prod s = P_Idle \<Longrightarrow>
     spsc_step s (s\<lparr> sp_prod := P_Loaded (rb_tail (sp_ring s)) (rb_head (sp_ring s)) env \<rparr>)"
| p_full: "sp_prod s = P_Loaded t h env \<Longrightarrow> t - h \<ge> MSG_RING_CAPACITY \<Longrightarrow>
     spsc_step s (s\<lparr> sp_prod := P_Idle \<rparr>)"
| p_write: "sp_prod s = P_Loaded t h env \<Longrightarrow> t - h < MSG_RING_CAPACITY \<Longrightarrow>
     spsc_step s (s\<lparr> sp_ring := (sp_ring s)\<lparr> rb_buf := (rb_buf (sp_ring s))[unat (t AND RING_MASK) := env] \<rparr>,
                     sp_prod := P_Written t h env \<rparr>)"
| p_store: "sp_prod s = P_Written t h env \<Longrightarrow>
     spsc_step s (s\<lparr> sp_ring := (sp_ring s)\<lparr> rb_tail := t + 1 \<rparr>, sp_prod := P_Idle,
                     sp_enq := sp_enq s @ [env] \<rparr>)"
| c_load: "sp_cons s = C_Idle \<Longrightarrow>
     spsc_step s (s\<lparr> sp_cons := C_Loaded (rb_head (sp_ring s)) (rb_tail (sp_ring s)) \<rparr>)"
| c_empty: "sp_cons s = C_Loaded h t \<Longrightarrow> t - h = 0 \<Longrightarrow>
     spsc_step s (s\<lparr> sp_cons := C_Idle \<rparr>)"
| c_read: "sp_cons s = C_Loaded h t \<Longrightarrow> t - h \<noteq> 0 \<Longrightarrow>
     spsc_step s (s\<lparr> sp_cons := C_Read h t (rb_buf (sp_ring s) ! unat (h AND RING_MASK)) \<rparr>)"
| c_store: "sp_cons s = C_Read h t env \<Longrightarrow>
     spsc_step s (s\<lparr> sp_ring := (sp_ring s)\<lparr> rb_head := h + 1 \<rparr>, sp_cons := C_Idle,
                     sp_deq := sp_deq s @ [env] \<rparr>)"

definition spsc_start :: spsc where
  "spsc_start = \<lparr> sp_ring = RingBuffer_new, sp_prod = P_Idle, sp_cons = C_Idle,
                  sp_enq = [], sp_deq = [] \<rparr>"

inductive spsc_reachable :: "spsc \<Rightarrow> bool" where
  start: "spsc_reachable spsc_start"
| step: "spsc_reachable s \<Longrightarrow> spsc_step s s' \<Longrightarrow> spsc_reachable s'"

text \<open>What producer and consumer know, given the shared counters: a loaded counter of the other
  side may be stale, but only in the safe direction.\<close>

fun prod_ok :: "ring_buffer \<Rightarrow> producer \<Rightarrow> bool" where
  "prod_ok r P_Idle = True"
| "prod_ok r (P_Loaded t h env) = (t = rb_tail r \<and> rb_count r \<le> unat (t - h) \<and> t - h \<le> MSG_RING_CAPACITY)"
| "prod_ok r (P_Written t h env) = (t = rb_tail r \<and> rb_count r \<le> unat (t - h) \<and> t - h < MSG_RING_CAPACITY \<and>
     rb_buf r ! rb_slot t = env)"

fun cons_ok :: "ring_buffer \<Rightarrow> consumer \<Rightarrow> bool" where
  "cons_ok r C_Idle = True"
| "cons_ok r (C_Loaded h t) = (h = rb_head r \<and> unat (t - h) \<le> rb_count r)"
| "cons_ok r (C_Read h t env) = (h = rb_head r \<and> unat (t - h) \<le> rb_count r \<and> t - h \<noteq> 0 \<and>
     rb_buf r ! rb_slot h = env)"

definition spsc_inv :: "spsc \<Rightarrow> bool" where
  "spsc_inv s \<longleftrightarrow> rb_inv (sp_ring s) \<and> prod_ok (sp_ring s) (sp_prod s) \<and>
     cons_ok (sp_ring s) (sp_cons s) \<and> sp_enq s = sp_deq s @ rb_contents (sp_ring s)"

text \<open>The assertions of \<open>push\<close> and \<open>pop\<close> at each program point, over the values the thread has
  loaded.\<close>

fun prod_asserts :: "producer \<Rightarrow> bool" where
  "prod_asserts P_Idle = True"
| "prod_asserts (P_Loaded t h env) = (t - h \<le> MSG_RING_CAPACITY)"
| "prod_asserts (P_Written t h env) = (t + 1 - h \<le> MSG_RING_CAPACITY)"

fun cons_asserts :: "consumer \<Rightarrow> bool" where
  "cons_asserts C_Idle = True"
| "cons_asserts (C_Loaded h t) = (t - h \<le> MSG_RING_CAPACITY)"
| "cons_asserts (C_Read h t env) = (t - (h + 1) < MSG_RING_CAPACITY)"


section \<open>Counter arithmetic\<close>

lemma rb_slot_mod: "rb_slot t = unat t mod 64"
proof -
  have "t AND 63 = take_bit 6 t" by (simp add: take_bit_eq_mask mask_eq_decr_exp)
  then show ?thesis by (simp add: rb_slot_def unat_mod_distrib take_bit_eq_mod)
qed

lemma rb_slot_lt [simp]: "rb_slot t < 64"
  by (simp add: rb_slot_mod)

lemma rb_slot_add: "rb_slot (h + of_nat i) = (unat h + i) mod 64"
proof -
  have "unat (h + of_nat i) = (unat h + i) mod 4294967296"
    by (simp add: unat_word_ariths unat_of_nat mod_simps)
  then show ?thesis by (simp add: rb_slot_mod mod_mod_cancel)
qed

lemma rb_slot_inj:
  "rb_slot (h + of_nat i) = rb_slot (h + of_nat j) \<Longrightarrow> i < 64 \<Longrightarrow> j < 64 \<Longrightarrow> i = j"
  unfolding rb_slot_add by (rule mod_add_inj)

lemma rb_tail_eq: "rb_tail s = rb_head s + of_nat (rb_count s)"
  by (simp add: rb_count_def)

lemma dist_step_up: "(t :: u32) - h < MSG_RING_CAPACITY \<Longrightarrow> unat (t + 1 - h) = Suc (unat (t - h))"
proof -
  assume a: "t - h < MSG_RING_CAPACITY"
  have eq: "t + 1 - h = (t - h) + 1" by simp
  have "unat (t - h) < 64" using a by (simp add: word_less_nat_alt)
  then show ?thesis unfolding eq by (subst unat_add_no_wrap) simp_all
qed

lemma dist_step_down: "(t :: u32) - h \<noteq> 0 \<Longrightarrow> unat (t - (h + 1)) = unat (t - h) - 1"
proof -
  assume a: "t - h \<noteq> 0"
  have eq: "t - (h + 1) = (t - h) - 1" by simp
  have "1 \<le> t - h" using a by (simp add: word_le_nat_alt Suc_le_eq unat_gt_0)
  then show ?thesis unfolding eq by (subst unat_diff_le) simp_all
qed

lemma ring_mask_slot: "unat (t AND RING_MASK) = rb_slot t"
  by (simp add: rb_slot_def)

section \<open>Effect of the four memory operations on the queue contents\<close>

lemma length_rb_contents [simp]: "length (rb_contents s) = rb_count s"
  by (simp add: rb_contents_def)

lemma rb_count_buf [simp]: "rb_count (s\<lparr> rb_buf := b \<rparr>) = rb_count s"
  by (simp add: rb_count_def)

lemma rb_count_publish:
  "rb_count s < 64 \<Longrightarrow> rb_count (s\<lparr> rb_tail := rb_tail s + 1 \<rparr>) = Suc (rb_count s)"
  by (simp add: rb_count_def dist_step_up word_less_nat_alt)

lemma rb_count_consume:
  "0 < rb_count s \<Longrightarrow> rb_count (s\<lparr> rb_head := rb_head s + 1 \<rparr>) = rb_count s - 1"
  by (simp add: rb_count_def dist_step_down unat_gt_0)

lemma rb_contents_write:
  assumes "length (rb_buf s) = 64" and "rb_count s < 64"
  shows "rb_contents (s\<lparr> rb_buf := (rb_buf s)[rb_slot (rb_tail s) := env] \<rparr>) = rb_contents s"
proof -
  have "rb_slot (rb_head s + of_nat i) \<noteq> rb_slot (rb_tail s)" if "i < rb_count s" for i
    using rb_slot_inj [of "rb_head s" i "rb_count s"] that assms(2) by (auto simp: rb_tail_eq)
  then show ?thesis by (auto simp: rb_contents_def intro!: map_cong nth_list_update_neq [OF not_sym])
qed

lemma rb_contents_publish:
  assumes "rb_count s < 64"
  shows "rb_contents (s\<lparr> rb_tail := rb_tail s + 1 \<rparr>) = rb_contents s @ [rb_buf s ! rb_slot (rb_tail s)]"
  by (simp add: rb_contents_def rb_count_publish [OF assms] rb_tail_eq [symmetric])

lemma rb_contents_consume:
  assumes "0 < rb_count s"
  shows "rb_contents s =
    rb_buf s ! rb_slot (rb_head s) # rb_contents (s\<lparr> rb_head := rb_head s + 1 \<rparr>)"
proof -
  obtain n where n: "rb_count s = Suc n" using assms by (cases "rb_count s") auto
  have "[0..<Suc n] = 0 # map Suc [0..<n]" by (simp add: upt_conv_Cons map_Suc_upt)
  with n assms show ?thesis by (simp add: rb_contents_def rb_count_consume comp_def add.assoc)
qed

lemmas rb_effects = rb_count_publish rb_count_consume rb_contents_write rb_contents_publish

section \<open>The interface to a reader and a writer\<close>

text \<open>A source of items in first-in first-out order: \<open>pop\<close> returns the oldest item, or
  reports an empty queue and leaves the out-parameter alone; it never trips an assertion.\<close>

locale fifo_source =
  fixes inv :: "'q \<Rightarrow> bool"
    and contents :: "'q \<Rightarrow> 'a list"
    and pop :: "'q \<Rightarrow> 'a \<Rightarrow> (Result \<times> 'a \<times> 'q) option"
  assumes pop_empty: "inv q \<Longrightarrow> contents q = [] \<Longrightarrow> pop q d = Some (ERR_EMPTY, d, q)"
    and pop_item: "inv q \<Longrightarrow> contents q = x # xs \<Longrightarrow>
      \<exists>q'. pop q d = Some (OK, x, q') \<and> inv q' \<and> contents q' = xs"
begin

lemma pop_returns:
  assumes "inv q"
  shows "returns (pop q d) (\<lambda>(r, x, q'). inv q' \<and>
    (if r = OK then contents q = x # contents q'
     else r = ERR_EMPTY \<and> contents q = [] \<and> x = d \<and> q' = q))"
proof (cases "contents q")
  case Nil
  with assms show ?thesis by (simp add: pop_empty)
next
  case (Cons x xs)
  with pop_item [OF assms Cons, of d] assms show ?thesis by auto
qed

primrec pop_n :: "nat \<Rightarrow> 'q \<Rightarrow> 'a \<Rightarrow> ('a list \<times> 'q) option" where
  "pop_n 0 q d = Some ([], q)"
| "pop_n (Suc n) q d = do {
     (r, x, q) \<leftarrow> pop q d;
     if r = OK then do { (xs, q) \<leftarrow> pop_n n q d; Some (x # xs, q) } else Some ([], q) }"

lemma pop_n_takes:
  "inv q \<Longrightarrow> returns (pop_n n q d) (\<lambda>(xs, q'). inv q' \<and> xs = take n (contents q) \<and>
    contents q' = drop n (contents q))"
proof (induction n arbitrary: q)
  case 0
  then show ?case by simp
next
  case (Suc n)
  show ?case
  proof (cases "contents q")
    case Nil
    with Suc.prems show ?thesis by (simp add: pop_empty)
  next
    case (Cons x xs)
    from pop_item [OF Suc.prems Cons, of d] obtain q'
      where q': "pop q d = Some (OK, x, q')" "inv q'" "contents q' = xs" by blast
    from Suc.IH [OF q'(2)] q' Cons show ?thesis
      by (auto elim!: returnsE)
  qed
qed

end

text \<open>A writer that is refused when the queue is full.\<close>

locale bounded_fifo = fifo_source inv contents pop
  for inv :: "'q \<Rightarrow> bool" and contents :: "'q \<Rightarrow> 'a list"
    and pop :: "'q \<Rightarrow> 'a \<Rightarrow> (Result \<times> 'a \<times> 'q) option" +
  fixes capacity :: nat
    and push :: "'q \<Rightarrow> 'a \<Rightarrow> (Result \<times> 'q) option"
  assumes push_item: "inv q \<Longrightarrow> length (contents q) < capacity \<Longrightarrow>
      \<exists>q'. push q x = Some (OK, q') \<and> inv q' \<and> contents q' = contents q @ [x]"
    and push_full: "inv q \<Longrightarrow> capacity \<le> length (contents q) \<Longrightarrow> push q x = Some (ERR_FULL, q)"
    and bounded: "inv q \<Longrightarrow> length (contents q) \<le> capacity"
begin

definition push_all :: "'a list \<Rightarrow> 'q \<Rightarrow> 'q option" where
  "push_all = for_each (\<lambda>x q. do { (r, q) \<leftarrow> push q x; nc_assert (r = OK); Some q })"

lemma push_all_appends:
  "inv q \<Longrightarrow> length (contents q) + length xs \<le> capacity \<Longrightarrow>
   returns (push_all xs q) (\<lambda>q'. inv q' \<and> contents q' = contents q @ xs)"
proof (induction xs arbitrary: q)
  case Nil
  then show ?case by (simp add: push_all_def)
next
  case (Cons x xs)
  from push_item [OF Cons.prems(1), of x] Cons.prems(2) obtain q'
    where q': "push q x = Some (OK, q')" "inv q'" "contents q' = contents q @ [x]" by auto
  from Cons.IH [OF q'(2)] q' Cons.prems(2) show ?case by (simp add: push_all_def)
qed

lemma push_all_then_pop_all:
  assumes "inv q" and "contents q = []" and "length xs \<le> capacity"
  shows "returns (push_all xs q \<bind> (\<lambda>q'. pop_n (length xs) q' d)) (\<lambda>(ys, q''). ys = xs \<and> contents q'' = [])"
proof -
  from push_all_appends [of q xs] assms
  have "returns (push_all xs q) (\<lambda>q'. inv q' \<and> contents q' = xs)" by simp
  then obtain q' where q': "push_all xs q = Some q'" "inv q'" "contents q' = xs"
    by (auto elim: returnsE)
  from pop_n_takes [OF q'(2), of "length xs" d] q' show ?thesis by (auto elim!: returns_mono)
qed

end

text \<open>A writer that always succeeds and displaces the oldest item when the ring is full.\<close>

locale overwrite_ring = fifo_source inv contents pop
  for inv :: "'q \<Rightarrow> bool" and contents :: "'q \<Rightarrow> 'a list"
    and pop :: "'q \<Rightarrow> 'a \<Rightarrow> (Result \<times> 'a \<times> 'q) option" +
  fixes capacity :: nat
    and push :: "'q \<Rightarrow> 'a \<Rightarrow> 'q option"
  assumes capacity_pos: "0 < capacity"
    and push_keeps: "inv q \<Longrightarrow> \<exists>q'. push q x = Some q' \<and> inv q' \<and>
      contents q' = (if length (contents q) < capacity then contents q else tl (contents q)) @ [x]"
    and bounded: "inv q \<Longrightarrow> length (contents q) \<le> capacity"
begin

lemma push_returns:
  "inv q \<Longrightarrow> returns (push q x) (\<lambda>q'. inv q' \<and>
     contents q' = (if length (contents q) < capacity then contents q else tl (contents q)) @ [x])"
  using push_keeps [of q x] by auto

text \<open>After any number of pushes the ring holds the most recent items, oldest first.\<close>

lemma push_window:
  "inv q \<Longrightarrow> returns (for_each (\<lambda>x q. push q x) xs q) (\<lambda>q'. inv q' \<and>
     contents q' = drop (length (contents q) + length xs - capacity) (contents q @ xs))"
proof (induction xs arbitrary: q)
  case Nil
  then show ?case using bounded [of q] by simp
next
  case (Cons x xs)
  from push_keeps [OF Cons.prems, of x] obtain q' where
    q': "push q x = Some q'" "inv q'"
      "contents q' = (if length (contents q) < capacity then contents q else tl (contents q)) @ [x]"
    by blast
  show ?case
  proof (cases "length (contents q) < capacity")
    case True
    with q' Cons.IH [OF q'(2)] show ?thesis by (auto elim!: returnsE)
  next
    case False
    with bounded [OF Cons.prems] have len: "length (contents q) = capacity" by simp
    with capacity_pos obtain y ys where "contents q = y # ys" by (cases "contents q") auto
    with False len q' Cons.IH [OF q'(2)] show ?thesis by (auto elim!: returnsE)
  qed
qed

end

section \<open>The sequential queue implements the interface\<close>

lemma rb_inv_new: "rb_inv RingBuffer_new \<and> rb_contents RingBuffer_new = []"
  by (simp add: rb_inv_def RingBuffer_new_def rb_count_def rb_contents_def)

lemma RingBuffer_init_spec:
  "rb_inv s \<Longrightarrow> returns (RingBuffer_init s) (\<lambda>s'. rb_inv s' \<and> rb_contents s' = [])"
  by (simp add: RingBuffer_init_def rb_inv_def rb_count_def rb_contents_def)

lemma rb_capacity_iff: "rb_tail s - rb_head s < MSG_RING_CAPACITY \<longleftrightarrow> rb_count s < 64"
  by (simp add: rb_count_def word_less_nat_alt)

lemma RingBuffer_push_room:
  assumes "rb_inv s" and "rb_count s < 64"
  shows "RingBuffer_push s env =
    Some (OK, s\<lparr> rb_buf := (rb_buf s)[rb_slot (rb_tail s) := env], rb_tail := rb_tail s + 1 \<rparr>)"
proof -
  have lt: "rb_tail s - rb_head s < MSG_RING_CAPACITY" using assms(2) by (simp only: rb_capacity_iff)
  from dist_step_up [OF lt] lt have "rb_tail s + 1 - rb_head s \<le> MSG_RING_CAPACITY"
    by (simp add: word_le_nat_alt word_less_nat_alt)
  with lt show ?thesis
    by (simp add: RingBuffer_push_def ring_mask_slot [simplified] Let_def not_le [symmetric] less_imp_le)
qed

lemma RingBuffer_pop_item:
  assumes "rb_inv s" and "0 < rb_count s"
  shows "RingBuffer_pop s env =
    Some (OK, rb_buf s ! rb_slot (rb_head s), s\<lparr> rb_head := rb_head s + 1 \<rparr>)"
proof -
  have nz: "rb_tail s - rb_head s \<noteq> 0" and le: "rb_tail s - rb_head s \<le> MSG_RING_CAPACITY"
    using assms by (simp_all add: rb_inv_def rb_count_def word_le_nat_alt unat_gt_0)
  from dist_step_down [OF nz] le nz have "rb_tail s - (rb_head s + 1) < MSG_RING_CAPACITY"
    using unat_gt_0 [of "rb_tail s - rb_head s"] by (simp add: word_le_nat_alt word_less_nat_alt)
  with nz le show ?thesis
    by (simp add: RingBuffer_pop_def ring_mask_slot [simplified] Let_def)
qed

interpretation rbq: bounded_fifo rb_inv rb_contents RingBuffer_pop "unat MSG_RING_CAPACITY" RingBuffer_push
proof unfold_locales
  fix q d assume "rb_inv q" "rb_contents q = []"
  then have "rb_count q = 0" by (simp add: rb_contents_def)
  then show "RingBuffer_pop q d = Some (ERR_EMPTY, d, q)"
    by (simp add: RingBuffer_pop_def rb_count_def unat_eq_0)
next
  fix q x xs d assume inv: "rb_inv q" and c: "rb_contents q = x # xs"
  then have pos: "0 < rb_count q" by (metis length_rb_contents length_greater_0_conv list.distinct(1))
  with inv have "rb_inv (q\<lparr> rb_head := rb_head q + 1 \<rparr>)" by (auto simp: rb_inv_def rb_effects)
  with RingBuffer_pop_item [OF inv pos, of d] rb_contents_consume [OF pos] c
  show "\<exists>q'. RingBuffer_pop q d = Some (OK, x, q') \<and> rb_inv q' \<and> rb_contents q' = xs" by auto
next
  fix q x assume inv: "rb_inv q" and "length (rb_contents q) < unat MSG_RING_CAPACITY"
  then have lt: "rb_count q < 64" and len: "length (rb_buf q) = 64" by (simp_all add: rb_inv_def)
  define w where "w = q\<lparr> rb_buf := (rb_buf q)[rb_slot (rb_tail q) := x] \<rparr>"
  have w: "rb_contents w = rb_contents q" "rb_count w = rb_count q" "rb_buf w ! rb_slot (rb_tail w) = x"
    "length (rb_buf w) = 64"
    using lt len by (simp_all add: w_def rb_effects)
  then have "rb_contents (w\<lparr> rb_tail := rb_tail w + 1 \<rparr>) = rb_contents q @ [x]"
    "rb_inv (w\<lparr> rb_tail := rb_tail w + 1 \<rparr>)"
    using lt by (simp_all add: rb_effects rb_inv_def)
  with RingBuffer_push_room [OF inv lt, of x]
  show "\<exists>q'. RingBuffer_push q x = Some (OK, q') \<and> rb_inv q' \<and> rb_contents q' = rb_contents q @ [x]"
    by (simp add: w_def)
next
  fix q x assume "rb_inv q" "unat MSG_RING_CAPACITY \<le> length (rb_contents q)"
  then have "rb_tail q - rb_head q = MSG_RING_CAPACITY"
    by (simp add: rb_inv_def rb_count_def word_unat_eq_iff)
  then show "RingBuffer_push q x = Some (ERR_FULL, q)" by (simp add: RingBuffer_push_def)
next
  fix q assume "rb_inv q"
  then show "length (rb_contents q) \<le> unat MSG_RING_CAPACITY" by (simp add: rb_inv_def)
qed

section \<open>Interleaved producer and consumer\<close>

lemmas spsc_simps = prod_ok.simps cons_ok.simps

lemma prod_ok_room: "prod_ok r (P_Loaded t h env) \<Longrightarrow> t - h < MSG_RING_CAPACITY \<Longrightarrow> rb_count r < 64"
  by (auto simp: word_less_nat_alt)

lemma spsc_inv_start: "spsc_inv spsc_start"
  using rb_inv_new by (simp add: spsc_inv_def spsc_start_def)

lemma cons_ok_write:
  assumes "cons_ok r c" and "length (rb_buf r) = 64" and "rb_count r < 64"
  shows "cons_ok (r\<lparr> rb_buf := (rb_buf r)[rb_slot (rb_tail r) := env] \<rparr>) c"
proof (cases c)
  case (C_Read h t e)
  with assms(1) have c: "0 < rb_count r" "h = rb_head r"
    using unat_gt_0 [of "t - h"] by auto
  have "rb_slot (rb_head r + of_nat 0) \<noteq> rb_slot (rb_head r + of_nat (rb_count r))"
    using rb_slot_inj [of "rb_head r" 0 "rb_count r"] c(1) assms(3) by fastforce
  then have "rb_slot (rb_head r) \<noteq> rb_slot (rb_tail r)"
    by (simp only: rb_tail_eq [of r]) simp
  with assms(1) C_Read c(2) show ?thesis by (simp add: rb_count_def)
qed (use assms in \<open>auto simp: rb_count_def\<close>)

lemma cons_ok_publish:
  "cons_ok r c \<Longrightarrow> rb_count r < 64 \<Longrightarrow> cons_ok (r\<lparr> rb_tail := rb_tail r + 1 \<rparr>) c"
  by (cases c) (auto simp: rb_effects)

lemma prod_ok_consume:
  "prod_ok r p \<Longrightarrow> 0 < rb_count r \<Longrightarrow> prod_ok (r\<lparr> rb_head := rb_head r + 1 \<rparr>) p"
  by (cases p) (auto simp: rb_effects)

lemma spsc_step_inv [inv_intro]:
  assumes "spsc_step s s'" and "spsc_inv s"
  shows "spsc_inv s'"
  using assms
proof (cases rule: spsc_step.cases)
  case (p_load env)
  with assms(2) show ?thesis by (auto simp: spsc_inv_def rb_inv_def rb_count_def word_le_nat_alt)
next
  case (p_full t h env)
  with assms(2) show ?thesis by (simp add: spsc_inv_def)
next
  case (p_write t h env)
  let ?r = "sp_ring s"
  from assms(2) p_write have lt: "rb_count ?r < 64" and t: "t = rb_tail ?r" and
    len: "length (rb_buf ?r) = 64"
    by (auto simp: spsc_inv_def rb_inv_def word_less_nat_alt)
  from assms(2) have "cons_ok ?r (sp_cons s)" by (simp add: spsc_inv_def)
  from cons_ok_write [OF this len lt, of env] assms(2) p_write t lt len show ?thesis
    by (simp add: spsc_inv_def rb_inv_def ring_mask_slot [simplified] rb_effects)
next
  case (p_store t h env)
  let ?r = "sp_ring s"
  from assms(2) p_store have lt: "rb_count ?r < 64" and t: "t = rb_tail ?r"
    by (auto simp: spsc_inv_def word_less_nat_alt)
  from assms(2) cons_ok_publish [OF _ lt] p_store t lt show ?thesis
    by (auto simp: spsc_inv_def rb_inv_def rb_effects)
next
  case (c_load)
  with assms(2) show ?thesis by (auto simp: spsc_inv_def rb_count_def)
next
  case (c_empty h t)
  with assms(2) show ?thesis by (simp add: spsc_inv_def)
next
  case (c_read h t)
  with assms(2) show ?thesis by (auto simp: spsc_inv_def ring_mask_slot [simplified])
next
  case (c_store h t env)
  let ?r = "sp_ring s"
  from assms(2) c_store have pos: "0 < rb_count ?r" and h: "h = rb_head ?r"
    using unat_gt_0 [of "t - h"] by (auto simp: spsc_inv_def)
  from assms(2) prod_ok_consume [OF _ pos] rb_contents_consume [OF pos] c_store h pos show ?thesis
    by (auto simp: spsc_inv_def rb_inv_def rb_effects)
qed

lemma spsc_reachable_inv: "spsc_reachable s \<Longrightarrow> spsc_inv s"
  by (induction rule: spsc_reachable.induct) (auto intro: spsc_inv_start spsc_step_inv)

lemma spsc_inv_asserts:
  assumes "spsc_inv s"
  shows "prod_asserts (sp_prod s)" and "cons_asserts (sp_cons s)"
proof -
  show "prod_asserts (sp_prod s)"
  proof (cases "sp_prod s")
    case (P_Written t h env)
    with assms have "t - h < MSG_RING_CAPACITY" by (auto simp: spsc_inv_def)
    from dist_step_up [OF this] this P_Written show ?thesis
      by (simp add: word_le_nat_alt word_less_nat_alt)
  qed (use assms in \<open>simp_all add: spsc_inv_def\<close>)
  have cap: "rb_count (sp_ring s) \<le> 64" using assms by (simp add: spsc_inv_def rb_inv_def)
  show "cons_asserts (sp_cons s)"
  proof (cases "sp_cons s")
    case (C_Read h t env)
    with assms have "t - h \<noteq> 0" "unat (t - h) \<le> 64" using cap by (auto simp: spsc_inv_def)
    with dist_step_down [OF this(1)] C_Read unat_gt_0 [of "t - h"] show ?thesis
      by (simp add: word_less_nat_alt)
  qed (use assms cap in \<open>auto simp: spsc_inv_def word_le_nat_alt\<close>)
qed

text \<open>Claim C38. Under every interleaving of one producer with one consumer, at every
  point: no assertion of \<open>push\<close> or \<open>pop\<close> fires, the occupancy is at most the capacity, and the
  envelopes popped so far are a prefix of the envelopes pushed so far, the rest being exactly what
  the buffer holds, in order. Nothing is lost, duplicated, reordered or torn, also across
  wrap-around of the 32-bit counters.\<close>

theorem spsc_queue_correct:
  assumes "spsc_reachable s"
  shows "prod_asserts (sp_prod s) \<and> cons_asserts (sp_cons s) \<and>
    rb_count (sp_ring s) \<le> unat MSG_RING_CAPACITY \<and>
    sp_enq s = sp_deq s @ rb_contents (sp_ring s)"
proof -
  have inv: "spsc_inv s" using assms by (rule spsc_reachable_inv)
  then have "rb_count (sp_ring s) \<le> unat MSG_RING_CAPACITY" and
    "sp_enq s = sp_deq s @ rb_contents (sp_ring s)"
    by (simp_all only: spsc_inv_def rb_inv_def)
  with spsc_inv_asserts [OF inv] show ?thesis by blast
qed

text \<open>The run in which one envelope is pushed and then popped.\<close>

lemma spsc_push_pop_reachable:
  "\<exists>s. spsc_reachable s \<and> sp_deq s = [e] \<and> sp_enq s = [e] \<and> sp_prod s = P_Idle \<and> sp_cons s = C_Idle"
proof -
  let ?w = "RingBuffer_new\<lparr> rb_buf := (rb_buf RingBuffer_new)[0 := e] \<rparr>"
  note st = spsc_reachable.step
  note sim = spsc_start_def RingBuffer_new_def
  have 0: "spsc_reachable spsc_start" by (rule spsc_reachable.start)
  have 1: "spsc_reachable (spsc_start\<lparr> sp_prod := P_Loaded 0 0 e \<rparr>)"
    using st [OF 0 p_load [of _ e]] by (simp add: sim)
  have 2: "spsc_reachable (spsc_start\<lparr> sp_ring := ?w, sp_prod := P_Written 0 0 e \<rparr>)"
    using st [OF 1 p_write [of _ 0 0 e]] by (simp add: sim)
  have 3: "spsc_reachable (spsc_start\<lparr> sp_ring := ?w\<lparr> rb_tail := 1 \<rparr>, sp_enq := [e] \<rparr>)"
    using st [OF 2 p_store [of _ 0 0 e]] by (simp add: sim)
  have 4: "spsc_reachable (spsc_start\<lparr> sp_ring := ?w\<lparr> rb_tail := 1 \<rparr>, sp_cons := C_Loaded 0 1, sp_enq := [e] \<rparr>)"
    using st [OF 3 c_load] by (simp add: sim)
  have 5: "spsc_reachable (spsc_start\<lparr> sp_ring := ?w\<lparr> rb_tail := 1 \<rparr>, sp_cons := C_Read 0 1 e, sp_enq := [e] \<rparr>)"
    using st [OF 4 c_read [of _ 0 1]] by (simp add: sim)
  have "spsc_reachable (spsc_start\<lparr> sp_ring := ?w\<lparr> rb_head := 1, rb_tail := 1 \<rparr>, sp_enq := [e], sp_deq := [e] \<rparr>)"
    using st [OF 5 c_store [of _ 0 1 e]] by (simp add: sim)
  then show ?thesis by (intro exI conjI) (assumption, simp_all add: sim)
qed

theorem spsc_queue_correct_witness:
  "\<exists>s. spsc_reachable s \<and> sp_deq s = [envelope_init] \<and> rb_contents (sp_ring s) = []"
  using spsc_push_pop_reachable [of envelope_init] spsc_queue_correct by fastforce

text \<open>\<open>push\<close> and \<open>pop\<close> run one after the other refine a bounded list: filling an empty
  queue with at most 64 envelopes and popping as many returns them in order.\<close>

theorem ring_push_pop_refines:
  assumes "rb_inv s"
  shows "returns (RingBuffer_push s env) (\<lambda>(r, s'). rb_inv s' \<and>
      (if length (rb_contents s) < unat MSG_RING_CAPACITY
       then r = OK \<and> rb_contents s' = rb_contents s @ [env] else r = ERR_FULL \<and> s' = s)) \<and>
    returns (RingBuffer_pop s d) (\<lambda>(r, e, s'). rb_inv s' \<and>
      (if r = OK then rb_contents s = e # rb_contents s'
       else r = ERR_EMPTY \<and> rb_contents s = [] \<and> e = d \<and> s' = s))"
  using rbq.pop_returns [OF assms, of d] rbq.push_item [OF assms, of env]
    rbq.push_full [OF assms, of env] assms
  by (cases "length (rb_contents s) < unat MSG_RING_CAPACITY") (auto simp: not_less)

theorem ring_push_pop_refines_witness:
  "returns (RingBuffer_push RingBuffer_new envelope_init) (\<lambda>(r, s'). r = OK \<and> rb_contents s' = [envelope_init])"
  using ring_push_pop_refines [of RingBuffer_new envelope_init envelope_init] rb_inv_new
  by (auto elim!: returnsE simp: returns_ex)

end
