(* ===== verification/DeliveryEventRing.thy ===== *)
theory DeliveryEventRing
  imports RingBuffer
begin

text \<open>
  \<open>src/core/DeliveryEvent.hpp\<close> and \<open>src/core/DeliveryEventRing.hpp\<close>: the observability
  records of the delivery engine and the ring that keeps the newest of them. The ring is an
  instance of the interface \<open>overwrite_ring\<close>.
\<close>

datatype DeliveryEventKind =
  SEND_OK | SEND_FAIL | ACK_RECEIVED | RETRY_FIRED | ACK_TIMEOUT | DUPLICATE_DROP
| EXPIRY_DROP | MISROUTE_DROP | RECONNECT_CANCEL

record delivery_event =
  ev_message_id :: u64
  ev_timestamp_us :: u64
  ev_node_id :: NodeId
  ev_kind :: DeliveryEventKind
  ev_result :: Result

definition event_zero :: delivery_event where
  "event_zero = \<lparr> ev_message_id = 0, ev_timestamp_us = 0, ev_node_id = 0, ev_kind = SEND_OK,
                  ev_result = OK \<rparr>"

record event_ring =
  er_buf :: "delivery_event list"
  er_head :: nat
  er_tail :: nat
  er_count :: nat

definition DeliveryEventRing_init :: "event_ring \<Rightarrow> event_ring option" where
  "DeliveryEventRing_init s = do {
     nc_assert (DELIVERY_EVENT_RING_CAPACITY > 0);
     nc_assert (DELIVERY_EVENT_RING_CAPACITY \<le> 256);
     let s = \<lparr> er_buf = replicate DELIVERY_EVENT_RING_CAPACITY event_zero,
               er_head = 0, er_tail = 0, er_count = 0 \<rparr>;
     nc_assert (er_count s = 0);
     Some s
   }"

definition DeliveryEventRing_push :: "event_ring \<Rightarrow> delivery_event \<Rightarrow> event_ring option" where
  "DeliveryEventRing_push s ev = do {
     nc_assert (er_head s < DELIVERY_EVENT_RING_CAPACITY);
     nc_assert (er_count s \<le> DELIVERY_EVENT_RING_CAPACITY);
     let s = s\<lparr> er_buf := (er_buf s)[er_head s := ev] \<rparr>;
     let s = s\<lparr> er_head := (er_head s + 1) mod DELIVERY_EVENT_RING_CAPACITY \<rparr>;
     let s = (if er_count s < DELIVERY_EVENT_RING_CAPACITY
              then s\<lparr> er_count := er_count s + 1 \<rparr>
              else s\<lparr> er_tail := (er_tail s + 1) mod DELIVERY_EVENT_RING_CAPACITY \<rparr>);
     nc_assert (er_count s \<le> DELIVERY_EVENT_RING_CAPACITY);
     nc_assert (er_head s < DELIVERY_EVENT_RING_CAPACITY);
     Some s
   }"

definition DeliveryEventRing_pop ::
    "event_ring \<Rightarrow> delivery_event \<Rightarrow> (Result \<times> delivery_event \<times> event_ring) option" where
  "DeliveryEventRing_pop s out = do {
     nc_assert (er_tail s < DELIVERY_EVENT_RING_CAPACITY);
     nc_assert (er_count s \<le> DELIVERY_EVENT_RING_CAPACITY);
     if er_count s = 0 then Some (ERR_EMPTY, out, s)
     else do {
       let out = er_buf s ! er_tail s;
       let s = s\<lparr> er_tail := (er_tail s + 1) mod DELIVERY_EVENT_RING_CAPACITY \<rparr>;
       let s = s\<lparr> er_count := er_count s - 1 \<rparr>;
       nc_assert (er_count s < DELIVERY_EVENT_RING_CAPACITY);
       nc_assert (er_tail s < DELIVERY_EVENT_RING_CAPACITY);
       Some (OK, out, s)
     }
   }"

definition DeliveryEventRing_size :: "event_ring \<Rightarrow> nat option" where
  "DeliveryEventRing_size s = do {
     nc_assert (er_count s \<le> DELIVERY_EVENT_RING_CAPACITY);
     nc_assert (er_head s < DELIVERY_EVENT_RING_CAPACITY);
     Some (er_count s)
   }"

definition er_inv :: "event_ring \<Rightarrow> bool" where
  "er_inv s \<longleftrightarrow> length (er_buf s) = 64 \<and> er_tail s < 64 \<and> er_count s \<le> 64 \<and>
     er_head s = (er_tail s + er_count s) mod 64"

definition er_contents :: "event_ring \<Rightarrow> delivery_event list" where
  "er_contents s = map (\<lambda>i. er_buf s ! ((er_tail s + i) mod 64)) [0..<er_count s]"

section \<open>The ring implements the interface\<close>

lemma length_er_contents [simp]: "length (er_contents s) = er_count s"
  by (simp add: er_contents_def)

lemma er_contents_zero: "er_contents s = [] \<longleftrightarrow> er_count s = 0"
  by (metis length_0_conv length_er_contents)

lemma DeliveryEventRing_init_spec [inv_intro]:
  "returns (DeliveryEventRing_init s) (\<lambda>s'. er_inv s' \<and> er_contents s' = [])"
  by (simp add: DeliveryEventRing_init_def er_inv_def er_contents_def)

lemma DeliveryEventRing_size_spec:
  "er_inv s \<Longrightarrow> DeliveryEventRing_size s = Some (length (er_contents s))"
  by (simp add: DeliveryEventRing_size_def er_inv_def)

lemma er_contents_write:
  assumes "er_inv s" and "er_count s < 64"
  shows "er_contents (s\<lparr> er_buf := (er_buf s)[er_head s := ev], er_head := h, er_count := Suc (er_count s) \<rparr>) =
    er_contents s @ [ev]"
proof -
  have "(er_tail s + er_count s) mod 64 \<noteq> (er_tail s + i) mod 64" if "i < er_count s" for i
    using mod_add_inj [of "er_tail s" "er_count s" 64 i] that assms(2) by auto
  with assms show ?thesis by (auto simp: er_contents_def er_inv_def)
qed

lemma nth_er_contents: "i < er_count s \<Longrightarrow> er_contents s ! i = er_buf s ! ((er_tail s + i) mod 64)"
  by (simp add: er_contents_def)

lemma er_contents_overwrite:
  assumes "er_inv s" and "er_count s = 64"
  shows "er_contents (s\<lparr> er_buf := (er_buf s)[er_head s := ev], er_head := h,
            er_tail := Suc (er_tail s) mod 64 \<rparr>) = tl (er_contents s) @ [ev]" (is "er_contents ?s = _")
proof (rule nth_equalityI)
  fix i assume "i < length (er_contents ?s)"
  then have i: "i < 64" using assms(2) by simp
  have h: "er_head s = er_tail s" "length (er_buf s) = 64" "er_tail s < 64"
    using assms by (simp_all add: er_inv_def)
  have l: "er_contents ?s ! i = (er_buf s)[er_tail s := ev] ! ((er_tail s + Suc i) mod 64)"
    using i assms(2) h(1) by (simp add: nth_er_contents mod_simps)
  show "er_contents ?s ! i = (tl (er_contents s) @ [ev]) ! i"
  proof (cases "i = 63")
    case True
    then have "(er_tail s + Suc i) mod 64 = er_tail s" using h(3) by simp
    with l True h assms(2) show ?thesis by (simp add: nth_append)
  next
    case False
    with i have "(er_tail s + Suc i) mod 64 \<noteq> (er_tail s + 0) mod 64"
      using mod_add_inj [of "er_tail s" "Suc i" 64 0] by auto
    with False i h assms(2) l show ?thesis
      by (simp add: nth_er_contents nth_append nth_tl)
  qed
qed (use assms in \<open>simp add: er_inv_def\<close>)

interpretation evr: overwrite_ring er_inv er_contents DeliveryEventRing_pop
  DELIVERY_EVENT_RING_CAPACITY DeliveryEventRing_push
proof unfold_locales
  fix q d assume "er_inv q" "er_contents q = []"
  then show "DeliveryEventRing_pop q d = Some (ERR_EMPTY, d, q)"
    by (simp add: DeliveryEventRing_pop_def er_inv_def er_contents_zero)
next
  fix q x xs d assume inv: "er_inv q" and c: "er_contents q = x # xs"
  then obtain n where n: "er_count q = Suc n" using er_contents_zero [of q] by (cases "er_count q") auto
  have u: "[0..<Suc n] = 0 # map Suc [0..<n]" by (simp add: upt_conv_Cons map_Suc_upt)
  let ?q = "q\<lparr> er_tail := Suc (er_tail q) mod 64, er_count := n \<rparr>"
  have "DeliveryEventRing_pop q d = Some (OK, er_buf q ! er_tail q, ?q)"
    using inv n by (simp add: DeliveryEventRing_pop_def er_inv_def)
  moreover have "er_contents q = er_buf q ! er_tail q # er_contents ?q"
    using inv n by (simp add: er_contents_def u comp_def er_inv_def mod_simps del: upt_Suc)
  moreover have "er_inv ?q" using inv n by (simp add: er_inv_def mod_simps)
  ultimately show "\<exists>q'. DeliveryEventRing_pop q d = Some (OK, x, q') \<and> er_inv q' \<and> er_contents q' = xs"
    using c by auto
next
  show "0 < DELIVERY_EVENT_RING_CAPACITY" by simp
next
  fix q x assume inv: "er_inv q"
  show "\<exists>q'. DeliveryEventRing_push q x = Some q' \<and> er_inv q' \<and> er_contents q' =
    (if length (er_contents q) < DELIVERY_EVENT_RING_CAPACITY then er_contents q
     else tl (er_contents q)) @ [x]"
  proof (cases "er_count q < 64")
    case True
    with inv er_contents_write [OF inv True, where ev = x] show ?thesis
      by (simp add: DeliveryEventRing_push_def er_inv_def mod_simps)
  next
    case False
    then have full: "er_count q = 64" using inv by (simp add: er_inv_def)
    with inv er_contents_overwrite [OF inv full, where ev = x] show ?thesis
      by (simp add: DeliveryEventRing_push_def er_inv_def mod_simps)
  qed
next
  fix q assume "er_inv q"
  then show "length (er_contents q) \<le> DELIVERY_EVENT_RING_CAPACITY" by (simp add: er_inv_def)
qed

lemmas DeliveryEventRing_push_inv [inv_intro] = evr.push_returns

text \<open>Whatever sequence of events is pushed into a ring, it then holds exactly the
  newest \<open>DELIVERY_EVENT_RING_CAPACITY\<close> of them (and of what it held before), oldest first, and no assertion fires.\<close>

theorem event_ring_keeps_newest:
  assumes "er_inv s"
  shows "returns (for_each (\<lambda>ev s. DeliveryEventRing_push s ev) evs s) (\<lambda>s'. er_inv s' \<and>
    er_contents s' = drop (length (er_contents s) + length evs - DELIVERY_EVENT_RING_CAPACITY)
                          (er_contents s @ evs))"
  by (rule evr.push_window [OF assms])

theorem event_ring_keeps_newest_witness:
  "returns (do { s \<leftarrow> DeliveryEventRing_init \<lparr> er_buf = [], er_head = 0, er_tail = 0, er_count = 0 \<rparr>;
                 for_each (\<lambda>ev s. DeliveryEventRing_push s ev) [event_zero, event_zero] s })
     (\<lambda>s'. er_contents s' = [event_zero, event_zero])"
proof -
  have "returns (DeliveryEventRing_init \<lparr> er_buf = [], er_head = 0, er_tail = 0, er_count = 0 \<rparr>)
    (\<lambda>s. er_inv s \<and> er_contents s = [])" by (rule DeliveryEventRing_init_spec)
  then obtain s where s: "DeliveryEventRing_init \<lparr> er_buf = [], er_head = 0, er_tail = 0, er_count = 0 \<rparr> = Some s"
    "er_inv s" "er_contents s = []" by (auto elim: returnsE)
  from event_ring_keeps_newest [OF s(2), of "[event_zero, event_zero]"] s(3)
  have "returns (for_each (\<lambda>ev s. DeliveryEventRing_push s ev) [event_zero, event_zero] s)
    (\<lambda>s'. er_contents s' = [event_zero, event_zero])"
    by (auto elim!: returns_mono simp del: for_each.simps)
  with s(1) show ?thesis by (simp del: for_each.simps)
qed

end
