(* ===== verification/DuplicateFilter.thy ===== *)
theory DuplicateFilter
  imports Types
begin

text \<open>
  \<open>src/core/DuplicateFilter.cpp\<close>: the sliding window of (source, message id) pairs that
  suppresses duplicates, with eviction of the entry with the oldest time stamp.

  The abstract specification is a bounded list of keys, oldest first (\<open>window_step\<close>). The
  filter refines it as long as the time stamps of successive records increase strictly
  (\<open>dedup_refines_window\<close>); when they are equal the newest entry can be the one evicted
  (\<open>dedup_equal_timestamps_forget\<close>).
\<close>

record dedup_entry =
  de_src :: NodeId
  de_msg_id :: u64
  de_recorded_us :: u64
  de_valid :: bool

record dup_filter =
  df_window :: "dedup_entry list"
  df_next :: nat
  df_count :: nat

definition dedup_entry_zero :: dedup_entry where
  "dedup_entry_zero = \<lparr> de_src = 0, de_msg_id = 0, de_recorded_us = 0, de_valid = False \<rparr>"

definition DuplicateFilter_init :: "dup_filter \<Rightarrow> dup_filter option" where
  "DuplicateFilter_init s = do {
     let s = \<lparr> df_window = replicate DEDUP_WINDOW_SIZE dedup_entry_zero, df_next = 0, df_count = 0 \<rparr>;
     nc_assert (df_next s = 0);
     nc_assert (df_count s = 0);
     Some s
   }"

text \<open>The scan does not stop at a match: it accumulates.\<close>

definition DuplicateFilter_is_duplicate :: "dup_filter \<Rightarrow> NodeId \<Rightarrow> u64 \<Rightarrow> bool option" where
  "DuplicateFilter_is_duplicate s src msg_id = do {
     let found = foldl (\<lambda>found e.
           if de_valid e \<and> ct_id_pair_equal (de_src e) src (de_msg_id e) msg_id then True else found)
         False (df_window s);
     nc_assert (df_count s \<le> DEDUP_WINDOW_SIZE);
     Some found
   }"

text \<open>The loop of \<open>find_evict_idx\<close>: remaining indices and \<open>oldest_idx\<close>.\<close>

primrec evict_scan :: "dedup_entry list \<Rightarrow> nat list \<Rightarrow> nat \<Rightarrow> nat" where
  "evict_scan w [] oldest_idx = oldest_idx"
| "evict_scan w (i # is) oldest_idx =
     (if \<not> de_valid (w ! i) then i
      else if oldest_idx = DEDUP_WINDOW_SIZE \<or> de_recorded_us (w ! i) < de_recorded_us (w ! oldest_idx)
      then evict_scan w is i
      else evict_scan w is oldest_idx)"

definition DuplicateFilter_find_evict_idx :: "dup_filter \<Rightarrow> nat option" where
  "DuplicateFilter_find_evict_idx s = do {
     nc_assert (df_count s \<ge> DEDUP_WINDOW_SIZE);
     let oldest_idx = evict_scan (df_window s) [0..<DEDUP_WINDOW_SIZE] DEDUP_WINDOW_SIZE;
     nc_assert (oldest_idx < DEDUP_WINDOW_SIZE);
     Some oldest_idx
   }"

definition DuplicateFilter_record ::
    "dup_filter \<Rightarrow> NodeId \<Rightarrow> u64 \<Rightarrow> u64 \<Rightarrow> dup_filter option" where
  "DuplicateFilter_record s src msg_id now_us = do {
     nc_assert (df_next s < DEDUP_WINDOW_SIZE);
     nc_assert (df_count s \<le> DEDUP_WINDOW_SIZE);
     nc_assert (now_us > 0);
     write_idx \<leftarrow> (if df_count s \<ge> DEDUP_WINDOW_SIZE then DuplicateFilter_find_evict_idx s
                   else Some (df_next s));
     let s = s\<lparr> df_window := (df_window s)[write_idx :=
               \<lparr> de_src = src, de_msg_id = msg_id, de_recorded_us = now_us, de_valid = True \<rparr>] \<rparr>;
     let s = s\<lparr> df_next := (df_next s + 1) mod DEDUP_WINDOW_SIZE \<rparr>;
     let s = (if df_count s < DEDUP_WINDOW_SIZE then s\<lparr> df_count := df_count s + 1 \<rparr> else s);
     nc_assert (df_next s < DEDUP_WINDOW_SIZE);
     nc_assert (df_count s \<le> DEDUP_WINDOW_SIZE);
     Some s
   }"

definition DuplicateFilter_check_and_record ::
    "dup_filter \<Rightarrow> NodeId \<Rightarrow> u64 \<Rightarrow> u64 \<Rightarrow> (Result \<times> dup_filter) option" where
  "DuplicateFilter_check_and_record s src msg_id now_us = do {
     nc_assert (df_count s \<le> DEDUP_WINDOW_SIZE);
     nc_assert (now_us > 0);
     dup \<leftarrow> DuplicateFilter_is_duplicate s src msg_id;
     if dup then Some (ERR_DUPLICATE, s)
     else do {
       s \<leftarrow> DuplicateFilter_record s src msg_id now_us;
       nc_assert (df_count s \<le> DEDUP_WINDOW_SIZE);
       Some (OK, s)
     }
   }"

section \<open>Invariant and abstraction\<close>

type_synonym key = "NodeId \<times> u64"

definition de_key :: "dedup_entry \<Rightarrow> key" where
  "de_key e = (de_src e, de_msg_id e)"

definition df_live :: "dup_filter \<Rightarrow> dedup_entry list" where
  "df_live s = filter de_valid (df_window s)"

definition df_keys :: "dup_filter \<Rightarrow> key set" where
  "df_keys s = de_key ` set (df_live s)"

text \<open>Until the window is full the valid entries are exactly the first \<open>m_count\<close> ones.\<close>

definition df_inv :: "dup_filter \<Rightarrow> bool" where
  "df_inv s \<longleftrightarrow> length (df_window s) = 128 \<and> df_count s \<le> 128 \<and> df_next s < 128 \<and>
     (df_count s < 128 \<longrightarrow> df_next s = df_count s) \<and>
     (\<forall>i < 128. de_valid (df_window s ! i) = (i < df_count s))"

text \<open>The entries and the keys in order of age.\<close>

definition df_ages :: "dup_filter \<Rightarrow> dedup_entry list" where
  "df_ages s = sort_key de_recorded_us (df_live s)"

definition df_abs :: "dup_filter \<Rightarrow> key list" where
  "df_abs s = map de_key (df_ages s)"

definition window_step :: "nat \<Rightarrow> key list \<Rightarrow> key \<Rightarrow> Result \<times> key list" where
  "window_step cap w k =
     (if k \<in> set w then (ERR_DUPLICATE, w)
      else (OK, (if length w < cap then w else tl w) @ [k]))"

fun window_run :: "nat \<Rightarrow> key list \<Rightarrow> key list \<Rightarrow> Result list" where
  "window_run cap w [] = []"
| "window_run cap w (k # ks) = (case window_step cap w k of (r, w') \<Rightarrow> r # window_run cap w' ks)"

text \<open>A sequence of arrivals: source, message id, arrival time.\<close>

fun dedup_run :: "dup_filter \<Rightarrow> (NodeId \<times> u64 \<times> u64) list \<Rightarrow> Result list option" where
  "dedup_run s [] = Some []"
| "dedup_run s ((src, msg_id, now_us) # xs) = do {
     (r, s') \<leftarrow> DuplicateFilter_check_and_record s src msg_id now_us;
     rs \<leftarrow> dedup_run s' xs;
     Some (r # rs)
   }"

text \<open>All recorded times differ and are before \<open>t\<close>.\<close>

definition df_times_before :: "dup_filter \<Rightarrow> u64 \<Rightarrow> bool" where
  "df_times_before s t \<longleftrightarrow> sorted_wrt (<) (map de_recorded_us (df_ages s) @ [t])"

definition arrival_key :: "NodeId \<times> u64 \<times> u64 \<Rightarrow> key" where
  "arrival_key = (\<lambda>(src, msg_id, now_us). (src, msg_id))"

definition arrival_time :: "NodeId \<times> u64 \<times> u64 \<Rightarrow> u64" where
  "arrival_time = (\<lambda>(src, msg_id, now_us). now_us)"

definition new_entry :: "NodeId \<Rightarrow> u64 \<Rightarrow> u64 \<Rightarrow> dedup_entry" where
  "new_entry src msg_id now_us =
     \<lparr> de_src = src, de_msg_id = msg_id, de_recorded_us = now_us, de_valid = True \<rparr>"

section \<open>Lookup\<close>

lemma foldl_found: "foldl (\<lambda>found e. if P e then True else found) b xs = (b \<or> (\<exists>e \<in> set xs. P e))"
  by (induction xs arbitrary: b) auto

lemma is_duplicate_iff:
  "df_inv s \<Longrightarrow> DuplicateFilter_is_duplicate s src msg_id = Some ((src, msg_id) \<in> df_keys s)"
  by (auto simp: DuplicateFilter_is_duplicate_def foldl_found df_inv_def df_keys_def df_live_def
      de_key_def image_iff)

lemma init_inv: "returns (DuplicateFilter_init s) (\<lambda>s'. df_inv s' \<and> df_live s' = [])"
  by (simp add: DuplicateFilter_init_def df_inv_def df_live_def dedup_entry_zero_def)

section \<open>Eviction\<close>

lemma evict_scan_min:
  assumes "\<And>i. i \<in> set is \<Longrightarrow> i < 128 \<and> de_valid (w ! i)"
  shows "o' < 128 \<Longrightarrow> evict_scan w is o' \<in> insert o' (set is) \<and>
     (\<forall>i \<in> insert o' (set is). de_recorded_us (w ! evict_scan w is o') \<le> de_recorded_us (w ! i))"
  using assms
proof (induction "is" arbitrary: o')
  case Nil
  then show ?case by simp
next
  case (Cons i "is")
  then show ?case
  proof (cases "de_recorded_us (w ! i) < de_recorded_us (w ! o')")
    case True
    with Cons.IH [of i] Cons.prems show ?thesis by force
  next
    case False
    with Cons.IH [of o'] Cons.prems show ?thesis by force
  qed
qed

lemma evict_scan_all:
  assumes "0 < n" and "n \<le> 128" and "\<And>i. i < n \<Longrightarrow> de_valid (w ! i)"
  shows "evict_scan w [0..<n] 128 < n \<and>
    (\<forall>j < n. de_recorded_us (w ! evict_scan w [0..<n] 128) \<le> de_recorded_us (w ! j))"
proof -
  have sp: "[0..<n] = 0 # [1..<n]" using assms(1) by (simp add: upt_conv_Cons)
  have "evict_scan w [0..<n] 128 = evict_scan w [1..<n] 0"
    unfolding sp using assms by simp
  moreover have "insert 0 (set [1..<n]) = {..<n}" using assms(1) by auto
  ultimately show ?thesis
    using evict_scan_min [of "[1..<n]" w 0] assms by (auto simp: lessThan_def)
qed

lemma find_evict_idx_oldest:
  assumes "df_inv s" and "df_count s = 128"
  obtains i where "DuplicateFilter_find_evict_idx s = Some i" "i < 128"
    "\<forall>j < 128. de_recorded_us (df_window s ! i) \<le> de_recorded_us (df_window s ! j)"
proof -
  obtain n :: nat where n: "n = 128" by simp
  with assms(1,2) have v: "\<And>i. i < n \<Longrightarrow> de_valid (df_window s ! i)" by (simp add: df_inv_def)
  from evict_scan_all [OF _ _ v] n assms(2) that show ?thesis
    by (simp add: DuplicateFilter_find_evict_idx_def del: upt_rec_numeral)
qed

section \<open>Recording\<close>

lemma record_not_full:
  assumes "df_inv s" and "df_count s < 128" and "0 < now_us"
  shows "returns (DuplicateFilter_record s src msg_id now_us) (\<lambda>s'. df_inv s' \<and>
    mset (df_live s') = add_mset (new_entry src msg_id now_us) (mset (df_live s)))"
proof -
  let ?e = "new_entry src msg_id now_us"
  have "mset (df_live (s\<lparr> df_window := (df_window s)[df_count s := ?e], df_next := n, df_count := c \<rparr>)) =
    add_mset ?e (mset (df_live s))" for n c
    using mset_filter_activate [of "df_count s" "df_window s" de_valid ?e] assms
    by (simp add: df_live_def df_inv_def new_entry_def)
  with assms show ?thesis
    by (auto simp: DuplicateFilter_record_def df_inv_def new_entry_def nth_list_update mod_Suc)
qed

lemma record_full:
  assumes "df_inv s" and "df_count s = 128" and "0 < now_us"
  shows "returns (DuplicateFilter_record s src msg_id now_us) (\<lambda>s'. df_inv s' \<and>
    (\<exists>e \<in> set (df_live s). (\<forall>e' \<in> set (df_live s). de_recorded_us e \<le> de_recorded_us e') \<and>
      mset (df_live s') = add_mset (new_entry src msg_id now_us) (mset (df_live s) - {#e#})))"
proof -
  let ?e = "new_entry src msg_id now_us" and ?w = "df_window s"
  obtain i where i: "DuplicateFilter_find_evict_idx s = Some i" "i < 128"
    "\<forall>j < 128. de_recorded_us (?w ! i) \<le> de_recorded_us (?w ! j)"
    using find_evict_idx_oldest [OF assms(1,2)] .
  have len: "length ?w = 128" and v: "\<And>j. j < 128 \<Longrightarrow> de_valid (?w ! j)"
    using assms(1,2) by (simp_all add: df_inv_def)
  have live: "?w ! i \<in> set (df_live s)" using i len v by (simp add: df_live_def)
  have oldest: "\<forall>e' \<in> set (df_live s). de_recorded_us (?w ! i) \<le> de_recorded_us e'"
    using i(3) len by (auto simp: df_live_def in_set_conv_nth)
  have "mset (df_live (s\<lparr> df_window := ?w[i := ?e], df_next := n \<rparr>)) =
    add_mset ?e (mset (df_live s) - {#?w ! i#})" for n
    using mset_filter_replace [of i ?w de_valid ?e] i len v by (simp add: df_live_def new_entry_def)
  with live oldest assms i show ?thesis
    by (auto simp: DuplicateFilter_record_def df_inv_def new_entry_def nth_list_update intro!: bexI [of _ "?w ! i"])
qed

lemma record_inv [inv_intro]:
  "df_inv s \<Longrightarrow> 0 < now_us \<Longrightarrow> returns (DuplicateFilter_record s src msg_id now_us) df_inv"
  using record_not_full [of s now_us src msg_id] record_full [of s now_us src msg_id]
  by (cases "df_count s = 128") (auto simp: df_inv_def elim: returns_mono)


section \<open>The contract of the filter\<close>

lemma de_key_new [simp]: "de_key (new_entry src msg_id now_us) = (src, msg_id)"
  by (simp add: de_key_def new_entry_def)

lemma df_keys_mset: "df_keys s = de_key ` set_mset (mset (df_live s))"
  by (simp add: df_keys_def)

lemma df_keys_record: "mset (df_live s') = add_mset (new_entry src msg_id t) M \<Longrightarrow>
   df_keys s' = insert (src, msg_id) (de_key ` set_mset M)"
  by (simp add: df_keys_mset)

lemma df_keys_add: "mset (df_live s') = add_mset (new_entry src msg_id t) (mset (df_live s)) \<Longrightarrow>
   df_keys s' = insert (src, msg_id) (df_keys s)"
  by (simp add: df_keys_mset)

lemma df_keys_remove:
  "df_keys s - {de_key e} \<subseteq> de_key ` set_mset (mset (df_live s) - {#e#})"
  "de_key ` set_mset (mset (df_live s) - {#e#}) \<subseteq> df_keys s"
proof -
  show "df_keys s - {de_key e} \<subseteq> de_key ` set_mset (mset (df_live s) - {#e#})"
  proof
    fix k assume "k \<in> df_keys s - {de_key e}"
    then obtain x where "x \<in># mset (df_live s)" "k = de_key x" "x \<noteq> e" by (auto simp: df_keys_def)
    then show "k \<in> de_key ` set_mset (mset (df_live s) - {#e#})"
      by (intro image_eqI [of _ _ x]) (simp_all add: in_diff_count)
  qed
  show "de_key ` set_mset (mset (df_live s) - {#e#}) \<subseteq> df_keys s"
    by (auto simp: df_keys_def dest: in_diffD)
qed

lemma check_and_record_dup:
  assumes "df_inv s" and "0 < now_us" and "(src, msg_id) \<in> df_keys s"
  shows "DuplicateFilter_check_and_record s src msg_id now_us = Some (ERR_DUPLICATE, s)"
  using assms is_duplicate_iff [OF assms(1)]
  by (simp add: DuplicateFilter_check_and_record_def df_inv_def)

lemma check_and_record_new:
  assumes "df_inv s" and "0 < now_us" and "(src, msg_id) \<notin> df_keys s"
    and "returns (DuplicateFilter_record s src msg_id now_us) (\<lambda>s'. df_inv s' \<and> Q s')"
  shows "returns (DuplicateFilter_check_and_record s src msg_id now_us) (\<lambda>(r, s'). r = OK \<and> df_inv s' \<and> Q s')"
proof -
  from assms(4) obtain s' where s': "DuplicateFilter_record s src msg_id now_us = Some s'" "df_inv s'" "Q s'"
    by (auto elim: returnsE)
  moreover have "df_count s \<le> 128" "df_count s' \<le> 128" using assms(1) s'(2) by (auto simp: df_inv_def)
  ultimately show ?thesis
    using assms(2,3) is_duplicate_iff [OF assms(1)] by (simp add: DuplicateFilter_check_and_record_def)
qed

lemma check_and_record_spec:
  assumes "df_inv s" and "0 < now_us"
  shows "returns (DuplicateFilter_check_and_record s src msg_id now_us) (\<lambda>(r, s'). df_inv s' \<and>
    (src, msg_id) \<in> df_keys s' \<and> df_count s \<le> df_count s' \<and>
    (if (src, msg_id) \<in> df_keys s then r = ERR_DUPLICATE \<and> s' = s
     else r = OK \<and> (df_count s < 128 \<longrightarrow> df_keys s' = insert (src, msg_id) (df_keys s))))"
proof (cases "(src, msg_id) \<in> df_keys s")
  case True
  with assms check_and_record_dup [OF assms] show ?thesis by simp
next
  case False
  let ?Q = "\<lambda>s'. (src, msg_id) \<in> df_keys s' \<and> df_count s \<le> df_count s' \<and>
    (df_count s < 128 \<longrightarrow> df_keys s' = insert (src, msg_id) (df_keys s))"
  have count: "df_count s \<le> df_count s'" if "DuplicateFilter_record s src msg_id now_us = Some s'" for s'
    using that by (auto simp: DuplicateFilter_record_def bind_eq_Some_conv nc_assert_def split: if_splits)
  have "returns (DuplicateFilter_record s src msg_id now_us) (\<lambda>s'. df_inv s' \<and> ?Q s')"
  proof (cases "df_count s = 128")
    case full: True
    from record_full [OF assms(1) full assms(2), of src msg_id] count full show ?thesis
      by (auto elim!: returnsE dest!: df_keys_record)
  next
    case room: False
    with assms(1) have "df_count s < 128" by (auto simp: df_inv_def)
    from record_not_full [OF assms(1) this assms(2), of src msg_id] count show ?thesis
      by (auto elim!: returnsE dest!: df_keys_add)
  qed
  from check_and_record_new [OF assms False this] False show ?thesis by (auto elim!: returns_mono)
qed

text \<open>\<open>check_and_record\<close> never trips an assertion; it reports a duplicate exactly
  when the pair is in the window and then changes nothing; otherwise it records the pair, and of the
  pairs recorded before it forgets at most one, only when all 128 entries are in use, and only one
  whose time stamp is the oldest of all.\<close>

theorem check_and_record_contract:
  assumes "df_inv s" and "0 < now_us"
  shows "returns (DuplicateFilter_check_and_record s src msg_id now_us) (\<lambda>(r, s'). df_inv s' \<and>
    (if (src, msg_id) \<in> df_keys s then r = ERR_DUPLICATE \<and> s' = s
     else r = OK \<and> (src, msg_id) \<in> df_keys s' \<and>
       (if df_count s < DEDUP_WINDOW_SIZE then df_keys s' = insert (src, msg_id) (df_keys s)
        else \<exists>e \<in> set (df_live s). (\<forall>e' \<in> set (df_live s). de_recorded_us e \<le> de_recorded_us e') \<and>
               df_keys s - {de_key e} \<subseteq> df_keys s' \<and>
               df_keys s' \<subseteq> insert (src, msg_id) (df_keys s))))"
proof -
  consider (dup) "(src, msg_id) \<in> df_keys s"
    | (room) "(src, msg_id) \<notin> df_keys s" "df_count s < 128"
    | (full) "(src, msg_id) \<notin> df_keys s" "df_count s = 128"
    using assms(1) by (fastforce simp: df_inv_def)
  then show ?thesis
  proof cases
    case dup
    with assms check_and_record_dup [OF assms] show ?thesis by simp
  next
    case room
    from check_and_record_new [OF assms room(1) record_not_full [OF assms(1) room(2) assms(2)]] room
    show ?thesis by (auto elim!: returns_mono dest!: df_keys_add)
  next
    case full
    from check_and_record_new [OF assms full(1) record_full [OF assms(1) full(2) assms(2)]]
    obtain s' e where s': "DuplicateFilter_check_and_record s src msg_id now_us = Some (OK, s')" "df_inv s'"
      and e: "e \<in> set (df_live s)" "\<forall>e' \<in> set (df_live s). de_recorded_us e \<le> de_recorded_us e'"
        "mset (df_live s') = add_mset (new_entry src msg_id now_us) (mset (df_live s) - {#e#})"
      by (auto elim!: returnsE)
    have "df_keys s - {de_key e} \<subseteq> df_keys s'" "df_keys s' \<subseteq> insert (src, msg_id) (df_keys s)"
        "(src, msg_id) \<in> df_keys s'"
      using df_keys_record [OF e(3)] df_keys_remove [of s e] by auto
    with full s' e(1,2) show ?thesis by auto
  qed
qed

section \<open>Refinement of the bounded list\<close>

lemma df_ages_simps [simp]: "set (df_ages s) = set (df_live s)" "mset (df_ages s) = mset (df_live s)"
  by (simp_all add: df_ages_def)

lemma set_df_abs: "set (df_abs s) = df_keys s"
  by (simp add: df_abs_def df_keys_def)

lemma df_ages_eqI:
  assumes "mset (df_live s) = mset xs" and "sorted_wrt (<) (map de_recorded_us xs)"
  shows "df_ages s = xs"
  unfolding df_ages_def
proof (rule sort_key_inj_key_eq)
  show "inj_on de_recorded_us (set (df_live s))"
    using assms by (metis distinct_map mset_eq_setD strict_sorted_iff)
  show "sorted (map de_recorded_us xs)" using assms(2) by (rule strict_sorted_imp_sorted)
qed (use assms in simp)

lemma df_ages_record:
  assumes "df_times_before s now_us"
    and "mset (df_live s') = add_mset (new_entry src msg_id now_us) (mset (df_live s))"
  shows "df_ages s' = df_ages s @ [new_entry src msg_id now_us]"
  using assms by (intro df_ages_eqI) (auto simp: df_times_before_def sorted_wrt_append new_entry_def)

lemma df_ages_evict:
  assumes "df_times_before s now_us" and "e \<in> set (df_live s)"
    and "\<forall>e' \<in> set (df_live s). de_recorded_us e \<le> de_recorded_us e'"
    and "mset (df_live s') = add_mset (new_entry src msg_id now_us) (mset (df_live s) - {#e#})"
  shows "df_ages s' = tl (df_ages s) @ [new_entry src msg_id now_us]"
proof (cases "df_ages s")
  case Nil
  with assms(2) show ?thesis by (metis df_ages_simps(1) empty_iff list.set(1))
next
  case (Cons x xs)
  have mem: "x \<in> set (df_live s)" "e \<in> set (x # xs)"
    using Cons assms(2) df_ages_simps(1) [of s] by auto
  have "e = x"
  proof (rule ccontr)
    assume "e \<noteq> x"
    with mem Cons assms(1) have "de_recorded_us x < de_recorded_us e" by (auto simp: df_times_before_def)
    with assms(3) mem(1) show False by force
  qed
  have "mset (df_live s) = add_mset x (mset xs)" using Cons df_ages_simps(2) [of s] by simp
  with \<open>e = x\<close> assms(4) have "mset (df_live s') = mset (xs @ [new_entry src msg_id now_us])" by simp
  then have "df_ages s' = xs @ [new_entry src msg_id now_us]"
    using assms(1) Cons by (intro df_ages_eqI) (auto simp: df_times_before_def sorted_wrt_append new_entry_def)
  with Cons show ?thesis by simp
qed

lemma df_count_abs: "df_inv s \<Longrightarrow> length (df_abs s) = df_count s"
proof -
  assume inv: "df_inv s"
  have "length (df_abs s) = length (df_live s)" by (simp add: df_abs_def df_ages_def)
  also have "\<dots> = card {i. i < length (df_window s) \<and> de_valid (df_window s ! i)}"
    by (simp add: df_live_def length_filter_conv_card)
  also have "{i. i < length (df_window s) \<and> de_valid (df_window s ! i)} = {..<df_count s}"
    using inv by (auto simp: df_inv_def)
  finally show ?thesis by simp
qed

lemma df_abs_snoc:
  "df_ages s' = df_ages s @ [new_entry src msg_id t] \<Longrightarrow> df_abs s' = df_abs s @ [(src, msg_id)]"
  "df_ages s' = tl (df_ages s) @ [new_entry src msg_id t] \<Longrightarrow> df_abs s' = tl (df_abs s) @ [(src, msg_id)]"
  by (simp_all add: df_abs_def map_tl)

lemma window_step_refine:
  assumes "df_inv s" and "df_times_before s now_us" and "0 < now_us"
  shows "returns (DuplicateFilter_check_and_record s src msg_id now_us) (\<lambda>(r, s'). df_inv s' \<and>
    (r, df_abs s') = window_step DEDUP_WINDOW_SIZE (df_abs s) (src, msg_id) \<and>
    (\<forall>t > now_us. df_times_before s' t))"
proof -
  have later: "\<forall>t > now_us. df_times_before s' t"
    if "df_ages s' = (if b then df_ages s else tl (df_ages s)) @ [new_entry src msg_id now_us]" for s' b
    using assms(2) that
    by (cases "df_ages s") (auto simp: df_times_before_def sorted_wrt_append new_entry_def dest: less_trans)
  consider (dup) "(src, msg_id) \<in> df_keys s"
    | (room) "(src, msg_id) \<notin> df_keys s" "df_count s < 128"
    | (full) "(src, msg_id) \<notin> df_keys s" "df_count s = 128"
    using assms(1) by (fastforce simp: df_inv_def)
  then show ?thesis
  proof cases
    case dup
    have "\<forall>t > now_us. df_times_before s t"
      using assms(2) by (auto simp: df_times_before_def sorted_wrt_append dest: less_trans)
    with dup assms check_and_record_dup [OF assms(1,3) dup] show ?thesis
      by (simp add: window_step_def set_df_abs)
  next
    case room
    note rec = check_and_record_new [OF assms(1,3) room(1) record_not_full [OF assms(1) room(2) assms(3)]]
    have "window_step DEDUP_WINDOW_SIZE (df_abs s) (src, msg_id) = (OK, df_abs s @ [(src, msg_id)])"
      using room by (simp add: window_step_def set_df_abs df_count_abs [OF assms(1)])
    with rec later [where b = True] show ?thesis
      by (auto elim!: returns_mono dest!: df_ages_record [OF assms(2)] simp: df_abs_snoc)
  next
    case full
    note rec = check_and_record_new [OF assms(1,3) full(1) record_full [OF assms(1) full(2) assms(3)]]
    have "window_step DEDUP_WINDOW_SIZE (df_abs s) (src, msg_id) = (OK, tl (df_abs s) @ [(src, msg_id)])"
      using full by (simp add: window_step_def set_df_abs df_count_abs [OF assms(1)])
    with rec later [where b = False] show ?thesis
      by (auto elim!: returns_mono dest!: df_ages_evict [OF assms(2)] simp: df_abs_snoc)
  qed
qed

lemma dedup_run_refines:
  "df_inv s \<Longrightarrow> (xs \<noteq> [] \<Longrightarrow> df_times_before s (arrival_time (hd xs))) \<Longrightarrow>
   sorted_wrt (<) (map arrival_time xs) \<Longrightarrow> list_all (\<lambda>x. 0 < arrival_time x) xs \<Longrightarrow>
   dedup_run s xs = Some (window_run DEDUP_WINDOW_SIZE (df_abs s) (map arrival_key xs))"
proof (induction xs arbitrary: s)
  case Nil
  then show ?case by simp
next
  case (Cons x xs)
  obtain src mid t where x: "x = (src, mid, t)" by (cases x)
  from Cons.prems x have pre: "df_times_before s t" "0 < t" by (simp_all add: arrival_time_def)
  from window_step_refine [OF Cons.prems(1) pre, of src mid] obtain r s' where
    s': "DuplicateFilter_check_and_record s src mid t = Some (r, s')" "df_inv s'"
      "window_step DEDUP_WINDOW_SIZE (df_abs s) (src, mid) = (r, df_abs s')"
      "\<forall>t' > t. df_times_before s' t'"
    by (auto elim!: returnsE)
  have "dedup_run s' xs = Some (window_run DEDUP_WINDOW_SIZE (df_abs s') (map arrival_key xs))"
  proof (rule Cons.IH)
    show "df_times_before s' (arrival_time (hd xs))" if "xs \<noteq> []"
      using that Cons.prems(3) s'(4) x by (cases xs) (auto simp: arrival_time_def)
  qed (use Cons.prems s'(2) in auto)
  with s' x show ?case by (simp add: arrival_key_def)
qed

text \<open>Claim C39. From \<open>init\<close>, over any sequence of arrivals with strictly increasing time
  stamps, the filter's verdicts are those of a list of the 128 most recently accepted keys: a
  message is delivered once while fewer than 128 newer ones have been accepted.\<close>

theorem dedup_refines_window:
  assumes "sorted_wrt (<) (map arrival_time xs)" and "list_all (\<lambda>x. 0 < arrival_time x) xs"
  shows "do { s \<leftarrow> DuplicateFilter_init s0; dedup_run s xs } =
    Some (window_run DEDUP_WINDOW_SIZE [] (map arrival_key xs))"
proof -
  obtain s where s: "DuplicateFilter_init s0 = Some s" "df_inv s" "df_live s = []"
    using init_inv [of s0] by (auto elim: returnsE)
  then have "df_abs s = []" "df_ages s = []" by (simp_all add: df_abs_def df_ages_def)
  with s dedup_run_refines [OF s(2) _ assms] show ?thesis by (simp add: df_times_before_def)
qed

theorem dedup_refines_window_witness:
  "do { s \<leftarrow> DuplicateFilter_init \<lparr> df_window = [], df_next = 0, df_count = 0 \<rparr>;
        dedup_run s [(1, 7, 10), (2, 7, 11), (1, 7, 12)] } = Some [OK, OK, ERR_DUPLICATE]"
proof -
  have run: "window_run DEDUP_WINDOW_SIZE [] (map arrival_key [(1, 7, 10), (2, 7, 11), (1, 7, 12)]) =
    [OK, OK, ERR_DUPLICATE]"
    by (simp add: arrival_key_def window_step_def)
  show ?thesis
    unfolding run [symmetric] by (rule dedup_refines_window) (simp_all add: arrival_time_def)
qed

theorem check_and_record_contract_witness:
  "\<exists>s. DuplicateFilter_init \<lparr> df_window = [], df_next = 0, df_count = 0 \<rparr> = Some s \<and>
     returns (DuplicateFilter_check_and_record s 1 7 10) (\<lambda>(r, s'). r = OK \<and> (1, 7) \<in> df_keys s')"
proof -
  obtain s where s: "DuplicateFilter_init \<lparr> df_window = [], df_next = 0, df_count = 0 \<rparr> = Some s"
    "df_inv s" "df_live s = []"
    using init_inv [of "\<lparr> df_window = [], df_next = 0, df_count = 0 \<rparr>"] by (auto elim: returnsE)
  have k: "(1, 7) \<notin> df_keys s" using s(3) by (simp add: df_keys_def)
  have "returns (DuplicateFilter_check_and_record s 1 7 10) (\<lambda>(r, s'). r = OK \<and> (1, 7) \<in> df_keys s')"
    using check_and_record_contract [OF s(2), of 10 1 7] k by (auto elim!: returnsE)
  with s(1) show ?thesis by blast
qed

section \<open>Equal time stamps\<close>

lemma evict_scan_tie:
  "o' < 128 \<Longrightarrow> (\<And>i. i \<in> set is \<Longrightarrow> de_valid (w ! i) \<and> de_recorded_us (w ! i) = de_recorded_us (w ! o')) \<Longrightarrow>
   evict_scan w is o' = o'"
  by (induction "is") auto

lemma find_evict_idx_tie:
  assumes "df_inv s" and "df_count s = 128" and "\<forall>e \<in> set (df_live s). de_recorded_us e = t"
  shows "DuplicateFilter_find_evict_idx s = Some 0"
proof -
  obtain n :: nat where n: "n = 128" by simp
  have v: "de_valid (df_window s ! i) \<and> de_recorded_us (df_window s ! i) = t" if "i < n" for i
    using assms that n by (simp add: df_inv_def df_live_def)
  have sp: "[0..<n] = 0 # [1..<n]" using n by (simp add: upt_conv_Cons del: upt_rec_numeral)
  have "evict_scan (df_window s) [0..<n] 128 = evict_scan (df_window s) [1..<n] 0"
    unfolding sp using v n by (simp del: upt_rec_numeral)
  also have "\<dots> = 0" using v n by (intro evict_scan_tie) (auto simp del: upt_rec_numeral)
  finally show ?thesis
    using assms(2) n by (simp add: DuplicateFilter_find_evict_idx_def del: upt_rec_numeral)
qed

lemma record_tie:
  assumes "df_inv s" and "df_count s = 128" and "\<forall>e \<in> set (df_live s). de_recorded_us e = t"
    and "0 < t" and "(src, x) \<notin> df_keys s"
  shows "\<exists>n. DuplicateFilter_check_and_record s src x t =
    Some (OK, s\<lparr> df_window := (df_window s)[0 := new_entry src x t], df_next := n \<rparr>) \<and>
    df_inv (s\<lparr> df_window := (df_window s)[0 := new_entry src x t], df_next := n \<rparr>)"
  using assms find_evict_idx_tie [OF assms(1-3)] is_duplicate_iff [OF assms(1), of src x]
  by (auto simp: DuplicateFilter_check_and_record_def DuplicateFilter_record_def df_inv_def
      new_entry_def nth_list_update)

lemma live_tie:
  "set (df_live (s\<lparr> df_window := (df_window s)[0 := new_entry src x t], df_next := n \<rparr>)) \<subseteq>
   insert (new_entry src x t) (set (df_live s))"
  by (auto simp: df_live_def dest: set_update_subset_insert [THEN subsetD])

text \<open>When all 128 recorded times equal the current time, two further new
  messages in that same microsecond push each other out: the first is no longer recognised as a
  duplicate after the second, although 127 entries that were recorded before it are kept.\<close>

theorem dedup_equal_timestamps_forget:
  assumes "df_inv s" and "df_count s = DEDUP_WINDOW_SIZE" and "0 < t"
    and "\<forall>e \<in> set (df_live s). de_recorded_us e = t"
    and "(src, a) \<notin> df_keys s" and "(src, b) \<notin> df_keys s" and "a \<noteq> b"
  shows "returns (do { (r1, s) \<leftarrow> DuplicateFilter_check_and_record s src a t;
                       (r2, s) \<leftarrow> DuplicateFilter_check_and_record s src b t;
                       d \<leftarrow> DuplicateFilter_is_duplicate s src a;
                       Some (r1, r2, d) })
                 (\<lambda>(r1, r2, d). r1 = OK \<and> r2 = OK \<and> \<not> d)"
proof -
  let ?u = "\<lambda>s x n. s\<lparr> df_window := (df_window s)[0 := new_entry src x t], df_next := n \<rparr>"
  have full: "df_count s = 128" using assms(2) by simp
  obtain n1 where 1: "DuplicateFilter_check_and_record s src a t = Some (OK, ?u s a n1)" "df_inv (?u s a n1)"
    using record_tie [OF assms(1) full assms(4,3,5)] by blast
  have tie: "\<forall>e \<in> set (df_live (?u s a n1)). de_recorded_us e = t"
    using live_tie [of n1 s src a t] assms(4) by (auto simp: new_entry_def)
  have "df_keys (?u s a n1) \<subseteq> insert (src, a) (df_keys s)"
    using image_mono [OF live_tie [of n1 s src a t], of de_key] by (simp add: df_keys_def)
  with assms(6,7) have "(src, b) \<notin> df_keys (?u s a n1)" by auto
  from record_tie [OF 1(2) _ tie assms(3) this] full obtain n2 where
    2: "DuplicateFilter_check_and_record (?u s a n1) src b t = Some (OK, ?u s b n2)" "df_inv (?u s b n2)"
    by auto
  have "df_keys (?u s b n2) \<subseteq> insert (src, b) (df_keys s)"
    using image_mono [OF live_tie [of n2 s src b t], of de_key] by (simp add: df_keys_def)
  with assms(5,7) have "(src, a) \<notin> df_keys (?u s b n2)" by auto
  with 1 2 is_duplicate_iff [OF 2(2), of src a] show ?thesis by simp
qed

lemma flooded_keys:
  assumes "128 \<le> unat k"
  shows "(1, k) \<notin> df_keys \<lparr> df_window = map (\<lambda>i. new_entry 1 (of_nat i) 5) [0..<128], df_next = 0, df_count = 128 \<rparr>"
proof -
  have "(of_nat i :: u64) \<noteq> k" if "i < 128" for i
    using that assms by (auto simp: unat_of_nat)
  then show ?thesis
    by (fastforce simp: df_keys_def df_live_def de_key_def new_entry_def simp del: upt_rec_numeral)
qed

theorem dedup_equal_timestamps_forget_witness:
  "returns (do { let s = \<lparr> df_window = map (\<lambda>i. new_entry 1 (of_nat i) 5) [0..<128], df_next = 0, df_count = 128 \<rparr>;
                 (r1, s) \<leftarrow> DuplicateFilter_check_and_record s 1 200 5;
                 (r2, s) \<leftarrow> DuplicateFilter_check_and_record s 1 201 5;
                 d \<leftarrow> DuplicateFilter_is_duplicate s 1 200;
                 Some (r1, r2, d) })
           (\<lambda>(r1, r2, d). r1 = OK \<and> r2 = OK \<and> \<not> d)"
  unfolding Let_def
proof (rule dedup_equal_timestamps_forget)
  let ?s = "\<lparr> df_window = map (\<lambda>i. new_entry 1 (of_nat i) 5) [0..<128], df_next = 0, df_count = 128 \<rparr>"
  show "df_inv ?s" by (simp add: df_inv_def new_entry_def del: upt_rec_numeral)
  show "\<forall>e \<in> set (df_live ?s). de_recorded_us e = 5"
    by (auto simp: df_live_def new_entry_def simp del: upt_rec_numeral)
  show "(1, 200) \<notin> df_keys ?s" "(1, 201) \<notin> df_keys ?s" by (rule flooded_keys, simp)+
qed simp_all

end
