(* ===== verification/PendingTable.thy ===== *)
theory PendingTable
  imports MessageEnvelope
begin

text \<open>
  \<open>src/core/DeliveryStats.hpp\<close> and the interface that \<open>AckTracker\<close> and \<open>RetryManager\<close> share.
  Both are fixed tables of in-flight envelopes; the delivery engine adds an envelope to them
  before it sends, takes it back when the transport fails, and drops a peer's entries when
  the peer reconnects. \<open>pending_table\<close> states what it relies on.
\<close>

record impairment_stats =
  loss_drops :: u32
  duplicate_injects :: u32
  partition_drops :: u32
  reorder_buffered :: u32

record retry_stats =
  retries_sent :: u32
  slots_exhausted :: u32
  slots_expired :: u32
  rs_acks_received :: u32

record ack_tracker_stats =
  timeouts :: u32
  as_acks_received :: u32

record transport_stats =
  connections_opened :: u32
  connections_closed :: u32
  ts_impairment :: impairment_stats

record delivery_stats =
  latency_sample_count :: u32
  latency_sum_us :: u64
  latency_min_us :: u64
  latency_max_us :: u64
  ds_impairment :: impairment_stats
  ds_retry :: retry_stats
  ds_ack :: ack_tracker_stats
  msgs_sent :: u32
  msgs_received :: u32
  msgs_dropped_expired :: u32
  msgs_dropped_duplicate :: u32
  msgs_dropped_misrouted :: u32
  msgs_dropped_ordering_full :: u32
  ds_transport :: transport_stats
  fatal_count :: u32

definition impairment_stats_init :: impairment_stats where
  "impairment_stats_init = \<lparr> loss_drops = 0, duplicate_injects = 0, partition_drops = 0, reorder_buffered = 0 \<rparr>"

definition retry_stats_init :: retry_stats where
  "retry_stats_init = \<lparr> retries_sent = 0, slots_exhausted = 0, slots_expired = 0, rs_acks_received = 0 \<rparr>"

definition ack_tracker_stats_init :: ack_tracker_stats where
  "ack_tracker_stats_init = \<lparr> timeouts = 0, as_acks_received = 0 \<rparr>"

definition transport_stats_init :: transport_stats where
  "transport_stats_init = \<lparr> connections_opened = 0, connections_closed = 0, ts_impairment = impairment_stats_init \<rparr>"

definition delivery_stats_init :: delivery_stats where
  "delivery_stats_init = \<lparr> latency_sample_count = 0, latency_sum_us = 0, latency_min_us = 0, latency_max_us = 0,
     ds_impairment = impairment_stats_init, ds_retry = retry_stats_init, ds_ack = ack_tracker_stats_init,
     msgs_sent = 0, msgs_received = 0, msgs_dropped_expired = 0, msgs_dropped_duplicate = 0,
     msgs_dropped_misrouted = 0, msgs_dropped_ordering_full = 0, ds_transport = transport_stats_init,
     fatal_count = 0 \<rparr>"

text \<open>The key by which an in-flight envelope is looked up.\<close>

definition env_key :: "envelope \<Rightarrow> NodeId \<times> u64" where
  "env_key e = (source_id e, message_id e)"

section \<open>The interface\<close>

locale pending_table =
  fixes inv :: "'s \<Rightarrow> bool"
    and live :: "'s \<Rightarrow> envelope multiset"
    and capacity :: nat
    and addable :: "'p \<Rightarrow> envelope \<Rightarrow> bool"
    and add :: "'s \<Rightarrow> 'p \<Rightarrow> envelope \<Rightarrow> (Result \<times> 's) option"
    and cancel :: "'s \<Rightarrow> NodeId \<Rightarrow> u64 \<Rightarrow> (Result \<times> 's) option"
    and cancel_peer :: "'s \<Rightarrow> NodeId \<Rightarrow> (nat \<times> 's) option"
  assumes add_law: "inv s \<Longrightarrow> addable p e \<Longrightarrow> returns (add s p e) (\<lambda>(r, s'). inv s' \<and>
        (r = OK \<and> live s' = add_mset e (live s) \<or> r = ERR_FULL \<and> s' = s))"
    and cancel_law: "inv s \<Longrightarrow> src \<noteq> NODE_ID_INVALID \<Longrightarrow> returns (cancel s src m) (\<lambda>(r, s'). inv s' \<and>
        (r = OK \<and> (\<exists>e \<in># live s. env_key e = (src, m) \<and> live s' = live s - {#e#}) \<or>
         r = ERR_INVALID \<and> s' = s \<and> (\<forall>e \<in># live s. env_key e \<noteq> (src, m))))"
    and cancel_peer_law: "inv s \<Longrightarrow> dst \<noteq> NODE_ID_INVALID \<Longrightarrow> returns (cancel_peer s dst) (\<lambda>(n, s'). inv s' \<and>
        live s' = filter_mset (\<lambda>e. destination_id e \<noteq> dst) (live s) \<and>
        n = size (filter_mset (\<lambda>e. destination_id e = dst) (live s)))"
    and live_bound: "inv s \<Longrightarrow> size (live s) \<le> capacity"
begin

text \<open>Rolling back a reservation: no entry of that key was live before, so the table's live
  entries are what they were.\<close>

lemma add_then_cancel:
  assumes "inv s" and "addable p e" and "source_id e \<noteq> NODE_ID_INVALID"
    and fresh: "\<forall>x \<in># live s. env_key x \<noteq> env_key e"
  shows "returns (do { (r, s1) \<leftarrow> add s p e;
                       if r = OK then do { (_, s2) \<leftarrow> cancel s1 (source_id e) (message_id e); Some s2 }
                       else Some s1 })
           (\<lambda>s'. inv s' \<and> live s' = live s)"
proof -
  from add_law [OF assms(1,2)] obtain r s1 where
    s1: "add s p e = Some (r, s1)" "inv s1" "r = OK \<and> live s1 = add_mset e (live s) \<or> r = ERR_FULL \<and> s1 = s"
    by (auto elim: returnsE)
  show ?thesis
  proof (cases "r = OK")
    case True
    with s1 have l: "live s1 = add_mset e (live s)" by simp
    from cancel_law [OF s1(2) assms(3), of "message_id e"] obtain r2 s2 where
      s2: "cancel s1 (source_id e) (message_id e) = Some (r2, s2)" "inv s2"
        "(\<exists>x \<in># live s1. env_key x = env_key e \<and> live s2 = live s1 - {#x#}) \<or>
         (\<forall>x \<in># live s1. env_key x \<noteq> env_key e)"
      by (auto elim!: returnsE simp: env_key_def)
    then have "live s2 = live s" using l fresh by auto
    with True s1(1) s2(1,2) show ?thesis by simp
  next
    case False
    with s1 show ?thesis by auto
  qed
qed

text \<open>The same for a cancellation that comes later: it takes back exactly the entry that was added.\<close>

lemma cancel_exact:
  assumes "inv s" and "source_id e \<noteq> NODE_ID_INVALID"
  shows "returns (cancel s (source_id e) (message_id e)) (\<lambda>(r, s'). inv s' \<and> live s' \<subseteq># live s \<and>
    (\<forall>M. live s = add_mset e M \<and> (\<forall>x \<in># M. env_key x \<noteq> env_key e) \<longrightarrow> live s' = M))"
proof (rule returns_mono [OF cancel_law [OF assms, of "message_id e"]], clarsimp)
  fix r s' assume c: "r = OK \<and> (\<exists>x \<in># live s. env_key x = (source_id e, message_id e) \<and> live s' = live s - {#x#}) \<or>
    r = ERR_INVALID \<and> s' = s \<and> (\<forall>x \<in># live s. env_key x \<noteq> (source_id e, message_id e))"
  have "live s' = M" if M: "live s = add_mset e M" "\<forall>x \<in># M. env_key x \<noteq> env_key e" for M
    using c M by (auto simp: env_key_def)
  with c show "live s' \<subseteq># live s \<and> (\<forall>M. live s = add_mset e M \<and> (\<forall>x \<in># M. env_key x \<noteq> env_key e) \<longrightarrow> live s' = M)"
    by auto
qed

text \<open>At most one live entry per key, the condition under which a cancellation removes all of a
  message's state.\<close>

definition unique_keys :: "'s \<Rightarrow> bool" where
  "unique_keys s \<longleftrightarrow> (\<forall>k. size (filter_mset (\<lambda>e. env_key e = k) (live s)) \<le> 1)"

lemma cancel_removes_all:
  assumes "inv s" and "unique_keys s" and "src \<noteq> NODE_ID_INVALID"
  shows "returns (cancel s src m) (\<lambda>(r, s'). inv s' \<and> unique_keys s' \<and> (\<forall>e \<in># live s'. env_key e \<noteq> (src, m)))"
proof -
  from cancel_law [OF assms(1,3), of m] obtain r s' where
    s': "cancel s src m = Some (r, s')" "inv s'"
      "(\<exists>e \<in># live s. env_key e = (src, m) \<and> live s' = live s - {#e#}) \<or>
       s' = s \<and> (\<forall>e \<in># live s. env_key e \<noteq> (src, m))"
    by (auto elim!: returnsE)
  have sub: "live s' \<subseteq># live s" using s'(3) by auto
  then have u: "unique_keys s'"
    using assms(2) unfolding unique_keys_def
    by (meson multiset_filter_mono order_trans size_mset_mono)
  have "\<forall>e \<in># live s'. env_key e \<noteq> (src, m)"
    using s'(3)
  proof
    assume "\<exists>e \<in># live s. env_key e = (src, m) \<and> live s' = live s - {#e#}"
    then obtain e M where e: "live s = add_mset e M" "env_key e = (src, m)" "live s' = M"
      by (metis add_mset_remove_trivial multi_member_split)
    with assms(2) have "size (filter_mset (\<lambda>e. env_key e = (src, m)) M) = 0"
      using spec [of _ "(src, m)", OF assms(2) [unfolded unique_keys_def]] by simp
    with e(3) show ?thesis by auto
  qed simp
  with s' u show ?thesis by simp
qed

lemma cancel_peer_clears:
  assumes "inv s" and "dst \<noteq> NODE_ID_INVALID"
  shows "returns (cancel_peer s dst) (\<lambda>(n, s'). inv s' \<and> (\<forall>e \<in># live s'. destination_id e \<noteq> dst) \<and>
    size (live s) = size (live s') + n)"
proof -
  have "size (live s) = size {#e \<in># live s. destination_id e \<noteq> dst#} + size {#e \<in># live s. destination_id e = dst#}"
    using arg_cong [OF multiset_partition [of "live s" "\<lambda>e. destination_id e = dst"], of size]
    by (simp only: size_union add.commute)
  with cancel_peer_law [OF assms] show ?thesis by (auto elim!: returns_mono)
qed

end

end
