(* ===== verification/AckTracker.thy ===== *)
theory AckTracker
  imports PendingTable
begin

text \<open>
  \<open>src/core/AckTracker.cpp\<close>: the table of sent messages that await an acknowledgement. A slot is
  FREE, PENDING or ACKED; \<open>sweep_expired\<close> frees the acknowledged and the timed-out ones and
  reports the latter.
\<close>

datatype EntryState = FREE | PENDING | ACKED

record ack_entry =
  ae_env :: envelope
  ae_deadline_us :: u64
  ae_state :: EntryState

record ack_tracker =
  at_slots :: "ack_entry list"
  at_count :: nat
  at_stats :: ack_tracker_stats
  at_initialized :: bool
  at_last_sweep_us :: u64

definition ack_entry_zero :: ack_entry where
  "ack_entry_zero = \<lparr> ae_env = envelope_zero, ae_deadline_us = 0, ae_state = FREE \<rparr>"

definition AckTracker_init :: "ack_tracker \<Rightarrow> ack_tracker option" where
  "AckTracker_init s = do {
     let s = \<lparr> at_slots = replicate ACK_TRACKER_CAPACITY ack_entry_zero, at_count = 0,
               at_stats = ack_tracker_stats_init, at_initialized = True, at_last_sweep_us = 0 \<rparr>;
     nc_assert (at_count s = 0);
     nc_assert (timeouts (at_stats s) = 0);
     nc_assert (list_all (\<lambda>e. ae_state e = FREE) (at_slots s));
     Some s
   }"

definition AckTracker_track :: "ack_tracker \<Rightarrow> envelope \<Rightarrow> u64 \<Rightarrow> (Result \<times> ack_tracker) option" where
  "AckTracker_track s env deadline_us = do {
     nc_assert (at_count s \<le> ACK_TRACKER_CAPACITY);
     case first_idx (\<lambda>e. ae_state e = FREE) (at_slots s) of
       Some i \<Rightarrow> do {
         let s = s\<lparr> at_slots := (at_slots s)[i := \<lparr> ae_env = env, ae_deadline_us = deadline_us,
                                                 ae_state = PENDING \<rparr>] \<rparr>;
         let s = s\<lparr> at_count := at_count s + 1 \<rparr>;
         nc_assert (ae_state (at_slots s ! i) = PENDING);
         nc_assert (at_count s \<le> ACK_TRACKER_CAPACITY);
         Some (OK, s)
       }
     | None \<Rightarrow> do {
         nc_assert (at_count s = ACK_TRACKER_CAPACITY);
         Some (ERR_FULL, s)
       }
   }"

definition at_matches :: "NodeId \<Rightarrow> u64 \<Rightarrow> ack_entry \<Rightarrow> bool" where
  "at_matches src msg_id e \<longleftrightarrow> ae_state e = PENDING \<and>
     ct_id_pair_equal (source_id (ae_env e)) src (message_id (ae_env e)) msg_id"

definition AckTracker_on_ack :: "ack_tracker \<Rightarrow> NodeId \<Rightarrow> u64 \<Rightarrow> (Result \<times> ack_tracker) option" where
  "AckTracker_on_ack s src msg_id = do {
     nc_assert (at_count s \<le> ACK_TRACKER_CAPACITY);
     case first_idx (at_matches src msg_id) (at_slots s) of
       Some i \<Rightarrow> do {
         let s = s\<lparr> at_slots := (at_slots s)[i := (at_slots s ! i)\<lparr> ae_state := ACKED \<rparr>] \<rparr>;
         let s = s\<lparr> at_stats := (at_stats s)\<lparr> as_acks_received := as_acks_received (at_stats s) + 1 \<rparr> \<rparr>;
         nc_assert (ae_state (at_slots s ! i) = ACKED);
         Some (OK, s)
       }
     | None \<Rightarrow> do {
         nc_assert (at_count s \<le> ACK_TRACKER_CAPACITY);
         Some (ERR_INVALID, s)
       }
   }"

text \<open>\<open>m_slots[i].state = FREE; if (m_count > 0) --m_count\<close>.\<close>

definition at_free_slot :: "nat \<Rightarrow> ack_tracker \<Rightarrow> ack_tracker" where
  "at_free_slot i s = s\<lparr> at_slots := (at_slots s)[i := (at_slots s ! i)\<lparr> ae_state := FREE \<rparr>],
                         at_count := (if at_count s > 0 then at_count s - 1 else at_count s) \<rparr>"

definition AckTracker_cancel_peer :: "ack_tracker \<Rightarrow> NodeId \<Rightarrow> (nat \<times> ack_tracker) option" where
  "AckTracker_cancel_peer s dst = do {
     nc_assert (at_initialized s);
     nc_assert (dst \<noteq> NODE_ID_INVALID);
     (cancelled, s) \<leftarrow> for_each (\<lambda>i (cancelled, s).
         if ae_state (at_slots s ! i) = PENDING \<and> destination_id (ae_env (at_slots s ! i)) = dst
         then Some (cancelled + 1, at_free_slot i s)
         else Some (cancelled, s)) [0..<ACK_TRACKER_CAPACITY] (0, s);
     nc_assert (at_count s \<le> ACK_TRACKER_CAPACITY);
     nc_assert (cancelled \<le> ACK_TRACKER_CAPACITY);
     Some (cancelled, s)
   }"

definition AckTracker_cancel :: "ack_tracker \<Rightarrow> NodeId \<Rightarrow> u64 \<Rightarrow> (Result \<times> ack_tracker) option" where
  "AckTracker_cancel s src msg_id = do {
     nc_assert (at_count s \<le> ACK_TRACKER_CAPACITY);
     nc_assert (src \<noteq> NODE_ID_INVALID);
     case first_idx (at_matches src msg_id) (at_slots s) of
       Some i \<Rightarrow> do {
         let s = at_free_slot i s;
         nc_assert (ae_state (at_slots s ! i) = FREE);
         nc_assert (at_count s \<le> ACK_TRACKER_CAPACITY);
         Some (OK, s)
       }
     | None \<Rightarrow> do {
         nc_assert (at_count s \<le> ACK_TRACKER_CAPACITY);
         Some (ERR_INVALID, s)
       }
   }"

text \<open>\<open>expired_buf\<close> is the caller's array, an in-out argument; the number added is returned.\<close>

definition AckTracker_sweep_one_slot ::
    "ack_tracker \<Rightarrow> nat \<Rightarrow> u64 \<Rightarrow> envelope list \<Rightarrow> nat \<Rightarrow> nat \<Rightarrow> (nat \<times> envelope list \<times> ack_tracker) option" where
  "AckTracker_sweep_one_slot s idx now_us expired_buf buf_cap expired_count = do {
     nc_assert (idx < ACK_TRACKER_CAPACITY);
     if ae_state (at_slots s ! idx) = PENDING \<and> now_us \<ge> ae_deadline_us (at_slots s ! idx)
     then do {
       let (added, expired_buf) = (if expired_count < buf_cap
            then (1, expired_buf[expired_count := ae_env (at_slots s ! idx)]) else (0, expired_buf));
       let s = s\<lparr> at_stats := (at_stats s)\<lparr> timeouts := timeouts (at_stats s) + 1 \<rparr> \<rparr>;
       let s = at_free_slot idx s;
       Some (added, expired_buf, s)
     }
     else if ae_state (at_slots s ! idx) = ACKED then Some (0, expired_buf, at_free_slot idx s)
     else Some (0, expired_buf, s)
   }"

definition AckTracker_sweep_expired ::
    "ack_tracker \<Rightarrow> u64 \<Rightarrow> envelope list \<Rightarrow> nat \<Rightarrow> (nat \<times> envelope list \<times> ack_tracker) option" where
  "AckTracker_sweep_expired s now_us expired_buf buf_cap = do {
     nc_assert (at_count s \<le> ACK_TRACKER_CAPACITY);
     nc_assert (now_us \<noteq> 0);
     let now_us = (if now_us < at_last_sweep_us s then at_last_sweep_us s else now_us);
     let s = s\<lparr> at_last_sweep_us := now_us \<rparr>;
     (expired_count, expired_buf, s) \<leftarrow> for_each (\<lambda>i (expired_count, expired_buf, s). do {
         (added, expired_buf, s) \<leftarrow>
           AckTracker_sweep_one_slot s i now_us expired_buf buf_cap expired_count;
         Some (expired_count + added, expired_buf, s) }) [0..<ACK_TRACKER_CAPACITY] (0, expired_buf, s);
     nc_assert (at_count s \<le> ACK_TRACKER_CAPACITY);
     nc_assert (expired_count \<le> buf_cap);
     Some (expired_count, expired_buf, s)
   }"

definition AckTracker_get_send_timestamp ::
    "ack_tracker \<Rightarrow> NodeId \<Rightarrow> u64 \<Rightarrow> u64 \<Rightarrow> (Result \<times> u64) option" where
  "AckTracker_get_send_timestamp s src msg_id out_ts = do {
     nc_assert (src \<noteq> NODE_ID_INVALID);
     nc_assert (at_count s \<le> ACK_TRACKER_CAPACITY);
     case first_idx (at_matches src msg_id) (at_slots s) of
       Some i \<Rightarrow> do {
         let out_ts = timestamp_us (ae_env (at_slots s ! i));
         nc_assert (out_ts > 0);
         Some (OK, out_ts)
       }
     | None \<Rightarrow> do {
         nc_assert (at_count s \<le> ACK_TRACKER_CAPACITY);
         Some (ERR_INVALID, out_ts)
       }
   }"

definition AckTracker_get_tracked_destination ::
    "ack_tracker \<Rightarrow> NodeId \<Rightarrow> u64 \<Rightarrow> NodeId \<Rightarrow> (Result \<times> NodeId) option" where
  "AckTracker_get_tracked_destination s our_id msg_id out_dst = do {
     nc_assert (our_id \<noteq> NODE_ID_INVALID);
     nc_assert (at_count s \<le> ACK_TRACKER_CAPACITY);
     case first_idx (at_matches our_id msg_id) (at_slots s) of
       Some i \<Rightarrow> do {
         let out_dst = destination_id (ae_env (at_slots s ! i));
         nc_assert (out_dst \<noteq> NODE_ID_INVALID);
         Some (OK, out_dst)
       }
     | None \<Rightarrow> do {
         nc_assert (at_count s \<le> ACK_TRACKER_CAPACITY);
         Some (ERR_INVALID, out_dst)
       }
   }"

definition AckTracker_get_stats :: "ack_tracker \<Rightarrow> ack_tracker_stats option" where
  "AckTracker_get_stats s = do {
     nc_assert (at_count s \<le> ACK_TRACKER_CAPACITY);
     nc_assert (at_initialized s);
     Some (at_stats s)
   }"

section \<open>Invariant and abstraction\<close>

abbreviation ae_used :: "ack_entry \<Rightarrow> bool" where
  "ae_used e \<equiv> ae_state e \<noteq> FREE"

abbreviation ae_pending :: "ack_entry \<Rightarrow> bool" where
  "ae_pending e \<equiv> ae_state e = PENDING"

definition at_inv :: "ack_tracker \<Rightarrow> bool" where
  "at_inv s \<longleftrightarrow> length (at_slots s) = 32 \<and> at_count s = length (filter ae_used (at_slots s)) \<and>
     at_initialized s"

definition at_pending :: "ack_tracker \<Rightarrow> ack_entry multiset" where
  "at_pending s = filter_mset ae_pending (mset (at_slots s))"

text \<open>The envelopes that await an acknowledgement.\<close>

definition at_live :: "ack_tracker \<Rightarrow> envelope multiset" where
  "at_live s = image_mset ae_env (at_pending s)"

text \<open>What one sweep at time \<open>t\<close> does to a slot.\<close>

definition at_swept :: "u64 \<Rightarrow> ack_entry \<Rightarrow> bool" where
  "at_swept t e \<longleftrightarrow> ae_pending e \<and> ae_deadline_us e \<le> t"

definition at_sweep_slot :: "u64 \<Rightarrow> ack_entry \<Rightarrow> ack_entry" where
  "at_sweep_slot t e = (if at_swept t e \<or> ae_state e = ACKED then e\<lparr> ae_state := FREE \<rparr> else e)"

text \<open>The slots that \<open>cancel_peer\<close> frees.\<close>

definition at_cancelled :: "NodeId \<Rightarrow> ack_entry \<Rightarrow> bool" where
  "at_cancelled dst e \<longleftrightarrow> ae_pending e \<and> destination_id (ae_env e) = dst"

text \<open>The entries a sweep at time \<open>t\<close> times out, in slot order.\<close>

definition at_expired :: "u64 \<Rightarrow> ack_tracker \<Rightarrow> ack_entry list" where
  "at_expired t s = filter (at_swept t) (at_slots s)"

definition at_sweep_time :: "ack_tracker \<Rightarrow> u64 \<Rightarrow> u64" where
  "at_sweep_time s now_us = (if now_us < at_last_sweep_us s then at_last_sweep_us s else now_us)"

text \<open>The calls a client can make, for statements about sequences of them.\<close>

datatype at_op = Track envelope u64 | On_ack NodeId u64 | Cancel NodeId u64 | Cancel_peer NodeId
  | Sweep u64 "envelope list" nat

fun at_op_ok :: "at_op \<Rightarrow> bool" where
  "at_op_ok (Cancel src m) = (src \<noteq> NODE_ID_INVALID)"
| "at_op_ok (Cancel_peer dst) = (dst \<noteq> NODE_ID_INVALID)"
| "at_op_ok (Sweep now_us buf cap) = (now_us \<noteq> 0 \<and> cap \<le> length buf)"
| "at_op_ok _ = True"

fun at_exec :: "at_op \<Rightarrow> ack_tracker \<Rightarrow> ack_tracker option" where
  "at_exec (Track env d) s = map_option snd (AckTracker_track s env d)"
| "at_exec (On_ack src m) s = map_option snd (AckTracker_on_ack s src m)"
| "at_exec (Cancel src m) s = map_option snd (AckTracker_cancel s src m)"
| "at_exec (Cancel_peer dst) s = map_option snd (AckTracker_cancel_peer s dst)"
| "at_exec (Sweep now_us buf cap) s = map_option (snd \<circ> snd) (AckTracker_sweep_expired s now_us buf cap)"

text \<open>A tracker with one pending entry, for the examples.\<close>

definition at_example :: ack_tracker where
  "at_example = \<lparr> at_slots = \<lparr> ae_env = envelope_init, ae_deadline_us = 5, ae_state = PENDING \<rparr> #
       replicate 31 ack_entry_zero, at_count = 1, at_stats = ack_tracker_stats_init,
     at_initialized = True, at_last_sweep_us = 0 \<rparr>"

section \<open>Slots\<close>

lemma at_inv_count: "at_inv s \<Longrightarrow> at_count s \<le> 32"
  by (metis at_inv_def length_filter_le)

lemma at_matches_iff [simp]: "at_matches src m e \<longleftrightarrow> ae_pending e \<and> env_key (ae_env e) = (src, m)"
  by (auto simp: at_matches_def env_key_def)

lemma at_free_slot_inv [inv_intro]:
  assumes "at_inv s" and "i < 32" and "ae_used (at_slots s ! i)"
  shows "at_inv (at_free_slot i s)"
proof -
  let ?n = "length (filter ae_used ((at_slots s)[i := (at_slots s ! i)\<lparr> ae_state := FREE \<rparr>]))"
  have "Suc ?n = at_count s"
    using assms length_filter_release [of i "at_slots s" ae_used] by (simp add: at_inv_def)
  then have "(if at_count s > 0 then at_count s - 1 else at_count s) = ?n" by presburger
  with assms(1) show ?thesis unfolding at_inv_def at_free_slot_def by (simp del: One_nat_def)
qed

lemma at_free_slot_pending:
  assumes "at_inv s" and "i < 32" and "ae_pending (at_slots s ! i)"
  shows "at_pending (at_free_slot i s) = at_pending s - {#at_slots s ! i#}"
  using assms by (simp add: at_pending_def at_free_slot_def at_inv_def mset_filter_update)

lemma AckTracker_init_spec [inv_intro]:
  "returns (AckTracker_init s) (\<lambda>s'. at_inv s' \<and> at_pending s' = {#})"
  by (simp add: AckTracker_init_def at_inv_def ack_entry_zero_def ack_tracker_stats_init_def
      at_pending_def list_all_iff)

text \<open>Lookup of a pending entry.\<close>

lemma at_find_Some:
  assumes "first_idx (at_matches src m) (at_slots s) = Some i" and "at_inv s"
  shows "i < 32" "ae_pending (at_slots s ! i)" "env_key (ae_env (at_slots s ! i)) = (src, m)"
    "at_slots s ! i \<in># at_pending s"
  using first_idx_SomeD [OF assms(1)] assms(2) by (auto simp: at_inv_def at_pending_def)

lemma at_find_None:
  "first_idx (at_matches src m) (at_slots s) = None \<longleftrightarrow> (\<forall>e \<in># at_live s. env_key e \<noteq> (src, m))"
  by (auto simp: first_idx_None at_live_def at_pending_def)

section \<open>Operations\<close>

lemma track_spec:
  assumes "at_inv s"
  shows "returns (AckTracker_track s env d) (\<lambda>(r, s'). at_inv s' \<and>
    (if at_count s < 32 then r = OK \<and> at_count s' = at_count s + 1 \<and> at_pending s' =
       add_mset \<lparr> ae_env = env, ae_deadline_us = d, ae_state = PENDING \<rparr> (at_pending s)
     else r = ERR_FULL \<and> s' = s))"
proof (cases "first_idx (\<lambda>e. ae_state e = FREE) (at_slots s)")
  case None
  then have "at_count s = 32" using assms by (simp add: first_idx_None at_inv_def)
  with None assms show ?thesis by (simp add: AckTracker_track_def)
next
  case (Some i)
  let ?e = "\<lparr> ae_env = env, ae_deadline_us = d, ae_state = PENDING \<rparr>"
  have i: "i < length (at_slots s)" "ae_state (at_slots s ! i) = FREE" using Some by auto
  have c: "length (filter ae_used ((at_slots s)[i := ?e])) = Suc (at_count s)"
    using length_filter_activate [of i "at_slots s" ae_used ?e] i assms by (simp add: at_inv_def)
  have "Suc (at_count s) \<le> 32"
    using c length_filter_le [of ae_used "(at_slots s)[i := ?e]"] assms by (simp add: at_inv_def)
  with Some i c assms mset_filter_activate [of i "at_slots s" ae_pending ?e] show ?thesis
    by (simp add: AckTracker_track_def at_inv_def at_pending_def)
qed

lemma on_ack_spec:
  assumes "at_inv s"
  shows "returns (AckTracker_on_ack s src m) (\<lambda>(r, s'). at_inv s' \<and> at_count s' = at_count s \<and>
    (r = OK \<and> (\<exists>e \<in># at_pending s. env_key (ae_env e) = (src, m) \<and> at_pending s' = at_pending s - {#e#}) \<or>
     r = ERR_INVALID \<and> s' = s \<and> (\<forall>e \<in># at_live s. env_key e \<noteq> (src, m))))"
proof (cases "first_idx (at_matches src m) (at_slots s)")
  case None
  with assms at_inv_count [OF assms] at_find_None [of src m s] show ?thesis
    by (simp add: AckTracker_on_ack_def)
next
  case (Some i)
  note f = at_find_Some [OF Some assms]
  let ?e = "(at_slots s ! i)\<lparr> ae_state := ACKED \<rparr>"
  have len: "i < length (at_slots s)" using f assms by (simp add: at_inv_def)
  with f have "length (filter ae_used ((at_slots s)[i := ?e])) = length (filter ae_used (at_slots s))"
    by (intro length_filter_same) simp_all
  then have inv: "at_inv (s\<lparr> at_slots := (at_slots s)[i := ?e], at_stats := st \<rparr>)" for st
    using assms by (simp add: at_inv_def)
  have "at_pending (s\<lparr> at_slots := (at_slots s)[i := ?e], at_stats := st \<rparr>) =
    at_pending s - {#at_slots s ! i#}" for st
    using len f by (simp add: at_pending_def mset_filter_update)
  with Some f(2-4) len inv at_inv_count [OF assms] show ?thesis
    by (auto simp: AckTracker_on_ack_def simp del: at_matches_iff intro!: bexI [of _ "at_slots s ! i"])
qed

lemma cancel_spec:
  assumes "at_inv s" and "src \<noteq> 0"
  shows "returns (AckTracker_cancel s src m) (\<lambda>(r, s'). at_inv s' \<and> at_stats s' = at_stats s \<and>
    (r = OK \<and> (\<exists>e \<in># at_pending s. env_key (ae_env e) = (src, m) \<and> at_pending s' = at_pending s - {#e#}) \<or>
     r = ERR_INVALID \<and> s' = s \<and> (\<forall>e \<in># at_live s. env_key e \<noteq> (src, m))))"
proof (cases "first_idx (at_matches src m) (at_slots s)")
  case None
  with assms at_inv_count [OF assms(1)] at_find_None [of src m s] show ?thesis
    by (simp add: AckTracker_cancel_def)
next
  case (Some i)
  note f = at_find_Some [OF Some assms(1)]
  have inv: "at_inv (at_free_slot i s)" using assms(1) f by (intro at_free_slot_inv) simp_all
  have st: "ae_state (at_slots (at_free_slot i s) ! i) = FREE" "at_stats (at_free_slot i s) = at_stats s"
    using f assms(1) by (simp_all add: at_free_slot_def at_inv_def)
  from Some f inv st assms at_inv_count [OF inv] at_inv_count [OF assms(1)]
    at_free_slot_pending [OF assms(1) f(1,2)] show ?thesis
    by (auto simp: AckTracker_cancel_def simp del: at_matches_iff intro!: bexI [of _ "at_slots s ! i"])
qed


text \<open>The loops over all slots: a slot is touched only in its own iteration.\<close>

lemma at_free_mapped:
  assumes "k < length xs" and "at_slots s = mapped_to k f xs" and "f (xs ! k) = (xs ! k)\<lparr> ae_state := FREE \<rparr>"
  shows "at_slots (at_free_slot k s) = mapped_to (Suc k) f xs"
  using assms mapped_to_update [of k xs f] by (simp add: at_free_slot_def)

lemma cancel_peer_spec:
  assumes "at_inv s" and "dst \<noteq> 0"
  shows "returns (AckTracker_cancel_peer s dst) (\<lambda>(n, s'). at_inv s' \<and> at_stats s' = at_stats s \<and>
    at_slots s' = map (\<lambda>e. if at_cancelled dst e then e\<lparr> ae_state := FREE \<rparr> else e) (at_slots s) \<and>
    n = length (filter (at_cancelled dst) (at_slots s)))"
proof -
  let ?f = "\<lambda>e. if at_cancelled dst e then e\<lparr> ae_state := FREE \<rparr> else e"
  let ?P = "\<lambda>k (n, t). at_inv t \<and> at_stats t = at_stats s \<and> at_slots t = mapped_to k ?f (at_slots s) \<and>
    n = length (filter (at_cancelled dst) (take k (at_slots s)))"
  have len: "length (at_slots s) = 32" using assms(1) by (simp add: at_inv_def)
  have step: "returns ((\<lambda>(cancelled, s).
         if ae_state (at_slots s ! k) = PENDING \<and> destination_id (ae_env (at_slots s ! k)) = dst
         then Some (cancelled + 1, at_free_slot k s) else Some (cancelled, s)) (n, t)) (?P (Suc k))"
    if k: "k < 32" and P: "?P k (n, t)" for k n t
  proof (cases "at_cancelled dst (at_slots s ! k)")
    case True
    with k P len have u: "ae_used (at_slots t ! k)" by (simp add: at_cancelled_def)
    from True k P len at_free_slot_inv [of t k, OF _ k u] at_free_mapped [of k "at_slots s" t ?f]
    show ?thesis by (simp add: at_cancelled_def filter_take_Suc) (simp add: at_free_slot_def)
  next
    case False
    with k P len mapped_to_same [of k "at_slots s" ?f] show ?thesis
      by (auto simp: at_cancelled_def filter_take_Suc)
  qed
  have loop: "returns (for_each (\<lambda>i (cancelled, s).
         if ae_state (at_slots s ! i) = PENDING \<and> destination_id (ae_env (at_slots s ! i)) = dst
         then Some (cancelled + 1, at_free_slot i s)
         else Some (cancelled, s)) [0..<32] (0, s)) (?P 32)"
    using step assms(1) by (intro for_each_upt) (simp, blast)
  have "n = length (filter (at_cancelled dst) (at_slots s)) \<Longrightarrow> n \<le> 32" for n
    using length_filter_le [of "at_cancelled dst" "at_slots s"] len by simp
  with loop assms show ?thesis
    unfolding AckTracker_cancel_peer_def
    by (auto simp: at_inv_count len at_inv_def [of s] simp del: upt_rec_numeral elim!: returns_mono)
qed


lemma sweep_loop_step:
  fixes s0 :: ack_tracker
  defines "E \<equiv> \<lambda>t k. filter (at_swept t) (take k (at_slots s0))"
  defines "P \<equiv> \<lambda>t cap k (n, buf, tr). at_inv tr \<and> at_slots tr = mapped_to k (at_sweep_slot t) (at_slots s0) \<and>
    filled buf cap n (map ae_env (E t k)) \<and>
    at_stats tr = (at_stats s0)\<lparr> timeouts := timeouts (at_stats s0) + of_nat (length (E t k)) \<rparr> \<and>
    at_last_sweep_us tr = t"
  assumes k: "k < 32" and len: "length (at_slots s0) = 32" and P: "P t cap k (n, buf, tr)"
  shows "returns (AckTracker_sweep_one_slot tr k t buf cap n) (\<lambda>(a, buf', tr'). P t cap (Suc k) (n + a, buf', tr'))"
proof -
  let ?x = "at_slots s0 ! k"
  have x: "at_slots tr ! k = ?x" and inv: "at_inv tr" using P k len by (simp_all add: P_def)
  have E: "E t (Suc k) = E t k @ (if at_swept t ?x then [?x] else [])"
    using k len by (simp add: E_def filter_take_Suc)
  consider (expired) "at_swept t ?x" | (acked) "\<not> at_swept t ?x" "ae_state ?x = ACKED"
    | (keep) "\<not> at_swept t ?x" "ae_state ?x \<noteq> ACKED" by blast
  then show ?thesis
  proof cases
    case expired
    then have u: "ae_used (at_slots tr ! k)" by (simp add: x at_swept_def)
    have "at_slots (at_free_slot k tr) = mapped_to (Suc k) (at_sweep_slot t) (at_slots s0)"
      using P k len expired by (intro at_free_mapped) (simp_all add: P_def at_sweep_slot_def)
    moreover have "at_inv (at_free_slot k tr)" using inv k u by (rule at_free_slot_inv)
    ultimately show ?thesis
      using P k expired x filled_write [of buf cap n "map ae_env (E t k)" "ae_env ?x"]
        filled_skip [of buf cap n "map ae_env (E t k)" "ae_env ?x"]
      by (auto simp: P_def AckTracker_sweep_one_slot_def at_swept_def E at_free_slot_def at_inv_def)
  next
    case acked
    then have u: "ae_used (at_slots tr ! k)" by (simp add: x)
    have "at_slots (at_free_slot k tr) = mapped_to (Suc k) (at_sweep_slot t) (at_slots s0)"
      using P k len acked by (intro at_free_mapped) (simp_all add: P_def at_sweep_slot_def)
    with at_free_slot_inv [OF inv k u] P k acked x show ?thesis
      by (auto simp: P_def AckTracker_sweep_one_slot_def at_swept_def E at_free_slot_def)
  next
    case keep
    with mapped_to_same [of k "at_slots s0" "at_sweep_slot t"] P k len x show ?thesis
      by (auto simp: P_def AckTracker_sweep_one_slot_def at_swept_def E at_sweep_slot_def)
  qed
qed

lemma sweep_spec:
  assumes "at_inv s" and "now_us \<noteq> 0" and "cap \<le> length buf"
  shows "returns (AckTracker_sweep_expired s now_us buf cap) (\<lambda>(n, buf', s').
    at_inv s' \<and> at_slots s' = map (at_sweep_slot (at_sweep_time s now_us)) (at_slots s) \<and>
    filled buf' cap n (map ae_env (at_expired (at_sweep_time s now_us) s)) \<and>
    at_stats s' = (at_stats s)\<lparr> timeouts := timeouts (at_stats s) +
      of_nat (length (at_expired (at_sweep_time s now_us) s)) \<rparr> \<and>
    at_last_sweep_us s' = at_sweep_time s now_us)"
proof -
  let ?t = "at_sweep_time s now_us" and ?s0 = "s\<lparr> at_last_sweep_us := at_sweep_time s now_us \<rparr>"
  let ?E = "\<lambda>k. filter (at_swept ?t) (take k (at_slots ?s0))"
  let ?P = "\<lambda>k (n, buf, tr). at_inv tr \<and> at_slots tr = mapped_to k (at_sweep_slot ?t) (at_slots ?s0) \<and>
    filled buf cap n (map ae_env (?E k)) \<and>
    at_stats tr = (at_stats ?s0)\<lparr> timeouts := timeouts (at_stats ?s0) + of_nat (length (?E k)) \<rparr> \<and>
    at_last_sweep_us tr = ?t"
  have len: "length (at_slots ?s0) = 32" and inv: "at_inv ?s0" using assms(1) by (simp_all add: at_inv_def)
  have "returns (for_each (\<lambda>i (expired_count, expired_buf, s). do {
         (added, expired_buf, s) \<leftarrow> AckTracker_sweep_one_slot s i ?t expired_buf cap expired_count;
         Some (expired_count + added, expired_buf, s) }) [0..<32] (0, buf, ?s0)) (?P 32)"
  proof (rule for_each_upt)
    show "?P 0 (0, buf, ?s0)" using inv assms(3) by (simp add: filled_Nil)
    fix k x assume "k < 32" and P: "?P k x"
    then show "returns ((\<lambda>(expired_count, expired_buf, s). do {
         (added, expired_buf, s) \<leftarrow> AckTracker_sweep_one_slot s k ?t expired_buf cap expired_count;
         Some (expired_count + added, expired_buf, s) }) x) (?P (Suc k))"
      using sweep_loop_step [OF \<open>k < 32\<close> len, of ?t cap]
      by (cases x) (force elim!: returnsE)
  qed
  then show ?thesis
    unfolding AckTracker_sweep_expired_def at_sweep_time_def [symmetric] at_expired_def
    using assms len at_inv_count
    by (auto simp: at_inv_count [OF assms(1)] at_sweep_time_def [symmetric] Let_def
        dest: filled_le simp del: upt_rec_numeral elim!: returns_mono)
qed


section \<open>The tracker as a table of pending envelopes\<close>

lemma at_live_bound: "at_inv s \<Longrightarrow> size (at_live s) \<le> 32"
  using length_filter_le [of ae_pending "at_slots s"]
  by (simp add: at_live_def at_pending_def at_inv_def length_filter_size)

lemma at_pending_cancel_peer:
  assumes "at_slots s' = map (\<lambda>e. if at_cancelled dst e then e\<lparr> ae_state := FREE \<rparr> else e) (at_slots s)"
  shows "at_live s' = filter_mset (\<lambda>e. destination_id e \<noteq> dst) (at_live s)"
    and "length (filter (at_cancelled dst) (at_slots s)) =
         size (filter_mset (\<lambda>e. destination_id e = dst) (at_live s))"
proof -
  have "image_mset ae_env (filter_mset ae_pending
      (mset (map (\<lambda>e. if at_cancelled dst e then e\<lparr> ae_state := FREE \<rparr> else e) xs))) =
    filter_mset (\<lambda>e. destination_id e \<noteq> dst) (image_mset ae_env (filter_mset ae_pending (mset xs)))" for xs
    by (induction xs) (auto simp: at_cancelled_def)
  then show "at_live s' = filter_mset (\<lambda>e. destination_id e \<noteq> dst) (at_live s)"
    unfolding at_live_def at_pending_def assms .
  have "length (filter (at_cancelled dst) xs) =
    size (filter_mset (\<lambda>e. destination_id e = dst) (image_mset ae_env (filter_mset ae_pending (mset xs))))" for xs
    by (induction xs) (auto simp: at_cancelled_def)
  then show "length (filter (at_cancelled dst) (at_slots s)) =
         size (filter_mset (\<lambda>e. destination_id e = dst) (at_live s))"
    by (simp add: at_live_def at_pending_def)
qed

lemma at_live_remove: "e \<in># at_pending s \<Longrightarrow> at_pending s' = at_pending s - {#e#} \<Longrightarrow>
   at_live s' = at_live s - {#ae_env e#} \<and> ae_env e \<in># at_live s"
  by (simp add: at_live_def image_mset_Diff)

interpretation ackt: pending_table at_inv at_live ACK_TRACKER_CAPACITY "\<lambda>d e. True"
  "\<lambda>s d e. AckTracker_track s e d" AckTracker_cancel AckTracker_cancel_peer
proof unfold_locales
  fix s :: ack_tracker and d e assume "at_inv s"
  from track_spec [OF this, of e d] show "returns (AckTracker_track s e d) (\<lambda>(r, s'). at_inv s' \<and>
        (r = OK \<and> at_live s' = add_mset e (at_live s) \<or> r = ERR_FULL \<and> s' = s))"
    by (auto elim!: returns_mono simp: at_live_def split: if_splits)
next
  fix s :: ack_tracker and src m assume "at_inv s" and "src \<noteq> NODE_ID_INVALID"
  with cancel_spec [of s src m] show "returns (AckTracker_cancel s src m) (\<lambda>(r, s'). at_inv s' \<and>
        (r = OK \<and> (\<exists>e \<in># at_live s. env_key e = (src, m) \<and> at_live s' = at_live s - {#e#}) \<or>
         r = ERR_INVALID \<and> s' = s \<and> (\<forall>e \<in># at_live s. env_key e \<noteq> (src, m))))"
    by (auto elim!: returns_mono dest: at_live_remove)
next
  fix s :: ack_tracker and dst assume "at_inv s" and "dst \<noteq> NODE_ID_INVALID"
  with cancel_peer_spec [of s dst] show "returns (AckTracker_cancel_peer s dst) (\<lambda>(n, s'). at_inv s' \<and>
        at_live s' = filter_mset (\<lambda>e. destination_id e \<noteq> dst) (at_live s) \<and>
        n = size (filter_mset (\<lambda>e. destination_id e = dst) (at_live s)))"
    by (auto elim!: returns_mono dest: at_pending_cancel_peer)
qed (simp add: at_live_bound)

section \<open>Properties\<close>

lemma at_exec_inv [inv_intro]: "at_inv s \<Longrightarrow> at_op_ok op \<Longrightarrow> returns (at_exec op s) at_inv"
  by (cases op)
    (auto simp: returns_map_option elim!: returns_mono [OF track_spec] returns_mono [OF on_ack_spec]
      returns_mono [OF cancel_spec] returns_mono [OF cancel_peer_spec] returns_mono [OF sweep_spec])

text \<open>From \<open>init\<close>, no sequence of calls with well-formed arguments trips an assertion of
  the tracker, and at its end \<open>m_count\<close> is exactly the number of slots that are not free.\<close>

theorem ack_tracker_invariant:
  assumes "list_all at_op_ok ops"
  shows "returns (do { s \<leftarrow> AckTracker_init s0; for_each at_exec ops s })
    (\<lambda>s. length (at_slots s) = ACK_TRACKER_CAPACITY \<and>
         at_count s = length (filter (\<lambda>e. ae_state e \<noteq> FREE) (at_slots s)))"
proof -
  obtain s where s: "AckTracker_init s0 = Some s" "at_inv s"
    using AckTracker_init_spec [of s0] by (auto elim: returnsE)
  have "returns (for_each at_exec ops s) at_inv"
    using assms s(2) by (intro for_each_inv at_exec_inv) (auto simp: list_all_iff)
  with s(1) show ?thesis by (auto elim!: returns_mono simp: at_inv_def)
qed

theorem ack_tracker_invariant_witness:
  "returns (do { s \<leftarrow> AckTracker_init \<lparr> at_slots = [], at_count = 0, at_stats = ack_tracker_stats_init,
                   at_initialized = False, at_last_sweep_us = 0 \<rparr>;
                 for_each at_exec [Track envelope_init 5, On_ack 0 0, Sweep 9 [envelope_init] 1] s })
    (\<lambda>s. length (at_slots s) = ACK_TRACKER_CAPACITY \<and>
         at_count s = length (filter (\<lambda>e. ae_state e \<noteq> FREE) (at_slots s)))"
  by (rule ack_tracker_invariant) simp

text \<open>A sweep at time \<open>now_us\<close> (never before the previous sweep's time) times out exactly
  the pending entries whose deadline has passed: it writes their envelopes in slot order to the
  caller's buffer, as many as fit, counts all of them in \<open>timeouts\<close>, frees them and the
  acknowledged slots, and keeps every other pending entry.\<close>

theorem sweep_expired_exact:
  assumes "at_inv s" and "now_us \<noteq> 0" and "cap \<le> length buf"
  defines "t \<equiv> at_sweep_time s now_us"
  shows "returns (AckTracker_sweep_expired s now_us buf cap) (\<lambda>(n, buf', s'). at_inv s' \<and>
    n = min cap (length (at_expired t s)) \<and>
    take n buf' = take n (map ae_env (at_expired t s)) \<and>
    at_pending s' = filter_mset (\<lambda>e. \<not> ae_deadline_us e \<le> t) (at_pending s) \<and>
    (\<forall>e \<in> set (at_slots s'). ae_state e \<noteq> ACKED) \<and>
    timeouts (at_stats s') = timeouts (at_stats s) + of_nat (length (at_expired t s)) \<and>
    as_acks_received (at_stats s') = as_acks_received (at_stats s))"
proof -
  have pend: "filter_mset ae_pending (mset (map (at_sweep_slot t) xs)) =
    filter_mset (\<lambda>e. \<not> ae_deadline_us e \<le> t) (filter_mset ae_pending (mset xs))" for xs
    by (induction xs) (auto simp: at_sweep_slot_def at_swept_def)
  have "\<forall>e \<in> set (map (at_sweep_slot t) xs). ae_state e \<noteq> ACKED" for xs
    by (auto simp: at_sweep_slot_def at_swept_def)
  with sweep_spec [OF assms(1-3), folded t_def] pend show ?thesis
    by (auto elim!: returns_mono simp: at_pending_def filled_def)
qed

lemma at_example_inv: "at_inv at_example"
  by (simp add: at_inv_def at_example_def ack_entry_zero_def)

theorem sweep_expired_exact_witness:
  "returns (AckTracker_sweep_expired at_example 9 [envelope_zero] 1) (\<lambda>(n, buf', s'). at_inv s' \<and> n = 1 \<and> at_pending s' = {#})"
proof -
  have "at_expired (at_sweep_time at_example 9) at_example =
    [\<lparr> ae_env = envelope_init, ae_deadline_us = 5, ae_state = PENDING \<rparr>]"
    by (simp add: at_expired_def at_example_def at_sweep_time_def at_swept_def ack_entry_zero_def)
  moreover have "filter_mset (\<lambda>e. \<not> ae_deadline_us e \<le> at_sweep_time at_example 9) (at_pending at_example) = {#}"
    by (simp add: at_pending_def at_example_def at_sweep_time_def ack_entry_zero_def)
  ultimately show ?thesis
    using sweep_expired_exact [OF at_example_inv, of 9 1 "[envelope_zero]"] by (auto elim!: returns_mono)
qed

text \<open>An acknowledgement moves the matching pending entry to ACKED and is counted once;
  it does not free the slot (the next sweep does). Without a match nothing changes. The rollback
  \<open>cancel\<close> removes the entry without counting an acknowledgement.\<close>

theorem on_ack_and_cancel_exact:
  assumes "at_inv s" and "src \<noteq> NODE_ID_INVALID"
  shows "returns (AckTracker_on_ack s src m) (\<lambda>(r, s'). at_inv s' \<and> at_count s' = at_count s \<and>
     (if \<exists>e \<in># at_live s. env_key e = (src, m)
      then r = OK \<and> (\<exists>e \<in># at_pending s. env_key (ae_env e) = (src, m) \<and> at_pending s' = at_pending s - {#e#})
      else r = ERR_INVALID \<and> s' = s)) \<and>
    returns (AckTracker_cancel s src m) (\<lambda>(r, s'). at_inv s' \<and> at_stats s' = at_stats s \<and>
     (if \<exists>e \<in># at_live s. env_key e = (src, m)
      then r = OK \<and> (\<exists>e \<in># at_pending s. env_key (ae_env e) = (src, m) \<and> at_pending s' = at_pending s - {#e#})
      else r = ERR_INVALID \<and> s' = s))"
proof
  have mem: "e \<in># at_pending s \<Longrightarrow> env_key (ae_env e) = (src, m) \<Longrightarrow> \<exists>e \<in># at_live s. env_key e = (src, m)" for e
    by (auto simp: at_live_def)
  show "returns (AckTracker_on_ack s src m) (\<lambda>(r, s'). at_inv s' \<and> at_count s' = at_count s \<and>
     (if \<exists>e \<in># at_live s. env_key e = (src, m)
      then r = OK \<and> (\<exists>e \<in># at_pending s. env_key (ae_env e) = (src, m) \<and> at_pending s' = at_pending s - {#e#})
      else r = ERR_INVALID \<and> s' = s))"
    by (rule returns_mono [OF on_ack_spec [OF assms(1), of src m]]) (use mem in auto)
  have "src \<noteq> 0" using assms(2) by simp
  show "returns (AckTracker_cancel s src m) (\<lambda>(r, s'). at_inv s' \<and> at_stats s' = at_stats s \<and>
     (if \<exists>e \<in># at_live s. env_key e = (src, m)
      then r = OK \<and> (\<exists>e \<in># at_pending s. env_key (ae_env e) = (src, m) \<and> at_pending s' = at_pending s - {#e#})
      else r = ERR_INVALID \<and> s' = s))"
    by (rule returns_mono [OF cancel_spec [OF assms(1) \<open>src \<noteq> 0\<close>, of m]]) (use mem in auto)
qed

theorem on_ack_and_cancel_exact_witness:
  "returns (AckTracker_on_ack at_example 3 8) (\<lambda>(r, s'). r = ERR_INVALID \<and> s' = at_example)"
proof -
  have "\<not> (\<exists>e \<in># at_live at_example. env_key e = (3, 8))"
    by (simp add: at_live_def at_pending_def at_example_def ack_entry_zero_def env_key_def envelope_init_def)
  with on_ack_and_cancel_exact [OF at_example_inv, of 3 8] show ?thesis by (auto elim!: returns_mono)
qed

end
