(* ===== verification/RetryManager.thy ===== *)
theory RetryManager
  imports PendingTable
begin

text \<open>
  \<open>src/core/RetryManager.cpp\<close>: the table of messages to retransmit, with exponential backoff, a
  bound on the number of attempts and the message's expiry time. \<open>collect_due\<close> first reaps the
  expired and exhausted entries and then hands out the due ones.
\<close>

record retry_entry =
  re_env :: envelope
  re_next_retry_us :: u64
  re_expiry_us :: u64
  re_retry_count :: u32
  re_max_retries :: u32
  re_backoff_ms :: u32
  re_active :: bool

record retry_manager =
  rm_slots :: "retry_entry list"
  rm_count :: nat
  rm_initialized :: bool
  rm_last_collect_us :: u64
  rm_stats :: retry_stats

definition slot_has_expired :: "u64 \<Rightarrow> u64 \<Rightarrow> bool option" where
  "slot_has_expired expiry_us now_us = do {
     nc_assert (now_us > 0);
     nc_assert (expiry_us \<noteq> NOT 0);
     Some (expiry_us \<noteq> 0 \<and> now_us \<ge> expiry_us)
   }"

definition advance_backoff :: "u32 \<Rightarrow> u32 option" where
  "advance_backoff current_ms = do {
     nc_assert (current_ms \<le> 60000);
     let capped = (if current_ms > 30000 then 30000 else current_ms);
     let doubled = capped * 2;
     let result = (if doubled = 0 then 1 else doubled);
     nc_assert (result \<le> 60000);
     nc_assert (result > 0);
     Some result
   }"

definition retry_entry_init :: retry_entry where
  "retry_entry_init = \<lparr> re_env = envelope_init, re_next_retry_us = 0, re_expiry_us = 0,
     re_retry_count = 0, re_max_retries = 0, re_backoff_ms = 0, re_active = False \<rparr>"

definition RetryManager_init :: "retry_manager \<Rightarrow> retry_manager option" where
  "RetryManager_init s = do {
     nc_assert (rm_count s \<le> ACK_TRACKER_CAPACITY);
     let s = \<lparr> rm_slots = replicate ACK_TRACKER_CAPACITY retry_entry_init, rm_count = 0,
               rm_initialized = True, rm_last_collect_us = 0, rm_stats = retry_stats_init \<rparr>;
     nc_assert (rm_count s = 0);
     nc_assert (rm_initialized s);
     nc_assert (retries_sent (rm_stats s) = 0);
     Some s
   }"

definition RetryManager_schedule ::
    "retry_manager \<Rightarrow> envelope \<Rightarrow> u32 \<Rightarrow> u32 \<Rightarrow> u64 \<Rightarrow> (Result \<times> retry_manager) option" where
  "RetryManager_schedule s env max_retries backoff_ms now_us = do {
     nc_assert (rm_initialized s);
     nc_assert (envelope_valid env);
     case first_idx (\<lambda>e. \<not> re_active e) (rm_slots s) of
       Some i \<Rightarrow> do {
         let s = s\<lparr> rm_slots := (rm_slots s)[i := \<lparr> re_env = env, re_next_retry_us = now_us,
                   re_expiry_us = expiry_time_us env, re_retry_count = 0, re_max_retries = max_retries,
                   re_backoff_ms = backoff_ms, re_active = True \<rparr>] \<rparr>;
         let s = s\<lparr> rm_count := rm_count s + 1 \<rparr>;
         nc_assert (rm_count s \<le> ACK_TRACKER_CAPACITY);
         nc_assert (re_active (rm_slots s ! i));
         Some (OK, s)
       }
     | None \<Rightarrow> do {
         nc_assert (rm_count s = ACK_TRACKER_CAPACITY);
         Some (ERR_FULL, s)
       }
   }"

text \<open>\<open>m_slots[i].active = false; assert (m_count > 0); --m_count\<close>.\<close>

definition rm_deactivate :: "nat \<Rightarrow> retry_manager \<Rightarrow> retry_manager option" where
  "rm_deactivate i s = do {
     let s = s\<lparr> rm_slots := (rm_slots s)[i := (rm_slots s ! i)\<lparr> re_active := False \<rparr>] \<rparr>;
     nc_assert (rm_count s > 0);
     Some (s\<lparr> rm_count := rm_count s - 1 \<rparr>)
   }"

definition rm_matches :: "NodeId \<Rightarrow> u64 \<Rightarrow> retry_entry \<Rightarrow> bool" where
  "rm_matches src msg_id e \<longleftrightarrow>
     re_active e \<and> source_id (re_env e) = src \<and> message_id (re_env e) = msg_id"

definition RetryManager_on_ack :: "retry_manager \<Rightarrow> NodeId \<Rightarrow> u64 \<Rightarrow> (Result \<times> retry_manager) option" where
  "RetryManager_on_ack s src msg_id = do {
     nc_assert (rm_initialized s);
     nc_assert (src \<noteq> NODE_ID_INVALID);
     case first_idx (rm_matches src msg_id) (rm_slots s) of
       Some i \<Rightarrow> do {
         s \<leftarrow> rm_deactivate i s;
         let s = s\<lparr> rm_stats := (rm_stats s)\<lparr> rs_acks_received := rs_acks_received (rm_stats s) + 1 \<rparr> \<rparr>;
         nc_assert (rm_count s \<le> ACK_TRACKER_CAPACITY);
         Some (OK, s)
       }
     | None \<Rightarrow> Some (ERR_INVALID, s)
   }"

definition RetryManager_cancel_peer :: "retry_manager \<Rightarrow> NodeId \<Rightarrow> (nat \<times> retry_manager) option" where
  "RetryManager_cancel_peer s dst = do {
     nc_assert (rm_initialized s);
     nc_assert (dst \<noteq> NODE_ID_INVALID);
     (cancelled, s) \<leftarrow> for_each (\<lambda>i (cancelled, s).
         if re_active (rm_slots s ! i) \<and> destination_id (re_env (rm_slots s ! i)) = dst
         then do { s \<leftarrow> rm_deactivate i s; Some (cancelled + 1, s) }
         else Some (cancelled, s)) [0..<ACK_TRACKER_CAPACITY] (0, s);
     nc_assert (rm_count s \<le> ACK_TRACKER_CAPACITY);
     nc_assert (cancelled \<le> ACK_TRACKER_CAPACITY);
     Some (cancelled, s)
   }"

definition RetryManager_cancel :: "retry_manager \<Rightarrow> NodeId \<Rightarrow> u64 \<Rightarrow> (Result \<times> retry_manager) option" where
  "RetryManager_cancel s src msg_id = do {
     nc_assert (rm_initialized s);
     nc_assert (src \<noteq> NODE_ID_INVALID);
     case first_idx (rm_matches src msg_id) (rm_slots s) of
       Some i \<Rightarrow> do {
         s \<leftarrow> rm_deactivate i s;
         nc_assert (rm_count s \<le> ACK_TRACKER_CAPACITY);
         Some (OK, s)
       }
     | None \<Rightarrow> Some (ERR_INVALID, s)
   }"

text \<open>One iteration of the loop of \<open>reap_terminated_slots\<close>.\<close>

definition rm_reap_slot :: "u64 \<Rightarrow> nat \<Rightarrow> retry_manager \<Rightarrow> retry_manager option" where
  "rm_reap_slot now_us i s =
     (if \<not> re_active (rm_slots s ! i) then Some s
      else do {
        expired \<leftarrow> slot_has_expired (re_expiry_us (rm_slots s ! i)) now_us;
        if expired then do {
          s \<leftarrow> rm_deactivate i s;
          Some (s\<lparr> rm_stats := (rm_stats s)\<lparr> slots_expired := slots_expired (rm_stats s) + 1 \<rparr> \<rparr>)
        }
        else if re_retry_count (rm_slots s ! i) \<ge> re_max_retries (rm_slots s ! i) then do {
          s \<leftarrow> rm_deactivate i s;
          Some (s\<lparr> rm_stats := (rm_stats s)\<lparr> slots_exhausted := slots_exhausted (rm_stats s) + 1 \<rparr> \<rparr>)
        }
        else Some s
      })"

definition RetryManager_reap_terminated_slots :: "retry_manager \<Rightarrow> u64 \<Rightarrow> retry_manager option" where
  "RetryManager_reap_terminated_slots s now_us = do {
     nc_assert (rm_initialized s);
     nc_assert (now_us > 0);
     s \<leftarrow> for_each (rm_reap_slot now_us) [0..<ACK_TRACKER_CAPACITY] s;
     nc_assert (rm_count s \<le> ACK_TRACKER_CAPACITY);
     Some s
   }"

text \<open>One iteration of the collecting loop; the loop condition \<open>collected < buf_cap\<close> is a guard here:
  once false it stays false.\<close>

definition rm_collect_slot ::
    "u64 \<Rightarrow> nat \<Rightarrow> nat \<Rightarrow> nat \<times> envelope list \<times> retry_manager \<Rightarrow> (nat \<times> envelope list \<times> retry_manager) option" where
  "rm_collect_slot now_us buf_cap i = (\<lambda>(collected, out_buf, s).
     if \<not> collected < buf_cap then Some (collected, out_buf, s)
     else if \<not> re_active (rm_slots s ! i) then Some (collected, out_buf, s)
     else if re_next_retry_us (rm_slots s ! i) \<le> now_us then do {
       let out_buf = out_buf[collected := re_env (rm_slots s ! i)];
       let e = (rm_slots s ! i)\<lparr> re_retry_count := re_retry_count (rm_slots s ! i) + 1 \<rparr>;
       let s = s\<lparr> rm_stats := (rm_stats s)\<lparr> retries_sent := retries_sent (rm_stats s) + 1 \<rparr> \<rparr>;
       backoff \<leftarrow> advance_backoff (re_backoff_ms e);
       let e = e\<lparr> re_backoff_ms := backoff \<rparr>;
       let backoff_us = (ucast backoff :: u64) * 1000;
       let e = e\<lparr> re_next_retry_us := now_us + backoff_us \<rparr>;
       Some (collected + 1, out_buf, s\<lparr> rm_slots := (rm_slots s)[i := e] \<rparr>)
     }
     else Some (collected, out_buf, s))"

definition RetryManager_collect_due ::
    "retry_manager \<Rightarrow> u64 \<Rightarrow> envelope list \<Rightarrow> nat \<Rightarrow> (nat \<times> envelope list \<times> retry_manager) option" where
  "RetryManager_collect_due s now_us out_buf buf_cap = do {
     nc_assert (rm_initialized s);
     nc_assert (buf_cap \<le> unat MSG_RING_CAPACITY);
     nc_assert (now_us \<noteq> 0);
     let now_us = (if now_us < rm_last_collect_us s then rm_last_collect_us s else now_us);
     let s = s\<lparr> rm_last_collect_us := now_us \<rparr>;
     s \<leftarrow> RetryManager_reap_terminated_slots s now_us;
     (collected, out_buf, s) \<leftarrow>
       for_each (rm_collect_slot now_us buf_cap) [0..<ACK_TRACKER_CAPACITY] (0, out_buf, s);
     nc_assert (collected \<le> buf_cap);
     nc_assert (rm_count s \<le> ACK_TRACKER_CAPACITY);
     Some (collected, out_buf, s)
   }"

definition RetryManager_get_stats :: "retry_manager \<Rightarrow> retry_stats option" where
  "RetryManager_get_stats s = do {
     nc_assert (rm_initialized s);
     nc_assert (rm_count s \<le> ACK_TRACKER_CAPACITY);
     Some (rm_stats s)
   }"

section \<open>Invariant and abstraction\<close>

text \<open>What the retry loop relies on for an active entry.\<close>

definition re_ok :: "retry_entry \<Rightarrow> bool" where
  "re_ok e \<longleftrightarrow> (re_active e \<longrightarrow> re_backoff_ms e \<le> 60000 \<and> re_expiry_us e \<noteq> - 1 \<and>
     re_retry_count e \<le> re_max_retries e)"

definition rm_inv :: "retry_manager \<Rightarrow> bool" where
  "rm_inv s \<longleftrightarrow> length (rm_slots s) = 32 \<and> rm_count s = length (filter re_active (rm_slots s)) \<and>
     rm_initialized s \<and> list_all re_ok (rm_slots s)"

definition rm_live :: "retry_manager \<Rightarrow> envelope multiset" where
  "rm_live s = image_mset re_env (filter_mset re_active (mset (rm_slots s)))"

definition schedulable :: "u32 \<times> u32 \<times> u64 \<Rightarrow> envelope \<Rightarrow> bool" where
  "schedulable = (\<lambda>(max_retries, backoff_ms, now_us) env.
     envelope_valid env \<and> backoff_ms \<le> 60000 \<and> expiry_time_us env \<noteq> - 1)"

definition rm_collect_time :: "retry_manager \<Rightarrow> u64 \<Rightarrow> u64" where
  "rm_collect_time s now_us = (if now_us < rm_last_collect_us s then rm_last_collect_us s else now_us)"

text \<open>Phase 1 on one slot, and the two counters it feeds.\<close>

definition re_expired :: "u64 \<Rightarrow> retry_entry \<Rightarrow> bool" where
  "re_expired t e \<longleftrightarrow> re_active e \<and> timestamp_expired (re_expiry_us e) t"

definition re_exhausted :: "u64 \<Rightarrow> retry_entry \<Rightarrow> bool" where
  "re_exhausted t e \<longleftrightarrow> re_active e \<and> \<not> re_expired t e \<and> re_max_retries e \<le> re_retry_count e"

definition re_reap :: "u64 \<Rightarrow> retry_entry \<Rightarrow> retry_entry" where
  "re_reap t e = (if re_expired t e \<or> re_exhausted t e then e\<lparr> re_active := False \<rparr> else e)"

text \<open>The counters after reaping the slots \<open>es\<close>.\<close>

definition re_ex_count :: "u64 \<Rightarrow> retry_entry list \<Rightarrow> retry_stats \<Rightarrow> retry_stats" where
  "re_ex_count t es st = st\<lparr> slots_expired := slots_expired st + of_nat (length (filter (re_expired t) es)),
     slots_exhausted := slots_exhausted st + of_nat (length (filter (re_exhausted t) es)) \<rparr>"

text \<open>Phase 2 on one slot: due entries, and the entry after it was handed out.\<close>

definition re_due :: "u64 \<Rightarrow> retry_entry \<Rightarrow> bool" where
  "re_due t e \<longleftrightarrow> re_active e \<and> re_next_retry_us e \<le> t"

definition next_backoff :: "u32 \<Rightarrow> u32" where
  "next_backoff b = (if b > 30000 then 60000 else if b = 0 then 1 else b * 2)"

definition re_advance :: "u64 \<Rightarrow> retry_entry \<Rightarrow> retry_entry" where
  "re_advance t e = e\<lparr> re_retry_count := re_retry_count e + 1, re_backoff_ms := next_backoff (re_backoff_ms e),
     re_next_retry_us := t + ucast (next_backoff (re_backoff_ms e)) * 1000 \<rparr>"

primrec advance_first :: "u64 \<Rightarrow> nat \<Rightarrow> retry_entry list \<Rightarrow> retry_entry list" where
  "advance_first t n [] = []"
| "advance_first t n (e # es) =
     (if re_due t e \<and> 0 < n then re_advance t e # advance_first t (n - 1) es else e # advance_first t n es)"

text \<open>The number of retransmissions the table can still produce.\<close>

definition retry_budget :: "retry_manager \<Rightarrow> nat" where
  "retry_budget s = sum_list (map (\<lambda>e. if re_active e then unat (re_max_retries e - re_retry_count e) else 0) (rm_slots s))"

text \<open>What reaping leaves: no active entry has used up its attempts.\<close>

definition re_fresh :: "retry_entry \<Rightarrow> bool" where
  "re_fresh e \<longleftrightarrow> re_ok e \<and> (re_active e \<longrightarrow> re_retry_count e < re_max_retries e)"

definition rm_reaped :: "u64 \<Rightarrow> retry_manager \<Rightarrow> retry_entry list" where
  "rm_reaped t s = map (re_reap t) (rm_slots s)"

text \<open>The entries due at time \<open>t\<close>, in slot order.\<close>

definition rm_due :: "u64 \<Rightarrow> retry_manager \<Rightarrow> retry_entry list" where
  "rm_due t s = filter (re_due t) (rm_reaped t s)"

text \<open>The slots that \<open>cancel_peer\<close> deactivates.\<close>

definition re_cancelled :: "NodeId \<Rightarrow> retry_entry \<Rightarrow> bool" where
  "re_cancelled dst e \<longleftrightarrow> re_active e \<and> destination_id (re_env e) = dst"

text \<open>The calls a client can make; \<open>rm_exec\<close> also counts the envelopes handed out for retransmission.\<close>

datatype rm_op = Schedule envelope u32 u32 u64 | Rm_on_ack NodeId u64 | Rm_cancel NodeId u64
  | Rm_cancel_peer NodeId | Collect_due u64 "envelope list" nat

fun rm_op_ok :: "rm_op \<Rightarrow> bool" where
  "rm_op_ok (Schedule env mr b t) = schedulable (mr, b, t) env"
| "rm_op_ok (Rm_on_ack src m) = (src \<noteq> NODE_ID_INVALID)"
| "rm_op_ok (Rm_cancel src m) = (src \<noteq> NODE_ID_INVALID)"
| "rm_op_ok (Rm_cancel_peer dst) = (dst \<noteq> NODE_ID_INVALID)"
| "rm_op_ok (Collect_due now_us buf cap) = (now_us \<noteq> 0 \<and> cap \<le> 64 \<and> cap \<le> length buf)"

fun rm_exec :: "rm_op \<Rightarrow> nat \<times> retry_manager \<Rightarrow> (nat \<times> retry_manager) option" where
  "rm_exec (Schedule env mr b t) (n, s) = map_option (\<lambda>(r, s'). (n, s')) (RetryManager_schedule s env mr b t)"
| "rm_exec (Rm_on_ack src m) (n, s) = map_option (\<lambda>(r, s'). (n, s')) (RetryManager_on_ack s src m)"
| "rm_exec (Rm_cancel src m) (n, s) = map_option (\<lambda>(r, s'). (n, s')) (RetryManager_cancel s src m)"
| "rm_exec (Rm_cancel_peer dst) (n, s) = map_option (\<lambda>(r, s'). (n, s')) (RetryManager_cancel_peer s dst)"
| "rm_exec (Collect_due now_us buf cap) (n, s) =
     map_option (\<lambda>(k, buf', s'). (n + k, s')) (RetryManager_collect_due s now_us buf cap)"

fun rm_allowance :: "rm_op \<Rightarrow> nat" where
  "rm_allowance (Schedule env mr b t) = unat mr"
| "rm_allowance _ = 0"

text \<open>A manager with one entry, for the examples.\<close>

definition rm_example :: retry_manager where
  "rm_example = \<lparr> rm_slots = \<lparr> re_env = envelope_init\<lparr> message_type := DATA, source_id := 1 \<rparr>, re_next_retry_us = 5,
       re_expiry_us = 1000, re_retry_count = 0, re_max_retries = 3, re_backoff_ms = 100, re_active = True \<rparr> #
       replicate 31 retry_entry_init, rm_count = 1, rm_initialized = True, rm_last_collect_us = 0,
     rm_stats = retry_stats_init \<rparr>"

section \<open>Slots and backoff\<close>

lemma rm_inv_count: "rm_inv s \<Longrightarrow> rm_count s \<le> 32"
  by (metis rm_inv_def length_filter_le)

lemma rm_matches_iff [simp]: "rm_matches src m e \<longleftrightarrow> re_active e \<and> env_key (re_env e) = (src, m)"
  by (auto simp: rm_matches_def env_key_def)

lemma advance_backoff_eq: "b \<le> 60000 \<Longrightarrow> advance_backoff b = Some (next_backoff b)"
proof -
  assume b: "b \<le> 60000"
  show ?thesis
  proof (cases "b > 30000")
    case True
    with b show ?thesis by (simp add: advance_backoff_def next_backoff_def)
  next
    case False
    then have le: "unat b \<le> 30000" by (simp add: word_le_nat_alt not_less)
    then have u: "unat (b * 2) = unat b * 2" by (simp add: unat_word_ariths)
    have z: "b * 2 = 0 \<longleftrightarrow> b = 0" using u by (metis mult_is_0 unat_eq_0 zero_neq_numeral)
    have "b * 2 \<le> 60000" using u le by (simp add: word_le_nat_alt)
    with b False z show ?thesis
      by (auto simp: advance_backoff_def next_backoff_def word_gt_0)
  qed
qed

lemma next_backoff_le: "next_backoff b \<le> 60000"
proof (cases "b > 30000")
  case False
  then have "unat b \<le> 30000" by (simp add: word_le_nat_alt not_less)
  then have "unat (b * 2) \<le> 60000" by (simp add: unat_word_ariths)
  with False show ?thesis by (simp add: next_backoff_def word_le_nat_alt)
qed (simp add: next_backoff_def)

lemma rm_deactivate_spec:
  assumes "rm_inv s" and "i < 32" and "re_active (rm_slots s ! i)"
  shows "returns (rm_deactivate i s) (\<lambda>s'. rm_inv s' \<and>
    s' = s\<lparr> rm_slots := (rm_slots s)[i := (rm_slots s ! i)\<lparr> re_active := False \<rparr>], rm_count := rm_count s - 1 \<rparr>)"
proof -
  let ?e = "(rm_slots s ! i)\<lparr> re_active := False \<rparr>"
  have "Suc (length (filter re_active ((rm_slots s)[i := ?e]))) = rm_count s"
    using assms length_filter_release [of i "rm_slots s" re_active ?e] by (simp add: rm_inv_def)
  moreover have "list_all re_ok ((rm_slots s)[i := ?e])"
    using assms(1) by (intro list_all_updateI) (simp_all add: rm_inv_def re_ok_def)
  ultimately show ?thesis
    using assms(1) by (auto simp: rm_deactivate_def rm_inv_def)
qed

lemma RetryManager_init_spec [inv_intro]:
  "rm_count s \<le> 32 \<Longrightarrow> returns (RetryManager_init s) (\<lambda>s'. rm_inv s' \<and> rm_live s' = {#} \<and> retry_budget s' = 0)"
  by (simp add: RetryManager_init_def rm_inv_def retry_entry_init_def retry_stats_init_def
      rm_live_def list_all_iff re_ok_def retry_budget_def map_replicate sum_list_replicate)

lemma rm_find_Some:
  assumes "first_idx (rm_matches src m) (rm_slots s) = Some i" and "rm_inv s"
  shows "i < 32" "re_active (rm_slots s ! i)" "env_key (re_env (rm_slots s ! i)) = (src, m)"
    "re_env (rm_slots s ! i) \<in># rm_live s"
  using first_idx_SomeD [OF assms(1)] assms(2) by (auto simp: rm_inv_def rm_live_def)

lemma rm_find_None:
  "first_idx (rm_matches src m) (rm_slots s) = None \<longleftrightarrow> (\<forall>e \<in># rm_live s. env_key e \<noteq> (src, m))"
  by (auto simp: first_idx_None rm_live_def)


section \<open>Operations\<close>

lemma rm_schedule_spec:
  assumes "rm_inv s" and "schedulable (mr, b, now_us) env"
  shows "returns (RetryManager_schedule s env mr b now_us) (\<lambda>(r, s'). rm_inv s' \<and> rm_stats s' = rm_stats s \<and>
    (if rm_count s < 32 then r = OK \<and> rm_live s' = add_mset env (rm_live s) \<and>
       retry_budget s' = retry_budget s + unat mr
     else r = ERR_FULL \<and> s' = s))"
proof (cases "first_idx (\<lambda>e. \<not> re_active e) (rm_slots s)")
  case None
  then have "rm_count s = 32" using assms by (simp add: first_idx_None rm_inv_def)
  with None assms show ?thesis by (simp add: RetryManager_schedule_def rm_inv_def schedulable_def)
next
  case (Some i)
  let ?e = "\<lparr> re_env = env, re_next_retry_us = now_us, re_expiry_us = expiry_time_us env,
    re_retry_count = 0, re_max_retries = mr, re_backoff_ms = b, re_active = True \<rparr>"
  have i: "i < length (rm_slots s)" "\<not> re_active (rm_slots s ! i)" using Some by auto
  have c: "length (filter re_active ((rm_slots s)[i := ?e])) = Suc (rm_count s)"
    using length_filter_activate [of i "rm_slots s" re_active ?e] i assms by (simp add: rm_inv_def)
  have "Suc (rm_count s) \<le> 32"
    using c length_filter_le [of re_active "(rm_slots s)[i := ?e]"] assms by (simp add: rm_inv_def)
  moreover have "list_all re_ok ((rm_slots s)[i := ?e])"
    using assms by (intro list_all_updateI) (simp_all add: rm_inv_def re_ok_def schedulable_def)
  moreover have "retry_budget (s\<lparr> rm_slots := (rm_slots s)[i := ?e], rm_count := n \<rparr>) = retry_budget s + unat mr" for n
    using i by (simp add: retry_budget_def map_update sum_list_update)
  ultimately show ?thesis
    using Some i c assms mset_filter_activate [of i "rm_slots s" re_active ?e]
    by (simp add: RetryManager_schedule_def rm_inv_def rm_live_def schedulable_def)
qed

lemma rm_remove_slot:
  assumes "rm_inv s" and "i < 32" and "re_active (rm_slots s ! i)"
  shows "returns (rm_deactivate i s) (\<lambda>s'. rm_inv s' \<and> rm_stats s' = rm_stats s \<and>
    rm_live s' = rm_live s - {#re_env (rm_slots s ! i)#} \<and> retry_budget s' \<le> retry_budget s)"
proof -
  let ?e = "(rm_slots s ! i)\<lparr> re_active := False \<rparr>"
  have "rm_live (s\<lparr> rm_slots := (rm_slots s)[i := ?e], rm_count := n \<rparr>) = rm_live s - {#re_env (rm_slots s ! i)#}" for n
    using assms by (simp add: rm_live_def rm_inv_def mset_filter_update image_mset_Diff)
  moreover have "retry_budget (s\<lparr> rm_slots := (rm_slots s)[i := ?e], rm_count := n \<rparr>) \<le> retry_budget s" for n
    using assms by (simp add: retry_budget_def map_update sum_list_update rm_inv_def)
  ultimately show ?thesis using rm_deactivate_spec [OF assms] by (auto elim!: returns_mono)
qed

lemma rm_on_ack_spec:
  assumes "rm_inv s" and "src \<noteq> 0"
  shows "returns (RetryManager_on_ack s src m) (\<lambda>(r, s'). rm_inv s' \<and> retry_budget s' \<le> retry_budget s \<and>
    (r = OK \<and> (\<exists>e \<in># rm_live s. env_key e = (src, m) \<and> rm_live s' = rm_live s - {#e#}) \<or>
     r = ERR_INVALID \<and> s' = s \<and> (\<forall>e \<in># rm_live s. env_key e \<noteq> (src, m))))"
proof (cases "first_idx (rm_matches src m) (rm_slots s)")
  case None
  with assms rm_find_None [of src m s] show ?thesis
    by (simp add: RetryManager_on_ack_def rm_inv_def)
next
  case (Some i)
  note f = rm_find_Some [OF Some assms(1)]
  from rm_remove_slot [OF assms(1) f(1,2)] obtain s1 where
    s1: "rm_deactivate i s = Some s1" "rm_inv s1" "rm_live s1 = rm_live s - {#re_env (rm_slots s ! i)#}"
      "retry_budget s1 \<le> retry_budget s"
    by (auto elim: returnsE)
  moreover have "rm_inv (s1\<lparr> rm_stats := st \<rparr>)" "rm_live (s1\<lparr> rm_stats := st \<rparr>) = rm_live s1"
    "retry_budget (s1\<lparr> rm_stats := st \<rparr>) = retry_budget s1" for st
    using s1(2) by (simp_all add: rm_inv_def rm_live_def retry_budget_def)
  ultimately show ?thesis
    using Some f assms rm_inv_count [OF s1(2)]
    by (auto simp: RetryManager_on_ack_def rm_inv_def [of s] simp del: rm_matches_iff
        intro!: bexI [of _ "re_env (rm_slots s ! i)"])
qed

lemma rm_cancel_spec:
  assumes "rm_inv s" and "src \<noteq> 0"
  shows "returns (RetryManager_cancel s src m) (\<lambda>(r, s'). rm_inv s' \<and> rm_stats s' = rm_stats s \<and>
    retry_budget s' \<le> retry_budget s \<and>
    (r = OK \<and> (\<exists>e \<in># rm_live s. env_key e = (src, m) \<and> rm_live s' = rm_live s - {#e#}) \<or>
     r = ERR_INVALID \<and> s' = s \<and> (\<forall>e \<in># rm_live s. env_key e \<noteq> (src, m))))"
proof (cases "first_idx (rm_matches src m) (rm_slots s)")
  case None
  with assms rm_find_None [of src m s] show ?thesis
    by (simp add: RetryManager_cancel_def rm_inv_def)
next
  case (Some i)
  note f = rm_find_Some [OF Some assms(1)]
  from rm_remove_slot [OF assms(1) f(1,2)] obtain s1 where
    "rm_deactivate i s = Some s1" "rm_inv s1" "rm_live s1 = rm_live s - {#re_env (rm_slots s ! i)#}"
      "retry_budget s1 \<le> retry_budget s" "rm_stats s1 = rm_stats s"
    by (auto elim: returnsE)
  with Some f assms rm_inv_count [of s1] show ?thesis
    by (auto simp: RetryManager_cancel_def rm_inv_def [of s] simp del: rm_matches_iff
        intro!: bexI [of _ "re_env (rm_slots s ! i)"])
qed

lemma rm_deactivate_mapped:
  assumes "rm_inv s" and "k < 32" and "length xs = 32" and "rm_slots s = mapped_to k f xs"
    and "re_active (xs ! k)" and "f (xs ! k) = (xs ! k)\<lparr> re_active := False \<rparr>"
  shows "returns (rm_deactivate k s) (\<lambda>s'. rm_inv s' \<and> rm_slots s' = mapped_to (Suc k) f xs \<and>
    rm_stats s' = rm_stats s \<and> rm_last_collect_us s' = rm_last_collect_us s)"
proof -
  have k: "rm_slots s ! k = xs ! k" using assms by simp
  with assms mapped_to_update [of k xs f] rm_deactivate_spec [OF assms(1,2)] show ?thesis
    by (auto elim!: returns_mono)
qed

lemma rm_cancel_peer_spec:
  assumes "rm_inv s" and "dst \<noteq> 0"
  shows "returns (RetryManager_cancel_peer s dst) (\<lambda>(n, s'). rm_inv s' \<and> rm_stats s' = rm_stats s \<and>
    rm_slots s' = map (\<lambda>e. if re_cancelled dst e then e\<lparr> re_active := False \<rparr> else e) (rm_slots s) \<and>
    n = length (filter (re_cancelled dst) (rm_slots s)))"
proof -
  let ?f = "\<lambda>e. if re_cancelled dst e then e\<lparr> re_active := False \<rparr> else e"
  let ?P = "\<lambda>k (n, t). rm_inv t \<and> rm_stats t = rm_stats s \<and> rm_slots t = mapped_to k ?f (rm_slots s) \<and>
    n = length (filter (re_cancelled dst) (take k (rm_slots s)))"
  let ?b = "\<lambda>i (cancelled, s). if re_active (rm_slots s ! i) \<and> destination_id (re_env (rm_slots s ! i)) = dst
         then do { s \<leftarrow> rm_deactivate i s; Some (cancelled + 1, s) } else Some (cancelled, s)"
  have len: "length (rm_slots s) = 32" using assms(1) by (simp add: rm_inv_def)
  have step: "returns (?b k x) (?P (Suc k))" if k: "k < 32" and Px: "?P k x" for k x
  proof -
    obtain n t where x: "x = (n, t)" by (cases x)
    note P = Px [unfolded x]
    show ?thesis unfolding x
    proof (cases "re_cancelled dst (rm_slots s ! k)")
      case True
      then have "re_active (rm_slots s ! k)" by (simp add: re_cancelled_def)
      from rm_deactivate_mapped [OF _ k len _ this, of t ?f] P True obtain t' where
        "rm_deactivate k t = Some t'" "rm_inv t'" "rm_stats t' = rm_stats t"
        "rm_slots t' = mapped_to (Suc k) ?f (rm_slots s)"
        by (auto elim: returnsE)
      with True k P len show "returns (?b k (n, t)) (?P (Suc k))"
        by (simp add: re_cancelled_def filter_take_Suc)
    next
      case False
      with k P len mapped_to_same [of k "rm_slots s" ?f] show "returns (?b k (n, t)) (?P (Suc k))"
        by (auto simp: re_cancelled_def filter_take_Suc)
    qed
  qed
  have loop: "returns (for_each ?b [0..<32] (0, s)) (?P 32)"
  proof (rule for_each_upt [where P = ?P])
    show "?P 0 (0, s)" using assms(1) by simp
  qed (rule step)
  have "n = length (filter (re_cancelled dst) (rm_slots s)) \<Longrightarrow> n \<le> 32" for n
    using length_filter_le [of "re_cancelled dst" "rm_slots s"] len by simp
  with loop assms show ?thesis
    unfolding RetryManager_cancel_peer_def
    by (auto simp: rm_inv_count len rm_inv_def [of s] simp del: upt_rec_numeral elim!: returns_mono)
qed

section \<open>The two phases of collect\_due\<close>

lemma slot_has_expired_eq:
  "t \<noteq> 0 \<Longrightarrow> x \<noteq> - 1 \<Longrightarrow> slot_has_expired x t = Some (timestamp_expired x t)"
  by (simp add: slot_has_expired_def timestamp_expired_def word_gt_0)

lemma re_ex_count_Nil [simp]: "re_ex_count t [] st = st"
  by (simp add: re_ex_count_def)

lemma rm_reap_step:
  assumes k: "k < 32" and len: "length xs = 32" and t: "t \<noteq> 0" and ok: "list_all re_ok xs"
    and P: "rm_inv s" "rm_slots s = mapped_to k (re_reap t) xs" "rm_stats s = re_ex_count t (take k xs) st"
      "rm_last_collect_us s = t"
  shows "returns (rm_reap_slot t k s) (\<lambda>s'. rm_inv s' \<and> rm_slots s' = mapped_to (Suc k) (re_reap t) xs \<and>
    rm_stats s' = re_ex_count t (take (Suc k) xs) st \<and> rm_last_collect_us s' = t)"
proof -
  let ?x = "xs ! k"
  have x: "rm_slots s ! k = ?x" using k len P(2) by simp
  have okx: "re_ok ?x" using ok k len by (simp add: list_all_length)
  have st: "rm_inv (u\<lparr> rm_stats := v \<rparr>) = rm_inv u" for u v by (simp add: rm_inv_def)
  consider (off) "\<not> re_active ?x" | (expired) "re_expired t ?x" | (exhausted) "re_exhausted t ?x"
    | (keep) "re_active ?x" "\<not> re_expired t ?x" "\<not> re_exhausted t ?x" by blast
  then show ?thesis
  proof cases
    case off
    with P k len mapped_to_same [of k xs "re_reap t"] x show ?thesis
      by (simp add: rm_reap_slot_def re_reap_def re_expired_def re_exhausted_def re_ex_count_def filter_take_Suc)
  next
    case expired
    then have a: "re_active ?x" "slot_has_expired (re_expiry_us ?x) t = Some True"
      using okx t by (auto simp: re_expired_def re_ok_def slot_has_expired_eq)
    from rm_deactivate_mapped [OF P(1) k len P(2) a(1)] expired obtain s1 where
      "rm_deactivate k s = Some s1" "rm_inv s1" "rm_slots s1 = mapped_to (Suc k) (re_reap t) xs"
      "rm_stats s1 = rm_stats s" "rm_last_collect_us s1 = rm_last_collect_us s"
      by (auto simp: re_reap_def elim: returnsE)
    with a x P k len expired st show ?thesis
      by (simp add: rm_reap_slot_def re_ex_count_def filter_take_Suc re_exhausted_def)
  next
    case exhausted
    then have a: "re_active ?x" "slot_has_expired (re_expiry_us ?x) t = Some False"
        "re_max_retries ?x \<le> re_retry_count ?x"
      using okx t by (auto simp: re_exhausted_def re_expired_def re_ok_def slot_has_expired_eq)
    from rm_deactivate_mapped [OF P(1) k len P(2) a(1)] exhausted obtain s1 where
      "rm_deactivate k s = Some s1" "rm_inv s1" "rm_slots s1 = mapped_to (Suc k) (re_reap t) xs"
      "rm_stats s1 = rm_stats s" "rm_last_collect_us s1 = rm_last_collect_us s"
      by (auto simp: re_reap_def elim: returnsE)
    with a x P k len exhausted st show ?thesis
      by (simp add: rm_reap_slot_def re_ex_count_def filter_take_Suc re_exhausted_def)
  next
    case keep
    then have a: "slot_has_expired (re_expiry_us ?x) t = Some False" "\<not> re_max_retries ?x \<le> re_retry_count ?x"
      using okx t by (auto simp: re_exhausted_def re_expired_def re_ok_def slot_has_expired_eq)
    from keep a P k len mapped_to_same [of k xs "re_reap t"] x show ?thesis
      by (simp add: rm_reap_slot_def re_reap_def re_ex_count_def filter_take_Suc)
  qed
qed

lemma rm_reap_spec:
  assumes "rm_inv s" and "t \<noteq> 0" and "rm_last_collect_us s = t"
  shows "returns (RetryManager_reap_terminated_slots s t) (\<lambda>s'. rm_inv s' \<and>
    rm_slots s' = map (re_reap t) (rm_slots s) \<and> rm_stats s' = re_ex_count t (rm_slots s) (rm_stats s) \<and>
    rm_last_collect_us s' = t)"
proof -
  have len: "length (rm_slots s) = 32" and ok: "list_all re_ok (rm_slots s)" using assms(1) by (simp_all add: rm_inv_def)
  have "returns (for_each (rm_reap_slot t) [0..<32] s) (\<lambda>s'. rm_inv s' \<and>
    rm_slots s' = mapped_to 32 (re_reap t) (rm_slots s) \<and>
    rm_stats s' = re_ex_count t (take 32 (rm_slots s)) (rm_stats s) \<and> rm_last_collect_us s' = t)"
    using assms len ok
    by (intro for_each_upt [where P = "\<lambda>k s'. rm_inv s' \<and> rm_slots s' = mapped_to k (re_reap t) (rm_slots s) \<and>
      rm_stats s' = re_ex_count t (take k (rm_slots s)) (rm_stats s) \<and> rm_last_collect_us s' = t"])
      (auto intro: rm_reap_step)
  with assms len show ?thesis
    unfolding RetryManager_reap_terminated_slots_def
    by (auto simp: word_gt_0 rm_inv_count rm_inv_def [of s] simp del: upt_rec_numeral elim!: returns_mono)
qed


lemma length_advance_first [simp]: "length (advance_first t n xs) = length xs"
  by (induction xs arbitrary: n) auto

lemma advance_first_snoc:
  "advance_first t n (xs @ [x]) = advance_first t n xs @
     [if length (filter (re_due t) xs) < n \<and> re_due t x then re_advance t x else x]"
  by (induction xs arbitrary: n) auto

lemma re_advance_ok: "re_fresh e \<Longrightarrow> re_active e \<Longrightarrow> re_ok (re_advance t e)"
  using next_backoff_le [of "re_backoff_ms e"]
  by (simp add: re_fresh_def re_ok_def re_advance_def inc_le)

lemma advance_first_active:
  "filter_mset re_active (mset (map f (advance_first t n xs))) = filter_mset re_active (mset (map f xs))"
  if "\<And>e. f (re_advance t e) = f e" for f
  using that by (induction xs arbitrary: n) auto

lemma rm_collect_step:
  assumes k: "k < 32" and len: "length xs = 32" and fresh: "list_all re_fresh xs"
    and P: "rm_inv s" "rm_slots s = advance_first t cap (take k xs) @ drop k xs"
      "filled buf cap n (map re_env (filter (re_due t) (take k xs)))"
      "rm_stats s = st\<lparr> retries_sent := retries_sent st + of_nat n \<rparr>" "rm_last_collect_us s = t"
  shows "returns (rm_collect_slot t cap k (n, buf, s)) (\<lambda>(n', buf', s'). rm_inv s' \<and>
    rm_slots s' = advance_first t cap (take (Suc k) xs) @ drop (Suc k) xs \<and>
    filled buf' cap n' (map re_env (filter (re_due t) (take (Suc k) xs))) \<and>
    rm_stats s' = st\<lparr> retries_sent := retries_sent st + of_nat n' \<rparr> \<and> rm_last_collect_us s' = t)"
proof -
  let ?x = "xs ! k" and ?A = "advance_first t cap (take k xs)"
  have fx: "re_fresh ?x" using fresh k len by (simp add: list_all_length)
  have tk: "take (Suc k) xs = take k xs @ [?x]" and dk: "drop k xs = ?x # drop (Suc k) xs"
    using k len by (simp_all add: take_Suc_conv_app_nth Cons_nth_drop_Suc)
  have x: "rm_slots s ! k = ?x" using P(2) k len by (simp add: nth_append dk)
  have room: "n < cap \<longleftrightarrow> length (filter (re_due t) (take k xs)) < cap"
    using P(3) by (auto simp: filled_def min_def)
  have D: "filter (re_due t) (take (Suc k) xs) = filter (re_due t) (take k xs) @ (if re_due t ?x then [?x] else [])"
    by (simp add: tk)
  show ?thesis
  proof (cases "re_due t ?x \<and> n < cap")
    case True
    then have a: "re_active ?x" "re_next_retry_us ?x \<le> t" "n < cap" by (simp_all add: re_due_def)
    let ?s = "s\<lparr> rm_stats := (rm_stats s)\<lparr> retries_sent := retries_sent (rm_stats s) + 1 \<rparr>,
                rm_slots := (rm_slots s)[k := re_advance t ?x] \<rparr>"
    have b: "advance_backoff (re_backoff_ms ?x) = Some (next_backoff (re_backoff_ms ?x))"
      using fx a(1) by (simp add: re_fresh_def re_ok_def advance_backoff_eq)
    have run: "rm_collect_slot t cap k (n, buf, s) = Some (Suc n, buf[n := re_env ?x], ?s)"
      using a x b by (simp add: rm_collect_slot_def re_advance_def)
    have "length (filter re_active (rm_slots ?s)) = length (filter re_active (rm_slots s))"
      using P(1) k x a(1) length_filter_same [of k "rm_slots s" re_active "re_advance t ?x"]
      by (simp add: rm_inv_def re_advance_def)
    moreover have "list_all re_ok (rm_slots ?s)"
      using P(1) re_advance_ok [OF fx a(1)] by (simp add: rm_inv_def list_all_updateI)
    ultimately have inv: "rm_inv ?s" using P(1) by (simp add: rm_inv_def)
    have "rm_slots ?s = advance_first t cap (take (Suc k) xs) @ drop (Suc k) xs"
      using P(2) True room k len by (simp add: tk advance_first_snoc dk list_update_append)
    with run inv filled_write [OF P(3) a(3), of "re_env ?x"] True D P(4,5) show ?thesis
      by simp
  next
    case False
    have run: "rm_collect_slot t cap k (n, buf, s) = Some (n, buf, s)"
      using False x by (auto simp: rm_collect_slot_def re_due_def)
    have "rm_slots s = advance_first t cap (take (Suc k) xs) @ drop (Suc k) xs"
      using P(2) False room by (auto simp: tk advance_first_snoc dk)
    moreover have "filled buf cap n (map re_env (filter (re_due t) (take (Suc k) xs)))"
      using P(3) False filled_skip [OF P(3), of "re_env ?x"] by (auto simp: D)
    ultimately show ?thesis using run P by simp
  qed
qed

lemma re_reap_fresh: "re_ok e \<Longrightarrow> re_fresh (re_reap t e)"
  by (auto simp: re_fresh_def re_reap_def re_ok_def re_exhausted_def not_le [symmetric])

lemma collect_due_spec:
  assumes "rm_inv s" and "now_us \<noteq> 0" and "cap \<le> 64" and "cap \<le> length buf"
  defines "t \<equiv> rm_collect_time s now_us"
  shows "returns (RetryManager_collect_due s now_us buf cap) (\<lambda>(n, buf', s'). rm_inv s' \<and>
    filled buf' cap n (map re_env (rm_due t s)) \<and> rm_slots s' = advance_first t cap (rm_reaped t s) \<and>
    rm_stats s' = (re_ex_count t (rm_slots s) (rm_stats s))\<lparr> retries_sent := retries_sent (rm_stats s) + of_nat n \<rparr> \<and>
    rm_last_collect_us s' = t)"
proof -
  let ?s0 = "s\<lparr> rm_last_collect_us := t \<rparr>" and ?R = "rm_reaped t s"
  have t: "t \<noteq> 0" using assms(2) by (auto simp: t_def rm_collect_time_def)
  have inv0: "rm_inv ?s0" and len: "length ?R = 32" using assms(1) by (simp_all add: rm_inv_def rm_reaped_def)
  have fresh: "list_all re_fresh ?R"
    using assms(1) by (auto simp: rm_inv_def rm_reaped_def list_all_iff re_reap_fresh)
  from rm_reap_spec [OF inv0 t] obtain s1 where
    s1: "RetryManager_reap_terminated_slots ?s0 t = Some s1" "rm_inv s1" "rm_slots s1 = ?R"
      "rm_stats s1 = re_ex_count t (rm_slots s) (rm_stats s)" "rm_last_collect_us s1 = t"
    by (auto elim: returnsE simp: rm_reaped_def)
  let ?P = "\<lambda>k (n, b, u). rm_inv u \<and> rm_slots u = advance_first t cap (take k ?R) @ drop k ?R \<and>
    filled b cap n (map re_env (filter (re_due t) (take k ?R))) \<and>
    rm_stats u = (rm_stats s1)\<lparr> retries_sent := retries_sent (rm_stats s1) + of_nat n \<rparr> \<and> rm_last_collect_us u = t"
  have "returns (for_each (rm_collect_slot t cap) [0..<32] (0, buf, s1)) (?P 32)"
  proof (rule for_each_upt [where P = ?P])
    show "?P 0 (0, buf, s1)" using s1 assms(4) by (simp add: filled_Nil)
    show "returns (rm_collect_slot t cap k x) (?P (Suc k))" if "k < 32" and "?P k x" for k x
      using that rm_collect_step [OF that(1) len fresh] by (cases x) auto
  qed
  then obtain n buf' s2 where
    s2: "for_each (rm_collect_slot t cap) [0..<32] (0, buf, s1) = Some (n, buf', s2)" "?P 32 (n, buf', s2)"
    by (auto elim: returnsE)
  have "retries_sent (rm_stats s1) = retries_sent (rm_stats s)" by (simp add: s1(4) re_ex_count_def)
  moreover have "RetryManager_collect_due s now_us buf cap = Some (n, buf', s2)"
    using s1 s2 assms(1-3) rm_inv_count [of s2]
    by (simp add: RetryManager_collect_due_def rm_inv_def [of s] rm_collect_time_def [symmetric] t_def [symmetric]
        filled_def del: upt_rec_numeral)
  ultimately show ?thesis using s2(2) s1(4) len by (simp add: rm_due_def)
qed


section \<open>The manager as a table of pending envelopes\<close>

lemma rm_live_bound: "rm_inv s \<Longrightarrow> size (rm_live s) \<le> 32"
  using length_filter_le [of re_active "rm_slots s"]
  by (simp add: rm_live_def rm_inv_def length_filter_size)

lemma rm_live_cancel_peer:
  assumes "rm_slots s' = map (\<lambda>e. if re_cancelled dst e then e\<lparr> re_active := False \<rparr> else e) (rm_slots s)"
  shows "rm_live s' = filter_mset (\<lambda>e. destination_id e \<noteq> dst) (rm_live s)"
    and "length (filter (re_cancelled dst) (rm_slots s)) =
         size (filter_mset (\<lambda>e. destination_id e = dst) (rm_live s))"
    and "retry_budget s' \<le> retry_budget s"
proof -
  have "image_mset re_env (filter_mset re_active
      (mset (map (\<lambda>e. if re_cancelled dst e then e\<lparr> re_active := False \<rparr> else e) xs))) =
    filter_mset (\<lambda>e. destination_id e \<noteq> dst) (image_mset re_env (filter_mset re_active (mset xs)))" for xs
    by (induction xs) (auto simp: re_cancelled_def)
  then show "rm_live s' = filter_mset (\<lambda>e. destination_id e \<noteq> dst) (rm_live s)"
    unfolding rm_live_def assms .
  have "length (filter (re_cancelled dst) xs) =
    size (filter_mset (\<lambda>e. destination_id e = dst) (image_mset re_env (filter_mset re_active (mset xs))))" for xs
    by (induction xs) (auto simp: re_cancelled_def)
  then show "length (filter (re_cancelled dst) (rm_slots s)) =
         size (filter_mset (\<lambda>e. destination_id e = dst) (rm_live s))"
    by (simp add: rm_live_def)
  show "retry_budget s' \<le> retry_budget s"
    unfolding retry_budget_def assms by (auto simp: comp_def intro!: sum_list_mono)
qed

interpretation rtm: pending_table rm_inv rm_live ACK_TRACKER_CAPACITY schedulable
  "\<lambda>s (mr, b, t) e. RetryManager_schedule s e mr b t" RetryManager_cancel RetryManager_cancel_peer
proof unfold_locales
  fix s :: retry_manager and p :: "u32 \<times> u32 \<times> u64" and e assume inv: "rm_inv s" and ok: "schedulable p e"
  obtain mr b t where p: "p = (mr, b, t)" by (cases p)
  from rm_schedule_spec [OF inv, of mr b t e] ok p
  show "returns ((\<lambda>(mr, b, t) e. RetryManager_schedule s e mr b t) p e) (\<lambda>(r, s'). rm_inv s' \<and>
        (r = OK \<and> rm_live s' = add_mset e (rm_live s) \<or> r = ERR_FULL \<and> s' = s))"
    by (auto elim!: returns_mono split: if_splits)
next
  fix s :: retry_manager and src m assume "rm_inv s" and "src \<noteq> NODE_ID_INVALID"
  with rm_cancel_spec [of s src m] show "returns (RetryManager_cancel s src m) (\<lambda>(r, s'). rm_inv s' \<and>
        (r = OK \<and> (\<exists>e \<in># rm_live s. env_key e = (src, m) \<and> rm_live s' = rm_live s - {#e#}) \<or>
         r = ERR_INVALID \<and> s' = s \<and> (\<forall>e \<in># rm_live s. env_key e \<noteq> (src, m))))"
    by (auto elim!: returns_mono)
next
  fix s :: retry_manager and dst assume "rm_inv s" and "dst \<noteq> NODE_ID_INVALID"
  with rm_cancel_peer_spec [of s dst] show "returns (RetryManager_cancel_peer s dst) (\<lambda>(n, s'). rm_inv s' \<and>
        rm_live s' = filter_mset (\<lambda>e. destination_id e \<noteq> dst) (rm_live s) \<and>
        n = size (filter_mset (\<lambda>e. destination_id e = dst) (rm_live s)))"
    by (auto elim!: returns_mono dest: rm_live_cancel_peer)
qed (simp add: rm_live_bound)

section \<open>Bounded retransmission\<close>

lemma advance_budget:
  assumes "re_fresh e" and "re_active e"
  shows "Suc (unat (re_max_retries (re_advance t e) - re_retry_count (re_advance t e))) =
    unat (re_max_retries e - re_retry_count e)"
proof -
  have lt: "re_retry_count e < re_max_retries e" using assms by (simp add: re_fresh_def)
  then have "re_retry_count e + 1 \<le> re_max_retries e" by (rule inc_le)
  moreover have "unat (re_max_retries e) < 2 ^ LENGTH(32)" by (rule unsigned_less)
  then have "unat (re_retry_count e + 1) = Suc (unat (re_retry_count e))"
    using lt by (subst unat_add_no_wrap) (simp_all add: word_less_nat_alt)
  ultimately show ?thesis
    using lt by (simp add: re_advance_def unat_diff_le less_imp_le word_less_nat_alt word_le_nat_alt)
qed

lemma advance_first_budget:
  "list_all re_fresh xs \<Longrightarrow>
   sum_list (map (\<lambda>e. if re_active e then unat (re_max_retries e - re_retry_count e) else 0) (advance_first t n xs)) +
     min n (length (filter (re_due t) xs)) =
   sum_list (map (\<lambda>e. if re_active e then unat (re_max_retries e - re_retry_count e) else 0) xs)"
proof (induction xs arbitrary: n)
  case Nil
  then show ?case by simp
next
  case (Cons e xs)
  show ?case
  proof (cases "re_due t e \<and> 0 < n")
    case True
    then obtain m where "n = Suc m" and a: "re_active e" by (cases n) (auto simp: re_due_def)
    with True Cons.IH [of m] Cons.prems advance_budget [of e t] show ?thesis
      by (simp add: re_advance_def)
  next
    case False
    with Cons.IH [of n] Cons.prems show ?thesis by auto
  qed
qed

lemma collect_due_budget:
  assumes "rm_inv s" and "now_us \<noteq> 0" and "cap \<le> 64" and "cap \<le> length buf"
  shows "returns (RetryManager_collect_due s now_us buf cap) (\<lambda>(n, buf', s'). rm_inv s' \<and>
    retry_budget s' + n \<le> retry_budget s)"
proof -
  let ?t = "rm_collect_time s now_us"
  let ?w = "\<lambda>e. if re_active e then unat (re_max_retries e - re_retry_count e) else 0"
  have fresh: "list_all re_fresh (rm_reaped ?t s)"
    using assms(1) by (auto simp: rm_inv_def rm_reaped_def list_all_iff re_reap_fresh)
  have "sum_list (map ?w (rm_reaped ?t s)) \<le> sum_list (map ?w (rm_slots s))"
    unfolding rm_reaped_def by (auto simp: comp_def re_reap_def intro!: sum_list_mono)
  with advance_first_budget [OF fresh, of ?t cap] collect_due_spec [OF assms] show ?thesis
    by (auto elim!: returns_mono simp: retry_budget_def filled_def rm_due_def)
qed

lemma rm_exec_budget:
  assumes "rm_inv s" and "rm_op_ok op"
  shows "returns (rm_exec op (n, s)) (\<lambda>(n', s'). rm_inv s' \<and> retry_budget s' + n' \<le> retry_budget s + n + rm_allowance op)"
proof (cases op)
  case (Schedule env mr b t)
  with assms rm_schedule_spec [of s mr b t env] show ?thesis
    by (auto simp: returns_map_option elim!: returns_mono split: if_splits)
next
  case (Rm_on_ack src m)
  with assms rm_on_ack_spec [of s src m] show ?thesis
    by (auto simp: returns_map_option elim!: returns_mono)
next
  case (Rm_cancel src m)
  with assms rm_cancel_spec [of s src m] show ?thesis
    by (auto simp: returns_map_option elim!: returns_mono)
next
  case (Rm_cancel_peer dst)
  with assms rm_cancel_peer_spec [of s dst] show ?thesis
    by (auto simp: returns_map_option dest!: rm_live_cancel_peer(3) elim!: returns_mono)
next
  case (Collect_due now_us buf cap)
  with assms collect_due_budget [of s now_us cap buf] show ?thesis
    by (auto simp: returns_map_option elim!: returns_mono)
qed

lemma rm_run_budget:
  assumes "rm_inv s" and "list_all rm_op_ok ops"
  shows "returns (for_each rm_exec ops (n, s)) (\<lambda>(n', s'). rm_inv s' \<and>
    retry_budget s' + n' \<le> retry_budget s + n + sum_list (map rm_allowance ops))"
  using assms
proof (induction ops arbitrary: n s)
  case Nil
  then show ?case by simp
next
  case (Cons op ops)
  from rm_exec_budget [of s op n] Cons.prems obtain n1 s1 where
    1: "rm_exec op (n, s) = Some (n1, s1)" "rm_inv s1" "retry_budget s1 + n1 \<le> retry_budget s + n + rm_allowance op"
    by (auto elim!: returnsE)
  from Cons.IH [OF 1(2), of n1] Cons.prems 1 show ?case by (auto elim!: returns_mono)
qed

text \<open>Claim C40. Over any sequence of calls from \<open>init\<close>, with well-formed arguments and at any
  times, no assertion of the manager fires, \<open>m_count\<close> is the number of active entries, and the
  total number of retransmissions handed out is at most the sum of the \<open>max_retries\<close> of the
  messages scheduled: no retry storm.\<close>

theorem retransmissions_bounded:
  assumes "list_all rm_op_ok ops" and "rm_count s0 \<le> ACK_TRACKER_CAPACITY"
  shows "returns (do { s \<leftarrow> RetryManager_init s0; for_each rm_exec ops (0, s) })
    (\<lambda>(n, s). rm_count s = length (filter re_active (rm_slots s)) \<and>
       n \<le> sum_list (map rm_allowance ops))"
proof -
  obtain s where s: "RetryManager_init s0 = Some s" "rm_inv s" "retry_budget s = 0"
    using RetryManager_init_spec [of s0] assms(2) by (auto elim: returnsE)
  from rm_run_budget [OF s(2) assms(1), of 0] s(1,3) show ?thesis
    by (auto elim!: returns_mono simp: rm_inv_def)
qed


theorem retransmissions_bounded_witness:
  "returns (do { s \<leftarrow> RetryManager_init \<lparr> rm_slots = [], rm_count = 0, rm_initialized = False,
                   rm_last_collect_us = 0, rm_stats = retry_stats_init \<rparr>;
                 for_each rm_exec [Schedule (envelope_init\<lparr> message_type := DATA, source_id := 1 \<rparr>) 3 100 5,
                                   Collect_due 6 (replicate 4 envelope_init) 4] (0, s) })
    (\<lambda>(n, s). rm_count s = length (filter re_active (rm_slots s)) \<and> n \<le> 3)"
proof -
  let ?ops = "[Schedule (envelope_init\<lparr> message_type := DATA, source_id := 1 \<rparr>) 3 100 5,
    Collect_due 6 (replicate 4 envelope_init) 4]"
  have ok: "list_all rm_op_ok ?ops"
    by (simp add: schedulable_def envelope_valid_def envelope_init_def)
  have "rm_count \<lparr> rm_slots = [], rm_count = 0, rm_initialized = False,
                   rm_last_collect_us = 0, rm_stats = retry_stats_init \<rparr> \<le> ACK_TRACKER_CAPACITY" by simp
  from retransmissions_bounded [OF ok this] show ?thesis
    by (rule returns_mono) auto
qed

text \<open>One call of \<open>collect_due\<close>: it first removes every entry that has expired or used
  up its attempts and counts each under its cause; of the remaining entries it hands out, in slot
  order and as many as fit, those whose retry time has come; each of these has its attempt counter
  incremented, its backoff doubled up to 60 s and its next retry set that far after the current
  time; all others stay as they are.\<close>

theorem collect_due_exact:
  assumes "rm_inv s" and "now_us \<noteq> 0" and "cap \<le> unat MSG_RING_CAPACITY" and "cap \<le> length buf"
  defines "t \<equiv> rm_collect_time s now_us"
  shows "returns (RetryManager_collect_due s now_us buf cap) (\<lambda>(n, buf', s'). rm_inv s' \<and>
    n = min cap (length (rm_due t s)) \<and> take n buf' = take n (map re_env (rm_due t s)) \<and>
    rm_slots s' = advance_first t cap (rm_reaped t s) \<and>
    slots_expired (rm_stats s') = slots_expired (rm_stats s) + of_nat (length (filter (re_expired t) (rm_slots s))) \<and>
    slots_exhausted (rm_stats s') = slots_exhausted (rm_stats s) + of_nat (length (filter (re_exhausted t) (rm_slots s))) \<and>
    retries_sent (rm_stats s') = retries_sent (rm_stats s) + of_nat n)"
proof -
  have "cap \<le> 64" using assms(3) by simp
  from collect_due_spec [OF assms(1,2) this assms(4), folded t_def] show ?thesis
    by (auto elim!: returns_mono simp: filled_def re_ex_count_def)
qed

lemma rm_example_inv: "rm_inv rm_example"
  by (simp add: rm_inv_def rm_example_def retry_entry_init_def re_ok_def list_all_iff)

theorem collect_due_exact_witness:
  "returns (RetryManager_collect_due rm_example 9 [envelope_init] 1) (\<lambda>(n, buf', s'). n = 1)"
proof -
  have "length (rm_due (rm_collect_time rm_example 9) rm_example) = 1"
    by (simp add: rm_due_def rm_reaped_def rm_example_def rm_collect_time_def re_due_def re_reap_def
        re_expired_def re_exhausted_def timestamp_expired_def retry_entry_init_def)
  with collect_due_exact [OF rm_example_inv, of 9 1 "[envelope_init]"] show ?thesis
    by (auto elim!: returns_mono)
qed

section \<open>Backoff\<close>

text \<open>Starting from an initial interval between 1 ms and 60 s, the interval after \<open>n\<close>
  attempts is the initial one times \<open>2^n\<close>, capped at 60 s, without wrap-around.\<close>

theorem backoff_doubles:
  assumes "0 < b" and "b \<le> 60000"
  shows "unat ((next_backoff ^^ n) b) = min 60000 (unat b * 2 ^ n) \<and>
    advance_backoff ((next_backoff ^^ n) b) = Some ((next_backoff ^^ Suc n) b)"
proof -
  have u: "unat (next_backoff x) = min 60000 (unat x * 2)" if "0 < x" "x \<le> 60000" for x
  proof (cases "x > 30000")
    case True
    then have "unat x > 30000" by (simp add: word_less_nat_alt)
    with True show ?thesis by (simp add: next_backoff_def)
  next
    case False
    then have "unat x \<le> 30000" by (simp add: word_le_nat_alt not_less)
    then have "unat (x * 2) = unat x * 2" by (simp add: unat_word_ariths)
    with False that \<open>unat x \<le> 30000\<close> show ?thesis by (simp add: next_backoff_def word_gt_0)
  qed
  have pos: "0 < unat b" using assms(1) by (simp add: word_less_nat_alt)
  have rng: "0 < (next_backoff ^^ n) b \<and> (next_backoff ^^ n) b \<le> 60000 \<and>
    unat ((next_backoff ^^ n) b) = min 60000 (unat b * 2 ^ n)" for n
  proof (induction n)
    case 0
    then show ?case using assms by (simp add: word_le_nat_alt)
  next
    case (Suc n)
    let ?x = "(next_backoff ^^ n) b"
    from u [of ?x] Suc have eq: "unat (next_backoff ?x) = min 60000 (unat b * 2 ^ Suc n)"
      by (simp add: min_def split: if_splits)
    moreover from eq pos have "0 < next_backoff ?x" by (simp add: word_less_nat_alt)
    ultimately show ?case using next_backoff_le by simp
  qed
  then show ?thesis using advance_backoff_eq by simp
qed

theorem backoff_doubles_witness: "unat ((next_backoff ^^ 3) 100) = 800"
  using backoff_doubles [of 100 3] by simp

section \<open>Inputs the retry loop does not survive\<close>

lemma for_each_fails:
  assumes "x \<in> set xs" and "I s" and "\<And>s. I s \<Longrightarrow> body x s = None"
    and "\<And>y s s'. y \<in> set xs \<Longrightarrow> I s \<Longrightarrow> body y s = Some s' \<Longrightarrow> I s'"
  shows "for_each body xs s = None"
  using assms
proof (induction xs arbitrary: s)
  case Nil
  then show ?case by simp
next
  case (Cons y ys)
  show ?case
  proof (cases "body y s")
    case None
    then show ?thesis by simp
  next
    case (Some s')
    with Cons.prems have "y \<noteq> x" "I s'" by auto
    with Cons.prems have "for_each body ys s' = None" by (intro Cons.IH) auto
    with Some show ?thesis by simp
  qed
qed

text \<open>A reliable message whose expiry time is \<open>UINT64_MAX\<close>, the value to which
  \<open>timestamp_deadline_us\<close> saturates, is accepted by \<open>schedule\<close>, and the next \<open>collect_due\<close> trips the
  sentinel assertion of \<open>slot_has_expired\<close>.\<close>

theorem collect_due_aborts_on_saturated_expiry:
  assumes "rm_inv s" and "rm_count s < ACK_TRACKER_CAPACITY" and "envelope_valid env"
    and "expiry_time_us env = timestamp_deadline_us now_us duration_ms"
    and "timestamp_deadline_us now_us duration_ms = 0xFFFFFFFFFFFFFFFF"
  shows "\<exists>s'. RetryManager_schedule s env mr b now_us = Some (OK, s') \<and>
    RetryManager_collect_due s' t buf cap = None"
proof -
  obtain i where i: "first_idx (\<lambda>e. \<not> re_active e) (rm_slots s) = Some i"
  proof (cases "first_idx (\<lambda>e. \<not> re_active e) (rm_slots s)")
    case None
    then have "rm_count s = 32" using assms(1) by (simp add: first_idx_None rm_inv_def)
    with assms(2) show ?thesis by simp
  qed
  then have lt: "i < 32" using assms(1) by (auto simp: rm_inv_def)
  let ?e = "\<lparr> re_env = env, re_next_retry_us = now_us, re_expiry_us = expiry_time_us env,
    re_retry_count = 0, re_max_retries = mr, re_backoff_ms = b, re_active = True \<rparr>"
  let ?s = "s\<lparr> rm_slots := (rm_slots s)[i := ?e], rm_count := rm_count s + 1 \<rparr>"
  have sch: "RetryManager_schedule s env mr b now_us = Some (OK, ?s)"
    using i lt assms(1-3) by (simp add: RetryManager_schedule_def rm_inv_def)
  let ?I = "\<lambda>s. length (rm_slots s) = 32 \<and> re_active (rm_slots s ! i) \<and> re_expiry_us (rm_slots s ! i) = - 1"
  have "for_each (rm_reap_slot x) [0..<32] (?s\<lparr> rm_last_collect_us := x \<rparr>) = None" for x
  proof (rule for_each_fails [where I = ?I and x = i])
    show "?I (?s\<lparr> rm_last_collect_us := x \<rparr>)" using lt assms(1,4,5) by (simp add: rm_inv_def)
    show "rm_reap_slot x i s = None" if "?I s" for s
      using that by (simp add: rm_reap_slot_def slot_has_expired_def)
    show "?I s'" if "?I s" "rm_reap_slot x y s = Some s'" for y s s'
      using that lt
      by (cases "y = i") (auto simp: rm_reap_slot_def slot_has_expired_def rm_deactivate_def nc_assert_def Let_def
          split: if_splits bind_splits)
  qed (use lt in auto)
  then have "RetryManager_collect_due ?s t buf cap = None"
    by (simp add: RetryManager_collect_due_def RetryManager_reap_terminated_slots_def Let_def nc_assert_def
        del: upt_rec_numeral)
  with sch show ?thesis by blast
qed


theorem collect_due_aborts_on_saturated_expiry_witness:
  "\<exists>s'. RetryManager_schedule rm_example
        (envelope_init\<lparr> message_type := DATA, source_id := 1, expiry_time_us := 0xFFFFFFFFFFFFFFFF \<rparr>) 3 100 0xFFFFFFFFFFFFFFF0 =
      Some (OK, s') \<and> RetryManager_collect_due s' 0xFFFFFFFFFFFFFFF1 [envelope_init] 1 = None"
  by (rule collect_due_aborts_on_saturated_expiry [OF rm_example_inv, where duration_ms = 5])
     (simp_all add: rm_example_def envelope_valid_def envelope_init_def timestamp_deadline_us_def)

end
