(* ===== verification/Fragmentation.thy ===== *)
theory Fragmentation
  imports MessageEnvelope
begin

text \<open>
  \<open>src/core/Fragmentation.cpp\<close>: a logical message whose payload exceeds 1024 bytes is sent as up to
  four wire fragments.
\<close>

definition needs_fragmentation :: "envelope \<Rightarrow> bool option" where
  "needs_fragmentation env = do {
     nc_assert (payload_length env \<le> MSG_MAX_PAYLOAD_BYTES);
     Some (payload_length env > FRAG_MAX_PAYLOAD_BYTES)
   }"

text \<open>One iteration of the loop of \<open>fragment_message\<close>; \<open>out_frags\<close> is the caller's array.\<close>

definition produce_fragment ::
    "envelope \<Rightarrow> u32 \<Rightarrow> nat \<Rightarrow> u32 \<times> envelope list \<Rightarrow> (u32 \<times> envelope list) option" where
  "produce_fragment logical frag_count i = (\<lambda>(offset, out_frags). do {
     let remaining = payload_length logical - offset;
     let frag_payload = (if remaining > FRAG_MAX_PAYLOAD_BYTES then FRAG_MAX_PAYLOAD_BYTES else remaining);
     let f = logical\<lparr> fragment_index := of_nat i, fragment_count := ucast frag_count,
                      total_payload_length := ucast (payload_length logical), payload_length := frag_payload \<rparr>;
     let f = (if frag_payload > 0
              then f\<lparr> payload := blit (payload f) 0
                       (take (unat frag_payload) (drop (unat offset) (payload logical))) \<rparr>
              else f);
     Some (offset + frag_payload, out_frags[i := f])
   })"

definition fragment_message :: "envelope \<Rightarrow> envelope list \<Rightarrow> nat \<Rightarrow> (nat \<times> envelope list) option" where
  "fragment_message logical out_frags out_cap = do {
     nc_assert (out_cap \<ge> unat FRAG_MAX_COUNT);
     if payload_length logical > MSG_MAX_PAYLOAD_BYTES then Some (0, out_frags)
     else if out_cap < unat FRAG_MAX_COUNT then Some (0, out_frags)
     else do {
       let frag_count = (if payload_length logical = 0 then 1
                         else (payload_length logical + FRAG_MAX_PAYLOAD_BYTES - 1) div FRAG_MAX_PAYLOAD_BYTES);
       nc_assert (frag_count \<ge> 1);
       nc_assert (frag_count \<le> FRAG_MAX_COUNT);
       (offset, out_frags) \<leftarrow> for_each (produce_fragment logical frag_count) [0..<unat frag_count] (0, out_frags);
       nc_assert (offset = payload_length logical);
       Some (unat frag_count, out_frags)
     }
   }"

section \<open>Reference definition\<close>

definition frag_total :: "nat \<Rightarrow> nat" where
  "frag_total len = (if len = 0 then 1 else (len + 1023) div 1024)"

definition frag_slice :: "nat \<Rightarrow> 'a list \<Rightarrow> 'a list" where
  "frag_slice i xs = take 1024 (drop (1024 * i) xs)"

text \<open>What it means for \<open>f\<close> to be fragment \<open>i\<close> of a logical message: the fields the receiver reads.\<close>

definition is_fragment_of :: "envelope \<Rightarrow> nat \<Rightarrow> envelope \<Rightarrow> bool" where
  "is_fragment_of logical i f \<longleftrightarrow>
     i < frag_total (unat (payload_length logical)) \<and> env_wf f \<and>
     source_id f = source_id logical \<and> message_id f = message_id logical \<and>
     fragment_index f = of_nat i \<and>
     fragment_count f = of_nat (frag_total (unat (payload_length logical))) \<and>
     total_payload_length f = ucast (payload_length logical) \<and>
     payload_length f = of_nat (length (frag_slice i (payload_bytes logical))) \<and>
     payload_bytes f = frag_slice i (payload_bytes logical)"

text \<open>The remaining header fields, which every fragment copies.\<close>

definition same_header :: "envelope \<Rightarrow> envelope \<Rightarrow> bool" where
  "same_header a b \<longleftrightarrow> timestamp_us a = timestamp_us b \<and> expiry_time_us a = expiry_time_us b \<and>
     destination_id a = destination_id b \<and> sequence_num a = sequence_num b \<and>
     message_type a = message_type b \<and> priority a = priority b \<and>
     reliability_class a = reliability_class b"

section \<open>Slices\<close>

lemma length_slice: "length (frag_slice i xs) = min 1024 (length xs - 1024 * i)"
  by (simp add: frag_slice_def)

lemma slice_le [simp]: "length (frag_slice i xs) \<le> 1024"
  by (simp add: frag_slice_def)

lemma nth_slice: "r < length (frag_slice i xs) \<Longrightarrow> frag_slice i xs ! r = xs ! (1024 * i + r)"
  by (auto simp: frag_slice_def)

lemma frag_total_bounds: "len \<le> 4096 \<Longrightarrow> 1 \<le> frag_total len \<and> frag_total len \<le> 4"
  by (auto simp: frag_total_def)

lemma frag_total_mult: "len \<le> 1024 * frag_total len"
proof -
  have "(len + 1023) div 1024 * 1024 + (len + 1023) mod 1024 = len + 1023" by (rule div_mult_mod_eq)
  moreover have "(len + 1023) mod 1024 < 1024" by simp
  ultimately have "len \<le> (len + 1023) div 1024 * 1024" by linarith
  then show ?thesis by (simp add: frag_total_def mult.commute)
qed

lemma frag_total_covers: "j < len \<Longrightarrow> j div 1024 < frag_total len"
  by (simp add: frag_total_def)

lemma sum_slices: "n \<ge> frag_total (length xs) \<Longrightarrow> (\<Sum>i<n. length (frag_slice i xs)) = length xs"
proof -
  have "(\<Sum>i<n. length (frag_slice i xs)) = min (1024 * n) (length xs)" for n
    by (induction n) (auto simp: length_slice min_def)
  moreover assume "n \<ge> frag_total (length xs)"
  then have "length xs \<le> 1024 * n" by (simp add: frag_total_def split: if_splits)
  ultimately show ?thesis by simp
qed

text \<open>A buffer that agrees with a message on all its slices holds the message.\<close>

lemma slices_determine:
  assumes "length xs \<le> length buf"
    and "\<And>i. i < frag_total (length xs) \<Longrightarrow> take (length (frag_slice i xs)) (drop (1024 * i) buf) = frag_slice i xs"
  shows "take (length xs) buf = xs"
proof (rule nth_equalityI)
  show "length (take (length xs) buf) = length xs" using assms(1) by simp
  fix j assume "j < length (take (length xs) buf)"
  then have j: "j < length xs" by simp
  let ?i = "j div 1024" and ?r = "j mod 1024"
  have jr: "j = 1024 * ?i + ?r" by simp
  have r: "?r < length (frag_slice ?i xs)" using j by (simp add: length_slice minus_mult_div_eq_mod [symmetric] diff_less_mono)
  have "frag_slice ?i xs ! ?r = buf ! (1024 * ?i + ?r)"
    by (subst assms(2) [OF frag_total_covers [OF j], symmetric])
       (use r j assms(1) in \<open>simp add: nth_drop\<close>)
  with r nth_slice [OF r] j jr show "take (length xs) buf ! j = xs ! j" by simp
qed


section \<open>Splitting\<close>

lemma frag_count_eq:
  assumes "len \<le> MSG_MAX_PAYLOAD_BYTES"
  shows "unat (if len = 0 then 1 else (len + FRAG_MAX_PAYLOAD_BYTES - 1) div FRAG_MAX_PAYLOAD_BYTES) =
    frag_total (unat len)"
proof (cases "len = 0")
  case False
  have le: "unat len \<le> 4096" using assms by (simp add: word_le_nat_alt)
  have "len + FRAG_MAX_PAYLOAD_BYTES - 1 = len + 1023" by simp
  moreover have "unat ((len + 1023) div 1024) = unat (len + 1023) div 1024" by (simp add: unat_div)
  moreover have "unat (len + 1023) = unat len + 1023" using le by (subst unat_add_no_wrap) simp_all
  moreover have "unat len \<noteq> 0" using False by (simp add: unat_eq_0)
  ultimately show ?thesis using False by (simp add: frag_total_def add.commute [of 1023])
qed (simp add: frag_total_def)

lemma produce_fragment_spec:
  assumes wf: "env_wf logical" and len: "payload_length logical \<le> MSG_MAX_PAYLOAD_BYTES"
    and k: "k < frag_total (unat (payload_length logical))"
    and cnt: "unat n = frag_total (unat (payload_length logical))"
    and off: "unat offset = min (unat (payload_length logical)) (1024 * k)" and "k < length out"
  shows "\<exists>offset' f. produce_fragment logical n k (offset, out) = Some (offset', out[k := f]) \<and>
    is_fragment_of logical k f \<and> same_header f logical \<and>
    unat offset' = min (unat (payload_length logical)) (1024 * Suc k)"
proof -
  let ?L = "unat (payload_length logical)" and ?p = "payload logical"
  have L: "?L \<le> 4096" "length ?p = 4096"
    using len wf by (simp_all add: word_le_nat_alt env_wf_def)
  have kL: "k < 4" using k frag_total_bounds [OF L(1)] by linarith
  have offL: "unat offset = 1024 * k" using off k by (simp add: frag_total_def min_def split: if_splits)
  define rem where "rem = payload_length logical - offset"
  have rem: "unat rem = ?L - 1024 * k"
    unfolding rem_def using off offL by (subst unat_diff_le) (simp_all add: word_le_nat_alt)
  define fp where "fp = (if rem > FRAG_MAX_PAYLOAD_BYTES then FRAG_MAX_PAYLOAD_BYTES else rem)"
  have fp: "unat fp = min 1024 (?L - 1024 * k)"
    using rem by (simp add: fp_def word_less_nat_alt min_def)
  have bytes: "take (unat fp) (drop (unat offset) ?p) = frag_slice k (payload_bytes logical)"
    using fp offL L by (simp add: frag_slice_def payload_bytes_def drop_take min.commute)
  let ?f = "logical\<lparr> fragment_index := of_nat k, fragment_count := ucast n,
      total_payload_length := ucast (payload_length logical), payload_length := fp \<rparr>"
  let ?g = "?f\<lparr> payload := blit ?p 0 (frag_slice k (payload_bytes logical)) \<rparr>"
  have sl: "length (frag_slice k (payload_bytes logical)) = unat fp"
    using fp L by (simp add: length_slice payload_bytes_def)
  have g: "(if fp > 0 then ?f\<lparr> payload := blit (payload ?f) 0 (take (unat fp) (drop (unat offset) ?p)) \<rparr> else ?f) = ?g"
    using bytes sl by (auto simp: word_gt_0)
  have run: "produce_fragment logical n k (offset, out) = Some (offset + fp, out[k := ?g])"
    unfolding produce_fragment_def Let_def prod.case rem_def [symmetric] fp_def [symmetric] using g by simp
  have "fp = of_nat (unat fp)" by simp
  moreover have "ucast n = (of_nat (frag_total ?L) :: u8)"
    unfolding cnt [symmetric] by simp
  moreover have "payload_bytes ?g = frag_slice k (payload_bytes logical)"
    using sl by (simp add: payload_bytes_def blit_def)
  moreover have "env_wf ?g" using L sl fp by (simp add: env_wf_def)
  ultimately have "is_fragment_of logical k ?g" using k sl by (simp add: is_fragment_of_def)
  moreover have "unat (offset + fp) = min ?L (1024 * Suc k)"
    using fp offL off L kL by (subst unat_add_no_wrap) (auto simp: min_def split: if_splits)
  ultimately show ?thesis using run by (fastforce simp: same_header_def)
qed

lemma fragment_message_spec:
  assumes "env_wf logical" and "payload_length logical \<le> MSG_MAX_PAYLOAD_BYTES"
    and "4 \<le> cap" and "4 \<le> length out"
  shows "returns (fragment_message logical out cap) (\<lambda>(n, out').
    n = frag_total (unat (payload_length logical)) \<and> length out' = length out \<and>
    (\<forall>i < n. is_fragment_of logical i (out' ! i) \<and> same_header (out' ! i) logical))"
proof -
  let ?L = "unat (payload_length logical)"
  let ?n = "if payload_length logical = 0 then 1
    else (payload_length logical + FRAG_MAX_PAYLOAD_BYTES - 1) div FRAG_MAX_PAYLOAD_BYTES"
  have cnt: "unat ?n = frag_total ?L" by (rule frag_count_eq [OF assms(2)])
  have L: "?L \<le> 4096" using assms(2) by (simp add: word_le_nat_alt)
  note b = frag_total_bounds [OF L]
  have n: "?n \<ge> 1" "?n \<le> FRAG_MAX_COUNT" using b cnt by (simp_all only: word_le_nat_alt) simp_all
  let ?P = "\<lambda>k (offset :: u32, o'). unat offset = min ?L (1024 * k) \<and> length o' = length out \<and>
    (\<forall>i < k. is_fragment_of logical i (o' ! i) \<and> same_header (o' ! i) logical)"
  have "returns (for_each (produce_fragment logical ?n) [0..<unat ?n] (0, out)) (?P (unat ?n))"
  proof (rule for_each_upt [where P = ?P])
    show "?P 0 (0, out)" by simp
    fix k x assume k: "k < unat ?n" and P: "?P k x"
    obtain offset o' where x: "x = (offset, o')" by (cases x)
    from produce_fragment_spec [OF assms(1,2) _ cnt, of k offset o'] k P x cnt b assms(4) obtain offset' f where
      "produce_fragment logical ?n k x = Some (offset', o'[k := f])" "is_fragment_of logical k f"
      "same_header f logical" "unat offset' = min ?L (1024 * Suc k)"
      by auto
    with P x k b cnt assms(4) show "returns (produce_fragment logical ?n k x) (?P (Suc k))"
      by (auto simp: less_Suc_eq nth_list_update)
  qed
  then obtain offset out' where
    1: "for_each (produce_fragment logical ?n) [0..<unat ?n] (0, out) = Some (offset, out')" "?P (unat ?n) (offset, out')"
    by (auto elim: returnsE)
  have "?L \<le> 1024 * frag_total ?L" by (rule frag_total_mult)
  with 1(2) cnt have "unat offset = ?L" by simp
  then have "offset = payload_length logical" by (simp add: word_unat_eq_iff)
  then have "fragment_message logical out cap = Some (unat ?n, out')"
    unfolding fragment_message_def using 1(1) n assms(2,3)
    by (simp only: Let_def bind.bind_lunit prod.case nc_assert_def if_True) (simp add: not_less [symmetric])
  with 1(2) cnt show ?thesis by simp
qed


text \<open>\<open>fragment_message\<close> splits every well-formed message: between one and four fragments,
  numbered in order, each with the message's header fields, key, fragment count and total length,
  each payload at most 1024 bytes, and the payloads joined in order are the message's payload. No
  assertion fires.\<close>

theorem fragment_message_splits:
  assumes "env_wf logical" and "payload_length logical \<le> MSG_MAX_PAYLOAD_BYTES"
    and "unat FRAG_MAX_COUNT \<le> cap" and "cap \<le> length out"
  shows "returns (fragment_message logical out cap) (\<lambda>(n, out'). 1 \<le> n \<and> n \<le> unat FRAG_MAX_COUNT \<and>
    (\<forall>i < n. is_fragment_of logical i (out' ! i) \<and> same_header (out' ! i) logical \<and>
             payload_length (out' ! i) \<le> FRAG_MAX_PAYLOAD_BYTES) \<and>
    concat (map (\<lambda>i. payload_bytes (out' ! i)) [0..<n]) = payload_bytes logical)"
proof -
  let ?x = "payload_bytes logical" and ?L = "unat (payload_length logical)"
  have L: "?L \<le> 4096" "length ?x = ?L"
    using assms(1,2) by (simp_all add: word_le_nat_alt length_payload_bytes)
  have le: "payload_length f \<le> FRAG_MAX_PAYLOAD_BYTES" if "is_fragment_of logical i f" for i f
    using that slice_le [of i ?x] by (auto simp: is_fragment_of_def word_le_nat_alt unat_of_nat intro: le_trans [OF mod_less_eq_dividend])
  have cc: "concat (map (\<lambda>i. frag_slice i ?x) [0..<n]) = take (1024 * n) ?x" for n
    by (induction n) (simp_all add: frag_slice_def take_add [symmetric] add.commute)
  have cover: "length ?x \<le> 1024 * frag_total ?L"
    using frag_total_mult [of ?L] L(2) by simp
  have "concat (map (\<lambda>i. payload_bytes (out' ! i)) [0..<frag_total ?L]) = ?x"
    if "\<forall>i < frag_total ?L. is_fragment_of logical i (out' ! i)" for out'
  proof -
    have "map (\<lambda>i. payload_bytes (out' ! i)) [0..<frag_total ?L] = map (\<lambda>i. frag_slice i ?x) [0..<frag_total ?L]"
      using that by (auto simp: is_fragment_of_def)
    then show ?thesis using cc [of "frag_total ?L"] cover by (simp only: take_all)
  qed
  note cat = this
  have "4 \<le> cap" "4 \<le> length out" using assms(3,4) by simp_all
  from fragment_message_spec [OF assms(1,2) this] show ?thesis
    by (rule returns_mono) (use frag_total_bounds [OF L(1)] le cat in auto)
qed

theorem fragment_message_splits_witness:
  "returns (fragment_message (envelope_init\<lparr> payload_length := 2500 \<rparr>) (replicate 4 envelope_init) 4)
     (\<lambda>(n, out'). n \<le> 4 \<and> concat (map (\<lambda>i. payload_bytes (out' ! i)) [0..<n]) =
        payload_bytes (envelope_init\<lparr> payload_length := 2500 \<rparr>))"
proof -
  have "env_wf (envelope_init\<lparr> payload_length := 2500 \<rparr>)" by (simp add: env_wf_def envelope_init_def)
  then show ?thesis
    using fragment_message_splits [of "envelope_init\<lparr> payload_length := 2500 \<rparr>" 4 "replicate 4 envelope_init"]
    by (auto elim!: returns_mono)
qed

end
