(* ===== verification/ReassemblyBuffer.thy ===== *)
theory ReassemblyBuffer
  imports Fragmentation
begin

text \<open>
  \<open>src/core/ReassemblyBuffer.cpp\<close>: up to eight messages under reassembly, at most four per source,
  each with a bitmask of the fragments received and an accumulation buffer. The three fields that
  the code resets when a slot is released are reset here too (\<open>sl_release\<close>, and the variants of the
  two sweeps).
\<close>

definition k_reasm_per_src_max :: nat where [simp]: "k_reasm_per_src_max = REASSEMBLY_SLOT_COUNT div 2"

record reasm_slot =
  sl_message_id :: u64
  sl_source_id :: NodeId
  sl_buf :: "u8 list"
  sl_received_mask :: u32
  sl_received_bytes :: u32
  sl_expected_count :: u8
  sl_total_length :: u16
  sl_expiry_us :: u64
  sl_open_time_us :: u64
  sl_header :: envelope
  sl_active :: bool

record reasm_buffer =
  rx_slots :: "reasm_slot list"
  rx_initialized :: bool

text \<open>\<open>init\<close> leaves \<open>buf\<close> and \<open>received_bytes\<close> as they are.\<close>

definition sl_init :: "reasm_slot \<Rightarrow> reasm_slot" where
  "sl_init x = x\<lparr> sl_active := False, sl_message_id := 0, sl_source_id := 0, sl_received_mask := 0,
     sl_expected_count := 0, sl_total_length := 0, sl_expiry_us := 0, sl_open_time_us := 0,
     sl_header := envelope_init \<rparr>"

definition ReassemblyBuffer_init :: "reasm_buffer \<Rightarrow> reasm_buffer option" where
  "ReassemblyBuffer_init s = do {
     let s = \<lparr> rx_slots = map sl_init (rx_slots s), rx_initialized = True \<rparr>;
     nc_assert (rx_initialized s);
     Some s
   }"

definition sl_matches :: "NodeId \<Rightarrow> u64 \<Rightarrow> reasm_slot \<Rightarrow> bool" where
  "sl_matches src mid x \<longleftrightarrow> sl_active x \<and> sl_source_id x = src \<and> sl_message_id x = mid"

definition ReassemblyBuffer_find_slot :: "reasm_buffer \<Rightarrow> NodeId \<Rightarrow> u64 \<Rightarrow> nat option option" where
  "ReassemblyBuffer_find_slot s src mid = do {
     nc_assert (rx_initialized s);
     nc_assert (src \<noteq> 0);
     Some (first_idx (sl_matches src mid) (rx_slots s))
   }"

definition ReassemblyBuffer_find_free_slot :: "reasm_buffer \<Rightarrow> nat option option" where
  "ReassemblyBuffer_find_free_slot s = do {
     nc_assert (rx_initialized s);
     Some (first_idx (\<lambda>x. \<not> sl_active x) (rx_slots s))
   }"

definition ReassemblyBuffer_count_open_slots_for_src :: "reasm_buffer \<Rightarrow> NodeId \<Rightarrow> nat option" where
  "ReassemblyBuffer_count_open_slots_for_src s src = do {
     nc_assert (rx_initialized s);
     nc_assert (src \<noteq> 0);
     let count = length (filter (\<lambda>x. sl_active x \<and> sl_source_id x = src) (rx_slots s));
     nc_assert (count \<le> REASSEMBLY_SLOT_COUNT);
     Some count
   }"

definition ReassemblyBuffer_open_slot :: "reasm_buffer \<Rightarrow> nat \<Rightarrow> envelope \<Rightarrow> u64 \<Rightarrow> reasm_buffer option" where
  "ReassemblyBuffer_open_slot s idx frag now_us = do {
     nc_assert (idx < REASSEMBLY_SLOT_COUNT);
     nc_assert (\<not> sl_active (rx_slots s ! idx));
     nc_assert (ucast (total_payload_length frag) \<le> MSG_MAX_PAYLOAD_BYTES);
     let s = s\<lparr> rx_slots := (rx_slots s)[idx := \<lparr> sl_message_id = message_id frag,
               sl_source_id = source_id frag, sl_buf = replicate payload_capacity 0,
               sl_received_mask = 0, sl_received_bytes = 0, sl_expected_count = fragment_count frag,
               sl_total_length = total_payload_length frag, sl_expiry_us = expiry_time_us frag,
               sl_open_time_us = now_us, sl_header = frag, sl_active = True \<rparr>] \<rparr>;
     nc_assert (sl_active (rx_slots s ! idx));
     Some s
   }"

definition ReassemblyBuffer_validate_fragment :: "reasm_buffer \<Rightarrow> nat \<Rightarrow> envelope \<Rightarrow> Result option" where
  "ReassemblyBuffer_validate_fragment s idx frag = do {
     nc_assert (idx < REASSEMBLY_SLOT_COUNT);
     nc_assert (sl_active (rx_slots s ! idx));
     if fragment_count frag \<noteq> sl_expected_count (rx_slots s ! idx) then Some ERR_INVALID
     else if total_payload_length frag \<noteq> sl_total_length (rx_slots s ! idx) then Some ERR_INVALID
     else Some OK
   }"

text \<open>The copy happens before the check of the accumulated byte count, as in the code.\<close>

definition ReassemblyBuffer_record_fragment ::
    "reasm_buffer \<Rightarrow> nat \<Rightarrow> envelope \<Rightarrow> (Result \<times> reasm_buffer) option" where
  "ReassemblyBuffer_record_fragment s idx frag = do {
     nc_assert (idx < REASSEMBLY_SLOT_COUNT);
     nc_assert (ucast (fragment_index frag) < FRAG_MAX_COUNT);
     let byte_offset = ucast (fragment_index frag) * FRAG_MAX_PAYLOAD_BYTES;
     if byte_offset > MSG_MAX_PAYLOAD_BYTES then Some (ERR_INVALID, s)
     else if payload_length frag > 0 \<and> payload_length frag > MSG_MAX_PAYLOAD_BYTES - byte_offset
     then Some (ERR_INVALID, s)
     else do {
       let s = (if payload_length frag > 0
                then s\<lparr> rx_slots := (rx_slots s)[idx := (rx_slots s ! idx)\<lparr> sl_buf :=
                         blit (sl_buf (rx_slots s ! idx)) (unat byte_offset)
                              (take (unat (payload_length frag)) (payload frag)) \<rparr>] \<rparr>
                else s);
       if payload_length frag > MSG_MAX_PAYLOAD_BYTES - sl_received_bytes (rx_slots s ! idx)
       then Some (ERR_INVALID, s)
       else Some (OK, s\<lparr> rx_slots := (rx_slots s)[idx := (rx_slots s ! idx)\<lparr>
              sl_received_bytes := sl_received_bytes (rx_slots s ! idx) + payload_length frag,
              sl_received_mask := sl_received_mask (rx_slots s ! idx) OR push_bit (unat (fragment_index frag)) 1 \<rparr>] \<rparr>)
     }
   }"

definition ReassemblyBuffer_is_complete :: "reasm_buffer \<Rightarrow> nat \<Rightarrow> bool option" where
  "ReassemblyBuffer_is_complete s idx = do {
     nc_assert (idx < REASSEMBLY_SLOT_COUNT);
     nc_assert (sl_active (rx_slots s ! idx));
     let cnt = sl_expected_count (rx_slots s ! idx);
     nc_assert (cnt \<ge> 1 \<and> cnt \<le> ucast FRAG_MAX_COUNT);
     let expected_mask = push_bit (unat cnt) (1 :: u32) - 1;
     Some (sl_received_mask (rx_slots s ! idx) AND expected_mask = expected_mask)
   }"

definition sl_release :: "reasm_slot \<Rightarrow> reasm_slot" where
  "sl_release x = x\<lparr> sl_active := False, sl_received_mask := 0, sl_expected_count := 0, sl_received_bytes := 0 \<rparr>"

definition ReassemblyBuffer_assemble_and_free ::
    "reasm_buffer \<Rightarrow> nat \<Rightarrow> envelope \<Rightarrow> (Result \<times> envelope \<times> reasm_buffer) option" where
  "ReassemblyBuffer_assemble_and_free s idx logical_out = do {
     nc_assert (idx < REASSEMBLY_SLOT_COUNT);
     nc_assert (sl_active (rx_slots s ! idx));
     let x = rx_slots s ! idx;
     if sl_received_bytes x \<noteq> ucast (sl_total_length x) then do {
       let s = s\<lparr> rx_slots := (rx_slots s)[idx := sl_release x] \<rparr>;
       nc_assert (\<not> sl_active (rx_slots s ! idx));
       Some (ERR_INVALID, logical_out, s)
     }
     else do {
       let out = (sl_header x)\<lparr> payload_length := ucast (sl_total_length x), fragment_index := 0,
                   fragment_count := 1, total_payload_length := sl_total_length x \<rparr>;
       let out = (if payload_length out > 0
                  then out\<lparr> payload := blit (payload out) 0 (take (unat (payload_length out)) (sl_buf x)) \<rparr>
                  else out);
       let s = s\<lparr> rx_slots := (rx_slots s)[idx := sl_release x] \<rparr>;
       nc_assert (\<not> sl_active (rx_slots s ! idx));
       Some (OK, out, s)
     }
   }"

definition ReassemblyBuffer_validate_metadata :: "reasm_buffer \<Rightarrow> envelope \<Rightarrow> Result option" where
  "ReassemblyBuffer_validate_metadata s frag = do {
     nc_assert (rx_initialized s);
     nc_assert (source_id frag \<noteq> 0);
     if fragment_index frag \<ge> (if fragment_count frag = 0 then 1 else fragment_count frag) then Some ERR_INVALID
     else if ucast (fragment_count frag) > FRAG_MAX_COUNT then Some ERR_INVALID
     else if ucast (total_payload_length frag) > MSG_MAX_PAYLOAD_BYTES then Some ERR_INVALID
     else Some OK
   }"

definition ReassemblyBuffer_find_or_open_slot ::
    "reasm_buffer \<Rightarrow> envelope \<Rightarrow> nat \<Rightarrow> u64 \<Rightarrow> (Result \<times> nat \<times> reasm_buffer) option" where
  "ReassemblyBuffer_find_or_open_slot s frag idx_out now_us = do {
     nc_assert (rx_initialized s);
     nc_assert (source_id frag \<noteq> 0);
     found \<leftarrow> ReassemblyBuffer_find_slot s (source_id frag) (message_id frag);
     case found of
       None \<Rightarrow> do {
         n \<leftarrow> ReassemblyBuffer_count_open_slots_for_src s (source_id frag);
         if n \<ge> k_reasm_per_src_max then Some (ERR_FULL, idx_out, s)
         else do {
           free \<leftarrow> ReassemblyBuffer_find_free_slot s;
           case free of
             None \<Rightarrow> Some (ERR_FULL, idx_out, s)
           | Some idx \<Rightarrow> do {
               s \<leftarrow> ReassemblyBuffer_open_slot s idx frag now_us;
               Some (OK, idx, s)
             }
         }
       }
     | Some idx \<Rightarrow> do {
         vr \<leftarrow> ReassemblyBuffer_validate_fragment s idx frag;
         if vr \<noteq> OK then Some (vr, idx_out, s) else Some (OK, idx, s)
       }
   }"

definition ReassemblyBuffer_ingest_multifrag ::
    "reasm_buffer \<Rightarrow> envelope \<Rightarrow> envelope \<Rightarrow> u64 \<Rightarrow> (Result \<times> envelope \<times> reasm_buffer) option" where
  "ReassemblyBuffer_ingest_multifrag s frag logical_out now_us = do {
     nc_assert (rx_initialized s);
     nc_assert (fragment_count frag > 1);
     (slot_res, idx, s) \<leftarrow> ReassemblyBuffer_find_or_open_slot s frag 0 now_us;
     if slot_res \<noteq> OK then Some (slot_res, logical_out, s)
     else do {
       let bit = push_bit (unat (fragment_index frag)) (1 :: u32);
       if sl_received_mask (rx_slots s ! idx) AND bit \<noteq> 0 then Some (ERR_AGAIN, logical_out, s)
       else do {
         (rec_r, s) \<leftarrow> ReassemblyBuffer_record_fragment s idx frag;
         if rec_r \<noteq> OK then do {
           let s = s\<lparr> rx_slots := (rx_slots s)[idx := sl_release (rx_slots s ! idx)] \<rparr>;
           nc_assert (\<not> sl_active (rx_slots s ! idx));
           Some (rec_r, logical_out, s)
         }
         else do {
           complete \<leftarrow> ReassemblyBuffer_is_complete s idx;
           if \<not> complete then Some (ERR_AGAIN, logical_out, s)
           else do {
             (asm_r, logical_out, s) \<leftarrow> ReassemblyBuffer_assemble_and_free s idx logical_out;
             if asm_r \<noteq> OK then Some (asm_r, logical_out, s)
             else do {
               nc_assert (payload_length logical_out \<le> MSG_MAX_PAYLOAD_BYTES);
               Some (OK, logical_out, s)
             }
           }
         }
       }
     }
   }"

definition ReassemblyBuffer_ingest ::
    "reasm_buffer \<Rightarrow> envelope \<Rightarrow> envelope \<Rightarrow> u64 \<Rightarrow> (Result \<times> envelope \<times> reasm_buffer) option" where
  "ReassemblyBuffer_ingest s frag logical_out now_us = do {
     nc_assert (rx_initialized s);
     nc_assert (source_id frag \<noteq> 0);
     meta_res \<leftarrow> ReassemblyBuffer_validate_metadata s frag;
     if meta_res \<noteq> OK then Some (meta_res, logical_out, s)
     else if fragment_count frag \<le> 1 then Some (OK, frag, s)
     else ReassemblyBuffer_ingest_multifrag s frag logical_out now_us
   }"

definition ReassemblyBuffer_sweep_stale :: "reasm_buffer \<Rightarrow> u64 \<Rightarrow> u64 \<Rightarrow> (nat \<times> reasm_buffer) option" where
  "ReassemblyBuffer_sweep_stale s now_us stale_threshold_us = do {
     nc_assert (rx_initialized s);
     if stale_threshold_us = 0 then Some (0, s)
     else do {
       (freed, s) \<leftarrow> for_each (\<lambda>i (freed, s).
         if \<not> sl_active (rx_slots s ! i) then Some (freed, s)
         else if now_us \<ge> sl_open_time_us (rx_slots s ! i) \<and>
                 now_us - sl_open_time_us (rx_slots s ! i) \<ge> stale_threshold_us
         then Some (freed + 1, s\<lparr> rx_slots := (rx_slots s)[i := (rx_slots s ! i)\<lparr> sl_active := False,
                sl_received_mask := 0, sl_expected_count := 0, sl_open_time_us := 0 \<rparr>] \<rparr>)
         else Some (freed, s)) [0..<REASSEMBLY_SLOT_COUNT] (0, s);
       nc_assert (freed \<le> REASSEMBLY_SLOT_COUNT);
       Some (freed, s)
     }
   }"

definition ReassemblyBuffer_sweep_expired :: "reasm_buffer \<Rightarrow> u64 \<Rightarrow> reasm_buffer option" where
  "ReassemblyBuffer_sweep_expired s now_us = do {
     nc_assert (rx_initialized s);
     nc_assert (now_us > 0);
     for_each (\<lambda>i s.
         if \<not> sl_active (rx_slots s ! i) then Some s
         else if sl_expiry_us (rx_slots s ! i) \<noteq> 0 \<and> sl_expiry_us (rx_slots s ! i) \<le> now_us
         then Some (s\<lparr> rx_slots := (rx_slots s)[i := (rx_slots s ! i)\<lparr> sl_active := False,
                sl_received_mask := 0, sl_expected_count := 0 \<rparr>] \<rparr>)
         else Some s) [0..<REASSEMBLY_SLOT_COUNT] s
   }"

section \<open>Invariant\<close>

text \<open>An open slot has between two and four expected fragments, a declared length within the
  capacity, and its accumulation buffer has its full size.\<close>

definition slot_ok :: "reasm_slot \<Rightarrow> bool" where
  "slot_ok x \<longleftrightarrow> (sl_active x \<longrightarrow> 2 \<le> sl_expected_count x \<and> sl_expected_count x \<le> 4 \<and>
     sl_total_length x \<le> 4096 \<and> length (sl_buf x) = payload_capacity \<and> sl_received_bytes x \<le> 4096 \<and>
     sl_source_id x \<noteq> 0 \<and> env_wf (sl_header x) \<and>
     source_id (sl_header x) = sl_source_id x \<and> message_id (sl_header x) = sl_message_id x)"

definition rx_open_for :: "reasm_buffer \<Rightarrow> NodeId \<Rightarrow> nat" where
  "rx_open_for s src = length (filter (\<lambda>x. sl_active x \<and> sl_source_id x = src) (rx_slots s))"

text \<open>At most one open slot per message, at most four per source.\<close>

definition rx_inv :: "reasm_buffer \<Rightarrow> bool" where
  "rx_inv s \<longleftrightarrow> length (rx_slots s) = 8 \<and> rx_initialized s \<and> list_all slot_ok (rx_slots s) \<and>
     (\<forall>src. rx_open_for s src \<le> 4) \<and>
     (\<forall>i < 8. \<forall>j < 8. sl_active (rx_slots s ! i) \<and> sl_active (rx_slots s ! j) \<and>
        sl_source_id (rx_slots s ! i) = sl_source_id (rx_slots s ! j) \<and>
        sl_message_id (rx_slots s ! i) = sl_message_id (rx_slots s ! j) \<longrightarrow> i = j)"

text \<open>The metadata checks of \<open>ingest\<close>, and what recording a fragment does to its slot.\<close>

definition metadata_ok :: "envelope \<Rightarrow> bool" where
  "metadata_ok f \<longleftrightarrow> fragment_index f < (if fragment_count f = 0 then 1 else fragment_count f) \<and>
     fragment_count f \<le> 4 \<and> total_payload_length f \<le> 4096"

definition frag_offset :: "envelope \<Rightarrow> nat" where
  "frag_offset f = 1024 * unat (fragment_index f)"

definition sl_record :: "reasm_slot \<Rightarrow> envelope \<Rightarrow> reasm_slot" where
  "sl_record x f = x\<lparr> sl_buf := blit (sl_buf x) (frag_offset f) (payload_bytes f),
     sl_received_bytes := sl_received_bytes x + payload_length f,
     sl_received_mask := sl_received_mask x OR push_bit (unat (fragment_index f)) 1 \<rparr>"

text \<open>Recording a fragment that is new to its open slot.\<close>

definition rx_record :: "reasm_buffer \<Rightarrow> nat \<Rightarrow> envelope \<Rightarrow> reasm_buffer" where
  "rx_record s i f = s\<lparr> rx_slots := (rx_slots s)[i := sl_record (rx_slots s ! i) f] \<rparr>"

definition sl_assembled :: "reasm_slot \<Rightarrow> envelope" where
  "sl_assembled x = (sl_header x)\<lparr> payload_length := ucast (sl_total_length x), fragment_index := 0,
     fragment_count := 1, total_payload_length := sl_total_length x,
     payload := blit (payload (sl_header x)) 0 (take (unat (sl_total_length x)) (sl_buf x)) \<rparr>"

definition sl_open :: "envelope \<Rightarrow> u64 \<Rightarrow> reasm_slot" where
  "sl_open f now_us = \<lparr> sl_message_id = message_id f, sl_source_id = source_id f,
     sl_buf = replicate payload_capacity 0, sl_received_mask = 0, sl_received_bytes = 0,
     sl_expected_count = fragment_count f, sl_total_length = total_payload_length f,
     sl_expiry_us = expiry_time_us f, sl_open_time_us = now_us, sl_header = f, sl_active = True \<rparr>"

text \<open>An open slot in which the fragments \<open>S\<close> of a logical message have arrived.\<close>

definition holds_fragments :: "envelope \<Rightarrow> nat set \<Rightarrow> reasm_slot \<Rightarrow> bool" where
  "holds_fragments logical S x \<longleftrightarrow> slot_ok x \<and> sl_matches (source_id logical) (message_id logical) x \<and>
     sl_expected_count x = of_nat (frag_total (unat (payload_length logical))) \<and>
     sl_total_length x = ucast (payload_length logical) \<and>
     (\<forall>j. bit (sl_received_mask x) j \<longleftrightarrow> j \<in> S) \<and>
     unat (sl_received_bytes x) = (\<Sum>i\<in>S. length (frag_slice i (payload_bytes logical))) \<and>
     (\<forall>i\<in>S. take (length (frag_slice i (payload_bytes logical))) (drop (1024 * i) (sl_buf x)) =
        frag_slice i (payload_bytes logical))"

definition rx_has_room :: "reasm_buffer \<Rightarrow> NodeId \<Rightarrow> u64 \<Rightarrow> bool" where
  "rx_has_room s src mid \<longleftrightarrow> rx_open_for s src < k_reasm_per_src_max \<and>
     list_ex (\<lambda>x. \<not> sl_active x) (rx_slots s) \<and> \<not> list_ex (sl_matches src mid) (rx_slots s)"

definition rx_progress :: "envelope \<Rightarrow> nat set \<Rightarrow> reasm_buffer \<Rightarrow> bool" where
  "rx_progress logical S s \<longleftrightarrow> rx_inv s \<and>
     (if S = {} then rx_has_room s (source_id logical) (message_id logical)
      else \<exists>k < 8. holds_fragments logical S (rx_slots s ! k))"

text \<open>A test that holds for the header of every open slot.\<close>

definition rx_headers :: "(envelope \<Rightarrow> bool) \<Rightarrow> reasm_buffer \<Rightarrow> bool" where
  "rx_headers P s \<longleftrightarrow> list_all (\<lambda>x. sl_active x \<longrightarrow> P (sl_header x)) (rx_slots s)"

text \<open>A sequence of arrivals, and the results reported for them.\<close>

fun ingest_all :: "reasm_buffer \<Rightarrow> envelope list \<Rightarrow> envelope \<Rightarrow> u64 \<Rightarrow> (Result list \<times> reasm_buffer) option" where
  "ingest_all s [] d now_us = Some ([], s)"
| "ingest_all s (f # fs) d now_us = do {
     (r, _, s) \<leftarrow> ReassemblyBuffer_ingest s f d now_us;
     (rs, s) \<leftarrow> ingest_all s fs d now_us;
     Some (r # rs, s)
   }"

text \<open>The slots that \<open>sweep_stale\<close> frees.\<close>

definition sl_stale :: "u64 \<Rightarrow> u64 \<Rightarrow> reasm_slot \<Rightarrow> bool" where
  "sl_stale now_us threshold x \<longleftrightarrow> sl_active x \<and> sl_open_time_us x \<le> now_us \<and> threshold \<le> now_us - sl_open_time_us x"

text \<open>An empty buffer and a message of three fragments, for the examples.\<close>

definition example_logical :: envelope where
  "example_logical = envelope_init\<lparr> message_type := DATA, source_id := 1, message_id := 7, payload_length := 2500 \<rparr>"

definition example_frag :: "nat \<Rightarrow> envelope" where
  "example_frag i = example_logical\<lparr> fragment_index := of_nat i, fragment_count := 3, total_payload_length := 2500,
     payload_length := of_nat (min 1024 (2500 - 1024 * i)) \<rparr>"

definition example_rx :: reasm_buffer where
  "example_rx = \<lparr> rx_slots = replicate 8 (sl_release (sl_open envelope_init 0)), rx_initialized = True \<rparr>"

section \<open>Slots\<close>

lemma rx_inv_len: "rx_inv s \<Longrightarrow> length (rx_slots s) = 8"
  by (simp add: rx_inv_def)

lemma rx_inv_ok: "rx_inv s \<Longrightarrow> i < 8 \<Longrightarrow> slot_ok (rx_slots s ! i)"
  by (simp add: rx_inv_def list_all_length)

lemma rx_inv_unique:
  "rx_inv s \<Longrightarrow> i < 8 \<Longrightarrow> j < 8 \<Longrightarrow> sl_active (rx_slots s ! i) \<Longrightarrow> sl_active (rx_slots s ! j) \<Longrightarrow>
   sl_source_id (rx_slots s ! i) = sl_source_id (rx_slots s ! j) \<Longrightarrow>
   sl_message_id (rx_slots s ! i) = sl_message_id (rx_slots s ! j) \<Longrightarrow> i = j"
  unfolding rx_inv_def by blast

text \<open>Rewriting a slot without opening it or changing its key keeps the invariant.\<close>

lemma rx_inv_update [inv_intro]:
  assumes "rx_inv s" and "i < 8" and "slot_ok x"
    and "sl_active x \<Longrightarrow> sl_active (rx_slots s ! i) \<and> sl_source_id x = sl_source_id (rx_slots s ! i) \<and>
       sl_message_id x = sl_message_id (rx_slots s ! i)"
  shows "rx_inv (s\<lparr> rx_slots := (rx_slots s)[i := x] \<rparr>)"
proof -
  have len: "length (rx_slots s) = 8" using assms(1) by (rule rx_inv_len)
  have cnt: "rx_open_for (s\<lparr> rx_slots := (rx_slots s)[i := x] \<rparr>) src \<le> rx_open_for s src" for src
  proof -
    let ?P = "\<lambda>y. sl_active y \<and> sl_source_id y = src"
    show ?thesis
    proof (cases "?P x = ?P (rx_slots s ! i)")
      case True
      with len assms(2) show ?thesis
        using length_filter_same [of i "rx_slots s" ?P x] by (simp add: rx_open_for_def)
    next
      case False
      with assms(4) have "?P (rx_slots s ! i)" "\<not> ?P x" by auto
      with len assms(2) show ?thesis
        using length_filter_release [of i "rx_slots s" ?P x] by (simp add: rx_open_for_def)
    qed
  qed
  have "rx_open_for (s\<lparr> rx_slots := (rx_slots s)[i := x] \<rparr>) src \<le> 4" for src
    using cnt [of src] assms(1) by (meson rx_inv_def le_trans)
  moreover have "list_all slot_ok ((rx_slots s)[i := x])"
    using assms(1,3) by (intro list_all_updateI) (simp_all add: rx_inv_def)
  ultimately show ?thesis
    using assms(1,2,4) len unfolding rx_inv_def by (auto simp: nth_list_update)
qed

lemma slot_ok_closed: "\<not> sl_active x \<Longrightarrow> slot_ok x"
  by (simp add: slot_ok_def)

lemma sl_release_closed [simp]: "\<not> sl_active (sl_release x)"
  by (simp add: sl_release_def)


lemma validate_metadata_eq:
  "rx_inv s \<Longrightarrow> source_id f \<noteq> 0 \<Longrightarrow>
   ReassemblyBuffer_validate_metadata s f = Some (if metadata_ok f then OK else ERR_INVALID)"
  by (auto simp: ReassemblyBuffer_validate_metadata_def rx_inv_def metadata_ok_def not_less not_le
      word_less_nat_alt word_le_nat_alt)

lemma rx_inv_open [inv_intro]:
  assumes "rx_inv s" and "i < 8" and "\<not> sl_active (rx_slots s ! i)"
    and "metadata_ok f" and "1 < fragment_count f" and "source_id f \<noteq> 0" and "env_wf f"
    and "rx_open_for s (source_id f) < 4"
    and "first_idx (sl_matches (source_id f) (message_id f)) (rx_slots s) = None"
  shows "rx_inv (s\<lparr> rx_slots := (rx_slots s)[i := sl_open f now_us] \<rparr>)"
proof -
  have len: "length (rx_slots s) = 8" using assms(1) by (rule rx_inv_len)
  have fresh: "\<not> (sl_active (rx_slots s ! j) \<and> sl_source_id (rx_slots s ! j) = source_id f \<and>
      sl_message_id (rx_slots s ! j) = message_id f)" if "j < 8" for j
    using assms(9) len that by (auto simp: first_idx_None sl_matches_def)
  have key: "sl_source_id (sl_open f now_us) = source_id f" "sl_message_id (sl_open f now_us) = message_id f"
    by (simp_all add: sl_open_def)
  have "slot_ok (sl_open f now_us)"
    using assms(4-7) by (auto simp: slot_ok_def sl_open_def metadata_ok_def inc_le [of 1, simplified])
  then have "list_all slot_ok ((rx_slots s)[i := sl_open f now_us])"
    using assms(1) by (intro list_all_updateI) (simp_all add: rx_inv_def)
  moreover have "rx_open_for (s\<lparr> rx_slots := (rx_slots s)[i := sl_open f now_us] \<rparr>) src \<le> 4" for src
  proof (cases "src = source_id f")
    case True
    let ?P = "\<lambda>y. sl_active y \<and> sl_source_id y = src"
    have "rx_open_for (s\<lparr> rx_slots := (rx_slots s)[i := sl_open f now_us] \<rparr>) src = Suc (rx_open_for s src)"
      unfolding rx_open_for_def using length_filter_activate [of i "rx_slots s" ?P "sl_open f now_us"] True assms(2,3) len
      by (simp add: sl_open_def)
    with True assms(8) show ?thesis by simp
  next
    case False
    let ?P = "\<lambda>y. sl_active y \<and> sl_source_id y = src"
    have "rx_open_for (s\<lparr> rx_slots := (rx_slots s)[i := sl_open f now_us] \<rparr>) src = rx_open_for s src"
      unfolding rx_open_for_def using length_filter_same [of i "rx_slots s" ?P "sl_open f now_us"] False assms(2,3) len
      by (simp add: sl_open_def)
    then show ?thesis using assms(1) by (simp add: rx_inv_def)
  qed
  ultimately show ?thesis
    using assms(1,2) len fresh unfolding rx_inv_def
    by (simp add: nth_list_update key) (metis (no_types))
qed

lemma find_or_open_spec:
  assumes "rx_inv s" and "metadata_ok f" and "1 < fragment_count f" and "source_id f \<noteq> 0" and "env_wf f"
  shows "returns (ReassemblyBuffer_find_or_open_slot s f d now_us) (\<lambda>(r, i, s'). rx_inv s' \<and>
    (if r = OK then i < 8 \<and> sl_matches (source_id f) (message_id f) (rx_slots s' ! i) \<and>
       sl_expected_count (rx_slots s' ! i) = fragment_count f \<and> sl_total_length (rx_slots s' ! i) = total_payload_length f
     else s' = s \<and> (r = ERR_FULL \<or> r = ERR_INVALID)))"
proof (cases "first_idx (sl_matches (source_id f) (message_id f)) (rx_slots s)")
  case (Some i)
  then have "i < 8" "sl_matches (source_id f) (message_id f) (rx_slots s ! i)"
    using first_idx_SomeD [OF Some] rx_inv_len [OF assms(1)] by simp_all
  with Some assms show ?thesis
    by (auto simp: ReassemblyBuffer_find_or_open_slot_def ReassemblyBuffer_find_slot_def
        ReassemblyBuffer_validate_fragment_def rx_inv_def [of s] sl_matches_def)
next
  case None
  have init: "rx_initialized s" and len: "length (rx_slots s) = 8" using assms(1) by (simp_all add: rx_inv_def)
  have cnt: "ReassemblyBuffer_count_open_slots_for_src s (source_id f) = Some (rx_open_for s (source_id f))"
    using assms(1,4) length_filter_le [of "\<lambda>x. sl_active x \<and> sl_source_id x = source_id f" "rx_slots s"]
    by (simp add: ReassemblyBuffer_count_open_slots_for_src_def init rx_open_for_def len)
  show ?thesis
  proof (cases "rx_open_for s (source_id f) < 4")
    case False
    with None cnt init assms(1,4) show ?thesis
      by (simp add: ReassemblyBuffer_find_or_open_slot_def ReassemblyBuffer_find_slot_def)
  next
    case lt: True
    show ?thesis
    proof (cases "first_idx (\<lambda>x. \<not> sl_active x) (rx_slots s)")
      case none: None
      with None lt cnt init assms(1,4) show ?thesis
        by (simp add: ReassemblyBuffer_find_or_open_slot_def ReassemblyBuffer_find_slot_def
            ReassemblyBuffer_find_free_slot_def)
    next
      case (Some i)
      then have i: "i < 8" "\<not> sl_active (rx_slots s ! i)" using first_idx_SomeD [OF Some] len by simp_all
      have le: "(ucast (total_payload_length f) :: u32) \<le> 4096"
        using assms(2) by (simp add: metadata_ok_def word_le_nat_alt)
      have op: "ReassemblyBuffer_open_slot s i f now_us = Some (s\<lparr> rx_slots := (rx_slots s)[i := sl_open f now_us] \<rparr>)"
        using i len le by (simp add: ReassemblyBuffer_open_slot_def sl_open_def)
      from rx_inv_open [OF assms(1) i assms(2-5) lt None] op i len None lt Some cnt init assms(4) show ?thesis
        by (simp add: ReassemblyBuffer_find_or_open_slot_def ReassemblyBuffer_find_slot_def
            ReassemblyBuffer_find_free_slot_def sl_matches_def) (simp add: sl_open_def)
    qed
  qed
qed


section \<open>Recording and assembling\<close>

lemma frag_offset_word:
  assumes "fragment_index f < 4"
  shows "unat ((ucast (fragment_index f) :: u32) * FRAG_MAX_PAYLOAD_BYTES) = frag_offset f" and "frag_offset f \<le> 3072"
proof -
  have "unat (fragment_index f) < 4" using assms by (simp add: word_less_nat_alt)
  then show "unat ((ucast (fragment_index f) :: u32) * FRAG_MAX_PAYLOAD_BYTES) = frag_offset f" "frag_offset f \<le> 3072"
    by (simp_all add: unat_word_ariths frag_offset_def)
qed

lemma record_fragment_cases:
  assumes "length (rx_slots s) = 8" and "i < 8" and "fragment_index f < 4"
  defines "x \<equiv> rx_slots s ! i"
  shows "ReassemblyBuffer_record_fragment s i f =
    (if unat (payload_length f) \<le> 4096 - frag_offset f then
       if payload_length f \<le> 4096 - sl_received_bytes x
       then Some (OK, s\<lparr> rx_slots := (rx_slots s)[i := sl_record x f] \<rparr>)
       else Some (ERR_INVALID, s\<lparr> rx_slots := (rx_slots s)[i := x\<lparr> sl_buf := blit (sl_buf x) (frag_offset f) (payload_bytes f) \<rparr>] \<rparr>)
     else Some (ERR_INVALID, s))"
proof -
  let ?o = "(ucast (fragment_index f) :: u32) * FRAG_MAX_PAYLOAD_BYTES"
  note o = frag_offset_word [OF assms(3)]
  have le: "?o \<le> MSG_MAX_PAYLOAD_BYTES" using o by (simp add: word_le_nat_alt)
  have "unat (MSG_MAX_PAYLOAD_BYTES - ?o) = 4096 - frag_offset f"
    using le o by (subst unat_diff_le) simp_all
  then have fit: "payload_length f > MSG_MAX_PAYLOAD_BYTES - ?o \<longleftrightarrow> \<not> unat (payload_length f) \<le> 4096 - frag_offset f"
    by (simp only: word_less_nat_alt not_le)
  have idx: "(ucast (fragment_index f) :: u32) < FRAG_MAX_COUNT"
    using assms(3) by (simp add: word_less_nat_alt)
  have same: "x\<lparr> sl_buf := blit (sl_buf x) (frag_offset f) (payload_bytes f) \<rparr> = x" if "\<not> payload_length f > 0"
    using that by (simp add: payload_bytes_def word_gt_0)
  show ?thesis
  proof (cases "payload_length f > 0")
    case True
    then have "0 < unat (payload_length f)" by (simp add: word_less_nat_alt)
    with True assms(1,2) le fit idx o(1) show ?thesis
      unfolding ReassemblyBuffer_record_fragment_def
      by (simp add: Let_def payload_bytes_def x_def sl_record_def not_less)
  next
    case False
    then have z: "payload_length f = 0" by (simp add: word_gt_0)
    with same [OF False] assms(1,2) le idx show ?thesis
      unfolding ReassemblyBuffer_record_fragment_def
      by (simp add: Let_def payload_bytes_def x_def sl_record_def not_less [symmetric])
  qed
qed

lemma is_complete_eq:
  assumes "i < 8" and "sl_active (rx_slots s ! i)" and "slot_ok (rx_slots s ! i)"
  shows "ReassemblyBuffer_is_complete s i =
    Some (\<forall>j < unat (sl_expected_count (rx_slots s ! i)). bit (sl_received_mask (rx_slots s ! i)) j)"
proof -
  let ?c = "sl_expected_count (rx_slots s ! i)" and ?m = "sl_received_mask (rx_slots s ! i)"
  have c: "2 \<le> ?c" "?c \<le> 4" using assms(2,3) by (simp_all add: slot_ok_def)
  have c4: "unat ?c \<le> 4" using c by (simp add: word_le_nat_alt)
  have mask: "push_bit (unat ?c) (1 :: u32) - 1 = mask (unat ?c)" by (simp add: mask_eq_decr_exp push_bit_eq_mult)
  have "?m AND mask (unat ?c) = mask (unat ?c) \<longleftrightarrow> (\<forall>j < unat ?c. bit ?m j)"
  proof
    assume eq: "?m AND mask (unat ?c) = mask (unat ?c)"
    show "\<forall>j < unat ?c. bit ?m j"
    proof (intro allI impI)
      fix j assume j: "j < unat ?c"
      then have "bit (mask (unat ?c) :: u32) j" using c4 by (simp add: bit_mask_iff)
      then have "bit (?m AND mask (unat ?c)) j" by (simp only: eq)
      then show "bit ?m j" by (simp add: bit_and_iff)
    qed
  qed (auto simp: bit_eq_iff bit_and_iff bit_mask_iff)
  moreover have "1 \<le> ?c" using c(1) by (rule order_trans [rotated]) simp
  ultimately show ?thesis
    using assms(1,2) c(2) by (simp add: ReassemblyBuffer_is_complete_def mask [simplified] Let_def)
qed

lemma assemble_eq:
  assumes "length (rx_slots s) = 8" and "i < 8" and "sl_active (rx_slots s ! i)"
  shows "ReassemblyBuffer_assemble_and_free s i d =
    Some (if sl_received_bytes (rx_slots s ! i) = ucast (sl_total_length (rx_slots s ! i))
          then (OK, sl_assembled (rx_slots s ! i), s\<lparr> rx_slots := (rx_slots s)[i := sl_release (rx_slots s ! i)] \<rparr>)
          else (ERR_INVALID, d, s\<lparr> rx_slots := (rx_slots s)[i := sl_release (rx_slots s ! i)] \<rparr>))"
proof -
  have "blit p 0 (take (unat n) b) = p" if "\<not> (0 :: u32) < ucast n" for n :: u16 and p b :: "u8 list"
    using that by (simp add: word_gt_0 ucast_eq_0_up)
  then show ?thesis
    using assms by (auto simp: ReassemblyBuffer_assemble_and_free_def sl_assembled_def Let_def)
qed

lemma slot_ok_record:
  assumes "slot_ok x" and "sl_active x" and "env_wf f" and "fragment_index f < 4"
    and "unat (payload_length f) \<le> 4096 - frag_offset f"
  shows "length (blit (sl_buf x) (frag_offset f) (payload_bytes f)) = payload_capacity"
    and "payload_length f \<le> 4096 - sl_received_bytes x \<Longrightarrow> slot_ok (sl_record x f)"
proof -
  have pl: "length (payload_bytes f) = unat (payload_length f)"
    using assms(3,5) by (simp add: payload_bytes_def env_wf_def)
  show len: "length (blit (sl_buf x) (frag_offset f) (payload_bytes f)) = payload_capacity"
    using assms(1,2,5) pl frag_offset_word(2) [OF assms(4)] by (simp add: slot_ok_def)
  assume le: "payload_length f \<le> 4096 - sl_received_bytes x"
  have r: "sl_received_bytes x \<le> 4096" using assms(1,2) by (simp add: slot_ok_def)
  have "unat (4096 - sl_received_bytes x) = 4096 - unat (sl_received_bytes x)"
    using r by (subst unat_diff_le) simp_all
  then have "unat (sl_received_bytes x) + unat (payload_length f) \<le> 4096"
    using le r by (simp add: word_le_nat_alt)
  then have "sl_received_bytes x + payload_length f \<le> 4096"
    by (simp add: word_le_nat_alt unat_add_no_wrap)
  with assms(1,2) len show "slot_ok (sl_record x f)" by (simp add: slot_ok_def sl_record_def)
qed

lemma sl_assembled_wf:
  assumes "slot_ok x" and "sl_active x"
  shows "env_wf (sl_assembled x)" and "payload_length (sl_assembled x) \<le> 4096"
    and "source_id (sl_assembled x) = sl_source_id x" and "message_id (sl_assembled x) = sl_message_id x"
proof -
  have t: "unat (sl_total_length x) \<le> 4096" using assms by (simp add: slot_ok_def word_le_nat_alt)
  with assms show "env_wf (sl_assembled x)" "payload_length (sl_assembled x) \<le> 4096"
    "source_id (sl_assembled x) = sl_source_id x" "message_id (sl_assembled x) = sl_message_id x"
    by (simp_all add: slot_ok_def sl_assembled_def env_wf_def word_le_nat_alt)
qed


section \<open>Safety of ingest\<close>

lemma rx_inv_release [inv_intro]:
  "rx_inv s \<Longrightarrow> i < 8 \<Longrightarrow> \<not> sl_active x \<Longrightarrow> rx_inv (s\<lparr> rx_slots := (rx_slots s)[i := x] \<rparr>)"
  by (rule rx_inv_update) (simp_all add: slot_ok_closed)

lemma record_fragment_spec:
  assumes "rx_inv s" and "i < 8" and "sl_active (rx_slots s ! i)" and "env_wf f" and "fragment_index f < 4"
  shows "returns (ReassemblyBuffer_record_fragment s i f) (\<lambda>(r, s'). rx_inv s' \<and>
    (r = OK \<and> s' = rx_record s i f \<or> r = ERR_INVALID))"
proof -
  let ?x = "rx_slots s ! i"
  have len: "length (rx_slots s) = 8" using assms(1) by (rule rx_inv_len)
  have ok: "slot_ok ?x" using assms(1,2) by (rule rx_inv_ok)
  have rec: "rx_inv (rx_record s i f)"
    if "unat (payload_length f) \<le> 4096 - frag_offset f" "payload_length f \<le> 4096 - sl_received_bytes ?x"
    unfolding rx_record_def using assms(1,2) slot_ok_record(2) [OF ok assms(3-5) that]
    by (rule rx_inv_update) (simp_all add: sl_record_def assms(3))
  have buf: "rx_inv (s\<lparr> rx_slots := (rx_slots s)[i := ?x\<lparr> sl_buf := blit (sl_buf ?x) (frag_offset f) (payload_bytes f) \<rparr>] \<rparr>)"
    if "unat (payload_length f) \<le> 4096 - frag_offset f"
    using slot_ok_record(1) [OF ok assms(3-5) that] ok assms(1,2,3)
    by (intro rx_inv_update) (simp_all add: slot_ok_def)
  show ?thesis
    unfolding record_fragment_cases [OF len assms(2,5)] using rec buf assms(1) by (simp add: rx_record_def)
qed

lemma record_then_finish:
  assumes "rx_inv s" and "i < 8" and "sl_active (rx_slots s ! i)" and "env_wf f" and "fragment_index f < 4"
  shows "returns (do {
       (rec_r, s) \<leftarrow> ReassemblyBuffer_record_fragment s i f;
       if rec_r \<noteq> OK then do {
         let s = s\<lparr> rx_slots := (rx_slots s)[i := sl_release (rx_slots s ! i)] \<rparr>;
         nc_assert (\<not> sl_active (rx_slots s ! i));
         Some (rec_r, d, s)
       }
       else do {
         complete \<leftarrow> ReassemblyBuffer_is_complete s i;
         if \<not> complete then Some (ERR_AGAIN, d, s)
         else do {
           (asm_r, d, s) \<leftarrow> ReassemblyBuffer_assemble_and_free s i d;
           if asm_r \<noteq> OK then Some (asm_r, d, s)
           else do { nc_assert (payload_length d \<le> MSG_MAX_PAYLOAD_BYTES); Some (OK, d, s) }
         }
       } })
    (\<lambda>(r, out, s'). rx_inv s' \<and> (r = OK \<or> r = ERR_AGAIN \<or> r = ERR_INVALID) \<and>
       (r = OK \<longrightarrow> out = sl_assembled (sl_record (rx_slots s ! i) f) \<and> env_wf out \<and> payload_length out \<le> MSG_MAX_PAYLOAD_BYTES \<and>
          source_id out = sl_source_id (rx_slots s ! i) \<and> message_id out = sl_message_id (rx_slots s ! i)))"
proof -
  from record_fragment_spec [OF assms] obtain r s1 where
    s1: "ReassemblyBuffer_record_fragment s i f = Some (r, s1)" "rx_inv s1"
      "r = OK \<and> s1 = rx_record s i f \<or> r = ERR_INVALID"
    by (auto elim: returnsE)
  have len: "length (rx_slots s) = 8" "length (rx_slots s1) = 8"
    using assms(1) s1(2) by (simp_all add: rx_inv_len)
  have rel: "rx_inv (s1\<lparr> rx_slots := (rx_slots s1)[i := sl_release (rx_slots s1 ! i)] \<rparr>)"
    using s1(2) assms(2) by (rule rx_inv_release) simp
  show ?thesis
  proof (cases "r = OK")
    case False
    with s1 rel len assms(2) show ?thesis by simp
  next
    case True
    let ?x = "sl_record (rx_slots s ! i) f"
    have x: "rx_slots s1 ! i = ?x" using True s1(3) assms(2) len by (auto simp: rx_record_def)
    have act: "sl_active ?x" using assms(3) by (simp add: sl_record_def)
    have ok: "slot_ok ?x" using rx_inv_ok [OF s1(2) assms(2)] x by simp
    have c: "ReassemblyBuffer_is_complete s1 i = Some (\<forall>j < unat (sl_expected_count ?x). bit (sl_received_mask ?x) j)"
      using is_complete_eq [OF assms(2), of s1] act ok x by simp
    have a: "ReassemblyBuffer_assemble_and_free s1 i d =
      Some (if sl_received_bytes ?x = ucast (sl_total_length ?x)
          then (OK, sl_assembled ?x, s1\<lparr> rx_slots := (rx_slots s1)[i := sl_release ?x] \<rparr>)
          else (ERR_INVALID, d, s1\<lparr> rx_slots := (rx_slots s1)[i := sl_release ?x] \<rparr>))"
      using assemble_eq [OF len(2) assms(2), of d] act x by simp
    have key: "sl_source_id ?x = sl_source_id (rx_slots s ! i)" "sl_message_id ?x = sl_message_id (rx_slots s ! i)"
      by (simp_all add: sl_record_def)
    from True s1(1) c a rel sl_assembled_wf [OF ok act] s1(2) x key show ?thesis
      by simp
  qed
qed

lemma ingest_multifrag_safe:
  assumes "rx_inv s" and "metadata_ok f" and "1 < fragment_count f" and "source_id f \<noteq> 0" and "env_wf f"
  shows "returns (ReassemblyBuffer_ingest_multifrag s f d now_us) (\<lambda>(r, out, s'). rx_inv s' \<and>
    r \<in> {OK, ERR_AGAIN, ERR_FULL, ERR_INVALID} \<and>
    (r = OK \<longrightarrow> env_wf out \<and> payload_length out \<le> MSG_MAX_PAYLOAD_BYTES \<and>
       source_id out = source_id f \<and> message_id out = message_id f))"
proof -
  from find_or_open_spec [OF assms, of 0 now_us] obtain r i s1 where
    1: "ReassemblyBuffer_find_or_open_slot s f 0 now_us = Some (r, i, s1)" "rx_inv s1"
      "if r = OK then i < 8 \<and> sl_matches (source_id f) (message_id f) (rx_slots s1 ! i) \<and>
       sl_expected_count (rx_slots s1 ! i) = fragment_count f \<and> sl_total_length (rx_slots s1 ! i) = total_payload_length f
     else s1 = s \<and> (r = ERR_FULL \<or> r = ERR_INVALID)"
    by (auto elim: returnsE)
  have init: "rx_initialized s" using assms(1) by (simp add: rx_inv_def)
  show ?thesis
  proof (cases "r = OK")
    case False
    with 1 init assms(3) show ?thesis by (auto simp: ReassemblyBuffer_ingest_multifrag_def)
  next
    case True
    with 1(3) have i: "i < 8" "sl_active (rx_slots s1 ! i)" "sl_source_id (rx_slots s1 ! i) = source_id f"
      "sl_message_id (rx_slots s1 ! i) = message_id f" by (simp_all add: sl_matches_def)
    have "fragment_index f < 4"
      using assms(2,3) by (auto simp: metadata_ok_def split: if_splits)
    from record_then_finish [OF 1(2) i(1,2) assms(5) this, of d] i(3,4) True 1(1,2) init assms(3)
    show ?thesis
      unfolding ReassemblyBuffer_ingest_multifrag_def
      by (auto simp: Let_def elim!: returns_mono)
  qed
qed

lemma ingest_safe:
  assumes "rx_inv s" and "source_id f \<noteq> 0" and "env_wf f" and "payload_length f \<le> MSG_MAX_PAYLOAD_BYTES"
  shows "returns (ReassemblyBuffer_ingest s f d now_us) (\<lambda>(r, out, s'). rx_inv s' \<and>
    r \<in> {OK, ERR_AGAIN, ERR_FULL, ERR_INVALID} \<and>
    (r = OK \<longrightarrow> env_wf out \<and> payload_length out \<le> MSG_MAX_PAYLOAD_BYTES \<and>
       source_id out = source_id f \<and> message_id out = message_id f))"
proof -
  note src = assms(2)
  have init: "rx_initialized s" using assms(1) by (simp add: rx_inv_def)
  note v = validate_metadata_eq [OF assms(1) src]
  consider "\<not> metadata_ok f" | "metadata_ok f" "fragment_count f \<le> 1" | "metadata_ok f" "1 < fragment_count f"
    by (meson not_le)
  then show ?thesis
  proof cases
    case 3
    from ingest_multifrag_safe [OF assms(1) 3 src assms(3), of d now_us] 3 v init src show ?thesis
      by (simp add: ReassemblyBuffer_ingest_def not_le [symmetric])
  qed (use v init src assms in \<open>auto simp: ReassemblyBuffer_ingest_def\<close>)
qed

text \<open>Claim C32. Memory safety of reassembly against arbitrary wire input: whatever fragment arrives
  (any index, count, declared and actual length), \<open>ingest\<close> returns without tripping an assertion
  and keeps the invariant: at most one open slot per message and four per source, every write
  inside the 4096-byte buffer; a completed message has a payload length within the capacity and the
  sender's key.\<close>

theorem reassembly_safe:
  assumes "rx_inv s" and "source_id f \<noteq> NODE_ID_INVALID" and "env_wf f" and "payload_length f \<le> MSG_MAX_PAYLOAD_BYTES"
  shows "returns (ReassemblyBuffer_ingest s f d now_us) (\<lambda>(r, out, s'). rx_inv s' \<and>
    r \<in> {OK, ERR_AGAIN, ERR_FULL, ERR_INVALID} \<and>
    (r = OK \<longrightarrow> env_wf out \<and> payload_length out \<le> MSG_MAX_PAYLOAD_BYTES \<and>
       source_id out = source_id f \<and> message_id out = message_id f))"
  using assms by (intro ingest_safe) simp_all

section \<open>What a reassembled message inherits\<close>

text \<open>A test on the header fields of the fragments that have arrived holds for every message the buffer
  completes, if it does not look at what reassembly rewrites.\<close>

lemma rx_headers_update: "rx_headers P s \<Longrightarrow> (sl_active x \<Longrightarrow> P (sl_header x)) \<Longrightarrow>
  rx_headers P (s\<lparr> rx_slots := (rx_slots s)[i := x] \<rparr>)"
  unfolding rx_headers_def by (auto intro!: list_all_updateI)

lemma rx_headers_nth: "rx_headers P s \<Longrightarrow> i < length (rx_slots s) \<Longrightarrow> sl_active (rx_slots s ! i) \<Longrightarrow> P (sl_header (rx_slots s ! i))"
  by (simp add: rx_headers_def list_all_length)

lemma find_or_open_headers:
  assumes "ReassemblyBuffer_find_or_open_slot s f d now_us = Some (r, i, s')" and "rx_headers P s" and "P f"
  shows "rx_headers P s'"
  using assms
  by (auto simp: ReassemblyBuffer_find_or_open_slot_def ReassemblyBuffer_open_slot_def bind_eq_Some_conv nc_assert_def
      split: if_splits option.splits intro!: rx_headers_update)

lemma record_headers:
  assumes "ReassemblyBuffer_record_fragment s i f = Some (r, s')" and "rx_headers P s" and "i < length (rx_slots s)"
  shows "rx_headers P s'" and "length (rx_slots s') = length (rx_slots s)"
  using assms rx_headers_nth [OF assms(2,3)]
  by (auto simp: ReassemblyBuffer_record_fragment_def bind_eq_Some_conv nc_assert_def Let_def
      split: if_splits intro!: rx_headers_update)

lemma assemble_headers:
  assumes "ReassemblyBuffer_assemble_and_free s i d = Some (r, out, s')" and "rx_headers P s" and "i < length (rx_slots s)"
    and "\<And>h a b p. P h \<Longrightarrow> P (h\<lparr> payload_length := a, fragment_index := 0, fragment_count := 1, total_payload_length := b, payload := p \<rparr>)"
    and "\<And>h a b. P h \<Longrightarrow> P (h\<lparr> payload_length := a, fragment_index := 0, fragment_count := 1, total_payload_length := b \<rparr>)"
  shows "rx_headers P s'" and "r = OK \<Longrightarrow> P out"
  using assms rx_headers_nth [OF assms(2,3)]
  by (auto simp: ReassemblyBuffer_assemble_and_free_def bind_eq_Some_conv nc_assert_def Let_def sl_release_def
      split: if_splits intro!: rx_headers_update)

lemma ingest_headers:
  assumes ing: "ReassemblyBuffer_ingest s f d now_us = Some (r, out, s')" and P: "rx_headers P s" "P f" and "length (rx_slots s) = 8"
    and upd: "\<And>h a b p. P h \<Longrightarrow> P (h\<lparr> payload_length := a, fragment_index := 0, fragment_count := 1, total_payload_length := b, payload := p \<rparr>)"
      "\<And>h a b. P h \<Longrightarrow> P (h\<lparr> payload_length := a, fragment_index := 0, fragment_count := 1, total_payload_length := b \<rparr>)"
  shows "rx_headers P s' \<and> (r = OK \<longrightarrow> P out)"
proof (cases "ReassemblyBuffer_ingest_multifrag s f d now_us = Some (r, out, s')")
  case False
  with ing P show ?thesis
    by (auto simp: ReassemblyBuffer_ingest_def bind_eq_Some_conv nc_assert_def split: if_splits)
next
  case True
  then obtain r1 i s1 where s1: "ReassemblyBuffer_find_or_open_slot s f 0 now_us = Some (r1, i, s1)"
    by (auto simp: ReassemblyBuffer_ingest_multifrag_def bind_eq_Some_conv)
  note h1 = find_or_open_headers [OF s1 P]
  have len: "length (rx_slots s1) = 8"
    using s1 assms(4)
    by (auto simp: ReassemblyBuffer_find_or_open_slot_def ReassemblyBuffer_open_slot_def bind_eq_Some_conv nc_assert_def
        split: if_splits option.splits)
  show ?thesis
  proof (cases "ReassemblyBuffer_record_fragment s1 i f")
    case None
    with True s1 h1 show ?thesis
      by (auto simp: ReassemblyBuffer_ingest_multifrag_def bind_eq_Some_conv nc_assert_def Let_def split: if_splits)
  next
    case (Some x)
    obtain r2 s2 where x: "x = (r2, s2)" by (cases x)
    have i: "i < length (rx_slots s1)"
      using Some len by (auto simp: ReassemblyBuffer_record_fragment_def bind_eq_Some_conv nc_assert_def split: if_splits)
    note h2 = record_headers [OF Some [unfolded x] h1 i]
    show ?thesis
    proof (cases "ReassemblyBuffer_assemble_and_free s2 i d = Some (r, out, s')")
      case asm: True
      with assemble_headers [OF asm h2(1) _ upd] h2(2) i show ?thesis by simp
    next
      case False
      with True s1 h1 h2(1) Some x show ?thesis
        by (auto simp: ReassemblyBuffer_ingest_multifrag_def bind_eq_Some_conv nc_assert_def Let_def sl_release_def
            split: if_splits intro!: rx_headers_update)
    qed
  qed
qed


section \<open>Reassembly of a fragmented message\<close>

lemma fragment_fields:
  assumes "is_fragment_of logical i f" and "payload_length logical \<le> MSG_MAX_PAYLOAD_BYTES"
    and "FRAG_MAX_PAYLOAD_BYTES < payload_length logical" and "env_wf logical"
  defines "n \<equiv> frag_total (unat (payload_length logical))"
  shows "i < n" "2 \<le> n" "n \<le> 4" "unat (fragment_index f) = i" "fragment_index f < 4"
    "unat (fragment_count f) = n" "1 < fragment_count f" "metadata_ok f" "frag_offset f = 1024 * i"
    "unat (payload_length f) = length (frag_slice i (payload_bytes logical))"
    "1024 * i + length (frag_slice i (payload_bytes logical)) \<le> 4096"
proof -
  have L: "unat (payload_length logical) \<le> 4096" "1024 < unat (payload_length logical)"
    using assms(2,3) by (simp_all add: word_le_nat_alt word_less_nat_alt)
  show i: "i < n" using assms(1) by (simp add: is_fragment_of_def n_def)
  show n2: "2 \<le> n" using L by (simp add: n_def frag_total_def)
  show n4: "n \<le> 4" unfolding n_def using frag_total_bounds [OF L(1)] by simp
  have fi: "fragment_index f = of_nat i" and fc: "fragment_count f = of_nat n"
    using assms(1) by (simp_all add: is_fragment_of_def n_def)
  show ui: "unat (fragment_index f) = i" using fi i n4 by (simp add: unat_of_nat)
  show uc: "unat (fragment_count f) = n" using fc n4 by (simp add: unat_of_nat)
  show "fragment_index f < 4" using ui i n4 by (simp add: word_less_nat_alt)
  show "1 < fragment_count f" using uc n2 by (simp add: word_less_nat_alt)
  have nz: "fragment_count f \<noteq> 0" using uc n2 by (metis unat_0 not_numeral_le_zero)
  have "total_payload_length f \<le> 4096"
    using assms(1) L(1) by (simp add: is_fragment_of_def word_le_nat_alt unat_ucast_mod)
  then show "metadata_ok f"
    using ui uc i n4 nz by (simp add: metadata_ok_def word_less_nat_alt word_le_nat_alt)
  show "frag_offset f = 1024 * i" by (simp add: frag_offset_def ui)
  have sl: "length (frag_slice i (payload_bytes logical)) \<le> 1024" by (rule slice_le)
  show "unat (payload_length f) = length (frag_slice i (payload_bytes logical))"
    using assms(1) le_less_trans [OF sl, of "2 ^ 32"] by (simp add: is_fragment_of_def unat_of_nat)
  show "1024 * i + length (frag_slice i (payload_bytes logical)) \<le> 4096"
    using L(1) i n4 sl by (simp add: length_slice)
qed

lemma holds_open:
  assumes "is_fragment_of logical i f" and "slot_ok (sl_open f now_us)"
  shows "holds_fragments logical {} (sl_open f now_us)"
  using assms by (simp add: holds_fragments_def is_fragment_of_def sl_open_def sl_matches_def)

lemma take_drop_blit_other:
  assumes "b + length src \<le> length dst" and "a + m \<le> b \<or> b + length src \<le> a"
  shows "take m (drop a (blit dst b src)) = take m (drop a dst)"
proof (rule nth_equalityI)
  show "length (take m (drop a (blit dst b src))) = length (take m (drop a dst))" using assms(1) by simp
  fix j assume "j < length (take m (drop a (blit dst b src)))"
  then have "j < m" "a + j < length dst" using assms(1) by auto
  with assms show "take m (drop a (blit dst b src)) ! j = take m (drop a dst) ! j"
    by (auto simp: nth_blit)
qed

lemma take_drop_blit_same:
  "b + length src \<le> length dst \<Longrightarrow> take (length src) (drop b (blit dst b src)) = src"
  by (simp add: blit_def)

lemma received_room:
  assumes "holds_fragments logical S x" and "S \<subseteq> {..<frag_total (unat (payload_length logical))}"
    and "i < frag_total (unat (payload_length logical))" and "i \<notin> S"
    and "env_wf logical" and "payload_length logical \<le> MSG_MAX_PAYLOAD_BYTES"
  shows "unat (sl_received_bytes x) + length (frag_slice i (payload_bytes logical)) \<le> 4096"
proof -
  let ?x = "payload_bytes logical" and ?n = "frag_total (unat (payload_length logical))"
  have len: "length ?x = unat (payload_length logical)" using assms(5,6) by (rule length_payload_bytes)
  have "(\<Sum>j\<in>S. length (frag_slice j ?x)) + length (frag_slice i ?x) = (\<Sum>j\<in>insert i S. length (frag_slice j ?x))"
    using assms(2,4) finite_subset [OF assms(2)] by simp
  also have "\<dots> \<le> (\<Sum>j<?n. length (frag_slice j ?x))"
    using assms(2,3) by (intro sum_mono2) auto
  also have "\<dots> = length ?x" using sum_slices [of ?x ?n] by (simp add: len)
  finally show ?thesis using assms(1,6) len by (simp add: holds_fragments_def word_le_nat_alt)
qed

lemma holds_record:
  assumes "holds_fragments logical S x" and "S \<subseteq> {..<frag_total (unat (payload_length logical))}"
    and "is_fragment_of logical i f" and "i \<notin> S"
    and "env_wf logical" and "payload_length logical \<le> MSG_MAX_PAYLOAD_BYTES"
    and "FRAG_MAX_PAYLOAD_BYTES < payload_length logical"
  shows "holds_fragments logical (insert i S) (sl_record x f)"
    and "unat (payload_length f) \<le> 4096 - frag_offset f"
    and "payload_length f \<le> 4096 - sl_received_bytes x"
proof -
  let ?sl = "\<lambda>i. frag_slice i (payload_bytes logical)"
  note F = fragment_fields [OF assms(3,6,7,5)]
  have bytes: "payload_bytes f = ?sl i" and wf: "env_wf f" using assms(3) by (simp_all add: is_fragment_of_def)
  have ok: "slot_ok x" "sl_active x" using assms(1) by (simp_all add: holds_fragments_def sl_matches_def)
  have buf: "length (sl_buf x) = 4096" and rb: "sl_received_bytes x \<le> 4096" using ok by (simp_all add: slot_ok_def)
  show fit: "unat (payload_length f) \<le> 4096 - frag_offset f" using F by simp
  note room = received_room [OF assms(1,2) F(1) assms(4,5,6)]
  have "unat (4096 - sl_received_bytes x) = 4096 - unat (sl_received_bytes x)"
    using rb by (subst unat_diff_le) simp_all
  with room show le: "payload_length f \<le> 4096 - sl_received_bytes x" by (simp add: word_le_nat_alt F(10))
  have "slot_ok (sl_record x f)" by (rule slot_ok_record(2) [OF ok wf F(5) fit le])
  moreover have "bit (sl_received_mask (sl_record x f)) j \<longleftrightarrow> j \<in> insert i S" for j
    using assms(1) F(1,3,4) by (auto simp: holds_fragments_def sl_record_def bit_or_iff bit_exp_iff)
  moreover have "unat (sl_received_bytes (sl_record x f)) = (\<Sum>j\<in>insert i S. length (?sl j))"
    using assms(1,4) finite_subset [OF assms(2)] room
    by (simp add: holds_fragments_def sl_record_def unat_add_no_wrap F(10))
  moreover have "take (length (?sl j)) (drop (1024 * j) (sl_buf (sl_record x f))) = ?sl j" if "j \<in> insert i S" for j
  proof (cases "j = i")
    case True
    with F buf show ?thesis
      by (simp add: sl_record_def bytes take_drop_blit_same)
  next
    case False
    have "take (length (?sl j)) (drop (1024 * j) (blit (sl_buf x) (1024 * i) (?sl i))) =
      take (length (?sl j)) (drop (1024 * j) (sl_buf x))"
    proof (rule take_drop_blit_other)
      show "1024 * i + length (?sl i) \<le> length (sl_buf x)" using F(11) buf by simp
      from False consider "Suc j \<le> i" | "Suc i \<le> j" by linarith
      then show "1024 * j + length (?sl j) \<le> 1024 * i \<or> 1024 * i + length (?sl i) \<le> 1024 * j"
        using slice_le [of j "payload_bytes logical"] slice_le [of i "payload_bytes logical"] by cases linarith+
    qed
    with False that assms(1) F(9) show ?thesis
      by (simp add: sl_record_def bytes holds_fragments_def)
  qed
  ultimately show "holds_fragments logical (insert i S) (sl_record x f)"
    using assms(1) by (simp add: holds_fragments_def) (simp add: sl_record_def sl_matches_def)
qed


lemma holds_complete:
  assumes "holds_fragments logical {..<frag_total (unat (payload_length logical))} x"
    and "env_wf logical" and "payload_length logical \<le> MSG_MAX_PAYLOAD_BYTES"
  shows "sl_received_bytes x = ucast (sl_total_length x)"
    and "payload_bytes (sl_assembled x) = payload_bytes logical"
    and "payload_length (sl_assembled x) = payload_length logical"
proof -
  let ?x = "payload_bytes logical" and ?n = "frag_total (unat (payload_length logical))"
  have len: "length ?x = unat (payload_length logical)" using assms(2,3) by (rule length_payload_bytes)
  have L: "unat (payload_length logical) \<le> 4096" using assms(3) by (simp add: word_le_nat_alt)
  have tot: "sl_total_length x = ucast (payload_length logical)" using assms(1) by (simp add: holds_fragments_def)
  then have ut: "unat (sl_total_length x) = unat (payload_length logical)" using L by (simp add: unat_ucast_mod)
  then have up: "(ucast (sl_total_length x) :: u32) = payload_length logical" by (simp add: word_unat_eq_iff)
  have "unat (sl_received_bytes x) = length ?x"
    using assms(1) sum_slices [of ?x ?n] by (simp add: holds_fragments_def len)
  with up len show "sl_received_bytes x = ucast (sl_total_length x)" by (simp add: word_unat_eq_iff)
  show "payload_length (sl_assembled x) = payload_length logical" by (simp add: sl_assembled_def up)
  have ok: "slot_ok x" "sl_active x" using assms(1) by (simp_all add: holds_fragments_def sl_matches_def)
  then have buf: "length (sl_buf x) = 4096" by (simp add: slot_ok_def)
  have "take (length ?x) (sl_buf x) = ?x"
  proof (rule slices_determine)
    show "length ?x \<le> length (sl_buf x)" using L buf len by simp
    show "take (length (frag_slice i ?x)) (drop (1024 * i) (sl_buf x)) = frag_slice i ?x"
      if "i < frag_total (length ?x)" for i
    proof -
      have "\<forall>i\<in>{..<?n}. take (length (frag_slice i ?x)) (drop (1024 * i) (sl_buf x)) = frag_slice i ?x"
        using assms(1) unfolding holds_fragments_def by (elim conjE)
      with that len show ?thesis by simp
    qed
  qed
  moreover have "payload_bytes (sl_assembled x) = take (length ?x) (sl_buf x)"
    using buf L len by (simp add: payload_bytes_def sl_assembled_def up ut blit_def)
  ultimately show "payload_bytes (sl_assembled x) = payload_bytes logical" by simp
qed

lemma find_matching:
  assumes "rx_inv s" and "k < 8" and "sl_matches src mid (rx_slots s ! k)"
  shows "first_idx (sl_matches src mid) (rx_slots s) = Some k"
proof -
  have len: "length (rx_slots s) = 8" using assms(1) by (rule rx_inv_len)
  have "rx_slots s ! k \<in> set (rx_slots s)" using assms(2) len by simp
  from first_idx_Some_ex [OF this, of "sl_matches src mid"] assms(3) obtain j where
    j: "first_idx (sl_matches src mid) (rx_slots s) = Some j" by blast
  from first_idx_SomeD [OF j] len have "j < 8" "sl_matches src mid (rx_slots s ! j)" by simp_all
  with assms have "j = k" by (intro rx_inv_unique [OF assms(1)]) (simp_all add: sl_matches_def)
  with j show ?thesis by simp
qed

text \<open>The slot in which a fragment of the message under reassembly lands.\<close>

lemma find_or_open_progress:
  assumes "rx_progress logical S s" and "is_fragment_of logical i f" and "source_id logical \<noteq> 0"
    and "env_wf logical" and "payload_length logical \<le> MSG_MAX_PAYLOAD_BYTES"
    and "FRAG_MAX_PAYLOAD_BYTES < payload_length logical"
  shows "\<exists>k s1. ReassemblyBuffer_find_or_open_slot s f 0 now_us = Some (OK, k, s1) \<and> rx_inv s1 \<and> k < 8 \<and>
    holds_fragments logical S (rx_slots s1 ! k)"
proof -
  note F = fragment_fields [OF assms(2,5,6,4)]
  have inv: "rx_inv s" using assms(1) by (simp add: rx_progress_def)
  have len: "length (rx_slots s) = 8" and init: "rx_initialized s" using inv by (simp_all add: rx_inv_def)
  have key: "source_id f = source_id logical" "message_id f = message_id logical" "env_wf f"
    "fragment_count f = of_nat (frag_total (unat (payload_length logical)))"
    "total_payload_length f = ucast (payload_length logical)"
    using assms(2) by (simp_all add: is_fragment_of_def)
  show ?thesis
  proof (cases "S = {}")
    case False
    with assms(1) obtain k where k: "k < 8" "holds_fragments logical S (rx_slots s ! k)"
      by (auto simp: rx_progress_def)
    then have m: "sl_matches (source_id f) (message_id f) (rx_slots s ! k)" by (simp add: holds_fragments_def key)
    from find_matching [OF inv k(1) m] k m init assms(3) inv key(1,4,5) show ?thesis
      by (auto simp: ReassemblyBuffer_find_or_open_slot_def ReassemblyBuffer_find_slot_def
          ReassemblyBuffer_validate_fragment_def sl_matches_def holds_fragments_def)
  next
    case True
    with assms(1) have room: "rx_open_for s (source_id f) < 4" "list_ex (\<lambda>x. \<not> sl_active x) (rx_slots s)"
      "\<not> list_ex (sl_matches (source_id f) (message_id f)) (rx_slots s)"
      by (simp_all add: rx_progress_def rx_has_room_def key)
    from room(3) have none: "first_idx (sl_matches (source_id f) (message_id f)) (rx_slots s) = None"
      by (auto simp: first_idx_None list_ex_iff)
    from room(2) obtain k where fk: "first_idx (\<lambda>x. \<not> sl_active x) (rx_slots s) = Some k"
      by (auto simp: list_ex_iff dest: first_idx_Some_ex)
    then have k: "k < 8" "\<not> sl_active (rx_slots s ! k)" using first_idx_SomeD [OF fk] len by simp_all
    have cnt: "ReassemblyBuffer_count_open_slots_for_src s (source_id f) = Some (rx_open_for s (source_id f))"
      using room(1) assms(3) by (simp add: ReassemblyBuffer_count_open_slots_for_src_def init rx_open_for_def key)
    have le: "(ucast (total_payload_length f) :: u32) \<le> 4096"
      using F(8) by (simp add: metadata_ok_def word_le_nat_alt)
    have src: "source_id f \<noteq> 0" using assms(3) key by simp
    let ?s = "s\<lparr> rx_slots := (rx_slots s)[k := sl_open f now_us] \<rparr>"
    have inv': "rx_inv ?s" by (rule rx_inv_open [OF inv k F(8,7) src key(3) room(1) none])
    have op: "ReassemblyBuffer_open_slot s k f now_us = Some ?s"
      using k len le by (simp add: ReassemblyBuffer_open_slot_def sl_open_def)
    have nth: "rx_slots ?s ! k = sl_open f now_us" using k len by simp
    with rx_inv_ok [OF inv' k(1)] have "slot_ok (sl_open f now_us)" by simp
    with True holds_open [OF assms(2)] have "holds_fragments logical S (rx_slots ?s ! k)"
      using nth by simp
    with inv' k op none fk cnt room(1) init src show ?thesis
      by (simp add: ReassemblyBuffer_find_or_open_slot_def ReassemblyBuffer_find_slot_def
          ReassemblyBuffer_find_free_slot_def)
  qed
qed

lemma ingest_step:
  assumes "rx_progress logical S s" and "is_fragment_of logical i f" and "source_id logical \<noteq> 0"
    and "env_wf logical" and "payload_length logical \<le> MSG_MAX_PAYLOAD_BYTES"
    and "FRAG_MAX_PAYLOAD_BYTES < payload_length logical"
  defines "n \<equiv> frag_total (unat (payload_length logical))"
  assumes "S \<subset> {..<n}"
  shows "returns (ReassemblyBuffer_ingest s f d now_us) (\<lambda>(r, out, s').
    if insert i S = {..<n}
    then r = OK \<and> rx_inv s' \<and> payload_bytes out = payload_bytes logical \<and> payload_length out = payload_length logical \<and>
      source_id out = source_id logical \<and> message_id out = message_id logical
    else r = ERR_AGAIN \<and> rx_progress logical (insert i S) s')"
proof -
  note F = fragment_fields [OF assms(2,5,6,4), folded n_def]
  have key: "source_id f = source_id logical" "env_wf f" using assms(2) by (simp_all add: is_fragment_of_def)
  have inv: "rx_inv s" using assms(1) by (simp add: rx_progress_def)
  have init: "rx_initialized s" using inv by (simp add: rx_inv_def)
  obtain k s1 where k: "ReassemblyBuffer_find_or_open_slot s f 0 now_us = Some (OK, k, s1)" "rx_inv s1" "k < 8"
    "holds_fragments logical S (rx_slots s1 ! k)"
    using find_or_open_progress [OF assms(1-6), of now_us] by blast
  let ?x = "rx_slots s1 ! k"
  have act: "sl_active ?x" "sl_expected_count ?x = fragment_count f"
    using k(4) assms(2) by (simp_all add: holds_fragments_def sl_matches_def is_fragment_of_def)
  have len: "length (rx_slots s1) = 8" using k(2) by (rule rx_inv_len)
  have bit: "sl_received_mask ?x AND push_bit (unat (fragment_index f)) 1 \<noteq> 0 \<longleftrightarrow> i \<in> S"
    using k(4) F(4) by (simp add: holds_fragments_def bit_iff_and_push_bit_not_eq_0 [symmetric] del: push_bit_of_1)
  have ing: "ReassemblyBuffer_ingest s f d now_us = ReassemblyBuffer_ingest_multifrag s f d now_us"
    using validate_metadata_eq [OF inv] F(7,8) init key assms(3) by (simp add: ReassemblyBuffer_ingest_def not_le [symmetric])
  show ?thesis
  proof (cases "i \<in> S")
    case True
    then have "insert i S \<noteq> {..<n}" using assms(8) by auto
    moreover have "rx_progress logical (insert i S) s1"
      using True k by (auto simp: rx_progress_def insert_absorb)
    ultimately show ?thesis
      using k(1) bit True init F(7) by (simp add: ing ReassemblyBuffer_ingest_multifrag_def del: push_bit_of_1)
  next
    case False
    have sub: "S \<subseteq> {..<frag_total (unat (payload_length logical))}" using assms(8) by (auto simp: n_def)
    note H = holds_record [OF k(4) sub assms(2) False assms(4-6)]
    let ?y = "sl_record ?x f" and ?s2 = "rx_record s1 k f"
    have rec: "ReassemblyBuffer_record_fragment s1 k f = Some (OK, ?s2)"
      using H(2,3) by (simp add: record_fragment_cases [OF len k(3) F(5)] rx_record_def)
    have y: "rx_slots ?s2 ! k = ?y" using len k(3) by (simp add: rx_record_def)
    have yact: "sl_active ?y" "slot_ok ?y" "sl_expected_count ?y = fragment_count f"
      using H(1) act by (simp_all add: holds_fragments_def sl_matches_def sl_record_def)
    have inv2: "rx_inv ?s2"
      unfolding rx_record_def using k(2,3) yact(2) by (rule rx_inv_update) (simp_all add: sl_record_def act)
    have "(\<forall>j < n. bit (sl_received_mask ?y) j) \<longleftrightarrow> {..<n} \<subseteq> insert i S"
      using H(1) by (auto simp: holds_fragments_def)
    then have c: "ReassemblyBuffer_is_complete ?s2 k = Some (insert i S = {..<n})"
      using is_complete_eq [OF k(3), of ?s2] y yact F(1,6) assms(8) by auto
    show ?thesis
    proof (cases "insert i S = {..<n}")
      case False
      have "rx_progress logical (insert i S) ?s2"
        using inv2 H(1) y k(3) by (auto simp: rx_progress_def)
      with k(1) bit \<open>i \<notin> S\<close> rec c False init F(7) show ?thesis
        by (simp add: ing ReassemblyBuffer_ingest_multifrag_def del: push_bit_of_1)
    next
      case True
      then have H': "holds_fragments logical {..<frag_total (unat (payload_length logical))} ?y"
        using H(1) by (simp add: n_def)
      note C = holds_complete [OF H' assms(4,5)] and W = sl_assembled_wf [OF yact(2,1)]
      have len2: "length (rx_slots ?s2) = 8" using inv2 by (rule rx_inv_len)
      have a: "ReassemblyBuffer_assemble_and_free ?s2 k d =
        Some (OK, sl_assembled ?y, ?s2\<lparr> rx_slots := (rx_slots ?s2)[k := sl_release ?y] \<rparr>)"
        using assemble_eq [OF len2 k(3), of d] y yact(1) C(1) by simp
      have "rx_inv (?s2\<lparr> rx_slots := (rx_slots ?s2)[k := sl_release ?y] \<rparr>)"
        using inv2 k(3) by (rule rx_inv_release) simp
      moreover have "sl_source_id ?y = source_id logical" "sl_message_id ?y = message_id logical"
        using H' by (simp_all add: holds_fragments_def sl_matches_def)
      ultimately show ?thesis
        using k(1) bit \<open>i \<notin> S\<close> rec c True a C W init F(7)
        by (simp add: ing ReassemblyBuffer_ingest_multifrag_def del: push_bit_of_1)
    qed
  qed
qed


lemma ingest_all_progress:
  assumes "source_id logical \<noteq> 0" and "env_wf logical" and "payload_length logical \<le> MSG_MAX_PAYLOAD_BYTES"
    and "FRAG_MAX_PAYLOAD_BYTES < payload_length logical"
  defines "n \<equiv> frag_total (unat (payload_length logical))"
  shows "rx_progress logical S s \<Longrightarrow> list_all (\<lambda>(i, f). is_fragment_of logical i f) ps \<Longrightarrow>
    S \<union> set (map fst ps) \<subset> {..<n} \<Longrightarrow>
    returns (ingest_all s (map snd ps) d now_us) (\<lambda>(rs, s'). rs = replicate (length ps) ERR_AGAIN \<and>
      rx_progress logical (S \<union> set (map fst ps)) s')"
proof (induction ps arbitrary: s S)
  case Nil
  then show ?case by simp
next
  case (Cons p ps)
  obtain i f where p: "p = (i, f)" by (cases p)
  have fr: "is_fragment_of logical i f" using Cons.prems(2) p by simp
  have ne: "insert i S \<noteq> {..<n}" and sub: "S \<subset> {..<n}" using Cons.prems(3) p by auto
  from ingest_step [OF Cons.prems(1) fr assms(1-4), folded n_def, OF sub, of d now_us] ne obtain out s1 where
    s1: "ReassemblyBuffer_ingest s f d now_us = Some (ERR_AGAIN, out, s1)" "rx_progress logical (insert i S) s1"
    by (auto elim!: returnsE)
  have "returns (ingest_all s1 (map snd ps) d now_us) (\<lambda>(rs, s'). rs = replicate (length ps) ERR_AGAIN \<and>
      rx_progress logical (insert i S \<union> set (map fst ps)) s')"
    using Cons.prems p by (intro Cons.IH s1(2)) auto
  with s1(1) p show ?case by (auto elim!: returnsE)
qed

lemma reassemble_arrivals:
  assumes "rx_inv s" and "rx_has_room s (source_id logical) (message_id logical)"
    and "source_id logical \<noteq> NODE_ID_INVALID" and "env_wf logical"
    and "payload_length logical \<le> MSG_MAX_PAYLOAD_BYTES" and "FRAG_MAX_PAYLOAD_BYTES < payload_length logical"
    and "list_all (\<lambda>(i, f). is_fragment_of logical i f) (ps @ [(k, last_frag)])"
    and "insert k (set (map fst ps)) = {..<frag_total (unat (payload_length logical))}" and "k \<notin> set (map fst ps)"
  shows "returns (do { (rs, s) \<leftarrow> ingest_all s (map snd ps) d now_us;
                       (r, out, s) \<leftarrow> ReassemblyBuffer_ingest s last_frag d now_us;
                       Some (rs, r, out, s) })
    (\<lambda>(rs, r, out, s'). rs = replicate (length ps) ERR_AGAIN \<and> r = OK \<and> rx_inv s' \<and>
       payload_bytes out = payload_bytes logical \<and> payload_length out = payload_length logical \<and>
       source_id out = source_id logical \<and> message_id out = message_id logical)"
proof -
  have src: "source_id logical \<noteq> 0" using assms(3) by simp
  have start: "rx_progress logical {} s" using assms(1,2) by (simp add: rx_progress_def)
  have sub: "{} \<union> set (map fst ps) \<subset> {..<frag_total (unat (payload_length logical))}" using assms(8,9) by auto
  have fr: "list_all (\<lambda>(i, f). is_fragment_of logical i f) ps" "is_fragment_of logical k last_frag"
    using assms(7) by simp_all
  from ingest_all_progress [OF src assms(4-6) start fr(1) sub, of d now_us] obtain s1 where
    s1: "ingest_all s (map snd ps) d now_us = Some (replicate (length ps) ERR_AGAIN, s1)"
      "rx_progress logical (set (map fst ps)) s1"
    by (auto elim!: returnsE)
  from ingest_step [OF s1(2) fr(2) src assms(4-6), of d now_us] sub assms(8) s1(1) show ?thesis
    by (auto elim!: returnsE)
qed

text \<open>A message split into several fragments is reassembled from any arrival order, with any
  duplicates in between: every fragment but the last missing one is answered with \<open>ERR_AGAIN\<close>, and that
  one completes the message with exactly the original payload, length and key.\<close>

theorem reassembly_any_order:
  assumes "rx_inv s" and "rx_has_room s (source_id logical) (message_id logical)"
    and "source_id logical \<noteq> NODE_ID_INVALID" and "env_wf logical"
    and "payload_length logical \<le> MSG_MAX_PAYLOAD_BYTES" and "FRAG_MAX_PAYLOAD_BYTES < payload_length logical"
    and "list_all (\<lambda>(i, f). is_fragment_of logical i f) (ps @ [(k, last_frag)])"
    and "insert k (set (map fst ps)) = {..<frag_total (unat (payload_length logical))}" and "k \<notin> set (map fst ps)"
  shows "returns (do { (rs, s) \<leftarrow> ingest_all s (map snd ps) d now_us;
                       (r, out, s) \<leftarrow> ReassemblyBuffer_ingest s last_frag d now_us;
                       Some (rs, r, out, s) })
    (\<lambda>(rs, r, out, s'). rs = replicate (length ps) ERR_AGAIN \<and> r = OK \<and> rx_inv s' \<and>
       payload_bytes out = payload_bytes logical \<and> payload_length out = payload_length logical \<and>
       source_id out = source_id logical \<and> message_id out = message_id logical)"
  using assms by (rule reassemble_arrivals)

lemma rx_empty_room:
  assumes "list_all (\<lambda>x. \<not> sl_active x) (rx_slots s)" and "length (rx_slots s) = 8" and "rx_initialized s"
  shows "rx_inv s" and "rx_has_room s src mid"
proof -
  have all: "\<And>x. x \<in> set (rx_slots s) \<Longrightarrow> \<not> sl_active x" using assms(1) by (simp add: list_all_iff)
  have cnt: "rx_open_for s src = 0" for src using all by (simp add: rx_open_for_def filter_empty_conv)
  show "rx_inv s"
    using assms cnt all by (simp add: rx_inv_def list_all_iff slot_ok_closed)
  have "rx_slots s \<noteq> []" using assms(2) by auto
  then have "list_ex (\<lambda>x. \<not> sl_active x) (rx_slots s)" using all by (cases "rx_slots s") simp_all
  then show "rx_has_room s src mid"
    using cnt all by (auto simp: rx_has_room_def list_ex_iff sl_matches_def)
qed

lemma ReassemblyBuffer_init_spec [inv_intro]:
  "length (rx_slots s) = 8 \<Longrightarrow> returns (ReassemblyBuffer_init s) (\<lambda>s'. rx_inv s' \<and> rx_has_room s' src mid)"
  using rx_empty_room [of "\<lparr> rx_slots = map sl_init (rx_slots s), rx_initialized = True \<rparr>"]
  by (simp add: ReassemblyBuffer_init_def sl_init_def list_all_iff)

text \<open>Claim C33. Fragmentation and reassembly are inverse: the fragments that \<open>fragment_message\<close>
  produces for a message of more than 1024 bytes, delivered in any order, reassemble to its payload.\<close>

theorem fragment_reassemble_roundtrip:
  assumes "rx_inv s" and "rx_has_room s (source_id logical) (message_id logical)"
    and "source_id logical \<noteq> NODE_ID_INVALID" and "env_wf logical"
    and "payload_length logical \<le> MSG_MAX_PAYLOAD_BYTES" and "FRAG_MAX_PAYLOAD_BYTES < payload_length logical"
    and "distinct (is @ [k])" and "set (is @ [k]) = {..<frag_total (unat (payload_length logical))}"
  shows "returns (do { (n, fs) \<leftarrow> fragment_message logical (replicate 4 envelope_init) 4;
                       (rs, s) \<leftarrow> ingest_all s (map ((!) fs) is) d now_us;
                       (r, out, s) \<leftarrow> ReassemblyBuffer_ingest s (fs ! k) d now_us;
                       Some (rs, r, out) })
    (\<lambda>(rs, r, out). set rs \<subseteq> {ERR_AGAIN} \<and> r = OK \<and> payload_bytes out = payload_bytes logical)"
proof -
  let ?n = "frag_total (unat (payload_length logical))"
  from fragment_message_spec [OF assms(4,5), of 4 "replicate 4 envelope_init"] obtain fs where
    fs: "fragment_message logical (replicate 4 envelope_init) 4 = Some (?n, fs)"
      "\<forall>i < ?n. is_fragment_of logical i (fs ! i)"
    by (auto elim!: returnsE)
  let ?ps = "map (\<lambda>i. (i, fs ! i)) is"
  have ps: "map snd ?ps = map ((!) fs) is" "set (map fst ?ps) = set is" by (simp_all add: comp_def image_image)
  have "is_fragment_of logical i (fs ! i)" if "i \<in> set (is @ [k])" for i
    using fs(2) that unfolding assms(8) by simp
  then have fr: "list_all (\<lambda>(i, f). is_fragment_of logical i f) (?ps @ [(k, fs ! k)])"
    by (simp add: list_all_iff)
  have "insert k (set (map fst ?ps)) = {..<?n}" "k \<notin> set (map fst ?ps)"
    unfolding ps(2) using assms(7,8) by simp_all
  from reassemble_arrivals [OF assms(1-6) fr this, of d now_us, unfolded ps(1)] fs(1) show ?thesis
    by (auto elim!: returnsE simp: bind_eq_Some_conv)
qed


section \<open>Sweeps\<close>

lemma sweeps_headers:
  "rx_headers P s \<Longrightarrow> ReassemblyBuffer_sweep_expired s now_us = Some s' \<Longrightarrow> rx_headers P s'"
  "rx_headers P s \<Longrightarrow> ReassemblyBuffer_sweep_stale s now_us threshold = Some (n, s') \<Longrightarrow> rx_headers P s'"
proof -
  show "rx_headers P s \<Longrightarrow> ReassemblyBuffer_sweep_expired s now_us = Some s' \<Longrightarrow> rx_headers P s'"
    unfolding ReassemblyBuffer_sweep_expired_def
    by (auto simp: bind_eq_Some_conv nc_assert_def simp del: upt_rec_numeral split: if_splits
        elim!: for_each_partial intro!: rx_headers_update)
  show "rx_headers P s \<Longrightarrow> ReassemblyBuffer_sweep_stale s now_us threshold = Some (n, s') \<Longrightarrow> rx_headers P s'"
    unfolding ReassemblyBuffer_sweep_stale_def
    by (auto simp: bind_eq_Some_conv nc_assert_def simp del: upt_rec_numeral split: if_splits
        dest!: for_each_partial [where I = "\<lambda>(n, s). rx_headers P s"] intro!: rx_headers_update)
qed

lemma sweep_expired_inv [inv_intro]:
  assumes "rx_inv s" and "now_us \<noteq> 0"
  shows "returns (ReassemblyBuffer_sweep_expired s now_us) rx_inv"
proof -
  have "rx_initialized s" using assms(1) by (simp add: rx_inv_def)
  then show ?thesis
    unfolding ReassemblyBuffer_sweep_expired_def using assms
    by (auto simp: word_gt_0 simp del: upt_rec_numeral intro!: for_each_inv rx_inv_release)
qed

lemma sweep_stale_spec:
  assumes "rx_inv s" and "threshold \<noteq> 0"
  shows "returns (ReassemblyBuffer_sweep_stale s now_us threshold) (\<lambda>(n, s'). rx_inv s' \<and>
    n = length (filter (sl_stale now_us threshold) (rx_slots s)) \<and>
    rx_slots s' = map (\<lambda>x. if sl_stale now_us threshold x then x\<lparr> sl_active := False, sl_received_mask := 0,
                                 sl_expected_count := 0, sl_open_time_us := 0 \<rparr> else x) (rx_slots s))"
proof -
  let ?g = "\<lambda>x. x\<lparr> sl_active := False, sl_received_mask := 0, sl_expected_count := 0, sl_open_time_us := 0 \<rparr>"
  let ?f = "\<lambda>x. if sl_stale now_us threshold x then ?g x else x"
  let ?b = "\<lambda>i (freed, s). if \<not> sl_active (rx_slots s ! i) then Some (freed, s)
         else if now_us \<ge> sl_open_time_us (rx_slots s ! i) \<and> now_us - sl_open_time_us (rx_slots s ! i) \<ge> threshold
         then Some (freed + 1, s\<lparr> rx_slots := (rx_slots s)[i := ?g (rx_slots s ! i)] \<rparr>) else Some (freed, s)"
  let ?P = "\<lambda>k (n, t). rx_inv t \<and> rx_slots t = mapped_to k ?f (rx_slots s) \<and>
    n = length (filter (sl_stale now_us threshold) (take k (rx_slots s)))"
  have len: "length (rx_slots s) = 8" using assms(1) by (rule rx_inv_len)
  have loop: "returns (for_each ?b [0..<8] (0, s)) (?P 8)"
  proof (rule for_each_upt [where P = ?P])
    show "?P 0 (0, s)" using assms(1) by simp
    fix k x assume k: "k < 8" and Px: "?P k x"
    obtain n t where x: "x = (n, t)" by (cases x)
    have nth: "rx_slots t ! k = rx_slots s ! k" using Px x k len by simp
    show "returns (?b k x) (?P (Suc k))"
    proof (cases "sl_stale now_us threshold (rx_slots s ! k)")
      case True
      have "rx_inv (t\<lparr> rx_slots := (rx_slots t)[k := ?g (rx_slots t ! k)] \<rparr>)"
        using Px x k by (intro rx_inv_release) simp_all
      with True Px x k len nth mapped_to_update [of k "rx_slots s" ?f] show ?thesis
        by (simp add: filter_take_Suc sl_stale_def)
    next
      case False
      with Px x k len nth mapped_to_same [of k "rx_slots s" ?f] show ?thesis
        by (auto simp: filter_take_Suc sl_stale_def)
    qed
  qed
  have "length (filter (sl_stale now_us threshold) (rx_slots s)) \<le> 8"
    using length_filter_le [of "sl_stale now_us threshold" "rx_slots s"] len by simp
  with loop assms len show ?thesis
    unfolding ReassemblyBuffer_sweep_stale_def
    by (auto simp: rx_inv_def [of s] simp del: upt_rec_numeral elim!: returns_mono)
qed

lemma sweep_stale_inv [inv_intro]: "rx_inv s \<Longrightarrow> returns (ReassemblyBuffer_sweep_stale s now_us threshold) (\<lambda>(n, s'). rx_inv s')"
proof (cases "threshold = 0")
  case True
  assume "rx_inv s"
  with True show ?thesis by (simp add: ReassemblyBuffer_sweep_stale_def rx_inv_def)
next
  case False
  assume "rx_inv s"
  from sweep_stale_spec [OF this False] show ?thesis by (rule returns_mono) auto
qed

text \<open>The stale sweep frees exactly the open slots that have been open for at least the
  threshold (slots with an open time in the future excepted), reports how many, and leaves all other
  slots untouched; a zero threshold disables it.\<close>

theorem sweep_stale_exact:
  assumes "rx_inv s" and "threshold \<noteq> 0"
  shows "returns (ReassemblyBuffer_sweep_stale s now_us threshold) (\<lambda>(n, s'). rx_inv s' \<and>
    n = length (filter (sl_stale now_us threshold) (rx_slots s)) \<and>
    rx_slots s' = map (\<lambda>x. if sl_stale now_us threshold x then x\<lparr> sl_active := False, sl_received_mask := 0,
                                 sl_expected_count := 0, sl_open_time_us := 0 \<rparr> else x) (rx_slots s))"
  using assms by (rule sweep_stale_spec)

section \<open>Examples\<close>

lemma example_buffer: "rx_inv example_rx" "rx_has_room example_rx src mid"
  by (rule rx_empty_room; simp add: example_rx_def sl_release_def list_all_iff)+

lemma example_logical_wf:
  "env_wf example_logical" "payload_length example_logical = 2500" "source_id example_logical = 1"
  "payload_bytes example_logical = replicate 2500 0"
  by (simp_all add: example_logical_def env_wf_def envelope_init_def payload_bytes_def)

lemma example_fragment: "i < 3 \<Longrightarrow> is_fragment_of example_logical i (example_frag i)"
proof -
  assume i: "i < 3"
  have "frag_total 2500 = 3" by (simp add: frag_total_def)
  moreover have "frag_slice i (replicate 2500 (0 :: u8)) = replicate (min 1024 (2500 - 1024 * i)) 0"
    by (simp add: frag_slice_def)
  moreover have "unat (of_nat (min 1024 (2500 - 1024 * i)) :: u32) = min 1024 (2500 - 1024 * i)"
    by (simp add: unat_of_nat)
  ultimately show ?thesis
    using i example_logical_wf
    by (simp add: is_fragment_of_def example_frag_def env_wf_def payload_bytes_def)
      (simp add: example_logical_def envelope_init_def)
qed

theorem reassembly_safe_witness:
  "returns (ReassemblyBuffer_ingest example_rx (example_frag 1) envelope_init 5) (\<lambda>(r, out, s'). rx_inv s')"
proof -
  have "env_wf (example_frag 1)" "source_id (example_frag 1) \<noteq> NODE_ID_INVALID"
    "payload_length (example_frag 1) \<le> MSG_MAX_PAYLOAD_BYTES"
    by (simp_all add: example_frag_def example_logical_def env_wf_def envelope_init_def)
  from reassembly_safe [OF example_buffer(1) this(2,1,3), of envelope_init 5] show ?thesis
    by (auto elim!: returns_mono)
qed

theorem reassembly_any_order_witness:
  "returns (do { (rs, s) \<leftarrow> ingest_all example_rx [example_frag 2, example_frag 2, example_frag 0] envelope_init 5;
                 (r, out, s) \<leftarrow> ReassemblyBuffer_ingest s (example_frag 1) envelope_init 5;
                 Some (rs, r, out, s) })
    (\<lambda>(rs, r, out, s'). r = OK \<and> payload_bytes out = replicate 2500 0)"
proof -
  let ?ps = "[(2 :: nat, example_frag 2), (2, example_frag 2), (0, example_frag 0)]"
  have set: "insert 1 (set (map fst ?ps)) = {..<frag_total (unat (payload_length example_logical))}"
    by (auto simp: example_logical_wf frag_total_def)
  have fr: "list_all (\<lambda>(i, f). is_fragment_of example_logical i f) (?ps @ [(1, example_frag 1)])"
    by (simp add: example_fragment)
  have "returns (do { (rs, s) \<leftarrow> ingest_all example_rx (map snd ?ps) envelope_init 5;
                 (r, out, s) \<leftarrow> ReassemblyBuffer_ingest s (example_frag 1) envelope_init 5;
                 Some (rs, r, out, s) })
    (\<lambda>(rs, r, out, s'). rs = replicate (length ?ps) ERR_AGAIN \<and> r = OK \<and> rx_inv s' \<and>
       payload_bytes out = payload_bytes example_logical \<and> payload_length out = payload_length example_logical \<and>
       source_id out = source_id example_logical \<and> message_id out = message_id example_logical)"
    using fr set by (intro reassembly_any_order example_buffer example_logical_wf)
      (simp_all add: example_logical_wf, simp add: numeral_2_eq_2)
  then show ?thesis
    unfolding list.map snd_conv by (rule returns_mono) (auto simp: example_logical_wf)
qed

theorem fragment_reassemble_roundtrip_witness:
  "returns (do { (n, fs) \<leftarrow> fragment_message example_logical (replicate 4 envelope_init) 4;
                 (rs, s) \<leftarrow> ingest_all example_rx (map ((!) fs) [2, 0]) envelope_init 5;
                 (r, out, s) \<leftarrow> ReassemblyBuffer_ingest s (fs ! 1) envelope_init 5;
                 Some (rs, r, out) })
    (\<lambda>(rs, r, out). set rs \<subseteq> {ERR_AGAIN} \<and> r = OK \<and> payload_bytes out = payload_bytes example_logical)"
  by (rule fragment_reassemble_roundtrip [OF example_buffer])
     (auto simp: example_logical_wf frag_total_def)


theorem sweep_stale_exact_witness:
  "returns (ReassemblyBuffer_sweep_stale example_rx 100 10) (\<lambda>(n, s'). rx_inv s' \<and> n = 0)"
proof -
  have "filter (sl_stale 100 10) (rx_slots example_rx) = []"
    by (simp add: filter_empty_conv example_rx_def sl_stale_def)
  with sweep_stale_exact [OF example_buffer(1), of 10 100] show ?thesis by (auto elim!: returns_mono)
qed

end
