(* ===== verification/ChannelConfig.thy ===== *)
theory ChannelConfig
  imports Complex_Main MessageEnvelope
begin

text \<open>
  \<open>src/core/ChannelConfig.hpp\<close> with \<open>ImpairmentConfig.hpp\<close> and \<open>TlsConfig.hpp\<close>: the configuration records and their
  defaults. Addresses are C strings without the terminating zero; the path fields of \<open>TlsConfig\<close> are the raw arrays, because
  \<open>tls_path_valid\<close> looks for the zero in them. Probabilities are real numbers, so NaN is not represented.
\<close>

definition MAX_CHANNELS :: nat where [simp]: "MAX_CHANNELS = 8"
definition MAX_RETRY_COUNT :: u32 where [simp]: "MAX_RETRY_COUNT = 5"
definition TLS_PATH_MAX :: nat where [simp]: "TLS_PATH_MAX = 256"

section \<open>Impairments\<close>

record impairment_config =
  ic_enabled :: bool
  ic_fixed_latency_ms :: u32
  ic_jitter_mean_ms :: u32
  ic_jitter_variance_ms :: u32
  ic_loss_probability :: real
  ic_duplication_probability :: real
  ic_reorder_enabled :: bool
  ic_reorder_window_size :: u32
  ic_partition_enabled :: bool
  ic_partition_duration_ms :: u32
  ic_partition_gap_ms :: u32
  ic_prng_seed :: u64

definition impairment_config_default :: impairment_config where
  "impairment_config_default = \<lparr> ic_enabled = False, ic_fixed_latency_ms = 0, ic_jitter_mean_ms = 0, ic_jitter_variance_ms = 0,
     ic_loss_probability = 0, ic_duplication_probability = 0, ic_reorder_enabled = False, ic_reorder_window_size = 0,
     ic_partition_enabled = False, ic_partition_duration_ms = 0, ic_partition_gap_ms = 0, ic_prng_seed = 0 \<rparr>"

section \<open>TLS\<close>

datatype TlsRole = CLIENT | SERVER

record tls_config =
  tc_tls_enabled :: bool
  tc_role :: TlsRole
  tc_cert_file :: string
  tc_key_file :: string
  tc_ca_file :: string
  tc_verify_peer :: bool
  tc_peer_hostname :: string
  tc_crl_file :: string
  tc_require_crl :: bool
  tc_tls_require_forward_secrecy :: bool
  tc_session_resumption_enabled :: bool
  tc_session_ticket_lifetime_s :: u32

definition tls_config_default :: tls_config where
  "tls_config_default = \<lparr> tc_tls_enabled = False, tc_role = CLIENT, tc_cert_file = replicate TLS_PATH_MAX CHR 0x00,
     tc_key_file = replicate TLS_PATH_MAX CHR 0x00, tc_ca_file = replicate TLS_PATH_MAX CHR 0x00, tc_verify_peer = True,
     tc_peer_hostname = replicate TLS_PATH_MAX CHR 0x00, tc_crl_file = replicate TLS_PATH_MAX CHR 0x00, tc_require_crl = False,
     tc_tls_require_forward_secrecy = False, tc_session_resumption_enabled = False, tc_session_ticket_lifetime_s = 86400 \<rparr>"

definition tls_path_valid :: "string \<Rightarrow> bool" where
  "tls_path_valid path \<longleftrightarrow> first_idx (\<lambda>c. c = CHR 0x00) (take TLS_PATH_MAX path) \<noteq> None"

text \<open>The C string in a character array.\<close>

definition c_string :: "string \<Rightarrow> string" where
  "c_string s = takeWhile (\<lambda>c. c \<noteq> CHR 0x00) s"

section \<open>Channels and transports\<close>

record channel_config =
  cc_channel_id :: u8
  cc_priority :: u8
  cc_reliability :: ReliabilityClass
  cc_ordering :: OrderingMode
  cc_max_queue_depth :: u32
  cc_send_timeout_ms :: u32
  cc_recv_timeout_ms :: u32
  cc_max_retries :: u32
  cc_retry_backoff_ms :: u32
  cc_impairment :: impairment_config

definition channel_config_default :: "u8 \<Rightarrow> channel_config" where
  "channel_config_default i = \<lparr> cc_channel_id = i, cc_priority = i, cc_reliability = BEST_EFFORT, cc_ordering = UNORDERED,
     cc_max_queue_depth = MSG_RING_CAPACITY, cc_send_timeout_ms = 1000, cc_recv_timeout_ms = 1000,
     cc_max_retries = MAX_RETRY_COUNT, cc_retry_backoff_ms = 100, cc_impairment = impairment_config_default \<rparr>"

text \<open>A channel of a zeroed configuration.\<close>

definition channel_config_zero :: channel_config where
  "channel_config_zero = \<lparr> cc_channel_id = 0, cc_priority = 0, cc_reliability = BEST_EFFORT, cc_ordering = ORDERED,
     cc_max_queue_depth = 0, cc_send_timeout_ms = 0, cc_recv_timeout_ms = 0, cc_max_retries = 0, cc_retry_backoff_ms = 0,
     cc_impairment = impairment_config_default \<rparr>"

datatype TransportKind = TCP | UDP | LOCAL_SIM | DTLS_UDP

record transport_config =
  tcf_kind :: TransportKind
  tcf_bind_ip :: string
  tcf_bind_port :: u16
  tcf_peer_ip :: string
  tcf_peer_port :: u16
  tcf_connect_timeout_ms :: u32
  tcf_num_channels :: u32
  tcf_channels :: "channel_config list"
  tcf_local_node_id :: NodeId
  tcf_is_server :: bool
  tcf_tls :: tls_config

definition transport_config_valid :: "transport_config \<Rightarrow> bool" where
  "transport_config_valid cfg \<longleftrightarrow> unat (tcf_num_channels cfg) \<le> MAX_CHANNELS"

definition transport_config_default :: transport_config where
  "transport_config_default = \<lparr> tcf_kind = TCP, tcf_bind_ip = ''127.0.0.1'', tcf_bind_port = 9000, tcf_peer_ip = ''127.0.0.1'',
     tcf_peer_port = 9000, tcf_connect_timeout_ms = 5000, tcf_num_channels = 1,
     tcf_channels = (replicate MAX_CHANNELS channel_config_zero)[0 := channel_config_default 0], tcf_local_node_id = 1,
     tcf_is_server = False, tcf_tls = tls_config_default \<rparr>"

text \<open>The impairment every backend starts with: the default, or that of the first channel.\<close>

definition first_impairment :: "transport_config \<Rightarrow> impairment_config" where
  "first_impairment cfg = (if tcf_num_channels cfg > 0 then cc_impairment (tcf_channels cfg ! 0) else impairment_config_default)"

end
