(* ===== verification/DeliveryEngine.thy ===== *)
theory DeliveryEngine
  imports OrderingBuffer DeliveryEventRing DuplicateFilter AckTracker RetryManager
    ReassemblyBuffer ChannelConfig
begin

text \<open>
  \<open>src/core/DeliveryEngine.cpp\<close> with \<open>TransportInterface.hpp\<close>: the component
  that composes all the others. The engine's members are the record \<open>delivery_engine\<close>; the transport
  behind \<open>m_transport\<close> is a record of its virtual functions over a state of its own, which is passed
  along with the engine. An operation maps engine and transport to a result and their new states, or
  to \<open>None\<close> when an assertion fires.

  This theory holds the definitions. \<open>EngineInvariant\<close> states the invariant and the transport contract,
  \<open>DeliveryReceive\<close> and \<open>DeliverySend\<close> specify the two paths, \<open>DeliveryRun\<close> treats sequences of calls and
  \<open>DeliveryProperties\<close> the contracts of the single operations. Logging is not modelled, and the operating system's entropy and the process-wide count of
  fatal assertions are arguments.
\<close>

section \<open>Transport interface\<close>

record 't transport =
  tr_register_local_id :: "'t \<Rightarrow> NodeId \<Rightarrow> (Result \<times> 't) option"
  tr_pop_hello_peer :: "'t \<Rightarrow> (NodeId \<times> 't) option"
  tr_send_message :: "'t \<Rightarrow> envelope \<Rightarrow> (Result \<times> 't) option"
  tr_receive_message :: "'t \<Rightarrow> envelope \<Rightarrow> u32 \<Rightarrow> (Result \<times> envelope \<times> 't) option"
  tr_get_transport_stats :: "'t \<Rightarrow> transport_stats \<Rightarrow> transport_stats option"

record seq_state =
  ss_dst :: NodeId
  ss_next_seq :: u32
  ss_active :: bool

record delivery_engine =
  eng_cfg :: channel_config
  eng_local_id :: NodeId
  eng_ack_tracker :: ack_tracker
  eng_retry_manager :: retry_manager
  eng_dedup :: dup_filter
  eng_id_gen :: u64
  eng_initialized :: bool
  eng_last_now_us :: u64
  eng_retry_buf :: "envelope list"
  eng_timeout_buf :: "envelope list"
  eng_stats :: delivery_stats
  eng_events :: event_ring
  eng_reassembly :: reasm_buffer
  eng_ordering :: ordering_buffer
  eng_seq_state :: "seq_state list"
  eng_frag_buf :: "envelope list"
  eng_ordering_freed_buf :: "envelope list"
  eng_held_pending :: envelope
  eng_held_pending_valid :: bool

section \<open>Helpers of the receive path\<close>

definition check_routing :: "envelope \<Rightarrow> NodeId \<Rightarrow> u64 \<Rightarrow> Result option" where
  "check_routing env local_id now_us = do {
     nc_assert (local_id \<noteq> NODE_ID_INVALID);
     nc_assert (now_us > 0);
     if timestamp_expired (expiry_time_us env) now_us then Some ERR_EXPIRED
     else if \<not> envelope_addressed_to env local_id then Some ERR_INVALID
     else Some OK
   }"

definition send_data_ack :: "'t transport \<Rightarrow> 't \<Rightarrow> envelope \<Rightarrow> NodeId \<Rightarrow> u64 \<Rightarrow> 't option" where
  "send_data_ack T t data_env local_id now_us = do {
     nc_assert (envelope_is_data data_env);
     nc_assert (local_id \<noteq> NODE_ID_INVALID);
     let ack_env = envelope_make_ack data_env local_id now_us;
     (res, t) \<leftarrow> tr_send_message T t ack_env;
     nc_assert (message_type ack_env = ACK);
     Some t
   }"

definition process_ack ::
    "ack_tracker \<Rightarrow> retry_manager \<Rightarrow> envelope \<Rightarrow> (ack_tracker \<times> retry_manager) option" where
  "process_ack ak rm env = do {
     nc_assert (message_type env = ACK);
     nc_assert (envelope_is_control env);
     (dst_res, expected_ack_sender) \<leftarrow>
       AckTracker_get_tracked_destination ak (destination_id env) (message_id env) NODE_ID_INVALID;
     if dst_res = OK \<and> expected_ack_sender \<noteq> source_id env then Some (ak, rm)
     else do {
       (ack_res, ak) \<leftarrow> AckTracker_on_ack ak (destination_id env) (message_id env);
       (retry_res, rm) \<leftarrow> RetryManager_on_ack rm (destination_id env) (message_id env);
       Some (ak, rm)
     }
   }"

section \<open>Initialisation\<close>

text \<open>\<open>strong_entropy\<close> and \<open>entropy\<close> are what \<open>get_seed_entropy\<close> returned; the build does not define
  \<open>ALLOW_WEAK_PRNG_SEED\<close>.\<close>

definition DeliveryEngine_init ::
    "'t transport \<Rightarrow> delivery_engine \<Rightarrow> 't \<Rightarrow> channel_config \<Rightarrow> NodeId \<Rightarrow> bool \<Rightarrow> u64 \<Rightarrow> (delivery_engine \<times> 't) option" where
  "DeliveryEngine_init T e t cfg local_id strong_entropy entropy = do {
     nc_assert (local_id \<noteq> NODE_ID_INVALID);
     let e = e\<lparr> eng_cfg := cfg, eng_local_id := local_id, eng_initialized := False \<rparr>;
     ak \<leftarrow> AckTracker_init (eng_ack_tracker e);
     rm \<leftarrow> RetryManager_init (eng_retry_manager e);
     df \<leftarrow> DuplicateFilter_init (eng_dedup e);
     nc_assert strong_entropy;
     nc_assert (entropy \<noteq> 0 \<or> local_id \<noteq> NODE_ID_INVALID);
     let id_seed = entropy XOR push_bit 32 (ucast local_id :: u64);
     let id_seed = (if id_seed = 0 then (ucast local_id :: u64) OR 1 else id_seed);
     nc_assert (id_seed \<noteq> 0);
     id_gen \<leftarrow> MessageIdGen_init id_seed;
     er \<leftarrow> DeliveryEventRing_init (eng_events e);
     rx \<leftarrow> ReassemblyBuffer_init (eng_reassembly e);
     ob \<leftarrow> OrderingBuffer_init (eng_ordering e) local_id;
     let e = e\<lparr> eng_ack_tracker := ak, eng_retry_manager := rm, eng_dedup := df, eng_id_gen := id_gen,
       eng_retry_buf := replicate (unat MSG_RING_CAPACITY) envelope_init,
       eng_timeout_buf := replicate ACK_TRACKER_CAPACITY envelope_init,
       eng_stats := delivery_stats_init, eng_events := er, eng_reassembly := rx, eng_ordering := ob,
       eng_seq_state := replicate ACK_TRACKER_CAPACITY \<lparr> ss_dst = 0, ss_next_seq = 1, ss_active = False \<rparr>,
       eng_frag_buf := replicate (unat FRAG_MAX_COUNT) envelope_init,
       eng_held_pending := envelope_init, eng_held_pending_valid := False,
       eng_last_now_us := 0, eng_initialized := True \<rparr>;
     (reg_res, t) \<leftarrow> tr_register_local_id T t local_id;
     nc_assert (eng_initialized e);
     Some (e, t)
   }"

section \<open>Observability\<close>

definition DeliveryEngine_emit_event ::
    "delivery_engine \<Rightarrow> DeliveryEventKind \<Rightarrow> u64 \<Rightarrow> NodeId \<Rightarrow> u64 \<Rightarrow> Result \<Rightarrow> delivery_engine option" where
  "DeliveryEngine_emit_event e kind mid node_id ts result = do {
     nc_assert (eng_initialized e);
     nc_assert (ts > 0);
     let ev = \<lparr> ev_message_id = mid, ev_timestamp_us = ts, ev_node_id = node_id,
                ev_kind = kind, ev_result = result \<rparr>;
     er \<leftarrow> DeliveryEventRing_push (eng_events e) ev;
     Some (e\<lparr> eng_events := er \<rparr>)
   }"

definition DeliveryEngine_emit_routing_drop_event ::
    "delivery_engine \<Rightarrow> envelope \<Rightarrow> Result \<Rightarrow> u64 \<Rightarrow> delivery_engine option" where
  "DeliveryEngine_emit_routing_drop_event e env routing_res now_us = do {
     nc_assert (routing_res \<noteq> OK);
     nc_assert (now_us > 0);
     if routing_res = ERR_EXPIRED
     then DeliveryEngine_emit_event e EXPIRY_DROP (message_id env) (source_id env) now_us routing_res
     else DeliveryEngine_emit_event e MISROUTE_DROP (message_id env) (source_id env) now_us routing_res
   }"

definition DeliveryEngine_account_ordering_expiry_drops ::
    "delivery_engine \<Rightarrow> envelope list \<Rightarrow> nat \<Rightarrow> u64 \<Rightarrow> delivery_engine option" where
  "DeliveryEngine_account_ordering_expiry_drops e freed cnt now_us = do {
     nc_assert (cnt \<le> ORDERING_HOLD_COUNT);
     nc_assert (now_us > 0);
     if cnt = 0 then Some e
     else do {
       let e = e\<lparr> eng_stats := (eng_stats e)\<lparr> msgs_dropped_expired :=
                  msgs_dropped_expired (eng_stats e) + of_nat cnt \<rparr> \<rparr>;
       for_each (\<lambda>i e. DeliveryEngine_emit_event e EXPIRY_DROP (message_id (freed ! i)) (source_id (freed ! i))
                         now_us ERR_EXPIRED) [0..<cnt] e
     }
   }"

definition DeliveryEngine_poll_event ::
    "delivery_engine \<Rightarrow> delivery_event \<Rightarrow> (Result \<times> delivery_event \<times> delivery_engine) option" where
  "DeliveryEngine_poll_event e out = do {
     nc_assert (eng_initialized e);
     n \<leftarrow> DeliveryEventRing_size (eng_events e);
     nc_assert (n \<le> DELIVERY_EVENT_RING_CAPACITY);
     (r, out, er) \<leftarrow> DeliveryEventRing_pop (eng_events e) out;
     Some (r, out, e\<lparr> eng_events := er \<rparr>)
   }"

definition DeliveryEngine_pending_event_count :: "delivery_engine \<Rightarrow> nat option" where
  "DeliveryEngine_pending_event_count e = do {
     nc_assert (eng_initialized e);
     DeliveryEventRing_size (eng_events e)
   }"

text \<open>The loop of \<open>drain_events\<close> with \<open>n\<close> iterations left; it breaks when the ring is empty.\<close>

primrec drain_loop ::
    "nat \<Rightarrow> nat \<Rightarrow> delivery_event list \<Rightarrow> event_ring \<Rightarrow> (nat \<times> delivery_event list \<times> event_ring) option" where
  "drain_loop 0 drained out_buf er = Some (drained, out_buf, er)"
| "drain_loop (Suc n) drained out_buf er = do {
     (pop_res, out, er) \<leftarrow> DeliveryEventRing_pop er (out_buf ! drained);
     if pop_res = ERR_EMPTY then Some (drained, out_buf, er)
     else drain_loop n (drained + 1) (out_buf[drained := out]) er
   }"

definition DeliveryEngine_drain_events ::
    "delivery_engine \<Rightarrow> delivery_event list \<Rightarrow> nat \<Rightarrow> (nat \<times> delivery_event list \<times> delivery_engine) option" where
  "DeliveryEngine_drain_events e out_buf buf_cap = do {
     nc_assert (eng_initialized e);
     (drained, out_buf, er) \<leftarrow> drain_loop buf_cap 0 out_buf (eng_events e);
     nc_assert (drained \<le> buf_cap);
     Some (drained, out_buf, e\<lparr> eng_events := er \<rparr>)
   }"

section \<open>Sending\<close>

definition DeliveryEngine_send_via_transport ::
    "'t transport \<Rightarrow> delivery_engine \<Rightarrow> 't \<Rightarrow> envelope \<Rightarrow> u64 \<Rightarrow> (Result \<times> 't) option" where
  "DeliveryEngine_send_via_transport T e t env now_us = do {
     nc_assert (eng_initialized e);
     nc_assert (now_us > 0);
     if timestamp_expired (expiry_time_us env) now_us then Some (ERR_EXPIRED, t)
     else do {
       nc_assert (envelope_valid env);
       (res, t) \<leftarrow> tr_send_message T t env;
       Some (res, t)
     }
   }"

definition reserve_bookkeeping ::
    "ack_tracker \<Rightarrow> retry_manager \<Rightarrow> envelope \<Rightarrow> channel_config \<Rightarrow> u64 \<Rightarrow> (Result \<times> ack_tracker \<times> retry_manager) option" where
  "reserve_bookkeeping ak rm env cfg now_us = do {
     nc_assert (now_us > 0);
     nc_assert (envelope_valid env);
     if reliability_class env \<noteq> RELIABLE_ACK \<and> reliability_class env \<noteq> RELIABLE_RETRY then Some (OK, ak, rm)
     else do {
       let ack_deadline = timestamp_deadline_us now_us (cc_recv_timeout_ms cfg);
       (track_res, ak) \<leftarrow> AckTracker_track ak env ack_deadline;
       if track_res \<noteq> OK then Some (track_res, ak, rm)
       else if reliability_class env \<noteq> RELIABLE_RETRY then Some (OK, ak, rm)
       else do {
         (sched_res, rm) \<leftarrow> RetryManager_schedule rm env (cc_max_retries cfg) (cc_retry_backoff_ms cfg) now_us;
         if sched_res \<noteq> OK then do {
           (cancel_res, ak) \<leftarrow> AckTracker_cancel ak (source_id env) (message_id env);
           Some (sched_res, ak, rm)
         }
         else Some (OK, ak, rm)
       }
     }
   }"

definition rollback_on_transport_failure ::
    "ack_tracker \<Rightarrow> retry_manager \<Rightarrow> envelope \<Rightarrow> (ack_tracker \<times> retry_manager) option" where
  "rollback_on_transport_failure ak rm env = do {
     nc_assert (envelope_valid env);
     nc_assert (reliability_class env = RELIABLE_ACK \<or> reliability_class env = RELIABLE_RETRY);
     (ack_cancel_res, ak) \<leftarrow> AckTracker_cancel ak (source_id env) (message_id env);
     if reliability_class env = RELIABLE_RETRY then do {
       (retry_cancel_res, rm) \<leftarrow> RetryManager_cancel rm (source_id env) (message_id env);
       Some (ak, rm)
     }
     else Some (ak, rm)
   }"

definition handle_send_fragments_failure ::
    "ack_tracker \<Rightarrow> retry_manager \<Rightarrow> envelope \<Rightarrow> Result \<Rightarrow> (Result \<times> ack_tracker \<times> retry_manager) option" where
  "handle_send_fragments_failure ak rm env res = do {
     nc_assert (res \<noteq> OK);
     nc_assert (envelope_valid env);
     if res = ERR_IO_PARTIAL then Some (ERR_IO, ak, rm)
     else if reliability_class env = RELIABLE_ACK \<or> reliability_class env = RELIABLE_RETRY then do {
       (ak, rm) \<leftarrow> rollback_on_transport_failure ak rm env;
       Some (res, ak, rm)
     }
     else Some (res, ak, rm)
   }"

definition DeliveryEngine_record_send_failure ::
    "delivery_engine \<Rightarrow> envelope \<Rightarrow> Result \<Rightarrow> delivery_engine option" where
  "DeliveryEngine_record_send_failure e env res = do {
     nc_assert (res \<noteq> OK);
     nc_assert (eng_initialized e);
     if res = ERR_EXPIRED then do {
       let e = e\<lparr> eng_stats := (eng_stats e)\<lparr> msgs_dropped_expired := msgs_dropped_expired (eng_stats e) + 1 \<rparr> \<rparr>;
       DeliveryEngine_emit_event e EXPIRY_DROP (message_id env) (destination_id env) (timestamp_us env) res
     }
     else DeliveryEngine_emit_event e SEND_FAIL (message_id env) (destination_id env) (timestamp_us env) res
   }"

definition DeliveryEngine_next_seq_for :: "delivery_engine \<Rightarrow> NodeId \<Rightarrow> (u32 \<times> delivery_engine) option" where
  "DeliveryEngine_next_seq_for e dst = do {
     nc_assert (eng_initialized e);
     nc_assert (dst \<noteq> 0);
     case first_idx (\<lambda>x. ss_active x \<and> ss_dst x = dst) (eng_seq_state e) of
       Some i \<Rightarrow> do {
         let seq = ss_next_seq (eng_seq_state e ! i);
         let next = seq + 1;
         let next = (if next = 0 then 1 else next);
         Some (seq, e\<lparr> eng_seq_state := (eng_seq_state e)[i := (eng_seq_state e ! i)\<lparr> ss_next_seq := next \<rparr>] \<rparr>)
       }
     | None \<Rightarrow>
         (case first_idx (\<lambda>x. \<not> ss_active x) (eng_seq_state e) of
            Some i \<Rightarrow> do {
              let e = e\<lparr> eng_seq_state := (eng_seq_state e)[i := \<lparr> ss_dst = dst, ss_next_seq = 2, ss_active = True \<rparr>] \<rparr>;
              nc_assert (ss_active (eng_seq_state e ! i));
              Some (1, e)
            }
          | None \<Rightarrow> Some (0, e))
   }"

text \<open>The loop of \<open>send_fragments\<close> over the remaining indices; it returns at the first failure.\<close>

primrec send_frag_loop ::
    "'t transport \<Rightarrow> delivery_engine \<Rightarrow> u64 \<Rightarrow> nat list \<Rightarrow> bool \<Rightarrow> 't \<Rightarrow> (Result \<times> bool \<times> 't) option" where
  "send_frag_loop T e now_us [] any_sent t = Some (OK, any_sent, t)"
| "send_frag_loop T e now_us (i # is) any_sent t = do {
     (res, t) \<leftarrow> DeliveryEngine_send_via_transport T e t (eng_frag_buf e ! i) now_us;
     if res \<noteq> OK then Some (if any_sent then ERR_IO_PARTIAL else ERR_IO, any_sent, t)
     else send_frag_loop T e now_us is True t
   }"

definition DeliveryEngine_send_fragments ::
    "'t transport \<Rightarrow> delivery_engine \<Rightarrow> 't \<Rightarrow> envelope \<Rightarrow> u64 \<Rightarrow> (Result \<times> delivery_engine \<times> 't) option" where
  "DeliveryEngine_send_fragments T e t env now_us = do {
     nc_assert (eng_initialized e);
     nc_assert (envelope_valid env);
     needed \<leftarrow> needs_fragmentation env;
     if \<not> needed then do {
       (res, t) \<leftarrow> DeliveryEngine_send_via_transport T e t env now_us;
       Some (res, e, t)
     }
     else do {
       (frag_count, buf) \<leftarrow> fragment_message env (eng_frag_buf e) (unat FRAG_MAX_COUNT);
       let e = e\<lparr> eng_frag_buf := buf \<rparr>;
       if frag_count = 0 then Some (ERR_INVALID, e, t)
       else do {
         nc_assert (frag_count \<le> unat FRAG_MAX_COUNT);
         (res, any_sent, t) \<leftarrow> send_frag_loop T e now_us [0..<frag_count] False t;
         if res \<noteq> OK then Some (res, e, t)
         else do {
           nc_assert (any_sent \<or> frag_count = 0);
           Some (OK, e, t)
         }
       }
     }
   }"

text \<open>The guard SEC-007 of the four timed operations: a clock value below the last one is refused.\<close>

definition time_goes_back :: "delivery_engine \<Rightarrow> u64 \<Rightarrow> bool" where
  "time_goes_back e now_us \<longleftrightarrow> eng_last_now_us e > 0 \<and> now_us < eng_last_now_us e"

definition DeliveryEngine_send ::
    "'t transport \<Rightarrow> delivery_engine \<Rightarrow> 't \<Rightarrow> envelope \<Rightarrow> u64 \<Rightarrow> (Result \<times> envelope \<times> delivery_engine \<times> 't) option" where
  "DeliveryEngine_send T e t env now_us = do {
     nc_assert (eng_initialized e);
     nc_assert (now_us > 0);
     if time_goes_back e now_us then Some (ERR_INVALID, env, e, t)
     else do {
       let e = e\<lparr> eng_last_now_us := now_us \<rparr>;
       (mid, id_gen) \<leftarrow> MessageIdGen_next (eng_id_gen e);
       let e = e\<lparr> eng_id_gen := id_gen \<rparr>;
       let env = env\<lparr> source_id := eng_local_id e, message_id := mid, timestamp_us := now_us \<rparr>;
       (env, e) \<leftarrow> (if envelope_is_data env \<and> sequence_num env = 0 \<and> cc_ordering (eng_cfg e) = ORDERED
         then do {
           (seq, e) \<leftarrow> DeliveryEngine_next_seq_for e (destination_id env);
           Some (env\<lparr> sequence_num := seq \<rparr>, e)
         }
         else Some (env, e));
       let env = env\<lparr> fragment_index := 0, fragment_count := 1,
                      total_payload_length := ucast (payload_length env) \<rparr>;
       (book_res, ak, rm) \<leftarrow>
         reserve_bookkeeping (eng_ack_tracker e) (eng_retry_manager e) env (eng_cfg e) now_us;
       let e = e\<lparr> eng_ack_tracker := ak, eng_retry_manager := rm \<rparr>;
       if book_res \<noteq> OK then do {
         e \<leftarrow> DeliveryEngine_record_send_failure e env book_res;
         Some (book_res, env, e, t)
       }
       else do {
         (res, e, t) \<leftarrow> DeliveryEngine_send_fragments T e t env now_us;
         if res \<noteq> OK then do {
           (reported, ak, rm) \<leftarrow>
             handle_send_fragments_failure (eng_ack_tracker e) (eng_retry_manager e) env res;
           let e = e\<lparr> eng_ack_tracker := ak, eng_retry_manager := rm \<rparr>;
           e \<leftarrow> DeliveryEngine_record_send_failure e env reported;
           Some (reported, env, e, t)
         }
         else do {
           let e = e\<lparr> eng_stats := (eng_stats e)\<lparr> msgs_sent := msgs_sent (eng_stats e) + 1 \<rparr> \<rparr>;
           e \<leftarrow> DeliveryEngine_emit_event e SEND_OK (message_id env) (destination_id env) now_us OK;
           nc_assert (source_id env = eng_local_id e);
           nc_assert (message_id env \<noteq> 0);
           Some (OK, env, e, t)
         }
       }
     }
   }"

section \<open>Receiving\<close>

definition DeliveryEngine_update_latency_stats ::
    "delivery_engine \<Rightarrow> envelope \<Rightarrow> u64 \<Rightarrow> delivery_engine option" where
  "DeliveryEngine_update_latency_stats e ack_env now_us = do {
     nc_assert (message_type ack_env = ACK);
     nc_assert (now_us > 0);
     (res, send_ts) \<leftarrow>
       AckTracker_get_send_timestamp (eng_ack_tracker e) (destination_id ack_env) (message_id ack_env) 0;
     if res \<noteq> OK then Some e
     else if now_us < send_ts then Some e
     else do {
       let rtt_us = now_us - send_ts;
       let st = (eng_stats e)\<lparr> latency_sample_count := latency_sample_count (eng_stats e) + 1,
                               latency_sum_us := latency_sum_us (eng_stats e) + rtt_us \<rparr>;
       let st = (if latency_sample_count st = 1
                 then st\<lparr> latency_min_us := rtt_us, latency_max_us := rtt_us \<rparr>
                 else (let st = (if rtt_us < latency_min_us st then st\<lparr> latency_min_us := rtt_us \<rparr> else st) in
                       if rtt_us > latency_max_us st then st\<lparr> latency_max_us := rtt_us \<rparr> else st));
       Some (e\<lparr> eng_stats := st \<rparr>)
     }
   }"

definition DeliveryEngine_handle_control_message ::
    "delivery_engine \<Rightarrow> envelope \<Rightarrow> u64 \<Rightarrow> delivery_engine option" where
  "DeliveryEngine_handle_control_message e env now_us = do {
     nc_assert (eng_initialized e);
     nc_assert (envelope_is_control env);
     if message_type env = ACK then do {
       e \<leftarrow> DeliveryEngine_update_latency_stats e env now_us;
       (ak, rm) \<leftarrow> process_ack (eng_ack_tracker e) (eng_retry_manager e) env;
       let e = e\<lparr> eng_ack_tracker := ak, eng_retry_manager := rm \<rparr>;
       DeliveryEngine_emit_event e ACK_RECEIVED (message_id env) (source_id env) now_us OK
     }
     else Some e
   }"

definition DeliveryEngine_handle_data_dedup ::
    "'t transport \<Rightarrow> delivery_engine \<Rightarrow> 't \<Rightarrow> envelope \<Rightarrow> u64 \<Rightarrow> (Result \<times> delivery_engine \<times> 't) option" where
  "DeliveryEngine_handle_data_dedup T e t env now_us = do {
     nc_assert (eng_initialized e);
     nc_assert (envelope_is_data env);
     if reliability_class env \<noteq> RELIABLE_RETRY then Some (OK, e, t)
     else do {
       (dedup_res, df) \<leftarrow> DuplicateFilter_check_and_record (eng_dedup e) (source_id env) (message_id env) now_us;
       let e = e\<lparr> eng_dedup := df \<rparr>;
       if dedup_res \<noteq> ERR_DUPLICATE then do {
         nc_assert (dedup_res = OK);
         Some (OK, e, t)
       }
       else do {
         let e = e\<lparr> eng_stats := (eng_stats e)\<lparr> msgs_dropped_duplicate := msgs_dropped_duplicate (eng_stats e) + 1 \<rparr> \<rparr>;
         t \<leftarrow> send_data_ack T t env (eng_local_id e) now_us;
         e \<leftarrow> DeliveryEngine_emit_event e DUPLICATE_DROP (message_id env) (source_id env) now_us ERR_DUPLICATE;
         Some (ERR_DUPLICATE, e, t)
       }
     }
   }"

definition DeliveryEngine_reset_peer_ordering :: "delivery_engine \<Rightarrow> NodeId \<Rightarrow> delivery_engine option" where
  "DeliveryEngine_reset_peer_ordering e src = do {
     nc_assert (eng_initialized e);
     nc_assert (src \<noteq> 0);
     let e = (if eng_held_pending_valid e \<and> source_id (eng_held_pending e) = src
              then e\<lparr> eng_held_pending_valid := False \<rparr> else e);
     ob \<leftarrow> OrderingBuffer_reset_peer (eng_ordering e) src;
     let e = e\<lparr> eng_ordering := ob \<rparr>;
     let e = (case first_idx (\<lambda>x. ss_active x \<and> ss_dst x = src) (eng_seq_state e) of
                Some i \<Rightarrow> e\<lparr> eng_seq_state := (eng_seq_state e)[i := (eng_seq_state e ! i)\<lparr> ss_next_seq := 1 \<rparr>] \<rparr>
              | None \<Rightarrow> e);
     let ts = (if eng_last_now_us e > 0 then eng_last_now_us e else 1);
     (ack_cancelled, ak) \<leftarrow> AckTracker_cancel_peer (eng_ack_tracker e) src;
     let e = e\<lparr> eng_ack_tracker := ak \<rparr>;
     e \<leftarrow> for_each (\<lambda>i e. DeliveryEngine_emit_event e RECONNECT_CANCEL 0 src ts OK) [0..<ack_cancelled] e;
     (retry_cancelled, rm) \<leftarrow> RetryManager_cancel_peer (eng_retry_manager e) src;
     let e = e\<lparr> eng_retry_manager := rm \<rparr>;
     for_each (\<lambda>i e. DeliveryEngine_emit_event e RECONNECT_CANCEL 0 src ts OK) [0..<retry_cancelled] e
   }"

text \<open>The loop of \<open>drain_hello_reconnects\<close> with \<open>n\<close> iterations left.\<close>

primrec drain_hello_loop ::
    "'t transport \<Rightarrow> nat \<Rightarrow> delivery_engine \<Rightarrow> 't \<Rightarrow> (delivery_engine \<times> 't) option" where
  "drain_hello_loop T 0 e t = Some (e, t)"
| "drain_hello_loop T (Suc n) e t = do {
     (hello_src, t) \<leftarrow> tr_pop_hello_peer T t;
     if hello_src = NODE_ID_INVALID then Some (e, t)
     else do {
       e \<leftarrow> DeliveryEngine_reset_peer_ordering e hello_src;
       drain_hello_loop T n e t
     }
   }"

definition DeliveryEngine_drain_hello_reconnects ::
    "'t transport \<Rightarrow> delivery_engine \<Rightarrow> 't \<Rightarrow> (delivery_engine \<times> 't) option" where
  "DeliveryEngine_drain_hello_reconnects T e t = do {
     nc_assert (eng_initialized e);
     drain_hello_loop T ORDERING_PEER_COUNT e t
   }"

definition DeliveryEngine_record_routing_failure :: "delivery_engine \<Rightarrow> Result \<Rightarrow> delivery_engine option" where
  "DeliveryEngine_record_routing_failure e routing_res = do {
     nc_assert (routing_res \<noteq> OK);
     nc_assert (eng_initialized e);
     Some (if routing_res = ERR_EXPIRED
           then e\<lparr> eng_stats := (eng_stats e)\<lparr> msgs_dropped_expired := msgs_dropped_expired (eng_stats e) + 1 \<rparr> \<rparr>
           else e\<lparr> eng_stats := (eng_stats e)\<lparr> msgs_dropped_misrouted := msgs_dropped_misrouted (eng_stats e) + 1 \<rparr> \<rparr>)
   }"

definition DeliveryEngine_handle_fragment_ingest ::
    "delivery_engine \<Rightarrow> envelope \<Rightarrow> envelope \<Rightarrow> u64 \<Rightarrow> (Result \<times> envelope \<times> delivery_engine) option" where
  "DeliveryEngine_handle_fragment_ingest e wire_env logical_out now_us = do {
     nc_assert (eng_initialized e);
     nc_assert (envelope_valid wire_env);
     (res, logical_out, rx) \<leftarrow> ReassemblyBuffer_ingest (eng_reassembly e) wire_env logical_out now_us;
     let e = e\<lparr> eng_reassembly := rx \<rparr>;
     if res = ERR_AGAIN then Some (ERR_AGAIN, logical_out, e)
     else do {
       nc_assert (res = OK \<or> res = ERR_AGAIN \<or> res = ERR_FULL \<or> res = ERR_INVALID);
       Some (res, logical_out, e)
     }
   }"

text \<open>Both callers sweep the expired holds and account for them.\<close>

definition sweep_holds_and_account :: "delivery_engine \<Rightarrow> u64 \<Rightarrow> delivery_engine option" where
  "sweep_holds_and_account e now_us = do {
     (freed, buf, ob) \<leftarrow>
       OrderingBuffer_sweep_expired_holds (eng_ordering e) now_us (eng_ordering_freed_buf e) ORDERING_HOLD_COUNT;
     let e = e\<lparr> eng_ordering := ob, eng_ordering_freed_buf := buf \<rparr>;
     DeliveryEngine_account_ordering_expiry_drops e buf freed now_us
   }"

definition DeliveryEngine_handle_ordering_gate ::
    "delivery_engine \<Rightarrow> envelope \<Rightarrow> envelope \<Rightarrow> u64 \<Rightarrow> (Result \<times> envelope \<times> delivery_engine) option" where
  "DeliveryEngine_handle_ordering_gate e logical out now_us = do {
     nc_assert (eng_initialized e);
     nc_assert (envelope_valid logical);
     e \<leftarrow> sweep_holds_and_account e now_us;
     (res, out, ob) \<leftarrow> OrderingBuffer_ingest (eng_ordering e) logical out now_us;
     let e = e\<lparr> eng_ordering := ob \<rparr>;
     nc_assert (res = OK \<or> res = ERR_AGAIN \<or> res = ERR_FULL);
     Some (res, out, e)
   }"

text \<open>The block that stages the next contiguous held message of \<open>src\<close>; it appears three times.\<close>

definition stage_next_held :: "delivery_engine \<Rightarrow> NodeId \<Rightarrow> delivery_engine option" where
  "stage_next_held e src = do {
     (rel_res, next_held, ob) \<leftarrow> OrderingBuffer_try_release_next (eng_ordering e) src envelope_init;
     let e = e\<lparr> eng_ordering := ob \<rparr>;
     Some (if rel_res = OK then e\<lparr> eng_held_pending := next_held, eng_held_pending_valid := True \<rparr> else e)
   }"

definition DeliveryEngine_deliver_held_pending ::
    "'t transport \<Rightarrow> delivery_engine \<Rightarrow> 't \<Rightarrow> u64 \<Rightarrow> (Result \<times> envelope \<times> delivery_engine \<times> 't) option" where
  "DeliveryEngine_deliver_held_pending T e t now_us = do {
     nc_assert (eng_held_pending_valid e);
     nc_assert (eng_initialized e);
     let e = e\<lparr> eng_held_pending_valid := False \<rparr>;
     let env = eng_held_pending e;
     if timestamp_expired (expiry_time_us env) now_us then do {
       let e = e\<lparr> eng_stats := (eng_stats e)\<lparr> msgs_dropped_expired := msgs_dropped_expired (eng_stats e) + 1 \<rparr> \<rparr>;
       e \<leftarrow> DeliveryEngine_emit_event e EXPIRY_DROP (message_id env) (source_id env) now_us ERR_EXPIRED;
       e \<leftarrow> stage_next_held e (source_id env);
       nc_assert (msgs_dropped_expired (eng_stats e) > 0);
       Some (ERR_EXPIRED, env, e, t)
     }
     else do {
       e \<leftarrow> stage_next_held e (source_id env);
       t \<leftarrow> (if envelope_needs_ack_response env then send_data_ack T t env (eng_local_id e) now_us else Some t);
       let e = e\<lparr> eng_stats := (eng_stats e)\<lparr> msgs_received := msgs_received (eng_stats e) + 1 \<rparr> \<rparr>;
       nc_assert (envelope_valid env);
       Some (OK, env, e, t)
     }
   }"

definition DeliveryEngine_handle_data_path ::
    "'t transport \<Rightarrow> delivery_engine \<Rightarrow> 't \<Rightarrow> envelope \<Rightarrow> u64 \<Rightarrow> (Result \<times> envelope \<times> delivery_engine \<times> 't) option" where
  "DeliveryEngine_handle_data_path T e t env now_us = do {
     nc_assert (eng_initialized e);
     nc_assert (envelope_is_data env);
     (dedup_res, e, t) \<leftarrow> DeliveryEngine_handle_data_dedup T e t env now_us;
     if dedup_res \<noteq> OK then Some (dedup_res, env, e, t)
     else do {
       (ord_res, ordered_env, e) \<leftarrow> DeliveryEngine_handle_ordering_gate e env envelope_init now_us;
       if ord_res = ERR_FULL then
         Some (ERR_FULL, env, e\<lparr> eng_stats := (eng_stats e)\<lparr> msgs_dropped_ordering_full :=
                 msgs_dropped_ordering_full (eng_stats e) + 1 \<rparr> \<rparr>, t)
       else if ord_res \<noteq> OK then Some (ERR_AGAIN, env, e, t)
       else do {
         let env = ordered_env;
         e \<leftarrow> stage_next_held e (source_id env);
         t \<leftarrow> (if envelope_needs_ack_response env then send_data_ack T t env (eng_local_id e) now_us else Some t);
         let e = e\<lparr> eng_stats := (eng_stats e)\<lparr> msgs_received := msgs_received (eng_stats e) + 1 \<rparr> \<rparr>;
         nc_assert (envelope_valid env);
         Some (OK, env, e, t)
       }
     }
   }"

text \<open>The part of \<open>receive\<close> after the held message, if any, has been dealt with.\<close>

definition receive_from_transport ::
    "'t transport \<Rightarrow> delivery_engine \<Rightarrow> 't \<Rightarrow> envelope \<Rightarrow> u32 \<Rightarrow> u64 \<Rightarrow> (Result \<times> envelope \<times> delivery_engine \<times> 't) option" where
  "receive_from_transport T e t env timeout_ms now_us = do {
     (res, wire_env, t) \<leftarrow> tr_receive_message T t envelope_init timeout_ms;
     if res \<noteq> OK then Some (res, env, e, t)
     else do {
       nc_assert (envelope_valid wire_env);
       (frag_res, logical_env, e) \<leftarrow> DeliveryEngine_handle_fragment_ingest e wire_env envelope_init now_us;
       if frag_res \<noteq> OK then Some (frag_res, env, e, t)
       else do {
         routing_res \<leftarrow> check_routing logical_env (eng_local_id e) now_us;
         let env = logical_env;
         if routing_res \<noteq> OK then do {
           e \<leftarrow> DeliveryEngine_record_routing_failure e routing_res;
           e \<leftarrow> DeliveryEngine_emit_routing_drop_event e env routing_res now_us;
           Some (routing_res, env, e, t)
         }
         else if envelope_is_control env then do {
           e \<leftarrow> DeliveryEngine_handle_control_message e env now_us;
           Some (OK, env, e, t)
         }
         else do {
           nc_assert (envelope_is_data env);
           DeliveryEngine_handle_data_path T e t env now_us
         }
       }
     }
   }"

definition DeliveryEngine_receive ::
    "'t transport \<Rightarrow> delivery_engine \<Rightarrow> 't \<Rightarrow> envelope \<Rightarrow> u32 \<Rightarrow> u64 \<Rightarrow> (Result \<times> envelope \<times> delivery_engine \<times> 't) option" where
  "DeliveryEngine_receive T e t env timeout_ms now_us = do {
     nc_assert (eng_initialized e);
     nc_assert (now_us > 0);
     if time_goes_back e now_us then Some (ERR_INVALID, env, e, t)
     else do {
       let e = e\<lparr> eng_last_now_us := now_us \<rparr>;
       (e, t) \<leftarrow> DeliveryEngine_drain_hello_reconnects T e t;
       if eng_held_pending_valid e then do {
         (held_res, env, e, t) \<leftarrow> DeliveryEngine_deliver_held_pending T e t now_us;
         if held_res = OK then Some (OK, env, e, t)
         else receive_from_transport T e t env timeout_ms now_us
       }
       else receive_from_transport T e t env timeout_ms now_us
     }
   }"

section \<open>Housekeeping\<close>

definition DeliveryEngine_pump_retries ::
    "'t transport \<Rightarrow> delivery_engine \<Rightarrow> 't \<Rightarrow> u64 \<Rightarrow> (nat \<times> delivery_engine \<times> 't) option" where
  "DeliveryEngine_pump_retries T e t now_us = do {
     nc_assert (eng_initialized e);
     nc_assert (now_us > 0);
     if time_goes_back e now_us then Some (0, e, t)
     else do {
       let e = e\<lparr> eng_last_now_us := now_us \<rparr>;
       (collected, buf, rm) \<leftarrow>
         RetryManager_collect_due (eng_retry_manager e) now_us (eng_retry_buf e) (unat MSG_RING_CAPACITY);
       let e = e\<lparr> eng_retry_manager := rm, eng_retry_buf := buf \<rparr>;
       nc_assert (collected \<le> unat MSG_RING_CAPACITY);
       (e, t) \<leftarrow> for_each (\<lambda>i (e, t). do {
           (send_res, e, t) \<leftarrow> DeliveryEngine_send_fragments T e t (eng_retry_buf e ! i) now_us;
           if send_res \<noteq> OK then Some (e, t)
           else do {
             e \<leftarrow> DeliveryEngine_emit_event e RETRY_FIRED (message_id (eng_retry_buf e ! i))
                    (destination_id (eng_retry_buf e ! i)) now_us OK;
             Some (e, t)
           } }) [0..<collected] (e, t);
       Some (collected, e, t)
     }
   }"

definition DeliveryEngine_sweep_ack_timeouts ::
    "delivery_engine \<Rightarrow> u64 \<Rightarrow> (nat \<times> delivery_engine) option" where
  "DeliveryEngine_sweep_ack_timeouts e now_us = do {
     nc_assert (eng_initialized e);
     nc_assert (now_us > 0);
     if time_goes_back e now_us then Some (0, e)
     else do {
       let e = e\<lparr> eng_last_now_us := now_us \<rparr>;
       rx \<leftarrow> ReassemblyBuffer_sweep_expired (eng_reassembly e) now_us;
       let stale_us = (ucast (cc_recv_timeout_ms (eng_cfg e)) :: u64) * 1000;
       (stale_freed, rx) \<leftarrow> ReassemblyBuffer_sweep_stale rx now_us stale_us;
       let e = e\<lparr> eng_reassembly := rx \<rparr>;
       e \<leftarrow> sweep_holds_and_account e now_us;
       (collected, buf, ak) \<leftarrow>
         AckTracker_sweep_expired (eng_ack_tracker e) now_us (eng_timeout_buf e) ACK_TRACKER_CAPACITY;
       let e = e\<lparr> eng_ack_tracker := ak, eng_timeout_buf := buf \<rparr>;
       nc_assert (collected \<le> ACK_TRACKER_CAPACITY);
       e \<leftarrow> for_each (\<lambda>i e. DeliveryEngine_emit_event e ACK_TIMEOUT (message_id (eng_timeout_buf e ! i))
                              (destination_id (eng_timeout_buf e ! i)) now_us ERR_TIMEOUT) [0..<collected] e;
       Some (collected, e)
     }
   }"

definition DeliveryEngine_get_stats ::
    "'t transport \<Rightarrow> delivery_engine \<Rightarrow> 't \<Rightarrow> u32 \<Rightarrow> delivery_stats option" where
  "DeliveryEngine_get_stats T e t fatals = do {
     nc_assert (eng_initialized e);
     let out = eng_stats e;
     ack \<leftarrow> AckTracker_get_stats (eng_ack_tracker e);
     let out = out\<lparr> ds_ack := ack \<rparr>;
     retry \<leftarrow> RetryManager_get_stats (eng_retry_manager e);
     let out = out\<lparr> ds_retry := retry \<rparr>;
     ts \<leftarrow> tr_get_transport_stats T t (ds_transport out);
     let out = out\<lparr> ds_transport := ts \<rparr>;
     let out = out\<lparr> ds_impairment := ts_impairment (ds_transport out) \<rparr>;
     Some (out\<lparr> fatal_count := fatals \<rparr>)
   }"

end
