(* ===== verification/EngineInvariant.thy ===== *)
theory EngineInvariant
  imports DeliveryEngine
begin

text \<open>
  The invariant of the delivery engine, what it relies on from its transport, and the
  specifications of the helpers that the send and receive paths share.
\<close>

section \<open>What the engine relies on\<close>

text \<open>The messages the engine is able to process: a HELLO is consumed by the backends, and an
  acknowledgement names the node that sent the acknowledged message.\<close>

definition admissible :: "envelope \<Rightarrow> bool" where
  "admissible env \<longleftrightarrow> message_type env \<noteq> INVALID \<and> message_type env \<noteq> HELLO \<and>
     (message_type env = ACK \<longrightarrow> destination_id env \<noteq> NODE_ID_INVALID)"

text \<open>The transport contract: on states that satisfy \<open>I\<close> every call returns and keeps \<open>I\<close>, and a
  message is delivered only if its envelope is valid.\<close>

definition transport_ok :: "'t transport \<Rightarrow> ('t \<Rightarrow> bool) \<Rightarrow> bool" where
  "transport_ok T I \<longleftrightarrow>
     (\<forall>t n. I t \<and> n \<noteq> NODE_ID_INVALID \<longrightarrow> returns (tr_register_local_id T t n) (\<lambda>(r, t'). I t')) \<and>
     (\<forall>t. I t \<longrightarrow> returns (tr_pop_hello_peer T t) (\<lambda>(n, t'). I t')) \<and>
     (\<forall>t env. I t \<and> env_wf env \<and> envelope_valid env \<longrightarrow> returns (tr_send_message T t env) (\<lambda>(r, t'). I t')) \<and>
     (\<forall>t env ms. I t \<and> env_wf env \<longrightarrow> returns (tr_receive_message T t env ms) (\<lambda>(r, env', t'). I t' \<and>
        (r = OK \<longrightarrow> env_wf env' \<and> envelope_valid env' \<and> admissible env')))"

text \<open>One entry of key \<open>k\<close> leaves a table, if it has one.\<close>

definition key_removed :: "NodeId \<times> u64 \<Rightarrow> envelope multiset \<Rightarrow> envelope multiset \<Rightarrow> bool" where
  "key_removed k M M' \<longleftrightarrow> (\<exists>x \<in># M. env_key x = k \<and> M' = M - {#x#}) \<or> (\<forall>x \<in># M. env_key x \<noteq> k) \<and> M' = M"

section \<open>The invariant\<close>

text \<open>A data message that may be delivered to the application of node \<open>n\<close>.\<close>

definition deliverable :: "NodeId \<Rightarrow> envelope \<Rightarrow> bool" where
  "deliverable n env \<longleftrightarrow> env_wf env \<and> envelope_valid env \<and> envelope_is_data env \<and> envelope_addressed_to env n"

definition eng_inv :: "delivery_engine \<Rightarrow> bool" where
  "eng_inv e \<longleftrightarrow> eng_initialized e \<and> eng_local_id e \<noteq> 0 \<and> eng_id_gen e \<noteq> 0 \<and>
     at_inv (eng_ack_tracker e) \<and> (\<forall>x \<in># at_live (eng_ack_tracker e). timestamp_us x > 0 \<and> destination_id x \<noteq> 0) \<and>
     rm_inv (eng_retry_manager e) \<and> (\<forall>x \<in># rm_live (eng_retry_manager e). env_wf x \<and> envelope_valid x) \<and>
     cc_retry_backoff_ms (eng_cfg e) \<le> 60000 \<and>
     df_inv (eng_dedup e) \<and> er_inv (eng_events e) \<and>
     rx_inv (eng_reassembly e) \<and> rx_headers admissible (eng_reassembly e) \<and>
     ob_inv (eng_ordering e) \<and> (\<forall>x \<in># ob_held (eng_ordering e). deliverable (eng_local_id e) x) \<and>
     (eng_held_pending_valid e \<longrightarrow> deliverable (eng_local_id e) (eng_held_pending e)) \<and>
     64 \<le> length (eng_retry_buf e) \<and> 32 \<le> length (eng_timeout_buf e) \<and>
     length (eng_frag_buf e) = 4 \<and> length (eng_ordering_freed_buf e) = 8 \<and>
     length (eng_seq_state e) = 32"

text \<open>The counter of expired messages, whose wrap-around one assertion does not survive.\<close>

definition eng_drops :: "delivery_engine \<Rightarrow> nat" where
  "eng_drops e = unat (msgs_dropped_expired (eng_stats e))"

text \<open>The messages that were received and wait for their turn.\<close>

definition eng_stash :: "delivery_engine \<Rightarrow> envelope multiset" where
  "eng_stash e = ob_held (eng_ordering e) + (if eng_held_pending_valid e then {#eng_held_pending e#} else {#})"

text \<open>A step that accepts no new message, drops at most \<open>k\<close> expired ones and delivers \<open>D\<close> from the stash.\<close>

definition eng_step :: "nat \<Rightarrow> delivery_engine \<Rightarrow> envelope multiset \<Rightarrow> delivery_engine \<Rightarrow> bool" where
  "eng_step k e D e' \<longleftrightarrow> eng_inv e' \<and> eng_drops e' \<le> eng_drops e + k \<and> eng_local_id e' = eng_local_id e \<and>
     eng_cfg e' = eng_cfg e \<and> eng_last_now_us e' = eng_last_now_us e \<and> eng_dedup e' = eng_dedup e \<and>
     D + eng_stash e' \<subseteq># eng_stash e"

text \<open>What accepting \<open>env\<close> does to the duplicate filter.\<close>

definition dedup_grows :: "envelope \<Rightarrow> dup_filter \<Rightarrow> dup_filter \<Rightarrow> bool" where
  "dedup_grows env df df' \<longleftrightarrow> df_count df \<le> df_count df' \<and>
     (if reliability_class env = RELIABLE_RETRY
      then env_key env \<notin> df_keys df \<and> env_key env \<in> df_keys df' \<and>
        (df_count df < 128 \<longrightarrow> df_keys df' = insert (env_key env) (df_keys df))
      else df' = df)"

text \<open>Nothing but observability, reassembly and ordering state changed.\<close>

definition eng_core_same :: "delivery_engine \<Rightarrow> delivery_engine \<Rightarrow> bool" where
  "eng_core_same e e' \<longleftrightarrow> eng_cfg e' = eng_cfg e \<and> eng_local_id e' = eng_local_id e \<and>
     eng_ack_tracker e' = eng_ack_tracker e \<and> eng_retry_manager e' = eng_retry_manager e \<and>
     eng_dedup e' = eng_dedup e \<and> eng_id_gen e' = eng_id_gen e \<and> eng_last_now_us e' = eng_last_now_us e \<and>
     eng_seq_state e' = eng_seq_state e"

text \<open>Emitting an event only changes the ring; \<open>eng_only_events\<close> says that of two engines.\<close>

definition eng_only_events :: "delivery_engine \<Rightarrow> delivery_engine \<Rightarrow> bool" where
  "eng_only_events e e' \<longleftrightarrow> (\<exists>er. e' = e\<lparr> eng_events := er \<rparr> \<and> er_inv er)"

text \<open>What \<open>reset_peer_ordering\<close> leaves of a peer's state.\<close>

definition peer_forgotten :: "NodeId \<Rightarrow> delivery_engine \<Rightarrow> bool" where
  "peer_forgotten src e \<longleftrightarrow> ob_cursor (eng_ordering e) src = 1 \<and>
     (\<forall>x \<in># ob_held (eng_ordering e). source_id x \<noteq> src) \<and>
     \<not> (eng_held_pending_valid e \<and> source_id (eng_held_pending e) = src) \<and>
     (\<forall>x \<in># at_live (eng_ack_tracker e). destination_id x \<noteq> src) \<and>
     (\<forall>x \<in># rm_live (eng_retry_manager e). destination_id x \<noteq> src)"

section \<open>Elimination\<close>

lemma eng_invD:
  assumes "eng_inv e"
  shows "eng_initialized e" "eng_local_id e \<noteq> 0" "eng_id_gen e \<noteq> 0" "at_inv (eng_ack_tracker e)"
    "rm_inv (eng_retry_manager e)" "df_inv (eng_dedup e)" "er_inv (eng_events e)" "rx_inv (eng_reassembly e)"
    "ob_inv (eng_ordering e)" "rx_headers admissible (eng_reassembly e)"
  using assms by (simp_all add: eng_inv_def)

lemma eng_step_refl: "eng_inv e \<Longrightarrow> eng_step k e {#} e"
  by (simp add: eng_step_def)

lemma eng_step_trans:
  assumes "eng_step k e D e'" and "eng_step l e' D' e''"
  shows "eng_step (k + l) e (D + D') e''"
proof -
  have "D' + eng_stash e'' \<subseteq># eng_stash e'" "D + eng_stash e' \<subseteq># eng_stash e" using assms by (simp_all add: eng_step_def)
  then have "D + (D' + eng_stash e'') \<subseteq># eng_stash e" by (meson subset_mset.add_left_mono subset_mset.order_trans)
  with assms show ?thesis by (simp add: eng_step_def add.assoc)
qed

lemma eng_step_mono: "eng_step k e D e' \<Longrightarrow> k \<le> l \<Longrightarrow> eng_step l e D e'"
  by (simp add: eng_step_def)

lemma eng_stepD: "eng_step k e D e' \<Longrightarrow> eng_inv e'" "eng_step k e D e' \<Longrightarrow> eng_drops e' \<le> eng_drops e + k"
  by (simp_all add: eng_step_def)

lemma transport_okD:
  assumes "transport_ok T I" and "I t"
  shows "n \<noteq> 0 \<Longrightarrow> returns (tr_register_local_id T t n) (\<lambda>(r, t'). I t')"
    and "returns (tr_pop_hello_peer T t) (\<lambda>(n, t'). I t')"
    and "env_wf env \<Longrightarrow> envelope_valid env \<Longrightarrow> returns (tr_send_message T t env) (\<lambda>(r, t'). I t')"
    and "env_wf env \<Longrightarrow> returns (tr_receive_message T t env ms) (\<lambda>(r, env', t'). I t' \<and>
        (r = OK \<longrightarrow> env_wf env' \<and> envelope_valid env' \<and> admissible env'))"
  using assms unfolding transport_ok_def by auto

section \<open>Events\<close>

lemma emit_event_spec:
  assumes "eng_initialized e" and "er_inv (eng_events e)" and "ts > 0"
  shows "returns (DeliveryEngine_emit_event e k m n ts r) (eng_only_events e)"
  using evr.push_keeps [OF assms(2), of "\<lparr> ev_message_id = m, ev_timestamp_us = ts, ev_node_id = n, ev_kind = k, ev_result = r \<rparr>"]
    assms by (auto simp: DeliveryEngine_emit_event_def eng_only_events_def)

lemma only_events_trans: "eng_only_events e e' \<Longrightarrow> eng_only_events e' e'' \<Longrightarrow> eng_only_events e e''"
  by (auto simp: eng_only_events_def)

lemma only_events_refl: "er_inv (eng_events e) \<Longrightarrow> eng_only_events e e"
  by (auto simp: eng_only_events_def intro!: exI [of _ "eng_events e"])

lemma only_events_inv: "eng_only_events e e' \<Longrightarrow> eng_inv e \<Longrightarrow> eng_inv e' \<and> eng_drops e' = eng_drops e"
  by (auto simp: eng_only_events_def eng_inv_def eng_drops_def)

lemma only_events_step: "eng_only_events e e' \<Longrightarrow> eng_inv e \<Longrightarrow> eng_step 0 e {#} e'"
  using only_events_inv [of e e'] by (auto simp: eng_step_def eng_only_events_def eng_stash_def)

lemma emit_event_inv:
  assumes "eng_inv e" and "ts > 0"
  obtains er where "DeliveryEngine_emit_event e k m n ts r = Some (e\<lparr> eng_events := er \<rparr>)"
    "eng_inv (e\<lparr> eng_events := er \<rparr>)"
proof -
  from emit_event_spec [OF eng_invD(1,7) [OF assms(1)] assms(2), of k m n r] obtain er where
    "DeliveryEngine_emit_event e k m n ts r = Some (e\<lparr> eng_events := er \<rparr>)" "er_inv er"
    by (auto simp: eng_only_events_def elim!: returnsE)
  with assms(1) that show ?thesis by (simp add: eng_inv_def)
qed

lemma emit_events_spec:
  assumes "eng_initialized e" and "er_inv (eng_events e)" and "ts > 0"
  shows "returns (for_each (\<lambda>i e. DeliveryEngine_emit_event e (k e i) (m e i) (n e i) ts (r e i)) xs e) (eng_only_events e)"
proof (rule for_each_inv)
  show "eng_only_events e e" using assms(2) by (rule only_events_refl)
  fix x s assume "eng_only_events e s"
  moreover from this assms have "returns (DeliveryEngine_emit_event s (k s x) (m s x) (n s x) ts (r s x)) (eng_only_events s)"
    by (intro emit_event_spec) (auto simp: eng_only_events_def)
  ultimately show "returns (DeliveryEngine_emit_event s (k s x) (m s x) (n s x) ts (r s x)) (eng_only_events e)"
    by (auto elim!: returns_mono intro: only_events_trans)
qed

lemma unat_add_le: "unat (a + b :: 'a::len word) \<le> unat a + unat b"
  by (simp add: unat_word_ariths)

section \<open>Held messages\<close>

lemma ob_released_held: "ob_released (ob_hold ob) (ob_hold ob') \<Longrightarrow> ob_held ob' \<subseteq># ob_held ob"
proof -
  have "image_mset ho_env (mset (filter ho_active hs')) \<subseteq># image_mset ho_env (mset (filter ho_active hs))"
    if "list_all2 (\<lambda>h h'. h' = h \<or> h' = h\<lparr> ho_active := False \<rparr>) hs hs'" for hs hs'
    using that by (induction rule: list_all2_induct) (auto intro: subset_mset.order_trans)
  then show "ob_released (ob_hold ob) (ob_hold ob') \<Longrightarrow> ?thesis"
    by (simp add: ob_released_def ob_held_def)
qed

lemma sweep_holds_account_spec:
  assumes "eng_inv e" and "now > 0"
  shows "returns (sweep_holds_and_account e now) (\<lambda>e'. eng_step 8 e {#} e' \<and> eng_core_same e e' \<and>
    (\<forall>x. ob_cursor (eng_ordering e) x \<le> ob_cursor (eng_ordering e') x))"
proof -
  have inv: "ob_inv (eng_ordering e)" "length (eng_ordering_freed_buf e) = 8" using assms(1) by (simp_all add: eng_inv_def)
  from sweep_holds_spec [OF inv(1) assms(2) inv(2)] obtain f buf ob where
    ob: "OrderingBuffer_sweep_expired_holds (eng_ordering e) now (eng_ordering_freed_buf e) 8 = Some (f, buf, ob)"
      "ob_inv ob" "f \<le> 8" "length buf = 8" "ob_released (ob_hold (eng_ordering e)) (ob_hold ob)"
      "\<forall>x. ob_cursor (eng_ordering e) x \<le> ob_cursor ob x"
    by (auto elim!: returnsE)
  let ?e = "e\<lparr> eng_ordering := ob, eng_ordering_freed_buf := buf \<rparr>"
  let ?d = "?e\<lparr> eng_stats := (eng_stats ?e)\<lparr> msgs_dropped_expired := msgs_dropped_expired (eng_stats ?e) + of_nat f \<rparr> \<rparr>"
  have sub: "\<forall>x \<in># ob_held ob. x \<in># ob_held (eng_ordering e)"
    using ob_released_held [OF ob(5)] by (auto dest: mset_subset_eqD)
  have st: "eng_stash e' \<subseteq># eng_stash e"
    if "eng_ordering e' = ob" "eng_held_pending_valid e' = eng_held_pending_valid e" "eng_held_pending e' = eng_held_pending e" for e'
    using ob_released_held [OF ob(5)] that by (simp add: eng_stash_def)
  have e: "eng_inv ?e" using assms(1) ob sub by (auto simp: eng_inv_def)
  then have d: "eng_inv ?d" by (simp add: eng_inv_def)
  have dr: "eng_drops ?d \<le> eng_drops e + 8"
    using unat_add_le [of "msgs_dropped_expired (eng_stats e)" "of_nat f"] ob(3)
    by (simp add: eng_drops_def unat_of_nat)
  show ?thesis
  proof (cases "f = 0")
    case True
    with ob e st assms(2) show ?thesis
      by (simp add: sweep_holds_and_account_def DeliveryEngine_account_ordering_expiry_drops_def eng_drops_def
          eng_core_same_def eng_step_def)
  next
    case False
    have "returns (for_each (\<lambda>i e. DeliveryEngine_emit_event e EXPIRY_DROP (message_id (buf ! i)) (source_id (buf ! i))
        now ERR_EXPIRED) [0..<f] ?d) (eng_only_events ?d)"
      using d assms(2) by (intro emit_events_spec) (simp_all add: eng_inv_def)
    then show ?thesis
      using False ob st assms(2) dr only_events_inv [OF _ d]
      by (auto simp: sweep_holds_and_account_def DeliveryEngine_account_ordering_expiry_drops_def Let_def eng_only_events_def
          eng_drops_def eng_core_same_def eng_step_def elim!: returns_mono)
  qed
qed

lemma stage_next_held_spec:
  assumes "eng_inv e" and "src \<noteq> 0"
  shows "returns (stage_next_held e src) (\<lambda>e'. eng_step 0 e {#} e' \<and> eng_core_same e e' \<and> eng_stats e' = eng_stats e)"
proof -
  have inv: "ob_inv (eng_ordering e)" using assms(1) by (rule eng_invD)
  show ?thesis
  proof (cases "ob_holding (eng_ordering e) src (ob_cursor (eng_ordering e) src)")
    case False
    with release_spec [OF inv assms(2), of envelope_init] assms(1) show ?thesis
      unfolding stage_next_held_def by (auto simp: eng_core_same_def eng_step_def)
  next
    case True
    with release_spec [OF inv assms(2), of envelope_init] obtain x ob where
      ob: "OrderingBuffer_try_release_next (eng_ordering e) src envelope_init = Some (OK, x, ob)" "x \<in># ob_held (eng_ordering e)"
        "ob_held ob = ob_held (eng_ordering e) - {#x#}" "ob_inv ob" by auto
    then have "eng_inv (e\<lparr> eng_ordering := ob, eng_held_pending := x, eng_held_pending_valid := True \<rparr>)"
      using assms(1) by (auto simp: eng_inv_def dest: in_diffD)
    with ob show ?thesis unfolding stage_next_held_def
      by (simp add: eng_core_same_def eng_stash_def eng_step_def eng_drops_def)
  qed
qed

section \<open>Acknowledgements\<close>

lemma send_data_ack_spec:
  assumes "transport_ok T I" and "I t" and "envelope_is_data env" and "n \<noteq> 0"
  shows "returns (send_data_ack T t env n now) I"
proof -
  have "env_wf (envelope_make_ack env n now)" "envelope_valid (envelope_make_ack env n now)"
    using assms(4) by (simp_all add: envelope_valid_def)
  from transport_okD(3) [OF assms(1,2) this] assms show ?thesis
    by (auto simp: send_data_ack_def elim!: returns_mono)
qed

text \<open>An acknowledgement removes the tracker's and the retry manager's entries for its key, unless the
  tracker knows the message and it was sent to another node.\<close>

lemma tracked_destination_cases:
  assumes "at_inv ak" and "n \<noteq> 0" and "\<forall>x \<in># at_live ak. destination_id x \<noteq> 0"
  obtains (tracked) x where "x \<in># at_live ak" "env_key x = (n, m)"
      "AckTracker_get_tracked_destination ak n m d = Some (OK, destination_id x)"
  | (unknown) "\<forall>x \<in># at_live ak. env_key x \<noteq> (n, m)" "AckTracker_get_tracked_destination ak n m d = Some (ERR_INVALID, d)"
proof (cases "first_idx (at_matches n m) (at_slots ak)")
  case None
  with assms at_find_None [of n m ak] at_inv_count [OF assms(1)] unknown show ?thesis
    by (simp add: AckTracker_get_tracked_destination_def)
next
  case (Some i)
  note f = at_find_Some [OF Some assms(1)]
  have "ae_env (at_slots ak ! i) \<in># at_live ak" using f by (auto simp: at_live_def)
  with Some assms f at_inv_count [OF assms(1)] tracked [of "ae_env (at_slots ak ! i)"] show ?thesis
    by (simp add: AckTracker_get_tracked_destination_def)
qed

lemma key_removed_sub: "key_removed k M M' \<Longrightarrow> M' \<subseteq># M"
  by (auto simp: key_removed_def)

lemma on_ack_removed:
  assumes "at_inv ak"
  shows "returns (AckTracker_on_ack ak n m) (\<lambda>(r, at'). at_inv at' \<and> key_removed (n, m) (at_live ak) (at_live at'))"
proof -
  have "at_inv at' \<and> key_removed (n, m) (at_live ak) (at_live at')"
    if a: "at_inv at'" "r = OK \<and> (\<exists>e \<in># at_pending ak. env_key (ae_env e) = (n, m) \<and> at_pending at' = at_pending ak - {#e#}) \<or>
     r = ERR_INVALID \<and> at' = ak \<and> (\<forall>e \<in># at_live ak. env_key e \<noteq> (n, m))" for r at'
    using a(2)
  proof
    assume "r = OK \<and> (\<exists>e \<in># at_pending ak. env_key (ae_env e) = (n, m) \<and> at_pending at' = at_pending ak - {#e#})"
    then obtain e where e: "e \<in># at_pending ak" "env_key (ae_env e) = (n, m)" "at_pending at' = at_pending ak - {#e#}" by blast
    then have "at_live at' = at_live ak - {#ae_env e#}" "ae_env e \<in># at_live ak"
      by (simp_all add: at_live_def image_mset_Diff)
    with e(2) a(1) show ?thesis by (auto simp: key_removed_def)
  qed (use a(1) in \<open>auto simp: key_removed_def\<close>)
  then show ?thesis using on_ack_spec [OF assms, of n m] by (auto elim!: returns_mono)
qed

lemma rm_on_ack_removed:
  assumes "rm_inv rm" and "n \<noteq> 0"
  shows "returns (RetryManager_on_ack rm n m) (\<lambda>(r, rm'). rm_inv rm' \<and> key_removed (n, m) (rm_live rm) (rm_live rm'))"
  by (rule returns_mono [OF rm_on_ack_spec [OF assms]]) (auto simp: key_removed_def)

lemma process_ack_spec:
  assumes "at_inv ak" and "rm_inv rm" and "message_type env = ACK" and "destination_id env \<noteq> 0"
    and "\<forall>x \<in># at_live ak. destination_id x \<noteq> 0"
  defines "k \<equiv> (destination_id env, message_id env)"
  shows "returns (process_ack ak rm env) (\<lambda>(at', rm'). at_inv at' \<and> rm_inv rm' \<and>
    ((\<exists>x \<in># at_live ak. env_key x = k \<and> destination_id x \<noteq> source_id env) \<and> at' = ak \<and> rm' = rm \<or>
     ((\<exists>x \<in># at_live ak. env_key x = k \<and> destination_id x = source_id env) \<or> (\<forall>x \<in># at_live ak. env_key x \<noteq> k)) \<and>
       key_removed k (at_live ak) (at_live at') \<and> key_removed k (rm_live rm) (rm_live rm')))"
proof -
  have c: "envelope_is_control env" using assms(3) by (simp add: envelope_is_control_def)
  obtain r1 at' where a: "AckTracker_on_ack ak (destination_id env) (message_id env) = Some (r1, at')" "at_inv at'"
      "key_removed k (at_live ak) (at_live at')"
    using on_ack_removed [OF assms(1), of "destination_id env" "message_id env"] unfolding k_def by (auto elim!: returnsE)
  obtain r2 rm' where b: "RetryManager_on_ack rm (destination_id env) (message_id env) = Some (r2, rm')" "rm_inv rm'"
      "key_removed k (rm_live rm) (rm_live rm')"
    using rm_on_ack_removed [OF assms(2,4), of "message_id env"] unfolding k_def by (auto elim!: returnsE)
  from assms(1,4,5) show ?thesis
  proof (cases rule: tracked_destination_cases [where m = "message_id env" and d = 0])
    case (tracked x)
    with a b c assms show ?thesis
      by (cases "destination_id x = source_id env") (auto simp: process_ack_def k_def)
  next
    case unknown
    with a b c assms show ?thesis by (auto simp: process_ack_def k_def)
  qed
qed

lemma latency_spec:
  assumes "eng_inv e" and "now > 0" and "message_type env = ACK" and "destination_id env \<noteq> 0"
  shows "returns (DeliveryEngine_update_latency_stats e env now) (\<lambda>e'. eng_inv e' \<and> eng_drops e' = eng_drops e \<and>
    (\<exists>st. e' = e\<lparr> eng_stats := st \<rparr>))"
proof -
  have ak: "at_inv (eng_ack_tracker e)" "\<forall>x \<in># at_live (eng_ack_tracker e). timestamp_us x > 0"
    using assms(1) by (simp_all add: eng_inv_def)
  have self: "\<exists>st. e = e\<lparr> eng_stats := st \<rparr>" by (rule exI [of _ "eng_stats e"]) simp
  have upd: "eng_inv (e\<lparr> eng_stats := st \<rparr>)" for st using assms(1) by (simp add: eng_inv_def)
  show ?thesis
  proof (cases "first_idx (at_matches (destination_id env) (message_id env)) (at_slots (eng_ack_tracker e))")
    case None
    with assms ak at_inv_count [OF ak(1)] self show ?thesis
      by (simp add: DeliveryEngine_update_latency_stats_def AckTracker_get_send_timestamp_def)
  next
    case (Some i)
    have "ae_env (at_slots (eng_ack_tracker e) ! i) \<in># at_live (eng_ack_tracker e)"
      using at_find_Some(4) [OF Some ak(1)] by (auto simp: at_live_def)
    with ak(2) have "timestamp_us (ae_env (at_slots (eng_ack_tracker e) ! i)) > 0" by simp
    with Some assms ak at_inv_count [OF ak(1)] self upd show ?thesis
      by (auto simp: DeliveryEngine_update_latency_stats_def AckTracker_get_send_timestamp_def Let_def eng_drops_def)
  qed
qed

lemma control_message_spec:
  assumes "eng_inv e" and "now > 0" and "envelope_is_control env" and "admissible env"
  shows "returns (DeliveryEngine_handle_control_message e env now) (eng_step 0 e {#})"
proof (cases "message_type env = ACK")
  case False
  with assms eng_step_refl [OF assms(1)] eng_invD(1) [OF assms(1)] show ?thesis
    by (simp add: DeliveryEngine_handle_control_message_def)
next
  case True
  with assms(4) have dst: "destination_id env \<noteq> 0" by (simp add: admissible_def)
  from latency_spec [OF assms(1,2) True dst] obtain st where
    l: "DeliveryEngine_update_latency_stats e env now = Some (e\<lparr> eng_stats := st \<rparr>)"
      "eng_inv (e\<lparr> eng_stats := st \<rparr>)" "eng_drops (e\<lparr> eng_stats := st \<rparr>) = eng_drops e" by (auto elim!: returnsE)
  let ?e1 = "e\<lparr> eng_stats := st \<rparr>"
  note e1 = l
  have inv: "at_inv (eng_ack_tracker ?e1)" "rm_inv (eng_retry_manager ?e1)"
      "\<forall>x \<in># at_live (eng_ack_tracker ?e1). destination_id x \<noteq> 0"
    using e1(2) by (simp_all add: eng_inv_def)
  from process_ack_spec [OF inv(1,2) True dst inv(3)] obtain ak rm where
    p: "process_ack (eng_ack_tracker ?e1) (eng_retry_manager ?e1) env = Some (ak, rm)" "at_inv ak" "rm_inv rm"
      "at_live ak \<subseteq># at_live (eng_ack_tracker ?e1)" "rm_live rm \<subseteq># rm_live (eng_retry_manager ?e1)"
    by (auto elim!: returnsE dest: key_removed_sub)
  let ?e2 = "?e1\<lparr> eng_ack_tracker := ak, eng_retry_manager := rm \<rparr>"
  have e2: "eng_inv ?e2" using e1(2) p(2-5) unfolding eng_inv_def by (auto dest: mset_subset_eqD)
  have "returns (DeliveryEngine_emit_event ?e2 ACK_RECEIVED (message_id env) (source_id env) now OK) (eng_only_events ?e2)"
    using eng_invD(1,7) [OF e2] assms(2) by (rule emit_event_spec)
  then have "returns (DeliveryEngine_emit_event ?e2 ACK_RECEIVED (message_id env) (source_id env) now OK) (eng_step 0 ?e2 {#})"
    by (rule returns_mono) (rule only_events_step [OF _ e2])
  moreover have "eng_step 0 e {#} ?e2" using e2 e1(3) by (simp add: eng_step_def eng_drops_def eng_stash_def)
  ultimately have "returns (DeliveryEngine_emit_event ?e2 ACK_RECEIVED (message_id env) (source_id env) now OK) (eng_step 0 e {#})"
    by (auto elim!: returns_mono dest: eng_step_trans)
  with True assms(3) eng_invD(1) [OF assms(1)] e1 p(1) show ?thesis
    by (simp add: DeliveryEngine_handle_control_message_def)
qed

section \<open>Duplicate suppression\<close>

lemma dedup_spec:
  assumes "eng_inv e" and "now > 0" and "transport_ok T I" and "I t" and "envelope_is_data env"
  shows "returns (DeliveryEngine_handle_data_dedup T e t env now) (\<lambda>(r, e', t'). I t' \<and>
    (if reliability_class env = RELIABLE_RETRY \<and> env_key env \<in> df_keys (eng_dedup e)
     then r = ERR_DUPLICATE \<and> eng_step 0 e {#} e'
     else r = OK \<and> eng_inv e' \<and> (\<exists>df. e' = e\<lparr> eng_dedup := df \<rparr> \<and> dedup_grows env (eng_dedup e) df)))"
proof (cases "reliability_class env = RELIABLE_RETRY")
  case False
  have "\<exists>df. e = e\<lparr> eng_dedup := df \<rparr> \<and> dedup_grows env (eng_dedup e) df"
    using False by (intro exI [of _ "eng_dedup e"]) (simp add: dedup_grows_def)
  with False assms eng_invD(1) [OF assms(1)] show ?thesis by (simp add: DeliveryEngine_handle_data_dedup_def)
next
  case True
  let ?k = "(source_id env, message_id env)"
  have k: "env_key env = ?k" by (simp add: env_key_def)
  from check_and_record_spec [OF eng_invD(6) [OF assms(1)] assms(2), of "source_id env" "message_id env"] obtain r df where
    df: "DuplicateFilter_check_and_record (eng_dedup e) (source_id env) (message_id env) now = Some (r, df)" "df_inv df"
      "?k \<in> df_keys df" "df_count (eng_dedup e) \<le> df_count df"
      "if ?k \<in> df_keys (eng_dedup e) then r = ERR_DUPLICATE \<and> df = eng_dedup e
       else r = OK \<and> (df_count (eng_dedup e) < 128 \<longrightarrow> df_keys df = insert ?k (df_keys (eng_dedup e)))"
    by (auto elim!: returnsE)
  have inv: "eng_inv (e\<lparr> eng_dedup := df \<rparr>)" using assms(1) df(2) by (simp add: eng_inv_def)
  show ?thesis
  proof (cases "?k \<in> df_keys (eng_dedup e)")
    case False
    with df True have "\<exists>df'. e\<lparr> eng_dedup := df \<rparr> = e\<lparr> eng_dedup := df' \<rparr> \<and> dedup_grows env (eng_dedup e) df'"
      by (intro exI [of _ df]) (simp add: dedup_grows_def k)
    with False df(1,5) inv True assms(4,5) eng_invD(1) [OF assms(1)] show ?thesis
      by (simp add: DeliveryEngine_handle_data_dedup_def k)
  next
    case dup: True
    let ?e = "e\<lparr> eng_dedup := df, eng_stats := (eng_stats e)\<lparr> msgs_dropped_duplicate := msgs_dropped_duplicate (eng_stats e) + 1 \<rparr> \<rparr>"
    have e: "eng_inv ?e" using inv by (simp add: eng_inv_def)
    from send_data_ack_spec [OF assms(3-5), of "eng_local_id e" now] eng_invD(2) [OF assms(1)] obtain t' where
      t': "send_data_ack T t env (eng_local_id e) now = Some t'" "I t'" by (auto elim!: returnsE)
    from emit_event_inv [OF e assms(2), of DUPLICATE_DROP "message_id env" "source_id env" ERR_DUPLICATE] obtain er where
      er: "DeliveryEngine_emit_event ?e DUPLICATE_DROP (message_id env) (source_id env) now ERR_DUPLICATE
            = Some (?e\<lparr> eng_events := er \<rparr>)" "eng_inv (?e\<lparr> eng_events := er \<rparr>)" .
    from er(1) t' dup df True assms(5) eng_invD(1) [OF assms(1)]
    have "DeliveryEngine_handle_data_dedup T e t env now = Some (ERR_DUPLICATE, ?e\<lparr> eng_events := er \<rparr>, t')"
      by (simp add: DeliveryEngine_handle_data_dedup_def)
    with er(2) t'(2) dup df True show ?thesis by (simp add: eng_drops_def eng_step_def eng_stash_def k)
  qed
qed

section \<open>Reconnection\<close>

lemma reset_peer_ordering_spec:
  assumes "eng_inv e" and "src \<noteq> 0"
  shows "returns (DeliveryEngine_reset_peer_ordering e src) (\<lambda>e'. eng_step 0 e {#} e' \<and> peer_forgotten src e' \<and>
    ob_held (eng_ordering e') = filter_mset (\<lambda>x. source_id x \<noteq> src) (ob_held (eng_ordering e)) \<and>
    at_live (eng_ack_tracker e') = filter_mset (\<lambda>x. destination_id x \<noteq> src) (at_live (eng_ack_tracker e)) \<and>
    rm_live (eng_retry_manager e') = filter_mset (\<lambda>x. destination_id x \<noteq> src) (rm_live (eng_retry_manager e)) \<and>
    (\<forall>x. x \<noteq> src \<longrightarrow> ob_cursor (eng_ordering e') x = ob_cursor (eng_ordering e) x))"
proof -
  define e1 where "e1 = (if eng_held_pending_valid e \<and> source_id (eng_held_pending e) = src
              then e\<lparr> eng_held_pending_valid := False \<rparr> else e)"
  have e1: "eng_inv e1" using assms(1) by (simp add: e1_def eng_inv_def)
  obtain ob where ob: "OrderingBuffer_reset_peer (eng_ordering e) src = Some ob" "ob_inv ob"
      "ob_held ob = filter_mset (\<lambda>x. source_id x \<noteq> src) (ob_held (eng_ordering e))"
      "\<forall>x. ob_cursor ob x = (if x = src then 1 else ob_cursor (eng_ordering e) x)"
    using reset_peer_spec [OF eng_invD(9) [OF assms(1)] assms(2)] by blast
  have o1: "eng_ordering e1 = eng_ordering e" by (simp add: e1_def)
  define e2 where "e2 = (let e = e1\<lparr> eng_ordering := ob \<rparr> in
     case first_idx (\<lambda>x. ss_active x \<and> ss_dst x = src) (eng_seq_state e) of
       Some i \<Rightarrow> e\<lparr> eng_seq_state := (eng_seq_state e)[i := (eng_seq_state e ! i)\<lparr> ss_next_seq := 1 \<rparr>] \<rparr> | None \<Rightarrow> e)"
  have e2: "eng_inv e2" using e1 ob(2,3) o1 by (auto simp: e2_def Let_def eng_inv_def split: option.split)
  have f2: "eng_ordering e2 = ob" "eng_stats e2 = eng_stats e" "eng_ack_tracker e2 = eng_ack_tracker e"
    "eng_retry_manager e2 = eng_retry_manager e" "eng_local_id e2 = eng_local_id e" "eng_dedup e2 = eng_dedup e"
    "eng_cfg e2 = eng_cfg e" "eng_last_now_us e2 = eng_last_now_us e" "eng_held_pending_valid e2 = eng_held_pending_valid e1" "eng_held_pending e2 = eng_held_pending e1"
    by (simp_all add: e2_def e1_def Let_def split: option.split)
  define ts where "ts = (if eng_last_now_us e2 > 0 then eng_last_now_us e2 else 1)"
  have ts: "ts > 0" by (simp add: ts_def)
  have dst: "src \<noteq> NODE_ID_INVALID" using assms(2) by simp
  from ackt.cancel_peer_law [OF eng_invD(4) [OF e2] dst] obtain n ak where
    ak: "AckTracker_cancel_peer (eng_ack_tracker e2) src = Some (n, ak)" "at_inv ak"
      "at_live ak = filter_mset (\<lambda>x. destination_id x \<noteq> src) (at_live (eng_ack_tracker e))"
    unfolding f2 by (auto elim!: returnsE)
  let ?e3 = "e2\<lparr> eng_ack_tracker := ak \<rparr>"
  have e3: "eng_inv ?e3" using e2 ak(2,3) f2(3) by (auto simp: eng_inv_def)
  have "returns (for_each (\<lambda>i e. DeliveryEngine_emit_event e RECONNECT_CANCEL 0 src ts OK) [0..<n] ?e3) (eng_only_events ?e3)"
    using eng_invD(1,7) [OF e3] ts by (rule emit_events_spec)
  then obtain e4 where e4: "for_each (\<lambda>i e. DeliveryEngine_emit_event e RECONNECT_CANCEL 0 src ts OK) [0..<n] ?e3 = Some e4"
      "eng_only_events ?e3 e4" by (auto elim: returnsE)
  then have i4: "eng_inv e4" using only_events_inv e3 by blast
  have r4: "eng_retry_manager e4 = eng_retry_manager e" using e4(2) f2 by (auto simp: eng_only_events_def)
  from rtm.cancel_peer_law [OF eng_invD(5) [OF i4] dst] obtain m rm where
    rm: "RetryManager_cancel_peer (eng_retry_manager e4) src = Some (m, rm)" "rm_inv rm"
      "rm_live rm = filter_mset (\<lambda>x. destination_id x \<noteq> src) (rm_live (eng_retry_manager e))"
    unfolding r4 by (auto elim!: returnsE)
  let ?e5 = "e4\<lparr> eng_retry_manager := rm \<rparr>"
  have e5: "eng_inv ?e5" using i4 rm(2,3) r4 by (auto simp: eng_inv_def)
  have "returns (for_each (\<lambda>i e. DeliveryEngine_emit_event e RECONNECT_CANCEL 0 src ts OK) [0..<m] ?e5) (eng_only_events ?e5)"
    using eng_invD(1,7) [OF e5] ts by (rule emit_events_spec)
  then obtain e6 where e6: "for_each (\<lambda>i e. DeliveryEngine_emit_event e RECONNECT_CANCEL 0 src ts OK) [0..<m] ?e5 = Some e6"
      "eng_only_events ?e5 e6" by (auto elim: returnsE)
  then have i6: "eng_inv e6" using only_events_inv e5 by blast
  have f6: "eng_stats e6 = eng_stats e" "eng_ordering e6 = ob" "eng_ack_tracker e6 = ak" "eng_retry_manager e6 = rm"
    "eng_local_id e6 = eng_local_id e" "eng_dedup e6 = eng_dedup e" "eng_cfg e6 = eng_cfg e" "eng_last_now_us e6 = eng_last_now_us e"
    "eng_held_pending_valid e6 = eng_held_pending_valid e1" "eng_held_pending e6 = eng_held_pending e1"
    using e4(2) e6(2) f2 by (auto simp: eng_only_events_def)
  have "peer_forgotten src e6"
    unfolding peer_forgotten_def f6 using ob(3,4) ak(3) rm(3) by (auto simp: e1_def)
  moreover have "DeliveryEngine_reset_peer_ordering e src = Some e6"
  proof -
    have "DeliveryEngine_reset_peer_ordering e src = do {
        (ack_cancelled, ak) \<leftarrow> AckTracker_cancel_peer (eng_ack_tracker e2) src;
        e \<leftarrow> for_each (\<lambda>i e. DeliveryEngine_emit_event e RECONNECT_CANCEL 0 src ts OK) [0..<ack_cancelled] (e2\<lparr> eng_ack_tracker := ak \<rparr>);
        (retry_cancelled, rm) \<leftarrow> RetryManager_cancel_peer (eng_retry_manager e) src;
        for_each (\<lambda>i e. DeliveryEngine_emit_event e RECONNECT_CANCEL 0 src ts OK) [0..<retry_cancelled] (e\<lparr> eng_retry_manager := rm \<rparr>) }"
      unfolding DeliveryEngine_reset_peer_ordering_def e1_def [symmetric] Let_def
      using ob(1) o1 assms(2) eng_invD(1) [OF assms(1)] by (simp add: e2_def ts_def Let_def)
    with ak(1) e4(1) rm(1) e6(1) show ?thesis by simp
  qed
  moreover have "eng_stash e6 \<subseteq># eng_stash e"
    unfolding eng_stash_def f6 ob(3) by (intro subset_mset.add_mono) (simp_all add: e1_def)
  ultimately show ?thesis using i6 f6 ob(3,4) ak(3) rm(3) by (simp add: eng_drops_def eng_step_def)
qed

end
