(* ===== verification/DeliveryReceive.thy ===== *)
theory DeliveryReceive
  imports EngineInvariant
begin

text \<open>
  The receive path of the delivery engine: reassembly, routing, acknowledgements, duplicate suppression
  and the ordering gate, composed as \<open>DeliveryEngine::receive\<close> composes them.
\<close>

text \<open>A step that accepts the messages \<open>A\<close>: what it delivers and still holds was held or accepted.\<close>

definition eng_flow :: "nat \<Rightarrow> delivery_engine \<Rightarrow> envelope multiset \<Rightarrow> envelope multiset \<Rightarrow> delivery_engine \<Rightarrow> bool" where
  "eng_flow k e A D e' \<longleftrightarrow> eng_inv e' \<and> eng_drops e' \<le> eng_drops e + k \<and> eng_local_id e' = eng_local_id e \<and>
     eng_cfg e' = eng_cfg e \<and> eng_last_now_us e' = eng_last_now_us e \<and> D + eng_stash e' \<subseteq># A + eng_stash e"

text \<open>The duplicate filter before and after a step that accepts \<open>A\<close>.\<close>

definition accepted :: "envelope multiset \<Rightarrow> dup_filter \<Rightarrow> dup_filter \<Rightarrow> bool" where
  "accepted A df df' \<longleftrightarrow> A = {#} \<and> df' = df \<or> (\<exists>env. A = {#env#} \<and> dedup_grows env df df')"

text \<open>What the application gets.\<close>

definition delivered :: "Result \<Rightarrow> envelope \<Rightarrow> envelope multiset" where
  "delivered r env = (if r = OK \<and> envelope_is_data env then {#env#} else {#})"

definition eng_received :: "nat \<Rightarrow> u64 \<Rightarrow> delivery_engine \<Rightarrow> Result \<times> envelope \<times> delivery_engine \<Rightarrow> bool" where
  "eng_received k now_us e = (\<lambda>(r, env, e').
     (\<exists>A. accepted A (eng_dedup e) (eng_dedup e') \<and> eng_flow k e A (delivered r env) e') \<and>
     (r = OK \<longrightarrow> env_wf env \<and> envelope_valid env \<and> envelope_addressed_to env (eng_local_id e) \<and>
        \<not> timestamp_expired (expiry_time_us env) now_us))"

section \<open>Flow\<close>

lemma eng_step_flow: "eng_step k e D e' \<Longrightarrow> eng_flow k e {#} D e'"
  by (simp add: eng_step_def eng_flow_def)

lemma eng_flow_mono: "eng_flow k e A D e' \<Longrightarrow> k \<le> l \<Longrightarrow> eng_flow l e A D e'"
  by (simp add: eng_flow_def)

lemma eng_flow_trans:
  assumes "eng_flow k e A D e'" and "eng_flow l e' A' D' e''"
  shows "eng_flow (k + l) e (A + A') (D + D') e''"
proof -
  have "D' + eng_stash e'' \<subseteq># A' + eng_stash e'" "D + eng_stash e' \<subseteq># A + eng_stash e"
    using assms by (simp_all add: eng_flow_def)
  then have "D + (D' + eng_stash e'') \<subseteq># A' + (A + eng_stash e)"
    by (smt (verit) add.left_commute subset_mset.add_left_mono subset_mset.order_trans)
  with assms show ?thesis by (simp add: eng_flow_def ac_simps)
qed

lemma eng_flow_step: "eng_flow k e A D e' \<Longrightarrow> eng_step l e' {#} e'' \<Longrightarrow> eng_flow (k + l) e A D e''"
  using eng_flow_trans [of k e A D e' l "{#}" "{#}" e''] by (simp add: eng_step_flow)

lemma eng_step_then_flow: "eng_step k e {#} e' \<Longrightarrow> eng_flow l e' A D e'' \<Longrightarrow> eng_flow (k + l) e A D e''"
  using eng_flow_trans [of k e "{#}" "{#}" e' l A D e''] by (simp add: eng_step_flow)

lemma eng_step_received: "eng_step k e {#} e' \<Longrightarrow> r \<noteq> OK \<Longrightarrow> eng_received k now e (r, env, e')"
  by (auto simp: eng_received_def accepted_def delivered_def eng_step_def intro!: eng_step_flow)

lemma step_then_received:
  assumes "eng_step k e {#} e1" and "eng_received l now e1 x"
  shows "eng_received (k + l) now e x"
proof -
  obtain r env e' where x: "x = (r, env, e')" by (cases x)
  from assms(1) have "eng_dedup e1 = eng_dedup e" "eng_local_id e1 = eng_local_id e" by (simp_all add: eng_step_def)
  with assms x show ?thesis by (auto simp: eng_received_def dest: eng_step_then_flow)
qed

section \<open>Reassembly\<close>

lemma admissible_header:
  "admissible (h\<lparr> payload_length := a, fragment_index := i, fragment_count := c, total_payload_length := b, payload := p \<rparr>)
    = admissible h"
  "admissible (h\<lparr> payload_length := a, fragment_index := i, fragment_count := c, total_payload_length := b \<rparr>)
    = admissible h"
  by (simp_all add: admissible_def)

lemma fragment_ingest_spec:
  assumes "eng_inv e" and "env_wf f" and "envelope_valid f" and "admissible f"
  shows "returns (DeliveryEngine_handle_fragment_ingest e f d now) (\<lambda>(r, out, e'). eng_step 0 e {#} e' \<and>
    (r = OK \<longrightarrow> env_wf out \<and> envelope_valid out \<and> admissible out))"
proof -
  have f: "source_id f \<noteq> 0" "payload_length f \<le> MSG_MAX_PAYLOAD_BYTES" using assms(3) by (simp_all add: envelope_valid_def)
  from ingest_safe [OF eng_invD(8) [OF assms(1)] f(1) assms(2) f(2), of d now] obtain r out rx where
    rx: "ReassemblyBuffer_ingest (eng_reassembly e) f d now = Some (r, out, rx)" "rx_inv rx"
      "r \<in> {OK, ERR_AGAIN, ERR_FULL, ERR_INVALID}"
      "r = OK \<longrightarrow> env_wf out \<and> payload_length out \<le> MSG_MAX_PAYLOAD_BYTES \<and> source_id out = source_id f"
    by (auto elim!: returnsE)
  have "length (rx_slots (eng_reassembly e)) = 8" using eng_invD(8) [OF assms(1)] by (simp add: rx_inv_def)
  with ingest_headers [OF rx(1) eng_invD(10) [OF assms(1)] assms(4)]
  have h: "rx_headers admissible rx" "r = OK \<longrightarrow> admissible out" by (simp_all add: admissible_header)
  have inv: "eng_inv (e\<lparr> eng_reassembly := rx \<rparr>)" using assms(1) rx(2) h(1) by (simp add: eng_inv_def)
  then have "eng_step 0 e {#} (e\<lparr> eng_reassembly := rx \<rparr>)" by (simp add: eng_step_def eng_stash_def eng_drops_def)
  moreover have "r = OK \<longrightarrow> envelope_valid out" using rx(4) h(2) f(1) by (simp add: envelope_valid_def admissible_def)
  ultimately show ?thesis using rx(1,3,4) h(2) eng_invD(1) [OF assms(1)] assms(3)
    by (auto simp: DeliveryEngine_handle_fragment_ingest_def)
qed

section \<open>The ordering gate\<close>

lemma ordering_ingest_any:
  assumes "ob_inv s" and "env_wf msg" and "source_id msg \<noteq> 0" and "0 < now" and "envelope_is_data msg"
  shows "returns (OrderingBuffer_ingest s msg out now) (\<lambda>(r, out', s'). ob_inv s' \<and>
    (r = OK \<and> out' = msg \<and> ob_held s' = ob_held s \<or>
     r = ERR_FULL \<and> ob_held s' = ob_held s \<or>
     r = ERR_AGAIN \<and> (ob_held s' = ob_held s \<or> ob_held s' = add_mset msg (ob_held s))))"
proof (cases "sequence_num msg = 0")
  case True
  with assms data_not_control [OF assms(5)] show ?thesis by (simp add: OrderingBuffer_ingest_def ob_inv_def)
next
  case False
  from ingest_spec [OF assms(1-4) data_not_control [OF assms(5)] False, of out] show ?thesis
    by (rule returns_mono) (auto simp: ob_ingested_def Let_def split: if_splits)
qed

lemma ordering_gate_spec:
  assumes "eng_inv e" and "now > 0" and "deliverable (eng_local_id e) env"
  shows "returns (DeliveryEngine_handle_ordering_gate e env out now) (\<lambda>(r, out', e'). eng_dedup e' = eng_dedup e \<and>
    (r = OK \<and> out' = env \<and> eng_flow 8 e {#} {#} e' \<or> r = ERR_FULL \<and> eng_flow 8 e {#} {#} e' \<or>
     r = ERR_AGAIN \<and> eng_flow 8 e {#env#} {#} e'))"
proof -
  from sweep_holds_account_spec [OF assms(1,2)] obtain e1 where
    e1: "sweep_holds_and_account e now = Some e1" "eng_step 8 e {#} e1" by (auto elim!: returnsE)
  note inv = eng_stepD(1) [OF e1(2)]
  have env: "env_wf env" "source_id env \<noteq> 0" "envelope_is_data env" "envelope_valid env"
    using assms(3) by (simp_all add: deliverable_def envelope_valid_def)
  from ordering_ingest_any [OF eng_invD(9) [OF inv] env(1,2) assms(2) env(3), of out] obtain r out' ob where
    ob: "OrderingBuffer_ingest (eng_ordering e1) env out now = Some (r, out', ob)" "ob_inv ob"
      "r = OK \<and> out' = env \<and> ob_held ob = ob_held (eng_ordering e1) \<or>
       r = ERR_FULL \<and> ob_held ob = ob_held (eng_ordering e1) \<or>
       r = ERR_AGAIN \<and> (ob_held ob = ob_held (eng_ordering e1) \<or> ob_held ob = add_mset env (ob_held (eng_ordering e1)))"
    by (auto elim!: returnsE)
  let ?e = "e1\<lparr> eng_ordering := ob \<rparr>"
  have loc: "eng_local_id e1 = eng_local_id e" "eng_dedup e1 = eng_dedup e" using e1(2) by (simp_all add: eng_step_def)
  have "\<forall>x \<in># ob_held ob. deliverable (eng_local_id e) x" using ob(3) inv assms(3) loc by (auto simp: eng_inv_def)
  then have e: "eng_inv ?e" using inv ob(2) loc by (simp add: eng_inv_def)
  then have "r = OK \<and> out' = env \<and> eng_flow 0 e1 {#} {#} ?e \<or> r = ERR_FULL \<and> eng_flow 0 e1 {#} {#} ?e \<or>
      r = ERR_AGAIN \<and> eng_flow 0 e1 {#env#} {#} ?e"
    using ob(3) by (auto simp: eng_flow_def eng_stash_def eng_drops_def intro: subset_mset.order_trans)
  then have "r = OK \<and> out' = env \<and> eng_flow 8 e {#} {#} ?e \<or> r = ERR_FULL \<and> eng_flow 8 e {#} {#} ?e \<or>
      r = ERR_AGAIN \<and> eng_flow 8 e {#env#} {#} ?e"
    using eng_step_then_flow [OF e1(2), of 0] by auto
  with e1(1) ob(1) env(4) eng_invD(1) [OF assms(1)] loc show ?thesis
    by (auto simp: DeliveryEngine_handle_ordering_gate_def)
qed

section \<open>Data messages\<close>

lemma eng_step_stats:
  assumes "eng_inv e" and "unat (msgs_dropped_expired st) \<le> eng_drops e + k"
  shows "eng_step k e {#} (e\<lparr> eng_stats := st \<rparr>)"
  using assms by (simp add: eng_step_def eng_stash_def eng_drops_def eng_inv_def)

lemma ack_if_needed:
  assumes "transport_ok T I" and "I t" and "envelope_is_data env" and "n \<noteq> 0"
  shows "returns (if envelope_needs_ack_response env then send_data_ack T t env n now else Some t) I"
  using send_data_ack_spec [OF assms] assms(2) by simp

lemma step_event:
  assumes "eng_inv e" and "ts > 0"
  shows "returns (DeliveryEngine_emit_event e k m n ts r) (eng_step 0 e {#})"
  using emit_event_spec [OF eng_invD(1,7) [OF assms(1)] assms(2)] only_events_step [OF _ assms(1)] by (rule returns_mono)

lemma step_0_trans: "eng_step k e D e' \<Longrightarrow> eng_step 0 e' {#} e'' \<Longrightarrow> eng_step k e D e''"
  using eng_step_trans [of k e D e' 0 "{#}" e''] by simp

lemma deliver_held_spec:
  assumes "eng_inv e" and "now > 0" and "transport_ok T I" and "I t" and "eng_held_pending_valid e"
    and "eng_drops e + 1 < 2 ^ 32"
  shows "returns (DeliveryEngine_deliver_held_pending T e t now) (\<lambda>(r, env, e', t'). I t' \<and>
    eng_received 1 now e (r, env, e') \<and> (r \<noteq> OK \<longrightarrow> eng_step 1 e {#} e'))"
proof -
  let ?h = "eng_held_pending e" and ?e0 = "e\<lparr> eng_held_pending_valid := False \<rparr>"
  have h: "deliverable (eng_local_id e) ?h" using assms(1,5) by (simp add: eng_inv_def)
  then have src: "source_id ?h \<noteq> 0" and data: "envelope_is_data ?h" by (simp_all add: deliverable_def envelope_valid_def)
  have i0: "eng_inv ?e0" using assms(1) by (simp add: eng_inv_def)
  have e0: "eng_step 0 e {#?h#} ?e0"
    using i0 assms(5) by (simp add: eng_step_def eng_drops_def eng_stash_def)
  note init = eng_invD(1) [OF assms(1)]
  show ?thesis
  proof (cases "timestamp_expired (expiry_time_us ?h) now")
    case True
    let ?s = "(eng_stats ?e0)\<lparr> msgs_dropped_expired := msgs_dropped_expired (eng_stats ?e0) + 1 \<rparr>"
    let ?e1 = "?e0\<lparr> eng_stats := ?s \<rparr>"
    have one: "unat (msgs_dropped_expired (eng_stats e) + 1) = eng_drops e + 1"
      using assms(6) by (simp add: eng_drops_def unat_word_ariths)
    have "eng_step 1 ?e0 {#} ?e1" using i0 one by (intro eng_step_stats) (simp_all add: eng_drops_def)
    moreover have "eng_step 0 e {#} ?e0" using i0 by (simp add: eng_step_def eng_drops_def eng_stash_def)
    ultimately have e1: "eng_step 1 e {#} ?e1" using eng_step_trans [of 0 e "{#}" ?e0 1 "{#}" ?e1] by simp
    from step_event [OF eng_stepD(1) [OF e1] assms(2), of EXPIRY_DROP "message_id ?h" "source_id ?h" ERR_EXPIRED] obtain e2 where
      e2: "DeliveryEngine_emit_event ?e1 EXPIRY_DROP (message_id ?h) (source_id ?h) now ERR_EXPIRED = Some e2" "eng_step 0 ?e1 {#} e2"
      by (auto elim!: returnsE)
    have st2: "eng_stats e2 = ?s"
      using e2(1) by (auto simp: DeliveryEngine_emit_event_def bind_eq_Some_conv nc_assert_def split: if_splits)
    from stage_next_held_spec [OF eng_stepD(1) [OF e2(2)] src] obtain e3 where
      e3: "stage_next_held e2 (source_id ?h) = Some e3" "eng_step 0 e2 {#} e3" "eng_stats e3 = eng_stats e2"
      by (auto elim!: returnsE)
    have all: "eng_step 1 e {#} e3" using step_0_trans [OF step_0_trans [OF e1 e2(2)] e3(2)] .
    have "msgs_dropped_expired (eng_stats e3) > 0"
      using one e3(3) st2 by (simp add: word_gt_0) (metis Suc_eq_plus1 nat.distinct(1) unat_0)
    with True e2(1) e3(1) assms(4,5) init all show ?thesis
      by (simp add: DeliveryEngine_deliver_held_pending_def eng_step_received)
  next
    case False
    from stage_next_held_spec [OF i0 src] obtain e1 where
      e1: "stage_next_held ?e0 (source_id ?h) = Some e1" "eng_step 0 ?e0 {#} e1" by (auto elim!: returnsE)
    from ack_if_needed [OF assms(3,4) data eng_invD(2) [OF eng_stepD(1) [OF e1(2)]], of now] obtain t' where
      t': "(if envelope_needs_ack_response ?h then send_data_ack T t ?h (eng_local_id e1) now else Some t) = Some t'" "I t'"
      by (auto elim!: returnsE)
    let ?e2 = "e1\<lparr> eng_stats := (eng_stats e1)\<lparr> msgs_received := msgs_received (eng_stats e1) + 1 \<rparr> \<rparr>"
    have "eng_step 0 e1 {#} ?e2" using eng_stepD(1) [OF e1(2)] by (intro eng_step_stats) (simp_all add: eng_drops_def)
    then have e2: "eng_step 0 e {#?h#} ?e2" using step_0_trans [OF step_0_trans [OF e0 e1(2)]] by blast
    then have "eng_received 1 now e (OK, ?h, ?e2)"
      using h False data eng_step_flow [OF eng_step_mono [OF e2, of 1]]
      by (auto simp: eng_received_def accepted_def delivered_def deliverable_def eng_step_def intro!: exI [of _ "{#}"])
    with False e1(1) t' assms(5) init h show ?thesis
      by (simp add: DeliveryEngine_deliver_held_pending_def deliverable_def)
  qed
qed

lemma accept_dedup:
  assumes "eng_inv (e\<lparr> eng_dedup := df \<rparr>)" and "dedup_grows env (eng_dedup e) df"
    and "eng_flow k (e\<lparr> eng_dedup := df \<rparr>) A D e'" and "A \<subseteq># {#env#}" and "eng_dedup e' = df"
  shows "\<exists>A. accepted A (eng_dedup e) (eng_dedup e') \<and> eng_flow k e A D e'"
proof (intro exI conjI)
  show "accepted {#env#} (eng_dedup e) (eng_dedup e')" using assms(2,5) by (simp add: accepted_def)
  have "eng_stash (e\<lparr> eng_dedup := df \<rparr>) = eng_stash e" by (simp add: eng_stash_def)
  with assms(3) have "D + eng_stash e' \<subseteq># A + eng_stash e" by (simp add: eng_flow_def)
  also have "A + eng_stash e \<subseteq># {#env#} + eng_stash e" using assms(4) by simp
  finally show "eng_flow k e {#env#} D e'" using assms(3) by (simp add: eng_flow_def eng_drops_def)
qed

lemma data_path_spec:
  assumes "eng_inv e" and "now > 0" and "transport_ok T I" and "I t" and "deliverable (eng_local_id e) env"
    and "\<not> timestamp_expired (expiry_time_us env) now"
  shows "returns (DeliveryEngine_handle_data_path T e t env now) (\<lambda>(r, env', e', t'). I t' \<and> eng_received 8 now e (r, env', e') \<and>
    (reliability_class env = RELIABLE_RETRY \<longrightarrow> env_key env \<in> df_keys (eng_dedup e')) \<and>
    (r = ERR_FULL \<longrightarrow> eng_stash e' \<subseteq># eng_stash e))"
proof -
  note init = eng_invD(1) [OF assms(1)]
  have env: "env_wf env" "source_id env \<noteq> 0" "envelope_is_data env" "envelope_valid env"
    using assms(5) by (simp_all add: deliverable_def envelope_valid_def)
  from dedup_spec [OF assms(1-4) env(3)] obtain r1 e1 t1 where
    e1: "DeliveryEngine_handle_data_dedup T e t env now = Some (r1, e1, t1)" "I t1"
      "if reliability_class env = RELIABLE_RETRY \<and> env_key env \<in> df_keys (eng_dedup e)
       then r1 = ERR_DUPLICATE \<and> eng_step 0 e {#} e1
       else r1 = OK \<and> eng_inv e1 \<and> (\<exists>df. e1 = e\<lparr> eng_dedup := df \<rparr> \<and> dedup_grows env (eng_dedup e) df)"
    by (auto elim!: returnsE)
  show ?thesis
  proof (cases "r1 = OK")
    case False
    with e1(3) have "eng_step 8 e {#} e1" "r1 \<noteq> ERR_FULL" "reliability_class env = RELIABLE_RETRY \<longrightarrow> env_key env \<in> df_keys (eng_dedup e1)"
      by (auto intro: eng_step_mono simp: eng_step_def split: if_splits)
    with False e1(1,2) init env(3) eng_step_received [of 8 e e1 r1 now env] show ?thesis
      by (simp add: DeliveryEngine_handle_data_path_def)
  next
    case True
    with e1(3) obtain df where df: "e1 = e\<lparr> eng_dedup := df \<rparr>" "dedup_grows env (eng_dedup e) df" "eng_inv e1"
      by (auto split: if_splits)
    have key: "reliability_class env = RELIABLE_RETRY \<longrightarrow> env_key env \<in> df_keys df" using df(2) by (simp add: dedup_grows_def)
    note acc = accept_dedup [OF df(3) [unfolded df(1)] df(2), folded df(1)]
    have d1: "deliverable (eng_local_id e1) env" "eng_dedup e1 = df" using assms(5) df(1) by simp_all
    from ordering_gate_spec [OF df(3) assms(2) d1(1), of envelope_init] obtain r2 out e2 where
      e2: "DeliveryEngine_handle_ordering_gate e1 env envelope_init now = Some (r2, out, e2)" "eng_dedup e2 = df"
        "r2 = OK \<and> out = env \<and> eng_flow 8 e1 {#} {#} e2 \<or> r2 = ERR_FULL \<and> eng_flow 8 e1 {#} {#} e2 \<or>
         r2 = ERR_AGAIN \<and> eng_flow 8 e1 {#env#} {#} e2"
      using d1(2) by (auto elim!: returnsE)
    show ?thesis
    proof (cases "r2 = OK")
      case False
      let ?e3 = "e2\<lparr> eng_stats := (eng_stats e2)\<lparr> msgs_dropped_ordering_full := msgs_dropped_ordering_full (eng_stats e2) + 1 \<rparr> \<rparr>"
      have f: "eng_flow 8 e1 {#env#} {#} e2" "r2 = ERR_AGAIN \<or> r2 = ERR_FULL" "r2 = ERR_FULL \<Longrightarrow> eng_stash e2 \<subseteq># eng_stash e1"
        using False e2(3) by (auto simp: eng_flow_def intro: subset_mset.order_trans)
      have st: "eng_stash ?e3 = eng_stash e2" "eng_stash e1 = eng_stash e" by (simp_all add: eng_stash_def df(1))
      from f(1) have "eng_step 0 e2 {#} ?e3" by (intro eng_step_stats) (simp_all add: eng_flow_def eng_drops_def)
      with f(1) have "eng_flow 8 e1 {#env#} {#} ?e3" using eng_flow_step [of 8 e1 "{#env#}" "{#}" e2 0 ?e3] by simp
      with acc [OF f(1) _ e2(2)] acc [of 8 "{#env#}" "{#}" ?e3] e2(2)
      have "eng_received 8 now e (ERR_AGAIN, env, e2)" "eng_received 8 now e (ERR_FULL, env, ?e3)"
        by (simp_all add: eng_received_def delivered_def)
      with e1(1,2) True e2(1,2) f(2,3) st init env(3) key show ?thesis by (auto simp: DeliveryEngine_handle_data_path_def)
    next
      case ok: True
      with e2(3) have o: "out = env" "eng_flow 8 e1 {#} {#} e2" by auto
      then have i2: "eng_inv e2" by (simp add: eng_flow_def)
      from stage_next_held_spec [OF i2 env(2)] obtain e3 where
        e3: "stage_next_held e2 (source_id env) = Some e3" "eng_step 0 e2 {#} e3" by (auto elim!: returnsE)
      from ack_if_needed [OF assms(3) e1(2) env(3) eng_invD(2) [OF eng_stepD(1) [OF e3(2)]], of now] obtain t' where
        t': "(if envelope_needs_ack_response env then send_data_ack T t1 env (eng_local_id e3) now else Some t1) = Some t'" "I t'"
        by (auto elim!: returnsE)
      let ?e4 = "e3\<lparr> eng_stats := (eng_stats e3)\<lparr> msgs_received := msgs_received (eng_stats e3) + 1 \<rparr> \<rparr>"
      have e4: "eng_step 0 e3 {#} ?e4" using eng_stepD(1) [OF e3(2)] by (intro eng_step_stats) (simp_all add: eng_drops_def)
      then have s: "eng_step 0 e2 {#} ?e4" using e3(2) step_0_trans by blast
      then have "eng_flow 8 e1 {#} {#} ?e4" "eng_dedup ?e4 = df"
        using eng_flow_step [OF o(2) s] e2(2) by (simp_all add: eng_step_def)
      then have "eng_flow 8 e1 {#env#} {#env#} ?e4" by (simp add: eng_flow_def)
      with acc [of 8 "{#env#}" "{#env#}" ?e4] \<open>eng_dedup ?e4 = df\<close> have "eng_received 8 now e (OK, env, ?e4)"
        using env assms(5,6) by (simp add: eng_received_def delivered_def deliverable_def)
      with e1(1,2) True e2(1) ok o(1) e3(1) t' init env(3,4) key \<open>eng_dedup ?e4 = df\<close> show ?thesis
        by (simp add: DeliveryEngine_handle_data_path_def)
    qed
  qed
qed

section \<open>The receive operation\<close>

lemma drain_hello_spec:
  assumes "eng_inv e" and "transport_ok T I" and "I t"
  shows "returns (drain_hello_loop T n e t) (\<lambda>(e', t'). I t' \<and> eng_step 0 e {#} e')"
  using assms
proof (induction n arbitrary: e t)
  case 0
  then show ?case by (simp add: eng_step_refl)
next
  case (Suc n)
  from transport_okD(2) [OF Suc.prems(2,3)] obtain src t1 where t1: "tr_pop_hello_peer T t = Some (src, t1)" "I t1"
    by (auto elim!: returnsE)
  show ?case
  proof (cases "src = 0")
    case True
    with t1 Suc.prems(1) show ?thesis by (simp add: eng_step_refl)
  next
    case False
    from reset_peer_ordering_spec [OF Suc.prems(1) False] obtain e1 where
      e1: "DeliveryEngine_reset_peer_ordering e src = Some e1" "eng_step 0 e {#} e1" by (auto elim!: returnsE)
    from Suc.IH [OF eng_stepD(1) [OF e1(2)] Suc.prems(2) t1(2)] step_0_trans [OF e1(2)] False t1(1) e1(1)
    show ?thesis by (auto elim!: returns_mono)
  qed
qed

lemma routing_failure_spec:
  assumes "eng_inv e" and "now > 0" and "r \<noteq> OK"
  shows "returns (do { e \<leftarrow> DeliveryEngine_record_routing_failure e r; DeliveryEngine_emit_routing_drop_event e env r now })
    (eng_step 1 e {#})"
proof -
  have "returns (DeliveryEngine_record_routing_failure e r) (eng_step 1 e {#})"
    using assms eng_invD(1) [OF assms(1)] unat_add_le [of "msgs_dropped_expired (eng_stats e)" 1]
    by (simp add: DeliveryEngine_record_routing_failure_def eng_drops_def eng_step_stats)
  then obtain e1 where e1: "DeliveryEngine_record_routing_failure e r = Some e1" "eng_step 1 e {#} e1"
    by (rule returnsE)
  have "returns (DeliveryEngine_emit_event e1 k m n now x) (eng_step 1 e {#})" for k m n x
    using step_event [OF eng_stepD(1) [OF e1(2)] assms(2)] step_0_trans [OF e1(2)] by (rule returns_mono)
  with e1(1) assms show ?thesis by (simp add: DeliveryEngine_emit_routing_drop_event_def)
qed

lemma received_mono: "eng_received k now e x \<Longrightarrow> k \<le> l \<Longrightarrow> eng_received l now e x"
  by (auto simp: eng_received_def intro: eng_flow_mono)

lemma receive_from_transport_spec:
  assumes "eng_inv e" and "now > 0" and "transport_ok T I" and "I t"
  shows "returns (receive_from_transport T e t env ms now) (\<lambda>(r, env', e', t'). I t' \<and> eng_received 8 now e (r, env', e'))"
proof -
  from transport_okD(4) [OF assms(3,4) env_wf_init, of ms] obtain r1 f t1 where
    t1: "tr_receive_message T t envelope_init ms = Some (r1, f, t1)" "I t1"
      "r1 = OK \<longrightarrow> env_wf f \<and> envelope_valid f \<and> admissible f" by (auto elim!: returnsE)
  note none = eng_step_received [OF eng_step_refl [OF assms(1)]]
  show ?thesis
  proof (cases "r1 = OK")
    case False
    with t1 none show ?thesis by (simp add: receive_from_transport_def)
  next
    case True
    with t1(3) have f: "env_wf f" "envelope_valid f" "admissible f" by simp_all
    from fragment_ingest_spec [OF assms(1) f, of envelope_init now] obtain r2 m e1 where
      e1: "DeliveryEngine_handle_fragment_ingest e f envelope_init now = Some (r2, m, e1)" "eng_step 0 e {#} e1"
        "r2 = OK \<longrightarrow> env_wf m \<and> envelope_valid m \<and> admissible m" by (auto elim!: returnsE)
    note i1 = eng_stepD(1) [OF e1(2)]
    have loc: "eng_local_id e1 \<noteq> 0" using eng_invD(2) [OF i1] .
    consider (frag) "r2 \<noteq> OK" | (late) "r2 = OK" "timestamp_expired (expiry_time_us m) now"
      | (other) "r2 = OK" "\<not> timestamp_expired (expiry_time_us m) now" "\<not> envelope_addressed_to m (eng_local_id e1)"
      | (mine) "r2 = OK" "\<not> timestamp_expired (expiry_time_us m) now" "envelope_addressed_to m (eng_local_id e1)" by blast
    then have "returns (receive_from_transport T e t env ms now) (\<lambda>(r, env', e', t'). I t' \<and> eng_received 8 now e1 (r, env', e'))"
    proof cases
      case frag
      with t1 True f e1 eng_step_received [OF eng_step_refl [OF i1]] show ?thesis by (simp add: receive_from_transport_def)
    next
      case late
      with routing_failure_spec [OF i1 assms(2), of ERR_EXPIRED m] t1 True f e1 assms(2) loc show ?thesis
        by (auto simp: receive_from_transport_def check_routing_def elim!: returns_mono
            intro: received_mono [OF eng_step_received])
    next
      case other
      with routing_failure_spec [OF i1 assms(2), of ERR_INVALID m] t1 True f e1 assms(2) loc show ?thesis
        by (auto simp: receive_from_transport_def check_routing_def elim!: returns_mono
            intro: received_mono [OF eng_step_received])
    next
      case mine
      with e1(3) have m: "env_wf m" "envelope_valid m" "admissible m" by simp_all
      show ?thesis
      proof (cases "envelope_is_control m")
        case ctl: True
        have "eng_received 8 now e1 (OK, m, e2)" if "eng_step 0 e1 {#} e2" for e2
          using eng_step_flow [OF eng_step_mono [OF that, of 8]] that m mine ctl
          by (auto simp: eng_received_def accepted_def delivered_def eng_step_def envelope_is_control_def
              envelope_is_data_def intro!: exI [of _ "{#}"])
        with control_message_spec [OF i1 assms(2) ctl m(3)] ctl mine t1 True f e1 assms(2) loc show ?thesis
          by (auto simp: receive_from_transport_def check_routing_def elim!: returns_mono)
      next
        case False
        have data: "envelope_is_data m" using m False message_kinds [of m] by (auto simp: admissible_def)
        with m mine have d: "deliverable (eng_local_id e1) m" by (simp add: deliverable_def)
        from data_path_spec [OF i1 assms(2,3) t1(2) d mine(2)] data False mine t1 True f e1 assms(2) loc show ?thesis
          by (auto simp: receive_from_transport_def check_routing_def elim!: returns_mono)
      qed
    qed
    then show ?thesis using step_then_received [OF e1(2), of 8 now] by (auto elim!: returns_mono)
  qed
qed

lemma receive_spec:
  assumes "eng_inv e" and "now > 0" and "transport_ok T I" and "I t" and "eng_drops e + 1 < 2 ^ 32"
  shows "returns (DeliveryEngine_receive T e t env ms now) (\<lambda>(r, env', e', t'). I t' \<and>
    (if time_goes_back e now then r = ERR_INVALID \<and> e' = e
     else eng_received 9 now (e\<lparr> eng_last_now_us := now \<rparr>) (r, env', e')))"
proof (cases "time_goes_back e now")
  case True
  with assms eng_invD(1) [OF assms(1)] show ?thesis by (simp add: DeliveryEngine_receive_def)
next
  case False
  let ?e = "e\<lparr> eng_last_now_us := now \<rparr>"
  have i: "eng_inv ?e" using assms(1) by (simp add: eng_inv_def)
  from drain_hello_spec [OF i assms(3,4), of ORDERING_PEER_COUNT] obtain e1 t1 where
    e1: "DeliveryEngine_drain_hello_reconnects T ?e t = Some (e1, t1)" "I t1" "eng_step 0 ?e {#} e1"
    using eng_invD(1) [OF i] by (auto simp: DeliveryEngine_drain_hello_reconnects_def elim!: returnsE)
  note i1 = eng_stepD(1) [OF e1(3)]
  note rest = receive_from_transport_spec [OF _ assms(2,3), of _ _ _ ms]
  have "returns (DeliveryEngine_receive T e t env ms now) (\<lambda>(r, env', e', t'). I t' \<and> eng_received 9 now e1 (r, env', e'))"
  proof (cases "eng_held_pending_valid e1")
    case held: False
    with rest [OF i1 e1(2), of env] e1(1) False assms(2) eng_invD(1) [OF assms(1)] show ?thesis
      by (auto simp: DeliveryEngine_receive_def elim!: returns_mono intro: received_mono)
  next
    case held: True
    have "eng_drops e1 + 1 < 2 ^ 32" using eng_stepD(2) [OF e1(3)] assms(5) by (simp add: eng_drops_def)
    from deliver_held_spec [OF i1 assms(2,3) e1(2) held this] obtain r2 m e2 t2 where
      e2: "DeliveryEngine_deliver_held_pending T e1 t1 now = Some (r2, m, e2, t2)" "I t2" "eng_received 1 now e1 (r2, m, e2)"
        "r2 \<noteq> OK \<longrightarrow> eng_step 1 e1 {#} e2" by (auto elim!: returnsE)
    show ?thesis
    proof (cases "r2 = OK")
      case True
      with e2 held e1(1) False assms(2) eng_invD(1) [OF assms(1)] show ?thesis
        by (simp add: DeliveryEngine_receive_def received_mono)
    next
      case late: False
      with e2(4) have s: "eng_step 1 e1 {#} e2" by simp
      have "returns (receive_from_transport T e2 t2 m ms now) (\<lambda>(r, env', e', t'). I t' \<and> eng_received 9 now e1 (r, env', e'))"
        using rest [OF eng_stepD(1) [OF s] e2(2), of m] step_then_received [OF s, of 8 now] by (auto elim!: returns_mono)
      with late e2(1) held e1(1) False assms(2) eng_invD(1) [OF assms(1)] show ?thesis
        by (simp add: DeliveryEngine_receive_def)
    qed
  qed
  then show ?thesis using False step_then_received [OF e1(3), of 9 now] by (auto elim!: returns_mono)
qed

end
