(* ===== verification/DeliverySend.thy ===== *)
theory DeliverySend
  imports DeliveryReceive
begin

text \<open>
  The send path of the delivery engine: identifiers and sequence numbers, the reservation in the
  acknowledgement tracker and the retry manager, fragmentation and the roll-back when the transport
  fails; and the two housekeeping operations \<open>pump_retries\<close> and \<open>sweep_ack_timeouts\<close>.
\<close>

text \<open>An observation \<open>sent\<close> of the transport: the messages handed to the wire. A failed call sends nothing,
  and only the engine itself reports \<open>ERR_IO_PARTIAL\<close>.\<close>

definition transport_logs :: "'t transport \<Rightarrow> ('t \<Rightarrow> envelope list) \<Rightarrow> bool" where
  "transport_logs T sent \<longleftrightarrow> (\<forall>t env r t'. tr_send_message T t env = Some (r, t') \<longrightarrow>
     (if r = OK then sent t' = sent t @ [env] else sent t' = sent t \<and> r \<noteq> ERR_IO_PARTIAL))"

text \<open>The frames of a message.\<close>

definition frames_of :: "envelope \<Rightarrow> envelope list \<Rightarrow> bool" where
  "frames_of env fs \<longleftrightarrow> length fs = frag_total (unat (payload_length env)) \<and>
     (\<forall>i < length fs. is_fragment_of env i (fs ! i) \<and> same_header (fs ! i) env)"

text \<open>The fields that \<open>send\<close> sets for an unfragmented message.\<close>

definition unfragmented :: "envelope \<Rightarrow> bool" where
  "unfragmented env \<longleftrightarrow> fragment_index env = 0 \<and> fragment_count env = 1 \<and>
     total_payload_length env = ucast (payload_length env)"

text \<open>Only the fragment buffer changed.\<close>

definition eng_only_frags :: "delivery_engine \<Rightarrow> delivery_engine \<Rightarrow> bool" where
  "eng_only_frags e e' \<longleftrightarrow> (\<exists>buf. e' = e\<lparr> eng_frag_buf := buf \<rparr> \<and> length buf = 4)"

text \<open>The outcome of sending \<open>fs\<close> one by one, when \<open>any\<close> says whether a frame was sent before.\<close>

definition loop_outcome :: "envelope list \<Rightarrow> bool \<Rightarrow> envelope list \<Rightarrow> Result \<Rightarrow> envelope list \<Rightarrow> bool" where
  "loop_outcome fs any old r new \<longleftrightarrow> (\<exists>k \<le> length fs. new = old @ take k fs \<and>
     (if r = OK then k = length fs else k < length fs \<and> r = (if any \<or> k > 0 then ERR_IO_PARTIAL else ERR_IO)))"

text \<open>The outcome for a whole message: all frames, a proper and non-empty prefix of them, or nothing is sent.\<close>

definition wire_outcome :: "envelope \<Rightarrow> envelope list \<Rightarrow> Result \<Rightarrow> envelope list \<Rightarrow> bool" where
  "wire_outcome env old r new \<longleftrightarrow>
     (if r = OK then \<exists>fs. frames_of env fs \<and> new = old @ fs
      else if r = ERR_IO_PARTIAL then \<exists>fs k. frames_of env fs \<and> 0 < k \<and> k < length fs \<and> new = old @ take k fs
      else new = old)"

text \<open>What an accepted message adds to the two tables.\<close>

definition at_entry :: "envelope \<Rightarrow> envelope multiset" where
  "at_entry env = (if envelope_needs_ack_response env then {#env#} else {#})"

definition rm_entry :: "envelope \<Rightarrow> envelope multiset" where
  "rm_entry env = (if reliability_class env = RELIABLE_RETRY then {#env#} else {#})"

text \<open>No entry of the message's key is in a table.\<close>

definition fresh_in :: "envelope \<Rightarrow> envelope multiset \<Rightarrow> bool" where
  "fresh_in env M \<longleftrightarrow> (\<forall>x \<in># M. env_key x \<noteq> env_key env)"

text \<open>The messages that the engine can send without tripping an assertion.\<close>

definition sendable :: "channel_config \<Rightarrow> envelope \<Rightarrow> bool" where
  "sendable cfg env \<longleftrightarrow> env_wf env \<and> message_type env \<noteq> INVALID \<and> payload_length env \<le> MSG_MAX_PAYLOAD_BYTES \<and>
     (envelope_needs_ack_response env \<longrightarrow> destination_id env \<noteq> 0) \<and>
     (envelope_is_data env \<and> sequence_num env = 0 \<and> cc_ordering cfg = ORDERED \<longrightarrow> destination_id env \<noteq> 0) \<and>
     (reliability_class env = RELIABLE_RETRY \<longrightarrow> expiry_time_us env \<noteq> - 1)"

text \<open>The envelope with the fields that \<open>send\<close> fills in.\<close>

definition stamped :: "delivery_engine \<Rightarrow> u64 \<Rightarrow> envelope \<Rightarrow> envelope \<Rightarrow> bool" where
  "stamped e now_us env env' \<longleftrightarrow> (\<exists>seq. env' = env\<lparr> source_id := eng_local_id e, message_id := eng_id_gen e,
     timestamp_us := now_us, sequence_num := seq, fragment_index := 0, fragment_count := 1,
     total_payload_length := ucast (payload_length env) \<rparr>)"

text \<open>The contents of the two tables.\<close>

definition eng_tables :: "delivery_engine \<Rightarrow> envelope multiset \<times> envelope multiset" where
  "eng_tables e = (at_live (eng_ack_tracker e), rm_live (eng_retry_manager e))"

definition with_booking :: "envelope \<Rightarrow> envelope multiset \<times> envelope multiset \<Rightarrow> envelope multiset \<times> envelope multiset" where
  "with_booking env = (\<lambda>(A, R). (A + at_entry env, R + rm_entry env))"

text \<open>A message is booked exactly if one of its frames was sent, and the caller is told of an incomplete send.\<close>

definition send_outcome ::
    "envelope \<Rightarrow> Result \<Rightarrow> delivery_engine \<Rightarrow> envelope list \<Rightarrow> delivery_engine \<Rightarrow> envelope list \<Rightarrow> bool" where
  "send_outcome env r e old e' new \<longleftrightarrow>
     (if r = OK then eng_tables e' = with_booking env (eng_tables e) \<and> (\<exists>fs. frames_of env fs \<and> new = old @ fs)
      else eng_tables e' = eng_tables e \<and> new = old \<or>
        r = ERR_IO \<and> eng_tables e' = with_booking env (eng_tables e) \<and>
          (\<exists>fs k. frames_of env fs \<and> 0 < k \<and> k < length fs \<and> new = old @ take k fs))"

text \<open>The part of \<open>send\<close> after the envelope has been completed.\<close>

definition send_tail ::
    "'t transport \<Rightarrow> delivery_engine \<Rightarrow> 't \<Rightarrow> envelope \<Rightarrow> u64 \<Rightarrow> (Result \<times> envelope \<times> delivery_engine \<times> 't) option" where
  "send_tail T e t env now_us = do {
     (book_res, ak, rm) \<leftarrow> reserve_bookkeeping (eng_ack_tracker e) (eng_retry_manager e) env (eng_cfg e) now_us;
     let e = e\<lparr> eng_ack_tracker := ak, eng_retry_manager := rm \<rparr>;
     if book_res \<noteq> OK then do {
       e \<leftarrow> DeliveryEngine_record_send_failure e env book_res;
       Some (book_res, env, e, t)
     }
     else do {
       (res, e, t) \<leftarrow> DeliveryEngine_send_fragments T e t env now_us;
       if res \<noteq> OK then do {
         (reported, ak, rm) \<leftarrow> handle_send_fragments_failure (eng_ack_tracker e) (eng_retry_manager e) env res;
         let e = e\<lparr> eng_ack_tracker := ak, eng_retry_manager := rm \<rparr>;
         e \<leftarrow> DeliveryEngine_record_send_failure e env reported;
         Some (reported, env, e, t)
       }
       else do {
         let e = e\<lparr> eng_stats := (eng_stats e)\<lparr> msgs_sent := msgs_sent (eng_stats e) + 1 \<rparr> \<rparr>;
         e \<leftarrow> DeliveryEngine_emit_event e SEND_OK (message_id env) (destination_id env) now_us OK;
         nc_assert (source_id env = eng_local_id e);
         nc_assert (message_id env \<noteq> 0);
         Some (OK, env, e, t)
       }
     }
   }"

section \<open>Fragments on the wire\<close>

lemma send_via_spec:
  assumes "eng_initialized e" and "now > 0" and "transport_ok T I" and "I t" and "env_wf env" and "envelope_valid env"
  shows "returns (DeliveryEngine_send_via_transport T e t env now) (\<lambda>(r, t'). I t' \<and> (transport_logs T sent \<longrightarrow>
    (if r = OK then sent t' = sent t @ [env] else sent t' = sent t \<and> r \<noteq> ERR_IO_PARTIAL)))"
proof (cases "timestamp_expired (expiry_time_us env) now")
  case True
  with assms show ?thesis by (simp add: DeliveryEngine_send_via_transport_def)
next
  case False
  from transport_okD(3) [OF assms(3-6)] obtain r t' where t': "tr_send_message T t env = Some (r, t')" "I t'"
    by (auto elim!: returnsE)
  then have "transport_logs T sent \<Longrightarrow>
      if r = OK then sent t' = sent t @ [env] else sent t' = sent t \<and> r \<noteq> ERR_IO_PARTIAL"
    unfolding transport_logs_def by blast
  with t' False assms show ?thesis by (simp add: DeliveryEngine_send_via_transport_def)
qed

lemma loop_outcome_Cons:
  assumes "loop_outcome fs True (old @ [f]) r new"
  shows "loop_outcome (f # fs) any old r new"
proof -
  from assms obtain k where "k \<le> length fs" "new = (old @ [f]) @ take k fs"
    "if r = OK then k = length fs else k < length fs \<and> r = (if True \<or> k > 0 then ERR_IO_PARTIAL else ERR_IO)"
    unfolding loop_outcome_def by blast
  then show ?thesis unfolding loop_outcome_def by (intro exI [of _ "Suc k"]) auto
qed

lemma loop_outcome_wire: "frames_of env fs \<Longrightarrow> loop_outcome fs False old r new \<Longrightarrow> wire_outcome env old r new"
  by (auto simp: loop_outcome_def wire_outcome_def split: if_splits)

lemma frag_loop_spec:
  assumes "eng_initialized e" and "now > 0" and "transport_ok T I" and "I t"
    and "\<forall>i \<in> set is. env_wf (eng_frag_buf e ! i) \<and> envelope_valid (eng_frag_buf e ! i)"
  shows "returns (send_frag_loop T e now is any t) (\<lambda>(r, any', t'). I t' \<and> r \<in> {OK, ERR_IO, ERR_IO_PARTIAL} \<and>
    (r = OK \<longrightarrow> any' = (any \<or> is \<noteq> [])) \<and>
    (transport_logs T sent \<longrightarrow> loop_outcome (map ((!) (eng_frag_buf e)) is) any (sent t) r (sent t')))"
  using assms(4,5)
proof (induction "is" arbitrary: any t)
  case Nil
  then show ?case by (simp add: loop_outcome_def)
next
  case (Cons i js)
  then have f: "env_wf (eng_frag_buf e ! i)" "envelope_valid (eng_frag_buf e ! i)" by simp_all
  from send_via_spec [OF assms(1-3) Cons.prems(1) f, of sent] obtain r1 t1 where
    t1: "DeliveryEngine_send_via_transport T e t (eng_frag_buf e ! i) now = Some (r1, t1)" "I t1"
      "transport_logs T sent \<Longrightarrow> (if r1 = OK then sent t1 = sent t @ [eng_frag_buf e ! i]
         else sent t1 = sent t \<and> r1 \<noteq> ERR_IO_PARTIAL)" by (auto elim!: returnsE)
  show ?case
  proof (cases "r1 = OK")
    case False
    then have "transport_logs T sent \<Longrightarrow> loop_outcome (map ((!) (eng_frag_buf e)) (i # js)) any (sent t)
        (if any then ERR_IO_PARTIAL else ERR_IO) (sent t1)"
      using t1(3) unfolding loop_outcome_def by (intro exI [of _ 0]) simp
    with False t1(1,2) show ?thesis by simp
  next
    case True
    from Cons.IH [OF t1(2), of True] Cons.prems(2) obtain r2 any2 t2 where
      t2: "send_frag_loop T e now js True t1 = Some (r2, any2, t2)" "I t2" "r2 \<in> {OK, ERR_IO, ERR_IO_PARTIAL}" "r2 = OK \<longrightarrow> any2"
        "transport_logs T sent \<longrightarrow> loop_outcome (map ((!) (eng_frag_buf e)) js) True (sent t1) r2 (sent t2)"
      by (auto elim!: returnsE)
    have "transport_logs T sent \<Longrightarrow> loop_outcome (map ((!) (eng_frag_buf e)) (i # js)) any (sent t) r2 (sent t2)"
      using t1(3) t2(5) True by (auto intro: loop_outcome_Cons)
    with True t1(1) t2(1-4) show ?thesis by auto
  qed
qed

lemma fragment_valid:
  assumes "is_fragment_of env i f" and "same_header f env" and "envelope_valid env"
  shows "env_wf f" "envelope_valid f"
proof -
  have "unat (payload_length f) \<le> 1024" using assms(1) slice_le [of i "payload_bytes env"]
    by (auto simp: is_fragment_of_def unat_of_nat intro: order_trans [OF mod_less_eq_dividend])
  with assms show "envelope_valid f" "env_wf f"
    by (auto simp: envelope_valid_def is_fragment_of_def same_header_def word_le_nat_alt)
qed

lemma frames_single:
  assumes "unfragmented env" and "env_wf env" and "payload_length env \<le> 1024"
  shows "frames_of env [env]"
proof -
  have le: "unat (payload_length env) \<le> 1024" using assms(3) by (simp add: word_le_nat_alt)
  then have "frag_total (unat (payload_length env)) = 1" by (auto simp: frag_total_def)
  moreover have "length (payload_bytes env) = unat (payload_length env)"
    using assms(2) le by (simp add: payload_bytes_def env_wf_def)
  ultimately show ?thesis using assms le
    by (simp add: frames_of_def is_fragment_of_def same_header_def unfragmented_def frag_slice_def)
qed

text \<open>What is on the wire after \<open>send_fragments\<close>: all frames, a proper prefix, or nothing.\<close>

lemma send_fragments_spec:
  assumes "eng_inv e" and "now > 0" and "transport_ok T I" and "I t" and "env_wf env" and "envelope_valid env"
  shows "returns (DeliveryEngine_send_fragments T e t env now) (\<lambda>(r, e', t'). I t' \<and> eng_only_frags e e' \<and>
    (transport_logs T sent \<and> unfragmented env \<longrightarrow> wire_outcome env (sent t) r (sent t')))"
proof -
  note init = eng_invD(1) [OF assms(1)]
  have len: "payload_length env \<le> MSG_MAX_PAYLOAD_BYTES" "length (eng_frag_buf e) = 4"
    using assms(1,6) by (simp_all add: envelope_valid_def eng_inv_def)
  show ?thesis
  proof (cases "payload_length env > FRAG_MAX_PAYLOAD_BYTES")
    case False
    have refl: "eng_only_frags e e"
      using len(2) unfolding eng_only_frags_def by (intro exI [of _ "eng_frag_buf e"]) simp
    have fr: "unfragmented env \<Longrightarrow> frames_of env [env]" using False assms(5) by (intro frames_single) (simp_all add: not_less)
    from send_via_spec [OF init assms(2-6), of sent] fr refl init assms(6) False len(1) show ?thesis
      by (auto simp: DeliveryEngine_send_fragments_def needs_fragmentation_def wire_outcome_def elim!: returns_mono)
  next
    case True
    obtain n buf where fm: "fragment_message env (eng_frag_buf e) 4 = Some (n, buf)" "length buf = 4"
        "n = frag_total (unat (payload_length env))"
        "\<forall>i < n. is_fragment_of env i (buf ! i) \<and> same_header (buf ! i) env"
      using fragment_message_spec [OF assms(5) len(1), of 4 "eng_frag_buf e"] len(2) by (auto elim!: returnsE)
    let ?e = "e\<lparr> eng_frag_buf := buf \<rparr>"
    have n: "1 \<le> n" "n \<le> 4" using frag_total_bounds [of "unat (payload_length env)"] len(1) fm(3) by (auto simp: word_le_nat_alt)
    have only: "eng_only_frags e ?e" using fm(2) by (auto simp: eng_only_frags_def)
    have fr: "frames_of env (map ((!) buf) [0..<n])" using fm(3,4) by (simp add: frames_of_def)
    have "\<forall>i \<in> set [0..<n]. env_wf (eng_frag_buf ?e ! i) \<and> envelope_valid (eng_frag_buf ?e ! i)"
      using fm(4) fragment_valid [OF _ _ assms(6)] by auto
    from frag_loop_spec [OF _ assms(2-4) this, of False sent] init obtain r any t' where
      lp: "send_frag_loop T ?e now [0..<n] False t = Some (r, any, t')" "I t'" "r \<in> {OK, ERR_IO, ERR_IO_PARTIAL}"
        "r = OK \<longrightarrow> any" "transport_logs T sent \<longrightarrow> loop_outcome (map ((!) buf) [0..<n]) False (sent t) r (sent t')"
      using n(1) by (auto elim!: returnsE)
    have "transport_logs T sent \<Longrightarrow> wire_outcome env (sent t) r (sent t')"
      using lp(5) loop_outcome_wire [OF fr] by blast
    with fm(1) n lp(1-4) only True len(1) init assms(6) show ?thesis
      by (auto simp: DeliveryEngine_send_fragments_def needs_fragmentation_def)
  qed
qed

section \<open>Reservation and roll-back\<close>

lemma reserve_spec:
  assumes "at_inv ak" and "rm_inv rm" and "now > 0" and "envelope_valid env" and "cc_retry_backoff_ms cfg \<le> 60000"
    and "reliability_class env = RELIABLE_RETRY \<longrightarrow> expiry_time_us env \<noteq> - 1"
  shows "returns (reserve_bookkeeping ak rm env cfg now) (\<lambda>(r, at', rm'). at_inv at' \<and> rm_inv rm' \<and>
    at_live at' \<subseteq># at_live ak + at_entry env \<and> rm_live rm' \<subseteq># rm_live rm + rm_entry env \<and>
    (if r = OK then at_live at' = at_live ak + at_entry env \<and> rm_live rm' = rm_live rm + rm_entry env
     else rm' = rm \<and> (fresh_in env (at_live ak) \<longrightarrow> at_live at' = at_live ak)))"
proof (cases "envelope_needs_ack_response env")
  case False
  with assms show ?thesis
    by (simp add: reserve_bookkeeping_def envelope_needs_ack_response_def at_entry_def rm_entry_def)
next
  case True
  have src: "source_id env \<noteq> NODE_ID_INVALID" using assms(4) by (simp add: envelope_valid_def)
  from ackt.add_law [OF assms(1) TrueI, of env "timestamp_deadline_us now (cc_recv_timeout_ms cfg)"] obtain r1 at1 where
    at1: "AckTracker_track ak env (timestamp_deadline_us now (cc_recv_timeout_ms cfg)) = Some (r1, at1)" "at_inv at1"
      "r1 = OK \<and> at_live at1 = add_mset env (at_live ak) \<or> r1 = ERR_FULL \<and> at1 = ak"
    by (auto elim!: returnsE)
  consider (full) "r1 \<noteq> OK" | (ack) "r1 = OK" "reliability_class env \<noteq> RELIABLE_RETRY"
    | (retry) "r1 = OK" "reliability_class env = RELIABLE_RETRY" by blast
  then show ?thesis
  proof cases
    case full
    with at1 assms True show ?thesis
      by (auto simp: reserve_bookkeeping_def envelope_needs_ack_response_def)
  next
    case ack
    with at1 assms True show ?thesis
      by (auto simp: reserve_bookkeeping_def envelope_needs_ack_response_def at_entry_def rm_entry_def)
  next
    case retry
    with assms(4-6) have "schedulable (cc_max_retries cfg, cc_retry_backoff_ms cfg, now) env" by (simp add: schedulable_def)
    from rtm.add_law [OF assms(2) this] obtain r2 rm1 where
      rm1: "RetryManager_schedule rm env (cc_max_retries cfg) (cc_retry_backoff_ms cfg) now = Some (r2, rm1)" "rm_inv rm1"
        "r2 = OK \<and> rm_live rm1 = add_mset env (rm_live rm) \<or> r2 = ERR_FULL \<and> rm1 = rm"
      by (auto elim!: returnsE)
    from ackt.cancel_exact [OF at1(2) src] obtain r3 at2 where
      at2: "AckTracker_cancel at1 (source_id env) (message_id env) = Some (r3, at2)" "at_inv at2" "at_live at2 \<subseteq># at_live at1"
        "\<forall>M. at_live at1 = add_mset env M \<and> (\<forall>x \<in># M. env_key x \<noteq> env_key env) \<longrightarrow> at_live at2 = M"
      by (auto elim!: returnsE)
    have fr: "fresh_in env (at_live ak) \<longrightarrow> at_live at2 = at_live ak"
      using at2(4) at1(3) retry(1) by (auto simp: fresh_in_def)
    from at1 at2(1-3) rm1 fr retry assms(3,4) show ?thesis
      by (auto simp: reserve_bookkeeping_def at_entry_def rm_entry_def envelope_needs_ack_response_def)
  qed
qed

lemma failure_spec:
  assumes "at_inv ak" and "rm_inv rm" and "envelope_valid env" and "res \<noteq> OK"
  shows "returns (handle_send_fragments_failure ak rm env res) (\<lambda>(r, at', rm'). at_inv at' \<and> rm_inv rm' \<and>
    at_live at' \<subseteq># at_live ak \<and> rm_live rm' \<subseteq># rm_live rm \<and> r \<noteq> OK \<and>
    (if res = ERR_IO_PARTIAL then r = ERR_IO \<and> at' = ak \<and> rm' = rm
     else r = res \<and> (\<forall>M. at_live ak = M + at_entry env \<and> fresh_in env M \<longrightarrow> at_live at' = M) \<and>
       (\<forall>M. rm_live rm = M + rm_entry env \<and> fresh_in env M \<longrightarrow> rm_live rm' = M)))"
proof (cases "res = ERR_IO_PARTIAL \<or> \<not> envelope_needs_ack_response env")
  case True
  with assms show ?thesis
    by (auto simp: handle_send_fragments_failure_def envelope_needs_ack_response_def at_entry_def rm_entry_def)
next
  case False
  have src: "source_id env \<noteq> NODE_ID_INVALID" using assms(3) by (simp add: envelope_valid_def)
  from ackt.cancel_exact [OF assms(1) src] obtain r1 at1 where
    at1: "AckTracker_cancel ak (source_id env) (message_id env) = Some (r1, at1)" "at_inv at1" "at_live at1 \<subseteq># at_live ak"
      "\<forall>M. at_live ak = add_mset env M \<and> (\<forall>x \<in># M. env_key x \<noteq> env_key env) \<longrightarrow> at_live at1 = M"
    by (auto elim!: returnsE)
  from rtm.cancel_exact [OF assms(2) src] obtain r2 rm1 where
    rm1: "RetryManager_cancel rm (source_id env) (message_id env) = Some (r2, rm1)" "rm_inv rm1" "rm_live rm1 \<subseteq># rm_live rm"
      "\<forall>M. rm_live rm = add_mset env M \<and> (\<forall>x \<in># M. env_key x \<noteq> env_key env) \<longrightarrow> rm_live rm1 = M"
    by (auto elim!: returnsE)
  from False at1 rm1 assms show ?thesis
    by (auto simp: handle_send_fragments_failure_def rollback_on_transport_failure_def envelope_needs_ack_response_def
        at_entry_def rm_entry_def fresh_in_def)
qed

section \<open>The send operation\<close>

lemma next_seq_spec:
  assumes "eng_inv e" and "dst \<noteq> 0"
  shows "returns (DeliveryEngine_next_seq_for e dst) (\<lambda>(seq, e'). \<exists>ss. e' = e\<lparr> eng_seq_state := ss \<rparr> \<and> length ss = 32)"
proof -
  have len: "length (eng_seq_state e) = 32" using assms(1) by (simp add: eng_inv_def)
  have keep: "\<exists>ss. e = e\<lparr> eng_seq_state := ss \<rparr> \<and> length ss = 32"
    using len by (intro exI [of _ "eng_seq_state e"]) simp
  have act: "i < length (eng_seq_state e)" if "first_idx P (eng_seq_state e) = Some i" for P i
    using first_idx_SomeD [OF that] by simp
  show ?thesis
    using assms(2) eng_invD(1) [OF assms(1)] keep
    by (auto simp: DeliveryEngine_next_seq_for_def len Let_def dest!: act split: option.split)
qed

lemma book_inv:
  assumes "eng_inv e" and "at_inv ak" and "rm_inv rm"
    and "at_live ak \<subseteq># at_live (eng_ack_tracker e) + at_entry env"
    and "rm_live rm \<subseteq># rm_live (eng_retry_manager e) + rm_entry env"
    and "env_wf env" and "envelope_valid env" and "timestamp_us env > 0"
    and "envelope_needs_ack_response env \<longrightarrow> destination_id env \<noteq> 0"
  shows "eng_inv (e\<lparr> eng_ack_tracker := ak, eng_retry_manager := rm \<rparr>)"
proof -
  have "timestamp_us x > 0 \<and> destination_id x \<noteq> 0" if "x \<in># at_live ak" for x
    using mset_subset_eqD [OF assms(4) that] assms(1,8,9) by (auto simp: at_entry_def eng_inv_def split: if_splits)
  moreover have "env_wf x \<and> envelope_valid x" if "x \<in># rm_live rm" for x
    using mset_subset_eqD [OF assms(5) that] assms(1,6,7) by (auto simp: rm_entry_def eng_inv_def split: if_splits)
  ultimately show ?thesis using assms(1-3) by (simp add: eng_inv_def)
qed

lemma record_failure_spec:
  assumes "eng_inv e" and "r \<noteq> OK" and "timestamp_us env > 0"
  shows "returns (DeliveryEngine_record_send_failure e env r) (\<lambda>e'. eng_step 1 e {#} e' \<and> eng_tables e' = eng_tables e)"
proof -
  let ?e1 = "e\<lparr> eng_stats := (eng_stats e)\<lparr> msgs_dropped_expired := msgs_dropped_expired (eng_stats e) + 1 \<rparr> \<rparr>"
  have s: "eng_step 1 e {#} ?e1" using assms(1) unat_add_le [of "msgs_dropped_expired (eng_stats e)" 1]
    by (intro eng_step_stats) (simp_all add: eng_drops_def)
  have ev: "returns (DeliveryEngine_emit_event x k m n (timestamp_us env) y)
      (\<lambda>e'. eng_step 1 e {#} e' \<and> eng_tables e' = eng_tables e)"
    if x: "eng_step 1 e {#} x" "eng_tables x = eng_tables e" for x k m n y
    using emit_event_spec [OF eng_invD(1,7) [OF eng_stepD(1) [OF x(1)]] assms(3)]
  proof (rule returns_mono)
    fix e' assume o: "eng_only_events x e'"
    then have "eng_step 0 x {#} e'" using only_events_step eng_stepD(1) [OF x(1)] by blast
    then show "eng_step 1 e {#} e' \<and> eng_tables e' = eng_tables e"
      using step_0_trans [OF x(1)] x(2) o by (auto simp: eng_only_events_def eng_tables_def)
  qed
  show ?thesis
    using ev [OF s] ev [OF eng_step_refl [OF assms(1)]] assms(2) eng_invD(1) [OF assms(1)]
    by (simp add: DeliveryEngine_record_send_failure_def eng_tables_def)
qed

lemma only_frags_step:
  assumes "eng_only_frags e e'" and "eng_inv e"
  shows "eng_step 0 e {#} e'" "eng_ack_tracker e' = eng_ack_tracker e" "eng_retry_manager e' = eng_retry_manager e"
proof -
  from assms(1) obtain buf where b: "e' = e\<lparr> eng_frag_buf := buf \<rparr>" "length buf = 4" by (auto simp: eng_only_frags_def)
  then have "eng_inv e'" using assms(2) by (simp add: eng_inv_def)
  with b show "eng_step 0 e {#} e'" "eng_ack_tracker e' = eng_ack_tracker e" "eng_retry_manager e' = eng_retry_manager e"
    by (simp_all add: eng_step_def eng_stash_def eng_drops_def)
qed

lemma step_book: "eng_inv (e\<lparr> eng_ack_tracker := ak, eng_retry_manager := rm \<rparr>) \<Longrightarrow>
    eng_step 0 e {#} (e\<lparr> eng_ack_tracker := ak, eng_retry_manager := rm \<rparr>)"
  by (simp add: eng_step_def eng_stash_def eng_drops_def)

lemma success_spec:
  assumes "eng_inv e" and "now > 0"
  shows "returns (DeliveryEngine_emit_event (e\<lparr> eng_stats := (eng_stats e)\<lparr> msgs_sent := msgs_sent (eng_stats e) + 1 \<rparr> \<rparr>) k m n now r)
    (\<lambda>e'. eng_step 0 e {#} e' \<and> eng_tables e' = eng_tables e)"
proof -
  let ?e = "e\<lparr> eng_stats := (eng_stats e)\<lparr> msgs_sent := msgs_sent (eng_stats e) + 1 \<rparr> \<rparr>"
  have s: "eng_step 0 e {#} ?e" using assms(1) by (intro eng_step_stats) (simp_all add: eng_drops_def)
  have "eng_step 0 e {#} e' \<and> eng_tables e' = eng_tables e" if o: "eng_only_events ?e e'" for e'
    using step_0_trans [OF s only_events_step [OF o eng_stepD(1) [OF s]]] o by (auto simp: eng_only_events_def eng_tables_def)
  with emit_event_spec [OF eng_invD(1,7) [OF eng_stepD(1) [OF s]] assms(2)] show ?thesis by (rule returns_mono)
qed

lemma send_tail_spec:
  assumes "eng_inv e" and "now > 0" and "transport_ok T I" and "I t" and "env_wf env" and "envelope_valid env"
    and "unfragmented env" and "timestamp_us env = now" and "source_id env = eng_local_id e" and "message_id env \<noteq> 0"
    and "envelope_needs_ack_response env \<longrightarrow> destination_id env \<noteq> 0"
    and "reliability_class env = RELIABLE_RETRY \<longrightarrow> expiry_time_us env \<noteq> - 1"
  shows "returns (send_tail T e t env now) (\<lambda>(r, env', e', t'). I t' \<and> env' = env \<and> eng_step 1 e {#} e' \<and>
    (transport_logs T sent \<and> fresh_in env (at_live (eng_ack_tracker e)) \<and> fresh_in env (rm_live (eng_retry_manager e)) \<longrightarrow>
      send_outcome env r e (sent t) e' (sent t')))"
proof -
  have ts: "timestamp_us env > 0" and cfg: "cc_retry_backoff_ms (eng_cfg e) \<le> 60000"
    using assms(1,2,8) by (simp_all add: eng_inv_def)
  note bookI = book_inv [OF _ _ _ _ _ assms(5,6) ts assms(11)]
  from reserve_spec [OF eng_invD(4,5) [OF assms(1)] assms(2,6) cfg assms(12)] obtain r1 ak rm where
    b: "reserve_bookkeeping (eng_ack_tracker e) (eng_retry_manager e) env (eng_cfg e) now = Some (r1, ak, rm)"
      "at_inv ak" "rm_inv rm" "at_live ak \<subseteq># at_live (eng_ack_tracker e) + at_entry env"
      "rm_live rm \<subseteq># rm_live (eng_retry_manager e) + rm_entry env"
      "if r1 = OK then at_live ak = at_live (eng_ack_tracker e) + at_entry env \<and> rm_live rm = rm_live (eng_retry_manager e) + rm_entry env
       else rm = eng_retry_manager e \<and> (fresh_in env (at_live (eng_ack_tracker e)) \<longrightarrow> at_live ak = at_live (eng_ack_tracker e))"
    by (elim returnsE, clarify) blast
  let ?e1 = "e\<lparr> eng_ack_tracker := ak, eng_retry_manager := rm \<rparr>"
  have e1: "eng_step 0 e {#} ?e1" using bookI [OF assms(1) b(2-5)] by (rule step_book)
  note i1 = eng_stepD(1) [OF e1]
  show ?thesis
  proof (cases "r1 = OK")
    case False
    from record_failure_spec [OF i1 False ts] obtain e2 where
      e2: "DeliveryEngine_record_send_failure ?e1 env r1 = Some e2" "eng_step 1 ?e1 {#} e2" "eng_tables e2 = eng_tables ?e1"
      by (auto elim!: returnsE)
    have "fresh_in env (at_live (eng_ack_tracker e)) \<Longrightarrow> send_outcome env r1 e (sent t) e2 (sent t)"
      using False e2(3) b(6) by (simp add: send_outcome_def eng_tables_def)
    with False b(1) e2 assms(4) eng_step_trans [OF e1 e2(2)] show ?thesis by (simp add: send_tail_def)
  next
    case True
    from send_fragments_spec [OF i1 assms(2-6), of sent] obtain r2 e2 t2 where
      e2: "DeliveryEngine_send_fragments T ?e1 t env now = Some (r2, e2, t2)" "I t2" "eng_only_frags ?e1 e2"
        "transport_logs T sent \<longrightarrow> wire_outcome env (sent t) r2 (sent t2)"
      using assms(7) by (elim returnsE, clarify) blast
    note s2 = only_frags_step [OF e2(3) i1]
    have e2': "eng_step 0 e {#} e2" using e1 s2(1) by (rule step_0_trans)
    have tab: "eng_tables e2 = with_booking env (eng_tables e)"
      using True b(6) s2(2,3) by (simp add: eng_tables_def with_booking_def)
    show ?thesis
    proof (cases "r2 = OK")
      case ok: True
      from success_spec [OF eng_stepD(1) [OF s2(1)] assms(2), of SEND_OK "message_id env" "destination_id env" OK] obtain e3 where
        e3: "DeliveryEngine_emit_event (e2\<lparr> eng_stats := (eng_stats e2)\<lparr> msgs_sent := msgs_sent (eng_stats e2) + 1 \<rparr> \<rparr>)
               SEND_OK (message_id env) (destination_id env) now OK = Some e3" "eng_step 0 e2 {#} e3" "eng_tables e3 = eng_tables e2"
        by (auto elim!: returnsE)
      have out: "transport_logs T sent \<Longrightarrow> send_outcome env OK e (sent t) e3 (sent t2)"
        using e2(4) ok e3(3) tab by (simp add: send_outcome_def wire_outcome_def)
      have s3: "eng_step 0 e {#} e3" using e2' e3(2) by (rule step_0_trans)
      then have "eng_local_id e3 = eng_local_id e" by (simp add: eng_step_def)
      with True ok b(1) e2(1,2) e3(1) out eng_step_mono [OF s3, of 1] assms(9,10) show ?thesis by (simp add: send_tail_def)
    next
      case bad: False
      note i2 = eng_stepD(1) [OF s2(1)]
      from failure_spec [OF eng_invD(4,5) [OF i2] assms(6) bad] obtain r3 at3 rm3 where
        f: "handle_send_fragments_failure (eng_ack_tracker e2) (eng_retry_manager e2) env r2 = Some (r3, at3, rm3)" "at_inv at3"
          "rm_inv rm3" "at_live at3 \<subseteq># at_live (eng_ack_tracker e2)" "rm_live rm3 \<subseteq># rm_live (eng_retry_manager e2)" "r3 \<noteq> OK"
          "if r2 = ERR_IO_PARTIAL then r3 = ERR_IO \<and> at3 = eng_ack_tracker e2 \<and> rm3 = eng_retry_manager e2
           else r3 = r2 \<and> (\<forall>M. at_live (eng_ack_tracker e2) = M + at_entry env \<and> fresh_in env M \<longrightarrow> at_live at3 = M) \<and>
             (\<forall>M. rm_live (eng_retry_manager e2) = M + rm_entry env \<and> fresh_in env M \<longrightarrow> rm_live rm3 = M)"
        by (elim returnsE, clarify) blast
      let ?e3 = "e2\<lparr> eng_ack_tracker := at3, eng_retry_manager := rm3 \<rparr>"
      have "at_live at3 \<subseteq># at_live (eng_ack_tracker e2) + at_entry env" "rm_live rm3 \<subseteq># rm_live (eng_retry_manager e2) + rm_entry env"
        using f(4,5) by (meson mset_subset_eq_add_left subset_mset.order_trans)+
      from step_book [OF bookI [OF i2 f(2,3) this]] have e3: "eng_step 0 e {#} ?e3" using e2' step_0_trans by blast
      from record_failure_spec [OF eng_stepD(1) [OF e3] f(6) ts] obtain e4 where
        e4: "DeliveryEngine_record_send_failure ?e3 env r3 = Some e4" "eng_step 1 ?e3 {#} e4" "eng_tables e4 = eng_tables ?e3"
        by (auto elim!: returnsE)
      have "send_outcome env r3 e (sent t) e4 (sent t2)" if "transport_logs T sent"
        "fresh_in env (at_live (eng_ack_tracker e))" "fresh_in env (rm_live (eng_retry_manager e))"
        using that e2(4) f(6,7) bad e4(3) tab
        by (auto simp: send_outcome_def wire_outcome_def eng_tables_def with_booking_def split: if_splits)
      with True bad b(1) e2(1,2) f(1) e4(1) eng_step_trans [OF e3 e4(2)] show ?thesis by (simp add: send_tail_def)
    qed
  qed
qed

lemma stamped_fields:
  assumes "stamped e now env env'" and "sendable cfg env" and "eng_local_id e \<noteq> 0"
  shows "env_wf env'" "envelope_valid env'" "unfragmented env'" "timestamp_us env' = now" "source_id env' = eng_local_id e"
    "message_id env' = eng_id_gen e" "envelope_needs_ack_response env' \<longrightarrow> destination_id env' \<noteq> 0"
    "reliability_class env' = RELIABLE_RETRY \<longrightarrow> expiry_time_us env' \<noteq> - 1"
  using assms
  by (auto simp: stamped_def sendable_def env_wf_def envelope_valid_def unfragmented_def envelope_needs_ack_response_def)

lemma send_spec:
  assumes "eng_inv e" and "now > 0" and "transport_ok T I" and "I t" and "sendable (eng_cfg e) env"
  shows "returns (DeliveryEngine_send T e t env now) (\<lambda>(r, env', e', t'). I t' \<and>
    (if time_goes_back e now then r = ERR_INVALID \<and> e' = e \<and> t' = t
     else eng_step 1 (e\<lparr> eng_last_now_us := now \<rparr>) {#} e' \<and> stamped e now env env' \<and>
       (transport_logs T sent \<and> (\<forall>x \<in># at_live (eng_ack_tracker e) + rm_live (eng_retry_manager e).
            env_key x \<noteq> (eng_local_id e, eng_id_gen e)) \<longrightarrow> send_outcome env' r e (sent t) e' (sent t'))))"
proof (cases "time_goes_back e now")
  case True
  with assms eng_invD(1) [OF assms(1)] show ?thesis by (simp add: DeliveryEngine_send_def)
next
  case False
  note gen = eng_invD(3) [OF assms(1)]
  obtain g where g: "MessageIdGen_next (eng_id_gen e) = Some (eng_id_gen e, g)" "g \<noteq> 0"
    using unat_next_id [OF gen] by (auto elim!: returnsE)
  define e1 where "e1 = e\<lparr> eng_last_now_us := now, eng_id_gen := g \<rparr>"
  define env1 where "env1 = env\<lparr> source_id := eng_local_id e, message_id := eng_id_gen e, timestamp_us := now \<rparr>"
  have i1: "eng_inv e1" using assms(1) g(2) by (simp add: e1_def eng_inv_def)
  let ?seq = "if envelope_is_data env1 \<and> sequence_num env1 = 0 \<and> cc_ordering (eng_cfg e1) = ORDERED
         then do { (seq, e) \<leftarrow> DeliveryEngine_next_seq_for e1 (destination_id env1); Some (env1\<lparr> sequence_num := seq \<rparr>, e) }
         else Some (env1, e1)"
  obtain q ss where sq: "?seq = Some (env1\<lparr> sequence_num := q \<rparr>, e1\<lparr> eng_seq_state := ss \<rparr>)" "length ss = 32"
  proof (cases "envelope_is_data env1 \<and> sequence_num env1 = 0 \<and> cc_ordering (eng_cfg e1) = ORDERED")
    case True
    then have "destination_id env1 \<noteq> 0" using assms(5) by (auto simp: sendable_def env1_def e1_def envelope_is_data_def)
    from next_seq_spec [OF i1 this] True that show ?thesis by (auto elim!: returnsE)
  next
    case False
    have "length (eng_seq_state e1) = 32" using i1 by (simp add: eng_inv_def)
    with False show ?thesis by (intro that [of "sequence_num env1" "eng_seq_state e1"]) auto
  qed
  let ?env = "env1\<lparr> sequence_num := q, fragment_index := 0, fragment_count := 1,
     total_payload_length := ucast (payload_length env1) \<rparr>"
  let ?e2 = "e1\<lparr> eng_seq_state := ss \<rparr>"
  have st: "stamped e now env ?env" by (auto simp: stamped_def env1_def)
  have i2: "eng_inv ?e2" using i1 sq(2) by (simp add: eng_inv_def)
  then have s2: "eng_step 0 (e\<lparr> eng_last_now_us := now \<rparr>) {#} ?e2"
    by (simp add: eng_step_def eng_stash_def eng_drops_def e1_def)
  have f2: "eng_local_id ?e2 = eng_local_id e" "eng_ack_tracker ?e2 = eng_ack_tracker e" "eng_retry_manager ?e2 = eng_retry_manager e"
    by (simp_all add: e1_def)
  note fld = stamped_fields [OF st assms(5) eng_invD(2) [OF assms(1)]]
  have "DeliveryEngine_send T e t env now = ?seq \<bind> (\<lambda>(env, e). send_tail T e t (env\<lparr> fragment_index := 0,
      fragment_count := 1, total_payload_length := ucast (payload_length env) \<rparr>) now)"
    using False g(1) assms(2) eng_invD(1) [OF assms(1)]
    by (simp add: DeliveryEngine_send_def send_tail_def e1_def env1_def Let_def)
  then have eq: "DeliveryEngine_send T e t env now = send_tail T ?e2 t ?env now"
    by (simp only: sq(1) bind.simps prod.case) simp
  have src: "source_id ?env = eng_local_id ?e2" "message_id ?env \<noteq> 0" using fld(5,6) f2(1) gen by simp_all
  have out: "send_outcome ?env r ?e2 a e' b = send_outcome ?env r e a e' b" for r a e' b
    by (simp add: send_outcome_def eng_tables_def f2)
  have fr: "(\<forall>x \<in># at_live (eng_ack_tracker e) + rm_live (eng_retry_manager e). env_key x \<noteq> (eng_local_id e, eng_id_gen e)) \<Longrightarrow>
      fresh_in ?env (at_live (eng_ack_tracker ?e2)) \<and> fresh_in ?env (rm_live (eng_retry_manager ?e2))"
    using fld(5,6) unfolding f2 by (auto simp: fresh_in_def env_key_def)
  from send_tail_spec [OF i2 assms(2-4) fld(1-4) src fld(7,8), of sent] show ?thesis
    unfolding eq
    by (rule returns_mono) (use False st out fr eng_step_trans [OF s2] in \<open>auto dest!: eng_step_trans [OF s2]\<close>)
qed

end
