(* ===== verification/DeliveryRun.thy ===== *)
theory DeliveryRun
  imports DeliverySend
begin

text \<open>
  Housekeeping, initialisation and runs of the delivery engine: every operation keeps the engine's
  invariant, so no sequence of calls trips an assertion, and over a whole run a reliable message is
  delivered at most once.
\<close>

section \<open>Runs\<close>

text \<open>The calls an application makes; \<open>Receive\<close> comes with the receive timeout.\<close>

datatype eng_op = Send envelope u64 | Receive u32 u64 | Pump u64 | Sweep u64 | Reset NodeId | Poll

fun eng_op_ok :: "channel_config \<Rightarrow> eng_op \<Rightarrow> bool" where
  "eng_op_ok cfg (Send env now_us) \<longleftrightarrow> sendable cfg env \<and> 0 < now_us"
| "eng_op_ok cfg (Receive ms now_us) \<longleftrightarrow> 0 < now_us"
| "eng_op_ok cfg (Pump now_us) \<longleftrightarrow> 0 < now_us"
| "eng_op_ok cfg (Sweep now_us) \<longleftrightarrow> 0 < now_us"
| "eng_op_ok cfg (Reset src) \<longleftrightarrow> src \<noteq> 0"
| "eng_op_ok cfg Poll \<longleftrightarrow> True"

text \<open>The event that an unsuccessful poll leaves in place.\<close>

definition event_none :: delivery_event where
  "event_none = \<lparr> ev_message_id = 0, ev_timestamp_us = 0, ev_node_id = 0, ev_kind = SEND_OK, ev_result = OK \<rparr>"

text \<open>One call; the first component lists the data message the application got, if any.\<close>

fun eng_exec :: "'t transport \<Rightarrow> eng_op \<Rightarrow> delivery_engine \<times> 't \<Rightarrow> (envelope list \<times> delivery_engine \<times> 't) option" where
  "eng_exec T (Send env now_us) (e, t) = do {
     (r, env', e, t) \<leftarrow> DeliveryEngine_send T e t env now_us; Some ([], e, t) }"
| "eng_exec T (Receive ms now_us) (e, t) = do {
     (r, env, e, t) \<leftarrow> DeliveryEngine_receive T e t envelope_init ms now_us;
     Some (if r = OK \<and> envelope_is_data env then [env] else [], e, t) }"
| "eng_exec T (Pump now_us) (e, t) = do {
     (n, e, t) \<leftarrow> DeliveryEngine_pump_retries T e t now_us; Some ([], e, t) }"
| "eng_exec T (Sweep now_us) (e, t) = do {
     (n, e) \<leftarrow> DeliveryEngine_sweep_ack_timeouts e now_us; Some ([], e, t) }"
| "eng_exec T (Reset src) (e, t) = do {
     e \<leftarrow> DeliveryEngine_reset_peer_ordering e src; Some ([], e, t) }"
| "eng_exec T Poll (e, t) = do {
     (r, ev, e) \<leftarrow> DeliveryEngine_poll_event e event_none; Some ([], e, t) }"

fun eng_run :: "'t transport \<Rightarrow> eng_op list \<Rightarrow> delivery_engine \<times> 't \<Rightarrow> (envelope list \<times> delivery_engine \<times> 't) option" where
  "eng_run T [] s = Some ([], s)"
| "eng_run T (op # ops) s = do {
     (ds, s) \<leftarrow> eng_exec T op s;
     (ds', s) \<leftarrow> eng_run T ops s;
     Some (ds @ ds', s)
   }"

text \<open>What the C++ constructors give: arrays of their declared lengths and an empty retry table.\<close>

definition eng_constructed :: "delivery_engine \<Rightarrow> bool" where
  "eng_constructed e \<longleftrightarrow> rm_count (eng_retry_manager e) \<le> 32 \<and> length (rx_slots (eng_reassembly e)) = 8 \<and>
     length (eng_ordering_freed_buf e) = 8"

text \<open>Every message of class \<open>RELIABLE_RETRY\<close> that was delivered or waits is known to the filter, and there is one of each.\<close>

definition once :: "envelope multiset \<Rightarrow> delivery_engine \<Rightarrow> bool" where
  "once D e \<longleftrightarrow> (let M = filter_mset (\<lambda>x. reliability_class x = RELIABLE_RETRY) (D + eng_stash e) in
     (\<forall>x \<in># M. env_key x \<in> df_keys (eng_dedup e)) \<and> (\<forall>k. size (filter_mset (\<lambda>x. env_key x = k) M) \<le> 1))"

text \<open>What a call leaves behind: the messages it delivered and those that still wait were waiting or are accepted now.\<close>

definition eng_post :: "delivery_engine \<Rightarrow> envelope list \<Rightarrow> delivery_engine \<Rightarrow> bool" where
  "eng_post e ds e' \<longleftrightarrow> eng_inv e' \<and> eng_drops e' \<le> eng_drops e + 9 \<and> eng_cfg e' = eng_cfg e \<and>
     eng_local_id e' = eng_local_id e \<and> list_all (deliverable (eng_local_id e)) ds \<and>
     (\<exists>A. accepted A (eng_dedup e) (eng_dedup e') \<and> mset ds + eng_stash e' \<subseteq># A + eng_stash e)"

text \<open>A transport with an inbox and an outbox, for examples.\<close>

definition queue_transport :: "(envelope list \<times> envelope list) transport" where
  "queue_transport = \<lparr> tr_register_local_id = (\<lambda>t n. Some (OK, t)), tr_pop_hello_peer = (\<lambda>t. Some (0, t)),
     tr_send_message = (\<lambda>(inbox, outbox) env. Some (OK, inbox, outbox @ [env])),
     tr_receive_message = (\<lambda>(inbox, outbox) env ms. case inbox of [] \<Rightarrow> Some (ERR_TIMEOUT, env, inbox, outbox)
       | x # xs \<Rightarrow> Some (OK, x, xs, outbox)),
     tr_get_transport_stats = (\<lambda>t st. Some st) \<rparr>"

definition queue_ok :: "envelope list \<times> envelope list \<Rightarrow> bool" where
  "queue_ok t \<longleftrightarrow> list_all (\<lambda>x. env_wf x \<and> envelope_valid x \<and> admissible x) (fst t)"

definition eng_blank :: delivery_engine where
  "eng_blank = \<lparr> eng_cfg = \<lparr> cc_channel_id = 0, cc_priority = 0, cc_reliability = BEST_EFFORT, cc_ordering = ORDERED,
       cc_max_queue_depth = 64, cc_send_timeout_ms = 1000, cc_recv_timeout_ms = 1000, cc_max_retries = 5,
       cc_retry_backoff_ms = 100, cc_impairment = impairment_config_default \<rparr>,
     eng_local_id = 0,
     eng_ack_tracker = \<lparr> at_slots = [], at_count = 0, at_stats = ack_tracker_stats_init, at_initialized = False, at_last_sweep_us = 0 \<rparr>,
     eng_retry_manager = \<lparr> rm_slots = [], rm_count = 0, rm_initialized = False, rm_last_collect_us = 0,
       rm_stats = retry_stats_init \<rparr>,
     eng_dedup = \<lparr> df_window = [], df_next = 0, df_count = 0 \<rparr>, eng_id_gen = 0, eng_initialized = False,
     eng_last_now_us = 0, eng_retry_buf = [], eng_timeout_buf = [], eng_stats = delivery_stats_init,
     eng_events = \<lparr> er_buf = [], er_head = 0, er_tail = 0, er_count = 0 \<rparr>,
     eng_reassembly = \<lparr> rx_slots = replicate 8 (sl_open envelope_init 0), rx_initialized = False \<rparr>,
     eng_ordering = ob_fresh, eng_seq_state = [], eng_frag_buf = [], eng_ordering_freed_buf = replicate 8 envelope_init,
     eng_held_pending = envelope_init, eng_held_pending_valid = False \<rparr>"

definition data_message :: "NodeId \<Rightarrow> NodeId \<Rightarrow> u64 \<Rightarrow> envelope" where
  "data_message src dst mid = envelope_init\<lparr> message_id := mid, source_id := src, destination_id := dst, message_type := DATA,
     reliability_class := RELIABLE_RETRY, fragment_count := 1, expiry_time_us := 1000000 \<rparr>"

section \<open>Housekeeping\<close>

lemma filled_nth:
  assumes "filled buf cap n xs" and "i < n"
  shows "i < length xs" "buf ! i = xs ! i"
proof -
  show "i < length xs" using assms by (auto simp: filled_def)
  have "take n buf = take n xs" using assms(1) unfolding filled_def by blast
  then show "buf ! i = xs ! i" using assms(2) by (metis nth_take)
qed

lemma advance_first_envs:
  "image_mset re_env (filter_mset re_active (mset (advance_first t n xs))) =
   image_mset re_env (filter_mset re_active (mset xs))"
  by (induction xs arbitrary: n) (auto simp: re_advance_def)

lemma reaped_envs:
  "image_mset re_env (filter_mset re_active (mset (map (re_reap t) xs))) \<subseteq>#
   image_mset re_env (filter_mset re_active (mset xs))"
  by (induction xs) (auto simp: re_reap_def intro: subset_mset.order_trans)

lemma collect_due_live:
  assumes "rm_inv rm" and "now \<noteq> 0" and "64 \<le> length buf"
  shows "returns (RetryManager_collect_due rm now buf 64) (\<lambda>(n, buf', rm'). rm_inv rm' \<and> rm_live rm' \<subseteq># rm_live rm \<and>
    n \<le> 64 \<and> 64 \<le> length buf' \<and> (\<forall>i < n. buf' ! i \<in># rm_live rm))"
proof -
  let ?t = "rm_collect_time rm now"
  have mem: "re_env x \<in># rm_live rm" if "x \<in> set (rm_due ?t rm)" for x
  proof -
    from that have "re_active x" "x \<in> set (map (re_reap ?t) (rm_slots rm))" by (simp_all add: rm_due_def rm_reaped_def re_due_def)
    then have "re_env x \<in># image_mset re_env (filter_mset re_active (mset (map (re_reap ?t) (rm_slots rm))))" by auto
    then show ?thesis using mset_subset_eqD [OF reaped_envs] unfolding rm_live_def by blast
  qed
  have nth: "buf' ! i \<in># rm_live rm" if "filled buf' 64 n (map re_env (rm_due ?t rm))" "i < n" for buf' n i
  proof -
    have "i < length (rm_due ?t rm)" "buf' ! i = re_env (rm_due ?t rm ! i)" using filled_nth [OF that] by simp_all
    with mem show ?thesis by simp
  qed
  have sub: "rm_live rm' \<subseteq># rm_live rm" if "rm_slots rm' = advance_first ?t 64 (rm_reaped ?t rm)" for rm'
    using reaped_envs [of ?t "rm_slots rm"] that by (simp add: rm_live_def advance_first_envs rm_reaped_def)
  show ?thesis
    by (rule returns_mono [OF collect_due_spec [OF assms(1,2) order_refl assms(3)]])
      (use nth sub in \<open>auto simp: filled_def\<close>)
qed

lemma retransmit_spec:
  assumes "eng_inv e" and "now > 0" and "transport_ok T I" and "I t" and "env_wf env" and "envelope_valid env"
  shows "returns (do { (send_res, e, t) \<leftarrow> DeliveryEngine_send_fragments T e t env now;
      if send_res \<noteq> OK then Some (e, t)
      else do { e \<leftarrow> DeliveryEngine_emit_event e RETRY_FIRED (message_id (f e)) (destination_id (f e)) now OK; Some (e, t) } })
    (\<lambda>(e', t'). I t' \<and> eng_step 0 e {#} e' \<and> eng_retry_buf e' = eng_retry_buf e)"
proof -
  from send_fragments_spec [OF assms, of "\<lambda>_. []"] obtain r e1 t1 where
    e1: "DeliveryEngine_send_fragments T e t env now = Some (r, e1, t1)" "I t1" "eng_only_frags e e1"
    by (auto elim!: returnsE)
  note s1 = only_frags_step(1) [OF e1(3) assms(1)]
  have b1: "eng_retry_buf e1 = eng_retry_buf e" using e1(3) by (auto simp: eng_only_frags_def)
  have "eng_step 0 e {#} e2 \<and> eng_retry_buf e2 = eng_retry_buf e" if o: "eng_only_events e1 e2" for e2
    using step_0_trans [OF s1 only_events_step [OF o eng_stepD(1) [OF s1]]] o b1 by (auto simp: eng_only_events_def)
  then have "returns (DeliveryEngine_emit_event e1 RETRY_FIRED m n now OK)
      (\<lambda>e2. eng_step 0 e {#} e2 \<and> eng_retry_buf e2 = eng_retry_buf e)" for m n
    using emit_event_spec [OF eng_invD(1,7) [OF eng_stepD(1) [OF s1]] assms(2)] by (rule returns_mono [rotated])
  with e1(1,2) s1 b1 show ?thesis by auto
qed

lemma pump_spec:
  assumes "eng_inv e" and "now > 0" and "transport_ok T I" and "I t"
  shows "returns (DeliveryEngine_pump_retries T e t now) (\<lambda>(n, e', t'). I t' \<and>
    (if time_goes_back e now then n = 0 \<and> e' = e \<and> t' = t else eng_step 0 (e\<lparr> eng_last_now_us := now \<rparr>) {#} e'))"
proof (cases "time_goes_back e now")
  case True
  with assms eng_invD(1) [OF assms(1)] show ?thesis by (simp add: DeliveryEngine_pump_retries_def)
next
  case False
  let ?e = "e\<lparr> eng_last_now_us := now \<rparr>"
  have now: "now \<noteq> 0" and len: "64 \<le> length (eng_retry_buf e)" using assms(1,2) by (simp_all add: eng_inv_def)
  from collect_due_live [OF eng_invD(5) [OF assms(1)] now len] obtain n buf rm where
    c: "RetryManager_collect_due (eng_retry_manager e) now (eng_retry_buf e) 64 = Some (n, buf, rm)" "rm_inv rm"
      "rm_live rm \<subseteq># rm_live (eng_retry_manager e)" "n \<le> 64" "64 \<le> length buf"
      "\<forall>i < n. buf ! i \<in># rm_live (eng_retry_manager e)" by (auto elim!: returnsE)
  let ?e1 = "?e\<lparr> eng_retry_manager := rm, eng_retry_buf := buf \<rparr>"
  have "eng_inv ?e1" using assms(1) c(2,3,5) by (auto simp: eng_inv_def dest: mset_subset_eqD)
  then have s1: "eng_step 0 ?e {#} ?e1" by (simp add: eng_step_def eng_stash_def eng_drops_def)
  have ok: "env_wf (buf ! i) \<and> envelope_valid (buf ! i)" if "i < n" for i
    using c(6) that assms(1) by (simp add: eng_inv_def)
  let ?b = "\<lambda>i (e, t). do {
           (send_res, e, t) \<leftarrow> DeliveryEngine_send_fragments T e t (eng_retry_buf e ! i) now;
           if send_res \<noteq> OK then Some (e, t)
           else do { e \<leftarrow> DeliveryEngine_emit_event e RETRY_FIRED (message_id (eng_retry_buf e ! i))
                    (destination_id (eng_retry_buf e ! i)) now OK; Some (e, t) } }"
  let ?P = "\<lambda>(e', t'). I t' \<and> eng_step 0 ?e {#} e' \<and> eng_retry_buf e' = buf"
  have "returns (for_each ?b [0..<n] (?e1, t)) ?P"
  proof (rule for_each_inv)
    show "?P (?e1, t)" using s1 assms(4) by simp
    fix i s assume i: "i \<in> set [0..<n]" and "?P s"
    then obtain e2 t2 where s: "s = (e2, t2)" "I t2" "eng_step 0 ?e {#} e2" "eng_retry_buf e2 = buf" by (cases s) auto
    from i ok have f: "env_wf (buf ! i)" "envelope_valid (buf ! i)" by simp_all
    from retransmit_spec [OF eng_stepD(1) [OF s(3)] assms(2,3) s(2) f, of "\<lambda>e. eng_retry_buf e ! i"] show "returns (?b i s) ?P"
      unfolding s(1) using s(4) step_0_trans [OF s(3)] by (auto elim!: returns_mono)
  qed
  with False c(1,4) assms(2) eng_invD(1) [OF assms(1)] show ?thesis
    by (auto simp: DeliveryEngine_pump_retries_def elim!: returns_mono)
qed

lemma swept_envs: "image_mset ae_env (filter_mset ae_pending (mset (map (at_sweep_slot t) xs))) \<subseteq>#
    image_mset ae_env (filter_mset ae_pending (mset xs))"
  by (induction xs) (auto simp: at_sweep_slot_def intro: subset_mset.order_trans)

lemma sweep_live:
  assumes "at_inv ak" and "now \<noteq> 0" and "32 \<le> length buf"
  shows "returns (AckTracker_sweep_expired ak now buf 32) (\<lambda>(n, buf', at'). at_inv at' \<and> at_live at' \<subseteq># at_live ak \<and>
    n \<le> 32 \<and> 32 \<le> length buf')"
  by (rule returns_mono [OF sweep_spec [OF assms]])
    (use swept_envs in \<open>auto simp: filled_def at_live_def at_pending_def\<close>)

lemma reassembly_sweeps:
  assumes "rx_inv rx" and "rx_headers P rx" and "now \<noteq> 0"
  shows "returns (do { rx \<leftarrow> ReassemblyBuffer_sweep_expired rx now; ReassemblyBuffer_sweep_stale rx now th })
    (\<lambda>(n, rx'). rx_inv rx' \<and> rx_headers P rx')"
proof -
  from sweep_expired_inv [OF assms(1,3)] obtain rx1 where
    r1: "ReassemblyBuffer_sweep_expired rx now = Some rx1" "rx_inv rx1" by (auto elim!: returnsE)
  from sweep_stale_inv [OF r1(2), of now th] obtain n rx2 where
    r2: "ReassemblyBuffer_sweep_stale rx1 now th = Some (n, rx2)" "rx_inv rx2" by (auto elim!: returnsE)
  from sweeps_headers(2) [OF sweeps_headers(1) [OF assms(2) r1(1)] r2(1)] r1(1) r2 show ?thesis by simp
qed

lemma sweep_timeouts_spec:
  assumes "eng_inv e" and "now > 0"
  shows "returns (DeliveryEngine_sweep_ack_timeouts e now) (\<lambda>(n, e').
    if time_goes_back e now then n = 0 \<and> e' = e else eng_step 8 (e\<lparr> eng_last_now_us := now \<rparr>) {#} e')"
proof (cases "time_goes_back e now")
  case True
  with assms eng_invD(1) [OF assms(1)] show ?thesis by (simp add: DeliveryEngine_sweep_ack_timeouts_def)
next
  case False
  let ?e = "e\<lparr> eng_last_now_us := now \<rparr>" and ?th = "(ucast (cc_recv_timeout_ms (eng_cfg e)) :: u64) * 1000"
  have now: "now \<noteq> 0" using assms(2) by simp
  from reassembly_sweeps [OF eng_invD(8,10) [OF assms(1)] now, of ?th] obtain rx0 n rx where
    rx: "ReassemblyBuffer_sweep_expired (eng_reassembly e) now = Some rx0"
      "ReassemblyBuffer_sweep_stale rx0 now ?th = Some (n, rx)" "rx_inv rx" "rx_headers admissible rx"
    by (auto elim!: returnsE simp: bind_eq_Some_conv)
  let ?e1 = "?e\<lparr> eng_reassembly := rx \<rparr>"
  have "eng_inv ?e1" using assms(1) rx(3,4) by (simp add: eng_inv_def)
  then have s1: "eng_step 0 ?e {#} ?e1" by (simp add: eng_step_def eng_stash_def eng_drops_def)
  from sweep_holds_account_spec [OF eng_stepD(1) [OF s1] assms(2)] obtain e2 where
    e2: "sweep_holds_and_account ?e1 now = Some e2" "eng_step 8 ?e1 {#} e2" by (auto elim!: returnsE)
  have s2: "eng_step 8 ?e {#} e2" using eng_step_trans [OF s1 e2(2)] by simp
  have "32 \<le> length (eng_timeout_buf e2)" using eng_stepD(1) [OF s2] by (simp add: eng_inv_def)
  from sweep_live [OF eng_invD(4) [OF eng_stepD(1) [OF s2]] now this] obtain m buf ak where
    ak: "AckTracker_sweep_expired (eng_ack_tracker e2) now (eng_timeout_buf e2) 32 = Some (m, buf, ak)" "at_inv ak"
      "at_live ak \<subseteq># at_live (eng_ack_tracker e2)" "m \<le> 32" "32 \<le> length buf" by (auto elim!: returnsE)
  let ?e3 = "e2\<lparr> eng_ack_tracker := ak, eng_timeout_buf := buf \<rparr>"
  have i3: "eng_inv ?e3" using eng_stepD(1) [OF s2] ak(2,3,5) by (auto simp: eng_inv_def dest: mset_subset_eqD)
  then have "eng_step 0 e2 {#} ?e3" by (simp add: eng_step_def eng_stash_def eng_drops_def)
  then have s3: "eng_step 8 ?e {#} ?e3" by (rule step_0_trans [OF s2])
  have "returns (for_each (\<lambda>i e. DeliveryEngine_emit_event e ACK_TIMEOUT (message_id (eng_timeout_buf e ! i))
      (destination_id (eng_timeout_buf e ! i)) now ERR_TIMEOUT) [0..<m] ?e3) (eng_only_events ?e3)"
    using eng_invD(1,7) [OF i3] assms(2) by (rule emit_events_spec)
  then have "returns (for_each (\<lambda>i e. DeliveryEngine_emit_event e ACK_TIMEOUT (message_id (eng_timeout_buf e ! i))
      (destination_id (eng_timeout_buf e ! i)) now ERR_TIMEOUT) [0..<m] ?e3) (eng_step 8 ?e {#})"
    using step_0_trans [OF s3 only_events_step [OF _ i3]] by (rule returns_mono)
  with False rx(1,2) e2(1) ak(1,4) assms(2) eng_invD(1) [OF assms(1)] show ?thesis
    by (simp add: DeliveryEngine_sweep_ack_timeouts_def)
qed

section \<open>Initialisation\<close>

lemma id_seed_nonzero: "n \<noteq> 0 \<Longrightarrow> (if s = 0 then (ucast (n :: NodeId) :: u64) OR 1 else s) \<noteq> 0"
proof -
  have "bit ((ucast n :: u64) OR 1) 0" by (simp add: bit_simps)
  then show ?thesis by (auto simp del: bit_0)
qed

lemma init_spec:
  assumes "eng_constructed e" and "n \<noteq> 0" and "cc_retry_backoff_ms cfg \<le> 60000" and "transport_ok T I" and "I t"
  shows "returns (DeliveryEngine_init T e t cfg n True entropy) (\<lambda>(e', t'). I t' \<and> eng_inv e' \<and> eng_drops e' = 0 \<and>
    eng_cfg e' = cfg \<and> eng_local_id e' = n \<and> eng_stash e' = {#} \<and> df_keys (eng_dedup e') = {} \<and> df_count (eng_dedup e') = 0 \<and>
    eng_tables e' = ({#}, {#}) \<and> eng_last_now_us e' = 0)"
proof -
  note c = assms(1) [unfolded eng_constructed_def]
  obtain ak where ak: "AckTracker_init (eng_ack_tracker e) = Some ak" "at_inv ak" "at_live ak = {#}"
    using AckTracker_init_spec by (auto elim!: returnsE simp: at_live_def)
  obtain rm where rm: "RetryManager_init (eng_retry_manager e) = Some rm" "rm_inv rm" "rm_live rm = {#}"
    using RetryManager_init_spec c by (auto elim!: returnsE)
  obtain df where df: "DuplicateFilter_init (eng_dedup e) = Some df" "df_inv df" "df_keys df = {}" "df_count df = 0"
    using init_inv [of "eng_dedup e"] by (auto elim!: returnsE simp: df_keys_def DuplicateFilter_init_def)
  obtain er where er: "DeliveryEventRing_init (eng_events e) = Some er" "er_inv er"
    using DeliveryEventRing_init_spec by (auto elim!: returnsE)
  obtain rx where rx: "ReassemblyBuffer_init (eng_reassembly e) = Some rx" "rx_inv rx" "rx_headers admissible rx"
    using ReassemblyBuffer_init_spec [of "eng_reassembly e" 0 0] c
    by (auto elim!: returnsE simp: ReassemblyBuffer_init_def rx_headers_def sl_init_def list_all_iff)
  obtain ob where ob: "OrderingBuffer_init (eng_ordering e) n = Some ob" "ob_inv ob" "ob_held ob = {#}"
    using OrderingBuffer_init_spec by blast
  obtain r t' where t': "tr_register_local_id T t n = Some (r, t')" "I t'"
    using transport_okD(1) [OF assms(4,5,2)] by (auto elim!: returnsE)
  define s where "s = (let x = entropy XOR push_bit 32 (ucast n :: u64) in if x = 0 then (ucast n :: u64) OR 1 else x)"
  have s: "s \<noteq> 0" unfolding s_def Let_def by (rule id_seed_nonzero [OF assms(2)])
  have "MessageIdGen_init s = Some s" using s by (simp add: MessageIdGen_init_def)
  moreover have "eng_inv e' \<and> eng_drops e' = 0 \<and> eng_cfg e' = cfg \<and> eng_local_id e' = n \<and> eng_stash e' = {#} \<and>
      df_keys (eng_dedup e') = {} \<and> df_count (eng_dedup e') = 0 \<and> eng_tables e' = ({#}, {#}) \<and> eng_last_now_us e' = 0"
    if "e' = e\<lparr> eng_cfg := cfg, eng_local_id := n, eng_ack_tracker := ak, eng_retry_manager := rm, eng_dedup := df, eng_id_gen := s,
       eng_retry_buf := replicate 64 envelope_init, eng_timeout_buf := replicate 32 envelope_init,
       eng_stats := delivery_stats_init, eng_events := er, eng_reassembly := rx, eng_ordering := ob,
       eng_seq_state := replicate 32 \<lparr> ss_dst = 0, ss_next_seq = 1, ss_active = False \<rparr>,
       eng_frag_buf := replicate 4 envelope_init,
       eng_held_pending := envelope_init, eng_held_pending_valid := False,
       eng_last_now_us := 0, eng_initialized := True \<rparr>" for e'
    unfolding that using ak rm df er rx ob s assms(2,3) c
    by (simp add: eng_inv_def eng_drops_def eng_stash_def eng_tables_def delivery_stats_init_def)
  ultimately show ?thesis
    using ak(1) rm(1) df(1) er(1) rx(1) ob(1) t' assms(2) s
    by (simp add: DeliveryEngine_init_def s_def Let_def)
qed

section \<open>Every call keeps the invariant\<close>

lemma last_now_simps [simp]:
  "eng_inv (e\<lparr> eng_last_now_us := now \<rparr>) = eng_inv e" "eng_drops (e\<lparr> eng_last_now_us := now \<rparr>) = eng_drops e"
  "eng_stash (e\<lparr> eng_last_now_us := now \<rparr>) = eng_stash e"
  by (simp_all add: eng_inv_def eng_drops_def eng_stash_def)

lemma post_refl: "eng_inv e \<Longrightarrow> eng_post e [] e"
  by (auto simp: eng_post_def accepted_def intro!: exI [of _ "{#}"])

lemma step_post: "eng_step k e {#} e' \<Longrightarrow> k \<le> 9 \<Longrightarrow> eng_post e [] e'"
  by (auto simp: eng_post_def eng_step_def accepted_def intro!: exI [of _ "{#}"])

lemma step_post_timed: "eng_step k (e\<lparr> eng_last_now_us := now \<rparr>) {#} e' \<Longrightarrow> k \<le> 9 \<Longrightarrow> eng_post e [] e'"
  using step_post [of k "e\<lparr> eng_last_now_us := now \<rparr>" e'] by (simp add: eng_post_def)

lemma received_post:
  assumes "eng_received 9 now (e\<lparr> eng_last_now_us := now \<rparr>) (r, env, e')"
  shows "eng_post e (if r = OK \<and> envelope_is_data env then [env] else []) e'"
proof -
  from assms obtain A where A: "accepted A (eng_dedup e) (eng_dedup e')"
      "eng_flow 9 (e\<lparr> eng_last_now_us := now \<rparr>) A (delivered r env) e'"
    by (auto simp: eng_received_def)
  have "mset (if r = OK \<and> envelope_is_data env then [env] else []) = delivered r env" by (simp add: delivered_def)
  with A assms show ?thesis
    unfolding eng_post_def by (auto simp: eng_flow_def eng_received_def deliverable_def intro!: exI [of _ A])
qed

lemma poll_spec:
  assumes "eng_inv e"
  shows "returns (DeliveryEngine_poll_event e d) (\<lambda>(r, ev, e'). eng_post e [] e')"
proof -
  note er = eng_invD(7) [OF assms]
  from evr.pop_returns [OF er, of d] obtain r ev er' where
    p: "DeliveryEventRing_pop (eng_events e) d = Some (r, ev, er')" "er_inv er'" by (auto elim!: returnsE)
  have "length (er_contents (eng_events e)) \<le> 64" using er by (simp add: er_inv_def)
  moreover have "eng_inv (e\<lparr> eng_events := er' \<rparr>)" using assms p(2) by (simp add: eng_inv_def)
  then have "eng_step 0 e {#} (e\<lparr> eng_events := er' \<rparr>)" by (simp add: eng_step_def eng_stash_def eng_drops_def)
  ultimately show ?thesis
    using p(1) DeliveryEventRing_size_spec [OF er] eng_invD(1) [OF assms]
    by (auto simp: DeliveryEngine_poll_event_def intro: step_post)
qed

lemma exec_spec:
  assumes "eng_inv e" and "transport_ok T I" and "I t" and "eng_op_ok (eng_cfg e) op" and "eng_drops e + 1 < 2 ^ 32"
  shows "returns (eng_exec T op (e, t)) (\<lambda>(ds, e', t'). I t' \<and> eng_post e ds e')"
proof -
  have timed: "eng_step (Suc 0) (e\<lparr> eng_last_now_us := now \<rparr>) {#} e' \<Longrightarrow> eng_post e [] e'"
      "eng_step 0 (e\<lparr> eng_last_now_us := now \<rparr>) {#} e' \<Longrightarrow> eng_post e [] e'"
      "eng_step 8 (e\<lparr> eng_last_now_us := now \<rparr>) {#} e' \<Longrightarrow> eng_post e [] e'" for now e'
    by (auto elim: step_post_timed)
  show ?thesis
  proof (cases op)
    case (Send env now)
    with assms(4) have ok: "sendable (eng_cfg e) env" "now > 0" by simp_all
    from send_spec [OF assms(1) ok(2) assms(2,3) ok(1), of "\<lambda>_. []"] Send post_refl [OF assms(1)] show ?thesis
      by (auto elim!: returns_mono dest: timed split: if_splits)
  next
    case (Receive ms now)
    with assms(4) have "now > 0" by simp
    from receive_spec [OF assms(1) this assms(2,3,5), of envelope_init ms] Receive post_refl [OF assms(1)] show ?thesis
      by (auto elim!: returns_mono dest!: received_post split: if_splits)
  next
    case (Pump now)
    with assms(4) have "now > 0" by simp
    from pump_spec [OF assms(1) this assms(2,3)] Pump post_refl [OF assms(1)] show ?thesis
      by (auto elim!: returns_mono dest: timed split: if_splits)
  next
    case (Sweep now)
    with assms(4) have "now > 0" by simp
    from sweep_timeouts_spec [OF assms(1) this] Sweep assms(3) post_refl [OF assms(1)] show ?thesis
      by (auto elim!: returns_mono dest: timed split: if_splits)
  next
    case (Reset src)
    with assms(4) have "src \<noteq> 0" by simp
    from reset_peer_ordering_spec [OF assms(1) this] Reset assms(3) show ?thesis
      by (auto elim!: returns_mono intro: step_post)
  next
    case Poll
    with poll_spec [OF assms(1), of event_none] assms(3) show ?thesis by (auto elim!: returns_mono)
  qed
qed

lemma unique_mono: "M' \<subseteq># M \<Longrightarrow> \<forall>k. size (filter_mset (\<lambda>x. env_key x = k) M) \<le> 1 \<Longrightarrow>
    \<forall>k. size (filter_mset (\<lambda>x. env_key x = k) M') \<le> 1"
  by (meson multiset_filter_mono order_trans size_mset_mono)

lemma once_post:
  assumes "once D e" and "eng_post e ds e'" and "df_count (eng_dedup e) < 128"
  shows "once (D + mset ds) e'"
proof -
  let ?R = "filter_mset (\<lambda>x. reliability_class x = RELIABLE_RETRY)"
  from assms(2) obtain A where A: "accepted A (eng_dedup e) (eng_dedup e')" "mset ds + eng_stash e' \<subseteq># A + eng_stash e"
    by (auto simp: eng_post_def)
  let ?M' = "?R (D + mset ds + eng_stash e')"
  define M where "M = ?R (D + eng_stash e)"
  have "D + (mset ds + eng_stash e') \<subseteq># D + (A + eng_stash e)" using A(2) by simp
  then have sub: "?M' \<subseteq># ?R A + M" using multiset_filter_mono [of _ _ "\<lambda>x. reliability_class x = RELIABLE_RETRY"]
    by (fastforce simp: ac_simps M_def)
  have M: "\<forall>x \<in># M. env_key x \<in> df_keys (eng_dedup e)" "\<forall>k. size (filter_mset (\<lambda>x. env_key x = k) M) \<le> 1"
    using assms(1) unfolding once_def Let_def M_def by blast+
  have grow: "df_keys (eng_dedup e) \<subseteq> df_keys (eng_dedup e')"
    using A(1) assms(3) by (auto simp: accepted_def dedup_grows_def split: if_splits)
  have new: "\<forall>x \<in># ?R A. env_key x \<in> df_keys (eng_dedup e')"
    using A(1) by (auto simp: accepted_def dedup_grows_def)
  have "\<forall>k. size (filter_mset (\<lambda>x. env_key x = k) (?R A + M)) \<le> 1"
  proof
    fix k
    let ?K = "filter_mset (\<lambda>x. env_key x = k)"
    have "size (?R A) \<le> 1" using A(1) by (auto simp: accepted_def)
    then have one: "size (?K (?R A)) \<le> 1" using size_filter_mset_lesseq order_trans by blast
    show "size (?K (?R A + M)) \<le> 1"
    proof (cases "?K (?R A) = {#}")
      case True
      then have "?K (?R A + M) = ?K M" by (simp only: filter_union_mset add_0)
      with spec [OF M(2), of k] show ?thesis by (simp only:)
    next
      case False
      then obtain x where "x \<in># ?R A" "env_key x = k" unfolding filter_mset_eq_mempty_iff by blast
      then have "k \<notin> df_keys (eng_dedup e)" using A(1) by (auto simp: accepted_def dedup_grows_def)
      then have "?K M = {#}" using M(1) by auto
      then have "?K (?R A + M) = ?K (?R A)" by (simp only: filter_union_mset add_0_right)
      with one show ?thesis by (simp only:)
    qed
  qed
  with unique_mono [OF sub] sub M(1) grow new show ?thesis
    unfolding once_def Let_def by (meson in_mono mset_subset_eqD union_iff)
qed

lemma post_trans_basic:
  assumes "eng_post e ds e'" shows "eng_inv e'" "eng_drops e' \<le> eng_drops e + 9" "eng_cfg e' = eng_cfg e"
    "eng_local_id e' = eng_local_id e" "list_all (deliverable (eng_local_id e)) ds" "df_count (eng_dedup e) \<le> df_count (eng_dedup e')"
  using assms by (auto simp: eng_post_def accepted_def dedup_grows_def)

lemma run_spec:
  assumes "eng_inv e" and "transport_ok T I" and "I t" and "list_all (eng_op_ok (eng_cfg e)) ops"
    and "eng_drops e + 9 * length ops < 2 ^ 32" and "df_count (eng_dedup e) < 128 \<longrightarrow> once D e"
  shows "returns (eng_run T ops (e, t)) (\<lambda>(ds, e', t'). I t' \<and> eng_inv e' \<and> eng_local_id e' = eng_local_id e \<and>
    list_all (deliverable (eng_local_id e)) ds \<and> (df_count (eng_dedup e') < 128 \<longrightarrow> once (D + mset ds) e'))"
  using assms(1,3-)
proof (induction ops arbitrary: e t D)
  case Nil
  then show ?case by simp
next
  case (Cons op ops)
  from Cons.prems(3,4) have op: "eng_op_ok (eng_cfg e) op" "eng_drops e + 1 < 2 ^ 32" by simp_all
  from exec_spec [OF Cons.prems(1) assms(2) Cons.prems(2) op] obtain ds1 e1 t1 where
    e1: "eng_exec T op (e, t) = Some (ds1, e1, t1)" "I t1" "eng_post e ds1 e1" by (auto elim!: returnsE)
  note p = post_trans_basic [OF e1(3)]
  have on: "df_count (eng_dedup e1) < 128 \<longrightarrow> once (D + mset ds1) e1"
    using once_post [OF _ e1(3)] Cons.prems(5) p(6) by auto
  have dr: "eng_drops e1 + 9 * length ops < 2 ^ 32" and ok: "list_all (eng_op_ok (eng_cfg e1)) ops"
    using p(2,3) Cons.prems(3,4) by simp_all
  from Cons.IH [OF p(1) e1(2) ok dr on] e1(1) p(4,5) show ?case by (auto elim!: returns_mono simp: ac_simps)
qed

lemma distinct_keysI:
  "\<forall>k. size (filter_mset (\<lambda>x. env_key x = k) (mset xs)) \<le> 1 \<Longrightarrow> distinct (map env_key xs)"
proof (induction xs)
  case (Cons x xs)
  have "size (filter_mset (\<lambda>y. env_key y = env_key x) (mset xs)) = 0" using spec [OF Cons.prems, of "env_key x"] by simp
  then have "env_key x \<notin> env_key ` set xs" by auto
  moreover have "\<forall>k. size (filter_mset (\<lambda>x. env_key x = k) (mset xs)) \<le> 1" by (rule unique_mono [OF _ Cons.prems]) simp
  ultimately show ?case using Cons.IH by simp
qed simp

lemma queue_transport_ok: "transport_ok queue_transport queue_ok"
  by (auto simp: transport_ok_def queue_transport_def queue_ok_def split: list.split)

lemma eng_blank_constructed: "eng_constructed eng_blank"
  by (simp add: eng_constructed_def eng_blank_def)

lemma data_message_simps [simp]:
  "env_wf (data_message src dst mid)" "source_id (data_message src dst mid) = src"
  "destination_id (data_message src dst mid) = dst" "message_type (data_message src dst mid) = DATA"
  "message_id (data_message src dst mid) = mid" "reliability_class (data_message src dst mid) = RELIABLE_RETRY"
  "payload_length (data_message src dst mid) = 0" "sequence_num (data_message src dst mid) = 0"
  "expiry_time_us (data_message src dst mid) = 1000000"
  by (simp_all add: data_message_def env_wf_def envelope_init_def)

lemma init_run_spec:
  assumes "transport_ok T I" and "I t" and "eng_constructed e" and "n \<noteq> 0" and "cc_retry_backoff_ms cfg \<le> 60000"
    and "list_all (eng_op_ok cfg) ops" and "9 * length ops < 2 ^ 32"
  shows "returns (do { s \<leftarrow> DeliveryEngine_init T e t cfg n True entropy; eng_run T ops s }) (\<lambda>(ds, e', t'). I t' \<and> eng_inv e' \<and>
    list_all (deliverable n) ds \<and> (df_count (eng_dedup e') < 128 \<longrightarrow> once (mset ds) e'))"
proof -
  from init_spec [OF assms(3-5,1,2), where entropy = entropy] obtain e1 t1 where
    e1: "DeliveryEngine_init T e t cfg n True entropy = Some (e1, t1)" "I t1" "eng_inv e1" "eng_drops e1 = 0"
      "eng_cfg e1 = cfg" "eng_local_id e1 = n" "eng_stash e1 = {#}" by (auto elim!: returnsE)
  have "once {#} e1" using e1(7) by (simp add: once_def)
  with run_spec [OF e1(3) assms(1) e1(2), of ops "{#}"] e1 assms(6,7) show ?thesis by (auto elim!: returns_mono)
qed

section \<open>Properties of whole runs\<close>

text \<open>Claim C1. Starting from \<open>init\<close>, no sequence of calls with well-formed arguments trips an assertion: over any
  transport that keeps its contract the engine returns from every call, keeps its invariant, and every data message it
  hands to the application is valid and addressed to this node. The bound on the length keeps the 32-bit counter of
  expired messages from wrapping, which an assertion in \<open>deliver_held_pending\<close> does not survive.\<close>

theorem engine_never_aborts:
  assumes "transport_ok T I" and "I t" and "eng_constructed e" and "n \<noteq> 0" and "cc_retry_backoff_ms cfg \<le> 60000"
    and "list_all (eng_op_ok cfg) ops" and "9 * length ops < 2 ^ 32"
  shows "returns (do { s \<leftarrow> DeliveryEngine_init T e t cfg n True entropy; eng_run T ops s }) (\<lambda>(ds, e', t').
    I t' \<and> eng_inv e' \<and> list_all (deliverable n) ds)"
  using init_run_spec [OF assms] by (rule returns_mono) auto

theorem engine_never_aborts_witness:
  "returns (do { s \<leftarrow> DeliveryEngine_init queue_transport eng_blank ([data_message 7 9 5, data_message 7 9 5], []) (eng_cfg eng_blank) 9 True 12345;
                 eng_run queue_transport [Send (data_message 0 7 0) 1, Receive 0 2, Receive 0 3, Pump 4, Sweep 5, Reset 7, Poll] s })
    (\<lambda>(ds, e', t'). queue_ok t' \<and> eng_inv e' \<and> list_all (deliverable 9) ds)"
  by (rule engine_never_aborts [OF queue_transport_ok _ eng_blank_constructed])
    (simp_all add: queue_ok_def envelope_valid_def admissible_def eng_blank_def sendable_def)

text \<open>Claim C2. At most once: in every run from \<open>init\<close>, as long as the duplicate filter has not overflowed, no message of
  class \<open>RELIABLE_RETRY\<close> is delivered twice, however often and in whatever order the network repeats it, and whether it
  was delivered at once or held by the ordering gate.\<close>

theorem reliable_delivered_once:
  assumes "transport_ok T I" and "I t" and "eng_constructed e" and "n \<noteq> 0" and "cc_retry_backoff_ms cfg \<le> 60000"
    and "list_all (eng_op_ok cfg) ops" and "9 * length ops < 2 ^ 32"
  shows "returns (do { s \<leftarrow> DeliveryEngine_init T e t cfg n True entropy; eng_run T ops s }) (\<lambda>(ds, e', t').
    df_count (eng_dedup e') < DEDUP_WINDOW_SIZE \<longrightarrow>
      distinct (map env_key (filter (\<lambda>x. reliability_class x = RELIABLE_RETRY) ds)))"
proof (rule returns_mono [OF init_run_spec [OF assms]], clarsimp)
  fix ds e' assume "once (mset ds) e'"
  then have "\<forall>k. size (filter_mset (\<lambda>x. env_key x = k)
      (filter_mset (\<lambda>x. reliability_class x = RELIABLE_RETRY) (mset ds + eng_stash e'))) \<le> 1" unfolding once_def Let_def by blast
  then have "\<forall>k. size (filter_mset (\<lambda>x. env_key x = k) (filter_mset (\<lambda>x. reliability_class x = RELIABLE_RETRY) (mset ds))) \<le> 1"
    by (rule unique_mono [rotated]) (simp add: filter_union_mset)
  then show "distinct (map env_key (filter (\<lambda>x. reliability_class x = RELIABLE_RETRY) ds))"
    by (intro distinct_keysI) simp
qed

theorem reliable_delivered_once_witness:
  "returns (do { s \<leftarrow> DeliveryEngine_init queue_transport eng_blank ([data_message 7 9 5, data_message 7 9 5], []) (eng_cfg eng_blank) 9 True 12345;
                 eng_run queue_transport [Receive 0 2, Receive 0 3] s })
    (\<lambda>(ds, e', t'). df_count (eng_dedup e') < DEDUP_WINDOW_SIZE \<longrightarrow>
      distinct (map env_key (filter (\<lambda>x. reliability_class x = RELIABLE_RETRY) ds)))"
  by (rule reliable_delivered_once [OF queue_transport_ok _ eng_blank_constructed])
    (simp_all add: queue_ok_def envelope_valid_def admissible_def eng_blank_def sendable_def)

end
