(* ===== verification/DeliveryProperties.thy ===== *)
theory DeliveryProperties
  imports DeliveryRun
begin

text \<open>
  The contracts of the single operations of the delivery engine: sending and its roll-back, receiving,
  acknowledgements, duplicates, reconnection, sequence numbers and the clock guard; and the inputs that
  trip an assertion or lose a message.
\<close>

text \<open>The sequence number the next ordered message to \<open>dst\<close> gets.\<close>

definition eng_next_seq :: "delivery_engine \<Rightarrow> NodeId \<Rightarrow> u32" where
  "eng_next_seq e dst = (case first_idx (\<lambda>x. ss_active x \<and> ss_dst x = dst) (eng_seq_state e) of
     Some i \<Rightarrow> ss_next_seq (eng_seq_state e ! i) | None \<Rightarrow> 1)"

definition seq_table_full :: "delivery_engine \<Rightarrow> NodeId \<Rightarrow> bool" where
  "seq_table_full e dst \<longleftrightarrow> list_all (\<lambda>x. ss_active x \<and> ss_dst x \<noteq> dst) (eng_seq_state e)"

text \<open>The ordering gate has no room for an early message.\<close>

definition gate_full :: "ordering_buffer \<Rightarrow> envelope \<Rightarrow> bool" where
  "gate_full ob env \<longleftrightarrow> ob_cursor ob (source_id env) < sequence_num env \<and>
     \<not> ob_holding ob (source_id env) (sequence_num env) \<and>
     (4 \<le> length (ob_holds_of ob (source_id env)) \<or> size (ob_held ob) = 8)"

text \<open>Node 7 has four messages held (2 to 5, message 1 is missing).\<close>

definition ordered_message :: "u32 \<Rightarrow> envelope" where
  "ordered_message n = (data_message 7 9 (ucast n))\<lparr> sequence_num := n \<rparr>"

definition four_held :: ordering_buffer where
  "four_held = ob_fresh\<lparr>
     ob_hold := map (\<lambda>n. \<lparr> ho_env = ordered_message n, ho_active = True \<rparr>) [2, 3, 4, 5] @
       replicate 4 \<lparr> ho_env = envelope_init, ho_active = False \<rparr>,
     ob_peers := (ob_peers ob_fresh)[0 := \<lparr> pe_src = 7, pe_next_expected_seq = 1, pe_active = True, pe_lru_stamp = 1 \<rparr>] \<rparr>"

text \<open>The event ring keeps the newest events; what \<open>reset_peer_ordering\<close> reports per cancelled entry.\<close>

definition newest :: "delivery_event list \<Rightarrow> delivery_event list" where
  "newest evs = drop (length evs - 64) evs"

definition cancel_event :: "delivery_engine \<Rightarrow> NodeId \<Rightarrow> delivery_event" where
  "cancel_event e src = \<lparr> ev_message_id = 0, ev_timestamp_us = (if eng_last_now_us e > 0 then eng_last_now_us e else 1),
     ev_node_id = src, ev_kind = RECONNECT_CANCEL, ev_result = OK \<rparr>"

definition sent_to :: "NodeId \<Rightarrow> envelope multiset \<Rightarrow> nat" where
  "sent_to dst M = size (filter_mset (\<lambda>x. destination_id x = dst) M)"

section \<open>Sending\<close>

lemma queue_logs: "transport_logs queue_transport snd"
  by (auto simp: transport_logs_def queue_transport_def)

lemma init_witness:
  "returns (DeliveryEngine_init queue_transport eng_blank ([], []) (eng_cfg eng_blank) 9 True 5) (\<lambda>(e, t). queue_ok t \<and>
     eng_inv e \<and> eng_drops e = 0 \<and> eng_cfg e = eng_cfg eng_blank \<and> eng_local_id e = 9 \<and> eng_stash e = {#} \<and>
     df_keys (eng_dedup e) = {} \<and> eng_tables e = ({#}, {#}) \<and> eng_last_now_us e = 0)"
  by (rule returns_mono [OF init_spec [OF eng_blank_constructed _ _ queue_transport_ok]])
    (auto simp: queue_ok_def eng_blank_def)

lemma data_message_sendable: "dst \<noteq> 0 \<Longrightarrow> sendable cfg (data_message src dst m)"
  by (simp add: sendable_def)

text \<open>Claim C3. A message is booked for acknowledgement and retransmission exactly if one of its frames reached the wire.
  On OK all frames of the message were sent and the message is in the tables its class asks for; on any error either nothing was
  sent and both tables are what they were, or \<open>ERR_IO\<close> reports that a proper part of the fragments was sent and the
  message stays booked, so that a retry can complete it.\<close>

theorem send_books_iff_sent:
  assumes "eng_inv e" and "now_us > 0" and "transport_ok T I" and "I t" and "sendable (eng_cfg e) env"
    and "transport_logs T sent" and "\<not> time_goes_back e now_us"
    and "\<forall>x \<in># at_live (eng_ack_tracker e) + rm_live (eng_retry_manager e). env_key x \<noteq> (eng_local_id e, eng_id_gen e)"
  shows "returns (DeliveryEngine_send T e t env now_us) (\<lambda>(r, env', e', t'). eng_inv e' \<and> stamped e now_us env env' \<and>
    send_outcome env' r e (sent t) e' (sent t'))"
  using send_spec [OF assms(1-5), of sent] assms(6-8) by (auto elim!: returns_mono dest: eng_stepD)

theorem send_books_iff_sent_witness:
  "returns (do { (e, t) \<leftarrow> DeliveryEngine_init queue_transport eng_blank ([], []) (eng_cfg eng_blank) 9 True 5;
       (r, env', e', t') \<leftarrow> DeliveryEngine_send queue_transport e t (data_message 0 7 0) 3; Some (e, t, r, env', e', t') })
     (\<lambda>(e, t, r, env', e', t'). eng_inv e' \<and> stamped e 3 (data_message 0 7 0) env' \<and> send_outcome env' r e (snd t) e' (snd t'))"
proof (rule returns_mono [OF init_witness, THEN returns_bind [THEN iffD2]], clarsimp)
  fix e :: delivery_engine and a b :: "envelope list"
  assume "queue_ok (a, b)" "eng_inv e" "eng_cfg e = eng_cfg eng_blank" "eng_tables e = ({#}, {#})" "eng_last_now_us e = 0"
  with send_books_iff_sent [OF _ _ queue_transport_ok _ data_message_sendable queue_logs, of e 3 "(a, b)" 7 0 0]
  show "returns (DeliveryEngine_send queue_transport e (a, b) (data_message 0 7 0) 3)
    (\<lambda>(r, env', e', t'). eng_inv e' \<and> stamped e 3 (data_message 0 7 0) env' \<and> send_outcome env' r e b e' (snd t'))"
    by (simp add: time_goes_back_def eng_tables_def)
qed

section \<open>Receiving\<close>

text \<open>Claim C4. What \<open>receive\<close> hands to the application with OK is a valid message addressed to this node (or to
  everyone) that has not expired, whether it comes from the wire or was held for its turn; the call returns whatever the transport
  delivers, and keeps the invariant.\<close>

theorem receive_contract:
  assumes "eng_inv e" and "now_us > 0" and "transport_ok T I" and "I t" and "eng_drops e + 1 < 2 ^ 32"
  shows "returns (DeliveryEngine_receive T e t env timeout_ms now_us) (\<lambda>(r, env', e', t'). eng_inv e' \<and> I t' \<and>
    (r = OK \<longrightarrow> envelope_valid env' \<and> env_wf env' \<and> envelope_addressed_to env' (eng_local_id e) \<and>
       \<not> timestamp_expired (expiry_time_us env') now_us))"
  by (rule returns_mono [OF receive_spec [OF assms]]) (use assms(1) in \<open>auto simp: eng_received_def eng_flow_def split: if_splits\<close>)

theorem receive_contract_witness:
  "returns (do { (e, t) \<leftarrow> DeliveryEngine_init queue_transport eng_blank ([], []) (eng_cfg eng_blank) 9 True 5;
       DeliveryEngine_receive queue_transport e ([data_message 7 9 5], []) envelope_init 10 3 })
     (\<lambda>(r, env', e', t'). eng_inv e' \<and> queue_ok t' \<and> (r = OK \<longrightarrow> envelope_addressed_to env' 9 \<and>
       \<not> timestamp_expired (expiry_time_us env') 3))"
proof (rule returns_mono [OF init_witness, THEN returns_bind [THEN iffD2]], clarsimp)
  fix e :: delivery_engine assume e: "eng_inv e" "eng_drops e = 0" "eng_local_id e = 9"
  have "queue_ok ([data_message 7 9 5], [])" by (simp add: queue_ok_def envelope_valid_def admissible_def)
  from receive_contract [OF e(1) _ queue_transport_ok this, of 3 envelope_init 10] e(2,3)
  show "returns (DeliveryEngine_receive queue_transport e ([data_message 7 9 5], []) envelope_init 10 3)
     (\<lambda>(r, env', e', t'). eng_inv e' \<and> queue_ok t' \<and> (r = OK \<longrightarrow> envelope_addressed_to env' 9 \<and>
       \<not> timestamp_expired (expiry_time_us env') 3))"
    by (auto elim!: returns_mono)
qed

text \<open>Claim C5. The sender of an acknowledgement is checked against the acknowledgement tracker, and only there. If the tracked
  entries of the acknowledged key have another destination (a forged acknowledgement), neither table changes; if they have the
  sender as their destination, one of them leaves the tracker and one entry of that key, if there is one, the retry table. But if
  the tracker has no entry of that key (the timeout sweep frees it while the retry entry lives on), an acknowledgement from any
  node whatsoever stops the retransmission: the retry entry of the key is removed and the tracker stays as it is.\<close>

theorem ack_guard_while_tracked:
  assumes "at_inv ak" and "rm_inv rm" and "message_type env = ACK" and "destination_id env \<noteq> 0"
    and "\<forall>x \<in># at_live ak. destination_id x \<noteq> 0"
  shows "returns (process_ack ak rm env) (\<lambda>(at', rm'). at_inv at' \<and> rm_inv rm' \<and>
    (let k = (destination_id env, message_id env); E = filter_mset (\<lambda>x. env_key x = k) (at_live ak) in
      (E \<noteq> {#} \<and> (\<forall>x \<in># E. destination_id x \<noteq> source_id env) \<longrightarrow> at' = ak \<and> rm' = rm) \<and>
      (E \<noteq> {#} \<and> (\<forall>x \<in># E. destination_id x = source_id env) \<longrightarrow>
         (\<exists>x \<in># E. at_live at' = at_live ak - {#x#}) \<and> key_removed k (rm_live rm) (rm_live rm')) \<and>
      (E = {#} \<longrightarrow> at_live at' = at_live ak \<and> key_removed k (rm_live rm) (rm_live rm'))))"
  by (rule returns_mono [OF process_ack_spec [OF assms]])
    (auto simp: Let_def key_removed_def)

theorem ack_guard_while_tracked_witness:
  "returns (do { ak \<leftarrow> AckTracker_init (eng_ack_tracker eng_blank); rm \<leftarrow> RetryManager_init (eng_retry_manager eng_blank);
       (r, rm) \<leftarrow> RetryManager_schedule rm (data_message 9 7 5) 3 100 2;
       (r, ak1) \<leftarrow> AckTracker_track ak (data_message 9 7 5) 100;
       (at1, rm1) \<leftarrow> process_ack ak1 rm (envelope_make_ack (data_message 9 7 5) 8 4);
       (at2, rm2) \<leftarrow> process_ack ak rm (envelope_make_ack (data_message 9 7 5) 8 4); Some (rm1, rm2) })
     (\<lambda>(rm1, rm2). rm_live rm1 = {#data_message 9 7 5#} \<and> rm_live rm2 = {#})"
proof -
  let ?m = "data_message 9 7 5" let ?ack = "envelope_make_ack ?m 8 4"
  obtain ak where ak: "AckTracker_init (eng_ack_tracker eng_blank) = Some ak" "at_inv ak" "at_live ak = {#}"
    using AckTracker_init_spec by (auto elim!: returnsE simp: at_live_def)
  obtain rm where rm: "RetryManager_init (eng_retry_manager eng_blank) = Some rm" "rm_inv rm" "rm_live rm = {#}"
    using RetryManager_init_spec [of "eng_retry_manager eng_blank"] by (auto elim!: returnsE simp: eng_blank_def)
  have "rm_count rm = 0" using rm(1)
    by (auto simp: RetryManager_init_def bind_eq_Some_conv nc_assert_def split: if_splits)
  with rm_schedule_spec [OF rm(2), of 3 100 2 ?m] obtain rm1 where
    rm1: "RetryManager_schedule rm ?m 3 100 2 = Some (OK, rm1)" "rm_inv rm1" "rm_live rm1 = {#?m#}"
    using rm(3) by (auto elim!: returnsE simp: envelope_valid_def schedulable_def)
  have "at_count ak = 0" using ak(1)
    by (auto simp: AckTracker_init_def bind_eq_Some_conv nc_assert_def split: if_splits)
  with track_spec [OF ak(2), of ?m 100] obtain at1 where
    at1: "AckTracker_track ak ?m 100 = Some (OK, at1)" "at_inv at1" "at_live at1 = {#?m#}"
    using ak(3) by (auto elim!: returnsE simp: at_live_def)
  from ack_guard_while_tracked [OF at1(2) rm1(2), of ?ack] at1(3) rm1(3)
  have "returns (process_ack at1 rm1 ?ack) (\<lambda>(at', rm'). rm_live rm' = {#?m#})"
    by (auto elim!: returns_mono simp: env_key_def Let_def)
  moreover from ack_guard_while_tracked [OF ak(2) rm1(2), of ?ack] ak(3) rm1(3)
  have "returns (process_ack ak rm1 ?ack) (\<lambda>(at', rm'). rm_live rm' = {#})"
    by (auto elim!: returns_mono simp: env_key_def Let_def key_removed_def)
  ultimately show ?thesis using ak(1) rm(1) at1(1) rm1(1) by (auto elim!: returns_mono)
qed

section \<open>Duplicates\<close>

text \<open>The exact effect of a known key: one acknowledgement is handed to the transport, the drop is counted and reported.\<close>

lemma duplicate_path:
  assumes "eng_inv e" and "now_us > 0" and "transport_ok T I" and "I t"
    and "envelope_is_data env" and "reliability_class env = RELIABLE_RETRY" and "env_key env \<in> df_keys (eng_dedup e)"
  obtains r t' st er where "DeliveryEngine_handle_data_path T e t env now_us =
      Some (ERR_DUPLICATE, env, e\<lparr> eng_stats := st, eng_events := er \<rparr>, t')"
    "st = (eng_stats e)\<lparr> msgs_dropped_duplicate := msgs_dropped_duplicate (eng_stats e) + 1 \<rparr>"
    "tr_send_message T t (envelope_make_ack env (eng_local_id e) now_us) = Some (r, t')" "I t'"
    "eng_inv (e\<lparr> eng_stats := st, eng_events := er \<rparr>)"
proof -
  have df: "DuplicateFilter_check_and_record (eng_dedup e) (source_id env) (message_id env) now_us = Some (ERR_DUPLICATE, eng_dedup e)"
    using check_and_record_dup [OF eng_invD(6) [OF assms(1)] assms(2)] assms(7) by (simp add: env_key_def)
  let ?ack = "envelope_make_ack env (eng_local_id e) now_us"
  have "env_wf ?ack" "envelope_valid ?ack" using eng_invD(2) [OF assms(1)] by (simp_all add: envelope_valid_def)
  from transport_okD(3) [OF assms(3,4) this] obtain r t' where t': "tr_send_message T t ?ack = Some (r, t')" "I t'"
    by (auto elim!: returnsE)
  let ?st = "(eng_stats e)\<lparr> msgs_dropped_duplicate := msgs_dropped_duplicate (eng_stats e) + 1 \<rparr>"
  let ?e = "e\<lparr> eng_stats := ?st \<rparr>"
  have "eng_inv ?e" using assms(1) by (simp add: eng_inv_def)
  from emit_event_inv [OF this assms(2), of DUPLICATE_DROP "message_id env" "source_id env" ERR_DUPLICATE] obtain er where
    er: "DeliveryEngine_emit_event ?e DUPLICATE_DROP (message_id env) (source_id env) now_us ERR_DUPLICATE
          = Some (?e\<lparr> eng_events := er \<rparr>)" "eng_inv (?e\<lparr> eng_events := er \<rparr>)" .
  have "DeliveryEngine_handle_data_path T e t env now_us = Some (ERR_DUPLICATE, env, ?e\<lparr> eng_events := er \<rparr>, t')"
    using df t'(1) er(1) assms(5,6) eng_invD(1,2) [OF assms(1)]
    by (simp add: DeliveryEngine_handle_data_path_def DeliveryEngine_handle_data_dedup_def send_data_ack_def)
  from that [OF this _ t' er(2)] show ?thesis by simp
qed

text \<open>Claim C6. A data message whose key the duplicate filter knows is refused with \<open>ERR_DUPLICATE\<close> and acknowledged
  again: exactly one call of the transport's \<open>send_message\<close> is made, with the acknowledgement of that message, and if the
  transport accepts it the acknowledgement is what was sent. Apart from the duplicate counter and the event ring the engine is
  what it was.\<close>

theorem duplicate_refused_and_reacked:
  assumes "eng_inv e" and "now_us > 0" and "transport_ok T I" and "I t" and "transport_logs T sent"
    and "envelope_is_data env" and "reliability_class env = RELIABLE_RETRY" and "env_key env \<in> df_keys (eng_dedup e)"
  shows "returns (DeliveryEngine_handle_data_path T e t env now_us) (\<lambda>(r, env', e', t'). r = ERR_DUPLICATE \<and> eng_inv e' \<and>
    (\<exists>r'. tr_send_message T t (envelope_make_ack env (eng_local_id e) now_us) = Some (r', t') \<and>
       sent t' = (if r' = OK then sent t @ [envelope_make_ack env (eng_local_id e) now_us] else sent t)) \<and>
    (\<exists>er. e' = e\<lparr> eng_stats := (eng_stats e)\<lparr> msgs_dropped_duplicate := msgs_dropped_duplicate (eng_stats e) + 1 \<rparr>,
       eng_events := er \<rparr>))"
proof -
  from duplicate_path [OF assms(1-4,6-8)] obtain r t' st er where
    d: "DeliveryEngine_handle_data_path T e t env now_us = Some (ERR_DUPLICATE, env, e\<lparr> eng_stats := st, eng_events := er \<rparr>, t')"
      "st = (eng_stats e)\<lparr> msgs_dropped_duplicate := msgs_dropped_duplicate (eng_stats e) + 1 \<rparr>"
      "tr_send_message T t (envelope_make_ack env (eng_local_id e) now_us) = Some (r, t')"
      "eng_inv (e\<lparr> eng_stats := st, eng_events := er \<rparr>)" .
  then have "sent t' = (if r = OK then sent t @ [envelope_make_ack env (eng_local_id e) now_us] else sent t)"
    using assms(5) unfolding transport_logs_def by (metis (full_types))
  with d show ?thesis by auto
qed

theorem duplicate_refused_and_reacked_witness:
  "returns (do { (e, t) \<leftarrow> DeliveryEngine_init queue_transport eng_blank ([], []) (eng_cfg eng_blank) 9 True 5;
       (r, df) \<leftarrow> DuplicateFilter_check_and_record (eng_dedup e) 7 5 2;
       (r, env', e', t') \<leftarrow> DeliveryEngine_handle_data_path queue_transport (e\<lparr> eng_dedup := df \<rparr>) ([], []) (data_message 7 9 5) 3; Some (r, t') })
     (\<lambda>(r, t'). r = ERR_DUPLICATE \<and> snd t' = [envelope_make_ack (data_message 7 9 5) 9 3])"
proof (rule returns_mono [OF init_witness, THEN returns_bind [THEN iffD2]], clarsimp)
  fix e :: delivery_engine assume e: "eng_inv e" "eng_local_id e = 9"
  from check_and_record_spec [OF eng_invD(6) [OF e(1)], of 2 7 5] obtain r df where
    df: "DuplicateFilter_check_and_record (eng_dedup e) 7 5 2 = Some (r, df)" "df_inv df" "(7, 5) \<in> df_keys df"
    by (auto elim!: returnsE)
  have inv: "eng_inv (e\<lparr> eng_dedup := df \<rparr>)" using e(1) df(2) by (simp add: eng_inv_def)
  have "queue_ok ([], [])" by (simp add: queue_ok_def)
  from duplicate_refused_and_reacked [OF inv _ queue_transport_ok this queue_logs, of 3 "data_message 7 9 5"] e(2) df(1,3)
  show "returns (DuplicateFilter_check_and_record (eng_dedup e) 7 5 2)
      (\<lambda>x. returns (case x of (r, df) \<Rightarrow> DeliveryEngine_handle_data_path queue_transport (e\<lparr> eng_dedup := df \<rparr>) ([], []) (data_message 7 9 5) 3
          \<bind> (\<lambda>(r, env', e', t'). Some (r, t')))
        (\<lambda>(r, t'). r = ERR_DUPLICATE \<and> snd t' = [envelope_make_ack (data_message 7 9 5) 9 3]))"
    by (auto elim!: returns_mono simp: envelope_is_data_def env_key_def queue_transport_def)
qed

section \<open>A full hold table\<close>

lemma for_each_unchanged: "\<forall>x \<in> set xs. f x s = Some s \<Longrightarrow> for_each f xs s = Some s"
  by (induction xs) simp_all

lemma sweep_nothing_expired:
  assumes "eng_inv e" and "now > 0" and "\<forall>x \<in># ob_held (eng_ordering e). \<not> timestamp_expired (expiry_time_us x) now"
  shows "sweep_holds_and_account e now = Some e"
proof -
  note ob = ob_inv_len [OF eng_invD(9) [OF assms(1)]]
  have "\<forall>i \<in> set [0..<8]. ob_sweep_slot now 8 i (0, eng_ordering_freed_buf e, eng_ordering e)
      = Some (0, eng_ordering_freed_buf e, eng_ordering e)"
    using assms(3) ob(1) by (auto simp: ob_sweep_slot_def ob_held_def)
  then have "for_each (ob_sweep_slot now 8) [0..<8] (0, eng_ordering_freed_buf e, eng_ordering e)
      = Some (0, eng_ordering_freed_buf e, eng_ordering e)" by (rule for_each_unchanged)
  then have "OrderingBuffer_sweep_expired_holds (eng_ordering e) now (eng_ordering_freed_buf e) 8
      = Some (0, eng_ordering_freed_buf e, eng_ordering e)"
    using ob(3) assms(2) by (simp add: OrderingBuffer_sweep_expired_holds_def del: for_each.simps)
  with assms(2) show ?thesis
    by (simp add: sweep_holds_and_account_def DeliveryEngine_account_ordering_expiry_drops_def)
qed

text \<open>The filter records a new reliable message, and the full gate then refuses it.\<close>

lemma full_gate_path:
  assumes "eng_inv e" and "now_us > 0" and "transport_ok T I" and "I t" and "deliverable (eng_local_id e) env"
    and "reliability_class env = RELIABLE_RETRY" and "env_key env \<notin> df_keys (eng_dedup e)"
    and "gate_full (eng_ordering e) env" and "\<forall>x \<in># ob_held (eng_ordering e). \<not> timestamp_expired (expiry_time_us x) now_us"
  obtains e1 where "DeliveryEngine_handle_data_path T e t env now_us = Some (ERR_FULL, env, e1, t)" "eng_inv e1"
    "env_key env \<in> df_keys (eng_dedup e1)" "eng_stash e1 = eng_stash e" "eng_local_id e1 = eng_local_id e"
    "eng_tables e1 = eng_tables e"
proof -
  note init = eng_invD(1) [OF assms(1)]
  have env: "env_wf env" "source_id env \<noteq> 0" "envelope_is_data env" "envelope_valid env"
    using assms(5) by (simp_all add: deliverable_def envelope_valid_def)
  from check_and_record_spec [OF eng_invD(6) [OF assms(1)] assms(2), of "source_id env" "message_id env"] assms(7) obtain df where
    df: "DuplicateFilter_check_and_record (eng_dedup e) (source_id env) (message_id env) now_us = Some (OK, df)" "df_inv df"
      "env_key env \<in> df_keys df" by (auto elim!: returnsE simp: env_key_def)
  let ?e = "e\<lparr> eng_dedup := df \<rparr>"
  have inv: "eng_inv ?e" using assms(1) df(2) by (simp add: eng_inv_def)
  from sweep_nothing_expired [OF inv assms(2)] assms(9) have sw: "sweep_holds_and_account ?e now_us = Some ?e" by simp
  have seq: "sequence_num env \<noteq> 0" using assms(8) by (auto simp: gate_full_def)
  from ingest_spec [OF eng_invD(9) [OF assms(1)] env(1,2) assms(2) data_not_control [OF env(3)] seq, of envelope_init] obtain ob where
    ob: "OrderingBuffer_ingest (eng_ordering e) env envelope_init now_us = Some (ERR_FULL, envelope_init, ob)" "ob_inv ob"
      "ob_held ob = ob_held (eng_ordering e)"
    using assms(8) by (auto elim!: returnsE simp: ob_ingested_def gate_full_def Let_def split: if_splits)
  let ?st = "(eng_stats e)\<lparr> msgs_dropped_ordering_full := msgs_dropped_ordering_full (eng_stats e) + 1 \<rparr>"
  let ?e1 = "?e\<lparr> eng_ordering := ob, eng_stats := ?st \<rparr>"
  have "DeliveryEngine_handle_data_path T e t env now_us = Some (ERR_FULL, env, ?e1, t)"
    using df(1) sw ob(1) init env assms(6)
    by (simp add: DeliveryEngine_handle_data_path_def DeliveryEngine_handle_data_dedup_def DeliveryEngine_handle_ordering_gate_def)
  moreover have "eng_inv ?e1" using inv ob(2,3) by (simp add: eng_inv_def)
  ultimately show ?thesis using that [of ?e1] df(3) ob(3) by (simp add: eng_stash_def eng_tables_def)
qed

text \<open>Claim C8. The filter records a reliable message before the ordering gate has accepted it. So an ordered message that arrives
  early while the hold table is full (eight in all, or four of its sender, none of them expired) is lost: its first arrival is
  refused with \<open>ERR_FULL\<close>, it is neither delivered nor held nor acknowledged, and its retransmission is refused as a
  duplicate, whose acknowledgement tells the sender that the message arrived.\<close>

theorem full_hold_loses_message:
  assumes "eng_inv e" and "now_us > 0" and "transport_ok T I" and "I t" and "deliverable (eng_local_id e) env"
    and "reliability_class env = RELIABLE_RETRY" and "env_key env \<notin> df_keys (eng_dedup e)" and "gate_full (eng_ordering e) env"
    and "\<forall>x \<in># ob_held (eng_ordering e). \<not> timestamp_expired (expiry_time_us x) now_us" and "later_us > 0"
  shows "returns (do { (r1, env1, e1, t1) \<leftarrow> DeliveryEngine_handle_data_path T e t env now_us;
      (r2, env2, e2, t2) \<leftarrow> DeliveryEngine_handle_data_path T e1 t1 env later_us; Some (r1, e1, t1, r2, e2, t2) })
    (\<lambda>(r1, e1, t1, r2, e2, t2). r1 = ERR_FULL \<and> t1 = t \<and> eng_stash e1 = eng_stash e \<and>
      r2 = ERR_DUPLICATE \<and> eng_stash e2 = eng_stash e \<and>
      (\<exists>r. tr_send_message T t (envelope_make_ack env (eng_local_id e) later_us) = Some (r, t2)))"
proof -
  from full_gate_path [OF assms(1-9)] obtain e1 where
    e1: "DeliveryEngine_handle_data_path T e t env now_us = Some (ERR_FULL, env, e1, t)" "eng_inv e1"
      "env_key env \<in> df_keys (eng_dedup e1)" "eng_stash e1 = eng_stash e" "eng_local_id e1 = eng_local_id e" by blast
  have "envelope_is_data env" using assms(5) by (simp add: deliverable_def)
  from duplicate_path [OF e1(2) assms(10,3,4) this assms(6) e1(3)] obtain r t' st er where
    "DeliveryEngine_handle_data_path T e1 t env later_us = Some (ERR_DUPLICATE, env, e1\<lparr> eng_stats := st, eng_events := er \<rparr>, t')"
    "tr_send_message T t (envelope_make_ack env (eng_local_id e1) later_us) = Some (r, t')" by metis
  moreover have "eng_stash (e1\<lparr> eng_stats := st, eng_events := er \<rparr>) = eng_stash e1" by (simp add: eng_stash_def)
  ultimately show ?thesis using e1 by simp
qed

lemma ordered_message_deliverable: "deliverable 9 (ordered_message n)"
  by (simp add: ordered_message_def deliverable_def envelope_valid_def envelope_is_data_def envelope_addressed_to_def env_wf_def
      data_message_def envelope_init_def)

lemma ordered_message_simps [simp]: "source_id (ordered_message n) = 7" "sequence_num (ordered_message n) = n"
  "reliability_class (ordered_message n) = RELIABLE_RETRY" "expiry_time_us (ordered_message n) = 1000000"
  by (simp_all add: ordered_message_def)

lemma four_held_full: "ob_inv four_held" "gate_full four_held (ordered_message 6)"
  "ob_held four_held = {#ordered_message 2, ordered_message 3, ordered_message 4, ordered_message 5#}"
proof -
  have d: "env_wf (ordered_message n)" "\<not> envelope_is_control (ordered_message n)" for n
    using ordered_message_deliverable [of n] data_not_control by (auto simp: deliverable_def)
  have p: "ob_peers four_held = \<lparr> pe_src = 7, pe_next_expected_seq = 1, pe_active = True, pe_lru_stamp = 1 \<rparr> #
      replicate 15 \<lparr> pe_src = 0, pe_next_expected_seq = 1, pe_active = False, pe_lru_stamp = 0 \<rparr>"
    by (simp add: four_held_def ob_fresh_def numeral_eq_Suc)
  have c: "ob_cursor four_held 7 = 1" by (simp add: ob_cursor_def p ob_is_peer_def)
  show "ob_held four_held = {#ordered_message 2, ordered_message 3, ordered_message 4, ordered_message 5#}"
    by (simp add: ob_held_def four_held_def)
  then show "gate_full four_held (ordered_message 6)"
    by (simp add: gate_full_def c ob_holding_def ob_holds_of_def) (simp add: four_held_def)
  have one: "i = 0" if "i < 16" "pe_active (ob_peers four_held ! i)" for i
    using that by (cases i) (simp_all add: p)
  have h: "ob_hold four_held = map (\<lambda>n. \<lparr> ho_env = ordered_message n, ho_active = True \<rparr>) [2, 3, 4, 5] @
      replicate 4 \<lparr> ho_env = envelope_init, ho_active = False \<rparr>" "ob_initialized four_held"
    by (simp_all add: four_held_def ob_fresh_def)
  have k: "7 \<in> ob_known four_held" by (force simp: ob_known_def p)
  have "length (ob_holds_of four_held src) \<le> 4" for src by (simp add: ob_holds_of_def h)
  moreover have "\<forall>x \<in> set (ob_hold four_held). ho_active x \<longrightarrow> source_id (ho_env x) \<in> ob_known four_held \<and>
      sequence_num (ho_env x) \<noteq> 0 \<and> env_wf (ho_env x) \<and> \<not> envelope_is_control (ho_env x)" using d k by (simp add: h)
  moreover have "\<forall>q \<in> set (ob_peers four_held). pe_active q \<longrightarrow> pe_src q \<noteq> 0 \<and> pe_next_expected_seq q \<noteq> 0" by (simp add: p)
  moreover have "length (ob_hold four_held) = 8" "length (ob_peers four_held) = 16" by (simp_all add: h p)
  ultimately show "ob_inv four_held" unfolding ob_inv_def using one h(2) by (metis (no_types, lifting))
qed

theorem full_hold_loses_message_witness:
  "returns (do { (e, t) \<leftarrow> DeliveryEngine_init queue_transport eng_blank ([], []) (eng_cfg eng_blank) 9 True 5;
       (r1, env1, e1, t1) \<leftarrow> DeliveryEngine_handle_data_path queue_transport (e\<lparr> eng_ordering := four_held \<rparr>) ([], []) (ordered_message 6) 3;
       (r2, env2, e2, t2) \<leftarrow> DeliveryEngine_handle_data_path queue_transport e1 t1 (ordered_message 6) 4; Some (r1, r2, t2) })
     (\<lambda>(r1, r2, t2). r1 = ERR_FULL \<and> r2 = ERR_DUPLICATE \<and> snd t2 = [envelope_make_ack (ordered_message 6) 9 4])"
proof -
  from init_witness obtain e t where e: "DeliveryEngine_init queue_transport eng_blank ([], []) (eng_cfg eng_blank) 9 True 5 = Some (e, t)"
    "eng_inv e" "eng_local_id e = 9" "df_keys (eng_dedup e) = {}" by (auto elim!: returnsE)
  have q: "queue_ok ([], [])" by (simp add: queue_ok_def)
  have inv: "eng_inv (e\<lparr> eng_ordering := four_held \<rparr>)"
    using e(2,3) four_held_full(1) ordered_message_deliverable by (simp add: eng_inv_def four_held_full(3))
  have "\<forall>x \<in># ob_held four_held. \<not> timestamp_expired (expiry_time_us x) 3"
    by (simp add: four_held_full(3) timestamp_expired_def)
  with full_hold_loses_message [OF inv _ queue_transport_ok q, of 3 "ordered_message 6" 4] e(3,4)
  have "returns (do { (r1, env1, e1, t1) \<leftarrow> DeliveryEngine_handle_data_path queue_transport (e\<lparr> eng_ordering := four_held \<rparr>) ([], []) (ordered_message 6) 3;
       (r2, env2, e2, t2) \<leftarrow> DeliveryEngine_handle_data_path queue_transport e1 t1 (ordered_message 6) 4; Some (r1, e1, t1, r2, e2, t2) })
     (\<lambda>(r1, e1, t1, r2, e2, t2). r1 = ERR_FULL \<and> r2 = ERR_DUPLICATE \<and> snd t2 = [envelope_make_ack (ordered_message 6) 9 4])"
    by (auto elim!: returns_mono simp: ordered_message_deliverable four_held_full(2) queue_transport_def)
  with e(1) show ?thesis by (auto simp: returns_bind split_def elim!: returns_mono)
qed

section \<open>Reconnection and the clock\<close>

lemma eng_next_seq_update:
  assumes "i < length (eng_seq_state e)" and "ss_active (eng_seq_state e ! i) \<longrightarrow> ss_dst (eng_seq_state e ! i) = dst"
    and "ss_active v" and "ss_dst v = dst"
    and "first_idx (\<lambda>x. ss_active x \<and> ss_dst x = dst) ((eng_seq_state e)[i := v]) = Some i"
  shows "eng_next_seq (e\<lparr> eng_seq_state := (eng_seq_state e)[i := v] \<rparr>) d = (if d = dst then ss_next_seq v else eng_next_seq e d)"
proof (cases "d = dst")
  case True
  with assms(1,5) show ?thesis by (simp add: eng_next_seq_def)
next
  case False
  have eq: "first_idx (\<lambda>x. ss_active x \<and> ss_dst x = d) ((eng_seq_state e)[i := v]) =
      first_idx (\<lambda>x. ss_active x \<and> ss_dst x = d) (eng_seq_state e)"
    using False assms(1,2,4) by (intro first_idx_update_cong) auto
  have "j \<noteq> i" if "first_idx (\<lambda>x. ss_active x \<and> ss_dst x = d) (eng_seq_state e) = Some j" for j
    using first_idx_SomeD [OF that] False assms(2) by auto
  with eq False show ?thesis by (auto simp: eng_next_seq_def split: option.split)
qed

text \<open>Repeating an event.\<close>

lemma newest_append: "newest (newest xs @ ys) = newest (xs @ ys)"
  by (cases "length xs \<le> 64") (simp_all add: newest_def add.commute)

lemma emit_same_events:
  assumes "eng_initialized e" and "er_inv (eng_events e)" and "ts > 0"
  shows "\<exists>er. for_each (\<lambda>i e. DeliveryEngine_emit_event e k m n ts r) xs e = Some (e\<lparr> eng_events := er \<rparr>) \<and> er_inv er \<and>
    er_contents er = newest (er_contents (eng_events e) @ replicate (length xs)
      \<lparr> ev_message_id = m, ev_timestamp_us = ts, ev_node_id = n, ev_kind = k, ev_result = r \<rparr>)"
  using assms(1,2)
proof (induction xs arbitrary: e)
  case Nil
  then show ?case by (intro exI [of _ "eng_events e"]) (simp add: newest_def er_inv_def)
next
  case (Cons x xs)
  let ?ev = "\<lparr> ev_message_id = m, ev_timestamp_us = ts, ev_node_id = n, ev_kind = k, ev_result = r \<rparr>"
  from evr.push_window [OF Cons.prems(2), of "[?ev]"] obtain er where
    er: "DeliveryEventRing_push (eng_events e) ?ev = Some er" "er_inv er" "er_contents er = newest (er_contents (eng_events e) @ [?ev])"
    by (auto elim!: returnsE simp: newest_def)
  from Cons.IH [of "e\<lparr> eng_events := er \<rparr>"] er(1,2) Cons.prems(1) assms(3) show ?case
    by (auto simp: DeliveryEngine_emit_event_def er(3) newest_append)
qed

lemma reset_seq_state:
  defines "sq src e \<equiv> (case first_idx (\<lambda>x. ss_active x \<and> ss_dst x = src) (eng_seq_state e) of
     Some i \<Rightarrow> (eng_seq_state e)[i := (eng_seq_state e ! i)\<lparr> ss_next_seq := 1 \<rparr>] | None \<Rightarrow> eng_seq_state e)"
  shows "eng_next_seq (e\<lparr> eng_seq_state := sq src e \<rparr>) d = (if d = src then 1 else eng_next_seq e d)"
proof (cases "first_idx (\<lambda>x. ss_active x \<and> ss_dst x = src) (eng_seq_state e)")
  case None
  then show ?thesis by (simp add: sq_def eng_next_seq_def)
next
  case (Some i)
  note i = first_idx_SomeD [OF Some]
  let ?v = "(eng_seq_state e ! i)\<lparr> ss_next_seq := 1 \<rparr>"
  have "eng_next_seq (e\<lparr> eng_seq_state := (eng_seq_state e)[i := ?v] \<rparr>) d = (if d = src then ss_next_seq ?v else eng_next_seq e d)"
    using i first_idx_update_same [OF Some, of ?v] by (intro eng_next_seq_update) simp_all
  with Some show ?thesis by (simp add: sq_def)
qed

lemma eng_next_seq_cong: "eng_seq_state e' = eng_seq_state e \<Longrightarrow> eng_next_seq e' = eng_next_seq e"
  by (intro ext) (simp add: eng_next_seq_def cong: option.case_cong)

text \<open>The exact state after a reset.\<close>

lemma reset_peer_exact:
  assumes "eng_inv e" and "src \<noteq> 0"
  obtains ob sq ak rm er where "DeliveryEngine_reset_peer_ordering e src = Some (e\<lparr>
      eng_held_pending_valid := (eng_held_pending_valid e \<and> source_id (eng_held_pending e) \<noteq> src), eng_ordering := ob,
      eng_seq_state := sq, eng_ack_tracker := ak, eng_retry_manager := rm, eng_events := er \<rparr>)"
    "\<And>d. eng_next_seq (e\<lparr> eng_seq_state := sq \<rparr>) d = (if d = src then 1 else eng_next_seq e d)"
    "er_contents er = newest (er_contents (eng_events e) @ replicate (sent_to src (at_live (eng_ack_tracker e)) +
       sent_to src (rm_live (eng_retry_manager e))) (cancel_event e src))"
    "\<forall>x. ob_cursor ob x = (if x = src then 1 else ob_cursor (eng_ordering e) x)"
    "ob_held ob = filter_mset (\<lambda>x. source_id x \<noteq> src) (ob_held (eng_ordering e))"
    "at_live ak = filter_mset (\<lambda>x. destination_id x \<noteq> src) (at_live (eng_ack_tracker e))"
    "rm_live rm = filter_mset (\<lambda>x. destination_id x \<noteq> src) (rm_live (eng_retry_manager e))"
proof -
  note inv = eng_invD [OF assms(1)]
  define sq where "sq = (case first_idx (\<lambda>x. ss_active x \<and> ss_dst x = src) (eng_seq_state e) of
     Some i \<Rightarrow> (eng_seq_state e)[i := (eng_seq_state e ! i)\<lparr> ss_next_seq := 1 \<rparr>] | None \<Rightarrow> eng_seq_state e)"
  define ts where "ts = (if eng_last_now_us e > 0 then eng_last_now_us e else 1)"
  let ?ev = "\<lambda>i e. DeliveryEngine_emit_event e RECONNECT_CANCEL 0 src ts OK"
  have ts: "ts > 0" by (simp add: ts_def)
  have dst: "src \<noteq> NODE_ID_INVALID" using assms(2) by simp
  obtain ob where ob: "OrderingBuffer_reset_peer (eng_ordering e) src = Some ob"
      "\<forall>x. ob_cursor ob x = (if x = src then 1 else ob_cursor (eng_ordering e) x)"
      "ob_held ob = filter_mset (\<lambda>x. source_id x \<noteq> src) (ob_held (eng_ordering e))"
    using reset_peer_spec [OF inv(9) assms(2)] by blast
  from ackt.cancel_peer_law [OF inv(4) dst] obtain n ak where
    ak: "AckTracker_cancel_peer (eng_ack_tracker e) src = Some (n, ak)" "n = sent_to src (at_live (eng_ack_tracker e))"
      "at_live ak = filter_mset (\<lambda>x. destination_id x \<noteq> src) (at_live (eng_ack_tracker e))"
    by (auto elim!: returnsE simp: sent_to_def)
  from rtm.cancel_peer_law [OF inv(5) dst] obtain m rm where
    rm: "RetryManager_cancel_peer (eng_retry_manager e) src = Some (m, rm)" "m = sent_to src (rm_live (eng_retry_manager e))"
      "rm_live rm = filter_mset (\<lambda>x. destination_id x \<noteq> src) (rm_live (eng_retry_manager e))"
    by (auto elim!: returnsE simp: sent_to_def)
  let ?e1 = "e\<lparr> eng_held_pending_valid := (eng_held_pending_valid e \<and> source_id (eng_held_pending e) \<noteq> src),
    eng_ordering := ob, eng_seq_state := sq, eng_ack_tracker := ak \<rparr>"
  from emit_same_events [of ?e1 ts RECONNECT_CANCEL 0 src OK "[0..<n]"] ts inv(1,7) obtain er1 where
    er1: "for_each ?ev [0..<n] ?e1 = Some (?e1\<lparr> eng_events := er1 \<rparr>)" "er_inv er1"
      "er_contents er1 = newest (er_contents (eng_events e) @ replicate n (cancel_event e src))"
    by (auto simp: cancel_event_def ts_def)
  let ?e2 = "?e1\<lparr> eng_events := er1, eng_retry_manager := rm \<rparr>"
  from emit_same_events [of ?e2 ts RECONNECT_CANCEL 0 src OK "[0..<m]"] ts inv(1) er1(2) obtain er2 where
    er2: "for_each ?ev [0..<m] ?e2 = Some (?e2\<lparr> eng_events := er2 \<rparr>)"
      "er_contents er2 = newest (er_contents er1 @ replicate m (cancel_event e src))"
    by (auto simp: cancel_event_def ts_def)
  have hv: "(if eng_held_pending_valid e \<and> source_id (eng_held_pending e) = src then e\<lparr> eng_held_pending_valid := False \<rparr> else e) =
      e\<lparr> eng_held_pending_valid := (eng_held_pending_valid e \<and> source_id (eng_held_pending e) \<noteq> src) \<rparr>" by (cases e) auto
  have sel: "(case x of Some i \<Rightarrow> e1\<lparr> eng_seq_state := (eng_seq_state e1)[i := (eng_seq_state e1 ! i)\<lparr> ss_next_seq := 1 \<rparr>] \<rparr> | None \<Rightarrow> e1) =
      e1\<lparr> eng_seq_state := (case x of Some i \<Rightarrow> (eng_seq_state e1)[i := (eng_seq_state e1 ! i)\<lparr> ss_next_seq := 1 \<rparr>] | None \<Rightarrow> eng_seq_state e1) \<rparr>"
    for x and e1 :: delivery_engine by (simp split: option.split)
  have "DeliveryEngine_reset_peer_ordering e src = Some (?e2\<lparr> eng_events := er2 \<rparr>)"
    unfolding DeliveryEngine_reset_peer_ordering_def hv sel Let_def
    using inv(1) assms(2) ob(1) ak(1) rm(1) er1(1) er2(1) by (simp add: sq_def [symmetric] ts_def [symmetric] del: for_each.simps split del: if_split cong: option.case_cong if_cong)
  moreover have "er_contents er2 = newest (er_contents (eng_events e) @ replicate (n + m) (cancel_event e src))"
    unfolding er2(2) er1(3) newest_append by (simp add: replicate_add)
  moreover note reset_seq_state [of e src, folded sq_def]
  ultimately show ?thesis using ob(2,3) ak(2,3) rm(2,3) by (intro that [of er2 rm ak sq ob]) simp_all
qed



text \<open>The four timed operations refuse a clock that runs backwards: with a time before the last one seen they do
  nothing, whatever their other arguments are.\<close>

theorem clock_regression_refused:
  assumes "eng_initialized e" and "0 < now_us" and "now_us < eng_last_now_us e"
  shows "DeliveryEngine_send T e t env now_us = Some (ERR_INVALID, env, e, t) \<and>
    DeliveryEngine_receive T e t env timeout_ms now_us = Some (ERR_INVALID, env, e, t) \<and>
    DeliveryEngine_pump_retries T e t now_us = Some (0, e, t) \<and>
    DeliveryEngine_sweep_ack_timeouts e now_us = Some (0, e)"
proof -
  have "time_goes_back e now_us" using assms(2,3) by (simp add: time_goes_back_def)
  with assms(1,2) show ?thesis
    by (simp add: DeliveryEngine_send_def DeliveryEngine_receive_def DeliveryEngine_pump_retries_def
        DeliveryEngine_sweep_ack_timeouts_def)
qed

theorem clock_regression_refused_witness:
  "DeliveryEngine_receive queue_transport (eng_blank\<lparr> eng_initialized := True, eng_last_now_us := 8 \<rparr>) ([], []) envelope_init 0 7 =
    Some (ERR_INVALID, envelope_init, eng_blank\<lparr> eng_initialized := True, eng_last_now_us := 8 \<rparr>, ([], []))"
  using clock_regression_refused [of "eng_blank\<lparr> eng_initialized := True, eng_last_now_us := 8 \<rparr>" 7
      queue_transport "([], [])" envelope_init 0] by simp

section \<open>Sequence numbers\<close>

text \<open>The ordered messages to each destination are numbered consecutively, skipping 0 at the wrap-around,
  independently of the other destinations. A destination that finds no slot in the table of 32 gets the number 0, which
  means unordered.\<close>

theorem sequence_numbers_consecutive:
  assumes "eng_inv e" and "dst \<noteq> 0"
  shows "returns (DeliveryEngine_next_seq_for e dst) (\<lambda>(seq, e').
    if seq_table_full e dst then seq = 0 \<and> e' = e
    else seq = eng_next_seq e dst \<and> eng_next_seq e' dst = seq_succ seq \<and>
      (\<forall>d. d \<noteq> dst \<longrightarrow> eng_next_seq e' d = eng_next_seq e d))"
proof (cases "first_idx (\<lambda>x. ss_active x \<and> ss_dst x = dst) (eng_seq_state e)")
  case (Some i)
  note i = first_idx_SomeD [OF Some]
  let ?v = "(eng_seq_state e ! i)\<lparr> ss_next_seq := seq_succ (ss_next_seq (eng_seq_state e ! i)) \<rparr>"
  have upd: "eng_next_seq (e\<lparr> eng_seq_state := (eng_seq_state e)[i := ?v] \<rparr>) d = (if d = dst then ss_next_seq ?v else eng_next_seq e d)" for d
    using i first_idx_update_same [OF Some, of ?v] by (intro eng_next_seq_update) simp_all
  have "DeliveryEngine_next_seq_for e dst = Some (eng_next_seq e dst, e\<lparr> eng_seq_state := (eng_seq_state e)[i := ?v] \<rparr>)"
    using Some eng_invD(1) [OF assms(1)] assms(2)
    by (simp add: DeliveryEngine_next_seq_for_def eng_next_seq_def seq_succ_def Let_def)
  moreover have "\<not> seq_table_full e dst" using i by (auto simp: seq_table_full_def list_all_iff)
  moreover have "eng_next_seq e dst = ss_next_seq (eng_seq_state e ! i)" using Some by (simp add: eng_next_seq_def)
  ultimately show ?thesis using upd by simp
next
  case None
  show ?thesis
  proof (cases "first_idx (\<lambda>x. \<not> ss_active x) (eng_seq_state e)")
    case full: None
    with None have "seq_table_full e dst" by (auto simp: seq_table_full_def first_idx_None list_all_iff)
    with None full eng_invD(1) [OF assms(1)] assms(2) show ?thesis by (simp add: DeliveryEngine_next_seq_for_def)
  next
    case (Some i)
    note i = first_idx_SomeD [OF Some]
    let ?v = "\<lparr> ss_dst = dst, ss_next_seq = 2, ss_active = True \<rparr>"
    have upd: "eng_next_seq (e\<lparr> eng_seq_state := (eng_seq_state e)[i := ?v] \<rparr>) d = (if d = dst then ss_next_seq ?v else eng_next_seq e d)" for d
      using i first_idx_update_new [OF None, of i ?v] by (intro eng_next_seq_update) simp_all
    have "DeliveryEngine_next_seq_for e dst = Some (1, e\<lparr> eng_seq_state := (eng_seq_state e)[i := ?v] \<rparr>)"
      using None Some i eng_invD(1) [OF assms(1)] assms(2) by (simp add: DeliveryEngine_next_seq_for_def)
    moreover have "\<not> seq_table_full e dst" using i by (auto simp: seq_table_full_def list_all_iff)
    moreover have "eng_next_seq e dst = 1" using None by (simp add: eng_next_seq_def)
    ultimately show ?thesis using upd by (simp add: seq_succ_def)
  qed
qed

theorem sequence_numbers_consecutive_witness:
  "returns (do { (e, t) \<leftarrow> DeliveryEngine_init queue_transport eng_blank ([], []) (eng_cfg eng_blank) 9 True 5;
       (q, e') \<leftarrow> DeliveryEngine_next_seq_for e 7; Some (e, q, e') })
     (\<lambda>(e, q, e'). seq_table_full e 7 \<or> q = eng_next_seq e 7 \<and> eng_next_seq e' 7 = seq_succ q)"
proof (rule returns_mono [OF init_witness, THEN returns_bind [THEN iffD2]], clarsimp)
  fix e :: delivery_engine assume "eng_inv e"
  from sequence_numbers_consecutive [OF this, of 7]
  show "returns (DeliveryEngine_next_seq_for e 7) (\<lambda>(q, e'). seq_table_full e 7 \<or> q = eng_next_seq e 7 \<and> eng_next_seq e' 7 = seq_succ q)"
    by (auto elim!: returns_mono split: if_splits)
qed

section \<open>Inputs that trip an assertion\<close>

text \<open>Claim C9. Two frames that pass the deserializer abort the process when the transport delivers them: an
  acknowledgement addressed to node 0, which \<open>check_routing\<close> accepts as a broadcast, and a HELLO addressed to this node or to
  node 0. Whatever the state of the engine is, if it has no held message to deliver first and the transport reports no reconnect,
  \<open>receive\<close> does not return.\<close>

theorem engine_aborts_on_broadcast_ack:
  assumes "eng_inv e" and "now_us > 0" and "\<not> time_goes_back e now_us" and "\<not> eng_held_pending_valid e"
    and "tr_pop_hello_peer T t = Some (NODE_ID_INVALID, t1)" and "tr_receive_message T t1 envelope_init timeout_ms = Some (OK, f, t2)"
    and "envelope_valid f" and "fragment_index f = 0" and "fragment_count f \<le> 1"
    and "ucast (total_payload_length f) \<le> MSG_MAX_PAYLOAD_BYTES"
    and "\<not> timestamp_expired (expiry_time_us f) now_us"
    and "message_type f = ACK \<and> destination_id f = NODE_ID_INVALID \<or>
      message_type f = HELLO \<and> envelope_addressed_to f (eng_local_id e)"
  shows "DeliveryEngine_receive T e t env timeout_ms now_us = None"
proof -
  note init = eng_invD(1,2) [OF assms(1)]
  have src: "source_id f \<noteq> 0" using assms(7) by (simp add: envelope_valid_def)
  let ?e = "e\<lparr> eng_last_now_us := now_us \<rparr>"
  have dr: "DeliveryEngine_drain_hello_reconnects T ?e t = Some (?e, t1)"
    using init assms(5) by (simp add: DeliveryEngine_drain_hello_reconnects_def numeral_eq_Suc)
  have rx: "rx_initialized (eng_reassembly e)" using eng_invD(8) [OF assms(1)] by (simp add: rx_inv_def)
  have fc: "fragment_count f = 0 \<or> fragment_count f = 1"
    using assms(9) by unat_arith
  have tl: "\<not> 4096 < (ucast (total_payload_length f) :: u32)" using assms(10) by (simp add: not_less)
  have fr: "DeliveryEngine_handle_fragment_ingest ?e f envelope_init now_us = Some (OK, f, ?e)"
    using rx init assms(7-9) src fc tl
    by (auto simp: DeliveryEngine_handle_fragment_ingest_def ReassemblyBuffer_ingest_def ReassemblyBuffer_validate_metadata_def)
  have rt: "check_routing f (eng_local_id e) now_us = Some OK"
    using init assms(2,11,12) by (auto simp: check_routing_def envelope_addressed_to_def)
  have "(if envelope_is_control f
         then do { e \<leftarrow> DeliveryEngine_handle_control_message ?e f now_us; Some (OK, f, e, t2) }
         else do { nc_assert (envelope_is_data f); DeliveryEngine_handle_data_path T ?e t2 f now_us }) = None"
    using assms(2,12) init
    by (auto simp: envelope_is_control_def envelope_is_data_def DeliveryEngine_handle_control_message_def
        DeliveryEngine_update_latency_stats_def AckTracker_get_send_timestamp_def)
  with dr fr rt init assms show ?thesis
    by (simp add: DeliveryEngine_receive_def receive_from_transport_def)
qed

theorem engine_aborts_on_broadcast_ack_witness:
  "\<exists>e t. DeliveryEngine_init queue_transport eng_blank ([], []) (eng_cfg eng_blank) 9 True 5 = Some (e, t) \<and>
     DeliveryEngine_receive queue_transport e ([envelope_make_ack (data_message 0 9 5) 7 3], []) envelope_init 0 8 = None"
proof -
  let ?f = "envelope_make_ack (data_message 0 9 5) 7 3"
  from init_witness obtain e t where e: "DeliveryEngine_init queue_transport eng_blank ([], []) (eng_cfg eng_blank) 9 True 5 = Some (e, t)"
    "eng_inv e" "eng_last_now_us e = 0" "eng_stash e = {#}" by (auto elim!: returnsE)
  have h: "\<not> eng_held_pending_valid e" using e(4) by (auto simp: eng_stash_def)
  have f: "envelope_valid ?f" "message_type ?f = ACK" "destination_id ?f = 0" "fragment_index ?f = 0"
    "fragment_count ?f \<le> 1" "ucast (total_payload_length ?f) \<le> MSG_MAX_PAYLOAD_BYTES" "\<not> timestamp_expired (expiry_time_us ?f) 8"
    by (simp_all add: envelope_valid_def timestamp_expired_def) (simp_all add: envelope_make_ack_def envelope_init_def)
  have rcv: "tr_receive_message queue_transport ([?f], []) envelope_init 0 = Some (OK, ?f, ([], []))" by (simp add: queue_transport_def)
  have "DeliveryEngine_receive queue_transport e ([?f], []) envelope_init 0 8 = None"
    by (rule engine_aborts_on_broadcast_ack [OF e(2) _ _ h _ rcv f(1,4,5,6,7)])
      (simp_all add: time_goes_back_def e(3) queue_transport_def f)
  with e(1) show ?thesis by blast
qed

end
