(* ===== verification/Serializer.thy ===== *)
theory Serializer
  imports MessageEnvelope
begin

text \<open>
  \<open>src/core/Serializer.cpp\<close>: the big-endian wire format. A buffer is a byte list; the
  write helpers return the updated buffer and the next offset. The properties are the
  round trip in both directions and that no byte string, however malformed, fires an
  assertion in the deserializer.
\<close>

definition WIRE_HEADER_SIZE :: u32 where [simp]: "WIRE_HEADER_SIZE = 52"

section \<open>Endian-safe writes and reads\<close>

definition write_u8 :: "u8 list \<Rightarrow> nat \<Rightarrow> u8 \<Rightarrow> (u8 list \<times> nat) option" where
  "write_u8 buf offset val = do {
     nc_assert (offset \<le> 0xFFFFFFFF - 1);
     Some (buf[offset := val], offset + 1)
   }"

definition write_u32 :: "u8 list \<Rightarrow> nat \<Rightarrow> u32 \<Rightarrow> (u8 list \<times> nat) option" where
  "write_u32 buf offset val = do {
     nc_assert (offset \<le> 0xFFFFFFFF - 4);
     Some (buf[offset + 0 := ucast (drop_bit 24 val AND 0xFF),
               offset + 1 := ucast (drop_bit 16 val AND 0xFF),
               offset + 2 := ucast (drop_bit 8 val AND 0xFF),
               offset + 3 := ucast (drop_bit 0 val AND 0xFF)], offset + 4)
   }"

definition write_u64 :: "u8 list \<Rightarrow> nat \<Rightarrow> u64 \<Rightarrow> (u8 list \<times> nat) option" where
  "write_u64 buf offset val = do {
     nc_assert (offset \<le> 0xFFFFFFFF - 8);
     Some (buf[offset + 0 := ucast (drop_bit 56 val AND 0xFF),
               offset + 1 := ucast (drop_bit 48 val AND 0xFF),
               offset + 2 := ucast (drop_bit 40 val AND 0xFF),
               offset + 3 := ucast (drop_bit 32 val AND 0xFF),
               offset + 4 := ucast (drop_bit 24 val AND 0xFF),
               offset + 5 := ucast (drop_bit 16 val AND 0xFF),
               offset + 6 := ucast (drop_bit 8 val AND 0xFF),
               offset + 7 := ucast (drop_bit 0 val AND 0xFF)], offset + 8)
   }"

definition write_u16 :: "u8 list \<Rightarrow> nat \<Rightarrow> u16 \<Rightarrow> (u8 list \<times> nat) option" where
  "write_u16 buf offset val = do {
     nc_assert (offset \<le> 0xFFFFFFFF - 2);
     Some (buf[offset + 0 := ucast (drop_bit 8 val AND 0xFF),
               offset + 1 := ucast (drop_bit 0 val AND 0xFF)], offset + 2)
   }"

definition read_u8 :: "u8 list \<Rightarrow> nat \<Rightarrow> u8 option" where
  "read_u8 buf offset = do {
     nc_assert (offset \<le> 0xFFFFFFFF - 1);
     Some (buf ! offset)
   }"

definition read_u16 :: "u8 list \<Rightarrow> nat \<Rightarrow> u16 option" where
  "read_u16 buf offset = do {
     nc_assert (offset \<le> 0xFFFFFFFF - 2);
     Some (push_bit 8 (ucast (buf ! (offset + 0))) OR ucast (buf ! (offset + 1)))
   }"

definition read_u32 :: "u8 list \<Rightarrow> nat \<Rightarrow> u32 option" where
  "read_u32 buf offset = do {
     nc_assert (offset \<le> 0xFFFFFFFF - 4);
     Some (push_bit 24 (ucast (buf ! (offset + 0))) OR
           push_bit 16 (ucast (buf ! (offset + 1))) OR
           push_bit 8 (ucast (buf ! (offset + 2))) OR
           push_bit 0 (ucast (buf ! (offset + 3))))
   }"

definition read_u64 :: "u8 list \<Rightarrow> nat \<Rightarrow> u64 option" where
  "read_u64 buf offset = do {
     nc_assert (offset \<le> 0xFFFFFFFF - 8);
     Some (push_bit 56 (ucast (buf ! (offset + 0))) OR
           push_bit 48 (ucast (buf ! (offset + 1))) OR
           push_bit 40 (ucast (buf ! (offset + 2))) OR
           push_bit 32 (ucast (buf ! (offset + 3))) OR
           push_bit 24 (ucast (buf ! (offset + 4))) OR
           push_bit 16 (ucast (buf ! (offset + 5))) OR
           push_bit 8 (ucast (buf ! (offset + 6))) OR
           push_bit 0 (ucast (buf ! (offset + 7))))
   }"

section \<open>Serialization\<close>

text \<open>The result is the code's \<open>Result\<close>, the buffer and \<open>out_len\<close>; the last two are returned as
  they stand at each exit.\<close>

definition serialize ::
    "envelope \<Rightarrow> u8 list \<Rightarrow> u32 \<Rightarrow> u32 \<Rightarrow> (Result \<times> u8 list \<times> u32) option" where
  "serialize env buf buf_len out_len =
     (if \<not> envelope_valid env then Some (ERR_INVALID, buf, out_len)
      else if payload_length env > - 1 - WIRE_HEADER_SIZE then Some (ERR_INVALID, buf, out_len)
      else let required_len = WIRE_HEADER_SIZE + payload_length env in
      if buf_len < required_len then Some (ERR_INVALID, buf, out_len)
      else do {
        (buf, offset) \<leftarrow> write_u8 buf 0 (message_type_byte (message_type env));
        (buf, offset) \<leftarrow> write_u8 buf offset (reliability_class_byte (reliability_class env));
        (buf, offset) \<leftarrow> write_u8 buf offset (priority env);
        (buf, offset) \<leftarrow> write_u8 buf offset PROTO_VERSION;
        (buf, offset) \<leftarrow> write_u64 buf offset (message_id env);
        (buf, offset) \<leftarrow> write_u64 buf offset (timestamp_us env);
        (buf, offset) \<leftarrow> write_u32 buf offset (source_id env);
        (buf, offset) \<leftarrow> write_u32 buf offset (destination_id env);
        (buf, offset) \<leftarrow> write_u64 buf offset (expiry_time_us env);
        (buf, offset) \<leftarrow> write_u32 buf offset (payload_length env);
        (buf, offset) \<leftarrow> write_u32 buf offset (push_bit 16 (ucast PROTO_MAGIC));
        let wire_frag_count = (if fragment_count env = 0 then 1 else fragment_count env);
        if payload_length env > 0xFFFF then Some (ERR_INVALID, buf, out_len)
        else do {
          nc_assert (payload_length env \<le> 0xFFFF);
          let wire_total_pl = (if total_payload_length env = 0 then ucast (payload_length env)
                               else total_payload_length env);
          (buf, offset) \<leftarrow> write_u32 buf offset (sequence_num env);
          (buf, offset) \<leftarrow> write_u8 buf offset (fragment_index env);
          (buf, offset) \<leftarrow> write_u8 buf offset wire_frag_count;
          (buf, offset) \<leftarrow> write_u16 buf offset wire_total_pl;
          nc_assert (offset = unat WIRE_HEADER_SIZE);
          nc_assert (offset + unat (payload_length env) \<le> unat buf_len);
          let buf = (if payload_length env > 0
                     then blit buf offset (take (unat (payload_length env)) (payload env))
                     else buf);
          let out_len = required_len;
          nc_assert (out_len = WIRE_HEADER_SIZE + payload_length env);
          nc_assert (out_len \<ge> WIRE_HEADER_SIZE);
          Some (OK, buf, out_len)
        }
      })"

section \<open>Deserialization\<close>

definition message_type_in_range :: "u8 \<Rightarrow> bool" where
  "message_type_in_range raw = (raw \<le> 4)"

definition reliability_class_in_range :: "u8 \<Rightarrow> bool" where
  "reliability_class_in_range raw = (raw \<le> 2)"

definition fragment_header_valid :: "envelope \<Rightarrow> bool" where
  "fragment_header_valid env =
     (if fragment_count env = 0 then False
      else if fragment_index env \<ge> fragment_count env then False
      else if ucast (fragment_count env) > FRAG_MAX_COUNT then False
      else ucast (total_payload_length env) \<le> MSG_MAX_PAYLOAD_BYTES)"

definition payload_length_valid :: "u32 \<Rightarrow> u32 \<Rightarrow> bool option" where
  "payload_length_valid plen buf_len = do {
     nc_assert (buf_len \<ge> WIRE_HEADER_SIZE);
     if plen > MSG_MAX_PAYLOAD_BYTES then Some False
     else if plen > - 1 - WIRE_HEADER_SIZE then Some False
     else do {
       nc_assert (plen + WIRE_HEADER_SIZE \<ge> WIRE_HEADER_SIZE);
       Some (buf_len \<ge> WIRE_HEADER_SIZE + plen)
     }
   }"

definition deserialize ::
    "u8 list \<Rightarrow> u32 \<Rightarrow> envelope \<Rightarrow> (Result \<times> envelope) option" where
  "deserialize buf buf_len env0 =
     (if buf_len < WIRE_HEADER_SIZE then Some (ERR_INVALID, env0)
      else do {
        let env = envelope_init;
        mt_raw \<leftarrow> read_u8 buf 0;
        if \<not> message_type_in_range mt_raw then Some (ERR_INVALID, env) else do {
        let env = env\<lparr> message_type := message_type_of mt_raw \<rparr>;
        rc_raw \<leftarrow> read_u8 buf 1;
        if \<not> reliability_class_in_range rc_raw then Some (ERR_INVALID, env) else do {
        let env = env\<lparr> reliability_class := reliability_class_of rc_raw \<rparr>;
        v \<leftarrow> read_u8 buf 2;
        let env = env\<lparr> priority := v \<rparr>;
        proto_ver \<leftarrow> read_u8 buf 3;
        if proto_ver \<noteq> PROTO_VERSION then Some (ERR_INVALID, env) else do {
        v \<leftarrow> read_u64 buf 4;
        let env = env\<lparr> message_id := v \<rparr>;
        v \<leftarrow> read_u64 buf 12;
        let env = env\<lparr> timestamp_us := v \<rparr>;
        v \<leftarrow> read_u32 buf 20;
        let env = env\<lparr> source_id := v \<rparr>;
        if source_id env = NODE_ID_INVALID then Some (ERR_INVALID, env) else do {
        v \<leftarrow> read_u32 buf 24;
        let env = env\<lparr> destination_id := v \<rparr>;
        v \<leftarrow> read_u64 buf 28;
        let env = env\<lparr> expiry_time_us := v \<rparr>;
        v \<leftarrow> read_u32 buf 36;
        let env = env\<lparr> payload_length := v \<rparr>;
        magic_word \<leftarrow> read_u32 buf 40;
        if magic_word \<noteq> push_bit 16 (ucast PROTO_MAGIC) then Some (ERR_INVALID, env) else do {
        v \<leftarrow> read_u32 buf 44;
        let env = env\<lparr> sequence_num := v \<rparr>;
        v \<leftarrow> read_u8 buf 48;
        let env = env\<lparr> fragment_index := v \<rparr>;
        v \<leftarrow> read_u8 buf 49;
        let env = env\<lparr> fragment_count := v \<rparr>;
        v \<leftarrow> read_u16 buf 50;
        let env = env\<lparr> total_payload_length := v \<rparr>;
        if \<not> fragment_header_valid env then Some (ERR_INVALID, env) else do {
        ok \<leftarrow> payload_length_valid (payload_length env) buf_len;
        if \<not> ok then Some (ERR_INVALID, env) else do {
        let n = unat (payload_length env);
        let env = (if payload_length env > 0
                   then env\<lparr> payload := blit (payload env) 0 (take n (drop 52 buf)) \<rparr>
                   else env);
        nc_assert (envelope_valid env);
        Some (OK, env)
        }}}}}}}
      })"

section \<open>Byte images\<close>

text \<open>The bytes a write helper stores, most significant first.\<close>

definition be16 :: "u16 \<Rightarrow> u8 list" where
  "be16 v = [ucast (drop_bit 8 v), ucast (drop_bit 0 v)]"

definition be32 :: "u32 \<Rightarrow> u8 list" where
  "be32 v = [ucast (drop_bit 24 v), ucast (drop_bit 16 v), ucast (drop_bit 8 v), ucast (drop_bit 0 v)]"

definition be64 :: "u64 \<Rightarrow> u8 list" where
  "be64 v = [ucast (drop_bit 56 v), ucast (drop_bit 48 v), ucast (drop_bit 40 v), ucast (drop_bit 32 v),
             ucast (drop_bit 24 v), ucast (drop_bit 16 v), ucast (drop_bit 8 v), ucast (drop_bit 0 v)]"

definition wire_frag_count :: "envelope \<Rightarrow> u8" where
  "wire_frag_count env = (if fragment_count env = 0 then 1 else fragment_count env)"

definition wire_total_pl :: "envelope \<Rightarrow> u16" where
  "wire_total_pl env =
     (if total_payload_length env = 0 then ucast (payload_length env) else total_payload_length env)"

text \<open>The 52 header bytes of an envelope, and what a receiver reconstructs from a frame: the
  same fields, with the two "unset" encodings of an unfragmented message replaced by their wire
  values and the unused payload bytes cleared.\<close>

definition header_bytes :: "envelope \<Rightarrow> u8 list" where
  "header_bytes env =
     [message_type_byte (message_type env), reliability_class_byte (reliability_class env),
      priority env, PROTO_VERSION] @
     be64 (message_id env) @ be64 (timestamp_us env) @ be32 (source_id env) @
     be32 (destination_id env) @ be64 (expiry_time_us env) @ be32 (payload_length env) @
     be32 (push_bit 16 (ucast PROTO_MAGIC)) @ be32 (sequence_num env) @
     [fragment_index env, wire_frag_count env] @ be16 (wire_total_pl env)"

definition wire_image :: "envelope \<Rightarrow> envelope" where
  "wire_image env = env\<lparr> fragment_count := wire_frag_count env,
     total_payload_length := wire_total_pl env,
     payload := payload_bytes env @ replicate (payload_capacity - unat (payload_length env)) 0 \<rparr>"

text \<open>What \<open>deserialize\<close> reads before it validates anything, as one envelope.\<close>

definition raw_envelope :: "u8 list \<Rightarrow> envelope" where
  "raw_envelope B = envelope_init\<lparr>
     message_type := message_type_of (the (read_u8 B 0)),
     reliability_class := reliability_class_of (the (read_u8 B 1)),
     priority := the (read_u8 B 2),
     message_id := the (read_u64 B 4),
     timestamp_us := the (read_u64 B 12),
     source_id := the (read_u32 B 20),
     destination_id := the (read_u32 B 24),
     expiry_time_us := the (read_u64 B 28),
     payload_length := the (read_u32 B 36),
     sequence_num := the (read_u32 B 44),
     fragment_index := the (read_u8 B 48),
     fragment_count := the (read_u8 B 49),
     total_payload_length := the (read_u16 B 50) \<rparr>"

definition frame_accepted :: "u8 list \<Rightarrow> u32 \<Rightarrow> bool" where
  "frame_accepted B buf_len \<longleftrightarrow>
     buf_len \<ge> WIRE_HEADER_SIZE \<and>
     message_type_in_range (the (read_u8 B 0)) \<and>
     reliability_class_in_range (the (read_u8 B 1)) \<and>
     the (read_u8 B 3) = PROTO_VERSION \<and>
     the (read_u32 B 20) \<noteq> NODE_ID_INVALID \<and>
     the (read_u32 B 40) = push_bit 16 (ucast PROTO_MAGIC) \<and>
     fragment_header_valid (raw_envelope B) \<and>
     payload_length (raw_envelope B) \<le> MSG_MAX_PAYLOAD_BYTES \<and>
     52 + unat (payload_length (raw_envelope B)) \<le> unat buf_len"

definition accepted_envelope :: "u8 list \<Rightarrow> envelope" where
  "accepted_envelope B = (raw_envelope B)\<lparr> payload :=
     blit (replicate payload_capacity 0) 0
       (take (unat (payload_length (raw_envelope B))) (drop 52 B)) \<rparr>"

section \<open>Bytes and words\<close>

lemma byte_mask: "(ucast (x AND 0xFF) :: u8) = ucast (x :: 'a::len word)"
proof (rule bit_word_eqI)
  fix n assume "n < LENGTH(8)"
  have m: "(0xFF :: 'a word) = mask 8" by (simp add: mask_eq_decr_exp)
  show "bit (ucast (x AND 0xFF) :: u8) n = bit (ucast x :: u8) n"
    unfolding m by (auto simp: bit_ucast_iff bit_and_iff bit_mask_iff dest: bit_imp_le_length)
qed

lemma bit_byte: "bit (push_bit k (ucast (ucast (drop_bit k v) :: u8)) :: 'a::len word) n \<longleftrightarrow>
   n < LENGTH('a) \<and> k \<le> n \<and> n < k + 8 \<and> bit (v :: 'a word) n"
  by (auto simp: bit_push_bit_iff bit_ucast_iff bit_drop_bit_eq)

lemma join16: 
  "push_bit 8 (ucast (ucast (drop_bit 8 v) :: u8)) OR
   push_bit 0 (ucast (ucast (drop_bit 0 v) :: u8)) = (v :: u16)"
  by (rule bit_word_eqI) (simp add: bit_or_iff bit_byte del: push_bit_0_id drop_bit_0, arith)

lemma join32: 
  "push_bit 24 (ucast (ucast (drop_bit 24 v) :: u8)) OR
   push_bit 16 (ucast (ucast (drop_bit 16 v) :: u8)) OR
   push_bit 8 (ucast (ucast (drop_bit 8 v) :: u8)) OR
   push_bit 0 (ucast (ucast (drop_bit 0 v) :: u8)) = (v :: u32)"
  by (rule bit_word_eqI) (simp add: bit_or_iff bit_byte del: push_bit_0_id drop_bit_0, arith)

lemma join64: 
  "push_bit 56 (ucast (ucast (drop_bit 56 v) :: u8)) OR
   push_bit 48 (ucast (ucast (drop_bit 48 v) :: u8)) OR
   push_bit 40 (ucast (ucast (drop_bit 40 v) :: u8)) OR
   push_bit 32 (ucast (ucast (drop_bit 32 v) :: u8)) OR
   push_bit 24 (ucast (ucast (drop_bit 24 v) :: u8)) OR
   push_bit 16 (ucast (ucast (drop_bit 16 v) :: u8)) OR
   push_bit 8 (ucast (ucast (drop_bit 8 v) :: u8)) OR
   push_bit 0 (ucast (ucast (drop_bit 0 v) :: u8)) = (v :: u64)"
  by (rule bit_word_eqI) (simp add: bit_or_iff bit_byte del: push_bit_0_id drop_bit_0, arith)

lemma split_byte: "(ucast (drop_bit j (push_bit k (ucast (b::u8)) :: 'a::len word)) :: u8) =
   (if j = k \<and> k + 8 \<le> LENGTH('a) then b else if j + 8 \<le> k \<or> k + 8 \<le> j then 0 else ucast (drop_bit j (push_bit k (ucast (b::u8)) :: 'a::len word)))"
  by (rule bit_word_eqI) (auto simp: bit_push_bit_iff bit_ucast_iff bit_drop_bit_eq dest: bit_imp_le_length)

lemma ucast_or: "ucast (a OR b) = ucast a OR (ucast b :: 'b::len word)" for a :: "'a::len word"
  by (rule bit_word_eqI) (auto simp: bit_ucast_iff bit_or_iff)

lemma split16:
  fixes b0 b1 :: u8
  defines "v \<equiv> push_bit 8 (ucast b0) OR
      push_bit 0 (ucast b1) :: u16"
  shows "ucast (drop_bit 8 v) = b0" "ucast (drop_bit 0 v) = b1"
  unfolding v_def
  by (simp_all add: drop_bit_or ucast_or split_byte del: push_bit_0_id drop_bit_0 drop_bit_push_bit)

lemma split32:
  fixes b0 b1 b2 b3 :: u8
  defines "v \<equiv> push_bit 24 (ucast b0) OR
      push_bit 16 (ucast b1) OR
      push_bit 8 (ucast b2) OR
      push_bit 0 (ucast b3) :: u32"
  shows "ucast (drop_bit 24 v) = b0" "ucast (drop_bit 16 v) = b1" "ucast (drop_bit 8 v) = b2" "ucast (drop_bit 0 v) = b3"
  unfolding v_def
  by (simp_all add: drop_bit_or ucast_or split_byte del: push_bit_0_id drop_bit_0 drop_bit_push_bit)

lemma split64:
  fixes b0 b1 b2 b3 b4 b5 b6 b7 :: u8
  defines "v \<equiv> push_bit 56 (ucast b0) OR
      push_bit 48 (ucast b1) OR
      push_bit 40 (ucast b2) OR
      push_bit 32 (ucast b3) OR
      push_bit 24 (ucast b4) OR
      push_bit 16 (ucast b5) OR
      push_bit 8 (ucast b6) OR
      push_bit 0 (ucast b7) :: u64"
  shows "ucast (drop_bit 56 v) = b0" "ucast (drop_bit 48 v) = b1" "ucast (drop_bit 40 v) = b2" "ucast (drop_bit 32 v) = b3" "ucast (drop_bit 24 v) = b4" "ucast (drop_bit 16 v) = b5" "ucast (drop_bit 8 v) = b6" "ucast (drop_bit 0 v) = b7"
  unfolding v_def
  by (simp_all add: drop_bit_or ucast_or split_byte del: push_bit_0_id drop_bit_0 drop_bit_push_bit)

lemma length_be [simp]: "length (be16 a) = 2" "length (be32 b) = 4" "length (be64 c) = 8"
  by (simp_all add: be16_def be32_def be64_def)

lemma length_header_bytes [simp]: "length (header_bytes env) = 52"
  by (simp add: header_bytes_def)

section \<open>Writing is blitting\<close>

lemma list_update_blit:
  "off < length buf \<Longrightarrow> buf[off := v] = blit buf off [v]"
  by (simp add: blit_def upd_conv_take_nth_drop)

lemma blit_append:
  "n = off + length xs \<Longrightarrow> off + length xs + length ys \<le> length buf \<Longrightarrow>
   blit (blit buf off xs) n ys = blit buf off (xs @ ys)"
  by (cases xs) (auto simp: blit_def min_def ac_simps)

lemma blits_append:
  "off + length xs + length ys \<le> length buf \<Longrightarrow>
   blit (blit buf off xs) (off + length xs) ys = blit buf off (xs @ ys)"
  by (rule blit_append) simp_all

lemma write_u8_blit:
  "off < length buf \<Longrightarrow> off \<le> 0xFFFFFFFF - 1 \<Longrightarrow>
   write_u8 buf off v = Some (blit buf off [v], off + 1)"
  by (simp add: write_u8_def list_update_blit)

lemma write_u16_blit:
  "off + 2 \<le> length buf \<Longrightarrow> off \<le> 0xFFFFFFFF - 2 \<Longrightarrow>
   write_u16 buf off v = Some (blit buf off (be16 v), off + 2)"
  by (simp add: write_u16_def byte_mask list_update_blit be16_def blit_append)

lemma write_u32_blit:
  "off + 4 \<le> length buf \<Longrightarrow> off \<le> 0xFFFFFFFF - 4 \<Longrightarrow>
   write_u32 buf off v = Some (blit buf off (be32 v), off + 4)"
  by (simp add: write_u32_def byte_mask list_update_blit be32_def blit_append)

lemma write_u64_blit:
  "off + 8 \<le> length buf \<Longrightarrow> off \<le> 0xFFFFFFFF - 8 \<Longrightarrow>
   write_u64 buf off v = Some (blit buf off (be64 v), off + 8)"
  by (simp add: write_u64_def byte_mask list_update_blit be64_def blit_append)

lemmas write_blit = write_u8_blit write_u16_blit write_u32_blit write_u64_blit

lemma payload_length_u16:
  "payload_length env \<le> 4096 \<Longrightarrow> payload_length env \<le> 0xFFFF"
  by (erule order_trans) simp

lemma required_len:
  assumes "n \<le> (4096 :: u32)"
  shows "unat (52 + n) = 52 + unat n" and "52 \<le> 52 + n" and "\<not> - 53 < n"
proof -
  from assms have "unat n \<le> 4096" by (simp add: word_le_nat_alt)
  then show "unat (52 + n) = 52 + unat n" by (simp add: unat_word_ariths)
  then show "52 \<le> 52 + n" by (simp add: word_le_nat_alt)
  have "(4096 :: u32) \<le> - 53" by (simp add: word_le_nat_alt)
  with assms have "n \<le> - 53" by (rule order_trans)
  then show "\<not> - 53 < n" by simp
qed

text \<open>A successful \<open>serialize\<close> writes exactly the header and the used payload at the front
  of the buffer, and leaves the rest of the buffer as it was.\<close>

lemma serialize_writes:
  assumes "env_wf env" and "envelope_valid env"
    and "52 + unat (payload_length env) \<le> unat buf_len" and "unat buf_len \<le> length buf"
  shows "serialize env buf buf_len out_len =
    Some (OK, blit buf 0 (header_bytes env @ payload_bytes env), 52 + payload_length env)"
proof -
  have le: "payload_length env \<le> 4096" using assms(2) by (simp add: envelope_valid_def)
  note r = required_len [OF le]
  have b: "\<not> buf_len < 52 + payload_length env" using assms(3) r(1) by (simp add: word_less_nat_alt)
  have len: "52 + unat (payload_length env) \<le> length buf" using assms(3,4) by simp
  have pl: "length (payload_bytes env) = unat (payload_length env)"
    using assms(1) le by (simp add: length_payload_bytes)
  have l52: "52 \<le> length buf" and ne: "buf \<noteq> []" using len by auto
  show ?thesis
  proof (cases "payload_length env = 0")
    case True
    then show ?thesis using assms(2,3) r b l52 ne le payload_length_u16 [OF le]
      by (simp add: serialize_def Let_def write_blit blit_append header_bytes_def wire_frag_count_def
          wire_total_pl_def payload_bytes_def)
  next
    case False
    then have "0 < payload_length env" by (simp add: word_gt_0)
    then show ?thesis using assms(2,3) r b l52 ne le payload_length_u16 [OF le] len pl
      by (simp add: serialize_def Let_def write_blit blit_append header_bytes_def wire_frag_count_def
          wire_total_pl_def payload_bytes_def)
  qed
qed

section \<open>Reading is the inverse of writing\<close>

lemma read_u8_iff:
  assumes "off < length B" and "off \<le> 0xFFFFFFFF - 1"
  shows "read_u8 B off = Some v \<longleftrightarrow> take (Suc 0) (drop off B) = [v]"
  using assms by (auto simp: read_u8_def take_Suc hd_drop_conv_nth)

lemma join16_iff:
  fixes b0 b1 :: u8
  shows "push_bit 8 (ucast b0) OR ucast b1 = (v :: u16) \<longleftrightarrow> [b0, b1] = be16 v"
  using join16 [of v] split16 [of b0 b1] by (auto simp: be16_def)

lemma read_u16_iff:
  assumes "off + 2 \<le> length B" and "off \<le> 0xFFFFFFFF - 2"
  shows "read_u16 B off = Some v \<longleftrightarrow> take 2 (drop off B) = be16 v"
proof -
  have "take 2 (drop off B) = map (\<lambda>i. B ! (off + i)) [0, 1]"
    using assms(1) by (intro nth_equalityI) (auto simp: nth_Cons less_Suc_eq numeral_eq_Suc split: nat.splits)
  then show ?thesis
    using assms(2) by (simp add: read_u16_def join16_iff)
qed

lemma join32_iff:
  fixes b0 b1 b2 b3 :: u8
  shows "push_bit 24 (ucast b0) OR push_bit 16 (ucast b1) OR push_bit 8 (ucast b2) OR ucast b3 = (v :: u32) \<longleftrightarrow> [b0, b1, b2, b3] = be32 v"
  using join32 [of v] split32 [of b0 b1 b2 b3] by (auto simp: be32_def)

lemma read_u32_iff:
  assumes "off + 4 \<le> length B" and "off \<le> 0xFFFFFFFF - 4"
  shows "read_u32 B off = Some v \<longleftrightarrow> take 4 (drop off B) = be32 v"
proof -
  have "take 4 (drop off B) = map (\<lambda>i. B ! (off + i)) [0, 1, 2, 3]"
    using assms(1) by (intro nth_equalityI) (auto simp: nth_Cons less_Suc_eq numeral_eq_Suc split: nat.splits)
  then show ?thesis
    using assms(2) by (simp add: read_u32_def join32_iff)
qed

lemma join64_iff:
  fixes b0 b1 b2 b3 b4 b5 b6 b7 :: u8
  shows "push_bit 56 (ucast b0) OR push_bit 48 (ucast b1) OR push_bit 40 (ucast b2) OR push_bit 32 (ucast b3) OR push_bit 24 (ucast b4) OR push_bit 16 (ucast b5) OR push_bit 8 (ucast b6) OR ucast b7 = (v :: u64) \<longleftrightarrow> [b0, b1, b2, b3, b4, b5, b6, b7] = be64 v"
  using join64 [of v] split64 [of b0 b1 b2 b3 b4 b5 b6 b7] by (auto simp: be64_def)

lemma read_u64_iff:
  assumes "off + 8 \<le> length B" and "off \<le> 0xFFFFFFFF - 8"
  shows "read_u64 B off = Some v \<longleftrightarrow> take 8 (drop off B) = be64 v"
proof -
  have "take 8 (drop off B) = map (\<lambda>i. B ! (off + i)) [0, 1, 2, 3, 4, 5, 6, 7]"
    using assms(1) by (intro nth_equalityI) (auto simp: nth_Cons less_Suc_eq numeral_eq_Suc split: nat.splits)
  then show ?thesis
    using assms(2) by (simp add: read_u64_def join64_iff)
qed

lemma read_total:
  "off \<le> 0xFFFFFFFF - 8 \<Longrightarrow> \<exists>v. read_u8 B off = Some v"
  "off \<le> 0xFFFFFFFF - 8 \<Longrightarrow> \<exists>v. read_u16 B off = Some v"
  "off \<le> 0xFFFFFFFF - 8 \<Longrightarrow> \<exists>v. read_u32 B off = Some v"
  "off \<le> 0xFFFFFFFF - 8 \<Longrightarrow> \<exists>v. read_u64 B off = Some v"
  by (simp_all add: read_u8_def read_u16_def read_u32_def read_u64_def)

lemma payload_length_valid_eq:
  assumes "buf_len \<ge> 52"
  shows "payload_length_valid plen buf_len = Some (plen \<le> 4096 \<and> 52 + unat plen \<le> unat buf_len)"
proof (cases "plen \<le> 4096")
  case True
  note r = required_len [OF True]
  have "52 \<le> plen + 52" using r(2) by (simp add: add.commute)
  then show ?thesis
    using assms True r by (simp add: payload_length_valid_def word_le_nat_alt word_less_nat_alt)
next
  case False
  then show ?thesis using assms by (simp add: payload_length_valid_def not_le)
qed

lemma fragment_header_valid_iff:
  "fragment_header_valid e \<longleftrightarrow> fragment_count e \<noteq> 0 \<and> fragment_index e < fragment_count e \<and>
     ucast (fragment_count e) \<le> FRAG_MAX_COUNT \<and> ucast (total_payload_length e) \<le> MSG_MAX_PAYLOAD_BYTES"
  by (auto simp: fragment_header_valid_def)

lemma message_type_range_cases:
  "message_type_in_range b \<Longrightarrow> b = 0 \<or> b = 1 \<or> b = 2 \<or> b = 3 \<or> b = 4"
proof -
  assume "message_type_in_range b"
  then have "b \<le> 4" by (simp add: message_type_in_range_def)
  then have "unat b \<le> 4" by (simp add: word_le_nat_alt)
  then have "unat b = 0 \<or> unat b = 1 \<or> unat b = 2 \<or> unat b = 3 \<or> unat b = 4" by arith
  then show ?thesis by (simp add: word_unat_eq_iff)
qed

lemma message_type_in_range_valid: "message_type_in_range b \<Longrightarrow> message_type_of b \<noteq> INVALID"
  by (drule message_type_range_cases) (auto simp: message_type_of_def)

lemma deserialize_spec:
  "if frame_accepted B buf_len
   then deserialize B buf_len env0 = Some (OK, accepted_envelope B)
   else (\<exists>e. deserialize B buf_len env0 = Some (ERR_INVALID, e))"
proof -
  have "\<exists>v. read_u8 B 0 = Some v" "\<exists>v. read_u8 B (Suc 0) = Some v" "\<exists>v. read_u8 B 2 = Some v"
    "\<exists>v. read_u8 B 3 = Some v" "\<exists>v. read_u64 B 4 = Some v" "\<exists>v. read_u64 B 12 = Some v"
    "\<exists>v. read_u32 B 20 = Some v" "\<exists>v. read_u32 B 24 = Some v" "\<exists>v. read_u64 B 28 = Some v"
    "\<exists>v. read_u32 B 36 = Some v" "\<exists>v. read_u32 B 40 = Some v" "\<exists>v. read_u32 B 44 = Some v"
    "\<exists>v. read_u8 B 48 = Some v" "\<exists>v. read_u8 B 49 = Some v" "\<exists>v. read_u16 B 50 = Some v"
    by (simp_all add: read_total)
  then obtain mt rc pr ver id ts src dst ex pl mg sq fi fc tp where
    rd: "read_u8 B 0 = Some mt" "read_u8 B (Suc 0) = Some rc" "read_u8 B 2 = Some pr"
      "read_u8 B 3 = Some ver" "read_u64 B 4 = Some id" "read_u64 B 12 = Some ts"
      "read_u32 B 20 = Some src" "read_u32 B 24 = Some dst" "read_u64 B 28 = Some ex"
      "read_u32 B 36 = Some pl" "read_u32 B 40 = Some mg" "read_u32 B 44 = Some sq"
      "read_u8 B 48 = Some fi" "read_u8 B 49 = Some fc" "read_u16 B 50 = Some tp"
    by blast
  have pv: "buf_len \<ge> 52 \<Longrightarrow> payload_length_valid pl buf_len = Some (pl \<le> 4096 \<and> 52 + unat pl \<le> unat buf_len)"
    by (rule payload_length_valid_eq)
  have acc: "frame_accepted B buf_len \<longleftrightarrow> 52 \<le> buf_len \<and> message_type_in_range mt \<and>
     reliability_class_in_range rc \<and> ver = 2 \<and> src \<noteq> 0 \<and> mg = push_bit 16 (ucast PROTO_MAGIC) \<and>
     fragment_header_valid (raw_envelope B) \<and> pl \<le> 4096 \<and> 52 + unat pl \<le> unat buf_len"
    by (simp add: frame_accepted_def raw_envelope_def rd)
  have fh: "fragment_header_valid (raw_envelope B) \<longleftrightarrow> fc \<noteq> 0 \<and> fi < fc \<and> ucast fc \<le> (4::u32) \<and> ucast tp \<le> (4096 :: u32)"
    by (simp add: fragment_header_valid_iff raw_envelope_def rd)
  show ?thesis
  proof (cases "frame_accepted B buf_len")
    case True
    with acc have "\<not> buf_len < 52" by (simp add: not_less)
    with True acc fh message_type_in_range_valid [of mt] show ?thesis
      by (simp add: word_gt_0 deserialize_def rd Let_def pv fragment_header_valid_iff accepted_envelope_def raw_envelope_def envelope_valid_def envelope_init_def)
  next
    case False
    with acc fh show ?thesis
      by (auto simp: deserialize_def rd Let_def pv fragment_header_valid_iff)
  qed
qed

lemma read_of_take:
  assumes "take 52 B = H" and "length H = 52"
  shows "off < 52 \<Longrightarrow> read_u8 B off = Some (H ! off)"
    and "off + 2 \<le> 52 \<Longrightarrow> take 2 (drop off H) = be16 v16 \<Longrightarrow> read_u16 B off = Some v16"
    and "off + 4 \<le> 52 \<Longrightarrow> take 4 (drop off H) = be32 v32 \<Longrightarrow> read_u32 B off = Some v32"
    and "off + 8 \<le> 52 \<Longrightarrow> take 8 (drop off H) = be64 v64 \<Longrightarrow> read_u64 B off = Some v64"
proof -
  have len: "52 \<le> length B" using assms by (metis length_take min.cobounded2 nat_le_linear min_def)
  have sl: "k + off \<le> 52 \<Longrightarrow> take k (drop off H) = take k (drop off B)" for k off :: nat
    unfolding assms(1) [symmetric] by (simp add: drop_take min_def)
  show "off < 52 \<Longrightarrow> read_u8 B off = Some (H ! off)"
    unfolding assms(1) [symmetric] by (simp add: read_u8_def)
  show "off + 2 \<le> 52 \<Longrightarrow> take 2 (drop off H) = be16 v16 \<Longrightarrow> read_u16 B off = Some v16"
    using len sl [of 2 off] by (subst read_u16_iff) auto
  show "off + 4 \<le> 52 \<Longrightarrow> take 4 (drop off H) = be32 v32 \<Longrightarrow> read_u32 B off = Some v32"
    using len sl [of 4 off] by (subst read_u32_iff) auto
  show "off + 8 \<le> 52 \<Longrightarrow> take 8 (drop off H) = be64 v64 \<Longrightarrow> read_u64 B off = Some v64"
    using len sl [of 8 off] by (subst read_u64_iff) auto
qed

lemma read_header_bytes:
  assumes "take 52 B = header_bytes env"
  shows "read_u8 B 0 = Some (message_type_byte (message_type env))"
    "read_u8 B (Suc 0) = Some (reliability_class_byte (reliability_class env))"
    "read_u8 B 2 = Some (priority env)" "read_u8 B 3 = Some PROTO_VERSION"
    "read_u64 B 4 = Some (message_id env)" "read_u64 B 12 = Some (timestamp_us env)"
    "read_u32 B 20 = Some (source_id env)" "read_u32 B 24 = Some (destination_id env)"
    "read_u64 B 28 = Some (expiry_time_us env)" "read_u32 B 36 = Some (payload_length env)"
    "read_u32 B 40 = Some (push_bit 16 (ucast PROTO_MAGIC))" "read_u32 B 44 = Some (sequence_num env)"
    "read_u8 B 48 = Some (fragment_index env)" "read_u8 B 49 = Some (wire_frag_count env)"
    "read_u16 B 50 = Some (wire_total_pl env)"
  by (simp_all add: read_of_take [OF assms length_header_bytes] header_bytes_def nth_append)

lemma accepted_header:
  assumes "take 52 B = header_bytes env" and "take (unat (payload_length env)) (drop 52 B) = payload_bytes env"
    and "env_wf env" and "envelope_valid env"
    and "fragment_header_valid (wire_image env)" and "52 + unat (payload_length env) \<le> unat buf_len"
  shows "frame_accepted B buf_len \<and> accepted_envelope B = wire_image env"
proof -
  note rd = read_header_bytes [OF assms(1)]
  have le: "payload_length env \<le> 4096" using assms(4) by (simp add: envelope_valid_def)
  have rng: "message_type_in_range (message_type_byte (message_type env))"
    "reliability_class_in_range (reliability_class_byte (reliability_class env))"
    using assms(4) by (cases "message_type env"; simp add: envelope_valid_def message_type_in_range_def)
      (cases "reliability_class env"; simp add: reliability_class_in_range_def)
  have raw: "raw_envelope B = env\<lparr> fragment_count := wire_frag_count env,
     total_payload_length := wire_total_pl env, payload := replicate payload_capacity 0 \<rparr>"
    by (simp add: raw_envelope_def rd envelope_init_def)
  have fh: "fragment_header_valid (raw_envelope B)"
    using assms(5) by (simp add: raw fragment_header_valid_iff wire_image_def)
  have "52 \<le> buf_len" using assms(6) by (simp add: word_le_nat_alt)
  then have "frame_accepted B buf_len"
    using assms(4,6) rng fh by (simp add: frame_accepted_def rd raw envelope_valid_def)
  moreover have "accepted_envelope B = wire_image env"
    using assms(2,3) le
    by (simp add: accepted_envelope_def raw wire_image_def blit_def length_payload_bytes)
  ultimately show ?thesis ..
qed

text \<open>
  Claim C29. Round trip of the wire format: serializing a valid envelope into a large enough
  buffer succeeds, produces exactly header plus payload bytes, and deserializing those bytes
  succeeds and yields the same envelope, up to the documented wire defaults (a fragment count
  of 0 is sent as 1, an unset total length as the payload length, unused payload bytes are
  zero).
\<close>

theorem serialize_deserialize:
  assumes "env_wf env" and "envelope_valid env" and "fragment_header_valid (wire_image env)"
    and "52 + unat (payload_length env) \<le> unat buf_len" and "unat buf_len \<le> length buf"
  shows "returns (serialize env buf buf_len out_len) (\<lambda>(r, buf', n).
    r = OK \<and> unat n = 52 + unat (payload_length env) \<and> length buf' = length buf \<and>
    drop (unat n) buf' = drop (unat n) buf \<and>
    deserialize (take (unat n) buf') n env0 = Some (OK, wire_image env))"
proof -
  let ?H = "header_bytes env @ payload_bytes env"
  let ?n = "52 + payload_length env"
  have le: "payload_length env \<le> 4096" using assms(2) by (simp add: envelope_valid_def)
  have n: "unat ?n = 52 + unat (payload_length env)" by (rule required_len(1) [OF le])
  have lH: "length ?H = unat ?n" using assms(1) le n by (simp add: length_payload_bytes)
  have "length ?H \<le> length buf" using lH n assms(4,5) by simp
  then have bl: "blit buf 0 ?H = ?H @ drop (unat ?n) buf" unfolding blit_def lH by simp
  have "frame_accepted ?H ?n \<and> accepted_envelope ?H = wire_image env"
    by (rule accepted_header) (use assms n lH in \<open>simp_all add: payload_bytes_def\<close>)
  then have d: "deserialize ?H ?n env0 = Some (OK, wire_image env)"
    using deserialize_spec [of ?H ?n env0] by simp
  have "take (unat ?n) (blit buf 0 ?H) = ?H" using bl lH by simp
  moreover have "drop (unat ?n) (blit buf 0 ?H) = drop (unat ?n) buf" using bl lH by simp
  moreover have "length (blit buf 0 ?H) = length buf" using \<open>length ?H \<le> length buf\<close> by simp
  ultimately show ?thesis
    using serialize_writes [OF assms(1,2,4,5)] d n by simp
qed

theorem serialize_deserialize_witness:
  "let env = envelope_init\<lparr> message_type := DATA, source_id := 7, message_id := 99, payload_length := 3,
                             payload := [1, 2, 3] @ replicate 4093 0 \<rparr>
   in env_wf env \<and> envelope_valid env \<and>
      returns (serialize env (replicate 60 0) 60 0) (\<lambda>(r, buf', n).
        r = OK \<and> unat n = 55 \<and> deserialize (take (unat n) buf') n envelope_init = Some (OK, wire_image env))"
proof -
  let ?e = "envelope_init\<lparr> message_type := DATA, source_id := 7, message_id := 99, payload_length := 3,
                             payload := [1, 2, 3] @ replicate 4093 0 \<rparr>"
  have h: "env_wf ?e" "envelope_valid ?e" "fragment_header_valid (wire_image ?e)"
    by (simp_all add: env_wf_def envelope_valid_def fragment_header_valid_def wire_image_def
        wire_frag_count_def wire_total_pl_def envelope_init_def)
  have "returns (serialize ?e (replicate 60 0) 60 0) (\<lambda>(r, buf', n).
    r = OK \<and> unat n = 52 + unat (payload_length ?e) \<and> length buf' = length (replicate 60 (0::u8)) \<and>
    drop (unat n) buf' = drop (unat n) (replicate 60 0) \<and>
    deserialize (take (unat n) buf') n envelope_init = Some (OK, wire_image ?e))"
    by (rule serialize_deserialize) (use h in simp_all)
  then have "returns (serialize ?e (replicate 60 0) 60 0) (\<lambda>(r, buf', n).
        r = OK \<and> unat n = 55 \<and> deserialize (take (unat n) buf') n envelope_init = Some (OK, wire_image ?e))"
    by (rule returns_mono) auto
  with h(1,2) show ?thesis by (simp only: Let_def simp_thms)
qed

lemma deserialize_safe:
  "returns (deserialize buf buf_len env0) (\<lambda>(r, env).
     (r = OK \<or> r = ERR_INVALID) \<and>
     (r = OK \<longrightarrow> envelope_valid env \<and> fragment_header_valid env \<and>
        52 + unat (payload_length env) \<le> unat buf_len \<and>
        (unat buf_len \<le> length buf \<longrightarrow> env_wf env \<and>
           payload_bytes env = take (unat (payload_length env)) (drop 52 buf))))"
proof (cases "frame_accepted buf buf_len")
  case True
  then have d: "deserialize buf buf_len env0 = Some (OK, accepted_envelope buf)"
    using deserialize_spec [of buf buf_len env0] by simp
  let ?n = "unat (payload_length (raw_envelope buf))"
  have n: "?n \<le> 4096" "52 + ?n \<le> unat buf_len"
    using True by (simp_all add: frame_accepted_def word_le_nat_alt)
  have v: "envelope_valid (accepted_envelope buf)"
    using True message_type_in_range_valid
    by (simp add: frame_accepted_def accepted_envelope_def envelope_valid_def raw_envelope_def)
  have f: "fragment_header_valid (accepted_envelope buf)"
    using True by (simp add: frame_accepted_def accepted_envelope_def fragment_header_valid_iff)
  have pl: "payload_length (accepted_envelope buf) = payload_length (raw_envelope buf)"
    by (simp add: accepted_envelope_def)
  have "unat buf_len \<le> length buf \<Longrightarrow> env_wf (accepted_envelope buf) \<and>
      payload_bytes (accepted_envelope buf) = take ?n (drop 52 buf)"
    using n by (auto simp: env_wf_def payload_bytes_def accepted_envelope_def blit_def min_def)
  with d v f n pl show ?thesis by simp
next
  case False
  then obtain e where "deserialize buf buf_len env0 = Some (ERR_INVALID, e)"
    using deserialize_spec [of buf buf_len env0] by auto
  then show ?thesis by simp
qed

text \<open>
  Claim C30. Robustness against the network: whatever the received bytes are, \<open>deserialize\<close>
  returns (no assertion fires, in particular not the final \<open>envelope_valid\<close> one), its result
  is \<open>OK\<close> or \<open>ERR_INVALID\<close>, and an accepted envelope is valid, carries legal fragment
  metadata and a payload that was really inside the received bytes.
\<close>

theorem deserialize_total:
  "returns (deserialize buf buf_len env0) (\<lambda>(r, env).
     (r = OK \<or> r = ERR_INVALID) \<and>
     (r = OK \<longrightarrow> envelope_valid env \<and> fragment_header_valid env \<and>
        52 + unat (payload_length env) \<le> unat buf_len \<and>
        (unat buf_len \<le> length buf \<longrightarrow> env_wf env \<and>
           payload_bytes env = take (unat (payload_length env)) (drop 52 buf))))"
  by (rule deserialize_safe)

theorem deserialize_total_witness:
  "returns (deserialize [1, 2, 3] 3 envelope_init) (\<lambda>(r, env). r = ERR_INVALID)"
  by (rule returns_mono [OF deserialize_total [of "[1, 2, 3]" 3 envelope_init]]) auto

lemma slices_52:
  assumes "52 \<le> length B"
  shows "take 52 B = take 1 (drop 0 B) @ take 1 (drop 1 B) @ take 1 (drop 2 B) @ take 1 (drop 3 B) @
    take 8 (drop 4 B) @ take 8 (drop 12 B) @ take 4 (drop 20 B) @ take 4 (drop 24 B) @
    take 8 (drop 28 B) @ take 4 (drop 36 B) @ take 4 (drop 40 B) @ take 4 (drop 44 B) @
    take 1 (drop 48 B) @ take 1 (drop 49 B) @ take 2 (drop 50 B)"
proof -
  have t: "take (m + k) B = take m B @ take k (drop m B)" for m k :: nat by (rule take_add)
  show ?thesis
    using t [of 50 2] t [of 49 1] t [of 48 1] t [of 44 4] t [of 40 4] t [of 36 4] t [of 28 8]
      t [of 24 4] t [of 20 4] t [of 12 8] t [of 4 8] t [of 3 1] t [of 2 1]
      t [of 1 1, unfolded one_add_one]
    by simp
qed

lemma enum_bytes_of_range:
  "message_type_in_range b \<Longrightarrow> message_type_byte (message_type_of b) = b"
  "reliability_class_in_range c \<Longrightarrow> reliability_class_byte (reliability_class_of c) = c"
proof -
  assume "message_type_in_range b"
  then have "b = 0 \<or> b = 1 \<or> b = 2 \<or> b = 3 \<or> b = 4" by (rule message_type_range_cases)
  then show "message_type_byte (message_type_of b) = b" by (auto simp: message_type_of_def)
next
  assume "reliability_class_in_range c"
  then have "unat c \<le> 2" by (simp add: reliability_class_in_range_def word_le_nat_alt)
  then have "unat c = 0 \<or> unat c = 1 \<or> unat c = 2" by arith
  then have "c = 0 \<or> c = 1 \<or> c = 2" by (simp add: word_unat_eq_iff)
  then show "reliability_class_byte (reliability_class_of c) = c" by (auto simp: reliability_class_of_def)
qed

lemma header_of_accepted:
  assumes "frame_accepted B buf_len" and "unat buf_len \<le> length B"
    and "total_payload_length (accepted_envelope B) \<noteq> 0 \<or> payload_length (accepted_envelope B) = 0"
  shows "header_bytes (accepted_envelope B) = take 52 B"
proof -
  let ?e = "accepted_envelope B"
  have len: "52 \<le> length B"
    using assms(1,2) by (simp add: frame_accepted_def word_le_nat_alt)
  then have "B \<noteq> []" by auto
  have "\<exists>v. read_u8 B 0 = Some v" "\<exists>v. read_u8 B (Suc 0) = Some v" "\<exists>v. read_u8 B 2 = Some v"
    "\<exists>v. read_u8 B 3 = Some v" "\<exists>v. read_u64 B 4 = Some v" "\<exists>v. read_u64 B 12 = Some v"
    "\<exists>v. read_u32 B 20 = Some v" "\<exists>v. read_u32 B 24 = Some v" "\<exists>v. read_u64 B 28 = Some v"
    "\<exists>v. read_u32 B 36 = Some v" "\<exists>v. read_u32 B 40 = Some v" "\<exists>v. read_u32 B 44 = Some v"
    "\<exists>v. read_u8 B 48 = Some v" "\<exists>v. read_u8 B 49 = Some v" "\<exists>v. read_u16 B 50 = Some v"
    by (simp_all add: read_total)
  then obtain mt rc pr ver id ts src dst ex pl mg sq fi fc tp where
    rd: "read_u8 B 0 = Some mt" "read_u8 B (Suc 0) = Some rc" "read_u8 B 2 = Some pr"
      "read_u8 B 3 = Some ver" "read_u64 B 4 = Some id" "read_u64 B 12 = Some ts"
      "read_u32 B 20 = Some src" "read_u32 B 24 = Some dst" "read_u64 B 28 = Some ex"
      "read_u32 B 36 = Some pl" "read_u32 B 40 = Some mg" "read_u32 B 44 = Some sq"
      "read_u8 B 48 = Some fi" "read_u8 B 49 = Some fc" "read_u16 B 50 = Some tp"
    by blast
  have sl: "take 1 (drop 0 B) = [mt]" "take 1 (drop 1 B) = [rc]" "take 1 (drop 2 B) = [pr]"
    "take 1 (drop 3 B) = [ver]" "take 8 (drop 4 B) = be64 id" "take 8 (drop 12 B) = be64 ts"
    "take 4 (drop 20 B) = be32 src" "take 4 (drop 24 B) = be32 dst" "take 8 (drop 28 B) = be64 ex"
    "take 4 (drop 36 B) = be32 pl" "take 4 (drop 40 B) = be32 mg" "take 4 (drop 44 B) = be32 sq"
    "take 1 (drop 48 B) = [fi]" "take 1 (drop 49 B) = [fc]" "take 2 (drop 50 B) = be16 tp"
    using rd len \<open>B \<noteq> []\<close> read_u8_iff [of 0 B mt] by (auto simp: read_u8_iff [symmetric] read_u16_iff [symmetric]
        read_u32_iff [symmetric] read_u64_iff [symmetric])
  show ?thesis
    unfolding slices_52 [OF len] sl
    using assms(1,3) enum_bytes_of_range(1) [of mt] enum_bytes_of_range(2) [of rc]
    by (auto simp: frame_accepted_def accepted_envelope_def raw_envelope_def rd header_bytes_def
        fragment_header_valid_iff wire_frag_count_def wire_total_pl_def)
qed

text \<open>
  Claim C31. The wire encoding is canonical: re-serializing an envelope that was accepted from
  the network reproduces the received frame byte for byte. The one exception is a frame whose
  total-length field is 0 although it carries payload; the serializer replaces that field.
\<close>

theorem deserialize_serialize:
  assumes "deserialize B n env0 = Some (OK, env)"
    and "unat n \<le> length B" and "length out = unat n"
    and "total_payload_length env \<noteq> 0 \<or> payload_length env = 0"
  shows "serialize env out n ol = Some (OK, take (52 + unat (payload_length env)) B @
           drop (52 + unat (payload_length env)) out, 52 + payload_length env)"
proof -
  have acc: "frame_accepted B n" and env: "env = accepted_envelope B"
    using assms(1) deserialize_spec [of B n env0] by (auto split: if_splits)
  let ?k = "unat (payload_length env)"
  have t: "envelope_valid env \<and> 52 + ?k \<le> unat n \<and> env_wf env \<and> payload_bytes env = take ?k (drop 52 B)"
    using deserialize_total [of B n env0] assms(1,2) by simp
  have h: "header_bytes env = take 52 B"
    using header_of_accepted [OF acc assms(2)] assms(4) env by simp
  have "header_bytes env @ payload_bytes env = take (52 + ?k) B"
    using t h by (simp add: take_add)
  moreover have "length (take (52 + ?k) B) = 52 + ?k" using t assms(2) by simp
  ultimately show ?thesis
    using serialize_writes [of env n out ol] t assms(3) by (simp add: blit_def)
qed

theorem deserialize_serialize_witness:
  "let B = take 52 (header_bytes (envelope_init\<lparr> message_type := ACK, source_id := 3 \<rparr>))
   in \<exists>env. deserialize B 52 envelope_init = Some (OK, env) \<and>
      serialize env (replicate 52 0) 52 0 = Some (OK, B, 52)"
proof -
  let ?e = "envelope_init\<lparr> message_type := ACK, source_id := 3 \<rparr>"
  let ?B = "take 52 (header_bytes ?e)"
  have "frame_accepted ?B 52 \<and> accepted_envelope ?B = wire_image ?e"
    by (rule accepted_header) (simp_all add: env_wf_def envelope_valid_def fragment_header_valid_iff
        wire_image_def wire_frag_count_def wire_total_pl_def payload_bytes_def envelope_init_def)
  then have d: "deserialize ?B 52 envelope_init = Some (OK, wire_image ?e)"
    using deserialize_spec [of ?B 52 envelope_init] by simp
  have "serialize (wire_image ?e) (replicate 52 0) 52 0 =
      Some (OK, take (52 + unat (payload_length (wire_image ?e))) ?B @
        drop (52 + unat (payload_length (wire_image ?e))) (replicate 52 0), 52 + payload_length (wire_image ?e))"
    by (rule deserialize_serialize [OF d]) (simp_all add: wire_image_def envelope_init_def)
  then have "serialize (wire_image ?e) (replicate 52 0) 52 0 = Some (OK, ?B, 52)"
    by (simp add: wire_image_def envelope_init_def)
  with d show ?thesis by (auto simp: Let_def)
qed

end
