(* ===== verification/RequestReply.thy ===== *)
theory RequestReply
  imports DeliveryRun Serializer
begin

text \<open>
  \<open>src/core/RequestReplyEngine.cpp\<close> with \<open>RequestReplyHeader.hpp\<close>: requests and responses over a delivery
  engine. The members are the record \<open>rr_engine\<close>; the delivery engine behind \<open>m_engine\<close> and its transport are passed
  along. Pointers are never null in the model; a copy that would leave its arrays is the outcome \<open>None\<close>, like a failed assertion.
\<close>

datatype RRKind = REQUEST | RESPONSE

fun rr_kind_code :: "RRKind \<Rightarrow> u8" where
  "rr_kind_code REQUEST = 0"
| "rr_kind_code RESPONSE = 1"

record rr_header =
  hdr_kind :: u8
  hdr_correlation_id :: u64
  hdr_pad :: "u8 list"

definition RR_HEADER_SIZE :: u32 where [simp]: "RR_HEADER_SIZE = 12"
definition MAX_PENDING_REQUESTS :: nat where [simp]: "MAX_PENDING_REQUESTS = 16"
definition MAX_STASH_SIZE :: nat where [simp]: "MAX_STASH_SIZE = 16"
definition APP_PAYLOAD_CAP :: u32 where [simp]: "APP_PAYLOAD_CAP = MSG_MAX_PAYLOAD_BYTES - RR_HEADER_SIZE"

record pending_request =
  pr_correlation_id :: u64
  pr_expires_us :: u64
  pr_active :: bool
  pr_stash_payload :: "u8 list"
  pr_stash_len :: u32
  pr_stash_ready :: bool

record stashed_request =
  sr_correlation_id :: u64
  sr_src :: NodeId
  sr_payload :: "u8 list"
  sr_payload_len :: u32
  sr_active :: bool

record rr_engine =
  rr_local_node :: NodeId
  rr_initialized :: bool
  rr_cid_gen :: u64
  rr_pending :: "pending_request list"
  rr_pending_count :: nat
  rr_request_stash :: "stashed_request list"
  rr_stash_head :: nat
  rr_stash_count :: nat
  rr_non_rr_stash :: "envelope list"
  rr_non_rr_head :: nat
  rr_non_rr_count :: nat

text \<open>\<open>memcpy\<close> of \<open>n\<close> bytes to the start of \<open>dst\<close> at \<open>off\<close>.\<close>

definition mem_copy :: "u8 list \<Rightarrow> nat \<Rightarrow> u8 list \<Rightarrow> nat \<Rightarrow> u8 list option" where
  "mem_copy dst off src n = do {
     nc_assert (n \<le> length src \<and> off + n \<le> length dst);
     Some (blit dst off (take n src))
   }"

text \<open>The two idioms of the copies below: a length cut to a capacity, and a copy that is skipped when there is nothing
  to copy.\<close>

definition cut_len :: "u32 \<Rightarrow> u32 \<Rightarrow> u32" where
  "cut_len len cap = (if len > cap then cap else len)"

definition copy_bytes :: "u8 list \<Rightarrow> u8 list \<Rightarrow> u32 \<Rightarrow> u8 list option" where
  "copy_bytes dst src n = (if n > 0 then mem_copy dst 0 src (unat n) else Some dst)"

section \<open>Initialisation\<close>

definition pending_request_init :: pending_request where
  "pending_request_init = \<lparr> pr_correlation_id = 0, pr_expires_us = 0, pr_active = False,
     pr_stash_payload = replicate (unat APP_PAYLOAD_CAP) 0, pr_stash_len = 0, pr_stash_ready = False \<rparr>"

definition stashed_request_init :: stashed_request where
  "stashed_request_init = \<lparr> sr_correlation_id = 0, sr_src = NODE_ID_INVALID,
     sr_payload = replicate (unat APP_PAYLOAD_CAP) 0, sr_payload_len = 0, sr_active = False \<rparr>"

definition RequestReplyEngine_init :: "rr_engine \<Rightarrow> NodeId \<Rightarrow> rr_engine option" where
  "RequestReplyEngine_init rr local_node = do {
     nc_assert (local_node \<noteq> NODE_ID_INVALID);
     nc_assert (local_node \<le> 0xFFFFFFFF);
     let rr = \<lparr> rr_local_node = local_node, rr_initialized = True, rr_cid_gen = 1,
       rr_pending = replicate MAX_PENDING_REQUESTS pending_request_init, rr_pending_count = 0,
       rr_request_stash = replicate MAX_STASH_SIZE stashed_request_init, rr_stash_head = 0, rr_stash_count = 0,
       rr_non_rr_stash = replicate MAX_STASH_SIZE envelope_init, rr_non_rr_head = 0, rr_non_rr_count = 0 \<rparr>;
     nc_assert (rr_initialized rr);
     Some rr
   }"

section \<open>The wire header\<close>

definition RequestReplyEngine_build_wire_payload ::
    "RRKind \<Rightarrow> u64 \<Rightarrow> u8 list \<Rightarrow> u32 \<Rightarrow> u8 list \<Rightarrow> u32 \<Rightarrow> (u32 \<times> u8 list) option" where
  "RequestReplyEngine_build_wire_payload kind correlation_id app_payload app_len out_buf out_cap = do {
     nc_assert (out_cap \<ge> RR_HEADER_SIZE);
     let total = RR_HEADER_SIZE + app_len;
     if total > out_cap then Some (0, out_buf)
     else do {
       let out_buf = out_buf[0 := rr_kind_code kind,
         1 := ucast (drop_bit 56 correlation_id AND 0xFF),
         2 := ucast (drop_bit 48 correlation_id AND 0xFF),
         3 := ucast (drop_bit 40 correlation_id AND 0xFF),
         4 := ucast (drop_bit 32 correlation_id AND 0xFF),
         5 := ucast (drop_bit 24 correlation_id AND 0xFF),
         6 := ucast (drop_bit 16 correlation_id AND 0xFF),
         7 := ucast (drop_bit 8 correlation_id AND 0xFF),
         8 := ucast (drop_bit 0 correlation_id AND 0xFF),
         9 := 0, 10 := 0, 11 := 0];
       out_buf \<leftarrow> (if app_len > 0 then mem_copy out_buf (unat RR_HEADER_SIZE) app_payload (unat app_len)
                     else Some out_buf);
       Some (total, out_buf)
     }
   }"

definition RequestReplyEngine_parse_rr_header :: "u8 list \<Rightarrow> u32 \<Rightarrow> rr_header \<Rightarrow> (bool \<times> rr_header) option" where
  "RequestReplyEngine_parse_rr_header raw_payload raw_len hdr = do {
     nc_assert (raw_len > 0);
     if raw_len < RR_HEADER_SIZE then Some (False, hdr)
     else do {
       let hdr = \<lparr> hdr_kind = raw_payload ! 0,
         hdr_correlation_id = push_bit 56 (ucast (raw_payload ! 1)) OR push_bit 48 (ucast (raw_payload ! 2)) OR
           push_bit 40 (ucast (raw_payload ! 3)) OR push_bit 32 (ucast (raw_payload ! 4)) OR
           push_bit 24 (ucast (raw_payload ! 5)) OR push_bit 16 (ucast (raw_payload ! 6)) OR
           push_bit 8 (ucast (raw_payload ! 7)) OR push_bit 0 (ucast (raw_payload ! 8)),
         hdr_pad = [raw_payload ! 9, raw_payload ! 10, raw_payload ! 11] \<rparr>;
       if \<not> (hdr_kind hdr = rr_kind_code REQUEST \<or> hdr_kind hdr = rr_kind_code RESPONSE) then Some (False, hdr)
       else if hdr_correlation_id hdr = 0 then Some (False, hdr)
       else if hdr_pad hdr ! 0 \<noteq> 0 \<or> hdr_pad hdr ! 1 \<noteq> 0 \<or> hdr_pad hdr ! 2 \<noteq> 0 then Some (False, hdr)
       else do {
         nc_assert (hdr_correlation_id hdr \<noteq> 0);
         Some (True, hdr)
       }
     }
   }"

section \<open>The tables\<close>

text \<open>The lookups return the index, \<open>None\<close> for the sentinel \<open>MAX_PENDING_REQUESTS\<close>.\<close>

definition RequestReplyEngine_find_pending :: "rr_engine \<Rightarrow> u64 \<Rightarrow> nat option option" where
  "RequestReplyEngine_find_pending rr correlation_id = do {
     nc_assert (rr_initialized rr);
     nc_assert (correlation_id \<noteq> 0);
     Some (first_idx (\<lambda>p. pr_active p \<and> pr_correlation_id p = correlation_id) (rr_pending rr))
   }"

definition RequestReplyEngine_find_free_pending :: "rr_engine \<Rightarrow> nat option option" where
  "RequestReplyEngine_find_free_pending rr = do {
     nc_assert (rr_initialized rr);
     nc_assert (MAX_PENDING_REQUESTS > 0);
     Some (first_idx (\<lambda>p. \<not> pr_active p) (rr_pending rr))
   }"

definition RequestReplyEngine_handle_inbound_response :: "rr_engine \<Rightarrow> u64 \<Rightarrow> u8 list \<Rightarrow> u32 \<Rightarrow> rr_engine option" where
  "RequestReplyEngine_handle_inbound_response rr correlation_id app_payload app_len = do {
     nc_assert (rr_initialized rr);
     nc_assert (correlation_id \<noteq> 0);
     found \<leftarrow> RequestReplyEngine_find_pending rr correlation_id;
     case found of
       None \<Rightarrow> Some rr
     | Some idx \<Rightarrow>
         if pr_stash_ready (rr_pending rr ! idx) then Some rr
         else do {
           let copy_len = cut_len app_len APP_PAYLOAD_CAP;
           let p = rr_pending rr ! idx;
           stash \<leftarrow> copy_bytes (pr_stash_payload p) app_payload copy_len;
           let p = p\<lparr> pr_stash_payload := stash, pr_stash_len := copy_len, pr_stash_ready := True \<rparr>;
           Some (rr\<lparr> rr_pending := (rr_pending rr)[idx := p] \<rparr>)
         }
   }"

definition RequestReplyEngine_handle_inbound_request ::
    "rr_engine \<Rightarrow> NodeId \<Rightarrow> u64 \<Rightarrow> u8 list \<Rightarrow> u32 \<Rightarrow> rr_engine option" where
  "RequestReplyEngine_handle_inbound_request rr src correlation_id app_payload app_len = do {
     nc_assert (rr_initialized rr);
     nc_assert (correlation_id \<noteq> 0);
     if rr_stash_count rr \<ge> MAX_STASH_SIZE then Some rr
     else do {
       let slot = (rr_stash_head rr + rr_stash_count rr) mod MAX_STASH_SIZE;
       nc_assert (\<not> sr_active (rr_request_stash rr ! slot));
       let copy_len = cut_len app_len APP_PAYLOAD_CAP;
       let s = rr_request_stash rr ! slot;
       pl \<leftarrow> copy_bytes (sr_payload s) app_payload copy_len;
       let s = s\<lparr> sr_payload := pl, sr_payload_len := copy_len, sr_correlation_id := correlation_id,
                  sr_src := src, sr_active := True \<rparr>;
       Some (rr\<lparr> rr_request_stash := (rr_request_stash rr)[slot := s], rr_stash_count := rr_stash_count rr + 1 \<rparr>)
     }
   }"

definition RequestReplyEngine_dispatch_inbound_envelope :: "rr_engine \<Rightarrow> envelope \<Rightarrow> (bool \<times> rr_engine) option" where
  "RequestReplyEngine_dispatch_inbound_envelope rr env = do {
     nc_assert (envelope_is_data env);
     nc_assert (rr_initialized rr);
     (ok, hdr) \<leftarrow> RequestReplyEngine_parse_rr_header (payload env) (payload_length env)
                    \<lparr> hdr_kind = 0, hdr_correlation_id = 0, hdr_pad = [0, 0, 0] \<rparr>;
     if \<not> ok then Some (False, rr)
     else do {
       let app_start = drop (unat RR_HEADER_SIZE) (payload env);
       let app_len = (if payload_length env > RR_HEADER_SIZE then payload_length env - RR_HEADER_SIZE else 0);
       rr \<leftarrow> (if hdr_kind hdr = rr_kind_code RESPONSE
               then RequestReplyEngine_handle_inbound_response rr (hdr_correlation_id hdr) app_start app_len
               else RequestReplyEngine_handle_inbound_request rr (source_id env) (hdr_correlation_id hdr) app_start app_len);
       nc_assert ok;
       Some (True, rr)
     }
   }"

definition RequestReplyEngine_stash_non_rr_data :: "rr_engine \<Rightarrow> envelope \<Rightarrow> rr_engine option" where
  "RequestReplyEngine_stash_non_rr_data rr env = do {
     nc_assert (rr_initialized rr);
     nc_assert (envelope_is_data env);
     if rr_non_rr_count rr \<ge> MAX_STASH_SIZE then Some rr
     else do {
       let idx = (rr_non_rr_head rr + rr_non_rr_count rr) mod MAX_STASH_SIZE;
       let rr = rr\<lparr> rr_non_rr_stash := (rr_non_rr_stash rr)[idx := env], rr_non_rr_count := rr_non_rr_count rr + 1 \<rparr>;
       nc_assert (rr_non_rr_count rr \<le> MAX_STASH_SIZE);
       Some rr
     }
   }"

section \<open>Draining the delivery engine\<close>

text \<open>What one iteration of \<open>pump_inbound\<close> does with the envelope it got.\<close>

definition rr_absorb :: "rr_engine \<Rightarrow> envelope \<Rightarrow> rr_engine option" where
  "rr_absorb rr env =
     (if \<not> envelope_is_data env then Some rr
      else do {
        (dispatched, rr) \<leftarrow> RequestReplyEngine_dispatch_inbound_envelope rr env;
        if \<not> dispatched then RequestReplyEngine_stash_non_rr_data rr env else Some rr
      })"

primrec pump_loop ::
    "'t transport \<Rightarrow> u64 \<Rightarrow> nat \<Rightarrow> rr_engine \<Rightarrow> delivery_engine \<Rightarrow> 't \<Rightarrow> (rr_engine \<times> delivery_engine \<times> 't) option" where
  "pump_loop T now_us 0 rr e t = Some (rr, e, t)"
| "pump_loop T now_us (Suc n) rr e t = do {
     (res, env, e, t) \<leftarrow> DeliveryEngine_receive T e t envelope_init 0 now_us;
     if res \<noteq> OK then Some (rr, e, t)
     else do {
       rr \<leftarrow> rr_absorb rr env;
       pump_loop T now_us n rr e t
     }
   }"

definition RequestReplyEngine_pump_inbound ::
    "'t transport \<Rightarrow> rr_engine \<Rightarrow> delivery_engine \<Rightarrow> 't \<Rightarrow> u64 \<Rightarrow> (rr_engine \<times> delivery_engine \<times> 't) option" where
  "RequestReplyEngine_pump_inbound T rr e t now_us = do {
     nc_assert (rr_initialized rr);
     pump_loop T now_us MAX_STASH_SIZE rr e t
   }"

section \<open>The operations\<close>

text \<open>The part of \<open>receive_non_rr\<close> after the drain.\<close>

definition rr_take_non_rr :: "rr_engine \<Rightarrow> envelope \<Rightarrow> (Result \<times> envelope \<times> rr_engine) option" where
  "rr_take_non_rr rr env =
     (if rr_non_rr_count rr = 0 then Some (ERR_EMPTY, env, rr)
      else do {
        let env = rr_non_rr_stash rr ! rr_non_rr_head rr;
        let rr = rr\<lparr> rr_non_rr_head := (rr_non_rr_head rr + 1) mod MAX_STASH_SIZE, rr_non_rr_count := rr_non_rr_count rr - 1 \<rparr>;
        nc_assert (rr_non_rr_count rr < MAX_STASH_SIZE);
        Some (OK, env, rr)
      })"

definition RequestReplyEngine_receive_non_rr ::
    "'t transport \<Rightarrow> rr_engine \<Rightarrow> delivery_engine \<Rightarrow> 't \<Rightarrow> envelope \<Rightarrow> u64 \<Rightarrow>
     (Result \<times> envelope \<times> rr_engine \<times> delivery_engine \<times> 't) option" where
  "RequestReplyEngine_receive_non_rr T rr e t env now_us = do {
     nc_assert (rr_initialized rr);
     nc_assert (rr_non_rr_count rr \<le> MAX_STASH_SIZE);
     (rr, e, t) \<leftarrow> RequestReplyEngine_pump_inbound T rr e t now_us;
     (r, env, rr) \<leftarrow> rr_take_non_rr rr env;
     Some (r, env, rr, e, t)
   }"

text \<open>The stack buffer \<open>wire_buf\<close> is uninitialised in the code; only its first \<open>wire_len\<close> bytes are read.\<close>

definition wire_buf :: "u8 list" where
  "wire_buf = replicate payload_capacity 0"

definition RequestReplyEngine_send_request ::
    "'t transport \<Rightarrow> rr_engine \<Rightarrow> delivery_engine \<Rightarrow> 't \<Rightarrow> NodeId \<Rightarrow> u8 list \<Rightarrow> u32 \<Rightarrow> u64 \<Rightarrow> u64 \<Rightarrow> u64 \<Rightarrow>
     (Result \<times> u64 \<times> rr_engine \<times> delivery_engine \<times> 't) option" where
  "RequestReplyEngine_send_request T rr e t destination app_payload app_payload_len timeout_us now_us cid_out = do {
     nc_assert (rr_initialized rr);
     free \<leftarrow> RequestReplyEngine_find_free_pending rr;
     case free of
       None \<Rightarrow> Some (ERR_FULL, cid_out, rr, e, t)
     | Some slot \<Rightarrow> do {
         let cid = rr_cid_gen rr;
         let rr = rr\<lparr> rr_cid_gen := (if rr_cid_gen rr = - 1 then 1 else rr_cid_gen rr + 1) \<rparr>;
         (wire_len, buf) \<leftarrow> RequestReplyEngine_build_wire_payload REQUEST cid app_payload app_payload_len wire_buf
                               MSG_MAX_PAYLOAD_BYTES;
         if wire_len = 0 then Some (ERR_FULL, cid_out, rr, e, t)
         else do {
           let expiry_us = (if timeout_us > 0
             then (if timeout_us > - 1 - now_us then - 1 else now_us + timeout_us) else 0);
           pl \<leftarrow> mem_copy (payload envelope_init) 0 buf (unat wire_len);
           let env = envelope_init\<lparr> message_type := DATA, destination_id := destination, priority := 0,
             reliability_class := RELIABLE_RETRY, expiry_time_us := expiry_us, payload_length := wire_len, payload := pl \<rparr>;
           (res, env, e, t) \<leftarrow> DeliveryEngine_send T e t env now_us;
           if res \<noteq> OK then Some (res, cid_out, rr, e, t)
           else do {
             let rr = rr\<lparr> rr_pending := (rr_pending rr)[slot := (rr_pending rr ! slot)\<lparr> pr_correlation_id := cid,
                 pr_expires_us := expiry_us, pr_active := True, pr_stash_len := 0, pr_stash_ready := False \<rparr>],
               rr_pending_count := rr_pending_count rr + 1 \<rparr>;
             nc_assert (pr_active (rr_pending rr ! slot));
             nc_assert (cid \<noteq> 0);
             Some (OK, cid, rr, e, t)
           }
         }
       }
   }"

text \<open>The part of \<open>receive_request\<close> after the drain; the result lists the bytes copied to the caller.\<close>

definition rr_take_request ::
    "rr_engine \<Rightarrow> u8 list \<Rightarrow> u32 \<Rightarrow> u32 \<Rightarrow> NodeId \<Rightarrow> u64 \<Rightarrow> (Result \<times> u8 list \<times> u32 \<times> NodeId \<times> u64 \<times> rr_engine) option" where
  "rr_take_request rr app_buf buf_cap len_out src_out cid_out =
     (if rr_stash_count rr = 0 then Some (ERR_EMPTY, app_buf, len_out, src_out, cid_out, rr)
      else do {
        nc_assert (rr_stash_head rr < MAX_STASH_SIZE);
        let s = rr_request_stash rr ! rr_stash_head rr;
        let copy_len = cut_len (sr_payload_len s) buf_cap;
        app_buf \<leftarrow> copy_bytes app_buf (sr_payload s) copy_len;
        let rr = rr\<lparr> rr_request_stash := (rr_request_stash rr)[rr_stash_head rr := s\<lparr> sr_active := False \<rparr>],
          rr_stash_head := (rr_stash_head rr + 1) mod MAX_STASH_SIZE, rr_stash_count := rr_stash_count rr - 1 \<rparr>;
        nc_assert (sr_correlation_id s \<noteq> 0);
        nc_assert (sr_src s \<noteq> NODE_ID_INVALID);
        Some (OK, app_buf, copy_len, sr_src s, sr_correlation_id s, rr)
      })"

definition RequestReplyEngine_receive_request ::
    "'t transport \<Rightarrow> rr_engine \<Rightarrow> delivery_engine \<Rightarrow> 't \<Rightarrow> u8 list \<Rightarrow> u32 \<Rightarrow> u32 \<Rightarrow> NodeId \<Rightarrow> u64 \<Rightarrow> u64 \<Rightarrow>
     ((Result \<times> u8 list \<times> u32 \<times> NodeId \<times> u64) \<times> rr_engine \<times> delivery_engine \<times> 't) option" where
  "RequestReplyEngine_receive_request T rr e t app_buf buf_cap len_out src_out cid_out now_us = do {
     nc_assert (rr_initialized rr);
     (rr, e, t) \<leftarrow> RequestReplyEngine_pump_inbound T rr e t now_us;
     (r, app_buf, len_out, src_out, cid_out, rr) \<leftarrow> rr_take_request rr app_buf buf_cap len_out src_out cid_out;
     Some ((r, app_buf, len_out, src_out, cid_out), rr, e, t)
   }"

definition k_resp_expiry_us :: u64 where [simp]: "k_resp_expiry_us = 5000000"

definition RequestReplyEngine_send_response ::
    "'t transport \<Rightarrow> rr_engine \<Rightarrow> delivery_engine \<Rightarrow> 't \<Rightarrow> NodeId \<Rightarrow> u64 \<Rightarrow> u8 list \<Rightarrow> u32 \<Rightarrow> u64 \<Rightarrow>
     (Result \<times> delivery_engine \<times> 't) option" where
  "RequestReplyEngine_send_response T rr e t destination correlation_id app_payload app_payload_len now_us = do {
     nc_assert (rr_initialized rr);
     (wire_len, buf) \<leftarrow> RequestReplyEngine_build_wire_payload RESPONSE correlation_id app_payload app_payload_len wire_buf
                           MSG_MAX_PAYLOAD_BYTES;
     if wire_len = 0 then Some (ERR_FULL, e, t)
     else do {
       pl \<leftarrow> mem_copy (payload envelope_init) 0 buf (unat wire_len);
       let env = envelope_init\<lparr> message_type := DATA, destination_id := destination, priority := 0,
         reliability_class := BEST_EFFORT,
         expiry_time_us := (if k_resp_expiry_us > - 1 - now_us then - 1 else now_us + k_resp_expiry_us),
         payload_length := wire_len, payload := pl \<rparr>;
       (res, env, e, t) \<leftarrow> DeliveryEngine_send T e t env now_us;
       Some (res, e, t)
     }
   }"

text \<open>The part of \<open>receive_response\<close> after the drain.\<close>

definition rr_take_response ::
    "rr_engine \<Rightarrow> u64 \<Rightarrow> u8 list \<Rightarrow> u32 \<Rightarrow> u32 \<Rightarrow> (Result \<times> u8 list \<times> u32 \<times> rr_engine) option" where
  "rr_take_response rr correlation_id app_buf buf_cap len_out = do {
     found \<leftarrow> RequestReplyEngine_find_pending rr correlation_id;
     case found of
       None \<Rightarrow> Some (ERR_INVALID, app_buf, len_out, rr)
     | Some idx \<Rightarrow>
         if \<not> pr_stash_ready (rr_pending rr ! idx) then Some (ERR_EMPTY, app_buf, len_out, rr)
         else do {
           let p = rr_pending rr ! idx;
           let copy_len = cut_len (pr_stash_len p) buf_cap;
           app_buf \<leftarrow> copy_bytes app_buf (pr_stash_payload p) copy_len;
           let rr = rr\<lparr> rr_pending := (rr_pending rr)[idx := p\<lparr> pr_active := False, pr_stash_ready := False \<rparr>],
             rr_pending_count := (if rr_pending_count rr > 0 then rr_pending_count rr - 1 else rr_pending_count rr) \<rparr>;
           nc_assert (\<not> pr_active (rr_pending rr ! idx));
           nc_assert (idx < MAX_PENDING_REQUESTS);
           Some (OK, app_buf, copy_len, rr)
         }
   }"

definition RequestReplyEngine_receive_response ::
    "'t transport \<Rightarrow> rr_engine \<Rightarrow> delivery_engine \<Rightarrow> 't \<Rightarrow> u64 \<Rightarrow> u8 list \<Rightarrow> u32 \<Rightarrow> u32 \<Rightarrow> u64 \<Rightarrow>
     ((Result \<times> u8 list \<times> u32) \<times> rr_engine \<times> delivery_engine \<times> 't) option" where
  "RequestReplyEngine_receive_response T rr e t correlation_id app_buf buf_cap len_out now_us = do {
     nc_assert (rr_initialized rr);
     (rr, e, t) \<leftarrow> RequestReplyEngine_pump_inbound T rr e t now_us;
     (r, app_buf, len_out, rr) \<leftarrow> rr_take_response rr correlation_id app_buf buf_cap len_out;
     Some ((r, app_buf, len_out), rr, e, t)
   }"

definition rr_sweep_slot :: "u64 \<Rightarrow> nat \<Rightarrow> nat \<times> rr_engine \<Rightarrow> (nat \<times> rr_engine) option" where
  "rr_sweep_slot now_us i = (\<lambda>(freed, rr). let p = rr_pending rr ! i in
     if \<not> pr_active p then Some (freed, rr)
     else if pr_expires_us p = 0 then Some (freed, rr)
     else if now_us \<ge> pr_expires_us p then
       Some (freed + 1, rr\<lparr> rr_pending := (rr_pending rr)[i := p\<lparr> pr_active := False, pr_stash_ready := False \<rparr>],
         rr_pending_count := (if rr_pending_count rr > 0 then rr_pending_count rr - 1 else rr_pending_count rr) \<rparr>)
     else Some (freed, rr))"

definition RequestReplyEngine_sweep_timeouts :: "rr_engine \<Rightarrow> u64 \<Rightarrow> (nat \<times> rr_engine) option" where
  "RequestReplyEngine_sweep_timeouts rr now_us = do {
     nc_assert (rr_initialized rr);
     nc_assert (now_us > 0);
     (freed, rr) \<leftarrow> for_each (rr_sweep_slot now_us) [0..<MAX_PENDING_REQUESTS] (0, rr);
     nc_assert (freed \<le> MAX_PENDING_REQUESTS);
     nc_assert (rr_pending_count rr \<le> MAX_PENDING_REQUESTS);
     Some (freed, rr)
   }"

end
