(* ===== verification/RequestReplyCorrect.thy ===== *)
theory RequestReplyCorrect
  imports RequestReply DeliveryProperties
begin

text \<open>
  The request/reply engine is correct: its two rings are bounded queues, the pending table is a map from correlation
  identifiers to responses, no well-formed message trips an assertion, and a request and its response come back byte by byte.
\<close>

text \<open>The twelve header bytes on the wire.\<close>

definition rr_head :: "RRKind \<Rightarrow> u64 \<Rightarrow> u8 list" where
  "rr_head kind cid = rr_kind_code kind # be64 cid @ [0, 0, 0]"

text \<open>The live part of a ring array, oldest first.\<close>

definition ring_contents :: "'a list \<Rightarrow> nat \<Rightarrow> nat \<Rightarrow> 'a list" where
  "ring_contents buf h n = map (\<lambda>i. buf ! ((h + i) mod length buf)) [0..<n]"

definition sr_view :: "stashed_request \<Rightarrow> NodeId \<times> u64 \<times> u8 list" where
  "sr_view s = (sr_src s, sr_correlation_id s, take (unat (sr_payload_len s)) (sr_payload s))"

definition rr_requests :: "rr_engine \<Rightarrow> (NodeId \<times> u64 \<times> u8 list) list" where
  "rr_requests rr = map sr_view (ring_contents (rr_request_stash rr) (rr_stash_head rr) (rr_stash_count rr))"

definition rr_others :: "rr_engine \<Rightarrow> envelope list" where
  "rr_others rr = ring_contents (rr_non_rr_stash rr) (rr_non_rr_head rr) (rr_non_rr_count rr)"

definition pr_ok :: "pending_request \<Rightarrow> bool" where
  "pr_ok p \<longleftrightarrow> length (pr_stash_payload p) = 4084 \<and> pr_stash_len p \<le> 4084 \<and> (pr_active p \<longrightarrow> pr_correlation_id p \<noteq> 0)"

definition sr_ok :: "stashed_request \<Rightarrow> bool" where
  "sr_ok s \<longleftrightarrow> length (sr_payload s) = 4084 \<and> sr_payload_len s \<le> 4084 \<and>
     (sr_active s \<longrightarrow> sr_correlation_id s \<noteq> 0 \<and> sr_src s \<noteq> 0)"

definition rr_inv :: "rr_engine \<Rightarrow> bool" where
  "rr_inv rr \<longleftrightarrow> rr_initialized rr \<and> rr_cid_gen rr \<noteq> 0 \<and>
     length (rr_pending rr) = 16 \<and> list_all pr_ok (rr_pending rr) \<and>
     rr_pending_count rr = length (filter pr_active (rr_pending rr)) \<and>
     length (rr_request_stash rr) = 16 \<and> list_all sr_ok (rr_request_stash rr) \<and>
     rr_stash_head rr < 16 \<and> rr_stash_count rr \<le> 16 \<and>
     (\<forall>i < 16. sr_active (rr_request_stash rr ! ((rr_stash_head rr + i) mod 16)) \<longleftrightarrow> i < rr_stash_count rr) \<and>
     length (rr_non_rr_stash rr) = 16 \<and> rr_non_rr_head rr < 16 \<and> rr_non_rr_count rr \<le> 16"

text \<open>The pending table as a map: a pending request waits (\<open>Some None\<close>) or has its response.\<close>

definition rr_answer :: "rr_engine \<Rightarrow> u64 \<Rightarrow> u8 list option option" where
  "rr_answer rr cid = map_option
     (\<lambda>i. let p = rr_pending rr ! i in
        if pr_stash_ready p then Some (take (unat (pr_stash_len p)) (pr_stash_payload p)) else None)
     (first_idx (\<lambda>p. pr_active p \<and> pr_correlation_id p = cid) (rr_pending rr))"

text \<open>A data message whose payload is the header and the application's bytes.\<close>

definition carries :: "RRKind \<Rightarrow> u64 \<Rightarrow> u8 list \<Rightarrow> envelope \<Rightarrow> bool" where
  "carries kind cid app env \<longleftrightarrow> env_wf env \<and> envelope_valid env \<and> envelope_is_data env \<and>
     payload_bytes env = rr_head kind cid @ app"

text \<open>The slots a sweep at \<open>now_us\<close> frees.\<close>

definition pr_swept :: "u64 \<Rightarrow> pending_request \<Rightarrow> bool" where
  "pr_swept now_us p \<longleftrightarrow> pr_active p \<and> pr_expires_us p \<noteq> 0 \<and> pr_expires_us p \<le> now_us"

text \<open>The envelope that \<open>send_request\<close> (reliable) and \<open>send_response\<close> (best effort) hand to the delivery engine.\<close>

definition rr_envelope :: "RRKind \<Rightarrow> ReliabilityClass \<Rightarrow> NodeId \<Rightarrow> u64 \<Rightarrow> u8 list \<Rightarrow> u64 \<Rightarrow> envelope" where
  "rr_envelope kind rel dst cid app ex = envelope_init\<lparr> message_type := DATA, destination_id := dst, priority := 0,
     reliability_class := rel, expiry_time_us := ex, payload_length := 12 + of_nat (length app),
     payload := blit (replicate payload_capacity 0) 0 (rr_head kind cid @ app) \<rparr>"

text \<open>The frames of \<open>m\<close>, all of them, were sent.\<close>

definition on_wire :: "envelope \<Rightarrow> envelope list \<Rightarrow> envelope list \<Rightarrow> bool" where
  "on_wire m old new \<longleftrightarrow> (\<exists>fs. frames_of m fs \<and> new = old @ fs)"

text \<open>No entry of the two tables has the key that the next message gets.\<close>

definition next_key_fresh :: "delivery_engine \<Rightarrow> bool" where
  "next_key_fresh e \<longleftrightarrow> (\<forall>x \<in># at_live (eng_ack_tracker e) + rm_live (eng_retry_manager e).
     env_key x \<noteq> (eng_local_id e, eng_id_gen e))"

text \<open>The server's part of an exchange once the request has been received: it takes the request and answers it.\<close>

definition serve_request ::
    "'t transport \<Rightarrow> rr_engine \<Rightarrow> delivery_engine \<Rightarrow> 't \<Rightarrow> u8 list \<Rightarrow> u32 \<Rightarrow> u8 list \<Rightarrow> u32 \<Rightarrow> u64 \<Rightarrow>
     ((Result \<times> u8 list \<times> NodeId \<times> u64) \<times> Result \<times> 't) option" where
  "serve_request T rr e t buf cap resp len now_us = do {
     (r, b, l, src, cid, rr) \<leftarrow> rr_take_request rr buf cap 0 0 0;
     (r', e, t) \<leftarrow> RequestReplyEngine_send_response T rr e t src cid resp len now_us;
     Some ((r, take (unat l) b, src, cid), r', t)
   }"

text \<open>Examples: an engine after \<open>init\<close>, one that waits for response 7, and the message that carries it.\<close>

definition rr_blank :: rr_engine where
  "rr_blank = \<lparr> rr_local_node = 9, rr_initialized = True, rr_cid_gen = 1,
     rr_pending = replicate 16 pending_request_init, rr_pending_count = 0,
     rr_request_stash = replicate 16 stashed_request_init, rr_stash_head = 0, rr_stash_count = 0,
     rr_non_rr_stash = replicate 16 envelope_init, rr_non_rr_head = 0, rr_non_rr_count = 0 \<rparr>"

definition rr_waiting :: rr_engine where
  "rr_waiting = rr_blank\<lparr> rr_pending := pending_request_init\<lparr> pr_correlation_id := 7, pr_active := True \<rparr> #
     replicate 15 pending_request_init, rr_pending_count := 1 \<rparr>"

definition rr_example :: "RRKind \<Rightarrow> NodeId \<Rightarrow> u8 list \<Rightarrow> envelope" where
  "rr_example kind src app = envelope_init\<lparr> message_type := DATA, source_id := src,
     payload_length := 12 + of_nat (length app), payload := blit (replicate payload_capacity 0) 0 (rr_head kind 7 @ app) \<rparr>"

section \<open>The wire header\<close>

lemma length_rr_head [simp]: "length (rr_head kind cid) = 12"
  by (simp add: rr_head_def)

lemma blit_head: "12 \<le> length out \<Longrightarrow>
   out[0 := b0, Suc 0 := b1, 2 := b2, 3 := b3, 4 := b4, 5 := b5, 6 := b6, 7 := b7, 8 := b8, 9 := b9, 10 := b10, 11 := b11] =
   blit out 0 [b0, b1, b2, b3, b4, b5, b6, b7, b8, b9, b10, b11]"
  by (rule nth_equalityI) (auto simp: nth_blit nth_list_update nth_Cons' eval_nat_numeral)

lemma build_spec:
  assumes "length out = unat cap" and "unat app_len = length app" and "12 + length app \<le> unat cap"
  shows "RequestReplyEngine_build_wire_payload kind cid app app_len out cap =
    Some (12 + app_len, blit out 0 (rr_head kind cid @ app))"
proof -
  have "unat cap < 2 ^ 32" using unsigned_less [of cap] by simp
  then have c: "12 + unat app_len < 2 ^ 32" using assms by linarith
  have tot: "unat (12 + app_len) = 12 + unat app_len" using c by (simp add: unat_word_ariths)
  have le: "12 \<le> cap" "\<not> cap < 12 + app_len" using assms tot by (simp_all add: word_le_nat_alt word_less_nat_alt not_less)
  have len: "12 \<le> length out" using assms by simp
  have cp: "mem_copy (blit out 0 (rr_head kind cid)) 12 app (unat app_len) = Some (blit out 0 (rr_head kind cid @ app))"
    using assms by (simp add: mem_copy_def) (simp add: blit_def add.commute)
  have "app_len = 0 \<Longrightarrow> app = []" using assms(2) by simp
  moreover have "rr_head kind cid = [rr_kind_code kind, ucast (drop_bit 56 cid), ucast (drop_bit 48 cid), ucast (drop_bit 40 cid),
      ucast (drop_bit 32 cid), ucast (drop_bit 24 cid), ucast (drop_bit 16 cid), ucast (drop_bit 8 cid), ucast (drop_bit 0 cid), 0, 0, 0]"
    by (simp add: rr_head_def be64_def)
  ultimately show ?thesis
    using le cp by (cases "app_len = 0")
      (simp_all add: RequestReplyEngine_build_wire_payload_def blit_head [OF len] byte_mask word_gt_0 del: drop_bit_0)
qed

lemma parse_returns:
  "0 < raw_len \<Longrightarrow> returns (RequestReplyEngine_parse_rr_header raw raw_len h)
     (\<lambda>(ok, hdr). ok \<longrightarrow> 12 \<le> unat raw_len \<and> hdr_correlation_id hdr \<noteq> 0)"
  by (auto simp: RequestReplyEngine_parse_rr_header_def Let_def word_less_nat_alt not_less)

lemma parse_head:
  assumes "12 \<le> unat raw_len" and "12 \<le> length raw" and "take 12 raw = rr_head kind cid" and "cid \<noteq> 0"
  shows "RequestReplyEngine_parse_rr_header raw raw_len h =
    Some (True, \<lparr> hdr_kind = rr_kind_code kind, hdr_correlation_id = cid, hdr_pad = [0, 0, 0] \<rparr>)"
proof -
  have raw: "raw ! i = rr_head kind cid ! i" if "i < 12" for i using assms(3) that by (metis nth_take)
  have len: "0 < raw_len" "\<not> raw_len < 12" using assms(1) by (auto simp: word_less_nat_alt word_gt_0)
  have kind: "rr_kind_code kind = 0 \<or> rr_kind_code kind = 1" by (cases kind) simp_all
  have cid: "push_bit 56 (ucast (raw ! 1)) OR push_bit 48 (ucast (raw ! 2)) OR push_bit 40 (ucast (raw ! 3)) OR
      push_bit 32 (ucast (raw ! 4)) OR push_bit 24 (ucast (raw ! 5)) OR push_bit 16 (ucast (raw ! 6)) OR
      push_bit 8 (ucast (raw ! 7)) OR push_bit 0 (ucast (raw ! 8)) = cid"
    by (simp add: raw join64_iff) (simp add: rr_head_def be64_def)
  have "raw ! 0 = rr_kind_code kind" "raw ! 9 = 0" "raw ! 10 = 0" "raw ! 11 = 0"
    by (simp_all add: raw) (simp_all add: rr_head_def be64_def)
  with len kind cid assms(4) show ?thesis by (simp add: RequestReplyEngine_parse_rr_header_def Let_def del: push_bit_0_id)
qed

section \<open>Rings and copies\<close>

lemma ring_add:
  assumes "length buf = m" and "n < m" and "h < m"
  shows "ring_contents (buf[(h + n) mod m := x]) h (Suc n) = ring_contents buf h n @ [x]"
proof -
  have "(h + n) mod m \<noteq> (h + i) mod m" if "i < n" for i
    using that assms(2,3) by (auto simp: mod_if split: if_splits)
  then show ?thesis using assms by (simp add: ring_contents_def)
qed

lemma ring_drop:
  assumes "length buf = m" and "n \<noteq> 0" and "h < m" and "n \<le> m"
  shows "ring_contents buf h n = buf ! h # ring_contents (buf[h := x]) ((h + 1) mod m) (n - 1)"
proof -
  obtain k where k: "n = Suc k" using assms(2) by (cases n) simp_all
  have "(h + Suc i) mod m = ((h + 1) mod m + i) mod m" for i by (simp add: mod_simps)
  moreover have "h \<noteq> (h + Suc i) mod m" if "i < k" for i
    using that assms(3,4) k by (auto simp: mod_if split: if_splits)
  moreover have "[0..<Suc k] = 0 # map Suc [0..<k]" by (simp add: map_Suc_upt upt_conv_Cons)
  ultimately show ?thesis using assms k by (simp add: ring_contents_def comp_def del: upt_Suc)
qed

lemma mem_copy_ok: "n \<le> length src \<Longrightarrow> n \<le> length dst \<Longrightarrow> mem_copy dst 0 src n = Some (take n src @ drop n dst)"
  by (simp add: mem_copy_def blit_def)

lemma copy_bytes_ok: "unat n \<le> length src \<Longrightarrow> unat n \<le> length dst \<Longrightarrow>
    copy_bytes dst src n = Some (take (unat n) src @ drop (unat n) dst)"
  by (simp add: copy_bytes_def mem_copy_ok word_gt_0)

lemma unat_cut_len: "unat (cut_len n cap) = min (unat n) (unat cap)"
  by (auto simp: cut_len_def word_less_nat_alt)

lemma unat_4084: "unat (4084 :: u32) = 4084"
  by simp

text \<open>The slots of the request ring when it grows at its end or shrinks at its head.\<close>

lemma ring_active_add:
  assumes "length xs = m" and "h < m" and "n < m" and "\<forall>i < m. P (xs ! ((h + i) mod m)) \<longleftrightarrow> i < n" and "P x"
  shows "\<forall>i < m. P (xs[(h + n) mod m := x] ! ((h + i) mod m)) \<longleftrightarrow> i < Suc n"
proof (intro allI impI)
  fix i assume i: "i < m"
  have "(h + i) mod m = (h + n) mod m \<longleftrightarrow> i = n"
    using i assms(2,3) by (auto simp: mod_if split: if_splits)
  then show "P (xs[(h + n) mod m := x] ! ((h + i) mod m)) \<longleftrightarrow> i < Suc n"
    using i assms by (auto simp: nth_list_update)
qed

lemma ring_active_drop:
  assumes "length xs = m" and "h < m" and "0 < n" and "n \<le> m" and "\<forall>i < m. P (xs ! ((h + i) mod m)) \<longleftrightarrow> i < n" and "\<not> P x"
  shows "\<forall>i < m. P (xs[h := x] ! (((h + 1) mod m + i) mod m)) \<longleftrightarrow> i < n - 1"
proof (intro allI impI)
  fix i assume i: "i < m"
  have e: "((h + 1) mod m + i) mod m = (h + Suc i) mod m" by (simp add: mod_simps)
  have r: "(h + Suc i) mod m = h \<longleftrightarrow> Suc i = m" using i assms(2) by (auto simp: mod_if split: if_splits)
  have "Suc i < m \<Longrightarrow> P (xs ! ((h + Suc i) mod m)) \<longleftrightarrow> Suc i < n" using assms(5) by blast
  moreover have "(h + Suc i) mod m < m" using assms(2) by simp
  ultimately show "P (xs[h := x] ! (((h + 1) mod m + i) mod m)) \<longleftrightarrow> i < n - 1"
    unfolding e using i r assms by (cases "Suc i = m") (auto simp: nth_list_update)
qed

section \<open>Requests and other messages\<close>

lemma inbound_request_spec:
  assumes "rr_inv rr" and "cid \<noteq> 0" and "src \<noteq> 0" and "unat len \<le> length app"
  shows "returns (RequestReplyEngine_handle_inbound_request rr src cid app len) (\<lambda>rr'. rr_inv rr' \<and>
    rr_requests rr' = take 16 (rr_requests rr @ [(src, cid, take (min 4084 (unat len)) app)]) \<and>
    rr_pending rr' = rr_pending rr \<and> rr_others rr' = rr_others rr)"
proof (cases "rr_stash_count rr \<ge> 16")
  case True
  then have "length (rr_requests rr) = 16" using assms(1) by (simp add: rr_requests_def ring_contents_def rr_inv_def)
  with True assms show ?thesis by (simp add: RequestReplyEngine_handle_inbound_request_def rr_inv_def)
next
  case False
  define slot where "slot = (rr_stash_head rr + rr_stash_count rr) mod 16"
  define l where "l = cut_len len 4084"
  let ?s = "rr_request_stash rr ! slot"
  have inv: "rr_initialized rr" "length (rr_request_stash rr) = 16" "rr_stash_head rr < 16" "slot < 16" "sr_ok ?s" "\<not> sr_active ?s"
    using assms(1) False by (auto simp: rr_inv_def slot_def list_all_length)
  have l: "unat l = min (unat len) 4084" unfolding l_def unat_cut_len by simp
  define s where "s = ?s\<lparr> sr_payload := take (unat l) app @ drop (unat l) (sr_payload ?s), sr_payload_len := l,
    sr_correlation_id := cid, sr_src := src, sr_active := True \<rparr>"
  let ?rr = "rr\<lparr> rr_request_stash := (rr_request_stash rr)[slot := s], rr_stash_count := rr_stash_count rr + 1 \<rparr>"
  have cp: "copy_bytes (sr_payload ?s) app l = Some (sr_payload s)"
    using inv(5) l assms(4) by (subst copy_bytes_ok) (simp_all add: sr_ok_def s_def)
  have eq: "RequestReplyEngine_handle_inbound_request rr src cid app len = Some ?rr"
    using False inv cp assms(2) by (simp add: RequestReplyEngine_handle_inbound_request_def slot_def [symmetric] l_def [symmetric] s_def Let_def)
  have sok: "sr_ok s" "sr_active s" using inv(5) l assms by (auto simp: s_def sr_ok_def word_le_nat_alt)
  have view: "sr_view s = (src, cid, take (min 4084 (unat len)) app)"
    using l assms(4) by (simp add: sr_view_def s_def min.commute)
  have act: "\<forall>i < 16. sr_active (rr_request_stash rr ! ((rr_stash_head rr + i) mod 16)) \<longleftrightarrow> i < rr_stash_count rr"
    using assms(1) by (simp add: rr_inv_def)
  have "rr_inv ?rr"
    using assms(1) False sok ring_active_add [OF inv(2,3) _ act sok(2)] by (simp add: rr_inv_def list_all_updateI slot_def)
  moreover have "rr_requests ?rr = rr_requests rr @ [(src, cid, take (min 4084 (unat len)) app)]"
    using ring_add [OF inv(2) _ inv(3), of "rr_stash_count rr" s] False by (simp add: rr_requests_def slot_def view)
  moreover have "length (rr_requests rr) < 16" using False by (simp add: rr_requests_def ring_contents_def)
  ultimately show ?thesis unfolding eq by (simp add: rr_others_def)
qed

lemma take_request_spec:
  assumes "rr_inv rr" and "unat cap \<le> length buf"
  shows "case rr_requests rr of
      [] \<Rightarrow> rr_take_request rr buf cap l0 s0 c0 = Some (ERR_EMPTY, buf, l0, s0, c0, rr)
    | (src, cid, app) # rest \<Rightarrow> returns (rr_take_request rr buf cap l0 s0 c0) (\<lambda>(r, buf', len, src', cid', rr').
        r = OK \<and> src' = src \<and> cid' = cid \<and> unat len = min (unat cap) (length app) \<and>
        take (unat len) buf' = take (unat len) app \<and> rr_inv rr' \<and> rr_requests rr' = rest \<and>
        rr_pending rr' = rr_pending rr \<and> rr_others rr' = rr_others rr)"
proof (cases "rr_stash_count rr = 0")
  case True
  then show ?thesis by (simp add: rr_requests_def ring_contents_def rr_take_request_def)
next
  case False
  let ?h = "rr_stash_head rr"
  let ?s = "rr_request_stash rr ! ?h"
  have inv: "length (rr_request_stash rr) = 16" "?h < 16" "rr_stash_count rr \<le> 16" "sr_ok ?s"
    using assms(1) by (auto simp: rr_inv_def list_all_length)
  have act: "\<forall>i < 16. sr_active (rr_request_stash rr ! ((?h + i) mod 16)) \<longleftrightarrow> i < rr_stash_count rr"
    using assms(1) by (simp add: rr_inv_def)
  from act [rule_format, of 0] have live: "sr_active ?s" using False inv(2) by simp
  define l where "l = cut_len (sr_payload_len ?s) cap"
  have l: "unat l = min (unat (sr_payload_len ?s)) (unat cap)" unfolding l_def unat_cut_len by simp
  have sl: "unat (sr_payload_len ?s) \<le> 4084" "length (sr_payload ?s) = 4084" "sr_correlation_id ?s \<noteq> 0" "sr_src ?s \<noteq> 0"
    using inv(4) live by (simp_all add: sr_ok_def word_le_nat_alt)
  have cp: "copy_bytes buf (sr_payload ?s) l = Some (take (unat l) (sr_payload ?s) @ drop (unat l) buf)"
    using l sl assms(2) by (intro copy_bytes_ok) auto
  let ?rr = "rr\<lparr> rr_request_stash := (rr_request_stash rr)[?h := ?s\<lparr> sr_active := False \<rparr>],
    rr_stash_head := (?h + 1) mod 16, rr_stash_count := rr_stash_count rr - 1 \<rparr>"
  have eq: "rr_take_request rr buf cap l0 s0 c0 =
      Some (OK, take (unat l) (sr_payload ?s) @ drop (unat l) buf, l, sr_src ?s, sr_correlation_id ?s, ?rr)"
    using False inv sl cp by (simp add: rr_take_request_def l_def [symmetric] Let_def)
  have "sr_ok (?s\<lparr> sr_active := False \<rparr>)" using inv(4) by (simp add: sr_ok_def)
  then have "rr_inv ?rr"
    using assms(1) False ring_active_drop [OF inv(1,2) _ inv(3) act, of "?s\<lparr> sr_active := False \<rparr>"]
    by (auto simp: rr_inv_def list_all_updateI)
  moreover have "rr_requests rr = sr_view ?s # rr_requests ?rr"
    using ring_drop [OF inv(1) False inv(2,3), of "?s\<lparr> sr_active := False \<rparr>"] by (simp add: rr_requests_def)
  ultimately show ?thesis using l sl eq by (simp add: sr_view_def rr_others_def min.commute min.assoc)
qed

lemma stash_non_rr_spec:
  assumes "rr_inv rr" and "envelope_is_data env"
  shows "returns (RequestReplyEngine_stash_non_rr_data rr env) (\<lambda>rr'. rr_inv rr' \<and>
    rr_others rr' = take 16 (rr_others rr @ [env]) \<and> rr_pending rr' = rr_pending rr \<and> rr_requests rr' = rr_requests rr)"
proof (cases "rr_non_rr_count rr \<ge> 16")
  case True
  then have "length (rr_others rr) = 16" using assms(1) by (simp add: rr_others_def ring_contents_def rr_inv_def)
  with True assms show ?thesis by (simp add: RequestReplyEngine_stash_non_rr_data_def rr_inv_def)
next
  case False
  have inv: "length (rr_non_rr_stash rr) = 16" "rr_non_rr_head rr < 16" using assms(1) by (simp_all add: rr_inv_def)
  have "length (rr_others rr) < 16" using False by (simp add: rr_others_def ring_contents_def)
  with ring_add [OF inv(1) _ inv(2), of "rr_non_rr_count rr" env] assms False show ?thesis
    by (simp add: RequestReplyEngine_stash_non_rr_data_def rr_inv_def rr_others_def rr_requests_def)
qed

lemma take_non_rr_spec:
  assumes "rr_inv rr"
  shows "case rr_others rr of [] \<Rightarrow> rr_take_non_rr rr env = Some (ERR_EMPTY, env, rr)
    | x # xs \<Rightarrow> returns (rr_take_non_rr rr env) (\<lambda>(r, y, rr'). r = OK \<and> y = x \<and> rr_inv rr' \<and>
        rr_others rr' = xs \<and> rr_pending rr' = rr_pending rr \<and> rr_requests rr' = rr_requests rr)"
proof (cases "rr_non_rr_count rr = 0")
  case True
  then show ?thesis by (simp add: rr_others_def ring_contents_def rr_take_non_rr_def)
next
  case False
  have inv: "length (rr_non_rr_stash rr) = 16" "rr_non_rr_head rr < 16" "rr_non_rr_count rr \<le> 16"
    using assms by (simp_all add: rr_inv_def)
  from ring_drop [OF inv(1) False inv(2,3), of "rr_non_rr_stash rr ! rr_non_rr_head rr"] assms False show ?thesis
    by (auto simp: rr_take_non_rr_def rr_inv_def rr_others_def rr_requests_def)
qed

section \<open>Responses\<close>

lemma find_pending_eq:
  "rr_inv rr \<Longrightarrow> cid \<noteq> 0 \<Longrightarrow> RequestReplyEngine_find_pending rr cid =
     Some (first_idx (\<lambda>p. pr_active p \<and> pr_correlation_id p = cid) (rr_pending rr))"
  by (simp add: RequestReplyEngine_find_pending_def rr_inv_def)

text \<open>A slot that is about \<open>cid\<close> before and after concerns no other identifier.\<close>

lemma rr_answer_other:
  assumes "i < length (rr_pending rr)"
    and "pr_active (rr_pending rr ! i) \<longrightarrow> pr_correlation_id (rr_pending rr ! i) = cid"
    and "pr_active v \<longrightarrow> pr_correlation_id v = cid" and "c \<noteq> cid"
    and "rr_pending rr' = (rr_pending rr)[i := v]"
  shows "rr_answer rr' c = rr_answer rr c"
proof -
  let ?P = "\<lambda>p. pr_active p \<and> pr_correlation_id p = c"
  have eq: "first_idx ?P ((rr_pending rr)[i := v]) = first_idx ?P (rr_pending rr)"
    using assms by (intro first_idx_update_cong) auto
  have "j \<noteq> i" if "first_idx ?P (rr_pending rr) = Some j" for j
    using first_idx_SomeD [OF that] assms by auto
  then show ?thesis
    by (cases "first_idx ?P (rr_pending rr)") (simp_all add: rr_answer_def assms(5) eq)
qed

lemma inbound_response_spec:
  assumes "rr_inv rr" and "cid \<noteq> 0" and "unat len \<le> length app"
  shows "returns (RequestReplyEngine_handle_inbound_response rr cid app len) (\<lambda>rr'. rr_inv rr' \<and>
    rr_requests rr' = rr_requests rr \<and> rr_others rr' = rr_others rr \<and>
    rr_answer rr' = (if rr_answer rr cid = Some None then (rr_answer rr)(cid \<mapsto> Some (take (min 4084 (unat len)) app))
                     else rr_answer rr))"
proof (cases "first_idx (\<lambda>p. pr_active p \<and> pr_correlation_id p = cid) (rr_pending rr)")
  case None
  with assms find_pending_eq [OF assms(1,2)] show ?thesis
    by (simp add: RequestReplyEngine_handle_inbound_response_def rr_inv_def rr_answer_def)
next
  case (Some i)
  note i = first_idx_SomeD [OF Some]
  let ?p = "rr_pending rr ! i"
  show ?thesis
  proof (cases "pr_stash_ready ?p")
    case True
    with assms find_pending_eq [OF assms(1,2)] Some show ?thesis
      by (simp add: RequestReplyEngine_handle_inbound_response_def rr_inv_def rr_answer_def Let_def)
  next
    case False
    define l where "l = cut_len len 4084"
    have l: "unat l = min (unat len) 4084" unfolding l_def unat_cut_len by simp
    have ok: "pr_ok ?p" using assms(1) i by (simp add: rr_inv_def list_all_length)
    define v where "v = ?p\<lparr> pr_stash_payload := take (unat l) app @ drop (unat l) (pr_stash_payload ?p), pr_stash_len := l,
      pr_stash_ready := True \<rparr>"
    have v: "pr_ok v" "pr_active v" "pr_correlation_id v = cid" "pr_stash_ready v"
        "take (unat (pr_stash_len v)) (pr_stash_payload v) = take (min 4084 (unat len)) app"
      using ok i l assms(3) by (auto simp: v_def pr_ok_def word_le_nat_alt min.commute)
    have cp: "copy_bytes (pr_stash_payload ?p) app l = Some (pr_stash_payload v)"
      using ok l assms(3) by (subst copy_bytes_ok) (simp_all add: pr_ok_def v_def)
    let ?rr = "rr\<lparr> rr_pending := (rr_pending rr)[i := v] \<rparr>"
    have eq: "RequestReplyEngine_handle_inbound_response rr cid app len = Some ?rr"
      using False Some cp assms(1,2) find_pending_eq [OF assms(1,2)]
      by (simp add: RequestReplyEngine_handle_inbound_response_def l_def [symmetric] v_def Let_def rr_inv_def)
    have "rr_inv ?rr"
      using assms(1) i v(1,2) by (simp add: rr_inv_def list_all_updateI length_filter_same)
    moreover have "rr_answer rr cid = Some None" using Some False by (simp add: rr_answer_def Let_def)
    moreover have "rr_answer ?rr cid = Some (Some (take (min 4084 (unat len)) app))"
      using i v first_idx_update_same [OF Some, of v] by (simp add: rr_answer_def Let_def)
    moreover have "rr_answer ?rr c = rr_answer rr c" if "c \<noteq> cid" for c
      using i v that by (intro rr_answer_other [of i rr cid v]) simp_all
    ultimately show ?thesis unfolding eq by (auto simp: rr_requests_def rr_others_def)
  qed
qed

lemma take_response_spec:
  assumes "rr_inv rr" and "cid \<noteq> 0" and "unat cap \<le> length buf"
  shows "case rr_answer rr cid of
      None \<Rightarrow> rr_take_response rr cid buf cap l0 = Some (ERR_INVALID, buf, l0, rr)
    | Some None \<Rightarrow> rr_take_response rr cid buf cap l0 = Some (ERR_EMPTY, buf, l0, rr)
    | Some (Some app) \<Rightarrow> returns (rr_take_response rr cid buf cap l0) (\<lambda>(r, buf', len, rr').
        r = OK \<and> unat len = min (length app) (unat cap) \<and> take (unat len) buf' = take (unat len) app \<and> rr_inv rr' \<and>
        rr_requests rr' = rr_requests rr \<and> rr_others rr' = rr_others rr \<and> rr_pending_count rr = Suc (rr_pending_count rr') \<and>
        (\<forall>c. c \<noteq> cid \<longrightarrow> rr_answer rr' c = rr_answer rr c))"
proof (cases "first_idx (\<lambda>p. pr_active p \<and> pr_correlation_id p = cid) (rr_pending rr)")
  case None
  with find_pending_eq [OF assms(1,2)] show ?thesis by (simp add: rr_take_response_def rr_answer_def)
next
  case (Some i)
  note i = first_idx_SomeD [OF Some]
  let ?p = "rr_pending rr ! i"
  show ?thesis
  proof (cases "pr_stash_ready ?p")
    case False
    with find_pending_eq [OF assms(1,2)] Some show ?thesis by (simp add: rr_take_response_def rr_answer_def Let_def)
  next
    case True
    have "pr_ok ?p" "length (rr_pending rr) = 16" using assms(1) i by (simp_all add: rr_inv_def list_all_length)
    then have ok: "pr_ok ?p" "unat (pr_stash_len ?p) \<le> 4084" "length (pr_stash_payload ?p) = 4084" "length (rr_pending rr) = 16"
      by (simp_all add: pr_ok_def word_le_nat_alt)
    define l where "l = cut_len (pr_stash_len ?p) cap"
    have l: "unat l = min (unat (pr_stash_len ?p)) (unat cap)" unfolding l_def unat_cut_len by simp
    have cp: "copy_bytes buf (pr_stash_payload ?p) l = Some (take (unat l) (pr_stash_payload ?p) @ drop (unat l) buf)"
      using l ok assms(3) by (intro copy_bytes_ok) auto
    let ?v = "?p\<lparr> pr_active := False, pr_stash_ready := False \<rparr>"
    let ?rr = "rr\<lparr> rr_pending := (rr_pending rr)[i := ?v], rr_pending_count := rr_pending_count rr - 1 \<rparr>"
    have rel: "Suc (length (filter pr_active ((rr_pending rr)[i := ?v]))) = length (filter pr_active (rr_pending rr))"
      using i by (intro length_filter_release) simp_all
    then have cnt: "0 < rr_pending_count rr" using assms(1) by (metis rr_inv_def zero_less_Suc)
    have eq: "rr_take_response rr cid buf cap l0 = Some (OK, take (unat l) (pr_stash_payload ?p) @ drop (unat l) buf, l, ?rr)"
      using True Some cp cnt i ok(4) find_pending_eq [OF assms(1,2)] by (simp add: rr_take_response_def l_def [symmetric] Let_def)
    have "pr_ok ?v" using ok(1) by (simp add: pr_ok_def)
    then have "rr_inv ?rr" using assms(1) rel by (auto simp: rr_inv_def list_all_updateI)
    moreover have "rr_answer ?rr c = rr_answer rr c" if "c \<noteq> cid" for c
      using i that by (intro rr_answer_other [of i rr cid ?v]) simp_all
    ultimately show ?thesis
      using l ok cnt Some True by (simp add: eq rr_answer_def [of rr cid] Let_def rr_requests_def rr_others_def)
  qed
qed

section \<open>Dispatching\<close>

lemma absorb_inv:
  assumes "rr_inv rr" and "env_wf env" and "envelope_valid env" and "envelope_is_data env \<longrightarrow> payload_length env \<noteq> 0"
  shows "returns (rr_absorb rr env) rr_inv"
proof (cases "envelope_is_data env")
  case False
  with assms(1) show ?thesis by (simp add: rr_absorb_def)
next
  case True
  have pos: "0 < payload_length env" using True assms(4) by (simp add: word_gt_0)
  have init: "rr_initialized rr" using assms(1) by (simp add: rr_inv_def)
  from parse_returns [OF pos] obtain ok hdr where
    p: "RequestReplyEngine_parse_rr_header (payload env) (payload_length env)
          \<lparr> hdr_kind = 0, hdr_correlation_id = 0, hdr_pad = [0, 0, 0] \<rparr> = Some (ok, hdr)"
      "ok \<Longrightarrow> 12 \<le> unat (payload_length env) \<and> hdr_correlation_id hdr \<noteq> 0"
    by (fastforce elim!: returnsE)
  show ?thesis
  proof (cases ok)
    case False
    with True p(1) init stash_non_rr_spec [OF assms(1) True] show ?thesis
      by (auto simp: rr_absorb_def RequestReplyEngine_dispatch_inbound_envelope_def elim!: returns_mono)
  next
    case ok: True
    have "payload_length env \<le> 4096" using assms(3) by (simp add: envelope_valid_def)
    then have l: "unat (payload_length env - 12) \<le> length (drop 12 (payload env))" if "12 < payload_length env"
      using assms(2) that by (auto simp: env_wf_def word_le_nat_alt word_less_nat_alt unat_sub)
    have src: "source_id env \<noteq> 0" using assms(3) by (simp add: envelope_valid_def)
    note c = p(2) [OF ok, THEN conjunct2]
    have "returns (RequestReplyEngine_handle_inbound_response rr (hdr_correlation_id hdr) (drop 12 (payload env)) l) rr_inv"
        "returns (RequestReplyEngine_handle_inbound_request rr (source_id env) (hdr_correlation_id hdr) (drop 12 (payload env)) l) rr_inv"
      if "unat l \<le> length (drop 12 (payload env))" for l
      using inbound_response_spec [OF assms(1) c that] inbound_request_spec [OF assms(1) c src that] by (auto elim!: returns_mono)
    with l True p(1) ok init show ?thesis
      by (simp add: rr_absorb_def RequestReplyEngine_dispatch_inbound_envelope_def Let_def)
  qed
qed

lemma dispatch_carried:
  assumes "carries kind cid app env" and "cid \<noteq> 0" and "length app \<le> 4084" and "rr_initialized rr"
  shows "rr_absorb rr env = (if kind = RESPONSE
      then RequestReplyEngine_handle_inbound_response rr cid (drop 12 (payload env)) (of_nat (length app))
      else RequestReplyEngine_handle_inbound_request rr (source_id env) cid (drop 12 (payload env)) (of_nat (length app)))"
    and "take (length app) (drop 12 (payload env)) = app" and "length (drop 12 (payload env)) = 4084"
proof -
  have env: "env_wf env" "envelope_valid env" "envelope_is_data env" "payload_bytes env = rr_head kind cid @ app"
    using assms(1) by (simp_all add: carries_def)
  have pl: "length (payload env) = 4096" using env(1) by (simp add: env_wf_def)
  then show "length (drop 12 (payload env)) = 4084" by simp
  have n: "unat (payload_length env) = 12 + length app"
    using length_payload_bytes [OF env(1)] env(2,4) by (simp add: envelope_valid_def)
  then have w: "payload_length env = 12 + of_nat (length app)" by (metis of_nat_add of_nat_numeral of_nat_unat word_of_nat_eq_iff ucast_id)
  have t: "take (12 + length app) (payload env) = rr_head kind cid @ app" using env(4) n by (simp add: payload_bytes_def)
  have "drop 12 (take (12 + length app) (payload env)) = app" unfolding t by simp
  then show "take (length app) (drop 12 (payload env)) = app" by (simp add: take_drop add.commute)
  have hd: "take 12 (payload env) = rr_head kind cid"
    using arg_cong [OF t, of "take 12"] by (simp add: min_def)
  have len: "(if payload_length env > 12 then payload_length env - 12 else 0) = of_nat (length app)"
    using n w by (cases "app = []") (auto simp: word_less_nat_alt)
  show "rr_absorb rr env = (if kind = RESPONSE
      then RequestReplyEngine_handle_inbound_response rr cid (drop 12 (payload env)) (of_nat (length app))
      else RequestReplyEngine_handle_inbound_request rr (source_id env) cid (drop 12 (payload env)) (of_nat (length app)))"
    using env(3) assms(4) parse_head [OF _ _ hd assms(2), of "payload_length env"] n pl len
    by (cases kind) (auto simp: rr_absorb_def RequestReplyEngine_dispatch_inbound_envelope_def Let_def split: if_splits)
qed

section \<open>Time-outs\<close>

lemma rr_sweep_spec:
  assumes "rr_inv rr" and "0 < now"
  shows "returns (RequestReplyEngine_sweep_timeouts rr now) (\<lambda>(n, rr'). rr_inv rr' \<and>
    rr_pending rr' = map (\<lambda>p. if pr_swept now p then p\<lparr> pr_active := False, pr_stash_ready := False \<rparr> else p) (rr_pending rr) \<and>
    n = length (filter (pr_swept now) (rr_pending rr)) \<and> rr_pending_count rr = rr_pending_count rr' + n \<and>
    rr_requests rr' = rr_requests rr \<and> rr_others rr' = rr_others rr)"
proof -
  let ?f = "\<lambda>p. if pr_swept now p then p\<lparr> pr_active := False, pr_stash_ready := False \<rparr> else p"
  define I where "I k = (\<lambda>(n, r). rr_inv r \<and> rr_pending r = mapped_to k ?f (rr_pending rr) \<and>
      n = length (filter (pr_swept now) (take k (rr_pending rr))) \<and> rr_pending_count rr = rr_pending_count r + n \<and>
      rr_requests r = rr_requests rr \<and> rr_others r = rr_others rr)" for k
  have len: "length (rr_pending rr) = 16" "rr_initialized rr" using assms(1) by (simp_all add: rr_inv_def)
  have body: "returns (rr_sweep_slot now k s) (I (Suc k))" if k: "k < 16" and I: "I k s" for k s
  proof -
    obtain n r where s: "s = (n, r)" by (cases s)
    let ?p = "rr_pending rr ! k"
    let ?v = "?p\<lparr> pr_active := False, pr_stash_ready := False \<rparr>"
    have r: "rr_inv r" "rr_pending r = mapped_to k ?f (rr_pending rr)" "rr_pending r ! k = ?p" "length (rr_pending r) = 16"
      using I k len by (simp_all add: s I_def)
    show ?thesis
    proof (cases "pr_swept now ?p")
      case False
      with I k len r(3) mapped_to_same [of k "rr_pending rr" ?f] show ?thesis
        by (auto simp: s I_def rr_sweep_slot_def Let_def pr_swept_def filter_take_Suc)
    next
      case True
      let ?r = "r\<lparr> rr_pending := (rr_pending r)[k := ?v], rr_pending_count := rr_pending_count r - 1 \<rparr>"
      have rel: "Suc (length (filter pr_active ((rr_pending r)[k := ?v]))) = length (filter pr_active (rr_pending r))"
        using True k r by (intro length_filter_release) (simp_all add: pr_swept_def)
      then have cnt: "rr_pending_count r = Suc (length (filter pr_active ((rr_pending r)[k := ?v])))"
        using r(1) by (simp add: rr_inv_def)
      have "pr_ok ?v" using r(1,3,4) k by (auto simp: rr_inv_def list_all_length pr_ok_def)
      then have "rr_inv ?r" using r(1) cnt by (auto simp: rr_inv_def list_all_updateI)
      moreover have "(rr_pending r)[k := ?v] = mapped_to (Suc k) ?f (rr_pending rr)"
        using mapped_to_update [of k "rr_pending rr" ?f] True k len r(2) by simp
      moreover have "rr_sweep_slot now k s = Some (n + 1, ?r)"
        using True r(3) cnt by (auto simp: s rr_sweep_slot_def Let_def pr_swept_def)
      ultimately show ?thesis
        using I True k len cnt by (simp add: s I_def filter_take_Suc rr_requests_def rr_others_def)
    qed
  qed
  have "I 0 (0, rr)" using assms(1) by (simp add: I_def)
  from for_each_upt [of I, OF this body] have loop: "returns (for_each (rr_sweep_slot now) [0..<16] (0, rr)) (I 16)" .
  have "I 16 (n, r) \<Longrightarrow> n \<le> 16 \<and> rr_pending_count r \<le> 16" for n r
    using len length_filter_le [of pr_active "rr_pending r"] length_filter_le [of "pr_swept now" "rr_pending rr"]
    by (auto simp: I_def rr_inv_def)
  with loop show ?thesis using assms(2) len
    by (auto simp: RequestReplyEngine_sweep_timeouts_def I_def simp del: upt_rec_numeral elim!: returns_mono)
qed

section \<open>Sending\<close>

lemma rr_envelope_ok:
  assumes "length app \<le> 4084"
  shows "unat (payload_length (rr_envelope kind rel dst cid app ex)) = 12 + length app"
    and "payload_bytes (rr_envelope kind rel dst cid app ex) = rr_head kind cid @ app"
    and "dst \<noteq> 0 \<Longrightarrow> ex \<noteq> - 1 \<or> rel \<noteq> RELIABLE_RETRY \<Longrightarrow> sendable cfg (rr_envelope kind rel dst cid app ex)"
proof -
  have u: "unat (12 + of_nat (length app) :: u32) = 12 + length app"
    using assms by (simp add: unat_word_ariths unat_of_nat)
  then show "unat (payload_length (rr_envelope kind rel dst cid app ex)) = 12 + length app" by (simp add: rr_envelope_def)
  show "payload_bytes (rr_envelope kind rel dst cid app ex) = rr_head kind cid @ app"
    using u by (simp add: payload_bytes_def rr_envelope_def blit_def)
  show "sendable cfg (rr_envelope kind rel dst cid app ex)" if "dst \<noteq> 0" "ex \<noteq> - 1 \<or> rel \<noteq> RELIABLE_RETRY"
    using u assms that by (auto simp: sendable_def rr_envelope_def env_wf_def word_le_nat_alt)
qed

text \<open>Once stamped by \<open>send\<close>, the envelope carries the header and the application's bytes.\<close>

lemma stamped_carries:
  assumes "stamped e now (rr_envelope kind rel dst cid app ex) m" and "length app \<le> 4084" and "eng_local_id e \<noteq> 0"
  shows "carries kind cid app m" "destination_id m = dst" "source_id m = eng_local_id e" "message_id m = eng_id_gen e"
proof -
  let ?m = "rr_envelope kind rel dst cid app ex"
  from assms(1) obtain q where m: "m = ?m\<lparr> source_id := eng_local_id e, message_id := eng_id_gen e,
     timestamp_us := now, sequence_num := q, fragment_index := 0, fragment_count := 1, total_payload_length := ucast (payload_length ?m) \<rparr>"
    by (auto simp: stamped_def)
  show "destination_id m = dst" "source_id m = eng_local_id e" "message_id m = eng_id_gen e"
    by (simp_all add: m) (simp add: rr_envelope_def)
  have "payload_length ?m \<le> 4096" using rr_envelope_ok(1) [OF assms(2)] assms(2) by (simp add: word_le_nat_alt)
  moreover have "payload_bytes m = payload_bytes ?m" by (simp add: m payload_bytes_def)
  moreover have "env_wf ?m" "message_type ?m = DATA" using assms(2) by (simp_all add: rr_envelope_def env_wf_def)
  ultimately show "carries kind cid app m"
    using assms(3) rr_envelope_ok(2) [OF assms(2)]
    by (simp add: carries_def m env_wf_def envelope_valid_def envelope_is_data_def)
qed

lemma send_rr_envelope:
  assumes "eng_inv e" and "transport_ok T I" and "I t" and "now_us > 0" and "dst \<noteq> 0" and "length app \<le> 4084"
    and "ex \<noteq> - 1 \<or> rel \<noteq> RELIABLE_RETRY"
  shows "returns (DeliveryEngine_send T e t (rr_envelope kind rel dst cid app ex) now_us) (\<lambda>(r, m, e', t'). eng_inv e' \<and> I t' \<and>
    (transport_logs T sent \<and> next_key_fresh e \<and> r = OK \<longrightarrow> on_wire m (sent t) (sent t') \<and> carries kind cid app m \<and>
       destination_id m = dst \<and> source_id m = eng_local_id e))"
  by (rule returns_mono [OF send_spec [OF assms(1,4,2,3) rr_envelope_ok(3) [OF assms(6,5,7)], where sent = sent]])
    (use assms(1) stamped_carries [OF _ assms(6) eng_invD(2) [OF assms(1)]] in
      \<open>auto simp: next_key_fresh_def send_outcome_def on_wire_def dest: eng_stepD split: if_splits\<close>)

lemma send_response_eq:
  assumes "rr_initialized rr" and "unat len = length app" and "length app \<le> 4084"
  shows "RequestReplyEngine_send_response T rr e t dst cid app len now_us = do {
      (r, env', e', t') \<leftarrow> DeliveryEngine_send T e t (rr_envelope RESPONSE BEST_EFFORT dst cid app
        (if k_resp_expiry_us > - 1 - now_us then - 1 else now_us + k_resp_expiry_us)) now_us;
      Some (r, e', t') }"
proof -
  have l: "of_nat (length app) = len" using assms(2) by (metis of_nat_unat ucast_id)
  have u: "unat (12 + len) = 12 + length app" using assms(2,3) by (simp add: unat_word_ariths)
  then have "12 + len \<noteq> 0" by auto
  moreover have "RequestReplyEngine_build_wire_payload RESPONSE cid app len wire_buf 4096 =
      Some (12 + len, blit wire_buf 0 (rr_head RESPONSE cid @ app))"
    using assms(2,3) by (intro build_spec) (simp_all add: wire_buf_def)
  moreover have "mem_copy (payload envelope_init) 0 (blit wire_buf 0 (rr_head RESPONSE cid @ app)) (unat (12 + len)) =
      Some (blit (replicate payload_capacity 0) 0 (rr_head RESPONSE cid @ app))"
    using assms(3) unfolding u by (subst mem_copy_ok) (simp_all add: wire_buf_def envelope_init_def blit_def)
  ultimately show ?thesis using assms(1)
    by (simp add: RequestReplyEngine_send_response_def rr_envelope_def l Let_def)
qed

lemma open_pending:
  fixes ex :: u64
  assumes "rr_inv rr" and "first_idx (\<lambda>p. \<not> pr_active p) (rr_pending rr) = Some i" and "cid \<noteq> 0" and "g \<noteq> 0"
  defines "v \<equiv> (rr_pending rr ! i)\<lparr> pr_correlation_id := cid, pr_expires_us := ex, pr_active := True, pr_stash_len := 0, pr_stash_ready := False \<rparr>"
  defines "rr' \<equiv> rr\<lparr> rr_cid_gen := g, rr_pending := (rr_pending rr)[i := v], rr_pending_count := rr_pending_count rr + 1 \<rparr>"
  shows "rr_inv rr'" and "rr_answer rr cid = None \<Longrightarrow> rr_answer rr' cid = Some None"
    and "c \<noteq> cid \<Longrightarrow> rr_answer rr' c = rr_answer rr c"
proof -
  note i = first_idx_SomeD [OF assms(2)]
  have ok: "pr_ok (rr_pending rr ! i)" using assms(1) i by (simp add: rr_inv_def list_all_length)
  then have "pr_ok v" using assms(3) by (simp add: v_def pr_ok_def)
  moreover have "length (filter pr_active ((rr_pending rr)[i := v])) = Suc (length (filter pr_active (rr_pending rr)))"
    using i by (intro length_filter_activate) (simp_all add: v_def)
  ultimately show "rr_inv rr'" using assms(1,4) by (simp add: rr'_def rr_inv_def list_all_updateI)
  show "c \<noteq> cid \<Longrightarrow> rr_answer rr' c = rr_answer rr c"
    using i by (intro rr_answer_other [of i rr cid v]) (simp_all add: rr'_def v_def)
  assume "rr_answer rr cid = None"
  then have "first_idx (\<lambda>p. pr_active p \<and> pr_correlation_id p = cid) (rr_pending rr) = None"
    by (simp add: rr_answer_def)
  then have "first_idx (\<lambda>p. pr_active p \<and> pr_correlation_id p = cid) ((rr_pending rr)[i := v]) = Some i"
    using i by (intro first_idx_update_new) (simp_all add: v_def)
  then show "rr_answer rr' cid = Some None" using i by (simp add: rr_answer_def rr'_def v_def)
qed

text \<open>\<open>send_request\<close> with a free slot: it sends the request's envelope, and books the slot exactly if that returns OK.\<close>

lemma send_request_eq:
  fixes timeout_us now_us :: u64
  assumes "rr_inv rr" and "unat len = length app" and "length app \<le> 4084"
    and "first_idx (\<lambda>p. \<not> pr_active p) (rr_pending rr) = Some i"
  defines "ex \<equiv> (if timeout_us > 0 then (if timeout_us > - 1 - now_us then - 1 else now_us + timeout_us) else 0)"
    and "g \<equiv> (if rr_cid_gen rr = - 1 then 1 else rr_cid_gen rr + 1)"
  defines "v \<equiv> (rr_pending rr ! i)\<lparr> pr_correlation_id := rr_cid_gen rr, pr_expires_us := ex, pr_active := True, pr_stash_len := 0, pr_stash_ready := False \<rparr>"
  shows "RequestReplyEngine_send_request T rr e t dst app len timeout_us now_us c0 = do {
      (r, env', e', t') \<leftarrow> DeliveryEngine_send T e t (rr_envelope REQUEST RELIABLE_RETRY dst (rr_cid_gen rr) app ex) now_us;
      Some (if r = OK then (OK, rr_cid_gen rr, rr\<lparr> rr_cid_gen := g, rr_pending := (rr_pending rr)[i := v],
              rr_pending_count := rr_pending_count rr + 1 \<rparr>, e', t') else (r, c0, rr\<lparr> rr_cid_gen := g \<rparr>, e', t')) }"
proof -
  note i = first_idx_SomeD [OF assms(4)]
  have cid: "rr_cid_gen rr \<noteq> 0" "rr_initialized rr" using assms(1) by (simp_all add: rr_inv_def)
  have l: "of_nat (length app) = len" using assms(2) by (metis of_nat_unat ucast_id)
  have u: "unat (12 + len) = 12 + length app" using assms(2,3) by (simp add: unat_word_ariths)
  then have "12 + len \<noteq> 0" by auto
  have b: "RequestReplyEngine_build_wire_payload REQUEST (rr_cid_gen rr) app len wire_buf 4096 =
      Some (12 + len, blit wire_buf 0 (rr_head REQUEST (rr_cid_gen rr) @ app))"
    using assms(2,3) by (intro build_spec) (simp_all add: wire_buf_def)
  have m: "mem_copy (payload envelope_init) 0 (blit wire_buf 0 (rr_head REQUEST (rr_cid_gen rr) @ app)) (unat (12 + len)) =
      Some (blit (replicate payload_capacity 0) 0 (rr_head REQUEST (rr_cid_gen rr) @ app))"
    using assms(3) unfolding u by (subst mem_copy_ok) (simp_all add: wire_buf_def envelope_init_def blit_def)
  show ?thesis
    unfolding RequestReplyEngine_send_request_def RequestReplyEngine_find_free_pending_def ex_def [symmetric] g_def [symmetric]
    using cid b m i assms(4) \<open>12 + len \<noteq> 0\<close>
    by (cases "DeliveryEngine_send T e t (rr_envelope REQUEST RELIABLE_RETRY dst (rr_cid_gen rr) app ex) now_us")
      (auto simp: v_def rr_envelope_def l Let_def)
qed

lemma absorb_request:
  assumes "rr_inv rr" and "carries REQUEST cid app env" and "cid \<noteq> 0" and "length app \<le> 4084"
  shows "returns (rr_absorb rr env) (\<lambda>rr'. rr_inv rr' \<and> rr_requests rr' = take 16 (rr_requests rr @ [(source_id env, cid, app)]))"
proof -
  have src: "source_id env \<noteq> 0" "rr_initialized rr" using assms(1,2) by (simp_all add: carries_def envelope_valid_def rr_inv_def)
  note d = dispatch_carried [OF assms(2-4) src(2)]
  have "unat (of_nat (length app) :: u32) = length app" using assms(4) by (simp add: unat_of_nat)
  then show ?thesis
    using inbound_request_spec [OF assms(1,3) src(1), of "of_nat (length app)" "drop 12 (payload env)"] d assms(4)
    by (auto simp: min_def elim!: returns_mono)
qed

lemma absorb_response:
  assumes "rr_inv rr" and "carries RESPONSE cid app env" and "cid \<noteq> 0" and "length app \<le> 4084" and "rr_answer rr cid = Some None"
  shows "returns (rr_absorb rr env) (\<lambda>rr'. rr_inv rr' \<and> rr_answer rr' cid = Some (Some app))"
proof -
  have "rr_initialized rr" using assms(1) by (simp add: rr_inv_def)
  note d = dispatch_carried [OF assms(2-4) this]
  have "unat (of_nat (length app) :: u32) = length app" using assms(4) by (simp add: unat_of_nat)
  then show ?thesis
    using inbound_response_spec [OF assms(1,3), of "of_nat (length app)" "drop 12 (payload env)"] d assms(4,5)
    by (auto simp: min_def elim!: returns_mono)
qed

text \<open>A deadline that does not saturate.\<close>

lemma expiry_not_saturated:
  fixes timeout_us now_us :: u64
  assumes "unat now_us + unat timeout_us < 2 ^ 64 - 1"
  shows "(if timeout_us > 0 then (if timeout_us > - 1 - now_us then - 1 else now_us + timeout_us) else 0) \<noteq> - 1"
proof -
  have u: "unat (now_us + timeout_us) = unat now_us + unat timeout_us" using assms by (simp add: unat_word_ariths)
  have unat_m1: "unat (- 1 :: u64) = 2 ^ 64 - 1" by (simp add: unsigned_minus_1_eq_mask mask_eq_exp_minus_1)
  have "unat (- 1 - now_us) = 2 ^ 64 - 1 - unat now_us" by (simp add: unat_sub unat_m1)
  then have "\<not> timeout_us > - 1 - now_us" using assms by (simp add: word_less_nat_alt)
  moreover have "now_us + timeout_us \<noteq> - 1" using u assms unat_m1 by auto
  ultimately show ?thesis by auto
qed

text \<open>The client's side of an exchange.\<close>

lemma request_sent:
  assumes "rr_inv rr" and "eng_inv e" and "transport_ok T I" and "I t" and "now_us > 0" and "dst \<noteq> 0"
    and "unat len = length app" and "length app \<le> 4084" and "unat now_us + unat timeout_us < 2 ^ 64 - 1"
    and "transport_logs T sent" and "next_key_fresh e" and "rr_answer rr (rr_cid_gen rr) = None"
  shows "returns (RequestReplyEngine_send_request T rr e t dst app len timeout_us now_us c0) (\<lambda>(r, cid, rr', e', t'). rr_inv rr' \<and>
    (r = OK \<longrightarrow> cid \<noteq> 0 \<and> rr_answer rr' cid = Some None \<and> (\<exists>m. on_wire m (sent t) (sent t') \<and> carries REQUEST cid app m \<and>
       destination_id m = dst \<and> source_id m = eng_local_id e)))"
proof (cases "first_idx (\<lambda>p. \<not> pr_active p) (rr_pending rr)")
  case None
  with assms(1) show ?thesis
    by (simp add: RequestReplyEngine_send_request_def RequestReplyEngine_find_free_pending_def rr_inv_def)
next
  case (Some i)
  define ex where "ex = (if timeout_us > 0 then (if timeout_us > - 1 - now_us then - 1 else now_us + timeout_us) else 0)"
  define g where "g = (if rr_cid_gen rr = - 1 then 1 else rr_cid_gen rr + 1)"
  have ex: "ex \<noteq> - 1" unfolding ex_def by (rule expiry_not_saturated [OF assms(9)])
  have g: "g \<noteq> 0" "rr_cid_gen rr \<noteq> 0" using assms(1) by (auto simp: g_def rr_inv_def eq_neg_iff_add_eq_0)
  from send_rr_envelope [OF assms(2-6,8), where kind = REQUEST and rel = RELIABLE_RETRY and cid = "rr_cid_gen rr" and ex = ex and sent = sent] ex assms(10,11) obtain r m e' t' where
    s: "DeliveryEngine_send T e t (rr_envelope REQUEST RELIABLE_RETRY dst (rr_cid_gen rr) app ex) now_us = Some (r, m, e', t')"
      "r = OK \<longrightarrow> on_wire m (sent t) (sent t') \<and> carries REQUEST (rr_cid_gen rr) app m \<and> destination_id m = dst \<and>
         source_id m = eng_local_id e" by (auto elim!: returnsE)
  have inv0: "rr_inv (rr\<lparr> rr_cid_gen := g \<rparr>)" using assms(1) g by (simp add: rr_inv_def)
  show ?thesis
    using s inv0 g(2) open_pending [OF assms(1) Some g(2,1), where ex = ex] assms(12)
    by (cases "r = OK") (auto simp: send_request_eq [OF assms(1,7,8) Some] ex_def [symmetric] g_def [symmetric])
qed

text \<open>The server's side.\<close>

lemma request_served:
  assumes "rr_inv rr" and "eng_inv e" and "transport_ok T I" and "I t" and "now_us > 0"
    and "rr_requests rr = [(src, cid, req)]" and "src \<noteq> 0" and "length req \<le> 4084" and "unat cap \<le> length buf" and "4084 \<le> unat cap"
    and "unat len = length resp" and "length resp \<le> 4084" and "transport_logs T sent" and "next_key_fresh e"
  shows "returns (serve_request T rr e t buf cap resp len now_us) (\<lambda>((r, bytes, src', cid'), r', t').
    r = OK \<and> bytes = req \<and> src' = src \<and> cid' = cid \<and>
    (r' = OK \<longrightarrow> (\<exists>m. on_wire m (sent t) (sent t') \<and> carries RESPONSE cid resp m \<and> destination_id m = src)))"
proof -
  from take_request_spec [OF assms(1,9), of 0 0 0] assms(6,8,10) obtain b l rr' where
    b: "rr_take_request rr buf cap 0 0 0 = Some (OK, b, l, src, cid, rr')" "take (unat l) b = req" "rr_inv rr'"
    by (auto elim!: returnsE)
  let ?ex = "if k_resp_expiry_us > - 1 - now_us then - 1 else now_us + k_resp_expiry_us"
  from send_rr_envelope [OF assms(2-5,7,12), where kind = RESPONSE and rel = BEST_EFFORT and cid = cid and ex = ?ex and sent = sent] assms(13,14) obtain r m e' t' where
    s: "DeliveryEngine_send T e t (rr_envelope RESPONSE BEST_EFFORT src cid resp ?ex) now_us = Some (r, m, e', t')"
      "r = OK \<longrightarrow> on_wire m (sent t) (sent t') \<and> carries RESPONSE cid resp m \<and> destination_id m = src" by (auto elim!: returnsE)
  have ini: "rr_initialized rr'" using b(3) by (simp add: rr_inv_def)
  have "RequestReplyEngine_send_response T rr' e t src cid resp len now_us = Some (r, e', t')"
    unfolding send_response_eq [OF ini assms(11,12)] s(1) by simp
  with b s(2) show ?thesis by (auto simp: serve_request_def)
qed

section \<open>Properties\<close>

lemma rr_blank_inv: "rr_inv rr_blank"
  by (simp add: rr_inv_def rr_blank_def pr_ok_def sr_ok_def pending_request_init_def stashed_request_init_def list_all_iff)

lemma rr_waiting_inv: "rr_inv rr_waiting"
  by (simp add: rr_inv_def rr_waiting_def rr_blank_def pr_ok_def sr_ok_def pending_request_init_def stashed_request_init_def list_all_iff)

lemma rr_example_carries:
  assumes "src \<noteq> 0" and "length app \<le> 4084"
  shows "carries kind 7 app (rr_example kind src app)"
proof -
  have u: "unat (12 + of_nat (length app) :: u32) = 12 + length app"
    using assms(2) by (simp add: unat_word_ariths unat_of_nat)
  then have "(12 + of_nat (length app) :: u32) \<le> 4096" using assms(2) by (simp add: word_le_nat_alt)
  moreover have "take (12 + length app) (blit (replicate 4096 0) 0 (rr_head kind 7 @ app)) = rr_head kind 7 @ app"
    by (simp add: blit_def)
  ultimately show ?thesis
    using assms u by (simp add: carries_def rr_example_def env_wf_def envelope_valid_def envelope_is_data_def payload_bytes_def)
qed

text \<open>A transport that accepts every frame and free tables: a small message is sent.\<close>

lemma send_accepted:
  assumes "eng_inv e" and "now > 0" and "\<not> time_goes_back e now" and "sendable (eng_cfg e) env" and "envelope_is_data env"
    and "destination_id env \<noteq> 0" and "payload_length env \<le> 1024" and "\<not> timestamp_expired (expiry_time_us env) now"
    and "\<And>t m. \<exists>t'. tr_send_message T t m = Some (OK, t')"
    and "at_count (eng_ack_tracker e) = 0" and "rm_count (eng_retry_manager e) = 0"
  shows "\<exists>m e' t'. DeliveryEngine_send T e t env now = Some (OK, m, e', t')"
proof -
  obtain g where g: "MessageIdGen_next (eng_id_gen e) = Some (eng_id_gen e, g)" "g \<noteq> 0"
    using unat_next_id [OF eng_invD(3) [OF assms(1)]] by (auto elim!: returnsE)
  let ?e1 = "e\<lparr> eng_last_now_us := now, eng_id_gen := g \<rparr>"
  let ?m1 = "env\<lparr> source_id := eng_local_id e, message_id := eng_id_gen e, timestamp_us := now \<rparr>"
  have i1: "eng_inv ?e1" using assms(1) g(2) by (simp add: eng_inv_def)
  obtain q ss where e2: "(if envelope_is_data ?m1 \<and> sequence_num ?m1 = 0 \<and> cc_ordering (eng_cfg ?e1) = ORDERED
         then do { (seq, e) \<leftarrow> DeliveryEngine_next_seq_for ?e1 (destination_id ?m1); Some (?m1\<lparr> sequence_num := seq \<rparr>, e) }
         else Some (?m1, ?e1)) = Some (?m1\<lparr> sequence_num := q \<rparr>, ?e1\<lparr> eng_seq_state := ss \<rparr>)" "length ss = 32"
  proof (cases "envelope_is_data ?m1 \<and> sequence_num ?m1 = 0 \<and> cc_ordering (eng_cfg ?e1) = ORDERED")
    case True
    from next_seq_spec [OF i1 assms(6)] True that show ?thesis by (auto elim!: returnsE)
  next
    case False
    have "length (eng_seq_state e) = 32" using assms(1) by (simp add: eng_inv_def)
    then show ?thesis using False that [of "sequence_num env" "eng_seq_state e"] by auto
  qed
  define m where "m = ?m1\<lparr> sequence_num := q, fragment_index := 0, fragment_count := 1, total_payload_length := ucast (payload_length env) \<rparr>"
  define e2 where "e2 = ?e1\<lparr> eng_seq_state := ss \<rparr>"
  have i2: "eng_inv e2" using i1 e2(2) by (simp add: e2_def eng_inv_def)
  have "stamped e now env m" by (auto simp: stamped_def m_def intro!: exI [of _ q])
  note m = stamped_fields [OF this assms(4) eng_invD(2) [OF assms(1)]]
  have cnt: "at_count (eng_ack_tracker e2) = 0" "rm_count (eng_retry_manager e2) = 0" using assms(10,11) by (simp_all add: e2_def)
  have sch: "schedulable (cc_max_retries (eng_cfg e2), cc_retry_backoff_ms (eng_cfg e2), now) m" if "reliability_class m = RELIABLE_RETRY"
    using that m(2,8) i2 by (simp add: schedulable_def eng_inv_def)
  from track_spec [OF eng_invD(4) [OF i2], of m "timestamp_deadline_us now (cc_recv_timeout_ms (eng_cfg e2))"] cnt(1) obtain ak where
    ak: "AckTracker_track (eng_ack_tracker e2) m (timestamp_deadline_us now (cc_recv_timeout_ms (eng_cfg e2))) = Some (OK, ak)"
    by (auto elim!: returnsE)
  have "\<exists>ak rm. reserve_bookkeeping (eng_ack_tracker e2) (eng_retry_manager e2) m (eng_cfg e2) now = Some (OK, ak, rm)"
  proof (cases "reliability_class m = RELIABLE_RETRY")
    case True
    from rm_schedule_spec [OF eng_invD(5) [OF i2] sch [OF True]] cnt(2) obtain rm where
      "RetryManager_schedule (eng_retry_manager e2) m (cc_max_retries (eng_cfg e2)) (cc_retry_backoff_ms (eng_cfg e2)) now = Some (OK, rm)"
      by (auto elim!: returnsE)
    with True ak assms(2) m(2) show ?thesis by (simp add: reserve_bookkeeping_def)
  qed (use ak assms(2) m(2) in \<open>simp add: reserve_bookkeeping_def\<close>)
  then obtain ak rm where b: "reserve_bookkeeping (eng_ack_tracker e2) (eng_retry_manager e2) m (eng_cfg e2) now = Some (OK, ak, rm)"
    by blast
  let ?e3 = "e2\<lparr> eng_ack_tracker := ak, eng_retry_manager := rm \<rparr>"
  obtain t' where "tr_send_message T t m = Some (OK, t')" using assms(9) by blast
  moreover have "\<not> timestamp_expired (expiry_time_us m) now" "payload_length m \<le> 1024" using assms(7,8) by (simp_all add: m_def)
  moreover from this(2) have "payload_length m \<le> 4096" by (rule order_trans) simp
  ultimately have "DeliveryEngine_send_fragments T ?e3 t m now = Some (OK, ?e3, t')"
    using m(2) eng_invD(1) [OF i2] assms(2)
    by (simp add: DeliveryEngine_send_fragments_def needs_fragmentation_def DeliveryEngine_send_via_transport_def not_less)
  moreover obtain er where "DeliveryEngine_emit_event (?e3\<lparr> eng_stats := (eng_stats ?e3)\<lparr> msgs_sent := msgs_sent (eng_stats ?e3) + 1 \<rparr> \<rparr>)
      SEND_OK (message_id m) (destination_id m) now OK = Some (?e3\<lparr> eng_stats := (eng_stats ?e3)\<lparr> msgs_sent := msgs_sent (eng_stats ?e3) + 1 \<rparr>, eng_events := er \<rparr>)"
    using emit_event_spec [of "?e3\<lparr> eng_stats := (eng_stats ?e3)\<lparr> msgs_sent := msgs_sent (eng_stats ?e3) + 1 \<rparr> \<rparr>" now SEND_OK "message_id m" "destination_id m" OK]
      eng_invD(1,7) [OF i2] assms(2) by (auto elim!: returnsE simp: eng_only_events_def)
  moreover have "source_id m = eng_local_id e2" "message_id m \<noteq> 0" using m(5,6) eng_invD(3) [OF assms(1)] by (simp_all add: e2_def)
  ultimately have "send_tail T e2 t m now = Some (OK, m, ?e3\<lparr> eng_stats := (eng_stats ?e3)\<lparr> msgs_sent := msgs_sent (eng_stats ?e3) + 1 \<rparr>, eng_events := er \<rparr>, t')"
    using b by (simp add: send_tail_def)
  then show ?thesis using g(1) e2(1) assms(2,3) eng_invD(1) [OF assms(1)]
    by (simp add: DeliveryEngine_send_def send_tail_def [symmetric] m_def e2_def)
qed

text \<open>Node 9 asks node 7.\<close>

lemma rr_witness_engine:
  assumes "n \<noteq> 0"
  obtains e t where "DeliveryEngine_init queue_transport eng_blank ([], []) (eng_cfg eng_blank) n True 5 = Some (e, t)"
    "queue_ok t" "eng_inv e" "eng_local_id e = n" "next_key_fresh e" "at_count (eng_ack_tracker e) = 0" "rm_count (eng_retry_manager e) = 0"
    "eng_last_now_us e = 0"
proof -
  from init_spec [OF eng_blank_constructed assms _ queue_transport_ok, of "eng_cfg eng_blank" "([], [])" 5] obtain e t where
    e: "DeliveryEngine_init queue_transport eng_blank ([], []) (eng_cfg eng_blank) n True 5 = Some (e, t)"
      "queue_ok t" "eng_inv e" "eng_local_id e = n" "eng_tables e = ({#}, {#})" "eng_last_now_us e = 0"
    by (auto elim!: returnsE simp: queue_ok_def eng_blank_def)
  have "at_count a = 0" if "AckTracker_init x = Some a" for x a
    using that by (auto simp: AckTracker_init_def bind_eq_Some_conv nc_assert_def split: if_splits)
  moreover have "rm_count a = 0" if "RetryManager_init x = Some a" for x a
    using that by (auto simp: RetryManager_init_def bind_eq_Some_conv nc_assert_def split: if_splits)
  ultimately have "at_count (eng_ack_tracker e) = 0" "rm_count (eng_retry_manager e) = 0"
    using e(1) by (auto simp: DeliveryEngine_init_def bind_eq_Some_conv nc_assert_def Let_def split: if_splits)
  then show ?thesis using that e by (simp add: next_key_fresh_def eng_tables_def)
qed

lemma queue_accepts: "\<exists>t'. tr_send_message queue_transport t m = Some (OK, t')"
  by (cases t) (simp add: queue_transport_def)

text \<open>Claim C10. The round trip of an exchange. If \<open>send_request\<close> reports OK, the frames of one message to the destination are on
  the wire; when that message has reached the server's request/reply engine, the server's application gets exactly the
  request's bytes with the client's identifier as its sender and the correlation identifier that the client was given. If the
  server's \<open>send_response\<close> to that sender and identifier then reports OK, the frames of one message to the client are on the
  wire, and when it has reached the client's engine, \<open>receive_response\<close> hands out exactly the response's bytes under the
  identifier.\<close>

theorem request_response_roundtrip:
  assumes "rr_inv A" and "eng_inv eA" and "transport_ok TA IA" and "IA tA" and "transport_logs TA sentA" and "next_key_fresh eA"
    and "rr_answer A (rr_cid_gen A) = None" and "now1 > 0" and "dst \<noteq> 0" and "unat lreq = length req" and "length req \<le> 4084"
    and "unat now1 + unat timeout_us < 2 ^ 64 - 1"
    and "rr_inv B" and "eng_inv eB" and "transport_ok TB IB" and "IB tB" and "transport_logs TB sentB" and "next_key_fresh eB"
    and "rr_requests B = []" and "now2 > 0" and "unat lresp = length resp" and "length resp \<le> 4084"
    and "4084 \<le> unat cap" and "unat cap \<le> length buf1" and "unat cap \<le> length buf2"
  shows "returns (RequestReplyEngine_send_request TA A eA tA dst req lreq timeout_us now1 c0) (\<lambda>(r1, cid, A, eA', tA'). r1 = OK \<longrightarrow>
    (\<exists>m1. on_wire m1 (sentA tA) (sentA tA') \<and> destination_id m1 = dst \<and>
      returns (do { B \<leftarrow> rr_absorb B m1; serve_request TB B eB tB buf1 cap resp lresp now2 })
        (\<lambda>((r2, bytes, src, cid'), r3, tB'). r2 = OK \<and> bytes = req \<and> src = eng_local_id eA \<and> cid' = cid \<and>
          (r3 = OK \<longrightarrow> (\<exists>m2. on_wire m2 (sentB tB) (sentB tB') \<and> destination_id m2 = eng_local_id eA \<and>
            returns (do { A \<leftarrow> rr_absorb A m2; rr_take_response A cid buf2 cap 0 })
              (\<lambda>(r4, b, l, A). r4 = OK \<and> take (unat l) b = resp))))))"
proof (rule returns_mono [OF request_sent [OF assms(1-4,8-12,5-7), of c0]], clarify)
  fix cid A' eA' tA' assume A': "rr_inv A'" and "OK = OK \<longrightarrow> cid \<noteq> 0 \<and> rr_answer A' cid = Some None \<and>
    (\<exists>m. on_wire m (sentA tA) (sentA tA') \<and> carries REQUEST cid req m \<and> destination_id m = dst \<and> source_id m = eng_local_id eA)"
  then obtain m1 where cid: "cid \<noteq> 0" "rr_answer A' cid = Some None" and
    m1: "on_wire m1 (sentA tA) (sentA tA')" "carries REQUEST cid req m1" "source_id m1 = eng_local_id eA" "destination_id m1 = dst"
    by blast
  have src: "source_id m1 \<noteq> 0" using m1(3) eng_invD(2) [OF assms(2)] by simp
  from absorb_request [OF assms(13) m1(2) cid(1) assms(11)] assms(19) obtain B' where
    B': "rr_absorb B m1 = Some B'" "rr_inv B'" "rr_requests B' = [(source_id m1, cid, req)]" by (auto elim!: returnsE)
  have resp: "returns (do { A \<leftarrow> rr_absorb A' m2; rr_take_response A cid buf2 cap 0 }) (\<lambda>(r4, b, l, A). r4 = OK \<and> take (unat l) b = resp)"
    if "carries RESPONSE cid resp m2" for m2
  proof -
    from absorb_response [OF A' that cid(1) assms(22) cid(2)] obtain A'' where
      A'': "rr_absorb A' m2 = Some A''" "rr_inv A''" "rr_answer A'' cid = Some (Some resp)" by (auto elim!: returnsE)
    with take_response_spec [OF A''(2) cid(1) assms(25), of 0] assms(22,23) show ?thesis by (auto elim!: returns_mono)
  qed
  from request_served [OF B'(2) assms(14-16,20) B'(3) src assms(11,24,23,21,22,17,18)]
  have "returns (do { B \<leftarrow> rr_absorb B m1; serve_request TB B eB tB buf1 cap resp lresp now2 })
      (\<lambda>((r2, bytes, src, cid'), r3, tB'). r2 = OK \<and> bytes = req \<and> src = eng_local_id eA \<and> cid' = cid \<and>
        (r3 = OK \<longrightarrow> (\<exists>m2. on_wire m2 (sentB tB) (sentB tB') \<and> destination_id m2 = eng_local_id eA \<and>
          returns (do { A \<leftarrow> rr_absorb A' m2; rr_take_response A cid buf2 cap 0 })
            (\<lambda>(r4, b, l, A). r4 = OK \<and> take (unat l) b = resp))))"
    unfolding B'(1) m1(3) using resp by (auto elim!: returns_mono simp del: returns_bind)
  with m1(1,4) show "\<exists>m1'. on_wire m1' (sentA tA) (sentA tA') \<and> destination_id m1' = dst \<and>
      returns (do { B \<leftarrow> rr_absorb B m1'; serve_request TB B eB tB buf1 cap resp lresp now2 })
        (\<lambda>((r2, bytes, src, cid'), r3, tB'). r2 = OK \<and> bytes = req \<and> src = eng_local_id eA \<and> cid' = cid \<and>
          (r3 = OK \<longrightarrow> (\<exists>m2. on_wire m2 (sentB tB) (sentB tB') \<and> destination_id m2 = eng_local_id eA \<and>
            returns (do { A \<leftarrow> rr_absorb A' m2; rr_take_response A cid buf2 cap 0 })
              (\<lambda>(r4, b, l, A). r4 = OK \<and> take (unat l) b = resp))))" by blast
qed

lemma returns_with: "returns m Q \<Longrightarrow> (\<And>x. m = Some x \<Longrightarrow> Q x \<Longrightarrow> R x) \<Longrightarrow> returns m R"
  by (cases m) simp_all

lemma response_accepted:
  assumes "eng_inv e" and "eng_last_now_us e = 0" and "at_count (eng_ack_tracker e) = 0" and "rm_count (eng_retry_manager e) = 0"
    and "serve_request queue_transport rr e t buf cap [8] 1 6 = Some ((r, bytes, src, cid), r', t')" and "src \<noteq> 0"
  shows "r' = OK"
proof -
  from assms(5) obtain b l rr1 e1 where s: "RequestReplyEngine_send_response queue_transport rr1 e t src cid [8] 1 6 = Some (r', e1, t')"
    by (auto simp: serve_request_def bind_eq_Some_conv)
  then have ini: "rr_initialized rr1" by (auto simp: RequestReplyEngine_send_response_def bind_eq_Some_conv nc_assert_def split: if_splits)
  have "\<exists>m e' t'. DeliveryEngine_send queue_transport e t (rr_envelope RESPONSE BEST_EFFORT src cid [8] 5000006) 6 = Some (OK, m, e', t')"
    using assms(1-4,6) by (intro send_accepted queue_accepts)
      (simp_all add: time_goes_back_def rr_envelope_ok(3), simp_all add: rr_envelope_def envelope_is_data_def timestamp_expired_def)
  moreover have "\<not> k_resp_expiry_us > - 1 - (6 :: u64)" "(6 :: u64) + k_resp_expiry_us = 5000006" by simp_all
  ultimately show ?thesis using s send_response_eq [OF ini, of 1 "[8]" queue_transport e t src cid 6] by auto
qed

theorem request_response_roundtrip_witness:
  "\<exists>eA tA eB tB. DeliveryEngine_init queue_transport eng_blank ([], []) (eng_cfg eng_blank) 9 True 5 = Some (eA, tA) \<and>
    DeliveryEngine_init queue_transport eng_blank ([], []) (eng_cfg eng_blank) 7 True 5 = Some (eB, tB) \<and>
    returns (RequestReplyEngine_send_request queue_transport rr_blank eA tA 7 [1, 2, 3] 3 1000 4 0) (\<lambda>(r1, cid, A, eA', tA'). r1 = OK \<and>
      (\<exists>m1. on_wire m1 (snd tA) (snd tA') \<and> destination_id m1 = 7 \<and>
        returns (do { B \<leftarrow> rr_absorb rr_blank m1; serve_request queue_transport B eB tB (replicate 4096 0) 4096 [8] 1 6 })
          (\<lambda>((r2, bytes, src, cid'), r3, tB'). r2 = OK \<and> bytes = [1, 2, 3] \<and> src = 9 \<and> cid' = cid \<and> r3 = OK \<and>
          (\<exists>m2. on_wire m2 (snd tB) (snd tB') \<and> destination_id m2 = 9 \<and>
            returns (do { A \<leftarrow> rr_absorb A m2; rr_take_response A cid (replicate 4096 0) 4096 0 })
              (\<lambda>(r4, b, l, A). r4 = OK \<and> take (unat l) b = [8])))))"
proof -
  obtain eA tA where A: "DeliveryEngine_init queue_transport eng_blank ([], []) (eng_cfg eng_blank) 9 True 5 = Some (eA, tA)"
    "queue_ok tA" "eng_inv eA" "eng_local_id eA = 9" "next_key_fresh eA" "at_count (eng_ack_tracker eA) = 0"
    "rm_count (eng_retry_manager eA) = 0" "eng_last_now_us eA = 0" by (rule rr_witness_engine [of 9]) simp
  obtain eB tB where B: "DeliveryEngine_init queue_transport eng_blank ([], []) (eng_cfg eng_blank) 7 True 5 = Some (eB, tB)"
    "queue_ok tB" "eng_inv eB" "eng_local_id eB = 7" "next_key_fresh eB" "at_count (eng_ack_tracker eB) = 0"
    "rm_count (eng_retry_manager eB) = 0" "eng_last_now_us eB = 0" by (rule rr_witness_engine [of 7]) simp
  have served: "r' = OK" if "(do { B \<leftarrow> rr_absorb rr_blank m; serve_request queue_transport B eB tB (replicate 4096 0) 4096 [8] 1 6 })
      = Some ((r, bytes, 9, cid), r', t')" for m r bytes cid r' t'
    using that response_accepted [OF B(3,8,6,7), of _ tB "replicate 4096 0" 4096 r bytes 9 cid r' t'] by (auto simp: bind_eq_Some_conv)
  have z: "rr_requests rr_blank = []" "rr_answer rr_blank (rr_cid_gen rr_blank) = None" "rr_cid_gen rr_blank = 1"
    by (simp_all add: rr_requests_def ring_contents_def rr_blank_def rr_answer_def pending_request_init_def first_idx_None)
  have "\<exists>m e' t'. DeliveryEngine_send queue_transport eA tA (rr_envelope REQUEST RELIABLE_RETRY 7 1 [1, 2, 3] 1004) 4 = Some (OK, m, e', t')"
    using A(3,6,7,8) by (intro send_accepted queue_accepts)
      (simp_all add: time_goes_back_def rr_envelope_ok(3), simp_all add: rr_envelope_def envelope_is_data_def timestamp_expired_def)
  moreover have "first_idx (\<lambda>p. \<not> pr_active p) (rr_pending rr_blank) = Some 0"
    by (simp add: rr_blank_def pending_request_init_def numeral_eq_Suc)
  note send_request_eq [OF rr_blank_inv _ _ this, of 3 "[1, 2, 3]" queue_transport eA tA 7 1000 4 0]
  ultimately have ok: "returns (RequestReplyEngine_send_request queue_transport rr_blank eA tA 7 [1, 2, 3] 3 1000 4 0) (\<lambda>(r1, x). r1 = OK)"
    using z(3) by (auto simp: word_less_nat_alt)
  from request_response_roundtrip [OF rr_blank_inv A(3) queue_transport_ok A(2) queue_logs A(5) z(2) _ _ _ _ _
      rr_blank_inv B(3) queue_transport_ok B(2) queue_logs B(5) z(1), of 4 7 3 "[1, 2, 3]" 1000 6 1 "[8]" 4096 "replicate 4096 0" "replicate 4096 0" 0]
  have "returns (RequestReplyEngine_send_request queue_transport rr_blank eA tA 7 [1, 2, 3] 3 1000 4 0) (\<lambda>(r1, cid, A, eA', tA'). r1 = OK \<longrightarrow>
      (\<exists>m1. on_wire m1 (snd tA) (snd tA') \<and> destination_id m1 = 7 \<and>
        returns (do { B \<leftarrow> rr_absorb rr_blank m1; serve_request queue_transport B eB tB (replicate 4096 0) 4096 [8] 1 6 })
          (\<lambda>((r2, bytes, src, cid'), r3, tB'). r2 = OK \<and> bytes = [1, 2, 3] \<and> src = 9 \<and> cid' = cid \<and> (r3 = OK \<longrightarrow>
          (\<exists>m2. on_wire m2 (snd tB) (snd tB') \<and> destination_id m2 = 9 \<and>
            returns (do { A \<leftarrow> rr_absorb A m2; rr_take_response A cid (replicate 4096 0) 4096 0 })
              (\<lambda>(r4, b, l, A). r4 = OK \<and> take (unat l) b = [8]))))))"
    unfolding A(4) by simp
  with ok have "returns (RequestReplyEngine_send_request queue_transport rr_blank eA tA 7 [1, 2, 3] 3 1000 4 0) (\<lambda>(r1, cid, A, eA', tA'). r1 = OK \<and>
      (\<exists>m1. on_wire m1 (snd tA) (snd tA') \<and> destination_id m1 = 7 \<and>
        returns (do { B \<leftarrow> rr_absorb rr_blank m1; serve_request queue_transport B eB tB (replicate 4096 0) 4096 [8] 1 6 })
          (\<lambda>((r2, bytes, src, cid'), r3, tB'). r2 = OK \<and> bytes = [1, 2, 3] \<and> src = 9 \<and> cid' = cid \<and> r3 = OK \<and>
          (\<exists>m2. on_wire m2 (snd tB) (snd tB') \<and> destination_id m2 = 9 \<and>
            returns (do { A \<leftarrow> rr_absorb A m2; rr_take_response A cid (replicate 4096 0) 4096 0 })
              (\<lambda>(r4, b, l, A). r4 = OK \<and> take (unat l) b = [8])))))"
    by (elim returnsE) (clarsimp simp del: returns_bind, intro exI conjI, assumption, simp, erule returns_with, auto dest: served)
  with A(1) B(1) show ?thesis by blast
qed

text \<open>A time-out sweep frees exactly the pending requests whose deadline is set and has passed, reports their number, and
  changes no other slot, stash or queue.\<close>

theorem rr_sweep_exact:
  assumes "rr_inv rr" and "0 < now_us"
  shows "returns (RequestReplyEngine_sweep_timeouts rr now_us) (\<lambda>(n, rr'). rr_inv rr' \<and>
    rr_pending rr' = map (\<lambda>p. if pr_swept now_us p then p\<lparr> pr_active := False, pr_stash_ready := False \<rparr> else p) (rr_pending rr) \<and>
    n = length (filter (pr_swept now_us) (rr_pending rr)) \<and> rr_pending_count rr = rr_pending_count rr' + n \<and>
    rr_requests rr' = rr_requests rr \<and> rr_others rr' = rr_others rr)"
  by (rule rr_sweep_spec [OF assms])

theorem rr_sweep_exact_witness:
  "returns (RequestReplyEngine_sweep_timeouts rr_waiting 5) (\<lambda>(n, rr'). rr_inv rr' \<and> n = 0 \<and> rr_pending rr' = rr_pending rr_waiting)"
  by (rule returns_mono [OF rr_sweep_exact [OF rr_waiting_inv]])
    (auto simp: rr_waiting_def pr_swept_def pending_request_init_def)

lemma absorb_requests:
  assumes "list_all2 (\<lambda>(cid, app) env. cid \<noteq> 0 \<and> length app \<le> 4084 \<and> carries REQUEST cid app env) reqs envs" and "rr_inv rr"
  shows "returns (for_each (\<lambda>env rr. rr_absorb rr env) envs rr) (\<lambda>rr'. rr_inv rr' \<and>
    rr_requests rr' = take 16 (rr_requests rr @ map2 (\<lambda>(cid, app) env. (source_id env, cid, app)) reqs envs))"
  using assms
proof (induction arbitrary: rr rule: list_all2_induct)
  case Nil
  have "length (rr_requests rr) \<le> 16" using Nil by (simp add: rr_requests_def ring_contents_def rr_inv_def)
  with Nil show ?case by simp
next
  case (Cons r reqs env envs)
  obtain cid app where r: "r = (cid, app)" by (cases r)
  from absorb_request [OF Cons.prems, of cid app env] Cons.hyps(1) obtain rr' where
    rr': "rr_absorb rr env = Some rr'" "rr_inv rr'" "rr_requests rr' = take 16 (rr_requests rr @ [(source_id env, cid, app)])"
    by (auto simp: r elim!: returnsE)
  have "take 16 (take 16 (xs @ [x]) @ ys) = take 16 (xs @ x # ys)" for x :: "NodeId \<times> u64 \<times> u8 list" and xs ys
    by (cases "length xs < 16") (simp_all add: take_append)
  with Cons.IH [OF rr'(2)] rr' show ?case by (simp add: r del: take_append)
qed

text \<open>The stash of inbound requests is a bounded queue: requests that arrive one after another are kept in arrival
  order, with sender, identifier and bytes, up to sixteen; and \<open>receive_request\<close> takes the oldest one and leaves the rest.\<close>

theorem inbound_requests_fifo:
  assumes "rr_inv rr" and "list_all2 (\<lambda>(cid, app) env. cid \<noteq> 0 \<and> length app \<le> 4084 \<and> carries REQUEST cid app env) reqs envs"
    and "4084 \<le> unat cap" and "unat cap \<le> length buf"
  shows "returns (for_each (\<lambda>env rr. rr_absorb rr env) envs rr) (\<lambda>rr'.
    rr_requests rr' = take 16 (rr_requests rr @ map2 (\<lambda>(cid, app) env. (source_id env, cid, app)) reqs envs) \<and>
    (case rr_requests rr' of
       [] \<Rightarrow> rr_take_request rr' buf cap 0 0 0 = Some (ERR_EMPTY, buf, 0, 0, 0, rr')
     | (src, cid, app) # rest \<Rightarrow> returns (rr_take_request rr' buf cap 0 0 0) (\<lambda>(r, buf', len, src', cid', rr'').
         r = OK \<and> src' = src \<and> cid' = cid \<and> take (unat len) buf' = take (unat len) app \<and>
         unat len = min (unat cap) (length app) \<and> rr_inv rr'' \<and> rr_requests rr'' = rest)))"
proof (rule returns_mono [OF absorb_requests [OF assms(2,1)]], elim conjE)
  fix rr' assume rr': "rr_inv rr'" "rr_requests rr' = take 16 (rr_requests rr @ map2 (\<lambda>(cid, app) env. (source_id env, cid, app)) reqs envs)"
  show "rr_requests rr' = take 16 (rr_requests rr @ map2 (\<lambda>(cid, app) env. (source_id env, cid, app)) reqs envs) \<and>
    (case rr_requests rr' of
       [] \<Rightarrow> rr_take_request rr' buf cap 0 0 0 = Some (ERR_EMPTY, buf, 0, 0, 0, rr')
     | (src, cid, app) # rest \<Rightarrow> returns (rr_take_request rr' buf cap 0 0 0) (\<lambda>(r, buf', len, src', cid', rr'').
         r = OK \<and> src' = src \<and> cid' = cid \<and> take (unat len) buf' = take (unat len) app \<and>
         unat len = min (unat cap) (length app) \<and> rr_inv rr'' \<and> rr_requests rr'' = rest))"
    using rr'(2) take_request_spec [OF rr'(1) assms(4), of 0 0 0]
    by (auto split: list.splits elim!: returns_mono simp del: take_append)
qed

theorem inbound_requests_fifo_witness:
  "returns (for_each (\<lambda>env rr. rr_absorb rr env) [rr_example REQUEST 9 [1, 2], rr_example REQUEST 8 []] rr_blank)
     (\<lambda>rr'. rr_requests rr' = [(9, 7, [1, 2]), (8, 7, [])])"
proof -
  have "list_all2 (\<lambda>(cid, app) env. cid \<noteq> 0 \<and> length app \<le> 4084 \<and> carries REQUEST cid app env)
      [(7, [1, 2]), (7, [])] [rr_example REQUEST 9 [1, 2], rr_example REQUEST 8 []]"
    by (simp add: rr_example_carries)
  note fifo = inbound_requests_fifo [OF rr_blank_inv this, of 4096 "replicate 4096 0"]
  have "rr_requests rr_blank = []" "source_id (rr_example k n xs) = n" for k n xs
    by (simp_all add: rr_requests_def ring_contents_def rr_blank_def rr_example_def)
  then show ?thesis by (intro returns_mono [OF fifo]) simp_all
qed

text \<open>A data message without payload, which the delivery engine accepts and hands out, trips an assertion of the header
  parser as soon as it is drained.\<close>

theorem empty_data_aborts:
  assumes "envelope_is_data env" and "payload_length env = 0"
  shows "rr_absorb rr env = None"
  using assms by (simp add: rr_absorb_def RequestReplyEngine_dispatch_inbound_envelope_def RequestReplyEngine_parse_rr_header_def)

theorem empty_data_aborts_witness:
  "envelope_valid (data_message 7 9 1) \<and> env_wf (data_message 7 9 1) \<and> rr_absorb rr_blank (data_message 7 9 1) = None"
  using empty_data_aborts [of "data_message 7 9 1" rr_blank]
  by (simp add: data_message_def envelope_is_data_def envelope_valid_def env_wf_def envelope_init_def)

text \<open>Sending a request: the delivery engine gets one reliable message to the destination whose payload is the header with
  the counter's correlation identifier and the request's bytes. If it accepts the message, the identifier (never 0) is returned
  and the request waits for its response; if it refuses it or the table is full, no slot changes. No other pending request is
  touched and both engines keep their invariants.\<close>

theorem send_request_contract:
  assumes "rr_inv rr" and "eng_inv e" and "transport_ok T I" and "I t" and "now_us > 0" and "dst \<noteq> 0"
    and "unat len = length app" and "length app \<le> 4084" and "unat now_us + unat timeout_us < 2 ^ 64 - 1"
  shows "returns (RequestReplyEngine_send_request T rr e t dst app len timeout_us now_us c0) (\<lambda>(r, cid, rr', e', t').
    rr_inv rr' \<and> eng_inv e' \<and> I t' \<and> (\<forall>c. c \<noteq> rr_cid_gen rr \<longrightarrow> rr_answer rr' c = rr_answer rr c) \<and>
    (if list_all pr_active (rr_pending rr) then r = ERR_FULL \<and> rr' = rr \<and> e' = e \<and> t' = t
     else (\<exists>env env'. DeliveryEngine_send T e t env now_us = Some (r, env', e', t') \<and> destination_id env = dst \<and>
             reliability_class env = RELIABLE_RETRY \<and> payload_bytes env = rr_head REQUEST (rr_cid_gen rr) @ app)) \<and>
    (if r = OK then cid = rr_cid_gen rr \<and> cid \<noteq> 0 \<and> rr_pending_count rr' = rr_pending_count rr + 1 \<and>
         (rr_answer rr cid = None \<longrightarrow> rr_answer rr' cid = Some None)
     else cid = c0 \<and> rr_pending rr' = rr_pending rr))"
proof (cases "first_idx (\<lambda>p. \<not> pr_active p) (rr_pending rr)")
  case None
  then have "list_all pr_active (rr_pending rr)" by (simp add: first_idx_None list_all_iff)
  with None assms(1-4) show ?thesis
    by (simp add: RequestReplyEngine_send_request_def RequestReplyEngine_find_free_pending_def rr_inv_def)
next
  case (Some i)
  define ex where "ex = (if timeout_us > 0 then (if timeout_us > - 1 - now_us then - 1 else now_us + timeout_us) else 0)"
  define g where "g = (if rr_cid_gen rr = - 1 then 1 else rr_cid_gen rr + 1)"
  let ?env = "rr_envelope REQUEST RELIABLE_RETRY dst (rr_cid_gen rr) app ex"
  have notfull: "\<not> list_all pr_active (rr_pending rr)" using first_idx_SomeD [OF Some] by (auto simp: list_all_length)
  have g: "g \<noteq> 0" "rr_cid_gen rr \<noteq> 0" using assms(1) by (auto simp: g_def rr_inv_def eq_neg_iff_add_eq_0)
  have ex: "ex \<noteq> - 1" unfolding ex_def by (rule expiry_not_saturated [OF assms(9)])
  note env = rr_envelope_ok [OF assms(8), where kind = REQUEST and rel = RELIABLE_RETRY and dst = dst and cid = "rr_cid_gen rr" and ex = ex]
  from send_spec [OF assms(2,5,3,4) env(3) [OF assms(6)], of "\<lambda>_. []"] assms(2) ex obtain r env' e' t' where
    s: "DeliveryEngine_send T e t ?env now_us = Some (r, env', e', t')" "eng_inv e'" "I t'"
    by (auto elim!: returnsE dest: eng_stepD split: if_splits)
  have "destination_id ?env = dst" "reliability_class ?env = RELIABLE_RETRY" by (simp_all add: rr_envelope_def)
  with s(1) env(2) have sent: "\<exists>env env'. DeliveryEngine_send T e t env now_us = Some (r, env', e', t') \<and> destination_id env = dst \<and>
      reliability_class env = RELIABLE_RETRY \<and> payload_bytes env = rr_head REQUEST (rr_cid_gen rr) @ app" by blast
  have inv0: "rr_inv (rr\<lparr> rr_cid_gen := g \<rparr>)" using assms(1) g by (simp add: rr_inv_def)
  have ans0: "rr_answer (rr\<lparr> rr_cid_gen := g \<rparr>) = rr_answer rr" by (rule ext) (simp add: rr_answer_def)
  show ?thesis
    using s sent notfull inv0 ans0 g(2) open_pending [OF assms(1) Some g(2,1), where ex = ex]
    by (cases "r = OK") (simp_all add: send_request_eq [OF assms(1,7,8) Some] ex_def [symmetric] g_def [symmetric])
qed

theorem send_request_contract_witness:
  "returns (do { (e, t) \<leftarrow> DeliveryEngine_init queue_transport eng_blank ([], []) (eng_cfg eng_blank) 9 True 5;
       RequestReplyEngine_send_request queue_transport rr_blank e t 7 [1, 2] 2 1000 3 0 })
     (\<lambda>(r, cid, rr', e', t'). rr_inv rr' \<and> eng_inv e' \<and> (r = OK \<longrightarrow> cid = 1 \<and> rr_pending_count rr' = 1))"
proof -
  have s: "returns (RequestReplyEngine_send_request queue_transport rr_blank e t 7 [1, 2] 2 1000 3 0)
      (\<lambda>(r, cid, rr', e', t'). rr_inv rr' \<and> eng_inv e' \<and> (r = OK \<longrightarrow> cid = 1 \<and> rr_pending_count rr' = 1))"
    if "queue_ok t" "eng_inv e" for e t
    by (rule returns_mono [OF send_request_contract [OF rr_blank_inv that(2) queue_transport_ok that(1)]]) (auto simp: rr_blank_def)
  show ?thesis unfolding returns_bind by (rule returns_mono [OF init_witness]) (use s in auto)
qed

end
