(* ===== verification/Prng.thy ===== *)
theory Prng
  imports Complex_Main Prelude "HOL-Library.Log_Nat"
begin

text \<open>
  \<open>src/platform/PrngEngine.hpp\<close>: the xorshift64 generator behind the impairments. The state is the one member
  \<open>m_state\<close>; every operation returns its result and the new state. A \<open>double\<close> is the real number it stands for;
  the conversion of a 64-bit integer rounds to the nearest 53-bit significand, ties to even, as IEEE 754 prescribes, and the
  only division is by \<open>2 ^ 64\<close>, which is exact. Shown are that the generator permutes the non-zero states, that
  \<open>next_range\<close> stays in its range and accepts equally many raw values for every result, and when \<open>next_double\<close> aborts.
\<close>

unbundle bit_operations_syntax

section \<open>Conversion to double\<close>

definition round_even :: "nat \<Rightarrow> nat \<Rightarrow> nat" where
  "round_even n k = (let q = n div 2 ^ k; r = n mod 2 ^ k in
     (if 2 * r > 2 ^ k \<or> 2 * r = 2 ^ k \<and> odd q then q + 1 else q) * 2 ^ k)"

definition u64_to_double :: "u64 \<Rightarrow> real" where
  "u64_to_double x = (let n = unat x in real (if n < 2 ^ 53 then n else round_even n (floorlog 2 n - 53)))"

section \<open>The generator\<close>

definition PrngEngine_seed :: "u64 \<Rightarrow> u64 option" where
  "PrngEngine_seed s = do {
     let st = (if s = 0 then 1 else s);
     nc_assert (st \<noteq> 0);
     Some st
   }"

definition PrngEngine_next :: "u64 \<Rightarrow> (u64 \<times> u64) option" where
  "PrngEngine_next st = do {
     nc_assert (st \<noteq> 0);
     let st = st XOR push_bit 13 st;
     let st = st XOR drop_bit 7 st;
     let st = st XOR push_bit 17 st;
     nc_assert (st \<noteq> 0);
     Some (st, st)
   }"

definition PrngEngine_next_double :: "u64 \<Rightarrow> (real \<times> u64) option" where
  "PrngEngine_next_double st = do {
     nc_assert (st \<noteq> 0);
     (raw, st) \<leftarrow> PrngEngine_next st;
     let result = u64_to_double raw / u64_to_double (- 1);
     nc_assert (result \<ge> 0 \<and> result < 1);
     Some (result, st)
   }"

definition MAX_REJECTION_ATTEMPTS :: nat where [simp]: "MAX_REJECTION_ATTEMPTS = 64"

definition range_threshold :: "u64 \<Rightarrow> u64" where
  "range_threshold range64 = (- 1 - range64 + 1) mod range64"

primrec draw_loop :: "u64 \<Rightarrow> nat \<Rightarrow> u64 \<Rightarrow> u64 \<Rightarrow> (u64 \<times> u64) option" where
  "draw_loop threshold 0 raw st = Some (raw, st)"
| "draw_loop threshold (Suc n) raw st = do {
     (raw, st) \<leftarrow> PrngEngine_next st;
     if raw \<ge> threshold then Some (raw, st) else draw_loop threshold n raw st
   }"

definition PrngEngine_next_range :: "u64 \<Rightarrow> u32 \<Rightarrow> u32 \<Rightarrow> (u32 \<times> u64) option" where
  "PrngEngine_next_range st lo hi = do {
     nc_assert (st \<noteq> 0);
     nc_assert (hi \<ge> lo);
     let range64 = ucast hi - ucast lo + 1;
     nc_assert (range64 > 0);
     (raw, st) \<leftarrow> draw_loop (range_threshold range64) MAX_REJECTION_ATTEMPTS 0 st;
     let offset = ucast (raw mod range64);
     let result = lo + offset;
     nc_assert (result \<ge> lo \<and> result \<le> hi);
     Some (result, st)
   }"

section \<open>The xorshift step is a permutation\<close>

text \<open>The step as a function on words.\<close>

definition xorshift64 :: "u64 \<Rightarrow> u64" where
  "xorshift64 x = (let x = x XOR push_bit 13 x; x = x XOR drop_bit 7 x in x XOR push_bit 17 x)"

text \<open>Shifting left by at least 13 is nilpotent of order 5, shifting right by 7 of order 10.\<close>

lemma xor_push_inj:
  fixes x y :: "'a::len word"
  assumes "0 < k" and "x XOR push_bit k x = y XOR push_bit k y"
  shows "x = y"
proof (rule bit_word_eqI)
  fix n assume n: "n < LENGTH('a)"
  have step: "bit x m \<noteq> (k \<le> m \<and> bit x (m - k)) \<longleftrightarrow> bit y m \<noteq> (k \<le> m \<and> bit y (m - k))" if "m < LENGTH('a)" for m
    using arg_cong [OF assms(2), of "\<lambda>w. bit w m"] that by (simp add: bit_xor_iff bit_push_bit_iff)
  show "bit x n = bit y n" using n
  proof (induction n rule: less_induct)
    case (less n)
    show ?case
    proof (cases "k \<le> n")
      case True
      have "bit x (n - k) = bit y (n - k)" using less.prems True assms(1) by (intro less.IH) simp_all
      with step [OF less.prems] show ?thesis by auto
    next
      case False
      with step [OF less.prems] show ?thesis by auto
    qed
  qed
qed

lemma xor_drop_inj:
  fixes x y :: "'a::len word"
  assumes "0 < k" and "x XOR drop_bit k x = y XOR drop_bit k y"
  shows "x = y"
proof (rule bit_word_eqI)
  fix n assume n: "n < LENGTH('a)"
  have step: "bit x m \<noteq> bit x (k + m) \<longleftrightarrow> bit y m \<noteq> bit y (k + m)" for m
    using arg_cong [OF assms(2), of "\<lambda>w. bit w m"] by (simp add: bit_xor_iff bit_drop_bit_eq)
  show "bit x n = bit y n"
  proof (induction "LENGTH('a) - n" arbitrary: n rule: less_induct)
    case less
    show ?case
    proof (cases "n < LENGTH('a)")
      case True
      have "bit x (k + n) = bit y (k + n)" using True assms(1) by (intro less) simp
      with step [of n] show ?thesis by auto
    next
      case False
      then show ?thesis using bit_imp_le_length [of x n] bit_imp_le_length [of y n] by auto
    qed
  qed
qed

lemma inj_xorshift64: "inj xorshift64"
proof (rule injI)
  fix x y assume eq: "xorshift64 x = xorshift64 y"
  let ?f = "\<lambda>x :: u64. x XOR push_bit 13 x"
  let ?g = "\<lambda>x :: u64. ?f x XOR drop_bit 7 (?f x)"
  have "?g x = ?g y" by (rule xor_push_inj [of 17]) (use eq in \<open>simp_all only: xorshift64_def Let_def zero_less_numeral\<close>)
  then have "?f x = ?f y" by (rule xor_drop_inj [of 7, rotated]) (simp only: zero_less_numeral)
  then show "x = y" by (rule xor_push_inj [of 13, rotated]) (simp only: zero_less_numeral)
qed

lemma xorshift64_0 [simp]: "xorshift64 0 = 0"
  by (simp add: xorshift64_def)

lemma xorshift64_neq_0: "x \<noteq> 0 \<Longrightarrow> xorshift64 x \<noteq> 0"
  using inj_xorshift64 by (metis injD xorshift64_0)

lemma prng_next_eq: "st \<noteq> 0 \<Longrightarrow> PrngEngine_next st = Some (xorshift64 st, xorshift64 st)"
  using xorshift64_neq_0 [of st] by (simp add: PrngEngine_next_def xorshift64_def Let_def)

text \<open>The generator permutes the non-zero 64-bit states: a seeded generator never trips an assertion of \<open>next\<close>,
  never reaches the state 0, and different states have different successors, so that every sequence of draws is periodic from its
  first element.\<close>

theorem prng_next_permutes:
  "bij_betw (\<lambda>st. fst (the (PrngEngine_next st))) (- {0}) (- {0}) \<and>
   (\<forall>s. returns (PrngEngine_seed s) (\<lambda>st. returns (PrngEngine_next st) (\<lambda>(v, st'). v = st' \<and> st' \<noteq> 0)))"
proof -
  have "bij xorshift64" using inj_xorshift64 by (simp add: bij_def finite_UNIV_inj_surj)
  then have "bij_betw xorshift64 (- {0}) (- {0})"
    using bij_betw_DiffI [of xorshift64 UNIV UNIV "{0}" "{0}"] by (simp add: bij_betw_def Compl_eq_Diff_UNIV)
  moreover have "bij_betw (\<lambda>st. fst (the (PrngEngine_next st))) (- {0}) (- {0}) = bij_betw xorshift64 (- {0}) (- {0})"
    by (rule bij_betw_cong) (simp add: prng_next_eq)
  ultimately show ?thesis by (simp add: PrngEngine_seed_def prng_next_eq xorshift64_neq_0)
qed

section \<open>Ranges\<close>

lemma draw_loop_spec: "st \<noteq> 0 \<Longrightarrow> returns (draw_loop thr n raw st) (\<lambda>(raw', st'). st' \<noteq> 0)"
  by (induction n arbitrary: raw st) (simp_all add: prng_next_eq xorshift64_neq_0)

lemma range_size:
  fixes lo hi :: u32
  assumes "lo \<le> hi"
  shows "unat (ucast hi - ucast lo + 1 :: u64) = unat hi - unat lo + 1"
proof -
  have lt: "unat hi < 2 ^ 32" using unsigned_less [of hi] by simp
  have "(ucast lo :: u64) \<le> ucast hi" using assms by (simp add: word_le_nat_alt)
  then have "unat (ucast hi - ucast lo :: u64) = unat hi - unat lo" by (simp add: unat_sub)
  then show ?thesis using lt by (subst unat_add_no_wrap) simp_all
qed

lemma offset_in_range:
  fixes lo hi :: u32 and raw :: u64
  assumes "lo \<le> hi"
  shows "unat (lo + ucast (raw mod (ucast hi - ucast lo + 1))) = unat lo + unat raw mod (unat hi - unat lo + 1)"
proof -
  let ?r = "unat hi - unat lo + 1"
  have lt: "unat hi < 2 ^ 32" "unat lo \<le> unat hi" using unsigned_less [of hi] assms by (simp_all add: word_le_nat_alt)
  have m: "unat (raw mod (ucast hi - ucast lo + 1)) = unat raw mod ?r" using range_size [OF assms] by (simp add: unat_mod)
  have b: "unat raw mod ?r < ?r" by simp
  have le: "unat lo + unat raw mod ?r < 2 ^ 32" using lt b by linarith
  then have o: "unat (ucast (raw mod (ucast hi - ucast lo + 1)) :: u32) = unat raw mod ?r" by (simp add: unat_ucast_mod m)
  have "unat (lo + ucast (raw mod (ucast hi - ucast lo + 1))) = unat lo + unat (ucast (raw mod (ucast hi - ucast lo + 1)) :: u32)"
    by (rule unat_add_no_wrap) (use le in \<open>simp only: o\<close>, simp)
  then show ?thesis by (simp only: o)
qed

lemma next_range_spec:
  assumes "lo \<le> hi" and "st \<noteq> 0"
  shows "returns (PrngEngine_next_range st lo hi) (\<lambda>(v, st'). lo \<le> v \<and> v \<le> hi \<and> st' \<noteq> 0)"
proof -
  define r where "r = (ucast hi - ucast lo + 1 :: u64)"
  have "unat r \<noteq> 0" using range_size [OF assms(1)] by (simp add: r_def)
  then have r: "r > 0" by (simp add: word_gt_0 unat_eq_0 [symmetric])
  have in_range: "lo \<le> lo + ucast (raw mod r) \<and> lo + ucast (raw mod r) \<le> hi" for raw
  proof -
    have "unat raw mod (unat hi - unat lo + 1) < unat hi - unat lo + 1" "unat lo \<le> unat hi"
      using assms(1) by (simp_all add: word_le_nat_alt)
    then have "unat lo + unat raw mod (unat hi - unat lo + 1) \<le> unat hi" by linarith
    with offset_in_range [OF assms(1), of raw] show ?thesis by (simp add: word_le_nat_alt r_def)
  qed
  from draw_loop_spec [OF assms(2)] obtain raw st' where
    "draw_loop (range_threshold r) 64 0 st = Some (raw, st')" "st' \<noteq> 0" by (fastforce elim!: returnsE)
  then show ?thesis
    using assms r in_range by (simp add: PrngEngine_next_range_def r_def [symmetric] Let_def)
qed

text \<open>In a whole number of periods every residue occurs equally often.\<close>

lemma card_residue:
  fixes R t q c :: nat
  assumes "c < R" and "t < R"
  shows "card {m. t \<le> m \<and> m < t + R * q \<and> m mod R = c} = q"
proof -
  define d where "d = (c + (R - t)) mod R"
  have "t + (c + (R - t)) = c + R" using assms by simp
  then have d: "d < R" "(t + d) mod R = c" using assms by (simp_all add: d_def mod_add_right_eq)
  have "{m. t \<le> m \<and> m < t + R * q \<and> m mod R = c} = (\<lambda>k. t + d + R * k) ` {..<q}"
  proof (intro equalityI subsetI)
    fix m assume m: "m \<in> {m. t \<le> m \<and> m < t + R * q \<and> m mod R = c}"
    then have "(t + (m - t) mod R) mod R = (t + d) mod R" using d by (simp add: mod_add_right_eq)
    then have "(m - t) mod R = d" by (rule mod_add_inj) (use assms d(1) in simp_all)
    then have e: "m = t + d + R * ((m - t) div R)" using m mult_div_mod_eq [of R "m - t"] by auto
    have "(m - t) div R < q" using m assms by (simp add: div_less_iff_less_mult mult.commute less_diff_conv2)
    with e show "m \<in> (\<lambda>k. t + d + R * k) ` {..<q}" by blast
  next
    fix m assume "m \<in> (\<lambda>k. t + d + R * k) ` {..<q}"
    then obtain k where k: "k < q" "m = t + d + R * k" by auto
    have "R * Suc k \<le> R * q" using k(1) by (intro mult_left_mono) simp_all
    with k d show "m \<in> {m. t \<le> m \<and> m < t + R * q \<and> m mod R = c}" by simp
  qed
  moreover have "inj_on (\<lambda>k. t + d + R * k) {..<q}" using assms by (intro inj_onI) simp
  ultimately show ?thesis by (simp add: card_image)
qed

lemma unat_range_threshold:
  assumes "r \<noteq> 0"
  shows "unat (range_threshold r) = 2 ^ 64 mod unat r"
proof -
  have r: "unat r < 2 ^ 64" "0 < unat r" using unsigned_less [of r] assms by (simp_all add: unat_gt_0)
  have "unat (- 1 - r) = 2 ^ 64 - 1 - unat r" by (simp add: unat_sub unsigned_minus_1_eq_mask mask_eq_exp_minus_1)
  then have "unat (- 1 - r + 1) = 2 ^ 64 - unat r" using r by (subst unat_add_no_wrap) simp_all
  then show ?thesis using r by (simp add: range_threshold_def unat_mod mod_if [of "2 ^ 64"] le_mod_geq [symmetric])
qed

lemma accepted_raws:
  fixes r :: u64
  assumes "r \<noteq> 0" and "c < unat r"
  shows "card {raw. range_threshold r \<le> raw \<and> unat raw mod unat r = c} = 2 ^ 64 div unat r"
proof -
  let ?R = "unat r" and ?t = "2 ^ 64 mod unat r"
  have R: "?t < ?R" using assms(1) by (intro mod_less_divisor) (simp add: unat_gt_0)
  have img: "unat ` {raw :: u64. range_threshold r \<le> raw \<and> unat raw mod ?R = c} = {m. ?t \<le> m \<and> m < 2 ^ 64 \<and> m mod ?R = c}"
  proof (intro equalityI subsetI)
    fix m assume "m \<in> unat ` {raw :: u64. range_threshold r \<le> raw \<and> unat raw mod ?R = c}"
    then obtain raw where raw: "m = unat raw" "range_threshold r \<le> raw" "unat raw mod ?R = c" by blast
    with unsigned_less [of raw] show "m \<in> {m. ?t \<le> m \<and> m < 2 ^ 64 \<and> m mod ?R = c}"
      by (simp add: word_le_nat_alt unat_range_threshold [OF assms(1)])
  next
    fix m assume "m \<in> {m. ?t \<le> m \<and> m < 2 ^ 64 \<and> m mod ?R = c}"
    then show "m \<in> unat ` {raw :: u64. range_threshold r \<le> raw \<and> unat raw mod ?R = c}"
      by (intro image_eqI [of _ _ "of_nat m"]) (simp_all add: word_le_nat_alt unat_range_threshold [OF assms(1)] unat_of_nat)
  qed
  have inj: "inj_on unat {raw :: u64. range_threshold r \<le> raw \<and> unat raw mod ?R = c}"
    by (rule inj_onI) (simp add: word_unat_eq_iff)
  have crd: "card {m. ?t \<le> m \<and> m < 2 ^ 64 \<and> m mod ?R = c} = 2 ^ 64 div ?R"
    using card_residue [OF assms(2) R, of "2 ^ 64 div ?R"] by (simp only: mod_mult_div_eq)
  show ?thesis using card_image [OF inj] unfolding img crd by (rule sym)
qed

text \<open>A draw from a range returns a value inside it, bounds included, and never trips an assertion, after at most 64 raw
  values; and the rejection threshold leaves exactly the same number of raw values for every result, so that an accepted draw is
  not biased.\<close>

theorem next_range_correct:
  assumes "lo \<le> hi" and "st \<noteq> 0" and "lo \<le> v" and "v \<le> hi"
  shows "returns (PrngEngine_next_range st lo hi) (\<lambda>(v, st'). lo \<le> v \<and> v \<le> hi \<and> st' \<noteq> 0) \<and>
    card {raw. range_threshold (ucast hi - ucast lo + 1) \<le> raw \<and> lo + ucast (raw mod (ucast hi - ucast lo + 1)) = v} =
    2 ^ 64 div (unat hi - unat lo + 1)"
proof -
  let ?r = "ucast hi - ucast lo + 1 :: u64"
  note r = range_size [OF assms(1)]
  have "lo + ucast (raw mod ?r) = v \<longleftrightarrow> unat raw mod unat ?r = unat v - unat lo" for raw
    unfolding word_unat_eq_iff offset_in_range [OF assms(1)] r using assms(3) by (auto simp: word_le_nat_alt)
  moreover have "unat v - unat lo < unat ?r" using r assms by (simp add: word_le_nat_alt)
  moreover have "?r \<noteq> 0" using r by (metis add_eq_0_iff_both_eq_0 one_neq_zero unat_0)
  ultimately show ?thesis using accepted_raws [of ?r "unat v - unat lo"] next_range_spec [OF assms(1,2)] r by simp
qed

theorem next_range_correct_witness:
  "returns (PrngEngine_next_range 1 10 12) (\<lambda>(v, st'). 10 \<le> v \<and> v \<le> 12 \<and> st' \<noteq> 0) \<and>
   card {raw. range_threshold 3 \<le> raw \<and> 10 + ucast (raw mod 3) = (11 :: u32)} = 2 ^ 64 div 3"
  using next_range_correct [of 10 12 1 11] by simp

section \<open>Doubles\<close>

lemma floorlog_top: "2 ^ 63 \<le> n \<Longrightarrow> n < 2 ^ 64 \<Longrightarrow> floorlog 2 n = 64"
  using floorlog_geI [of 2 64 n] floorlog_leI [of n 2 64] by simp

lemma round_even_le: "round_even n k \<le> n + 2 ^ k"
proof -
  have "round_even n k \<le> (n div 2 ^ k + 1) * 2 ^ k" by (auto simp: round_even_def Let_def)
  also have "\<dots> \<le> n + 2 ^ k" by (simp add: distrib_right)
  finally show ?thesis .
qed

lemma round_top:
  assumes "2 ^ 63 \<le> n" and "n < 2 ^ 64"
  shows "round_even n 11 < 2 ^ 64 \<longleftrightarrow> n < 2 ^ 64 - 1024" and "round_even n 11 \<le> 2 ^ 64"
proof -
  define q where "q = n div 2048"
  define r where "r = n mod 2048"
  have n: "n = 2048 * q + r" "r < 2048" by (simp_all add: q_def r_def)
  have q: "q < 2 ^ 53" using assms(2) by (simp add: q_def div_less_iff_less_mult)
  have "2048 < 2 * r \<longleftrightarrow> 1024 < r" "2 * r = 2048 \<longleftrightarrow> r = 1024" by auto
  then have e: "round_even n 11 = (if 1024 < r \<or> r = 1024 \<and> odd q then q + 1 else q) * 2048"
    by (simp add: round_even_def Let_def q_def [symmetric] r_def [symmetric])
  show "round_even n 11 \<le> 2 ^ 64" using q e by auto
  show "round_even n 11 < 2 ^ 64 \<longleftrightarrow> n < 2 ^ 64 - 1024"
  proof (cases "q = 2 ^ 53 - 1")
    case True
    then have "odd q" by simp
    then have e': "round_even n 11 = (if 1024 \<le> r then q + 1 else q) * 2048" using e by (simp add: le_less)
    have "n = 18446744073709549568 + r" using True n(1) by simp
    with True e' show ?thesis by (cases "1024 \<le> r") simp_all
  next
    case False
    with q have q1: "q + 1 < 2 ^ 53" by simp
    then have "(q + 1) * 2048 < 2 ^ 53 * 2048" by (intro mult_strict_right_mono) simp_all
    then have "round_even n 11 < 2 ^ 64" unfolding e by simp
    moreover have "n < 2 ^ 64 - 1024" using n q1 by simp
    ultimately show ?thesis by blast
  qed
qed

lemma u64_to_double_bound:
  "u64_to_double x \<le> 2 ^ 64" "u64_to_double x < 2 ^ 64 \<longleftrightarrow> x < 0xFFFFFFFFFFFFFC00"
proof -
  define n where "n = unat x"
  have n: "n < 2 ^ 64" using unsigned_less [of x] by (simp add: n_def)
  have lt: "x < 0xFFFFFFFFFFFFFC00 \<longleftrightarrow> n < 2 ^ 64 - 1024" by (simp add: word_less_nat_alt n_def)
  have d: "u64_to_double x = real (if n < 2 ^ 53 then n else round_even n (floorlog 2 n - 53))"
    unfolding u64_to_double_def Let_def n_def ..
  consider "n < 2 ^ 53" | "2 ^ 53 \<le> n" "n < 2 ^ 63" | "2 ^ 63 \<le> n" by linarith
  then have "u64_to_double x \<le> 2 ^ 64 \<and> (u64_to_double x < 2 ^ 64 \<longleftrightarrow> x < 0xFFFFFFFFFFFFFC00)"
  proof cases
    case 1
    then have "real n < 2 ^ 53" by simp
    with 1 show ?thesis unfolding lt by (simp add: d)
  next
    case 2
    then have "floorlog 2 n - 53 \<le> 10" using floorlog_leI [of n 2 63] by simp
    then have "(2 :: nat) ^ (floorlog 2 n - 53) \<le> 2 ^ 10" by (intro power_increasing) simp_all
    with round_even_le [of n "floorlog 2 n - 53"] 2 have "round_even n (floorlog 2 n - 53) < 2 ^ 64" by simp
    then have "real (round_even n (floorlog 2 n - 53)) < 2 ^ 64" by (metis of_nat_less_numeral_power_cancel_iff)
    with 2 show ?thesis unfolding lt by (simp add: d)
  next
    case 3
    then have "u64_to_double x = real (round_even n 11)"
      using floorlog_top [OF 3 n] by (simp add: d)
    with round_top [OF 3 n] show ?thesis unfolding lt
      by (metis of_nat_le_numeral_power_cancel_iff of_nat_less_numeral_power_cancel_iff)
  qed
  then show "u64_to_double x \<le> 2 ^ 64" "u64_to_double x < 2 ^ 64 \<longleftrightarrow> x < 0xFFFFFFFFFFFFFC00" by blast+
qed

lemma u64_to_double_max: "u64_to_double (- 1) = 2 ^ 64"
  using u64_to_double_bound [of "- 1"] by simp

lemma u64_to_double_nonneg: "0 \<le> u64_to_double x"
  by (simp add: u64_to_double_def Let_def)

lemma next_double_eq:
  assumes "st \<noteq> 0"
  shows "PrngEngine_next_double st = (if xorshift64 st < 0xFFFFFFFFFFFFFC00
     then Some (u64_to_double (xorshift64 st) / 2 ^ 64, xorshift64 st) else None)"
  using assms u64_to_double_bound [of "xorshift64 st"] u64_to_double_nonneg [of "xorshift64 st"]
  by (simp add: PrngEngine_next_double_def prng_next_eq u64_to_double_max Let_def)

text \<open>\<open>next_double\<close> returns a value in [0, 1) except when one of the 1024 largest raw values is drawn: the
  conversion rounds those up to \<open>2 ^ 64\<close>, the quotient is 1.0 and the range assertion aborts the process.\<close>

theorem next_double_aborts_iff:
  assumes "st \<noteq> 0"
  shows "(PrngEngine_next_double st = None \<longleftrightarrow> unat (fst (the (PrngEngine_next st))) \<ge> 2 ^ 64 - 1024) \<and>
    (\<forall>d st'. PrngEngine_next_double st = Some (d, st') \<longrightarrow> 0 \<le> d \<and> d < 1 \<and> st' \<noteq> 0)"
proof -
  have lt: "x < 0xFFFFFFFFFFFFFC00 \<longleftrightarrow> unat x < 2 ^ 64 - 1024" for x :: u64 by (simp add: word_less_nat_alt)
  show ?thesis
    using next_double_eq [OF assms] prng_next_eq [OF assms] u64_to_double_bound [of "xorshift64 st"]
      u64_to_double_nonneg [of "xorshift64 st"] xorshift64_neq_0 [OF assms]
    by (auto simp: lt not_less split: if_splits)
qed

theorem next_double_aborts_iff_witness: "PrngEngine_next_double 0x6A2B51650BC99DC4 = None"
proof -
  have "fst (the (PrngEngine_next 0x6A2B51650BC99DC4)) = 0xFFFFFFFFFFFFFFFF" by code_simp
  with next_double_aborts_iff [of "0x6A2B51650BC99DC4"] show ?thesis by simp
qed

end
