(* ===== verification/Impairment.thy ===== *)
theory Impairment
  imports Prng PendingTable ChannelConfig
begin

text \<open>
  \<open>src/platform/ImpairmentEngine.cpp\<close>: loss, duplication, latency, jitter,
  reordering and partitions, decided by the seeded generator. The members are the record \<open>impairment_engine\<close>, the counts
  \<open>m_delay_count\<close> and \<open>m_reorder_count\<close> as natural numbers (both stay at most 32), the generator as its state word.
  What the operating system's entropy source delivers to \<open>init\<close> is an argument (0 when it fails); the build without
  \<open>ALLOW_WEAK_PRNG_SEED\<close> is modelled.
\<close>

definition IMPAIR_DELAY_BUF_SIZE :: nat where [simp]: "IMPAIR_DELAY_BUF_SIZE = 32"

record delay_entry =
  de_env :: envelope
  de_release_us :: u64
  de_active :: bool

record impairment_engine =
  ie_cfg :: impairment_config
  ie_prng :: u64
  ie_delay_buf :: "delay_entry list"
  ie_delay_count :: nat
  ie_reorder_buf :: "envelope list"
  ie_reorder_count :: nat
  ie_partition_active :: bool
  ie_partition_start_us :: u64
  ie_next_partition_event_us :: u64
  ie_initialized :: bool
  ie_stats :: impairment_stats

section \<open>Initialisation\<close>

definition delay_entry_zero :: delay_entry where
  "delay_entry_zero = \<lparr> de_env = envelope_zero, de_release_us = 0, de_active = False \<rparr>"

definition ImpairmentEngine_init :: "impairment_engine \<Rightarrow> impairment_config \<Rightarrow> u64 \<Rightarrow> impairment_engine option" where
  "ImpairmentEngine_init s cfg entropy = do {
     nc_assert (unat (ic_reorder_window_size cfg) \<le> IMPAIR_DELAY_BUF_SIZE);
     nc_assert (ic_loss_probability cfg \<ge> 0 \<and> ic_loss_probability cfg \<le> 1);
     nc_assert (\<not> ic_partition_enabled cfg \<or> ic_partition_gap_ms cfg > 0);
     seed \<leftarrow> (if ic_prng_seed cfg \<noteq> 0 then Some (ic_prng_seed cfg)
             else if entropy = 0 then do { nc_assert False; Some 0 }
             else Some entropy);
     prng \<leftarrow> PrngEngine_seed seed;
     let s = s\<lparr> ie_cfg := cfg, ie_prng := prng,
       ie_delay_buf := replicate IMPAIR_DELAY_BUF_SIZE delay_entry_zero, ie_delay_count := 0,
       ie_reorder_buf := replicate IMPAIR_DELAY_BUF_SIZE envelope_zero, ie_reorder_count := 0,
       ie_partition_active := False, ie_partition_start_us := 0, ie_next_partition_event_us := 0,
       ie_initialized := True, ie_stats := impairment_stats_init \<rparr>;
     nc_assert (ie_initialized s);
     nc_assert (ie_delay_count s = 0);
     nc_assert (loss_drops (ie_stats s) = 0);
     Some s
   }"

section \<open>The delay buffer\<close>

definition ImpairmentEngine_queue_to_delay_buf :: "impairment_engine \<Rightarrow> envelope \<Rightarrow> u64 \<Rightarrow> (Result \<times> impairment_engine) option" where
  "ImpairmentEngine_queue_to_delay_buf s env release_us = do {
     nc_assert (ie_initialized s);
     nc_assert (ie_delay_count s < IMPAIR_DELAY_BUF_SIZE);
     case first_idx (\<lambda>d. \<not> de_active d) (ie_delay_buf s) of
       Some i \<Rightarrow> do {
         let s = s\<lparr> ie_delay_buf := (ie_delay_buf s)[i := \<lparr> de_env = env, de_release_us = release_us, de_active = True \<rparr>],
           ie_delay_count := ie_delay_count s + 1 \<rparr>;
         nc_assert (ie_delay_count s \<le> IMPAIR_DELAY_BUF_SIZE);
         Some (OK, s)
       }
     | None \<Rightarrow> do { nc_assert False; Some (ERR_FULL, s) }
   }"

definition ImpairmentEngine_check_loss :: "impairment_engine \<Rightarrow> (bool \<times> impairment_engine) option" where
  "ImpairmentEngine_check_loss s = do {
     nc_assert (ie_initialized s);
     nc_assert (ic_loss_probability (ie_cfg s) \<le> 1);
     if ic_loss_probability (ie_cfg s) \<le> 0 then Some (False, s)
     else do {
       (rand_val, prng) \<leftarrow> PrngEngine_next_double (ie_prng s);
       nc_assert (rand_val \<ge> 0 \<and> rand_val < 1);
       Some (rand_val < ic_loss_probability (ie_cfg s), s\<lparr> ie_prng := prng \<rparr>)
     }
   }"

definition ImpairmentEngine_apply_duplication :: "impairment_engine \<Rightarrow> envelope \<Rightarrow> u64 \<Rightarrow> impairment_engine option" where
  "ImpairmentEngine_apply_duplication s env release_us = do {
     nc_assert (ie_initialized s);
     nc_assert (ic_duplication_probability (ie_cfg s) > 0);
     (dup_rand, prng) \<leftarrow> PrngEngine_next_double (ie_prng s);
     nc_assert (dup_rand \<ge> 0 \<and> dup_rand < 1);
     let s = s\<lparr> ie_prng := prng \<rparr>;
     if dup_rand < ic_duplication_probability (ie_cfg s) \<and> ie_delay_count s < IMPAIR_DELAY_BUF_SIZE then do {
       (res, s) \<leftarrow> ImpairmentEngine_queue_to_delay_buf s env (release_us + 100);
       Some (if res = OK
             then s\<lparr> ie_stats := (ie_stats s)\<lparr> duplicate_injects := duplicate_injects (ie_stats s) + 1 \<rparr> \<rparr> else s)
     } else Some s
   }"

definition jitter_lo_ms :: "impairment_config \<Rightarrow> u32" where
  "jitter_lo_ms cfg = (if ic_jitter_variance_ms cfg \<le> ic_jitter_mean_ms cfg
     then ic_jitter_mean_ms cfg - ic_jitter_variance_ms cfg else 0)"

definition jitter_hi_ms :: "impairment_config \<Rightarrow> u32" where
  "jitter_hi_ms cfg = (if ic_jitter_variance_ms cfg > - 1 - ic_jitter_mean_ms cfg then - 1 - 1
     else ic_jitter_mean_ms cfg + ic_jitter_variance_ms cfg)"

definition ImpairmentEngine_compute_jitter_us :: "impairment_engine \<Rightarrow> (u64 \<times> impairment_engine) option" where
  "ImpairmentEngine_compute_jitter_us s = do {
     nc_assert (ie_initialized s);
     if ic_jitter_mean_ms (ie_cfg s) = 0 then Some (0, s)
     else do {
       let lo_ms = jitter_lo_ms (ie_cfg s);
       let hi_ms = jitter_hi_ms (ie_cfg s);
       nc_assert (hi_ms \<ge> lo_ms);
       (jitter_offset_ms, prng) \<leftarrow> PrngEngine_next_range (ie_prng s) lo_ms hi_ms;
       Some (ucast jitter_offset_ms * 1000, s\<lparr> ie_prng := prng \<rparr>)
     }
   }"

definition k_release_cap_us :: u64 where [simp]: "k_release_cap_us = - 1 div 2"

definition ImpairmentEngine_compute_release_us :: "impairment_engine \<Rightarrow> u64 \<Rightarrow> u64 \<Rightarrow> u64 \<Rightarrow> u64 option" where
  "ImpairmentEngine_compute_release_us s now_us base_delay_us jitter_us = do {
     nc_assert (ie_initialized s);
     nc_assert (base_delay_us \<le> - 1 div 2);
     let delay_total_us = (if base_delay_us > k_release_cap_us - jitter_us then k_release_cap_us else base_delay_us + jitter_us);
     let release_us = (if now_us > - 1 - delay_total_us then - 1 else now_us + delay_total_us);
     nc_assert (release_us \<ge> now_us \<or> release_us = - 1);
     Some release_us
   }"

text \<open>The watermark check only logs.\<close>

definition ImpairmentEngine_check_delay_buf_watermark :: "impairment_engine \<Rightarrow> unit option" where
  "ImpairmentEngine_check_delay_buf_watermark s = do {
     nc_assert (ie_initialized s);
     nc_assert (ie_delay_count s \<le> IMPAIR_DELAY_BUF_SIZE);
     Some ()
   }"

section \<open>Partitions\<close>

definition sat_add_us :: "u64 \<Rightarrow> u32 \<Rightarrow> u64 option" where
  "sat_add_us now_us delta_ms = do {
     let k_max = 0xFFFFFFFFFFFFFFFF;
     let delta = ucast delta_ms * 1000;
     nc_assert (delta \<le> 0xFFFFFFFF * 1000);
     Some (if now_us > k_max - delta then k_max else now_us + delta)
   }"

definition ImpairmentEngine_is_partition_active :: "impairment_engine \<Rightarrow> u64 \<Rightarrow> (bool \<times> impairment_engine) option" where
  "ImpairmentEngine_is_partition_active s now_us = do {
     nc_assert (ie_initialized s);
     if \<not> ic_partition_enabled (ie_cfg s) then Some (False, s)
     else if ie_next_partition_event_us s = 0 then do {
       ev \<leftarrow> sat_add_us now_us (ic_partition_gap_ms (ie_cfg s));
       let s = s\<lparr> ie_next_partition_event_us := ev, ie_partition_active := False \<rparr>;
       nc_assert (\<not> ie_partition_active s);
       Some (False, s)
     }
     else if \<not> ie_partition_active s \<and> now_us \<ge> ie_next_partition_event_us s then do {
       ev \<leftarrow> sat_add_us now_us (ic_partition_duration_ms (ie_cfg s));
       let s = s\<lparr> ie_partition_active := True, ie_partition_start_us := now_us, ie_next_partition_event_us := ev \<rparr>;
       nc_assert (ie_partition_active s);
       Some (True, s)
     }
     else if ie_partition_active s \<and> now_us \<ge> ie_next_partition_event_us s then do {
       ev \<leftarrow> sat_add_us now_us (ic_partition_gap_ms (ie_cfg s));
       let s = s\<lparr> ie_partition_active := False, ie_next_partition_event_us := ev \<rparr>;
       nc_assert (\<not> ie_partition_active s);
       Some (False, s)
     }
     else do {
       nc_assert (ie_next_partition_event_us s > 0);
       Some (ie_partition_active s, s)
     }
   }"

section \<open>Messages\<close>

text \<open>The two counters that every drop in a partition raises.\<close>

definition count_partition_drop :: "impairment_engine \<Rightarrow> impairment_engine" where
  "count_partition_drop s = s\<lparr> ie_stats := (ie_stats s)\<lparr> partition_drops := partition_drops (ie_stats s) + 1,
     loss_drops := loss_drops (ie_stats s) + 1 \<rparr> \<rparr>"

text \<open>The part of \<open>process_outbound\<close> after the loss decision.\<close>

definition queue_with_delay :: "impairment_engine \<Rightarrow> envelope \<Rightarrow> u64 \<Rightarrow> (Result \<times> impairment_engine) option" where
  "queue_with_delay s in_env now_us = do {
     let base_delay_us = ucast (ic_fixed_latency_ms (ie_cfg s)) * 1000;
     (jitter_us, s) \<leftarrow> ImpairmentEngine_compute_jitter_us s;
     release_us \<leftarrow> ImpairmentEngine_compute_release_us s now_us base_delay_us jitter_us;
     if ie_delay_count s \<ge> IMPAIR_DELAY_BUF_SIZE then Some (ERR_FULL, s)
     else do {
       (res, s) \<leftarrow> ImpairmentEngine_queue_to_delay_buf s in_env release_us;
       if res \<noteq> OK then Some (res, s)
       else do {
         ImpairmentEngine_check_delay_buf_watermark s;
         s \<leftarrow> (if ic_duplication_probability (ie_cfg s) > 0
               then ImpairmentEngine_apply_duplication s in_env release_us else Some s);
         nc_assert (ie_delay_count s \<le> IMPAIR_DELAY_BUF_SIZE);
         Some (OK, s)
       }
     }
   }"

definition ImpairmentEngine_process_outbound :: "impairment_engine \<Rightarrow> envelope \<Rightarrow> u64 \<Rightarrow> (Result \<times> impairment_engine) option" where
  "ImpairmentEngine_process_outbound s in_env now_us = do {
     nc_assert (ie_initialized s);
     nc_assert (envelope_valid in_env);
     if \<not> ic_enabled (ie_cfg s) then
       if ie_delay_count s \<ge> IMPAIR_DELAY_BUF_SIZE then Some (ERR_FULL, s)
       else do {
         (r_passthrough, s) \<leftarrow> ImpairmentEngine_queue_to_delay_buf s in_env now_us;
         (if r_passthrough = OK then ImpairmentEngine_check_delay_buf_watermark s else Some ());
         Some (r_passthrough, s)
       }
     else do {
       (partition, s) \<leftarrow> ImpairmentEngine_is_partition_active s now_us;
       if partition then Some (ERR_IO, count_partition_drop s)
       else do {
         (lost, s) \<leftarrow> ImpairmentEngine_check_loss s;
         if lost then Some (ERR_IO, s\<lparr> ie_stats := (ie_stats s)\<lparr> loss_drops := loss_drops (ie_stats s) + 1 \<rparr> \<rparr>)
         else queue_with_delay s in_env now_us
       }
     }
   }"

text \<open>One iteration of \<open>collect_deliverable\<close>: the state is the number of messages written, the output array and the engine. The
  loop stops when the output is full; later iterations then change nothing.\<close>

definition collect_slot :: "u64 \<Rightarrow> nat \<Rightarrow> nat \<Rightarrow> nat \<times> envelope list \<times> impairment_engine \<Rightarrow>
    (nat \<times> envelope list \<times> impairment_engine) option" where
  "collect_slot now_us buf_cap i = (\<lambda>(out_count, out_buf, s). let d = ie_delay_buf s ! i in
     if out_count < buf_cap \<and> de_active d \<and> de_release_us d \<le> now_us then do {
       let out_buf = out_buf[out_count := de_env d];
       let s = s\<lparr> ie_delay_buf := (ie_delay_buf s)[i := d\<lparr> de_active := False \<rparr>] \<rparr>;
       nc_assert (ie_delay_count s > 0);
       Some (out_count + 1, out_buf, s\<lparr> ie_delay_count := ie_delay_count s - 1 \<rparr>)
     } else Some (out_count, out_buf, s))"

definition ImpairmentEngine_collect_deliverable :: "impairment_engine \<Rightarrow> u64 \<Rightarrow> envelope list \<Rightarrow> nat \<Rightarrow>
    (nat \<times> envelope list \<times> impairment_engine) option" where
  "ImpairmentEngine_collect_deliverable s now_us out_buf buf_cap = do {
     nc_assert (ie_initialized s);
     nc_assert (buf_cap > 0);
     (out_count, out_buf, s) \<leftarrow> for_each (collect_slot now_us buf_cap) [0..<IMPAIR_DELAY_BUF_SIZE] (0, out_buf, s);
     nc_assert (out_count \<le> buf_cap);
     nc_assert (ie_delay_count s \<le> IMPAIR_DELAY_BUF_SIZE);
     Some (out_count, out_buf, s)
   }"

text \<open>The shift that closes the gap left by the released message.\<close>

primrec shift_left :: "nat list \<Rightarrow> 'a list \<Rightarrow> 'a list" where
  "shift_left [] buf = buf"
| "shift_left (i # is) buf = shift_left is (buf[i := buf ! (i + 1)])"

definition ImpairmentEngine_process_inbound :: "impairment_engine \<Rightarrow> envelope \<Rightarrow> u64 \<Rightarrow> envelope list \<Rightarrow> nat \<Rightarrow>
    (Result \<times> envelope list \<times> nat \<times> impairment_engine) option" where
  "ImpairmentEngine_process_inbound s in_env now_us out_buf buf_cap = do {
     nc_assert (ie_initialized s);
     nc_assert (envelope_valid in_env);
     nc_assert (buf_cap > 0);
     (partition, s) \<leftarrow> (if ic_enabled (ie_cfg s) then ImpairmentEngine_is_partition_active s now_us else Some (False, s));
     if partition then Some (ERR_IO, out_buf, 0, count_partition_drop s)
     else if \<not> ic_reorder_enabled (ie_cfg s) \<or> ic_reorder_window_size (ie_cfg s) = 0 then do {
       nc_assert (1 \<le> buf_cap);
       Some (OK, out_buf[0 := in_env], 1, s)
     }
     else if ie_reorder_count s < unat (ic_reorder_window_size (ie_cfg s)) then do {
       let s = s\<lparr> ie_reorder_buf := (ie_reorder_buf s)[ie_reorder_count s := in_env],
         ie_reorder_count := ie_reorder_count s + 1,
         ie_stats := (ie_stats s)\<lparr> reorder_buffered := reorder_buffered (ie_stats s) + 1 \<rparr> \<rparr>;
       nc_assert (ie_reorder_count s \<le> IMPAIR_DELAY_BUF_SIZE);
       Some (OK, out_buf, 0, s)
     }
     else do {
       (idx, prng) \<leftarrow> PrngEngine_next_range (ie_prng s) 0 (of_nat (ie_reorder_count s) - 1);
       let release_idx = unat idx;
       nc_assert (release_idx < ie_reorder_count s);
       let out_buf = out_buf[0 := ie_reorder_buf s ! release_idx];
       let s = s\<lparr> ie_prng := prng,
         ie_reorder_buf := shift_left [release_idx..<ie_reorder_count s - 1] (ie_reorder_buf s),
         ie_reorder_count := ie_reorder_count s - 1 \<rparr>;
       let s = (if ie_reorder_count s < unat (ic_reorder_window_size (ie_cfg s))
         then s\<lparr> ie_reorder_buf := (ie_reorder_buf s)[ie_reorder_count s := in_env], ie_reorder_count := ie_reorder_count s + 1 \<rparr>
         else s);
       nc_assert (1 \<le> buf_cap);
       nc_assert (ie_reorder_count s \<le> unat (ic_reorder_window_size (ie_cfg s)));
       nc_assert (ie_reorder_count s \<le> IMPAIR_DELAY_BUF_SIZE);
       Some (OK, out_buf, 1, s)
     }
   }"

definition ImpairmentEngine_get_stats :: "impairment_engine \<Rightarrow> impairment_stats option" where
  "ImpairmentEngine_get_stats s = do {
     nc_assert (ie_initialized s);
     nc_assert (loss_drops (ie_stats s) \<ge> partition_drops (ie_stats s));
     Some (ie_stats s)
   }"

section \<open>Specification\<close>

text \<open>The delayed messages with their release times, the reorder window, and the slots that are due.\<close>

definition de_view :: "delay_entry \<Rightarrow> envelope \<times> u64" where
  "de_view d = (de_env d, de_release_us d)"

definition delayed :: "impairment_engine \<Rightarrow> (envelope \<times> u64) multiset" where
  "delayed s = image_mset de_view (filter_mset de_active (mset (ie_delay_buf s)))"

definition window :: "impairment_engine \<Rightarrow> envelope list" where
  "window s = take (ie_reorder_count s) (ie_reorder_buf s)"

definition due_slots :: "u64 \<Rightarrow> delay_entry list \<Rightarrow> delay_entry list" where
  "due_slots now_us = filter (\<lambda>d. de_active d \<and> de_release_us d \<le> now_us)"

definition imp_inv :: "impairment_engine \<Rightarrow> bool" where
  "imp_inv s \<longleftrightarrow> ie_initialized s \<and> ie_prng s \<noteq> 0 \<and> length (ie_delay_buf s) = 32 \<and>
     ie_delay_count s = length (filter de_active (ie_delay_buf s)) \<and> length (ie_reorder_buf s) = 32 \<and>
     ie_reorder_count s \<le> unat (ic_reorder_window_size (ie_cfg s)) \<and> unat (ic_reorder_window_size (ie_cfg s)) \<le> 32 \<and>
     0 \<le> ic_loss_probability (ie_cfg s) \<and> ic_loss_probability (ie_cfg s) \<le> 1"

text \<open>None of the next \<open>n\<close> draws of a \<open>double\<close> aborts.\<close>

definition double_draws_ok :: "nat \<Rightarrow> u64 \<Rightarrow> bool" where
  "double_draws_ok n st \<longleftrightarrow> list_all (\<lambda>k. PrngEngine_next_double ((xorshift64 ^^ k) st) \<noteq> None) [0..<n]"

text \<open>The release times the configuration allows.\<close>

definition release_ok :: "impairment_config \<Rightarrow> u64 \<Rightarrow> u64 \<Rightarrow> bool" where
  "release_ok cfg now_us rel \<longleftrightarrow> (if \<not> ic_enabled cfg then rel = now_us
     else \<exists>j. (if ic_jitter_mean_ms cfg = 0 then j = 0 else unat (jitter_lo_ms cfg) \<le> j \<and> j \<le> unat (jitter_hi_ms cfg)) \<and>
       unat rel = min (2 ^ 64 - 1) (unat now_us + 1000 * unat (ic_fixed_latency_ms cfg) + 1000 * j))"

text \<open>Only the partition members differ.\<close>

definition only_partition :: "impairment_engine \<Rightarrow> impairment_engine \<Rightarrow> bool" where
  "only_partition s s' \<longleftrightarrow> s' = s\<lparr> ie_partition_active := ie_partition_active s', ie_partition_start_us := ie_partition_start_us s',
     ie_next_partition_event_us := ie_next_partition_event_us s' \<rparr>"

text \<open>A sequence of inbound messages with their arrival times: the messages handed on.\<close>

primrec inbound_run :: "(envelope \<times> u64) list \<Rightarrow> impairment_engine \<Rightarrow> (envelope list \<times> impairment_engine) option" where
  "inbound_run [] s = Some ([], s)"
| "inbound_run (m # ms) s = do {
     (r, out, n, s) \<leftarrow> ImpairmentEngine_process_inbound s (fst m) (snd m) [envelope_init] 1;
     (outs, s) \<leftarrow> inbound_run ms s;
     Some (take n out @ outs, s)
   }"

text \<open>A sequence of partition queries.\<close>

primrec partition_run :: "u64 list \<Rightarrow> impairment_engine \<Rightarrow> (bool list \<times> impairment_engine) option" where
  "partition_run [] s = Some ([], s)"
| "partition_run (t # ts) s = do {
     (b, s) \<leftarrow> ImpairmentEngine_is_partition_active s t;
     (bs, s) \<leftarrow> partition_run ts s;
     Some (b # bs, s)
   }"

text \<open>Examples: a lossy and jittery configuration, and an engine started with it.\<close>

definition lossy_config :: impairment_config where
  "lossy_config = impairment_config_default\<lparr> ic_enabled := True, ic_fixed_latency_ms := 50, ic_jitter_mean_ms := 10,
     ic_jitter_variance_ms := 5, ic_loss_probability := 1 / 10, ic_duplication_probability := 1 / 20, ic_reorder_enabled := True,
     ic_reorder_window_size := 2, ic_prng_seed := 42 \<rparr>"

definition slow_config :: impairment_config where
  "slow_config = lossy_config\<lparr> ic_loss_probability := 0, ic_duplication_probability := 0 \<rparr>"

definition partition_config :: impairment_config where
  "partition_config = lossy_config\<lparr> ic_partition_enabled := True, ic_partition_duration_ms := 2, ic_partition_gap_ms := 3 \<rparr>"

definition imp_blank :: "impairment_config \<Rightarrow> impairment_engine" where
  "imp_blank cfg = \<lparr> ie_cfg = cfg, ie_prng = 42, ie_delay_buf = replicate 32 delay_entry_zero, ie_delay_count = 0,
     ie_reorder_buf = replicate 32 envelope_zero, ie_reorder_count = 0, ie_partition_active = False, ie_partition_start_us = 0,
     ie_next_partition_event_us = 0, ie_initialized = True, ie_stats = impairment_stats_init \<rparr>"

section \<open>Invariant of the delay buffer\<close>

lemma imp_inv_prng: "imp_inv s \<Longrightarrow> st \<noteq> 0 \<Longrightarrow> imp_inv (s\<lparr> ie_prng := st \<rparr>)"
  by (simp add: imp_inv_def)

lemma imp_inv_stats: "imp_inv (s\<lparr> ie_stats := st \<rparr>) = imp_inv s"
  by (simp add: imp_inv_def)

lemma delayed_simps [simp]:
  "delayed (s\<lparr> ie_prng := st \<rparr>) = delayed s" "delayed (s\<lparr> ie_stats := x \<rparr>) = delayed s"
  "window (s\<lparr> ie_prng := st \<rparr>) = window s" "window (s\<lparr> ie_stats := x \<rparr>) = window s"
  by (simp_all add: delayed_def window_def)

lemma queue_spec:
  assumes "imp_inv s" and "ie_delay_count s < 32"
  obtains b where "ImpairmentEngine_queue_to_delay_buf s env rel = Some (OK, s\<lparr> ie_delay_buf := b, ie_delay_count := ie_delay_count s + 1 \<rparr>)"
    and "imp_inv (s\<lparr> ie_delay_buf := b, ie_delay_count := ie_delay_count s + 1 \<rparr>)"
    and "delayed (s\<lparr> ie_delay_buf := b, ie_delay_count := ie_delay_count s + 1 \<rparr>) = add_mset (env, rel) (delayed s)"
proof -
  let ?e = "\<lparr> de_env = env, de_release_us = rel, de_active = True \<rparr>"
  have len: "length (ie_delay_buf s) = 32" "ie_delay_count s = length (filter de_active (ie_delay_buf s))" "ie_initialized s"
    using assms(1) by (simp_all add: imp_inv_def)
  have "\<exists>d \<in> set (ie_delay_buf s). \<not> de_active d"
  proof (rule ccontr)
    assume "\<not> (\<exists>d \<in> set (ie_delay_buf s). \<not> de_active d)"
    then have "filter de_active (ie_delay_buf s) = ie_delay_buf s" by (simp add: filter_id_conv)
    with len assms(2) show False by simp
  qed
  then obtain i where i: "first_idx (\<lambda>d. \<not> de_active d) (ie_delay_buf s) = Some i" using first_idx_Some_ex by metis
  note si = first_idx_SomeD [OF i]
  let ?b = "(ie_delay_buf s)[i := ?e]"
  have "length (filter de_active ?b) = Suc (length (filter de_active (ie_delay_buf s)))"
    using si by (intro length_filter_activate) simp_all
  then have inv: "imp_inv (s\<lparr> ie_delay_buf := ?b, ie_delay_count := ie_delay_count s + 1 \<rparr>)"
    using assms(1) by (simp add: imp_inv_def)
  have "filter_mset de_active (mset ?b) = add_mset ?e (filter_mset de_active (mset (ie_delay_buf s)))"
    using si by (intro mset_filter_activate) simp_all
  then have "delayed (s\<lparr> ie_delay_buf := ?b, ie_delay_count := ie_delay_count s + 1 \<rparr>) = add_mset (env, rel) (delayed s)"
    by (simp add: delayed_def de_view_def)
  with inv show thesis
    using i len(3) assms(2) by (intro that [of ?b]) (simp_all add: ImpairmentEngine_queue_to_delay_buf_def)
qed

section \<open>Random decisions\<close>

lemma xorshift_pow_neq_0: "st \<noteq> 0 \<Longrightarrow> (xorshift64 ^^ k) st \<noteq> 0"
  by (induction k) (simp_all add: xorshift64_neq_0)

lemma draws_okD: "double_draws_ok n st \<Longrightarrow> k < n \<Longrightarrow> PrngEngine_next_double ((xorshift64 ^^ k) st) \<noteq> None"
  by (simp add: double_draws_ok_def list_all_iff)

lemma next_double_Some:
  assumes "st \<noteq> 0" and "PrngEngine_next_double st \<noteq> None"
  obtains d where "PrngEngine_next_double st = Some (d, xorshift64 st)" and "0 \<le> d" and "d < 1"
  using next_double_eq [OF assms(1)] assms(2) u64_to_double_bound [of "xorshift64 st"] u64_to_double_nonneg [of "xorshift64 st"]
  by (auto split: if_splits)

lemma draw_loop_orbit: "st \<noteq> 0 \<Longrightarrow> returns (draw_loop thr n raw st) (\<lambda>(raw', st'). \<exists>k \<le> n. st' = (xorshift64 ^^ k) st)"
proof (induction n arbitrary: raw st)
  case (Suc n)
  have step: "\<exists>k \<le> Suc n. st' = (xorshift64 ^^ k) st" if "\<exists>k \<le> n. st' = (xorshift64 ^^ k) (xorshift64 st)" for st'
    using that by (metis Suc_le_mono funpow_Suc_right comp_apply)
  have "returns (draw_loop thr n (xorshift64 st) (xorshift64 st)) (\<lambda>(raw', st'). \<exists>k \<le> Suc n. st' = (xorshift64 ^^ k) st)"
    by (rule returns_mono [OF Suc.IH [OF xorshift64_neq_0 [OF Suc.prems]]]) (auto intro: step)
  with Suc.prems show ?case by (auto simp: prng_next_eq intro!: exI [of _ 1])
qed simp

lemma next_range_orbit:
  assumes "lo \<le> hi" and "st \<noteq> 0"
  obtains v k where "PrngEngine_next_range st lo hi = Some (v, (xorshift64 ^^ k) st)" and "k \<le> 64" and "lo \<le> v" and "v \<le> hi"
proof -
  from next_range_spec [OF assms] obtain v st' where v: "PrngEngine_next_range st lo hi = Some (v, st')" "lo \<le> v" "v \<le> hi"
    by (auto elim!: returnsE)
  from draw_loop_orbit [OF assms(2), of "range_threshold (ucast hi - ucast lo + 1)" 64 0] v(1)
  have "\<exists>k \<le> 64. st' = (xorshift64 ^^ k) st"
    by (auto simp: PrngEngine_next_range_def bind_eq_Some_conv nc_assert_def Let_def split: if_splits elim!: returnsE)
  with v that show thesis by blast
qed

lemma check_loss_spec:
  assumes "imp_inv s" and "ic_loss_probability (ie_cfg s) > 0 \<longrightarrow> double_draws_ok 1 (ie_prng s)"
  obtains b k where "ImpairmentEngine_check_loss s = Some (b, s\<lparr> ie_prng := (xorshift64 ^^ k) (ie_prng s) \<rparr>)" and "k \<le> 1"
    and "ic_loss_probability (ie_cfg s) = 0 \<longrightarrow> \<not> b" and "ic_loss_probability (ie_cfg s) = 1 \<longrightarrow> b"
proof (cases "ic_loss_probability (ie_cfg s) \<le> 0")
  case True
  with assms(1) show thesis by (intro that [of False 0]) (simp_all add: ImpairmentEngine_check_loss_def imp_inv_def)
next
  case False
  have "ie_prng s \<noteq> 0" using assms(1) by (simp add: imp_inv_def)
  moreover have "PrngEngine_next_double (ie_prng s) \<noteq> None" using assms(2) False draws_okD [of 1 "ie_prng s" 0] by simp
  ultimately obtain d where "PrngEngine_next_double (ie_prng s) = Some (d, xorshift64 (ie_prng s))" "0 \<le> d" "d < 1"
    by (rule next_double_Some)
  with False assms(1) show thesis
    by (intro that [of "d < ic_loss_probability (ie_cfg s)" 1]) (simp_all add: ImpairmentEngine_check_loss_def imp_inv_def)
qed

lemma jitter_range: "jitter_lo_ms cfg \<le> jitter_hi_ms cfg"
proof -
  let ?m = "ic_jitter_mean_ms cfg" and ?v = "ic_jitter_variance_ms cfg"
  have b: "unat ?m < 2 ^ 32" "unat ?v < 2 ^ 32" using unsigned_less [of ?m] unsigned_less [of ?v] by simp_all
  have d: "unat (- 1 - ?m) = 2 ^ 32 - 1 - unat ?m" by (simp add: unat_sub unsigned_minus_1_eq_mask mask_eq_exp_minus_1)
  have lo: "unat (jitter_lo_ms cfg) = unat ?m - unat ?v" by (simp add: jitter_lo_ms_def unat_sub word_le_nat_alt)
  show ?thesis
  proof (cases "?v > - 1 - ?m")
    case True
    then have "unat ?v > 2 ^ 32 - 1 - unat ?m" using d by (simp add: word_less_nat_alt)
    then have "unat ?m - unat ?v \<le> 2 ^ 32 - 2" using b by linarith
    with lo True show ?thesis by (simp add: jitter_hi_ms_def word_le_nat_alt)
  next
    case False
    then have "unat ?v + unat ?m < 2 ^ 32" using d b by (simp add: word_less_nat_alt not_less)
    then have "unat (?m + ?v) = unat ?m + unat ?v" by (intro unat_add_no_wrap) simp
    with lo False show ?thesis by (simp add: jitter_hi_ms_def word_le_nat_alt)
  qed
qed

lemma unat_ms_us: "unat (ucast (x :: u32) * 1000 :: u64) = 1000 * unat x"
proof -
  have "unat x < 2 ^ 32" using unsigned_less [of x] by simp
  then show ?thesis by (simp add: unat_word_ariths)
qed

lemma jitter_spec:
  assumes "imp_inv s"
  obtains j k where "ImpairmentEngine_compute_jitter_us s = Some (ucast j * 1000, s\<lparr> ie_prng := (xorshift64 ^^ k) (ie_prng s) \<rparr>)"
    and "k \<le> 64" and "if ic_jitter_mean_ms (ie_cfg s) = 0 then j = 0 else jitter_lo_ms (ie_cfg s) \<le> j \<and> j \<le> jitter_hi_ms (ie_cfg s)"
proof (cases "ic_jitter_mean_ms (ie_cfg s) = 0")
  case True
  with assms show thesis by (intro that [of 0 0]) (simp_all add: ImpairmentEngine_compute_jitter_us_def imp_inv_def)
next
  case False
  have "ie_prng s \<noteq> 0" using assms by (simp add: imp_inv_def)
  from next_range_orbit [OF jitter_range this] obtain v k where
    v: "PrngEngine_next_range (ie_prng s) (jitter_lo_ms (ie_cfg s)) (jitter_hi_ms (ie_cfg s)) = Some (v, (xorshift64 ^^ k) (ie_prng s))"
      "k \<le> 64" "jitter_lo_ms (ie_cfg s) \<le> v" "v \<le> jitter_hi_ms (ie_cfg s)" by blast
  with False assms jitter_range [of "ie_cfg s"] show thesis
    by (intro that [of v k]) (simp_all add: ImpairmentEngine_compute_jitter_us_def imp_inv_def)
qed

lemma release_time_spec:
  assumes "ie_initialized s"
  obtains rel where "ImpairmentEngine_compute_release_us s now (ucast (a :: u32) * 1000) (ucast (j :: u32) * 1000) = Some rel"
    and "unat rel = min (2 ^ 64 - 1) (unat now + 1000 * unat a + 1000 * unat j)"
proof -
  let ?a = "ucast a * 1000 :: u64" and ?j = "ucast j * 1000 :: u64"
  have b: "unat a < 2 ^ 32" "unat j < 2 ^ 32" "unat now < 2 ^ 64"
    using unsigned_less [of a] unsigned_less [of j] unsigned_less [of now] by simp_all
  note u = unat_ms_us [of a] unat_ms_us [of j]
  have cap: "unat (- 1 div 2 :: u64) = 2 ^ 63 - 1" by (simp add: unat_div)
  have "?j \<le> - 1 div 2" using u b cap by (simp add: word_le_nat_alt)
  then have "unat (- 1 div 2 - ?j) = 2 ^ 63 - 1 - 1000 * unat j" using u cap by (simp add: unat_sub)
  then have le: "?a \<le> - 1 div 2 - ?j" "?a \<le> - 1 div 2" using u b cap by (simp_all add: word_le_nat_alt)
  define d where "d = ?a + ?j"
  have d: "unat d = 1000 * unat a + 1000 * unat j" unfolding d_def using u b by (subst unat_add_no_wrap) simp_all
  have m: "unat (- 1 - d) = 2 ^ 64 - 1 - unat d" by (simp add: unat_sub unsigned_minus_1_eq_mask mask_eq_exp_minus_1)
  have db: "unat d < 2 ^ 64" using unsigned_less [of d] by simp
  define rel where "rel = (if now > - 1 - d then - 1 else now + d)"
  have rel: "unat rel = min (2 ^ 64 - 1) (unat now + unat d)"
  proof (cases "now > - 1 - d")
    case True
    then have "unat now > 2 ^ 64 - 1 - unat d" using m by (simp add: word_less_nat_alt)
    with True b show ?thesis by (simp add: rel_def unsigned_minus_1_eq_mask mask_eq_exp_minus_1)
  next
    case False
    then have "unat now + unat d < 2 ^ 64" using m b db by (simp add: word_less_nat_alt not_less)
    then have "unat (now + d) = unat now + unat d" by (intro unat_add_no_wrap) simp
    with False \<open>unat now + unat d < 2 ^ 64\<close> show ?thesis by (simp add: rel_def)
  qed
  have "rel \<ge> now \<or> rel = - 1"
  proof (cases "now > - 1 - d")
    case False
    then have "unat now \<le> unat rel" using rel b by simp
    then show ?thesis by (simp add: word_le_nat_alt)
  qed (simp add: rel_def)
  then have "ImpairmentEngine_compute_release_us s now ?a ?j = Some rel"
    using assms le by (simp add: ImpairmentEngine_compute_release_us_def not_less [symmetric] d_def [symmetric] rel_def Let_def)
  with rel d show thesis by (intro that) (simp_all add: add.assoc)
qed

lemma duplication_spec:
  assumes "imp_inv s" and "ic_duplication_probability (ie_cfg s) > 0" and "PrngEngine_next_double (ie_prng s) \<noteq> None"
  shows "returns (ImpairmentEngine_apply_duplication s env rel) (\<lambda>s'. imp_inv s' \<and> ie_cfg s' = ie_cfg s \<and> window s' = window s \<and>
    loss_drops (ie_stats s') = loss_drops (ie_stats s) \<and>
    (delayed s' = delayed s \<or> delayed s' = add_mset (env, rel + 100) (delayed s)))"
proof -
  have prng: "ie_prng s \<noteq> 0" "ie_initialized s" using assms(1) by (simp_all add: imp_inv_def)
  from next_double_Some [OF prng(1) assms(3)] obtain d where
    d: "PrngEngine_next_double (ie_prng s) = Some (d, xorshift64 (ie_prng s))" "0 \<le> d" "d < 1" by blast
  define s1 where "s1 = s\<lparr> ie_prng := xorshift64 (ie_prng s) \<rparr>"
  have s1: "imp_inv s1" "delayed s1 = delayed s" "window s1 = window s" "ie_cfg s1 = ie_cfg s" "ie_stats s1 = ie_stats s"
      "ie_delay_count s1 = ie_delay_count s"
    using assms(1) xorshift64_neq_0 [OF prng(1)] by (simp_all add: s1_def imp_inv_prng)
  show ?thesis
  proof (cases "d < ic_duplication_probability (ie_cfg s) \<and> ie_delay_count s < 32")
    case False
    with d prng assms(2) s1 show ?thesis
      by (auto simp: ImpairmentEngine_apply_duplication_def s1_def [symmetric] Let_def)
  next
    case True
    with s1 have c: "ie_delay_count s1 < 32" by simp
    from queue_spec [OF s1(1) c, of env "rel + 100"] obtain b where
      b: "ImpairmentEngine_queue_to_delay_buf s1 env (rel + 100) = Some (OK, s1\<lparr> ie_delay_buf := b, ie_delay_count := ie_delay_count s1 + 1 \<rparr>)"
        "imp_inv (s1\<lparr> ie_delay_buf := b, ie_delay_count := ie_delay_count s1 + 1 \<rparr>)"
        "delayed (s1\<lparr> ie_delay_buf := b, ie_delay_count := ie_delay_count s1 + 1 \<rparr>) = add_mset (env, rel + 100) (delayed s1)" by blast
    have "window (s1\<lparr> ie_delay_buf := b, ie_delay_count := ie_delay_count s1 + 1 \<rparr>) = window s1" by (simp add: window_def)
    with b d prng assms(2) s1 True show ?thesis
      by (simp add: ImpairmentEngine_apply_duplication_def s1_def [symmetric] Let_def imp_inv_stats)
  qed
qed

section \<open>Partitions\<close>

lemma sat_add_eq: "sat_add_us now d = Some (if now > - 1 - ucast d * 1000 then - 1 else now + ucast d * 1000)"
proof -
  have "unat d < 2 ^ 32" using unsigned_less [of d] by simp
  then have "(ucast d * 1000 :: u64) \<le> 0xFFFFFFFF * 1000" by (simp add: word_le_nat_alt unat_ms_us)
  moreover have m: "(0xFFFFFFFFFFFFFFFF :: u64) = - 1" by simp
  ultimately show ?thesis unfolding sat_add_us_def Let_def m by simp
qed

lemma only_partitionD:
  assumes "only_partition s s'"
  shows "imp_inv s' = imp_inv s" "delayed s' = delayed s" "window s' = window s" "ie_cfg s' = ie_cfg s" "ie_stats s' = ie_stats s"
    "ie_prng s' = ie_prng s" "ie_delay_count s' = ie_delay_count s"
proof -
  obtain a u w where s': "s' = s\<lparr> ie_partition_active := a, ie_partition_start_us := u, ie_next_partition_event_us := w \<rparr>"
    using assms unfolding only_partition_def by blast
  show "imp_inv s' = imp_inv s" "delayed s' = delayed s" "window s' = window s" "ie_cfg s' = ie_cfg s" "ie_stats s' = ie_stats s"
      "ie_prng s' = ie_prng s" "ie_delay_count s' = ie_delay_count s"
    by (simp_all add: s' imp_inv_def delayed_def window_def)
qed

lemma partition_spec:
  assumes "ie_initialized s"
  shows "returns (ImpairmentEngine_is_partition_active s now) (\<lambda>(b, s'). only_partition s s' \<and> (\<not> ic_partition_enabled (ie_cfg s) \<longrightarrow> \<not> b))"
  using assms by (auto simp: ImpairmentEngine_is_partition_active_def sat_add_eq only_partition_def word_gt_0 Let_def)

section \<open>Outbound messages\<close>

lemma delay_count_le: "imp_inv s \<Longrightarrow> ie_delay_count s \<le> 32"
  using length_filter_le [of de_active "ie_delay_buf s"] by (simp add: imp_inv_def)

lemma draws_ok_mono: "double_draws_ok n st \<Longrightarrow> m \<le> n \<Longrightarrow> double_draws_ok m st"
  by (simp add: double_draws_ok_def list_all_iff)

lemma draws_ok_later: "double_draws_ok n st \<Longrightarrow> m + k \<le> n \<Longrightarrow> double_draws_ok m ((xorshift64 ^^ k) st)"
  unfolding double_draws_ok_def list_all_iff by (auto simp: funpow_add [symmetric, THEN fun_cong, simplified comp_apply])

lemma dup_or_not_spec:
  assumes "imp_inv s" and "ic_duplication_probability (ie_cfg s) > 0 \<longrightarrow> PrngEngine_next_double (ie_prng s) \<noteq> None"
  shows "returns (if ic_duplication_probability (ie_cfg s) > 0 then ImpairmentEngine_apply_duplication s env rel else Some s)
    (\<lambda>s'. imp_inv s' \<and> ie_delay_count s' \<le> 32 \<and> ie_cfg s' = ie_cfg s \<and> window s' = window s \<and> (delayed s' = delayed s \<or>
       ic_duplication_probability (ie_cfg s) > 0 \<and> delayed s' = add_mset (env, rel + 100) (delayed s)))"
proof (cases "ic_duplication_probability (ie_cfg s) > 0")
  case True
  then have "PrngEngine_next_double (ie_prng s) \<noteq> None" using assms(2) by blast
  from duplication_spec [OF assms(1) True this, of env rel] True show ?thesis by (auto elim!: returns_mono dest: delay_count_le)
qed (use assms delay_count_le in simp)

lemma queue_with_delay_spec:
  assumes "imp_inv s" and "ic_enabled (ie_cfg s)" and "ic_duplication_probability (ie_cfg s) > 0 \<longrightarrow> double_draws_ok 65 (ie_prng s)"
  shows "returns (queue_with_delay s env now) (\<lambda>(r, s'). imp_inv s' \<and> ie_cfg s' = ie_cfg s \<and> window s' = window s \<and>
    (r = OK \<and> (\<exists>rel. release_ok (ie_cfg s) now rel \<and> (delayed s' = add_mset (env, rel) (delayed s) \<or>
       ic_duplication_probability (ie_cfg s) > 0 \<and> delayed s' = add_mset (env, rel + 100) (add_mset (env, rel) (delayed s)))) \<or>
     r = ERR_FULL \<and> ie_delay_count s = 32 \<and> delayed s' = delayed s))"
proof -
  from jitter_spec [OF assms(1)] obtain j k where
    j: "ImpairmentEngine_compute_jitter_us s = Some (ucast j * 1000, s\<lparr> ie_prng := (xorshift64 ^^ k) (ie_prng s) \<rparr>)" "k \<le> 64"
      "if ic_jitter_mean_ms (ie_cfg s) = 0 then j = 0 else jitter_lo_ms (ie_cfg s) \<le> j \<and> j \<le> jitter_hi_ms (ie_cfg s)" by blast
  have prng: "ie_prng s \<noteq> 0" "ie_initialized s" using assms(1) by (simp_all add: imp_inv_def)
  define s1 where "s1 = s\<lparr> ie_prng := (xorshift64 ^^ k) (ie_prng s) \<rparr>"
  have s1: "imp_inv s1" "delayed s1 = delayed s" "window s1 = window s" "ie_cfg s1 = ie_cfg s" "ie_delay_count s1 = ie_delay_count s"
      "ie_initialized s1"
    using assms(1) prng xorshift_pow_neq_0 [OF prng(1)] by (simp_all add: s1_def imp_inv_prng)
  from release_time_spec [OF s1(6), of now "ic_fixed_latency_ms (ie_cfg s)" j] obtain rel where
    rel: "ImpairmentEngine_compute_release_us s1 now (ucast (ic_fixed_latency_ms (ie_cfg s)) * 1000) (ucast j * 1000) = Some rel"
      "unat rel = min (2 ^ 64 - 1) (unat now + 1000 * unat (ic_fixed_latency_ms (ie_cfg s)) + 1000 * unat j)" by blast
  have rok: "release_ok (ie_cfg s) now rel"
    using assms(2) j(3) rel(2) unfolding release_ok_def by (auto simp: word_le_nat_alt intro!: exI [of _ "unat j"] split: if_splits)
  show ?thesis
  proof (cases "ie_delay_count s = 32")
    case True
    with j(1) [folded s1_def] rel(1) s1 show ?thesis by (simp add: queue_with_delay_def)
  next
    case False
    with delay_count_le [OF s1(1)] s1(5) have c: "ie_delay_count s1 < 32" by simp
    from queue_spec [OF s1(1) c, of env rel] obtain b where
      q: "ImpairmentEngine_queue_to_delay_buf s1 env rel = Some (OK, s1\<lparr> ie_delay_buf := b, ie_delay_count := ie_delay_count s1 + 1 \<rparr>)"
        "imp_inv (s1\<lparr> ie_delay_buf := b, ie_delay_count := ie_delay_count s1 + 1 \<rparr>)"
        "delayed (s1\<lparr> ie_delay_buf := b, ie_delay_count := ie_delay_count s1 + 1 \<rparr>) = add_mset (env, rel) (delayed s1)" by blast
    define s2 where "s2 = s1\<lparr> ie_delay_buf := b, ie_delay_count := ie_delay_count s1 + 1 \<rparr>"
    have s2: "imp_inv s2" "delayed s2 = add_mset (env, rel) (delayed s)" "window s2 = window s" "ie_cfg s2 = ie_cfg s"
        "ie_prng s2 = (xorshift64 ^^ k) (ie_prng s)" "ie_initialized s2"
      using q s1 by (simp_all add: s2_def window_def) (simp_all add: s1_def)
    have "ic_duplication_probability (ie_cfg s2) > 0 \<longrightarrow> PrngEngine_next_double (ie_prng s2) \<noteq> None"
      using draws_okD [of 65 "ie_prng s" k] assms(3) j(2) s2(4,5) by simp
    from dup_or_not_spec [OF s2(1) this, of env rel] j(1) [folded s1_def] rel(1) q(1) [folded s2_def] s1 s2 rok c
      delay_count_le [OF s2(1)] show ?thesis
      by (auto simp: queue_with_delay_def ImpairmentEngine_check_delay_buf_watermark_def elim!: returns_mono)
  qed
qed

lemma outbound_enabled:
  assumes "imp_inv s" and "envelope_valid env" and "ic_enabled (ie_cfg s)"
    and "ic_loss_probability (ie_cfg s) > 0 \<or> ic_duplication_probability (ie_cfg s) > 0 \<longrightarrow> double_draws_ok 66 (ie_prng s)"
  shows "returns (ImpairmentEngine_process_outbound s env now) (\<lambda>(r, s'). imp_inv s' \<and> ie_cfg s' = ie_cfg s \<and> window s' = window s \<and>
    (r = OK \<and> ic_loss_probability (ie_cfg s) \<noteq> 1 \<and> (\<exists>rel. release_ok (ie_cfg s) now rel \<and> (delayed s' = add_mset (env, rel) (delayed s) \<or>
       ic_duplication_probability (ie_cfg s) > 0 \<and> delayed s' = add_mset (env, rel + 100) (add_mset (env, rel) (delayed s)))) \<or>
     r = ERR_IO \<and> (ic_loss_probability (ie_cfg s) > 0 \<or> ic_partition_enabled (ie_cfg s)) \<and> delayed s' = delayed s \<and>
       loss_drops (ie_stats s') = loss_drops (ie_stats s) + 1 \<or>
     r = ERR_FULL \<and> ie_delay_count s = 32 \<and> delayed s' = delayed s))"
proof -
  have init: "ie_initialized s" "ie_prng s \<noteq> 0" "0 \<le> ic_loss_probability (ie_cfg s)" using assms(1) by (simp_all add: imp_inv_def)
  from partition_spec [OF init(1), of now] obtain b s1 where
    p: "ImpairmentEngine_is_partition_active s now = Some (b, s1)" "only_partition s s1" "b \<Longrightarrow> ic_partition_enabled (ie_cfg s)"
    by (fastforce elim!: returnsE)
  note o = only_partitionD [OF p(2)]
  have i1: "imp_inv s1" using o assms(1) by simp
  show ?thesis
  proof (cases b)
    case True
    with p assms o init show ?thesis
      by (simp add: ImpairmentEngine_process_outbound_def count_partition_drop_def imp_inv_stats)
  next
    case notb: False
    have "ic_loss_probability (ie_cfg s1) > 0 \<longrightarrow> double_draws_ok 1 (ie_prng s1)"
      using assms(4) o(4,6) draws_ok_mono [of 66 "ie_prng s" 1] by simp
    from check_loss_spec [OF i1 this] obtain lost k where
      l: "ImpairmentEngine_check_loss s1 = Some (lost, s1\<lparr> ie_prng := (xorshift64 ^^ k) (ie_prng s1) \<rparr>)" "k \<le> 1"
        "ic_loss_probability (ie_cfg s) = 0 \<longrightarrow> \<not> lost" "ic_loss_probability (ie_cfg s) = 1 \<longrightarrow> lost"
      using o by metis
    define s2 where "s2 = s1\<lparr> ie_prng := (xorshift64 ^^ k) (ie_prng s1) \<rparr>"
    have s2: "imp_inv s2" "delayed s2 = delayed s" "window s2 = window s" "ie_cfg s2 = ie_cfg s" "ie_stats s2 = ie_stats s"
        "ie_delay_count s2 = ie_delay_count s" "ie_prng s2 = (xorshift64 ^^ k) (ie_prng s)"
      using i1 o init xorshift_pow_neq_0 [OF init(2)] by (simp_all add: s2_def imp_inv_prng)
    show ?thesis
    proof (cases lost)
      case True
      with l(1) [folded s2_def] l(3) notb p(1,2) assms(2,3) s2 init show ?thesis
        by (auto simp: ImpairmentEngine_process_outbound_def imp_inv_stats less_le)
    next
      case False
      have "ic_duplication_probability (ie_cfg s2) > 0 \<longrightarrow> double_draws_ok 65 (ie_prng s2)"
        using draws_ok_later [of 66 "ie_prng s" 65 k] assms(4) l(2) s2(4,7) by simp
      from queue_with_delay_spec [OF s2(1) _ this, of env now] False l(1) [folded s2_def] l(4) notb p(1,2) assms(2,3) s2 init
      show ?thesis by (auto simp: ImpairmentEngine_process_outbound_def elim!: returns_mono)
    qed
  qed
qed

lemma outbound_disabled:
  assumes "imp_inv s" and "envelope_valid env" and "\<not> ic_enabled (ie_cfg s)"
  shows "returns (ImpairmentEngine_process_outbound s env now) (\<lambda>(r, s'). imp_inv s' \<and> ie_cfg s' = ie_cfg s \<and> window s' = window s \<and>
    (if ie_delay_count s = 32 then r = ERR_FULL \<and> s' = s else r = OK \<and> delayed s' = add_mset (env, now) (delayed s)))"
proof (cases "ie_delay_count s = 32")
  case True
  with assms show ?thesis by (simp add: ImpairmentEngine_process_outbound_def imp_inv_def)
next
  case False
  with delay_count_le [OF assms(1)] have c: "ie_delay_count s < 32" by simp
  from queue_spec [OF assms(1) c, of env now] obtain b where
    q: "ImpairmentEngine_queue_to_delay_buf s env now = Some (OK, s\<lparr> ie_delay_buf := b, ie_delay_count := ie_delay_count s + 1 \<rparr>)"
      "imp_inv (s\<lparr> ie_delay_buf := b, ie_delay_count := ie_delay_count s + 1 \<rparr>)"
      "delayed (s\<lparr> ie_delay_buf := b, ie_delay_count := ie_delay_count s + 1 \<rparr>) = add_mset (env, now) (delayed s)" by blast
  have "ie_initialized s" using assms(1) by (simp add: imp_inv_def)
  with q c assms show ?thesis
    by (simp add: ImpairmentEngine_process_outbound_def ImpairmentEngine_check_delay_buf_watermark_def window_def)
qed

section \<open>Collecting\<close>

lemma due_slots_Suc:
  "k < length xs \<Longrightarrow> due_slots now (take (Suc k) xs) =
     due_slots now (take k xs) @ (if de_active (xs ! k) \<and> de_release_us (xs ! k) \<le> now then [xs ! k] else [])"
  by (simp add: due_slots_def filter_take_Suc)

lemma collect_slot_step:
  assumes "imp_inv s" and "k < 32" and "drop k (ie_delay_buf s) = drop k xs" and "length xs = 32" and "0 < cap"
    and "filled out cap n (map de_env (due_slots now (take k xs)))"
    and "delayed s + mset (map de_view (take n (due_slots now (take k xs)))) = D"
  shows "returns (collect_slot now cap k (n, out, s)) (\<lambda>(n', out', s'). imp_inv s' \<and> ie_cfg s' = ie_cfg s \<and> window s' = window s \<and>
    drop (Suc k) (ie_delay_buf s') = drop (Suc k) xs \<and> filled out' cap n' (map de_env (due_slots now (take (Suc k) xs))) \<and>
    delayed s' + mset (map de_view (take n' (due_slots now (take (Suc k) xs)))) = D)"
proof -
  let ?d = "xs ! k" and ?due = "due_slots now (take k xs)"
  have len: "length (ie_delay_buf s) = 32" using assms(1) by (simp add: imp_inv_def)
  have d: "ie_delay_buf s ! k = ?d" using assms(2-4) len by (metis Cons_nth_drop_Suc list.inject)
  have dr: "drop (Suc k) (ie_delay_buf s) = drop (Suc k) xs" using assms(3) by (metis drop_Suc tl_drop)
  have n: "n = min cap (length ?due)" using assms(6) by (simp add: filled_def)
  show ?thesis
  proof (cases "de_active ?d \<and> de_release_us ?d \<le> now")
    case False
    with assms d dr show ?thesis by (auto simp: collect_slot_def Let_def due_slots_Suc)
  next
    case due: True
    show ?thesis
    proof (cases "n < cap")
      case False
      then have "take n (?due @ [?d]) = take n ?due" using n by simp
      with assms due d dr False show ?thesis by (simp add: collect_slot_def Let_def due_slots_Suc filled_skip)
    next
      case True
      let ?b = "(ie_delay_buf s)[k := ?d\<lparr> de_active := False \<rparr>]"
      let ?s = "s\<lparr> ie_delay_buf := ?b, ie_delay_count := ie_delay_count s - 1 \<rparr>"
      have rel: "Suc (length (filter de_active ?b)) = length (filter de_active (ie_delay_buf s))"
        using due d len assms(2) by (intro length_filter_release) simp_all
      then have cnt: "ie_delay_count s = Suc (length (filter de_active ?b))" using assms(1) by (simp add: imp_inv_def)
      have inv: "imp_inv ?s" using assms(1) cnt by (auto simp: imp_inv_def)
      have "add_mset (ie_delay_buf s ! k) (filter_mset de_active (mset ?b)) = filter_mset de_active (mset (ie_delay_buf s))"
        using due d len assms(2) by (intro mset_filter_release) simp_all
      then have del: "add_mset (de_view ?d) (delayed ?s) = delayed s" using d by (simp add: delayed_def flip: image_mset_add_mset)
      have w: "window ?s = window s" by (simp add: window_def)
      have step: "collect_slot now cap k (n, out, s) = Some (n + 1, out[n := de_env ?d], ?s)"
        using True due d cnt by (simp add: collect_slot_def Let_def)
      have "take (n + 1) (?due @ [?d]) = ?due @ [?d]" "take n ?due = ?due" using True n by simp_all
      with inv del w dr step True due assms filled_write [OF assms(6) True, of "de_env ?d"] show ?thesis
        by (simp add: due_slots_Suc flip: del)
    qed
  qed
qed

lemma collect_spec:
  assumes "imp_inv s" and "0 < cap" and "cap \<le> length out"
  shows "returns (ImpairmentEngine_collect_deliverable s now out cap) (\<lambda>(n, out', s'). imp_inv s' \<and> ie_cfg s' = ie_cfg s \<and>
    window s' = window s \<and> filled out' cap n (map de_env (due_slots now (ie_delay_buf s))) \<and>
    delayed s' + mset (map de_view (take n (due_slots now (ie_delay_buf s)))) = delayed s)"
proof -
  let ?xs = "ie_delay_buf s"
  define I where "I k = (\<lambda>(n, out', s'). imp_inv s' \<and> ie_cfg s' = ie_cfg s \<and> window s' = window s \<and>
    drop k (ie_delay_buf s') = drop k ?xs \<and> filled out' cap n (map de_env (due_slots now (take k ?xs))) \<and>
    delayed s' + mset (map de_view (take n (due_slots now (take k ?xs)))) = delayed s)" for k
  have len: "length ?xs = 32" "ie_initialized s" using assms(1) by (simp_all add: imp_inv_def)
  have "I 0 (0, out, s)" using assms by (simp add: I_def due_slots_def filled_Nil)
  moreover have "returns (collect_slot now cap k st) (I (Suc k))" if "k < 32" "I k st" for k st
    using that collect_slot_step [of "snd (snd st)" k ?xs cap "fst (snd st)" "fst st" now "delayed s"] len assms(2)
    by (auto simp: I_def split_beta elim!: returns_mono)
  ultimately have "returns (for_each (collect_slot now cap) [0..<32] (0, out, s)) (I 32)" by (intro for_each_upt) auto
  then have "returns (for_each (collect_slot now cap) [0..<32] (0, out, s)) (\<lambda>(n, out', s'). imp_inv s' \<and> ie_cfg s' = ie_cfg s \<and>
      window s' = window s \<and> filled out' cap n (map de_env (due_slots now ?xs)) \<and>
      delayed s' + mset (map de_view (take n (due_slots now ?xs))) = delayed s)"
    by (rule returns_mono) (auto simp: I_def len)
  with assms(2) len show ?thesis
    by (auto simp: ImpairmentEngine_collect_deliverable_def simp del: upt_rec_numeral elim!: returns_mono dest: filled_le delay_count_le)
qed

lemma due_view: "mset (map de_view (due_slots now (ie_delay_buf s))) = filter_mset (\<lambda>(env, rel). rel \<le> now) (delayed s)"
  by (simp add: delayed_def due_slots_def filter_mset_image_mset filter_filter_mset de_view_def comp_def split_beta)

section \<open>Reordering\<close>

lemma length_shift_left [simp]: "length (shift_left is buf) = length buf"
  by (induction "is" arbitrary: buf) simp_all

lemma shift_left_other: "j \<notin> set is \<Longrightarrow> shift_left is buf ! j = buf ! j"
  by (induction "is" arbitrary: buf) auto

lemma nth_shift_left:
  assumes "i \<le> j" and "j < n" and "n \<le> length buf"
  shows "shift_left [i..<n] buf ! j = buf ! (j + 1)"
  using assms
proof (induction "n - i" arbitrary: i buf)
  case 0
  then show ?case by simp
next
  case (Suc m)
  then have up: "[i..<n] = i # [Suc i..<n]" by (simp add: upt_conv_Cons)
  show ?case
  proof (cases "j = i")
    case True
    then have "shift_left [i..<n] buf ! j = buf[i := buf ! (i + 1)] ! i" unfolding up by (simp add: shift_left_other)
    with True Suc.prems show ?thesis by simp
  next
    case False
    then have "shift_left [Suc i..<n] (buf[i := buf ! (i + 1)]) ! j = buf[i := buf ! (i + 1)] ! (j + 1)"
      using Suc.prems Suc.hyps(2) by (subst Suc.hyps(1)) auto
    with False Suc.prems show ?thesis unfolding up by simp
  qed
qed

lemma take_shift_left:
  assumes "i < n" and "n \<le> length buf"
  shows "take (n - 1) (shift_left [i..<n - 1] buf) = take i buf @ drop (Suc i) (take n buf)"
proof (rule nth_equalityI)
  fix j assume "j < length (take (n - 1) (shift_left [i..<n - 1] buf))"
  then have j: "j < n - 1" using assms by simp
  show "take (n - 1) (shift_left [i..<n - 1] buf) ! j = (take i buf @ drop (Suc i) (take n buf)) ! j"
  proof (cases "j < i")
    case True
    with j assms show ?thesis by (simp add: shift_left_other nth_append)
  next
    case False
    with j assms nth_shift_left [of i j "n - 1" buf] show ?thesis by (auto simp: nth_append min_def)
  qed
qed (use assms in simp)

lemma mset_take_out: "i < length xs \<Longrightarrow> add_mset (xs ! i) (mset (take i xs @ drop (Suc i) xs)) = mset xs"
  by (metis id_take_nth_drop mset.simps(2) mset_append union_mset_add_mset_right)

lemma take_update_last: "0 < c \<Longrightarrow> c \<le> length xs \<Longrightarrow> take c (xs[c - 1 := x]) = take (c - 1) xs @ [x]"
  by (cases c) (simp_all add: take_Suc_conv_app_nth)

lemma release_one:
  assumes "imp_inv s" and "0 < ie_reorder_count s"
  obtains i k where "PrngEngine_next_range (ie_prng s) 0 (of_nat (ie_reorder_count s) - 1) = Some (i, (xorshift64 ^^ k) (ie_prng s))"
    and "unat i < ie_reorder_count s"
proof -
  have c: "ie_reorder_count s \<le> 32" and prng: "ie_prng s \<noteq> 0" using assms(1) by (auto simp: imp_inv_def)
  have u: "unat (of_nat (ie_reorder_count s) :: u32) = ie_reorder_count s" using c by (simp add: unat_of_nat)
  then have "(1 :: u32) \<le> of_nat (ie_reorder_count s)" using assms(2) by (simp add: word_le_nat_alt)
  then have hi: "unat (of_nat (ie_reorder_count s) - 1 :: u32) = ie_reorder_count s - 1" using u by (simp add: unat_sub)
  obtain i k where
    i: "PrngEngine_next_range (ie_prng s) 0 (of_nat (ie_reorder_count s) - 1) = Some (i, (xorshift64 ^^ k) (ie_prng s))"
      "i \<le> of_nat (ie_reorder_count s) - 1"
    by (rule next_range_orbit [of 0 "of_nat (ie_reorder_count s) - 1" "ie_prng s"]) (use prng in auto)
  have "unat i < ie_reorder_count s" using i(2) hi assms(2) by (simp add: word_le_nat_alt)
  with i(1) that show thesis by blast
qed

lemma reorder_full:
  assumes "imp_inv s" and "envelope_valid env" and "ic_reorder_enabled (ie_cfg s)" and "ic_reorder_window_size (ie_cfg s) \<noteq> 0"
    and "ie_reorder_count s = unat (ic_reorder_window_size (ie_cfg s))" and "out \<noteq> []"
    and "if ic_enabled (ie_cfg s) then ImpairmentEngine_is_partition_active s0 now = Some (False, s) else s0 = s"
    and "ie_initialized s0" and "ie_cfg s0 = ie_cfg s"
  shows "returns (ImpairmentEngine_process_inbound s0 env now out 1) (\<lambda>(r, out', n, s'). imp_inv s' \<and> ie_cfg s' = ie_cfg s \<and>
    delayed s' = delayed s \<and> r = OK \<and> n = 1 \<and> out' \<noteq> [] \<and> out' ! 0 \<in> set (window s) \<and>
    add_mset (out' ! 0) (mset (window s')) = add_mset env (mset (window s)))"
proof -
  let ?c = "ie_reorder_count s"
  have "0 < ?c" using assms(4,5) by (simp add: unat_gt_0)
  from release_one [OF assms(1) this] obtain i k where
    i: "PrngEngine_next_range (ie_prng s) 0 (of_nat ?c - 1) = Some (i, (xorshift64 ^^ k) (ie_prng s))" "unat i < ?c" by blast
  have len: "length (ie_reorder_buf s) = 32" "?c \<le> 32" "ie_prng s \<noteq> 0" using assms(1) by (auto simp: imp_inv_def)
  let ?b = "shift_left [unat i..<?c - 1] (ie_reorder_buf s)"
  let ?s = "s\<lparr> ie_prng := (xorshift64 ^^ k) (ie_prng s), ie_reorder_buf := ?b[?c - 1 := env], ie_reorder_count := ?c - 1 + 1 \<rparr>"
  have lw: "length (window s) = ?c" using len by (simp add: window_def)
  have "window ?s = take (?c - 1) ?b @ [env]"
    using \<open>0 < ?c\<close> len take_update_last [of ?c ?b env] by (simp add: window_def)
  then have w: "window ?s = (take (unat i) (window s) @ drop (Suc (unat i)) (window s)) @ [env]"
    using take_shift_left [OF i(2), of "ie_reorder_buf s"] len i(2) by (simp add: window_def min_def)
  have x: "ie_reorder_buf s ! unat i = window s ! unat i" using i(2) by (simp add: window_def)
  have eq: "ImpairmentEngine_process_inbound s0 env now out 1 = Some (OK, out[0 := window s ! unat i], 1, ?s)"
    using assms i \<open>0 < ?c\<close> x len
    by (cases "ic_enabled (ie_cfg s)") (simp_all add: ImpairmentEngine_process_inbound_def Let_def)
  have "imp_inv ?s" using assms(1) \<open>0 < ?c\<close> xorshift_pow_neq_0 [OF len(3)] by (simp add: imp_inv_def)
  moreover have "add_mset (window s ! unat i) (mset (window ?s)) = add_mset env (mset (window s))"
    unfolding w using mset_take_out [of "unat i" "window s"] i(2) lw by (metis add_mset_commute mset.simps mset_append union_mset_add_mset_right add.right_neutral)
  moreover have "delayed ?s = delayed s" by (simp add: delayed_def)
  ultimately show ?thesis using i(2) lw assms(6) unfolding eq by (cases out) simp_all
qed

lemma inbound_spec:
  assumes "imp_inv s" and "envelope_valid env" and "out \<noteq> []"
  shows "returns (ImpairmentEngine_process_inbound s env now out 1) (\<lambda>(r, out', n, s'). imp_inv s' \<and> ie_cfg s' = ie_cfg s \<and>
    delayed s' = delayed s \<and>
    (r = ERR_IO \<and> n = 0 \<and> ic_enabled (ie_cfg s) \<and> ic_partition_enabled (ie_cfg s) \<and> window s' = window s \<or>
     r = OK \<and> n \<le> 1 \<and> mset (take n out') + mset (window s') = add_mset env (mset (window s)) \<and>
       (\<not> ic_reorder_enabled (ie_cfg s) \<longrightarrow> take n out' = [env])))"
proof -
  have init: "ie_initialized s" using assms(1) by (simp add: imp_inv_def)
  obtain b s1 where p: "(if ic_enabled (ie_cfg s) then ImpairmentEngine_is_partition_active s now else Some (False, s)) = Some (b, s1)"
      "only_partition s s1" "b \<Longrightarrow> ic_enabled (ie_cfg s) \<and> ic_partition_enabled (ie_cfg s)"
    using partition_spec [OF init, of now] by (cases "ic_enabled (ie_cfg s)") (fastforce simp: only_partition_def elim!: returnsE)+
  note o = only_partitionD [OF p(2)]
  have i1: "imp_inv s1" using o assms(1) by simp
  obtain x xs where out: "out = x # xs" using assms(3) by (cases out) auto
  let ?w = "unat (ic_reorder_window_size (ie_cfg s))"
  have len: "length (ie_reorder_buf s1) = 32" "ie_reorder_count s1 \<le> ?w" "?w \<le> 32" using i1 o by (simp_all add: imp_inv_def)
  consider "b" | "\<not> b" "\<not> ic_reorder_enabled (ie_cfg s) \<or> ic_reorder_window_size (ie_cfg s) = 0"
    | "\<not> b" "ic_reorder_enabled (ie_cfg s)" "ic_reorder_window_size (ie_cfg s) \<noteq> 0" "ie_reorder_count s1 < ?w"
    | "\<not> b" "ic_reorder_enabled (ie_cfg s)" "ic_reorder_window_size (ie_cfg s) \<noteq> 0" "ie_reorder_count s1 = ?w"
    using len by linarith
  then show ?thesis
  proof cases
    case 1
    with p assms init i1 o show ?thesis
      by (simp add: ImpairmentEngine_process_inbound_def count_partition_drop_def imp_inv_stats)
  next
    case 2
    with p assms init i1 o out show ?thesis by (auto simp: ImpairmentEngine_process_inbound_def)
  next
    case 3
    let ?s = "s1\<lparr> ie_reorder_buf := (ie_reorder_buf s1)[ie_reorder_count s1 := env], ie_reorder_count := ie_reorder_count s1 + 1,
      ie_stats := (ie_stats s1)\<lparr> reorder_buffered := reorder_buffered (ie_stats s1) + 1 \<rparr> \<rparr>"
    have "imp_inv ?s" using i1 3 o len by (simp add: imp_inv_def)
    moreover have "window ?s = window s1 @ [env]" using len 3 by (simp add: window_def take_Suc_conv_app_nth)
    moreover have "delayed ?s = delayed s1" by (simp add: delayed_def)
    ultimately show ?thesis using 3 p assms init o len by (simp add: ImpairmentEngine_process_inbound_def Let_def)
  next
    case 4
    have "returns (ImpairmentEngine_process_inbound s env now out 1) (\<lambda>(r, out', n, s'). imp_inv s' \<and> ie_cfg s' = ie_cfg s1 \<and>
      delayed s' = delayed s1 \<and> r = OK \<and> n = 1 \<and> out' \<noteq> [] \<and> out' ! 0 \<in> set (window s1) \<and>
      add_mset (out' ! 0) (mset (window s')) = add_mset env (mset (window s1)))"
      using 4 p o init assms by (intro reorder_full [OF i1]) (auto split: if_splits)
    then show ?thesis using 4 o by (elim returns_mono) (auto simp: take_Suc hd_conv_nth neq_Nil_conv)
  qed
qed

section \<open>Properties\<close>

lemma imp_init_spec:
  assumes "unat (ic_reorder_window_size cfg) \<le> 32" and "0 \<le> ic_loss_probability cfg" and "ic_loss_probability cfg \<le> 1"
    and "ic_partition_enabled cfg \<longrightarrow> ic_partition_gap_ms cfg > 0" and "ic_prng_seed cfg \<noteq> 0 \<or> entropy \<noteq> 0"
  shows "returns (ImpairmentEngine_init s cfg entropy) (\<lambda>s'. imp_inv s' \<and> ie_cfg s' = cfg \<and> delayed s' = {#} \<and> window s' = [] \<and>
    ie_next_partition_event_us s' = 0 \<and> \<not> ie_partition_active s')"
  using assms by (auto simp: ImpairmentEngine_init_def PrngEngine_seed_def imp_inv_def delayed_def window_def
      delay_entry_zero_def impairment_stats_init_def Let_def)

lemma imp_blank_inv: "imp_inv (imp_blank lossy_config)" "imp_inv (imp_blank slow_config)"
  by (simp_all add: imp_inv_def imp_blank_def slow_config_def lossy_config_def impairment_config_default_def delay_entry_zero_def)

text \<open>Claim C37. Sending through the impairment: an accepted message is put into the delay buffer once, or twice (the copy 100
  microseconds later) if duplication is configured, with a release time that is the send time plus the fixed latency plus a jitter
  from the configured interval, saturated; a dropped message (\<open>ERR_IO\<close>, possible only with a loss probability or partitions,
  certain with loss probability 1) and one refused by the full buffer leave the delayed messages as they are; and with impairments
  disabled the message is due at once. No assertion fires unless a draw of a \<open>double\<close> aborts.\<close>

theorem process_outbound_contract:
  assumes "imp_inv s" and "envelope_valid env"
    and "ic_enabled (ie_cfg s) \<and> (ic_loss_probability (ie_cfg s) > 0 \<or> ic_duplication_probability (ie_cfg s) > 0) \<longrightarrow>
      double_draws_ok 66 (ie_prng s)"
  shows "returns (ImpairmentEngine_process_outbound s env now_us) (\<lambda>(r, s'). imp_inv s' \<and> ie_cfg s' = ie_cfg s \<and> window s' = window s \<and>
    (case r of
       OK \<Rightarrow> ie_delay_count s < 32 \<and> (ic_enabled (ie_cfg s) \<longrightarrow> ic_loss_probability (ie_cfg s) \<noteq> 1) \<and>
         (\<exists>rel. release_ok (ie_cfg s) now_us rel \<and> (delayed s' = add_mset (env, rel) (delayed s) \<or>
            ic_enabled (ie_cfg s) \<and> ic_duplication_probability (ie_cfg s) > 0 \<and>
            delayed s' = add_mset (env, rel + 100) (add_mset (env, rel) (delayed s))))
     | ERR_IO \<Rightarrow> ic_enabled (ie_cfg s) \<and> (ic_loss_probability (ie_cfg s) > 0 \<or> ic_partition_enabled (ie_cfg s)) \<and>
         delayed s' = delayed s \<and> loss_drops (ie_stats s') = loss_drops (ie_stats s) + 1
     | ERR_FULL \<Rightarrow> ie_delay_count s = 32 \<and> delayed s' = delayed s
     | _ \<Rightarrow> False))"
proof (cases "ic_enabled (ie_cfg s)")
  case True
  have size: "size (delayed s') = ie_delay_count s'" if "imp_inv s'" for s'
    using that by (simp add: delayed_def imp_inv_def length_filter_size)
  have c: "ie_delay_count s < 32" if "imp_inv s'" "delayed s \<subset># delayed s'" for s'
    using mset_subset_size [OF that(2)] size [OF that(1)] size [OF assms(1)] delay_count_le [OF that(1)] by simp
  have d: "ic_loss_probability (ie_cfg s) > 0 \<or> ic_duplication_probability (ie_cfg s) > 0 \<longrightarrow> double_draws_ok 66 (ie_prng s)"
    using assms(3) True by blast
  show ?thesis
    by (rule returns_mono [OF outbound_enabled [OF assms(1,2) True d]])
      (auto simp: True intro!: c intro: subset_mset.less_trans [of _ "add_mset _ (delayed s)"])
next
  case False
  show ?thesis
    by (rule returns_mono [OF outbound_disabled [OF assms(1,2) False]])
      (use False delay_count_le [OF assms(1)] in \<open>auto simp: release_ok_def split: if_splits\<close>)
qed

theorem process_outbound_contract_witness:
  "returns (ImpairmentEngine_process_outbound (imp_blank slow_config) (envelope_init\<lparr> message_type := DATA, source_id := 7 \<rparr>) 1000)
     (\<lambda>(r, s'). imp_inv s' \<and> r = OK \<and> (\<exists>rel. release_ok slow_config 1000 rel \<and>
        delayed s' = {# (envelope_init\<lparr> message_type := DATA, source_id := 7 \<rparr>, rel) #}))"
proof -
  let ?e = "envelope_init\<lparr> message_type := DATA, source_id := 7 \<rparr>"
  have b: "delayed (imp_blank slow_config) = {#}" "ie_cfg (imp_blank slow_config) = slow_config" "ie_delay_count (imp_blank slow_config) = 0"
      "ic_loss_probability slow_config = 0" "ic_duplication_probability slow_config = 0" "\<not> ic_partition_enabled slow_config"
    by (simp_all add: imp_blank_def delayed_def delay_entry_zero_def slow_config_def lossy_config_def impairment_config_default_def)
  have "envelope_valid ?e" by (simp add: envelope_valid_def envelope_init_def)
  note c = process_outbound_contract [OF imp_blank_inv(2) this, of 1000]
  show ?thesis by (rule returns_mono [OF c]) (simp add: b, clarsimp simp: b, rename_tac r s', case_tac r, auto simp: b)
qed

text \<open>Collecting hands out, in slot order and as many as fit, exactly the delayed messages whose release time has come,
  and removes just these: nothing is released early, and with room for all slots nothing that is due stays behind.\<close>

theorem collect_deliverable_exact:
  assumes "imp_inv s" and "0 < cap" and "cap \<le> length out"
  shows "returns (ImpairmentEngine_collect_deliverable s now_us out cap) (\<lambda>(n, out', s'). imp_inv s' \<and> ie_cfg s' = ie_cfg s \<and>
    filled out' cap n (map de_env (due_slots now_us (ie_delay_buf s))) \<and>
    delayed s' + mset (map de_view (take n (due_slots now_us (ie_delay_buf s)))) = delayed s \<and>
    (32 \<le> cap \<longrightarrow> delayed s' = filter_mset (\<lambda>(env, rel). rel > now_us) (delayed s)))"
proof -
  have "delayed s' = filter_mset (\<lambda>(env, rel). rel > now_us) (delayed s)"
    if "32 \<le> cap" "filled out' cap n (map de_env (due_slots now_us (ie_delay_buf s)))"
      "delayed s' + mset (map de_view (take n (due_slots now_us (ie_delay_buf s)))) = delayed s" for out' n s'
  proof -
    have "length (due_slots now_us (ie_delay_buf s)) \<le> 32"
      using assms(1) length_filter_le [of _ "ie_delay_buf s"] by (simp add: due_slots_def imp_inv_def)
    with that(1,2) have "take n (due_slots now_us (ie_delay_buf s)) = due_slots now_us (ie_delay_buf s)" by (simp add: filled_def)
    with that(3) due_view [of now_us s]
    have "delayed s' + filter_mset (\<lambda>(env, rel). rel \<le> now_us) (delayed s) = delayed s" by simp
    moreover have "delayed s = filter_mset (\<lambda>(env, rel). rel > now_us) (delayed s) + filter_mset (\<lambda>(env, rel). rel \<le> now_us) (delayed s)"
      using multiset_partition [of "delayed s" "\<lambda>(env, rel). rel > now_us"] by (simp add: case_prod_unfold not_less)
    ultimately show ?thesis by (metis add_right_cancel)
  qed
  then show ?thesis by (intro returns_mono [OF collect_spec [OF assms]]) auto
qed

theorem collect_deliverable_exact_witness:
  "returns (ImpairmentEngine_collect_deliverable (imp_blank lossy_config) 1000 (replicate 32 envelope_init) 32)
     (\<lambda>(n, out', s'). n = 0 \<and> delayed s' = {#})"
proof -
  have "delayed (imp_blank lossy_config) = {#}" "due_slots 1000 (ie_delay_buf (imp_blank lossy_config)) = []"
    by (simp_all add: imp_blank_def delayed_def due_slots_def delay_entry_zero_def)
  then show ?thesis
    by (intro returns_mono [OF collect_deliverable_exact [OF imp_blank_inv(1)]]) (auto simp: filled_def)
qed

lemma reorder_run:
  assumes "imp_inv s" and "list_all (\<lambda>(env, t). envelope_valid env) ms"
  shows "returns (inbound_run ms s) (\<lambda>(outs, s'). imp_inv s' \<and> ie_cfg s' = ie_cfg s \<and>
    mset outs + mset (window s') \<subseteq># mset (window s) + mset (map fst ms) \<and>
    (\<not> (ic_enabled (ie_cfg s) \<and> ic_partition_enabled (ie_cfg s)) \<longrightarrow>
       mset outs + mset (window s') = mset (window s) + mset (map fst ms) \<and>
       (\<not> ic_reorder_enabled (ie_cfg s) \<longrightarrow> outs = map fst ms)))"
  using assms
proof (induction ms arbitrary: s)
  case (Cons m ms)
  obtain env t where m: "m = (env, t)" by (cases m)
  from inbound_spec [OF Cons.prems(1), of env "[envelope_init]" t] Cons.prems(2) obtain r out n s1 where
    i: "ImpairmentEngine_process_inbound s env t [envelope_init] 1 = Some (r, out, n, s1)" "imp_inv s1" "ie_cfg s1 = ie_cfg s"
      "r = ERR_IO \<and> n = 0 \<and> ic_enabled (ie_cfg s) \<and> ic_partition_enabled (ie_cfg s) \<and> window s1 = window s \<or>
       r = OK \<and> n \<le> 1 \<and> mset (take n out) + mset (window s1) = add_mset env (mset (window s)) \<and>
         (\<not> ic_reorder_enabled (ie_cfg s) \<longrightarrow> take n out = [env])"
    by (auto simp: m elim!: returnsE)
  have sub: "mset (take n out) + mset (window s1) \<subseteq># add_mset env (mset (window s))" using i(4) by auto
  from Cons.IH [OF i(2)] Cons.prems(2) obtain outs s2 where
    o: "inbound_run ms s1 = Some (outs, s2)" "imp_inv s2" "ie_cfg s2 = ie_cfg s"
      "mset outs + mset (window s2) \<subseteq># mset (window s1) + mset (map fst ms)"
      "\<not> (ic_enabled (ie_cfg s) \<and> ic_partition_enabled (ie_cfg s)) \<Longrightarrow>
        mset outs + mset (window s2) = mset (window s1) + mset (map fst ms) \<and> (\<not> ic_reorder_enabled (ie_cfg s) \<longrightarrow> outs = map fst ms)"
    unfolding i(3) by (auto elim!: returnsE)
  have "mset (take n out) + (mset outs + mset (window s2)) \<subseteq># mset (take n out) + (mset (window s1) + mset (map fst ms))"
    using o(4) by (rule subset_mset.add_left_mono)
  also have "\<dots> \<subseteq># add_mset env (mset (window s)) + mset (map fst ms)"
    using subset_mset.add_right_mono [OF sub, of "mset (map fst ms)"] by (simp add: add.assoc)
  finally have le: "mset (take n out @ outs) + mset (window s2) \<subseteq># mset (window s) + mset (map fst (m # ms))"
    by (simp add: m add.assoc)
  have eq: "mset (take n out @ outs) + mset (window s2) = mset (window s) + mset (map fst (m # ms)) \<and>
      (\<not> ic_reorder_enabled (ie_cfg s) \<longrightarrow> take n out @ outs = map fst (m # ms))"
    if "\<not> (ic_enabled (ie_cfg s) \<and> ic_partition_enabled (ie_cfg s))"
  proof -
    have "mset (take n out) + (mset (window s1) + mset (map fst ms)) = add_mset env (mset (window s)) + mset (map fst ms)"
      using i(4) that by (auto simp flip: add.assoc)
    with o(5) [OF that] i(4) that show ?thesis by (auto simp: m add.assoc)
  qed
  show ?case using i(1) o(1,2,3) le eq by (simp add: m)
qed simp

text \<open>Reordering neither loses nor invents a message: after any sequence of inbound messages, those handed on and those
  that wait in the window are together the messages that came in and the window before (some of them when partitions drop
  messages), the window never exceeds its configured size, and with reordering off every message is handed on at once.\<close>

theorem reorder_conserves:
  assumes "imp_inv s" and "list_all (\<lambda>(env, t). envelope_valid env) ms"
  shows "returns (inbound_run ms s) (\<lambda>(outs, s').
    mset outs + mset (window s') \<subseteq># mset (window s) + mset (map fst ms) \<and>
    length (window s') \<le> unat (ic_reorder_window_size (ie_cfg s)) \<and>
    (\<not> (ic_enabled (ie_cfg s) \<and> ic_partition_enabled (ie_cfg s)) \<longrightarrow>
       mset outs + mset (window s') = mset (window s) + mset (map fst ms) \<and>
       (\<not> ic_reorder_enabled (ie_cfg s) \<longrightarrow> outs = map fst ms)))"
  by (rule returns_mono [OF reorder_run [OF assms]]) (auto simp: window_def imp_inv_def)

theorem reorder_conserves_witness:
  "returns (inbound_run (replicate 5 (envelope_init\<lparr> message_type := DATA, source_id := 7 \<rparr>, 3)) (imp_blank lossy_config))
     (\<lambda>(outs, s'). length outs + length (window s') = 5)"
proof -
  have e: "mset (outs :: envelope list) + mset w = M \<Longrightarrow> length outs + length w = size M" for outs w M
    by (metis size_mset size_union)
  have "\<not> ic_partition_enabled (ie_cfg (imp_blank lossy_config))" "window (imp_blank lossy_config) = []"
    by (simp_all add: imp_blank_def lossy_config_def impairment_config_default_def window_def)
  with reorder_conserves [OF imp_blank_inv(1), of "replicate 5 (envelope_init\<lparr> message_type := DATA, source_id := 7 \<rparr>, 3)"]
  show ?thesis by (auto simp: list_all_iff envelope_valid_def envelope_init_def simp del: mset_replicate elim!: returns_mono dest!: e)
qed

section \<open>The partition schedule\<close>

lemma partition_running:
  assumes "ie_initialized s" and "ic_partition_enabled (ie_cfg s)" and "ie_next_partition_event_us s \<noteq> 0"
    and "list_all (\<lambda>t. t < ie_next_partition_event_us s) ts"
  shows "partition_run ts s = Some (replicate (length ts) (ie_partition_active s), s)"
  using assms(4) by (induction ts) (auto simp: ImpairmentEngine_is_partition_active_def assms word_gt_0 not_le)

lemma partition_run_snoc:
  "partition_run (us @ [u]) s = do {
     (bs, s) \<leftarrow> partition_run us s;
     (b, s) \<leftarrow> ImpairmentEngine_is_partition_active s u;
     Some (bs @ [b], s) }"
proof (induction us arbitrary: s)
  case (Cons v us)
  show ?case
  proof (cases "ImpairmentEngine_is_partition_active s v")
    case (Some a)
    then show ?thesis by (cases "partition_run us (snd a)") (auto simp: split_beta Cons split: option.split)
  qed simp
qed (simp add: split_beta)

lemma sat_add_exact:
  assumes "unat now + 1000 * unat d < 2 ^ 64"
  shows "sat_add_us now d = Some (now + ucast d * 1000)" "unat (now + ucast d * 1000) = unat now + 1000 * unat d"
proof -
  show "unat (now + ucast d * 1000) = unat now + 1000 * unat d"
    using assms by (subst unat_add_no_wrap) (simp_all add: unat_ms_us)
  have "unat (- 1 - ucast d * 1000 :: u64) = 2 ^ 64 - 1 - 1000 * unat d"
    by (simp add: unat_sub unat_ms_us unsigned_minus_1_eq_mask mask_eq_exp_minus_1)
  then have "\<not> now > - 1 - ucast d * 1000" using assms by (simp add: word_less_nat_alt)
  then show "sat_add_us now d = Some (now + ucast d * 1000)" by (simp add: sat_add_eq)
qed

text \<open>The partition schedule: once the time of the next event has come, the next query toggles the state, an outage then
  lasts exactly the configured duration and a gap the configured gap, counted from that query, during which every query gives the
  same answer, and the first query at or after its end toggles again.\<close>

theorem partition_schedule:
  assumes "imp_inv s" and "ic_partition_enabled (ie_cfg s)" and "ie_next_partition_event_us s \<noteq> 0" and "ie_next_partition_event_us s \<le> t"
    and "d = (if ie_partition_active s then ic_partition_gap_ms (ie_cfg s) else ic_partition_duration_ms (ie_cfg s))"
    and "0 < unat t + 1000 * unat d" and "unat t + 1000 * unat d < 2 ^ 64"
    and "list_all (\<lambda>u. unat u < unat t + 1000 * unat d) ts" and "unat t + 1000 * unat d \<le> unat t'"
  shows "returns (partition_run (t # ts @ [t']) s) (\<lambda>(bs, s'). imp_inv s' \<and>
    bs = (\<not> ie_partition_active s) # replicate (length ts) (\<not> ie_partition_active s) @ [ie_partition_active s])"
proof -
  have init: "ie_initialized s" using assms(1) by (simp add: imp_inv_def)
  note add = sat_add_exact [OF assms(7)]
  define s1 where "s1 = (if ie_partition_active s
    then s\<lparr> ie_partition_active := False, ie_next_partition_event_us := t + ucast d * 1000 \<rparr>
    else s\<lparr> ie_partition_active := True, ie_partition_start_us := t, ie_next_partition_event_us := t + ucast d * 1000 \<rparr>)"
  have s1: "ie_partition_active s1 = (\<not> ie_partition_active s)" "ie_next_partition_event_us s1 = t + ucast d * 1000"
      "ie_initialized s1" "ie_cfg s1 = ie_cfg s" "imp_inv s1"
    using init assms(1) by (simp_all add: s1_def imp_inv_def)
  have first: "ImpairmentEngine_is_partition_active s t = Some (\<not> ie_partition_active s, s1)"
    using init assms(2-5) add(1) by (auto simp: ImpairmentEngine_is_partition_active_def s1_def Let_def)
  have nz: "ie_next_partition_event_us s1 \<noteq> 0" using add(2) assms(6) s1(2) by (metis less_numeral_extra(3) unat_0)
  have "list_all (\<lambda>u. u < ie_next_partition_event_us s1) ts" using assms(8) add(2) s1(2) by (simp add: word_less_nat_alt list_all_iff)
  then have mid: "partition_run ts s1 = Some (replicate (length ts) (\<not> ie_partition_active s), s1)"
    using partition_running [OF s1(3) _ nz] assms(2) s1(1,4) by simp
  have "returns (ImpairmentEngine_is_partition_active s1 t') (\<lambda>(b, s'). imp_inv s' \<and> b = ie_partition_active s)"
  proof -
    have le: "ie_next_partition_event_us s1 \<le> t'" using assms(9) add(2) s1(2) by (simp add: word_le_nat_alt)
    have "returns (ImpairmentEngine_is_partition_active s1 t') (\<lambda>(b, s'). only_partition s1 s' \<and> b = ie_partition_active s)"
      using s1 nz le assms(2) by (auto simp: ImpairmentEngine_is_partition_active_def sat_add_eq only_partition_def Let_def)
    then show ?thesis using s1(5) by (auto elim!: returns_mono dest: only_partitionD(1))
  qed
  then show ?thesis using first mid by (auto simp: partition_run_snoc elim!: returnsE)
qed

theorem partition_schedule_witness:
  "returns (partition_run [5000, 6000, 6999, 7000] ((imp_blank partition_config)\<lparr> ie_next_partition_event_us := 4000 \<rparr>))
     (\<lambda>(bs, s'). bs = [True, True, True, False])"
proof -
  have "imp_inv ((imp_blank partition_config)\<lparr> ie_next_partition_event_us := 4000 \<rparr>)"
    by (simp add: imp_inv_def imp_blank_def partition_config_def lossy_config_def impairment_config_default_def delay_entry_zero_def)
  note s = partition_schedule [OF this, of 5000 2 "[6000, 6999]" 7000]
  have "\<not> ie_partition_active (imp_blank partition_config)" "ic_partition_enabled (ie_cfg (imp_blank partition_config))"
      "ic_partition_duration_ms (ie_cfg (imp_blank partition_config)) = 2"
    by (simp_all add: imp_blank_def partition_config_def)
  with s show ?thesis by (simp del: partition_run.simps) (erule returns_mono, auto)
qed

end
