(* ===== verification/ImpairedLink.thy ===== *)
theory ImpairedLink
  imports Impairment RingBuffer
begin

text \<open>
  What every backend relies on from its impairment engine and its receive queue. \<open>link_ok P\<close> is the invariant of the impairment
  engine of a backend all of whose messages satisfy \<open>P\<close> and whose configuration draws no random number in \<open>[0, 1)\<close>: the draw
  itself may abort, and over an unbounded run nothing excludes it. Latency, jitter, reordering and partitions are covered.
\<close>

definition draws_no_double :: "impairment_config \<Rightarrow> bool" where
  "draws_no_double cfg \<longleftrightarrow> (ic_enabled cfg \<longrightarrow> ic_loss_probability cfg = 0 \<and> ic_duplication_probability cfg \<le> 0)"

definition imp_config_ok :: "impairment_config \<Rightarrow> bool" where
  "imp_config_ok cfg \<longleftrightarrow> unat (ic_reorder_window_size cfg) \<le> 32 \<and> 0 \<le> ic_loss_probability cfg \<and> ic_loss_probability cfg \<le> 1 \<and>
     (ic_partition_enabled cfg \<longrightarrow> ic_partition_gap_ms cfg > 0) \<and> draws_no_double cfg"

definition link_ok :: "(envelope \<Rightarrow> bool) \<Rightarrow> (envelope \<Rightarrow> bool) \<Rightarrow> impairment_engine \<Rightarrow> bool" where
  "link_ok P Q s \<longleftrightarrow> imp_inv s \<and> draws_no_double (ie_cfg s) \<and> (\<forall>x \<in># delayed s. P (fst x)) \<and> (\<forall>x \<in> set (window s). Q x)"

text \<open>The messages a backend may send.\<close>

definition msg_ok :: "envelope \<Rightarrow> bool" where
  "msg_ok env \<longleftrightarrow> env_wf env \<and> envelope_valid env"

text \<open>The receive queue of a backend all of whose messages satisfy \<open>P\<close>.\<close>

definition queue_holds :: "(envelope \<Rightarrow> bool) \<Rightarrow> ring_buffer \<Rightarrow> bool" where
  "queue_holds P q \<longleftrightarrow> rb_inv q \<and> (\<forall>x \<in> set (rb_contents q). P x)"

lemma link_okD:
  "link_ok P Q s \<Longrightarrow> imp_inv s" "link_ok P Q s \<Longrightarrow> ie_initialized s"
  by (simp_all add: link_ok_def imp_inv_def)

lemma link_init:
  assumes "imp_config_ok cfg" and "ic_prng_seed cfg \<noteq> 0 \<or> entropy \<noteq> 0"
  shows "returns (ImpairmentEngine_init s cfg entropy) (\<lambda>s'. link_ok P Q s' \<and> ie_cfg s' = cfg \<and> delayed s' = {#} \<and> window s' = [])"
  using assms by (auto simp: imp_config_ok_def link_ok_def intro!: returns_mono [OF imp_init_spec])

lemma blank_ok: "imp_config_ok cfg \<Longrightarrow> link_ok P Q (imp_blank cfg)"
  by (auto simp: link_ok_def imp_config_ok_def imp_blank_def imp_inv_def delayed_def window_def delay_entry_zero_def)

text \<open>The outbound half: a message is queued, dropped, or refused.\<close>

lemma link_outbound:
  assumes "link_ok P Q s" and "envelope_valid env" and "P env"
  shows "returns (ImpairmentEngine_process_outbound s env now) (\<lambda>(r, s'). link_ok P Q s' \<and> ie_cfg s' = ie_cfg s \<and> window s' = window s \<and>
    r \<in> {OK, ERR_IO, ERR_FULL} \<and> (\<not> ic_enabled (ie_cfg s) \<longrightarrow>
      (if ie_delay_count s = 32 then r = ERR_FULL \<and> s' = s else r = OK \<and> delayed s' = add_mset (env, now) (delayed s))))"
proof (cases "ic_enabled (ie_cfg s)")
  case True
  with assms have "\<not> (ic_loss_probability (ie_cfg s) > 0 \<or> ic_duplication_probability (ie_cfg s) > 0)"
    by (auto simp: link_ok_def draws_no_double_def)
  with outbound_enabled [OF link_okD(1) [OF assms(1)] assms(2) True, of now] True assms show ?thesis
    by (auto simp: link_ok_def elim!: returns_mono)
next
  case False
  with outbound_disabled [OF link_okD(1) [OF assms(1)] assms(2) False, of now] assms show ?thesis
    by (auto simp: link_ok_def split: if_splits elim!: returns_mono)
qed

lemma link_collect:
  assumes "link_ok P Q s" and "32 \<le> length out"
  shows "returns (ImpairmentEngine_collect_deliverable s now out 32) (\<lambda>(n, out', s'). link_ok P Q s' \<and> ie_cfg s' = ie_cfg s \<and>
    window s' = window s \<and> n \<le> 32 \<and> 32 \<le> length out' \<and> (\<forall>x \<in> set (take n out'). P x) \<and>
    take n out' = map de_env (due_slots now (ie_delay_buf s)) \<and> delayed s' = filter_mset (\<lambda>x. \<not> snd x \<le> now) (delayed s))"
proof -
  let ?due = "due_slots now (ie_delay_buf s)"
  have inv: "imp_inv s" using assms(1) by (rule link_okD)
  have due: "length ?due \<le> 32" using inv length_filter_le [of _ "ie_delay_buf s"] by (auto simp: imp_inv_def due_slots_def)
  have P: "P (de_env d)" if "d \<in> set ?due" for d
  proof -
    from that have "de_view d \<in># delayed s" by (auto simp: due_slots_def delayed_def)
    with assms(1) show ?thesis by (auto simp: link_ok_def de_view_def dest: bspec)
  qed
  have part: "delayed s' = filter_mset (\<lambda>x. \<not> snd x \<le> now) (delayed s)" if "delayed s' + mset (map de_view ?due) = delayed s" for s'
  proof -
    from due_view [of now s] have "mset (map de_view ?due) = filter_mset (\<lambda>x. snd x \<le> now) (delayed s)" by (simp add: case_prod_unfold)
    with that multiset_partition [of "delayed s" "\<lambda>x. snd x \<le> now"] show ?thesis by (metis add.commute add_left_cancel)
  qed
  from collect_spec [OF inv, of 32 out now] assms(2) show ?thesis
    using due P assms(1) part by (fastforce simp: filled_def link_ok_def min_def elim!: returns_mono split: if_splits)
qed

text \<open>The inbound half: a message is handed on, possibly in exchange for an earlier one, kept back, or dropped in an outage.\<close>

lemma inbound_keeps_length:
  "ImpairmentEngine_process_inbound s env now out cap = Some (r, out', n, s') \<Longrightarrow> length out' = length out"
  by (auto simp: ImpairmentEngine_process_inbound_def Let_def nc_assert_def bind_eq_Some_conv split: if_splits)

lemma link_inbound:
  assumes "link_ok P Q s" and "envelope_valid env" and "Q env" and "out \<noteq> []"
  shows "returns (ImpairmentEngine_process_inbound s env now out 1) (\<lambda>(r, out', n, s'). link_ok P Q s' \<and> ie_cfg s' = ie_cfg s \<and>
    delayed s' = delayed s \<and> r \<in> {OK, ERR_IO} \<and> (n = 0 \<or> n = 1 \<and> r = OK \<and> Q (out' ! 0)) \<and>
    (\<not> ic_enabled (ie_cfg s) \<and> \<not> ic_reorder_enabled (ie_cfg s) \<longrightarrow> r = OK \<and> n = 1 \<and> out' ! 0 = env \<and> window s' = window s))"
proof -
  from inbound_spec [OF link_okD(1) [OF assms(1)] assms(2,4), of now] obtain r out' n s' where
    eq: "ImpairmentEngine_process_inbound s env now out 1 = Some (r, out', n, s')" and
    spec: "imp_inv s'" "ie_cfg s' = ie_cfg s" "delayed s' = delayed s"
      "r = ERR_IO \<and> n = 0 \<and> ic_enabled (ie_cfg s) \<and> ic_partition_enabled (ie_cfg s) \<and> window s' = window s \<or>
       r = OK \<and> n \<le> 1 \<and> mset (take n out') + mset (window s') = add_mset env (mset (window s)) \<and>
         (\<not> ic_reorder_enabled (ie_cfg s) \<longrightarrow> take n out' = [env])"
    by (auto elim!: returnsE)
  from inbound_keeps_length [OF eq] assms(4) have out': "out' \<noteq> []" by auto
  have t1: "take 1 out' = [out' ! 0]" using out' by (cases out') auto
  have old: "Q x" if "x \<in># add_mset env (mset (window s))" for x using that assms(1,3) by (auto simp: link_ok_def)
  show ?thesis
  proof (cases "r = OK")
    case True
    with spec(4) have n: "n = 0 \<or> n = 1" and m: "mset (take n out') + mset (window s') = add_mset env (mset (window s))"
      and plain: "\<not> ic_reorder_enabled (ie_cfg s) \<longrightarrow> take n out' = [env]" by auto
    have "Q x" if "x \<in> set (window s')" for x using that by (intro old) (simp flip: m)
    moreover have "Q (out' ! 0)" if "n = 1" using that t1 by (intro old) (simp flip: m)
    moreover have "n = 1 \<and> out' ! 0 = env \<and> mset (window s') = mset (window s)" if "\<not> ic_reorder_enabled (ie_cfg s)"
      using that plain n t1 m by auto
    moreover have "window s' = window s" if "\<not> ic_enabled (ie_cfg s) \<and> \<not> ic_reorder_enabled (ie_cfg s)"
      using that eq by (auto simp: ImpairmentEngine_process_inbound_def nc_assert_def split: if_splits)
    ultimately show ?thesis using eq True n spec(1-3) assms(1) by (auto simp: link_ok_def)
  next
    case False
    with spec eq assms(1) show ?thesis by (auto simp: link_ok_def)
  qed
qed

lemma link_partition:
  assumes "link_ok P Q s"
  shows "returns (ImpairmentEngine_is_partition_active s now) (\<lambda>(b, s'). link_ok P Q s' \<and> ie_cfg s' = ie_cfg s \<and> delayed s' = delayed s \<and>
    window s' = window s \<and> (\<not> ic_partition_enabled (ie_cfg s) \<longrightarrow> \<not> b))"
  using partition_spec [OF link_okD(2) [OF assms], of now] assms
  by (auto simp: link_ok_def only_partitionD elim!: returns_mono)

text \<open>The receive queue.\<close>

lemma queue_init: "length (rb_buf q) = 64 \<Longrightarrow> returns (RingBuffer_init q) (\<lambda>q'. queue_holds P q' \<and> rb_contents q' = [])"
  by (simp add: RingBuffer_init_def queue_holds_def rb_inv_def rb_count_def rb_contents_def)

lemma queue_push:
  assumes "queue_holds P q" and "P x"
  shows "returns (RingBuffer_push q x) (\<lambda>(r, q'). queue_holds P q' \<and>
    (if length (rb_contents q) < 64 then r = OK \<and> rb_contents q' = rb_contents q @ [x] else r = ERR_FULL \<and> q' = q))"
  using assms rbq.push_item [of q x] rbq.push_full [of q x]
  by (cases "length (rb_contents q) < 64") (auto simp: queue_holds_def)

lemma queue_pop:
  assumes "queue_holds P q"
  shows "returns (RingBuffer_pop q d) (\<lambda>(r, x, q'). queue_holds P q' \<and>
    (case rb_contents q of [] \<Rightarrow> r = ERR_EMPTY \<and> x = d \<and> q' = q | y # ys \<Rightarrow> r = OK \<and> x = y \<and> P x \<and> rb_contents q' = ys))"
proof (cases "rb_contents q")
  case Nil
  with assms show ?thesis by (simp add: queue_holds_def rbq.pop_empty)
next
  case (Cons y ys)
  with rbq.pop_item [OF _ Cons, of d] assms show ?thesis by (auto simp: queue_holds_def)
qed

end
