(* ===== verification/Posix.thy ===== *)
theory Posix
  imports MessageEnvelope
begin

text \<open>
  The operating system as the platform code sees it: \<open>IPosixSyscalls.hpp\<close> and the calls that \<open>SocketUtils.cpp\<close>,
  \<open>TcpBackend.cpp\<close> and \<open>Timestamp.hpp\<close> make directly. The system is a state of type \<open>'w\<close> with one function per call; the
  code above is defined over an arbitrary such record. A call returns its C result; \<open>connect\<close> also \<open>errno\<close>, \<open>poll\<close> the
  \<open>revents\<close> fields, the receive calls the bytes they stored. Socket options and address families are the few values the code
  passes.
\<close>

datatype sock_addr = Inet4 "u8 list" u16 | Inet6 "u8 list" u16

record 'w posix =
  px_clock_gettime :: "'w \<Rightarrow> (int \<times> int \<times> int) \<times> 'w"
  px_socket :: "'w \<Rightarrow> bool \<Rightarrow> bool \<Rightarrow> int \<times> 'w"
  px_fcntl_getfl :: "'w \<Rightarrow> int \<Rightarrow> int \<times> 'w"
  px_fcntl_setfl :: "'w \<Rightarrow> int \<Rightarrow> int \<Rightarrow> int \<times> 'w"
  px_setsockopt_reuseaddr :: "'w \<Rightarrow> int \<Rightarrow> int \<times> 'w"
  px_bind :: "'w \<Rightarrow> int \<Rightarrow> sock_addr \<Rightarrow> int \<times> 'w"
  px_connect :: "'w \<Rightarrow> int \<Rightarrow> sock_addr \<Rightarrow> (int \<times> int) \<times> 'w"
  px_getsockopt_error :: "'w \<Rightarrow> int \<Rightarrow> (int \<times> int) \<times> 'w"
  px_listen :: "'w \<Rightarrow> int \<Rightarrow> int \<Rightarrow> int \<times> 'w"
  px_accept :: "'w \<Rightarrow> int \<Rightarrow> int \<times> 'w"
  px_close :: "'w \<Rightarrow> int \<Rightarrow> int \<times> 'w"
  px_poll :: "'w \<Rightarrow> (int \<times> u16) list \<Rightarrow> int \<Rightarrow> (int \<times> u16 list) \<times> 'w"
  px_send :: "'w \<Rightarrow> int \<Rightarrow> u8 list \<Rightarrow> int \<times> 'w"
  px_recv :: "'w \<Rightarrow> int \<Rightarrow> nat \<Rightarrow> (int \<times> u8 list) \<times> 'w"
  px_sendto :: "'w \<Rightarrow> int \<Rightarrow> u8 list \<Rightarrow> sock_addr \<Rightarrow> int \<times> 'w"
  px_recvfrom :: "'w \<Rightarrow> int \<Rightarrow> nat \<Rightarrow> (int \<times> u8 list \<times> sock_addr) \<times> 'w"
  px_inet_pton :: "bool \<Rightarrow> string \<Rightarrow> u8 list option"
  px_inet_ntop :: "sock_addr \<Rightarrow> string option"

text \<open>A reading of the monotonic clock.\<close>

definition read_clock :: "'w posix \<Rightarrow> 'w \<Rightarrow> (u64 \<times> 'w) option" where
  "read_clock X w = (let ((result, tv_sec, tv_nsec), w) = px_clock_gettime X w
     in map_option (\<lambda>now. (now, w)) (timestamp_now_us result tv_sec tv_nsec))"

text \<open>The clock never fails, is past its origin and far from overflow, on all states that satisfy \<open>I\<close>.\<close>

definition clock_ok :: "'w posix \<Rightarrow> ('w \<Rightarrow> bool) \<Rightarrow> bool" where
  "clock_ok X I \<longleftrightarrow> (\<forall>w. I w \<longrightarrow> (case px_clock_gettime X w of ((res, s, ns), w') \<Rightarrow>
     I w' \<and> res = 0 \<and> 0 \<le> s \<and> s < 10000000000000 \<and> 0 \<le> ns \<and> ns < 1000000000 \<and> (0 < s \<or> 1000 \<le> ns)))"

text \<open>A system for examples: the clock stands still, and no socket call succeeds.\<close>

definition posix_offline :: "unit posix" where
  "posix_offline = \<lparr> px_clock_gettime = (\<lambda>w. ((0, 1, 0), w)), px_socket = (\<lambda>w _ _. (- 1, w)),
     px_fcntl_getfl = (\<lambda>w _. (- 1, w)), px_fcntl_setfl = (\<lambda>w _ _. (- 1, w)), px_setsockopt_reuseaddr = (\<lambda>w _. (- 1, w)),
     px_bind = (\<lambda>w _ _. (- 1, w)), px_connect = (\<lambda>w _ _. ((- 1, 0), w)), px_getsockopt_error = (\<lambda>w _. ((- 1, 0), w)),
     px_listen = (\<lambda>w _ _. (- 1, w)), px_accept = (\<lambda>w _. (- 1, w)), px_close = (\<lambda>w _. (- 1, w)),
     px_poll = (\<lambda>w fds _. ((- 1, map (\<lambda>_. 0) fds), w)), px_send = (\<lambda>w _ _. (- 1, w)), px_recv = (\<lambda>w _ _. ((- 1, []), w)),
     px_sendto = (\<lambda>w _ _ _. (- 1, w)), px_recvfrom = (\<lambda>w _ _. ((- 1, [], Inet4 [] 0), w)),
     px_inet_pton = (\<lambda>_ _. None), px_inet_ntop = (\<lambda>_. None) \<rparr>"

lemma timestamp_now_exact:
  assumes "0 \<le> s" and "s < 10000000000000" and "0 \<le> ns" and "ns < 1000000000"
  shows "returns (timestamp_now_us 0 s ns) (\<lambda>now. uint now = 1000000 * s + ns div 1000)"
proof -
  have s: "uint (of_int s :: u64) = s" and ns: "uint (of_int ns :: u64) = ns" using assms by (simp_all add: uint_word_of_int)
  have "\<not> (of_int s :: u64) > - 1 div 1000000" using s assms by (simp add: word_less_def uint_div)
  moreover have "uint ((of_int s :: u64) * 1000000) = s * 1000000" using s assms by (simp add: uint_word_arith_bintrs take_bit_eq_mod)
  moreover have "uint ((of_int ns :: u64) div 1000) = ns div 1000" using ns by (simp add: uint_div)
  moreover have "0 \<le> s * 1000000 + ns div 1000 \<and> s * 1000000 + ns div 1000 < 18446744073709551616"
    using assms by linarith
  ultimately show ?thesis
    using assms(1) by (simp add: timestamp_now_us_def Let_def uint_word_arith_bintrs(1) take_bit_int_eq_self)
qed

lemma clock_returns:
  assumes "clock_ok X I" and "I w"
  shows "returns (read_clock X w) (\<lambda>(now, w'). I w' \<and> now > 0)"
proof -
  obtain res s ns w' where px: "px_clock_gettime X w = ((res, s, ns), w')" by (metis prod_cases3 surj_pair)
  with assms have c: "I w'" "res = 0" "0 \<le> s" "s < 10000000000000" "0 \<le> ns" "ns < 1000000000" "0 < s \<or> 1000 \<le> ns"
    unfolding clock_ok_def by (auto dest!: spec [of _ w])
  from timestamp_now_exact [OF c(3-6)] obtain now where n: "timestamp_now_us 0 s ns = Some now" "uint now = 1000000 * s + ns div 1000"
    by (auto elim: returnsE)
  from c have "0 < 1000000 * s + ns div 1000" by linarith
  then have "0 < now" using n(2) by (simp add: word_less_def)
  with px c n show ?thesis by (simp add: read_clock_def)
qed

lemma posix_offline_clock: "clock_ok posix_offline (\<lambda>w. True)"
  by (simp add: clock_ok_def posix_offline_def)

end
