(* ===== verification/LocalSim.thy ===== *)
theory LocalSim
  imports EngineInvariant ImpairedLink Posix
begin

text \<open>
  \<open>src/platform/LocalSimHarness.cpp\<close>: the transport that passes messages in memory between linked harnesses. The harness
  objects form a store, and \<open>m_peer\<close> is an index into it. The code is used from one thread, so nothing else touches the receive
  queue while \<open>receive_message\<close> sleeps. The entropy for an unseeded impairment engine is an argument of \<open>init\<close>.
\<close>

record local_sim =
  ls_peer :: "nat option"
  ls_impairment :: impairment_engine
  ls_recv_queue :: ring_buffer
  ls_open :: bool
  ls_connections_opened :: u32
  ls_connections_closed :: u32
  ls_delay_buf :: "envelope list"

section \<open>Operations\<close>

definition LocalSimHarness_init :: "local_sim \<Rightarrow> transport_config \<Rightarrow> u64 \<Rightarrow> (Result \<times> local_sim) option" where
  "LocalSimHarness_init h config entropy = do {
     nc_assert (tcf_kind config = LOCAL_SIM);
     nc_assert (\<not> ls_open h);
     q \<leftarrow> RingBuffer_init (ls_recv_queue h);
     imp \<leftarrow> ImpairmentEngine_init (ls_impairment h) (first_impairment config) entropy;
     let h = h\<lparr> ls_recv_queue := q, ls_impairment := imp, ls_open := True \<rparr>;
     nc_assert (ls_open h);
     Some (OK, h)
   }"

definition LocalSimHarness_register_local_id :: "local_sim \<Rightarrow> NodeId \<Rightarrow> Result option" where
  "LocalSimHarness_register_local_id h n = do {
     nc_assert (n \<noteq> NODE_ID_INVALID);
     nc_assert (ls_open h);
     Some OK
   }"

definition LocalSimHarness_link :: "local_sim list \<Rightarrow> nat \<Rightarrow> nat \<Rightarrow> local_sim list option" where
  "LocalSimHarness_link st i peer = do {
     nc_assert (peer \<noteq> i);
     Some (st[i := (st ! i)\<lparr> ls_peer := Some peer, ls_connections_opened := ls_connections_opened (st ! i) + 1 \<rparr>])
   }"

definition LocalSimHarness_inject :: "local_sim \<Rightarrow> envelope \<Rightarrow> (Result \<times> local_sim) option" where
  "LocalSimHarness_inject h env = do {
     nc_assert (ls_open h);
     if \<not> envelope_valid env then Some (ERR_INVALID, h)
     else do {
       (res, q) \<leftarrow> RingBuffer_push (ls_recv_queue h) env;
       nc_assert (res = OK \<or> res = ERR_FULL);
       Some (res, h\<lparr> ls_recv_queue := q \<rparr>)
     }
   }"

definition LocalSimHarness_deliver_from_peer :: "local_sim \<Rightarrow> envelope \<Rightarrow> u64 \<Rightarrow> (Result \<times> local_sim) option" where
  "LocalSimHarness_deliver_from_peer h env now_us = do {
     nc_assert (ls_open h);
     nc_assert (envelope_valid env);
     (partition, imp) \<leftarrow> ImpairmentEngine_is_partition_active (ls_impairment h) now_us;
     let h = h\<lparr> ls_impairment := imp \<rparr>;
     if partition then Some (ERR_IO, h)
     else do {
       (res, inbound_out, inbound_count, imp) \<leftarrow> ImpairmentEngine_process_inbound (ls_impairment h) env now_us [envelope_zero] 1;
       let h = h\<lparr> ls_impairment := imp \<rparr>;
       if res \<noteq> OK then Some (ERR_IO, h)
       else if inbound_count = 0 then Some (ERR_TIMEOUT, h)
       else do {
         nc_assert (inbound_count \<le> 1);
         (push_res, q) \<leftarrow> RingBuffer_push (ls_recv_queue h) (inbound_out ! 0);
         let h = h\<lparr> ls_recv_queue := q \<rparr>;
         if push_res \<noteq> OK then Some (ERR_FULL, h) else Some (OK, h)
       }
     }
   }"

text \<open>One iteration of \<open>flush_outbound_batch\<close>: the state is the result so far and the peer.\<close>

definition flush_one :: "envelope \<Rightarrow> u64 \<Rightarrow> envelope \<Rightarrow> Result \<times> local_sim \<Rightarrow> (Result \<times> local_sim) option" where
  "flush_one envelope now_us m = (\<lambda>(current_result, peer). do {
     let is_current = (source_id m = source_id envelope \<and> message_id m = message_id envelope);
     (deliver_res, peer) \<leftarrow> LocalSimHarness_deliver_from_peer peer m now_us;
     Some (if (deliver_res = ERR_IO \<or> deliver_res = ERR_FULL) \<and> is_current then deliver_res else current_result, peer)
   })"

definition LocalSimHarness_flush_outbound_batch ::
    "local_sim list \<Rightarrow> nat \<Rightarrow> envelope \<Rightarrow> envelope list \<Rightarrow> nat \<Rightarrow> u64 \<Rightarrow> (Result \<times> local_sim list) option" where
  "LocalSimHarness_flush_outbound_batch st peer envelope batch n now_us = do {
     nc_assert (n \<le> IMPAIR_DELAY_BUF_SIZE);
     (current_result, p) \<leftarrow> for_each (flush_one envelope now_us) (take n batch) (OK, st ! peer);
     Some (current_result, st[peer := p])
   }"

definition LocalSimHarness_send_message :: "local_sim list \<Rightarrow> nat \<Rightarrow> envelope \<Rightarrow> u64 \<Rightarrow> (Result \<times> local_sim list) option" where
  "LocalSimHarness_send_message st i envelope now_us = do {
     nc_assert (ls_open (st ! i));
     nc_assert (ls_peer (st ! i) \<noteq> None);
     nc_assert (envelope_valid envelope);
     (outbound_res, imp) \<leftarrow> ImpairmentEngine_process_outbound (ls_impairment (st ! i)) envelope now_us;
     let h = (st ! i)\<lparr> ls_impairment := imp \<rparr>;
     if outbound_res = ERR_IO then Some (OK, st[i := h])
     else if outbound_res \<noteq> OK then Some (outbound_res, st[i := h])
     else do {
       (delayed_count, buf, imp) \<leftarrow>
         ImpairmentEngine_collect_deliverable (ls_impairment h) now_us (ls_delay_buf h) IMPAIR_DELAY_BUF_SIZE;
       let h = h\<lparr> ls_impairment := imp, ls_delay_buf := buf \<rparr>;
       LocalSimHarness_flush_outbound_batch (st[i := h]) (the (ls_peer h)) envelope buf delayed_count now_us
     }
   }"

text \<open>The polling loop: every iteration sleeps for a millisecond and tries again.\<close>

primrec poll_queue :: "nat \<Rightarrow> ring_buffer \<Rightarrow> envelope \<Rightarrow> (Result \<times> envelope \<times> ring_buffer) option" where
  "poll_queue 0 q env = Some (ERR_TIMEOUT, env, q)"
| "poll_queue (Suc n) q env = do {
     (res, env, q) \<leftarrow> RingBuffer_pop q env;
     if res = OK then Some (res, env, q) else poll_queue n q env
   }"

definition LocalSimHarness_receive_message :: "local_sim \<Rightarrow> envelope \<Rightarrow> u32 \<Rightarrow> (Result \<times> envelope \<times> local_sim) option" where
  "LocalSimHarness_receive_message h env timeout_ms = do {
     nc_assert (ls_open h);
     (res, env, q) \<leftarrow> RingBuffer_pop (ls_recv_queue h) env;
     let h = h\<lparr> ls_recv_queue := q \<rparr>;
     if res = OK then Some (res, env, h)
     else if timeout_ms = 0 then Some (ERR_TIMEOUT, env, h)
     else do {
       let iterations = (if timeout_ms > 5000 then 5000 else timeout_ms);
       (res, env, q) \<leftarrow> poll_queue (unat iterations) (ls_recv_queue h) env;
       Some (res, env, h\<lparr> ls_recv_queue := q \<rparr>)
     }
   }"

definition LocalSimHarness_close :: "local_sim \<Rightarrow> local_sim" where
  "LocalSimHarness_close h = (let h = (if ls_open h \<and> ls_connections_closed h < ls_connections_opened h
       then h\<lparr> ls_connections_closed := ls_connections_closed h + 1 \<rparr> else h)
     in h\<lparr> ls_peer := None, ls_open := False \<rparr>)"

definition LocalSimHarness_is_open :: "local_sim \<Rightarrow> bool option" where
  "LocalSimHarness_is_open h = do {
     nc_assert (ls_open h \<or> ls_peer h = None);
     Some (ls_open h)
   }"

definition LocalSimHarness_get_transport_stats :: "local_sim \<Rightarrow> transport_stats option" where
  "LocalSimHarness_get_transport_stats h = do {
     nc_assert (ls_connections_opened h \<ge> ls_connections_closed h);
     nc_assert (ls_connections_closed h \<le> ls_connections_opened h);
     imp \<leftarrow> ImpairmentEngine_get_stats (ls_impairment h);
     Some \<lparr> connections_opened = ls_connections_opened h, connections_closed = ls_connections_closed h, ts_impairment = imp \<rparr>
   }"

text \<open>The harness \<open>i\<close> as the transport of a delivery engine: the state is the store and the system that holds the clock.
  \<open>pop_hello_peer\<close> is the default of the interface.\<close>

definition local_sim_transport :: "'w posix \<Rightarrow> nat \<Rightarrow> (local_sim list \<times> 'w) transport" where
  "local_sim_transport X i = \<lparr>
     tr_register_local_id = (\<lambda>(st, w) n. map_option (\<lambda>r. (r, st, w)) (LocalSimHarness_register_local_id (st ! i) n)),
     tr_pop_hello_peer = (\<lambda>t. Some (NODE_ID_INVALID, t)),
     tr_send_message = (\<lambda>(st, w) env. do {
       (now_us, w) \<leftarrow> read_clock X w;
       (r, st) \<leftarrow> LocalSimHarness_send_message st i env now_us;
       Some (r, st, w) }),
     tr_receive_message = (\<lambda>(st, w) env ms. do {
       (r, env, h) \<leftarrow> LocalSimHarness_receive_message (st ! i) env ms;
       Some (r, env, st[i := h], w) }),
     tr_get_transport_stats = (\<lambda>(st, w) out. LocalSimHarness_get_transport_stats (st ! i)) \<rparr>"

text \<open>A sequence of sends, each at its time, and a sequence of receives.\<close>

primrec sim_send_all :: "nat \<Rightarrow> (envelope \<times> u64) list \<Rightarrow> local_sim list \<Rightarrow> (Result list \<times> local_sim list) option" where
  "sim_send_all i [] st = Some ([], st)"
| "sim_send_all i (m # ms) st = do {
     (r, st) \<leftarrow> LocalSimHarness_send_message st i (fst m) (snd m);
     (rs, st) \<leftarrow> sim_send_all i ms st;
     Some (r # rs, st)
   }"

primrec sim_receive_all :: "nat \<Rightarrow> u32 \<Rightarrow> local_sim \<Rightarrow> ((Result \<times> envelope) list \<times> local_sim) option" where
  "sim_receive_all 0 ms h = Some ([], h)"
| "sim_receive_all (Suc n) ms h = do {
     (r, env, h) \<leftarrow> LocalSimHarness_receive_message h envelope_init ms;
     (outs, h) \<leftarrow> sim_receive_all n ms h;
     Some ((r, env) # outs, h)
   }"

text \<open>Two harnesses for examples.\<close>

definition harness_example :: "nat \<Rightarrow> impairment_config \<Rightarrow> local_sim" where
  "harness_example peer cfg = \<lparr> ls_peer = Some peer, ls_impairment = imp_blank cfg, ls_recv_queue = RingBuffer_new, ls_open = True,
     ls_connections_opened = 1, ls_connections_closed = 0, ls_delay_buf = replicate 32 envelope_zero \<rparr>"

section \<open>Invariant\<close>

text \<open>An open harness; every message that waits to be sent satisfies \<open>P\<close>, every message it delivers \<open>Q\<close>.\<close>

definition harness_ok :: "(envelope \<Rightarrow> bool) \<Rightarrow> (envelope \<Rightarrow> bool) \<Rightarrow> local_sim \<Rightarrow> bool" where
  "harness_ok P Q h \<longleftrightarrow> ls_open h \<and> link_ok P Q (ls_impairment h) \<and> queue_holds Q (ls_recv_queue h) \<and> 32 \<le> length (ls_delay_buf h)"

text \<open>No impairment is configured, and nothing is delayed.\<close>

definition plain :: "local_sim \<Rightarrow> bool" where
  "plain h \<longleftrightarrow> (let cfg = ie_cfg (ls_impairment h) in \<not> ic_enabled cfg \<and> \<not> ic_reorder_enabled cfg \<and> \<not> ic_partition_enabled cfg) \<and>
     delayed (ls_impairment h) = {#}"

text \<open>Two linked harnesses: \<open>i\<close> delivers messages that satisfy \<open>Q\<close>, its peer arbitrary valid messages.\<close>

definition linked :: "(envelope \<Rightarrow> bool) \<Rightarrow> nat \<Rightarrow> local_sim list \<Rightarrow> bool" where
  "linked Q i st \<longleftrightarrow> i < length st \<and> harness_ok msg_ok Q (st ! i) \<and>
     (\<exists>p. ls_peer (st ! i) = Some p \<and> p < length st \<and> p \<noteq> i \<and> harness_ok msg_ok msg_ok (st ! p))"

text \<open>A run of two harnesses, 0 and 1: what is sent, injected and received, and what the calls answered.\<close>

datatype sim_op = Sim_send nat envelope u64 | Sim_inject nat envelope | Sim_receive nat u32

datatype sim_event = Sent nat envelope Result | Injected nat envelope Result | Received nat Result envelope

fun sim_exec :: "sim_op \<Rightarrow> local_sim list \<Rightarrow> (sim_event \<times> local_sim list) option" where
  "sim_exec (Sim_send i env now_us) st = do {
     (r, st) \<leftarrow> LocalSimHarness_send_message st i env now_us; Some (Sent i env r, st) }"
| "sim_exec (Sim_inject i env) st = do {
     (r, h) \<leftarrow> LocalSimHarness_inject (st ! i) env; Some (Injected i env r, st[i := h]) }"
| "sim_exec (Sim_receive i ms) st = do {
     (r, env, h) \<leftarrow> LocalSimHarness_receive_message (st ! i) envelope_init ms; Some (Received i r env, st[i := h]) }"

primrec sim_run :: "sim_op list \<Rightarrow> sim_event list \<Rightarrow> local_sim list \<Rightarrow> (sim_event list \<times> local_sim list) option" where
  "sim_run [] trace st = Some (trace, st)"
| "sim_run (op # ops) trace st = do { (ev, st) \<leftarrow> sim_exec op st; sim_run ops (trace @ [ev]) st }"

text \<open>Two harnesses are opened and linked with each other.\<close>

definition sim_start ::
    "local_sim \<Rightarrow> transport_config \<Rightarrow> u64 \<Rightarrow> local_sim \<Rightarrow> transport_config \<Rightarrow> u64 \<Rightarrow> local_sim list option" where
  "sim_start h0 c0 entropy0 h1 c1 entropy1 = do {
     (r, h0) \<leftarrow> LocalSimHarness_init h0 c0 entropy0;
     (r, h1) \<leftarrow> LocalSimHarness_init h1 c1 entropy1;
     st \<leftarrow> LocalSimHarness_link [h0, h1] 0 1;
     LocalSimHarness_link st 1 0
   }"

fun sim_op_ok :: "sim_op \<Rightarrow> bool" where
  "sim_op_ok (Sim_send i env now_us) \<longleftrightarrow> i < 2 \<and> msg_ok env"
| "sim_op_ok (Sim_inject i env) \<longleftrightarrow> i < 2 \<and> env_wf env"
| "sim_op_ok (Sim_receive i ms) \<longleftrightarrow> i < 2"

text \<open>What harness \<open>i\<close> was given to send, and what may arrive at it: what its peer was given, or what was injected.\<close>

definition sim_sent :: "sim_event list \<Rightarrow> nat \<Rightarrow> envelope \<Rightarrow> bool" where
  "sim_sent trace i env \<longleftrightarrow> msg_ok env \<and> (\<exists>r. Sent i env r \<in> set trace)"

definition sim_arrives :: "sim_event list \<Rightarrow> nat \<Rightarrow> envelope \<Rightarrow> bool" where
  "sim_arrives trace i env \<longleftrightarrow> msg_ok env \<and> ((\<exists>r. Sent (1 - i) env r \<in> set trace) \<or> Injected i env OK \<in> set trace)"

text \<open>Every received message was sent by the peer or injected before.\<close>

definition sim_log_ok :: "sim_event list \<Rightarrow> bool" where
  "sim_log_ok trace \<longleftrightarrow> (\<forall>k < length trace. \<forall>i env. trace ! k = Received i OK env \<longrightarrow> sim_arrives (take k trace) i env)"

definition sim_inv :: "sim_event list \<Rightarrow> local_sim list \<Rightarrow> bool" where
  "sim_inv trace st \<longleftrightarrow> length st = 2 \<and> (\<forall>i < 2. ls_peer (st ! i) = Some (1 - i) \<and>
     harness_ok (sim_sent trace i) (sim_arrives trace i) (st ! i))"

text \<open>A closed harness and a configuration with latency and jitter, for examples.\<close>

definition sim_config :: transport_config where
  "sim_config = transport_config_default\<lparr> tcf_kind := LOCAL_SIM,
     tcf_channels := [(channel_config_default 0)\<lparr> cc_impairment := slow_config \<rparr>] \<rparr>"

definition harness_closed :: local_sim where
  "harness_closed = \<lparr> ls_peer = None, ls_impairment = imp_blank impairment_config_default, ls_recv_queue = RingBuffer_new, ls_open = False,
     ls_connections_opened = 0, ls_connections_closed = 0, ls_delay_buf = replicate 32 envelope_zero \<rparr>"

lemma harness_init:
  assumes "tcf_kind config = LOCAL_SIM" and "\<not> ls_open h" and "length (rb_buf (ls_recv_queue h)) = 64" and "length (ls_delay_buf h) = 32"
    and "imp_config_ok (first_impairment config)" and "ic_prng_seed (first_impairment config) \<noteq> 0 \<or> entropy \<noteq> 0"
  shows "returns (LocalSimHarness_init h config entropy) (\<lambda>(r, h'). r = OK \<and> harness_ok P Q h' \<and> rb_contents (ls_recv_queue h') = [] \<and>
    delayed (ls_impairment h') = {#} \<and> ie_cfg (ls_impairment h') = first_impairment config \<and> ls_peer h' = ls_peer h)"
proof -
  obtain q where q: "RingBuffer_init (ls_recv_queue h) = Some q" "queue_holds Q q" "rb_contents q = []"
    using queue_init [OF assms(3), of Q] by (auto elim: returnsE)
  from link_init [OF assms(5,6), of "ls_impairment h" P Q] assms(1-4) q show ?thesis
    by (auto simp: LocalSimHarness_init_def harness_ok_def elim!: returnsE)
qed

lemma harness_deliver:
  assumes "harness_ok P Q h" and "envelope_valid env" and "Q env"
  shows "returns (LocalSimHarness_deliver_from_peer h env now) (\<lambda>(r, h'). harness_ok P Q h' \<and> ls_peer h' = ls_peer h \<and>
    r \<in> {OK, ERR_IO, ERR_TIMEOUT, ERR_FULL} \<and> (plain h \<longrightarrow> plain h' \<and> (if length (rb_contents (ls_recv_queue h)) < 64
      then r = OK \<and> rb_contents (ls_recv_queue h') = rb_contents (ls_recv_queue h) @ [env]
      else r = ERR_FULL \<and> rb_contents (ls_recv_queue h') = rb_contents (ls_recv_queue h))))"
proof -
  let ?imp = "ls_impairment h" and ?q = "ls_recv_queue h"
  note ok = assms(1) [unfolded harness_ok_def]
  obtain b i1 where b: "ImpairmentEngine_is_partition_active ?imp now = Some (b, i1)" "link_ok P Q i1" "ie_cfg i1 = ie_cfg ?imp"
      "delayed i1 = delayed ?imp" "plain h \<longrightarrow> \<not> b"
    using link_partition [of P Q ?imp now] ok by (auto simp: plain_def Let_def elim!: returnsE)
  obtain r out n i2 where i: "ImpairmentEngine_process_inbound i1 env now [envelope_zero] 1 = Some (r, out, n, i2)" "link_ok P Q i2"
      "ie_cfg i2 = ie_cfg ?imp" "delayed i2 = delayed ?imp" "r \<in> {OK, ERR_IO}" "n = 0 \<or> n = 1 \<and> r = OK \<and> Q (out ! 0)"
      "plain h \<longrightarrow> r = OK \<and> n = 1 \<and> out ! 0 = env"
    using link_inbound [OF b(2) assms(2,3), of "[envelope_zero]" now] b(3,4) by (auto simp: plain_def Let_def elim!: returnsE)
  show ?thesis
  proof (cases "b \<or> r \<noteq> OK \<or> n = 0")
    case True
    with ok assms(2) b i show ?thesis by (auto simp: LocalSimHarness_deliver_from_peer_def harness_ok_def)
  next
    case False
    with i(6) have n: "\<not> b" "r = OK" "n = 1" "Q (out ! 0)" by auto
    from ok queue_push [of Q ?q "out ! 0"] n(4) obtain r' q' where q: "RingBuffer_push ?q (out ! 0) = Some (r', q')" "queue_holds Q q'"
      "if length (rb_contents ?q) < 64 then r' = OK \<and> rb_contents q' = rb_contents ?q @ [out ! 0] else r' = ERR_FULL \<and> q' = ?q"
      by (auto elim!: returnsE)
    with n ok assms(2) b i show ?thesis
      by (auto simp: LocalSimHarness_deliver_from_peer_def harness_ok_def plain_def Let_def split: if_splits)
  qed
qed

lemma flush_loop:
  assumes "harness_ok P Q p" and "\<forall>x \<in> set xs. envelope_valid x \<and> Q x"
  shows "returns (for_each (flush_one env now) xs (r, p)) (\<lambda>(r', p'). harness_ok P Q p' \<and> ls_peer p' = ls_peer p \<and>
    (plain p \<and> length (rb_contents (ls_recv_queue p)) + length xs \<le> 64 \<longrightarrow>
      plain p' \<and> r' = r \<and> rb_contents (ls_recv_queue p') = rb_contents (ls_recv_queue p) @ xs))"
  using assms
proof (induction xs arbitrary: r p)
  case Nil
  then show ?case by simp
next
  case (Cons x xs)
  from harness_deliver [OF Cons.prems(1), of x now] Cons.prems(2) obtain d p1 where
    d: "LocalSimHarness_deliver_from_peer p x now = Some (d, p1)" "harness_ok P Q p1" "ls_peer p1 = ls_peer p"
      "plain p \<longrightarrow> plain p1 \<and> (if length (rb_contents (ls_recv_queue p)) < 64
        then d = OK \<and> rb_contents (ls_recv_queue p1) = rb_contents (ls_recv_queue p) @ [x]
        else d = ERR_FULL \<and> rb_contents (ls_recv_queue p1) = rb_contents (ls_recv_queue p))"
    by (auto elim!: returnsE simp del: length_rb_contents)
  obtain r1 where f: "flush_one env now x (r, p) = Some (r1, p1)" "d = OK \<longrightarrow> r1 = r"
    using d(1) by (auto simp: flush_one_def Let_def)
  from Cons.IH [OF d(2), of r1] Cons.prems(2) f d(3,4) show ?case by (auto elim!: returns_mono simp del: length_rb_contents)
qed

lemma nothing_delayed:
  assumes "imp_inv s" and "delayed s = {#}"
  shows "ie_delay_count s = 0"
  using assms by (simp add: imp_inv_def delayed_def filter_mset_eq_mempty_iff filter_empty_conv)

lemma only_message_due:
  assumes "delayed s = {#(env, now)#}"
  shows "map de_env (due_slots now (ie_delay_buf s)) = [env]"
proof -
  from due_view [of now s] assms have "mset (map de_view (due_slots now (ie_delay_buf s))) = {#(env, now)#}" by simp
  then have "map de_view (due_slots now (ie_delay_buf s)) = [(env, now)]" by (simp only: mset_single_iff)
  then show ?thesis by (auto simp: de_view_def)
qed

lemma wired_send:
  assumes "i < length st" and "p < length st" and "p \<noteq> i" and "ls_peer (st ! i) = Some p"
    and "harness_ok P Q (st ! i)" and "harness_ok P' Q' (st ! p)" and "\<And>x. P x \<Longrightarrow> Q' x \<and> envelope_valid x" and "P env"
  shows "returns (LocalSimHarness_send_message st i env now) (\<lambda>(r, st'). length st' = length st \<and>
    harness_ok P Q (st' ! i) \<and> harness_ok P' Q' (st' ! p) \<and> ls_peer (st' ! i) = Some p \<and> ls_peer (st' ! p) = ls_peer (st ! p) \<and>
    ls_recv_queue (st' ! i) = ls_recv_queue (st ! i) \<and> (plain (st ! i) \<and> plain (st ! p) \<and> length (rb_contents (ls_recv_queue (st ! p))) < 64 \<longrightarrow>
      r = OK \<and> plain (st' ! i) \<and> plain (st' ! p) \<and> rb_contents (ls_recv_queue (st' ! p)) = rb_contents (ls_recv_queue (st ! p)) @ [env]))"
proof -
  let ?h = "st ! i"
  note h = assms(5) [unfolded harness_ok_def]
  have valid: "envelope_valid env" using assms(7,8) by simp
  from link_outbound [of P Q "ls_impairment ?h" env now] h valid assms(8) obtain r1 s1 where
    o: "ImpairmentEngine_process_outbound (ls_impairment ?h) env now = Some (r1, s1)" "link_ok P Q s1"
      "ie_cfg s1 = ie_cfg (ls_impairment ?h)" "r1 \<in> {OK, ERR_IO, ERR_FULL}"
      "plain ?h \<longrightarrow> r1 = OK \<and> delayed s1 = {#(env, now)#}"
    using nothing_delayed [of "ls_impairment ?h"] link_okD(1) [of P Q "ls_impairment ?h"]
    by (fastforce simp: plain_def Let_def elim!: returnsE)
  let ?h1 = "?h\<lparr> ls_impairment := s1 \<rparr>"
  show ?thesis
  proof (cases "r1 = OK")
    case False
    with o assms valid h show ?thesis
      by (auto simp: LocalSimHarness_send_message_def Let_def harness_ok_def nth_list_update)
  next
    case True
    from link_collect [OF o(2), of "ls_delay_buf ?h" now] h obtain n out s2 where
      c: "ImpairmentEngine_collect_deliverable s1 now (ls_delay_buf ?h) 32 = Some (n, out, s2)" "link_ok P Q s2" "ie_cfg s2 = ie_cfg s1"
        "n \<le> 32" "32 \<le> length out" "\<forall>x \<in> set (take n out). P x" "take n out = map de_env (due_slots now (ie_delay_buf s1))"
        "delayed s2 = filter_mset (\<lambda>x. \<not> snd x \<le> now) (delayed s1)"
      by (auto elim!: returnsE)
    define h2 where "h2 = ?h\<lparr> ls_impairment := s2, ls_delay_buf := out \<rparr>"
    have h2: "harness_ok P Q h2" "ls_peer h2 = Some p" "ls_recv_queue h2 = ls_recv_queue ?h"
      using h c assms(4) by (simp_all add: h2_def harness_ok_def)
    have pl: "take n out = [env] \<and> plain h2" if "plain ?h"
      using that o(3,5) c(3,7,8) only_message_due [of s1 env now] by (simp add: plain_def h2_def Let_def)
    have "st[i := h2] ! p = st ! p" using assms(3) by simp
    then obtain r' p' where f: "for_each (flush_one env now) (take n out) (OK, st[i := h2] ! p) = Some (r', p')" "harness_ok P' Q' p'"
        "ls_peer p' = ls_peer (st ! p)"
        "plain (st ! p) \<and> length (rb_contents (ls_recv_queue (st ! p))) + length (take n out) \<le> 64 \<longrightarrow>
          plain p' \<and> r' = OK \<and> rb_contents (ls_recv_queue p') = rb_contents (ls_recv_queue (st ! p)) @ take n out"
      using flush_loop [OF assms(6), of "take n out" env now OK] c(6) assms(7) by (auto elim!: returnsE simp del: length_rb_contents length_take)
    have eq: "LocalSimHarness_send_message st i env now = Some (r', st[i := h2, p := p'])"
      using True o(1) h assms(4) valid c(1,4) f(1)
      by (simp add: LocalSimHarness_send_message_def LocalSimHarness_flush_outbound_batch_def Let_def h2_def)
    show ?thesis using eq assms(1-3) h2 f pl by (auto simp del: length_rb_contents length_take)
  qed
qed

lemma linked_send:
  assumes "linked Q i st" and "ls_peer (st ! i) = Some p" and "msg_ok env"
  shows "returns (LocalSimHarness_send_message st i env now) (\<lambda>(r, st'). linked Q i st' \<and> ls_peer (st' ! i) = Some p \<and>
    ls_recv_queue (st' ! i) = ls_recv_queue (st ! i) \<and> (plain (st ! i) \<and> plain (st ! p) \<and> length (rb_contents (ls_recv_queue (st ! p))) < 64 \<longrightarrow>
      r = OK \<and> plain (st' ! i) \<and> plain (st' ! p) \<and> rb_contents (ls_recv_queue (st' ! p)) = rb_contents (ls_recv_queue (st ! p)) @ [env]))"
proof -
  have l: "i < length st" "harness_ok msg_ok Q (st ! i)" "p < length st" "p \<noteq> i" "harness_ok msg_ok msg_ok (st ! p)"
    using assms(1,2) by (auto simp: linked_def)
  have v: "\<And>x. msg_ok x \<Longrightarrow> msg_ok x \<and> envelope_valid x" by (simp add: msg_ok_def)
  show ?thesis
    by (rule returns_mono [OF wired_send [OF l(1,3,4) assms(2) l(2,5) v assms(3)]])
      (use l in \<open>auto simp: linked_def simp del: length_rb_contents\<close>)
qed

lemma poll_queue_empty:
  assumes "queue_holds Q q" and "rb_contents q = []"
  shows "poll_queue n q env = Some (ERR_TIMEOUT, env, q)"
  using assms by (induction n) (simp_all add: queue_holds_def rbq.pop_empty)

lemma harness_receive:
  assumes "harness_ok P Q h"
  shows "returns (LocalSimHarness_receive_message h env ms) (\<lambda>(r, x, h'). harness_ok P Q h' \<and> ls_peer h' = ls_peer h \<and>
    ls_impairment h' = ls_impairment h \<and> (case rb_contents (ls_recv_queue h) of [] \<Rightarrow> r = ERR_TIMEOUT \<and> x = env \<and> h' = h
      | y # ys \<Rightarrow> r = OK \<and> x = y \<and> Q x \<and> rb_contents (ls_recv_queue h') = ys))"
proof (cases "rb_contents (ls_recv_queue h)")
  case Nil
  with assms show ?thesis
    by (simp add: LocalSimHarness_receive_message_def harness_ok_def queue_holds_def rbq.pop_empty poll_queue_empty [of Q])
next
  case (Cons y ys)
  with assms queue_pop [of Q "ls_recv_queue h" env] show ?thesis
    by (auto simp: LocalSimHarness_receive_message_def harness_ok_def elim!: returnsE)
qed

lemma sim_send_all_plain:
  assumes "linked Q i st" and "ls_peer (st ! i) = Some p" and "plain (st ! i)" and "plain (st ! p)"
    and "\<forall>m \<in> set ms. msg_ok (fst m)" and "length (rb_contents (ls_recv_queue (st ! p))) + length ms \<le> 64"
  shows "returns (sim_send_all i ms st) (\<lambda>(rs, st'). linked Q i st' \<and> ls_peer (st' ! i) = Some p \<and>
    rs = replicate (length ms) OK \<and> rb_contents (ls_recv_queue (st' ! p)) = rb_contents (ls_recv_queue (st ! p)) @ map fst ms)"
  using assms
proof (induction ms arbitrary: st)
  case Nil
  then show ?case by simp
next
  case (Cons m ms)
  from linked_send [OF Cons.prems(1,2), of "fst m" "snd m"] Cons.prems(3-6) obtain st1 where
    s: "LocalSimHarness_send_message st i (fst m) (snd m) = Some (OK, st1)" "linked Q i st1" "ls_peer (st1 ! i) = Some p"
      "plain (st1 ! i)" "plain (st1 ! p)" "rb_contents (ls_recv_queue (st1 ! p)) = rb_contents (ls_recv_queue (st ! p)) @ [fst m]"
    by (auto elim!: returnsE simp del: length_rb_contents)
  from Cons.IH [OF s(2-5)] s Cons.prems(5,6) show ?case
    by (auto elim!: returnsE simp del: length_rb_contents)
qed

lemma sim_receive_all_takes:
  assumes "harness_ok P Q h" and "n \<le> length (rb_contents (ls_recv_queue h))"
  shows "returns (sim_receive_all n ms h) (\<lambda>(outs, h'). harness_ok P Q h' \<and> outs = map (Pair OK) (take n (rb_contents (ls_recv_queue h))) \<and>
    rb_contents (ls_recv_queue h') = drop n (rb_contents (ls_recv_queue h)))"
  using assms
proof (induction n arbitrary: h)
  case 0
  then show ?case by simp
next
  case (Suc n)
  then obtain y ys where c: "rb_contents (ls_recv_queue h) = y # ys" by (cases "rb_contents (ls_recv_queue h)") auto
  with harness_receive [OF Suc.prems(1), of envelope_init ms] obtain h1 where
    h1: "LocalSimHarness_receive_message h envelope_init ms = Some (OK, y, h1)" "harness_ok P Q h1" "rb_contents (ls_recv_queue h1) = ys"
    by (auto elim!: returnsE)
  from Suc.IH [OF h1(2)] h1 c Suc.prems(2) show ?case by (auto elim!: returnsE simp del: length_rb_contents)
qed

section \<open>Runs\<close>

lemma harness_ok_mono: "harness_ok P Q h \<Longrightarrow> (\<And>x. P x \<Longrightarrow> P' x) \<Longrightarrow> (\<And>x. Q x \<Longrightarrow> Q' x) \<Longrightarrow> harness_ok P' Q' h"
  by (auto simp: harness_ok_def link_ok_def queue_holds_def)

lemma sim_mono: "set trace \<subseteq> set trace' \<Longrightarrow> sim_sent trace i x \<Longrightarrow> sim_sent trace' i x"
  "set trace \<subseteq> set trace' \<Longrightarrow> sim_arrives trace i x \<Longrightarrow> sim_arrives trace' i x"
  by (auto simp: sim_sent_def sim_arrives_def)

lemma sim_inv_mono: "sim_inv trace st \<Longrightarrow> sim_inv (trace @ [ev]) st"
  unfolding sim_inv_def using sim_mono [of trace "trace @ [ev]"] harness_ok_mono by (metis set_append sup_ge1)

lemma sim_start_inv:
  assumes "tcf_kind c0 = LOCAL_SIM" and "\<not> ls_open h0" and "length (rb_buf (ls_recv_queue h0)) = 64" and "length (ls_delay_buf h0) = 32"
    and "imp_config_ok (first_impairment c0)" and "ic_prng_seed (first_impairment c0) \<noteq> 0 \<or> entropy0 \<noteq> 0"
    and "tcf_kind c1 = LOCAL_SIM" and "\<not> ls_open h1" and "length (rb_buf (ls_recv_queue h1)) = 64" and "length (ls_delay_buf h1) = 32"
    and "imp_config_ok (first_impairment c1)" and "ic_prng_seed (first_impairment c1) \<noteq> 0 \<or> entropy1 \<noteq> 0"
  shows "returns (sim_start h0 c0 entropy0 h1 c1 entropy1) (sim_inv [])"
proof -
  from harness_init [OF assms(1-6), of "sim_sent [] 0" "sim_arrives [] 0"] obtain g0 where
    g0: "LocalSimHarness_init h0 c0 entropy0 = Some (OK, g0)" "harness_ok (sim_sent [] 0) (sim_arrives [] 0) g0" by (auto elim!: returnsE)
  from harness_init [OF assms(7-12), of "sim_sent [] 1" "sim_arrives [] 1"] obtain g1 where
    g1: "LocalSimHarness_init h1 c1 entropy1 = Some (OK, g1)" "harness_ok (sim_sent [] 1) (sim_arrives [] 1) g1" by (auto elim!: returnsE)
  let ?k = "\<lambda>g p. g\<lparr> ls_peer := Some p, ls_connections_opened := ls_connections_opened g + 1 \<rparr>"
  have "sim_start h0 c0 entropy0 h1 c1 entropy1 = Some [?k g0 1, ?k g1 0]"
    using g0(1) g1(1) by (simp add: sim_start_def LocalSimHarness_link_def)
  moreover have "sim_inv [] [?k g0 1, ?k g1 0]"
    using g0(2) g1(2) unfolding sim_inv_def harness_ok_def by (auto simp: less_2_cases_iff)
  ultimately show ?thesis by simp
qed

lemma sim_exec_inv:
  assumes "sim_inv trace st" and "sim_op_ok op"
  shows "returns (sim_exec op st) (\<lambda>(ev, st'). sim_inv (trace @ [ev]) st' \<and>
    (\<forall>i env. ev = Received i OK env \<longrightarrow> sim_arrives trace i env))"
proof (cases op)
  case (Sim_send i env now)
  then have i: "i < 2" "msg_ok env" using assms(2) by auto
  then have j: "1 - i < 2" "1 - i \<noteq> i" "1 - (1 - i) = i" by (auto simp: less_2_cases_iff)
  let ?l = "\<lambda>r. trace @ [Sent i env r]"
  have len: "length st = 2" using assms(1) by (simp add: sim_inv_def)
  have h: "harness_ok (sim_sent (?l r) j) (sim_arrives (?l r) j) (st ! j)" "ls_peer (st ! j) = Some (1 - j)" if "j < 2" for j r
    using sim_inv_mono [OF assms(1), of "Sent i env r"] that by (simp_all add: sim_inv_def)
  have s: "sim_sent (?l r) i env" for r using i(2) by (auto simp: sim_sent_def)
  have le: "sim_sent (?l r) i x \<Longrightarrow> sim_arrives (?l r) (1 - i) x \<and> envelope_valid x" for x r
    using j(3) by (auto simp: sim_sent_def sim_arrives_def msg_ok_def)
  have w: "returns (LocalSimHarness_send_message st i env now) (\<lambda>(r', st'). length st' = 2 \<and>
      (\<forall>j < 2. ls_peer (st' ! j) = Some (1 - j) \<and> harness_ok (sim_sent (?l r) j) (sim_arrives (?l r) j) (st' ! j)))" for r
  proof (rule returns_mono [OF wired_send [OF _ _ j(2) h(2) [OF i(1)] h(1) [OF i(1)] h(1) [OF j(1)] le s]])
    fix x assume x: "case x of (r', st') \<Rightarrow> length st' = length st \<and> harness_ok (sim_sent (?l r) i) (sim_arrives (?l r) i) (st' ! i) \<and>
      harness_ok (sim_sent (?l r) (1 - i)) (sim_arrives (?l r) (1 - i)) (st' ! (1 - i)) \<and> ls_peer (st' ! i) = Some (1 - i) \<and>
      ls_peer (st' ! (1 - i)) = ls_peer (st ! (1 - i)) \<and> ls_recv_queue (st' ! i) = ls_recv_queue (st ! i) \<and>
      (plain (st ! i) \<and> plain (st ! (1 - i)) \<and> length (rb_contents (ls_recv_queue (st ! (1 - i)))) < 64 \<longrightarrow>
        r' = OK \<and> plain (st' ! i) \<and> plain (st' ! (1 - i)) \<and>
        rb_contents (ls_recv_queue (st' ! (1 - i))) = rb_contents (ls_recv_queue (st ! (1 - i))) @ [env])"
    have "j = i \<or> j = 1 - i" if "j < 2" for j using that i(1) by (auto simp: less_2_cases_iff)
    with x len h(2) [OF j(1)] j(3) show "case x of (r', st') \<Rightarrow> length st' = 2 \<and> (\<forall>j < 2. ls_peer (st' ! j) = Some (1 - j) \<and>
      harness_ok (sim_sent (?l r) j) (sim_arrives (?l r) j) (st' ! j))" by (cases x) (simp, metis)
  qed (use i(1) j(1) len in simp_all)
  from w [of OK] obtain r st' where s: "LocalSimHarness_send_message st i env now = Some (r, st')" by (auto elim: returnsE)
  from w [of r] s have "sim_inv (?l r) st'" by (simp add: sim_inv_def)
  with s Sim_send show ?thesis by simp
next
  case (Sim_inject i env)
  then have i: "i < 2" "env_wf env" using assms(2) by auto
  have st: "length st = 2" "harness_ok (sim_sent trace i) (sim_arrives trace i) (st ! i)" using assms(1) i(1) by (simp_all add: sim_inv_def)
  note keep = sim_inv_mono [OF assms(1), of "Injected i env r" for r]
  show ?thesis
  proof (cases "envelope_valid env")
    case False
    with st Sim_inject keep show ?thesis by (simp add: LocalSimHarness_inject_def harness_ok_def)
  next
    case True
    let ?l = "trace @ [Injected i env OK]"
    have ok: "harness_ok (sim_sent ?l i) (sim_arrives ?l i) (st ! i)" using keep [of OK] i(1) by (simp add: sim_inv_def)
    have "sim_arrives ?l i env" using True i(2) by (simp add: sim_arrives_def msg_ok_def)
    with queue_push [of "sim_arrives ?l i" "ls_recv_queue (st ! i)" env] ok obtain r q where
      q: "RingBuffer_push (ls_recv_queue (st ! i)) env = Some (r, q)" "queue_holds (sim_arrives ?l i) q"
        "r = OK \<or> r = ERR_FULL \<and> q = ls_recv_queue (st ! i)"
      by (auto elim!: returnsE simp: harness_ok_def simp del: length_rb_contents split: if_splits)
    let ?h = "(st ! i)\<lparr> ls_recv_queue := q \<rparr>"
    have "sim_inv ?l (st[i := ?h])" using keep [of OK] ok q(2) st(1) i(1) by (auto simp: sim_inv_def harness_ok_def nth_list_update)
    moreover have "st[i := ?h] = st" if "q = ls_recv_queue (st ! i)" using that by simp
    ultimately show ?thesis using Sim_inject st(2) True q(1,3) keep
      by (auto simp: LocalSimHarness_inject_def harness_ok_def)
  qed
next
  case (Sim_receive i ms)
  then have i: "i < 2" using assms(2) by simp
  have st: "length st = 2" "harness_ok (sim_sent trace i) (sim_arrives trace i) (st ! i)" using assms(1) i by (simp_all add: sim_inv_def)
  from harness_receive [OF st(2), of envelope_init ms] obtain r x h where
    h: "LocalSimHarness_receive_message (st ! i) envelope_init ms = Some (r, x, h)" "harness_ok (sim_sent trace i) (sim_arrives trace i) h"
      "ls_peer h = ls_peer (st ! i)" "r = OK \<longrightarrow> sim_arrives trace i x"
    by (cases "rb_contents (ls_recv_queue (st ! i))") (auto elim!: returnsE)
  have "sim_inv trace (st[i := h])" using assms(1) h(2,3) i by (auto simp: sim_inv_def nth_list_update)
  from sim_inv_mono [OF this] h(1,4) Sim_receive show ?thesis by simp
qed

lemma sim_log_snoc:
  assumes "sim_log_ok trace" and "\<forall>i env. ev = Received i OK env \<longrightarrow> sim_arrives trace i env"
  shows "sim_log_ok (trace @ [ev])"
  using assms by (auto simp: sim_log_ok_def nth_append less_Suc_eq)

lemma sim_run_length: "sim_run ops trace st = Some (trace', st') \<Longrightarrow> length trace' = length trace + length ops"
  by (induction ops arbitrary: trace st) (auto simp: bind_eq_Some_conv)

lemma sim_run_inv:
  assumes "sim_inv trace st" and "list_all sim_op_ok ops" and "sim_log_ok trace"
  shows "returns (sim_run ops trace st) (\<lambda>(trace', st'). sim_inv trace' st' \<and> sim_log_ok trace')"
  using assms
proof (induction ops arbitrary: trace st)
  case Nil
  then show ?case by simp
next
  case (Cons op ops)
  from sim_exec_inv [OF Cons.prems(1), of op] Cons.prems(2) obtain ev st' where
    e: "sim_exec op st = Some (ev, st')" "sim_inv (trace @ [ev]) st'" "\<forall>i env. ev = Received i OK env \<longrightarrow> sim_arrives trace i env"
    by (auto elim!: returnsE)
  from Cons.IH [OF e(2) _ sim_log_snoc [OF Cons.prems(3) e(3)]] Cons.prems(2) e(1) show ?case by simp
qed

section \<open>Properties\<close>

text \<open>The harness keeps the contract the delivery engine relies on: as long as the messages that wait for it are ones
  the engine can process, no call trips an assertion, whatever the latency, jitter, reordering and partitions configured, and
  a received message is valid.\<close>

theorem local_sim_keeps_contract:
  assumes "clock_ok X W"
  shows "transport_ok (local_sim_transport X i) (\<lambda>(st, w). linked (\<lambda>m. msg_ok m \<and> admissible m) i st \<and> W w)"
proof -
  let ?Q = "\<lambda>m. msg_ok m \<and> admissible m"
  have send: "returns (tr_send_message (local_sim_transport X i) (st, w) env) (\<lambda>(r, st', w'). linked ?Q i st' \<and> W w')"
    if "linked ?Q i st" "W w" "msg_ok env" for st w env
  proof -
    from that(1) obtain p where p: "ls_peer (st ! i) = Some p" by (auto simp: linked_def)
    from clock_returns [OF assms that(2)] obtain now w' where c: "read_clock X w = Some (now, w')" "W w'" by (auto elim!: returnsE)
    from linked_send [OF that(1) p that(3), of now] c show ?thesis by (auto simp: local_sim_transport_def elim!: returnsE)
  qed
  have recv: "returns (tr_receive_message (local_sim_transport X i) (st, w) env ms)
      (\<lambda>(r, x, st', w'). linked ?Q i st' \<and> W w' \<and> (r = OK \<longrightarrow> ?Q x))" if "linked ?Q i st" "W w" for st w env ms
  proof -
    from that(1) have l: "i < length st" "harness_ok msg_ok ?Q (st ! i)" by (simp_all add: linked_def)
    from harness_receive [OF l(2), of env ms] that l(1) show ?thesis
      by (cases "rb_contents (ls_recv_queue (st ! i))") (auto simp: local_sim_transport_def linked_def nth_list_update elim!: returnsE)
  qed
  have "ls_open (st ! i)" if "linked ?Q i st" for st using that by (simp add: linked_def harness_ok_def)
  with send recv show ?thesis
    by (fastforce simp: transport_ok_def msg_ok_def local_sim_transport_def LocalSimHarness_register_local_id_def elim!: returns_mono)
qed

lemma harness_example_ok:
  assumes "imp_config_ok cfg"
  shows "harness_ok P Q (harness_example p cfg)" "rb_contents (ls_recv_queue (harness_example p cfg)) = []"
    "ls_peer (harness_example p cfg) = Some p" "plain (harness_example p impairment_config_default)"
  using blank_ok [OF assms] rb_inv_new
  by (simp_all add: harness_ok_def harness_example_def queue_holds_def plain_def imp_blank_def delayed_def delay_entry_zero_def
      impairment_config_default_def)

lemma example_linked:
  assumes "imp_config_ok a" and "imp_config_ok b"
  shows "linked Q 0 [harness_example 1 a, harness_example 0 b]"
  using harness_example_ok [OF assms(1)] harness_example_ok [OF assms(2)] by (simp add: linked_def)

lemma example_configs: "imp_config_ok slow_config" "imp_config_ok impairment_config_default"
  by (simp_all add: imp_config_ok_def draws_no_double_def slow_config_def lossy_config_def impairment_config_default_def)

theorem local_sim_keeps_contract_witness:
  "transport_ok (local_sim_transport posix_offline 0) (\<lambda>(st, w). linked (\<lambda>m. msg_ok m \<and> admissible m) 0 st) \<and>
   linked (\<lambda>m. msg_ok m \<and> admissible m) 0 [harness_example 1 slow_config, harness_example 0 slow_config]"
  using local_sim_keeps_contract [OF posix_offline_clock] example_linked [OF example_configs(1,1)] by simp

text \<open>Claim C11. Two harnesses are opened with any latency, jitter, reordering and partitions configured (but neither loss nor
  duplication, whose random draws may abort) and linked with each other. Then whatever sequence of sends of valid messages, of
  injections and of receives follows on the two sides, every call returns, and every message that a harness hands out is one
  that its peer was given to send, or that was injected into it, before.\<close>

theorem local_sim_delivers_what_was_sent:
  assumes "tcf_kind c0 = LOCAL_SIM" and "\<not> ls_open h0" and "length (rb_buf (ls_recv_queue h0)) = 64" and "length (ls_delay_buf h0) = 32"
    and "imp_config_ok (first_impairment c0)" and "ic_prng_seed (first_impairment c0) \<noteq> 0 \<or> entropy0 \<noteq> 0"
    and "tcf_kind c1 = LOCAL_SIM" and "\<not> ls_open h1" and "length (rb_buf (ls_recv_queue h1)) = 64" and "length (ls_delay_buf h1) = 32"
    and "imp_config_ok (first_impairment c1)" and "ic_prng_seed (first_impairment c1) \<noteq> 0 \<or> entropy1 \<noteq> 0"
    and "list_all sim_op_ok ops"
  shows "returns (do { st \<leftarrow> sim_start h0 c0 entropy0 h1 c1 entropy1; sim_run ops [] st }) (\<lambda>(trace, st'). length trace = length ops \<and>
    (\<forall>k < length trace. \<forall>i env. trace ! k = Received i OK env \<longrightarrow> msg_ok env \<and>
       (\<exists>j < k. \<exists>r. trace ! j = Sent (1 - i) env r \<or> trace ! j = Injected i env OK)))"
proof -
  from sim_start_inv [OF assms(1-12)] obtain st where st: "sim_start h0 c0 entropy0 h1 c1 entropy1 = Some st" "sim_inv [] st"
    by (auto elim!: returnsE)
  from sim_run_inv [OF st(2) assms(13)] obtain trace st' where
    r: "sim_run ops [] st = Some (trace, st')" "sim_log_ok trace" by (auto elim!: returnsE simp: sim_log_ok_def)
  have "x \<in> set (take k trace) \<longleftrightarrow> (\<exists>j < k. trace ! j = x)" if "k < length trace" for k x
    using that by (auto simp: in_set_conv_nth)
  with r(2) have "\<forall>k < length trace. \<forall>i env. trace ! k = Received i OK env \<longrightarrow> msg_ok env \<and>
       (\<exists>j < k. \<exists>r. trace ! j = Sent (1 - i) env r \<or> trace ! j = Injected i env OK)"
    unfolding sim_log_ok_def sim_arrives_def by blast
  with st(1) r(1) sim_run_length [OF r(1)] show ?thesis by simp
qed

theorem local_sim_delivers_what_was_sent_witness:
  "returns (do { st \<leftarrow> sim_start harness_closed sim_config 7 harness_closed sim_config 8;
       sim_run [Sim_send 0 (ob_msg 1 0) 5, Sim_receive 1 10, Sim_inject 0 (ob_msg 4 2), Sim_receive 0 0] [] st })
     (\<lambda>(trace, st'). length trace = 4 \<and> (\<forall>env. trace ! 1 = Received 1 OK env \<longrightarrow> msg_ok env \<and>
        ((\<exists>r. trace ! 0 = Sent 0 env r) \<or> trace ! 0 = Injected 1 env OK)))"
proof -
  have "msg_ok (ob_msg 1 0)" "env_wf (ob_msg 4 2)"
    by (simp_all add: ob_msg_def msg_ok_def env_wf_def envelope_valid_def envelope_init_def envelope_zero_def)
  then have r: "returns (do { st \<leftarrow> sim_start harness_closed sim_config 7 harness_closed sim_config 8;
       sim_run [Sim_send 0 (ob_msg 1 0) 5, Sim_receive 1 10, Sim_inject 0 (ob_msg 4 2), Sim_receive 0 0] [] st })
     (\<lambda>(trace, st'). length trace = 4 \<and> (\<forall>k < length trace. \<forall>i env. trace ! k = Received i OK env \<longrightarrow> msg_ok env \<and>
       (\<exists>j < k. \<exists>r. trace ! j = Sent (1 - i) env r \<or> trace ! j = Injected i env OK)))"
    by (intro returns_mono [OF local_sim_delivers_what_was_sent]) (auto simp: harness_closed_def sim_config_def RingBuffer_new_def
        example_configs first_impairment_def transport_config_default_def)
  have "msg_ok env \<and> ((\<exists>r. trace ! 0 = Sent 0 env r) \<or> trace ! 0 = Injected 1 env OK)"
    if "length trace = 4" and "\<forall>k < length trace. \<forall>i env. trace ! k = Received i OK env \<longrightarrow> msg_ok env \<and>
       (\<exists>j < k. \<exists>r. trace ! j = Sent (1 - i) env r \<or> trace ! j = Injected i env OK)"
      and "trace ! 1 = Received 1 OK env" for trace env
    using that(2) [rule_format, of 1 1 env] that(1,3) by auto
  with r show ?thesis by (fast elim: returns_mono)
qed

text \<open>Without impairments the link is a reliable queue: up to 64 messages sent from one harness arrive at its peer, all of
  them, unchanged and in the order they were sent.\<close>

theorem local_sim_fifo:
  assumes "linked Q i st" and "ls_peer (st ! i) = Some p" and "plain (st ! i)" and "plain (st ! p)"
    and "rb_contents (ls_recv_queue (st ! p)) = []" and "\<forall>m \<in> set ms. msg_ok (fst m)" and "length ms \<le> 64"
  shows "returns (do { (rs, st) \<leftarrow> sim_send_all i ms st; (outs, h) \<leftarrow> sim_receive_all (length ms) timeout (st ! p); Some (rs, outs, h) })
    (\<lambda>(rs, outs, h). rs = replicate (length ms) OK \<and> outs = map (\<lambda>m. (OK, fst m)) ms \<and> rb_contents (ls_recv_queue h) = [])"
proof -
  from sim_send_all_plain [OF assms(1-4,6)] assms(5,7) obtain st' where
    s: "sim_send_all i ms st = Some (replicate (length ms) OK, st')" "linked Q i st'" "ls_peer (st' ! i) = Some p"
      "rb_contents (ls_recv_queue (st' ! p)) = map fst ms"
    by (auto elim!: returnsE)
  then have "harness_ok msg_ok msg_ok (st' ! p)" by (auto simp: linked_def)
  from sim_receive_all_takes [OF this, of "length ms" timeout] s show ?thesis by (auto elim!: returnsE simp del: length_rb_contents)
qed

theorem local_sim_fifo_witness:
  "let st = [harness_example 1 impairment_config_default, harness_example 0 impairment_config_default];
     a = envelope_init\<lparr> message_type := DATA, message_id := 1, source_id := 1, destination_id := 2 \<rparr>;
     ms = [(a, 5), (a\<lparr> message_id := 2 \<rparr>, 6)]
   in returns (do { (rs, st) \<leftarrow> sim_send_all 0 ms st; (outs, h) \<leftarrow> sim_receive_all (length ms) 0 (st ! 1); Some (rs, outs, h) })
     (\<lambda>(rs, outs, h). outs = map (\<lambda>m. (OK, fst m)) ms)"
proof -
  let ?a = "envelope_init\<lparr> message_type := DATA, message_id := 1, source_id := 1, destination_id := 2 \<rparr>"
  let ?ms = "[(?a, 5), (?a\<lparr> message_id := 2 \<rparr>, 6)] :: (envelope \<times> u64) list"
  note ex = harness_example_ok [OF example_configs(2)]
  have ok: "\<forall>m \<in> set ?ms. msg_ok (fst m)"
    by (simp add: msg_ok_def env_wf_def envelope_valid_def envelope_init_def envelope_zero_def)
  show ?thesis unfolding Let_def
    by (rule returns_mono [OF local_sim_fifo [OF example_linked [OF example_configs(2,2)] _ _ _ _ ok]])
      (auto simp: ex)
qed

end
