(* ===== verification/Sockets.thy ===== *)
theory Sockets
  imports Posix Serializer
begin

text \<open>
  \<open>src/platform/SocketUtils.cpp\<close> and \<open>SocketOpsImpl.cpp\<close> behind \<open>ISocketOps.hpp\<close>: socket set-up, and frames on a byte stream
  with a four-byte length prefix. File descriptors and C results are integers, a byte array is a list; the numeric values of the
  flags are those of Linux. The send and receive loops run as long as the system makes progress, so they are partial functions:
  \<open>None\<close> is a failed assertion or a loop that does not end, and the lemmas show that neither happens.
\<close>

section \<open>Constants and addresses\<close>

definition POLLIN :: u16 where [simp]: "POLLIN = 1"
definition POLLOUT :: u16 where [simp]: "POLLOUT = 4"
definition EINPROGRESS :: int where [simp]: "EINPROGRESS = 115"
definition O_NONBLOCK :: int where [simp]: "O_NONBLOCK = 2048"
definition k_max_safe_frame :: u32 where [simp]: "k_max_safe_frame = WIRE_HEADER_SIZE + MSG_MAX_PAYLOAD_BYTES"

text \<open>\<open>poll\<close> takes an \<open>int\<close>; the time-out is clamped before the conversion.\<close>

definition clamped_ms :: "u32 \<Rightarrow> int" where
  "clamped_ms timeout_ms = (if uint timeout_ms > 2147483647 then 2147483647 else uint timeout_ms)"

definition socket_is_ipv6 :: "string \<Rightarrow> bool" where
  "socket_is_ipv6 ip \<longleftrightarrow> first_idx (\<lambda>c. c = CHR '':'') (take 46 ip) \<noteq> None"

definition fill_addr :: "'w posix \<Rightarrow> string \<Rightarrow> u16 \<Rightarrow> sock_addr option" where
  "fill_addr X ip port =
     (if socket_is_ipv6 ip
      then map_option (\<lambda>a. Inet6 a port) (px_inet_pton X True (takeWhile (\<lambda>c. c \<noteq> CHR ''%'') (take 47 ip)))
      else map_option (\<lambda>a. Inet4 a port) (px_inet_pton X False ip))"

section \<open>Set-up\<close>

definition socket_create :: "'w posix \<Rightarrow> 'w \<Rightarrow> bool \<Rightarrow> bool \<Rightarrow> (int \<times> 'w) option" where
  "socket_create X w ipv6 stream = (case px_socket X w ipv6 stream of (fd, w) \<Rightarrow>
     if fd < 0 then Some (- 1, w)
     else do { nc_assert (fd > 2); Some (fd, w) })"

definition socket_create_tcp :: "'w posix \<Rightarrow> 'w \<Rightarrow> bool \<Rightarrow> (int \<times> 'w) option" where
  "socket_create_tcp X w ipv6 = socket_create X w ipv6 True"

definition socket_create_udp :: "'w posix \<Rightarrow> 'w \<Rightarrow> bool \<Rightarrow> (int \<times> 'w) option" where
  "socket_create_udp X w ipv6 = socket_create X w ipv6 False"

definition socket_set_nonblocking :: "'w posix \<Rightarrow> 'w \<Rightarrow> int \<Rightarrow> (bool \<times> 'w) option" where
  "socket_set_nonblocking X w fd = do {
     nc_assert (fd \<ge> 0);
     case px_fcntl_getfl X w fd of (flags, w) \<Rightarrow>
       if flags < 0 then Some (False, w)
       else case px_fcntl_setfl X w fd (flags OR O_NONBLOCK) of (result, w) \<Rightarrow>
         if result < 0 then Some (False, w)
         else do { nc_assert (result = 0); Some (True, w) }
   }"

definition socket_set_reuseaddr :: "'w posix \<Rightarrow> 'w \<Rightarrow> int \<Rightarrow> (bool \<times> 'w) option" where
  "socket_set_reuseaddr X w fd = do {
     nc_assert (fd \<ge> 0);
     case px_setsockopt_reuseaddr X w fd of (result, w) \<Rightarrow>
       if result < 0 then Some (False, w)
       else do { nc_assert (result = 0); Some (True, w) }
   }"

definition socket_bind :: "'w posix \<Rightarrow> 'w \<Rightarrow> int \<Rightarrow> string \<Rightarrow> u16 \<Rightarrow> (bool \<times> 'w) option" where
  "socket_bind X w fd ip port = do {
     nc_assert (fd \<ge> 0);
     case fill_addr X ip port of None \<Rightarrow> Some (False, w)
     | Some addr \<Rightarrow> (case px_bind X w fd addr of (result, w) \<Rightarrow>
         if result < 0 then Some (False, w)
         else do { nc_assert (result = 0); Some (True, w) })
   }"

definition socket_connect_with_timeout :: "'w posix \<Rightarrow> 'w \<Rightarrow> int \<Rightarrow> string \<Rightarrow> u16 \<Rightarrow> u32 \<Rightarrow> (bool \<times> 'w) option" where
  "socket_connect_with_timeout X w fd ip port timeout_ms = do {
     nc_assert (fd \<ge> 0);
     nc_assert (timeout_ms > 0);
     (ok, w) \<leftarrow> socket_set_nonblocking X w fd;
     if \<not> ok then Some (False, w)
     else case fill_addr X ip port of None \<Rightarrow> Some (False, w)
     | Some addr \<Rightarrow> (case px_connect X w fd addr of ((conn_result, errno), w) \<Rightarrow>
         if conn_result = 0 then Some (True, w)
         else if errno \<noteq> EINPROGRESS then Some (False, w)
         else case px_poll X w [(fd, POLLOUT)] (clamped_ms timeout_ms) of ((poll_result, _), w) \<Rightarrow>
           if poll_result \<le> 0 then Some (False, w)
           else case px_getsockopt_error X w fd of ((getsock_result, opt_err), w) \<Rightarrow>
             if getsock_result < 0 \<or> opt_err \<noteq> 0 then Some (False, w)
             else do { nc_assert (getsock_result = 0 \<and> opt_err = 0); Some (True, w) })
   }"

definition socket_listen :: "'w posix \<Rightarrow> 'w \<Rightarrow> int \<Rightarrow> int \<Rightarrow> (bool \<times> 'w) option" where
  "socket_listen X w fd backlog = do {
     nc_assert (fd \<ge> 0);
     case px_listen X w fd backlog of (result, w) \<Rightarrow>
       if result < 0 then Some (False, w)
       else do { nc_assert (result = 0); Some (True, w) }
   }"

definition socket_accept :: "'w posix \<Rightarrow> 'w \<Rightarrow> int \<Rightarrow> (int \<times> 'w) option" where
  "socket_accept X w fd = do {
     nc_assert (fd \<ge> 0);
     case px_accept X w fd of (client_fd, w) \<Rightarrow>
       if client_fd < 0 then Some (- 1, w)
       else do { nc_assert (client_fd > 2); Some (client_fd, w) }
   }"

definition socket_close :: "'w posix \<Rightarrow> 'w \<Rightarrow> int \<Rightarrow> 'w option" where
  "socket_close X w fd = do {
     nc_assert (fd \<ge> 0);
     Some (snd (px_close X w fd))
   }"

section \<open>Byte streams and frames\<close>

partial_function (option) send_all_loop ::
    "'w posix \<Rightarrow> int \<Rightarrow> u8 list \<Rightarrow> u32 \<Rightarrow> u32 \<Rightarrow> u32 \<Rightarrow> 'w \<Rightarrow> (bool \<times> 'w) option" where
  "send_all_loop X fd buf len timeout_ms sent w =
     (if sent < len
      then let ((poll_result, _), w) = px_poll X w [(fd, POLLOUT)] (clamped_ms timeout_ms)
        in if poll_result \<le> 0 then Some (False, w)
        else let remaining = len - sent; (send_result, w) = px_send X w fd (take (unat remaining) (drop (unat sent) buf))
          in if send_result < 0 then Some (False, w)
          else if send_result = 0 then Some (False, w)
          else send_all_loop X fd buf len timeout_ms (sent + of_int send_result) w
      else do { nc_assert (sent = len); Some (True, w) })"

definition socket_send_all :: "'w posix \<Rightarrow> 'w \<Rightarrow> int \<Rightarrow> u8 list \<Rightarrow> u32 \<Rightarrow> u32 \<Rightarrow> (bool \<times> 'w) option" where
  "socket_send_all X w fd buf len timeout_ms = do {
     nc_assert (fd \<ge> 0);
     nc_assert (len > 0);
     send_all_loop X fd buf len timeout_ms 0 w
   }"

partial_function (option) recv_exact_loop ::
    "'w posix \<Rightarrow> int \<Rightarrow> u32 \<Rightarrow> u32 \<Rightarrow> u8 list \<Rightarrow> u32 \<Rightarrow> 'w \<Rightarrow> (bool \<times> u8 list \<times> 'w) option" where
  "recv_exact_loop X fd len timeout_ms buf received w =
     (if received < len
      then let ((poll_result, _), w) = px_poll X w [(fd, POLLIN)] (clamped_ms timeout_ms)
        in if poll_result \<le> 0 then Some (False, buf, w)
        else let remaining = len - received; ((recv_result, bytes), w) = px_recv X w fd (unat remaining)
          in if recv_result < 0 then Some (False, buf, w)
          else if recv_result = 0 then Some (False, buf, w)
          else recv_exact_loop X fd len timeout_ms (blit buf (unat received) bytes) (received + of_int recv_result) w
      else do { nc_assert (received = len); Some (True, buf, w) })"

definition socket_recv_exact :: "'w posix \<Rightarrow> 'w \<Rightarrow> int \<Rightarrow> u8 list \<Rightarrow> u32 \<Rightarrow> u32 \<Rightarrow> (bool \<times> u8 list \<times> 'w) option" where
  "socket_recv_exact X w fd buf len timeout_ms = do {
     nc_assert (fd \<ge> 0);
     nc_assert (len > 0);
     recv_exact_loop X fd len timeout_ms buf 0 w
   }"

definition length_header :: "u32 \<Rightarrow> u8 list" where
  "length_header len = [ucast (drop_bit 24 len AND 0xFF), ucast (drop_bit 16 len AND 0xFF), ucast (drop_bit 8 len AND 0xFF),
     ucast (len AND 0xFF)]"

definition parse_length :: "u8 list \<Rightarrow> u32" where
  "parse_length header = push_bit 24 (ucast (header ! 0)) OR push_bit 16 (ucast (header ! 1)) OR
     push_bit 8 (ucast (header ! 2)) OR ucast (header ! 3)"

definition tcp_send_frame :: "'w posix \<Rightarrow> 'w \<Rightarrow> int \<Rightarrow> u8 list \<Rightarrow> u32 \<Rightarrow> u32 \<Rightarrow> (bool \<times> 'w) option" where
  "tcp_send_frame X w fd buf len timeout_ms = do {
     nc_assert (fd \<ge> 0);
     (ok, w) \<leftarrow> socket_send_all X w fd (length_header len) 4 timeout_ms;
     if \<not> ok then Some (False, w)
     else if len > 0 then do {
       (ok, w) \<leftarrow> socket_send_all X w fd buf len timeout_ms;
       Some (ok, w)
     }
     else Some (True, w)
   }"

definition tcp_recv_frame :: "'w posix \<Rightarrow> 'w \<Rightarrow> int \<Rightarrow> u8 list \<Rightarrow> u32 \<Rightarrow> u32 \<Rightarrow> u32 \<Rightarrow> (bool \<times> u8 list \<times> u32 \<times> 'w) option" where
  "tcp_recv_frame X w fd buf buf_cap timeout_ms out_len = do {
     nc_assert (fd \<ge> 0);
     nc_assert (buf_cap > 0);
     (ok, header, w) \<leftarrow> socket_recv_exact X w fd [0, 0, 0, 0] 4 timeout_ms;
     if \<not> ok then Some (False, buf, out_len, w)
     else do {
       let frame_len = parse_length header;
       if frame_len < WIRE_HEADER_SIZE \<or> frame_len > k_max_safe_frame \<or> frame_len > buf_cap then Some (False, buf, out_len, w)
       else do {
         nc_assert (frame_len \<le> k_max_safe_frame);
         (ok, buf, w) \<leftarrow> socket_recv_exact X w fd buf frame_len timeout_ms;
         if \<not> ok then Some (False, buf, out_len, w)
         else do {
           nc_assert (frame_len \<le> buf_cap);
           nc_assert (frame_len \<le> k_max_safe_frame);
           Some (True, buf, frame_len, w)
         }
       }
     }
   }"

section \<open>Datagrams\<close>

definition socket_send_to :: "'w posix \<Rightarrow> 'w \<Rightarrow> int \<Rightarrow> u8 list \<Rightarrow> u32 \<Rightarrow> string \<Rightarrow> u16 \<Rightarrow> (bool \<times> 'w) option" where
  "socket_send_to X w fd buf len ip port = do {
     nc_assert (fd \<ge> 0);
     nc_assert (len > 0);
     case fill_addr X ip port of None \<Rightarrow> Some (False, w)
     | Some addr \<Rightarrow> (case px_sendto X w fd (take (unat len) buf) addr of (send_result, w) \<Rightarrow>
         if send_result < 0 then Some (False, w)
         else if (of_int send_result :: u32) \<noteq> len then Some (False, w)
         else do { nc_assert ((of_int send_result :: u32) = len); Some (True, w) })
   }"

fun addr_port :: "sock_addr \<Rightarrow> u16" where
  "addr_port (Inet4 a p) = p"
| "addr_port (Inet6 a p) = p"

text \<open>When the call fails after a datagram arrived, the buffer and the out-parameters keep what was written until then.\<close>

definition socket_recv_from :: "'w posix \<Rightarrow> 'w \<Rightarrow> int \<Rightarrow> u8 list \<Rightarrow> u32 \<Rightarrow> u32 \<Rightarrow> u32 \<times> string \<times> u16 \<Rightarrow>
    (bool \<times> u8 list \<times> (u32 \<times> string \<times> u16) \<times> 'w) option" where
  "socket_recv_from X w fd buf buf_cap timeout_ms = (\<lambda>(out_len, out_ip, out_port). do {
     nc_assert (fd \<ge> 0);
     nc_assert (buf_cap > 0);
     case px_poll X w [(fd, POLLIN)] (clamped_ms timeout_ms) of ((poll_result, _), w) \<Rightarrow>
       if poll_result \<le> 0 then Some (False, buf, (out_len, out_ip, out_port), w)
       else case px_recvfrom X w fd (unat buf_cap) of ((recv_result, bytes, src_addr), w) \<Rightarrow>
         if recv_result < 0 then Some (False, buf, (out_len, out_ip, out_port), w)
         else if recv_result = 0 then Some (False, buf, (out_len, out_ip, out_port), w)
         else do {
           let buf = blit buf 0 bytes;
           let out_port = addr_port src_addr;
           case px_inet_ntop X src_addr of None \<Rightarrow> Some (False, buf, (out_len, out_ip, out_port), w)
           | Some ip \<Rightarrow> do {
               let out_len = of_int recv_result;
               nc_assert (out_len > 0 \<and> out_len \<le> buf_cap);
               Some (True, buf, (out_len, ip, out_port), w)
             }
         }
   })"

section \<open>The socket interface\<close>

record 'w socket_ops =
  so_create_tcp :: "'w \<Rightarrow> bool \<Rightarrow> (int \<times> 'w) option"
  so_create_udp :: "'w \<Rightarrow> bool \<Rightarrow> (int \<times> 'w) option"
  so_set_reuseaddr :: "'w \<Rightarrow> int \<Rightarrow> (bool \<times> 'w) option"
  so_set_nonblocking :: "'w \<Rightarrow> int \<Rightarrow> (bool \<times> 'w) option"
  so_do_bind :: "'w \<Rightarrow> int \<Rightarrow> string \<Rightarrow> u16 \<Rightarrow> (bool \<times> 'w) option"
  so_do_listen :: "'w \<Rightarrow> int \<Rightarrow> int \<Rightarrow> (bool \<times> 'w) option"
  so_do_accept :: "'w \<Rightarrow> int \<Rightarrow> (int \<times> 'w) option"
  so_connect_with_timeout :: "'w \<Rightarrow> int \<Rightarrow> string \<Rightarrow> u16 \<Rightarrow> u32 \<Rightarrow> (bool \<times> 'w) option"
  so_do_close :: "'w \<Rightarrow> int \<Rightarrow> 'w option"
  so_send_frame :: "'w \<Rightarrow> int \<Rightarrow> u8 list \<Rightarrow> u32 \<Rightarrow> u32 \<Rightarrow> (bool \<times> 'w) option"
  so_recv_frame :: "'w \<Rightarrow> int \<Rightarrow> u8 list \<Rightarrow> u32 \<Rightarrow> u32 \<Rightarrow> u32 \<Rightarrow> (bool \<times> u8 list \<times> u32 \<times> 'w) option"
  so_send_to :: "'w \<Rightarrow> int \<Rightarrow> u8 list \<Rightarrow> u32 \<Rightarrow> string \<Rightarrow> u16 \<Rightarrow> (bool \<times> 'w) option"
  so_recv_from :: "'w \<Rightarrow> int \<Rightarrow> u8 list \<Rightarrow> u32 \<Rightarrow> u32 \<Rightarrow> u32 \<times> string \<times> u16 \<Rightarrow>
    (bool \<times> u8 list \<times> (u32 \<times> string \<times> u16) \<times> 'w) option"

definition SocketOpsImpl_create :: "(int \<times> 'w) option \<Rightarrow> (int \<times> 'w) option" where
  "SocketOpsImpl_create m = do { (fd, w) \<leftarrow> m; nc_assert (fd \<ge> - 1); Some (fd, w) }"

definition SocketOpsImpl :: "'w posix \<Rightarrow> 'w socket_ops" where
  "SocketOpsImpl X = \<lparr>
     so_create_tcp = (\<lambda>w ipv6. SocketOpsImpl_create (socket_create_tcp X w ipv6)),
     so_create_udp = (\<lambda>w ipv6. SocketOpsImpl_create (socket_create_udp X w ipv6)),
     so_set_reuseaddr = (\<lambda>w fd. do { nc_assert (fd \<ge> 0); socket_set_reuseaddr X w fd }),
     so_set_nonblocking = (\<lambda>w fd. do { nc_assert (fd \<ge> 0); socket_set_nonblocking X w fd }),
     so_do_bind = (\<lambda>w fd ip port. do { nc_assert (fd \<ge> 0); socket_bind X w fd ip port }),
     so_do_listen = (\<lambda>w fd backlog. do { nc_assert (fd \<ge> 0); socket_listen X w fd backlog }),
     so_do_accept = (\<lambda>w fd. do { nc_assert (fd \<ge> 0); socket_accept X w fd }),
     so_connect_with_timeout = (\<lambda>w fd ip port ms. do { nc_assert (fd \<ge> 0); socket_connect_with_timeout X w fd ip port ms }),
     so_do_close = (\<lambda>w fd. do { nc_assert (fd \<ge> 0); socket_close X w fd }),
     so_send_frame = (\<lambda>w fd buf len ms. do { nc_assert (fd \<ge> 0); tcp_send_frame X w fd buf len ms }),
     so_recv_frame = (\<lambda>w fd buf cap ms out_len. do { nc_assert (fd \<ge> 0); tcp_recv_frame X w fd buf cap ms out_len }),
     so_send_to = (\<lambda>w fd buf len ip port. do { nc_assert (fd \<ge> 0); socket_send_to X w fd buf len ip port }),
     so_recv_from = (\<lambda>w fd buf cap ms out. do { nc_assert (fd \<ge> 0); socket_recv_from X w fd buf cap ms out }) \<rparr>"

text \<open>The bytes a frame puts on the stream.\<close>

definition frame_bytes :: "u8 list \<Rightarrow> u32 \<Rightarrow> u8 list" where
  "frame_bytes buf len = length_header len @ take (unat len) buf"

text \<open>A system for examples: one stream that is connected to itself. The state is what was sent so far and what waits to be
  read. A send accepts at most three bytes, a receive delivers at most two.\<close>

definition posix_loopback :: "(u8 list \<times> u8 list) posix" where
  "posix_loopback = \<lparr> px_clock_gettime = (\<lambda>w. ((0, 1, 0), w)), px_socket = (\<lambda>w _ _. (3, w)), px_fcntl_getfl = (\<lambda>w _. (0, w)),
     px_fcntl_setfl = (\<lambda>w _ _. (0, w)), px_setsockopt_reuseaddr = (\<lambda>w _. (0, w)), px_bind = (\<lambda>w _ _. (0, w)),
     px_connect = (\<lambda>w _ _. ((0, 0), w)), px_getsockopt_error = (\<lambda>w _. ((0, 0), w)), px_listen = (\<lambda>w _ _. (0, w)),
     px_accept = (\<lambda>w _. (- 1, w)), px_close = (\<lambda>w _. (0, w)),
     px_poll = (\<lambda>w fds _. ((int (length fds), map snd fds), w)),
     px_send = (\<lambda>(h, p) _ bytes. (int (length (take 3 bytes)), h @ take 3 bytes, p @ take 3 bytes)),
     px_recv = (\<lambda>(h, p) _ n. ((int (length (take (min 2 n) p)), take (min 2 n) p), h, drop (min 2 n) p)),
     px_sendto = (\<lambda>w _ bytes _. (int (length bytes), w)), px_recvfrom = (\<lambda>w _ _. ((- 1, [], Inet4 [] 0), w)),
     px_inet_pton = (\<lambda>_ _. Some [127, 0, 0, 1]), px_inet_ntop = (\<lambda>_. None) \<rparr>"

text \<open>What a backend relies on: on system states that satisfy \<open>I\<close> every call returns and keeps \<open>I\<close>; a received frame or
  datagram fits the buffer it was given.\<close>

locale socket_layer =
  fixes S :: "'w socket_ops" and I :: "'w \<Rightarrow> bool"
  assumes create_tcp: "I w \<Longrightarrow> returns (so_create_tcp S w v6) (\<lambda>(fd, w'). I w')"
    and create_udp: "I w \<Longrightarrow> returns (so_create_udp S w v6) (\<lambda>(fd, w'). I w')"
    and set_reuseaddr: "I w \<Longrightarrow> fd \<ge> 0 \<Longrightarrow> returns (so_set_reuseaddr S w fd) (\<lambda>(ok, w'). I w')"
    and set_nonblocking: "I w \<Longrightarrow> fd \<ge> 0 \<Longrightarrow> returns (so_set_nonblocking S w fd) (\<lambda>(ok, w'). I w')"
    and do_bind: "I w \<Longrightarrow> fd \<ge> 0 \<Longrightarrow> returns (so_do_bind S w fd ip port) (\<lambda>(ok, w'). I w')"
    and do_listen: "I w \<Longrightarrow> fd \<ge> 0 \<Longrightarrow> returns (so_do_listen S w fd backlog) (\<lambda>(ok, w'). I w')"
    and do_accept: "I w \<Longrightarrow> fd \<ge> 0 \<Longrightarrow> returns (so_do_accept S w fd) (\<lambda>(client, w'). I w')"
    and connect: "I w \<Longrightarrow> fd \<ge> 0 \<Longrightarrow> ms > 0 \<Longrightarrow> returns (so_connect_with_timeout S w fd ip port ms) (\<lambda>(ok, w'). I w')"
    and do_close: "I w \<Longrightarrow> fd \<ge> 0 \<Longrightarrow> returns (so_do_close S w fd) I"
    and send_frame: "I w \<Longrightarrow> fd \<ge> 0 \<Longrightarrow> unat len \<le> length buf \<Longrightarrow> returns (so_send_frame S w fd buf len ms) (\<lambda>(ok, w'). I w')"
    and recv_frame: "I w \<Longrightarrow> fd \<ge> 0 \<Longrightarrow> cap > 0 \<Longrightarrow> unat cap \<le> length buf \<Longrightarrow>
      returns (so_recv_frame S w fd buf cap ms n) (\<lambda>(ok, buf', n', w'). I w' \<and> length buf' = length buf \<and> (ok \<longrightarrow> n' \<le> cap))"
    and send_to: "I w \<Longrightarrow> fd \<ge> 0 \<Longrightarrow> len > 0 \<Longrightarrow> unat len \<le> length buf \<Longrightarrow>
      returns (so_send_to S w fd buf len ip port) (\<lambda>(ok, w'). I w')"
    and recv_from: "I w \<Longrightarrow> fd \<ge> 0 \<Longrightarrow> cap > 0 \<Longrightarrow> unat cap \<le> length buf \<Longrightarrow>
      returns (so_recv_from S w fd buf cap ms out) (\<lambda>(ok, buf', (n, ip, port), w'). I w' \<and> length buf' = length buf \<and> (ok \<longrightarrow> 0 < n \<and> n \<le> cap))"

text \<open>A positive transfer of at most the remaining bytes moves the counter without wrap-around.\<close>

lemma advance_counter:
  fixes sent len :: u32
  assumes "sent < len" and "0 < r" and "r \<le> int (unat (len - sent))"
  shows "sent + of_int r \<le> len" "unat (sent + of_int r) = unat sent + nat r" "unat (len - (sent + of_int r)) < unat (len - sent)"
proof -
  have n: "unat (len - sent) = unat len - unat sent" using assms(1) by (simp add: unat_sub less_imp_le)
  have lt: "unat sent < unat len" using assms(1) by (simp add: word_less_nat_alt)
  have bound: "unat len < 4294967296" using unsigned_less [of len] by simp
  obtain k where k: "r = int k" "0 < k" "k \<le> unat len - unat sent"
    using assms(2,3) n by (cases r) auto
  have "unat (of_nat k :: u32) = k" using k(3) bound by (simp add: unat_of_nat)
  then show u: "unat (sent + of_int r) = unat sent + nat r"
    using k lt bound by (simp add: unat_word_ariths)
  show le: "sent + of_int r \<le> len" using u k lt by (simp add: word_le_nat_alt)
  show "unat (len - (sent + of_int r)) < unat (len - sent)" using le u k lt n by (simp add: unat_sub)
qed

text \<open>What the socket functions rely on from the system: calls that only report success return 0 or a negative number, the
  standard descriptors are open, so that new descriptors are above 2, and no call transfers more bytes than it was given.\<close>

locale posix_system =
  fixes X :: "'w posix" and I :: "'w \<Rightarrow> bool"
  assumes clock: "clock_ok X I"
    and socket: "I w \<Longrightarrow> case px_socket X w v6 st of (fd, w') \<Rightarrow> I w' \<and> (fd < 0 \<or> 2 < fd)"
    and getfl: "I w \<Longrightarrow> case px_fcntl_getfl X w fd of (r, w') \<Rightarrow> I w'"
    and setfl: "I w \<Longrightarrow> case px_fcntl_setfl X w fd fl of (r, w') \<Rightarrow> I w' \<and> r \<le> 0"
    and reuse: "I w \<Longrightarrow> case px_setsockopt_reuseaddr X w fd of (r, w') \<Rightarrow> I w' \<and> r \<le> 0"
    and bind: "I w \<Longrightarrow> case px_bind X w fd addr of (r, w') \<Rightarrow> I w' \<and> r \<le> 0"
    and conn: "I w \<Longrightarrow> case px_connect X w fd addr of ((r, e), w') \<Rightarrow> I w'"
    and sockerr: "I w \<Longrightarrow> case px_getsockopt_error X w fd of ((r, e), w') \<Rightarrow> I w' \<and> r \<le> 0"
    and listen: "I w \<Longrightarrow> case px_listen X w fd backlog of (r, w') \<Rightarrow> I w' \<and> r \<le> 0"
    and accept: "I w \<Longrightarrow> case px_accept X w fd of (c, w') \<Rightarrow> I w' \<and> (c < 0 \<or> 2 < c)"
    and close: "I w \<Longrightarrow> case px_close X w fd of (r, w') \<Rightarrow> I w'"
    and poll: "I w \<Longrightarrow> case px_poll X w fds ms of ((r, revents), w') \<Rightarrow> I w' \<and> length revents = length fds"
    and send: "I w \<Longrightarrow> case px_send X w fd bytes of (r, w') \<Rightarrow> I w' \<and> r \<le> int (length bytes)"
    and recv: "I w \<Longrightarrow> case px_recv X w fd n of ((r, bytes), w') \<Rightarrow> I w' \<and> r \<le> int n \<and> (0 < r \<longrightarrow> int (length bytes) = r)"
    and sendto: "I w \<Longrightarrow> case px_sendto X w fd bytes addr of (r, w') \<Rightarrow> I w'"
    and recvfrom: "I w \<Longrightarrow> case px_recvfrom X w fd n of ((r, bytes, addr), w') \<Rightarrow> I w' \<and> r \<le> int n \<and> (0 < r \<longrightarrow> int (length bytes) = r)"
begin

text \<open>The loops end: every round that does not leave the loop moves at least one byte.\<close>

lemma send_loop_returns:
  assumes "I w" and "sent \<le> len"
  shows "returns (send_all_loop X fd buf len ms sent w) (\<lambda>(ok, w'). I w')"
  using assms
proof (induction "unat (len - sent)" arbitrary: sent w rule: less_induct)
  case less
  show ?case
  proof (cases "sent < len")
    case False
    with less.prems show ?thesis by (simp add: send_all_loop.simps)
  next
    case True
    obtain pr rev w1 where p: "px_poll X w [(fd, POLLOUT)] (clamped_ms ms) = ((pr, rev), w1)" by (metis surj_pair)
    let ?bytes = "take (unat (len - sent)) (drop (unat sent) buf)"
    obtain r w2 where s: "px_send X w1 fd ?bytes = (r, w2)" by (metis surj_pair)
    have w1: "I w1" using poll [OF less.prems(1), where fds = "[(fd, POLLOUT)]" and ms = "clamped_ms ms"] p by simp
    have w2: "I w2" "r \<le> int (length ?bytes)" using send [OF w1, where fd = fd and bytes = ?bytes] s by simp_all
    have "length ?bytes \<le> unat (len - sent)" by simp
    with w2(2) have r: "r \<le> int (unat (len - sent))" by linarith
    show ?thesis
    proof (cases "pr \<le> 0 \<or> r \<le> 0")
      case True
      then show ?thesis using \<open>sent < len\<close> p s w1 w2 by (auto simp: send_all_loop.simps [of X fd buf len ms sent w])
    next
      case False
      then have "0 < r" by simp
      note adv = advance_counter [OF True this r]
      from less.hyps [OF adv(3) w2(1) adv(1)] p s False True show ?thesis
        by (simp add: send_all_loop.simps [of X fd buf len ms sent w])
    qed
  qed
qed

lemma recv_loop_returns:
  assumes "I w" and "received \<le> len" and "unat len \<le> length buf"
  shows "returns (recv_exact_loop X fd len ms buf received w) (\<lambda>(ok, buf', w'). I w' \<and> length buf' = length buf)"
  using assms
proof (induction "unat (len - received)" arbitrary: received buf w rule: less_induct)
  case less
  show ?case
  proof (cases "received < len")
    case False
    with less.prems show ?thesis by (simp add: recv_exact_loop.simps)
  next
    case True
    obtain pr rev w1 where p: "px_poll X w [(fd, POLLIN)] (clamped_ms ms) = ((pr, rev), w1)" by (metis surj_pair)
    obtain r bytes w2 where s: "px_recv X w1 fd (unat (len - received)) = ((r, bytes), w2)" by (metis surj_pair)
    have w1: "I w1" using poll [OF less.prems(1), where fds = "[(fd, POLLIN)]" and ms = "clamped_ms ms"] p by simp
    have w2: "I w2" "r \<le> int (unat (len - received))" "0 < r \<longrightarrow> int (length bytes) = r"
      using recv [OF w1, where fd = fd and n = "unat (len - received)"] s by simp_all
    show ?thesis
    proof (cases "pr \<le> 0 \<or> r \<le> 0")
      case True
      then show ?thesis using \<open>received < len\<close> p s w1 w2 by (auto simp: recv_exact_loop.simps [of X fd len ms buf received w])
    next
      case False
      then have pos: "0 < r" by simp
      note adv = advance_counter [OF True pos w2(2)]
      have fits: "unat received + length bytes \<le> length buf"
        using adv(1,2) w2(3) pos less.prems(3) by (simp add: word_le_nat_alt)
      then have "length (blit buf (unat received) bytes) = length buf" by simp
      with less.hyps [OF adv(3) w2(1) adv(1), of "blit buf (unat received) bytes"] less.prems(3) p s False True show ?thesis
        by (simp add: recv_exact_loop.simps [of X fd len ms buf received w])
    qed
  qed
qed

lemma nonblocking_returns: "I w \<Longrightarrow> fd \<ge> 0 \<Longrightarrow> returns (socket_set_nonblocking X w fd) (\<lambda>(ok, w'). I w')"
  using getfl [of w fd] setfl by (fastforce simp: socket_set_nonblocking_def split: prod.splits)

lemma bind_returns: "I w \<Longrightarrow> fd \<ge> 0 \<Longrightarrow> returns (socket_bind X w fd ip port) (\<lambda>(ok, w'). I w')"
  using bind [of w fd] by (fastforce simp: socket_bind_def split: prod.splits option.splits)

lemma connect_returns:
  assumes "I w" and "fd \<ge> 0" and "ms > 0"
  shows "returns (socket_connect_with_timeout X w fd ip port ms) (\<lambda>(ok, w'). I w')"
proof -
  from nonblocking_returns [OF assms(1,2)] obtain ok w1 where nb: "socket_set_nonblocking X w fd = Some (ok, w1)" "I w1"
    by (auto elim!: returnsE)
  show ?thesis
  proof (cases "fill_addr X ip port")
    case None
    with nb assms show ?thesis by (simp add: socket_connect_with_timeout_def)
  next
    case (Some addr)
    obtain r e w2 where c: "px_connect X w1 fd addr = ((r, e), w2)" by (metis surj_pair)
    obtain pr rev w3 where p: "px_poll X w2 [(fd, POLLOUT)] (clamped_ms ms) = ((pr, rev), w3)" by (metis surj_pair)
    obtain gr oe w4 where g: "px_getsockopt_error X w3 fd = ((gr, oe), w4)" by (metis surj_pair)
    have w2: "I w2" using conn [OF nb(2), where fd = fd and addr = addr] c by simp
    have w3: "I w3" using poll [OF w2, where fds = "[(fd, POLLOUT)]" and ms = "clamped_ms ms"] p by simp
    have "I w4" "gr \<le> 0" using sockerr [OF w3, where fd = fd] g by simp_all
    with nb Some c p g w2 w3 assms show ?thesis by (auto simp: socket_connect_with_timeout_def)
  qed
qed

lemma send_all_returns: "I w \<Longrightarrow> fd \<ge> 0 \<Longrightarrow> len > 0 \<Longrightarrow> returns (socket_send_all X w fd buf len ms) (\<lambda>(ok, w'). I w')"
  by (simp add: socket_send_all_def send_loop_returns)

lemma recv_exact_returns:
  "I w \<Longrightarrow> fd \<ge> 0 \<Longrightarrow> len > 0 \<Longrightarrow> unat len \<le> length buf \<Longrightarrow>
   returns (socket_recv_exact X w fd buf len ms) (\<lambda>(ok, buf', w'). I w' \<and> length buf' = length buf)"
  by (simp add: socket_recv_exact_def recv_loop_returns)

lemma send_frame_returns:
  assumes "I w" and "fd \<ge> 0"
  shows "returns (tcp_send_frame X w fd buf len ms) (\<lambda>(ok, w'). I w')"
proof -
  from send_all_returns [OF assms, of 4 "length_header len" ms] obtain ok w1 where
    "socket_send_all X w fd (length_header len) 4 ms = Some (ok, w1)" "I w1" by (auto elim!: returnsE)
  with assms(2) send_all_returns [of w1 fd len buf ms] show ?thesis
    by (auto simp: tcp_send_frame_def word_gt_0 elim!: returnsE)
qed

lemma recv_frame_returns:
  assumes "I w" and "fd \<ge> 0" and "cap > 0" and "unat cap \<le> length buf"
  shows "returns (tcp_recv_frame X w fd buf cap ms n) (\<lambda>(ok, buf', n', w'). I w' \<and> length buf' = length buf \<and> (ok \<longrightarrow> n' \<le> cap))"
proof -
  from recv_exact_returns [OF assms(1,2), of 4 "[0, 0, 0, 0]" ms] obtain ok hd w1 where
    h: "socket_recv_exact X w fd [0, 0, 0, 0] 4 ms = Some (ok, hd, w1)" "I w1" by (auto elim!: returnsE)
  let ?n = "parse_length hd"
  show ?thesis
  proof (cases "\<not> ok \<or> ?n < WIRE_HEADER_SIZE \<or> ?n > k_max_safe_frame \<or> ?n > cap")
    case True
    with h assms show ?thesis by (auto simp: tcp_recv_frame_def)
  next
    case False
    then have "?n > 0" "unat ?n \<le> length buf" using assms(4) by (auto simp: word_less_nat_alt word_le_nat_alt not_less)
    from recv_exact_returns [OF h(2) assms(2) this, of ms] False h assms show ?thesis
      by (auto simp: tcp_recv_frame_def not_less elim!: returns_mono)
  qed
qed

lemma send_to_returns: "I w \<Longrightarrow> fd \<ge> 0 \<Longrightarrow> len > 0 \<Longrightarrow> returns (socket_send_to X w fd buf len ip port) (\<lambda>(ok, w'). I w')"
  using sendto by (fastforce simp: socket_send_to_def split: prod.splits option.splits)

lemma recv_from_returns:
  assumes "I w" and "fd \<ge> 0" and "cap > 0" and "unat cap \<le> length buf"
  shows "returns (socket_recv_from X w fd buf cap ms out) (\<lambda>(ok, buf', (n, ip, port), w'). I w' \<and> length buf' = length buf \<and> (ok \<longrightarrow> 0 < n \<and> n \<le> cap))"
proof -
  obtain pr rev w1 where p: "px_poll X w [(fd, POLLIN)] (clamped_ms ms) = ((pr, rev), w1)" by (metis surj_pair)
  obtain r bytes a w2 where s: "px_recvfrom X w1 fd (unat cap) = ((r, bytes, a), w2)" by (metis surj_pair)
  have w1: "I w1" using poll [OF assms(1), where fds = "[(fd, POLLIN)]" and ms = "clamped_ms ms"] p by simp
  have w2: "I w2" "r \<le> int (unat cap)" "0 < r \<longrightarrow> int (length bytes) = r"
    using recvfrom [OF w1, where fd = fd and n = "unat cap"] s by simp_all
  obtain out_len out_ip out_port where out: "out = (out_len, out_ip, out_port)" by (metis prod_cases3)
  show ?thesis
  proof (cases "pr \<le> 0 \<or> r \<le> 0")
    case True
    then show ?thesis using p s w1 w2(1) assms out by (auto simp: socket_recv_from_def)
  next
    case False
    then obtain k where k: "r = int k" "0 < k" "k = length bytes" "k \<le> unat cap" using w2(2,3) by (cases r) auto
    have "unat cap < 4294967296" using unsigned_less [of cap] by simp
    then have "unat (of_nat k :: u32) = k" using k(4) by (simp add: unat_of_nat)
    then have n: "(of_nat k :: u32) > 0" "(of_nat k :: u32) \<le> cap" using k by (simp_all add: word_less_nat_alt word_le_nat_alt)
    have "length (blit buf 0 bytes) = length buf" using k assms(4) by simp
    with False p s w2(1) assms out k n show ?thesis by (auto simp: socket_recv_from_def split: option.split)
  qed
qed

end

text \<open>The implementation of the interface on the system calls.\<close>

sublocale posix_system \<subseteq> ops: socket_layer "SocketOpsImpl X" I
proof unfold_locales
  fix w fd ip port ms len cap buf n v6 backlog client out
  assume w: "I w"
  show "returns (so_create_tcp (SocketOpsImpl X) w v6) (\<lambda>(fd, w'). I w')"
    using socket [OF w, of v6 True]
    by (auto simp: SocketOpsImpl_def SocketOpsImpl_create_def socket_create_tcp_def socket_create_def split: prod.splits)
  show "returns (so_create_udp (SocketOpsImpl X) w v6) (\<lambda>(fd, w'). I w')"
    using socket [OF w, of v6 False]
    by (auto simp: SocketOpsImpl_def SocketOpsImpl_create_def socket_create_udp_def socket_create_def split: prod.splits)
  assume fd: "fd \<ge> (0 :: int)"
  show "returns (so_set_reuseaddr (SocketOpsImpl X) w fd) (\<lambda>(ok, w'). I w')"
    using reuse [OF w, of fd] fd by (auto simp: SocketOpsImpl_def socket_set_reuseaddr_def split: prod.splits)
  show "returns (so_set_nonblocking (SocketOpsImpl X) w fd) (\<lambda>(ok, w'). I w')"
    using nonblocking_returns [OF w fd] fd by (simp add: SocketOpsImpl_def)
  show "returns (so_do_bind (SocketOpsImpl X) w fd ip port) (\<lambda>(ok, w'). I w')"
    using bind_returns [OF w fd] fd by (simp add: SocketOpsImpl_def)
  show "returns (so_do_listen (SocketOpsImpl X) w fd backlog) (\<lambda>(ok, w'). I w')"
    using listen [OF w, of fd backlog] fd by (auto simp: SocketOpsImpl_def socket_listen_def split: prod.splits)
  show "returns (so_do_accept (SocketOpsImpl X) w fd) (\<lambda>(client, w'). I w')"
    using accept [OF w, of fd] fd by (auto simp: SocketOpsImpl_def socket_accept_def split: prod.splits)
  show "returns (so_do_close (SocketOpsImpl X) w fd) I"
    using close [OF w, of fd] fd by (auto simp: SocketOpsImpl_def socket_close_def split: prod.splits)
  show "returns (so_send_frame (SocketOpsImpl X) w fd buf len ms) (\<lambda>(ok, w'). I w')"
    using send_frame_returns [OF w fd] fd by (simp add: SocketOpsImpl_def)
  show "returns (so_connect_with_timeout (SocketOpsImpl X) w fd ip port ms) (\<lambda>(ok, w'). I w')" if "ms > 0"
    using connect_returns [OF w fd that] fd by (simp add: SocketOpsImpl_def)
  show "returns (so_send_to (SocketOpsImpl X) w fd buf len ip port) (\<lambda>(ok, w'). I w')" if "len > 0"
    using send_to_returns [OF w fd that] fd by (simp add: SocketOpsImpl_def)
  assume cap: "cap > (0 :: u32)" "unat cap \<le> length buf"
  show "returns (so_recv_frame (SocketOpsImpl X) w fd buf cap ms n)
      (\<lambda>(ok, buf', n', w'). I w' \<and> length buf' = length buf \<and> (ok \<longrightarrow> n' \<le> cap))"
    using recv_frame_returns [OF w fd cap] fd by (simp add: SocketOpsImpl_def)
  show "returns (so_recv_from (SocketOpsImpl X) w fd buf cap ms out)
      (\<lambda>(ok, buf', (n, ip, port), w'). I w' \<and> length buf' = length buf \<and> (ok \<longrightarrow> 0 < n \<and> n \<le> cap))"
    using recv_from_returns [OF w fd cap] fd by (simp add: SocketOpsImpl_def)
qed

text \<open>What a backend relies on besides the socket layer: the clock and \<open>poll\<close>.\<close>

locale backend_env = socket_layer S I for S :: "'w socket_ops" and I +
  fixes X :: "'w posix"
  assumes clock_contract: "clock_ok X I"
    and poll_contract: "I w \<Longrightarrow> case px_poll X w fds ms of ((r, revents), w') \<Rightarrow> I w' \<and> length revents = length fds"
begin

lemma now_returns: "I w \<Longrightarrow> returns (read_clock X w) (\<lambda>(now, w'). I w' \<and> now > 0)"
  by (rule clock_returns [OF clock_contract])

end

sublocale posix_system \<subseteq> env: backend_env "SocketOpsImpl X" I X
  by unfold_locales (rule clock, rule poll)

section \<open>Frames on a byte stream\<close>

text \<open>A system with connected byte streams: \<open>out w fd\<close> are the bytes accepted for sending on \<open>fd\<close> so far, \<open>inp w fd\<close> the
  bytes that wait to be read. A call may accept or deliver fewer bytes than it was asked for.\<close>

locale byte_streams = posix_system X I for X :: "'w posix" and I +
  fixes out inp :: "'w \<Rightarrow> int \<Rightarrow> u8 list"
  assumes poll_keeps: "I w \<Longrightarrow> case px_poll X w fds ms of ((r, rv), w') \<Rightarrow> out w' = out w \<and> inp w' = inp w"
    and poll_ready: "I w \<Longrightarrow> inp w fd \<noteq> [] \<Longrightarrow> case px_poll X w [(fd, POLLIN)] ms of ((r, rv), w') \<Rightarrow> 0 < r"
    and send_bytes: "I w \<Longrightarrow> case px_send X w fd bytes of (r, w') \<Rightarrow> out w' fd = out w fd @ take (nat r) bytes"
    and recv_bytes: "I w \<Longrightarrow> 0 < n \<Longrightarrow> case px_recv X w fd n of ((r, bytes), w') \<Rightarrow> inp w' fd = drop (nat r) (inp w fd) \<and>
      (0 < r \<longrightarrow> bytes = take (nat r) (inp w fd)) \<and> (inp w fd \<noteq> [] \<longrightarrow> 0 < r)"
begin

lemma send_loop_appends:
  assumes "I w" and "sent \<le> len"
  shows "returns (send_all_loop X fd buf len ms sent w) (\<lambda>(ok, w'). I w' \<and>
    (\<exists>k. out w' fd = out w fd @ take k (drop (unat sent) (take (unat len) buf)) \<and> (ok \<longrightarrow> unat len - unat sent \<le> k)))"
  using assms
proof (induction "unat (len - sent)" arbitrary: sent w rule: less_induct)
  case less
  show ?case
  proof (cases "sent < len")
    case False
    with less.prems show ?thesis by (auto simp: send_all_loop.simps)
  next
    case True
    obtain pr rev w1 where p: "px_poll X w [(fd, POLLOUT)] (clamped_ms ms) = ((pr, rev), w1)" by (metis surj_pair)
    let ?rest = "drop (unat sent) (take (unat len) buf)"
    let ?bytes = "take (unat (len - sent)) (drop (unat sent) buf)"
    have rest: "?bytes = ?rest" using True by (simp add: unat_sub less_imp_le drop_take)
    obtain r w2 where s: "px_send X w1 fd ?bytes = (r, w2)" by (metis surj_pair)
    have w1: "I w1" "out w1 = out w" using poll [OF less.prems(1), where fds = "[(fd, POLLOUT)]" and ms = "clamped_ms ms"] p
      poll_keeps [OF less.prems(1), where fds = "[(fd, POLLOUT)]" and ms = "clamped_ms ms"] by simp_all
    have w2: "I w2" "r \<le> int (length ?bytes)" "out w2 fd = out w fd @ take (nat r) ?rest"
      using send [OF w1(1), where fd = fd and bytes = ?bytes] send_bytes [OF w1(1), where fd = fd and bytes = ?bytes] s w1(2)
      by (simp_all add: rest)
    have "length ?bytes \<le> unat (len - sent)" by simp
    with w2(2) have r: "r \<le> int (unat (len - sent))" by linarith
    show ?thesis
    proof (cases "pr \<le> 0 \<or> r \<le> 0")
      case True
      have "\<exists>k. out w1 fd = out w fd @ take k ?rest" using w1(2) by (intro exI [of _ 0]) simp
      moreover have "\<exists>k. out w2 fd = out w fd @ take k ?rest" using w2(3) by blast
      ultimately show ?thesis using True \<open>sent < len\<close> p s w1 w2
        by (auto simp: send_all_loop.simps [of X fd buf len ms sent w])
    next
      case False
      then have pos: "0 < r" by simp
      note adv = advance_counter [OF True pos r]
      from less.hyps [OF adv(3) w2(1) adv(1)] obtain ok w' k where
        l: "send_all_loop X fd buf len ms (sent + of_int r) w2 = Some (ok, w')" "I w'"
          "out w' fd = out w2 fd @ take k (drop (unat (sent + of_int r)) (take (unat len) buf))" "ok \<longrightarrow> unat len - unat (sent + of_int r) \<le> k"
        by (auto elim!: returnsE)
      have "out w' fd = out w fd @ take (nat r + k) ?rest"
        using l(3) w2(3) by (simp add: adv(2) take_add add.commute [of "unat sent"])
      moreover have "ok \<longrightarrow> unat len - unat sent \<le> nat r + k" using l(4) adv(2) by auto
      ultimately show ?thesis using l(1,2) p s False True by (auto simp: send_all_loop.simps [of X fd buf len ms sent w])
    qed
  qed
qed

lemma recv_loop_delivers:
  assumes "I w" and "received \<le> len" and "unat len \<le> length buf" and "inp w fd = bs @ rest" and "length bs = unat len - unat received"
  shows "returns (recv_exact_loop X fd len ms buf received w) (\<lambda>(ok, buf', w'). ok \<and> I w' \<and> buf' = blit buf (unat received) bs \<and>
    inp w' fd = rest)"
  using assms
proof (induction "unat (len - received)" arbitrary: received buf bs w rule: less_induct)
  case less
  show ?case
  proof (cases "received < len")
    case False
    with less.prems have "received = len" by simp
    with less.prems show ?thesis by (simp add: recv_exact_loop.simps)
  next
    case True
    obtain pr rev w1 where p: "px_poll X w [(fd, POLLIN)] (clamped_ms ms) = ((pr, rev), w1)" by (metis surj_pair)
    obtain r bytes w2 where s: "px_recv X w1 fd (unat (len - received)) = ((r, bytes), w2)" by (metis surj_pair)
    have n: "unat (len - received) = length bs" using True less.prems(5) by (simp add: unat_sub less_imp_le)
    have ne: "0 < length bs" "inp w fd \<noteq> []" using True less.prems(4,5) by (auto simp: word_less_nat_alt)
    have w1: "I w1" "inp w1 = inp w" "0 < pr"
      using poll [OF less.prems(1), where fds = "[(fd, POLLIN)]" and ms = "clamped_ms ms"] p
        poll_keeps [OF less.prems(1), where fds = "[(fd, POLLIN)]" and ms = "clamped_ms ms"]
        poll_ready [OF less.prems(1) ne(2), where ms = "clamped_ms ms"] by simp_all
    have w2: "I w2" "r \<le> int (unat (len - received))" "0 < r" "int (length bytes) = r" "bytes = take (nat r) (bs @ rest)"
        "inp w2 fd = drop (nat r) (bs @ rest)"
      using recv [OF w1(1), where fd = fd and n = "unat (len - received)"]
        recv_bytes [OF w1(1), where fd = fd and n = "unat (len - received)"] s w1(2) ne less.prems(4) n by auto
    note adv = advance_counter [OF True w2(3,2)]
    have le: "nat r \<le> length bs" using w2(2) n by simp
    have b: "bytes = take (nat r) bs" "inp w2 fd = drop (nat r) bs @ rest" using w2(5,6) le by simp_all
    have len': "length (drop (nat r) bs) = unat len - unat (received + of_int r)" using less.prems(5) adv(2) by simp
    have fits: "unat received + length bs \<le> length buf" using less.prems(3,5) True by (simp add: word_less_nat_alt)
    have blits: "blit (blit buf (unat received) (take (nat r) bs)) (unat received + nat r) (drop (nat r) bs) = blit buf (unat received) bs"
      using fits le by (simp add: blit_def min_absorb1 min_absorb2 add.commute)
    have "unat len \<le> length (blit buf (unat received) bytes)" using less.prems(3) fits le by (simp add: b)
    from less.hyps [OF adv(3) w2(1) adv(1) this b(2) len'] p s w1(3) w2(3) True show ?thesis
      by (simp add: recv_exact_loop.simps [of X fd len ms buf received w] adv(2) b(1) blits)
  qed
qed

lemma send_all_appends:
  assumes "I w" and "fd \<ge> 0" and "len > 0"
  shows "returns (socket_send_all X w fd buf len ms) (\<lambda>(ok, w'). I w' \<and>
    (\<exists>k. out w' fd = out w fd @ take k (take (unat len) buf) \<and> (ok \<longrightarrow> unat len \<le> k)))"
  using send_loop_appends [OF assms(1), of 0 len fd buf ms] assms(2,3) by (simp add: socket_send_all_def)

lemma recv_exact_delivers:
  assumes "I w" and "fd \<ge> 0" and "len > 0" and "unat len \<le> length buf" and "inp w fd = bs @ rest" and "length bs = unat len"
  shows "returns (socket_recv_exact X w fd buf len ms) (\<lambda>(ok, buf', w'). ok \<and> I w' \<and> buf' = blit buf 0 bs \<and> inp w' fd = rest)"
  using recv_loop_delivers [OF assms(1), of 0 len buf fd bs rest ms] assms(2-6) by (simp add: socket_recv_exact_def)

lemma send_frame_appends:
  assumes "I w" and "fd \<ge> 0"
  shows "returns (tcp_send_frame X w fd buf len ms) (\<lambda>(ok, w'). I w' \<and>
    (\<exists>k. out w' fd = out w fd @ take k (frame_bytes buf len) \<and> (ok \<longrightarrow> take k (frame_bytes buf len) = frame_bytes buf len)))"
proof -
  have h: "length (length_header len) = 4" by (simp add: length_header_def)
  from send_all_appends [OF assms, of 4 "length_header len" ms] obtain ok w1 k where
    w1: "socket_send_all X w fd (length_header len) 4 ms = Some (ok, w1)" "I w1" "out w1 fd = out w fd @ take k (length_header len)"
      "ok \<longrightarrow> 4 \<le> k"
    using h by (auto elim!: returnsE)
  show ?thesis
  proof (cases ok)
    case False
    have "take k (length_header len) = take (min k 4) (frame_bytes buf len)" using h by (simp add: frame_bytes_def min_def)
    with w1 False assms(2) show ?thesis by (auto simp: tcp_send_frame_def)
  next
    case True
    then have o1: "out w1 fd = out w fd @ length_header len" using w1(3,4) h by simp
    have more: "length_header len @ take j (take (unat len) buf) = take (4 + j) (frame_bytes buf len)" for j
      using h by (simp add: frame_bytes_def)
    show ?thesis
    proof (cases "len = 0")
      case True
      then have "frame_bytes buf len = length_header len" by (simp add: frame_bytes_def)
      with True o1 w1(1,2) \<open>ok\<close> assms(2) h show ?thesis by (auto simp: tcp_send_frame_def intro!: exI [of _ 4])
    next
      case False
      then have pos: "len > 0" by (simp add: word_gt_0)
      from send_all_appends [OF w1(2) assms(2) pos, of buf ms] obtain ok' w2 j where
        w2: "socket_send_all X w1 fd buf len ms = Some (ok', w2)" "I w2" "out w2 fd = out w1 fd @ take j (take (unat len) buf)"
          "ok' \<longrightarrow> unat len \<le> j"
        by (auto elim!: returnsE)
      have "out w2 fd = out w fd @ take (4 + j) (frame_bytes buf len)" using w2(3) o1 more by simp
      moreover have "ok' \<longrightarrow> take (4 + j) (frame_bytes buf len) = frame_bytes buf len" using w2(4) h by (simp add: frame_bytes_def)
      ultimately show ?thesis using w1(1) w2(1,2) \<open>ok\<close> pos assms(2) by (auto simp: tcp_send_frame_def)
    qed
  qed
qed

lemma recv_frame_delivers:
  assumes "I w" and "fd \<ge> 0" and "inp w fd = frame_bytes data len @ rest" and "unat len \<le> length data"
    and "WIRE_HEADER_SIZE \<le> len" and "len \<le> k_max_safe_frame" and "len \<le> cap" and "unat cap \<le> length buf"
  shows "returns (tcp_recv_frame X w fd buf cap ms n) (\<lambda>(ok, buf', n', w'). ok \<and> n' = len \<and> I w' \<and>
    take (unat len) buf' = take (unat len) data \<and> inp w' fd = rest)"
proof -
  have h: "length (length_header len) = 4" by (simp add: length_header_def)
  have pos: "len > 0" "cap > 0" using assms(5,7) by (auto simp: word_less_nat_alt word_le_nat_alt)
  have in1: "inp w fd = length_header len @ (take (unat len) data @ rest)" using assms(3) by (simp add: frame_bytes_def)
  have parse: "parse_length (length_header len) = len"
    using join32 [of len] byte_mask [where 'a = 32] by (simp add: parse_length_def length_header_def)
  from recv_exact_delivers [OF assms(1,2) _ _ in1, of 4 "[0, 0, 0, 0]" ms] h obtain w1 where
    w1: "socket_recv_exact X w fd [0, 0, 0, 0] 4 ms = Some (True, length_header len, w1)" "I w1" "inp w1 fd = take (unat len) data @ rest"
    by (auto elim!: returnsE simp: blit_def)
  from assms(7,8) have fits: "unat len \<le> length buf" by (simp add: word_le_nat_alt)
  from recv_exact_delivers [OF w1(2) assms(2) pos(1) fits w1(3), of ms] assms(4) obtain w2 where
    w2: "socket_recv_exact X w1 fd buf len ms = Some (True, blit buf 0 (take (unat len) data), w2)" "I w2" "inp w2 fd = rest"
    by (auto elim!: returnsE)
  have "take (unat len) (blit buf 0 (take (unat len) data)) = take (unat len) data"
    using assms(4) by (simp add: blit_def)
  with w1 w2 parse assms(2,5,6,7) pos show ?thesis by (simp add: tcp_recv_frame_def Let_def not_less [symmetric])
qed

end

interpretation loopback: byte_streams posix_loopback "\<lambda>w. True" "\<lambda>w fd. fst w" "\<lambda>w fd. snd w"
  by unfold_locales (auto simp: posix_loopback_def clock_ok_def min_def split: prod.splits if_splits)

section \<open>Properties\<close>

text \<open>Claim C15. Frames survive the byte stream. Whatever pieces the system accepts and delivers, a successful \<open>tcp_send_frame\<close>
  appends exactly the length prefix and the bytes of the frame to the stream, a failed one a prefix of them, and
  \<open>tcp_recv_frame\<close> on a stream that begins with these bytes returns the frame and leaves the rest.\<close>

theorem frame_roundtrip:
  assumes "byte_streams X I out inp" and "I w" and "fd \<ge> 0" and "unat len \<le> length buf"
    and "WIRE_HEADER_SIZE \<le> len" and "len \<le> k_max_safe_frame" and "len \<le> cap" and "unat cap \<le> length rbuf"
  shows "returns (tcp_send_frame X w fd buf len ms) (\<lambda>(ok, w'). I w' \<and> (\<exists>k. out w' fd = out w fd @ take k (frame_bytes buf len)) \<and>
      (ok \<longrightarrow> out w' fd = out w fd @ frame_bytes buf len)) \<and>
    (\<forall>w2 fd2 rest. I w2 \<and> fd2 \<ge> 0 \<and> inp w2 fd2 = frame_bytes buf len @ rest \<longrightarrow>
      returns (tcp_recv_frame X w2 fd2 rbuf cap ms n) (\<lambda>(ok, rbuf', n', w'). ok \<and> n' = len \<and>
        take (unat n') rbuf' = take (unat len) buf \<and> inp w' fd2 = rest))"
proof -
  have "returns (tcp_send_frame X w fd buf len ms) (\<lambda>(ok, w'). I w' \<and> (\<exists>k. out w' fd = out w fd @ take k (frame_bytes buf len)) \<and>
      (ok \<longrightarrow> out w' fd = out w fd @ frame_bytes buf len))"
    by (rule returns_mono [OF byte_streams.send_frame_appends [OF assms(1-3)]]) auto
  moreover have "returns (tcp_recv_frame X w2 fd2 rbuf cap ms n) (\<lambda>(ok, rbuf', n', w'). ok \<and> n' = len \<and>
      take (unat n') rbuf' = take (unat len) buf \<and> inp w' fd2 = rest)"
    if "I w2" "fd2 \<ge> 0" "inp w2 fd2 = frame_bytes buf len @ rest" for w2 fd2 rest
    by (rule returns_mono [OF byte_streams.recv_frame_delivers [OF assms(1) that assms(4-8)]]) auto
  ultimately show ?thesis by blast
qed

theorem frame_roundtrip_witness:
  "returns (tcp_recv_frame posix_loopback ([], frame_bytes (replicate 60 7) 60 @ [1, 2]) 5 (replicate 100 0) 100 10 0)
     (\<lambda>(ok, rbuf, n, w). ok \<and> n = 60 \<and> take 60 rbuf = replicate 60 7 \<and> snd w = [1, 2])"
proof -
  have "returns (tcp_recv_frame posix_loopback ([], frame_bytes (replicate 60 7) 60 @ [1, 2]) 5 (replicate 100 0) 100 10 0)
     (\<lambda>(ok, rbuf, n, w). ok \<and> n = 60 \<and> take (unat n) rbuf = take (unat (60 :: u32)) (replicate 60 7) \<and> snd w = [1, 2])"
    using frame_roundtrip [OF loopback.byte_streams_axioms, where w = "([], [])" and fd = 5 and len = 60 and buf = "replicate 60 7"
        and cap = 100 and rbuf = "replicate 100 0" and ms = 10 and n = 0]
    by simp
  then show ?thesis by (rule returns_mono) auto
qed

text \<open>Claim C16. The send loop ends. For every system that never accepts more bytes than it was offered, \<open>socket_send_all\<close> returns
  after finitely many rounds and keeps the state of the system valid; so do the receive loop and both frame functions.\<close>

theorem socket_loops_terminate:
  assumes "posix_system X I" and "I w" and "fd \<ge> 0" and "len > 0" and "unat len \<le> length buf"
  shows "returns (socket_send_all X w fd buf len ms) (\<lambda>(ok, w'). I w') \<and>
    returns (socket_recv_exact X w fd buf len ms) (\<lambda>(ok, buf', w'). I w' \<and> length buf' = length buf) \<and>
    returns (tcp_send_frame X w fd buf len ms) (\<lambda>(ok, w'). I w') \<and>
    returns (tcp_recv_frame X w fd buf len ms n) (\<lambda>(ok, buf', n', w'). I w' \<and> length buf' = length buf \<and> (ok \<longrightarrow> n' \<le> len))"
  using posix_system.send_all_returns [OF assms(1-4)] posix_system.recv_exact_returns [OF assms]
    posix_system.send_frame_returns [OF assms(1-3)] posix_system.recv_frame_returns [OF assms] by simp

theorem socket_loops_terminate_witness:
  "returns (socket_send_all posix_loopback ([], []) 5 (replicate 60 7) 60 10) (\<lambda>(ok, w). True)"
  using socket_loops_terminate [OF loopback.posix_system_axioms, where w = "([], [])" and fd = 5 and len = 60
      and buf = "replicate 60 7" and ms = 10] by simp

end
