(* ===== verification/BackendContract.thy ===== *)
theory BackendContract
  imports DeliveryEngine ImpairedLink Sockets
begin

text \<open>
  What the network backends have in common: the messages they hand to the engine, the contract of a transport over a network
  that may deliver anything, and the lemmas on the wire buffer. The contract \<open>transport_keeps\<close> is the one of \<open>transport_ok\<close>
  without the condition that received acknowledgements are addressed to a node, which a backend does not check.
\<close>

definition MAX_TCP_CONNECTIONS :: nat where [simp]: "MAX_TCP_CONNECTIONS = 8"
definition SOCKET_RECV_BUF_BYTES :: u32 where [simp]: "SOCKET_RECV_BUF_BYTES = 8192"
definition DTLS_MAX_DATAGRAM_BYTES :: u32 where [simp]: "DTLS_MAX_DATAGRAM_BYTES = 1400"

text \<open>How often \<open>receive_message\<close> polls.\<close>

definition poll_count :: "u32 \<Rightarrow> u32" where
  "poll_count timeout_ms = (let c = (timeout_ms + 99) div 100 in if c > 50 then 50 else c)"

text \<open>A message the backend hands to the engine.\<close>

definition inbound_ok :: "envelope \<Rightarrow> bool" where
  "inbound_ok m \<longleftrightarrow> msg_ok m \<and> message_type m \<noteq> HELLO"

definition transport_keeps :: "'t transport \<Rightarrow> ('t \<Rightarrow> bool) \<Rightarrow> bool" where
  "transport_keeps T J \<longleftrightarrow>
     (\<forall>t n. J t \<and> n \<noteq> NODE_ID_INVALID \<longrightarrow> returns (tr_register_local_id T t n) (\<lambda>(r, t'). J t')) \<and>
     (\<forall>t. J t \<longrightarrow> returns (tr_pop_hello_peer T t) (\<lambda>(n, t'). J t')) \<and>
     (\<forall>t env. J t \<and> msg_ok env \<longrightarrow> returns (tr_send_message T t env) (\<lambda>(r, t'). J t' \<and> r \<in> {OK, ERR_IO, ERR_INVALID, ERR_FULL})) \<and>
     (\<forall>t env ms. J t \<longrightarrow> returns (tr_receive_message T t env ms) (\<lambda>(r, env', t'). J t' \<and>
        (r = OK \<and> inbound_ok env' \<or> r = ERR_TIMEOUT \<and> env' = env)))"

lemma first_idx_append: "first_idx P xs = Some i \<Longrightarrow> first_idx P (xs @ ys) = Some i"
  by (induction xs arbitrary: i) (auto split: if_splits)

text \<open>Sending: the wire buffer is large enough for every valid message.\<close>

lemma poll_count_le: "poll_count ms \<le> 50"
  by (simp add: poll_count_def Let_def not_less)

lemma serialize_fits:
  assumes "length buf = 8192" and "msg_ok env"
  obtains buf' where "serialize env buf 8192 n = Some (OK, buf', 52 + payload_length env)" "length buf' = 8192"
    "0 < 52 + payload_length env" "unat (52 + payload_length env) \<le> 8192"
proof -
  have wf: "env_wf env" "envelope_valid env" using assms(2) by (simp_all add: msg_ok_def)
  have pl: "unat (payload_length env) \<le> 4096" using wf(2) by (simp add: envelope_valid_def word_le_nat_alt)
  have len: "length (header_bytes env @ payload_bytes env) = 52 + unat (payload_length env)"
    using wf by (simp add: length_payload_bytes envelope_valid_def)
  have u: "unat (52 + payload_length env) = 52 + unat (payload_length env)"
    using required_len(1) [of "payload_length env"] wf(2) by (simp add: envelope_valid_def)
  have "52 + unat (payload_length env) \<le> unat (8192 :: u32)" "unat (8192 :: u32) \<le> length buf" using pl assms(1) by simp_all
  from that [OF serialize_writes [OF wf this]] assms(1) len u pl show ?thesis by (simp add: word_less_nat_alt)
qed

lemma hello_msg_ok: "n \<noteq> 0 \<Longrightarrow> msg_ok (envelope_init\<lparr> message_type := HELLO, source_id := n, destination_id := 0, payload_length := 0 \<rparr>)"
  by (simp add: msg_ok_def env_wf_def envelope_valid_def envelope_init_def envelope_zero_def)

context posix_system
begin

lemma env_axioms: "backend_env (SocketOpsImpl X) I X"
  by (rule env.backend_env_axioms)

end

end
