(* ===== verification/TcpBackend.thy ===== *)
theory TcpBackend
  imports BackendContract
begin

text \<open>
  \<open>src/platform/TcpBackend.cpp\<close>: the transport over TCP. A server keeps a compact table of up to eight clients in four parallel
  arrays (descriptor, node identifier, whether it said HELLO, when it was accepted); a client uses the first slot for its server.
  The operations are defined over a socket layer \<open>S\<close> and, for \<open>poll\<close> and the clock, over the system \<open>X\<close>; the state of the
  system is passed along. The count of clients and the indices of the HELLO queue, which stay below the capacity, are natural
  numbers. This theory holds the definitions; \<open>TcpBackendCorrect\<close> the invariant and the properties.
\<close>

record tcp_backend =
  tb_listen_fd :: int
  tb_client_fds :: "int list"
  tb_client_count :: nat
  tb_wire_buf :: "u8 list"
  tb_cfg :: transport_config
  tb_impairment :: impairment_engine
  tb_recv_queue :: ring_buffer
  tb_open :: bool
  tb_is_server :: bool
  tb_connections_opened :: u32
  tb_connections_closed :: u32
  tb_client_node_ids :: "NodeId list"
  tb_local_node_id :: NodeId
  tb_client_hello_received :: "bool list"
  tb_client_accept_ts :: "u64 list"
  tb_delay_buf :: "envelope list"
  tb_hello_queue :: "NodeId list"
  tb_hello_queue_read :: nat
  tb_hello_queue_write :: nat

abbreviation tb_channel :: "tcp_backend \<Rightarrow> channel_config" where
  "tb_channel b \<equiv> tcf_channels (tb_cfg b) ! 0"

section \<open>Opening\<close>

definition TcpBackend_bind_and_listen :: "'w socket_ops \<Rightarrow> tcp_backend \<Rightarrow> 'w \<Rightarrow> string \<Rightarrow> u16 \<Rightarrow> (Result \<times> tcp_backend \<times> 'w) option" where
  "TcpBackend_bind_and_listen S b w ip port = do {
     nc_assert (tb_is_server b);
     (fd, w) \<leftarrow> so_create_tcp S w (socket_is_ipv6 ip);
     let b = b\<lparr> tb_listen_fd := fd \<rparr>;
     if fd < 0 then Some (ERR_IO, b, w)
     else do {
       (ok, w) \<leftarrow> so_set_reuseaddr S w fd;
       if \<not> ok then do { w \<leftarrow> so_do_close S w fd; Some (ERR_IO, b\<lparr> tb_listen_fd := - 1 \<rparr>, w) }
       else do {
         (ok, w) \<leftarrow> so_do_bind S w fd ip port;
         if \<not> ok then do { w \<leftarrow> so_do_close S w fd; Some (ERR_IO, b\<lparr> tb_listen_fd := - 1 \<rparr>, w) }
         else do {
           (ok, w) \<leftarrow> so_do_listen S w fd (int MAX_TCP_CONNECTIONS);
           if \<not> ok then do { w \<leftarrow> so_do_close S w fd; Some (ERR_IO, b\<lparr> tb_listen_fd := - 1 \<rparr>, w) }
           else do {
             (ok, w) \<leftarrow> so_set_nonblocking S w fd;
             if \<not> ok then do { w \<leftarrow> so_do_close S w fd; Some (ERR_IO, b\<lparr> tb_listen_fd := - 1 \<rparr>, w) }
             else do {
               let b = b\<lparr> tb_open := True \<rparr>;
               nc_assert (tb_listen_fd b \<ge> 0);
               Some (OK, b, w)
             }
           }
         }
       }
     }
   }"

definition TcpBackend_connect_to_server :: "'w socket_ops \<Rightarrow> tcp_backend \<Rightarrow> 'w \<Rightarrow> (Result \<times> tcp_backend \<times> 'w) option" where
  "TcpBackend_connect_to_server S b w = do {
     nc_assert (\<not> tb_is_server b);
     nc_assert (tb_client_fds b ! 0 = - 1);
     (fd, w) \<leftarrow> so_create_tcp S w (socket_is_ipv6 (tcf_peer_ip (tb_cfg b)));
     if fd < 0 then Some (ERR_IO, b, w)
     else do {
       (ok, w) \<leftarrow> so_set_reuseaddr S w fd;
       if \<not> ok then do { w \<leftarrow> so_do_close S w fd; Some (ERR_IO, b, w) }
       else do {
         (ok, w) \<leftarrow> so_connect_with_timeout S w fd (tcf_peer_ip (tb_cfg b)) (tcf_peer_port (tb_cfg b)) (tcf_connect_timeout_ms (tb_cfg b));
         if \<not> ok then do { w \<leftarrow> so_do_close S w fd; Some (ERR_IO, b, w) }
         else do {
           let b = b\<lparr> tb_client_fds := (tb_client_fds b)[0 := fd], tb_client_count := 1, tb_open := True,
             tb_connections_opened := tb_connections_opened b + 1 \<rparr>;
           nc_assert (tb_client_fds b ! 0 \<ge> 0);
           nc_assert (tb_client_count b = 1);
           Some (OK, b, w)
         }
       }
     }
   }"

definition TcpBackend_init :: "'w socket_ops \<Rightarrow> tcp_backend \<Rightarrow> 'w \<Rightarrow> transport_config \<Rightarrow> u64 \<Rightarrow> (Result \<times> tcp_backend \<times> 'w) option" where
  "TcpBackend_init S b w config entropy = do {
     nc_assert (tcf_kind config = TCP);
     nc_assert (\<not> tb_open b);
     if \<not> transport_config_valid config then Some (ERR_INVALID, b, w)
     else do {
       let b = b\<lparr> tb_cfg := config, tb_is_server := tcf_is_server config \<rparr>;
       q \<leftarrow> RingBuffer_init (tb_recv_queue b);
       imp \<leftarrow> ImpairmentEngine_init (tb_impairment b) (first_impairment config) entropy;
       let b = b\<lparr> tb_recv_queue := q, tb_impairment := imp, tb_local_node_id := NODE_ID_INVALID,
         tb_client_node_ids := replicate MAX_TCP_CONNECTIONS NODE_ID_INVALID,
         tb_client_hello_received := replicate MAX_TCP_CONNECTIONS False,
         tb_client_accept_ts := replicate MAX_TCP_CONNECTIONS 0 \<rparr>;
       (res, b, w) \<leftarrow> (if tb_is_server b then TcpBackend_bind_and_listen S b w (tcf_bind_ip config) (tcf_bind_port config)
                      else TcpBackend_connect_to_server S b w);
       if res \<noteq> OK then Some (res, b, w)
       else do {
         nc_assert (tb_open b);
         Some (OK, b, w)
       }
     }
   }"

section \<open>The client table\<close>

definition TcpBackend_accept_clients :: "'w socket_ops \<Rightarrow> 'w posix \<Rightarrow> tcp_backend \<Rightarrow> 'w \<Rightarrow> (Result \<times> tcp_backend \<times> 'w) option" where
  "TcpBackend_accept_clients S X b w = do {
     nc_assert (tb_is_server b);
     nc_assert (tb_listen_fd b \<ge> 0);
     if tb_client_count b \<ge> MAX_TCP_CONNECTIONS then Some (OK, b, w)
     else do {
       (client_fd, w) \<leftarrow> so_do_accept S w (tb_listen_fd b);
       if client_fd < 0 then Some (OK, b, w)
       else do {
         nc_assert (tb_client_count b < MAX_TCP_CONNECTIONS);
         (now_us, w) \<leftarrow> read_clock X w;
         let b = b\<lparr> tb_client_fds := (tb_client_fds b)[tb_client_count b := client_fd],
           tb_client_hello_received := (tb_client_hello_received b)[tb_client_count b := False],
           tb_client_accept_ts := (tb_client_accept_ts b)[tb_client_count b := now_us],
           tb_client_count := tb_client_count b + 1, tb_connections_opened := tb_connections_opened b + 1 \<rparr>;
         nc_assert (tb_client_count b \<le> MAX_TCP_CONNECTIONS);
         Some (OK, b, w)
       }
     }
   }"

text \<open>The loop that closes the gap in one of the parallel arrays, and the store of the free value behind the last client.\<close>

definition close_gap :: "nat \<Rightarrow> nat \<Rightarrow> 'a \<Rightarrow> 'a list \<Rightarrow> 'a list" where
  "close_gap i n free xs = (shift_left [i..<n - 1] xs)[n - 1 := free]"

definition TcpBackend_remove_client_fd :: "'w socket_ops \<Rightarrow> tcp_backend \<Rightarrow> 'w \<Rightarrow> int \<Rightarrow> (tcp_backend \<times> 'w) option" where
  "TcpBackend_remove_client_fd S b w client_fd = do {
     nc_assert (client_fd \<ge> 0);
     nc_assert (tb_client_count b > 0);
     case first_idx (\<lambda>fd. fd = client_fd) (tb_client_fds b) of
       None \<Rightarrow> Some (b, w)
     | Some i \<Rightarrow> do {
         w \<leftarrow> so_do_close S w (tb_client_fds b ! i);
         let n = tb_client_count b;
         let b = b\<lparr> tb_client_fds := close_gap i n (- 1) ((tb_client_fds b)[i := - 1]),
           tb_client_node_ids := close_gap i n NODE_ID_INVALID (tb_client_node_ids b),
           tb_client_hello_received := close_gap i n False (tb_client_hello_received b),
           tb_client_accept_ts := close_gap i n 0 (tb_client_accept_ts b),
           tb_client_count := n - 1, tb_connections_closed := tb_connections_closed b + 1 \<rparr>;
         nc_assert (tb_client_count b < MAX_TCP_CONNECTIONS);
         Some (b, w)
       }
   }"

definition TcpBackend_close_and_evict_slot :: "'w socket_ops \<Rightarrow> tcp_backend \<Rightarrow> 'w \<Rightarrow> int \<Rightarrow> (tcp_backend \<times> 'w) option" where
  "TcpBackend_close_and_evict_slot S b w client_fd = do {
     nc_assert (client_fd \<ge> 0);
     nc_assert (tb_client_count b \<le> MAX_TCP_CONNECTIONS);
     (b, w) \<leftarrow> TcpBackend_remove_client_fd S b w client_fd;
     nc_assert (tb_client_count b \<le> MAX_TCP_CONNECTIONS);
     Some (b, w)
   }"

text \<open>The slot of a descriptor or of a node among the live clients.\<close>

definition slot_of_fd :: "tcp_backend \<Rightarrow> int \<Rightarrow> nat option" where
  "slot_of_fd b client_fd = first_idx (\<lambda>fd. fd = client_fd) (take (tb_client_count b) (tb_client_fds b))"

definition TcpBackend_find_client_slot :: "tcp_backend \<Rightarrow> NodeId \<Rightarrow> nat option" where
  "TcpBackend_find_client_slot b dst = do {
     nc_assert (dst \<noteq> NODE_ID_INVALID);
     nc_assert (tb_client_count b \<le> MAX_TCP_CONNECTIONS);
     Some (case first_idx (\<lambda>n. n = dst) (take (tb_client_count b) (tb_client_node_ids b)) of Some i \<Rightarrow> i | None \<Rightarrow> MAX_TCP_CONNECTIONS)
   }"

text \<open>The sweep: the index stays where it is when the slot was removed.\<close>

partial_function (option) sweep_hello_loop ::
    "'w socket_ops \<Rightarrow> u64 \<Rightarrow> u64 \<Rightarrow> nat \<Rightarrow> tcp_backend \<Rightarrow> 'w \<Rightarrow> (tcp_backend \<times> 'w) option" where
  "sweep_hello_loop S now_us timeout_us i b w =
     (if i < tb_client_count b
      then if \<not> tb_client_hello_received b ! i \<and> tb_client_accept_ts b ! i \<noteq> 0 \<and> now_us - tb_client_accept_ts b ! i > timeout_us
        then TcpBackend_close_and_evict_slot S b w (tb_client_fds b ! i) \<bind> (\<lambda>(b, w). sweep_hello_loop S now_us timeout_us i b w)
        else sweep_hello_loop S now_us timeout_us (i + 1) b w
      else Some (b, w))"

definition TcpBackend_sweep_hello_timeouts :: "'w socket_ops \<Rightarrow> 'w posix \<Rightarrow> tcp_backend \<Rightarrow> 'w \<Rightarrow> (tcp_backend \<times> 'w) option" where
  "TcpBackend_sweep_hello_timeouts S X b w = do {
     nc_assert (tb_is_server b);
     nc_assert (tb_client_count b \<le> MAX_TCP_CONNECTIONS);
     (now_us, w) \<leftarrow> read_clock X w;
     let timeout_us = ucast (cc_recv_timeout_ms (tb_channel b)) * 1000;
     sweep_hello_loop S now_us timeout_us 0 b w
   }"

section \<open>HELLO frames\<close>

definition enqueue_hello :: "tcp_backend \<Rightarrow> NodeId \<Rightarrow> tcp_backend" where
  "enqueue_hello b src_id = (let next_write = (tb_hello_queue_write b + 1) mod MAX_TCP_CONNECTIONS
     in if next_write \<noteq> tb_hello_queue_read b
        then b\<lparr> tb_hello_queue := (tb_hello_queue b)[tb_hello_queue_write b := src_id], tb_hello_queue_write := next_write \<rparr>
        else b)"

definition TcpBackend_handle_hello_frame :: "'w socket_ops \<Rightarrow> tcp_backend \<Rightarrow> 'w \<Rightarrow> int \<Rightarrow> NodeId \<Rightarrow> (tcp_backend \<times> 'w) option" where
  "TcpBackend_handle_hello_frame S b w client_fd src_id = do {
     nc_assert (client_fd \<ge> 0);
     nc_assert (src_id \<noteq> NODE_ID_INVALID);
     if list_ex (\<lambda>j. tb_client_node_ids b ! j = src_id \<and> tb_client_fds b ! j \<noteq> client_fd) [0..<tb_client_count b]
     then TcpBackend_close_and_evict_slot S b w client_fd
     else case slot_of_fd b client_fd of
       Some i \<Rightarrow> Some (enqueue_hello (b\<lparr> tb_client_node_ids := (tb_client_node_ids b)[i := src_id] \<rparr>) src_id, w)
     | None \<Rightarrow> Some (b, w)
   }"

definition TcpBackend_process_hello_frame ::
    "'w socket_ops \<Rightarrow> tcp_backend \<Rightarrow> 'w \<Rightarrow> int \<Rightarrow> NodeId \<Rightarrow> (Result \<times> tcp_backend \<times> 'w) option" where
  "TcpBackend_process_hello_frame S b w client_fd src_id = do {
     nc_assert (client_fd \<ge> 0);
     nc_assert (src_id \<noteq> NODE_ID_INVALID);
     case slot_of_fd b client_fd of
       None \<Rightarrow> Some (ERR_AGAIN, b, w)
     | Some slot_idx \<Rightarrow>
         if tb_client_hello_received b ! slot_idx then do {
           (b, w) \<leftarrow> TcpBackend_close_and_evict_slot S b w client_fd;
           Some (ERR_INVALID, b, w)
         }
         else do {
           (b, w) \<leftarrow> TcpBackend_handle_hello_frame S b w client_fd src_id;
           let b = b\<lparr> tb_client_hello_received := (tb_client_hello_received b)[slot_idx := True] \<rparr>;
           nc_assert (tb_client_hello_received b ! slot_idx);
           Some (ERR_AGAIN, b, w)
         }
   }"

definition TcpBackend_pop_hello_peer :: "tcp_backend \<Rightarrow> (NodeId \<times> tcp_backend) option" where
  "TcpBackend_pop_hello_peer b = do {
     nc_assert (tb_hello_queue_read b < MAX_TCP_CONNECTIONS);
     nc_assert (tb_hello_queue_write b < MAX_TCP_CONNECTIONS);
     if tb_hello_queue_read b = tb_hello_queue_write b then Some (NODE_ID_INVALID, b)
     else Some (tb_hello_queue b ! tb_hello_queue_read b,
       b\<lparr> tb_hello_queue_read := (tb_hello_queue_read b + 1) mod MAX_TCP_CONNECTIONS \<rparr>)
   }"

definition TcpBackend_is_unregistered_slot :: "tcp_backend \<Rightarrow> int \<Rightarrow> bool option" where
  "TcpBackend_is_unregistered_slot b client_fd = do {
     nc_assert (client_fd \<ge> 0);
     nc_assert (tb_client_count b \<le> MAX_TCP_CONNECTIONS);
     Some (case slot_of_fd b client_fd of Some s \<Rightarrow> tb_client_node_ids b ! s = NODE_ID_INVALID | None \<Rightarrow> False)
   }"

definition TcpBackend_validate_source_id :: "tcp_backend \<Rightarrow> int \<Rightarrow> NodeId \<Rightarrow> bool option" where
  "TcpBackend_validate_source_id b client_fd claimed_id = do {
     nc_assert (client_fd \<ge> 0);
     nc_assert (tb_client_count b \<le> MAX_TCP_CONNECTIONS);
     case slot_of_fd b client_fd of
       None \<Rightarrow> Some (\<not> tb_is_server b)
     | Some i \<Rightarrow> let registered = tb_client_node_ids b ! i in
         if registered = NODE_ID_INVALID then do { nc_assert (\<not> tb_is_server b); Some True }
         else if claimed_id \<noteq> registered then Some False
         else do { nc_assert (claimed_id = registered); Some True }
   }"

section \<open>Sending\<close>

definition TcpBackend_send_hello_frame :: "'w socket_ops \<Rightarrow> tcp_backend \<Rightarrow> 'w \<Rightarrow> (Result \<times> tcp_backend \<times> 'w) option" where
  "TcpBackend_send_hello_frame S b w = do {
     nc_assert (tb_local_node_id b \<noteq> NODE_ID_INVALID);
     nc_assert (\<not> tb_is_server b);
     let hello = envelope_init\<lparr> message_type := HELLO, source_id := tb_local_node_id b, destination_id := NODE_ID_INVALID,
       payload_length := 0 \<rparr>;
     (ser_r, buf, wire_len) \<leftarrow> serialize hello (tb_wire_buf b) SOCKET_RECV_BUF_BYTES 0;
     let b = b\<lparr> tb_wire_buf := buf \<rparr>;
     if ser_r \<noteq> OK then Some (ser_r, b, w)
     else if tb_client_fds b ! 0 < 0 then Some (ERR_IO, b, w)
     else do {
       (sent_ok, w) \<leftarrow> so_send_frame S w (tb_client_fds b ! 0) (tb_wire_buf b) wire_len (cc_send_timeout_ms (tb_channel b));
       Some (if sent_ok then OK else ERR_IO, b, w)
     }
   }"

definition TcpBackend_register_local_id :: "'w socket_ops \<Rightarrow> tcp_backend \<Rightarrow> 'w \<Rightarrow> NodeId \<Rightarrow> (Result \<times> tcp_backend \<times> 'w) option" where
  "TcpBackend_register_local_id S b w n = do {
     nc_assert (n \<noteq> NODE_ID_INVALID);
     nc_assert (tb_open b);
     let b = b\<lparr> tb_local_node_id := n \<rparr>;
     if \<not> tb_is_server b then TcpBackend_send_hello_frame S b w else Some (OK, b, w)
   }"

definition send_to_client :: "'w socket_ops \<Rightarrow> tcp_backend \<Rightarrow> u8 list \<Rightarrow> u32 \<Rightarrow> int \<Rightarrow> bool \<times> 'w \<Rightarrow> (bool \<times> 'w) option" where
  "send_to_client S b buf len fd = (\<lambda>(any_failed, w).
     if fd < 0 then Some (any_failed, w)
     else do {
       (ok, w) \<leftarrow> so_send_frame S w fd buf len (cc_send_timeout_ms (tb_channel b));
       Some (if \<not> ok then True else any_failed, w)
     })"

definition TcpBackend_send_to_all_clients :: "'w socket_ops \<Rightarrow> tcp_backend \<Rightarrow> 'w \<Rightarrow> u8 list \<Rightarrow> u32 \<Rightarrow> (bool \<times> 'w) option" where
  "TcpBackend_send_to_all_clients S b w buf len = do {
     nc_assert (len > 0);
     for_each (send_to_client S b buf len) (tb_client_fds b) (False, w)
   }"

definition TcpBackend_send_to_slot :: "'w socket_ops \<Rightarrow> tcp_backend \<Rightarrow> 'w \<Rightarrow> nat \<Rightarrow> u8 list \<Rightarrow> u32 \<Rightarrow> (bool \<times> 'w) option" where
  "TcpBackend_send_to_slot S b w slot buf len = do {
     nc_assert (slot < tb_client_count b);
     (ok, w) \<leftarrow> so_send_frame S w (tb_client_fds b ! slot) buf len (cc_send_timeout_ms (tb_channel b));
     Some (\<not> ok, w)
   }"

text \<open>The result, the out-parameter \<open>failed\<close> and the new states.\<close>

definition TcpBackend_send_one_delayed :: "'w socket_ops \<Rightarrow> tcp_backend \<Rightarrow> 'w \<Rightarrow> envelope \<Rightarrow> (Result \<times> bool \<times> tcp_backend \<times> 'w) option" where
  "TcpBackend_send_one_delayed S b w env = do {
     nc_assert (envelope_valid env);
     nc_assert (tb_client_count b \<le> MAX_TCP_CONNECTIONS);
     (ser_r, buf, wire_len) \<leftarrow> serialize env (tb_wire_buf b) SOCKET_RECV_BUF_BYTES 0;
     let b = b\<lparr> tb_wire_buf := buf \<rparr>;
     if ser_r \<noteq> OK then Some (OK, True, b, w)
     else do {
       let do_broadcast = (\<not> tb_is_server b \<or> destination_id env = NODE_ID_INVALID);
       if do_broadcast then do {
         (failed, w) \<leftarrow> TcpBackend_send_to_all_clients S b w (tb_wire_buf b) wire_len;
         Some (OK, failed, b, w)
       }
       else do {
         slot \<leftarrow> TcpBackend_find_client_slot b (destination_id env);
         if slot \<ge> MAX_TCP_CONNECTIONS then Some (ERR_INVALID, False, b, w)
         else do {
           (failed, w) \<leftarrow> TcpBackend_send_to_slot S b w slot (tb_wire_buf b) wire_len;
           Some (if failed then ERR_IO else OK, failed, b, w)
         }
       }
     }
   }"

definition TcpBackend_apply_send_result :: "Result \<Rightarrow> bool \<Rightarrow> bool \<Rightarrow> Result \<Rightarrow> Result option" where
  "TcpBackend_apply_send_result route_r failed is_current final_result = do {
     nc_assert (final_result = OK \<or> final_result = ERR_IO \<or> final_result = ERR_INVALID);
     nc_assert (route_r = OK \<or> route_r = ERR_IO \<or> route_r = ERR_INVALID);
     Some (if route_r \<noteq> OK \<and> is_current then route_r
           else if failed \<and> is_current then ERR_IO
           else final_result)
   }"

definition flush_client_msg :: "'w socket_ops \<Rightarrow> envelope \<Rightarrow> envelope \<Rightarrow> Result \<times> tcp_backend \<times> 'w \<Rightarrow> (Result \<times> tcp_backend \<times> 'w) option" where
  "flush_client_msg S current_env m = (\<lambda>(final_result, b, w). do {
     let is_current = (source_id m = source_id current_env \<and> message_id m = message_id current_env);
     (route_r, failed, b, w) \<leftarrow> TcpBackend_send_one_delayed S b w m;
     final_result \<leftarrow> TcpBackend_apply_send_result route_r failed is_current final_result;
     Some (final_result, b, w)
   })"

definition TcpBackend_flush_delayed_to_clients ::
    "'w socket_ops \<Rightarrow> tcp_backend \<Rightarrow> 'w \<Rightarrow> envelope \<Rightarrow> u64 \<Rightarrow> (Result \<times> tcp_backend \<times> 'w) option" where
  "TcpBackend_flush_delayed_to_clients S b w current_env now_us = do {
     nc_assert (now_us > 0);
     nc_assert (tb_open b);
     (n, buf, imp) \<leftarrow> ImpairmentEngine_collect_deliverable (tb_impairment b) now_us (tb_delay_buf b) IMPAIR_DELAY_BUF_SIZE;
     let b = b\<lparr> tb_impairment := imp, tb_delay_buf := buf \<rparr>;
     for_each (flush_client_msg S current_env) (take n buf) (OK, b, w)
   }"

definition TcpBackend_send_message :: "'w socket_ops \<Rightarrow> 'w posix \<Rightarrow> tcp_backend \<Rightarrow> 'w \<Rightarrow> envelope \<Rightarrow> (Result \<times> tcp_backend \<times> 'w) option" where
  "TcpBackend_send_message S X b w envelope = do {
     nc_assert (tb_open b);
     nc_assert (envelope_valid envelope);
     (res, buf, wire_len) \<leftarrow> serialize envelope (tb_wire_buf b) SOCKET_RECV_BUF_BYTES 0;
     let b = b\<lparr> tb_wire_buf := buf \<rparr>;
     if res \<noteq> OK then Some (res, b, w)
     else do {
       (now_us, w) \<leftarrow> read_clock X w;
       (res, imp) \<leftarrow> ImpairmentEngine_process_outbound (tb_impairment b) envelope now_us;
       let b = b\<lparr> tb_impairment := imp \<rparr>;
       if res = ERR_IO then Some (OK, b, w)
       else if res \<noteq> OK then Some (res, b, w)
       else if tb_client_count b = 0 then Some (OK, b, w)
       else do {
         (res, b, w) \<leftarrow> TcpBackend_flush_delayed_to_clients S b w envelope now_us;
         nc_assert (wire_len > 0);
         Some (res, b, w)
       }
     }
   }"

section \<open>Receiving\<close>

definition TcpBackend_apply_inbound_impairment :: "tcp_backend \<Rightarrow> envelope \<Rightarrow> u64 \<Rightarrow> (bool \<times> tcp_backend) option" where
  "TcpBackend_apply_inbound_impairment b env now_us = do {
     nc_assert (envelope_valid env);
     nc_assert (now_us > 0);
     (partition, imp) \<leftarrow> ImpairmentEngine_is_partition_active (tb_impairment b) now_us;
     let b = b\<lparr> tb_impairment := imp \<rparr>;
     if partition then Some (False, b)
     else do {
       (res, inbound_out, inbound_count, imp) \<leftarrow> ImpairmentEngine_process_inbound (tb_impairment b) env now_us [envelope_zero] 1;
       let b = b\<lparr> tb_impairment := imp \<rparr>;
       if res \<noteq> OK then Some (False, b)
       else if inbound_count = 0 then Some (False, b)
       else do {
         (res, q) \<leftarrow> RingBuffer_push (tb_recv_queue b) (inbound_out ! 0);
         nc_assert (inbound_count = 1);
         Some (res = OK, b\<lparr> tb_recv_queue := q \<rparr>)
       }
     }
   }"

text \<open>What \<open>recv_from_client\<close> does with a deserialized frame that is not a HELLO.\<close>

definition accept_frame :: "'w posix \<Rightarrow> tcp_backend \<Rightarrow> 'w \<Rightarrow> int \<Rightarrow> u32 \<Rightarrow> envelope \<Rightarrow> (Result \<times> tcp_backend \<times> 'w) option" where
  "accept_frame X b w client_fd out_len env = do {
     unregistered \<leftarrow> (if tb_is_server b then TcpBackend_is_unregistered_slot b client_fd else Some False);
     if unregistered then Some (ERR_INVALID, b, w)
     else do {
       source_ok \<leftarrow> TcpBackend_validate_source_id b client_fd (source_id env);
       if \<not> source_ok then Some (ERR_INVALID, b, w)
       else do {
         let b = (if \<not> tb_is_server b \<and> tb_client_node_ids b ! 0 = NODE_ID_INVALID \<and> source_id env \<noteq> NODE_ID_INVALID
                  then b\<lparr> tb_client_node_ids := (tb_client_node_ids b)[0 := source_id env] \<rparr> else b);
         (now_us, w) \<leftarrow> read_clock X w;
         (queued, b) \<leftarrow> TcpBackend_apply_inbound_impairment b env now_us;
         nc_assert (out_len \<le> SOCKET_RECV_BUF_BYTES);
         Some (OK, b, w)
       }
     }
   }"

definition TcpBackend_recv_from_client ::
    "'w socket_ops \<Rightarrow> 'w posix \<Rightarrow> tcp_backend \<Rightarrow> 'w \<Rightarrow> int \<Rightarrow> u32 \<Rightarrow> (Result \<times> tcp_backend \<times> 'w) option" where
  "TcpBackend_recv_from_client S X b w client_fd timeout_ms = do {
     nc_assert (client_fd \<ge> 0);
     nc_assert (tb_open b);
     (ok, buf, out_len, w) \<leftarrow> so_recv_frame S w client_fd (tb_wire_buf b) SOCKET_RECV_BUF_BYTES timeout_ms 0;
     let b = b\<lparr> tb_wire_buf := buf \<rparr>;
     if \<not> ok then do {
       (b, w) \<leftarrow> TcpBackend_remove_client_fd S b w client_fd;
       Some (ERR_IO, b, w)
     }
     else do {
       (res, env) \<leftarrow> deserialize (tb_wire_buf b) out_len envelope_zero;
       if res \<noteq> OK then Some (res, b, w)
       else if message_type env = HELLO then
         if tb_is_server b then TcpBackend_process_hello_frame S b w client_fd (source_id env)
         else Some (ERR_AGAIN, b, w)
       else accept_frame X b w client_fd out_len env
     }
   }"

text \<open>The descriptors to watch; the flag tells whether the first is the listening socket.\<close>

definition TcpBackend_build_poll_fds :: "tcp_backend \<Rightarrow> nat \<Rightarrow> ((int \<times> u16) list \<times> bool) option" where
  "TcpBackend_build_poll_fds b cap = do {
     let server_ok = (tb_is_server b \<and> tb_listen_fd b \<ge> 0);
     let has_listen = (server_ok \<and> tb_client_count b < MAX_TCP_CONNECTIONS);
     let pfds = (if has_listen then [(tb_listen_fd b, POLLIN)] else []) @ map (\<lambda>fd. (fd, POLLIN)) (filter (\<lambda>fd. fd \<ge> 0) (tb_client_fds b));
     nc_assert (length pfds \<le> cap);
     Some (pfds, has_listen)
   }"

text \<open>The loop over the client slots. \<open>revents\<close> belongs to the descriptors as they were when \<open>poll\<close> was called, the slots are
  the current ones; at most eight rounds, since the count of clients does not grow here.\<close>

primrec drain_clients_loop :: "'w socket_ops \<Rightarrow> 'w posix \<Rightarrow> u16 list \<Rightarrow> u32 \<Rightarrow> nat \<Rightarrow> nat list \<Rightarrow> tcp_backend \<Rightarrow> 'w \<Rightarrow> (tcp_backend \<times> 'w) option" where
  "drain_clients_loop S X revents timeout_ms base [] b w = Some (b, w)"
| "drain_clients_loop S X revents timeout_ms base (i # is) b w =
     (if \<not> i < tb_client_count b \<or> base + i \<ge> length revents then Some (b, w)
      else if revents ! (base + i) AND POLLIN \<noteq> 0 then do {
        (res, b, w) \<leftarrow> TcpBackend_recv_from_client S X b w (tb_client_fds b ! i) timeout_ms;
        drain_clients_loop S X revents timeout_ms base is b w
      }
      else drain_clients_loop S X revents timeout_ms base is b w)"

definition TcpBackend_drain_readable_clients ::
    "'w socket_ops \<Rightarrow> 'w posix \<Rightarrow> tcp_backend \<Rightarrow> 'w \<Rightarrow> u16 list \<Rightarrow> u32 \<Rightarrow> bool \<Rightarrow> (tcp_backend \<times> 'w) option" where
  "TcpBackend_drain_readable_clients S X b w revents timeout_ms has_listen = do {
     nc_assert (length revents \<le> MAX_TCP_CONNECTIONS + 1);
     drain_clients_loop S X revents timeout_ms (if has_listen then 1 else 0) [0..<MAX_TCP_CONNECTIONS] b w
   }"

definition TcpBackend_poll_clients_once :: "'w socket_ops \<Rightarrow> 'w posix \<Rightarrow> tcp_backend \<Rightarrow> 'w \<Rightarrow> u32 \<Rightarrow> (tcp_backend \<times> 'w) option" where
  "TcpBackend_poll_clients_once S X b w timeout_ms = do {
     nc_assert (tb_open b);
     nc_assert (timeout_ms \<le> 60000);
     (b, w) \<leftarrow> (if tb_is_server b then TcpBackend_sweep_hello_timeouts S X b w else Some (b, w));
     (pfds, has_listen) \<leftarrow> TcpBackend_build_poll_fds b (MAX_TCP_CONNECTIONS + 1);
     if pfds = [] then Some (b, w)
     else case px_poll X w pfds (uint timeout_ms) of ((poll_rc, revents), w) \<Rightarrow>
       if poll_rc \<le> 0 then Some (b, w)
       else do {
         (b, w) \<leftarrow> (if has_listen \<and> revents ! 0 AND POLLIN \<noteq> 0 then do {
           (res, b, w) \<leftarrow> TcpBackend_accept_clients S X b w;
           Some (b, w)
         } else Some (b, w));
         TcpBackend_drain_readable_clients S X b w revents timeout_ms has_listen
       }
   }"

text \<open>One attempt of \<open>receive_message\<close>, and the attempts until one succeeds.\<close>

primrec receive_attempts :: "'w socket_ops \<Rightarrow> 'w posix \<Rightarrow> nat \<Rightarrow> tcp_backend \<Rightarrow> 'w \<Rightarrow> envelope \<Rightarrow> (Result \<times> envelope \<times> tcp_backend \<times> 'w) option" where
  "receive_attempts S X 0 b w envelope = Some (ERR_TIMEOUT, envelope, b, w)"
| "receive_attempts S X (Suc n) b w envelope = do {
     (b, w) \<leftarrow> TcpBackend_poll_clients_once S X b w 100;
     (res, envelope, q) \<leftarrow> RingBuffer_pop (tb_recv_queue b) envelope;
     let b = b\<lparr> tb_recv_queue := q \<rparr>;
     if res = OK then Some (res, envelope, b, w)
     else do {
       (now_us, w) \<leftarrow> read_clock X w;
       (_, b, w) \<leftarrow> TcpBackend_flush_delayed_to_clients S b w envelope_zero now_us;
       (res, envelope, q) \<leftarrow> RingBuffer_pop (tb_recv_queue b) envelope;
       let b = b\<lparr> tb_recv_queue := q \<rparr>;
       if res = OK then Some (res, envelope, b, w)
       else receive_attempts S X n b w envelope
     }
   }"

definition TcpBackend_receive_message ::
    "'w socket_ops \<Rightarrow> 'w posix \<Rightarrow> tcp_backend \<Rightarrow> 'w \<Rightarrow> envelope \<Rightarrow> u32 \<Rightarrow> (Result \<times> envelope \<times> tcp_backend \<times> 'w) option" where
  "TcpBackend_receive_message S X b w envelope timeout_ms = do {
     nc_assert (tb_open b);
     (res, envelope, q) \<leftarrow> RingBuffer_pop (tb_recv_queue b) envelope;
     let b = b\<lparr> tb_recv_queue := q \<rparr>;
     if res = OK then Some (res, envelope, b, w)
     else do {
       nc_assert (poll_count timeout_ms \<le> 50);
       receive_attempts S X (unat (poll_count timeout_ms)) b w envelope
     }
   }"

section \<open>Closing and statistics\<close>

definition close_client :: "'w socket_ops \<Rightarrow> nat \<Rightarrow> u32 \<times> tcp_backend \<times> 'w \<Rightarrow> (u32 \<times> tcp_backend \<times> 'w) option" where
  "close_client S i = (\<lambda>(closed_count, b, w).
     if tb_client_fds b ! i \<ge> 0 then do {
       w \<leftarrow> so_do_close S w (tb_client_fds b ! i);
       Some (closed_count + 1, b\<lparr> tb_client_fds := (tb_client_fds b)[i := - 1] \<rparr>, w)
     }
     else Some (closed_count, b, w))"

definition TcpBackend_close :: "'w socket_ops \<Rightarrow> tcp_backend \<Rightarrow> 'w \<Rightarrow> (tcp_backend \<times> 'w) option" where
  "TcpBackend_close S b w = do {
     (b, w) \<leftarrow> (if tb_listen_fd b \<ge> 0
       then do { w \<leftarrow> so_do_close S w (tb_listen_fd b); Some (b\<lparr> tb_listen_fd := - 1 \<rparr>, w) } else Some (b, w));
     (closed_count, b, w) \<leftarrow> for_each (close_client S) [0..<MAX_TCP_CONNECTIONS] (0, b, w);
     Some (b\<lparr> tb_connections_closed := tb_connections_closed b + closed_count, tb_client_count := 0, tb_open := False \<rparr>, w)
   }"

definition TcpBackend_is_open :: "tcp_backend \<Rightarrow> bool option" where
  "TcpBackend_is_open b = do {
     nc_assert (tb_open b = (tb_listen_fd b \<ge> 0 \<or> tb_client_count b > 0) \<or> \<not> tb_open b);
     Some (tb_open b)
   }"

definition TcpBackend_get_transport_stats :: "tcp_backend \<Rightarrow> transport_stats option" where
  "TcpBackend_get_transport_stats b = do {
     nc_assert (tb_connections_opened b \<ge> tb_connections_closed b);
     nc_assert (tb_connections_closed b \<le> tb_connections_opened b);
     imp \<leftarrow> ImpairmentEngine_get_stats (tb_impairment b);
     Some \<lparr> connections_opened = tb_connections_opened b, connections_closed = tb_connections_closed b, ts_impairment = imp \<rparr>
   }"

text \<open>The backend as the transport of a delivery engine.\<close>

definition tcp_transport :: "'w socket_ops \<Rightarrow> 'w posix \<Rightarrow> (tcp_backend \<times> 'w) transport" where
  "tcp_transport S X = \<lparr>
     tr_register_local_id = (\<lambda>(b, w) n. TcpBackend_register_local_id S b w n),
     tr_pop_hello_peer = (\<lambda>(b, w). do { (n, b) \<leftarrow> TcpBackend_pop_hello_peer b; Some (n, b, w) }),
     tr_send_message = (\<lambda>(b, w) env. TcpBackend_send_message S X b w env),
     tr_receive_message = (\<lambda>(b, w) env ms. TcpBackend_receive_message S X b w env ms),
     tr_get_transport_stats = (\<lambda>(b, w) out. TcpBackend_get_transport_stats b) \<rparr>"

text \<open>A freshly constructed backend.\<close>

definition TcpBackend_new :: "transport_config \<Rightarrow> impairment_engine \<Rightarrow> tcp_backend" where
  "TcpBackend_new cfg imp = \<lparr> tb_listen_fd = - 1, tb_client_fds = replicate MAX_TCP_CONNECTIONS (- 1), tb_client_count = 0,
     tb_wire_buf = replicate (unat SOCKET_RECV_BUF_BYTES) 0, tb_cfg = cfg, tb_impairment = imp, tb_recv_queue = RingBuffer_new,
     tb_open = False, tb_is_server = False, tb_connections_opened = 0, tb_connections_closed = 0,
     tb_client_node_ids = replicate MAX_TCP_CONNECTIONS NODE_ID_INVALID, tb_local_node_id = NODE_ID_INVALID,
     tb_client_hello_received = replicate MAX_TCP_CONNECTIONS False, tb_client_accept_ts = replicate MAX_TCP_CONNECTIONS 0,
     tb_delay_buf = replicate IMPAIR_DELAY_BUF_SIZE envelope_zero, tb_hello_queue = replicate MAX_TCP_CONNECTIONS NODE_ID_INVALID,
     tb_hello_queue_read = 0, tb_hello_queue_write = 0 \<rparr>"

end
