(* ===== verification/TcpBackendCorrect.thy ===== *)
theory TcpBackendCorrect
  imports TcpBackend
begin

text \<open>
  The invariant of the TCP backend, that every operation keeps it over an arbitrary network, and the properties: no call aborts
  and no HELLO reaches the engine, a frame is accepted only from the connection that registered its sender, and the behaviours
  of the client table that go wrong.
\<close>

section \<open>Invariant\<close>

text \<open>The client table is compact: the live slots come first and hold descriptors, the others are free.\<close>

definition table_ok :: "tcp_backend \<Rightarrow> bool" where
  "table_ok b \<longleftrightarrow> tb_client_count b \<le> 8 \<and> length (tb_client_fds b) = 8 \<and> length (tb_client_node_ids b) = 8 \<and>
     length (tb_client_hello_received b) = 8 \<and> length (tb_client_accept_ts b) = 8 \<and>
     (\<forall>i < tb_client_count b. 0 \<le> tb_client_fds b ! i) \<and> (\<forall>i < 8. tb_client_count b \<le> i \<longrightarrow> tb_client_fds b ! i = - 1)"

definition tcp_inv :: "tcp_backend \<Rightarrow> bool" where
  "tcp_inv b \<longleftrightarrow> tb_open b \<and> table_ok b \<and> (tb_is_server b \<longrightarrow> 0 \<le> tb_listen_fd b) \<and> length (tb_wire_buf b) = 8192 \<and>
     link_ok msg_ok inbound_ok (tb_impairment b) \<and> queue_holds inbound_ok (tb_recv_queue b) \<and> 32 \<le> length (tb_delay_buf b) \<and>
     length (tb_hello_queue b) = 8 \<and> tb_hello_queue_read b < 8 \<and> tb_hello_queue_write b < 8"

text \<open>A backend before \<open>init\<close> and after \<open>close\<close>.\<close>

definition tcp_closed :: "tcp_backend \<Rightarrow> bool" where
  "tcp_closed b \<longleftrightarrow> \<not> tb_open b \<and> tb_listen_fd b < 0 \<and> tb_client_fds b = replicate 8 (- 1) \<and> tb_client_count b = 0 \<and>
     length (tb_wire_buf b) = 8192 \<and> length (rb_buf (tb_recv_queue b)) = 64 \<and> 32 \<le> length (tb_delay_buf b) \<and>
     length (tb_hello_queue b) = 8 \<and> tb_hello_queue_read b < 8 \<and> tb_hello_queue_write b < 8"

text \<open>A configuration \<open>init\<close> can work with.\<close>

definition tcp_config_ok :: "transport_config \<Rightarrow> u64 \<Rightarrow> bool" where
  "tcp_config_ok config entropy \<longleftrightarrow> tcf_kind config = TCP \<and> imp_config_ok (first_impairment config) \<and>
     (ic_prng_seed (first_impairment config) \<noteq> 0 \<or> entropy \<noteq> 0) \<and> tcf_connect_timeout_ms config > 0"

text \<open>The live slots as a list: descriptor, node, HELLO flag and acceptance time of every client.\<close>

definition clients :: "tcp_backend \<Rightarrow> (int \<times> NodeId \<times> bool \<times> u64) list" where
  "clients b = (let n = tb_client_count b in zip (take n (tb_client_fds b)) (zip (take n (tb_client_node_ids b))
     (zip (take n (tb_client_hello_received b)) (take n (tb_client_accept_ts b)))))"

text \<open>A list without its element \<open>i\<close>.\<close>

definition without :: "nat \<Rightarrow> 'a list \<Rightarrow> 'a list" where
  "without i xs = take i xs @ drop (Suc i) xs"

text \<open>Two backends that agree but for the client table and the wire buffer.\<close>

definition same_link :: "tcp_backend \<Rightarrow> tcp_backend \<Rightarrow> bool" where
  "same_link b b' \<longleftrightarrow> tb_impairment b' = tb_impairment b \<and> tb_recv_queue b' = tb_recv_queue b \<and> tb_is_server b' = tb_is_server b \<and>
     tb_listen_fd b' = tb_listen_fd b \<and> tb_cfg b' = tb_cfg b"

text \<open>The members that no operation on an open backend changes.\<close>

definition same_role :: "tcp_backend \<Rightarrow> tcp_backend \<Rightarrow> bool" where
  "same_role b b' \<longleftrightarrow> tb_is_server b' = tb_is_server b \<and> tb_listen_fd b' = tb_listen_fd b \<and> tb_cfg b' = tb_cfg b"

text \<open>Only the impairment engine and the receive queue differ.\<close>

definition only_link :: "tcp_backend \<Rightarrow> tcp_backend \<Rightarrow> bool" where
  "only_link b b' \<longleftrightarrow> (\<exists>imp q. b' = b\<lparr> tb_impairment := imp, tb_recv_queue := q \<rparr>)"

text \<open>The messages that wait for the engine, and the registrations: no node is registered on two connections.\<close>

definition waiting :: "tcp_backend \<Rightarrow> envelope set" where
  "waiting b = set (rb_contents (tb_recv_queue b)) \<union> set (window (tb_impairment b))"

text \<open>What one frame from \<open>fd\<close> may add: nothing, or a message of the node that is registered on this connection.\<close>

definition authentic_step :: "tcp_backend \<Rightarrow> int \<Rightarrow> tcp_backend \<Rightarrow> bool" where
  "authentic_step b fd b' \<longleftrightarrow> waiting b' \<subseteq> waiting b \<or> (\<exists>i env. i < tb_client_count b \<and> tb_client_fds b ! i = fd \<and>
     tb_client_node_ids b ! i = source_id env \<and> inbound_ok env \<and> waiting b' \<subseteq> insert env (waiting b))"

definition unique_ids :: "tcp_backend \<Rightarrow> bool" where
  "unique_ids b \<longleftrightarrow> distinct (filter (\<lambda>n. n \<noteq> 0) (take (tb_client_count b) (tb_client_node_ids b)))"

text \<open>A server with three connections: node 7 is registered on descriptor 6, the other two have not said HELLO.\<close>

definition tcp_example :: tcp_backend where
  "tcp_example = (TcpBackend_new transport_config_default (imp_blank impairment_config_default))
     \<lparr> tb_open := True, tb_is_server := True, tb_listen_fd := 3, tb_client_fds := [4, 5, 6, - 1, - 1, - 1, - 1, - 1], tb_client_count := 3,
       tb_client_node_ids := [0, 0, 7, 0, 0, 0, 0, 0], tb_client_hello_received := [False, False, True, False, False, False, False, False],
       tb_client_accept_ts := [1, 1, 1, 0, 0, 0, 0, 0] \<rparr>"

text \<open>A client that is connected on descriptor 4.\<close>

definition tcp_client_example :: tcp_backend where
  "tcp_client_example = (TcpBackend_new transport_config_default (imp_blank impairment_config_default))
     \<lparr> tb_open := True, tb_client_fds := [4, - 1, - 1, - 1, - 1, - 1, - 1, - 1], tb_client_count := 1 \<rparr>"

section \<open>The client table\<close>

lemma only_linkD:
  assumes "only_link b b'"
  shows "same_role b b'" "tb_client_count b' = tb_client_count b" "tb_client_fds b' = tb_client_fds b"
  using assms by (auto simp: only_link_def same_role_def)

lemma length_close_gap [simp]: "length (close_gap i n f xs) = length xs"
  by (simp add: close_gap_def)

lemma take_close_gap: "i < n \<Longrightarrow> n \<le> length xs \<Longrightarrow> take (n - 1) (close_gap i n f xs) = take i xs @ drop (Suc i) (take n xs)"
  using take_shift_left [of i n xs] by (simp add: close_gap_def)

lemma close_gap_last: "0 < n \<Longrightarrow> n \<le> length xs \<Longrightarrow> close_gap i n f xs ! (n - 1) = f"
  by (simp add: close_gap_def)

lemma close_gap_beyond: "0 < n \<Longrightarrow> n \<le> k \<Longrightarrow> close_gap i n f xs ! k = xs ! k"
  by (simp add: close_gap_def, rule shift_left_other) auto

lemma length_clients: "table_ok b \<Longrightarrow> length (clients b) = tb_client_count b"
  by (simp add: clients_def table_ok_def Let_def)

lemma nth_clients:
  "table_ok b \<Longrightarrow> i < tb_client_count b \<Longrightarrow>
   clients b ! i = (tb_client_fds b ! i, tb_client_node_ids b ! i, tb_client_hello_received b ! i, tb_client_accept_ts b ! i)"
  by (simp add: clients_def table_ok_def Let_def)

lemma fds_clients: "table_ok b \<Longrightarrow> map fst (clients b) = take (tb_client_count b) (tb_client_fds b)"
  by (simp add: clients_def table_ok_def Let_def)

lemma ids_clients: "table_ok b \<Longrightarrow> map (\<lambda>c. fst (snd c)) (clients b) = take (tb_client_count b) (tb_client_node_ids b)"
  by (rule nth_equalityI) (auto simp: length_clients nth_clients, auto simp: table_ok_def)

lemma map_without: "map f (without i xs) = without i (map f xs)"
  by (simp add: without_def take_map drop_map)

lemma set_without: "set (without i xs) \<subseteq> set xs"
  by (auto simp: without_def dest: in_set_takeD in_set_dropD)

lemma nth_without: "Suc i < length xs \<Longrightarrow> without i xs ! i = xs ! Suc i"
  by (simp add: without_def nth_append)

lemma nth_notin_without:
  assumes "distinct xs" and "i < length xs"
  shows "xs ! i \<notin> set (without i xs)"
proof -
  have "distinct (take i xs @ xs ! i # drop (Suc i) xs)" using assms id_take_nth_drop [of i xs] by simp
  then show ?thesis by (auto simp: without_def)
qed

lemma distinct_filter_without: "distinct (filter P xs) \<Longrightarrow> distinct (filter P (without i xs))"
proof (cases "i < length xs")
  case True
  assume "distinct (filter P xs)"
  then have "distinct (filter P (take i xs @ xs ! i # drop (Suc i) xs))" using id_take_nth_drop [OF True] by simp
  then show ?thesis by (auto simp: without_def split: if_splits)
qed (simp add: without_def)

lemma unique_ids_clients: "table_ok b \<Longrightarrow> unique_ids b \<longleftrightarrow> distinct (filter (\<lambda>n. n \<noteq> 0) (map (\<lambda>c. fst (snd c)) (clients b)))"
  by (simp add: unique_ids_def ids_clients)

lemma distinct_filter_update:
  assumes "distinct (filter P xs)" and "i < length xs" and "\<And>j. j < length xs \<Longrightarrow> j \<noteq> i \<Longrightarrow> xs ! j \<noteq> y"
  shows "distinct (filter P (xs[i := y]))"
proof -
  have "xs ! k \<noteq> y" if "k < i" for k using assms(2) assms(3) [of k] that by simp
  moreover have "xs ! (Suc i + k) \<noteq> y" if "k < length xs - Suc i" for k using assms(2) assms(3) [of "Suc i + k"] that by simp
  ultimately have y: "y \<notin> set (take i xs)" "y \<notin> set (drop (Suc i) xs)" using assms(2) by (auto simp: in_set_conv_nth)
  have "distinct (filter P (take i xs @ xs ! i # drop (Suc i) xs))" using assms(1) id_take_nth_drop [OF assms(2)] by simp
  with y show ?thesis using assms(2) by (auto simp: upd_conv_take_nth_drop split: if_splits)
qed

lemma slot_of_fd_Some:
  assumes "table_ok b" and "slot_of_fd b fd = Some i"
  shows "i < tb_client_count b" "tb_client_fds b ! i = fd"
  using first_idx_SomeD [OF assms(2) [unfolded slot_of_fd_def]] assms(1) by (auto simp: table_ok_def)

text \<open>The table without slot \<open>i\<close>.\<close>

lemma removed_slot:
  assumes "table_ok b" and "i < tb_client_count b"
    and "b' = b\<lparr> tb_client_fds := close_gap i (tb_client_count b) (- 1) ((tb_client_fds b)[i := - 1]),
      tb_client_node_ids := close_gap i (tb_client_count b) 0 (tb_client_node_ids b),
      tb_client_hello_received := close_gap i (tb_client_count b) False (tb_client_hello_received b),
      tb_client_accept_ts := close_gap i (tb_client_count b) 0 (tb_client_accept_ts b), tb_client_count := tb_client_count b - 1,
      tb_connections_closed := cc \<rparr>"
  shows "table_ok b'" "clients b' = without i (clients b)"
proof -
  let ?n = "tb_client_count b" and ?fds = "tb_client_fds b"
  have n: "0 < ?n" "?n \<le> 8" "length ?fds = 8" using assms(1,2) by (auto simp: table_ok_def)
  have t: "take (?n - 1) (close_gap i ?n f xs) = take i (take ?n xs) @ drop (Suc i) (take ?n xs)" if "length xs = 8" for f :: 'b and xs
    using take_close_gap [OF assms(2), of xs f] that n assms(2) by (simp add: min_def)
  have fds: "take (?n - 1) (tb_client_fds b') = take i (take ?n ?fds) @ drop (Suc i) (take ?n ?fds)"
    using t [of "?fds[i := - 1]" "- 1"] n assms(2,3) by (simp add: take_update_swap list_update_beyond)
  have len: "length (tb_client_node_ids b) = 8" "length (tb_client_hello_received b) = 8" "length (tb_client_accept_ts b) = 8"
    using assms(1) by (simp_all add: table_ok_def)
  show "clients b' = without i (clients b)"
    using fds t [of "tb_client_node_ids b" 0] t [of "tb_client_hello_received b" False] t [of "tb_client_accept_ts b" 0] len n assms(3)
    by (simp add: clients_def Let_def take_zip drop_zip without_def)
  have pos: "0 \<le> tb_client_fds b' ! k" if "k < ?n - 1" for k
  proof -
    from that n have "tb_client_fds b' ! k = take (?n - 1) (tb_client_fds b') ! k" by simp
    also have "\<dots> \<in> set (take (?n - 1) (tb_client_fds b'))" using that n assms(3) by (intro nth_mem) simp
    finally have "tb_client_fds b' ! k \<in> set (take ?n ?fds)" unfolding fds by (auto simp del: take_take dest: in_set_takeD in_set_dropD)
    with assms(1) show ?thesis by (auto simp: table_ok_def in_set_conv_nth)
  qed
  have free: "tb_client_fds b' ! k = - 1" if "?n - 1 \<le> k" "k < 8" for k
  proof (cases "k = ?n - 1")
    case True
    with close_gap_last [of ?n "?fds[i := - 1]" i "- 1"] n assms(3) show ?thesis by simp
  next
    case False
    with that n assms show ?thesis by (simp add: close_gap_beyond table_ok_def)
  qed
  show "table_ok b'" using pos free len n assms(3) by (auto simp: table_ok_def)
qed

context backend_env
begin

lemma remove_client:
  assumes "tcp_inv b" and "I w" and "fd \<ge> 0" and "tb_client_count b > 0"
  shows "returns (TcpBackend_remove_client_fd S b w fd) (\<lambda>(b', w'). tcp_inv b' \<and> I w' \<and> same_link b b' \<and>
    (case slot_of_fd b fd of None \<Rightarrow> b' = b | Some i \<Rightarrow> clients b' = without i (clients b)))"
proof -
  let ?n = "tb_client_count b"
  have tab: "table_ok b" using assms(1) by (simp add: tcp_inv_def)
  have slot: "first_idx (\<lambda>f. f = fd) (tb_client_fds b) = slot_of_fd b fd"
  proof (cases "slot_of_fd b fd")
    case (Some i)
    have "first_idx (\<lambda>f. f = fd) (take ?n (tb_client_fds b) @ drop ?n (tb_client_fds b)) = Some i"
      using Some by (intro first_idx_append) (simp add: slot_of_fd_def)
    with Some show ?thesis by simp
  next
    case None
    have "fd \<noteq> f" if "f \<in> set (tb_client_fds b)" for f
    proof -
      from that obtain k where k: "k < 8" "f = tb_client_fds b ! k" using tab by (auto simp: table_ok_def in_set_conv_nth)
      show ?thesis
      proof (cases "k < ?n")
        case True
        with k tab have "f \<in> set (take ?n (tb_client_fds b))" by (auto simp: table_ok_def in_set_conv_nth)
        with None show ?thesis by (auto simp: slot_of_fd_def first_idx_None)
      next
        case False
        with k tab assms(3) show ?thesis by (auto simp: table_ok_def)
      qed
    qed
    with None show ?thesis by (auto simp: first_idx_None)
  qed
  show ?thesis
  proof (cases "slot_of_fd b fd")
    case None
    with slot assms show ?thesis by (simp add: TcpBackend_remove_client_fd_def same_link_def)
  next
    case (Some i)
    note i = slot_of_fd_Some [OF tab Some]
    from do_close [OF assms(2,3)] obtain w' where w': "so_do_close S w fd = Some w'" "I w'" by (auto elim: returnsE)
    note r = removed_slot [OF tab i(1) refl, of "tb_connections_closed b + 1"]
    have "?n \<le> 8" using tab by (simp add: table_ok_def)
    with r w' slot Some i assms show ?thesis
      by (simp add: TcpBackend_remove_client_fd_def Let_def tcp_inv_def same_link_def)
  qed
qed

lemma evict_slot:
  assumes "tcp_inv b" and "I w" and "fd \<ge> 0" and "tb_client_count b > 0"
  shows "returns (TcpBackend_close_and_evict_slot S b w fd) (\<lambda>(b', w'). tcp_inv b' \<and> I w' \<and> same_link b b' \<and>
    (case slot_of_fd b fd of None \<Rightarrow> b' = b | Some i \<Rightarrow> clients b' = without i (clients b)))"
proof -
  have le: "tb_client_count b \<le> 8" if "tcp_inv b" for b using that by (simp add: tcp_inv_def table_ok_def)
  from remove_client [OF assms] le [OF assms(1)] assms(3) show ?thesis
    by (auto simp: TcpBackend_close_and_evict_slot_def le elim!: returns_mono)
qed

lemma live_fd: "tcp_inv b \<Longrightarrow> i < tb_client_count b \<Longrightarrow> 0 \<le> tb_client_fds b ! i"
  by (simp add: tcp_inv_def table_ok_def)

lemma same_link_refl: "same_link b b"
  by (simp add: same_link_def)

lemma same_link_trans: "same_link a b \<Longrightarrow> same_link b c \<Longrightarrow> same_link a c"
  by (simp add: same_link_def)

text \<open>The sweep ends: a round either moves the index or removes a client.\<close>

lemma sweep_loop_returns:
  assumes "tcp_inv b" and "I w"
  shows "returns (sweep_hello_loop S now tmo i b w) (\<lambda>(b', w'). tcp_inv b' \<and> I w' \<and> same_link b b')"
  using assms
proof (induction "tb_client_count b - i" arbitrary: i b w rule: less_induct)
  case less
  let ?n = "tb_client_count b" and ?fd = "tb_client_fds b ! i"
  let ?late = "\<not> tb_client_hello_received b ! i \<and> tb_client_accept_ts b ! i \<noteq> 0 \<and> now - tb_client_accept_ts b ! i > tmo"
  show ?case
  proof (cases "i < ?n")
    case False
    with less.prems show ?thesis by (simp add: sweep_hello_loop.simps same_link_refl)
  next
    case True
    show ?thesis
    proof (cases ?late)
      case False
      then have "sweep_hello_loop S now tmo i b w = sweep_hello_loop S now tmo (i + 1) b w"
        using True by (subst sweep_hello_loop.simps) auto
      with less.hyps [OF _ less.prems, of "i + 1"] True show ?thesis by simp
    next
      case late: True
      have tab: "table_ok b" using less.prems(1) by (simp add: tcp_inv_def)
      have "?fd \<in> set (take ?n (tb_client_fds b))" using True tab by (auto simp: in_set_conv_nth table_ok_def)
      then obtain k where k: "slot_of_fd b ?fd = Some k"
        using first_idx_Some_ex [of ?fd _ "\<lambda>f. f = ?fd"] by (auto simp: slot_of_fd_def)
      from evict_slot [OF less.prems live_fd [OF less.prems(1) True]] True k obtain b' w' where
        e: "TcpBackend_close_and_evict_slot S b w ?fd = Some (b', w')" "tcp_inv b'" "I w'" "same_link b b'"
          "clients b' = without k (clients b)"
        by (auto elim!: returnsE)
      have "length (clients b') = ?n - 1"
        using slot_of_fd_Some(1) [OF tab k] length_clients [OF tab] e(5) by (simp add: without_def)
      then have "tb_client_count b' = ?n - 1" using e(2) by (simp add: length_clients tcp_inv_def)
      with True have "tb_client_count b' - i < ?n - i" by simp
      from less.hyps [OF this e(2,3)] have IH: "returns (sweep_hello_loop S now tmo i b' w') (\<lambda>(b'', w''). tcp_inv b'' \<and> I w'' \<and> same_link b' b'')" .
      have "sweep_hello_loop S now tmo i b w = sweep_hello_loop S now tmo i b' w'"
        using True late e(1) by (subst sweep_hello_loop.simps) simp
      with IH e(4) show ?thesis by (auto elim!: returns_mono intro: same_link_trans)
    qed
  qed
qed

lemma sweep_returns:
  assumes "tcp_inv b" and "I w" and "tb_is_server b"
  shows "returns (TcpBackend_sweep_hello_timeouts S X b w) (\<lambda>(b', w'). tcp_inv b' \<and> I w' \<and> same_link b b')"
proof -
  have "tb_client_count b \<le> 8" using assms(1) by (simp add: tcp_inv_def table_ok_def)
  with now_returns [OF assms(2)] sweep_loop_returns [OF assms(1)] assms(3) show ?thesis
    by (fastforce simp: TcpBackend_sweep_hello_timeouts_def Let_def elim!: returnsE)
qed

lemma accept_returns:
  assumes "tcp_inv b" and "I w" and "tb_is_server b"
  shows "returns (TcpBackend_accept_clients S X b w) (\<lambda>(r, b', w'). r = OK \<and> tcp_inv b' \<and> I w' \<and> same_link b b' \<and>
    tb_client_count b \<le> tb_client_count b')"
proof -
  have l: "tb_listen_fd b \<ge> 0" using assms(1,3) by (simp add: tcp_inv_def)
  from do_accept [OF assms(2) l] obtain fd w1 where a: "so_do_accept S w (tb_listen_fd b) = Some (fd, w1)" "I w1"
    by (auto elim!: returnsE)
  from now_returns [OF a(2)] obtain now w2 where c: "read_clock X w1 = Some (now, w2)" "I w2" by (auto elim!: returnsE)
  show ?thesis
    using a c l assms by (auto simp: TcpBackend_accept_clients_def tcp_inv_def table_ok_def same_link_def nth_list_update)
qed

lemma enqueue_hello_inv: "tcp_inv (enqueue_hello b n) = tcp_inv b" if "tb_hello_queue_write b < 8"
  using that by (auto simp: enqueue_hello_def tcp_inv_def table_ok_def Let_def)

lemma same_link_register: "same_link b (enqueue_hello (b\<lparr> tb_client_node_ids := ids \<rparr>) n)"
  by (simp add: enqueue_hello_def same_link_def Let_def)

lemma handle_hello_returns:
  assumes "tcp_inv b" and "I w" and "fd \<ge> 0" and "src \<noteq> 0" and "tb_client_count b > 0"
  shows "returns (TcpBackend_handle_hello_frame S b w fd src) (\<lambda>(b', w'). tcp_inv b' \<and> I w' \<and> same_link b b')"
proof -
  have set_id: "tcp_inv (b\<lparr> tb_client_node_ids := (tb_client_node_ids b)[i := src] \<rparr>)" for i
    using assms(1) by (simp add: tcp_inv_def table_ok_def)
  have "tb_hello_queue_write b < 8" using assms(1) by (simp add: tcp_inv_def)
  with set_id have "tcp_inv (enqueue_hello (b\<lparr> tb_client_node_ids := (tb_client_node_ids b)[i := src] \<rparr>) src)" for i
    by (simp add: enqueue_hello_inv)
  with evict_slot [OF assms(1-3,5)] assms show ?thesis
    by (auto simp: TcpBackend_handle_hello_frame_def same_link_register same_link_refl split: option.split elim!: returns_mono)
qed

lemma process_hello_returns:
  assumes "tcp_inv b" and "I w" and "fd \<ge> 0" and "src \<noteq> 0" and "tb_client_count b > 0"
  shows "returns (TcpBackend_process_hello_frame S b w fd src) (\<lambda>(r, b', w'). tcp_inv b' \<and> I w' \<and> same_link b b' \<and> r \<noteq> OK)"
proof (cases "slot_of_fd b fd")
  case None
  with assms show ?thesis by (simp add: TcpBackend_process_hello_frame_def same_link_refl)
next
  case (Some i)
  have i: "i < 8" using slot_of_fd_Some(1) [of b fd i] Some assms(1) by (auto simp: tcp_inv_def table_ok_def)
  have flag: "tcp_inv (b'\<lparr> tb_client_hello_received := (tb_client_hello_received b')[i := True] \<rparr>)"
      "(tb_client_hello_received b')[i := True] ! i" if "tcp_inv b'" for b'
    using that i by (simp_all add: tcp_inv_def table_ok_def)
  show ?thesis
  proof (cases "tb_client_hello_received b ! i")
    case True
    with Some assms evict_slot [OF assms(1-3,5)] show ?thesis
      by (auto simp: TcpBackend_process_hello_frame_def elim!: returnsE)
  next
    case False
    with Some assms handle_hello_returns [OF assms] flag show ?thesis
      by (auto simp: TcpBackend_process_hello_frame_def Let_def same_link_def elim!: returnsE)
  qed
qed

text \<open>The impairment of an inbound message, for any property \<open>Q\<close> of the messages that wait.\<close>

lemma apply_inbound_keeps:
  assumes "link_ok P Q (tb_impairment b)" and "queue_holds Q (tb_recv_queue b)" and "envelope_valid env" and "Q env" and "now > 0"
  shows "returns (TcpBackend_apply_inbound_impairment b env now) (\<lambda>(queued, b'). link_ok P Q (tb_impairment b') \<and>
    queue_holds Q (tb_recv_queue b') \<and> only_link b b')"
proof -
  let ?imp = "tb_impairment b" and ?q = "tb_recv_queue b"
  obtain p i1 where p: "ImpairmentEngine_is_partition_active ?imp now = Some (p, i1)" "link_ok P Q i1"
    using link_partition [OF assms(1), of now] by (auto elim!: returnsE)
  obtain r out n i2 where i: "ImpairmentEngine_process_inbound i1 env now [envelope_zero] 1 = Some (r, out, n, i2)"
      "link_ok P Q i2" "n = 0 \<or> n = 1 \<and> Q (out ! 0)"
    using link_inbound [OF p(2) assms(3,4), of "[envelope_zero]" now] by (auto elim!: returnsE)
  have "b\<lparr> tb_impairment := j \<rparr> = b\<lparr> tb_impairment := j, tb_recv_queue := ?q \<rparr>" for j by simp
  then have ol: "only_link b (b\<lparr> tb_impairment := j \<rparr>)" "only_link b (b\<lparr> tb_impairment := j, tb_recv_queue := q \<rparr>)" for j q
    unfolding only_link_def by blast+
  show ?thesis
  proof (cases "p \<or> r \<noteq> OK \<or> n = 0")
    case True
    with p i assms(2,3,5) ol show ?thesis by (auto simp: TcpBackend_apply_inbound_impairment_def Let_def)
  next
    case False
    with i(3) have n: "n = 1" "Q (out ! 0)" by auto
    obtain r' q' where q: "RingBuffer_push ?q (out ! 0) = Some (r', q')" "queue_holds Q q'"
      using queue_push [OF assms(2) n(2)] by (auto elim!: returnsE)
    with False n p i assms(3,5) ol show ?thesis by (simp add: TcpBackend_apply_inbound_impairment_def Let_def)
  qed
qed

lemma apply_inbound_returns:
  assumes "tcp_inv b" and "inbound_ok env" and "now > 0"
  shows "returns (TcpBackend_apply_inbound_impairment b env now) (\<lambda>(queued, b'). tcp_inv b' \<and> only_link b b' \<and> waiting b' \<subseteq> insert env (waiting b))"
proof -
  let ?Q = "\<lambda>m. m \<in> insert env (waiting b)"
  have lk: "link_ok msg_ok inbound_ok (tb_impairment b)" "queue_holds inbound_ok (tb_recv_queue b)" using assms(1) by (simp_all add: tcp_inv_def)
  have valid: "envelope_valid env" using assms(2) by (simp add: inbound_ok_def msg_ok_def)
  have "link_ok msg_ok ?Q (tb_impairment b)" "queue_holds ?Q (tb_recv_queue b)"
    using lk by (auto simp: link_ok_def queue_holds_def waiting_def)
  from apply_inbound_keeps [OF this valid _ assms(3)]
  have w: "returns (TcpBackend_apply_inbound_impairment b env now) (\<lambda>(queued, b'). waiting b' \<subseteq> insert env (waiting b))"
    by (auto simp: link_ok_def queue_holds_def waiting_def elim!: returns_mono)
  have "tcp_inv b'" if "only_link b b'" "link_ok msg_ok inbound_ok (tb_impairment b')" "queue_holds inbound_ok (tb_recv_queue b')" for b'
    using that assms(1) by (auto simp: only_link_def tcp_inv_def table_ok_def)
  with returns_conj [OF apply_inbound_keeps [OF lk valid assms(2,3)] w] show ?thesis by (auto elim!: returns_mono)
qed

text \<open>A frame that is not a HELLO: it is refused and nothing changes, or its sender is the node registered for the connection.\<close>

lemma accept_frame_returns:
  assumes "tcp_inv b" and "I w" and "fd \<ge> 0" and "inbound_ok env" and "len \<le> 8192"
  shows "returns (accept_frame X b w fd len env) (\<lambda>(r, b', w'). tcp_inv b' \<and> I w' \<and> same_role b b' \<and>
    tb_client_count b' = tb_client_count b \<and> tb_client_fds b' = tb_client_fds b \<and>
    (r = OK \<or> r = ERR_INVALID \<and> b' = b) \<and> waiting b' \<subseteq> insert env (waiting b) \<and> (r = OK \<and> tb_is_server b \<longrightarrow>
      (\<exists>i < tb_client_count b. tb_client_fds b ! i = fd \<and> tb_client_node_ids b ! i = source_id env)))"
proof -
  have tab: "table_ok b" "tb_client_count b \<le> 8" using assms(1) by (simp_all add: tcp_inv_def table_ok_def)
  have src: "source_id env \<noteq> 0" using assms(4) by (simp add: inbound_ok_def msg_ok_def envelope_valid_def)
  define b1 where "b1 = (if \<not> tb_is_server b \<and> tb_client_node_ids b ! 0 = 0
    then b\<lparr> tb_client_node_ids := (tb_client_node_ids b)[0 := source_id env] \<rparr> else b)"
  have b1: "tcp_inv b1" "tb_is_server b \<Longrightarrow> b1 = b" "same_role b b1" "tb_client_count b1 = tb_client_count b" "tb_client_fds b1 = tb_client_fds b"
    using assms(1) by (simp_all add: b1_def tcp_inv_def table_ok_def same_role_def)
  obtain now w1 where now: "read_clock X w = Some (now, w1)" "I w1" "now > 0" using now_returns [OF assms(2)] by (auto elim!: returnsE)
  from apply_inbound_returns [OF b1(1) assms(4) now(3)] obtain qd b2 where
    ap: "TcpBackend_apply_inbound_impairment b1 env now = Some (qd, b2)" "tcp_inv b2" "only_link b1 b2" "waiting b2 \<subseteq> insert env (waiting b1)"
    by (auto elim!: returnsE)
  have "waiting b1 = waiting b" by (simp add: b1_def waiting_def)
  with ap(4) have keep: "same_role b b2" "tb_client_count b2 = tb_client_count b" "tb_client_fds b2 = tb_client_fds b"
    "waiting b2 \<subseteq> insert env (waiting b)"
    using only_linkD [OF ap(3)] b1(3-5) by (simp_all add: same_role_def)
  show ?thesis
  proof (cases "slot_of_fd b fd")
    case None
    with assms tab now ap(1) [unfolded b1_def] ap(2) keep src show ?thesis
      by (auto simp: accept_frame_def TcpBackend_is_unregistered_slot_def TcpBackend_validate_source_id_def same_role_def split: if_splits)
  next
    case (Some i)
    note i = slot_of_fd_Some [OF tab(1) Some]
    from i Some assms tab now ap(1) [unfolded b1_def] ap(2) keep src show ?thesis
      by (auto simp: accept_frame_def TcpBackend_is_unregistered_slot_def TcpBackend_validate_source_id_def same_role_def Let_def
          split: if_splits)
  qed
qed

lemma same_link_role: "same_link b b' \<Longrightarrow> same_role b b'"
  by (simp add: same_link_def same_role_def)

lemma same_role_refl: "same_role b b"
  by (simp add: same_role_def)

lemma same_role_trans: "same_role a b \<Longrightarrow> same_role b c \<Longrightarrow> same_role a c"
  by (simp add: same_role_def)

lemma wire_buf_inv:
  assumes "tcp_inv b" and "length buf = 8192"
  shows "tcp_inv (b\<lparr> tb_wire_buf := buf \<rparr>)" "same_role b (b\<lparr> tb_wire_buf := buf \<rparr>)"
  using assms by (simp_all add: tcp_inv_def table_ok_def same_role_def)

lemma same_link_waiting: "same_link b b' \<Longrightarrow> waiting b' = waiting b"
  by (simp add: same_link_def waiting_def)

lemma waiting_wire_buf [simp]: "waiting (b\<lparr> tb_wire_buf := buf \<rparr>) = waiting b"
  by (simp add: waiting_def)

lemma recv_from_client_returns:
  assumes "tcp_inv b" and "I w" and "fd \<ge> 0" and "tb_client_count b > 0"
  shows "returns (TcpBackend_recv_from_client S X b w fd ms) (\<lambda>(r, b', w'). tcp_inv b' \<and> I w' \<and> same_role b b' \<and>
    (tb_is_server b \<longrightarrow> authentic_step b fd b'))"
proof -
  have op: "tb_open b" "length (tb_wire_buf b) = 8192" using assms(1) by (simp_all add: tcp_inv_def)
  from recv_frame [OF assms(2,3), of SOCKET_RECV_BUF_BYTES "tb_wire_buf b" ms 0] op obtain ok buf len w1 where
    f: "so_recv_frame S w fd (tb_wire_buf b) 8192 ms 0 = Some (ok, buf, len, w1)" "I w1" "length buf = 8192" "ok \<longrightarrow> len \<le> 8192"
    by (auto elim!: returnsE)
  define b1 where "b1 = b\<lparr> tb_wire_buf := buf \<rparr>"
  have b1: "tcp_inv b1" "same_role b b1" "tb_client_count b1 > 0" "tb_wire_buf b1 = buf" "waiting b1 = waiting b"
      "tb_client_fds b1 = tb_client_fds b" "tb_client_count b1 = tb_client_count b" "tb_client_node_ids b1 = tb_client_node_ids b"
    using wire_buf_inv [OF assms(1) f(3)] assms(4) by (simp_all add: b1_def)
  have link: "same_role b b' \<and> authentic_step b fd b'" if "same_link b1 b'" for b'
    using same_role_trans [OF b1(2) same_link_role [OF that]] same_link_waiting [OF that] b1(5) by (simp add: authentic_step_def)
  show ?thesis
  proof (cases ok)
    case False
    with f op assms(3) remove_client [OF b1(1) f(2) assms(3) b1(3)] show ?thesis
      by (auto simp: TcpBackend_recv_from_client_def b1_def [symmetric] link elim!: returnsE)
  next
    case True
    have len: "len \<le> 8192" "unat len \<le> length buf" using f(3,4) True by (simp_all add: word_le_nat_alt)
    from deserialize_safe [of buf len envelope_zero] len(2) obtain r env where
      d: "deserialize buf len envelope_zero = Some (r, env)" "r = OK \<longrightarrow> msg_ok env" by (auto simp: msg_ok_def elim!: returnsE)
    have eq: "TcpBackend_recv_from_client S X b w fd ms = (if r \<noteq> OK then Some (r, b1, w1) else if message_type env = HELLO
        then (if tb_is_server b1 then TcpBackend_process_hello_frame S b1 w1 fd (source_id env) else Some (ERR_AGAIN, b1, w1))
        else accept_frame X b1 w1 fd len env)"
      using True f(1) d(1) op assms(3) by (simp add: TcpBackend_recv_from_client_def b1_def)
    show ?thesis
    proof (cases "r = OK")
      case False
      with eq b1(1) f(2) link [OF same_link_refl] show ?thesis by simp
    next
      case True
      then have env: "msg_ok env" "source_id env \<noteq> 0" using d(2) by (simp_all add: msg_ok_def envelope_valid_def)
      show ?thesis
      proof (cases "message_type env = HELLO")
        case hello: True
        with eq True process_hello_returns [OF b1(1) f(2) assms(3) env(2) b1(3)] b1(1) f(2) link link [OF same_link_refl] show ?thesis
          by (auto elim!: returns_mono)
      next
        case False
        with env have "inbound_ok env" by (simp add: inbound_ok_def)
        with accept_frame_returns [OF b1(1) f(2) assms(3) this len(1)] eq True False b1(2,5-8) show ?thesis
          by (auto simp: authentic_step_def same_role_def elim!: returns_mono)
      qed
    qed
  qed
qed

lemma drain_returns:
  assumes "tcp_inv b" and "I w"
  shows "returns (drain_clients_loop S X revents ms base is b w) (\<lambda>(b', w'). tcp_inv b' \<and> I w' \<and> same_role b b')"
  using assms
proof (induction "is" arbitrary: b w)
  case Nil
  then show ?case by (simp add: same_role_refl)
next
  case (Cons i "is")
  note IH = Cons.IH
  show ?case
  proof (cases "i < tb_client_count b \<and> \<not> base + i \<ge> length revents \<and> revents ! (base + i) AND POLLIN \<noteq> 0")
    case True
    then have n: "0 < tb_client_count b" by auto
    from recv_from_client_returns [OF Cons.prems live_fd [OF Cons.prems(1)] n, of i ms] True obtain r b1 w1 where
      f: "TcpBackend_recv_from_client S X b w (tb_client_fds b ! i) ms = Some (r, b1, w1)" "tcp_inv b1" "I w1" "same_role b b1"
      by (auto elim!: returnsE)
    with True IH [OF f(2,3)] show ?thesis by (auto elim!: returns_mono intro: same_role_trans)
  next
    case False
    with IH [OF Cons.prems] Cons.prems show ?thesis by (auto simp: same_role_refl)
  qed
qed

lemma poll_once_returns:
  assumes "tcp_inv b" and "I w" and "ms \<le> 60000"
  shows "returns (TcpBackend_poll_clients_once S X b w ms) (\<lambda>(b', w'). tcp_inv b' \<and> I w' \<and> same_role b b')"
proof -
  obtain b1 w1 where s: "(if tb_is_server b then TcpBackend_sweep_hello_timeouts S X b w else Some (b, w)) = Some (b1, w1)"
      "tcp_inv b1" "I w1" "same_role b b1"
    using sweep_returns [OF assms(1,2)] assms same_role_refl [of b] by (cases "tb_is_server b") (auto elim!: returnsE dest: same_link_role)
  have len: "length (filter (\<lambda>fd. fd \<ge> 0) (tb_client_fds b1)) \<le> 8"
    using s(2) length_filter_le [of _ "tb_client_fds b1"] by (auto simp: tcp_inv_def table_ok_def)
  obtain pfds hl where pf: "TcpBackend_build_poll_fds b1 9 = Some (pfds, hl)" "length pfds \<le> 9" "hl \<longrightarrow> tb_is_server b1"
    using len by (cases "tb_is_server b1 \<and> 0 \<le> tb_listen_fd b1 \<and> tb_client_count b1 < 8")
      (auto simp: TcpBackend_build_poll_fds_def Let_def)
  obtain rc rev w2 where p: "px_poll X w1 pfds (uint ms) = ((rc, rev), w2)" by (metis surj_pair)
  have w2: "I w2" "length rev = length pfds"
    using poll_contract [OF s(3), where fds = pfds and ms = "uint ms"] p by simp_all
  obtain b3 w3 where a: "(if hl \<and> rev ! 0 AND POLLIN \<noteq> 0 then do { (res, b, w) \<leftarrow> TcpBackend_accept_clients S X b1 w2; Some (b, w) }
      else Some (b1, w2)) = Some (b3, w3)" "tcp_inv b3" "I w3" "same_role b1 b3"
    using accept_returns [OF s(2) w2(1)] pf(3) s(2) w2(1) same_role_refl [of b1]
    by (cases "hl \<and> rev ! 0 AND POLLIN \<noteq> 0") (auto elim!: returnsE dest: same_link_role)
  have role: "same_role b b3" using s(4) a(4) by (rule same_role_trans)
  from drain_returns [OF a(2,3), of rev ms "if hl then 1 else 0" "[0..<8]"] role
  have dr: "returns (drain_clients_loop S X rev ms (if hl then 1 else 0) [0..<8] b3 w3) (\<lambda>(b', w'). tcp_inv b' \<and> I w' \<and> same_role b b')"
    by (auto elim!: returns_mono intro: same_role_trans)
  have "tb_open b" using assms(1) by (simp add: tcp_inv_def)
  with s p pf w2 a dr assms(3) show ?thesis
    by (simp add: TcpBackend_poll_clients_once_def TcpBackend_drain_readable_clients_def del: upt_rec_numeral)
qed

lemma send_to_all_returns:
  assumes "I w" and "0 < len" and "unat len \<le> length buf"
  shows "returns (TcpBackend_send_to_all_clients S b w buf len) (\<lambda>(failed, w'). I w')"
proof -
  have "returns (for_each (send_to_client S b buf len) fds st) (\<lambda>(failed, w'). I w')" if "I (snd st)" for fds st
  proof (rule for_each_inv)
    fix fd and st' :: "bool \<times> 'w" assume "case st' of (failed, w') \<Rightarrow> I w'"
    then obtain a w1 where st': "st' = (a, w1)" "I w1" by (cases st') auto
    with send_frame [OF st'(2), of fd len buf "cc_send_timeout_ms (tb_channel b)"] assms(3)
    show "returns (send_to_client S b buf len fd st') (\<lambda>(failed, w'). I w')"
      by (auto simp: send_to_client_def not_less elim!: returnsE)
  qed (use that in \<open>simp add: case_prod_beta\<close>)
  from this [of "(False, w)"] assms show ?thesis by (simp add: TcpBackend_send_to_all_clients_def)
qed

lemma send_one_returns:
  assumes "tcp_inv b" and "I w" and "msg_ok env"
  shows "returns (TcpBackend_send_one_delayed S b w env) (\<lambda>(r, failed, b', w'). tcp_inv b' \<and> I w' \<and> same_role b b' \<and>
    r \<in> {OK, ERR_IO, ERR_INVALID})"
proof -
  have inv: "length (tb_wire_buf b) = 8192" "table_ok b" "tb_client_count b \<le> 8" using assms(1) by (simp_all add: tcp_inv_def table_ok_def)
  obtain buf len where s: "serialize env (tb_wire_buf b) 8192 0 = Some (OK, buf, len)" "length buf = 8192" "0 < len" "unat len \<le> length buf"
    using serialize_fits [OF inv(1) assms(3)] by metis
  define b1 where "b1 = b\<lparr> tb_wire_buf := buf \<rparr>"
  have b1: "tcp_inv b1" "same_role b b1" using wire_buf_inv [OF assms(1) s(2)] by (simp_all add: b1_def)
  have valid: "envelope_valid env" using assms(3) by (simp add: msg_ok_def)
  show ?thesis
  proof (cases "\<not> tb_is_server b \<or> destination_id env = 0")
    case True
    with s(1) valid inv(3) b1 send_to_all_returns [OF assms(2) s(3,4), of b1] show ?thesis
      by (auto simp: TcpBackend_send_one_delayed_def b1_def Let_def elim!: returnsE)
  next
    case False
    show ?thesis
    proof (cases "first_idx (\<lambda>n. n = destination_id env) (take (tb_client_count b) (tb_client_node_ids b))")
      case None
      with False s(1) valid inv(3) b1 assms(2) show ?thesis
        by (simp add: TcpBackend_send_one_delayed_def TcpBackend_find_client_slot_def b1_def Let_def)
    next
      case (Some i)
      then have i: "i < tb_client_count b" "i < 8" using inv(2,3) by (auto dest: first_idx_lt simp: table_ok_def)
      from send_frame [OF assms(2) live_fd [OF assms(1) i(1)] s(4), of "cc_send_timeout_ms (tb_channel b)"]
        Some False s(1) valid inv(3) b1 i show ?thesis
        by (auto simp: TcpBackend_send_one_delayed_def TcpBackend_find_client_slot_def TcpBackend_send_to_slot_def b1_def Let_def
            elim!: returnsE)
    qed
  qed
qed

lemma flush_returns:
  assumes "tcp_inv b" and "I w" and "now > 0"
  shows "returns (TcpBackend_flush_delayed_to_clients S b w cur now) (\<lambda>(r, b', w'). tcp_inv b' \<and> I w' \<and> same_role b b' \<and>
    r \<in> {OK, ERR_IO, ERR_INVALID})"
proof -
  have lk: "link_ok msg_ok inbound_ok (tb_impairment b)" "32 \<le> length (tb_delay_buf b)" "tb_open b" using assms(1) by (simp_all add: tcp_inv_def)
  from link_collect [OF lk(1,2), of now] obtain n buf imp where
    c: "ImpairmentEngine_collect_deliverable (tb_impairment b) now (tb_delay_buf b) 32 = Some (n, buf, imp)" "link_ok msg_ok inbound_ok imp"
      "32 \<le> length buf" "\<forall>x \<in> set (take n buf). msg_ok x"
    by (auto elim!: returnsE)
  define b1 where "b1 = b\<lparr> tb_impairment := imp, tb_delay_buf := buf \<rparr>"
  have b1: "tcp_inv b1" "same_role b b1" using assms(1) c by (simp_all add: b1_def tcp_inv_def table_ok_def same_role_def)
  let ?J = "\<lambda>(r, b', w'). tcp_inv b' \<and> I w' \<and> same_role b b' \<and> r \<in> {OK, ERR_IO, ERR_INVALID}"
  have "returns (for_each (flush_client_msg S cur) (take n buf) (OK, b1, w)) ?J"
  proof (rule for_each_inv)
    fix m st assume m: "m \<in> set (take n buf)" and "?J st"
    then obtain r b2 w2 where st: "st = (r, b2, w2)" "tcp_inv b2" "I w2" "same_role b b2" "r \<in> {OK, ERR_IO, ERR_INVALID}"
      by (cases st) auto
    from m c(4) have ok: "msg_ok m" by blast
    from send_one_returns [OF st(2,3) ok] st show "returns (flush_client_msg S cur m st) ?J"
      by (auto simp: flush_client_msg_def TcpBackend_apply_send_result_def Let_def same_role_def elim!: returnsE)
  qed (use b1 assms(2) in simp)
  with c lk(3) assms(3) show ?thesis by (simp add: TcpBackend_flush_delayed_to_clients_def b1_def Let_def)
qed

lemma same_role_update [simp]:
  "same_role b (c\<lparr> tb_recv_queue := q \<rparr>) = same_role b c" "same_role b (c\<lparr> tb_impairment := imp \<rparr>) = same_role b c"
  by (simp_all add: same_role_def)

lemma imp_inv_tcp:
  assumes "tcp_inv b" and "link_ok msg_ok inbound_ok imp"
  shows "tcp_inv (b\<lparr> tb_impairment := imp \<rparr>)" "same_role b (b\<lparr> tb_impairment := imp \<rparr>)"
  using assms by (simp_all add: tcp_inv_def table_ok_def same_role_def)

lemma queue_inv_tcp:
  assumes "tcp_inv b" and "queue_holds inbound_ok q"
  shows "tcp_inv (b\<lparr> tb_recv_queue := q \<rparr>)" "same_role b (b\<lparr> tb_recv_queue := q \<rparr>)"
  using assms by (simp_all add: tcp_inv_def table_ok_def same_role_def)

lemma send_message_returns:
  assumes "tcp_inv b" and "I w" and "msg_ok env"
  shows "returns (TcpBackend_send_message S X b w env) (\<lambda>(r, b', w'). tcp_inv b' \<and> I w' \<and> same_role b b' \<and>
    r \<in> {OK, ERR_IO, ERR_INVALID, ERR_FULL})"
proof -
  have op: "tb_open b" "length (tb_wire_buf b) = 8192" using assms(1) by (simp_all add: tcp_inv_def)
  have valid: "envelope_valid env" using assms(3) by (simp add: msg_ok_def)
  obtain buf len where s: "serialize env (tb_wire_buf b) 8192 0 = Some (OK, buf, len)" "length buf = 8192" "0 < len"
    using serialize_fits [OF op(2) assms(3)] by metis
  define b1 where "b1 = b\<lparr> tb_wire_buf := buf \<rparr>"
  have b1: "tcp_inv b1" "same_role b b1" using wire_buf_inv [OF assms(1) s(2)] by (simp_all add: b1_def)
  obtain now w1 where now: "read_clock X w = Some (now, w1)" "I w1" "now > 0" using now_returns [OF assms(2)] by (auto elim!: returnsE)
  have lk: "link_ok msg_ok inbound_ok (tb_impairment b)" using assms(1) by (simp add: tcp_inv_def)
  from link_outbound [OF lk valid assms(3), of now] obtain r imp where
    o: "ImpairmentEngine_process_outbound (tb_impairment b) env now = Some (r, imp)" "link_ok msg_ok inbound_ok imp" "r \<in> {OK, ERR_IO, ERR_FULL}"
    by (auto elim!: returnsE)
  define b2 where "b2 = b1\<lparr> tb_impairment := imp \<rparr>"
  have b2: "tcp_inv b2" "same_role b b2" using imp_inv_tcp [OF b1(1) o(2)] b1(2) by (auto simp: b2_def intro: same_role_trans)
  have "TcpBackend_send_message S X b w env = (if r = ERR_IO then Some (OK, b2, w1) else if r \<noteq> OK then Some (r, b2, w1)
      else if tb_client_count b2 = 0 then Some (OK, b2, w1) else TcpBackend_flush_delayed_to_clients S b2 w1 env now)"
    using op(1) valid s now o(1) by (simp add: TcpBackend_send_message_def b1_def b2_def Let_def case_prod_unfold)
  with flush_returns [OF b2(1) now(2,3), of env] b2 now(2) o(3) show ?thesis
    by (auto elim!: returns_mono intro: same_role_trans)
qed

lemma receive_attempts_returns:
  assumes "tcp_inv b" and "I w"
  shows "returns (receive_attempts S X n b w env) (\<lambda>(r, env', b', w'). tcp_inv b' \<and> I w' \<and> same_role b b' \<and>
    (r = OK \<and> inbound_ok env' \<or> r = ERR_TIMEOUT \<and> env' = env))"
  using assms
proof (induction n arbitrary: b w)
  case 0
  then show ?case by (simp add: same_role_refl)
next
  case (Suc n)
  from poll_once_returns [OF Suc.prems, of 100] obtain b1 w1 where
    p: "TcpBackend_poll_clients_once S X b w 100 = Some (b1, w1)" "tcp_inv b1" "I w1" "same_role b b1" by (auto elim!: returnsE)
  have q1: "queue_holds inbound_ok (tb_recv_queue b1)" using p(2) by (simp add: tcp_inv_def)
  show ?case
  proof (cases "rb_contents (tb_recv_queue b1)")
    case (Cons y ys)
    with queue_pop [OF q1, of env] p queue_inv_tcp [OF p(2)] show ?thesis
      by (auto elim!: returnsE intro: same_role_trans)
  next
    case Nil
    have pop1: "RingBuffer_pop (tb_recv_queue b1) env = Some (ERR_EMPTY, env, tb_recv_queue b1)"
      using queue_pop [OF q1, of env] Nil by (auto elim!: returnsE)
    obtain now w2 where now: "read_clock X w1 = Some (now, w2)" "I w2" "now > 0" using now_returns [OF p(3)] by (auto elim!: returnsE)
    from flush_returns [OF p(2) now(2,3), of envelope_zero] obtain r b3 w3 where
      f: "TcpBackend_flush_delayed_to_clients S b1 w2 envelope_zero now = Some (r, b3, w3)" "tcp_inv b3" "I w3" "same_role b1 b3"
      by (auto elim!: returnsE)
    have role: "same_role b b3" using p(4) f(4) by (rule same_role_trans)
    have q3: "queue_holds inbound_ok (tb_recv_queue b3)" using f(2) by (simp add: tcp_inv_def)
    show ?thesis
    proof (cases "rb_contents (tb_recv_queue b3)")
      case (Cons y ys)
      with queue_pop [OF q3, of env] p(1) pop1 now(1) f(1,3) role queue_inv_tcp [OF f(2)] show ?thesis
        by (auto elim!: returnsE intro: same_role_trans)
    next
      case Nil
      have pop3: "RingBuffer_pop (tb_recv_queue b3) env = Some (ERR_EMPTY, env, tb_recv_queue b3)"
        using queue_pop [OF q3, of env] Nil by (auto elim!: returnsE)
      from Suc.IH [OF f(2,3)] role p(1) pop1 now(1) f(1) pop3 show ?thesis
        by (auto elim!: returns_mono intro: same_role_trans)
    qed
  qed
qed

lemma receive_message_returns:
  assumes "tcp_inv b" and "I w"
  shows "returns (TcpBackend_receive_message S X b w env ms) (\<lambda>(r, env', b', w'). tcp_inv b' \<and> I w' \<and> same_role b b' \<and>
    (r = OK \<and> inbound_ok env' \<or> r = ERR_TIMEOUT \<and> env' = env))"
proof -
  have q: "queue_holds inbound_ok (tb_recv_queue b)" "tb_open b" using assms(1) by (simp_all add: tcp_inv_def)
  show ?thesis
  proof (cases "rb_contents (tb_recv_queue b)")
    case (Cons y ys)
    with queue_pop [OF q(1), of env] q(2) assms queue_inv_tcp [OF assms(1)] show ?thesis
      by (auto simp: TcpBackend_receive_message_def elim!: returnsE)
  next
    case Nil
    have "RingBuffer_pop (tb_recv_queue b) env = Some (ERR_EMPTY, env, tb_recv_queue b)"
      using queue_pop [OF q(1), of env] Nil by (auto elim!: returnsE)
    moreover have "poll_count ms \<le> 50" by (rule poll_count_le)
    ultimately show ?thesis using receive_attempts_returns [OF assms, of "unat (poll_count ms)" env] q(2)
      by (simp add: TcpBackend_receive_message_def)
  qed
qed

lemma pop_hello_returns:
  assumes "tcp_inv b"
  shows "returns (TcpBackend_pop_hello_peer b) (\<lambda>(n, b'). tcp_inv b' \<and> same_role b b')"
  using assms by (auto simp: TcpBackend_pop_hello_peer_def tcp_inv_def table_ok_def same_role_def)

lemma register_local_id_returns:
  assumes "tcp_inv b" and "I w" and "n \<noteq> 0"
  shows "returns (TcpBackend_register_local_id S b w n) (\<lambda>(r, b', w'). tcp_inv b' \<and> I w' \<and> same_role b b')"
proof -
  have op: "tb_open b" "length (tb_wire_buf b) = 8192" using assms(1) by (simp_all add: tcp_inv_def)
  obtain buf len where s: "serialize (envelope_init\<lparr> message_type := HELLO, source_id := n, destination_id := 0, payload_length := 0 \<rparr>)
      (tb_wire_buf b) 8192 0 = Some (OK, buf, len)" "length buf = 8192" "unat len \<le> length buf"
    using serialize_fits [OF op(2) hello_msg_ok [OF assms(3)]] by metis
  define b1 where "b1 = b\<lparr> tb_local_node_id := n, tb_wire_buf := buf \<rparr>"
  have b1: "tcp_inv b1" "same_role b b1" "tcp_inv (b\<lparr> tb_local_node_id := n \<rparr>)" "same_role b (b\<lparr> tb_local_node_id := n \<rparr>)"
    using assms(1) s(2) by (simp_all add: b1_def tcp_inv_def table_ok_def same_role_def)
  show ?thesis
  proof (cases "tb_is_server b")
    case True
    with op assms b1 show ?thesis by (simp add: TcpBackend_register_local_id_def)
  next
    case False
    have "TcpBackend_register_local_id S b w n = (if tb_client_fds b ! 0 < 0 then Some (ERR_IO, b1, w) else do {
        (sent_ok, w) \<leftarrow> so_send_frame S w (tb_client_fds b ! 0) buf len (cc_send_timeout_ms (tb_channel b));
        Some (if sent_ok then OK else ERR_IO, b1, w) })"
      using False op(1) s(1) assms(3) by (simp add: TcpBackend_register_local_id_def TcpBackend_send_hello_frame_def b1_def Let_def)
    with send_frame [OF assms(2) _ s(3), of "tb_client_fds b ! 0" "cc_send_timeout_ms (tb_channel b)"] b1 assms(2) show ?thesis
      by (auto simp: not_less elim!: returnsE)
  qed
qed

text \<open>Opening and closing. The backend is prepared up to the sockets, \<open>b\<close> in the following two lemmas.\<close>

lemma bind_and_listen_returns:
  assumes "I w" and "tb_is_server b" and "tb_listen_fd b < 0" and "\<not> tb_open b"
  shows "returns (TcpBackend_bind_and_listen S b w ip port) (\<lambda>(r, b', w'). I w' \<and>
    (r = OK \<and> (\<exists>fd \<ge> 0. b' = b\<lparr> tb_listen_fd := fd, tb_open := True \<rparr>) \<or> r = ERR_IO \<and> (\<exists>fd < 0. b' = b\<lparr> tb_listen_fd := fd \<rparr>)))"
proof -
  from create_tcp [OF assms(1), of "socket_is_ipv6 ip"] obtain fd w1 where
    c: "so_create_tcp S w (socket_is_ipv6 ip) = Some (fd, w1)" "I w1" by (auto elim!: returnsE)
  show ?thesis
  proof (cases "fd < 0")
    case True
    with c assms(2) show ?thesis by (auto simp: TcpBackend_bind_and_listen_def)
  next
    case False
    then have fd: "fd \<ge> 0" by simp
    from set_reuseaddr [OF c(2) fd] obtain k1 w2 where s1: "so_set_reuseaddr S w1 fd = Some (k1, w2)" "I w2" by (auto elim!: returnsE)
    from do_bind [OF s1(2) fd, of ip port] obtain k2 w3 where s2: "so_do_bind S w2 fd ip port = Some (k2, w3)" "I w3" by (auto elim!: returnsE)
    from do_listen [OF s2(2) fd, of 8] obtain k3 w4 where s3: "so_do_listen S w3 fd 8 = Some (k3, w4)" "I w4" by (auto elim!: returnsE)
    from set_nonblocking [OF s3(2) fd] obtain k4 w5 where s4: "so_set_nonblocking S w4 fd = Some (k4, w5)" "I w5" by (auto elim!: returnsE)
    have "\<exists>k < 0. b\<lparr> tb_listen_fd := - 1 \<rparr> = b\<lparr> tb_listen_fd := k \<rparr>" by (rule exI [of _ "- 1"]) simp
    then have cl: "returns (so_do_close S v fd) (\<lambda>x. I x \<and> (\<exists>k < 0. b\<lparr> tb_listen_fd := - 1 \<rparr> = b\<lparr> tb_listen_fd := k \<rparr>))" if "I v" for v
      using do_close [OF that fd] by (auto elim!: returns_mono)
    from c(1) assms(2) fd s1 s2 s3 s4 cl [OF s1(2)] cl [OF s2(2)] cl [OF s3(2)] cl [OF s4(2)] show ?thesis
      by (cases k1; cases k2; cases k3; cases k4) (auto simp: TcpBackend_bind_and_listen_def)
  qed
qed

lemma connect_to_server_returns:
  assumes "I w" and "\<not> tb_is_server b" and "tb_client_fds b = replicate 8 (- 1)" and "tcf_connect_timeout_ms (tb_cfg b) > 0"
  shows "returns (TcpBackend_connect_to_server S b w) (\<lambda>(r, b', w'). I w' \<and> (r = ERR_IO \<and> b' = b \<or>
    r = OK \<and> (\<exists>fd \<ge> 0. b' = b\<lparr> tb_client_fds := (tb_client_fds b)[0 := fd], tb_client_count := 1, tb_open := True,
      tb_connections_opened := tb_connections_opened b + 1 \<rparr>)))"
proof -
  let ?cfg = "tb_cfg b"
  from create_tcp [OF assms(1), of "socket_is_ipv6 (tcf_peer_ip ?cfg)"] obtain fd w1 where
    c: "so_create_tcp S w (socket_is_ipv6 (tcf_peer_ip ?cfg)) = Some (fd, w1)" "I w1" by (auto elim!: returnsE)
  show ?thesis
  proof (cases "fd < 0")
    case True
    with c assms(2,3) show ?thesis by (auto simp: TcpBackend_connect_to_server_def)
  next
    case False
    then have fd: "fd \<ge> 0" by simp
    from set_reuseaddr [OF c(2) fd] obtain k1 w2 where s1: "so_set_reuseaddr S w1 fd = Some (k1, w2)" "I w2" by (auto elim!: returnsE)
    from connect [OF s1(2) fd assms(4), of "tcf_peer_ip ?cfg" "tcf_peer_port ?cfg"] obtain k2 w3 where
      s2: "so_connect_with_timeout S w2 fd (tcf_peer_ip ?cfg) (tcf_peer_port ?cfg) (tcf_connect_timeout_ms ?cfg) = Some (k2, w3)" "I w3"
      by (auto elim!: returnsE)
    have cl: "returns (so_do_close S v fd) I" if "I v" for v using do_close [OF that fd] .
    from c(1) assms(2,3) fd s1 s2 cl show ?thesis
      by (auto simp: TcpBackend_connect_to_server_def elim!: returns_mono)
  qed
qed

lemma tcp_init_returns:
  assumes "tcp_closed b" and "I w" and "tcp_config_ok config entropy"
  shows "returns (TcpBackend_init S b w config entropy) (\<lambda>(r, b', w'). I w' \<and>
    (r = OK \<and> tcp_inv b' \<and> tb_is_server b' = tcf_is_server config \<and> tb_client_count b' = (if tcf_is_server config then 0 else 1) \<or>
     r \<in> {ERR_IO, ERR_INVALID} \<and> tcp_closed b'))"
proof (cases "transport_config_valid config")
  case False
  with assms show ?thesis by (auto simp: TcpBackend_init_def tcp_closed_def tcp_config_ok_def)
next
  case True
  from assms(1) queue_init [of "tb_recv_queue b" inbound_ok] obtain q where
    q: "RingBuffer_init (tb_recv_queue b) = Some q" "queue_holds inbound_ok q" by (auto simp: tcp_closed_def elim!: returnsE)
  from assms(3) link_init [of "first_impairment config" entropy "tb_impairment b" msg_ok inbound_ok] obtain imp where
    i: "ImpairmentEngine_init (tb_impairment b) (first_impairment config) entropy = Some imp" "link_ok msg_ok inbound_ok imp"
    by (auto simp: tcp_config_ok_def elim!: returnsE)
  define b1 where "b1 = b\<lparr> tb_cfg := config, tb_is_server := tcf_is_server config, tb_recv_queue := q, tb_impairment := imp,
    tb_local_node_id := NODE_ID_INVALID, tb_client_node_ids := replicate 8 NODE_ID_INVALID, tb_client_hello_received := replicate 8 False,
    tb_client_accept_ts := replicate 8 0 \<rparr>"
  have rb: "length (rb_buf q) = 64" using q(2) by (simp add: queue_holds_def rb_inv_def)
  have closed: "tcp_closed (b1\<lparr> tb_listen_fd := fd \<rparr>)" if "fd < 0" for fd
    using assms(1) rb that by (simp add: b1_def tcp_closed_def)
  have b1: "tcp_closed b1" "tb_is_server b1 = tcf_is_server config" "tb_cfg b1 = config"
    using assms(1) rb by (simp_all add: b1_def tcp_closed_def)
  have opened: "tcp_inv (b1\<lparr> tb_listen_fd := fd, tb_open := True \<rparr>)" if "fd \<ge> 0" for fd
    using assms(1) that q(2) i(2) by (simp add: b1_def tcp_inv_def tcp_closed_def table_ok_def)
  have connected: "tcp_inv (b1\<lparr> tb_client_fds := (tb_client_fds b1)[0 := fd], tb_client_count := 1, tb_open := True,
      tb_connections_opened := tb_connections_opened b1 + 1 \<rparr>)" if "fd \<ge> 0" "\<not> tcf_is_server config" for fd
    using assms(1) that q(2) i(2) by (simp add: b1_def tcp_inv_def tcp_closed_def table_ok_def nth_Cons')
  have init: "TcpBackend_init S b w config entropy = do {
      (res, b, w) \<leftarrow> (if tcf_is_server config then TcpBackend_bind_and_listen S b1 w (tcf_bind_ip config) (tcf_bind_port config)
        else TcpBackend_connect_to_server S b1 w);
      if res \<noteq> OK then Some (res, b, w) else do { nc_assert (tb_open b); Some (OK, b, w) } }"
    using True q(1) i(1) assms(1,3) by (simp add: TcpBackend_init_def b1_def tcp_closed_def tcp_config_ok_def)
  show ?thesis
  proof (cases "tcf_is_server config")
    case True
    with b1 have "returns (TcpBackend_bind_and_listen S b1 w (tcf_bind_ip config) (tcf_bind_port config)) (\<lambda>(r, b', w'). I w' \<and>
        (r = OK \<and> (\<exists>fd \<ge> 0. b' = b1\<lparr> tb_listen_fd := fd, tb_open := True \<rparr>) \<or> r = ERR_IO \<and> (\<exists>fd < 0. b' = b1\<lparr> tb_listen_fd := fd \<rparr>)))"
      by (intro bind_and_listen_returns [OF assms(2)]) (simp_all add: tcp_closed_def)
    then obtain r b2 w2 where r: "TcpBackend_bind_and_listen S b1 w (tcf_bind_ip config) (tcf_bind_port config) = Some (r, b2, w2)" "I w2"
        "r = OK \<and> tcp_inv b2 \<and> tb_is_server b2 \<and> tb_client_count b2 = 0 \<and> tb_open b2 \<or> r = ERR_IO \<and> tcp_closed b2"
      using opened closed True b1(1,2) by (auto simp: tcp_closed_def elim!: returnsE)
    with init True show ?thesis by auto
  next
    case False
    with b1 assms(3) have "returns (TcpBackend_connect_to_server S b1 w) (\<lambda>(r, b', w'). I w' \<and> (r = ERR_IO \<and> b' = b1 \<or>
        r = OK \<and> (\<exists>fd \<ge> 0. b' = b1\<lparr> tb_client_fds := (tb_client_fds b1)[0 := fd], tb_client_count := 1, tb_open := True,
          tb_connections_opened := tb_connections_opened b1 + 1 \<rparr>)))"
      by (intro connect_to_server_returns [OF assms(2)]) (simp_all add: tcp_closed_def tcp_config_ok_def)
    then obtain r b2 w2 where r: "TcpBackend_connect_to_server S b1 w = Some (r, b2, w2)" "I w2" "r = ERR_IO \<and> b2 = b1 \<or>
        r = OK \<and> (\<exists>fd \<ge> 0. b2 = b1\<lparr> tb_client_fds := (tb_client_fds b1)[0 := fd], tb_client_count := 1, tb_open := True,
          tb_connections_opened := tb_connections_opened b1 + 1 \<rparr>)"
      by (auto elim!: returnsE)
    with init False b1(1,2) connected show ?thesis by auto
  qed
qed

lemma close_clients_returns:
  assumes "I w" and "length (tb_client_fds b) = 8" and "\<forall>i < 8. 0 \<le> tb_client_fds b ! i \<or> tb_client_fds b ! i = - 1"
  shows "returns (for_each (close_client S) [0..<8] (c, b, w)) (\<lambda>(c', b', w'). I w' \<and> b' = b\<lparr> tb_client_fds := replicate 8 (- 1) \<rparr>)"
proof -
  let ?fds = "\<lambda>k. replicate k (- 1) @ drop k (tb_client_fds b)"
  let ?P = "\<lambda>k (c', b', w'). I w' \<and> b' = b\<lparr> tb_client_fds := ?fds k \<rparr>"
  have "returns (for_each (close_client S) [0..<8] (c, b, w)) (?P 8)"
  proof (rule for_each_upt)
    show "?P 0 (c, b, w)" using assms(1) by simp
  next
    fix k and st :: "u32 \<times> tcp_backend \<times> 'w" assume k: "k < 8" and "?P k st"
    then obtain c' w' where st: "st = (c', b\<lparr> tb_client_fds := ?fds k \<rparr>, w')" "I w'" by (cases st) auto
    have nth: "?fds k ! k = tb_client_fds b ! k" using k assms(2) by (simp add: nth_append)
    have upd: "(?fds k)[k := - 1] = ?fds (Suc k)" using k assms(2) by (simp add: list_update_append Cons_nth_drop_Suc [symmetric] replicate_app_Cons_same)
    show "returns (close_client S k st) (?P (Suc k))"
    proof (cases "0 \<le> tb_client_fds b ! k")
      case True
      with do_close [OF st(2) True] nth upd st show ?thesis by (auto simp: close_client_def elim!: returnsE)
    next
      case False
      with assms(3) k have neg: "tb_client_fds b ! k = - 1" by blast
      then have "?fds k = ?fds (Suc k)" using k upd nth by (metis list_update_id)
      with neg nth st show ?thesis by (auto simp: close_client_def)
    qed
  qed
  then show ?thesis using assms(2) by (auto elim!: returns_mono)
qed

lemma tcp_close_returns:
  assumes "tcp_inv b" and "I w"
  shows "returns (TcpBackend_close S b w) (\<lambda>(b', w'). tcp_closed b' \<and> I w')"
proof -
  obtain b1 w1 where l: "(if tb_listen_fd b \<ge> 0
      then do { w \<leftarrow> so_do_close S w (tb_listen_fd b); Some (b\<lparr> tb_listen_fd := - 1 \<rparr>, w) } else Some (b, w)) = Some (b1, w1)"
      "I w1" "b1 = b\<lparr> tb_listen_fd := tb_listen_fd b1 \<rparr>" "tb_listen_fd b1 < 0"
    using do_close [OF assms(2), of "tb_listen_fd b"] assms(2) by (cases "tb_listen_fd b \<ge> 0") (auto elim!: returnsE)
  have f: "tb_client_fds b1 = tb_client_fds b" using arg_cong [OF l(3), of tb_client_fds] by simp
  have "0 \<le> tb_client_fds b ! i \<or> tb_client_fds b ! i = - 1" if "i < 8" for i
    using assms(1) that by (cases "i < tb_client_count b") (auto simp: tcp_inv_def table_ok_def)
  with close_clients_returns [OF l(2), of b1 0] assms(1) f obtain c w2 where
    c: "for_each (close_client S) [0..<8] (0, b1, w1) = Some (c, b1\<lparr> tb_client_fds := replicate 8 (- 1) \<rparr>, w2)" "I w2"
    by (auto simp: tcp_inv_def table_ok_def elim!: returnsE)
  have "length (rb_buf (tb_recv_queue b)) = 64" using assms(1) by (simp add: tcp_inv_def queue_holds_def rb_inv_def)
  then have "tcp_closed (b1\<lparr> tb_client_fds := replicate 8 (- 1), tb_connections_closed := n, tb_client_count := 0, tb_open := False \<rparr>)" for n
    using l(4) assms(1) by (subst l(3)) (simp add: tcp_closed_def tcp_inv_def)
  with c l(1) show ?thesis by (simp add: TcpBackend_close_def del: upt_rec_numeral)
qed

lemma tcp_transport_keeps: "transport_keeps (tcp_transport S X) (\<lambda>(b, w). tcp_inv b \<and> I w)"
proof -
  have reg: "returns (tr_register_local_id (tcp_transport S X) (b, w) n) (\<lambda>(r, b', w'). tcp_inv b' \<and> I w')"
    if "tcp_inv b" "I w" "n \<noteq> 0" for b w n
    using register_local_id_returns [OF that] by (auto simp: tcp_transport_def elim!: returns_mono)
  have pop: "returns (tr_pop_hello_peer (tcp_transport S X) (b, w)) (\<lambda>(n, b', w'). tcp_inv b' \<and> I w')" if "tcp_inv b" "I w" for b w
    using pop_hello_returns [OF that(1)] that(2) by (auto simp: tcp_transport_def elim!: returnsE)
  have snd: "returns (tr_send_message (tcp_transport S X) (b, w) env)
      (\<lambda>(r, b', w'). tcp_inv b' \<and> I w' \<and> r \<in> {OK, ERR_IO, ERR_INVALID, ERR_FULL})" if "tcp_inv b" "I w" "msg_ok env" for b w env
    using send_message_returns [OF that] by (auto simp: tcp_transport_def elim!: returns_mono)
  have rcv: "returns (tr_receive_message (tcp_transport S X) (b, w) env ms) (\<lambda>(r, env', b', w'). tcp_inv b' \<and> I w' \<and>
      (r = OK \<and> inbound_ok env' \<or> r = ERR_TIMEOUT \<and> env' = env))" if "tcp_inv b" "I w" for b w env ms
    using receive_message_returns [OF that, of env ms] by (auto simp: tcp_transport_def elim!: returns_mono)
  from reg pop snd rcv show ?thesis
    by (auto simp: transport_keeps_def case_prod_unfold)
qed

text \<open>The three outcomes of a HELLO.\<close>

lemma second_hello_evicts:
  assumes "tcp_inv b" and "I w" and "fd \<ge> 0" and "src \<noteq> 0" and "slot_of_fd b fd = Some i" and "tb_client_hello_received b ! i"
  shows "returns (TcpBackend_process_hello_frame S b w fd src) (\<lambda>(r, b', w'). tcp_inv b' \<and> I w' \<and> r = ERR_INVALID \<and>
    clients b' = without i (clients b))"
proof -
  have "0 < tb_client_count b" using slot_of_fd_Some(1) [OF _ assms(5)] assms(1) by (auto simp: tcp_inv_def)
  from evict_slot [OF assms(1-3) this] assms show ?thesis
    by (auto simp: TcpBackend_process_hello_frame_def elim!: returnsE)
qed

lemma taken_hello_evicts:
  assumes "tcp_inv b" and "I w" and "fd \<ge> 0" and "src \<noteq> 0" and "slot_of_fd b fd = Some i" and "\<not> tb_client_hello_received b ! i"
    and "j < tb_client_count b" and "tb_client_node_ids b ! j = src" and "tb_client_fds b ! j \<noteq> fd"
  shows "returns (TcpBackend_process_hello_frame S b w fd src) (\<lambda>(r, b', w'). tcp_inv b' \<and> I w' \<and> r = ERR_AGAIN \<and>
    (\<exists>b1. tcp_inv b1 \<and> clients b1 = without i (clients b) \<and>
       b' = b1\<lparr> tb_client_hello_received := (tb_client_hello_received b1)[i := True] \<rparr>))"
proof -
  have i: "i < tb_client_count b" "i < 8" using slot_of_fd_Some(1) [OF _ assms(5)] assms(1) by (auto simp: tcp_inv_def table_ok_def)
  have "0 < tb_client_count b" using i by simp
  from evict_slot [OF assms(1-3) this] assms(5) obtain b1 w1 where
    e: "TcpBackend_close_and_evict_slot S b w fd = Some (b1, w1)" "tcp_inv b1" "I w1" "clients b1 = without i (clients b)"
    by (auto elim!: returnsE)
  have "TcpBackend_handle_hello_frame S b w fd src = Some (b1, w1)"
    using e(1) assms(3,4,7-9) by (auto simp: TcpBackend_handle_hello_frame_def list_ex_iff)
  with e assms(3-6) i(2) show ?thesis
    by (auto simp: TcpBackend_process_hello_frame_def tcp_inv_def table_ok_def)
qed

lemma first_hello_registers:
  assumes "tcp_inv b" and "I w" and "fd \<ge> 0" and "src \<noteq> 0" and "slot_of_fd b fd = Some i" and "\<not> tb_client_hello_received b ! i"
    and "\<not> (\<exists>j < tb_client_count b. tb_client_node_ids b ! j = src \<and> tb_client_fds b ! j \<noteq> fd)"
  shows "returns (TcpBackend_process_hello_frame S b w fd src) (\<lambda>(r, b', w'). tcp_inv b' \<and> I w' \<and> r = ERR_AGAIN \<and>
    clients b' = (clients b)[i := (fd, src, True, tb_client_accept_ts b ! i)])"
proof -
  have tab: "table_ok b" "tb_hello_queue_write b < 8" using assms(1) by (simp_all add: tcp_inv_def)
  have i: "i < tb_client_count b" "i < 8" "tb_client_fds b ! i = fd"
    using slot_of_fd_Some [OF tab(1) assms(5)] tab by (auto simp: table_ok_def)
  define b1 where "b1 = (enqueue_hello (b\<lparr> tb_client_node_ids := (tb_client_node_ids b)[i := src] \<rparr>) src)
    \<lparr> tb_client_hello_received := (tb_client_hello_received b)[i := True] \<rparr>"
  have tab1: "tb_client_fds b1 = tb_client_fds b" "tb_client_count b1 = tb_client_count b" "tb_client_accept_ts b1 = tb_client_accept_ts b"
      "tb_client_node_ids b1 = (tb_client_node_ids b)[i := src]" "tb_client_hello_received b1 = (tb_client_hello_received b)[i := True]"
    by (simp_all add: b1_def enqueue_hello_def Let_def)
  have inv: "tcp_inv b1" using assms(1) by (auto simp: b1_def enqueue_hello_def tcp_inv_def table_ok_def Let_def)
  have "clients b1 = (clients b)[i := (fd, src, True, tb_client_accept_ts b ! i)]"
  proof (rule nth_equalityI)
    show "length (clients b1) = length ((clients b)[i := (fd, src, True, tb_client_accept_ts b ! i)])"
      using inv tab tab1 by (simp add: length_clients tcp_inv_def)
  next
    fix k assume "k < length (clients b1)"
    with inv tab tab1 i show "clients b1 ! k = (clients b)[i := (fd, src, True, tb_client_accept_ts b ! i)] ! k"
      by (auto simp: length_clients nth_clients nth_list_update tcp_inv_def table_ok_def)
  qed
  moreover have "TcpBackend_handle_hello_frame S b w fd src = Some (enqueue_hello (b\<lparr> tb_client_node_ids := (tb_client_node_ids b)[i := src] \<rparr>) src, w)"
    using assms(3-5,7) by (auto simp: TcpBackend_handle_hello_frame_def list_ex_iff)
  moreover have "tb_client_hello_received (enqueue_hello (b\<lparr> tb_client_node_ids := ids \<rparr>) src) = tb_client_hello_received b" for ids
    by (simp add: enqueue_hello_def Let_def)
  ultimately show ?thesis
    using inv assms(2-6) i tab by (auto simp: TcpBackend_process_hello_frame_def b1_def table_ok_def)
qed

lemma hello_keeps_unique:
  assumes "tcp_inv b" and "I w" and "fd \<ge> 0" and "src \<noteq> 0" and "slot_of_fd b fd = Some i"
    and "distinct (take (tb_client_count b) (tb_client_fds b))" and "unique_ids b"
  shows "returns (TcpBackend_process_hello_frame S b w fd src) (\<lambda>(r, b', w'). tcp_inv b' \<and> I w' \<and> unique_ids b' \<and>
    (if tb_client_hello_received b ! i then r = ERR_INVALID \<and> clients b' = without i (clients b)
     else r = ERR_AGAIN \<and> (if \<exists>j < tb_client_count b. j \<noteq> i \<and> tb_client_node_ids b ! j = src
       then map fst (clients b') = without i (map fst (clients b))
       else clients b' = (clients b)[i := (fd, src, True, tb_client_accept_ts b ! i)])))"
proof -
  let ?n = "tb_client_count b"
  have tab: "table_ok b" using assms(1) by (simp add: tcp_inv_def)
  note i = slot_of_fd_Some [OF tab assms(5)]
  have other: "tb_client_fds b ! j \<noteq> fd \<longleftrightarrow> j \<noteq> i" if "j < ?n" for j
    using nth_eq_iff_index_eq [OF assms(6), of j i] that i tab by (auto simp: table_ok_def)
  have less: "unique_ids b'" if "tcp_inv b'" "clients b' = without i (clients b)" for b'
    using that assms(7) tab distinct_filter_without by (simp add: unique_ids_clients map_without tcp_inv_def)
  show ?thesis
  proof (cases "tb_client_hello_received b ! i")
    case True
    with second_hello_evicts [OF assms(1-5) True] less show ?thesis by (auto elim!: returns_mono)
  next
    case first: False
    show ?thesis
    proof (cases "\<exists>j < ?n. j \<noteq> i \<and> tb_client_node_ids b ! j = src")
      case True
      then obtain j where j: "j < ?n" "tb_client_node_ids b ! j = src" "tb_client_fds b ! j \<noteq> fd" using other by blast
      have flag: "unique_ids (c\<lparr> tb_client_hello_received := h \<rparr>) = unique_ids c"
          "table_ok c \<Longrightarrow> length h = 8 \<Longrightarrow> map fst (clients (c\<lparr> tb_client_hello_received := h \<rparr>)) = map fst (clients c)" for c h
        by (simp_all add: unique_ids_def clients_def table_ok_def Let_def)
      have "map fst (clients (c\<lparr> tb_client_hello_received := (tb_client_hello_received c)[i := True] \<rparr>)) = without i (map fst (clients b))"
        if "tcp_inv c" "clients c = without i (clients b)" for c
        using that by (subst flag(2)) (simp_all add: tcp_inv_def table_ok_def map_without)
      with taken_hello_evicts [OF assms(1-5) first j] first True less flag(1) show ?thesis by (auto elim!: returns_mono)
    next
      case False
      with other have free: "\<not> (\<exists>j < ?n. tb_client_node_ids b ! j = src \<and> tb_client_fds b ! j \<noteq> fd)" by blast
      let ?cs = "map (\<lambda>c. fst (snd c)) (clients b)"
      have "distinct (filter (\<lambda>n. n \<noteq> 0) (?cs[i := src]))"
      proof (rule distinct_filter_update)
        show "distinct (filter (\<lambda>n. n \<noteq> 0) ?cs)" using assms(7) tab by (simp add: unique_ids_clients)
        show "i < length ?cs" using i tab by (simp add: length_clients)
        fix j assume "j < length ?cs" "j \<noteq> i"
        with False tab show "?cs ! j \<noteq> src" by (auto simp: length_clients nth_clients)
      qed
      then have "unique_ids b'" if "tcp_inv b'" "clients b' = (clients b)[i := (fd, src, True, tb_client_accept_ts b ! i)]" for b'
        using that by (simp add: unique_ids_clients tcp_inv_def map_update)
      with first_hello_registers [OF assms(1-5) first free] first False show ?thesis by (auto elim!: returns_mono)
    qed
  qed
qed

text \<open>A HELLO under a name that is taken removes its connection, but marks the slot, where the next connection now stands.\<close>

lemma neighbour_evicted:
  assumes "tcp_inv b" and "I w" and "fd \<ge> 0" and "src \<noteq> 0" and "slot_of_fd b fd = Some i" and "\<not> tb_client_hello_received b ! i"
    and "j < tb_client_count b" and "tb_client_node_ids b ! j = src" and "tb_client_fds b ! j \<noteq> fd"
    and "Suc i < tb_client_count b" and "distinct (take (tb_client_count b) (tb_client_fds b))" and "src2 \<noteq> 0"
  shows "returns (do { (r, b1, w1) \<leftarrow> TcpBackend_process_hello_frame S b w fd src;
      TcpBackend_process_hello_frame S b1 w1 (tb_client_fds b ! Suc i) src2 })
    (\<lambda>(r, b', w'). r = ERR_INVALID \<and> tb_client_fds b ! Suc i \<notin> fst ` set (clients b'))"
proof -
  let ?fd2 = "tb_client_fds b ! Suc i" and ?fds = "map fst (clients b)"
  have tab: "table_ok b" using assms(1) by (simp add: tcp_inv_def)
  from taken_hello_evicts [OF assms(1-9)] obtain b1 w1 c where
    h: "TcpBackend_process_hello_frame S b w fd src = Some (ERR_AGAIN, b1, w1)" "tcp_inv b1" "I w1" "tcp_inv c"
      "clients c = without i (clients b)" "b1 = c\<lparr> tb_client_hello_received := (tb_client_hello_received c)[i := True] \<rparr>"
    by (auto elim!: returnsE)
  have tabs: "table_ok b1" "table_ok c" using h(2,4) by (simp_all add: tcp_inv_def)
  have fds: "map fst (clients b1) = without i ?fds"
    using tabs h(6) fds_clients [of b1] fds_clients [of c] h(5) by (simp add: map_without [symmetric])
  have len: "length ?fds = tb_client_count b" using tab by (simp add: length_clients)
  have n1: "tb_client_count b1 = tb_client_count b - 1"
    using arg_cong [OF fds, of length] tabs(1) len assms(10) by (simp add: length_clients without_def)
  have dist: "distinct (map fst (clients b1))" unfolding fds
    using distinct_filter_without [of "\<lambda>_. True" ?fds i] assms(11) tab by (simp add: fds_clients)
  have ith: "map fst (clients b1) ! i = ?fd2" unfolding fds
    using nth_without [of i ?fds] assms(10) len fds_clients [OF tab] by simp
  have fdi: "tb_client_fds b1 ! i = ?fd2" using ith tabs(1) n1 assms(10) by (simp add: length_clients nth_clients)
  have "?fd2 \<in> set (take (tb_client_count b1) (tb_client_fds b1))" using fdi n1 assms(10) tabs(1)
    by (auto simp: in_set_conv_nth table_ok_def intro!: exI [of _ i])
  then obtain k where k: "slot_of_fd b1 ?fd2 = Some k" using first_idx_Some_ex [of ?fd2 _ "\<lambda>f. f = ?fd2"] by (auto simp: slot_of_fd_def)
  note ki = slot_of_fd_Some [OF tabs(1) k]
  have "k = i" using ki fdi dist n1 assms(10) tabs(1) nth_eq_iff_index_eq [OF dist, of k i] by (simp add: length_clients nth_clients)
  moreover have "tb_client_hello_received b1 ! i"
    using h(6) tabs n1 assms(10) by (auto simp: table_ok_def)
  ultimately have second: "returns (TcpBackend_process_hello_frame S b1 w1 ?fd2 src2) (\<lambda>(r, b', w'). tcp_inv b' \<and> I w' \<and> r = ERR_INVALID \<and>
      clients b' = without i (clients b1))"
    using second_hello_evicts [OF h(2,3) _ assms(12) k] live_fd [OF assms(1) assms(10)] by simp
  have "?fd2 \<notin> set (without i (map fst (clients b1)))"
    using nth_notin_without [OF dist, of i] ith n1 assms(10) tabs(1) by (simp add: length_clients)
  then have "?fd2 \<notin> fst ` set (without i (clients b1))" by (simp add: map_without [symmetric])
  with second h(1) show ?thesis by (auto elim!: returnsE)
qed

text \<open>Losing the only connection of a client.\<close>

lemma client_loss:
  assumes "tcp_inv b" and "I w" and "\<not> tb_is_server b" and "tb_listen_fd b < 0" and "tb_client_count b = 1"
    and "so_recv_frame S w (tb_client_fds b ! 0) (tb_wire_buf b) SOCKET_RECV_BUF_BYTES ms 0 = Some (False, buf, len, w1)"
  shows "returns (TcpBackend_recv_from_client S X b w (tb_client_fds b ! 0) ms) (\<lambda>(r, b', w'). r = ERR_IO \<and> tcp_inv b' \<and>
    TcpBackend_is_open b' = None)"
proof -
  let ?fd = "tb_client_fds b ! 0" and ?b1 = "b\<lparr> tb_wire_buf := buf \<rparr>"
  have op: "tb_open b" "length (tb_wire_buf b) = 8192" "table_ok b" using assms(1) by (simp_all add: tcp_inv_def)
  have fd: "0 \<le> ?fd" using live_fd [OF assms(1), of 0] assms(5) by simp
  from recv_frame [OF assms(2) fd, of SOCKET_RECV_BUF_BYTES "tb_wire_buf b" ms 0] op assms(6)
  have f: "I w1" "length buf = 8192" by (auto elim!: returnsE)
  note inv = wire_buf_inv [OF assms(1) f(2)]
  have slot: "slot_of_fd ?b1 ?fd = Some 0" using assms(5) op(3) by (cases "tb_client_fds b") (auto simp: slot_of_fd_def table_ok_def)
  have tab: "table_ok ?b1" using inv(1) by (simp add: tcp_inv_def)
  from remove_client [OF inv(1) f(1) fd] assms(5) slot obtain b2 w2 where
    r: "TcpBackend_remove_client_fd S ?b1 w1 ?fd = Some (b2, w2)" "tcp_inv b2" "same_link ?b1 b2" "clients b2 = without 0 (clients ?b1)"
    by (auto elim!: returnsE)
  have "length (clients b2) = 0" using r(4) length_clients [OF tab] assms(5) by (simp add: without_def)
  then have "tb_client_count b2 = 0" using r(2) length_clients [of b2] by (simp add: tcp_inv_def)
  moreover have "tb_listen_fd b2 < 0" "tb_open b2" using r(2,3) assms(4) by (simp_all add: same_link_def tcp_inv_def)
  ultimately show ?thesis
    using r assms(6) op(1) fd by (simp add: TcpBackend_recv_from_client_def TcpBackend_is_open_def)
qed

end

section \<open>Properties\<close>


lemma tcp_closed_new: "tcp_closed (TcpBackend_new cfg imp)"
  by (simp add: tcp_closed_def TcpBackend_new_def RingBuffer_new_def)

lemma tcp_config_default: "tcp_config_ok transport_config_default 1"
  by (simp add: tcp_config_ok_def transport_config_default_def first_impairment_def channel_config_default_def imp_config_ok_def
      draws_no_double_def impairment_config_default_def)


text \<open>Claim C18. A server authenticates every frame: whatever arrives on a connection, the messages that wait for the engine grow by
  at most one, and that one names as its sender the node registered on this very connection.\<close>

theorem tcp_source_authenticated:
  assumes "posix_system X I" and "tcp_inv b" and "I w" and "tb_is_server b" and "i < tb_client_count b"
  shows "returns (TcpBackend_recv_from_client (SocketOpsImpl X) X b w (tb_client_fds b ! i) ms)
    (\<lambda>(r, b', w'). tcp_inv b' \<and> authentic_step b (tb_client_fds b ! i) b')"
proof -
  have env: "backend_env (SocketOpsImpl X) I X" by (rule posix_system.env_axioms [OF assms(1)])
  show ?thesis
    using backend_env.recv_from_client_returns [OF env assms(2,3) backend_env.live_fd [OF env assms(2,5)], of ms] assms(4,5)
    by (auto elim!: returns_mono)
qed

lemma tcp_example_table: "table_ok tcp_example" "table_ok tcp_client_example"
  by (simp_all add: table_ok_def tcp_example_def tcp_client_example_def TcpBackend_new_def All_less_Suc numeral_eq_Suc)

lemma tcp_example_inv: "tcp_inv tcp_example" "tcp_inv tcp_client_example"
  using blank_ok [of impairment_config_default msg_ok inbound_ok] rb_inv_new tcp_example_table
  by (auto simp: tcp_inv_def tcp_example_def tcp_client_example_def TcpBackend_new_def queue_holds_def imp_config_ok_def
      draws_no_double_def impairment_config_default_def)

lemma tcp_example_simps:
  "tb_is_server tcp_example" "tb_client_count tcp_example = 3" "tb_client_fds tcp_example = [4, 5, 6, - 1, - 1, - 1, - 1, - 1]"
  "tb_client_node_ids tcp_example = [0, 0, 7, 0, 0, 0, 0, 0]"
  "tb_client_hello_received tcp_example = [False, False, True, False, False, False, False, False]"
  "slot_of_fd tcp_example 4 = Some 0" "clients tcp_example = [(4, 0, False, 1), (5, 0, False, 1), (6, 7, True, 1)]"
  by (simp_all add: tcp_example_def slot_of_fd_def clients_def Let_def)

theorem tcp_source_authenticated_witness:
  "returns (TcpBackend_recv_from_client (SocketOpsImpl posix_loopback) posix_loopback tcp_example ([], []) 5 100)
     (\<lambda>(r, b', w'). tcp_inv b' \<and> authentic_step tcp_example 5 b')"
  using tcp_source_authenticated [OF loopback.posix_system_axioms tcp_example_inv(1) TrueI tcp_example_simps(1), of 1 "([], [])" 100]
  by (simp add: tcp_example_simps)

text \<open>Claim C19. One node, one connection. A HELLO registers its sender if the connection has not said HELLO and the name is free; a
  HELLO under the name of another live connection and a second HELLO remove the connection they came on. No node is ever
  registered on two connections.\<close>

theorem hello_registers_once:
  assumes "posix_system X I" and "tcp_inv b" and "I w" and "fd \<ge> 0" and "src \<noteq> NODE_ID_INVALID" and "slot_of_fd b fd = Some i"
    and "distinct (take (tb_client_count b) (tb_client_fds b))" and "unique_ids b"
  shows "returns (TcpBackend_process_hello_frame (SocketOpsImpl X) b w fd src) (\<lambda>(r, b', w'). tcp_inv b' \<and> unique_ids b' \<and>
    (if tb_client_hello_received b ! i then r = ERR_INVALID \<and> clients b' = without i (clients b)
     else r = ERR_AGAIN \<and> (if \<exists>j < tb_client_count b. j \<noteq> i \<and> tb_client_node_ids b ! j = src
       then map fst (clients b') = without i (map fst (clients b))
       else clients b' = (clients b)[i := (fd, src, True, tb_client_accept_ts b ! i)])))"
proof -
  have env: "backend_env (SocketOpsImpl X) I X" by (rule posix_system.env_axioms [OF assms(1)])
  from assms(5) have "src \<noteq> 0" by simp
  from backend_env.hello_keeps_unique [OF env assms(2-4) this assms(6-8)] show ?thesis
    by (rule returns_mono) (auto split: if_splits)
qed

theorem hello_registers_once_witness:
  "returns (TcpBackend_process_hello_frame (SocketOpsImpl posix_loopback) tcp_example ([], []) 4 8)
     (\<lambda>(r, b', w'). r = ERR_AGAIN \<and> unique_ids b' \<and> clients b' = [(4, 8, True, 1), (5, 0, False, 1), (6, 7, True, 1)])"
proof -
  have free: "\<not> (\<exists>j < tb_client_count tcp_example. j \<noteq> 0 \<and> tb_client_node_ids tcp_example ! j = 8)"
    by (auto simp: tcp_example_simps less_Suc_eq numeral_3_eq_3)
  have ts: "tb_client_accept_ts tcp_example ! 0 = 1" by (simp add: tcp_example_def)
  have ids: "unique_ids tcp_example" "distinct (take (tb_client_count tcp_example) (tb_client_fds tcp_example))"
    by (simp_all add: unique_ids_def tcp_example_simps)
  show ?thesis
    by (rule returns_mono [OF hello_registers_once [OF loopback.posix_system_axioms tcp_example_inv(1) TrueI _ _ tcp_example_simps(6) ids(2,1)]])
      (use free ts in \<open>auto simp: tcp_example_simps\<close>)
qed

text \<open>Claim C20. A HELLO under a name that is taken harms a bystander. Its connection is removed, the table closes the gap, and the mark
  "has said HELLO" goes to the old slot number, where the next connection now stands: that connection's own first HELLO is
  refused as a second one and the connection is closed.\<close>

theorem impostor_hello_evicts_neighbour:
  assumes "posix_system X I" and "tcp_inv b" and "I w" and "fd \<ge> 0" and "src \<noteq> NODE_ID_INVALID" and "slot_of_fd b fd = Some i"
    and "\<not> tb_client_hello_received b ! i" and "j < tb_client_count b" and "tb_client_node_ids b ! j = src" and "tb_client_fds b ! j \<noteq> fd"
    and "Suc i < tb_client_count b" and "distinct (take (tb_client_count b) (tb_client_fds b))" and "src2 \<noteq> NODE_ID_INVALID"
  shows "returns (do { (r, b1, w1) \<leftarrow> TcpBackend_process_hello_frame (SocketOpsImpl X) b w fd src;
      TcpBackend_process_hello_frame (SocketOpsImpl X) b1 w1 (tb_client_fds b ! Suc i) src2 })
    (\<lambda>(r, b', w'). r = ERR_INVALID \<and> tb_client_fds b ! Suc i \<notin> fst ` set (clients b'))"
proof -
  have env: "backend_env (SocketOpsImpl X) I X" by (rule posix_system.env_axioms [OF assms(1)])
  from assms(5,13) have "src \<noteq> 0" "src2 \<noteq> 0" by simp_all
  from backend_env.neighbour_evicted [OF env assms(2-4) this(1) assms(6-12) this(2)] show ?thesis .
qed

theorem impostor_hello_evicts_neighbour_witness:
  "returns (do { (r, b1, w1) \<leftarrow> TcpBackend_process_hello_frame (SocketOpsImpl posix_loopback) tcp_example ([], []) 4 7;
      TcpBackend_process_hello_frame (SocketOpsImpl posix_loopback) b1 w1 5 8 })
    (\<lambda>(r, b', w'). r = ERR_INVALID \<and> 5 \<notin> fst ` set (clients b'))"
  using impostor_hello_evicts_neighbour [OF loopback.posix_system_axioms tcp_example_inv(1) TrueI _ _ tcp_example_simps(6), of 7 2 8 "([], [])"]
  by (simp add: tcp_example_simps)

text \<open>When a client loses its connection to the server, the backend stays open without a socket, and the next call of
  \<open>is_open\<close> trips its assertion.\<close>

theorem client_is_open_aborts_after_loss:
  assumes "posix_system X I" and "tcp_inv b" and "I w" and "\<not> tb_is_server b" and "tb_listen_fd b < 0" and "tb_client_count b = 1"
    and "so_recv_frame (SocketOpsImpl X) w (tb_client_fds b ! 0) (tb_wire_buf b) SOCKET_RECV_BUF_BYTES ms 0 = Some (False, buf, len, w1)"
  shows "returns (TcpBackend_recv_from_client (SocketOpsImpl X) X b w (tb_client_fds b ! 0) ms)
    (\<lambda>(r, b', w'). r = ERR_IO \<and> tb_open b' \<and> TcpBackend_is_open b' = None)"
  by (rule returns_mono [OF backend_env.client_loss [OF posix_system.env_axioms [OF assms(1)] assms(2-7)]]) (auto simp: tcp_inv_def)

theorem client_is_open_aborts_after_loss_witness:
  "returns (TcpBackend_recv_from_client (SocketOpsImpl posix_loopback) posix_loopback tcp_client_example ([], []) 4 100)
    (\<lambda>(r, b', w'). r = ERR_IO \<and> tb_open b' \<and> TcpBackend_is_open b' = None)"
proof -
  have fd: "tb_client_fds tcp_client_example ! 0 = 4" by (simp add: tcp_client_example_def)
  have "so_recv_frame (SocketOpsImpl posix_loopback) ([], []) (tb_client_fds tcp_client_example ! 0) (tb_wire_buf tcp_client_example)
      SOCKET_RECV_BUF_BYTES 100 0 = Some (False, tb_wire_buf tcp_client_example, 0, [], [])"
    by (simp add: fd SocketOpsImpl_def tcp_recv_frame_def socket_recv_exact_def recv_exact_loop.simps posix_loopback_def)
  from client_is_open_aborts_after_loss [OF loopback.posix_system_axioms tcp_example_inv(2) TrueI _ _ _ this] show ?thesis
    by (simp add: fd tcp_client_example_def TcpBackend_new_def)
qed

end
