(* ===== verification/UdpBackend.thy ===== *)
theory UdpBackend
  imports BackendContract
begin

text \<open>
  \<open>src/platform/UdpBackend.cpp\<close>: the transport over one UDP socket to one configured peer. A datagram is taken only from the
  peer's address and port; the first HELLO fixes the peer's node identifier, and data is taken only after it and only under this
  identifier. The definitions, the invariant, and the properties: no call aborts, and received messages are authentic. Strings
  are without the terminating NUL.
\<close>

record udp_backend =
  ub_fd :: int
  ub_wire_buf :: "u8 list"
  ub_cfg :: transport_config
  ub_impairment :: impairment_engine
  ub_recv_queue :: ring_buffer
  ub_open :: bool
  ub_connections_opened :: u32
  ub_connections_closed :: u32
  ub_peer_node_id :: NodeId
  ub_peer_hello_received :: bool
  ub_local_node_id :: NodeId
  ub_delay_buf :: "envelope list"

definition UdpBackend_new :: "transport_config \<Rightarrow> impairment_engine \<Rightarrow> udp_backend" where
  "UdpBackend_new cfg imp = \<lparr> ub_fd = - 1, ub_wire_buf = replicate (unat SOCKET_RECV_BUF_BYTES) 0, ub_cfg = cfg, ub_impairment = imp,
     ub_recv_queue = RingBuffer_new, ub_open = False, ub_connections_opened = 0, ub_connections_closed = 0,
     ub_peer_node_id = NODE_ID_INVALID, ub_peer_hello_received = False, ub_local_node_id = NODE_ID_INVALID,
     ub_delay_buf = replicate IMPAIR_DELAY_BUF_SIZE envelope_zero \<rparr>"

section \<open>Opening\<close>

definition UdpBackend_init :: "'w socket_ops \<Rightarrow> udp_backend \<Rightarrow> 'w \<Rightarrow> transport_config \<Rightarrow> u64 \<Rightarrow> (Result \<times> udp_backend \<times> 'w) option" where
  "UdpBackend_init S b w config entropy = do {
     nc_assert (tcf_kind config = UDP);
     nc_assert (\<not> ub_open b);
     if \<not> transport_config_valid config then Some (ERR_INVALID, b, w)
     else if tcf_peer_ip config = [] \<or> tcf_peer_ip config = ''0.0.0.0'' \<or> tcf_peer_ip config = ''::'' then Some (ERR_INVALID, b, w)
     else do {
       let b = b\<lparr> ub_cfg := config \<rparr>;
       (fd, w) \<leftarrow> so_create_udp S w (socket_is_ipv6 (tcf_bind_ip config));
       let b = b\<lparr> ub_fd := fd \<rparr>;
       if fd < 0 then Some (ERR_IO, b, w)
       else do {
         (ok, w) \<leftarrow> so_set_reuseaddr S w fd;
         if \<not> ok then do { w \<leftarrow> so_do_close S w fd; Some (ERR_IO, b\<lparr> ub_fd := - 1 \<rparr>, w) }
         else do {
           (ok, w) \<leftarrow> so_do_bind S w fd (tcf_bind_ip config) (tcf_bind_port config);
           if \<not> ok then do { w \<leftarrow> so_do_close S w fd; Some (ERR_IO, b\<lparr> ub_fd := - 1 \<rparr>, w) }
           else do {
             q \<leftarrow> RingBuffer_init (ub_recv_queue b);
             imp \<leftarrow> ImpairmentEngine_init (ub_impairment b) (first_impairment config) entropy;
             let b = b\<lparr> ub_recv_queue := q, ub_impairment := imp, ub_open := True,
               ub_connections_opened := ub_connections_opened b + 1 \<rparr>;
             nc_assert (ub_fd b \<ge> 0);
             nc_assert (ub_open b);
             Some (OK, b, w)
           }
         }
       }
     }
   }"

section \<open>Sending\<close>

definition UdpBackend_send_hello_datagram :: "'w socket_ops \<Rightarrow> udp_backend \<Rightarrow> 'w \<Rightarrow> (Result \<times> udp_backend \<times> 'w) option" where
  "UdpBackend_send_hello_datagram S b w = do {
     nc_assert (ub_local_node_id b \<noteq> NODE_ID_INVALID);
     nc_assert (ub_fd b \<ge> 0);
     if tcf_peer_ip (ub_cfg b) = [] \<or> tcf_peer_port (ub_cfg b) = 0 then Some (ERR_INVALID, b, w)
     else do {
       let hello = envelope_init\<lparr> message_type := HELLO, source_id := ub_local_node_id b, destination_id := NODE_ID_INVALID,
         payload_length := 0 \<rparr>;
       (res, buf, wire_len) \<leftarrow> serialize hello (ub_wire_buf b) SOCKET_RECV_BUF_BYTES 0;
       let b = b\<lparr> ub_wire_buf := buf \<rparr>;
       if res \<noteq> OK then Some (res, b, w)
       else do {
         (ok, w) \<leftarrow> so_send_to S w (ub_fd b) (ub_wire_buf b) wire_len (tcf_peer_ip (ub_cfg b)) (tcf_peer_port (ub_cfg b));
         if \<not> ok then Some (ERR_IO, b, w)
         else do {
           nc_assert (wire_len > 0);
           Some (OK, b, w)
         }
       }
     }
   }"

definition UdpBackend_register_local_id :: "'w socket_ops \<Rightarrow> udp_backend \<Rightarrow> 'w \<Rightarrow> NodeId \<Rightarrow> (Result \<times> udp_backend \<times> 'w) option" where
  "UdpBackend_register_local_id S b w n = do {
     nc_assert (n \<noteq> NODE_ID_INVALID);
     nc_assert (ub_open b);
     UdpBackend_send_hello_datagram S (b\<lparr> ub_local_node_id := n \<rparr>) w
   }"

text \<open>The result tells whether the send failed and the failure belongs to the caller.\<close>

definition UdpBackend_send_one_envelope :: "'w socket_ops \<Rightarrow> udp_backend \<Rightarrow> 'w \<Rightarrow> envelope \<Rightarrow> bool \<Rightarrow> (bool \<times> udp_backend \<times> 'w) option" where
  "UdpBackend_send_one_envelope S b w env is_current = do {
     nc_assert (ub_fd b \<ge> 0);
     (res, buf, dlen) \<leftarrow> serialize env (ub_wire_buf b) SOCKET_RECV_BUF_BYTES 0;
     let b = b\<lparr> ub_wire_buf := buf \<rparr>;
     if res \<noteq> OK then Some (is_current, b, w)
     else do {
       (ok, w) \<leftarrow> so_send_to S w (ub_fd b) (ub_wire_buf b) dlen (tcf_peer_ip (ub_cfg b)) (tcf_peer_port (ub_cfg b));
       Some (if ok then False else is_current, b, w)
     }
   }"

definition send_batch_item :: "'w socket_ops \<Rightarrow> envelope \<Rightarrow> envelope \<Rightarrow> bool \<times> udp_backend \<times> 'w \<Rightarrow> (bool \<times> udp_backend \<times> 'w) option" where
  "send_batch_item S envelope m = (\<lambda>(current_failed, b, w). do {
     let is_current = (source_id m = source_id envelope \<and> message_id m = message_id envelope);
     (failed, b, w) \<leftarrow> UdpBackend_send_one_envelope S b w m is_current;
     Some (if failed then True else current_failed, b, w)
   })"

definition UdpBackend_flush_outbound_batch ::
    "'w socket_ops \<Rightarrow> udp_backend \<Rightarrow> 'w \<Rightarrow> envelope \<Rightarrow> nat \<Rightarrow> (bool \<times> udp_backend \<times> 'w) option" where
  "UdpBackend_flush_outbound_batch S b w envelope n = do {
     nc_assert (n \<le> IMPAIR_DELAY_BUF_SIZE);
     for_each (send_batch_item S envelope) (take n (ub_delay_buf b)) (False, b, w)
   }"

definition UdpBackend_send_message :: "'w socket_ops \<Rightarrow> 'w posix \<Rightarrow> udp_backend \<Rightarrow> 'w \<Rightarrow> envelope \<Rightarrow> (Result \<times> udp_backend \<times> 'w) option" where
  "UdpBackend_send_message S X b w envelope = do {
     nc_assert (ub_open b);
     nc_assert (ub_fd b \<ge> 0);
     nc_assert (envelope_valid envelope);
     (res, buf, wire_len) \<leftarrow> serialize envelope (ub_wire_buf b) SOCKET_RECV_BUF_BYTES 0;
     let b = b\<lparr> ub_wire_buf := buf \<rparr>;
     if res \<noteq> OK then Some (res, b, w)
     else if wire_len > DTLS_MAX_DATAGRAM_BYTES then Some (ERR_INVALID, b, w)
     else do {
       (now_us, w) \<leftarrow> read_clock X w;
       (res, imp) \<leftarrow> ImpairmentEngine_process_outbound (ub_impairment b) envelope now_us;
       let b = b\<lparr> ub_impairment := imp \<rparr>;
       if res = ERR_IO then Some (OK, b, w)
       else if res \<noteq> OK then Some (res, b, w)
       else do {
         (n, dbuf, imp) \<leftarrow> ImpairmentEngine_collect_deliverable (ub_impairment b) now_us (ub_delay_buf b) IMPAIR_DELAY_BUF_SIZE;
         let b = b\<lparr> ub_impairment := imp, ub_delay_buf := dbuf \<rparr>;
         (failed, b, w) \<leftarrow> UdpBackend_flush_outbound_batch S b w envelope n;
         if failed then Some (ERR_IO, b, w)
         else do {
           nc_assert (wire_len > 0);
           Some (OK, b, w)
         }
       }
     }
   }"

section \<open>Receiving\<close>

definition UdpBackend_validate_source :: "udp_backend \<Rightarrow> string \<Rightarrow> u16 \<Rightarrow> bool option" where
  "UdpBackend_validate_source b src_ip src_port = do {
     nc_assert (tcf_peer_ip (ub_cfg b) \<noteq> []);
     Some (src_ip = tcf_peer_ip (ub_cfg b) \<and> src_port = tcf_peer_port (ub_cfg b))
   }"

text \<open>The result and the out-parameter \<open>consumed\<close>.\<close>

definition UdpBackend_process_hello_or_validate :: "udp_backend \<Rightarrow> envelope \<Rightarrow> (bool \<times> bool \<times> udp_backend) option" where
  "UdpBackend_process_hello_or_validate b env = do {
     nc_assert (ub_open b);
     nc_assert (ub_fd b \<ge> 0);
     if message_type env = HELLO then
       if ub_peer_hello_received b then Some (False, False, b)
       else Some (True, True, b\<lparr> ub_peer_node_id := source_id env, ub_peer_hello_received := True \<rparr>)
     else if \<not> ub_peer_hello_received b then Some (False, False, b)
     else if source_id env \<noteq> ub_peer_node_id b then Some (False, False, b)
     else Some (True, False, b)
   }"

definition UdpBackend_recv_one_datagram :: "'w socket_ops \<Rightarrow> 'w posix \<Rightarrow> udp_backend \<Rightarrow> 'w \<Rightarrow> u32 \<Rightarrow> (bool \<times> udp_backend \<times> 'w) option" where
  "UdpBackend_recv_one_datagram S X b w timeout_ms = do {
     nc_assert (ub_open b);
     nc_assert (ub_fd b \<ge> 0);
     (ok, buf, (out_len, src_ip, src_port), w) \<leftarrow> so_recv_from S w (ub_fd b) (ub_wire_buf b) SOCKET_RECV_BUF_BYTES timeout_ms (0, [], 0);
     let b = b\<lparr> ub_wire_buf := buf \<rparr>;
     if \<not> ok then Some (False, b, w)
     else do {
       source_ok \<leftarrow> UdpBackend_validate_source b src_ip src_port;
       if \<not> source_ok then Some (False, b, w)
       else do {
         (res, env) \<leftarrow> deserialize (ub_wire_buf b) out_len envelope_zero;
         if res \<noteq> OK then Some (False, b, w)
         else do {
           (accepted, consumed, b) \<leftarrow> UdpBackend_process_hello_or_validate b env;
           if \<not> accepted then Some (False, b, w)
           else if consumed then Some (False, b, w)
           else do {
             (now_us, w) \<leftarrow> read_clock X w;
             (res, inbound_out, inbound_count, imp) \<leftarrow> ImpairmentEngine_process_inbound (ub_impairment b) env now_us [envelope_zero] 1;
             let b = b\<lparr> ub_impairment := imp \<rparr>;
             if res = ERR_IO then Some (False, b, w)
             else if inbound_count = 0 then Some (False, b, w)
             else do {
               nc_assert (inbound_count = 1);
               (res, q) \<leftarrow> RingBuffer_push (ub_recv_queue b) (inbound_out ! 0);
               Some (res = OK, b\<lparr> ub_recv_queue := q \<rparr>, w)
             }
           }
         }
       }
     }
   }"

definition flush_wire_item :: "'w socket_ops \<Rightarrow> envelope \<Rightarrow> udp_backend \<times> 'w \<Rightarrow> (udp_backend \<times> 'w) option" where
  "flush_wire_item S m = (\<lambda>(b, w). do {
     (send_failed, b, w) \<leftarrow> UdpBackend_send_one_envelope S b w m False;
     Some (b, w)
   })"

definition UdpBackend_flush_delayed_to_wire :: "'w socket_ops \<Rightarrow> udp_backend \<Rightarrow> 'w \<Rightarrow> u64 \<Rightarrow> (udp_backend \<times> 'w) option" where
  "UdpBackend_flush_delayed_to_wire S b w now_us = do {
     nc_assert (now_us > 0);
     nc_assert (ub_open b);
     (n, dbuf, imp) \<leftarrow> ImpairmentEngine_collect_deliverable (ub_impairment b) now_us (ub_delay_buf b) IMPAIR_DELAY_BUF_SIZE;
     let b = b\<lparr> ub_impairment := imp, ub_delay_buf := dbuf \<rparr>;
     for_each (flush_wire_item S) (take n dbuf) (b, w)
   }"

primrec udp_receive_attempts :: "'w socket_ops \<Rightarrow> 'w posix \<Rightarrow> nat \<Rightarrow> udp_backend \<Rightarrow> 'w \<Rightarrow> envelope \<Rightarrow>
    (Result \<times> envelope \<times> udp_backend \<times> 'w) option" where
  "udp_receive_attempts S X 0 b w envelope = Some (ERR_TIMEOUT, envelope, b, w)"
| "udp_receive_attempts S X (Suc n) b w envelope = do {
     (_, b, w) \<leftarrow> UdpBackend_recv_one_datagram S X b w 100;
     (res, envelope, q) \<leftarrow> RingBuffer_pop (ub_recv_queue b) envelope;
     let b = b\<lparr> ub_recv_queue := q \<rparr>;
     if res = OK then Some (res, envelope, b, w)
     else do {
       (now_us, w) \<leftarrow> read_clock X w;
       (b, w) \<leftarrow> UdpBackend_flush_delayed_to_wire S b w now_us;
       (res, envelope, q) \<leftarrow> RingBuffer_pop (ub_recv_queue b) envelope;
       let b = b\<lparr> ub_recv_queue := q \<rparr>;
       if res = OK then Some (res, envelope, b, w)
       else udp_receive_attempts S X n b w envelope
     }
   }"

definition UdpBackend_receive_message ::
    "'w socket_ops \<Rightarrow> 'w posix \<Rightarrow> udp_backend \<Rightarrow> 'w \<Rightarrow> envelope \<Rightarrow> u32 \<Rightarrow> (Result \<times> envelope \<times> udp_backend \<times> 'w) option" where
  "UdpBackend_receive_message S X b w envelope timeout_ms = do {
     nc_assert (ub_open b);
     nc_assert (ub_fd b \<ge> 0);
     (res, envelope, q) \<leftarrow> RingBuffer_pop (ub_recv_queue b) envelope;
     let b = b\<lparr> ub_recv_queue := q \<rparr>;
     if res = OK then Some (res, envelope, b, w)
     else do {
       nc_assert (poll_count timeout_ms \<le> 50);
       udp_receive_attempts S X (unat (poll_count timeout_ms)) b w envelope
     }
   }"

section \<open>Closing and statistics\<close>

definition UdpBackend_close :: "'w socket_ops \<Rightarrow> udp_backend \<Rightarrow> 'w \<Rightarrow> (udp_backend \<times> 'w) option" where
  "UdpBackend_close S b w = do {
     (b, w) \<leftarrow> (if ub_fd b \<ge> 0 then do {
         w \<leftarrow> so_do_close S w (ub_fd b);
         Some (b\<lparr> ub_fd := - 1, ub_connections_closed := ub_connections_closed b + 1 \<rparr>, w)
       } else Some (b, w));
     Some (b\<lparr> ub_peer_node_id := NODE_ID_INVALID, ub_peer_hello_received := False, ub_open := False \<rparr>, w)
   }"

definition UdpBackend_is_open :: "udp_backend \<Rightarrow> bool option" where
  "UdpBackend_is_open b = do {
     nc_assert (ub_open b = (ub_fd b \<ge> 0) \<or> \<not> ub_open b);
     Some (ub_open b)
   }"

definition UdpBackend_get_transport_stats :: "udp_backend \<Rightarrow> transport_stats option" where
  "UdpBackend_get_transport_stats b = do {
     nc_assert (ub_connections_opened b \<ge> ub_connections_closed b);
     nc_assert (ub_connections_closed b \<le> ub_connections_opened b);
     imp \<leftarrow> ImpairmentEngine_get_stats (ub_impairment b);
     Some \<lparr> connections_opened = ub_connections_opened b, connections_closed = ub_connections_closed b, ts_impairment = imp \<rparr>
   }"

text \<open>The backend as the transport of a delivery engine; \<open>pop_hello_peer\<close> is the default of the interface.\<close>

definition udp_transport :: "'w socket_ops \<Rightarrow> 'w posix \<Rightarrow> (udp_backend \<times> 'w) transport" where
  "udp_transport S X = \<lparr>
     tr_register_local_id = (\<lambda>(b, w) n. UdpBackend_register_local_id S b w n),
     tr_pop_hello_peer = (\<lambda>(b, w). Some (NODE_ID_INVALID, b, w)),
     tr_send_message = (\<lambda>(b, w) env. UdpBackend_send_message S X b w env),
     tr_receive_message = (\<lambda>(b, w) env ms. UdpBackend_receive_message S X b w env ms),
     tr_get_transport_stats = (\<lambda>(b, w) out. UdpBackend_get_transport_stats b) \<rparr>"

section \<open>Invariant\<close>

definition udp_inv :: "udp_backend \<Rightarrow> bool" where
  "udp_inv b \<longleftrightarrow> ub_open b \<and> 0 \<le> ub_fd b \<and> tcf_peer_ip (ub_cfg b) \<noteq> [] \<and> length (ub_wire_buf b) = 8192 \<and>
     link_ok msg_ok inbound_ok (ub_impairment b) \<and> queue_holds inbound_ok (ub_recv_queue b) \<and> 32 \<le> length (ub_delay_buf b)"

definition udp_closed :: "udp_backend \<Rightarrow> bool" where
  "udp_closed b \<longleftrightarrow> \<not> ub_open b \<and> ub_fd b < 0 \<and> \<not> ub_peer_hello_received b \<and> length (ub_wire_buf b) = 8192 \<and>
     length (rb_buf (ub_recv_queue b)) = 64 \<and> 32 \<le> length (ub_delay_buf b)"

definition udp_config_ok :: "transport_config \<Rightarrow> u64 \<Rightarrow> bool" where
  "udp_config_ok config entropy \<longleftrightarrow> tcf_kind config = UDP \<and> imp_config_ok (first_impairment config) \<and>
     (ic_prng_seed (first_impairment config) \<noteq> 0 \<or> entropy \<noteq> 0)"

definition udp_waiting :: "udp_backend \<Rightarrow> envelope set" where
  "udp_waiting b = set (rb_contents (ub_recv_queue b)) \<union> set (window (ub_impairment b))"

text \<open>The peer's registration and its address do not change, except that the first HELLO registers the peer.\<close>

definition same_peer :: "udp_backend \<Rightarrow> udp_backend \<Rightarrow> bool" where
  "same_peer b b' \<longleftrightarrow> ub_cfg b' = ub_cfg b \<and>
     (ub_peer_hello_received b \<longrightarrow> ub_peer_hello_received b' \<and> ub_peer_node_id b' = ub_peer_node_id b)"

text \<open>What one datagram may add: nothing, or one message of the registered peer.\<close>

definition udp_authentic_step :: "udp_backend \<Rightarrow> udp_backend \<Rightarrow> string \<Rightarrow> u16 \<Rightarrow> bool" where
  "udp_authentic_step b b' ip port \<longleftrightarrow> udp_waiting b' \<subseteq> udp_waiting b \<or>
     ip = tcf_peer_ip (ub_cfg b) \<and> port = tcf_peer_port (ub_cfg b) \<and> ub_peer_hello_received b \<and>
     (\<exists>env. inbound_ok env \<and> source_id env = ub_peer_node_id b \<and> udp_waiting b' \<subseteq> insert env (udp_waiting b))"

text \<open>A backend that has heard the HELLO of node 7 from 10.0.0.7, port 9001.\<close>

definition udp_example :: udp_backend where
  "udp_example = (UdpBackend_new (transport_config_default\<lparr> tcf_kind := UDP, tcf_peer_ip := ''10.0.0.7'', tcf_peer_port := 9001 \<rparr>)
     (imp_blank impairment_config_default))\<lparr> ub_open := True, ub_fd := 3, ub_peer_hello_received := True, ub_peer_node_id := 7 \<rparr>"

lemma same_peer_refl: "same_peer b b"
  by (simp add: same_peer_def)

lemma same_peer_trans: "same_peer a b \<Longrightarrow> same_peer b c \<Longrightarrow> same_peer a c"
  by (auto simp: same_peer_def)

lemma udp_wire_buf:
  assumes "udp_inv b" and "length buf = 8192"
  shows "udp_inv (b\<lparr> ub_wire_buf := buf \<rparr>)" "same_peer b (b\<lparr> ub_wire_buf := buf \<rparr>)" "udp_waiting (b\<lparr> ub_wire_buf := buf \<rparr>) = udp_waiting b"
  using assms by (simp_all add: udp_inv_def same_peer_def udp_waiting_def)

lemma udp_imp_queue:
  assumes "udp_inv b" and "link_ok msg_ok inbound_ok imp" and "queue_holds inbound_ok q"
  shows "udp_inv (b\<lparr> ub_impairment := imp \<rparr>)" "udp_inv (b\<lparr> ub_recv_queue := q \<rparr>)" "udp_inv (b\<lparr> ub_impairment := imp, ub_recv_queue := q \<rparr>)"
  using assms by (simp_all add: udp_inv_def)

lemma same_peer_update [simp]:
  "same_peer b (c\<lparr> ub_recv_queue := q \<rparr>) = same_peer b c" "same_peer b (c\<lparr> ub_impairment := imp \<rparr>) = same_peer b c"
  "same_peer b (c\<lparr> ub_delay_buf := d \<rparr>) = same_peer b c"
  by (simp_all add: same_peer_def)

context backend_env
begin

lemma udp_send_one:
  assumes "udp_inv b" and "I w" and "msg_ok env"
  shows "returns (UdpBackend_send_one_envelope S b w env cur) (\<lambda>(failed, b', w'). udp_inv b' \<and> I w' \<and> same_peer b b' \<and> (failed \<longrightarrow> cur))"
proof -
  have inv: "length (ub_wire_buf b) = 8192" "0 \<le> ub_fd b" using assms(1) by (simp_all add: udp_inv_def)
  obtain buf len where s: "serialize env (ub_wire_buf b) 8192 0 = Some (OK, buf, len)" "length buf = 8192" "0 < len" "unat len \<le> length buf"
    using serialize_fits [OF inv(1) assms(3)] by metis
  from send_to [OF assms(2) inv(2) s(3,4), of "tcf_peer_ip (ub_cfg b)" "tcf_peer_port (ub_cfg b)"] s(1) inv udp_wire_buf [OF assms(1) s(2)]
  show ?thesis by (auto simp: UdpBackend_send_one_envelope_def elim!: returnsE)
qed

lemma udp_flush_batch:
  assumes "udp_inv b" and "I w" and "n \<le> 32" and "\<forall>m \<in> set (take n (ub_delay_buf b)). msg_ok m"
  shows "returns (UdpBackend_flush_outbound_batch S b w env n) (\<lambda>(failed, b', w'). udp_inv b' \<and> I w' \<and> same_peer b b')"
proof -
  let ?J = "\<lambda>(failed :: bool, b', w'). udp_inv b' \<and> I w' \<and> same_peer b b'"
  have "returns (for_each (send_batch_item S env) (take n (ub_delay_buf b)) (False, b, w)) ?J"
  proof (rule for_each_inv)
    fix m st assume m: "m \<in> set (take n (ub_delay_buf b))" and "?J st"
    then obtain f b2 w2 where st: "st = (f, b2, w2)" "udp_inv b2" "I w2" "same_peer b b2" by (cases st) auto
    from m assms(4) have ok: "msg_ok m" by blast
    from udp_send_one [OF st(2,3) ok, of "source_id m = source_id env \<and> message_id m = message_id env"] st(1,4) show "returns (send_batch_item S env m st) ?J"
      by (auto simp: send_batch_item_def elim!: returnsE intro: same_peer_trans)
  qed (use assms in \<open>simp add: same_peer_refl\<close>)
  with assms(3) show ?thesis by (simp add: UdpBackend_flush_outbound_batch_def)
qed

text \<open>Collecting the messages whose time has come, into the scratch buffer.\<close>

lemma udp_collect:
  assumes "udp_inv b"
  obtains n dbuf imp where
    "ImpairmentEngine_collect_deliverable (ub_impairment b) now (ub_delay_buf b) 32 = Some (n, dbuf, imp)"
    "udp_inv (b\<lparr> ub_impairment := imp, ub_delay_buf := dbuf \<rparr>)" "n \<le> 32" "\<forall>m \<in> set (take n dbuf). msg_ok m"
proof -
  have lk: "link_ok msg_ok inbound_ok (ub_impairment b)" "32 \<le> length (ub_delay_buf b)" using assms by (simp_all add: udp_inv_def)
  from link_collect [OF lk, of now] that assms show ?thesis by (auto simp: udp_inv_def elim!: returnsE)
qed

lemma udp_send_message_returns:
  assumes "udp_inv b" and "I w" and "msg_ok env"
  shows "returns (UdpBackend_send_message S X b w env) (\<lambda>(r, b', w'). udp_inv b' \<and> I w' \<and> same_peer b b' \<and>
    r \<in> {OK, ERR_IO, ERR_INVALID, ERR_FULL} \<and> (52 + payload_length env > 1400 \<longrightarrow> r = ERR_INVALID))"
proof -
  have inv: "length (ub_wire_buf b) = 8192" "0 \<le> ub_fd b" "ub_open b" "link_ok msg_ok inbound_ok (ub_impairment b)"
    using assms(1) by (simp_all add: udp_inv_def)
  have valid: "envelope_valid env" using assms(3) by (simp add: msg_ok_def)
  obtain buf where s: "serialize env (ub_wire_buf b) 8192 0 = Some (OK, buf, 52 + payload_length env)" "length buf = 8192"
      "0 < 52 + payload_length env"
    using serialize_fits [OF inv(1) assms(3)] by metis
  define b1 where "b1 = b\<lparr> ub_wire_buf := buf \<rparr>"
  have b1: "udp_inv b1" "same_peer b b1" using udp_wire_buf [OF assms(1) s(2)] by (simp_all add: b1_def)
  show ?thesis
  proof (cases "52 + payload_length env > 1400")
    case True
    with s(1) inv valid b1 assms(2) show ?thesis by (simp add: UdpBackend_send_message_def b1_def)
  next
    case False
    obtain now w1 where now: "read_clock X w = Some (now, w1)" "I w1" using now_returns [OF assms(2)] by (auto elim!: returnsE)
    from link_outbound [OF inv(4) valid assms(3), of now] obtain r imp where
      o: "ImpairmentEngine_process_outbound (ub_impairment b) env now = Some (r, imp)" "link_ok msg_ok inbound_ok imp" "r \<in> {OK, ERR_IO, ERR_FULL}"
      by (auto elim!: returnsE)
    define b2 where "b2 = b1\<lparr> ub_impairment := imp \<rparr>"
    have b2: "udp_inv b2" "same_peer b b2" using b1 o(2) by (simp_all add: b2_def udp_inv_def)
    obtain n dbuf imp2 where c: "ImpairmentEngine_collect_deliverable (ub_impairment b2) now (ub_delay_buf b2) 32 = Some (n, dbuf, imp2)"
        "udp_inv (b2\<lparr> ub_impairment := imp2, ub_delay_buf := dbuf \<rparr>)" "n \<le> 32" "\<forall>m \<in> set (take n dbuf). msg_ok m"
      using udp_collect [OF b2(1), of now] by metis
    define b3 where "b3 = b2\<lparr> ub_impairment := imp2, ub_delay_buf := dbuf \<rparr>"
    have b3: "udp_inv b3" "same_peer b b3" "take n (ub_delay_buf b3) = take n dbuf" using c(2) b2(2) by (simp_all add: b3_def)
    have "UdpBackend_send_message S X b w env = (if r = ERR_IO then Some (OK, b2, w1) else if r \<noteq> OK then Some (r, b2, w1)
        else UdpBackend_flush_outbound_batch S b3 w1 env n \<bind> (\<lambda>(failed, b, w). if failed then Some (ERR_IO, b, w)
          else nc_assert (0 < 52 + payload_length env) \<bind> (\<lambda>_. Some (OK, b, w))))"
      using inv(2,3) valid s(1) False now(1) o(1) c(1) by (simp add: UdpBackend_send_message_def b1_def b2_def b3_def Let_def)
    with udp_flush_batch [OF b3(1) now(2) c(3), of env] c(4) b3(2,3) b2 now(2) o(3) False s(3) show ?thesis
      by (auto elim!: returnsE intro: same_peer_trans)
  qed
qed

lemma udp_register_returns:
  assumes "udp_inv b" and "I w" and "n \<noteq> 0"
  shows "returns (UdpBackend_register_local_id S b w n) (\<lambda>(r, b', w'). udp_inv b' \<and> I w')"
proof -
  have inv: "length (ub_wire_buf b) = 8192" "0 \<le> ub_fd b" "ub_open b" "tcf_peer_ip (ub_cfg b) \<noteq> []" using assms(1) by (simp_all add: udp_inv_def)
  obtain buf len where s: "serialize (envelope_init\<lparr> message_type := HELLO, source_id := n, destination_id := 0, payload_length := 0 \<rparr>)
      (ub_wire_buf b) 8192 0 = Some (OK, buf, len)" "length buf = 8192" "0 < len" "unat len \<le> length buf"
    using serialize_fits [OF inv(1) hello_msg_ok [OF assms(3)]] by metis
  have b1: "udp_inv (b\<lparr> ub_local_node_id := n, ub_wire_buf := buf \<rparr>)" "udp_inv (b\<lparr> ub_local_node_id := n \<rparr>)"
    using assms(1) s(2) by (simp_all add: udp_inv_def)
  from send_to [OF assms(2) inv(2) s(3,4), of "tcf_peer_ip (ub_cfg b)" "tcf_peer_port (ub_cfg b)"] s inv b1 assms
  show ?thesis by (auto simp: UdpBackend_register_local_id_def UdpBackend_send_hello_datagram_def Let_def elim!: returnsE)
qed

text \<open>One datagram. What the socket reported decides whether a message may be added.\<close>

lemma udp_recv_one:
  assumes "udp_inv b" and "I w"
    and "so_recv_from S w (ub_fd b) (ub_wire_buf b) SOCKET_RECV_BUF_BYTES ms (0, [], 0) = Some (ok, buf, (len, ip, port), w1)"
  shows "returns (UdpBackend_recv_one_datagram S X b w ms) (\<lambda>(r, b', w'). udp_inv b' \<and> I w' \<and> same_peer b b' \<and> udp_authentic_step b b' ip port)"
proof -
  let ?imp = "ub_impairment b" and ?q = "ub_recv_queue b"
  have inv: "length (ub_wire_buf b) = 8192" "0 \<le> ub_fd b" "ub_open b" "tcf_peer_ip (ub_cfg b) \<noteq> []" using assms(1) by (simp_all add: udp_inv_def)
  from recv_from [OF assms(2) inv(2), of SOCKET_RECV_BUF_BYTES "ub_wire_buf b" ms "(0, [], 0)"] inv(1) assms(3)
  have f: "I w1" "length buf = 8192" "ok \<longrightarrow> len \<le> 8192" by (auto elim!: returnsE)
  define b1 where "b1 = b\<lparr> ub_wire_buf := buf \<rparr>"
  have b1: "udp_inv b1" "same_peer b b1" "udp_waiting b1 = udp_waiting b" "udp_authentic_step b b1 ip port"
      "ub_impairment b1 = ?imp" "ub_recv_queue b1 = ?q" "ub_cfg b1 = ub_cfg b" "ub_peer_hello_received b1 = ub_peer_hello_received b"
      "ub_peer_node_id b1 = ub_peer_node_id b" "ub_wire_buf b1 = buf"
    using udp_wire_buf [OF assms(1) f(2)] by (simp_all add: b1_def udp_authentic_step_def)
  show ?thesis
  proof (cases "ok \<and> ip = tcf_peer_ip (ub_cfg b) \<and> port = tcf_peer_port (ub_cfg b)")
    case False
    with assms(3) inv b1 f(1) show ?thesis
      by (auto simp: UdpBackend_recv_one_datagram_def UdpBackend_validate_source_def b1_def)
  next
    case src: True
    then have len: "unat len \<le> length buf" using f(2,3) by (simp add: word_le_nat_alt)
    from deserialize_safe [of buf len envelope_zero] len obtain r env where
      d: "deserialize buf len envelope_zero = Some (r, env)" "r = OK \<longrightarrow> msg_ok env" by (auto simp: msg_ok_def elim!: returnsE)
    have step: "UdpBackend_recv_one_datagram S X b w ms = (if r \<noteq> OK then Some (False, b1, w1) else do {
        (accepted, consumed, b) \<leftarrow> UdpBackend_process_hello_or_validate b1 env;
        if \<not> accepted then Some (False, b, w1) else if consumed then Some (False, b, w1) else do {
          (now_us, w) \<leftarrow> read_clock X w1;
          (res, inbound_out, inbound_count, imp) \<leftarrow> ImpairmentEngine_process_inbound (ub_impairment b) env now_us [envelope_zero] 1;
          let b = b\<lparr> ub_impairment := imp \<rparr>;
          if res = ERR_IO then Some (False, b, w) else if inbound_count = 0 then Some (False, b, w) else do {
            nc_assert (inbound_count = 1);
            (res, q) \<leftarrow> RingBuffer_push (ub_recv_queue b) (inbound_out ! 0);
            Some (res = OK, b\<lparr> ub_recv_queue := q \<rparr>, w) } } })"
      using assms(3) inv src d(1) b1(4) by (simp add: UdpBackend_recv_one_datagram_def UdpBackend_validate_source_def b1_def)
    show ?thesis
    proof (cases "r = OK \<and> message_type env \<noteq> HELLO \<and> ub_peer_hello_received b \<and> source_id env = ub_peer_node_id b")
      case False
      have hello: "udp_inv (b1\<lparr> ub_peer_node_id := n, ub_peer_hello_received := True \<rparr>)"
          "\<not> ub_peer_hello_received b \<Longrightarrow> same_peer b (b1\<lparr> ub_peer_node_id := n, ub_peer_hello_received := True \<rparr>)"
          "udp_authentic_step b (b1\<lparr> ub_peer_node_id := n, ub_peer_hello_received := True \<rparr>) ip port" for n
        using b1 by (simp_all add: udp_inv_def same_peer_def udp_authentic_step_def udp_waiting_def)
      have "ub_open b1" "0 \<le> ub_fd b1" using b1(1) by (simp_all add: udp_inv_def)
      with False step b1 hello f(1) show ?thesis by (auto simp: UdpBackend_process_hello_or_validate_def)
    next
      case True
      then have env: "inbound_ok env" "envelope_valid env" using d(2) by (simp_all add: inbound_ok_def msg_ok_def)
      let ?Q = "\<lambda>m. inbound_ok m \<and> m \<in> insert env (udp_waiting b)"
      have lk: "link_ok msg_ok ?Q ?imp" "queue_holds ?Q ?q"
        using assms(1) by (auto simp: udp_inv_def link_ok_def queue_holds_def udp_waiting_def)
      obtain now w2 where now: "read_clock X w1 = Some (now, w2)" "I w2" using now_returns [OF f(1)] by (auto elim!: returnsE)
      obtain r2 out n i2 where i: "ImpairmentEngine_process_inbound ?imp env now [envelope_zero] 1 = Some (r2, out, n, i2)"
          "link_ok msg_ok ?Q i2" "n = 0 \<or> n = 1 \<and> ?Q (out ! 0)"
        using link_inbound [OF lk(1) env(2), of "[envelope_zero]" now] env(1) by (auto elim!: returnsE)
      have good: "udp_inv b' \<and> same_peer b b' \<and> udp_authentic_step b b' ip port"
        if "b' = b1\<lparr> ub_impairment := i2, ub_recv_queue := q' \<rparr>" "queue_holds ?Q q'" for b' q'
        using that i(2) b1 src True env(1) assms(1)
        by (auto simp: udp_inv_def link_ok_def queue_holds_def udp_authentic_step_def udp_waiting_def same_peer_def)
      have stay: "b1\<lparr> ub_impairment := i2 \<rparr> = b1\<lparr> ub_impairment := i2, ub_recv_queue := ?q \<rparr>" using b1(6) by simp
      have acc: "UdpBackend_process_hello_or_validate b1 env = Some (True, False, b1)"
        using b1 True by (simp add: UdpBackend_process_hello_or_validate_def udp_inv_def)
      show ?thesis
      proof (cases "r2 = ERR_IO \<or> n = 0")
        case True
        with step \<open>r = OK \<and> _\<close> acc now i(1) b1(5) good [OF stay lk(2)] show ?thesis by auto
      next
        case False
        with i(3) have n: "n = 1" "?Q (out ! 0)" by auto
        obtain r3 q' where q: "RingBuffer_push ?q (out ! 0) = Some (r3, q')" "queue_holds ?Q q'"
          using queue_push [OF lk(2) n(2)] by (auto elim!: returnsE)
        with step \<open>r = OK \<and> _\<close> acc now i(1) b1(5,6) False n(1) good [OF refl q(2)] show ?thesis by auto
      qed
    qed
  qed
qed

lemma udp_recv_one_returns:
  assumes "udp_inv b" and "I w"
  shows "returns (UdpBackend_recv_one_datagram S X b w ms) (\<lambda>(r, b', w'). udp_inv b' \<and> I w' \<and> same_peer b b')"
proof -
  have "0 \<le> ub_fd b" "length (ub_wire_buf b) = 8192" using assms(1) by (simp_all add: udp_inv_def)
  with recv_from [OF assms(2), of "ub_fd b" SOCKET_RECV_BUF_BYTES "ub_wire_buf b" ms "(0, [], 0)"] obtain x where
    "so_recv_from S w (ub_fd b) (ub_wire_buf b) SOCKET_RECV_BUF_BYTES ms (0, [], 0) = Some x" by (auto elim!: returnsE)
  then obtain ok buf len ip port w1 where
    "so_recv_from S w (ub_fd b) (ub_wire_buf b) SOCKET_RECV_BUF_BYTES ms (0, [], 0) = Some (ok, buf, (len, ip, port), w1)" by (cases x) auto
  from udp_recv_one [OF assms this] show ?thesis by (auto elim!: returns_mono)
qed

lemma udp_flush_wire:
  assumes "udp_inv b" and "I w" and "now > 0"
  shows "returns (UdpBackend_flush_delayed_to_wire S b w now) (\<lambda>(b', w'). udp_inv b' \<and> I w' \<and> same_peer b b')"
proof -
  obtain n dbuf imp where c: "ImpairmentEngine_collect_deliverable (ub_impairment b) now (ub_delay_buf b) 32 = Some (n, dbuf, imp)"
      "udp_inv (b\<lparr> ub_impairment := imp, ub_delay_buf := dbuf \<rparr>)" "\<forall>m \<in> set (take n dbuf). msg_ok m"
    using udp_collect [OF assms(1), of now] by metis
  define b1 where "b1 = b\<lparr> ub_impairment := imp, ub_delay_buf := dbuf \<rparr>"
  let ?J = "\<lambda>(b', w'). udp_inv b' \<and> I w' \<and> same_peer b b'"
  have "returns (for_each (flush_wire_item S) (take n dbuf) (b1, w)) ?J"
  proof (rule for_each_inv)
    fix m st assume m: "m \<in> set (take n dbuf)" and "?J st"
    then obtain b2 w2 where st: "st = (b2, w2)" "udp_inv b2" "I w2" "same_peer b b2" by (cases st) auto
    from m c(3) have ok: "msg_ok m" by blast
    from udp_send_one [OF st(2,3) ok, of False] st(1,4) show "returns (flush_wire_item S m st) ?J"
      by (auto simp: flush_wire_item_def elim!: returnsE intro: same_peer_trans)
  qed (use c(2) assms(2) in \<open>simp add: b1_def same_peer_refl\<close>)
  moreover have "ub_open b" using assms(1) by (simp add: udp_inv_def)
  ultimately show ?thesis using c(1) assms(3) by (simp add: UdpBackend_flush_delayed_to_wire_def b1_def Let_def)
qed

lemma udp_pop:
  assumes "udp_inv b"
  obtains r env' q where "RingBuffer_pop (ub_recv_queue b) env = Some (r, env', q)" "udp_inv (b\<lparr> ub_recv_queue := q \<rparr>)"
    "r = OK \<and> inbound_ok env' \<or> r = ERR_EMPTY \<and> env' = env \<and> b\<lparr> ub_recv_queue := q \<rparr> = b"
proof -
  have q: "queue_holds inbound_ok (ub_recv_queue b)" using assms by (simp add: udp_inv_def)
  from queue_pop [OF q, of env] obtain r x q' where p: "RingBuffer_pop (ub_recv_queue b) env = Some (r, x, q')" "queue_holds inbound_ok q'"
      "r = OK \<and> inbound_ok x \<or> r = ERR_EMPTY \<and> x = env \<and> q' = ub_recv_queue b"
    by (cases "rb_contents (ub_recv_queue b)") (auto elim!: returnsE)
  with that assms show ?thesis by (auto simp: udp_inv_def)
qed

lemma udp_attempts:
  assumes "udp_inv b" and "I w"
  shows "returns (udp_receive_attempts S X n b w env) (\<lambda>(r, env', b', w'). udp_inv b' \<and> I w' \<and>
    (r = OK \<and> inbound_ok env' \<or> r = ERR_TIMEOUT \<and> env' = env))"
  using assms
proof (induction n arbitrary: b w)
  case 0
  then show ?case by simp
next
  case (Suc n)
  from udp_recv_one_returns [OF Suc.prems, of 100] obtain x b1 w1 where
    p: "UdpBackend_recv_one_datagram S X b w 100 = Some (x, b1, w1)" "udp_inv b1" "I w1" by (auto elim!: returnsE)
  obtain r1 e1 q1 where q1: "RingBuffer_pop (ub_recv_queue b1) env = Some (r1, e1, q1)" "udp_inv (b1\<lparr> ub_recv_queue := q1 \<rparr>)"
      "r1 = OK \<and> inbound_ok e1 \<or> r1 = ERR_EMPTY \<and> e1 = env \<and> b1\<lparr> ub_recv_queue := q1 \<rparr> = b1"
    using udp_pop [OF p(2)] by metis
  show ?case
  proof (cases "r1 = OK")
    case True
    with p q1 show ?thesis by simp
  next
    case False
    obtain now w2 where now: "read_clock X w1 = Some (now, w2)" "I w2" "now > 0" using now_returns [OF p(3)] by (auto elim!: returnsE)
    from udp_flush_wire [OF p(2) now(2,3)] obtain b3 w3 where
      f: "UdpBackend_flush_delayed_to_wire S b1 w2 now = Some (b3, w3)" "udp_inv b3" "I w3" by (auto elim!: returnsE)
    obtain r3 e3 q3 where q3: "RingBuffer_pop (ub_recv_queue b3) env = Some (r3, e3, q3)" "udp_inv (b3\<lparr> ub_recv_queue := q3 \<rparr>)"
        "r3 = OK \<and> inbound_ok e3 \<or> r3 = ERR_EMPTY \<and> e3 = env \<and> b3\<lparr> ub_recv_queue := q3 \<rparr> = b3"
      using udp_pop [OF f(2)] by metis
    show ?thesis
    proof (cases "r3 = OK")
      case True
      with False p q1 now(1) f q3 show ?thesis by simp
    next
      case empty: False
      with False p q1 now(1) f q3 Suc.IH [OF f(2,3)] show ?thesis by simp
    qed
  qed
qed

lemma udp_receive_returns:
  assumes "udp_inv b" and "I w"
  shows "returns (UdpBackend_receive_message S X b w env ms) (\<lambda>(r, env', b', w'). udp_inv b' \<and> I w' \<and>
    (r = OK \<and> inbound_ok env' \<or> r = ERR_TIMEOUT \<and> env' = env))"
proof -
  have op: "ub_open b" "0 \<le> ub_fd b" using assms(1) by (simp_all add: udp_inv_def)
  obtain r1 e1 q1 where q1: "RingBuffer_pop (ub_recv_queue b) env = Some (r1, e1, q1)" "udp_inv (b\<lparr> ub_recv_queue := q1 \<rparr>)"
      "r1 = OK \<and> inbound_ok e1 \<or> r1 = ERR_EMPTY \<and> e1 = env \<and> b\<lparr> ub_recv_queue := q1 \<rparr> = b"
    using udp_pop [OF assms(1)] by metis
  have "poll_count ms \<le> 50" by (rule poll_count_le)
  with op q1 assms udp_attempts [OF assms, of "unat (poll_count ms)" env] show ?thesis
    by (auto simp: UdpBackend_receive_message_def)
qed

lemma udp_init_returns:
  assumes "udp_closed b" and "I w" and "udp_config_ok config entropy"
  shows "returns (UdpBackend_init S b w config entropy) (\<lambda>(r, b', w'). I w' \<and>
    (r = OK \<and> udp_inv b' \<and> \<not> ub_peer_hello_received b' \<and> tcf_peer_ip config \<notin> {[], ''0.0.0.0'', ''::''} \<or>
     r \<in> {ERR_IO, ERR_INVALID} \<and> udp_closed b'))"
proof (cases "transport_config_valid config \<and> tcf_peer_ip config \<notin> {[], ''0.0.0.0'', ''::''}")
  case False
  with assms show ?thesis by (auto simp: UdpBackend_init_def udp_closed_def udp_config_ok_def)
next
  case True
  from assms(1) queue_init [of "ub_recv_queue b" inbound_ok] obtain q where
    q: "RingBuffer_init (ub_recv_queue b) = Some q" "queue_holds inbound_ok q" by (auto simp: udp_closed_def elim!: returnsE)
  from assms(3) link_init [of "first_impairment config" entropy "ub_impairment b" msg_ok inbound_ok] obtain imp where
    i: "ImpairmentEngine_init (ub_impairment b) (first_impairment config) entropy = Some imp" "link_ok msg_ok inbound_ok imp"
    by (auto simp: udp_config_ok_def elim!: returnsE)
  from create_udp [OF assms(2), of "socket_is_ipv6 (tcf_bind_ip config)"] obtain fd w1 where
    c: "so_create_udp S w (socket_is_ipv6 (tcf_bind_ip config)) = Some (fd, w1)" "I w1" by (auto elim!: returnsE)
  have pre: "tcf_kind config = UDP" "\<not> ub_open b" using assms(1,3) by (simp_all add: udp_closed_def udp_config_ok_def)
  have closed: "udp_closed (b\<lparr> ub_cfg := config, ub_fd := k \<rparr>)" if "k < 0" for k using assms(1) that by (simp add: udp_closed_def)
  show ?thesis
  proof (cases "fd < 0")
    case neg: True
    with True c pre closed show ?thesis by (simp add: UdpBackend_init_def)
  next
    case False
    then have fd: "fd \<ge> 0" by simp
    from set_reuseaddr [OF c(2) fd] obtain k1 w2 where s1: "so_set_reuseaddr S w1 fd = Some (k1, w2)" "I w2" by (auto elim!: returnsE)
    from do_bind [OF s1(2) fd, of "tcf_bind_ip config" "tcf_bind_port config"] obtain k2 w3 where
      s2: "so_do_bind S w2 fd (tcf_bind_ip config) (tcf_bind_port config) = Some (k2, w3)" "I w3" by (auto elim!: returnsE)
    from do_close [OF s1(2) fd] obtain v2 where v2: "so_do_close S w2 fd = Some v2" "I v2" by (auto elim!: returnsE)
    from do_close [OF s2(2) fd] obtain v3 where v3: "so_do_close S w3 fd = Some v3" "I v3" by (auto elim!: returnsE)
    have opened: "udp_inv (b\<lparr> ub_cfg := config, ub_fd := fd, ub_recv_queue := q, ub_impairment := imp, ub_open := True,
        ub_connections_opened := n \<rparr>)" for n
      using assms(1) fd True q(2) i(2) by (simp add: udp_inv_def udp_closed_def)
    have "\<not> ub_peer_hello_received b" using assms(1) by (simp add: udp_closed_def)
    with True fd pre c(1) s1 s2 v2 v3 q(1) i(1) closed [of "- 1"] opened show ?thesis
      by (cases k1; cases k2) (simp_all add: UdpBackend_init_def Let_def)
  qed
qed

lemma udp_close_returns:
  assumes "udp_inv b" and "I w"
  shows "returns (UdpBackend_close S b w) (\<lambda>(b', w'). udp_closed b' \<and> I w')"
proof -
  have "0 \<le> ub_fd b" "length (rb_buf (ub_recv_queue b)) = 64" using assms(1) by (simp_all add: udp_inv_def queue_holds_def rb_inv_def)
  with do_close [OF assms(2), of "ub_fd b"] assms(1) show ?thesis
    by (auto simp: UdpBackend_close_def udp_closed_def udp_inv_def elim!: returnsE)
qed

lemma udp_transport_keeps: "transport_keeps (udp_transport S X) (\<lambda>(b, w). udp_inv b \<and> I w)"
proof -
  have snd: "returns (tr_send_message (udp_transport S X) (b, w) env)
      (\<lambda>(r, b', w'). udp_inv b' \<and> I w' \<and> r \<in> {OK, ERR_IO, ERR_INVALID, ERR_FULL})" if "udp_inv b" "I w" "msg_ok env" for b w env
    using udp_send_message_returns [OF that] by (auto simp: udp_transport_def elim!: returns_mono)
  have "returns (tr_register_local_id (udp_transport S X) (b, w) n) (\<lambda>(r, b', w'). udp_inv b' \<and> I w')"
    if "udp_inv b" "I w" "n \<noteq> 0" for b w n using udp_register_returns [OF that] by (simp add: udp_transport_def)
  moreover have "returns (tr_receive_message (udp_transport S X) (b, w) env ms) (\<lambda>(r, env', b', w'). udp_inv b' \<and> I w' \<and>
      (r = OK \<and> inbound_ok env' \<or> r = ERR_TIMEOUT \<and> env' = env))" if "udp_inv b" "I w" for b w env ms
    using udp_receive_returns [OF that, of env ms] by (simp add: udp_transport_def)
  ultimately show ?thesis using snd
    by (auto simp: transport_keeps_def case_prod_unfold) (simp_all add: udp_transport_def)
qed

end

section \<open>Properties\<close>


lemma udp_closed_new: "udp_closed (UdpBackend_new cfg imp)"
  by (simp add: udp_closed_def UdpBackend_new_def RingBuffer_new_def)


text \<open>Claim C22. Every message taken from the network is authentic: a datagram adds at most one message to those that wait, and only
  if it came from the configured address and port, after a HELLO, and under the node identifier of that HELLO. Once a HELLO was
  accepted the peer's identifier never changes.\<close>

theorem udp_source_authenticated:
  assumes "posix_system X I" and "udp_inv b" and "I w"
    and "socket_recv_from X w (ub_fd b) (ub_wire_buf b) SOCKET_RECV_BUF_BYTES ms (0, [], 0) = Some (ok, buf, (len, ip, port), w1)"
  shows "returns (UdpBackend_recv_one_datagram (SocketOpsImpl X) X b w ms)
    (\<lambda>(r, b', w'). udp_inv b' \<and> same_peer b b' \<and> udp_authentic_step b b' ip port)"
proof -
  have env: "backend_env (SocketOpsImpl X) I X" by (rule posix_system.env_axioms [OF assms(1)])
  have "so_recv_from (SocketOpsImpl X) w (ub_fd b) (ub_wire_buf b) SOCKET_RECV_BUF_BYTES ms (0, [], 0) = Some (ok, buf, (len, ip, port), w1)"
    using assms(2,4) by (simp add: SocketOpsImpl_def udp_inv_def)
  from backend_env.udp_recv_one [OF env assms(2,3) this] show ?thesis by (auto elim!: returns_mono)
qed

lemma udp_example_inv: "udp_inv udp_example"
  using blank_ok [of impairment_config_default msg_ok inbound_ok] rb_inv_new
  by (auto simp: udp_inv_def udp_example_def UdpBackend_new_def queue_holds_def imp_config_ok_def draws_no_double_def impairment_config_default_def)

theorem udp_source_authenticated_witness:
  "returns (UdpBackend_recv_one_datagram (SocketOpsImpl posix_loopback) posix_loopback udp_example ([], []) 100)
    (\<lambda>(r, b', w'). udp_inv b' \<and> same_peer udp_example b' \<and> udp_authentic_step udp_example b' [] 0)"
proof -
  have "socket_recv_from posix_loopback ([], []) (ub_fd udp_example) (ub_wire_buf udp_example) SOCKET_RECV_BUF_BYTES 100 (0, [], 0) =
      Some (False, ub_wire_buf udp_example, (0, [], 0), ([], []))"
    by (simp add: socket_recv_from_def posix_loopback_def udp_example_def)
  from udp_source_authenticated [OF loopback.posix_system_axioms udp_example_inv TrueI this] show ?thesis .
qed

end
