(* ===== verification/Mbedtls.thy ===== *)
theory Mbedtls
  imports BackendContract
begin

text \<open>
  The mbedTLS library as the secure backends see it, with \<open>src/platform/IMbedtlsOps.hpp\<close> and \<open>MbedtlsOpsImpl.cpp\<close>. The library
  is not part of the program: it is a record of functions over the state \<open>'w\<close> of the world, which holds the library's
  contexts as well. A function returns its C result; error codes that the code compares with are members of the record. A
  connection's context is named by its slot, a network context by its descriptor. The functions without result are two
  constructor-indexed families: settings of the shared configuration, and calls on one connection. The configuration is the one of
  a build with mbedTLS 4. What the backends rely on is the locale \<open>tls_env\<close>.
\<close>

section \<open>The library\<close>

datatype crt_context = Own_cert | Ca_cert

datatype ssl_setting =
    Conf_handshake_timeout u32 u32
  | Conf_read_timeout u32
  | Conf_authmode_required
  | Conf_authmode_none
  | Conf_ca_chain bool
  | Conf_dtls_cookies
  | Conf_ciphersuites "string list"
  | Conf_min_tls_version_1_2
  | Conf_session_tickets_cb
  | Ticket_free
  | Crl_free

datatype ssl_call =
    Session_reset
  | Set_bio int
  | Set_timer_cb
  | Set_mtu u16
  | Reset_client_transport_id sock_addr
  | Close_notify
  | Ssl_free
  | Ssl_init

record 'w mbedtls =
  mb_ERR_SSL_WANT_READ :: int
  mb_ERR_SSL_WANT_WRITE :: int
  mb_ERR_SSL_TIMEOUT :: int
  mb_ERR_SSL_HELLO_VERIFY_REQUIRED :: int
  mb_psa_crypto_init :: "'w \<Rightarrow> int \<times> 'w"
  mb_ssl_config_defaults :: "'w \<Rightarrow> TlsRole \<Rightarrow> bool \<Rightarrow> int \<times> 'w"
  mb_ssl_conf :: "'w \<Rightarrow> ssl_setting \<Rightarrow> 'w"
  mb_lstat :: "'w \<Rightarrow> string \<Rightarrow> (int \<times> bool) \<times> 'w"
  mb_x509_crt_parse_file :: "'w \<Rightarrow> crt_context \<Rightarrow> string \<Rightarrow> int \<times> 'w"
  mb_x509_crt_version :: "'w \<Rightarrow> crt_context \<Rightarrow> int"
  mb_x509_crl_parse_file :: "'w \<Rightarrow> string \<Rightarrow> int \<times> 'w"
  mb_pk_parse_keyfile :: "'w \<Rightarrow> string \<Rightarrow> int \<times> 'w"
  mb_ssl_conf_own_cert :: "'w \<Rightarrow> int \<times> 'w"
  mb_ssl_cookie_setup :: "'w \<Rightarrow> int \<times> 'w"
  mb_ssl_ticket_setup :: "'w \<Rightarrow> u32 \<Rightarrow> int \<times> 'w"
  mb_ssl_setup :: "'w \<Rightarrow> nat \<Rightarrow> int \<times> 'w"
  mb_ssl_call :: "'w \<Rightarrow> nat \<Rightarrow> ssl_call \<Rightarrow> 'w"
  mb_ssl_set_hostname :: "'w \<Rightarrow> nat \<Rightarrow> string option \<Rightarrow> int \<times> 'w"
  mb_ssl_set_client_transport_id :: "'w \<Rightarrow> nat \<Rightarrow> sock_addr \<Rightarrow> int \<times> 'w"
  mb_ssl_handshake :: "'w \<Rightarrow> nat \<Rightarrow> int \<times> 'w"
  mb_ssl_write :: "'w \<Rightarrow> nat \<Rightarrow> u8 list \<Rightarrow> int \<times> 'w"
  mb_ssl_read :: "'w \<Rightarrow> nat \<Rightarrow> nat \<Rightarrow> (int \<times> u8 list) \<times> 'w"
  mb_ssl_get_version :: "'w \<Rightarrow> nat \<Rightarrow> string option"
  mb_ssl_get_bytes_avail :: "'w \<Rightarrow> nat \<Rightarrow> nat"
  mb_ssl_get_session :: "'w \<Rightarrow> nat \<Rightarrow> int \<times> 'w"
  mb_ssl_set_session :: "'w \<Rightarrow> nat \<Rightarrow> int \<times> 'w"
  mb_ssl_session_zeroize :: "'w \<Rightarrow> 'w"
  mb_net_connect :: "'w \<Rightarrow> string \<Rightarrow> string \<Rightarrow> (int \<times> int) \<times> 'w"
  mb_net_bind :: "'w \<Rightarrow> string \<Rightarrow> string \<Rightarrow> (int \<times> int) \<times> 'w"
  mb_net_accept :: "'w \<Rightarrow> int \<Rightarrow> (int \<times> int) \<times> 'w"
  mb_net_set_block :: "'w \<Rightarrow> int \<Rightarrow> int \<times> 'w"
  mb_net_set_nonblock :: "'w \<Rightarrow> int \<Rightarrow> int \<times> 'w"
  mb_net_poll :: "'w \<Rightarrow> int \<Rightarrow> u32 \<Rightarrow> int \<times> 'w"
  mb_net_free :: "'w \<Rightarrow> int \<Rightarrow> 'w"
  mb_recvfrom_peek :: "'w \<Rightarrow> int \<Rightarrow> (int \<times> sock_addr) \<times> 'w"

section \<open>The wrappers\<close>

text \<open>\<open>MbedtlsOpsImpl\<close> passes each call on; these are the wrappers that check more than null pointers.\<close>

definition MbedtlsOpsImpl_recvfrom_peek :: "'w mbedtls \<Rightarrow> 'w \<Rightarrow> int \<Rightarrow> ((int \<times> sock_addr) \<times> 'w) option" where
  "MbedtlsOpsImpl_recvfrom_peek M w sockfd = do { nc_assert (sockfd \<ge> 0); Some (mb_recvfrom_peek M w sockfd) }"

definition MbedtlsOpsImpl_net_connect :: "'w posix \<Rightarrow> 'w \<Rightarrow> int \<Rightarrow> sock_addr \<Rightarrow> (int \<times> 'w) option" where
  "MbedtlsOpsImpl_net_connect X w sockfd addr = do {
     nc_assert (sockfd \<ge> 0);
     let ((result, errno), w) = px_connect X w sockfd addr;
     Some (result, w)
   }"

definition MbedtlsOpsImpl_net_set_block :: "'w mbedtls \<Rightarrow> 'w \<Rightarrow> int \<Rightarrow> (int \<times> 'w) option" where
  "MbedtlsOpsImpl_net_set_block M w fd = do { nc_assert (fd \<ge> 0); Some (mb_net_set_block M w fd) }"

definition MbedtlsOpsImpl_net_set_nonblock :: "'w mbedtls \<Rightarrow> 'w \<Rightarrow> int \<Rightarrow> (int \<times> 'w) option" where
  "MbedtlsOpsImpl_net_set_nonblock M w fd = do { nc_assert (fd \<ge> 0); Some (mb_net_set_nonblock M w fd) }"

definition MbedtlsOpsImpl_net_poll :: "'w mbedtls \<Rightarrow> 'w \<Rightarrow> int \<Rightarrow> u32 \<Rightarrow> (int \<times> 'w) option" where
  "MbedtlsOpsImpl_net_poll M w fd timeout_ms = do { nc_assert (fd \<ge> 0); Some (mb_net_poll M w fd timeout_ms) }"

definition MbedtlsOpsImpl_ssl_ticket_setup :: "'w mbedtls \<Rightarrow> 'w \<Rightarrow> u32 \<Rightarrow> (int \<times> 'w) option" where
  "MbedtlsOpsImpl_ssl_ticket_setup M w lifetime_s = do { nc_assert (lifetime_s > 0); Some (mb_ssl_ticket_setup M w lifetime_s) }"

section \<open>Shared by both backends\<close>

definition tls_path_is_regular_file :: "'w mbedtls \<Rightarrow> 'w \<Rightarrow> string \<Rightarrow> bool \<times> 'w" where
  "tls_path_is_regular_file M w path = (let ((result, is_regular), w) = mb_lstat M w path in
     if result \<noteq> 0 then (False, w) else if \<not> is_regular then (False, w) else (True, w))"

definition k_allowed_ciphersuites :: "string list" where
  "k_allowed_ciphersuites = [''TLS1_3_AES_128_GCM_SHA256'', ''TLS1_3_AES_256_GCM_SHA384'', ''TLS1_3_CHACHA20_POLY1305_SHA256'',
     ''ECDHE_ECDSA_WITH_AES_128_GCM_SHA256'', ''ECDHE_ECDSA_WITH_AES_256_GCM_SHA384'', ''ECDHE_RSA_WITH_AES_128_GCM_SHA256'',
     ''ECDHE_RSA_WITH_AES_256_GCM_SHA384'']"

text \<open>A path field that is set and can be passed to the library.\<close>

definition path_given :: "string \<Rightarrow> bool" where
  "path_given path \<longleftrightarrow> tls_path_valid path \<and> path ! 0 \<noteq> CHR 0x00"

text \<open>Libraries for examples: no encryption, and every handshake succeeds at once. One transfers over the loopback system, one
  records the settings made.\<close>

definition mbedtls_plain :: "('w \<Rightarrow> ssl_setting \<Rightarrow> 'w) \<Rightarrow> ('w \<Rightarrow> u8 list \<Rightarrow> int \<times> 'w) \<Rightarrow> ('w \<Rightarrow> nat \<Rightarrow> (int \<times> u8 list) \<times> 'w) \<Rightarrow> 'w mbedtls" where
  "mbedtls_plain set_conf ssl_send ssl_recv = \<lparr> mb_ERR_SSL_WANT_READ = - 1, mb_ERR_SSL_WANT_WRITE = - 2, mb_ERR_SSL_TIMEOUT = - 3,
     mb_ERR_SSL_HELLO_VERIFY_REQUIRED = - 4, mb_psa_crypto_init = Pair 0, mb_ssl_config_defaults = (\<lambda>w _ _. (0, w)),
     mb_ssl_conf = set_conf, mb_lstat = (\<lambda>w _. ((0, True), w)), mb_x509_crt_parse_file = (\<lambda>w _ _. (0, w)), mb_x509_crt_version = (\<lambda>_ _. 3),
     mb_x509_crl_parse_file = (\<lambda>w _. (0, w)), mb_pk_parse_keyfile = (\<lambda>w _. (0, w)), mb_ssl_conf_own_cert = Pair 0,
     mb_ssl_cookie_setup = Pair 0, mb_ssl_ticket_setup = (\<lambda>w _. (0, w)), mb_ssl_setup = (\<lambda>w _. (0, w)),
     mb_ssl_call = (\<lambda>w _ _. w), mb_ssl_set_hostname = (\<lambda>w _ _. (0, w)), mb_ssl_set_client_transport_id = (\<lambda>w _ _. (0, w)),
     mb_ssl_handshake = (\<lambda>w _. (0, w)), mb_ssl_write = (\<lambda>w _. ssl_send w), mb_ssl_read = (\<lambda>w _. ssl_recv w),
     mb_ssl_get_version = (\<lambda>_ _. Some ''TLSv1.3''), mb_ssl_get_bytes_avail = (\<lambda>_ _. 0),
     mb_ssl_get_session = (\<lambda>w _. (0, w)), mb_ssl_set_session = (\<lambda>w _. (0, w)), mb_ssl_session_zeroize = (\<lambda>w. w),
     mb_net_connect = (\<lambda>w _ _. ((0, 3), w)), mb_net_bind = (\<lambda>w _ _. ((0, 3), w)), mb_net_accept = (\<lambda>w _. ((- 1, - 1), w)),
     mb_net_set_block = (\<lambda>w _. (0, w)), mb_net_set_nonblock = (\<lambda>w _. (0, w)), mb_net_poll = (\<lambda>w _ _. (0, w)),
     mb_net_free = (\<lambda>w _. w), mb_recvfrom_peek = (\<lambda>w _. ((- 1, Inet4 [] 0), w)) \<rparr>"

definition mbedtls_null :: "(u8 list \<times> u8 list) mbedtls" where
  "mbedtls_null = mbedtls_plain (\<lambda>w _. w) (\<lambda>w bytes. px_send posix_loopback w 3 bytes) (\<lambda>w n. px_recv posix_loopback w 3 n)"

definition mbedtls_recorder :: "ssl_setting list mbedtls" where
  "mbedtls_recorder = mbedtls_plain (\<lambda>w s. w @ [s]) (\<lambda>w _. (0, w)) (\<lambda>w _. ((0, []), w))"

section \<open>The contract\<close>

text \<open>What the backends rely on: every call keeps the world's invariant, a read or write transfers at most what it was asked for,
  the error codes are negative, a network call that succeeds yields a descriptor and a failed connect none, a parsed certificate
  has a version, and the protocol version is a string.\<close>

locale tls_env = backend_env S I X for S :: "'w socket_ops" and I and X +
  fixes M :: "'w mbedtls"
  assumes codes: "mb_ERR_SSL_WANT_READ M < 0" "mb_ERR_SSL_WANT_WRITE M < 0" "mb_ERR_SSL_TIMEOUT M < 0"
      "mb_ERR_SSL_HELLO_VERIFY_REQUIRED M < 0"
    and crypto_init: "I w \<Longrightarrow> I (snd (mb_psa_crypto_init M w))"
    and config_defaults: "I w \<Longrightarrow> I (snd (mb_ssl_config_defaults M w role dgram))"
    and conf: "I w \<Longrightarrow> I (mb_ssl_conf M w s)"
    and lstat: "I w \<Longrightarrow> I (snd (mb_lstat M w path))"
    and crt_parse: "I w \<Longrightarrow> I (snd (mb_x509_crt_parse_file M w crt path))"
    and crt_version: "I w \<Longrightarrow> mb_x509_crt_parse_file M w crt path = (0, w') \<Longrightarrow> 0 < mb_x509_crt_version M w' crt"
    and crl_parse: "I w \<Longrightarrow> I (snd (mb_x509_crl_parse_file M w path))"
    and pk_parse: "I w \<Longrightarrow> I (snd (mb_pk_parse_keyfile M w path))"
    and own_cert: "I w \<Longrightarrow> I (snd (mb_ssl_conf_own_cert M w))"
    and cookie_setup: "I w \<Longrightarrow> I (snd (mb_ssl_cookie_setup M w))"
    and ticket_setup: "I w \<Longrightarrow> I (snd (mb_ssl_ticket_setup M w t))"
    and ssl_setup: "I w \<Longrightarrow> I (snd (mb_ssl_setup M w i))"
    and ssl_call: "I w \<Longrightarrow> I (mb_ssl_call M w i c)"
    and set_hostname: "I w \<Longrightarrow> I (snd (mb_ssl_set_hostname M w i h))"
    and transport_id: "I w \<Longrightarrow> I (snd (mb_ssl_set_client_transport_id M w i a))"
    and handshake: "I w \<Longrightarrow> I (snd (mb_ssl_handshake M w i))"
    and ssl_write: "I w \<Longrightarrow> mb_ssl_write M w i bytes = (r, w') \<Longrightarrow> I w' \<and> r \<le> int (length bytes)"
    and ssl_read: "I w \<Longrightarrow> mb_ssl_read M w i n = ((r, bytes), w') \<Longrightarrow> I w' \<and> r \<le> int n \<and> (0 < r \<longrightarrow> int (length bytes) = r)"
    and get_version: "mb_ssl_get_version M w i \<noteq> None"
    and get_session: "I w \<Longrightarrow> I (snd (mb_ssl_get_session M w i))"
    and set_session: "I w \<Longrightarrow> I (snd (mb_ssl_set_session M w i))"
    and session_zeroize: "I w \<Longrightarrow> I (mb_ssl_session_zeroize M w)"
    and net_connect: "I w \<Longrightarrow> mb_net_connect M w host port = ((r, fd), w') \<Longrightarrow> I w' \<and> (r = 0 \<longleftrightarrow> 0 \<le> fd)"
    and net_bind: "I w \<Longrightarrow> mb_net_bind M w host port = ((r, fd), w') \<Longrightarrow> I w' \<and> (r = 0 \<longrightarrow> 0 \<le> fd)"
    and net_accept: "I w \<Longrightarrow> mb_net_accept M w lfd = ((r, fd), w') \<Longrightarrow> I w' \<and> (r = 0 \<longrightarrow> 0 \<le> fd)"
    and net_set_block: "I w \<Longrightarrow> I (snd (mb_net_set_block M w fd))"
    and net_set_nonblock: "I w \<Longrightarrow> I (snd (mb_net_set_nonblock M w fd))"
    and net_poll: "I w \<Longrightarrow> I (snd (mb_net_poll M w fd ms))"
    and net_free: "I w \<Longrightarrow> I (mb_net_free M w fd)"
    and peek: "I w \<Longrightarrow> I (snd (mb_recvfrom_peek M w fd))"
    and sys_connect: "I w \<Longrightarrow> I (snd (px_connect X w fd addr))"
begin

lemma regular_file: "I w \<Longrightarrow> I (snd (tls_path_is_regular_file M w path))"
  using lstat [of w path] by (auto simp: tls_path_is_regular_file_def split: prod.split)

lemma poll_keeps: "I w \<Longrightarrow> I (snd (px_poll X w fds ms))"
  using poll_contract [of w fds ms] by (auto split: prod.splits)

lemmas keeps = crypto_init config_defaults conf crt_parse crl_parse pk_parse own_cert cookie_setup ticket_setup ssl_setup ssl_call
  set_hostname transport_id handshake get_session set_session session_zeroize net_set_block net_set_nonblock net_poll net_free
  peek sys_connect regular_file poll_keeps

end

interpretation null_tls: tls_env "SocketOpsImpl posix_loopback" "\<lambda>w. True" posix_loopback mbedtls_null
  by unfold_locales (auto simp: mbedtls_null_def mbedtls_plain_def posix_loopback_def min_def split: prod.splits if_splits)

end
