(* ===== verification/DtlsBackend.thy ===== *)
theory DtlsBackend
  imports Mbedtls
begin

text \<open>
  \<open>src/platform/DtlsUdpBackend.cpp\<close>: the transport over one UDP socket to one peer, encrypted with DTLS or in plaintext. All
  operations, over the socket layer, the system calls and the TLS library. In plaintext a server accepts datagrams of the peer
  address from any port until the first HELLO, which locks the port. The single DTLS connection is slot 0 of the library.
\<close>

record dtls_backend =
  db_net_ctx_fd :: int
  db_sock_fd :: int
  db_wire_buf :: "u8 list"
  db_cfg :: transport_config
  db_impairment :: impairment_engine
  db_recv_queue :: ring_buffer
  db_open :: bool
  db_is_server :: bool
  db_tls_enabled :: bool
  db_crl_loaded :: bool
  db_peer_node_id :: NodeId
  db_peer_hello_received :: bool
  db_connections_opened :: u32
  db_connections_closed :: u32
  db_delay_buf :: "envelope list"
  db_local_node_id :: NodeId
  db_pending_src_port :: u16
  db_peer_src_port :: u16

definition DtlsUdpBackend_new :: "transport_config \<Rightarrow> impairment_engine \<Rightarrow> dtls_backend" where
  "DtlsUdpBackend_new cfg imp = \<lparr> db_net_ctx_fd = - 1, db_sock_fd = - 1, db_wire_buf = replicate (unat SOCKET_RECV_BUF_BYTES) 0,
     db_cfg = cfg, db_impairment = imp, db_recv_queue = RingBuffer_new, db_open = False, db_is_server = False,
     db_tls_enabled = False, db_crl_loaded = False, db_peer_node_id = NODE_ID_INVALID, db_peer_hello_received = False,
     db_connections_opened = 0, db_connections_closed = 0, db_delay_buf = replicate IMPAIR_DELAY_BUF_SIZE envelope_zero,
     db_local_node_id = NODE_ID_INVALID, db_pending_src_port = 0, db_peer_src_port = 0 \<rparr>"

section \<open>Certificates and configuration\<close>

definition DtlsUdpBackend_load_own_cert_and_key :: "'w mbedtls \<Rightarrow> 'w \<Rightarrow> tls_config \<Rightarrow> (Result \<times> 'w) option" where
  "DtlsUdpBackend_load_own_cert_and_key M w tls_cfg = do {
     nc_assert (tls_path_valid (tc_cert_file tls_cfg));
     nc_assert (tls_path_valid (tc_key_file tls_cfg));
     let (regular, w) = tls_path_is_regular_file M w (c_string (tc_cert_file tls_cfg));
     if \<not> regular then Some (ERR_IO, w)
     else do {
       let (ret, w) = mb_x509_crt_parse_file M w Own_cert (c_string (tc_cert_file tls_cfg));
       if ret \<noteq> 0 then Some (ERR_IO, w)
       else do {
         let (regular, w) = tls_path_is_regular_file M w (c_string (tc_key_file tls_cfg));
         if \<not> regular then Some (ERR_IO, w)
         else do {
           let (ret, w) = mb_pk_parse_keyfile M w (c_string (tc_key_file tls_cfg));
           if ret \<noteq> 0 then Some (ERR_IO, w)
           else do {
             let (ret, w) = mb_ssl_conf_own_cert M w;
             Some (if ret \<noteq> 0 then ERR_IO else OK, w)
           }
         }
       }
     }
   }"

definition DtlsUdpBackend_load_crl_if_configured ::
    "'w mbedtls \<Rightarrow> dtls_backend \<Rightarrow> 'w \<Rightarrow> tls_config \<Rightarrow> (Result \<times> dtls_backend \<times> 'w) option" where
  "DtlsUdpBackend_load_crl_if_configured M b w tls_cfg = do {
     nc_assert (tc_verify_peer tls_cfg);
     nc_assert (tls_path_valid (tc_ca_file tls_cfg));
     nc_assert (tc_ca_file tls_cfg ! 0 \<noteq> CHR 0x00);
     nc_assert (tls_path_valid (tc_crl_file tls_cfg));
     if tc_crl_file tls_cfg ! 0 \<noteq> CHR 0x00 then do {
       let (regular, w) = tls_path_is_regular_file M w (c_string (tc_crl_file tls_cfg));
       if \<not> regular then Some (ERR_IO, b, w)
       else do {
         let (crl_ret, w) = mb_x509_crl_parse_file M w (c_string (tc_crl_file tls_cfg));
         if crl_ret \<noteq> 0 then Some (ERR_IO, b, w)
         else do {
           let b = b\<lparr> db_crl_loaded := True \<rparr>;
           Some (OK, b, mb_ssl_conf M w (Conf_ca_chain (db_crl_loaded b)))
         }
       }
     }
     else Some (OK, b, mb_ssl_conf M w (Conf_ca_chain (db_crl_loaded b)))
   }"

definition DtlsUdpBackend_load_certs_and_key ::
    "'w mbedtls \<Rightarrow> dtls_backend \<Rightarrow> 'w \<Rightarrow> tls_config \<Rightarrow> (Result \<times> dtls_backend \<times> 'w) option" where
  "DtlsUdpBackend_load_certs_and_key M b w tls_cfg = do {
     nc_assert (tls_path_valid (tc_cert_file tls_cfg));
     nc_assert (tls_path_valid (tc_key_file tls_cfg));
     nc_assert (tc_cert_file tls_cfg ! 0 \<noteq> CHR 0x00);
     nc_assert (tc_key_file tls_cfg ! 0 \<noteq> CHR 0x00);
     (res, b, w) \<leftarrow> (if tc_verify_peer tls_cfg \<and> tc_ca_file tls_cfg ! 0 \<noteq> CHR 0x00 then do {
         nc_assert (tls_path_valid (tc_ca_file tls_cfg));
         let (regular, w) = tls_path_is_regular_file M w (c_string (tc_ca_file tls_cfg));
         if \<not> regular then Some (ERR_IO, b, w)
         else do {
           let (ret, w) = mb_x509_crt_parse_file M w Ca_cert (c_string (tc_ca_file tls_cfg));
           if ret \<noteq> 0 then Some (ERR_IO, b, w)
           else DtlsUdpBackend_load_crl_if_configured M b w tls_cfg
         }
       } else Some (OK, b, w));
     if res \<noteq> OK then Some (res, b, w)
     else do {
       (res, w) \<leftarrow> DtlsUdpBackend_load_own_cert_and_key M w tls_cfg;
       Some (res, b, w)
     }
   }"

definition DtlsUdpBackend_setup_cookie_if_server :: "'w mbedtls \<Rightarrow> 'w \<Rightarrow> tls_config \<Rightarrow> (Result \<times> 'w) option" where
  "DtlsUdpBackend_setup_cookie_if_server M w tls_cfg = do {
     nc_assert (tc_tls_enabled tls_cfg);
     if tc_role tls_cfg = SERVER then do {
       let (ret, w) = mb_ssl_cookie_setup M w;
       if ret \<noteq> 0 then Some (ERR_IO, w)
       else Some (OK, mb_ssl_conf M w Conf_dtls_cookies)
     }
     else Some (OK, w)
   }"

definition DtlsUdpBackend_setup_dtls_config ::
    "'w mbedtls \<Rightarrow> dtls_backend \<Rightarrow> 'w \<Rightarrow> tls_config \<Rightarrow> (Result \<times> dtls_backend \<times> 'w) option" where
  "DtlsUdpBackend_setup_dtls_config M b w tls_cfg = do {
     nc_assert (tc_tls_enabled tls_cfg);
     nc_assert (tls_path_valid (tc_cert_file tls_cfg));
     nc_assert (tc_cert_file tls_cfg ! 0 \<noteq> CHR 0x00);
     let (psa_ret, w) = mb_psa_crypto_init M w;
     if psa_ret \<noteq> 0 then Some (ERR_IO, b, w)
     else do {
       let (ret, w) = mb_ssl_config_defaults M w (tc_role tls_cfg) True;
       if ret \<noteq> 0 then Some (ERR_IO, b, w)
       else do {
         let w = mb_ssl_conf M w (Conf_handshake_timeout 1000 10000);
         let w = mb_ssl_conf M w (Conf_read_timeout 100);
         let w = mb_ssl_conf M w (if tc_verify_peer tls_cfg then Conf_authmode_required else Conf_authmode_none);
         (res, b, w) \<leftarrow> DtlsUdpBackend_load_certs_and_key M b w tls_cfg;
         if res \<noteq> OK then Some (res, b, w)
         else do {
           (res, w) \<leftarrow> DtlsUdpBackend_setup_cookie_if_server M w tls_cfg;
           if res \<noteq> OK then Some (res, b, w)
           else do {
             let w = mb_ssl_conf M w (Conf_ciphersuites k_allowed_ciphersuites);
             let w = mb_ssl_conf M w Conf_min_tls_version_1_2;
             nc_assert (psa_ret = 0);
             Some (OK, b, w)
           }
         }
       }
     }
   }"

definition validate_dtls_init_config :: "tls_config \<Rightarrow> Result option" where
  "validate_dtls_init_config tls_cfg = do {
     nc_assert (tls_path_valid (tc_ca_file tls_cfg));
     if \<not> tc_tls_enabled tls_cfg then Some OK
     else if tc_verify_peer tls_cfg \<and> tc_ca_file tls_cfg ! 0 = CHR 0x00 then Some ERR_IO
     else if tc_require_crl tls_cfg \<and> tc_verify_peer tls_cfg \<and> tc_crl_file tls_cfg ! 0 = CHR 0x00 then Some ERR_INVALID
     else if \<not> tc_verify_peer tls_cfg \<and> tc_peer_hostname tls_cfg ! 0 \<noteq> CHR 0x00 then Some ERR_INVALID
     else do {
       nc_assert (\<not> (tc_verify_peer tls_cfg \<and> tc_ca_file tls_cfg ! 0 = CHR 0x00));
       Some OK
     }
   }"

section \<open>The handshake\<close>

definition DTLS_HANDSHAKE_MAX_ITER :: nat where [simp]: "DTLS_HANDSHAKE_MAX_ITER = 32"

primrec dtls_handshake_loop :: "'w mbedtls \<Rightarrow> int \<Rightarrow> sock_addr \<Rightarrow> nat \<Rightarrow> 'w \<Rightarrow> Result \<times> 'w" where
  "dtls_handshake_loop M net_fd peer_addr 0 w = (ERR_IO, w)"
| "dtls_handshake_loop M net_fd peer_addr (Suc n) w =
     (let (ret, w) = mb_ssl_handshake M w 0 in
      if ret = 0 then (OK, w)
      else if ret = mb_ERR_SSL_HELLO_VERIFY_REQUIRED M then
        let w = mb_ssl_call M w 0 Session_reset;
            w = mb_ssl_call M w 0 (Set_bio net_fd);
            w = mb_ssl_call M w 0 Set_timer_cb;
            w = mb_ssl_call M w 0 (Reset_client_transport_id peer_addr)
        in dtls_handshake_loop M net_fd peer_addr n w
      else if ret \<noteq> mb_ERR_SSL_WANT_READ M \<and> ret \<noteq> mb_ERR_SSL_WANT_WRITE M then (ERR_IO, w)
      else dtls_handshake_loop M net_fd peer_addr n w)"

definition DtlsUdpBackend_run_dtls_handshake :: "'w mbedtls \<Rightarrow> dtls_backend \<Rightarrow> 'w \<Rightarrow> sock_addr \<Rightarrow> Result \<times> 'w" where
  "DtlsUdpBackend_run_dtls_handshake M b w peer_addr = dtls_handshake_loop M (db_net_ctx_fd b) peer_addr DTLS_HANDSHAKE_MAX_ITER w"

text \<open>A failed handshake frees the connection; a completed one opens the backend.\<close>

definition finish_handshake :: "'w mbedtls \<Rightarrow> dtls_backend \<Rightarrow> 'w \<Rightarrow> sock_addr \<Rightarrow> (Result \<times> dtls_backend \<times> 'w) option" where
  "finish_handshake M b w peer_addr = do {
     let (res, w) = DtlsUdpBackend_run_dtls_handshake M b w peer_addr;
     if res \<noteq> OK then Some (res, b, mb_ssl_call M (mb_ssl_call M w 0 Ssl_free) 0 Ssl_init)
     else do {
       let b = b\<lparr> db_open := True, db_connections_opened := db_connections_opened b + 1 \<rparr>;
       nc_assert (db_open b);
       Some (OK, b, w)
     }
   }"

definition DtlsUdpBackend_server_wait_and_handshake ::
    "'w posix \<Rightarrow> 'w mbedtls \<Rightarrow> dtls_backend \<Rightarrow> 'w \<Rightarrow> (Result \<times> dtls_backend \<times> 'w) option" where
  "DtlsUdpBackend_server_wait_and_handshake X M b w = do {
     nc_assert (db_is_server b);
     nc_assert (db_sock_fd b \<ge> 0);
     let raw_timeout = (if tcf_connect_timeout_ms (db_cfg b) > 0 then tcf_connect_timeout_ms (db_cfg b) else 30000);
     let ((pr, _), w) = px_poll X w [(db_sock_fd b, POLLIN)] (clamped_ms raw_timeout);
     if pr \<le> 0 then Some (ERR_TIMEOUT, b, w)
     else do {
       ((n, peer_addr), w) \<leftarrow> MbedtlsOpsImpl_recvfrom_peek M w (db_sock_fd b);
       if n < 0 then Some (ERR_IO, b, w)
       else do {
         (r, w) \<leftarrow> MbedtlsOpsImpl_net_connect X w (db_sock_fd b) peer_addr;
         if r < 0 then Some (ERR_IO, b, w)
         else do {
           let b = b\<lparr> db_net_ctx_fd := db_sock_fd b \<rparr>;
           let (ret, w) = mb_ssl_setup M w 0;
           if ret \<noteq> 0 then Some (ERR_IO, b, w)
           else do {
             let w = mb_ssl_call M w 0 (Set_bio (db_net_ctx_fd b));
             let w = mb_ssl_call M w 0 Set_timer_cb;
             let w = mb_ssl_call M w 0 (Set_mtu (ucast DTLS_MAX_DATAGRAM_BYTES));
             let (ret, w) = mb_ssl_set_client_transport_id M w 0 peer_addr;
             if ret \<noteq> 0 then Some (ERR_IO, b, w)
             else finish_handshake M b w peer_addr
           }
         }
       }
     }
   }"

definition DtlsUdpBackend_client_connect_and_handshake ::
    "'w posix \<Rightarrow> 'w mbedtls \<Rightarrow> dtls_backend \<Rightarrow> 'w \<Rightarrow> (Result \<times> dtls_backend \<times> 'w) option" where
  "DtlsUdpBackend_client_connect_and_handshake X M b w = do {
     nc_assert (\<not> db_is_server b);
     nc_assert (db_sock_fd b \<ge> 0);
     let tls = tcf_tls (db_cfg b);
     if tc_verify_peer tls \<and> tc_peer_hostname tls ! 0 = CHR 0x00 then Some (ERR_INVALID, b, w)
     else case px_inet_pton X False (tcf_peer_ip (db_cfg b)) of None \<Rightarrow> Some (ERR_IO, b, w)
     | Some a \<Rightarrow> do {
         let peer = Inet4 a (tcf_peer_port (db_cfg b));
         (r, w) \<leftarrow> MbedtlsOpsImpl_net_connect X w (db_sock_fd b) peer;
         if r < 0 then Some (ERR_IO, b, w)
         else do {
           let b = b\<lparr> db_net_ctx_fd := db_sock_fd b \<rparr>;
           let (ret, w) = mb_ssl_setup M w 0;
           if ret \<noteq> 0 then Some (ERR_IO, b, w)
           else do {
             nc_assert (\<not> db_is_server b);
             let hostname = (if tc_peer_hostname tls ! 0 \<noteq> CHR 0x00 then Some (c_string (tc_peer_hostname tls)) else None);
             let (ret, w) = mb_ssl_set_hostname M w 0 hostname;
             if ret \<noteq> 0 then Some (ERR_IO, b, mb_ssl_call M (mb_ssl_call M w 0 Ssl_free) 0 Ssl_init)
             else do {
               let w = mb_ssl_call M w 0 (Set_bio (db_net_ctx_fd b));
               let w = mb_ssl_call M w 0 Set_timer_cb;
               let w = mb_ssl_call M w 0 (Set_mtu (ucast DTLS_MAX_DATAGRAM_BYTES));
               finish_handshake M b w peer
             }
           }
         }
       }
   }"

section \<open>Opening\<close>

definition DtlsUdpBackend_create_and_bind_udp_socket ::
    "'w socket_ops \<Rightarrow> dtls_backend \<Rightarrow> 'w \<Rightarrow> transport_config \<Rightarrow> (Result \<times> dtls_backend \<times> 'w) option" where
  "DtlsUdpBackend_create_and_bind_udp_socket S b w config = do {
     nc_assert (db_sock_fd b < 0);
     (fd, w) \<leftarrow> so_create_udp S w (socket_is_ipv6 (tcf_bind_ip config));
     let b = b\<lparr> db_sock_fd := fd \<rparr>;
     if fd < 0 then Some (ERR_IO, b, w)
     else do {
       (ok, w) \<leftarrow> so_set_reuseaddr S w fd;
       if \<not> ok then do { w \<leftarrow> so_do_close S w fd; Some (ERR_IO, b\<lparr> db_sock_fd := - 1 \<rparr>, w) }
       else do {
         (ok, w) \<leftarrow> so_do_bind S w fd (tcf_bind_ip config) (tcf_bind_port config);
         if \<not> ok then do { w \<leftarrow> so_do_close S w fd; Some (ERR_IO, b\<lparr> db_sock_fd := - 1 \<rparr>, w) }
         else Some (OK, b, w)
       }
     }
   }"

definition DtlsUdpBackend_run_tls_handshake_phase ::
    "'w socket_ops \<Rightarrow> 'w posix \<Rightarrow> 'w mbedtls \<Rightarrow> dtls_backend \<Rightarrow> 'w \<Rightarrow> transport_config \<Rightarrow> (Result \<times> dtls_backend \<times> 'w) option" where
  "DtlsUdpBackend_run_tls_handshake_phase S X M b w config = do {
     nc_assert (db_sock_fd b \<ge> 0);
     nc_assert (\<not> db_open b);
     if db_tls_enabled b then do {
       (res, b, w) \<leftarrow> DtlsUdpBackend_setup_dtls_config M b w (tcf_tls config);
       if res \<noteq> OK then do { w \<leftarrow> so_do_close S w (db_sock_fd b); Some (res, b\<lparr> db_sock_fd := - 1 \<rparr>, w) }
       else do {
         (res, b, w) \<leftarrow> (if db_is_server b then DtlsUdpBackend_server_wait_and_handshake X M b w
           else DtlsUdpBackend_client_connect_and_handshake X M b w);
         if res \<noteq> OK then do { w \<leftarrow> so_do_close S w (db_sock_fd b); Some (res, b\<lparr> db_sock_fd := - 1 \<rparr>, w) }
         else Some (OK, b, w)
       }
     }
     else Some (OK, b\<lparr> db_open := True, db_connections_opened := db_connections_opened b + 1 \<rparr>, w)
   }"

definition DtlsUdpBackend_init :: "'w socket_ops \<Rightarrow> 'w posix \<Rightarrow> 'w mbedtls \<Rightarrow> dtls_backend \<Rightarrow> 'w \<Rightarrow> transport_config \<Rightarrow> u64 \<Rightarrow>
    (Result \<times> dtls_backend \<times> 'w) option" where
  "DtlsUdpBackend_init S X M b w config entropy = do {
     nc_assert (tcf_kind config = DTLS_UDP);
     nc_assert (\<not> db_open b);
     if \<not> transport_config_valid config then Some (ERR_INVALID, b, w)
     else do {
       vres \<leftarrow> validate_dtls_init_config (tcf_tls config);
       if vres \<noteq> OK then Some (vres, b, w)
       else do {
         let b = b\<lparr> db_cfg := config, db_is_server := tcf_is_server config, db_tls_enabled := tc_tls_enabled (tcf_tls config) \<rparr>;
         if first_idx (\<lambda>c. c = CHR '':'') (take 48 (tcf_peer_ip config)) \<noteq> None then Some (ERR_INVALID, b, w)
         else do {
           let b = b\<lparr> db_peer_node_id := NODE_ID_INVALID, db_peer_hello_received := False, db_pending_src_port := 0,
             db_peer_src_port := 0, db_crl_loaded := False \<rparr>;
           q \<leftarrow> RingBuffer_init (db_recv_queue b);
           imp \<leftarrow> ImpairmentEngine_init (db_impairment b) (first_impairment config) entropy;
           let b = b\<lparr> db_recv_queue := q, db_impairment := imp \<rparr>;
           (res, b, w) \<leftarrow> DtlsUdpBackend_create_and_bind_udp_socket S b w config;
           if res \<noteq> OK then Some (res, b, w)
           else do {
             (res, b, w) \<leftarrow> DtlsUdpBackend_run_tls_handshake_phase S X M b w config;
             if res \<noteq> OK then Some (res, b, w)
             else do {
               nc_assert (db_open b);
               Some (OK, b, w)
             }
           }
         }
       }
     }
   }"

section \<open>Sending\<close>

definition DtlsUdpBackend_send_wire_bytes ::
    "'w socket_ops \<Rightarrow> 'w mbedtls \<Rightarrow> dtls_backend \<Rightarrow> 'w \<Rightarrow> u8 list \<Rightarrow> u32 \<Rightarrow> (Result \<times> 'w) option" where
  "DtlsUdpBackend_send_wire_bytes S M b w buf len = do {
     nc_assert (len > 0 \<and> len \<le> DTLS_MAX_DATAGRAM_BYTES);
     if db_tls_enabled b then do {
       let (ret, w) = mb_ssl_write M w 0 (take (unat len) buf);
       Some (if ret < 0 then ERR_IO else OK, w)
     }
     else do {
       let dest_port = (if db_is_server b \<and> db_peer_src_port b \<noteq> 0 then db_peer_src_port b else tcf_peer_port (db_cfg b));
       (ok, w) \<leftarrow> so_send_to S w (db_sock_fd b) buf len (tcf_peer_ip (db_cfg b)) dest_port;
       Some (if \<not> ok then ERR_IO else OK, w)
     }
   }"

definition DtlsUdpBackend_send_hello_datagram ::
    "'w socket_ops \<Rightarrow> 'w mbedtls \<Rightarrow> dtls_backend \<Rightarrow> 'w \<Rightarrow> (Result \<times> dtls_backend \<times> 'w) option" where
  "DtlsUdpBackend_send_hello_datagram S M b w = do {
     nc_assert (db_local_node_id b \<noteq> NODE_ID_INVALID);
     let hello = envelope_init\<lparr> message_type := HELLO, source_id := db_local_node_id b, destination_id := NODE_ID_INVALID,
       payload_length := 0 \<rparr>;
     (res, buf, wire_len) \<leftarrow> serialize hello (db_wire_buf b) SOCKET_RECV_BUF_BYTES 0;
     let b = b\<lparr> db_wire_buf := buf \<rparr>;
     if res \<noteq> OK \<or> wire_len > DTLS_MAX_DATAGRAM_BYTES then Some (ERR_IO, b, w)
     else do {
       (send_res, w) \<leftarrow> DtlsUdpBackend_send_wire_bytes S M b w (db_wire_buf b) wire_len;
       if send_res \<noteq> OK then Some (send_res, b, w)
       else do {
         nc_assert (wire_len > 0);
         Some (OK, b, w)
       }
     }
   }"

definition DtlsUdpBackend_register_local_id ::
    "'w socket_ops \<Rightarrow> 'w mbedtls \<Rightarrow> dtls_backend \<Rightarrow> 'w \<Rightarrow> NodeId \<Rightarrow> (Result \<times> dtls_backend \<times> 'w) option" where
  "DtlsUdpBackend_register_local_id S M b w n = do {
     nc_assert (n \<noteq> NODE_ID_INVALID);
     nc_assert (db_open b);
     let b = b\<lparr> db_local_node_id := n \<rparr>;
     if \<not> db_is_server b then DtlsUdpBackend_send_hello_datagram S M b w
     else Some (OK, b, w)
   }"

definition DtlsUdpBackend_send_one_envelope ::
    "'w socket_ops \<Rightarrow> 'w mbedtls \<Rightarrow> dtls_backend \<Rightarrow> 'w \<Rightarrow> envelope \<Rightarrow> bool \<Rightarrow> (bool \<times> dtls_backend \<times> 'w) option" where
  "DtlsUdpBackend_send_one_envelope S M b w env is_current = do {
     (res, buf, dlen) \<leftarrow> serialize env (db_wire_buf b) SOCKET_RECV_BUF_BYTES 0;
     let b = b\<lparr> db_wire_buf := buf \<rparr>;
     if res \<noteq> OK \<or> dlen > DTLS_MAX_DATAGRAM_BYTES then Some (is_current, b, w)
     else do {
       (send_res, w) \<leftarrow> DtlsUdpBackend_send_wire_bytes S M b w (db_wire_buf b) dlen;
       Some (if send_res \<noteq> OK then is_current else False, b, w)
     }
   }"

definition dtls_batch_item ::
    "'w socket_ops \<Rightarrow> 'w mbedtls \<Rightarrow> envelope \<Rightarrow> envelope \<Rightarrow> bool \<times> dtls_backend \<times> 'w \<Rightarrow> (bool \<times> dtls_backend \<times> 'w) option" where
  "dtls_batch_item S M envelope m = (\<lambda>(current_failed, b, w). do {
     let is_current = (source_id m = source_id envelope \<and> message_id m = message_id envelope);
     (failed, b, w) \<leftarrow> DtlsUdpBackend_send_one_envelope S M b w m is_current;
     Some (if failed then True else current_failed, b, w)
   })"

definition DtlsUdpBackend_flush_outbound_batch ::
    "'w socket_ops \<Rightarrow> 'w mbedtls \<Rightarrow> dtls_backend \<Rightarrow> 'w \<Rightarrow> envelope \<Rightarrow> nat \<Rightarrow> (bool \<times> dtls_backend \<times> 'w) option" where
  "DtlsUdpBackend_flush_outbound_batch S M b w envelope n = do {
     nc_assert (n \<le> IMPAIR_DELAY_BUF_SIZE);
     for_each (dtls_batch_item S M envelope) (take n (db_delay_buf b)) (False, b, w)
   }"

definition DtlsUdpBackend_send_message ::
    "'w socket_ops \<Rightarrow> 'w posix \<Rightarrow> 'w mbedtls \<Rightarrow> dtls_backend \<Rightarrow> 'w \<Rightarrow> envelope \<Rightarrow> (Result \<times> dtls_backend \<times> 'w) option" where
  "DtlsUdpBackend_send_message S X M b w envelope = do {
     nc_assert (db_open b);
     nc_assert (envelope_valid envelope);
     (res, buf, wire_len) \<leftarrow> serialize envelope (db_wire_buf b) SOCKET_RECV_BUF_BYTES 0;
     let b = b\<lparr> db_wire_buf := buf \<rparr>;
     if res \<noteq> OK then Some (res, b, w)
     else if wire_len > DTLS_MAX_DATAGRAM_BYTES then Some (ERR_INVALID, b, w)
     else do {
       (now_us, w) \<leftarrow> read_clock X w;
       (res, imp) \<leftarrow> ImpairmentEngine_process_outbound (db_impairment b) envelope now_us;
       let b = b\<lparr> db_impairment := imp \<rparr>;
       if res = ERR_IO then Some (OK, b, w)
       else if res \<noteq> OK then Some (res, b, w)
       else do {
         (n, dbuf, imp) \<leftarrow> ImpairmentEngine_collect_deliverable (db_impairment b) now_us (db_delay_buf b) IMPAIR_DELAY_BUF_SIZE;
         let b = b\<lparr> db_impairment := imp, db_delay_buf := dbuf \<rparr>;
         (failed, b, w) \<leftarrow> DtlsUdpBackend_flush_outbound_batch S M b w envelope n;
         if failed then Some (ERR_IO, b, w)
         else do {
           nc_assert (wire_len > 0);
           Some (OK, b, w)
         }
       }
     }
   }"

section \<open>Receiving\<close>

definition DtlsUdpBackend_validate_source :: "dtls_backend \<Rightarrow> string \<Rightarrow> u16 \<Rightarrow> (bool \<times> dtls_backend) option" where
  "DtlsUdpBackend_validate_source b src_ip src_port = do {
     nc_assert (tcf_peer_ip (db_cfg b) \<noteq> []);
     if db_tls_enabled b then Some (True, b)
     else do {
       let ip_match = (src_ip = tcf_peer_ip (db_cfg b));
       let (port_match, b) = (if db_is_server b then
           if db_peer_src_port b = 0 then (True, b\<lparr> db_pending_src_port := src_port \<rparr>)
           else (src_port = db_peer_src_port b, b)
         else (src_port = tcf_peer_port (db_cfg b), b));
       Some (ip_match \<and> port_match, b)
     }
   }"

definition DtlsUdpBackend_commit_pending_src_port :: "dtls_backend \<Rightarrow> dtls_backend option" where
  "DtlsUdpBackend_commit_pending_src_port b = do {
     nc_assert (db_open b);
     if db_is_server b \<and> db_pending_src_port b \<noteq> 0 then do {
       let b = b\<lparr> db_peer_src_port := db_pending_src_port b, db_pending_src_port := 0 \<rparr>;
       nc_assert (db_peer_src_port b \<noteq> 0);
       Some b
     }
     else Some b
   }"

text \<open>The result and the out-parameter \<open>consumed\<close>. A server answers the first HELLO with its own.\<close>

definition DtlsUdpBackend_process_hello_or_validate ::
    "'w socket_ops \<Rightarrow> 'w mbedtls \<Rightarrow> dtls_backend \<Rightarrow> 'w \<Rightarrow> envelope \<Rightarrow> (bool \<times> bool \<times> dtls_backend \<times> 'w) option" where
  "DtlsUdpBackend_process_hello_or_validate S M b w env = do {
     nc_assert (db_open b);
     nc_assert (db_sock_fd b \<ge> 0);
     if message_type env = HELLO then
       if db_peer_hello_received b then Some (False, False, b, w)
       else do {
         b \<leftarrow> DtlsUdpBackend_commit_pending_src_port (b\<lparr> db_peer_node_id := source_id env, db_peer_hello_received := True \<rparr>);
         (b, w) \<leftarrow> (if db_is_server b \<and> db_local_node_id b \<noteq> NODE_ID_INVALID then do {
             (_, b, w) \<leftarrow> DtlsUdpBackend_send_hello_datagram S M b w;
             Some (b, w)
           } else Some (b, w));
         Some (True, True, b, w)
       }
     else if \<not> db_peer_hello_received b then Some (False, False, b, w)
     else if source_id env \<noteq> db_peer_node_id b then Some (False, False, b, w)
     else Some (True, False, b, w)
   }"

definition DtlsUdpBackend_apply_inbound_impairment :: "'w posix \<Rightarrow> dtls_backend \<Rightarrow> 'w \<Rightarrow> envelope \<Rightarrow> (bool \<times> dtls_backend \<times> 'w) option" where
  "DtlsUdpBackend_apply_inbound_impairment X b w env = do {
     nc_assert (db_open b);
     (now_us, w) \<leftarrow> read_clock X w;
     (res, inbound_out, inbound_count, imp) \<leftarrow> ImpairmentEngine_process_inbound (db_impairment b) env now_us [envelope_zero] 1;
     let b = b\<lparr> db_impairment := imp \<rparr>;
     if res = ERR_IO then Some (False, b, w)
     else if inbound_count = 0 then Some (False, b, w)
     else do {
       nc_assert (inbound_count = 1);
       (res, q) \<leftarrow> RingBuffer_push (db_recv_queue b) (inbound_out ! 0);
       Some (res = OK, b\<lparr> db_recv_queue := q \<rparr>, w)
     }
   }"

text \<open>The result and the out-parameter \<open>out_len\<close>, which stays 0 if nothing was read.\<close>

definition DtlsUdpBackend_try_tls_recv :: "'w mbedtls \<Rightarrow> dtls_backend \<Rightarrow> 'w \<Rightarrow> (bool \<times> u32 \<times> dtls_backend \<times> 'w) option" where
  "DtlsUdpBackend_try_tls_recv M b w = do {
     nc_assert (db_tls_enabled b);
     let ((ret, bytes), w) = mb_ssl_read M w 0 (unat SOCKET_RECV_BUF_BYTES);
     if ret \<le> 0 then Some (False, 0, b, w)
     else Some (True, of_int ret, b\<lparr> db_wire_buf := blit (db_wire_buf b) 0 bytes \<rparr>, w)
   }"

definition DtlsUdpBackend_deserialize_and_dispatch ::
    "'w socket_ops \<Rightarrow> 'w posix \<Rightarrow> 'w mbedtls \<Rightarrow> dtls_backend \<Rightarrow> 'w \<Rightarrow> u32 \<Rightarrow> (bool \<times> dtls_backend \<times> 'w) option" where
  "DtlsUdpBackend_deserialize_and_dispatch S X M b w out_len = do {
     nc_assert (db_open b);
     nc_assert (out_len > 0);
     (res, env) \<leftarrow> deserialize (db_wire_buf b) out_len envelope_zero;
     if res \<noteq> OK then Some (False, b, w)
     else do {
       (accepted, consumed, b, w) \<leftarrow> DtlsUdpBackend_process_hello_or_validate S M b w env;
       if \<not> accepted then Some (False, b, w)
       else if consumed then Some (False, b, w)
       else DtlsUdpBackend_apply_inbound_impairment X b w env
     }
   }"

definition DtlsUdpBackend_recv_one_dtls_datagram ::
    "'w socket_ops \<Rightarrow> 'w posix \<Rightarrow> 'w mbedtls \<Rightarrow> dtls_backend \<Rightarrow> 'w \<Rightarrow> u32 \<Rightarrow> (bool \<times> dtls_backend \<times> 'w) option" where
  "DtlsUdpBackend_recv_one_dtls_datagram S X M b w timeout_ms = do {
     nc_assert (db_open b);
     nc_assert (db_sock_fd b \<ge> 0);
     if db_tls_enabled b then do {
       (ok, out_len, b, w) \<leftarrow> DtlsUdpBackend_try_tls_recv M b w;
       if \<not> ok then Some (False, b, w)
       else DtlsUdpBackend_deserialize_and_dispatch S X M b w out_len
     }
     else do {
       (ok, buf, (out_len, src_ip, src_port), w) \<leftarrow>
         so_recv_from S w (db_sock_fd b) (db_wire_buf b) SOCKET_RECV_BUF_BYTES timeout_ms (0, [], 0);
       let b = b\<lparr> db_wire_buf := buf \<rparr>;
       if \<not> ok then Some (False, b, w)
       else do {
         (source_ok, b) \<leftarrow> DtlsUdpBackend_validate_source b src_ip src_port;
         if \<not> source_ok then Some (False, b, w)
         else DtlsUdpBackend_deserialize_and_dispatch S X M b w out_len
       }
     }
   }"

definition dtls_flush_item ::
    "'w socket_ops \<Rightarrow> 'w mbedtls \<Rightarrow> envelope \<Rightarrow> dtls_backend \<times> 'w \<Rightarrow> (dtls_backend \<times> 'w) option" where
  "dtls_flush_item S M m = (\<lambda>(b, w). do {
     (send_failed, b, w) \<leftarrow> DtlsUdpBackend_send_one_envelope S M b w m False;
     Some (b, w)
   })"

definition DtlsUdpBackend_flush_delayed_to_wire ::
    "'w socket_ops \<Rightarrow> 'w mbedtls \<Rightarrow> dtls_backend \<Rightarrow> 'w \<Rightarrow> u64 \<Rightarrow> (dtls_backend \<times> 'w) option" where
  "DtlsUdpBackend_flush_delayed_to_wire S M b w now_us = do {
     nc_assert (now_us > 0);
     nc_assert (db_open b);
     (n, dbuf, imp) \<leftarrow> ImpairmentEngine_collect_deliverable (db_impairment b) now_us (db_delay_buf b) IMPAIR_DELAY_BUF_SIZE;
     let b = b\<lparr> db_impairment := imp, db_delay_buf := dbuf \<rparr>;
     for_each (dtls_flush_item S M) (take n dbuf) (b, w)
   }"

primrec dtls_receive_attempts :: "'w socket_ops \<Rightarrow> 'w posix \<Rightarrow> 'w mbedtls \<Rightarrow> nat \<Rightarrow> dtls_backend \<Rightarrow> 'w \<Rightarrow> envelope \<Rightarrow>
    (Result \<times> envelope \<times> dtls_backend \<times> 'w) option" where
  "dtls_receive_attempts S X M 0 b w envelope = Some (ERR_TIMEOUT, envelope, b, w)"
| "dtls_receive_attempts S X M (Suc n) b w envelope = do {
     (_, b, w) \<leftarrow> DtlsUdpBackend_recv_one_dtls_datagram S X M b w 100;
     (res, envelope, q) \<leftarrow> RingBuffer_pop (db_recv_queue b) envelope;
     let b = b\<lparr> db_recv_queue := q \<rparr>;
     if res = OK then Some (res, envelope, b, w)
     else do {
       (now_us, w) \<leftarrow> read_clock X w;
       (b, w) \<leftarrow> DtlsUdpBackend_flush_delayed_to_wire S M b w now_us;
       (res, envelope, q) \<leftarrow> RingBuffer_pop (db_recv_queue b) envelope;
       let b = b\<lparr> db_recv_queue := q \<rparr>;
       if res = OK then Some (res, envelope, b, w)
       else dtls_receive_attempts S X M n b w envelope
     }
   }"

definition DtlsUdpBackend_receive_message :: "'w socket_ops \<Rightarrow> 'w posix \<Rightarrow> 'w mbedtls \<Rightarrow> dtls_backend \<Rightarrow> 'w \<Rightarrow> envelope \<Rightarrow> u32 \<Rightarrow>
    (Result \<times> envelope \<times> dtls_backend \<times> 'w) option" where
  "DtlsUdpBackend_receive_message S X M b w envelope timeout_ms = do {
     nc_assert (db_open b);
     nc_assert (db_sock_fd b \<ge> 0);
     (res, envelope, q) \<leftarrow> RingBuffer_pop (db_recv_queue b) envelope;
     let b = b\<lparr> db_recv_queue := q \<rparr>;
     if res = OK then Some (res, envelope, b, w)
     else do {
       nc_assert (poll_count timeout_ms \<le> 50);
       dtls_receive_attempts S X M (unat (poll_count timeout_ms)) b w envelope
     }
   }"

section \<open>Closing and statistics\<close>

definition DtlsUdpBackend_close :: "'w socket_ops \<Rightarrow> 'w mbedtls \<Rightarrow> dtls_backend \<Rightarrow> 'w \<Rightarrow> (dtls_backend \<times> 'w) option" where
  "DtlsUdpBackend_close S M b w = do {
     let w = (if db_tls_enabled b \<and> db_open b then mb_ssl_call M w 0 Close_notify else w);
     let w = mb_ssl_call M w 0 Ssl_free;
     let w = mb_ssl_call M w 0 Ssl_init;
     let b = b\<lparr> db_net_ctx_fd := - 1 \<rparr>;
     (b, w) \<leftarrow> (if db_sock_fd b \<ge> 0 then do {
         w \<leftarrow> so_do_close S w (db_sock_fd b);
         Some (b\<lparr> db_sock_fd := - 1, db_connections_closed := db_connections_closed b + 1 \<rparr>, w)
       } else Some (b, w));
     Some (b\<lparr> db_peer_node_id := NODE_ID_INVALID, db_peer_hello_received := False, db_pending_src_port := 0,
       db_peer_src_port := 0, db_open := False \<rparr>, w)
   }"

definition DtlsUdpBackend_is_open :: "dtls_backend \<Rightarrow> bool option" where
  "DtlsUdpBackend_is_open b = do {
     nc_assert (db_open b = (db_sock_fd b \<ge> 0) \<or> \<not> db_open b);
     Some (db_open b)
   }"

definition DtlsUdpBackend_get_transport_stats :: "dtls_backend \<Rightarrow> transport_stats option" where
  "DtlsUdpBackend_get_transport_stats b = do {
     nc_assert (db_connections_opened b \<ge> db_connections_closed b);
     nc_assert (db_connections_closed b \<le> db_connections_opened b);
     imp \<leftarrow> ImpairmentEngine_get_stats (db_impairment b);
     Some \<lparr> connections_opened = db_connections_opened b, connections_closed = db_connections_closed b, ts_impairment = imp \<rparr>
   }"

text \<open>The backend as the transport of a delivery engine; \<open>pop_hello_peer\<close> is the default of the interface.\<close>

definition dtls_transport :: "'w socket_ops \<Rightarrow> 'w posix \<Rightarrow> 'w mbedtls \<Rightarrow> (dtls_backend \<times> 'w) transport" where
  "dtls_transport S X M = \<lparr>
     tr_register_local_id = (\<lambda>(b, w) n. DtlsUdpBackend_register_local_id S M b w n),
     tr_pop_hello_peer = (\<lambda>(b, w). Some (NODE_ID_INVALID, b, w)),
     tr_send_message = (\<lambda>(b, w) env. DtlsUdpBackend_send_message S X M b w env),
     tr_receive_message = (\<lambda>(b, w) env ms. DtlsUdpBackend_receive_message S X M b w env ms),
     tr_get_transport_stats = (\<lambda>(b, w) out. DtlsUdpBackend_get_transport_stats b) \<rparr>"

end
