(* ===== verification/DtlsBackendCorrect.thy ===== *)
theory DtlsBackendCorrect
  imports DtlsBackend
begin

text \<open>
  The invariant of the DTLS backend and its properties: no call aborts over an arbitrary network and an arbitrary TLS library, the
  backend opens only under safe settings, a session is set up with exactly the intended ones, and received messages are authentic.
  One condition is necessary: without TLS the peer address must be set, because the code asserts it for every datagram.
\<close>

definition dtls_inv :: "dtls_backend \<Rightarrow> bool" where
  "dtls_inv b \<longleftrightarrow> db_open b \<and> 0 \<le> db_sock_fd b \<and> (db_tls_enabled b \<or> tcf_peer_ip (db_cfg b) \<noteq> []) \<and> length (db_wire_buf b) = 8192 \<and>
     link_ok msg_ok inbound_ok (db_impairment b) \<and> queue_holds inbound_ok (db_recv_queue b) \<and> 32 \<le> length (db_delay_buf b) \<and>
     (db_peer_src_port b \<noteq> 0 \<longrightarrow> db_peer_hello_received b)"

definition dtls_closed :: "dtls_backend \<Rightarrow> bool" where
  "dtls_closed b \<longleftrightarrow> \<not> db_open b \<and> db_sock_fd b < 0 \<and> length (db_wire_buf b) = 8192 \<and>
     length (rb_buf (db_recv_queue b)) = 64 \<and> 32 \<le> length (db_delay_buf b)"

definition dtls_config_ok :: "transport_config \<Rightarrow> u64 \<Rightarrow> bool" where
  "dtls_config_ok config entropy \<longleftrightarrow> tcf_kind config = DTLS_UDP \<and> imp_config_ok (first_impairment config) \<and>
     (ic_prng_seed (first_impairment config) \<noteq> 0 \<or> entropy \<noteq> 0) \<and> tls_path_valid (tc_ca_file (tcf_tls config)) \<and>
     (if tc_tls_enabled (tcf_tls config) then path_given (tc_cert_file (tcf_tls config)) \<and> path_given (tc_key_file (tcf_tls config)) \<and>
        tls_path_valid (tc_crl_file (tcf_tls config)) else tcf_peer_ip config \<noteq> [])"

text \<open>The TLS settings with which the backend opens: a peer that is verified is verified against a trust anchor, by a client
  under a host name, and against a revocation list where one is required; without verification no host name is set.\<close>

definition tls_settings_safe :: "bool \<Rightarrow> tls_config \<Rightarrow> bool" where
  "tls_settings_safe is_server tls \<longleftrightarrow>
     (if tc_verify_peer tls then path_given (tc_ca_file tls) \<and> (tc_require_crl tls \<longrightarrow> path_given (tc_crl_file tls)) \<and>
        (\<not> is_server \<longrightarrow> tc_peer_hostname tls ! 0 \<noteq> CHR 0x00)
      else tc_peer_hostname tls ! 0 = CHR 0x00)"

definition dtls_waiting :: "dtls_backend \<Rightarrow> envelope set" where
  "dtls_waiting b = set (rb_contents (db_recv_queue b)) \<union> set (window (db_impairment b))"

text \<open>The peer's registration, once made, and a locked port do not change; neither do the configuration and the roles.\<close>

definition dtls_same_peer :: "dtls_backend \<Rightarrow> dtls_backend \<Rightarrow> bool" where
  "dtls_same_peer b b' \<longleftrightarrow> db_cfg b' = db_cfg b \<and> db_is_server b' = db_is_server b \<and> db_tls_enabled b' = db_tls_enabled b \<and>
     (db_peer_hello_received b \<longrightarrow> db_peer_hello_received b' \<and> db_peer_node_id b' = db_peer_node_id b) \<and>
     (db_peer_src_port b \<noteq> 0 \<longrightarrow> db_peer_src_port b' = db_peer_src_port b)"

text \<open>What the source of a plaintext datagram must be.\<close>

definition dtls_source_ok :: "dtls_backend \<Rightarrow> string \<Rightarrow> u16 \<Rightarrow> bool" where
  "dtls_source_ok b ip port \<longleftrightarrow> ip = tcf_peer_ip (db_cfg b) \<and>
     (if db_is_server b then db_peer_src_port b = 0 \<or> port = db_peer_src_port b else port = tcf_peer_port (db_cfg b))"

definition dtls_authentic_step :: "dtls_backend \<Rightarrow> dtls_backend \<Rightarrow> bool" where
  "dtls_authentic_step b b' \<longleftrightarrow> dtls_waiting b' \<subseteq> dtls_waiting b \<or>
     db_peer_hello_received b \<and>
     (\<exists>env. inbound_ok env \<and> source_id env = db_peer_node_id b \<and> dtls_waiting b' \<subseteq> insert env (dtls_waiting b))"

text \<open>What the TLS set-up leaves alone.\<close>

definition dtls_frame :: "dtls_backend \<Rightarrow> dtls_backend \<Rightarrow> bool" where
  "dtls_frame b b' \<longleftrightarrow> db_sock_fd b' = db_sock_fd b \<and> db_wire_buf b' = db_wire_buf b \<and> db_cfg b' = db_cfg b \<and>
     db_impairment b' = db_impairment b \<and> db_recv_queue b' = db_recv_queue b \<and> db_is_server b' = db_is_server b \<and>
     db_tls_enabled b' = db_tls_enabled b \<and> db_peer_hello_received b' = db_peer_hello_received b \<and>
     db_delay_buf b' = db_delay_buf b \<and> db_peer_src_port b' = db_peer_src_port b"

text \<open>A library whose state records the settings made; only \<open>mb_ssl_conf\<close> makes one.\<close>

definition records_settings :: "'w mbedtls \<Rightarrow> ('w \<Rightarrow> ssl_setting list) \<Rightarrow> bool" where
  "records_settings M made \<longleftrightarrow> (\<forall>w s. made (mb_ssl_conf M w s) = made w @ [s]) \<and> (\<forall>w. made (snd (mb_psa_crypto_init M w)) = made w) \<and>
     (\<forall>w role dgram. made (snd (mb_ssl_config_defaults M w role dgram)) = made w) \<and> (\<forall>w path. made (snd (mb_lstat M w path)) = made w) \<and>
     (\<forall>w crt path. made (snd (mb_x509_crt_parse_file M w crt path)) = made w) \<and>
     (\<forall>w path. made (snd (mb_x509_crl_parse_file M w path)) = made w) \<and> (\<forall>w path. made (snd (mb_pk_parse_keyfile M w path)) = made w) \<and>
     (\<forall>w. made (snd (mb_ssl_conf_own_cert M w)) = made w) \<and> (\<forall>w. made (snd (mb_ssl_cookie_setup M w)) = made w)"

text \<open>The settings of a DTLS session.\<close>

definition dtls_session_settings :: "tls_config \<Rightarrow> ssl_setting list" where
  "dtls_session_settings tls = [Conf_handshake_timeout 1000 10000, Conf_read_timeout 100] @
     (if tc_verify_peer tls then [Conf_authmode_required] else [Conf_authmode_none]) @
     (if tc_verify_peer tls \<and> tc_ca_file tls ! 0 \<noteq> CHR 0x00 then [Conf_ca_chain (tc_crl_file tls ! 0 \<noteq> CHR 0x00)] else []) @
     (if tc_role tls = SERVER then [Conf_dtls_cookies] else []) @
     [Conf_ciphersuites k_allowed_ciphersuites, Conf_min_tls_version_1_2]"

text \<open>Examples: a plaintext server that has locked port 9001 of node 7 at 10.0.0.7; a TLS client configuration; a plaintext server
  without a peer address.\<close>

definition dtls_example :: dtls_backend where
  "dtls_example = (DtlsUdpBackend_new (transport_config_default\<lparr> tcf_kind := DTLS_UDP, tcf_peer_ip := ''10.0.0.7'' \<rparr>)
     (imp_blank impairment_config_default))\<lparr> db_open := True, db_sock_fd := 3, db_is_server := True, db_peer_hello_received := True,
       db_peer_node_id := 7, db_peer_src_port := 9001 \<rparr>"

definition path_of :: "string \<Rightarrow> string" where
  "path_of p = p @ replicate (TLS_PATH_MAX - length p) CHR 0x00"

definition tls_example :: tls_config where
  "tls_example = tls_config_default\<lparr> tc_tls_enabled := True, tc_cert_file := path_of ''client.crt'', tc_key_file := path_of ''client.key'',
     tc_ca_file := path_of ''ca.crt'', tc_crl_file := path_of ''ca.crl'', tc_require_crl := True,
     tc_peer_hostname := path_of ''server'' \<rparr>"

definition dtls_config_example :: transport_config where
  "dtls_config_example = transport_config_default\<lparr> tcf_kind := DTLS_UDP, tcf_tls := tls_example \<rparr>"

definition dtls_anyone :: dtls_backend where
  "dtls_anyone = dtls_example\<lparr> db_cfg := transport_config_default\<lparr> tcf_kind := DTLS_UDP, tcf_peer_ip := [] \<rparr>, db_peer_hello_received := False \<rparr>"

lemma dtls_same_peer_refl [simp]: "dtls_same_peer b b"
  by (simp add: dtls_same_peer_def)

lemma dtls_same_peer_trans: "dtls_same_peer a b \<Longrightarrow> dtls_same_peer b c \<Longrightarrow> dtls_same_peer a c"
  by (auto simp: dtls_same_peer_def)

lemma dtls_same_peer_update [simp]:
  "dtls_same_peer b (c\<lparr> db_recv_queue := q \<rparr>) = dtls_same_peer b c" "dtls_same_peer b (c\<lparr> db_impairment := imp \<rparr>) = dtls_same_peer b c"
  "dtls_same_peer b (c\<lparr> db_delay_buf := d \<rparr>) = dtls_same_peer b c" "dtls_same_peer b (c\<lparr> db_wire_buf := buf \<rparr>) = dtls_same_peer b c"
  "dtls_same_peer b (c\<lparr> db_local_node_id := n \<rparr>) = dtls_same_peer b c" "dtls_same_peer b (c\<lparr> db_pending_src_port := p \<rparr>) = dtls_same_peer b c"
  by (simp_all add: dtls_same_peer_def)

lemma dtls_inv_update [simp]:
  "length buf = 8192 \<Longrightarrow> dtls_inv b \<Longrightarrow> dtls_inv (b\<lparr> db_wire_buf := buf \<rparr>)"
  "dtls_inv (b\<lparr> db_local_node_id := n \<rparr>) = dtls_inv b" "dtls_inv (b\<lparr> db_pending_src_port := p \<rparr>) = dtls_inv b"
  "dtls_inv b \<Longrightarrow> dtls_inv (b\<lparr> db_peer_node_id := n, db_peer_hello_received := True \<rparr>)"
  by (simp_all add: dtls_inv_def)

lemma dtls_waiting_update [simp]:
  "dtls_waiting (b\<lparr> db_wire_buf := buf \<rparr>) = dtls_waiting b"
  "dtls_waiting (b\<lparr> db_local_node_id := n \<rparr>) = dtls_waiting b" "dtls_waiting (b\<lparr> db_pending_src_port := p \<rparr>) = dtls_waiting b"
  "dtls_waiting (b\<lparr> db_peer_node_id := n \<rparr>) = dtls_waiting b" "dtls_waiting (b\<lparr> db_peer_hello_received := h \<rparr>) = dtls_waiting b"
  "dtls_waiting (b\<lparr> db_peer_src_port := p \<rparr>) = dtls_waiting b"
  by (simp_all add: dtls_waiting_def)

lemma path_given_nth: "path_given p \<Longrightarrow> p ! 0 \<noteq> CHR 0x00" "path_given p \<Longrightarrow> tls_path_valid p"
  by (simp_all add: path_given_def)

section \<open>Sending\<close>

context tls_env
begin

lemma dtls_send_wire:
  assumes "dtls_inv b" and "I w" and "0 < len" and "len \<le> 1400" and "unat len \<le> length buf"
  shows "returns (DtlsUdpBackend_send_wire_bytes S M b w buf len) (\<lambda>(r, w'). I w' \<and> r \<in> {OK, ERR_IO})"
proof -
  have fd: "0 \<le> db_sock_fd b" using assms(1) by (simp add: dtls_inv_def)
  let ?port = "if db_is_server b \<and> db_peer_src_port b \<noteq> 0 then db_peer_src_port b else tcf_peer_port (db_cfg b)"
  from send_to [OF assms(2) fd assms(3,5), of "tcf_peer_ip (db_cfg b)" ?port] obtain ok w1 where
    "so_send_to S w (db_sock_fd b) buf len (tcf_peer_ip (db_cfg b)) ?port = Some (ok, w1)" "I w1" by (auto elim!: returnsE)
  moreover obtain r w2 where wr: "mb_ssl_write M w 0 (take (unat len) buf) = (r, w2)" by (metis surj_pair)
  ultimately show ?thesis using ssl_write [OF assms(2) wr] assms(3,4)
    by (simp add: DtlsUdpBackend_send_wire_bytes_def Let_def)
qed

lemma dtls_send_one:
  assumes "dtls_inv b" and "I w" and "msg_ok env"
  shows "returns (DtlsUdpBackend_send_one_envelope S M b w env cur) (\<lambda>(failed, b', w'). dtls_inv b' \<and> I w' \<and> dtls_same_peer b b' \<and>
    dtls_waiting b' = dtls_waiting b \<and> (failed \<longrightarrow> cur))"
proof -
  have inv: "length (db_wire_buf b) = 8192" using assms(1) by (simp add: dtls_inv_def)
  obtain buf len where s: "serialize env (db_wire_buf b) 8192 0 = Some (OK, buf, len)" "length buf = 8192" "0 < len" "unat len \<le> length buf"
    using serialize_fits [OF inv assms(3)] by metis
  have b1: "dtls_inv (b\<lparr> db_wire_buf := buf \<rparr>)" using assms(1) s(2) by simp
  show ?thesis
  proof (cases "len \<le> 1400")
    case True
    with dtls_send_wire [OF b1 assms(2) s(3) True s(4)] s(1) b1 show ?thesis
      by (auto simp: DtlsUdpBackend_send_one_envelope_def Let_def elim!: returnsE)
  next
    case False
    with s(1) b1 assms(2) show ?thesis by (simp add: DtlsUdpBackend_send_one_envelope_def Let_def not_le)
  qed
qed

lemma dtls_send_hello:
  assumes "dtls_inv b" and "I w" and "db_local_node_id b \<noteq> 0"
  shows "returns (DtlsUdpBackend_send_hello_datagram S M b w) (\<lambda>(r, b', w'). dtls_inv b' \<and> I w' \<and> dtls_same_peer b b' \<and>
    dtls_waiting b' = dtls_waiting b)"
proof -
  have inv: "length (db_wire_buf b) = 8192" using assms(1) by (simp add: dtls_inv_def)
  obtain buf where s: "serialize (envelope_init\<lparr> message_type := HELLO, source_id := db_local_node_id b, destination_id := 0,
      payload_length := 0 \<rparr>) (db_wire_buf b) 8192 0 = Some (OK, buf, 52)" "length buf = 8192"
    using serialize_fits [OF inv hello_msg_ok [OF assms(3)]] by (auto simp: envelope_init_def)
  have b1: "dtls_inv (b\<lparr> db_wire_buf := buf \<rparr>)" using assms(1) s(2) by simp
  from dtls_send_wire [OF b1 assms(2), of 52 buf] s b1 assms(3) show ?thesis
    by (auto simp: DtlsUdpBackend_send_hello_datagram_def Let_def elim!: returnsE)
qed

lemma dtls_flush_batch:
  assumes "dtls_inv b" and "I w" and "n \<le> 32" and "\<forall>m \<in> set (take n (db_delay_buf b)). msg_ok m"
  shows "returns (DtlsUdpBackend_flush_outbound_batch S M b w env n) (\<lambda>(failed, b', w'). dtls_inv b' \<and> I w' \<and> dtls_same_peer b b')"
proof -
  let ?J = "\<lambda>(failed :: bool, b', w'). dtls_inv b' \<and> I w' \<and> dtls_same_peer b b'"
  have "returns (for_each (dtls_batch_item S M env) (take n (db_delay_buf b)) (False, b, w)) ?J"
  proof (rule for_each_inv)
    fix m st assume m: "m \<in> set (take n (db_delay_buf b))" and "?J st"
    then obtain f b2 w2 where st: "st = (f, b2, w2)" "dtls_inv b2" "I w2" "dtls_same_peer b b2" by (cases st) auto
    from m assms(4) have ok: "msg_ok m" by blast
    from dtls_send_one [OF st(2,3) ok, of "source_id m = source_id env \<and> message_id m = message_id env"] st(1,4)
    show "returns (dtls_batch_item S M env m st) ?J"
      by (auto simp: dtls_batch_item_def elim!: returnsE intro: dtls_same_peer_trans)
  qed (use assms in simp)
  with assms(3) show ?thesis by (simp add: DtlsUdpBackend_flush_outbound_batch_def)
qed

lemma dtls_collect:
  assumes "dtls_inv b"
  obtains n dbuf imp where
    "ImpairmentEngine_collect_deliverable (db_impairment b) now (db_delay_buf b) 32 = Some (n, dbuf, imp)"
    "dtls_inv (b\<lparr> db_impairment := imp, db_delay_buf := dbuf \<rparr>)" "n \<le> 32" "\<forall>m \<in> set (take n dbuf). msg_ok m"
    "window imp = window (db_impairment b)"
proof -
  have lk: "link_ok msg_ok inbound_ok (db_impairment b)" "32 \<le> length (db_delay_buf b)" using assms by (simp_all add: dtls_inv_def)
  from link_collect [OF lk, of now] that assms show ?thesis by (auto simp: dtls_inv_def elim!: returnsE)
qed

lemma dtls_send_message_returns:
  assumes "dtls_inv b" and "I w" and "msg_ok env"
  shows "returns (DtlsUdpBackend_send_message S X M b w env) (\<lambda>(r, b', w'). dtls_inv b' \<and> I w' \<and> dtls_same_peer b b' \<and>
    r \<in> {OK, ERR_IO, ERR_INVALID, ERR_FULL} \<and> (52 + payload_length env > 1400 \<longrightarrow> r = ERR_INVALID))"
proof -
  have inv: "length (db_wire_buf b) = 8192" "db_open b" "link_ok msg_ok inbound_ok (db_impairment b)"
    using assms(1) by (simp_all add: dtls_inv_def)
  have valid: "envelope_valid env" using assms(3) by (simp add: msg_ok_def)
  obtain buf where s: "serialize env (db_wire_buf b) 8192 0 = Some (OK, buf, 52 + payload_length env)" "length buf = 8192"
      "0 < 52 + payload_length env"
    using serialize_fits [OF inv(1) assms(3)] by metis
  define b1 where "b1 = b\<lparr> db_wire_buf := buf \<rparr>"
  have b1: "dtls_inv b1" "dtls_same_peer b b1" using assms(1) s(2) by (simp_all add: b1_def)
  show ?thesis
  proof (cases "52 + payload_length env > 1400")
    case True
    with s(1) inv valid b1 assms(2) show ?thesis by (simp add: DtlsUdpBackend_send_message_def b1_def)
  next
    case False
    obtain now w1 where now: "read_clock X w = Some (now, w1)" "I w1" using now_returns [OF assms(2)] by (auto elim!: returnsE)
    from link_outbound [OF inv(3) valid assms(3), of now] obtain r imp where
      o: "ImpairmentEngine_process_outbound (db_impairment b) env now = Some (r, imp)" "link_ok msg_ok inbound_ok imp" "r \<in> {OK, ERR_IO, ERR_FULL}"
      by (auto elim!: returnsE)
    define b2 where "b2 = b1\<lparr> db_impairment := imp \<rparr>"
    have b2: "dtls_inv b2" "dtls_same_peer b b2" using b1 o(2) by (simp_all add: b2_def dtls_inv_def)
    obtain n dbuf imp2 where c: "ImpairmentEngine_collect_deliverable (db_impairment b2) now (db_delay_buf b2) 32 = Some (n, dbuf, imp2)"
        "dtls_inv (b2\<lparr> db_impairment := imp2, db_delay_buf := dbuf \<rparr>)" "n \<le> 32" "\<forall>m \<in> set (take n dbuf). msg_ok m"
      using dtls_collect [OF b2(1), of now] by metis
    define b3 where "b3 = b2\<lparr> db_impairment := imp2, db_delay_buf := dbuf \<rparr>"
    have b3: "dtls_inv b3" "dtls_same_peer b b3" "take n (db_delay_buf b3) = take n dbuf" using c(2) b2(2) by (simp_all add: b3_def)
    have "DtlsUdpBackend_send_message S X M b w env = (if r = ERR_IO then Some (OK, b2, w1) else if r \<noteq> OK then Some (r, b2, w1)
        else DtlsUdpBackend_flush_outbound_batch S M b3 w1 env n \<bind> (\<lambda>(failed, b, w). if failed then Some (ERR_IO, b, w)
          else nc_assert (0 < 52 + payload_length env) \<bind> (\<lambda>_. Some (OK, b, w))))"
      using inv(2) valid s(1) False now(1) o(1) c(1) by (simp add: DtlsUdpBackend_send_message_def b1_def b2_def b3_def Let_def)
    with dtls_flush_batch [OF b3(1) now(2) c(3), of env] c(4) b3(2,3) b2 now(2) o(3) False s(3) show ?thesis
      by (auto elim!: returnsE intro: dtls_same_peer_trans)
  qed
qed

lemma dtls_register_returns:
  assumes "dtls_inv b" and "I w" and "n \<noteq> 0"
  shows "returns (DtlsUdpBackend_register_local_id S M b w n) (\<lambda>(r, b', w'). dtls_inv b' \<and> I w' \<and> dtls_same_peer b b')"
proof -
  have "db_open b" using assms(1) by (simp add: dtls_inv_def)
  with dtls_send_hello [of "b\<lparr> db_local_node_id := n \<rparr>" w] assms show ?thesis
    by (auto simp: DtlsUdpBackend_register_local_id_def Let_def dtls_same_peer_def elim!: returnsE)
qed

section \<open>Receiving\<close>

lemma dtls_hello_or_validate:
  assumes "dtls_inv b" and "I w"
  shows "returns (DtlsUdpBackend_process_hello_or_validate S M b w env) (\<lambda>(accepted, consumed, b', w'). dtls_inv b' \<and> I w' \<and>
    dtls_same_peer b b' \<and> dtls_waiting b' = dtls_waiting b \<and>
    (accepted \<and> \<not> consumed \<longrightarrow> b' = b \<and> message_type env \<noteq> HELLO \<and> db_peer_hello_received b \<and> source_id env = db_peer_node_id b))"
proof -
  have op: "db_open b" "0 \<le> db_sock_fd b" using assms(1) by (simp_all add: dtls_inv_def)
  show ?thesis
  proof (cases "message_type env = HELLO \<and> \<not> db_peer_hello_received b")
    case False
    with op assms show ?thesis by (auto simp: DtlsUdpBackend_process_hello_or_validate_def)
  next
    case True
    define b0 where "b0 = b\<lparr> db_peer_node_id := source_id env, db_peer_hello_received := True \<rparr>"
    define b1 where "b1 = (if db_is_server b \<and> db_pending_src_port b \<noteq> 0
      then b0\<lparr> db_peer_src_port := db_pending_src_port b, db_pending_src_port := 0 \<rparr> else b0)"
    have "db_peer_src_port b = 0" using assms(1) True by (auto simp: dtls_inv_def)
    then have b1: "DtlsUdpBackend_commit_pending_src_port b0 = Some b1" "dtls_inv b1" "dtls_same_peer b b1"
        "dtls_waiting b1 = dtls_waiting b"
      using assms(1) True op
      by (simp_all add: DtlsUdpBackend_commit_pending_src_port_def Let_def b0_def b1_def dtls_inv_def dtls_same_peer_def)
    have answer: "returns (DtlsUdpBackend_send_hello_datagram S M b1 w) (\<lambda>(r, b', w'). dtls_inv b' \<and> I w' \<and> dtls_same_peer b b' \<and>
        dtls_waiting b' = dtls_waiting b)" if "db_local_node_id b1 \<noteq> 0"
      using dtls_send_hello [OF b1(2) assms(2) that] b1(3,4) by (auto elim!: returns_mono dest: dtls_same_peer_trans)
    with True op b1 assms(2) show ?thesis
      by (auto simp: DtlsUdpBackend_process_hello_or_validate_def Let_def b0_def [symmetric] elim!: returns_mono)
  qed
qed

text \<open>A message of the registered peer reaches the queue, or the reordering window, or is dropped.\<close>

lemma dtls_inbound:
  assumes "dtls_inv b" and "I w" and "inbound_ok env" and "db_peer_hello_received b" and "source_id env = db_peer_node_id b"
  shows "returns (DtlsUdpBackend_apply_inbound_impairment X b w env) (\<lambda>(r, b', w'). dtls_inv b' \<and> I w' \<and> dtls_same_peer b b' \<and>
    dtls_authentic_step b b')"
proof -
  let ?imp = "db_impairment b" and ?q = "db_recv_queue b"
  let ?Q = "\<lambda>m. inbound_ok m \<and> m \<in> insert env (dtls_waiting b)"
  have lk: "link_ok msg_ok ?Q ?imp" "queue_holds ?Q ?q" "db_open b"
    using assms(1) by (auto simp: dtls_inv_def link_ok_def queue_holds_def dtls_waiting_def)
  have valid: "envelope_valid env" using assms(3) by (simp add: inbound_ok_def msg_ok_def)
  obtain now w2 where now: "read_clock X w = Some (now, w2)" "I w2" using now_returns [OF assms(2)] by (auto elim!: returnsE)
  obtain r2 out n i2 where i: "ImpairmentEngine_process_inbound ?imp env now [envelope_zero] 1 = Some (r2, out, n, i2)"
      "link_ok msg_ok ?Q i2" "n = 0 \<or> n = 1 \<and> ?Q (out ! 0)"
    using link_inbound [OF lk(1) valid, of "[envelope_zero]" now] assms(3) by (auto elim!: returnsE)
  have good: "dtls_inv b' \<and> dtls_same_peer b b' \<and> dtls_authentic_step b b'"
    if "b' = b\<lparr> db_impairment := i2, db_recv_queue := q' \<rparr>" "queue_holds ?Q q'" for b' q'
    using that i(2) assms by (auto simp: dtls_inv_def link_ok_def queue_holds_def dtls_authentic_step_def dtls_waiting_def)
  have stay: "b\<lparr> db_impairment := i2 \<rparr> = b\<lparr> db_impairment := i2, db_recv_queue := ?q \<rparr>" by simp
  show ?thesis
  proof (cases "r2 = ERR_IO \<or> n = 0")
    case True
    with now i(1) lk(3) good [OF stay lk(2)] show ?thesis by (auto simp: DtlsUdpBackend_apply_inbound_impairment_def)
  next
    case False
    with i(3) have n: "n = 1" "?Q (out ! 0)" by auto
    obtain r3 q' where q: "RingBuffer_push ?q (out ! 0) = Some (r3, q')" "queue_holds ?Q q'"
      using queue_push [OF lk(2) n(2)] by (auto elim!: returnsE)
    with now i(1) lk(3) False n(1) good [OF refl q(2)] show ?thesis by (auto simp: DtlsUdpBackend_apply_inbound_impairment_def)
  qed
qed

lemma dtls_dispatch:
  assumes "dtls_inv b" and "I w" and "0 < len" and "len \<le> 8192"
  shows "returns (DtlsUdpBackend_deserialize_and_dispatch S X M b w len) (\<lambda>(r, b', w'). dtls_inv b' \<and> I w' \<and> dtls_same_peer b b' \<and>
    dtls_authentic_step b b')"
proof -
  have op: "db_open b" and "unat len \<le> length (db_wire_buf b)" using assms(1,4) by (simp_all add: dtls_inv_def word_le_nat_alt)
  with deserialize_safe [of "db_wire_buf b" len envelope_zero] obtain r env where
    d: "deserialize (db_wire_buf b) len envelope_zero = Some (r, env)" "r = OK \<longrightarrow> msg_ok env" by (auto simp: msg_ok_def elim!: returnsE)
  from dtls_hello_or_validate [OF assms(1,2), of env] obtain a c b1 w1 where
    h: "DtlsUdpBackend_process_hello_or_validate S M b w env = Some (a, c, b1, w1)" "dtls_inv b1" "I w1" "dtls_same_peer b b1"
      "dtls_waiting b1 = dtls_waiting b"
      "a \<and> \<not> c \<longrightarrow> b1 = b \<and> message_type env \<noteq> HELLO \<and> db_peer_hello_received b \<and> source_id env = db_peer_node_id b"
    by (auto elim!: returnsE)
  have quiet: "dtls_authentic_step b b1" "dtls_authentic_step b b" using h(5) by (simp_all add: dtls_authentic_step_def)
  show ?thesis
  proof (cases "r = OK \<and> a \<and> \<not> c")
    case False
    with op d(1) h quiet assms show ?thesis by (auto simp: DtlsUdpBackend_deserialize_and_dispatch_def)
  next
    case True
    with d(2) h(6) have "inbound_ok env" "db_peer_hello_received b" "source_id env = db_peer_node_id b" "b1 = b"
      by (auto simp: inbound_ok_def)
    with dtls_inbound [OF assms(1) h(3), of env] True op d(1) h(1) assms(3) show ?thesis
      by (simp add: DtlsUdpBackend_deserialize_and_dispatch_def)
  qed
qed

lemma dtls_recv_tls:
  assumes "dtls_inv b" and "I w" and "db_tls_enabled b"
  shows "returns (DtlsUdpBackend_recv_one_dtls_datagram S X M b w ms) (\<lambda>(r, b', w'). dtls_inv b' \<and> I w' \<and> dtls_same_peer b b' \<and>
    dtls_authentic_step b b')"
proof -
  have op: "db_open b" "0 \<le> db_sock_fd b" "length (db_wire_buf b) = 8192" using assms(1) by (simp_all add: dtls_inv_def)
  obtain r bytes w1 where rd: "mb_ssl_read M w 0 8192 = ((r, bytes), w1)" by (metis surj_pair)
  note f = ssl_read [OF assms(2) rd]
  show ?thesis
  proof (cases "r \<le> 0")
    case True
    with op assms rd f show ?thesis
      by (simp add: DtlsUdpBackend_recv_one_dtls_datagram_def DtlsUdpBackend_try_tls_recv_def dtls_authentic_step_def)
  next
    case False
    define b1 where "b1 = b\<lparr> db_wire_buf := blit (db_wire_buf b) 0 bytes \<rparr>"
    have len: "length (blit (db_wire_buf b) 0 bytes) = 8192" using f False op(3) by simp
    have b1: "dtls_inv b1" "dtls_same_peer b b1" "dtls_waiting b1 = dtls_waiting b" using assms(1) len by (simp_all add: b1_def)
    obtain k where k: "r = int k" "0 < k" "k \<le> 8192" using f False by (cases r) auto
    then have "0 < (of_int r :: u32)" "(of_int r :: u32) \<le> 8192"
      by (simp_all add: word_less_nat_alt word_le_nat_alt unat_of_nat)
    from dtls_dispatch [OF b1(1) conjunct1 [OF f] this] b1 False op assms rd show ?thesis
      by (auto simp: DtlsUdpBackend_recv_one_dtls_datagram_def DtlsUdpBackend_try_tls_recv_def b1_def dtls_same_peer_def
          dtls_authentic_step_def elim!: returns_mono)
  qed
qed

lemma dtls_recv_plain:
  assumes "dtls_inv b" and "I w" and "\<not> db_tls_enabled b"
    and "so_recv_from S w (db_sock_fd b) (db_wire_buf b) SOCKET_RECV_BUF_BYTES ms (0, [], 0) = Some (ok, buf, (len, ip, port), w1)"
  shows "returns (DtlsUdpBackend_recv_one_dtls_datagram S X M b w ms) (\<lambda>(r, b', w'). dtls_inv b' \<and> I w' \<and> dtls_same_peer b b' \<and>
    (dtls_waiting b' \<subseteq> dtls_waiting b \<or> dtls_source_ok b ip port \<and> dtls_authentic_step b b'))"
proof -
  have op: "db_open b" "0 \<le> db_sock_fd b" "length (db_wire_buf b) = 8192" "tcf_peer_ip (db_cfg b) \<noteq> []"
    using assms(1,3) by (simp_all add: dtls_inv_def)
  from recv_from [OF assms(2) op(2), of SOCKET_RECV_BUF_BYTES "db_wire_buf b" ms "(0, [], 0)"] op(3) assms(4)
  have f: "I w1" "length buf = 8192" "ok \<longrightarrow> 0 < len \<and> len \<le> 8192" by (auto elim!: returnsE)
  define b1 where "b1 = (if db_is_server b \<and> db_peer_src_port b = 0 then b\<lparr> db_wire_buf := buf, db_pending_src_port := port \<rparr>
    else b\<lparr> db_wire_buf := buf \<rparr>)"
  have b1: "dtls_inv b1" "dtls_same_peer b b1" "dtls_waiting b1 = dtls_waiting b"
    using assms(1) f(2) by (simp_all add: b1_def)
  have val: "DtlsUdpBackend_validate_source (b\<lparr> db_wire_buf := buf \<rparr>) ip port = Some (dtls_source_ok b ip port, b1)"
    using op(4) assms(3) by (auto simp: DtlsUdpBackend_validate_source_def dtls_source_ok_def b1_def Let_def)
  show ?thesis
  proof (cases "ok \<and> dtls_source_ok b ip port")
    case False
    with op f val b1 assms show ?thesis by (auto simp: DtlsUdpBackend_recv_one_dtls_datagram_def Let_def)
  next
    case True
    then have len: "0 < len" "len \<le> 8192" using f(3) by simp_all
    have "DtlsUdpBackend_recv_one_dtls_datagram S X M b w ms = DtlsUdpBackend_deserialize_and_dispatch S X M b1 w1 len"
      using True op assms(3,4) val by (simp add: DtlsUdpBackend_recv_one_dtls_datagram_def Let_def)
    moreover have "db_peer_hello_received b1 = db_peer_hello_received b" "db_peer_node_id b1 = db_peer_node_id b" by (simp_all add: b1_def)
    ultimately show ?thesis using dtls_dispatch [OF b1(1) f(1) len] True b1(2,3)
      by (auto simp: dtls_authentic_step_def elim!: returns_mono dest: dtls_same_peer_trans)
  qed
qed

lemma dtls_recv_one:
  assumes "dtls_inv b" and "I w"
  shows "returns (DtlsUdpBackend_recv_one_dtls_datagram S X M b w ms) (\<lambda>(r, b', w'). dtls_inv b' \<and> I w')"
proof (cases "db_tls_enabled b")
  case True
  from dtls_recv_tls [OF assms True, of ms] show ?thesis by (auto elim!: returns_mono)
next
  case False
  have "0 \<le> db_sock_fd b" "length (db_wire_buf b) = 8192" using assms(1) by (simp_all add: dtls_inv_def)
  with recv_from [OF assms(2), of "db_sock_fd b" SOCKET_RECV_BUF_BYTES "db_wire_buf b" ms "(0, [], 0)"] obtain x where
    "so_recv_from S w (db_sock_fd b) (db_wire_buf b) SOCKET_RECV_BUF_BYTES ms (0, [], 0) = Some x" by (auto elim!: returnsE)
  then obtain ok buf len ip port w1 where
    "so_recv_from S w (db_sock_fd b) (db_wire_buf b) SOCKET_RECV_BUF_BYTES ms (0, [], 0) = Some (ok, buf, (len, ip, port), w1)" by (cases x) auto
  from dtls_recv_plain [OF assms False this] show ?thesis by (auto elim!: returns_mono)
qed

lemma dtls_flush_wire:
  assumes "dtls_inv b" and "I w" and "now > 0"
  shows "returns (DtlsUdpBackend_flush_delayed_to_wire S M b w now) (\<lambda>(b', w'). dtls_inv b' \<and> I w')"
proof -
  obtain n dbuf imp where c: "ImpairmentEngine_collect_deliverable (db_impairment b) now (db_delay_buf b) 32 = Some (n, dbuf, imp)"
      "dtls_inv (b\<lparr> db_impairment := imp, db_delay_buf := dbuf \<rparr>)" "\<forall>m \<in> set (take n dbuf). msg_ok m"
    using dtls_collect [OF assms(1), of now] by metis
  let ?J = "\<lambda>(b', w'). dtls_inv b' \<and> I w'"
  have "returns (for_each (dtls_flush_item S M) (take n dbuf) (b\<lparr> db_impairment := imp, db_delay_buf := dbuf \<rparr>, w)) ?J"
  proof (rule for_each_inv)
    fix m st assume m: "m \<in> set (take n dbuf)" and "?J st"
    then obtain b2 w2 where st: "st = (b2, w2)" "dtls_inv b2" "I w2" by (cases st) auto
    from m c(3) have ok: "msg_ok m" by blast
    from dtls_send_one [OF st(2,3) ok, of False] st(1) show "returns (dtls_flush_item S M m st) ?J"
      by (auto simp: dtls_flush_item_def elim!: returnsE)
  qed (use c(2) assms(2) in simp)
  moreover have "db_open b" using assms(1) by (simp add: dtls_inv_def)
  ultimately show ?thesis using c(1) assms(3) by (simp add: DtlsUdpBackend_flush_delayed_to_wire_def Let_def)
qed

lemma dtls_pop:
  assumes "dtls_inv b"
  obtains r env' q where "RingBuffer_pop (db_recv_queue b) env = Some (r, env', q)" "dtls_inv (b\<lparr> db_recv_queue := q \<rparr>)"
    "r = OK \<and> inbound_ok env' \<or> r = ERR_EMPTY \<and> env' = env \<and> b\<lparr> db_recv_queue := q \<rparr> = b"
proof -
  have q: "queue_holds inbound_ok (db_recv_queue b)" using assms by (simp add: dtls_inv_def)
  from queue_pop [OF q, of env] obtain r x q' where p: "RingBuffer_pop (db_recv_queue b) env = Some (r, x, q')" "queue_holds inbound_ok q'"
      "r = OK \<and> inbound_ok x \<or> r = ERR_EMPTY \<and> x = env \<and> q' = db_recv_queue b"
    by (cases "rb_contents (db_recv_queue b)") (auto elim!: returnsE)
  with that assms show ?thesis by (auto simp: dtls_inv_def)
qed

lemma dtls_attempts:
  assumes "dtls_inv b" and "I w"
  shows "returns (dtls_receive_attempts S X M n b w env) (\<lambda>(r, env', b', w'). dtls_inv b' \<and> I w' \<and>
    (r = OK \<and> inbound_ok env' \<or> r = ERR_TIMEOUT \<and> env' = env))"
  using assms
proof (induction n arbitrary: b w)
  case 0
  then show ?case by simp
next
  case (Suc n)
  from dtls_recv_one [OF Suc.prems, of 100] obtain x b1 w1 where
    p: "DtlsUdpBackend_recv_one_dtls_datagram S X M b w 100 = Some (x, b1, w1)" "dtls_inv b1" "I w1" by (auto elim!: returnsE)
  obtain r1 e1 q1 where q1: "RingBuffer_pop (db_recv_queue b1) env = Some (r1, e1, q1)" "dtls_inv (b1\<lparr> db_recv_queue := q1 \<rparr>)"
      "r1 = OK \<and> inbound_ok e1 \<or> r1 = ERR_EMPTY \<and> e1 = env \<and> b1\<lparr> db_recv_queue := q1 \<rparr> = b1"
    using dtls_pop [OF p(2)] by metis
  show ?case
  proof (cases "r1 = OK")
    case True
    with p q1 show ?thesis by simp
  next
    case False
    obtain now w2 where now: "read_clock X w1 = Some (now, w2)" "I w2" "now > 0" using now_returns [OF p(3)] by (auto elim!: returnsE)
    from dtls_flush_wire [OF p(2) now(2,3)] obtain b3 w3 where
      f: "DtlsUdpBackend_flush_delayed_to_wire S M b1 w2 now = Some (b3, w3)" "dtls_inv b3" "I w3" by (auto elim!: returnsE)
    obtain r3 e3 q3 where q3: "RingBuffer_pop (db_recv_queue b3) env = Some (r3, e3, q3)" "dtls_inv (b3\<lparr> db_recv_queue := q3 \<rparr>)"
        "r3 = OK \<and> inbound_ok e3 \<or> r3 = ERR_EMPTY \<and> e3 = env \<and> b3\<lparr> db_recv_queue := q3 \<rparr> = b3"
      using dtls_pop [OF f(2)] by metis
    show ?thesis
    proof (cases "r3 = OK")
      case True
      with False p q1 now(1) f q3 show ?thesis by simp
    next
      case empty: False
      with False p q1 now(1) f q3 Suc.IH [OF f(2,3)] show ?thesis by simp
    qed
  qed
qed

lemma dtls_receive_returns:
  assumes "dtls_inv b" and "I w"
  shows "returns (DtlsUdpBackend_receive_message S X M b w env ms) (\<lambda>(r, env', b', w'). dtls_inv b' \<and> I w' \<and>
    (r = OK \<and> inbound_ok env' \<or> r = ERR_TIMEOUT \<and> env' = env))"
proof -
  have op: "db_open b" "0 \<le> db_sock_fd b" using assms(1) by (simp_all add: dtls_inv_def)
  obtain r1 e1 q1 where q1: "RingBuffer_pop (db_recv_queue b) env = Some (r1, e1, q1)" "dtls_inv (b\<lparr> db_recv_queue := q1 \<rparr>)"
      "r1 = OK \<and> inbound_ok e1 \<or> r1 = ERR_EMPTY \<and> e1 = env \<and> b\<lparr> db_recv_queue := q1 \<rparr> = b"
    using dtls_pop [OF assms(1)] by metis
  have "poll_count ms \<le> 50" by (rule poll_count_le)
  with op q1 assms dtls_attempts [OF assms, of "unat (poll_count ms)" env] show ?thesis
    by (auto simp: DtlsUdpBackend_receive_message_def)
qed

section \<open>Opening and closing\<close>

lemma own_cert_returns:
  assumes "I w" and "tls_path_valid (tc_cert_file tls)" and "tls_path_valid (tc_key_file tls)"
  shows "returns (DtlsUdpBackend_load_own_cert_and_key M w tls) (\<lambda>(r, w'). I w' \<and> r \<in> {OK, ERR_IO})"
  using assms by (auto simp: DtlsUdpBackend_load_own_cert_and_key_def case_prod_unfold Let_def keeps)

lemma load_crl_returns:
  assumes "I w" and "tc_verify_peer tls" and "path_given (tc_ca_file tls)" and "tls_path_valid (tc_crl_file tls)"
  shows "returns (DtlsUdpBackend_load_crl_if_configured M b w tls) (\<lambda>(r, b', w'). I w' \<and> r \<in> {OK, ERR_IO} \<and> dtls_frame b b' \<and>
    db_open b' = db_open b)"
  using assms by (auto simp: DtlsUdpBackend_load_crl_if_configured_def path_given_def dtls_frame_def case_prod_unfold
      Let_def keeps)

lemma load_certs_returns:
  assumes "I w" and "path_given (tc_cert_file tls)" and "path_given (tc_key_file tls)" and "tls_path_valid (tc_ca_file tls)"
    and "tls_path_valid (tc_crl_file tls)"
  shows "returns (DtlsUdpBackend_load_certs_and_key M b w tls) (\<lambda>(r, b', w'). I w' \<and> r \<in> {OK, ERR_IO} \<and> dtls_frame b b' \<and>
    db_open b' = db_open b)"
proof -
  have own: "returns (DtlsUdpBackend_load_own_cert_and_key M w' tls) (\<lambda>(r, w'). I w' \<and> r \<in> {OK, ERR_IO})" if "I w'" for w'
    by (rule own_cert_returns [OF that]) (use assms in \<open>simp_all add: path_given_def\<close>)
  obtain ok w1 r w2 where f: "tls_path_is_regular_file M w (c_string (tc_ca_file tls)) = (ok, w1)"
      "mb_x509_crt_parse_file M w1 Ca_cert (c_string (tc_ca_file tls)) = (r, w2)" by (metis surj_pair)
  have "I w1" using regular_file [OF assms(1), of "c_string (tc_ca_file tls)"] f(1) by simp
  moreover from crt_parse [OF this, of Ca_cert "c_string (tc_ca_file tls)"] f(2) have "I w2" by simp
  ultimately have w: "I w1" "I w2" .
  have crl: "returns (DtlsUdpBackend_load_crl_if_configured M b w2 tls) (\<lambda>(r, b', w'). I w' \<and> r \<in> {OK, ERR_IO} \<and> dtls_frame b b' \<and>
      db_open b' = db_open b)" if "tc_verify_peer tls" "tc_ca_file tls ! 0 \<noteq> CHR 0x00"
    by (rule load_crl_returns [OF w(2) that(1)]) (use assms that in \<open>simp_all add: path_given_def\<close>)
  have pre: "tls_path_valid (tc_cert_file tls)" "tls_path_valid (tc_key_file tls)" "tc_cert_file tls ! 0 \<noteq> CHR 0x00"
      "tc_key_file tls ! 0 \<noteq> CHR 0x00" using assms by (simp_all add: path_given_def)
  have frame: "dtls_frame b b" by (simp add: dtls_frame_def)
  show ?thesis
  proof (cases "tc_verify_peer tls \<and> tc_ca_file tls ! 0 \<noteq> CHR 0x00")
    case False
    with pre own [OF assms(1)] frame show ?thesis by (auto simp: DtlsUdpBackend_load_certs_and_key_def elim!: returnsE)
  next
    case True
    with crl obtain r3 b3 w3 where c: "DtlsUdpBackend_load_crl_if_configured M b w2 tls = Some (r3, b3, w3)" "I w3" "r3 \<in> {OK, ERR_IO}"
        "dtls_frame b b3" "db_open b3 = db_open b" by (auto elim!: returnsE)
    from own [OF c(2)] pre f w c frame True assms(4) show ?thesis
      by (auto simp: DtlsUdpBackend_load_certs_and_key_def elim!: returnsE)
  qed
qed

lemma setup_dtls_returns:
  assumes "I w" and "tc_tls_enabled tls" and "path_given (tc_cert_file tls)" and "path_given (tc_key_file tls)"
    and "tls_path_valid (tc_ca_file tls)" and "tls_path_valid (tc_crl_file tls)"
  shows "returns (DtlsUdpBackend_setup_dtls_config M b w tls) (\<lambda>(r, b', w'). I w' \<and> r \<in> {OK, ERR_IO} \<and> dtls_frame b b' \<and>
    db_open b' = db_open b)"
proof -
  obtain r w1 r2 w2 where f: "mb_psa_crypto_init M w = (r, w1)" "mb_ssl_config_defaults M w1 (tc_role tls) True = (r2, w2)"
    by (metis surj_pair)
  have "I w1" using crypto_init [OF assms(1)] f(1) by simp
  moreover from config_defaults [OF this, of "tc_role tls" True] f(2) have "I w2" by simp
  ultimately have w: "I w1" "I w2" .
  define w3 where "w3 = mb_ssl_conf M (mb_ssl_conf M (mb_ssl_conf M w2 (Conf_handshake_timeout 1000 10000)) (Conf_read_timeout 100))
    (if tc_verify_peer tls then Conf_authmode_required else Conf_authmode_none)"
  have w3: "I w3" using w(2) by (simp add: w3_def conf)
  from load_certs_returns [OF w3 assms(3-6), of b] obtain r4 b4 w4 where
    c: "DtlsUdpBackend_load_certs_and_key M b w3 tls = Some (r4, b4, w4)" "I w4" "r4 \<in> {OK, ERR_IO}" "dtls_frame b b4" "db_open b4 = db_open b"
    by (auto elim!: returnsE)
  have cookie: "returns (DtlsUdpBackend_setup_cookie_if_server M w4 tls) (\<lambda>(r, w'). I w' \<and> r \<in> {OK, ERR_IO})"
    using c(2) assms(2) by (simp add: DtlsUdpBackend_setup_cookie_if_server_def case_prod_unfold Let_def keeps)
  have frame: "dtls_frame b b" by (simp add: dtls_frame_def)
  have pre: "tls_path_valid (tc_cert_file tls)" "tc_cert_file tls ! 0 \<noteq> CHR 0x00" using assms(3) by (simp_all add: path_given_def)
  from cookie f w c frame pre assms(2) show ?thesis
    by (auto simp: DtlsUdpBackend_setup_dtls_config_def Let_def w3_def [symmetric] conf elim!: returnsE)
qed

lemma handshake_loop:
  "I w \<Longrightarrow> dtls_handshake_loop M fd a n w = (r, w') \<Longrightarrow> I w' \<and> r \<in> {OK, ERR_IO}"
proof (induction n arbitrary: w)
  case 0
  then show ?case by simp
next
  case (Suc n)
  obtain k w1 where h: "mb_ssl_handshake M w 0 = (k, w1)" by (metis surj_pair)
  have w1: "I w1" using handshake [OF Suc.prems(1), of 0] h by simp
  with Suc.prems(2) h show ?case
    by (auto simp: Let_def split: if_splits intro: Suc.IH ssl_call dest!: Suc.IH [rotated])
qed

lemma finish_returns:
  assumes "I w" and "\<not> db_open b"
  shows "returns (finish_handshake M b w a) (\<lambda>(r, b', w'). I w' \<and> dtls_frame b b' \<and>
    (r = OK \<and> db_open b' \<or> r = ERR_IO \<and> \<not> db_open b'))"
proof -
  obtain r w1 where h: "dtls_handshake_loop M (db_net_ctx_fd b) a 32 w = (r, w1)" by (metis surj_pair)
  from handshake_loop [OF assms(1) h] h assms(2) show ?thesis
    by (auto simp: finish_handshake_def DtlsUdpBackend_run_dtls_handshake_def dtls_frame_def Let_def ssl_call)
qed

lemma server_returns:
  assumes "I w" and "db_is_server b" and "0 \<le> db_sock_fd b" and "\<not> db_open b"
  shows "returns (DtlsUdpBackend_server_wait_and_handshake X M b w) (\<lambda>(r, b', w'). I w' \<and> dtls_frame b b' \<and>
    (r = OK \<and> db_open b' \<or> r \<in> {ERR_IO, ERR_TIMEOUT} \<and> \<not> db_open b'))"
proof -
  have fin: "returns (finish_handshake M (b\<lparr> db_net_ctx_fd := k \<rparr>) w' a) (\<lambda>(r, b', w'). I w' \<and> dtls_frame b b' \<and>
      (r = OK \<and> db_open b' \<or> r \<in> {ERR_IO, ERR_TIMEOUT} \<and> \<not> db_open b'))" if "I w'" for k w' a
    using finish_returns [OF that, of "b\<lparr> db_net_ctx_fd := k \<rparr>" a] assms(4) by (auto simp: dtls_frame_def elim!: returns_mono)
  show ?thesis using assms fin
    by (simp add: DtlsUdpBackend_server_wait_and_handshake_def MbedtlsOpsImpl_recvfrom_peek_def MbedtlsOpsImpl_net_connect_def
        case_prod_unfold Let_def keeps) (simp add: dtls_frame_def)
qed

lemma client_returns:
  assumes "I w" and "\<not> db_is_server b" and "0 \<le> db_sock_fd b" and "\<not> db_open b"
  shows "returns (DtlsUdpBackend_client_connect_and_handshake X M b w) (\<lambda>(r, b', w'). I w' \<and> dtls_frame b b' \<and>
    (r = OK \<and> db_open b' \<and> (tc_verify_peer (tcf_tls (db_cfg b)) \<longrightarrow> tc_peer_hostname (tcf_tls (db_cfg b)) ! 0 \<noteq> CHR 0x00) \<or>
     r \<in> {ERR_IO, ERR_INVALID} \<and> \<not> db_open b'))"
proof -
  have fin: "returns (finish_handshake M (b\<lparr> db_net_ctx_fd := k \<rparr>) w' a) (\<lambda>(r, b', w'). I w' \<and> dtls_frame b b' \<and>
      (r = OK \<and> db_open b' \<or> r \<in> {ERR_IO, ERR_INVALID} \<and> \<not> db_open b'))" if "I w'" for k w' a
    using finish_returns [OF that, of "b\<lparr> db_net_ctx_fd := k \<rparr>" a] assms(4) by (auto simp: dtls_frame_def elim!: returns_mono)
  have frame: "dtls_frame b b" "dtls_frame b (b\<lparr> db_net_ctx_fd := k \<rparr>)" for k by (simp_all add: dtls_frame_def)
  show ?thesis
  proof (cases "tc_verify_peer (tcf_tls (db_cfg b)) \<and> tc_peer_hostname (tcf_tls (db_cfg b)) ! 0 = CHR 0x00")
    case True
    with assms frame show ?thesis by (simp add: DtlsUdpBackend_client_connect_and_handshake_def)
  next
    case False
    with fin have "returns (finish_handshake M (b\<lparr> db_net_ctx_fd := k \<rparr>) w' a) (\<lambda>(r, b', w'). I w' \<and> dtls_frame b b' \<and>
        (r = OK \<and> db_open b' \<and> (tc_verify_peer (tcf_tls (db_cfg b)) \<longrightarrow> tc_peer_hostname (tcf_tls (db_cfg b)) ! 0 \<noteq> CHR 0x00) \<or>
         r \<in> {ERR_IO, ERR_INVALID} \<and> \<not> db_open b'))" if "I w'" for k w' a
      using that by (auto elim!: returns_mono)
    with False assms frame show ?thesis
      by (cases "px_inet_pton X False (tcf_peer_ip (db_cfg b))")
        (simp_all add: DtlsUdpBackend_client_connect_and_handshake_def MbedtlsOpsImpl_net_connect_def case_prod_unfold Let_def keeps)
  qed
qed

lemma dtls_bind_returns:
  assumes "I w" and "db_sock_fd b < 0"
  shows "returns (DtlsUdpBackend_create_and_bind_udp_socket S b w config) (\<lambda>(r, b', w'). I w' \<and>
    (\<exists>fd. b' = b\<lparr> db_sock_fd := fd \<rparr> \<and> (r = OK \<and> 0 \<le> fd \<or> r = ERR_IO \<and> fd < 0)))"
proof -
  from create_udp [OF assms(1), of "socket_is_ipv6 (tcf_bind_ip config)"] obtain fd w1 where
    c: "so_create_udp S w (socket_is_ipv6 (tcf_bind_ip config)) = Some (fd, w1)" "I w1" by (auto elim!: returnsE)
  show ?thesis
  proof (cases "fd < 0")
    case True
    with c assms show ?thesis by (auto simp: DtlsUdpBackend_create_and_bind_udp_socket_def)
  next
    case False
    then have fd: "fd \<ge> 0" by simp
    from set_reuseaddr [OF c(2) fd] obtain k1 w2 where s1: "so_set_reuseaddr S w1 fd = Some (k1, w2)" "I w2" by (auto elim!: returnsE)
    from do_bind [OF s1(2) fd, of "tcf_bind_ip config" "tcf_bind_port config"] obtain k2 w3 where
      s2: "so_do_bind S w2 fd (tcf_bind_ip config) (tcf_bind_port config) = Some (k2, w3)" "I w3" by (auto elim!: returnsE)
    from do_close [OF s1(2) fd] obtain v2 where v2: "so_do_close S w2 fd = Some v2" "I v2" by (auto elim!: returnsE)
    from do_close [OF s2(2) fd] obtain v3 where v3: "so_do_close S w3 fd = Some v3" "I v3" by (auto elim!: returnsE)
    from fd c(1) s1 s2 v2 v3 assms(2) show ?thesis
      by (cases k1; cases k2) (auto simp: DtlsUdpBackend_create_and_bind_udp_socket_def)
  qed
qed

text \<open>The phase after the socket is bound: on failure the socket is closed again.\<close>

lemma dtls_phase_returns:
  assumes "I w" and "0 \<le> db_sock_fd b" and "\<not> db_open b" and "db_cfg b = config" and "db_is_server b = tcf_is_server config"
    and "db_tls_enabled b = tc_tls_enabled (tcf_tls config)" and "dtls_config_ok config entropy"
  shows "returns (DtlsUdpBackend_run_tls_handshake_phase S X M b w config) (\<lambda>(r, b', w'). I w' \<and>
    (r = OK \<and> dtls_frame b b' \<and> db_open b' \<and> (tc_tls_enabled (tcf_tls config) \<and> \<not> tcf_is_server config \<and> tc_verify_peer (tcf_tls config) \<longrightarrow>
       tc_peer_hostname (tcf_tls config) ! 0 \<noteq> CHR 0x00) \<or>
     r \<in> {ERR_IO, ERR_INVALID, ERR_TIMEOUT} \<and> dtls_frame (b\<lparr> db_sock_fd := - 1 \<rparr>) b' \<and> \<not> db_open b'))"
proof (cases "db_tls_enabled b")
  case False
  with assms show ?thesis by (simp add: DtlsUdpBackend_run_tls_handshake_phase_def dtls_frame_def)
next
  case True
  let ?tls = "tcf_tls config"
  have tls: "tc_tls_enabled ?tls" "path_given (tc_cert_file ?tls)" "path_given (tc_key_file ?tls)" "tls_path_valid (tc_ca_file ?tls)"
      "tls_path_valid (tc_crl_file ?tls)" using assms(6,7) True by (simp_all add: dtls_config_ok_def)
  from setup_dtls_returns [OF assms(1) tls, of b] obtain r1 b1 w1 where
    s: "DtlsUdpBackend_setup_dtls_config M b w ?tls = Some (r1, b1, w1)" "I w1" "r1 \<in> {OK, ERR_IO}" "dtls_frame b b1" "\<not> db_open b1"
    using assms(3) by (auto elim!: returnsE)
  have same: "db_sock_fd b1 = db_sock_fd b" "db_cfg b1 = config" "db_is_server b1 = tcf_is_server config"
    using s(4) assms(4,5) by (simp_all add: dtls_frame_def)
  have closing: "returns (so_do_close S w' (db_sock_fd b)) I" if "I w'" for w' by (rule do_close [OF that assms(2)])
  show ?thesis
  proof (cases "r1 = OK")
    case False
    with s closing [OF s(2)] same True assms(2,3) show ?thesis
      by (auto simp: DtlsUdpBackend_run_tls_handshake_phase_def dtls_frame_def elim!: returnsE)
  next
    case ok: True
    define h where "h = (if db_is_server b1 then DtlsUdpBackend_server_wait_and_handshake X M b1 w1
      else DtlsUdpBackend_client_connect_and_handshake X M b1 w1)"
    have "returns h (\<lambda>(r, b', w'). I w' \<and> dtls_frame b1 b' \<and> (r = OK \<and> db_open b' \<and>
        (\<not> tcf_is_server config \<and> tc_verify_peer ?tls \<longrightarrow> tc_peer_hostname ?tls ! 0 \<noteq> CHR 0x00) \<or>
        r \<in> {ERR_IO, ERR_INVALID, ERR_TIMEOUT} \<and> \<not> db_open b'))"
      using server_returns [OF s(2), of b1] client_returns [OF s(2), of b1] s(5) same assms(2)
      by (cases "db_is_server b1") (auto simp: h_def elim!: returns_mono)
    then obtain r2 b2 w2 where h2: "h = Some (r2, b2, w2)" "I w2" "dtls_frame b1 b2"
        "r2 = OK \<and> db_open b2 \<and> (\<not> tcf_is_server config \<and> tc_verify_peer ?tls \<longrightarrow> tc_peer_hostname ?tls ! 0 \<noteq> CHR 0x00) \<or>
         r2 \<in> {ERR_IO, ERR_INVALID, ERR_TIMEOUT} \<and> \<not> db_open b2" by (auto elim!: returnsE)
    have fd: "db_sock_fd b2 = db_sock_fd b" using h2(3) same(1) by (simp add: dtls_frame_def)
    have "DtlsUdpBackend_run_tls_handshake_phase S X M b w config = (if r2 \<noteq> OK
        then so_do_close S w2 (db_sock_fd b) \<bind> (\<lambda>w. Some (r2, b2\<lparr> db_sock_fd := - 1 \<rparr>, w)) else Some (OK, b2, w2))"
      using ok s(1) True assms(2,3) h2(1) fd by (simp add: DtlsUdpBackend_run_tls_handshake_phase_def h_def [symmetric])
    with h2 s(4) closing [OF h2(2)] show ?thesis by (auto simp: dtls_frame_def elim!: returnsE)
  qed
qed

lemma dtls_init_returns:
  assumes "dtls_closed b" and "I w" and "dtls_config_ok config entropy"
  shows "returns (DtlsUdpBackend_init S X M b w config entropy) (\<lambda>(r, b', w'). I w' \<and>
    (r = OK \<and> dtls_inv b' \<and> \<not> db_peer_hello_received b' \<and> db_tls_enabled b' = tc_tls_enabled (tcf_tls config) \<and>
       (tc_tls_enabled (tcf_tls config) \<longrightarrow> tls_settings_safe (tcf_is_server config) (tcf_tls config)) \<or>
     r \<in> {ERR_IO, ERR_INVALID, ERR_TIMEOUT} \<and> dtls_closed b'))"
proof -
  let ?tls = "tcf_tls config"
  have pre: "tcf_kind config = DTLS_UDP" "\<not> db_open b" "tls_path_valid (tc_ca_file ?tls)"
    using assms(1,3) by (simp_all add: dtls_closed_def dtls_config_ok_def)
  define early where "early \<longleftrightarrow> \<not> transport_config_valid config \<or> validate_dtls_init_config ?tls \<noteq> Some OK \<or>
    first_idx (\<lambda>c. c = CHR '':'') (take 48 (tcf_peer_ip config)) \<noteq> None"
  define b1 where "b1 = b\<lparr> db_cfg := config, db_is_server := tcf_is_server config, db_tls_enabled := tc_tls_enabled ?tls \<rparr>"
  have val: "returns (validate_dtls_init_config ?tls) (\<lambda>r. r \<in> {OK, ERR_IO, ERR_INVALID} \<and>
      (r = OK \<and> tc_tls_enabled ?tls \<longrightarrow> (if tc_verify_peer ?tls then path_given (tc_ca_file ?tls) \<and>
         (tc_require_crl ?tls \<longrightarrow> tc_crl_file ?tls ! 0 \<noteq> CHR 0x00) else tc_peer_hostname ?tls ! 0 = CHR 0x00)))"
    using pre(3) by (auto simp: validate_dtls_init_config_def path_given_def)
  have closed: "dtls_closed b1" using assms(1) by (simp add: b1_def dtls_closed_def)
  show ?thesis
  proof (cases early)
    case True
    with val pre assms(1,2) closed show ?thesis
      by (auto simp: DtlsUdpBackend_init_def early_def Let_def b1_def [symmetric] elim!: returnsE)
  next
    case False
    from assms(1) queue_init [of "db_recv_queue b" inbound_ok] obtain q where
      q: "RingBuffer_init (db_recv_queue b) = Some q" "queue_holds inbound_ok q" by (auto simp: dtls_closed_def elim!: returnsE)
    from assms(3) link_init [of "first_impairment config" entropy "db_impairment b" msg_ok inbound_ok] obtain imp where
      i: "ImpairmentEngine_init (db_impairment b) (first_impairment config) entropy = Some imp" "link_ok msg_ok inbound_ok imp"
      by (auto simp: dtls_config_ok_def elim!: returnsE)
    define b2 where "b2 = b1\<lparr> db_peer_node_id := NODE_ID_INVALID, db_peer_hello_received := False, db_pending_src_port := 0,
      db_peer_src_port := 0, db_crl_loaded := False, db_recv_queue := q, db_impairment := imp \<rparr>"
    have b2: "\<not> db_open b2" "db_cfg b2 = config" "db_is_server b2 = tcf_is_server config" "db_tls_enabled b2 = tc_tls_enabled ?tls"
        "db_sock_fd b2 < 0" "length (db_wire_buf b2) = 8192" "32 \<le> length (db_delay_buf b2)" "length (rb_buf q) = 64"
      using assms(1) q(2) by (simp_all add: b2_def b1_def dtls_closed_def queue_holds_def rb_inv_def)
    from dtls_bind_returns [OF assms(2) b2(5), of config] obtain r3 fd w3 where
      c: "DtlsUdpBackend_create_and_bind_udp_socket S b2 w config = Some (r3, b2\<lparr> db_sock_fd := fd \<rparr>, w3)" "I w3"
        "r3 = OK \<and> 0 \<le> fd \<or> r3 = ERR_IO \<and> fd < 0" by (auto elim!: returnsE)
    define b3 where "b3 = b2\<lparr> db_sock_fd := fd \<rparr>"
    have step: "DtlsUdpBackend_init S X M b w config entropy = (if r3 \<noteq> OK then Some (r3, b3, w3) else do {
        (res, b, w) \<leftarrow> DtlsUdpBackend_run_tls_handshake_phase S X M b3 w3 config;
        if res \<noteq> OK then Some (res, b, w) else do { nc_assert (db_open b); Some (OK, b, w) } })"
      using False pre(1,2) q(1) i(1) c(1) by (simp add: DtlsUdpBackend_init_def early_def Let_def b2_def b1_def b3_def)
    show ?thesis
    proof (cases "r3 = OK")
      case bad: False
      with c(3) step b2 c(2) show ?thesis by (simp add: b3_def b2_def dtls_closed_def)
    next
      case True
      with c(3) have fd: "0 \<le> fd" by simp
      have "0 \<le> db_sock_fd b3" "\<not> db_open b3" "db_cfg b3 = config" "db_is_server b3 = tcf_is_server config"
          "db_tls_enabled b3 = tc_tls_enabled ?tls" using fd b2 by (simp_all add: b3_def)
      from dtls_phase_returns [OF c(2) this assms(3)] obtain r4 b4 w4 where
        p: "DtlsUdpBackend_run_tls_handshake_phase S X M b3 w3 config = Some (r4, b4, w4)" "I w4"
          "r4 = OK \<and> dtls_frame b3 b4 \<and> db_open b4 \<and> (tc_tls_enabled ?tls \<and> \<not> tcf_is_server config \<and> tc_verify_peer ?tls \<longrightarrow>
             tc_peer_hostname ?tls ! 0 \<noteq> CHR 0x00) \<or>
           r4 \<in> {ERR_IO, ERR_INVALID, ERR_TIMEOUT} \<and> dtls_frame (b3\<lparr> db_sock_fd := - 1 \<rparr>) b4 \<and> \<not> db_open b4" by (auto elim!: returnsE)
      have safe: "tls_settings_safe (tcf_is_server config) ?tls" if "tc_tls_enabled ?tls" "r4 = OK"
        using that False val p(3) assms(3)
        by (auto simp: early_def tls_settings_safe_def dtls_config_ok_def path_given_def split: if_splits)
      have good: "dtls_inv b4 \<and> \<not> db_peer_hello_received b4 \<and> db_tls_enabled b4 = tc_tls_enabled ?tls" if "r4 = OK"
        using that p(3) fd b2 q(2) i(2) assms(3)
        by (auto simp: dtls_inv_def dtls_frame_def b3_def b2_def b1_def dtls_config_ok_def split: if_splits)
      have bad: "dtls_closed b4" if "r4 \<noteq> OK"
        using that p(3) b2 by (auto simp: dtls_closed_def dtls_frame_def b3_def b2_def)
      show ?thesis
      proof (cases "r4 = OK")
        case True
        with good safe p \<open>r3 = OK\<close> step show ?thesis by simp
      next
        case False
        with bad p \<open>r3 = OK\<close> step show ?thesis by auto
      qed
    qed
  qed
qed

lemma dtls_close_returns:
  assumes "dtls_inv b" and "I w"
  shows "returns (DtlsUdpBackend_close S M b w) (\<lambda>(b', w'). dtls_closed b' \<and> I w' \<and> \<not> db_peer_hello_received b' \<and> db_peer_src_port b' = 0)"
proof -
  have fd: "0 \<le> db_sock_fd b" "length (rb_buf (db_recv_queue b)) = 64" using assms(1) by (simp_all add: dtls_inv_def queue_holds_def rb_inv_def)
  with assms show ?thesis
    by (auto simp: DtlsUdpBackend_close_def Let_def dtls_closed_def dtls_inv_def intro!: do_close ssl_call)
qed

lemma dtls_transport_keeps: "transport_keeps (dtls_transport S X M) (\<lambda>(b, w). dtls_inv b \<and> I w)"
proof -
  have snd: "returns (tr_send_message (dtls_transport S X M) (b, w) env)
      (\<lambda>(r, b', w'). dtls_inv b' \<and> I w' \<and> r \<in> {OK, ERR_IO, ERR_INVALID, ERR_FULL})" if "dtls_inv b" "I w" "msg_ok env" for b w env
    using dtls_send_message_returns [OF that] by (auto simp: dtls_transport_def elim!: returns_mono)
  have "returns (tr_register_local_id (dtls_transport S X M) (b, w) n) (\<lambda>(r, b', w'). dtls_inv b' \<and> I w')"
    if "dtls_inv b" "I w" "n \<noteq> 0" for b w n using dtls_register_returns [OF that] by (auto simp: dtls_transport_def elim!: returns_mono)
  moreover have "returns (tr_receive_message (dtls_transport S X M) (b, w) env ms) (\<lambda>(r, env', b', w'). dtls_inv b' \<and> I w' \<and>
      (r = OK \<and> inbound_ok env' \<or> r = ERR_TIMEOUT \<and> env' = env))" if "dtls_inv b" "I w" for b w env ms
    using dtls_receive_returns [OF that, of env ms] by (simp add: dtls_transport_def)
  ultimately show ?thesis using snd
    by (auto simp: transport_keeps_def case_prod_unfold) (simp_all add: dtls_transport_def)
qed

end

section \<open>Properties\<close>


lemma dtls_closed_new: "dtls_closed (DtlsUdpBackend_new cfg imp)"
  by (simp add: dtls_closed_def DtlsUdpBackend_new_def RingBuffer_new_def)

lemma path_of_given: "p \<noteq> [] \<Longrightarrow> hd p \<noteq> CHR 0x00 \<Longrightarrow> length p < 256 \<Longrightarrow> path_given (path_of p)"
  by (auto simp: path_given_def path_of_def tls_path_valid_def nth_append hd_conv_nth first_idx_None simp del: take_append)



lemma dtls_example_inv: "dtls_inv dtls_example"
  using blank_ok [of impairment_config_default msg_ok inbound_ok] rb_inv_new
  by (auto simp: dtls_inv_def dtls_example_def DtlsUdpBackend_new_def queue_holds_def imp_config_ok_def draws_no_double_def
      impairment_config_default_def)


text \<open>A DTLS session is set up with exactly the intended settings, in this order: the retransmission and read time-outs,
  peer verification as configured, the trust anchor with the revocation list if one is given, cookies at a server, the
  authenticated cipher suites, and version 1.2 as the least.\<close>

theorem dtls_session_configuration:
  assumes "records_settings M made" and "\<not> db_crl_loaded b" and "DtlsUdpBackend_setup_dtls_config M b w tls = Some (OK, b', w')"
  shows "made w' = made w @ dtls_session_settings tls"
proof -
  have m: "made (mb_ssl_conf M v s) = made v @ [s]" "made (snd (mb_psa_crypto_init M v)) = made v"
      "made (snd (mb_ssl_config_defaults M v role dg)) = made v" "made (snd (tls_path_is_regular_file M v path)) = made v"
      "made (snd (mb_x509_crt_parse_file M v crt path)) = made v" "made (snd (mb_x509_crl_parse_file M v path)) = made v"
      "made (snd (mb_pk_parse_keyfile M v path)) = made v" "made (snd (mb_ssl_conf_own_cert M v)) = made v"
      "made (snd (mb_ssl_cookie_setup M v)) = made v" for v s role dg path crt
    using assms(1) by (simp_all add: records_settings_def tls_path_is_regular_file_def case_prod_unfold Let_def)
  have own: "made v' = made v" if "DtlsUdpBackend_load_own_cert_and_key M v tls = Some (OK, v')" for v v'
    using that by (auto simp: DtlsUdpBackend_load_own_cert_and_key_def nc_assert_def case_prod_unfold Let_def m bind_eq_Some_conv split: if_splits)
  have crl: "made v' = made v @ [Conf_ca_chain (tc_crl_file tls ! 0 \<noteq> CHR 0x00)]"
    if "DtlsUdpBackend_load_crl_if_configured M b v tls = Some (OK, c, v')" for v c v'
    using that assms(2) by (auto simp: DtlsUdpBackend_load_crl_if_configured_def nc_assert_def case_prod_unfold Let_def m
        bind_eq_Some_conv split: if_splits)
  have certs: "made v' = made v @ (if tc_verify_peer tls \<and> tc_ca_file tls ! 0 \<noteq> CHR 0x00
        then [Conf_ca_chain (tc_crl_file tls ! 0 \<noteq> CHR 0x00)] else [])"
    if "DtlsUdpBackend_load_certs_and_key M b v tls = Some (OK, c, v')" for v c v'
    using that by (auto simp: DtlsUdpBackend_load_certs_and_key_def nc_assert_def case_prod_unfold Let_def m bind_eq_Some_conv
        dest!: own crl split: if_splits)
  have cookie: "made v' = made v @ (if tc_role tls = SERVER then [Conf_dtls_cookies] else [])"
    if "DtlsUdpBackend_setup_cookie_if_server M v tls = Some (OK, v')" for v v'
    using that by (auto simp: DtlsUdpBackend_setup_cookie_if_server_def nc_assert_def case_prod_unfold Let_def m bind_eq_Some_conv
        split: if_splits)
  obtain r1 w1 r2 w2 where p: "mb_psa_crypto_init M w = (r1, w1)" "mb_ssl_config_defaults M w1 (tc_role tls) True = (r2, w2)"
    by (metis surj_pair)
  have w2: "made w2 = made w" using m(2) [of w] m(3) [of w1 "tc_role tls" True] p by simp
  define w3 where "w3 = mb_ssl_conf M (mb_ssl_conf M (mb_ssl_conf M w2 (Conf_handshake_timeout 1000 10000)) (Conf_read_timeout 100))
    (if tc_verify_peer tls then Conf_authmode_required else Conf_authmode_none)"
  have pre: "tc_tls_enabled tls" "tls_path_valid (tc_cert_file tls)" "tc_cert_file tls ! 0 \<noteq> CHR 0x00" "r1 = 0" "r2 = 0"
    using assms(3) p by (auto simp: DtlsUdpBackend_setup_dtls_config_def nc_assert_def split: if_splits)
  obtain b4 w4 where c: "DtlsUdpBackend_load_certs_and_key M b w3 tls = Some (OK, b4, w4)"
    using assms(3) p pre by (cases "DtlsUdpBackend_load_certs_and_key M b w3 tls")
      (auto simp: DtlsUdpBackend_setup_dtls_config_def Let_def w3_def [symmetric] split: if_splits)
  obtain w5 where d: "DtlsUdpBackend_setup_cookie_if_server M w4 tls = Some (OK, w5)"
    using assms(3) p pre c by (cases "DtlsUdpBackend_setup_cookie_if_server M w4 tls")
      (auto simp: DtlsUdpBackend_setup_dtls_config_def Let_def w3_def [symmetric] split: if_splits)
  have "w' = mb_ssl_conf M (mb_ssl_conf M w5 (Conf_ciphersuites k_allowed_ciphersuites)) Conf_min_tls_version_1_2"
    using assms(3) p pre c d by (simp add: DtlsUdpBackend_setup_dtls_config_def Let_def w3_def [symmetric])
  with certs [OF c] cookie [OF d] show ?thesis by (simp add: m(1) w3_def w2 dtls_session_settings_def)
qed

theorem dtls_session_configuration_witness:
  "\<exists>b' w'. DtlsUdpBackend_setup_dtls_config mbedtls_recorder dtls_example [] tls_example = Some (OK, b', w') \<and>
     w' = [Conf_handshake_timeout 1000 10000, Conf_read_timeout 100, Conf_authmode_required, Conf_ca_chain True,
       Conf_ciphersuites k_allowed_ciphersuites, Conf_min_tls_version_1_2]"
proof -
  have rec: "records_settings mbedtls_recorder (\<lambda>w. w)" by (simp add: records_settings_def mbedtls_recorder_def mbedtls_plain_def)
  have paths: "path_given (tc_cert_file tls_example)" "path_given (tc_key_file tls_example)" "path_given (tc_ca_file tls_example)"
      "path_given (tc_crl_file tls_example)" by (simp_all add: tls_example_def path_of_given)
  have tls: "tc_tls_enabled tls_example" "tc_verify_peer tls_example" "tc_role tls_example = CLIENT"
    by (simp_all add: tls_example_def tls_config_default_def)
  have loaded: "\<not> db_crl_loaded dtls_example" by (simp add: dtls_example_def DtlsUdpBackend_new_def)
  obtain b' w' where s: "DtlsUdpBackend_setup_dtls_config mbedtls_recorder dtls_example [] tls_example = Some (OK, b', w')"
    using paths tls
    by (auto simp: DtlsUdpBackend_setup_dtls_config_def DtlsUdpBackend_load_certs_and_key_def DtlsUdpBackend_load_crl_if_configured_def
        DtlsUdpBackend_load_own_cert_and_key_def DtlsUdpBackend_setup_cookie_if_server_def tls_path_is_regular_file_def
        mbedtls_recorder_def mbedtls_plain_def path_given_def)
  from dtls_session_configuration [OF rec loaded s] paths tls s show ?thesis
    by (simp add: dtls_session_settings_def path_given_def)
qed

text \<open>A plaintext backend opened without a peer address aborts at the first datagram that arrives, from whomever.\<close>

theorem dtls_plaintext_without_peer_aborts:
  assumes "db_open b" and "db_sock_fd b \<ge> 0" and "\<not> db_tls_enabled b" and "tcf_peer_ip (db_cfg b) = []"
    and "so_recv_from S w (db_sock_fd b) (db_wire_buf b) SOCKET_RECV_BUF_BYTES ms (0, [], 0) = Some (True, buf, (len, ip, port), w1)"
  shows "DtlsUdpBackend_recv_one_dtls_datagram S X M b w ms = None"
  using assms by (simp add: DtlsUdpBackend_recv_one_dtls_datagram_def DtlsUdpBackend_validate_source_def)

theorem dtls_plaintext_without_peer_aborts_witness:
  "DtlsUdpBackend_recv_one_dtls_datagram
     ((SocketOpsImpl posix_loopback)\<lparr> so_recv_from := \<lambda>w fd buf cap ms out. Some (True, buf, (1, ''10.0.0.9'', 5), w) \<rparr>)
     posix_loopback mbedtls_null dtls_anyone ([], []) 100 = None"
  by (rule dtls_plaintext_without_peer_aborts) (simp_all add: dtls_anyone_def dtls_example_def DtlsUdpBackend_new_def)

end
