(* ===== verification/TlsBackend.thy ===== *)
theory TlsBackend
  imports Mbedtls
begin

text \<open>
  \<open>src/platform/TlsTcpBackend.cpp\<close> and \<open>TlsSessionStore.cpp\<close>: the transport over TCP with TLS, or in plaintext over the same
  sockets. A server keeps up to eight connections in slots that are not moved when another connection goes; a client uses slot 0.
  The network contexts are their descriptors, \<open>- 1\<close> when free; the TLS contexts are the slots of the library. The session store is
  used by this backend alone, so its mutex is always free. This theory holds the definitions, \<open>TlsBackendCorrect\<close> the invariant
  and the properties.
\<close>

section \<open>The session store\<close>

record session_store =
  ss_session_valid :: bool

definition TlsSessionStore_new :: session_store where
  "TlsSessionStore_new = \<lparr> ss_session_valid = False \<rparr>"

definition TlsSessionStore_zeroize_unlocked :: "'w mbedtls \<Rightarrow> session_store \<Rightarrow> 'w \<Rightarrow> (session_store \<times> 'w) option" where
  "TlsSessionStore_zeroize_unlocked M st w = do {
     let w = mb_ssl_session_zeroize M w;
     let st = st\<lparr> ss_session_valid := False \<rparr>;
     nc_assert (\<not> ss_session_valid st);
     nc_assert (ss_session_valid st = False);
     Some (st, w)
   }"

definition TlsSessionStore_zeroize :: "'w mbedtls \<Rightarrow> session_store \<Rightarrow> 'w \<Rightarrow> (session_store \<times> 'w) option" where
  "TlsSessionStore_zeroize M st w = TlsSessionStore_zeroize_unlocked M st w"

definition TlsSessionStore_try_save :: "'w mbedtls \<Rightarrow> session_store \<Rightarrow> 'w \<Rightarrow> nat \<Rightarrow> (int \<times> session_store \<times> 'w) option" where
  "TlsSessionStore_try_save M st w ssl = do {
     (st, w) \<leftarrow> TlsSessionStore_zeroize_unlocked M st w;
     let (ret, w) = mb_ssl_get_session M w ssl;
     Some (ret, if ret = 0 then st\<lparr> ss_session_valid := True \<rparr> else st, w)
   }"

definition TlsSessionStore_try_load :: "'w mbedtls \<Rightarrow> session_store \<Rightarrow> 'w \<Rightarrow> nat \<Rightarrow> bool \<times> 'w" where
  "TlsSessionStore_try_load M st w ssl = (if ss_session_valid st
     then let (ret, w) = mb_ssl_set_session M w ssl in (ret = 0, w)
     else (False, w))"

section \<open>The state\<close>

record tls_backend =
  ts_ca_cert_version :: int
  ts_cert_version :: int
  ts_crl_loaded :: bool
  ts_listen_fd :: int
  ts_client_fd :: "int list"
  ts_session_store :: "session_store option"
  ts_fs_warning_logged :: bool
  ts_client_count :: nat
  ts_wire_buf :: "u8 list"
  ts_cfg :: transport_config
  ts_impairment_engine :: impairment_engine
  ts_recv_queue :: ring_buffer
  ts_open :: bool
  ts_is_server :: bool
  ts_tls_enabled :: bool
  ts_connections_opened :: u32
  ts_connections_closed :: u32
  ts_client_node_ids :: "NodeId list"
  ts_local_node_id :: NodeId
  ts_client_hello_received :: "bool list"
  ts_client_accept_ts :: "u64 list"
  ts_hello_queue :: "NodeId list"
  ts_hello_queue_read :: nat
  ts_hello_queue_write :: nat
  ts_client_slot_active :: "bool list"
  ts_delay_buf :: "envelope list"

definition TlsTcpBackend_new :: "transport_config \<Rightarrow> impairment_engine \<Rightarrow> tls_backend" where
  "TlsTcpBackend_new cfg imp = \<lparr> ts_ca_cert_version = 0, ts_cert_version = 0, ts_crl_loaded = False, ts_listen_fd = - 1,
     ts_client_fd = replicate MAX_TCP_CONNECTIONS (- 1), ts_session_store = None, ts_fs_warning_logged = False, ts_client_count = 0,
     ts_wire_buf = replicate (unat SOCKET_RECV_BUF_BYTES) 0, ts_cfg = cfg, ts_impairment_engine = imp, ts_recv_queue = RingBuffer_new,
     ts_open = False, ts_is_server = False, ts_tls_enabled = False, ts_connections_opened = 0, ts_connections_closed = 0,
     ts_client_node_ids = replicate MAX_TCP_CONNECTIONS NODE_ID_INVALID, ts_local_node_id = NODE_ID_INVALID,
     ts_client_hello_received = replicate MAX_TCP_CONNECTIONS False, ts_client_accept_ts = replicate MAX_TCP_CONNECTIONS 0,
     ts_hello_queue = replicate MAX_TCP_CONNECTIONS NODE_ID_INVALID, ts_hello_queue_read = 0, ts_hello_queue_write = 0,
     ts_client_slot_active = replicate MAX_TCP_CONNECTIONS False, ts_delay_buf = replicate IMPAIR_DELAY_BUF_SIZE envelope_zero \<rparr>"

definition send_timeout :: "tls_backend \<Rightarrow> u32" where
  "send_timeout b = (if tcf_num_channels (ts_cfg b) > 0 then cc_send_timeout_ms (tcf_channels (ts_cfg b) ! 0) else 1000)"

text \<open>\<open>mbedtls_net_free\<close> closes the descriptor and marks the context as free.\<close>

definition free_net :: "'w mbedtls \<Rightarrow> tls_backend \<Rightarrow> 'w \<Rightarrow> nat \<Rightarrow> tls_backend \<times> 'w" where
  "free_net M b w i = (b\<lparr> ts_client_fd := (ts_client_fd b)[i := - 1] \<rparr>, mb_net_free M w (ts_client_fd b ! i))"

text \<open>\<open>mbedtls_ssl_free\<close> and \<open>mbedtls_ssl_init\<close> of a connection.\<close>

definition reset_ssl :: "'w mbedtls \<Rightarrow> 'w \<Rightarrow> nat \<Rightarrow> 'w" where
  "reset_ssl M w i = mb_ssl_call M (mb_ssl_call M w i Ssl_free) i Ssl_init"

primrec port_loop :: "nat \<Rightarrow> nat \<Rightarrow> string \<Rightarrow> string" where
  "port_loop 0 val buf = buf"
| "port_loop (Suc n) val buf = (if val > 0 then port_loop n (val div 10) (char_of (48 + val mod 10) # buf) else buf)"

definition port_to_str :: "u16 \<Rightarrow> string" where
  "port_to_str port = (if port = 0 then ''0'' else port_loop 5 (unat port) [])"

section \<open>Certificates and configuration\<close>

definition TlsTcpBackend_load_crl_if_configured :: "'w mbedtls \<Rightarrow> tls_backend \<Rightarrow> 'w \<Rightarrow> tls_config \<Rightarrow> (Result \<times> tls_backend \<times> 'w) option" where
  "TlsTcpBackend_load_crl_if_configured M b w tls_cfg = do {
     nc_assert (tc_verify_peer tls_cfg);
     nc_assert (tc_ca_file tls_cfg ! 0 \<noteq> CHR 0x00);
     nc_assert (tls_path_valid (tc_crl_file tls_cfg));
     if tc_crl_file tls_cfg ! 0 = CHR 0x00 then Some (OK, b, w)
     else do {
       let (regular, w) = tls_path_is_regular_file M w (c_string (tc_crl_file tls_cfg));
       if \<not> regular then Some (ERR_IO, b, w)
       else do {
         let (crl_ret, w) = mb_x509_crl_parse_file M w (c_string (tc_crl_file tls_cfg));
         if crl_ret \<noteq> 0 then Some (ERR_IO, b, w)
         else do {
           let b = b\<lparr> ts_crl_loaded := True \<rparr>;
           nc_assert (ts_crl_loaded b);
           Some (OK, b, w)
         }
       }
     }
   }"

definition TlsTcpBackend_load_ca_and_crl :: "'w mbedtls \<Rightarrow> tls_backend \<Rightarrow> 'w \<Rightarrow> tls_config \<Rightarrow> (Result \<times> tls_backend \<times> 'w) option" where
  "TlsTcpBackend_load_ca_and_crl M b w tls_cfg = do {
     nc_assert (tc_verify_peer tls_cfg);
     nc_assert (tls_path_valid (tc_ca_file tls_cfg));
     nc_assert (tc_ca_file tls_cfg ! 0 \<noteq> CHR 0x00);
     let (regular, w) = tls_path_is_regular_file M w (c_string (tc_ca_file tls_cfg));
     if \<not> regular then Some (ERR_IO, b, w)
     else do {
       let (ret, w) = mb_x509_crt_parse_file M w Ca_cert (c_string (tc_ca_file tls_cfg));
       let b = b\<lparr> ts_ca_cert_version := mb_x509_crt_version M w Ca_cert \<rparr>;
       if ret \<noteq> 0 then Some (ERR_IO, b, w)
       else do {
         (crl_res, b, w) \<leftarrow> TlsTcpBackend_load_crl_if_configured M b w tls_cfg;
         if crl_res \<noteq> OK then Some (crl_res, b, w)
         else do {
           let w = mb_ssl_conf M w (Conf_ca_chain (ts_crl_loaded b));
           nc_assert (ts_ca_cert_version b > 0);
           Some (OK, b, w)
         }
       }
     }
   }"

definition TlsTcpBackend_load_tls_certs :: "'w mbedtls \<Rightarrow> tls_backend \<Rightarrow> 'w \<Rightarrow> tls_config \<Rightarrow> (Result \<times> tls_backend \<times> 'w) option" where
  "TlsTcpBackend_load_tls_certs M b w tls_cfg = do {
     nc_assert (tls_path_valid (tc_cert_file tls_cfg));
     nc_assert (tls_path_valid (tc_key_file tls_cfg));
     nc_assert (tc_cert_file tls_cfg ! 0 \<noteq> CHR 0x00);
     nc_assert (tc_key_file tls_cfg ! 0 \<noteq> CHR 0x00);
     (ca_res, b, w) \<leftarrow> (if tc_verify_peer tls_cfg \<and> tc_ca_file tls_cfg ! 0 \<noteq> CHR 0x00
       then TlsTcpBackend_load_ca_and_crl M b w tls_cfg else Some (OK, b, w));
     if ca_res \<noteq> OK then Some (ca_res, b, w)
     else do {
       let (regular, w) = tls_path_is_regular_file M w (c_string (tc_cert_file tls_cfg));
       if \<not> regular then Some (ERR_IO, b, w)
       else do {
         let (ret, w) = mb_x509_crt_parse_file M w Own_cert (c_string (tc_cert_file tls_cfg));
         let b = b\<lparr> ts_cert_version := mb_x509_crt_version M w Own_cert \<rparr>;
         if ret \<noteq> 0 then Some (ERR_IO, b, w)
         else do {
           let (regular, w) = tls_path_is_regular_file M w (c_string (tc_key_file tls_cfg));
           if \<not> regular then Some (ERR_IO, b, w)
           else do {
             let (ret, w) = mb_pk_parse_keyfile M w (c_string (tc_key_file tls_cfg));
             if ret \<noteq> 0 then Some (ERR_IO, b, w)
             else do {
               let (ret, w) = mb_ssl_conf_own_cert M w;
               if ret \<noteq> 0 then Some (ERR_IO, b, w)
               else do {
                 nc_assert (ts_cert_version b > 0);
                 Some (OK, b, w)
               }
             }
           }
         }
       }
     }
   }"

definition TlsTcpBackend_apply_cipher_policy :: "'w mbedtls \<Rightarrow> 'w \<Rightarrow> 'w" where
  "TlsTcpBackend_apply_cipher_policy M w =
     mb_ssl_conf M (mb_ssl_conf M w (Conf_ciphersuites k_allowed_ciphersuites)) Conf_min_tls_version_1_2"

definition TlsTcpBackend_setup_session_tickets :: "'w mbedtls \<Rightarrow> 'w \<Rightarrow> u32 \<Rightarrow> (Result \<times> 'w) option" where
  "TlsTcpBackend_setup_session_tickets M w lifetime_s = do {
     nc_assert (lifetime_s > 0);
     nc_assert (lifetime_s \<le> 604800);
     (ticket_ret, w) \<leftarrow> MbedtlsOpsImpl_ssl_ticket_setup M w lifetime_s;
     if ticket_ret \<noteq> 0 then Some (ERR_IO, w)
     else do {
       let w = mb_ssl_conf M w Conf_session_tickets_cb;
       nc_assert (ticket_ret = 0);
       Some (OK, w)
     }
   }"

definition TlsTcpBackend_maybe_setup_session_tickets :: "'w mbedtls \<Rightarrow> 'w \<Rightarrow> tls_config \<Rightarrow> (Result \<times> 'w) option" where
  "TlsTcpBackend_maybe_setup_session_tickets M w tls_cfg = do {
     nc_assert (tc_tls_enabled tls_cfg);
     if tc_session_resumption_enabled tls_cfg then do {
       let ticket_lifetime = (if tc_session_ticket_lifetime_s tls_cfg > 0 then tc_session_ticket_lifetime_s tls_cfg else 86400);
       TlsTcpBackend_setup_session_tickets M w ticket_lifetime
     }
     else Some (OK, w)
   }"

definition TlsTcpBackend_setup_tls_config :: "'w mbedtls \<Rightarrow> tls_backend \<Rightarrow> 'w \<Rightarrow> tls_config \<Rightarrow> (Result \<times> tls_backend \<times> 'w) option" where
  "TlsTcpBackend_setup_tls_config M b w tls_cfg = do {
     nc_assert (tc_tls_enabled tls_cfg);
     nc_assert (tls_path_valid (tc_cert_file tls_cfg));
     nc_assert (tc_cert_file tls_cfg ! 0 \<noteq> CHR 0x00);
     let (psa_ret, w) = mb_psa_crypto_init M w;
     if psa_ret \<noteq> 0 then Some (ERR_IO, b, w)
     else do {
       let (ret, w) = mb_ssl_config_defaults M w (tc_role tls_cfg) False;
       if ret \<noteq> 0 then Some (ERR_IO, b, w)
       else do {
         let w = mb_ssl_conf M w (if tc_verify_peer tls_cfg then Conf_authmode_required else Conf_authmode_none);
         let w = TlsTcpBackend_apply_cipher_policy M w;
         (res, b, w) \<leftarrow> TlsTcpBackend_load_tls_certs M b w tls_cfg;
         if res \<noteq> OK then Some (res, b, w)
         else do {
           (ticket_res, w) \<leftarrow> TlsTcpBackend_maybe_setup_session_tickets M w tls_cfg;
           if ticket_res \<noteq> OK then Some (ticket_res, b, w)
           else do {
             nc_assert (psa_ret = 0);
             Some (OK, b, w)
           }
         }
       }
     }
   }"

definition validate_tls_init_config :: "tls_config \<Rightarrow> Result option" where
  "validate_tls_init_config tls_cfg = do {
     nc_assert (tls_path_valid (tc_ca_file tls_cfg));
     if \<not> tc_tls_enabled tls_cfg then Some OK
     else if tc_verify_peer tls_cfg \<and> tc_ca_file tls_cfg ! 0 = CHR 0x00 then Some ERR_IO
     else if tc_require_crl tls_cfg \<and> tc_verify_peer tls_cfg \<and> tc_crl_file tls_cfg ! 0 = CHR 0x00 then Some ERR_INVALID
     else if \<not> tc_verify_peer tls_cfg \<and> tc_peer_hostname tls_cfg ! 0 \<noteq> CHR 0x00 then Some ERR_INVALID
     else if tc_role tls_cfg = CLIENT \<and> tc_verify_peer tls_cfg \<and> tc_peer_hostname tls_cfg ! 0 = CHR 0x00 then Some ERR_INVALID
     else do {
       nc_assert (\<not> (tc_verify_peer tls_cfg \<and> tc_ca_file tls_cfg ! 0 = CHR 0x00));
       Some OK
     }
   }"

section \<open>Handshakes\<close>

text \<open>The first attempt, and at most \<open>n\<close> more while the library asks to wait.\<close>

primrec tls_handshake_loop :: "'w mbedtls \<Rightarrow> nat \<Rightarrow> nat \<Rightarrow> 'w \<Rightarrow> int \<times> 'w" where
  "tls_handshake_loop M ssl 0 w = mb_ssl_handshake M w ssl"
| "tls_handshake_loop M ssl (Suc n) w = (let (hs_ret, w) = mb_ssl_handshake M w ssl in
     if hs_ret = mb_ERR_SSL_WANT_READ M \<or> hs_ret = mb_ERR_SSL_WANT_WRITE M then tls_handshake_loop M ssl n w else (hs_ret, w))"

definition TlsTcpBackend_run_tls_handshake_loop :: "'w mbedtls \<Rightarrow> nat \<Rightarrow> 'w \<Rightarrow> int \<times> 'w" where
  "TlsTcpBackend_run_tls_handshake_loop M ssl w = tls_handshake_loop M ssl 31 w"

definition TlsTcpBackend_set_session_store :: "tls_backend \<Rightarrow> session_store option \<Rightarrow> tls_backend option" where
  "TlsTcpBackend_set_session_store b store = do {
     nc_assert (\<not> ts_open b);
     nc_assert (ts_session_store b = None \<or> ts_session_store b = store);
     Some (b\<lparr> ts_session_store := store \<rparr>)
   }"

definition session_live :: "tls_backend \<Rightarrow> bool" where
  "session_live b \<longleftrightarrow> (case ts_session_store b of None \<Rightarrow> False | Some st \<Rightarrow> ss_session_valid st)"

definition TlsTcpBackend_has_resumable_session :: "tls_backend \<Rightarrow> bool option" where
  "TlsTcpBackend_has_resumable_session b = do {
     nc_assert (\<not> ts_is_server b);
     Some (tc_session_resumption_enabled (tcf_tls (ts_cfg b)) \<and> session_live b)
   }"

definition is_tls12 :: "string option \<Rightarrow> bool" where
  "is_tls12 ver \<longleftrightarrow> (case ver of None \<Rightarrow> False | Some v \<Rightarrow> take 7 v = ''TLSv1.2'')"

definition TlsTcpBackend_log_fs_warning_if_tls12 :: "string option \<Rightarrow> bool option" where
  "TlsTcpBackend_log_fs_warning_if_tls12 ver = do {
     let warned = (if ver = None then False else is_tls12 ver);
     nc_assert (\<not> warned \<or> ver \<noteq> None);
     nc_assert (warned = (ver \<noteq> None \<and> is_tls12 ver));
     Some warned
   }"

definition TlsTcpBackend_try_save_client_session :: "'w mbedtls \<Rightarrow> tls_backend \<Rightarrow> 'w \<Rightarrow> (tls_backend \<times> 'w) option" where
  "TlsTcpBackend_try_save_client_session M b w = do {
     nc_assert (ts_tls_enabled b);
     nc_assert (ts_session_store b \<noteq> None);
     (ret, st, w) \<leftarrow> TlsSessionStore_try_save M (the (ts_session_store b)) w 0;
     let b = b\<lparr> ts_session_store := Some st \<rparr>;
     if ret \<noteq> 0 then Some (b, w)
     else if \<not> ts_fs_warning_logged b then do {
       warned \<leftarrow> TlsTcpBackend_log_fs_warning_if_tls12 (mb_ssl_get_version M w 0);
       Some (b\<lparr> ts_fs_warning_logged := warned \<rparr>, w)
     }
     else Some (b, w)
   }"

definition TlsTcpBackend_try_load_client_session :: "'w mbedtls \<Rightarrow> tls_backend \<Rightarrow> 'w \<Rightarrow> 'w option" where
  "TlsTcpBackend_try_load_client_session M b w = do {
     nc_assert (ts_tls_enabled b);
     nc_assert (ts_session_store b \<noteq> None);
     Some (snd (TlsSessionStore_try_load M (the (ts_session_store b)) w 0))
   }"

definition log_stale_ticket_warning :: "'w mbedtls \<Rightarrow> bool \<Rightarrow> int \<Rightarrow> unit option" where
  "log_stale_ticket_warning M had_session hs_ret = do {
     nc_assert (hs_ret \<noteq> 0);
     nc_assert (hs_ret \<noteq> mb_ERR_SSL_WANT_READ M \<and> hs_ret \<noteq> mb_ERR_SSL_WANT_WRITE M);
     Some ()
   }"

definition TlsTcpBackend_check_forward_secrecy :: "string option \<Rightarrow> bool \<Rightarrow> bool \<Rightarrow> Result option" where
  "TlsTcpBackend_check_forward_secrecy ver feature_enabled had_session = do {
     nc_assert (ver \<noteq> None \<or> \<not> had_session);
     if \<not> feature_enabled \<or> \<not> had_session then Some OK
     else do {
       nc_assert feature_enabled;
       nc_assert had_session;
       if ver = None \<or> \<not> is_tls12 ver then Some OK
       else Some ERR_IO
     }
   }"

definition TlsTcpBackend_enforce_forward_secrecy_if_required ::
    "'w mbedtls \<Rightarrow> tls_backend \<Rightarrow> 'w \<Rightarrow> bool \<Rightarrow> (Result \<times> tls_backend \<times> 'w) option" where
  "TlsTcpBackend_enforce_forward_secrecy_if_required M b w had_session = do {
     nc_assert (ts_tls_enabled b);
     res \<leftarrow> TlsTcpBackend_check_forward_secrecy (mb_ssl_get_version M w 0)
       (tc_tls_require_forward_secrecy (tcf_tls (ts_cfg b))) had_session;
     (b, w) \<leftarrow> (case ts_session_store b of
         Some st \<Rightarrow> if res \<noteq> OK then do {
             (st, w) \<leftarrow> TlsSessionStore_zeroize M st w;
             Some (b\<lparr> ts_session_store := Some st \<rparr>, w)
           } else Some (b, w)
       | None \<Rightarrow> Some (b, w));
     nc_assert (res = OK \<or> ts_session_store b = None \<or> \<not> session_live b);
     Some (res, b, w)
   }"

definition TlsTcpBackend_tls_connect_handshake :: "'w mbedtls \<Rightarrow> tls_backend \<Rightarrow> 'w \<Rightarrow> (Result \<times> tls_backend \<times> 'w) option" where
  "TlsTcpBackend_tls_connect_handshake M b w = do {
     nc_assert (ts_tls_enabled b);
     nc_assert (ts_client_fd b ! 0 \<ge> 0);
     (ret, w) \<leftarrow> MbedtlsOpsImpl_net_set_block M w (ts_client_fd b ! 0);
     if ret \<noteq> 0 then do { let (b, w) = free_net M b w 0; Some (ERR_IO, b, w) }
     else do {
       let (ret, w) = mb_ssl_setup M w 0;
       if ret \<noteq> 0 then do { let (b, w) = free_net M b w 0; Some (ERR_IO, b, w) }
       else do {
         let host = tc_peer_hostname (tcf_tls (ts_cfg b));
         let (ret, w) = mb_ssl_set_hostname M w 0 (if host ! 0 \<noteq> CHR 0x00 then Some (c_string host) else None);
         if ret \<noteq> 0 then do { let (b, w) = free_net M b w 0; Some (ERR_IO, b, w) }
         else do {
           resumable \<leftarrow> TlsTcpBackend_has_resumable_session b;
           w \<leftarrow> (if resumable then TlsTcpBackend_try_load_client_session M b w else Some w);
           let w = mb_ssl_call M w 0 (Set_bio (ts_client_fd b ! 0));
           had_session \<leftarrow> TlsTcpBackend_has_resumable_session b;
           let (hs_ret, w) = TlsTcpBackend_run_tls_handshake_loop M 0 w;
           if hs_ret \<noteq> 0 then do {
             _ \<leftarrow> log_stale_ticket_warning M had_session hs_ret;
             let (b, w) = free_net M b (reset_ssl M w 0) 0;
             Some (ERR_IO, b, w)
           }
           else do {
             (fs_res, b, w) \<leftarrow> TlsTcpBackend_enforce_forward_secrecy_if_required M b w had_session;
             if fs_res \<noteq> OK then do { let (b, w) = free_net M b (reset_ssl M w 0) 0; Some (fs_res, b, w) }
             else do {
               (b, w) \<leftarrow> (if tc_session_resumption_enabled (tcf_tls (ts_cfg b)) \<and> ts_session_store b \<noteq> None
                 then TlsTcpBackend_try_save_client_session M b w else Some (b, w));
               nc_assert (ts_client_fd b ! 0 \<ge> 0);
               Some (OK, b, w)
             }
           }
         }
       }
     }
   }"

section \<open>Opening\<close>

definition TlsTcpBackend_bind_and_listen :: "'w mbedtls \<Rightarrow> tls_backend \<Rightarrow> 'w \<Rightarrow> string \<Rightarrow> u16 \<Rightarrow> (Result \<times> tls_backend \<times> 'w) option" where
  "TlsTcpBackend_bind_and_listen M b w ip port = do {
     nc_assert (ts_is_server b);
     let ((ret, fd), w) = mb_net_bind M w ip (port_to_str port);
     let b = b\<lparr> ts_listen_fd := fd \<rparr>;
     if ret \<noteq> 0 then Some (ERR_IO, b, w)
     else do {
       (ret, w) \<leftarrow> MbedtlsOpsImpl_net_set_nonblock M w (ts_listen_fd b);
       if ret \<noteq> 0 then Some (ERR_IO, b\<lparr> ts_listen_fd := - 1 \<rparr>, mb_net_free M w (ts_listen_fd b))
       else do {
         let b = b\<lparr> ts_open := True \<rparr>;
         nc_assert (ts_listen_fd b \<ge> 0);
         Some (OK, b, w)
       }
     }
   }"

definition TlsTcpBackend_connect_to_server :: "'w mbedtls \<Rightarrow> tls_backend \<Rightarrow> 'w \<Rightarrow> (Result \<times> tls_backend \<times> 'w) option" where
  "TlsTcpBackend_connect_to_server M b w = do {
     nc_assert (\<not> ts_is_server b);
     nc_assert (ts_client_fd b ! 0 < 0);
     let ((ret, fd), w) = mb_net_connect M w (tcf_peer_ip (ts_cfg b)) (port_to_str (tcf_peer_port (ts_cfg b)));
     let b = b\<lparr> ts_client_fd := (ts_client_fd b)[0 := fd] \<rparr>;
     if ret \<noteq> 0 then Some (ERR_IO, b, w)
     else do {
       (res, b, w) \<leftarrow> (if ts_tls_enabled b then TlsTcpBackend_tls_connect_handshake M b w else Some (OK, b, w));
       if res \<noteq> OK then Some (res, b, w)
       else do {
         let b = b\<lparr> ts_client_count := 1, ts_client_slot_active := (ts_client_slot_active b)[0 := True], ts_open := True,
           ts_connections_opened := ts_connections_opened b + 1 \<rparr>;
         nc_assert (ts_client_fd b ! 0 \<ge> 0);
         nc_assert (ts_client_count b = 1);
         Some (OK, b, w)
       }
     }
   }"

definition TlsTcpBackend_init :: "'w mbedtls \<Rightarrow> tls_backend \<Rightarrow> 'w \<Rightarrow> transport_config \<Rightarrow> u64 \<Rightarrow> (Result \<times> tls_backend \<times> 'w) option" where
  "TlsTcpBackend_init M b w config entropy = do {
     nc_assert (tcf_kind config = TCP);
     nc_assert (\<not> ts_open b);
     if \<not> transport_config_valid config then Some (ERR_INVALID, b, w)
     else do {
       vres \<leftarrow> validate_tls_init_config (tcf_tls config);
       if vres \<noteq> OK then Some (vres, b, w)
       else do {
         let b = b\<lparr> ts_cfg := config, ts_is_server := tcf_is_server config, ts_tls_enabled := tc_tls_enabled (tcf_tls config),
           ts_local_node_id := NODE_ID_INVALID, ts_client_node_ids := map (\<lambda>_. NODE_ID_INVALID) (ts_client_node_ids b),
           ts_client_hello_received := map (\<lambda>_. False) (ts_client_hello_received b),
           ts_client_slot_active := map (\<lambda>_. False) (ts_client_slot_active b) \<rparr>;
         q \<leftarrow> RingBuffer_init (ts_recv_queue b);
         imp \<leftarrow> ImpairmentEngine_init (ts_impairment_engine b) (first_impairment config) entropy;
         let b = b\<lparr> ts_recv_queue := q, ts_impairment_engine := imp \<rparr>;
         (res, b, w) \<leftarrow> (if ts_tls_enabled b then TlsTcpBackend_setup_tls_config M b w (tcf_tls config) else Some (OK, b, w));
         if res \<noteq> OK then Some (res, b, w)
         else do {
           (res, b, w) \<leftarrow> (if ts_is_server b then TlsTcpBackend_bind_and_listen M b w (tcf_bind_ip config) (tcf_bind_port config)
             else TlsTcpBackend_connect_to_server M b w);
           if res \<noteq> OK then Some (res, b, w)
           else do {
             nc_assert (ts_open b);
             Some (OK, b, w)
           }
         }
       }
     }
   }"

section \<open>Connections\<close>

definition TlsTcpBackend_do_tls_server_handshake :: "'w mbedtls \<Rightarrow> tls_backend \<Rightarrow> 'w \<Rightarrow> nat \<Rightarrow> (Result \<times> tls_backend \<times> 'w) option" where
  "TlsTcpBackend_do_tls_server_handshake M b w slot = do {
     nc_assert (slot < MAX_TCP_CONNECTIONS);
     nc_assert (ts_tls_enabled b);
     (ret, w) \<leftarrow> MbedtlsOpsImpl_net_set_block M w (ts_client_fd b ! slot);
     if ret \<noteq> 0 then do { let (b, w) = free_net M b w slot; Some (ERR_IO, b, w) }
     else do {
       let (ret, w) = mb_ssl_setup M w slot;
       if ret \<noteq> 0 then do { let (b, w) = free_net M b w slot; Some (ERR_IO, b, w) }
       else do {
         let w = mb_ssl_call M w slot (Set_bio (ts_client_fd b ! slot));
         let (hs_ret, w) = TlsTcpBackend_run_tls_handshake_loop M slot w;
         if hs_ret \<noteq> 0 then do { let (b, w) = free_net M b (reset_ssl M w slot) slot; Some (ERR_IO, b, w) }
         else do {
           (ret, w) \<leftarrow> MbedtlsOpsImpl_net_set_nonblock M w (ts_client_fd b ! slot);
           Some (OK, b, w)
         }
       }
     }
   }"

definition TlsTcpBackend_accept_and_handshake :: "'w posix \<Rightarrow> 'w mbedtls \<Rightarrow> tls_backend \<Rightarrow> 'w \<Rightarrow> (Result \<times> tls_backend \<times> 'w) option" where
  "TlsTcpBackend_accept_and_handshake X M b w = do {
     nc_assert (ts_is_server b);
     nc_assert (ts_listen_fd b \<ge> 0);
     if ts_client_count b \<ge> MAX_TCP_CONNECTIONS then Some (OK, b, w)
     else case first_idx (\<lambda>active. \<not> active) (ts_client_slot_active b) of
       None \<Rightarrow> Some (OK, b, w)
     | Some slot \<Rightarrow> do {
         let ((ret, fd), w) = mb_net_accept M w (ts_listen_fd b);
         let b = b\<lparr> ts_client_fd := (ts_client_fd b)[slot := fd] \<rparr>;
         if ret \<noteq> 0 then Some (OK, b, w)
         else do {
           (hs_r, b, w) \<leftarrow> (if ts_tls_enabled b then TlsTcpBackend_do_tls_server_handshake M b w slot else Some (OK, b, w));
           if hs_r \<noteq> OK then Some (hs_r, b, w)
           else do {
             (now_us, w) \<leftarrow> read_clock X w;
             let b = b\<lparr> ts_client_slot_active := (ts_client_slot_active b)[slot := True],
               ts_client_hello_received := (ts_client_hello_received b)[slot := False],
               ts_client_accept_ts := (ts_client_accept_ts b)[slot := now_us], ts_client_count := ts_client_count b + 1,
               ts_connections_opened := ts_connections_opened b + 1 \<rparr>;
             nc_assert (ts_client_count b \<le> MAX_TCP_CONNECTIONS);
             Some (OK, b, w)
           }
         }
       }
   }"

definition TlsTcpBackend_remove_client :: "'w mbedtls \<Rightarrow> tls_backend \<Rightarrow> 'w \<Rightarrow> nat \<Rightarrow> (tls_backend \<times> 'w) option" where
  "TlsTcpBackend_remove_client M b w idx = do {
     nc_assert (idx < MAX_TCP_CONNECTIONS);
     nc_assert (ts_client_count b > 0);
     let w = (if ts_tls_enabled b then reset_ssl M (mb_ssl_call M w idx Close_notify) idx else w);
     let (b, w) = free_net M b w idx;
     let b = b\<lparr> ts_client_slot_active := (ts_client_slot_active b)[idx := False],
       ts_client_node_ids := (ts_client_node_ids b)[idx := NODE_ID_INVALID],
       ts_client_hello_received := (ts_client_hello_received b)[idx := False],
       ts_client_accept_ts := (ts_client_accept_ts b)[idx := 0], ts_client_count := ts_client_count b - 1,
       ts_connections_closed := ts_connections_closed b + 1 \<rparr>;
     nc_assert (ts_client_count b \<le> MAX_TCP_CONNECTIONS);
     Some (b, w)
   }"

definition sweep_slot :: "'w mbedtls \<Rightarrow> u64 \<Rightarrow> u64 \<Rightarrow> nat \<Rightarrow> tls_backend \<times> 'w \<Rightarrow> (tls_backend \<times> 'w) option" where
  "sweep_slot M now_us timeout_us i = (\<lambda>(b, w).
     if \<not> ts_client_slot_active b ! i then Some (b, w)
     else if ts_client_hello_received b ! i then Some (b, w)
     else if ts_client_accept_ts b ! i = 0 then Some (b, w)
     else if now_us - ts_client_accept_ts b ! i > timeout_us then TlsTcpBackend_remove_client M b w i
     else Some (b, w))"

definition TlsTcpBackend_sweep_hello_timeouts :: "'w posix \<Rightarrow> 'w mbedtls \<Rightarrow> tls_backend \<Rightarrow> 'w \<Rightarrow> (tls_backend \<times> 'w) option" where
  "TlsTcpBackend_sweep_hello_timeouts X M b w = do {
     nc_assert (ts_is_server b);
     nc_assert (ts_client_count b \<le> MAX_TCP_CONNECTIONS);
     (now_us, w) \<leftarrow> read_clock X w;
     let timeout_us = ucast (cc_recv_timeout_ms (tcf_channels (ts_cfg b) ! 0)) * 1000;
     for_each (sweep_slot M now_us timeout_us) [0..<MAX_TCP_CONNECTIONS] (b, w)
   }"

section \<open>HELLO frames and addresses\<close>

definition TlsTcpBackend_handle_hello_frame :: "'w mbedtls \<Rightarrow> tls_backend \<Rightarrow> 'w \<Rightarrow> nat \<Rightarrow> NodeId \<Rightarrow> (tls_backend \<times> 'w) option" where
  "TlsTcpBackend_handle_hello_frame M b w idx src_id = do {
     nc_assert (idx < MAX_TCP_CONNECTIONS);
     nc_assert (src_id \<noteq> NODE_ID_INVALID);
     if list_ex (\<lambda>i. i \<noteq> idx \<and> ts_client_slot_active b ! i \<and> ts_client_node_ids b ! i = src_id) [0..<MAX_TCP_CONNECTIONS]
     then TlsTcpBackend_remove_client M b w idx
     else do {
       let b = b\<lparr> ts_client_node_ids := (ts_client_node_ids b)[idx := src_id] \<rparr>;
       let next_write = (ts_hello_queue_write b + 1) mod MAX_TCP_CONNECTIONS;
       Some (if next_write \<noteq> ts_hello_queue_read b
         then b\<lparr> ts_hello_queue := (ts_hello_queue b)[ts_hello_queue_write b := src_id], ts_hello_queue_write := next_write \<rparr>
         else b, w)
     }
   }"

definition TlsTcpBackend_pop_hello_peer :: "tls_backend \<Rightarrow> (NodeId \<times> tls_backend) option" where
  "TlsTcpBackend_pop_hello_peer b = do {
     nc_assert (ts_hello_queue_read b < MAX_TCP_CONNECTIONS);
     nc_assert (ts_hello_queue_write b < MAX_TCP_CONNECTIONS);
     if ts_hello_queue_read b = ts_hello_queue_write b then Some (NODE_ID_INVALID, b)
     else Some (ts_hello_queue b ! ts_hello_queue_read b,
       b\<lparr> ts_hello_queue_read := (ts_hello_queue_read b + 1) mod MAX_TCP_CONNECTIONS \<rparr>)
   }"

definition TlsTcpBackend_validate_source_id :: "tls_backend \<Rightarrow> nat \<Rightarrow> NodeId \<Rightarrow> bool option" where
  "TlsTcpBackend_validate_source_id b slot claimed_id = do {
     nc_assert (slot < MAX_TCP_CONNECTIONS);
     let registered = ts_client_node_ids b ! slot;
     if registered = NODE_ID_INVALID then Some True
     else if claimed_id \<noteq> registered then Some False
     else do {
       nc_assert (claimed_id = registered);
       Some True
     }
   }"

definition TlsTcpBackend_find_client_slot :: "tls_backend \<Rightarrow> NodeId \<Rightarrow> nat option option" where
  "TlsTcpBackend_find_client_slot b dst = do {
     nc_assert (dst \<noteq> NODE_ID_INVALID);
     nc_assert (ts_client_count b \<le> MAX_TCP_CONNECTIONS);
     Some (first_idx (\<lambda>i. ts_client_slot_active b ! i \<and> ts_client_node_ids b ! i = dst) [0..<MAX_TCP_CONNECTIONS])
   }"

section \<open>Frames\<close>

text \<open>At most \<open>n\<close> more writes; \<open>sent\<close> bytes are out.\<close>

primrec tls_write_loop :: "'w mbedtls \<Rightarrow> nat \<Rightarrow> u8 list \<Rightarrow> u32 \<Rightarrow> nat \<Rightarrow> u32 \<Rightarrow> 'w \<Rightarrow> (bool \<times> 'w) option" where
  "tls_write_loop M idx buf len 0 sent w =
     (if sent \<noteq> len then Some (False, w) else do { nc_assert (sent = len); Some (True, w) })"
| "tls_write_loop M idx buf len (Suc n) sent w =
     (if sent < len then
        let (ret, w) = mb_ssl_write M w idx (take (unat (len - sent)) (drop (unat sent) buf)) in
        if ret > 0 then tls_write_loop M idx buf len n (sent + of_int ret) w
        else if ret = mb_ERR_SSL_WANT_WRITE M then tls_write_loop M idx buf len n sent w
        else Some (False, w)
      else if sent \<noteq> len then Some (False, w) else do { nc_assert (sent = len); Some (True, w) })"

definition TlsTcpBackend_tls_write_all :: "'w mbedtls \<Rightarrow> 'w \<Rightarrow> nat \<Rightarrow> u8 list \<Rightarrow> u32 \<Rightarrow> (bool \<times> 'w) option" where
  "TlsTcpBackend_tls_write_all M w idx buf len = do {
     nc_assert (len > 0);
     tls_write_loop M idx buf len (unat len) 0 w
   }"

definition TlsTcpBackend_tls_send_frame ::
    "'w socket_ops \<Rightarrow> 'w mbedtls \<Rightarrow> tls_backend \<Rightarrow> 'w \<Rightarrow> nat \<Rightarrow> u8 list \<Rightarrow> u32 \<Rightarrow> u32 \<Rightarrow> (bool \<times> 'w) option" where
  "TlsTcpBackend_tls_send_frame S M b w idx buf len timeout_ms = do {
     nc_assert (len > 0);
     if ts_tls_enabled b then do {
       (ok, w) \<leftarrow> TlsTcpBackend_tls_write_all M w idx (length_header len) 4;
       if \<not> ok then Some (False, w)
       else TlsTcpBackend_tls_write_all M w idx buf len
     }
     else so_send_frame S w (ts_client_fd b ! idx) buf len timeout_ms
   }"

text \<open>The reading loop of the header and of the payload: at most \<open>n\<close> more reads, \<open>received\<close> bytes of \<open>len\<close> are in \<open>buf\<close>. When the
  library asks to wait, the socket is polled first.\<close>

primrec tls_read_loop :: "'w mbedtls \<Rightarrow> nat \<Rightarrow> int \<Rightarrow> u32 \<Rightarrow> u32 \<Rightarrow> nat \<Rightarrow> u8 list \<Rightarrow> u32 \<Rightarrow> 'w \<Rightarrow> (bool \<times> u8 list \<times> 'w) option" where
  "tls_read_loop M idx fd len timeout_ms 0 buf received w = Some (received = len, buf, w)"
| "tls_read_loop M idx fd len timeout_ms (Suc n) buf received w =
     (if received < len then
        let ((ret, bytes), w) = mb_ssl_read M w idx (unat (len - received)) in
        if ret > 0 then tls_read_loop M idx fd len timeout_ms n (blit buf (unat received) bytes) (received + of_int ret) w
        else if ret = mb_ERR_SSL_WANT_READ M then do {
          (poll_r, w) \<leftarrow> MbedtlsOpsImpl_net_poll M w fd timeout_ms;
          if poll_r \<le> 0 then Some (False, buf, w)
          else tls_read_loop M idx fd len timeout_ms n buf received w
        }
        else Some (False, buf, w)
      else Some (received = len, buf, w))"

definition TlsTcpBackend_tls_read_payload ::
    "'w mbedtls \<Rightarrow> tls_backend \<Rightarrow> 'w \<Rightarrow> nat \<Rightarrow> u8 list \<Rightarrow> u32 \<Rightarrow> u32 \<Rightarrow> (bool \<times> u8 list \<times> u32 \<times> 'w) option" where
  "TlsTcpBackend_tls_read_payload M b w idx buf payload_len timeout_ms = do {
     nc_assert (payload_len > 0 \<and> payload_len \<le> SOCKET_RECV_BUF_BYTES);
     (ok, buf, w) \<leftarrow> tls_read_loop M idx (ts_client_fd b ! idx) payload_len timeout_ms (unat payload_len) buf 0 w;
     if \<not> ok then Some (False, buf, 0, w)
     else do {
       nc_assert (payload_len > 0);
       Some (True, buf, payload_len, w)
     }
   }"

definition TlsTcpBackend_read_tls_header :: "'w mbedtls \<Rightarrow> tls_backend \<Rightarrow> 'w \<Rightarrow> nat \<Rightarrow> u32 \<Rightarrow> (bool \<times> u8 list \<times> 'w) option" where
  "TlsTcpBackend_read_tls_header M b w idx timeout_ms = do {
     nc_assert (idx < MAX_TCP_CONNECTIONS);
     tls_read_loop M idx (ts_client_fd b ! idx) 4 timeout_ms 8 [0, 0, 0, 0] 0 w
   }"

definition TlsTcpBackend_tls_recv_frame ::
    "'w socket_ops \<Rightarrow> 'w mbedtls \<Rightarrow> tls_backend \<Rightarrow> 'w \<Rightarrow> nat \<Rightarrow> u8 list \<Rightarrow> u32 \<Rightarrow> u32 \<Rightarrow> (bool \<times> u8 list \<times> u32 \<times> 'w) option" where
  "TlsTcpBackend_tls_recv_frame S M b w idx buf buf_cap timeout_ms =
     (if \<not> ts_tls_enabled b then so_recv_frame S w (ts_client_fd b ! idx) buf buf_cap timeout_ms 0
      else do {
        (ok, hdr, w) \<leftarrow> TlsTcpBackend_read_tls_header M b w idx timeout_ms;
        if \<not> ok then Some (False, buf, 0, w)
        else do {
          let payload_len = parse_length hdr;
          if payload_len = 0 \<or> payload_len > buf_cap then Some (False, buf, 0, w)
          else TlsTcpBackend_tls_read_payload M b w idx buf payload_len timeout_ms
        }
      })"

section \<open>Sending\<close>

definition TlsTcpBackend_send_hello_frame ::
    "'w socket_ops \<Rightarrow> 'w mbedtls \<Rightarrow> tls_backend \<Rightarrow> 'w \<Rightarrow> (Result \<times> tls_backend \<times> 'w) option" where
  "TlsTcpBackend_send_hello_frame S M b w = do {
     nc_assert (ts_local_node_id b \<noteq> NODE_ID_INVALID);
     nc_assert (\<not> ts_is_server b);
     let hello = envelope_init\<lparr> message_type := HELLO, source_id := ts_local_node_id b, destination_id := NODE_ID_INVALID,
       payload_length := 0 \<rparr>;
     (ser_r, buf, wire_len) \<leftarrow> serialize hello (ts_wire_buf b) SOCKET_RECV_BUF_BYTES 0;
     let b = b\<lparr> ts_wire_buf := buf \<rparr>;
     if ser_r \<noteq> OK then Some (ser_r, b, w)
     else do {
       (sent_ok, w) \<leftarrow> TlsTcpBackend_tls_send_frame S M b w 0 (ts_wire_buf b) wire_len (send_timeout b);
       Some (if sent_ok then OK else ERR_IO, b, w)
     }
   }"

definition TlsTcpBackend_register_local_id ::
    "'w socket_ops \<Rightarrow> 'w mbedtls \<Rightarrow> tls_backend \<Rightarrow> 'w \<Rightarrow> NodeId \<Rightarrow> (Result \<times> tls_backend \<times> 'w) option" where
  "TlsTcpBackend_register_local_id S M b w n = do {
     nc_assert (n \<noteq> NODE_ID_INVALID);
     nc_assert (ts_open b);
     let b = b\<lparr> ts_local_node_id := n \<rparr>;
     if \<not> ts_is_server b then TlsTcpBackend_send_hello_frame S M b w else Some (OK, b, w)
   }"

definition TlsTcpBackend_send_to_slot ::
    "'w socket_ops \<Rightarrow> 'w mbedtls \<Rightarrow> tls_backend \<Rightarrow> 'w \<Rightarrow> nat \<Rightarrow> u8 list \<Rightarrow> u32 \<Rightarrow> (bool \<times> 'w) option" where
  "TlsTcpBackend_send_to_slot S M b w slot buf len = do {
     nc_assert (slot < MAX_TCP_CONNECTIONS);
     nc_assert (ts_client_slot_active b ! slot);
     (ok, w) \<leftarrow> TlsTcpBackend_tls_send_frame S M b w slot buf len (send_timeout b);
     Some (\<not> ok, w)
   }"

definition tls_send_to_client :: "'w socket_ops \<Rightarrow> 'w mbedtls \<Rightarrow> tls_backend \<Rightarrow> u8 list \<Rightarrow> u32 \<Rightarrow> nat \<Rightarrow> bool \<times> 'w \<Rightarrow> (bool \<times> 'w) option" where
  "tls_send_to_client S M b buf len i = (\<lambda>(any_failed, w).
     if \<not> ts_client_slot_active b ! i then Some (any_failed, w)
     else do {
       (ok, w) \<leftarrow> TlsTcpBackend_tls_send_frame S M b w i buf len (send_timeout b);
       Some (if \<not> ok then True else any_failed, w)
     })"

definition TlsTcpBackend_send_to_all_clients ::
    "'w socket_ops \<Rightarrow> 'w mbedtls \<Rightarrow> tls_backend \<Rightarrow> 'w \<Rightarrow> u8 list \<Rightarrow> u32 \<Rightarrow> (bool \<times> 'w) option" where
  "TlsTcpBackend_send_to_all_clients S M b w buf len = do {
     nc_assert (len > 0);
     for_each (tls_send_to_client S M b buf len) [0..<MAX_TCP_CONNECTIONS] (False, w)
   }"

definition TlsTcpBackend_unicast_serialized ::
    "'w socket_ops \<Rightarrow> 'w mbedtls \<Rightarrow> tls_backend \<Rightarrow> 'w \<Rightarrow> NodeId \<Rightarrow> u8 list \<Rightarrow> u32 \<Rightarrow> (Result \<times> 'w) option" where
  "TlsTcpBackend_unicast_serialized S M b w dst buf len = do {
     nc_assert (dst \<noteq> NODE_ID_INVALID);
     slot \<leftarrow> TlsTcpBackend_find_client_slot b dst;
     case slot of None \<Rightarrow> Some (ERR_INVALID, w)
     | Some i \<Rightarrow> do {
         (failed, w) \<leftarrow> TlsTcpBackend_send_to_slot S M b w i buf len;
         Some (if failed then ERR_IO else OK, w)
       }
   }"

definition TlsTcpBackend_route_one_delayed ::
    "'w socket_ops \<Rightarrow> 'w mbedtls \<Rightarrow> tls_backend \<Rightarrow> 'w \<Rightarrow> envelope \<Rightarrow> bool \<Rightarrow> (Result \<times> tls_backend \<times> 'w) option" where
  "TlsTcpBackend_route_one_delayed S M b w env is_current = do {
     nc_assert (ts_open b);
     nc_assert (ts_client_count b \<le> MAX_TCP_CONNECTIONS);
     (ser_r, buf, delayed_len) \<leftarrow> serialize env (ts_wire_buf b) SOCKET_RECV_BUF_BYTES 0;
     let b = b\<lparr> ts_wire_buf := buf \<rparr>;
     if ser_r \<noteq> OK then Some (if \<not> is_current then OK else ERR_IO, b, w)
     else do {
       (send_r, w) \<leftarrow> (if \<not> ts_is_server b \<or> destination_id env = NODE_ID_INVALID then do {
           (failed, w) \<leftarrow> TlsTcpBackend_send_to_all_clients S M b w (ts_wire_buf b) delayed_len;
           Some (if failed then ERR_IO else OK, w)
         }
         else TlsTcpBackend_unicast_serialized S M b w (destination_id env) (ts_wire_buf b) delayed_len);
       Some (if send_r \<noteq> OK \<and> \<not> is_current then OK else send_r, b, w)
     }
   }"

definition tls_flush_item :: "'w socket_ops \<Rightarrow> 'w mbedtls \<Rightarrow> envelope \<Rightarrow> envelope \<Rightarrow> Result \<times> tls_backend \<times> 'w \<Rightarrow>
    (Result \<times> tls_backend \<times> 'w) option" where
  "tls_flush_item S M current_env m = (\<lambda>(final_result, b, w). do {
     let is_current = (source_id m = source_id current_env \<and> message_id m = message_id current_env);
     (r, b, w) \<leftarrow> TlsTcpBackend_route_one_delayed S M b w m is_current;
     Some (if r \<noteq> OK \<and> is_current then r else final_result, b, w)
   })"

definition TlsTcpBackend_flush_delayed_to_clients ::
    "'w socket_ops \<Rightarrow> 'w mbedtls \<Rightarrow> tls_backend \<Rightarrow> 'w \<Rightarrow> envelope \<Rightarrow> u64 \<Rightarrow> (Result \<times> tls_backend \<times> 'w) option" where
  "TlsTcpBackend_flush_delayed_to_clients S M b w current_env now_us = do {
     nc_assert (now_us > 0);
     nc_assert (ts_open b);
     (n, dbuf, imp) \<leftarrow> ImpairmentEngine_collect_deliverable (ts_impairment_engine b) now_us (ts_delay_buf b) IMPAIR_DELAY_BUF_SIZE;
     let b = b\<lparr> ts_impairment_engine := imp, ts_delay_buf := dbuf \<rparr>;
     for_each (tls_flush_item S M current_env) (take n dbuf) (OK, b, w)
   }"

definition TlsTcpBackend_send_message ::
    "'w socket_ops \<Rightarrow> 'w posix \<Rightarrow> 'w mbedtls \<Rightarrow> tls_backend \<Rightarrow> 'w \<Rightarrow> envelope \<Rightarrow> (Result \<times> tls_backend \<times> 'w) option" where
  "TlsTcpBackend_send_message S X M b w envelope = do {
     nc_assert (ts_open b);
     nc_assert (envelope_valid envelope);
     (res, buf, wire_len) \<leftarrow> serialize envelope (ts_wire_buf b) SOCKET_RECV_BUF_BYTES 0;
     let b = b\<lparr> ts_wire_buf := buf \<rparr>;
     if res \<noteq> OK then Some (res, b, w)
     else do {
       (now_us, w) \<leftarrow> read_clock X w;
       (res, imp) \<leftarrow> ImpairmentEngine_process_outbound (ts_impairment_engine b) envelope now_us;
       let b = b\<lparr> ts_impairment_engine := imp \<rparr>;
       if res = ERR_IO then Some (OK, b, w)
       else if res \<noteq> OK then Some (res, b, w)
       else if ts_client_count b = 0 then Some (OK, b, w)
       else do {
         (res, b, w) \<leftarrow> TlsTcpBackend_flush_delayed_to_clients S M b w envelope now_us;
         nc_assert (wire_len > 0);
         Some (res, b, w)
       }
     }
   }"

section \<open>Receiving\<close>

definition TlsTcpBackend_apply_inbound_impairment :: "tls_backend \<Rightarrow> envelope \<Rightarrow> u64 \<Rightarrow> (bool \<times> tls_backend) option" where
  "TlsTcpBackend_apply_inbound_impairment b env now_us = do {
     nc_assert (envelope_valid env);
     nc_assert (now_us > 0);
     (active, imp) \<leftarrow> ImpairmentEngine_is_partition_active (ts_impairment_engine b) now_us;
     let b = b\<lparr> ts_impairment_engine := imp \<rparr>;
     if active then Some (False, b)
     else do {
       (res, inbound_out, inbound_count, imp) \<leftarrow>
         ImpairmentEngine_process_inbound (ts_impairment_engine b) env now_us [envelope_zero] 1;
       let b = b\<lparr> ts_impairment_engine := imp \<rparr>;
       if res \<noteq> OK then Some (False, b)
       else if inbound_count = 0 then Some (False, b)
       else do {
         (res, q) \<leftarrow> RingBuffer_push (ts_recv_queue b) (inbound_out ! 0);
         let b = b\<lparr> ts_recv_queue := q \<rparr>;
         nc_assert (inbound_count = 1);
         Some (res = OK, b)
       }
     }
   }"

definition TlsTcpBackend_classify_inbound_frame ::
    "'w mbedtls \<Rightarrow> tls_backend \<Rightarrow> 'w \<Rightarrow> nat \<Rightarrow> envelope \<Rightarrow> (Result \<times> tls_backend \<times> 'w) option" where
  "TlsTcpBackend_classify_inbound_frame M b w idx env = do {
     nc_assert (idx < MAX_TCP_CONNECTIONS);
     nc_assert (ts_client_slot_active b ! idx);
     if message_type env = HELLO then
       if ts_is_server b then
         if ts_client_hello_received b ! idx then do {
           (b, w) \<leftarrow> TlsTcpBackend_remove_client M b w idx;
           Some (ERR_INVALID, b, w)
         }
         else do {
           let b = b\<lparr> ts_client_hello_received := (ts_client_hello_received b)[idx := True] \<rparr>;
           (b, w) \<leftarrow> TlsTcpBackend_handle_hello_frame M b w idx (source_id env);
           Some (ERR_AGAIN, b, w)
         }
       else Some (ERR_AGAIN, b, w)
     else if ts_is_server b \<and> \<not> ts_client_hello_received b ! idx then Some (ERR_INVALID, b, w)
     else Some (OK, b, w)
   }"

text \<open>A data frame that passed the classification.\<close>

definition tls_accept_frame :: "'w posix \<Rightarrow> tls_backend \<Rightarrow> 'w \<Rightarrow> nat \<Rightarrow> u32 \<Rightarrow> envelope \<Rightarrow> (Result \<times> tls_backend \<times> 'w) option" where
  "tls_accept_frame X b w idx out_len env = do {
     source_ok \<leftarrow> TlsTcpBackend_validate_source_id b idx (source_id env);
     if \<not> source_ok then Some (ERR_INVALID, b, w)
     else do {
       let b = (if \<not> ts_is_server b \<and> ts_client_node_ids b ! 0 = NODE_ID_INVALID \<and> source_id env \<noteq> NODE_ID_INVALID
         then b\<lparr> ts_client_node_ids := (ts_client_node_ids b)[0 := source_id env] \<rparr> else b);
       (now_us, w) \<leftarrow> read_clock X w;
       (_, b) \<leftarrow> TlsTcpBackend_apply_inbound_impairment b env now_us;
       nc_assert (out_len \<le> SOCKET_RECV_BUF_BYTES);
       Some (OK, b, w)
     }
   }"

definition TlsTcpBackend_recv_from_client ::
    "'w socket_ops \<Rightarrow> 'w posix \<Rightarrow> 'w mbedtls \<Rightarrow> tls_backend \<Rightarrow> 'w \<Rightarrow> nat \<Rightarrow> u32 \<Rightarrow> (Result \<times> tls_backend \<times> 'w) option" where
  "TlsTcpBackend_recv_from_client S X M b w idx timeout_ms = do {
     nc_assert (idx < MAX_TCP_CONNECTIONS);
     nc_assert (ts_open b);
     (ok, buf, out_len, w) \<leftarrow> TlsTcpBackend_tls_recv_frame S M b w idx (ts_wire_buf b) SOCKET_RECV_BUF_BYTES timeout_ms;
     let b = b\<lparr> ts_wire_buf := buf \<rparr>;
     if \<not> ok then do {
       (b, w) \<leftarrow> TlsTcpBackend_remove_client M b w idx;
       Some (ERR_IO, b, w)
     }
     else do {
       (res, env) \<leftarrow> deserialize (ts_wire_buf b) out_len envelope_zero;
       if res \<noteq> OK then Some (res, b, w)
       else do {
         (classify_r, b, w) \<leftarrow> TlsTcpBackend_classify_inbound_frame M b w idx env;
         if classify_r \<noteq> OK then Some (classify_r, b, w)
         else tls_accept_frame X b w idx out_len env
       }
     }
   }"

text \<open>The slots to watch and what \<open>poll\<close> reported for each.\<close>

definition TlsTcpBackend_build_poll_fds :: "'w posix \<Rightarrow> tls_backend \<Rightarrow> 'w \<Rightarrow> u32 \<Rightarrow> ((nat \<times> u16) list \<times> 'w) option" where
  "TlsTcpBackend_build_poll_fds X b w timeout_ms = do {
     let slot_of = filter (\<lambda>j. ts_client_slot_active b ! j) [0..<MAX_TCP_CONNECTIONS];
     let (revents, w) = (if slot_of \<noteq> []
       then let ((_, revents), w) = px_poll X w (map (\<lambda>j. (ts_client_fd b ! j, POLLIN)) slot_of) (clamped_ms timeout_ms) in (revents, w)
       else ([], w));
     nc_assert (length slot_of \<le> MAX_TCP_CONNECTIONS);
     Some (zip slot_of revents, w)
   }"

definition poll_slot :: "'w socket_ops \<Rightarrow> 'w posix \<Rightarrow> 'w mbedtls \<Rightarrow> u32 \<Rightarrow> nat \<times> u16 \<Rightarrow> tls_backend \<times> 'w \<Rightarrow> (tls_backend \<times> 'w) option" where
  "poll_slot S X M timeout_ms = (\<lambda>(slot, revents) (b, w). do {
     let has_data = (ts_tls_enabled b \<and> mb_ssl_get_bytes_avail M w slot > 0);
     let has_data = (has_data \<or> revents AND POLLIN \<noteq> 0);
     if \<not> has_data then Some (b, w)
     else do {
       (_, b, w) \<leftarrow> TlsTcpBackend_recv_from_client S X M b w slot timeout_ms;
       Some (b, w)
     }
   })"

definition TlsTcpBackend_poll_clients_once ::
    "'w socket_ops \<Rightarrow> 'w posix \<Rightarrow> 'w mbedtls \<Rightarrow> tls_backend \<Rightarrow> 'w \<Rightarrow> u32 \<Rightarrow> (tls_backend \<times> 'w) option" where
  "TlsTcpBackend_poll_clients_once S X M b w timeout_ms = do {
     nc_assert (ts_open b);
     nc_assert (timeout_ms \<le> 60000);
     (b, w) \<leftarrow> (if ts_is_server b then do {
         (b, w) \<leftarrow> TlsTcpBackend_sweep_hello_timeouts X M b w;
         let w = (if ts_client_count b = 0 then snd (mb_net_poll M w (ts_listen_fd b) timeout_ms) else w);
         (_, b, w) \<leftarrow> TlsTcpBackend_accept_and_handshake X M b w;
         Some (b, w)
       } else Some (b, w));
     (pfds, w) \<leftarrow> TlsTcpBackend_build_poll_fds X b w timeout_ms;
     for_each (poll_slot S X M timeout_ms) (rev pfds) (b, w)
   }"

primrec tls_receive_attempts :: "'w socket_ops \<Rightarrow> 'w posix \<Rightarrow> 'w mbedtls \<Rightarrow> nat \<Rightarrow> tls_backend \<Rightarrow> 'w \<Rightarrow> envelope \<Rightarrow>
    (Result \<times> envelope \<times> tls_backend \<times> 'w) option" where
  "tls_receive_attempts S X M 0 b w envelope = Some (ERR_TIMEOUT, envelope, b, w)"
| "tls_receive_attempts S X M (Suc n) b w envelope = do {
     (b, w) \<leftarrow> TlsTcpBackend_poll_clients_once S X M b w 100;
     (res, envelope, q) \<leftarrow> RingBuffer_pop (ts_recv_queue b) envelope;
     let b = b\<lparr> ts_recv_queue := q \<rparr>;
     if res = OK then Some (res, envelope, b, w)
     else do {
       (now_us, w) \<leftarrow> read_clock X w;
       (_, b, w) \<leftarrow> TlsTcpBackend_flush_delayed_to_clients S M b w envelope_zero now_us;
       (res, envelope, q) \<leftarrow> RingBuffer_pop (ts_recv_queue b) envelope;
       let b = b\<lparr> ts_recv_queue := q \<rparr>;
       if res = OK then Some (res, envelope, b, w)
       else tls_receive_attempts S X M n b w envelope
     }
   }"

definition TlsTcpBackend_receive_message :: "'w socket_ops \<Rightarrow> 'w posix \<Rightarrow> 'w mbedtls \<Rightarrow> tls_backend \<Rightarrow> 'w \<Rightarrow> envelope \<Rightarrow> u32 \<Rightarrow>
    (Result \<times> envelope \<times> tls_backend \<times> 'w) option" where
  "TlsTcpBackend_receive_message S X M b w envelope timeout_ms = do {
     nc_assert (ts_open b);
     (res, envelope, q) \<leftarrow> RingBuffer_pop (ts_recv_queue b) envelope;
     let b = b\<lparr> ts_recv_queue := q \<rparr>;
     if res = OK then Some (res, envelope, b, w)
     else do {
       nc_assert (poll_count timeout_ms \<le> 50);
       tls_receive_attempts S X M (unat (poll_count timeout_ms)) b w envelope
     }
   }"

section \<open>Closing and statistics\<close>

definition log_live_session_material_warning :: "session_store option \<Rightarrow> bool option" where
  "log_live_session_material_warning store_ptr = do {
     let session_was_valid = (case store_ptr of None \<Rightarrow> False | Some st \<Rightarrow> ss_session_valid st);
     nc_assert (\<not> session_was_valid \<or> store_ptr \<noteq> None);
     Some session_was_valid
   }"

definition close_session :: "'w mbedtls \<Rightarrow> tls_backend \<Rightarrow> nat \<Rightarrow> 'w \<Rightarrow> 'w option" where
  "close_session M b i w = (if \<not> ts_client_slot_active b ! i then Some w
     else Some (reset_ssl M (mb_ssl_call M w i Close_notify) i))"

definition close_slot :: "'w mbedtls \<Rightarrow> nat \<Rightarrow> tls_backend \<times> 'w \<Rightarrow> (tls_backend \<times> 'w) option" where
  "close_slot M i = (\<lambda>(b, w). let (b, w) = free_net M b w i in
     Some (b\<lparr> ts_client_slot_active := (ts_client_slot_active b)[i := False],
       ts_client_hello_received := (ts_client_hello_received b)[i := False] \<rparr>, w))"

definition TlsTcpBackend_close :: "'w mbedtls \<Rightarrow> tls_backend \<Rightarrow> 'w \<Rightarrow> (tls_backend \<times> 'w) option" where
  "TlsTcpBackend_close M b w =
     (if \<not> ts_open b then Some (b, w)
      else do {
        let b = b\<lparr> ts_open := False \<rparr>;
        nc_assert (ts_client_count b \<le> MAX_TCP_CONNECTIONS);
        w \<leftarrow> (if ts_tls_enabled b then for_each (close_session M b) [0..<MAX_TCP_CONNECTIONS] w else Some w);
        (b, w) \<leftarrow> for_each (close_slot M) [0..<MAX_TCP_CONNECTIONS] (b, w);
        let w = mb_net_free M w (ts_listen_fd b);
        let w = mb_ssl_conf M w Ticket_free;
        let w = mb_ssl_conf M w Crl_free;
        let b = b\<lparr> ts_listen_fd := - 1, ts_crl_loaded := False,
          ts_connections_closed := ts_connections_closed b + of_nat (ts_client_count b), ts_client_count := 0 \<rparr>;
        session_warned \<leftarrow> log_live_session_material_warning (ts_session_store b);
        nc_assert (\<not> session_warned \<or> ts_tls_enabled b);
        let b = b\<lparr> ts_fs_warning_logged := False \<rparr>;
        nc_assert (\<not> ts_open b);
        nc_assert (ts_client_count b = 0);
        Some (b, w)
      })"

definition TlsTcpBackend_is_open :: "tls_backend \<Rightarrow> bool option" where
  "TlsTcpBackend_is_open b = do {
     nc_assert (ts_open b = (ts_listen_fd b \<ge> 0 \<or> ts_client_count b > 0) \<or> \<not> ts_open b);
     Some (ts_open b)
   }"

definition TlsTcpBackend_get_transport_stats :: "tls_backend \<Rightarrow> transport_stats option" where
  "TlsTcpBackend_get_transport_stats b = do {
     nc_assert (ts_connections_opened b \<ge> ts_connections_closed b);
     nc_assert (ts_connections_closed b \<le> ts_connections_opened b);
     imp \<leftarrow> ImpairmentEngine_get_stats (ts_impairment_engine b);
     Some \<lparr> connections_opened = ts_connections_opened b, connections_closed = ts_connections_closed b, ts_impairment = imp \<rparr>
   }"

text \<open>The backend as the transport of a delivery engine.\<close>

definition tls_transport :: "'w socket_ops \<Rightarrow> 'w posix \<Rightarrow> 'w mbedtls \<Rightarrow> (tls_backend \<times> 'w) transport" where
  "tls_transport S X M = \<lparr>
     tr_register_local_id = (\<lambda>(b, w) n. TlsTcpBackend_register_local_id S M b w n),
     tr_pop_hello_peer = (\<lambda>(b, w). do { (n, b) \<leftarrow> TlsTcpBackend_pop_hello_peer b; Some (n, b, w) }),
     tr_send_message = (\<lambda>(b, w) env. TlsTcpBackend_send_message S X M b w env),
     tr_receive_message = (\<lambda>(b, w) env ms. TlsTcpBackend_receive_message S X M b w env ms),
     tr_get_transport_stats = (\<lambda>(b, w) out. TlsTcpBackend_get_transport_stats b) \<rparr>"

end
