(* ===== verification/TlsBackendCorrect.thy ===== *)
theory TlsBackendCorrect
  imports TlsBackend DtlsBackendCorrect
begin

text \<open>
  The invariant of the TLS backend and its properties: no call aborts over an arbitrary network and an arbitrary TLS library, a
  frame is accepted only from the connection that registered its sender, no node is registered twice, and the cases in which
  the code does abort: a handshake that is still waiting after its last attempt, and calls of a client that lost its connection.
\<close>

section \<open>Invariant\<close>

text \<open>No node is registered on two connections.\<close>

definition unique_nodes :: "NodeId list \<Rightarrow> bool" where
  "unique_nodes ids \<longleftrightarrow> (\<forall>i < length ids. \<forall>j < length ids. ids ! i = ids ! j \<longrightarrow> ids ! i = 0 \<or> i = j)"

text \<open>The connection slots: an active slot holds a descriptor, a free one no registration, at a server the registered slots are
  those that received a HELLO, and no node is registered on two of them. A client uses slot 0.\<close>

definition slots_ok :: "tls_backend \<Rightarrow> bool" where
  "slots_ok b \<longleftrightarrow> length (ts_client_fd b) = 8 \<and> length (ts_client_slot_active b) = 8 \<and> length (ts_client_node_ids b) = 8 \<and>
     length (ts_client_hello_received b) = 8 \<and> length (ts_client_accept_ts b) = 8 \<and>
     ts_client_count b = card {i. i < 8 \<and> ts_client_slot_active b ! i} \<and>
     (\<forall>i < 8. if ts_client_slot_active b ! i then 0 \<le> ts_client_fd b ! i \<and> (ts_is_server b \<or> i = 0) else ts_client_node_ids b ! i = 0) \<and>
     (ts_is_server b \<longrightarrow> (\<forall>i < 8. ts_client_hello_received b ! i = (ts_client_node_ids b ! i \<noteq> 0))) \<and>
     unique_nodes (ts_client_node_ids b)"

definition tls_inv :: "tls_backend \<Rightarrow> bool" where
  "tls_inv b \<longleftrightarrow> ts_open b \<and> slots_ok b \<and> (ts_is_server b \<longrightarrow> 0 \<le> ts_listen_fd b) \<and> length (ts_wire_buf b) = 8192 \<and>
     link_ok msg_ok inbound_ok (ts_impairment_engine b) \<and> queue_holds inbound_ok (ts_recv_queue b) \<and> 32 \<le> length (ts_delay_buf b) \<and>
     length (ts_hello_queue b) = 8 \<and> ts_hello_queue_read b < 8 \<and> ts_hello_queue_write b < 8 \<and> (session_live b \<longrightarrow> ts_tls_enabled b)"

text \<open>A backend before \<open>init\<close> and after \<open>close\<close>.\<close>

definition tls_closed :: "tls_backend \<Rightarrow> bool" where
  "tls_closed b \<longleftrightarrow> \<not> ts_open b \<and> ts_client_count b = 0 \<and> length (ts_client_fd b) = 8 \<and> ts_client_fd b ! 0 < 0 \<and>
     length (ts_client_slot_active b) = 8 \<and> length (ts_client_node_ids b) = 8 \<and> length (ts_client_hello_received b) = 8 \<and>
     length (ts_client_accept_ts b) = 8 \<and> length (ts_wire_buf b) = 8192 \<and> length (rb_buf (ts_recv_queue b)) = 64 \<and>
     32 \<le> length (ts_delay_buf b) \<and> length (ts_hello_queue b) = 8 \<and> ts_hello_queue_read b < 8 \<and> ts_hello_queue_write b < 8"

text \<open>A configuration \<open>init\<close> can work with.\<close>

definition tls_config_ok :: "transport_config \<Rightarrow> u64 \<Rightarrow> bool" where
  "tls_config_ok config entropy \<longleftrightarrow> tcf_kind config = TCP \<and> imp_config_ok (first_impairment config) \<and>
     (ic_prng_seed (first_impairment config) \<noteq> 0 \<or> entropy \<noteq> 0) \<and> tls_path_valid (tc_ca_file (tcf_tls config)) \<and>
     (tc_tls_enabled (tcf_tls config) \<longrightarrow> path_given (tc_cert_file (tcf_tls config)) \<and> path_given (tc_key_file (tcf_tls config)) \<and>
        tls_path_valid (tc_crl_file (tcf_tls config)) \<and>
        (tc_session_resumption_enabled (tcf_tls config) \<longrightarrow> tc_session_ticket_lifetime_s (tcf_tls config) \<le> 604800))"

text \<open>The first connection's handshake is never still waiting after its last attempt.\<close>

definition handshake_ends :: "'w mbedtls \<Rightarrow> ('w \<Rightarrow> bool) \<Rightarrow> bool" where
  "handshake_ends M I \<longleftrightarrow> (\<forall>w. I w \<longrightarrow> fst (TlsTcpBackend_run_tls_handshake_loop M 0 w) \<noteq> mb_ERR_SSL_WANT_READ M \<and>
     fst (TlsTcpBackend_run_tls_handshake_loop M 0 w) \<noteq> mb_ERR_SSL_WANT_WRITE M)"

text \<open>The members that no operation on an open backend changes.\<close>

definition tls_same_role :: "tls_backend \<Rightarrow> tls_backend \<Rightarrow> bool" where
  "tls_same_role b b' \<longleftrightarrow> ts_is_server b' = ts_is_server b \<and> ts_tls_enabled b' = ts_tls_enabled b \<and> ts_listen_fd b' = ts_listen_fd b \<and>
     ts_cfg b' = ts_cfg b \<and> ts_session_store b' = ts_session_store b"

text \<open>The messages that wait for the engine.\<close>

definition tls_waiting :: "tls_backend \<Rightarrow> envelope set" where
  "tls_waiting b = set (rb_contents (ts_recv_queue b)) \<union> set (window (ts_impairment_engine b))"

text \<open>One slot apart, the connections are as before.\<close>

definition other_slots :: "nat \<Rightarrow> tls_backend \<Rightarrow> tls_backend \<Rightarrow> bool" where
  "other_slots idx b b' \<longleftrightarrow> (\<forall>j < 8. j \<noteq> idx \<longrightarrow> ts_client_slot_active b' ! j = ts_client_slot_active b ! j \<and>
     ts_client_fd b' ! j = ts_client_fd b ! j \<and> ts_client_node_ids b' ! j = ts_client_node_ids b ! j \<and>
     ts_client_hello_received b' ! j = ts_client_hello_received b ! j \<and> ts_client_accept_ts b' ! j = ts_client_accept_ts b ! j)"

text \<open>What one frame on slot \<open>idx\<close> may add: nothing, or a message of the node that is registered there; the first message a client
  accepts fixes the server's identifier.\<close>

definition tls_authentic_step :: "tls_backend \<Rightarrow> nat \<Rightarrow> tls_backend \<Rightarrow> bool" where
  "tls_authentic_step b idx b' \<longleftrightarrow> tls_waiting b' \<subseteq> tls_waiting b \<or> (\<exists>env. inbound_ok env \<and> tls_waiting b' \<subseteq> insert env (tls_waiting b) \<and>
     source_id env = ts_client_node_ids b' ! idx \<and> (ts_client_node_ids b ! idx = source_id env \<or> \<not> ts_is_server b \<and> ts_client_node_ids b ! idx = 0))"

text \<open>Only buffers and the impairment engine's outbound half differ.\<close>

definition tls_sent_step :: "tls_backend \<Rightarrow> tls_backend \<Rightarrow> bool" where
  "tls_sent_step b b' \<longleftrightarrow> (\<exists>buf imp dbuf. b' = b\<lparr> ts_wire_buf := buf, ts_impairment_engine := imp, ts_delay_buf := dbuf \<rparr> \<and>
     window imp = window (ts_impairment_engine b))"

text \<open>What opening leaves alone until it has succeeded.\<close>

definition tls_opening :: "tls_backend \<Rightarrow> tls_backend \<Rightarrow> bool" where
  "tls_opening b b' \<longleftrightarrow> ts_open b' = ts_open b \<and> ts_is_server b' = ts_is_server b \<and> ts_tls_enabled b' = ts_tls_enabled b \<and> ts_cfg b' = ts_cfg b \<and>
     ts_client_count b' = ts_client_count b \<and> ts_client_slot_active b' = ts_client_slot_active b \<and> ts_client_node_ids b' = ts_client_node_ids b \<and>
     ts_client_hello_received b' = ts_client_hello_received b \<and> ts_client_accept_ts b' = ts_client_accept_ts b \<and> ts_wire_buf b' = ts_wire_buf b \<and>
     ts_impairment_engine b' = ts_impairment_engine b \<and> ts_recv_queue b' = ts_recv_queue b \<and> ts_delay_buf b' = ts_delay_buf b \<and>
     ts_hello_queue b' = ts_hello_queue b \<and> ts_hello_queue_read b' = ts_hello_queue_read b \<and> ts_hello_queue_write b' = ts_hello_queue_write b \<and>
     length (ts_client_fd b') = length (ts_client_fd b)"

text \<open>The reference for \<open>port_to_str\<close>: the decimal numeral of a number.\<close>

fun decimal :: "nat \<Rightarrow> string" where
  "decimal n = (if n < 10 then [char_of (48 + n)] else decimal (n div 10) @ [char_of (48 + n mod 10)])"

text \<open>Examples: a plaintext server with node 7 registered on slot 0 and a second connection that has not said HELLO; a connected
  plaintext client; a TLS client configuration and a library whose handshake never ends.\<close>

definition tls_server_example :: tls_backend where
  "tls_server_example = (TlsTcpBackend_new transport_config_default (imp_blank impairment_config_default))
     \<lparr> ts_open := True, ts_is_server := True, ts_listen_fd := 3, ts_client_fd := [4, 5, - 1, - 1, - 1, - 1, - 1, - 1], ts_client_count := 2,
       ts_client_slot_active := [True, True, False, False, False, False, False, False],
       ts_client_node_ids := [7, 0, 0, 0, 0, 0, 0, 0], ts_client_hello_received := [True, False, False, False, False, False, False, False],
       ts_client_accept_ts := [1, 1, 0, 0, 0, 0, 0, 0] \<rparr>"

definition tls_client_example :: tls_backend where
  "tls_client_example = (TlsTcpBackend_new transport_config_default (imp_blank impairment_config_default))
     \<lparr> ts_open := True, ts_client_fd := [4, - 1, - 1, - 1, - 1, - 1, - 1, - 1], ts_client_count := 1,
       ts_client_slot_active := [True, False, False, False, False, False, False, False] \<rparr>"

definition tls_config_example :: transport_config where
  "tls_config_example = transport_config_default\<lparr> tcf_kind := TCP, tcf_tls := tls_example \<rparr>"

definition mbedtls_stalled :: "(u8 list \<times> u8 list) mbedtls" where
  "mbedtls_stalled = mbedtls_null\<lparr> mb_ssl_handshake := \<lambda>w _. (- 1, w) \<rparr>"

section \<open>Frames\<close>

lemma tls_sent_step_refl [simp]: "tls_sent_step b b"
  unfolding tls_sent_step_def
  by (rule exI [of _ "ts_wire_buf b"], rule exI [of _ "ts_impairment_engine b"], rule exI [of _ "ts_delay_buf b"]) simp

lemma port_loop_decimal: "v < 10 ^ n \<Longrightarrow> port_loop n v buf = (if v = 0 then buf else decimal v @ buf)"
proof (induction n arbitrary: v buf)
  case (Suc n)
  then have "v div 10 < 10 ^ n" by (simp add: less_mult_imp_div_less mult.commute)
  from Suc.IH [OF this] show ?case by (auto simp del: decimal.simps simp: decimal.simps [of v])
qed simp

lemma tls_opening_refl: "tls_opening b b"
  by (simp add: tls_opening_def)

lemma tls_opening_trans: "tls_opening a b \<Longrightarrow> tls_opening b c \<Longrightarrow> tls_opening a c"
  by (simp add: tls_opening_def)

lemma tls_sent_step_trans: "tls_sent_step a b \<Longrightarrow> tls_sent_step b c \<Longrightarrow> tls_sent_step a c"
  unfolding tls_sent_step_def by (elim exE conjE) (auto intro!: exI)

lemma tls_sent_step_update:
  "tls_sent_step b (b\<lparr> ts_wire_buf := buf \<rparr>)"
  "window imp = window (ts_impairment_engine b) \<Longrightarrow> tls_sent_step b (b\<lparr> ts_impairment_engine := imp \<rparr>)"
  "window imp = window (ts_impairment_engine b) \<Longrightarrow> tls_sent_step b (b\<lparr> ts_impairment_engine := imp, ts_delay_buf := d \<rparr>)"
proof -
  show "tls_sent_step b (b\<lparr> ts_wire_buf := buf \<rparr>)" unfolding tls_sent_step_def
    by (rule exI [of _ buf], rule exI [of _ "ts_impairment_engine b"], rule exI [of _ "ts_delay_buf b"]) simp
  assume w: "window imp = window (ts_impairment_engine b)"
  from w show "tls_sent_step b (b\<lparr> ts_impairment_engine := imp \<rparr>)" unfolding tls_sent_step_def
    by (intro exI [of _ "ts_wire_buf b"] exI [of _ imp] exI [of _ "ts_delay_buf b"]) simp
  from w show "tls_sent_step b (b\<lparr> ts_impairment_engine := imp, ts_delay_buf := d \<rparr>)" unfolding tls_sent_step_def
    by (intro exI [of _ "ts_wire_buf b"] exI [of _ imp] exI [of _ d]) simp
qed

lemma tls_sent_stepD:
  assumes "tls_sent_step b b'"
  shows "ts_client_slot_active b' = ts_client_slot_active b" "ts_client_fd b' = ts_client_fd b" "ts_client_count b' = ts_client_count b"
    "ts_open b' = ts_open b" "tls_same_role b b'" "tls_waiting b' = tls_waiting b" "ts_client_node_ids b' = ts_client_node_ids b"
    "ts_client_hello_received b' = ts_client_hello_received b"
  using assms by (auto simp: tls_sent_step_def tls_same_role_def tls_waiting_def)

lemma unique_nodes_update:
  "unique_nodes ids \<Longrightarrow> (\<And>j. j < length ids \<Longrightarrow> j \<noteq> i \<Longrightarrow> ids ! j = n \<Longrightarrow> n = 0) \<Longrightarrow> unique_nodes (ids[i := n])"
  by (cases "i < length ids") (auto simp: unique_nodes_def nth_list_update)

lemma slots_ok_update [simp]:
  "slots_ok (b\<lparr> ts_wire_buf := buf \<rparr>) = slots_ok b" "slots_ok (b\<lparr> ts_local_node_id := n \<rparr>) = slots_ok b"
  "slots_ok (b\<lparr> ts_impairment_engine := imp \<rparr>) = slots_ok b" "slots_ok (b\<lparr> ts_recv_queue := q \<rparr>) = slots_ok b"
  "slots_ok (b\<lparr> ts_delay_buf := d \<rparr>) = slots_ok b" "slots_ok (b\<lparr> ts_hello_queue := hq \<rparr>) = slots_ok b"
  "slots_ok (b\<lparr> ts_hello_queue_read := i \<rparr>) = slots_ok b" "slots_ok (b\<lparr> ts_hello_queue_write := i \<rparr>) = slots_ok b"
  by (simp_all add: slots_ok_def)

lemma session_live_update [simp]:
  "session_live (b\<lparr> ts_wire_buf := buf \<rparr>) = session_live b" "session_live (b\<lparr> ts_local_node_id := n \<rparr>) = session_live b"
  "session_live (b\<lparr> ts_impairment_engine := imp \<rparr>) = session_live b" "session_live (b\<lparr> ts_recv_queue := q \<rparr>) = session_live b"
  "session_live (b\<lparr> ts_delay_buf := d \<rparr>) = session_live b" "session_live (b\<lparr> ts_hello_queue := hq \<rparr>) = session_live b"
  "session_live (b\<lparr> ts_hello_queue_read := i \<rparr>) = session_live b" "session_live (b\<lparr> ts_hello_queue_write := i \<rparr>) = session_live b"
  by (simp_all add: session_live_def)

lemma tls_inv_update [simp]:
  "length buf = 8192 \<Longrightarrow> tls_inv b \<Longrightarrow> tls_inv (b\<lparr> ts_wire_buf := buf \<rparr>)"
  "tls_inv (b\<lparr> ts_local_node_id := n \<rparr>) = tls_inv b"
  "link_ok msg_ok inbound_ok imp \<Longrightarrow> tls_inv b \<Longrightarrow> tls_inv (b\<lparr> ts_impairment_engine := imp \<rparr>)"
  "queue_holds inbound_ok q \<Longrightarrow> tls_inv b \<Longrightarrow> tls_inv (b\<lparr> ts_recv_queue := q \<rparr>)"
  by (simp_all add: tls_inv_def)

lemma tls_live_fd: "tls_inv b \<Longrightarrow> ts_client_slot_active b ! i \<Longrightarrow> i < 8 \<Longrightarrow> 0 \<le> ts_client_fd b ! i"
  by (simp add: tls_inv_def slots_ok_def)

lemma tls_free_slot: "tls_inv b \<Longrightarrow> i < 8 \<Longrightarrow> \<not> ts_client_slot_active b ! i \<Longrightarrow> ts_client_node_ids b ! i = 0"
  by (simp add: tls_inv_def slots_ok_def)

lemma tls_client_slot: "tls_inv b \<Longrightarrow> i < 8 \<Longrightarrow> ts_client_slot_active b ! i \<Longrightarrow> ts_is_server b \<or> i = 0"
  by (simp add: tls_inv_def slots_ok_def)

lemma tls_count_le: "tls_inv b \<Longrightarrow> ts_client_count b \<le> 8"
  using card_mono [of "{..<8}" "{i. i < 8 \<and> ts_client_slot_active b ! i}"] by (auto simp: tls_inv_def slots_ok_def)

lemma card_active_update:
  fixes xs :: "bool list"
  assumes "k < 8" and "length xs = 8"
  shows "xs ! k \<Longrightarrow> card {i. i < 8 \<and> xs[k := False] ! i} = card {i. i < 8 \<and> xs ! i} - 1"
    and "\<not> xs ! k \<Longrightarrow> card {i. i < 8 \<and> xs[k := True] ! i} = card {i. i < 8 \<and> xs ! i} + 1"
proof -
  have "{i. i < 8 \<and> xs[k := False] ! i} = {i. i < 8 \<and> xs ! i} - {k}" using assms by (auto simp: nth_list_update)
  then show "xs ! k \<Longrightarrow> card {i. i < 8 \<and> xs[k := False] ! i} = card {i. i < 8 \<and> xs ! i} - 1" using assms(1) by simp
  have "{i. i < 8 \<and> xs[k := True] ! i} = insert k {i. i < 8 \<and> xs ! i}" using assms by (auto simp: nth_list_update)
  then show "\<not> xs ! k \<Longrightarrow> card {i. i < 8 \<and> xs[k := True] ! i} = card {i. i < 8 \<and> xs ! i} + 1" by simp
qed

context tls_env
begin

lemma tls_write_loop_returns: "I w \<Longrightarrow> returns (tls_write_loop M idx buf len n sent w) (\<lambda>(ok, w'). I w')"
proof (induction n arbitrary: sent w)
  case 0
  then show ?case by simp
next
  case (Suc n)
  obtain r w1 where wr: "mb_ssl_write M w idx (take (unat (len - sent)) (drop (unat sent) buf)) = (r, w1)" by (metis surj_pair)
  have "I w1" using ssl_write [OF Suc.prems wr] by simp
  with Suc wr show ?case by simp
qed

lemma tls_send_frame_returns:
  assumes "I w" and "0 < len" and "unat len \<le> length buf" and "ts_tls_enabled b \<or> 0 \<le> ts_client_fd b ! idx"
  shows "returns (TlsTcpBackend_tls_send_frame S M b w idx buf len ms) (\<lambda>(ok, w'). I w')"
proof (cases "ts_tls_enabled b")
  case True
  from tls_write_loop_returns [OF assms(1), of idx "length_header len" 4 "unat (4 :: u32)" 0] obtain ok w1 where
    h: "tls_write_loop M idx (length_header len) 4 (unat (4 :: u32)) 0 w = Some (ok, w1)" "I w1" by (auto elim!: returnsE)
  from tls_write_loop_returns [OF h(2), of idx buf len "unat len" 0] h True assms(2) show ?thesis
    by (simp add: TlsTcpBackend_tls_send_frame_def TlsTcpBackend_tls_write_all_def)
next
  case False
  with send_frame [OF assms(1) _ assms(3)] assms show ?thesis by (simp add: TlsTcpBackend_tls_send_frame_def)
qed

lemma tls_read_loop_returns:
  assumes "I w" and "0 \<le> fd" and "received \<le> len" and "unat len \<le> length buf"
  shows "returns (tls_read_loop M idx fd len ms n buf received w) (\<lambda>(ok, buf', w'). I w' \<and> length buf' = length buf)"
  using assms(1,3,4)
proof (induction n arbitrary: buf received w)
  case 0
  then show ?case by simp
next
  case (Suc n)
  obtain r bytes w1 where rd: "mb_ssl_read M w idx (unat (len - received)) = ((r, bytes), w1)" by (metis surj_pair)
  note c = ssl_read [OF Suc.prems(1) rd]
  obtain p w2 where po: "mb_net_poll M w1 fd ms = (p, w2)" by (metis surj_pair)
  have w2: "I w2" using net_poll [of w1 fd ms] c po by simp
  show ?case
  proof (cases "received < len \<and> 0 < r")
    case True
    then have a: "received + of_int r \<le> len" "unat (received + of_int r) = unat received + nat r"
      using advance_counter [of received len r] c by auto
    have len: "length bytes = nat r" using c True by auto
    have "unat received + nat r \<le> length buf" using a Suc.prems(3) by (simp add: word_le_nat_alt)
    then have "length (blit buf (unat received) bytes) = length buf" using len by (simp add: blit_def)
    with Suc.IH [of w1 "received + of_int r" "blit buf (unat received) bytes"] a(1) c True rd Suc.prems(3) show ?thesis by simp
  next
    case False
    with Suc.IH [OF w2 Suc.prems(2,3)] w2 po rd c Suc.prems(1) assms(2) show ?thesis
      by (auto simp: MbedtlsOpsImpl_net_poll_def)
  qed
qed

lemma tls_recv_frame_returns:
  assumes "tls_inv b" and "I w" and "idx < 8" and "ts_client_slot_active b ! idx"
  shows "returns (TlsTcpBackend_tls_recv_frame S M b w idx (ts_wire_buf b) SOCKET_RECV_BUF_BYTES ms)
    (\<lambda>(ok, buf, len, w'). I w' \<and> length buf = 8192 \<and> (ok \<longrightarrow> len \<le> 8192))"
proof (cases "ts_tls_enabled b")
  case False
  have "0 \<le> ts_client_fd b ! idx" "length (ts_wire_buf b) = 8192"
    using assms tls_live_fd [OF assms(1,4,3)] by (simp_all add: tls_inv_def)
  with recv_frame [OF assms(2), of "ts_client_fd b ! idx" 8192 "ts_wire_buf b" ms 0] False show ?thesis
    by (auto simp: TlsTcpBackend_tls_recv_frame_def elim!: returns_mono)
next
  case True
  note fd = tls_live_fd [OF assms(1,4,3)]
  have buf: "length (ts_wire_buf b) = 8192" using assms(1) by (simp add: tls_inv_def)
  from tls_read_loop_returns [OF assms(2) fd, of 0 4 "[0, 0, 0, 0]" idx ms 8] obtain ok hdr w1 where
    h: "tls_read_loop M idx (ts_client_fd b ! idx) 4 ms 8 [0, 0, 0, 0] 0 w = Some (ok, hdr, w1)" "I w1" by (auto elim!: returnsE)
  let ?len = "parse_length hdr"
  have step: "TlsTcpBackend_tls_recv_frame S M b w idx (ts_wire_buf b) SOCKET_RECV_BUF_BYTES ms =
      (if \<not> ok then Some (False, ts_wire_buf b, 0, w1) else if ?len = 0 \<or> ?len > 8192 then Some (False, ts_wire_buf b, 0, w1)
       else TlsTcpBackend_tls_read_payload M b w1 idx (ts_wire_buf b) ?len ms)"
    using h(1) True assms(3) by (simp add: TlsTcpBackend_tls_recv_frame_def TlsTcpBackend_read_tls_header_def Let_def)
  show ?thesis
  proof (cases "?len = 0 \<or> ?len > 8192")
    case True
    with step h(2) buf show ?thesis by simp
  next
    case False
    then have le: "?len \<le> 8192" "0 < ?len" by (simp_all add: not_less word_gt_0)
    then have "unat ?len \<le> length (ts_wire_buf b)" using buf by (simp add: word_le_nat_alt)
    from tls_read_loop_returns [OF h(2) fd _ this, of 0 idx ms "unat ?len"] step le h(2) buf show ?thesis
      by (auto simp: TlsTcpBackend_tls_read_payload_def elim!: returnsE)
  qed
qed

section \<open>Sending\<close>

lemma tls_send_to_all_returns:
  assumes "tls_inv b" and "I w" and "0 < len" and "unat len \<le> length buf"
  shows "returns (TlsTcpBackend_send_to_all_clients S M b w buf len) (\<lambda>(failed, w'). I w')"
proof -
  have "returns (for_each (tls_send_to_client S M b buf len) [0..<8] (False, w)) (\<lambda>(failed, w'). I w')"
  proof (rule for_each_inv)
    fix i st assume i: "i \<in> set [0..<8]" and st: "case st of (failed :: bool, w') \<Rightarrow> I w'"
    obtain f w1 where s: "st = (f, w1)" by (cases st)
    show "returns (tls_send_to_client S M b buf len i st) (\<lambda>(failed, w'). I w')"
    proof (cases "ts_client_slot_active b ! i")
      case True
      from tls_send_frame_returns [OF _ assms(3,4), of w1 b i "send_timeout b"] tls_live_fd [OF assms(1) True] i st s True show ?thesis
        by (auto simp: tls_send_to_client_def elim!: returnsE)
    qed (use s st in \<open>simp add: tls_send_to_client_def\<close>)
  qed (use assms(2) in simp)
  with assms(3) show ?thesis by (simp add: TlsTcpBackend_send_to_all_clients_def)
qed

lemma tls_unicast_returns:
  assumes "tls_inv b" and "I w" and "0 < len" and "unat len \<le> length buf" and "dst \<noteq> 0"
  shows "returns (TlsTcpBackend_unicast_serialized S M b w dst buf len) (\<lambda>(r, w'). I w' \<and> r \<in> {OK, ERR_IO, ERR_INVALID})"
proof -
  note count = tls_count_le [OF assms(1)]
  let ?P = "\<lambda>i. ts_client_slot_active b ! i \<and> ts_client_node_ids b ! i = dst"
  show ?thesis
  proof (cases "first_idx ?P [0..<8]")
    case None
    with count assms show ?thesis by (simp add: TlsTcpBackend_unicast_serialized_def TlsTcpBackend_find_client_slot_def)
  next
    case (Some i)
    then have i: "i < 8" "ts_client_slot_active b ! i" by (auto dest!: first_idx_SomeD)
    from tls_send_frame_returns [OF assms(2-4), of b i "send_timeout b"] tls_live_fd [OF assms(1) i(2,1)] i Some count assms
    show ?thesis
      by (auto simp: TlsTcpBackend_unicast_serialized_def TlsTcpBackend_find_client_slot_def TlsTcpBackend_send_to_slot_def elim!: returnsE)
  qed
qed

lemma tls_route_returns:
  assumes "tls_inv b" and "I w" and "msg_ok env"
  shows "returns (TlsTcpBackend_route_one_delayed S M b w env cur) (\<lambda>(r, b', w'). tls_inv b' \<and> I w' \<and> tls_sent_step b b' \<and>
    r \<in> {OK, ERR_IO, ERR_INVALID})"
proof -
  have inv: "length (ts_wire_buf b) = 8192" "ts_open b" using assms(1) by (simp_all add: tls_inv_def)
  obtain buf len where s: "serialize env (ts_wire_buf b) 8192 0 = Some (OK, buf, len)" "length buf = 8192" "0 < len" "unat len \<le> length buf"
    using serialize_fits [OF inv(1) assms(3)] by metis
  define b1 where "b1 = b\<lparr> ts_wire_buf := buf \<rparr>"
  have b1: "tls_inv b1" "tls_sent_step b b1" "ts_wire_buf b1 = buf" "ts_is_server b1 = ts_is_server b"
    using assms(1) s(2) by (simp_all add: b1_def tls_sent_step_update)
  note all = tls_send_to_all_returns [OF b1(1) assms(2) s(3,4)] and one = tls_unicast_returns [OF b1(1) assms(2) s(3,4), of "destination_id env"]
  have step: "TlsTcpBackend_route_one_delayed S M b w env cur = do {
      (send_r, w) \<leftarrow> (if \<not> ts_is_server b \<or> destination_id env = NODE_ID_INVALID then do {
          (failed, w) \<leftarrow> TlsTcpBackend_send_to_all_clients S M b1 w buf len;
          Some (if failed then ERR_IO else OK, w) }
        else TlsTcpBackend_unicast_serialized S M b1 w (destination_id env) buf len);
      Some (if send_r \<noteq> OK \<and> \<not> cur then OK else send_r, b1, w) }"
    using s(1) inv(2) tls_count_le [OF assms(1)] by (simp add: TlsTcpBackend_route_one_delayed_def b1_def Let_def)
  show ?thesis
  proof (cases "\<not> ts_is_server b \<or> destination_id env = 0")
    case True
    with all step b1(1,2) show ?thesis by (auto elim!: returnsE)
  next
    case False
    with one step b1(1,2) show ?thesis by (auto elim!: returnsE)
  qed
qed

lemma tls_flush_returns:
  assumes "tls_inv b" and "I w" and "0 < now"
  shows "returns (TlsTcpBackend_flush_delayed_to_clients S M b w env now) (\<lambda>(r, b', w'). tls_inv b' \<and> I w' \<and> tls_sent_step b b' \<and>
    r \<in> {OK, ERR_IO, ERR_INVALID})"
proof -
  let ?J = "\<lambda>(r, b', w'). tls_inv b' \<and> I w' \<and> tls_sent_step b b' \<and> r \<in> {OK, ERR_IO, ERR_INVALID}"
  have op: "ts_open b" "link_ok msg_ok inbound_ok (ts_impairment_engine b)" "32 \<le> length (ts_delay_buf b)"
    using assms(1) by (simp_all add: tls_inv_def)
  from link_collect [OF op(2,3), of now] obtain n dbuf imp where
    c: "ImpairmentEngine_collect_deliverable (ts_impairment_engine b) now (ts_delay_buf b) 32 = Some (n, dbuf, imp)"
      "link_ok msg_ok inbound_ok imp" "window imp = window (ts_impairment_engine b)" "32 \<le> length dbuf" "\<forall>m \<in> set (take n dbuf). msg_ok m"
    by (auto elim!: returnsE)
  define b1 where "b1 = b\<lparr> ts_impairment_engine := imp, ts_delay_buf := dbuf \<rparr>"
  have b1: "tls_inv b1" "tls_sent_step b b1"
    using assms(1) c by (simp_all add: b1_def tls_inv_def tls_sent_step_update)
  have "returns (for_each (tls_flush_item S M env) (take n dbuf) (OK, b1, w)) ?J"
  proof (rule for_each_inv)
    fix m st assume m: "m \<in> set (take n dbuf)" and "?J st"
    then obtain r b2 w2 where st: "st = (r, b2, w2)" "tls_inv b2" "I w2" "tls_sent_step b b2" "r \<in> {OK, ERR_IO, ERR_INVALID}" by (cases st) auto
    from m c(5) have ok: "msg_ok m" by blast
    from tls_route_returns [OF st(2,3) ok, of "source_id m = source_id env \<and> message_id m = message_id env"] st(1,4,5)
    show "returns (tls_flush_item S M env m st) ?J"
      by (auto simp: tls_flush_item_def Let_def elim!: returnsE dest: tls_sent_step_trans)
  qed (use b1 assms in simp)
  with c(1) op(1) assms(3) show ?thesis by (simp add: TlsTcpBackend_flush_delayed_to_clients_def b1_def Let_def)
qed

lemma tls_send_message_returns:
  assumes "tls_inv b" and "I w" and "msg_ok env"
  shows "returns (TlsTcpBackend_send_message S X M b w env) (\<lambda>(r, b', w'). tls_inv b' \<and> I w' \<and> tls_sent_step b b' \<and>
    r \<in> {OK, ERR_IO, ERR_INVALID, ERR_FULL})"
proof -
  have inv: "length (ts_wire_buf b) = 8192" "ts_open b" "link_ok msg_ok inbound_ok (ts_impairment_engine b)"
    using assms(1) by (simp_all add: tls_inv_def)
  have valid: "envelope_valid env" using assms(3) by (simp add: msg_ok_def)
  obtain buf len where s: "serialize env (ts_wire_buf b) 8192 0 = Some (OK, buf, len)" "length buf = 8192" "0 < len"
    using serialize_fits [OF inv(1) assms(3)] by metis
  obtain now w1 where now: "read_clock X w = Some (now, w1)" "I w1" "0 < now" using now_returns [OF assms(2)] by (auto elim!: returnsE)
  from link_outbound [OF inv(3) valid assms(3), of now] obtain r imp where
    o: "ImpairmentEngine_process_outbound (ts_impairment_engine b) env now = Some (r, imp)" "link_ok msg_ok inbound_ok imp"
      "window imp = window (ts_impairment_engine b)" "r \<in> {OK, ERR_IO, ERR_FULL}"
    by (auto elim!: returnsE)
  define b2 where "b2 = b\<lparr> ts_wire_buf := buf, ts_impairment_engine := imp \<rparr>"
  have b2: "tls_inv b2" using assms(1) s(2) o(2) by (simp add: b2_def)
  have sent: "tls_sent_step b b2"
    using tls_sent_step_trans [OF tls_sent_step_update(1) tls_sent_step_update(2)] o(3) by (simp add: b2_def)
  from tls_flush_returns [OF b2 now(2,3), of env] obtain r3 b3 w3 where
    f: "TlsTcpBackend_flush_delayed_to_clients S M b2 w1 env now = Some (r3, b3, w3)" "tls_inv b3" "I w3" "tls_sent_step b2 b3"
      "r3 \<in> {OK, ERR_IO, ERR_INVALID}" by (auto elim!: returnsE)
  have "TlsTcpBackend_send_message S X M b w env = (if r = ERR_IO then Some (OK, b2, w1) else if r \<noteq> OK then Some (r, b2, w1)
      else if ts_client_count b2 = 0 then Some (OK, b2, w1) else Some (r3, b3, w3))"
    using inv(2) valid s(1,3) now(1) o(1) f(1) by (simp add: TlsTcpBackend_send_message_def b2_def Let_def)
  with b2 sent f tls_sent_step_trans [OF sent f(4)] o(4) now(2) show ?thesis by auto
qed

lemma tls_register_returns:
  assumes "tls_inv b" and "I w" and "n \<noteq> 0" and "ts_is_server b \<or> ts_tls_enabled b \<or> ts_client_slot_active b ! 0"
  shows "returns (TlsTcpBackend_register_local_id S M b w n) (\<lambda>(r, b', w'). tls_inv b' \<and> I w' \<and>
    tls_sent_step (b\<lparr> ts_local_node_id := n \<rparr>) b')"
proof (cases "ts_is_server b")
  case True
  have "ts_open b" using assms(1) by (simp add: tls_inv_def)
  with True assms show ?thesis by (simp add: TlsTcpBackend_register_local_id_def)
next
  case False
  have inv: "length (ts_wire_buf b) = 8192" "ts_open b" using assms(1) by (simp_all add: tls_inv_def)
  obtain buf where s: "serialize (envelope_init\<lparr> message_type := HELLO, source_id := n, destination_id := 0,
      payload_length := 0 \<rparr>) (ts_wire_buf b) 8192 0 = Some (OK, buf, 52)" "length buf = 8192"
    using serialize_fits [OF inv(1) hello_msg_ok [OF assms(3)]] by (auto simp: envelope_init_def)
  define b1 where "b1 = b\<lparr> ts_local_node_id := n, ts_wire_buf := buf \<rparr>"
  have b1: "tls_inv b1" "tls_sent_step (b\<lparr> ts_local_node_id := n \<rparr>) b1" using assms(1) s(2) by (simp_all add: b1_def tls_sent_step_update)
  have "ts_tls_enabled b1 \<or> 0 \<le> ts_client_fd b1 ! 0" using assms(4) False tls_live_fd [OF assms(1), of 0] by (auto simp: b1_def)
  from tls_send_frame_returns [OF assms(2) _ _ this, of 52 buf "send_timeout b1"] s inv(2) b1 assms(3) False show ?thesis
    by (auto simp: TlsTcpBackend_register_local_id_def TlsTcpBackend_send_hello_frame_def Let_def b1_def elim!: returnsE)
qed

section \<open>Connections\<close>

lemma handshake_loop_keeps: "I w \<Longrightarrow> I (snd (tls_handshake_loop M i n w))"
proof (induction n arbitrary: w)
  case (Suc n)
  from Suc.IH [OF handshake [OF Suc.prems, of i]] handshake [OF Suc.prems, of i] show ?case by (simp add: case_prod_unfold Let_def)
qed (simp add: handshake)

lemma tls_remove_returns:
  assumes "tls_inv b" and "I w" and "idx < 8" and "ts_client_slot_active b ! idx"
  shows "returns (TlsTcpBackend_remove_client M b w idx) (\<lambda>(b', w'). tls_inv b' \<and> I w' \<and> tls_same_role b b' \<and> other_slots idx b b' \<and>
    tls_waiting b' = tls_waiting b \<and> \<not> ts_client_slot_active b' ! idx)"
proof -
  let ?a = "ts_client_slot_active b"
  have len: "length ?a = 8" and cnt: "ts_client_count b = card {i. i < 8 \<and> ?a ! i}" using assms(1) by (simp_all add: tls_inv_def slots_ok_def)
  have card: "card {i. i < 8 \<and> ?a[idx := False] ! i} = ts_client_count b - 1"
    using card_active_update(1) [OF assms(3) len assms(4)] cnt by simp
  have pos: "0 < ts_client_count b" using assms(3,4) cnt by (auto simp: card_gt_0_iff)
  define b' where "b' = b\<lparr> ts_client_fd := (ts_client_fd b)[idx := - 1], ts_client_slot_active := ?a[idx := False],
    ts_client_node_ids := (ts_client_node_ids b)[idx := 0], ts_client_hello_received := (ts_client_hello_received b)[idx := False],
    ts_client_accept_ts := (ts_client_accept_ts b)[idx := 0], ts_client_count := ts_client_count b - 1,
    ts_connections_closed := ts_connections_closed b + 1 \<rparr>"
  define w' where "w' = mb_net_free M (if ts_tls_enabled b then reset_ssl M (mb_ssl_call M w idx Close_notify) idx else w) (ts_client_fd b ! idx)"
  have step: "TlsTcpBackend_remove_client M b w idx = Some (b', w')"
    using assms(3) pos tls_count_le [OF assms(1)]
    by (simp add: TlsTcpBackend_remove_client_def free_net_def b'_def w'_def Let_def)
  have "unique_nodes ((ts_client_node_ids b)[idx := 0])"
    using assms(1) by (intro unique_nodes_update) (simp_all add: tls_inv_def slots_ok_def)
  then have "slots_ok b'" using assms card unfolding tls_inv_def slots_ok_def b'_def by (auto simp: nth_list_update)
  then have "tls_inv b'" using assms(1) by (simp add: tls_inv_def b'_def session_live_def)
  moreover have "I w'" using assms(2) by (simp add: w'_def reset_ssl_def keeps)
  ultimately show ?thesis using step len assms(3)
    by (simp add: b'_def tls_same_role_def other_slots_def tls_waiting_def)
qed

lemma tls_sweep_returns:
  assumes "tls_inv b" and "I w" and "ts_is_server b"
  shows "returns (TlsTcpBackend_sweep_hello_timeouts X M b w) (\<lambda>(b', w'). tls_inv b' \<and> I w' \<and> tls_same_role b b' \<and>
    tls_waiting b' = tls_waiting b)"
proof -
  let ?J = "\<lambda>(b', w'). tls_inv b' \<and> I w' \<and> tls_same_role b b' \<and> tls_waiting b' = tls_waiting b"
  obtain now w1 where now: "read_clock X w = Some (now, w1)" "I w1" using now_returns [OF assms(2)] by (auto elim!: returnsE)
  have "returns (for_each (sweep_slot M now tmo) [0..<8] (b, w1)) ?J" for tmo
  proof (rule for_each_inv)
    fix i st assume i: "i \<in> set [0..<8]" and "?J st"
    then obtain b2 w2 where st: "st = (b2, w2)" "tls_inv b2" "I w2" "tls_same_role b b2" "tls_waiting b2 = tls_waiting b" by (cases st) auto
    show "returns (sweep_slot M now tmo i st) ?J"
    proof (cases "ts_client_slot_active b2 ! i")
      case True
      with tls_remove_returns [OF st(2,3), of i] i st show ?thesis
        by (auto simp: sweep_slot_def tls_same_role_def elim!: returns_mono)
    qed (use st in \<open>simp add: sweep_slot_def\<close>)
  qed (use assms now in \<open>simp add: tls_same_role_def\<close>)
  with now(1) assms(3) tls_count_le [OF assms(1)] show ?thesis by (simp add: TlsTcpBackend_sweep_hello_timeouts_def Let_def)
qed

lemma tls_server_handshake_returns:
  assumes "I w" and "ts_tls_enabled b" and "slot < 8" and "0 \<le> ts_client_fd b ! slot"
  shows "returns (TlsTcpBackend_do_tls_server_handshake M b w slot) (\<lambda>(r, b', w'). I w' \<and>
    (r = OK \<and> b' = b \<or> r = ERR_IO \<and> b' = b\<lparr> ts_client_fd := (ts_client_fd b)[slot := - 1] \<rparr>))"
  using assms handshake_loop_keeps
  by (auto simp: TlsTcpBackend_do_tls_server_handshake_def MbedtlsOpsImpl_net_set_block_def MbedtlsOpsImpl_net_set_nonblock_def
      TlsTcpBackend_run_tls_handshake_loop_def free_net_def reset_ssl_def case_prod_unfold Let_def keeps)

lemma tls_accept_returns:
  assumes "tls_inv b" and "I w" and "ts_is_server b"
  shows "returns (TlsTcpBackend_accept_and_handshake X M b w) (\<lambda>(r, b', w'). tls_inv b' \<and> I w' \<and> tls_same_role b b' \<and>
    tls_waiting b' = tls_waiting b)"
proof -
  let ?a = "ts_client_slot_active b"
  have lfd: "0 \<le> ts_listen_fd b" and len: "length ?a = 8" "length (ts_client_fd b) = 8" using assms(1,3) by (simp_all add: tls_inv_def slots_ok_def)
  show ?thesis
  proof (cases "first_idx (\<lambda>active. \<not> active) ?a")
    case None
    with assms lfd show ?thesis by (simp add: TlsTcpBackend_accept_and_handshake_def tls_same_role_def)
  next
    case (Some slot)
    then have slot: "slot < 8" "\<not> ?a ! slot" using first_idx_SomeD [OF Some] len by auto
    obtain r fd w1 where a: "mb_net_accept M w (ts_listen_fd b) = ((r, fd), w1)" by (metis surj_pair)
    note c = net_accept [OF assms(2) a]
    have set_fd: "tls_inv (b\<lparr> ts_client_fd := (ts_client_fd b)[slot := k] \<rparr>)" for k
      using assms(1) slot len by (auto simp: tls_inv_def slots_ok_def session_live_def nth_list_update)
    define b1 where "b1 = b\<lparr> ts_client_fd := (ts_client_fd b)[slot := fd] \<rparr>"
    have b1: "tls_inv b1" "tls_same_role b b1" "tls_waiting b1 = tls_waiting b" "ts_client_fd b1 ! slot = fd" "ts_client_slot_active b1 = ?a"
      using set_fd slot len by (simp_all add: b1_def tls_same_role_def tls_waiting_def)
    define h where "h = (if ts_tls_enabled b1 then TlsTcpBackend_do_tls_server_handshake M b1 w1 slot else Some (OK, b1, w1))"
    have h: "returns h (\<lambda>(r, b', w'). I w' \<and> (r = OK \<and> b' = b1 \<or>
        r = ERR_IO \<and> b' = b1\<lparr> ts_client_fd := (ts_client_fd b1)[slot := - 1] \<rparr>))" if "r = 0"
      using tls_server_handshake_returns [of w1 b1 slot] c that slot b1(4) by (simp add: h_def)
    show ?thesis
    proof (cases "ts_client_count b < 8 \<and> r = 0")
      case False
      with Some a c assms lfd b1 show ?thesis
        by (auto simp: TlsTcpBackend_accept_and_handshake_def Let_def b1_def [symmetric] tls_same_role_def)
    next
      case True
      with h obtain r2 b2 w2 where h2: "h = Some (r2, b2, w2)" "I w2"
          "r2 = OK \<and> b2 = b1 \<or> r2 = ERR_IO \<and> b2 = b1\<lparr> ts_client_fd := (ts_client_fd b1)[slot := - 1] \<rparr>" by (auto elim!: returnsE)
      obtain now w3 where now: "read_clock X w2 = Some (now, w3)" "I w3" using now_returns [OF h2(2)] by (auto elim!: returnsE)
      define b3 where "b3 = b1\<lparr> ts_client_slot_active := ?a[slot := True], ts_client_hello_received := (ts_client_hello_received b1)[slot := False],
        ts_client_accept_ts := (ts_client_accept_ts b1)[slot := now], ts_client_count := ts_client_count b1 + 1,
        ts_connections_opened := ts_connections_opened b1 + 1 \<rparr>"
      have fd: "0 \<le> fd" using c True by simp
      have "slots_ok b3" using b1(1,4,5) fd slot len assms(3) card_active_update(2) [OF slot(1) len(1) slot(2)] b1(2)
        unfolding tls_inv_def slots_ok_def b3_def tls_same_role_def by (auto simp: nth_list_update)
      then have b3: "tls_inv b3" "tls_same_role b b3" "tls_waiting b3 = tls_waiting b"
        using b1 by (simp_all add: b3_def tls_inv_def session_live_def tls_same_role_def tls_waiting_def)
      have "TlsTcpBackend_accept_and_handshake X M b w = (if r2 \<noteq> OK then Some (r2, b2, w2) else Some (OK, b3, w3))"
      proof -
        have "ts_client_count b1 < 8" using True by (simp add: b1_def)
        with True Some a h2 now(1) assms(3) lfd show ?thesis
          by (cases "ts_tls_enabled b") (auto simp: TlsTcpBackend_accept_and_handshake_def Let_def h_def b1_def b3_def)
      qed
      moreover have "tls_inv b2 \<and> tls_same_role b b2 \<and> tls_waiting b2 = tls_waiting b" if "r2 \<noteq> OK"
        using that h2(3) set_fd [of "- 1"] b1 by (auto simp: b1_def tls_same_role_def tls_waiting_def)
      ultimately show ?thesis using b3 now(2) h2(2) by (cases "r2 = OK") simp_all
    qed
  qed
qed

section \<open>Receiving\<close>

text \<open>Marking a slot before removing it makes no difference.\<close>

lemma remove_marked:
  "TlsTcpBackend_remove_client M (b\<lparr> ts_client_hello_received := (ts_client_hello_received b)[i := True] \<rparr>) w i =
   TlsTcpBackend_remove_client M b w i"
  by (simp add: TlsTcpBackend_remove_client_def free_net_def Let_def)

lemma tls_register_slot:
  assumes "tls_inv b" and "idx < 8" and "ts_client_slot_active b ! idx" and "n \<noteq> 0" and "n \<notin> set (ts_client_node_ids b)" and "ts_is_server b"
    and "b' = b\<lparr> ts_client_hello_received := (ts_client_hello_received b)[idx := True], ts_client_node_ids := (ts_client_node_ids b)[idx := n] \<rparr>"
  shows "tls_inv b'" "tls_same_role b b'" "other_slots idx b b'" "tls_waiting b' = tls_waiting b" "ts_client_node_ids b' ! idx = n"
proof -
  have len: "length (ts_client_node_ids b) = 8" using assms(1) by (simp add: tls_inv_def slots_ok_def)
  then have "ts_client_node_ids b ! j \<noteq> n" if "j < 8" for j using that assms(5) by auto
  moreover have "unique_nodes (ts_client_node_ids b)" using assms(1) by (simp add: tls_inv_def slots_ok_def)
  ultimately have "unique_nodes (ts_client_node_ids b')" using unique_nodes_update [of "ts_client_node_ids b" idx n] len by (simp add: assms(7))
  with assms have "slots_ok b'" by (auto simp: tls_inv_def slots_ok_def nth_list_update)
  with assms show "tls_inv b'" by (simp add: tls_inv_def session_live_def)
  show "tls_same_role b b'" "other_slots idx b b'" "tls_waiting b' = tls_waiting b" "ts_client_node_ids b' ! idx = n"
    using assms(2,7) len by (simp_all add: tls_same_role_def other_slots_def tls_waiting_def)
qed

lemma tls_classify_returns:
  assumes "tls_inv b" and "I w" and "idx < 8" and "ts_client_slot_active b ! idx" and "source_id env \<noteq> 0"
  shows "returns (TlsTcpBackend_classify_inbound_frame M b w idx env) (\<lambda>(r, b', w'). tls_inv b' \<and> I w' \<and> tls_same_role b b' \<and>
    other_slots idx b b' \<and> tls_waiting b' = tls_waiting b \<and>
    (if r = OK then b' = b \<and> message_type env \<noteq> HELLO \<and> (ts_is_server b \<longrightarrow> ts_client_node_ids b ! idx \<noteq> 0)
     else message_type env = HELLO \<and> ts_is_server b \<longrightarrow> (if ts_client_node_ids b ! idx \<noteq> 0 \<or> source_id env \<in> set (ts_client_node_ids b)
       then \<not> ts_client_slot_active b' ! idx else ts_client_node_ids b' ! idx = source_id env)))"
proof -
  let ?ids = "ts_client_node_ids b" and ?n = "source_id env"
  have len: "length ?ids = 8" using assms(1) by (simp add: tls_inv_def slots_ok_def)
  have hello: "ts_client_hello_received b ! idx = (?ids ! idx \<noteq> 0)" if "ts_is_server b"
    using that assms(1,3) by (simp add: tls_inv_def slots_ok_def)
  have stay: "tls_same_role b b" "other_slots idx b b" by (simp_all add: tls_same_role_def other_slots_def)
  note rem = tls_remove_returns [OF assms(1-4)]
  show ?thesis
  proof (cases "message_type env = HELLO \<and> ts_is_server b")
    case False
    with assms stay hello show ?thesis by (auto simp: TlsTcpBackend_classify_inbound_frame_def)
  next
    case True
    show ?thesis
    proof (cases "?ids ! idx \<noteq> 0")
      case again: True
      with rem True hello assms(3,4) show ?thesis by (auto simp: TlsTcpBackend_classify_inbound_frame_def elim!: returnsE)
    next
      case fresh: False
      define b1 where "b1 = b\<lparr> ts_client_hello_received := (ts_client_hello_received b)[idx := True] \<rparr>"
      have taken: "list_ex (\<lambda>i. i \<noteq> idx \<and> ts_client_slot_active b1 ! i \<and> ts_client_node_ids b1 ! i = ?n) [0..<8] \<longleftrightarrow> ?n \<in> set ?ids"
      proof -
        have "ts_client_slot_active b ! i \<and> i \<noteq> idx" if "i < 8" "?ids ! i = ?n" for i
          using that tls_free_slot [OF assms(1)] fresh assms(5) by metis
        then show ?thesis using len by (auto simp: b1_def list_ex_iff in_set_conv_nth) (metis atLeastLessThan_iff le0)
      qed
      have step: "TlsTcpBackend_classify_inbound_frame M b w idx env =
          TlsTcpBackend_handle_hello_frame M b1 w idx ?n \<bind> (\<lambda>(b, w). Some (ERR_AGAIN, b, w))"
        using True fresh hello assms(3,4) by (simp add: TlsTcpBackend_classify_inbound_frame_def b1_def Let_def)
      show ?thesis
      proof (cases "?n \<in> set ?ids")
        case dup: True
        then have "TlsTcpBackend_handle_hello_frame M b1 w idx ?n = TlsTcpBackend_remove_client M b w idx"
          using taken remove_marked [of b idx w] assms(3,5) by (simp add: TlsTcpBackend_handle_hello_frame_def b1_def)
        with rem step dup show ?thesis by (auto elim!: returnsE)
      next
        case new: False
        define b2 where "b2 = b1\<lparr> ts_client_node_ids := ?ids[idx := ?n] \<rparr>"
        have b2: "tls_inv b2" "tls_same_role b b2" "other_slots idx b b2" "tls_waiting b2 = tls_waiting b" "ts_client_node_ids b2 ! idx = ?n"
          using tls_register_slot [OF assms(1,3,4,5) new, of b2] True by (simp_all add: b2_def b1_def)
        define b3 where "b3 = b2\<lparr> ts_hello_queue := (ts_hello_queue b)[ts_hello_queue_write b := ?n],
          ts_hello_queue_write := (ts_hello_queue_write b + 1) mod 8 \<rparr>"
        have b3: "tls_inv b3" "tls_same_role b b3" "other_slots idx b b3" "tls_waiting b3 = tls_waiting b" "ts_client_node_ids b3 ! idx = ?n"
          using b2 by (simp_all add: b3_def b2_def b1_def tls_inv_def tls_same_role_def other_slots_def tls_waiting_def)
        have "TlsTcpBackend_handle_hello_frame M b1 w idx ?n =
            Some (if (ts_hello_queue_write b + 1) mod 8 \<noteq> ts_hello_queue_read b then b3 else b2, w)"
          using taken new assms(3,5) by (simp add: TlsTcpBackend_handle_hello_frame_def b3_def b2_def b1_def Let_def)
        with step b2 b3 new fresh assms(2) show ?thesis by simp
      qed
    qed
  qed
qed

lemma tls_inbound_returns:
  assumes "tls_inv b" and "inbound_ok env" and "0 < now"
  shows "returns (TlsTcpBackend_apply_inbound_impairment b env now) (\<lambda>(r, b'). tls_inv b' \<and>
    (\<exists>imp q. b' = b\<lparr> ts_impairment_engine := imp, ts_recv_queue := q \<rparr>) \<and> tls_waiting b' \<subseteq> insert env (tls_waiting b))"
proof -
  let ?imp = "ts_impairment_engine b" and ?q = "ts_recv_queue b"
  let ?Q = "\<lambda>m. inbound_ok m \<and> m \<in> insert env (tls_waiting b)"
  have lk: "link_ok msg_ok ?Q ?imp" "queue_holds ?Q ?q"
    using assms(1) by (auto simp: tls_inv_def link_ok_def queue_holds_def tls_waiting_def)
  have valid: "envelope_valid env" using assms(2) by (simp add: inbound_ok_def msg_ok_def)
  obtain active i1 where p: "ImpairmentEngine_is_partition_active ?imp now = Some (active, i1)" "link_ok msg_ok ?Q i1"
    using link_partition [OF lk(1), of now] by (auto elim!: returnsE)
  obtain r2 out n i2 where i: "ImpairmentEngine_process_inbound i1 env now [envelope_zero] 1 = Some (r2, out, n, i2)"
      "link_ok msg_ok ?Q i2" "n = 0 \<or> n = 1 \<and> r2 = OK \<and> ?Q (out ! 0)"
    using link_inbound [OF p(2) valid, of "[envelope_zero]" now] assms(2) by (auto elim!: returnsE)
  have good: "tls_inv b' \<and> (\<exists>imp q. b' = b\<lparr> ts_impairment_engine := imp, ts_recv_queue := q \<rparr>) \<and> tls_waiting b' \<subseteq> insert env (tls_waiting b)"
    if "b' = b\<lparr> ts_impairment_engine := imp, ts_recv_queue := q' \<rparr>" "queue_holds ?Q q'" "link_ok msg_ok ?Q imp" for b' imp q'
  proof -
    have "link_ok msg_ok inbound_ok imp" "queue_holds inbound_ok q'" using that(2,3) by (auto simp: link_ok_def queue_holds_def)
    then have "tls_inv b'" using that(1) assms(1) by simp
    moreover have "tls_waiting b' \<subseteq> insert env (tls_waiting b)"
      using that by (auto simp: tls_waiting_def link_ok_def queue_holds_def)
    ultimately show ?thesis using that(1) by blast
  qed
  have stay: "b\<lparr> ts_impairment_engine := imp \<rparr> = b\<lparr> ts_impairment_engine := imp, ts_recv_queue := ?q \<rparr>" for imp by simp
  show ?thesis
  proof (cases "active \<or> n = 0")
    case True
    with p i valid assms(3) good [OF stay lk(2) p(2)] good [OF stay lk(2) i(2)] show ?thesis
      by (auto simp: TlsTcpBackend_apply_inbound_impairment_def Let_def)
  next
    case False
    with i(3) have n: "n = 1" "r2 = OK" "?Q (out ! 0)" by auto
    obtain r3 q' where q: "RingBuffer_push ?q (out ! 0) = Some (r3, q')" "queue_holds ?Q q'"
      using queue_push [OF lk(2) n(3)] by (auto elim!: returnsE)
    with p i valid assms(3) False n good [OF refl q(2) i(2)] show ?thesis
      by (simp add: TlsTcpBackend_apply_inbound_impairment_def Let_def)
  qed
qed

text \<open>A client fixes the server's identifier with the first message it accepts.\<close>

lemma tls_lock_server:
  assumes "tls_inv b" and "\<not> ts_is_server b" and "ts_client_slot_active b ! 0"
    and "b' = b\<lparr> ts_client_node_ids := (ts_client_node_ids b)[0 := n] \<rparr>"
  shows "tls_inv b'"
proof -
  have len: "length (ts_client_node_ids b) = 8" using assms(1) by (simp add: tls_inv_def slots_ok_def)
  have "ts_client_node_ids b ! j = 0" if "j < 8" "j \<noteq> 0" for j
    using that assms(2) tls_free_slot [OF assms(1)] tls_client_slot [OF assms(1)] by metis
  moreover have "unique_nodes (ts_client_node_ids b)" using assms(1) by (simp add: tls_inv_def slots_ok_def)
  ultimately have "unique_nodes (ts_client_node_ids b')" using unique_nodes_update [of "ts_client_node_ids b" 0 n] len by (simp add: assms(4))
  with assms have "slots_ok b'" by (auto simp: tls_inv_def slots_ok_def nth_list_update)
  with assms show ?thesis by (simp add: tls_inv_def session_live_def)
qed

lemma tls_accept_frame_returns:
  assumes "tls_inv b" and "I w" and "idx < 8" and "ts_client_slot_active b ! idx" and "inbound_ok env" and "len \<le> 8192"
    and "ts_is_server b \<longrightarrow> ts_client_node_ids b ! idx \<noteq> 0"
  shows "returns (tls_accept_frame X b w idx len env) (\<lambda>(r, b', w'). tls_inv b' \<and> I w' \<and> tls_same_role b b' \<and> other_slots idx b b' \<and>
    tls_authentic_step b idx b')"
proof -
  let ?ids = "ts_client_node_ids b" and ?n = "source_id env"
  have len: "length ?ids = 8" and client: "ts_is_server b \<or> idx = 0"
    using assms(1,3,4) by (auto simp: tls_inv_def slots_ok_def)
  have n: "?n \<noteq> 0" using assms(5) by (simp add: inbound_ok_def msg_ok_def envelope_valid_def)
  show ?thesis
  proof (cases "?ids ! idx = 0 \<or> ?ids ! idx = ?n")
    case False
    then have "?ids ! idx \<noteq> 0" "?n \<noteq> ?ids ! idx" by auto
    with assms show ?thesis
      by (simp add: tls_accept_frame_def TlsTcpBackend_validate_source_id_def tls_same_role_def other_slots_def tls_authentic_step_def)
  next
    case True
    define b1 where "b1 = (if \<not> ts_is_server b \<and> ?ids ! 0 = NODE_ID_INVALID \<and> ?n \<noteq> NODE_ID_INVALID
      then b\<lparr> ts_client_node_ids := ?ids[0 := ?n] \<rparr> else b)"
    have b1: "tls_inv b1" "tls_same_role b b1" "other_slots idx b b1" "tls_waiting b1 = tls_waiting b" "ts_client_node_ids b1 ! idx = ?n"
      using True client assms n len tls_lock_server [OF assms(1) _ _ refl, of ?n]
      by (auto simp: b1_def tls_same_role_def other_slots_def tls_waiting_def)
    obtain now w1 where now: "read_clock X w = Some (now, w1)" "I w1" "0 < now" using now_returns [OF assms(2)] by (auto elim!: returnsE)
    from tls_inbound_returns [OF b1(1) assms(5) now(3)] obtain r b2 imp q where
      a: "TlsTcpBackend_apply_inbound_impairment b1 env now = Some (r, b2)" "tls_inv b2"
        "b2 = b1\<lparr> ts_impairment_engine := imp, ts_recv_queue := q \<rparr>" "tls_waiting b2 \<subseteq> insert env (tls_waiting b1)"
      by (auto elim!: returnsE)
    have val: "TlsTcpBackend_validate_source_id b idx ?n = Some True"
      using True assms(3) by (auto simp: TlsTcpBackend_validate_source_id_def Let_def)
    have step: "tls_accept_frame X b w idx len env = Some (OK, b2, w1)"
      using val now(1) a(1) assms(6) by (auto simp: tls_accept_frame_def b1_def Let_def split: if_splits)
    have "tls_authentic_step b idx b2" unfolding tls_authentic_step_def
      using a(3,4) b1(4,5) assms(5,7) True by (intro disjI2 exI [of _ env]) auto
    moreover have "tls_same_role b b2" "other_slots idx b b2" using a(3) b1(2,3) by (simp_all add: tls_same_role_def other_slots_def)
    ultimately show ?thesis using step a(2) now(2) by simp
  qed
qed

lemma tls_recv_client_returns:
  assumes "tls_inv b" and "I w" and "idx < 8" and "ts_client_slot_active b ! idx"
  shows "returns (TlsTcpBackend_recv_from_client S X M b w idx ms) (\<lambda>(r, b', w'). tls_inv b' \<and> I w' \<and> tls_same_role b b' \<and>
    other_slots idx b b' \<and> tls_authentic_step b idx b')"
proof -
  have op: "ts_open b" using assms(1) by (simp add: tls_inv_def)
  from tls_recv_frame_returns [OF assms, of ms] obtain ok buf len w1 where
    f: "TlsTcpBackend_tls_recv_frame S M b w idx (ts_wire_buf b) SOCKET_RECV_BUF_BYTES ms = Some (ok, buf, len, w1)" "I w1" "length buf = 8192"
      "ok \<longrightarrow> len \<le> 8192" by (auto elim!: returnsE)
  define b1 where "b1 = b\<lparr> ts_wire_buf := buf \<rparr>"
  have b1: "tls_inv b1" "ts_client_slot_active b1 ! idx" "ts_wire_buf b1 = buf" "ts_client_node_ids b1 = ts_client_node_ids b"
      "ts_is_server b1 = ts_is_server b" "tls_waiting b1 = tls_waiting b"
    using f(3) assms by (simp_all add: b1_def tls_waiting_def)
  have via: "tls_same_role b c \<and> other_slots idx b c \<and> tls_authentic_step b idx c"
    if "tls_same_role b1 c" "other_slots idx b1 c" "tls_authentic_step b1 idx c" for c
    using that b1 by (simp add: b1_def tls_same_role_def other_slots_def tls_authentic_step_def tls_waiting_def)
  have quiet: "tls_authentic_step b1 idx c" if "tls_waiting c = tls_waiting b1" for c using that by (simp add: tls_authentic_step_def)
  show ?thesis
  proof (cases ok)
    case False
    with tls_remove_returns [OF b1(1) f(2) assms(3) b1(2)] op f(1) assms(3) via quiet show ?thesis
      by (auto simp: TlsTcpBackend_recv_from_client_def b1_def [symmetric] Let_def elim!: returnsE)
  next
    case True
    have le: "len \<le> 8192" using f(4) True by simp
    then have "unat len \<le> length buf" using f(3) by (simp add: word_le_nat_alt)
    with deserialize_safe [of buf len envelope_zero] obtain r env where
      d: "deserialize buf len envelope_zero = Some (r, env)" "r = OK \<longrightarrow> msg_ok env" by (auto simp: msg_ok_def elim!: returnsE)
    show ?thesis
    proof (cases "r = OK")
      case False
      with True op f assms(3) b1 d(1) via [of b1] quiet [of b1] show ?thesis
        by (simp add: TlsTcpBackend_recv_from_client_def b1_def [symmetric] Let_def tls_same_role_def other_slots_def)
    next
      case ok: True
      then have env: "msg_ok env" "source_id env \<noteq> 0" using d(2) by (simp_all add: msg_ok_def envelope_valid_def)
      from tls_classify_returns [OF b1(1) f(2) assms(3) b1(2) env(2)] obtain r2 b2 w2 where
        c: "TlsTcpBackend_classify_inbound_frame M b1 w1 idx env = Some (r2, b2, w2)" "tls_inv b2" "I w2" "tls_same_role b1 b2"
          "other_slots idx b1 b2" "tls_waiting b2 = tls_waiting b1"
          "r2 = OK \<longrightarrow> b2 = b1 \<and> message_type env \<noteq> HELLO \<and> (ts_is_server b1 \<longrightarrow> ts_client_node_ids b1 ! idx \<noteq> 0)"
        by (auto elim!: returnsE)
      have step: "TlsTcpBackend_recv_from_client S X M b w idx ms =
          (if r2 \<noteq> OK then Some (r2, b2, w2) else tls_accept_frame X b2 w2 idx len env)"
        using True ok op f(1) assms(3) b1(3) d(1) c(1) by (simp add: TlsTcpBackend_recv_from_client_def b1_def Let_def)
      show ?thesis
      proof (cases "r2 = OK")
        case False
        with step c via [OF c(4,5) quiet [OF c(6)]] show ?thesis by simp
      next
        case True
        with c(7) env(1) have "b2 = b1" "inbound_ok env" "ts_is_server b1 \<longrightarrow> ts_client_node_ids b1 ! idx \<noteq> 0" by (auto simp: inbound_ok_def)
        with tls_accept_frame_returns [OF b1(1) c(3) assms(3) b1(2), of env len] le True step via show ?thesis
          by (auto elim!: returns_mono)
      qed
    qed
  qed
qed

lemma tls_poll_slots_returns:
  assumes "tls_inv b" and "I w" and "distinct (map fst ps)" and "\<forall>(i, e) \<in> set ps. i < 8 \<and> ts_client_slot_active b ! i"
  shows "returns (for_each (poll_slot S X M ms) ps (b, w)) (\<lambda>(b', w'). tls_inv b' \<and> I w' \<and> tls_same_role b b')"
  using assms
proof (induction ps arbitrary: b w)
  case Nil
  then show ?case by (simp add: tls_same_role_def)
next
  case (Cons p ps)
  obtain i e where p: "p = (i, e)" by (cases p)
  with Cons.prems have i: "i < 8" "ts_client_slot_active b ! i" "i \<notin> fst ` set ps" by auto
  have "returns (poll_slot S X M ms p (b, w)) (\<lambda>(b', w'). tls_inv b' \<and> I w' \<and> tls_same_role b b' \<and> other_slots i b b')"
    using tls_recv_client_returns [OF Cons.prems(1,2) i(1,2), of ms] Cons.prems(1,2)
    by (auto simp: poll_slot_def p tls_same_role_def other_slots_def elim!: returnsE)
  then obtain b1 w1 where s: "poll_slot S X M ms p (b, w) = Some (b1, w1)" "tls_inv b1" "I w1" "tls_same_role b b1" "other_slots i b b1"
    by (auto elim!: returnsE)
  have "\<forall>(j, e) \<in> set ps. j < 8 \<and> ts_client_slot_active b1 ! j"
    using Cons.prems(4) s(5) i(3) by (force simp: other_slots_def)
  from Cons.IH [OF s(2,3) _ this] Cons.prems(3) s(1,4) show ?case by (auto simp: tls_same_role_def elim!: returns_mono)
qed

lemma tls_poll_returns:
  assumes "tls_inv b" and "I w" and "ms \<le> 60000"
  shows "returns (TlsTcpBackend_poll_clients_once S X M b w ms) (\<lambda>(b', w'). tls_inv b' \<and> I w' \<and> tls_same_role b b')"
proof -
  define front where "front = (if ts_is_server b then do {
      (b, w) \<leftarrow> TlsTcpBackend_sweep_hello_timeouts X M b w;
      let w = (if ts_client_count b = 0 then snd (mb_net_poll M w (ts_listen_fd b) ms) else w);
      (_, b, w) \<leftarrow> TlsTcpBackend_accept_and_handshake X M b w;
      Some (b, w) } else Some (b, w))"
  have "returns front (\<lambda>(b', w'). tls_inv b' \<and> I w' \<and> tls_same_role b b')"
  proof (cases "ts_is_server b")
    case True
    from tls_sweep_returns [OF assms(1,2) True] obtain b1 w1 where
      s: "TlsTcpBackend_sweep_hello_timeouts X M b w = Some (b1, w1)" "tls_inv b1" "I w1" "tls_same_role b b1" by (auto elim!: returnsE)
    define w2 where "w2 = (if ts_client_count b1 = 0 then snd (mb_net_poll M w1 (ts_listen_fd b1) ms) else w1)"
    have "I w2" "ts_is_server b1" using s True by (simp_all add: w2_def net_poll tls_same_role_def)
    from tls_accept_returns [OF s(2) this] s True show ?thesis
      by (auto simp: front_def w2_def [symmetric] Let_def tls_same_role_def elim!: returnsE)
  qed (use assms in \<open>simp add: front_def tls_same_role_def\<close>)
  then obtain b1 w1 where f: "front = Some (b1, w1)" "tls_inv b1" "I w1" "tls_same_role b b1" by (auto elim!: returnsE)
  define slots where "slots = filter (\<lambda>j. ts_client_slot_active b1 ! j) [0..<8]"
  obtain k ev v where p: "px_poll X w1 (map (\<lambda>j. (ts_client_fd b1 ! j, POLLIN)) slots) (clamped_ms ms) = ((k, ev), v)" by (metis surj_pair)
  define evs w2 where "evs = (if slots = [] then [] else ev)" and "w2 = (if slots = [] then w1 else v)"
  have "I v" using poll_keeps [OF f(3), of "map (\<lambda>j. (ts_client_fd b1 ! j, POLLIN)) slots" "clamped_ms ms"] p by simp
  then have w2: "I w2" using f(3) by (simp add: w2_def)
  have "length slots \<le> 8" unfolding slots_def by (rule order_trans [OF length_filter_le]) simp
  then have build: "TlsTcpBackend_build_poll_fds X b1 w1 ms = Some (zip slots evs, w2)"
    using p by (cases "slots = []") (simp_all add: TlsTcpBackend_build_poll_fds_def evs_def w2_def slots_def Let_def)
  have ps: "distinct (map fst (rev (zip slots evs)))" "\<forall>(i, e) \<in> set (rev (zip slots evs)). i < 8 \<and> ts_client_slot_active b1 ! i"
    by (auto simp: rev_map [symmetric] map_fst_zip_take slots_def distinct_take dest!: set_zip_leftD)
  have "TlsTcpBackend_poll_clients_once S X M b w ms = for_each (poll_slot S X M ms) (rev (zip slots evs)) (b1, w2)"
    using f(1) build assms(1,3) by (simp add: TlsTcpBackend_poll_clients_once_def front_def [symmetric] tls_inv_def)
  with tls_poll_slots_returns [OF f(2) w2 ps, of ms] f(4) show ?thesis by (auto simp: tls_same_role_def elim!: returns_mono)
qed

lemma tls_pop:
  assumes "tls_inv b"
  obtains r env' q where "RingBuffer_pop (ts_recv_queue b) env = Some (r, env', q)" "tls_inv (b\<lparr> ts_recv_queue := q \<rparr>)"
    "r = OK \<and> inbound_ok env' \<or> r = ERR_EMPTY \<and> env' = env \<and> b\<lparr> ts_recv_queue := q \<rparr> = b"
proof -
  have q: "queue_holds inbound_ok (ts_recv_queue b)" using assms by (simp add: tls_inv_def)
  from queue_pop [OF q, of env] obtain r x q' where p: "RingBuffer_pop (ts_recv_queue b) env = Some (r, x, q')" "queue_holds inbound_ok q'"
      "r = OK \<and> inbound_ok x \<or> r = ERR_EMPTY \<and> x = env \<and> q' = ts_recv_queue b"
    by (cases "rb_contents (ts_recv_queue b)") (auto elim!: returnsE)
  with that assms show ?thesis by auto
qed

lemma tls_attempts_returns:
  assumes "tls_inv b" and "I w"
  shows "returns (tls_receive_attempts S X M n b w env) (\<lambda>(r, env', b', w'). tls_inv b' \<and> I w' \<and> tls_same_role b b' \<and>
    (r = OK \<and> inbound_ok env' \<or> r = ERR_TIMEOUT \<and> env' = env))"
  using assms
proof (induction n arbitrary: b w)
  case 0
  then show ?case by (simp add: tls_same_role_def)
next
  case (Suc n)
  from tls_poll_returns [OF Suc.prems, of 100] obtain b1 w1 where
    p: "TlsTcpBackend_poll_clients_once S X M b w 100 = Some (b1, w1)" "tls_inv b1" "I w1" "tls_same_role b b1" by (auto elim!: returnsE)
  obtain r1 e1 q1 where q1: "RingBuffer_pop (ts_recv_queue b1) env = Some (r1, e1, q1)" "tls_inv (b1\<lparr> ts_recv_queue := q1 \<rparr>)"
      "r1 = OK \<and> inbound_ok e1 \<or> r1 = ERR_EMPTY \<and> e1 = env \<and> b1\<lparr> ts_recv_queue := q1 \<rparr> = b1"
    using tls_pop [OF p(2)] by metis
  obtain now w2 where now: "read_clock X w1 = Some (now, w2)" "I w2" "now > 0" using now_returns [OF p(3)] by (auto elim!: returnsE)
  from tls_flush_returns [OF p(2) now(2,3), of envelope_zero] obtain r2 b3 w3 where
    f: "TlsTcpBackend_flush_delayed_to_clients S M b1 w2 envelope_zero now = Some (r2, b3, w3)" "tls_inv b3" "I w3" "tls_sent_step b1 b3"
    by (auto elim!: returnsE)
  have role: "tls_same_role b b3" using p(4) tls_sent_stepD(5) [OF f(4)] by (simp add: tls_same_role_def)
  obtain r3 e3 q3 where q3: "RingBuffer_pop (ts_recv_queue b3) env = Some (r3, e3, q3)" "tls_inv (b3\<lparr> ts_recv_queue := q3 \<rparr>)"
      "r3 = OK \<and> inbound_ok e3 \<or> r3 = ERR_EMPTY \<and> e3 = env \<and> b3\<lparr> ts_recv_queue := q3 \<rparr> = b3"
    using tls_pop [OF f(2)] by metis
  show ?case
  proof (cases "r1 = OK")
    case True
    with p q1 show ?thesis by (simp add: tls_same_role_def)
  next
    case False
    with q1(3) have "b1\<lparr> ts_recv_queue := q1 \<rparr> = b1" "e1 = env" by simp_all
    with False p(1) q1(1) now(1) f(1) q3(1) have step: "tls_receive_attempts S X M (Suc n) b w env =
        (if r3 = OK then Some (r3, e3, b3\<lparr> ts_recv_queue := q3 \<rparr>, w3) else tls_receive_attempts S X M n (b3\<lparr> ts_recv_queue := q3 \<rparr>) w3 e3)"
      by simp
    show ?thesis
    proof (cases "r3 = OK")
      case True
      with step q3 f(3) role show ?thesis by (simp add: tls_same_role_def)
    next
      case empty: False
      with q3(3) have "b3\<lparr> ts_recv_queue := q3 \<rparr> = b3" "e3 = env" by simp_all
      with step empty Suc.IH [OF f(2,3)] role show ?thesis by (auto simp: tls_same_role_def elim!: returns_mono)
    qed
  qed
qed

lemma tls_receive_returns:
  assumes "tls_inv b" and "I w"
  shows "returns (TlsTcpBackend_receive_message S X M b w env ms) (\<lambda>(r, env', b', w'). tls_inv b' \<and> I w' \<and> tls_same_role b b' \<and>
    (r = OK \<and> inbound_ok env' \<or> r = ERR_TIMEOUT \<and> env' = env))"
proof -
  have op: "ts_open b" using assms(1) by (simp add: tls_inv_def)
  obtain r1 e1 q1 where q1: "RingBuffer_pop (ts_recv_queue b) env = Some (r1, e1, q1)" "tls_inv (b\<lparr> ts_recv_queue := q1 \<rparr>)"
      "r1 = OK \<and> inbound_ok e1 \<or> r1 = ERR_EMPTY \<and> e1 = env \<and> b\<lparr> ts_recv_queue := q1 \<rparr> = b"
    using tls_pop [OF assms(1)] by metis
  have "poll_count ms \<le> 50" by (rule poll_count_le)
  note att = tls_attempts_returns [OF assms, of "unat (poll_count ms)" env] and cnt = this
  show ?thesis
  proof (cases "r1 = OK")
    case True
    with op q1 assms(2) show ?thesis by (simp add: TlsTcpBackend_receive_message_def tls_same_role_def)
  next
    case False
    with q1(3) have "b\<lparr> ts_recv_queue := q1 \<rparr> = b" "e1 = env" by simp_all
    with False op q1(1) att cnt show ?thesis by (simp add: TlsTcpBackend_receive_message_def)
  qed
qed

section \<open>Opening and closing\<close>

lemma tls_load_crl_returns:
  assumes "I w" and "tc_verify_peer tls" and "path_given (tc_ca_file tls)" and "tls_path_valid (tc_crl_file tls)"
  shows "returns (TlsTcpBackend_load_crl_if_configured M b w tls) (\<lambda>(r, b', w'). I w' \<and> r \<in> {OK, ERR_IO} \<and>
    (\<exists>loaded. b' = b\<lparr> ts_crl_loaded := loaded \<rparr>))"
proof -
  have "b = b\<lparr> ts_crl_loaded := ts_crl_loaded b \<rparr>" by simp
  then have "\<exists>loaded. b = b\<lparr> ts_crl_loaded := loaded \<rparr>" by blast
  with assms show ?thesis
    by (auto simp: TlsTcpBackend_load_crl_if_configured_def path_given_def case_prod_unfold Let_def keeps)
qed

lemma tls_load_ca_returns:
  assumes "I w" and "tc_verify_peer tls" and "path_given (tc_ca_file tls)" and "tls_path_valid (tc_crl_file tls)"
  shows "returns (TlsTcpBackend_load_ca_and_crl M b w tls) (\<lambda>(r, b', w'). I w' \<and> r \<in> {OK, ERR_IO} \<and> tls_opening b b' \<and>
    ts_client_fd b' = ts_client_fd b \<and> ts_session_store b' = ts_session_store b)"
proof -
  let ?path = "c_string (tc_ca_file tls)"
  obtain ok w1 r w2 where f: "tls_path_is_regular_file M w ?path = (ok, w1)" "mb_x509_crt_parse_file M w1 Ca_cert ?path = (r, w2)"
    by (metis surj_pair)
  have w1: "I w1" using regular_file [OF assms(1), of ?path] f(1) by simp
  with crt_parse [OF this, of Ca_cert ?path] f(2) have w2: "I w2" by simp
  have ver: "0 < mb_x509_crt_version M w2 Ca_cert" if "r = 0" using crt_version [OF w1, of Ca_cert ?path w2] f(2) that by simp
  define b1 where "b1 = b\<lparr> ts_ca_cert_version := mb_x509_crt_version M w2 Ca_cert \<rparr>"
  from tls_load_crl_returns [OF w2 assms(2-4), of b1] obtain r3 loaded w3 where
    c: "TlsTcpBackend_load_crl_if_configured M b1 w2 tls = Some (r3, b1\<lparr> ts_crl_loaded := loaded \<rparr>, w3)" "I w3" "r3 \<in> {OK, ERR_IO}"
    by (auto elim!: returnsE)
  have pre: "tls_path_valid (tc_ca_file tls)" "tc_ca_file tls ! 0 \<noteq> CHR 0x00" using assms(3) by (simp_all add: path_given_def)
  have "TlsTcpBackend_load_ca_and_crl M b w tls = (if \<not> ok then Some (ERR_IO, b, w1) else if r \<noteq> 0 then Some (ERR_IO, b1, w2)
      else if r3 \<noteq> OK then Some (r3, b1\<lparr> ts_crl_loaded := loaded \<rparr>, w3)
      else Some (OK, b1\<lparr> ts_crl_loaded := loaded \<rparr>, mb_ssl_conf M w3 (Conf_ca_chain loaded)))"
    using f c(1) ver pre assms(2) by (simp add: TlsTcpBackend_load_ca_and_crl_def Let_def b1_def)
  with w1 w2 c show ?thesis by (auto simp: b1_def tls_opening_def conf)
qed

lemma tls_load_certs_returns:
  assumes "I w" and "path_given (tc_cert_file tls)" and "path_given (tc_key_file tls)" and "tls_path_valid (tc_ca_file tls)"
    and "tls_path_valid (tc_crl_file tls)"
  shows "returns (TlsTcpBackend_load_tls_certs M b w tls) (\<lambda>(r, b', w'). I w' \<and> r \<in> {OK, ERR_IO} \<and> tls_opening b b' \<and>
    ts_client_fd b' = ts_client_fd b \<and> ts_session_store b' = ts_session_store b)"
proof -
  let ?cert = "c_string (tc_cert_file tls)"
  define ca where "ca = (if tc_verify_peer tls \<and> tc_ca_file tls ! 0 \<noteq> CHR 0x00 then TlsTcpBackend_load_ca_and_crl M b w tls else Some (OK, b, w))"
  have "returns ca (\<lambda>(r, b', w'). I w' \<and> r \<in> {OK, ERR_IO} \<and> tls_opening b b' \<and> ts_client_fd b' = ts_client_fd b \<and>
      ts_session_store b' = ts_session_store b)"
    using tls_load_ca_returns [OF assms(1) _ _ assms(5), of b] assms(1,4) by (simp add: ca_def path_given_def tls_opening_def)
  then obtain r1 b1 w1 where c: "ca = Some (r1, b1, w1)" "I w1" "r1 \<in> {OK, ERR_IO}" "tls_opening b b1" "ts_client_fd b1 = ts_client_fd b"
      "ts_session_store b1 = ts_session_store b" by (auto elim!: returnsE)
  obtain ok w2 r w3 where f: "tls_path_is_regular_file M w1 ?cert = (ok, w2)" "mb_x509_crt_parse_file M w2 Own_cert ?cert = (r, w3)"
    by (metis surj_pair)
  have w2: "I w2" using regular_file [OF c(2), of ?cert] f(1) by simp
  with crt_parse [OF this, of Own_cert ?cert] f(2) have w3: "I w3" by simp
  have ver: "0 < mb_x509_crt_version M w3 Own_cert" if "r = 0" using crt_version [OF w2, of Own_cert ?cert w3] f(2) that by simp
  have pre: "tls_path_valid (tc_cert_file tls)" "tls_path_valid (tc_key_file tls)" "tc_cert_file tls ! 0 \<noteq> CHR 0x00"
      "tc_key_file tls ! 0 \<noteq> CHR 0x00" using assms by (simp_all add: path_given_def)
  have fr: "tls_opening b (b1\<lparr> ts_cert_version := v \<rparr>)" for v using c(4) by (simp add: tls_opening_def)
  show ?thesis
  proof (cases "r1 = OK \<and> ok \<and> r = 0")
    case False
    with c f w2 w3 pre fr show ?thesis
      by (auto simp: TlsTcpBackend_load_tls_certs_def ca_def [symmetric] Let_def)
  next
    case True
    with c f w2 w3 ver pre fr show ?thesis
      by (auto simp: TlsTcpBackend_load_tls_certs_def ca_def [symmetric] Let_def case_prod_unfold keeps)
  qed
qed

lemma tls_tickets_returns:
  assumes "I w" and "tc_tls_enabled tls" and "tc_session_resumption_enabled tls \<longrightarrow> tc_session_ticket_lifetime_s tls \<le> 604800"
  shows "returns (TlsTcpBackend_maybe_setup_session_tickets M w tls) (\<lambda>(r, w'). I w' \<and> r \<in> {OK, ERR_IO})"
  using assms by (auto simp: TlsTcpBackend_maybe_setup_session_tickets_def TlsTcpBackend_setup_session_tickets_def
      MbedtlsOpsImpl_ssl_ticket_setup_def case_prod_unfold Let_def keeps)

lemma tls_setup_returns:
  assumes "I w" and "tls_config_ok config entropy" and "tc_tls_enabled (tcf_tls config)"
  shows "returns (TlsTcpBackend_setup_tls_config M b w (tcf_tls config)) (\<lambda>(r, b', w'). I w' \<and> r \<in> {OK, ERR_IO} \<and> tls_opening b b' \<and>
    ts_client_fd b' = ts_client_fd b \<and> ts_session_store b' = ts_session_store b)"
proof -
  let ?tls = "tcf_tls config"
  have cfg: "path_given (tc_cert_file ?tls)" "path_given (tc_key_file ?tls)" "tls_path_valid (tc_ca_file ?tls)" "tls_path_valid (tc_crl_file ?tls)"
      "tc_session_resumption_enabled ?tls \<longrightarrow> tc_session_ticket_lifetime_s ?tls \<le> 604800"
    using assms(2,3) by (simp_all add: tls_config_ok_def)
  obtain r w1 r2 w2 where f: "mb_psa_crypto_init M w = (r, w1)" "mb_ssl_config_defaults M w1 (tc_role ?tls) False = (r2, w2)"
    by (metis surj_pair)
  have w1: "I w1" using crypto_init [OF assms(1)] f(1) by simp
  with config_defaults [OF this, of "tc_role ?tls" False] f(2) have w2: "I w2" by simp
  define w3 where "w3 = TlsTcpBackend_apply_cipher_policy M (mb_ssl_conf M w2 (if tc_verify_peer ?tls then Conf_authmode_required else Conf_authmode_none))"
  have w3: "I w3" using w2 by (simp add: w3_def TlsTcpBackend_apply_cipher_policy_def conf)
  from tls_load_certs_returns [OF w3 cfg(1-4), of b] obtain r4 b4 w4 where
    c: "TlsTcpBackend_load_tls_certs M b w3 ?tls = Some (r4, b4, w4)" "I w4" "r4 \<in> {OK, ERR_IO}" "tls_opening b b4"
      "ts_client_fd b4 = ts_client_fd b" "ts_session_store b4 = ts_session_store b" by (auto elim!: returnsE)
  have pre: "tls_path_valid (tc_cert_file ?tls)" "tc_cert_file ?tls ! 0 \<noteq> CHR 0x00" "tls_opening b b"
    using cfg(1) by (simp_all add: path_given_def tls_opening_def)
  from tls_tickets_returns [OF c(2) assms(3) cfg(5)] f w1 w2 c pre assms(3) show ?thesis
    by (auto simp: TlsTcpBackend_setup_tls_config_def Let_def w3_def [symmetric] elim!: returnsE)
qed

lemma tls_save_returns:
  assumes "I w" and "ts_tls_enabled b" and "ts_session_store b \<noteq> None"
  shows "returns (TlsTcpBackend_try_save_client_session M b w) (\<lambda>(b', w'). I w' \<and> tls_opening b b' \<and> ts_client_fd b' = ts_client_fd b)"
  using assms by (auto simp: TlsTcpBackend_try_save_client_session_def TlsSessionStore_try_save_def TlsSessionStore_zeroize_unlocked_def
      TlsTcpBackend_log_fs_warning_if_tls12_def case_prod_unfold Let_def keeps tls_opening_def is_tls12_def split: option.splits)

lemma tls_secrecy_returns:
  assumes "I w" and "ts_tls_enabled b"
  shows "returns (TlsTcpBackend_enforce_forward_secrecy_if_required M b w had) (\<lambda>(r, b', w'). I w' \<and> r \<in> {OK, ERR_IO} \<and> tls_opening b b' \<and>
    ts_client_fd b' = ts_client_fd b \<and> (had \<and> tc_tls_require_forward_secrecy (tcf_tls (ts_cfg b)) \<and> is_tls12 (mb_ssl_get_version M w 0) \<longrightarrow>
      r = ERR_IO \<and> \<not> session_live b'))"
  using assms get_version [of w 0]
  by (auto simp: TlsTcpBackend_enforce_forward_secrecy_if_required_def TlsTcpBackend_check_forward_secrecy_def TlsSessionStore_zeroize_def
      TlsSessionStore_zeroize_unlocked_def Let_def keeps tls_opening_def session_live_def split: option.splits)

text \<open>The client's handshake: on failure the connection is closed again.\<close>

lemma tls_client_handshake_returns:
  assumes "I w" and "ts_tls_enabled b" and "\<not> ts_is_server b" and "0 \<le> ts_client_fd b ! 0" and "ts_client_fd b \<noteq> []" and "handshake_ends M I"
  shows "returns (TlsTcpBackend_tls_connect_handshake M b w) (\<lambda>(r, b', w'). I w' \<and> tls_opening b b' \<and>
    (r = OK \<and> ts_client_fd b' = ts_client_fd b \<or> r = ERR_IO \<and> ts_client_fd b' ! 0 = - 1))"
proof -
  let ?fd = "ts_client_fd b ! 0" and ?host = "tc_peer_hostname (tcf_tls (ts_cfg b))"
  let ?Q = "\<lambda>(r, b', w'). I w' \<and> tls_opening b b' \<and> (r = OK \<and> ts_client_fd b' = ts_client_fd b \<or> r = ERR_IO \<and> ts_client_fd b' ! 0 = - 1)"
  obtain r1 w1 r2 w2 r3 w3 where f: "mb_net_set_block M w ?fd = (r1, w1)" "mb_ssl_setup M w1 0 = (r2, w2)"
      "mb_ssl_set_hostname M w2 0 (if ?host ! 0 \<noteq> CHR 0x00 then Some (c_string ?host) else None) = (r3, w3)" by (metis surj_pair)
  have w1: "I w1" using net_set_block [OF assms(1), of ?fd] f(1) by simp
  have w2: "I w2" using ssl_setup [OF w1, of 0] f(2) by simp
  have w3: "I w3" using set_hostname [OF w2, of 0 "if ?host ! 0 \<noteq> CHR 0x00 then Some (c_string ?host) else None"] f(3) by simp
  define had where "had \<longleftrightarrow> tc_session_resumption_enabled (tcf_tls (ts_cfg b)) \<and> session_live b"
  have res: "TlsTcpBackend_has_resumable_session b = Some had" using assms(3) by (simp add: TlsTcpBackend_has_resumable_session_def had_def)
  obtain w4 where l: "(if had then TlsTcpBackend_try_load_client_session M b w3 else Some w3) = Some w4" "I w4"
    using w3 assms(2) by (cases had) (auto simp: TlsTcpBackend_try_load_client_session_def TlsSessionStore_try_load_def had_def session_live_def
        case_prod_unfold Let_def keeps split: option.splits)
  obtain hs w5 where h: "TlsTcpBackend_run_tls_handshake_loop M 0 (mb_ssl_call M w4 0 (Set_bio ?fd)) = (hs, w5)" by (metis surj_pair)
  have bio: "I (mb_ssl_call M w4 0 (Set_bio ?fd))" using l(2) by (rule ssl_call)
  have w5: "I w5" using handshake_loop_keeps [OF bio, of 0 31] h by (simp add: TlsTcpBackend_run_tls_handshake_loop_def)
  have ends: "hs \<noteq> mb_ERR_SSL_WANT_READ M" "hs \<noteq> mb_ERR_SSL_WANT_WRITE M"
    using assms(6) bio h unfolding handshake_ends_def by (metis fst_conv)+
  have freed: "?Q (ERR_IO, c\<lparr> ts_client_fd := (ts_client_fd c)[0 := - 1] \<rparr>, mb_net_free M v k)"
    if "I v" "tls_opening b c" for v c k using that assms(5) net_free [OF that(1), of k] by (cases "ts_client_fd c") (auto simp: tls_opening_def)
  define tail where "tail = do {
    (fs_res, b, w) \<leftarrow> TlsTcpBackend_enforce_forward_secrecy_if_required M b w5 had;
    if fs_res \<noteq> OK then do { let (b, w) = free_net M b (reset_ssl M w 0) 0; Some (fs_res, b, w) }
    else do {
      (b, w) \<leftarrow> (if tc_session_resumption_enabled (tcf_tls (ts_cfg b)) \<and> ts_session_store b \<noteq> None
        then TlsTcpBackend_try_save_client_session M b w else Some (b, w));
      nc_assert (ts_client_fd b ! 0 \<ge> 0);
      Some (OK, b, w)
    } }"
  have tail: "returns tail ?Q"
  proof -
    from tls_secrecy_returns [OF w5 assms(2), of had] obtain r6 b6 w6 where
      e: "TlsTcpBackend_enforce_forward_secrecy_if_required M b w5 had = Some (r6, b6, w6)" "I w6" "r6 \<in> {OK, ERR_IO}" "tls_opening b b6"
        "ts_client_fd b6 = ts_client_fd b" by (auto elim!: returnsE)
    show ?thesis
    proof (cases "r6 = OK")
      case False
      with e freed [of "reset_ssl M w6 0" b6] show ?thesis by (simp add: tail_def free_net_def reset_ssl_def Let_def keeps)
    next
      case True
      have en: "ts_tls_enabled b6" using e(4) assms(2) by (simp add: tls_opening_def)
      show ?thesis
      proof (cases "tc_session_resumption_enabled (tcf_tls (ts_cfg b6)) \<and> ts_session_store b6 \<noteq> None")
        case save: True
        with tls_save_returns [OF e(2) en] True e assms(4) show ?thesis
          by (auto simp: tail_def tls_opening_def elim!: returnsE)
      next
        case nosave: False
        with True e assms(4) show ?thesis by (auto simp: tail_def)
      qed
    qed
  qed
  have "TlsTcpBackend_tls_connect_handshake M b w =
      (if r1 \<noteq> 0 then Some (ERR_IO, b\<lparr> ts_client_fd := (ts_client_fd b)[0 := - 1] \<rparr>, mb_net_free M w1 ?fd)
       else if r2 \<noteq> 0 then Some (ERR_IO, b\<lparr> ts_client_fd := (ts_client_fd b)[0 := - 1] \<rparr>, mb_net_free M w2 ?fd)
       else if r3 \<noteq> 0 then Some (ERR_IO, b\<lparr> ts_client_fd := (ts_client_fd b)[0 := - 1] \<rparr>, mb_net_free M w3 ?fd)
       else if hs \<noteq> 0 then Some (ERR_IO, b\<lparr> ts_client_fd := (ts_client_fd b)[0 := - 1] \<rparr>, mb_net_free M (reset_ssl M w5 0) ?fd)
       else tail)"
    using f assms(2,4) res l(1) h ends
    by (simp add: TlsTcpBackend_tls_connect_handshake_def MbedtlsOpsImpl_net_set_block_def free_net_def log_stale_ticket_warning_def
        tail_def Let_def cong: if_cong)
  moreover have "tls_opening b b" by (simp add: tls_opening_def)
  moreover have "I (reset_ssl M w5 0)" using w5 by (simp add: reset_ssl_def ssl_call)
  ultimately show ?thesis using freed [OF w1] freed [OF w2] freed [OF w3] freed tail by (auto split del: if_split split: if_split)
qed

lemma tls_connect_returns:
  assumes "I w" and "\<not> ts_is_server b" and "ts_client_fd b ! 0 < 0" and "ts_client_fd b \<noteq> []" and "ts_tls_enabled b \<longrightarrow> handshake_ends M I"
  shows "returns (TlsTcpBackend_connect_to_server M b w) (\<lambda>(r, b', w'). I w' \<and>
    (r = OK \<and> (\<exists>c. tls_opening b c \<and> 0 \<le> ts_client_fd c ! 0 \<and> (\<not> ts_tls_enabled b \<longrightarrow> ts_session_store c = ts_session_store b) \<and>
       b' = c\<lparr> ts_client_count := 1, ts_client_slot_active := (ts_client_slot_active c)[0 := True], ts_open := True,
         ts_connections_opened := ts_connections_opened c + 1 \<rparr>) \<or>
     r = ERR_IO \<and> tls_opening b b' \<and> ts_client_fd b' ! 0 < 0))"
proof -
  obtain r fd w1 where n: "mb_net_connect M w (tcf_peer_ip (ts_cfg b)) (port_to_str (tcf_peer_port (ts_cfg b))) = ((r, fd), w1)" by (metis surj_pair)
  note c = net_connect [OF assms(1) n]
  define b1 where "b1 = b\<lparr> ts_client_fd := (ts_client_fd b)[0 := fd] \<rparr>"
  have b1: "tls_opening b b1" "ts_client_fd b1 ! 0 = fd" "ts_client_fd b1 \<noteq> []" "ts_session_store b1 = ts_session_store b"
      "ts_tls_enabled b1 = ts_tls_enabled b" "\<not> ts_is_server b1"
    using assms(2,4) by (cases "ts_client_fd b"; simp add: b1_def tls_opening_def)+
  show ?thesis
  proof (cases "r = 0")
    case False
    with n c b1 assms(2,3) show ?thesis by (auto simp: TlsTcpBackend_connect_to_server_def Let_def b1_def [symmetric])
  next
    case True
    define h where "h = (if ts_tls_enabled b1 then TlsTcpBackend_tls_connect_handshake M b1 w1 else Some (OK, b1, w1))"
    have "returns h (\<lambda>(r, b', w'). I w' \<and> tls_opening b1 b' \<and> (\<not> ts_tls_enabled b \<longrightarrow> ts_session_store b' = ts_session_store b) \<and>
        (r = OK \<and> ts_client_fd b' ! 0 = fd \<or> r = ERR_IO \<and> ts_client_fd b' ! 0 = - 1))"
    proof (cases "ts_tls_enabled b1")
      case tls: True
      have "0 \<le> ts_client_fd b1 ! 0" using c True b1(2) by simp
      from tls_client_handshake_returns [OF _ tls b1(6) this b1(3), of w1] c tls b1 assms(5) show ?thesis
        by (auto simp: h_def elim!: returns_mono)
    qed (use b1 c in \<open>simp add: h_def tls_opening_def\<close>)
    then obtain r2 b2 w2 where h: "h = Some (r2, b2, w2)" "I w2" "tls_opening b1 b2"
        "\<not> ts_tls_enabled b \<longrightarrow> ts_session_store b2 = ts_session_store b" "r2 = OK \<and> ts_client_fd b2 ! 0 = fd \<or> r2 = ERR_IO \<and> ts_client_fd b2 ! 0 = - 1"
      by (auto elim!: returnsE)
    have fd: "0 \<le> fd" using c True by simp
    have op: "tls_opening b b2" using h(3) b1(1) by (simp add: tls_opening_def)
    define b3 where "b3 = b2\<lparr> ts_client_count := 1, ts_client_slot_active := (ts_client_slot_active b2)[0 := True], ts_open := True,
      ts_connections_opened := ts_connections_opened b2 + 1 \<rparr>"
    have "TlsTcpBackend_connect_to_server M b w = (if r2 \<noteq> OK then Some (r2, b2, w2) else Some (OK, b3, w2))"
    proof -
      have "TlsTcpBackend_connect_to_server M b w = do {
          (res, b, w) \<leftarrow> h;
          if res \<noteq> OK then Some (res, b, w)
          else do {
            let b = b\<lparr> ts_client_count := 1, ts_client_slot_active := (ts_client_slot_active b)[0 := True], ts_open := True,
              ts_connections_opened := ts_connections_opened b + 1 \<rparr>;
            nc_assert (ts_client_fd b ! 0 \<ge> 0);
            nc_assert (ts_client_count b = 1);
            Some (OK, b, w)
          } }" using n True assms(2,3) by (simp add: TlsTcpBackend_connect_to_server_def Let_def h_def b1_def)
      with h(1,5) fd show ?thesis by (auto simp: b3_def Let_def)
    qed
    with h(2,4,5) op fd b3_def show ?thesis by (cases "r2 = OK") auto
  qed
qed

lemma tls_bind_returns:
  assumes "I w" and "ts_is_server b"
  shows "returns (TlsTcpBackend_bind_and_listen M b w ip port) (\<lambda>(r, b', w'). I w' \<and>
    (\<exists>fd. r = OK \<and> 0 \<le> fd \<and> b' = b\<lparr> ts_listen_fd := fd, ts_open := True \<rparr> \<or> r = ERR_IO \<and> b' = b\<lparr> ts_listen_fd := fd \<rparr>))"
proof -
  obtain r fd w1 where n: "mb_net_bind M w ip (port_to_str port) = ((r, fd), w1)" by (metis surj_pair)
  note c = net_bind [OF assms(1) n]
  obtain r2 w2 where f: "mb_net_set_nonblock M w1 fd = (r2, w2)" by (metis surj_pair)
  have w2: "I w2" using net_set_nonblock [of w1 fd] c f by simp
  with n c f assms(2) net_free [OF w2] show ?thesis
    by (auto simp: TlsTcpBackend_bind_and_listen_def MbedtlsOpsImpl_net_set_nonblock_def Let_def)
qed

lemma tls_validate_returns:
  assumes "tls_config_ok config entropy"
  shows "returns (validate_tls_init_config (tcf_tls config)) (\<lambda>r. r \<in> {OK, ERR_IO, ERR_INVALID} \<and>
    (r = OK \<and> tc_tls_enabled (tcf_tls config) \<longrightarrow> tls_settings_safe (tc_role (tcf_tls config) \<noteq> CLIENT) (tcf_tls config)))"
  using assms by (auto simp: validate_tls_init_config_def tls_config_ok_def tls_settings_safe_def path_given_def)

text \<open>The state after the tables have been cleared, and what becomes of it.\<close>

lemma tls_opened:
  assumes "tls_closed b" and "ts_client_slot_active b = replicate 8 False" and "ts_client_node_ids b = replicate 8 0"
    and "ts_client_hello_received b = replicate 8 False" and "link_ok msg_ok inbound_ok (ts_impairment_engine b)"
    and "queue_holds inbound_ok (ts_recv_queue b)" and "tls_opening b c" and "session_live c \<longrightarrow> ts_tls_enabled c"
  shows "ts_is_server b \<Longrightarrow> 0 \<le> fd \<Longrightarrow> tls_inv (c\<lparr> ts_listen_fd := fd, ts_open := True \<rparr>)"
    and "\<not> ts_is_server b \<Longrightarrow> 0 \<le> ts_client_fd c ! 0 \<Longrightarrow> tls_inv (c\<lparr> ts_client_count := 1,
      ts_client_slot_active := (ts_client_slot_active c)[0 := True], ts_open := True, ts_connections_opened := n \<rparr>)"
    and "ts_client_fd c ! 0 < 0 \<Longrightarrow> tls_closed (c\<lparr> ts_listen_fd := fd \<rparr>)" and "ts_client_fd c ! 0 < 0 \<Longrightarrow> tls_closed c"
proof -
  have none: "{i. i < 8 \<and> (replicate 8 False)[0 := True] ! i} = {0 :: nat}" by (auto simp: nth_list_update split: if_splits)
  have u: "unique_nodes (replicate 8 0)" by (simp add: unique_nodes_def)
  note eqs = assms(7) [unfolded tls_opening_def]
  have live: "session_live (c\<lparr> ts_listen_fd := fd, ts_open := True \<rparr>) = session_live c"
      "session_live (c\<lparr> ts_client_count := 1, ts_client_slot_active := a, ts_open := True, ts_connections_opened := n \<rparr>) = session_live c" for a
    by (simp_all add: session_live_def)
  show "ts_is_server b \<Longrightarrow> 0 \<le> fd \<Longrightarrow> tls_inv (c\<lparr> ts_listen_fd := fd, ts_open := True \<rparr>)"
    using assms(1-6,8) eqs u live(1) by (auto simp: tls_inv_def slots_ok_def tls_closed_def)
  show "\<not> ts_is_server b \<Longrightarrow> 0 \<le> ts_client_fd c ! 0 \<Longrightarrow> tls_inv (c\<lparr> ts_client_count := 1,
      ts_client_slot_active := (ts_client_slot_active c)[0 := True], ts_open := True, ts_connections_opened := n \<rparr>)"
    using assms(1-6,8) eqs u none live(2) by (auto simp: tls_inv_def slots_ok_def tls_closed_def nth_list_update)
  show "ts_client_fd c ! 0 < 0 \<Longrightarrow> tls_closed (c\<lparr> ts_listen_fd := fd \<rparr>)" "ts_client_fd c ! 0 < 0 \<Longrightarrow> tls_closed c"
    using assms(1) eqs by (auto simp: tls_closed_def)
qed

lemma tls_start_returns:
  assumes "tls_closed b1" and "ts_client_slot_active b1 = replicate 8 False" and "ts_client_node_ids b1 = replicate 8 0"
    and "ts_client_hello_received b1 = replicate 8 False" and "link_ok msg_ok inbound_ok (ts_impairment_engine b1)"
    and "queue_holds inbound_ok (ts_recv_queue b1)" and "tls_opening b1 b2" and "session_live b2 \<longrightarrow> ts_tls_enabled b2"
    and "I w" and "ts_client_fd b2 ! 0 < 0" and "ts_client_fd b2 \<noteq> []" and "ts_tls_enabled b2 \<and> \<not> ts_is_server b2 \<longrightarrow> handshake_ends M I"
  shows "returns (if ts_is_server b2 then TlsTcpBackend_bind_and_listen M b2 w ip port else TlsTcpBackend_connect_to_server M b2 w)
    (\<lambda>(r, b', w'). I w' \<and> (r = OK \<and> tls_inv b' \<and> tls_opening b1 (b'\<lparr> ts_open := ts_open b1, ts_client_count := ts_client_count b1,
       ts_client_slot_active := ts_client_slot_active b1 \<rparr>) \<or> r = ERR_IO \<and> tls_closed b'))"
proof -
  note opened = tls_opened [OF assms(1-6)]
  have role: "ts_is_server b1 = ts_is_server b2" using assms(7) by (simp add: tls_opening_def)
  show ?thesis
  proof (cases "ts_is_server b2")
    case True
    from tls_bind_returns [OF assms(9) True, of ip port] opened(1,3) [OF assms(7,8)] assms(7,10) role True show ?thesis
      by (auto simp: tls_opening_def elim!: returns_mono)
  next
    case False
    have inv: "tls_inv (c\<lparr> ts_client_count := 1, ts_client_slot_active := (ts_client_slot_active c)[0 := True], ts_open := True,
        ts_connections_opened := ts_connections_opened c + 1 \<rparr>) \<and> tls_opening b1 c"
      if "tls_opening b2 c" "0 \<le> ts_client_fd c ! 0" "\<not> ts_tls_enabled b2 \<longrightarrow> ts_session_store c = ts_session_store b2" for c
    proof -
      have "tls_opening b1 c" by (rule tls_opening_trans [OF assms(7) that(1)])
      moreover have "session_live c \<longrightarrow> ts_tls_enabled c" using that assms(8) by (auto simp: tls_opening_def session_live_def)
      ultimately show ?thesis using opened(2) [of c] that(2) role False by simp
    qed
    have shut: "tls_closed c" if "tls_opening b2 c" "ts_client_fd c ! 0 < 0" for c
      using that assms(1,7) by (auto simp: tls_opening_def tls_closed_def)
    have "ts_tls_enabled b2 \<longrightarrow> handshake_ends M I" using assms(12) False by simp
    from tls_connect_returns [OF assms(9) False assms(10,11) this] obtain r b' w' where
      con: "TlsTcpBackend_connect_to_server M b2 w = Some (r, b', w')" "I w'"
        "r = OK \<and> (\<exists>c. tls_opening b2 c \<and> 0 \<le> ts_client_fd c ! 0 \<and> (\<not> ts_tls_enabled b2 \<longrightarrow> ts_session_store c = ts_session_store b2) \<and>
           b' = c\<lparr> ts_client_count := 1, ts_client_slot_active := (ts_client_slot_active c)[0 := True], ts_open := True,
             ts_connections_opened := ts_connections_opened c + 1 \<rparr>) \<or>
         r = ERR_IO \<and> tls_opening b2 b' \<and> ts_client_fd b' ! 0 < 0" by (auto elim!: returnsE)
    show ?thesis
    proof (cases "r = OK")
      case True
      with con(3) obtain c where c: "tls_opening b2 c" "0 \<le> ts_client_fd c ! 0" "\<not> ts_tls_enabled b2 \<longrightarrow> ts_session_store c = ts_session_store b2"
          "b' = c\<lparr> ts_client_count := 1, ts_client_slot_active := (ts_client_slot_active c)[0 := True], ts_open := True,
            ts_connections_opened := ts_connections_opened c + 1 \<rparr>" by auto
      note i = inv [OF c(1-3)]
      then have "tls_opening b1 (b'\<lparr> ts_open := ts_open b1, ts_client_count := ts_client_count b1,
          ts_client_slot_active := ts_client_slot_active b1 \<rparr>)" by (simp add: c(4) tls_opening_def)
      with i c(4) con(1,2) True False show ?thesis by simp
    next
      case failed: False
      with con shut False show ?thesis by simp
    qed
  qed
qed

lemma tls_init_returns:
  assumes "tls_closed b" and "I w" and "tls_config_ok config entropy" and "session_live b \<longrightarrow> tc_tls_enabled (tcf_tls config)"
    and "tc_tls_enabled (tcf_tls config) \<and> \<not> tcf_is_server config \<longrightarrow> handshake_ends M I"
  shows "returns (TlsTcpBackend_init M b w config entropy) (\<lambda>(r, b', w'). I w' \<and>
    (r = OK \<and> tls_inv b' \<and> ts_is_server b' = tcf_is_server config \<and> ts_tls_enabled b' = tc_tls_enabled (tcf_tls config) \<and>
       ts_client_node_ids b' = replicate 8 0 \<and>
       (tc_tls_enabled (tcf_tls config) \<longrightarrow> tls_settings_safe (tc_role (tcf_tls config) \<noteq> CLIENT) (tcf_tls config)) \<or>
     r \<in> {ERR_IO, ERR_INVALID} \<and> tls_closed b'))"
proof -
  let ?tls = "tcf_tls config"
  have pre: "tcf_kind config = TCP" "\<not> ts_open b" using assms(1,3) by (simp_all add: tls_closed_def tls_config_ok_def)
  from tls_validate_returns [OF assms(3)] obtain v where
    v: "validate_tls_init_config ?tls = Some v" "v \<in> {OK, ERR_IO, ERR_INVALID}"
      "v = OK \<and> tc_tls_enabled ?tls \<longrightarrow> tls_settings_safe (tc_role ?tls \<noteq> CLIENT) ?tls" by (auto elim!: returnsE)
  show ?thesis
  proof (cases "transport_config_valid config \<and> v = OK")
    case False
    with pre v assms(1,2) show ?thesis by (auto simp: TlsTcpBackend_init_def)
  next
    case True
    from assms(1) queue_init [of "ts_recv_queue b" inbound_ok] obtain q where
      q: "RingBuffer_init (ts_recv_queue b) = Some q" "queue_holds inbound_ok q" by (auto simp: tls_closed_def elim!: returnsE)
    from assms(3) link_init [of "first_impairment config" entropy "ts_impairment_engine b" msg_ok inbound_ok] obtain imp where
      i: "ImpairmentEngine_init (ts_impairment_engine b) (first_impairment config) entropy = Some imp" "link_ok msg_ok inbound_ok imp"
      by (auto simp: tls_config_ok_def elim!: returnsE)
    define b1 where "b1 = b\<lparr> ts_cfg := config, ts_is_server := tcf_is_server config, ts_tls_enabled := tc_tls_enabled ?tls,
      ts_local_node_id := NODE_ID_INVALID, ts_client_node_ids := map (\<lambda>_. NODE_ID_INVALID) (ts_client_node_ids b),
      ts_client_hello_received := map (\<lambda>_. False) (ts_client_hello_received b),
      ts_client_slot_active := map (\<lambda>_. False) (ts_client_slot_active b), ts_recv_queue := q, ts_impairment_engine := imp \<rparr>"
    have len: "length (ts_client_node_ids b) = 8" "length (ts_client_hello_received b) = 8" "length (ts_client_slot_active b) = 8"
        "length (rb_buf q) = 64" using assms(1) q(2) by (simp_all add: tls_closed_def queue_holds_def rb_inv_def)
    have b1: "tls_closed b1" "ts_client_slot_active b1 = replicate 8 False" "ts_client_node_ids b1 = replicate 8 0"
        "ts_client_hello_received b1 = replicate 8 False" "link_ok msg_ok inbound_ok (ts_impairment_engine b1)"
        "queue_holds inbound_ok (ts_recv_queue b1)"
      using assms(1) q(2) i(2) len by (simp_all add: b1_def tls_closed_def map_replicate_const)
    have b1': "ts_is_server b1 = tcf_is_server config" "ts_tls_enabled b1 = tc_tls_enabled ?tls" "ts_session_store b1 = ts_session_store b"
        "ts_client_fd b1 = ts_client_fd b" by (simp_all add: b1_def)
    define g where "g = (if ts_tls_enabled b1 then TlsTcpBackend_setup_tls_config M b1 w ?tls else Some (OK, b1, w))"
    have "returns g (\<lambda>(r, b', w'). I w' \<and> r \<in> {OK, ERR_IO} \<and> tls_opening b1 b' \<and> ts_client_fd b' = ts_client_fd b1 \<and>
        ts_session_store b' = ts_session_store b1)"
      using tls_setup_returns [OF assms(2,3), of b1] assms(2) b1'(2) by (simp add: g_def tls_opening_refl)
    then obtain r2 b2 w2 where g: "g = Some (r2, b2, w2)" "I w2" "r2 \<in> {OK, ERR_IO}" "tls_opening b1 b2" "ts_client_fd b2 = ts_client_fd b1"
        "ts_session_store b2 = ts_session_store b1" by (auto elim!: returnsE)
    have b2: "ts_is_server b2 = tcf_is_server config" "ts_tls_enabled b2 = tc_tls_enabled ?tls" "ts_client_fd b2 ! 0 < 0" "ts_client_fd b2 \<noteq> []"
        "session_live b2 \<longrightarrow> ts_tls_enabled b2"
      using g(4-6) b1' assms(1,4) by (auto simp: tls_opening_def tls_closed_def session_live_def)
    define h where "h = (if ts_is_server b2 then TlsTcpBackend_bind_and_listen M b2 w2 (tcf_bind_ip config) (tcf_bind_port config)
      else TlsTcpBackend_connect_to_server M b2 w2)"
    have ends: "ts_tls_enabled b2 \<and> \<not> ts_is_server b2 \<longrightarrow> handshake_ends M I" using assms(5) b2(1,2) by simp
    have h: "returns h (\<lambda>(r, b', w'). I w' \<and> (r = OK \<and> tls_inv b' \<and> tls_opening b1 (b'\<lparr> ts_open := ts_open b1,
        ts_client_count := ts_client_count b1, ts_client_slot_active := ts_client_slot_active b1 \<rparr>) \<or> r = ERR_IO \<and> tls_closed b'))"
      unfolding h_def by (rule tls_start_returns [OF b1 g(4) b2(5) g(2) b2(3,4) ends])
    then obtain r3 b3 w3 where h3: "h = Some (r3, b3, w3)" "I w3" "r3 = OK \<and> tls_inv b3 \<and> tls_opening b1 (b3\<lparr> ts_open := ts_open b1,
        ts_client_count := ts_client_count b1, ts_client_slot_active := ts_client_slot_active b1 \<rparr>) \<or> r3 = ERR_IO \<and> tls_closed b3"
      by (auto elim!: returnsE)
    have step: "TlsTcpBackend_init M b w config entropy = (if r2 \<noteq> OK then Some (r2, b2, w2) else do {
        (res, b, w) \<leftarrow> h; if res \<noteq> OK then Some (res, b, w) else do { nc_assert (ts_open b); Some (OK, b, w) } })"
    proof -
      have "TlsTcpBackend_init M b w config entropy = do {
          (res, b, w) \<leftarrow> g;
          if res \<noteq> OK then Some (res, b, w) else do {
            (res, b, w) \<leftarrow> (if ts_is_server b then TlsTcpBackend_bind_and_listen M b w (tcf_bind_ip config) (tcf_bind_port config)
              else TlsTcpBackend_connect_to_server M b w);
            if res \<noteq> OK then Some (res, b, w) else do { nc_assert (ts_open b); Some (OK, b, w) } } }"
        using True pre v(1) q(1) i(1) by (simp add: TlsTcpBackend_init_def Let_def b1_def g_def)
      then show ?thesis by (simp add: g(1) h_def)
    qed
    show ?thesis
    proof (cases "r2 = OK")
      case False
      with step g(2,3) tls_opened(4) [OF b1 g(4) b2(5,3)] show ?thesis by simp
    next
      case ok: True
      show ?thesis
      proof (cases "r3 = OK")
        case False
        with step ok h3 show ?thesis by simp
      next
        case fine: True
        with h3(3) have inv: "tls_inv b3" "ts_is_server b3 = tcf_is_server config" "ts_tls_enabled b3 = tc_tls_enabled ?tls"
            "ts_client_node_ids b3 = replicate 8 0" using b1' b1(3) by (simp_all add: tls_opening_def)
        have "ts_open b3" using inv(1) by (simp add: tls_inv_def)
        with step ok fine h3(1,2) inv v(3) True show ?thesis by simp
      qed
    qed
  qed
qed

lemma tls_close_slots_returns:
  assumes "I w" and "length (ts_client_fd b) = 8" and "length (ts_client_slot_active b) = 8" and "length (ts_client_hello_received b) = 8"
  shows "returns (for_each (close_slot M) [0..<8] (b, w)) (\<lambda>(b', w'). I w' \<and>
    b' = b\<lparr> ts_client_fd := replicate 8 (- 1), ts_client_slot_active := replicate 8 False, ts_client_hello_received := replicate 8 False \<rparr>)"
proof -
  let ?f = "\<lambda>k x xs. replicate k x @ drop k xs"
  have upd: "(?f k x xs)[k := x] = ?f (Suc k) x xs" if "k < 8" "length xs = 8" for k :: nat and x :: 'b and xs
    using that by (simp add: list_update_append Cons_nth_drop_Suc [symmetric] replicate_append_same [symmetric])
  let ?P = "\<lambda>k (b', w'). I w' \<and> b' = b\<lparr> ts_client_fd := ?f k (- 1) (ts_client_fd b), ts_client_slot_active := ?f k False (ts_client_slot_active b),
    ts_client_hello_received := ?f k False (ts_client_hello_received b) \<rparr>"
  have "returns (for_each (close_slot M) [0..<8] (b, w)) (?P 8)"
  proof (rule for_each_upt)
    fix k st assume "k < 8" and "?P k st"
    then show "returns (close_slot M k st) (?P (Suc k))"
      using assms by (auto simp: close_slot_def free_net_def net_free upd simp del: replicate_Suc)
  qed (use assms in simp)
  with assms show ?thesis by simp
qed

lemma tls_close_returns:
  assumes "tls_inv b" and "I w"
  shows "returns (TlsTcpBackend_close M b w) (\<lambda>(b', w'). tls_closed b' \<and> I w' \<and> ts_client_fd b' = replicate 8 (- 1) \<and> ts_listen_fd b' = - 1 \<and>
    ts_session_store b' = ts_session_store b)"
proof -
  have inv: "ts_open b" "length (ts_client_fd b) = 8" "length (ts_client_slot_active b) = 8" "length (ts_client_hello_received b) = 8"
      "session_live b \<longrightarrow> ts_tls_enabled b" "length (rb_buf (ts_recv_queue b)) = 64"
    using assms(1) by (simp_all add: tls_inv_def slots_ok_def queue_holds_def rb_inv_def)
  define b1 where "b1 = b\<lparr> ts_open := False \<rparr>"
  have sess: "returns (for_each (close_session M b1) [0..<8] w) I"
    by (rule for_each_inv) (use assms(2) in \<open>simp_all add: close_session_def reset_ssl_def keeps\<close>)
  obtain w1 where w1: "(if ts_tls_enabled b1 then for_each (close_session M b1) [0..<8] w else Some w) = Some w1" "I w1"
    using sess assms(2) by (cases "ts_tls_enabled b1") (auto elim!: returnsE)
  from tls_close_slots_returns [OF w1(2), of b1] inv obtain w2 where
    s: "for_each (close_slot M) [0..<8] (b1, w1) = Some (b1\<lparr> ts_client_fd := replicate 8 (- 1), ts_client_slot_active := replicate 8 False,
      ts_client_hello_received := replicate 8 False \<rparr>, w2)" "I w2" by (auto simp: b1_def elim!: returnsE)
  have warn: "log_live_session_material_warning (ts_session_store b) = Some (session_live b)"
    by (simp add: log_live_session_material_warning_def session_live_def Let_def split: option.split)
  define b2 where "b2 = b1\<lparr> ts_client_fd := replicate 8 (- 1), ts_client_slot_active := replicate 8 False,
    ts_client_hello_received := replicate 8 False, ts_listen_fd := - 1, ts_crl_loaded := False,
    ts_connections_closed := ts_connections_closed b + of_nat (ts_client_count b), ts_client_count := 0, ts_fs_warning_logged := False \<rparr>"
  have "TlsTcpBackend_close M b w = Some (b2, mb_ssl_conf M (mb_ssl_conf M (mb_net_free M w2 (ts_listen_fd b)) Ticket_free) Crl_free)"
    using inv(1,5) tls_count_le [OF assms(1)] w1(1) s(1) warn
    by (cases "ts_tls_enabled b") (simp_all add: TlsTcpBackend_close_def b1_def b2_def Let_def)
  moreover have "tls_closed b2" using assms(1) inv(6) by (simp add: b2_def b1_def tls_closed_def tls_inv_def slots_ok_def)
  ultimately show ?thesis using s(2) by (simp add: b2_def b1_def keeps)
qed

lemma tls_hello_peer_returns:
  "tls_inv b \<Longrightarrow> returns (TlsTcpBackend_pop_hello_peer b) (\<lambda>(n, b'). tls_inv b' \<and> tls_same_role b b')"
  by (simp add: TlsTcpBackend_pop_hello_peer_def tls_inv_def tls_same_role_def)

lemma tls_transport_keeps: "transport_keeps (tls_transport S X M) (\<lambda>(b, w). tls_inv b \<and> I w \<and> (ts_is_server b \<or> ts_tls_enabled b))"
proof -
  let ?J = "\<lambda>b w. tls_inv b \<and> I w \<and> (ts_is_server b \<or> ts_tls_enabled b)"
  have role: "ts_is_server b' \<or> ts_tls_enabled b'" if "tls_same_role b b'" "ts_is_server b \<or> ts_tls_enabled b" for b b'
    using that by (simp add: tls_same_role_def)
  have "returns (TlsTcpBackend_register_local_id S M b w n) (\<lambda>(r, b', w'). ?J b' w')" if "?J b w" "n \<noteq> 0" for b w n
    using tls_register_returns [of b w n] that by (auto simp: tls_same_role_def dest!: tls_sent_stepD(5) elim!: returns_mono)
  moreover have "returns (TlsTcpBackend_send_message S X M b w env) (\<lambda>(r, b', w'). ?J b' w' \<and> r \<in> {OK, ERR_IO, ERR_INVALID, ERR_FULL})"
    if "?J b w" "msg_ok env" for b w env
    using tls_send_message_returns [of b w env] that role [OF tls_sent_stepD(5), of b] by (auto elim!: returns_mono)
  moreover have "returns (TlsTcpBackend_receive_message S X M b w env ms) (\<lambda>(r, env', b', w'). ?J b' w' \<and>
      (r = OK \<and> inbound_ok env' \<or> r = ERR_TIMEOUT \<and> env' = env))" if "?J b w" for b w env ms
    using tls_receive_returns [of b w env ms] that role [of b] by (auto elim!: returns_mono)
  moreover have "returns (tr_pop_hello_peer (tls_transport S X M) (b, w)) (\<lambda>(n, b', w'). ?J b' w')" if "?J b w" for b w
    using tls_hello_peer_returns [of b] that role [of b] by (auto simp: tls_transport_def elim!: returnsE)
  ultimately show ?thesis by (simp add: transport_keeps_def case_prod_unfold) (simp add: tls_transport_def)
qed

text \<open>The sweep removes every connection that is late with its HELLO, and no other.\<close>

lemma tls_sweep_exact:
  assumes "tls_inv b" and "I w" and "ts_is_server b" and "read_clock X w = Some (now, w1)"
  shows "returns (TlsTcpBackend_sweep_hello_timeouts X M b w) (\<lambda>(b', w'). tls_inv b' \<and> I w' \<and>
    (\<forall>i < 8. ts_client_slot_active b' ! i \<longleftrightarrow> ts_client_slot_active b ! i \<and> (ts_client_hello_received b ! i \<or> ts_client_accept_ts b ! i = 0 \<or>
       now - ts_client_accept_ts b ! i \<le> ucast (cc_recv_timeout_ms (tcf_channels (ts_cfg b) ! 0)) * 1000)))"
proof -
  let ?tmo = "ucast (cc_recv_timeout_ms (tcf_channels (ts_cfg b) ! 0)) * 1000 :: u64"
  let ?stays = "\<lambda>i. ts_client_slot_active b ! i \<and> (ts_client_hello_received b ! i \<or> ts_client_accept_ts b ! i = 0 \<or> now - ts_client_accept_ts b ! i \<le> ?tmo)"
  let ?P = "\<lambda>k (b', w'). tls_inv b' \<and> I w' \<and> (\<forall>i < k. ts_client_slot_active b' ! i = ?stays i) \<and> (\<forall>i < 8. k \<le> i \<longrightarrow>
    ts_client_slot_active b' ! i = ts_client_slot_active b ! i \<and> ts_client_hello_received b' ! i = ts_client_hello_received b ! i \<and>
    ts_client_accept_ts b' ! i = ts_client_accept_ts b ! i)"
  have w1: "I w1" using now_returns [OF assms(2)] assms(4) by simp
  have "returns (for_each (sweep_slot M now ?tmo) [0..<8] (b, w1)) (?P 8)"
  proof (rule for_each_upt [where P = ?P])
    fix k st assume k: "k < 8" and "?P k st"
    then obtain b2 w2 where st: "st = (b2, w2)" "tls_inv b2" "I w2" "\<forall>i < k. ts_client_slot_active b2 ! i = ?stays i"
        "\<forall>i < 8. k \<le> i \<longrightarrow> ts_client_slot_active b2 ! i = ts_client_slot_active b ! i \<and>
           ts_client_hello_received b2 ! i = ts_client_hello_received b ! i \<and> ts_client_accept_ts b2 ! i = ts_client_accept_ts b ! i"
      by (cases st) auto
    have here: "ts_client_slot_active b2 ! k = ts_client_slot_active b ! k" "ts_client_hello_received b2 ! k = ts_client_hello_received b ! k"
        "ts_client_accept_ts b2 ! k = ts_client_accept_ts b ! k" using st(5) k by auto
    show "returns (sweep_slot M now ?tmo k st) (?P (Suc k))"
    proof (cases "ts_client_slot_active b ! k \<and> \<not> ?stays k")
      case False
      then have "sweep_slot M now ?tmo k st = Some st" using here by (auto simp: sweep_slot_def st(1) not_le)
      with False st here show ?thesis by (auto simp: less_Suc_eq)
    next
      case True
      then have "sweep_slot M now ?tmo k st = TlsTcpBackend_remove_client M b2 w2 k" using here by (auto simp: sweep_slot_def st(1) not_le)
      with tls_remove_returns [OF st(2,3) k] True here st(4,5) k show ?thesis
        by (auto simp: other_slots_def less_Suc_eq elim!: returnsE)
    qed
  qed (use assms w1 in simp)
  with assms(3,4) tls_count_le [OF assms(1)] show ?thesis
    by (auto simp: TlsTcpBackend_sweep_hello_timeouts_def Let_def elim!: returns_mono)
qed

end

section \<open>Properties\<close>


lemma tls_closed_new: "tls_closed (TlsTcpBackend_new cfg imp)"
  by (simp add: tls_closed_def TlsTcpBackend_new_def RingBuffer_new_def)

lemma mbedtls_null_ends: "handshake_ends mbedtls_null I"
  by (simp add: handshake_ends_def TlsTcpBackend_run_tls_handshake_loop_def mbedtls_null_def mbedtls_plain_def numeral_eq_Suc)


text \<open>Claim C26. Every message taken from a connection is authentic, and connections do not disturb each other: a frame on slot \<open>idx\<close>
  adds at most one message to those that wait, under the node identifier registered on that slot (a client learns the server's
  from the first message it accepts and is bound to it); whatever the frame is, no other slot changes.\<close>

theorem tls_source_authenticated:
  assumes "tls_env (SocketOpsImpl X) I X M" and "tls_inv b" and "I w" and "idx < 8" and "ts_client_slot_active b ! idx"
  shows "returns (TlsTcpBackend_recv_from_client (SocketOpsImpl X) X M b w idx ms)
    (\<lambda>(r, b', w'). tls_inv b' \<and> tls_same_role b b' \<and> other_slots idx b b' \<and> tls_authentic_step b idx b')"
  using tls_env.tls_recv_client_returns [OF assms, of ms] by (auto elim!: returns_mono)

lemma all_less_8: "(\<forall>i < 8. P i) \<longleftrightarrow> P 0 \<and> P 1 \<and> P 2 \<and> P 3 \<and> P 4 \<and> P 5 \<and> P 6 \<and> P (7 :: nat)"
  by (auto simp: All_less_Suc numeral_eq_Suc)

lemma tls_example_inv: "tls_inv tls_server_example" "tls_inv tls_client_example"
proof -
  have imp: "link_ok msg_ok inbound_ok (imp_blank impairment_config_default)"
    by (rule blank_ok) (simp add: imp_config_ok_def draws_no_double_def impairment_config_default_def)
  have "{i. i < 8 \<and> [True, True, False, False, False, False, False, False] ! i} = {0, 1 :: nat}"
      "{i. i < 8 \<and> [True, False, False, False, False, False, False, False] ! i} = {0 :: nat}"
    by (auto simp: less_Suc_eq numeral_eq_Suc)
  then have card: "card {i. i < 8 \<and> [True, True, False, False, False, False, False, False] ! i} = 2"
      "card {i. i < 8 \<and> [True, False, False, False, False, False, False, False] ! i} = 1" by simp_all
  have z: "unique_nodes (replicate 8 0)" by (simp add: unique_nodes_def)
  have "unique_nodes ((replicate 8 0)[0 := 7])" by (rule unique_nodes_update [OF z]) simp
  moreover have "(replicate 8 (0 :: NodeId))[0 := 7] = [7, 0, 0, 0, 0, 0, 0, 0]" by (simp add: numeral_eq_Suc)
  ultimately have u: "unique_nodes [7, 0, 0, 0, 0, 0, 0, 0]" "unique_nodes (replicate 8 0)" using z by simp_all
  have "slots_ok tls_server_example" "slots_ok tls_client_example"
    using card u by (simp_all add: slots_ok_def tls_server_example_def tls_client_example_def TlsTcpBackend_new_def all_less_8)
  then show "tls_inv tls_server_example" "tls_inv tls_client_example"
    using imp rb_inv_new
    by (simp_all add: tls_inv_def) (simp_all add: tls_server_example_def tls_client_example_def TlsTcpBackend_new_def queue_holds_def session_live_def)
qed

theorem tls_source_authenticated_witness:
  "returns (TlsTcpBackend_recv_from_client (SocketOpsImpl posix_loopback) posix_loopback mbedtls_null tls_server_example ([], []) 1 100)
    (\<lambda>(r, b', w'). tls_inv b' \<and> tls_same_role tls_server_example b' \<and> other_slots 1 tls_server_example b' \<and>
      tls_authentic_step tls_server_example 1 b')"
  by (rule tls_source_authenticated [OF null_tls.tls_env_axioms tls_example_inv(1) TrueI]) (simp_all add: tls_server_example_def)

text \<open>Claim C27. A connection that does not say HELLO does not keep its slot: a sweep removes every accepted connection whose HELLO is
  overdue, longer than the first channel's receive time-out, and it removes no other connection.\<close>

theorem tls_silent_connections_removed:
  assumes "tls_env (SocketOpsImpl X) I X M" and "tls_inv b" and "I w" and "ts_is_server b" and "read_clock X w = Some (now, w1)"
  shows "returns (TlsTcpBackend_sweep_hello_timeouts X M b w) (\<lambda>(b', w'). tls_inv b' \<and>
    (\<forall>i < 8. ts_client_slot_active b' ! i \<longleftrightarrow> ts_client_slot_active b ! i \<and> (ts_client_hello_received b ! i \<or> ts_client_accept_ts b ! i = 0 \<or>
       now - ts_client_accept_ts b ! i \<le> ucast (cc_recv_timeout_ms (tcf_channels (ts_cfg b) ! 0)) * 1000)))"
  using tls_env.tls_sweep_exact [OF assms] by (auto elim!: returns_mono)

text \<open>With a time-out of 900 ms and a clock at one second, the silent connection of the example goes and the registered one stays.\<close>

theorem tls_silent_connections_removed_witness:
  "returns (TlsTcpBackend_sweep_hello_timeouts posix_loopback mbedtls_null
      (tls_server_example\<lparr> ts_cfg := transport_config_default\<lparr> tcf_channels := [channel_config_default 0\<lparr> cc_recv_timeout_ms := 900 \<rparr>] \<rparr> \<rparr>) ([], []))
    (\<lambda>(b', w'). ts_client_slot_active b' ! 0 \<and> \<not> ts_client_slot_active b' ! 1)"
proof -
  let ?b = "tls_server_example\<lparr> ts_cfg := transport_config_default\<lparr> tcf_channels := [channel_config_default 0\<lparr> cc_recv_timeout_ms := 900 \<rparr>] \<rparr> \<rparr>"
  have inv: "tls_inv ?b" using tls_example_inv(1) by (simp add: tls_inv_def slots_ok_def session_live_def)
  have "read_clock posix_loopback ([], []) = Some (1000000, [], [])"
    by (simp add: read_clock_def timestamp_now_us_def posix_loopback_def)
  from tls_silent_connections_removed [OF null_tls.tls_env_axioms inv TrueI _ this] show ?thesis
    by (auto simp: all_less_8 tls_server_example_def elim!: returns_mono)
qed

text \<open>When a client loses its connection the backend stays open without a socket: \<open>is_open\<close> then trips its assertion, and so
  does registering in plaintext, because the HELLO is sent on the closed descriptor.\<close>

theorem tls_client_aborts_after_loss:
  assumes "tls_env (SocketOpsImpl X) I X M" and "tls_inv b" and "I w" and "\<not> ts_is_server b" and "ts_listen_fd b < 0"
    and "ts_client_slot_active b ! 0"
    and "TlsTcpBackend_tls_recv_frame (SocketOpsImpl X) M b w 0 (ts_wire_buf b) SOCKET_RECV_BUF_BYTES ms = Some (False, buf, len, w1)"
  shows "returns (TlsTcpBackend_recv_from_client (SocketOpsImpl X) X M b w 0 ms)
    (\<lambda>(r, b', w'). r = ERR_IO \<and> ts_open b' \<and> TlsTcpBackend_is_open b' = None \<and>
      (\<forall>n. \<not> ts_tls_enabled b \<and> n \<noteq> 0 \<longrightarrow> TlsTcpBackend_register_local_id (SocketOpsImpl X) M b' w' n = None))"
proof -
  have one: "{i. i < 8 \<and> ts_client_slot_active b ! i} = {0}"
    using assms(4,6) tls_client_slot [OF assms(2)] by auto
  have inv: "ts_open b" "ts_client_count b = 1" "length (ts_client_fd b) = 8" using assms(2) one by (simp_all add: tls_inv_def slots_ok_def)
  define b' where "b' = b\<lparr> ts_wire_buf := buf, ts_client_fd := (ts_client_fd b)[0 := - 1], ts_client_slot_active := (ts_client_slot_active b)[0 := False],
    ts_client_node_ids := (ts_client_node_ids b)[0 := 0], ts_client_hello_received := (ts_client_hello_received b)[0 := False],
    ts_client_accept_ts := (ts_client_accept_ts b)[0 := 0], ts_client_count := 0, ts_connections_closed := ts_connections_closed b + 1 \<rparr>"
  obtain w' where step: "TlsTcpBackend_recv_from_client (SocketOpsImpl X) X M b w 0 ms = Some (ERR_IO, b', w')"
    using assms(7) inv by (simp add: TlsTcpBackend_recv_from_client_def TlsTcpBackend_remove_client_def free_net_def Let_def b'_def)
  have "length (ts_wire_buf b') = 8192"
    using tls_env.tls_recv_frame_returns [OF assms(1-3) _ assms(6), of ms] assms(7) by (simp add: b'_def)
  moreover have "TlsTcpBackend_register_local_id (SocketOpsImpl X) M b' w' n = None"
    if plain: "\<not> ts_tls_enabled b" and n: "n \<noteq> 0" and len: "length (ts_wire_buf b') = 8192" for n
  proof -
    obtain buf' where "serialize (envelope_init\<lparr> message_type := HELLO, source_id := n, destination_id := 0,
        payload_length := 0 \<rparr>) (ts_wire_buf b') 8192 0 = Some (OK, buf', 52)"
      using serialize_fits [OF len hello_msg_ok [OF n]] by (auto simp: envelope_init_def)
    with plain n inv assms(4) show ?thesis
      by (simp add: TlsTcpBackend_register_local_id_def TlsTcpBackend_send_hello_frame_def TlsTcpBackend_tls_send_frame_def SocketOpsImpl_def
          b'_def Let_def)
  qed
  ultimately show ?thesis using step inv assms(5) by (simp add: TlsTcpBackend_is_open_def) (simp add: b'_def)
qed

theorem tls_client_aborts_after_loss_witness:
  "returns (TlsTcpBackend_recv_from_client (SocketOpsImpl posix_loopback) posix_loopback mbedtls_null tls_client_example ([], []) 0 100)
    (\<lambda>(r, b', w'). r = ERR_IO \<and> TlsTcpBackend_is_open b' = None \<and>
      TlsTcpBackend_register_local_id (SocketOpsImpl posix_loopback) mbedtls_null b' w' 5 = None)"
proof -
  have ex: "ts_client_fd tls_client_example ! 0 = 4" "\<not> ts_is_server tls_client_example" "ts_listen_fd tls_client_example < 0"
      "ts_client_slot_active tls_client_example ! 0" "\<not> ts_tls_enabled tls_client_example"
    by (simp_all add: tls_client_example_def TlsTcpBackend_new_def)
  have "TlsTcpBackend_tls_recv_frame (SocketOpsImpl posix_loopback) mbedtls_null tls_client_example ([], []) 0 (ts_wire_buf tls_client_example)
      SOCKET_RECV_BUF_BYTES 100 = Some (False, ts_wire_buf tls_client_example, 0, [], [])"
    using ex(1,5) by (simp add: TlsTcpBackend_tls_recv_frame_def SocketOpsImpl_def tcp_recv_frame_def socket_recv_exact_def recv_exact_loop.simps
        posix_loopback_def)
  from tls_client_aborts_after_loss [OF null_tls.tls_env_axioms tls_example_inv(2) TrueI ex(2-4) this] ex(5) show ?thesis
    by (auto elim!: returns_mono)
qed

text \<open>A TLS client aborts when the handshake is still waiting for the peer after 32 attempts: the warning about a stale ticket
  asserts that the result is not one of the waiting codes, but the loop returns it.\<close>

theorem tls_stalled_handshake_aborts:
  assumes "ts_tls_enabled b" and "\<not> ts_is_server b" and "0 \<le> ts_client_fd b ! 0"
    and "fst (mb_net_set_block M w (ts_client_fd b ! 0)) = 0" and "\<And>v. fst (mb_ssl_setup M v 0) = 0" and "\<And>v h. fst (mb_ssl_set_hostname M v 0 h) = 0"
    and "\<And>v. fst (mb_ssl_handshake M v 0) = mb_ERR_SSL_WANT_READ M" and "mb_ERR_SSL_WANT_READ M \<noteq> 0"
  shows "TlsTcpBackend_tls_connect_handshake M b w = None"
proof -
  have "fst (tls_handshake_loop M 0 n v) = mb_ERR_SSL_WANT_READ M" for n v
    using assms(7) by (induction n arbitrary: v) (simp_all add: case_prod_unfold Let_def)
  then have stall: "fst (TlsTcpBackend_run_tls_handshake_loop M 0 v) = mb_ERR_SSL_WANT_READ M" for v
    by (simp add: TlsTcpBackend_run_tls_handshake_loop_def)
  have "log_stale_ticket_warning M had (mb_ERR_SSL_WANT_READ M) = None" for had by (simp add: log_stale_ticket_warning_def nc_assert_def)
  with assms stall show ?thesis
    by (auto simp: TlsTcpBackend_tls_connect_handshake_def MbedtlsOpsImpl_net_set_block_def case_prod_unfold Let_def
        split: Option.bind_splits)
qed

theorem tls_stalled_handshake_aborts_witness:
  "TlsTcpBackend_tls_connect_handshake mbedtls_stalled (tls_client_example\<lparr> ts_tls_enabled := True \<rparr>) ([], []) = None"
  by (rule tls_stalled_handshake_aborts)
    (simp_all add: tls_client_example_def TlsTcpBackend_new_def mbedtls_stalled_def mbedtls_null_def mbedtls_plain_def)


end
