(* ===== verification/ConfigLoader.thy ===== *)
theory ConfigLoader
  imports Impairment ChannelConfig
begin

text \<open>
  \<open>src/platform/ImpairmentConfigLoader.cpp\<close>: the loader of impairment configuration files, with the functions of the C library
  it uses: \<open>fgets\<close>, \<open>sscanf\<close> with its one format, \<open>strtoul\<close>, \<open>strtoull\<close> (both 64 bits wide) and \<open>strtod\<close> in the C locale. The
  file system maps a path to the contents of the file, if it can be opened; reading does not fail. Numbers of type \<open>double\<close> are
  real numbers, without rounding.
\<close>

section \<open>Characters\<close>

definition is_blank :: "char \<Rightarrow> bool" where
  "is_blank c \<longleftrightarrow> c = CHR '' '' \<or> c = CHR 0x09"

definition isspace :: "char \<Rightarrow> bool" where
  "isspace c \<longleftrightarrow> c = CHR '' '' \<or> c = CHR 0x09 \<or> c = CHR 0x0A \<or> c = CHR 0x0B \<or> c = CHR 0x0C \<or> c = CHR 0x0D"

definition isdigit :: "char \<Rightarrow> bool" where
  "isdigit c \<longleftrightarrow> (48 :: nat) \<le> of_char c \<and> of_char c \<le> (57 :: nat)"

definition tolower :: "char \<Rightarrow> char" where
  "tolower c = (if (65 :: nat) \<le> of_char c \<and> of_char c \<le> (90 :: nat) then char_of (of_char c + 32 :: nat) else c)"

text \<open>The value of a digit in base 10 or 16.\<close>

definition digit_value :: "char \<Rightarrow> nat" where
  "digit_value c = (if isdigit c then of_char c - 48 else of_char (tolower c) - 87)"

definition isxdigit :: "char \<Rightarrow> bool" where
  "isxdigit c \<longleftrightarrow> isdigit c \<or> (97 :: nat) \<le> of_char (tolower c) \<and> of_char (tolower c) \<le> (102 :: nat)"

definition number :: "nat \<Rightarrow> string \<Rightarrow> nat" where
  "number base ds = foldl (\<lambda>v c. base * v + digit_value c) 0 ds"

section \<open>strtoul and strtod\<close>

fun split_sign :: "string \<Rightarrow> bool \<times> string" where
  "split_sign (c # s) = (if c = CHR ''-'' then (True, s) else if c = CHR ''+'' then (False, s) else (False, c # s))"
| "split_sign [] = (False, [])"

definition ULONG_MAX :: nat where [simp]: "ULONG_MAX = 18446744073709551615"

text \<open>The value, whether \<open>errno\<close> is \<open>ERANGE\<close>, and the rest of the string; nothing if no number was found. A minus sign negates the
  value in the result type.\<close>

definition strtoul :: "string \<Rightarrow> (nat \<times> bool \<times> string) option" where
  "strtoul s = (let (neg, s1) = split_sign (dropWhile isspace s); ds = takeWhile isdigit s1; v = number 10 ds
     in if ds = [] then None
        else Some (if v > ULONG_MAX then ULONG_MAX else if neg then (ULONG_MAX + 1 - v) mod (ULONG_MAX + 1) else v,
          v > ULONG_MAX, dropWhile isdigit s1))"

datatype dbl = Finite real | Infinite | NotANumber

text \<open>Digits with an optional decimal point: their value without the point, how many stand behind it, and the rest.\<close>

definition scan_mantissa :: "(char \<Rightarrow> bool) \<Rightarrow> nat \<Rightarrow> string \<Rightarrow> (nat \<times> nat \<times> string) option" where
  "scan_mantissa isd base s = (let ip = takeWhile isd s; r = dropWhile isd s;
       (fp, rest) = (case r of [] \<Rightarrow> ([], r) | c # r' \<Rightarrow> if c = CHR ''.'' then (takeWhile isd r', dropWhile isd r') else ([], r))
     in if ip = [] \<and> fp = [] then None else Some (number base (ip @ fp), length fp, rest))"

text \<open>An exponent introduced by the character \<open>e\<close>, in either case; without digits it is not taken.\<close>

definition scan_exponent :: "char \<Rightarrow> string \<Rightarrow> int \<times> string" where
  "scan_exponent e s = (case s of [] \<Rightarrow> (0, s) | c # r \<Rightarrow>
     if tolower c = e then (case split_sign r of (neg, r') \<Rightarrow> let ds = takeWhile isdigit r' in
       if ds = [] then (0, s) else ((if neg then - int (number 10 ds) else int (number 10 ds)), dropWhile isdigit r'))
     else (0, s))"

definition scale :: "nat \<Rightarrow> nat \<Rightarrow> int \<Rightarrow> real" where
  "scale m base e = (if e \<ge> 0 then real m * real base ^ nat e else real m / real base ^ nat (- e))"

definition has_prefix :: "string \<Rightarrow> string \<Rightarrow> bool" where
  "has_prefix p s \<longleftrightarrow> map tolower (take (length p) s) = p"

text \<open>A finite value that exceeds the largest \<open>double\<close> by half a unit in the last place becomes infinite.\<close>

definition to_dbl :: "bool \<Rightarrow> real \<Rightarrow> dbl" where
  "to_dbl neg v = (if v \<ge> 2 ^ 1024 - 2 ^ 970 then Infinite else Finite (if neg then - v else v))"

definition after_nan :: "string \<Rightarrow> string" where
  "after_nan s = (case s of [] \<Rightarrow> s | c # r \<Rightarrow> if c = CHR ''('' then
     (let t = dropWhile (\<lambda>c. isxdigit c \<or> (103 :: nat) \<le> of_char (tolower c) \<and> of_char (tolower c) \<le> (122 :: nat) \<or> c = CHR ''_'') r in
      case t of [] \<Rightarrow> s | c' # r' \<Rightarrow> if c' = CHR '')'' then r' else s) else s)"

definition strtod :: "string \<Rightarrow> (dbl \<times> string) option" where
  "strtod s = (let (neg, s1) = split_sign (dropWhile isspace s) in
     if has_prefix ''infinity'' s1 then Some (Infinite, drop 8 s1)
     else if has_prefix ''inf'' s1 then Some (Infinite, drop 3 s1)
     else if has_prefix ''nan'' s1 then Some (NotANumber, after_nan (drop 3 s1))
     else case (if has_prefix ''0x'' s1 then scan_mantissa isxdigit 16 (drop 2 s1) else None) of
       Some (m, k, r) \<Rightarrow> (case scan_exponent (CHR ''p'') r of (e, rest) \<Rightarrow> Some (to_dbl neg (scale m 2 (e - 4 * int k)), rest))
     | None \<Rightarrow> (case scan_mantissa isdigit 10 s1 of None \<Rightarrow> None
         | Some (m, k, r) \<Rightarrow> (case scan_exponent (CHR ''e'') r of (e, rest) \<Rightarrow> Some (to_dbl neg (scale m 10 (e - int k)), rest))))"

section \<open>Values\<close>

definition parse_uint :: "string \<Rightarrow> u32 option" where
  "parse_uint val = (case strtoul val of None \<Rightarrow> None
     | Some (v, erange, rest) \<Rightarrow> if rest \<noteq> [] then None else if erange then None else if v > 0xFFFFFFFF then None else Some (of_nat v))"

definition parse_bool :: "string \<Rightarrow> bool option" where
  "parse_bool val = (case strtoul val of None \<Rightarrow> None | Some (v, erange, rest) \<Rightarrow> if rest \<noteq> [] then None else Some (v \<noteq> 0))"

text \<open>A number outside the unit interval is clamped. The outer option is the assertion.\<close>

definition parse_prob :: "string \<Rightarrow> real option option" where
  "parse_prob val = (case strtod val of None \<Rightarrow> Some None
     | Some (d, rest) \<Rightarrow> if rest \<noteq> [] then Some None else (case d of Infinite \<Rightarrow> Some None | NotANumber \<Rightarrow> Some None
         | Finite v \<Rightarrow> do {
             let v = (if v < 0 then 0 else v);
             let v = (if v > 1 then 1 else v);
             nc_assert (v \<ge> 0 \<and> v \<le> 1);
             Some (Some v)
           }))"

definition parse_u64 :: "string \<Rightarrow> u64 option" where
  "parse_u64 val = (case strtoul val of None \<Rightarrow> None
     | Some (v, erange, rest) \<Rightarrow> if rest \<noteq> [] then None else if erange then None else Some (of_nat v))"

section \<open>Keys\<close>

definition apply_reorder_window :: "string \<Rightarrow> impairment_config \<Rightarrow> impairment_config option" where
  "apply_reorder_window val cfg = (case strtoul val of None \<Rightarrow> Some cfg
     | Some (v, erange, rest) \<Rightarrow> if rest \<noteq> [] then Some cfg else if erange \<or> v > 0xFFFFFFFF then Some cfg
         else do {
           let w = (of_nat v :: u32);
           let w = (if unat w > IMPAIR_DELAY_BUF_SIZE then of_nat IMPAIR_DELAY_BUF_SIZE else w);
           let cfg = cfg\<lparr> ic_reorder_window_size := w \<rparr>;
           nc_assert (unat (ic_reorder_window_size cfg) \<le> IMPAIR_DELAY_BUF_SIZE);
           Some cfg
         })"

text \<open>A parsed value is stored; a value that was refused leaves the field as it is.\<close>

definition store :: "('a \<Rightarrow> impairment_config \<Rightarrow> impairment_config) \<Rightarrow> 'a option \<Rightarrow> impairment_config \<Rightarrow> impairment_config" where
  "store upd v cfg = (case v of None \<Rightarrow> cfg | Some x \<Rightarrow> upd x cfg)"

text \<open>Each dispatcher tells whether it knows the key.\<close>

definition apply_kv_latency_jitter :: "string \<Rightarrow> string \<Rightarrow> impairment_config \<Rightarrow> bool \<times> impairment_config" where
  "apply_kv_latency_jitter key val cfg =
     (if key = ''enabled'' then (True, store (\<lambda>x. ic_enabled_update (\<lambda>_. x)) (parse_bool val) cfg)
      else if key = ''fixed_latency_ms'' then (True, store (\<lambda>x. ic_fixed_latency_ms_update (\<lambda>_. x)) (parse_uint val) cfg)
      else if key = ''jitter_mean_ms'' then (True, store (\<lambda>x. ic_jitter_mean_ms_update (\<lambda>_. x)) (parse_uint val) cfg)
      else if key = ''jitter_variance_ms'' then (True, store (\<lambda>x. ic_jitter_variance_ms_update (\<lambda>_. x)) (parse_uint val) cfg)
      else (False, cfg))"

definition apply_kv_loss_reorder :: "string \<Rightarrow> string \<Rightarrow> impairment_config \<Rightarrow> (bool \<times> impairment_config) option" where
  "apply_kv_loss_reorder key val cfg =
     (if key = ''loss_probability'' then do { v \<leftarrow> parse_prob val; Some (True, store (\<lambda>x. ic_loss_probability_update (\<lambda>_. x)) v cfg) }
      else if key = ''duplication_probability''
        then do { v \<leftarrow> parse_prob val; Some (True, store (\<lambda>x. ic_duplication_probability_update (\<lambda>_. x)) v cfg) }
      else if key = ''reorder_enabled'' then Some (True, store (\<lambda>x. ic_reorder_enabled_update (\<lambda>_. x)) (parse_bool val) cfg)
      else if key = ''reorder_window_size'' then do { cfg \<leftarrow> apply_reorder_window val cfg; Some (True, cfg) }
      else Some (False, cfg))"

definition apply_kv_partition_seed :: "string \<Rightarrow> string \<Rightarrow> impairment_config \<Rightarrow> bool \<times> impairment_config" where
  "apply_kv_partition_seed key val cfg =
     (if key = ''partition_enabled'' then (True, store (\<lambda>x. ic_partition_enabled_update (\<lambda>_. x)) (parse_bool val) cfg)
      else if key = ''partition_duration_ms'' then (True, store (\<lambda>x. ic_partition_duration_ms_update (\<lambda>_. x)) (parse_uint val) cfg)
      else if key = ''partition_gap_ms'' then (True, store (\<lambda>x. ic_partition_gap_ms_update (\<lambda>_. x)) (parse_uint val) cfg)
      else if key = ''prng_seed'' then (True, store (\<lambda>x. ic_prng_seed_update (\<lambda>_. x)) (parse_u64 val) cfg)
      else (False, cfg))"

definition apply_kv :: "string \<Rightarrow> string \<Rightarrow> impairment_config \<Rightarrow> impairment_config option" where
  "apply_kv key val cfg = do {
     let (handled, cfg) = apply_kv_latency_jitter key val cfg;
     (handled, cfg) \<leftarrow> (if \<not> handled then apply_kv_loss_reorder key val cfg else Some (handled, cfg));
     let (handled, cfg) = (if \<not> handled then apply_kv_partition_seed key val cfg else (handled, cfg));
     Some cfg
   }"

section \<open>Lines\<close>

text \<open>\<open>sscanf\<close> with the format of the loader: up to 63 characters other than blank, tab and \<open>=\<close>; at least one of these separators;
  white space; up to 63 characters other than white space. Nothing unless both tokens were found.\<close>

definition is_separator :: "char \<Rightarrow> bool" where
  "is_separator c \<longleftrightarrow> is_blank c \<or> c = CHR ''=''"

definition scan_key_value :: "string \<Rightarrow> (string \<times> string) option" where
  "scan_key_value p = (let key = takeWhile (\<lambda>c. \<not> is_separator c) (take 63 p); r = drop (length key) p;
       r' = dropWhile is_separator r; val = takeWhile (\<lambda>c. \<not> isspace c) (take 63 (dropWhile isspace r'))
     in if key = [] \<or> r' = r \<or> val = [] then None else Some (key, val))"

definition parse_config_line :: "string \<Rightarrow> impairment_config \<Rightarrow> impairment_config option" where
  "parse_config_line line cfg = (let p = dropWhile is_blank line in
     case p of [] \<Rightarrow> Some cfg
     | c # _ \<Rightarrow> if c = CHR ''#'' \<or> c = CHR '';'' \<or> c = CHR 0x0A \<or> c = CHR 0x0D then Some cfg
       else case scan_key_value p of None \<Rightarrow> Some cfg
         | Some (key, val) \<Rightarrow> do { nc_assert (key \<noteq> []); apply_kv key val cfg })"

section \<open>The file\<close>

definition MAX_CONFIG_LINE_LEN :: nat where [simp]: "MAX_CONFIG_LINE_LEN = 128"
definition MAX_CONFIG_LINES :: nat where [simp]: "MAX_CONFIG_LINES = 64"

text \<open>\<open>fgets\<close> with room for \<open>n\<close> characters: up to and including the next newline, and the rest of the file. The line as a C string
  ends before the first NUL.\<close>

fun fgets :: "nat \<Rightarrow> string \<Rightarrow> string \<times> string" where
  "fgets 0 s = ([], s)"
| "fgets (Suc n) [] = ([], [])"
| "fgets (Suc n) (c # s) = (if c = CHR 0x0A then ([c], s) else (case fgets n s of (l, r) \<Rightarrow> (c # l, r)))"

primrec load_lines :: "nat \<Rightarrow> string \<Rightarrow> impairment_config \<Rightarrow> impairment_config option" where
  "load_lines 0 s cfg = Some cfg"
| "load_lines (Suc i) s cfg = (if s = [] then Some cfg else do {
     let (line, rest) = fgets (MAX_CONFIG_LINE_LEN - 1) s;
     cfg \<leftarrow> parse_config_line (c_string line) cfg;
     load_lines i rest cfg
   })"

definition impairment_config_load :: "(string \<Rightarrow> string option) \<Rightarrow> string \<Rightarrow> (Result \<times> impairment_config) option" where
  "impairment_config_load fs path = (case fs path of None \<Rightarrow> Some (ERR_IO, impairment_config_default)
     | Some contents \<Rightarrow> do {
         cfg \<leftarrow> load_lines MAX_CONFIG_LINES contents impairment_config_default;
         nc_assert (ic_loss_probability cfg \<ge> 0 \<and> ic_loss_probability cfg \<le> 1);
         nc_assert (ic_duplication_probability cfg \<ge> 0 \<and> ic_duplication_probability cfg \<le> 1);
         Some (OK, cfg)
       })"

section \<open>Printing\<close>

text \<open>The bounds the loader guarantees.\<close>

definition loaded_ok :: "impairment_config \<Rightarrow> bool" where
  "loaded_ok cfg \<longleftrightarrow> 0 \<le> ic_loss_probability cfg \<and> ic_loss_probability cfg \<le> 1 \<and> 0 \<le> ic_duplication_probability cfg \<and>
     ic_duplication_probability cfg \<le> 1 \<and> unat (ic_reorder_window_size cfg) \<le> 32"

text \<open>A printed configuration, the counterpart of the loader: one line per key; a probability is a whole number of thousandths.\<close>

fun show_nat :: "nat \<Rightarrow> string" where
  "show_nat n = (if n < 10 then [char_of (48 + n)] else show_nat (n div 10) @ [char_of (48 + n mod 10)])"

definition show_bool :: "bool \<Rightarrow> string" where
  "show_bool b = (if b then ''1'' else ''0'')"

definition config_line :: "string \<times> string \<Rightarrow> string" where
  "config_line kv = fst kv @ ''='' @ snd kv @ [CHR 0x0A]"

definition config_entries :: "impairment_config \<Rightarrow> nat \<Rightarrow> nat \<Rightarrow> (string \<times> string) list" where
  "config_entries cfg loss dup = [(''enabled'', show_bool (ic_enabled cfg)), (''fixed_latency_ms'', show_nat (unat (ic_fixed_latency_ms cfg))),
     (''jitter_mean_ms'', show_nat (unat (ic_jitter_mean_ms cfg))), (''jitter_variance_ms'', show_nat (unat (ic_jitter_variance_ms cfg))),
     (''loss_probability'', show_nat loss @ ''e-3''), (''duplication_probability'', show_nat dup @ ''e-3''),
     (''reorder_enabled'', show_bool (ic_reorder_enabled cfg)), (''reorder_window_size'', show_nat (unat (ic_reorder_window_size cfg))),
     (''partition_enabled'', show_bool (ic_partition_enabled cfg)),
     (''partition_duration_ms'', show_nat (unat (ic_partition_duration_ms cfg))),
     (''partition_gap_ms'', show_nat (unat (ic_partition_gap_ms cfg))), (''prng_seed'', show_nat (unat (ic_prng_seed cfg)))]"

definition config_file :: "impairment_config \<Rightarrow> nat \<Rightarrow> nat \<Rightarrow> string" where
  "config_file cfg loss dup = concat (map config_line (config_entries cfg loss dup))"

text \<open>A line the scanner splits as intended.\<close>

definition entry_ok :: "string \<times> string \<Rightarrow> bool" where
  "entry_ok kv \<longleftrightarrow> fst kv \<noteq> [] \<and> length (fst kv) \<le> 63 \<and> (\<forall>c \<in> set (fst kv). \<not> is_separator c \<and> c \<notin> {CHR ''#'', CHR '';'', CHR 0x0A, CHR 0x0D, CHR 0x00}) \<and>
     snd kv \<noteq> [] \<and> length (snd kv) \<le> 32 \<and> (\<forall>c \<in> set (snd kv). \<not> isspace c \<and> c \<noteq> CHR ''='' \<and> c \<noteq> CHR 0x00)"

declare show_nat.simps [simp del]

section \<open>Safety\<close>

lemma parse_prob_returns: "returns (parse_prob val) (\<lambda>p. \<forall>v. p = Some v \<longrightarrow> 0 \<le> v \<and> v \<le> 1)"
  by (auto simp: parse_prob_def Let_def split: option.splits dbl.splits)

lemma reorder_window_returns: "loaded_ok cfg \<Longrightarrow> returns (apply_reorder_window val cfg) loaded_ok"
  by (auto simp: apply_reorder_window_def Let_def loaded_ok_def not_less split: option.splits)

lemma latency_jitter_keeps: "loaded_ok cfg \<Longrightarrow> loaded_ok (snd (apply_kv_latency_jitter key val cfg))"
  by (simp add: apply_kv_latency_jitter_def store_def loaded_ok_def split: option.split)

lemma loss_reorder_returns:
  assumes "loaded_ok cfg"
  shows "returns (apply_kv_loss_reorder key val cfg) (\<lambda>(h, cfg'). loaded_ok cfg')"
proof -
  from parse_prob_returns [of val] obtain p where p: "parse_prob val = Some p" "\<forall>v. p = Some v \<longrightarrow> 0 \<le> v \<and> v \<le> 1" by (auto elim!: returnsE)
  from reorder_window_returns [OF assms, of val] obtain c where c: "apply_reorder_window val cfg = Some c" "loaded_ok c" by (auto elim!: returnsE)
  show ?thesis using p c assms
    by (simp add: apply_kv_loss_reorder_def store_def split: option.split) (simp add: loaded_ok_def)
qed

lemma partition_seed_keeps: "loaded_ok cfg \<Longrightarrow> loaded_ok (snd (apply_kv_partition_seed key val cfg))"
  by (simp add: apply_kv_partition_seed_def store_def loaded_ok_def split: option.split)

lemma apply_kv_returns:
  assumes "loaded_ok cfg"
  shows "returns (apply_kv key val cfg) loaded_ok"
proof -
  obtain h1 c1 where a: "apply_kv_latency_jitter key val cfg = (h1, c1)" "loaded_ok c1"
    using latency_jitter_keeps [OF assms] by (metis prod.collapse)
  obtain h2 c2 where b: "(if \<not> h1 then apply_kv_loss_reorder key val c1 else Some (h1, c1)) = Some (h2, c2)" "loaded_ok c2"
    using loss_reorder_returns [OF a(2), of key val] a(2) by (cases h1) (auto elim!: returnsE)
  obtain h3 c3 where c: "(if \<not> h2 then apply_kv_partition_seed key val c2 else (h2, c2)) = (h3, c3)" "loaded_ok c3"
    using partition_seed_keeps [OF b(2), of key val] b(2) by (cases h2; cases "apply_kv_partition_seed key val c2") auto
  show ?thesis using a b c by (simp add: apply_kv_def)
qed

lemma parse_line_returns: "loaded_ok cfg \<Longrightarrow> returns (parse_config_line line cfg) loaded_ok"
  using apply_kv_returns by (auto simp: parse_config_line_def Let_def scan_key_value_def split: list.splits option.splits if_splits)

lemma load_lines_returns: "loaded_ok cfg \<Longrightarrow> returns (load_lines n s cfg) loaded_ok"
proof (induction n arbitrary: s cfg)
  case (Suc n)
  obtain line rest where l: "fgets 127 s = (line, rest)" by fastforce
  from parse_line_returns [OF Suc.prems, of "c_string line"] obtain c where "parse_config_line (c_string line) cfg = Some c" "loaded_ok c"
    by (auto elim!: returnsE)
  with l Suc show ?case by simp
qed simp

lemma default_loaded: "loaded_ok impairment_config_default"
  by (simp add: loaded_ok_def impairment_config_default_def)

section \<open>Numbers\<close>

lemma digit_char:
  assumes "d < 10"
  shows "isdigit (char_of (48 + d))" "digit_value (char_of (48 + d)) = d"
  using assms by (simp_all add: isdigit_def digit_value_def)

lemma number_append: "number b (xs @ [c]) = b * number b xs + digit_value c"
  by (simp add: number_def)

lemma show_nat_digits: "list_all isdigit (show_nat n) \<and> show_nat n \<noteq> [] \<and> number 10 (show_nat n) = n"
proof (induction n rule: show_nat.induct)
  case (1 n)
  show ?case
  proof (cases "n < 10")
    case True
    then show ?thesis using digit_char [OF True] by (simp add: show_nat.simps [of n] number_def)
  next
    case False
    have "n mod 10 < 10" by simp
    note dc = digit_char [OF this]
    have "10 * (n div 10) + n mod 10 = n" by simp
    with 1 False dc show ?thesis by (subst (1 2 3) show_nat.simps) (simp add: number_append)
  qed
qed

lemma length_show_nat: "n < 10 ^ k \<Longrightarrow> 0 < k \<Longrightarrow> length (show_nat n) \<le> k"
proof (induction k arbitrary: n)
  case (Suc k)
  show ?case
  proof (cases "n < 10")
    case False
    then have "0 < k" using Suc.prems(1) by (cases k) auto
    moreover have "n div 10 < 10 ^ k" using Suc.prems(1) by (simp add: less_mult_imp_div_less mult.commute)
    ultimately show ?thesis using Suc.IH [of "n div 10"] False by (subst show_nat.simps) simp
  qed (subst show_nat.simps, simp)
qed simp

lemma digit_not_special: "isdigit c \<Longrightarrow> \<not> isspace c \<and> c \<noteq> CHR ''='' \<and> c \<noteq> CHR 0x00 \<and> c \<noteq> CHR ''-'' \<and> c \<noteq> CHR ''+'' \<and> c \<noteq> CHR ''.''"
  by (auto simp: isdigit_def isspace_def)

lemma strtoul_digits:
  assumes "list_all isdigit ds" and "ds \<noteq> []" and "number 10 ds \<le> ULONG_MAX"
  shows "strtoul ds = Some (number 10 ds, False, [])"
proof -
  obtain c cs where ds: "ds = c # cs" "isdigit c" using assms by (cases ds) auto
  have tw: "takeWhile isdigit ds = ds" "dropWhile isdigit ds = []" using assms(1) by (simp_all add: list_all_iff takeWhile_eq_all_conv)
  have "dropWhile isspace ds = ds" "split_sign ds = (False, ds)" using digit_not_special [OF ds(2)] by (simp_all add: ds(1))
  then show ?thesis using assms(2,3) by (simp add: strtoul_def Let_def tw del: takeWhile_eq_all_conv dropWhile_eq_Nil_conv)
qed

lemma strtoul_show: "n \<le> ULONG_MAX \<Longrightarrow> strtoul (show_nat n) = Some (n, False, [])"
  using strtoul_digits [of "show_nat n"] show_nat_digits [of n] by simp

lemma parse_uint_show: "parse_uint (show_nat (unat x)) = Some x"
proof -
  have "unat x < 4294967296" using unsigned_less [of x] by simp
  then show ?thesis by (simp add: parse_uint_def strtoul_show)
qed

lemma parse_u64_show: "parse_u64 (show_nat (unat x)) = Some x"
proof -
  have "unat x < 18446744073709551616" using unsigned_less [of x] by simp
  then show ?thesis by (simp add: parse_u64_def strtoul_show)
qed

lemma parse_bool_show: "parse_bool (show_bool b) = Some b"
proof -
  have "strtoul (show_bool b) = Some (if b then 1 else 0, False, [])"
    using strtoul_digits [of "show_bool b"] by (auto simp: show_bool_def isdigit_def number_def digit_value_def)
  then show ?thesis by (simp add: parse_bool_def)
qed

lemma apply_window_show: "unat w \<le> 32 \<Longrightarrow> apply_reorder_window (show_nat (unat w)) cfg = Some (cfg\<lparr> ic_reorder_window_size := w \<rparr>)"
  by (simp add: apply_reorder_window_def strtoul_show Let_def)

lemma tolower_digit: "isdigit c \<Longrightarrow> tolower c = c"
  by (simp add: isdigit_def tolower_def)

lemma no_prefix:
  assumes "isdigit c"
  shows "\<not> has_prefix ''infinity'' (c # s)" "\<not> has_prefix ''inf'' (c # s)" "\<not> has_prefix ''nan'' (c # s)"
  using assms tolower_digit [OF assms] by (auto simp: has_prefix_def isdigit_def)

lemma no_hex_prefix:
  assumes "list_all isdigit cs"
  shows "\<not> has_prefix ''0x'' (c # cs @ ''e-3'')"
proof (cases cs)
  case Nil
  then show ?thesis by (simp add: has_prefix_def tolower_def)
next
  case (Cons d ds)
  with assms tolower_digit [of d] show ?thesis by (auto simp: has_prefix_def isdigit_def)
qed

lemma strtod_thousandths:
  assumes "n \<le> 1000"
  shows "strtod (show_nat n @ ''e-3'') = Some (Finite (real n / 1000), [])"
proof -
  obtain c cs where ds: "show_nat n = c # cs" "isdigit c" "list_all isdigit cs" "number 10 (c # cs) = n"
    using show_nat_digits [of n] by (cases "show_nat n") auto
  let ?s = "c # cs @ ''e-3''"
  have e: "\<not> isdigit (CHR ''e'')" "isdigit (CHR ''3'')" by (simp_all add: isdigit_def)
  have tw: "takeWhile isdigit ?s = c # cs" "dropWhile isdigit ?s = ''e-3''"
    using ds(2,3) e by (simp_all add: list_all_iff takeWhile_append2 dropWhile_append2)
  have lead: "dropWhile isspace ?s = ?s" "split_sign ?s = (False, ?s)" using digit_not_special [OF ds(2)] by simp_all
  have mant: "scan_mantissa isdigit 10 ?s = Some (n, 0, ''e-3'')"
    unfolding scan_mantissa_def Let_def tw using ds(4) by simp
  have ex: "scan_exponent (CHR ''e'') ''e-3'' = (- 3, [])"
    using e(2) by (simp add: scan_exponent_def tolower_def number_def digit_value_def)
  have "real n / 1000 \<le> 1" using assms by simp
  also have "(1 :: real) < 2 ^ 1024 - 2 ^ 970" by simp
  finally have "to_dbl False (scale n 10 (- 3)) = Finite (real n / 1000)" by (simp add: to_dbl_def scale_def)
  moreover have "show_nat n @ ''e-3'' = ?s" by (simp add: ds(1))
  ultimately show ?thesis unfolding strtod_def \<open>show_nat n @ ''e-3'' = ?s\<close> lead
    using no_prefix [OF ds(2)] no_hex_prefix [OF ds(3), of c] mant ex by simp
qed

lemma parse_prob_show: "n \<le> 1000 \<Longrightarrow> parse_prob (show_nat n @ ''e-3'') = Some (Some (real n / 1000))"
  by (simp add: parse_prob_def strtod_thousandths)

section \<open>Lines\<close>

lemma scan_entry:
  assumes "entry_ok (k, v)"
  shows "scan_key_value (config_line (k, v)) = Some (k, v)"
proof -
  from assms have k: "k \<noteq> []" "length k \<le> 63" "\<forall>c \<in> set k. \<not> is_separator c" and v: "v \<noteq> []" "length v \<le> 32" "\<forall>c \<in> set v. \<not> isspace c \<and> c \<noteq> CHR ''=''"
    by (auto simp: entry_ok_def)
  have sep: "is_separator (CHR ''='')" "isspace (CHR 0x0A)" by (simp_all add: is_separator_def isspace_def)
  obtain c v' where vc: "v = c # v'" using v(1) by (cases v) auto
  have c: "\<not> is_separator c" "\<not> isspace c" using v(3) vc by (auto simp: is_separator_def is_blank_def isspace_def)
  have tk: "takeWhile (\<lambda>c. \<not> is_separator c) (take 63 (k @ ''='' @ v @ [CHR 0x0A])) = k"
  proof (cases "length k = 63")
    case True
    then show ?thesis using k(3) by (simp add: takeWhile_eq_all_conv)
  next
    case False
    with k(2) obtain m where "63 - length k = Suc m" by (cases "63 - length k") auto
    then have "take 63 (k @ ''='' @ v @ [CHR 0x0A]) = k @ CHR ''='' # take m (v @ [CHR 0x0A])" using k(2) by simp
    then show ?thesis using k(3) sep(1) by (simp add: takeWhile_append2)
  qed
  have tv: "takeWhile (\<lambda>c. \<not> isspace c) (take 63 (v @ [CHR 0x0A])) = v"
    using v(2,3) sep(2) by (simp add: takeWhile_append2)
  have dv: "dropWhile is_separator (CHR ''='' # v @ [CHR 0x0A]) = v @ [CHR 0x0A]" "dropWhile isspace (v @ [CHR 0x0A]) = v @ [CHR 0x0A]"
    using sep(1) c by (simp_all add: vc)
  have dk: "drop (length k) (k @ ''='' @ v @ [CHR 0x0A]) = CHR ''='' # v @ [CHR 0x0A]" by simp
  show ?thesis unfolding scan_key_value_def config_line_def Let_def fst_conv snd_conv tk dk dv tv using k(1) v(1) by simp
qed

lemma parse_entry:
  assumes "entry_ok (k, v)"
  shows "parse_config_line (c_string (config_line (k, v))) cfg = apply_kv k v cfg"
proof -
  obtain c k' where k: "k = c # k'" using assms by (cases k) (auto simp: entry_ok_def)
  have c: "\<not> is_blank c" "c \<notin> {CHR ''#'', CHR '';'', CHR 0x0A, CHR 0x0D}" using assms k by (auto simp: entry_ok_def is_separator_def)
  have "\<forall>x \<in> set (config_line (k, v)). x \<noteq> CHR 0x00" using assms by (auto simp: entry_ok_def config_line_def)
  then have cs: "c_string (config_line (k, v)) = config_line (k, v)" by (simp add: c_string_def takeWhile_eq_all_conv)
  obtain rest where line: "config_line (k, v) = c # rest" by (simp add: config_line_def k)
  have sc: "scan_key_value (c # rest) = Some (k, v)" using scan_entry [OF assms] line by simp
  have "k \<noteq> []" by (simp add: k)
  then show ?thesis using sc c cs unfolding line by (simp add: parse_config_line_def)
qed

lemma fgets_line: "CHR 0x0A \<notin> set l \<Longrightarrow> length l < n \<Longrightarrow> fgets n (l @ CHR 0x0A # r) = (l @ [CHR 0x0A], r)"
proof (induction l arbitrary: n)
  case Nil
  then show ?case by (cases n) simp_all
next
  case (Cons c l)
  then obtain m where "n = Suc m" by (cases n) auto
  with Cons show ?case by auto
qed

lemma fgets_entry:
  assumes "entry_ok (k, v)"
  shows "fgets 127 (config_line (k, v) @ r) = (config_line (k, v), r)"
proof -
  have "CHR 0x0A \<notin> set (k @ ''='' @ v)" "length (k @ ''='' @ v) < 127" using assms by (auto simp: entry_ok_def isspace_def)
  from fgets_line [OF this, of r] show ?thesis by (simp add: config_line_def)
qed

lemma load_entries:
  assumes "\<forall>kv \<in> set kvs. entry_ok kv" and "length kvs \<le> n"
  shows "load_lines n (concat (map config_line kvs)) cfg = for_each (\<lambda>(k, v). apply_kv k v) kvs cfg"
  using assms
proof (induction kvs arbitrary: n cfg)
  case Nil
  then show ?case by (cases n) simp_all
next
  case (Cons kv kvs)
  obtain k v where kv: "kv = (k, v)" by fastforce
  obtain m where n: "n = Suc m" using Cons.prems(2) by (cases n) auto
  have ok: "entry_ok (k, v)" using Cons.prems(1) kv by simp
  have "config_line (k, v) \<noteq> []" by (simp add: config_line_def)
  with fgets_entry [OF ok] parse_entry [OF ok] Cons.IH [of m] Cons.prems show ?case
    by (cases "apply_kv k v cfg") (simp_all add: n kv)
qed

lemma show_nat_chars: "\<forall>c \<in> set (show_nat n). \<not> isspace c \<and> c \<noteq> CHR ''='' \<and> c \<noteq> CHR 0x00"
  using show_nat_digits [of n] digit_not_special by (auto simp: list_all_iff)

lemma show_nat_fits: "n < 18446744073709551616 \<Longrightarrow> length (show_nat n) \<le> 20"
  using length_show_nat [of n 20] by simp

lemma entries_ok:
  assumes "loss \<le> 1000" and "dup \<le> 1000"
  shows "\<forall>kv \<in> set (config_entries cfg loss dup). entry_ok kv"
proof -
  have ne: "show_nat n \<noteq> []" for n using show_nat_digits [of n] by simp
  have val: "length (show_nat n) \<le> 32" if "n < 18446744073709551616" for n using show_nat_fits [OF that] by simp
  have u32: "unat x < 18446744073709551616" for x :: u32
  proof -
    have "unat x < 4294967296" using unsigned_less [of x] by simp
    then show ?thesis by simp
  qed
  have u64: "unat x < 18446744073709551616" for x :: u64 using unsigned_less [of x] by simp
  have ls: "length (show_nat loss) \<le> 4" "length (show_nat dup) \<le> 4" using assms by (auto intro: length_show_nat)
  show ?thesis
    using ne val [OF u32] val [OF u64] ls show_nat_chars
    by (auto simp: config_entries_def entry_ok_def show_bool_def is_separator_def is_blank_def isspace_def)
qed

section \<open>Properties\<close>

text \<open>Claim C35. Whatever a configuration file contains, loading it returns and trips no assertion; the loaded probabilities lie in the
  unit interval and the reordering window within its buffer. A file that cannot be opened leaves the defaults.\<close>

theorem config_load_safe:
  "returns (impairment_config_load fs path) (\<lambda>(r, cfg). loaded_ok cfg \<and> (if fs path = None then r = ERR_IO \<and> cfg = impairment_config_default else r = OK))"
proof (cases "fs path")
  case None
  then show ?thesis by (simp add: impairment_config_load_def default_loaded)
next
  case (Some contents)
  from load_lines_returns [OF default_loaded, of 64 contents] obtain cfg where
    "load_lines 64 contents impairment_config_default = Some cfg" "loaded_ok cfg" by (auto elim!: returnsE)
  with Some show ?thesis by (simp add: impairment_config_load_def loaded_ok_def)
qed

text \<open>Claim C36. A printed configuration is loaded back unchanged, all twelve fields, for probabilities in whole thousandths.\<close>

theorem config_roundtrip:
  assumes "unat (ic_reorder_window_size cfg) \<le> 32" and "loss \<le> 1000" and "dup \<le> 1000"
    and "ic_loss_probability cfg = real loss / 1000" and "ic_duplication_probability cfg = real dup / 1000"
    and "fs path = Some (config_file cfg loss dup)"
  shows "impairment_config_load fs path = Some (OK, cfg)"
proof -
  have "load_lines 64 (config_file cfg loss dup) c = for_each (\<lambda>(k, v). apply_kv k v) (config_entries cfg loss dup) c" for c
    unfolding config_file_def by (rule load_entries [OF entries_ok [OF assms(2,3)]]) (simp add: config_entries_def)
  moreover have "for_each (\<lambda>(k, v). apply_kv k v) (config_entries cfg loss dup) c = Some cfg" for c
    using assms(1-5) by (simp add: config_entries_def apply_kv_def apply_kv_latency_jitter_def apply_kv_loss_reorder_def apply_kv_partition_seed_def
        store_def parse_uint_show parse_u64_show parse_bool_show parse_prob_show apply_window_show)
  ultimately show ?thesis using assms by (simp add: impairment_config_load_def)
qed

theorem config_roundtrip_witness:
  "let cfg = impairment_config_default\<lparr> ic_enabled := True, ic_loss_probability := 1 / 4, ic_fixed_latency_ms := 20 \<rparr>
   in impairment_config_load (\<lambda>path. Some (config_file cfg 250 0)) ''imp.cfg'' = Some (OK, cfg)"
  unfolding Let_def by (rule config_roundtrip [where loss = 250 and dup = 0]) (simp_all add: impairment_config_default_def)

text \<open>A comment of more than 127 characters does not stay a comment: \<open>fgets\<close> splits the line, and what follows is read as
  a line of its own, which can switch the impairments on.\<close>

theorem long_comment_is_parsed:
  assumes "length c = 126" and "CHR 0x0A \<notin> set c" and "fs path = Some (''#'' @ c @ ''enabled=1'' @ [CHR 0x0A])"
  shows "impairment_config_load fs path = Some (OK, impairment_config_default\<lparr> ic_enabled := True \<rparr>)"
proof -
  have split: "fgets n (l @ r) = (l, r)" if "CHR 0x0A \<notin> set l" "length l = n" for n l r
    using that by (induction l arbitrary: n) auto
  have fg: "fgets 127 (CHR ''#'' # c @ config_line (''enabled'', show_bool True)) = (CHR ''#'' # c, config_line (''enabled'', show_bool True))"
    using split [of "CHR ''#'' # c" 127] assms(1,2) by simp
  have skip: "parse_config_line (c_string (CHR ''#'' # c)) cfg = Some cfg" for cfg
    by (simp add: c_string_def parse_config_line_def is_blank_def)
  have ok: "\<forall>kv \<in> set [(''enabled'', show_bool True)]. entry_ok kv"
    by (auto simp: entry_ok_def show_bool_def is_separator_def is_blank_def isspace_def)
  have tail: "load_lines 63 (config_line (''enabled'', show_bool True)) cfg = Some (cfg\<lparr> ic_enabled := True \<rparr>)" for cfg
    using load_entries [OF ok, of 63 cfg] by (simp add: apply_kv_def apply_kv_latency_jitter_def store_def parse_bool_show)
  have whole: "''#'' @ c @ ''enabled=1'' @ [CHR 0x0A] = CHR ''#'' # c @ config_line (''enabled'', show_bool True)"
    by (simp add: config_line_def show_bool_def)
  have "load_lines 64 (CHR ''#'' # c @ config_line (''enabled'', show_bool True)) cfg = Some (cfg\<lparr> ic_enabled := True \<rparr>)" for cfg
    using load_lines.simps(2) [of 63 "CHR ''#'' # c @ config_line (''enabled'', show_bool True)" cfg] fg skip tail by simp
  then show ?thesis using assms(3) whole by (simp add: impairment_config_load_def impairment_config_default_def)
qed

theorem long_comment_is_parsed_witness:
  "impairment_config_load (\<lambda>path. Some (''#'' @ replicate 126 (CHR ''x'') @ ''enabled=1'' @ [CHR 0x0A])) ''imp.cfg'' =
   Some (OK, impairment_config_default\<lparr> ic_enabled := True \<rparr>)"
  by (rule long_comment_is_parsed [where c = "replicate 126 (CHR ''x'')"]) simp_all

text \<open>A file that enables partitions and gives no gap is loaded without complaint, and the impairment engine then aborts when
  it is initialised with the result.\<close>

theorem loaded_partition_aborts_init:
  assumes "fs path = Some (''partition_enabled=1'' @ [CHR 0x0A])"
  shows "impairment_config_load fs path = Some (OK, impairment_config_default\<lparr> ic_partition_enabled := True \<rparr>) \<and>
    ImpairmentEngine_init s (impairment_config_default\<lparr> ic_partition_enabled := True \<rparr>) entropy = None"
proof -
  have ok: "\<forall>kv \<in> set [(''partition_enabled'', show_bool True)]. entry_ok kv"
    by (auto simp: entry_ok_def show_bool_def is_separator_def is_blank_def isspace_def)
  have "load_lines 64 (config_line (''partition_enabled'', show_bool True)) cfg = Some (cfg\<lparr> ic_partition_enabled := True \<rparr>)" for cfg
    using load_entries [OF ok, of 64 cfg]
    by (simp add: apply_kv_def apply_kv_latency_jitter_def apply_kv_loss_reorder_def apply_kv_partition_seed_def store_def parse_bool_show)
  moreover have "config_line (''partition_enabled'', show_bool True) = ''partition_enabled=1'' @ [CHR 0x0A]"
    by (simp add: config_line_def show_bool_def)
  ultimately show ?thesis using assms
    by (simp add: impairment_config_load_def ImpairmentEngine_init_def impairment_config_default_def)
qed

theorem loaded_partition_aborts_init_witness:
  "ImpairmentEngine_init (imp_blank impairment_config_default) (impairment_config_default\<lparr> ic_partition_enabled := True \<rparr>) 1 = None"
  using loaded_partition_aborts_init [of "\<lambda>path. Some (''partition_enabled=1'' @ [CHR 0x0A])" "''imp.cfg''"
    "imp_blank impairment_config_default" 1] by simp

end
