(* ===== verification/EchoApps.thy ===== *)
theory EchoApps
  imports DeliveryProperties TcpBackendCorrect LocalSim ConfigLoader
begin

text \<open>
  \<open>src/app/Server.cpp\<close> and \<open>src/app/Client.cpp\<close>: the echo server and its client, built on a delivery engine over the TCP
  backend. The helpers take the engine and work over any transport; the two \<open>main\<close> functions build the configuration, open the
  backend and run the loops. A program sees its machine as a record \<open>host\<close>: the monotonic clock, \<open>nanosleep\<close> and the
  flag that the handler of \<open>SIGINT\<close> sets. Log output is not modelled; the payloads the server prints are.
\<close>

section \<open>The host\<close>

record 't host =
  ht_clock :: "'t \<Rightarrow> (u64 \<times> 't) option"
  ht_nanosleep :: "'t \<Rightarrow> int \<Rightarrow> int \<Rightarrow> int \<times> 't"
  ht_stop :: "'t \<Rightarrow> bool"

text \<open>What a process finds when it starts: its arguments, the memory its objects are built in, the two readings of the entropy
  source, and whether \<open>signal\<close> succeeds.\<close>

record process =
  pr_argv :: "string list"
  pr_config :: transport_config
  pr_impairment :: impairment_engine
  pr_engine :: delivery_engine
  pr_prng_entropy :: u64
  pr_strong_entropy :: bool
  pr_id_entropy :: u64
  pr_signal_ok :: bool

text \<open>The host of a program that runs over a network backend and the system below it.\<close>

definition backend_host :: "'w posix \<Rightarrow> ('w \<Rightarrow> int \<Rightarrow> int \<Rightarrow> int \<times> 'w) \<Rightarrow> ('w \<Rightarrow> bool) \<Rightarrow> ('b \<times> 'w) host" where
  "backend_host X nanosleep stop = \<lparr>
     ht_clock = (\<lambda>(b, w). do { (now_us, w) \<leftarrow> read_clock X w; Some (now_us, b, w) }),
     ht_nanosleep = (\<lambda>(b, w) sec nsec. let (r, w) = nanosleep w sec nsec in (r, b, w)),
     ht_stop = (\<lambda>(b, w). stop w) \<rparr>"

section \<open>Arguments\<close>

definition LONG_MAX :: int where [simp]: "LONG_MAX = 9223372036854775807"

text \<open>\<open>strtol\<close> in base 10: the value, whether \<open>errno\<close> is \<open>ERANGE\<close>, and the rest of the string; nothing if no number was found.\<close>

definition strtol :: "string \<Rightarrow> (int \<times> bool \<times> string) option" where
  "strtol s = (let (neg, s1) = split_sign (dropWhile isspace s); ds = takeWhile isdigit s1; rest = dropWhile isdigit s1;
       v = (if neg then - int (number 10 ds) else int (number 10 ds))
     in if ds = [] then None
        else if v > LONG_MAX then Some (LONG_MAX, True, rest)
        else if v < - LONG_MAX - 1 then Some (- LONG_MAX - 1, True, rest)
        else Some (v, False, rest))"

text \<open>The conversion of a \<open>long\<close> to an \<open>int\<close>.\<close>

definition int_of_long :: "int \<Rightarrow> int" where
  "int_of_long v = sint (word_of_int v :: 32 word)"

text \<open>The common part of \<open>parse_server_port\<close> and \<open>parse_peer_port\<close>.\<close>

definition port_argument :: "u16 \<Rightarrow> string \<Rightarrow> u16" where
  "port_argument dflt arg =
     (let (port_long, range_error, no_digits, rest) = (case strtol arg of None \<Rightarrow> (0, False, True, arg) | Some (v, er, rest) \<Rightarrow> (v, er, False, rest))
      in if range_error then dflt
         else let port_val = (if \<not> no_digits \<and> rest = [] then int_of_long port_long else 0)
              in if port_val > 0 \<and> port_val \<le> 65535 then of_int port_val else dflt)"

section \<open>The server\<close>

definition LOCAL_SERVER_NODE_ID :: NodeId where [simp]: "LOCAL_SERVER_NODE_ID = 1"
definition LOCAL_CLIENT_NODE_ID :: NodeId where [simp]: "LOCAL_CLIENT_NODE_ID = 2"
definition RECV_TIMEOUT_MS :: u32 where [simp]: "RECV_TIMEOUT_MS = 100"
definition MAX_LOOP_ITERS :: nat where "MAX_LOOP_ITERS = 100000"
definition PAYLOAD_PRINT_MAX :: u32 where [simp]: "PAYLOAD_PRINT_MAX = 256"

definition parse_server_port :: "string list \<Rightarrow> u16 option" where
  "parse_server_port argv = do {
     nc_assert (length argv \<ge> 1);
     if length argv < 2 then Some 9000 else Some (port_argument 9000 (argv ! 1))
   }"

text \<open>The bytes printed: the payload up to its first zero byte, cut to the size of the buffer.\<close>

definition print_payload_as_string :: "u8 list \<Rightarrow> u32 \<Rightarrow> u8 list option" where
  "print_payload_as_string bytes len = do {
     nc_assert (len \<le> MSG_MAX_PAYLOAD_BYTES);
     let copy_len = (if len \<ge> PAYLOAD_PRINT_MAX then PAYLOAD_PRINT_MAX - 1 else len);
     Some (takeWhile (\<lambda>c. c \<noteq> 0) (take (unat copy_len) bytes))
   }"

definition send_echo_reply :: "'t transport \<Rightarrow> delivery_engine \<Rightarrow> 't \<Rightarrow> envelope \<Rightarrow> u64 \<Rightarrow> (Result \<times> delivery_engine \<times> 't) option" where
  "send_echo_reply T e t received now_us = do {
     nc_assert (envelope_valid received);
     nc_assert (now_us > 0);
     let reply = envelope_init\<lparr> message_type := DATA, source_id := LOCAL_SERVER_NODE_ID, destination_id := source_id received,
       priority := priority received, reliability_class := reliability_class received, timestamp_us := now_us,
       expiry_time_us := timestamp_deadline_us now_us 10000, payload_length := payload_length received \<rparr>;
     if payload_length reply > MSG_MAX_PAYLOAD_BYTES then Some (ERR_INVALID, e, t)
     else do {
       let reply = reply\<lparr> payload := blit (payload reply) 0 (take (unat (payload_length reply)) (payload received)) \<rparr>;
       (res, reply, e, t) \<leftarrow> DeliveryEngine_send T e t reply now_us;
       Some (res, e, t)
     }
   }"

record 't server =
  sv_engine :: delivery_engine
  sv_transport :: 't
  sv_messages_received :: u32
  sv_messages_sent :: u32
  sv_printed :: "u8 list list"

definition run_server_iteration :: "'t transport \<Rightarrow> 't host \<Rightarrow> 't server \<Rightarrow> 't server option" where
  "run_server_iteration T H s = do {
     nc_assert (RECV_TIMEOUT_MS > 0);
     nc_assert (sv_messages_sent s \<le> sv_messages_received s + 1);
     (now_us, t) \<leftarrow> ht_clock H (sv_transport s);
     (res, received, e, t) \<leftarrow> DeliveryEngine_receive T (sv_engine s) t envelope_init RECV_TIMEOUT_MS now_us;
     let s = s\<lparr> sv_engine := e, sv_transport := t \<rparr>;
     s \<leftarrow> (if res = OK \<and> envelope_is_data received then do {
         let s = s\<lparr> sv_messages_received := sv_messages_received s + 1 \<rparr>;
         line \<leftarrow> print_payload_as_string (payload received) (payload_length received);
         (echo_res, e, t) \<leftarrow> send_echo_reply T (sv_engine s) (sv_transport s) received now_us;
         Some (s\<lparr> sv_printed := sv_printed s @ [line], sv_engine := e, sv_transport := t,
           sv_messages_sent := (if echo_res = OK then sv_messages_sent s + 1 else sv_messages_sent s) \<rparr>)
       }
       else Some s);
     (retried, e, t) \<leftarrow> DeliveryEngine_pump_retries T (sv_engine s) (sv_transport s) now_us;
     (ack_timeouts, e) \<leftarrow> DeliveryEngine_sweep_ack_timeouts e now_us;
     Some (s\<lparr> sv_engine := e, sv_transport := t \<rparr>)
   }"

text \<open>At most \<open>n\<close> more iterations.\<close>

primrec server_loop :: "'t transport \<Rightarrow> 't host \<Rightarrow> nat \<Rightarrow> 't server \<Rightarrow> 't server option" where
  "server_loop T H 0 s = Some s"
| "server_loop T H (Suc n) s =
     (if ht_stop H (sv_transport s) then Some s
      else do { s \<leftarrow> run_server_iteration T H s; server_loop T H n s })"

definition server_config :: "u16 \<Rightarrow> transport_config" where
  "server_config bind_port = transport_config_default\<lparr> tcf_kind := TCP, tcf_is_server := True, tcf_bind_port := bind_port,
     tcf_local_node_id := LOCAL_SERVER_NODE_ID, tcf_num_channels := 1, tcf_bind_ip := ''0.0.0.0'',
     tcf_channels := (tcf_channels transport_config_default)[0 := (channel_config_default 0)\<lparr> cc_reliability := RELIABLE_RETRY,
       cc_ordering := ORDERED, cc_max_retries := 3, cc_recv_timeout_ms := RECV_TIMEOUT_MS \<rparr>] \<rparr>"

text \<open>The exit code and the final counters.\<close>

definition server_main :: "'w posix \<Rightarrow> ('w \<Rightarrow> int \<Rightarrow> int \<Rightarrow> int \<times> 'w) \<Rightarrow> ('w \<Rightarrow> bool) \<Rightarrow> process \<Rightarrow> 'w \<Rightarrow>
    (int \<times> u32 \<times> u32 \<times> 'w) option" where
  "server_main X nanosleep stop p w = do {
     nc_assert (length (pr_argv p) \<ge> 1);
     bind_port \<leftarrow> parse_server_port (pr_argv p);
     let cfg = server_config bind_port;
     let S = SocketOpsImpl X;
     let T = tcp_transport S X;
     (res, b, w) \<leftarrow> TcpBackend_init S (TcpBackend_new (pr_config p) (pr_impairment p)) w cfg (pr_prng_entropy p);
     if res \<noteq> OK then Some (1, 0, 0, w)
     else do {
       (e, t) \<leftarrow> DeliveryEngine_init T (pr_engine p) (b, w) (tcf_channels cfg ! 0) LOCAL_SERVER_NODE_ID
         (pr_strong_entropy p) (pr_id_entropy p);
       nc_assert (pr_signal_ok p);
       s \<leftarrow> server_loop T (backend_host X nanosleep stop) MAX_LOOP_ITERS
         \<lparr> sv_engine = e, sv_transport = t, sv_messages_received = 0, sv_messages_sent = 0, sv_printed = [] \<rparr>;
       (b, w) \<leftarrow> (case sv_transport s of (b, w) \<Rightarrow> TcpBackend_close S b w);
       Some (0, sv_messages_received s, sv_messages_sent s, w)
     }
   }"

section \<open>The client\<close>

definition NUM_MESSAGES :: nat where [simp]: "NUM_MESSAGES = 5"
definition MAX_RECV_RETRIES :: nat where [simp]: "MAX_RECV_RETRIES = 20"
definition PAYLOAD_BUILD_MAX :: nat where [simp]: "PAYLOAD_BUILD_MAX = 256"

definition sleep_ms :: "'t host \<Rightarrow> 't \<Rightarrow> int \<Rightarrow> 't option" where
  "sleep_ms H t milliseconds = do {
     nc_assert (milliseconds \<ge> 0);
     nc_assert (milliseconds \<le> 10000);
     let (ret, t) = ht_nanosleep H t (milliseconds div 1000) ((milliseconds mod 1000) * 1000000);
     Some t
   }"

definition send_test_message :: "'t transport \<Rightarrow> delivery_engine \<Rightarrow> 't \<Rightarrow> NodeId \<Rightarrow> nat \<Rightarrow> u64 \<Rightarrow> (Result \<times> delivery_engine \<times> 't) option" where
  "send_test_message T e t peer_id msg_num now_us = do {
     nc_assert (msg_num \<ge> 1 \<and> msg_num \<le> NUM_MESSAGES);
     nc_assert (now_us > 0);
     let payload_buf = map of_char (''Hello from client #'' @ show_nat msg_num);
     if length payload_buf \<ge> PAYLOAD_BUILD_MAX then Some (ERR_INVALID, e, t)
     else do {
       let payload_bytes = (of_nat (length payload_buf) :: u32);
       if payload_bytes > MSG_MAX_PAYLOAD_BYTES then Some (ERR_INVALID, e, t)
       else do {
         let env = envelope_init\<lparr> payload := blit (payload envelope_init) 0 payload_buf, payload_length := payload_bytes,
           message_type := DATA, destination_id := peer_id, priority := 0, reliability_class := RELIABLE_RETRY,
           timestamp_us := now_us, expiry_time_us := timestamp_deadline_us now_us 5000 \<rparr>;
         (res, env, e, t) \<leftarrow> DeliveryEngine_send T e t env now_us;
         Some (res, e, t)
       }
     }
   }"

primrec echo_attempts :: "'t transport \<Rightarrow> 't host \<Rightarrow> nat \<Rightarrow> delivery_engine \<Rightarrow> 't \<Rightarrow> (Result \<times> delivery_engine \<times> 't) option" where
  "echo_attempts T H 0 e t = Some (ERR_TIMEOUT, e, t)"
| "echo_attempts T H (Suc n) e t = do {
     (now_us, t) \<leftarrow> ht_clock H t;
     (res, reply, e, t) \<leftarrow> DeliveryEngine_receive T e t envelope_init RECV_TIMEOUT_MS now_us;
     if res = OK \<and> envelope_is_data reply then Some (OK, e, t)
     else do {
       (retried, e, t) \<leftarrow> DeliveryEngine_pump_retries T e t now_us;
       (ack_timeouts, e) \<leftarrow> DeliveryEngine_sweep_ack_timeouts e now_us;
       echo_attempts T H n e t
     }
   }"

definition wait_for_echo :: "'t transport \<Rightarrow> 't host \<Rightarrow> delivery_engine \<Rightarrow> 't \<Rightarrow> u64 \<Rightarrow> (Result \<times> delivery_engine \<times> 't) option" where
  "wait_for_echo T H e t send_time_us = do {
     nc_assert (send_time_us > 0);
     nc_assert (MAX_RECV_RETRIES > 0);
     echo_attempts T H MAX_RECV_RETRIES e t
   }"

definition parse_peer_ip :: "string list \<Rightarrow> string option" where
  "parse_peer_ip argv = do {
     nc_assert (length argv \<ge> 1);
     if length argv \<ge> 2 then Some (argv ! 1) else Some ''127.0.0.1''
   }"

definition parse_peer_port :: "string list \<Rightarrow> u16 option" where
  "parse_peer_port argv = do {
     nc_assert (length argv \<ge> 1);
     if length argv < 3 then Some 9000 else Some (port_argument 9000 (argv ! 2))
   }"

record 't client =
  cl_engine :: delivery_engine
  cl_transport :: 't
  cl_messages_sent :: u32
  cl_echoes_received :: u32

definition run_client_iteration :: "'t transport \<Rightarrow> 't host \<Rightarrow> nat \<Rightarrow> 't client \<Rightarrow> 't client option" where
  "run_client_iteration T H msg_idx c = do {
     nc_assert (msg_idx \<ge> 1 \<and> msg_idx \<le> NUM_MESSAGES);
     nc_assert (cl_echoes_received c \<le> cl_messages_sent c + 1);
     (now_us, t) \<leftarrow> ht_clock H (cl_transport c);
     (res, e, t) \<leftarrow> send_test_message T (cl_engine c) t LOCAL_SERVER_NODE_ID msg_idx now_us;
     let sent = (if res = OK then cl_messages_sent c + 1 else cl_messages_sent c);
     (echo_res, e, t) \<leftarrow> wait_for_echo T H e t now_us;
     let echoes = (if echo_res = OK then cl_echoes_received c + 1 else cl_echoes_received c);
     t \<leftarrow> (if msg_idx < NUM_MESSAGES then sleep_ms H t 100 else Some t);
     Some \<lparr> cl_engine = e, cl_transport = t, cl_messages_sent = sent, cl_echoes_received = echoes \<rparr>
   }"

definition client_config :: "string \<Rightarrow> u16 \<Rightarrow> transport_config" where
  "client_config peer_ip peer_port = transport_config_default\<lparr> tcf_kind := TCP, tcf_is_server := False, tcf_peer_port := peer_port,
     tcf_connect_timeout_ms := 5000, tcf_local_node_id := LOCAL_CLIENT_NODE_ID, tcf_num_channels := 1, tcf_peer_ip := take 47 peer_ip,
     tcf_channels := (tcf_channels transport_config_default)[0 := (channel_config_default 0)\<lparr> cc_reliability := RELIABLE_RETRY,
       cc_ordering := UNORDERED, cc_max_retries := 3, cc_recv_timeout_ms := RECV_TIMEOUT_MS \<rparr>] \<rparr>"

text \<open>The loop of the client and the last retries and timeouts.\<close>

definition client_run :: "'t transport \<Rightarrow> 't host \<Rightarrow> delivery_engine \<Rightarrow> 't \<Rightarrow> 't client option" where
  "client_run T H e t = do {
     c \<leftarrow> for_each (run_client_iteration T H) [1..<Suc NUM_MESSAGES]
       \<lparr> cl_engine = e, cl_transport = t, cl_messages_sent = 0, cl_echoes_received = 0 \<rparr>;
     (final_now_us, t) \<leftarrow> ht_clock H (cl_transport c);
     (final_retried, e, t) \<leftarrow> DeliveryEngine_pump_retries T (cl_engine c) t final_now_us;
     (final_timeouts, e) \<leftarrow> DeliveryEngine_sweep_ack_timeouts e final_now_us;
     Some (c\<lparr> cl_engine := e, cl_transport := t \<rparr>)
   }"

definition client_main :: "'w posix \<Rightarrow> ('w \<Rightarrow> int \<Rightarrow> int \<Rightarrow> int \<times> 'w) \<Rightarrow> ('w \<Rightarrow> bool) \<Rightarrow> process \<Rightarrow> 'w \<Rightarrow>
    (int \<times> u32 \<times> u32 \<times> 'w) option" where
  "client_main X nanosleep stop p w = do {
     nc_assert (length (pr_argv p) \<ge> 1);
     peer_ip \<leftarrow> parse_peer_ip (pr_argv p);
     peer_port \<leftarrow> parse_peer_port (pr_argv p);
     let cfg = client_config peer_ip peer_port;
     let S = SocketOpsImpl X;
     let T = tcp_transport S X;
     (res, b, w) \<leftarrow> TcpBackend_init S (TcpBackend_new (pr_config p) (pr_impairment p)) w cfg (pr_prng_entropy p);
     if res \<noteq> OK then Some (1, 0, 0, w)
     else do {
       (e, t) \<leftarrow> DeliveryEngine_init T (pr_engine p) (b, w) (tcf_channels cfg ! 0) LOCAL_CLIENT_NODE_ID
         (pr_strong_entropy p) (pr_id_entropy p);
       c \<leftarrow> client_run T (backend_host X nanosleep stop) e t;
       (b, w) \<leftarrow> (case cl_transport c of (b, w) \<Rightarrow> TcpBackend_close S b w);
       Some (if cl_echoes_received c = of_nat NUM_MESSAGES then 0 else 1, cl_messages_sent c, cl_echoes_received c, w)
     }
   }"

section \<open>What the programs rely on and keep\<close>

text \<open>An engine that can serve \<open>k\<close> more calls before the counter of expired messages might wrap.\<close>

definition engine_at :: "channel_config \<Rightarrow> NodeId \<Rightarrow> nat \<Rightarrow> delivery_engine \<Rightarrow> bool" where
  "engine_at cfg n k e \<longleftrightarrow> eng_inv e \<and> eng_cfg e = cfg \<and> eng_local_id e = n \<and> eng_drops e + 9 * k < 2 ^ 32"

text \<open>The reply the server builds, and the message of the client.\<close>

definition echo_of :: "envelope \<Rightarrow> u64 \<Rightarrow> envelope" where
  "echo_of received now_us = envelope_init\<lparr> message_type := DATA, source_id := LOCAL_SERVER_NODE_ID, destination_id := source_id received,
     priority := priority received, reliability_class := reliability_class received, timestamp_us := now_us,
     expiry_time_us := timestamp_deadline_us now_us 10000, payload_length := payload_length received,
     payload := blit (payload envelope_init) 0 (payload_bytes received) \<rparr>"

definition test_message :: "NodeId \<Rightarrow> nat \<Rightarrow> u64 \<Rightarrow> envelope" where
  "test_message peer_id msg_num now_us = (let text = map of_char (''Hello from client #'' @ show_nat msg_num) in
     envelope_init\<lparr> payload := blit (payload envelope_init) 0 text, payload_length := of_nat (length text),
       message_type := DATA, destination_id := peer_id, priority := 0, reliability_class := RELIABLE_RETRY,
       timestamp_us := now_us, expiry_time_us := timestamp_deadline_us now_us 5000 \<rparr>)"

text \<open>The counters and the output of the server after at most \<open>k\<close> iterations.\<close>

definition server_ok :: "nat \<Rightarrow> 't server \<Rightarrow> bool" where
  "server_ok k s \<longleftrightarrow> sv_messages_sent s \<le> sv_messages_received s \<and> unat (sv_messages_received s) \<le> k \<and>
     length (sv_printed s) = unat (sv_messages_received s) \<and> (\<forall>line \<in> set (sv_printed s). length line < 256 \<and> 0 \<notin> set line)"

text \<open>A message on the wire that answers \<open>received\<close>: from this node to its sender, with the same contents.\<close>

definition answers :: "NodeId \<Rightarrow> envelope \<Rightarrow> envelope \<Rightarrow> bool" where
  "answers n received m \<longleftrightarrow> message_type m = DATA \<and> source_id m = n \<and> destination_id m = source_id received \<and>
     payload_bytes m = payload_bytes received \<and> payload_length m = payload_length received \<and> priority m = priority received \<and>
     reliability_class m = reliability_class received"

text \<open>The interface of a program to its machine: a transport that keeps the contract of the engine, a clock that neither fails nor
  comes near the end of its range, and a sleep that leaves the transport alone.\<close>

locale app_host =
  fixes T :: "'t transport" and I :: "'t \<Rightarrow> bool" and H :: "'t host"
  assumes transport: "transport_ok T I"
    and clock: "I t \<Longrightarrow> returns (ht_clock H t) (\<lambda>(now_us, t'). I t' \<and> 0 < now_us \<and> unat now_us < 10000000000000000000)"
    and nap: "I t \<Longrightarrow> I (snd (ht_nanosleep H t sec nsec))"

section \<open>Lemmas\<close>

lemma deadline_finite:
  assumes "unat now_us < 10000000000000000000"
  shows "timestamp_deadline_us now_us d \<noteq> - 1"
proof
  assume "timestamp_deadline_us now_us d = - 1"
  then have "unat (timestamp_deadline_us now_us d) = 2 ^ 64 - 1"
    by (simp add: unsigned_minus_1_eq_mask mask_eq_exp_minus_1)
  moreover have "unat d < 2 ^ 32" using unsigned_less [of d] by simp
  ultimately show False using assms timestamp_deadline_exact [of now_us d] by simp
qed

lemma payload_bytes_le: "envelope_valid m \<Longrightarrow> length (payload_bytes m) \<le> 4096"
  by (simp add: payload_bytes_def envelope_valid_def word_le_nat_alt min_def)

lemma echo_sendable:
  assumes "env_wf received" and "envelope_valid received" and "unat now_us < 10000000000000000000"
  shows "sendable cfg (echo_of received now_us)"
  using assms deadline_finite [OF assms(3), of 10000] payload_bytes_le [OF assms(2)]
  by (auto simp: sendable_def echo_of_def env_wf_def envelope_init_def envelope_valid_def)

lemma test_sendable:
  assumes "peer_id \<noteq> 0" and "msg_num \<in> {1..5}" and "unat now_us < 10000000000000000000"
  shows "sendable cfg (test_message peer_id msg_num now_us)"
proof -
  have "length (show_nat msg_num) = 1" using assms(2) by (subst show_nat.simps) simp
  then show ?thesis using assms(1) deadline_finite [OF assms(3), of 5000]
    by (auto simp: sendable_def test_message_def Let_def env_wf_def envelope_init_def)
qed

lemma echo_payload:
  assumes "env_wf received" and "envelope_valid received"
  shows "take (unat (payload_length received)) (blit (payload envelope_init) 0 (payload_bytes received)) = payload_bytes received"
  using assms by (simp add: blit_def payload_bytes_def env_wf_def envelope_valid_def word_le_nat_alt)

lemma echo_reply_eq:
  assumes "envelope_valid received" and "0 < now_us"
  shows "send_echo_reply T e t received now_us =
    do { (r, m, e, t) \<leftarrow> DeliveryEngine_send T e t (echo_of received now_us) now_us; Some (r, e, t) }"
  using assms by (auto simp: send_echo_reply_def echo_of_def payload_bytes_def envelope_valid_def not_less envelope_init_def Let_def)

lemma test_message_eq:
  assumes "msg_num \<in> {1..5}" and "0 < now_us"
  shows "send_test_message T e t peer_id msg_num now_us =
    do { (r, m, e, t) \<leftarrow> DeliveryEngine_send T e t (test_message peer_id msg_num now_us) now_us; Some (r, e, t) }"
proof -
  have "length (show_nat msg_num) = 1" using assms(1) by (subst show_nat.simps) simp
  then show ?thesis using assms by (simp add: send_test_message_def test_message_def Let_def not_less)
qed

lemma engine_at_post: "engine_at cfg n (Suc k) e \<Longrightarrow> eng_post e ds e' \<Longrightarrow> engine_at cfg n k e'"
  by (auto simp: engine_at_def eng_post_def)

lemma assert_none: "nc_assert c \<bind> (\<lambda>_. None) = None" "None \<bind> f = None"
  by (simp_all add: nc_assert_def)

context app_host
begin

lemma exec:
  assumes "engine_at cfg n (Suc k) e" and "I t" and "eng_op_ok cfg op"
  shows "returns (eng_exec T op (e, t)) (\<lambda>(ds, e', t'). I t' \<and> engine_at cfg n k e' \<and> list_all (deliverable n) ds)"
proof -
  have "returns (eng_exec T op (e, t)) (\<lambda>(ds, e', t'). I t' \<and> eng_post e ds e')"
    by (rule exec_spec [OF _ transport assms(2)]) (use assms in \<open>simp_all add: engine_at_def\<close>)
  then show ?thesis
    by (rule returns_mono) (use assms(1) engine_at_post [OF assms(1)] in \<open>auto simp: engine_at_def eng_post_def\<close>)
qed

lemma recv:
  assumes "engine_at cfg n (Suc k) e" and "I t" and "0 < now_us"
  shows "returns (DeliveryEngine_receive T e t envelope_init ms now_us) (\<lambda>(r, m, e', t'). I t' \<and> engine_at cfg n k e' \<and>
    (r = OK \<and> envelope_is_data m \<longrightarrow> deliverable n m))"
  using exec [OF assms(1,2), of "Receive ms now_us"] assms(3) by (auto elim!: returnsE)

lemma send:
  assumes "engine_at cfg n (Suc k) e" and "I t" and "0 < now_us" and "sendable cfg env"
  shows "returns (DeliveryEngine_send T e t env now_us) (\<lambda>(r, m, e', t'). I t' \<and> engine_at cfg n k e')"
  using exec [OF assms(1,2), of "Send env now_us"] assms(3,4) by (auto elim!: returnsE)

lemma pump:
  assumes "engine_at cfg n (Suc k) e" and "I t" and "0 < now_us"
  shows "returns (DeliveryEngine_pump_retries T e t now_us) (\<lambda>(r, e', t'). I t' \<and> engine_at cfg n k e')"
  using exec [OF assms(1,2), of "Pump now_us"] assms(3) by (auto elim!: returnsE)

lemma sweep:
  assumes "engine_at cfg n (Suc k) e" and "I t" and "0 < now_us"
  shows "returns (DeliveryEngine_sweep_ack_timeouts e now_us) (\<lambda>(r, e'). engine_at cfg n k e')"
  using exec [OF assms(1,2), of "Sweep now_us"] assms(3) by (auto elim!: returnsE)

lemma upkeep_returns:
  assumes "engine_at cfg n (Suc (Suc k)) e" and "I t" and "0 < now_us"
    and "\<And>r a e' t'. engine_at cfg n k e' \<Longrightarrow> I t' \<Longrightarrow> returns (f r a e' t') Q"
  shows "returns (do { (r, e, t) \<leftarrow> DeliveryEngine_pump_retries T e t now_us;
      (a, e) \<leftarrow> DeliveryEngine_sweep_ack_timeouts e now_us; f r a e t }) Q"
proof -
  from pump [OF assms(1-3)] obtain r e1 t1 where
    p: "DeliveryEngine_pump_retries T e t now_us = Some (r, e1, t1)" "I t1" "engine_at cfg n (Suc k) e1" by (auto elim!: returnsE)
  from sweep [OF p(3,2) assms(3)] obtain a e2 where
    "DeliveryEngine_sweep_ack_timeouts e1 now_us = Some (a, e2)" "engine_at cfg n k e2" by (auto elim!: returnsE)
  with p assms(4) show ?thesis by simp
qed

lemma echo_reply:
  assumes "engine_at cfg n (Suc k) e" and "I t" and "0 < now_us" and "unat now_us < 10000000000000000000" and "deliverable m received"
  shows "returns (send_echo_reply T e t received now_us) (\<lambda>(r, e', t'). I t' \<and> engine_at cfg n k e')"
proof -
  have m: "env_wf received" "envelope_valid received" using assms(5) by (simp_all add: deliverable_def)
  from send [OF assms(1-3) echo_sendable [OF m assms(4)]] show ?thesis
    unfolding echo_reply_eq [OF m(2) assms(3)] by (auto elim!: returns_mono)
qed

lemma test_reply:
  assumes "engine_at cfg n (Suc k) e" and "I t" and "0 < now_us" and "unat now_us < 10000000000000000000" and "i \<in> {1..5}"
  shows "returns (send_test_message T e t 1 i now_us) (\<lambda>(r, e', t'). I t' \<and> engine_at cfg n k e')"
  using send [OF assms(1-3) test_sendable [OF _ assms(5,4), of 1]]
  unfolding test_message_eq [OF assms(5,3)] by (auto elim!: returns_mono)

lemma printing:
  assumes "deliverable n m"
  shows "returns (print_payload_as_string (payload m) (payload_length m)) (\<lambda>line. length line < 256 \<and> 0 \<notin> set line)"
proof -
  have "length (takeWhile (\<lambda>c. c \<noteq> 0) (take k (payload m))) < 256" if "k < 256" for k
    using length_takeWhile_le [of "\<lambda>c. c \<noteq> 0" "take k (payload m)"] that by simp
  with assms show ?thesis
    by (auto simp: print_payload_as_string_def deliverable_def envelope_valid_def word_le_nat_alt dest: set_takeWhileD)
qed

lemma iteration:
  assumes "engine_at cfg n (4 + k) (sv_engine s)" and "I (sv_transport s)" and "server_ok j s" and "j < 100000"
  shows "returns (run_server_iteration T H s) (\<lambda>s'. engine_at cfg n k (sv_engine s') \<and> I (sv_transport s') \<and> server_ok (Suc j) s')"
proof -
  have guard: "sv_messages_sent s \<le> sv_messages_received s + 1" and nowrap: "unat (sv_messages_received s + 1) = Suc (unat (sv_messages_received s))"
    using assms(3,4) by (simp_all add: server_ok_def word_le_nat_alt unat_word_ariths)
  from clock [OF assms(2)] obtain now t where
    c: "ht_clock H (sv_transport s) = Some (now, t)" "I t" "0 < now" "unat now < 10000000000000000000" by (auto elim!: returnsE)
  have e4: "engine_at cfg n (Suc (Suc (Suc (Suc k)))) (sv_engine s)" using assms(1) by (simp add: numeral_eq_Suc)
  from recv [OF e4 c(2,3), of RECV_TIMEOUT_MS] obtain r m e1 t1 where
    r: "DeliveryEngine_receive T (sv_engine s) t envelope_init RECV_TIMEOUT_MS now = Some (r, m, e1, t1)" "I t1"
      "engine_at cfg n (Suc (Suc (Suc k))) e1" "r = OK \<and> envelope_is_data m \<longrightarrow> deliverable n m" by (auto elim!: returnsE)
  show ?thesis
  proof (cases "r = OK \<and> envelope_is_data m")
    case False
    have e2: "engine_at cfg n (Suc (Suc k)) e1" using r(3) by (simp add: engine_at_def)
    have "server_ok (Suc j) (s\<lparr> sv_engine := e', sv_transport := t' \<rparr>)" for e' t' using assms(3) by (simp add: server_ok_def)
    with upkeep_returns [OF e2 r(2) c(3), of "\<lambda>r a e t. Some (s\<lparr> sv_engine := e, sv_transport := t \<rparr>)"] False guard c(1) r(1)
    show ?thesis by (auto simp: run_server_iteration_def)
  next
    case True
    with r(4) have m: "deliverable n m" by simp
    from printing [OF m] obtain line where
      l: "print_payload_as_string (payload m) (payload_length m) = Some line" "length line < 256" "0 \<notin> set line" by (auto elim!: returnsE)
    from echo_reply [OF r(3,2) c(3,4) m] obtain r2 e2 t2 where
      e: "send_echo_reply T e1 t1 m now = Some (r2, e2, t2)" "I t2" "engine_at cfg n (Suc (Suc k)) e2" by (auto elim!: returnsE)
    let ?s = "s\<lparr> sv_messages_received := sv_messages_received s + 1, sv_printed := sv_printed s @ [line],
      sv_messages_sent := (if r2 = OK then sv_messages_sent s + 1 else sv_messages_sent s) \<rparr>"
    have "server_ok (Suc j) (?s\<lparr> sv_engine := e', sv_transport := t' \<rparr>)" for e' t'
      using assms(3,4) nowrap l(2,3) by (auto simp: server_ok_def word_le_nat_alt unat_word_ariths)
    with upkeep_returns [OF e(3,2) c(3), of "\<lambda>r a e t. Some (?s\<lparr> sv_engine := e, sv_transport := t \<rparr>)"] True guard c(1) r(1) l(1) e(1)
    show ?thesis by (auto simp: run_server_iteration_def)
  qed
qed

lemma server_loop_returns:
  assumes "engine_at cfg n (4 * k) (sv_engine s)" and "I (sv_transport s)" and "server_ok j s" and "j + k \<le> 100000"
  shows "returns (server_loop T H k s) (\<lambda>s'. eng_inv (sv_engine s') \<and> I (sv_transport s') \<and> server_ok (j + k) s')"
  using assms
proof (induction k arbitrary: s j)
  case 0
  then show ?case by (simp add: engine_at_def)
next
  case (Suc k)
  have e: "engine_at cfg n (4 + 4 * k) (sv_engine s)" and j: "j < 100000" using Suc.prems(1,4) by simp_all
  show ?case
  proof (cases "ht_stop H (sv_transport s)")
    case True
    with Suc.prems show ?thesis by (auto simp: engine_at_def server_ok_def)
  next
    case False
    from iteration [OF e Suc.prems(2,3) j] obtain s1 where
      s1: "run_server_iteration T H s = Some s1" "engine_at cfg n (4 * k) (sv_engine s1)" "I (sv_transport s1)" "server_ok (Suc j) s1"
      by (auto elim!: returnsE)
    from Suc.IH [OF s1(2-4)] Suc.prems(4) s1(1) False show ?thesis by simp
  qed
qed

lemma attempts_return:
  assumes "engine_at cfg n (3 * m + k) e" and "I t"
  shows "returns (echo_attempts T H m e t) (\<lambda>(r, e', t'). engine_at cfg n k e' \<and> I t')"
  using assms
proof (induction m arbitrary: e t)
  case 0
  then show ?case by simp
next
  case (Suc m)
  from clock [OF Suc.prems(2)] obtain now t1 where c: "ht_clock H t = Some (now, t1)" "I t1" "0 < now" by (auto elim!: returnsE)
  have e3: "engine_at cfg n (Suc (Suc (Suc (3 * m + k)))) e" using Suc.prems(1) by (simp add: numeral_eq_Suc)
  from recv [OF e3 c(2,3), of RECV_TIMEOUT_MS] obtain r x e1 t2 where
    r: "DeliveryEngine_receive T e t1 envelope_init RECV_TIMEOUT_MS now = Some (r, x, e1, t2)" "I t2"
      "engine_at cfg n (Suc (Suc (3 * m + k))) e1" by (auto elim!: returnsE)
  have k: "engine_at cfg n k e1" using r(3) by (simp add: engine_at_def)
  show ?case
    using c(1) r(1,2) k upkeep_returns [OF r(3,2) c(3), of "\<lambda>r a e t. echo_attempts T H m e t"] Suc.IH by simp
qed

lemma client_iteration:
  assumes "engine_at cfg n (61 + k) (cl_engine c)" and "I (cl_transport c)" and "i \<in> {1..5}"
    and "cl_echoes_received c \<le> cl_messages_sent c + 1"
  shows "returns (run_client_iteration T H i c) (\<lambda>c'. engine_at cfg n k (cl_engine c') \<and> I (cl_transport c') \<and>
    cl_messages_sent c' \<in> {cl_messages_sent c, cl_messages_sent c + 1} \<and> cl_echoes_received c' \<in> {cl_echoes_received c, cl_echoes_received c + 1})"
proof -
  from clock [OF assms(2)] obtain now t1 where
    c: "ht_clock H (cl_transport c) = Some (now, t1)" "I t1" "0 < now" "unat now < 10000000000000000000" by (auto elim!: returnsE)
  have e: "engine_at cfg n (Suc (3 * 20 + k)) (cl_engine c)" using assms(1) by simp
  from test_reply [OF e c(2-4) assms(3)] obtain r1 e1 t2 where
    s: "send_test_message T (cl_engine c) t1 1 i now = Some (r1, e1, t2)" "I t2" "engine_at cfg n (3 * 20 + k) e1" by (auto elim!: returnsE)
  from attempts_return [OF s(3,2)] obtain r2 e2 t3 where
    a: "echo_attempts T H 20 e1 t2 = Some (r2, e2, t3)" "engine_at cfg n k e2" "I t3" by (auto elim!: returnsE)
  have z: "returns (sleep_ms H t3 100) I" using nap [OF a(3), of 0 100000000] by (cases "ht_nanosleep H t3 0 100000000") (simp add: sleep_ms_def)
  from assms(3,4) c(1,3) s(1) a show ?thesis
    by (auto simp: run_client_iteration_def wait_for_echo_def intro!: returns_mono [OF z])
qed

lemma client_iteration_iff:
  assumes "engine_at cfg n 61 (cl_engine c)" and "I (cl_transport c)" and "i \<in> {1..5}"
  shows "run_client_iteration T H i c = None \<longleftrightarrow> cl_messages_sent c + 1 < cl_echoes_received c"
proof (cases "cl_echoes_received c \<le> cl_messages_sent c + 1")
  case True
  with client_iteration [of cfg n 0 c i] assms show ?thesis by (auto elim!: returnsE)
next
  case False
  then have "nc_assert (cl_echoes_received c \<le> cl_messages_sent c + 1) = None" by (simp add: nc_assert_def)
  then have "run_client_iteration T H i c = None" unfolding run_client_iteration_def by (simp only: assert_none)
  with False show ?thesis by (simp add: not_le)
qed

end

lemma clock_bounded:
  assumes "clock_ok X W" and "W w"
  shows "returns (read_clock X w) (\<lambda>(now_us, w'). W w' \<and> 0 < now_us \<and> unat now_us < 10000000000000000000)"
proof -
  obtain res s ns w' where px: "px_clock_gettime X w = ((res, s, ns), w')" by (metis prod_cases3 surj_pair)
  with assms have c: "res = 0" "0 \<le> s" "s < 10000000000000" "0 \<le> ns" "ns < 1000000000" unfolding clock_ok_def by (auto dest!: spec [of _ w])
  from timestamp_now_exact [OF c(2-5)] obtain now where
    n: "timestamp_now_us 0 s ns = Some now" "uint now = 1000000 * s + ns div 1000" by (auto elim: returnsE)
  have "uint now < 10000000000000000000" using c n(2) by linarith
  then have "int (unat now) < int 10000000000000000000" by simp
  then have "unat now < 10000000000000000000" by (simp only: of_nat_less_iff)
  with clock_returns [OF assms] px c n(1) show ?thesis by (auto simp: read_clock_def)
qed

lemma backend_app_host:
  assumes "clock_ok X W" and "transport_ok T (\<lambda>(b, w). J b \<and> W w)" and "\<And>w sec nsec. W w \<Longrightarrow> W (snd (nanosleep w sec nsec))"
  shows "app_host T (\<lambda>(b, w). J b \<and> W w) (backend_host X nanosleep stop)"
proof
  show "transport_ok T (\<lambda>(b, w). J b \<and> W w)" by (rule assms(2))
  fix t assume "case t of (b, w) \<Rightarrow> J b \<and> W w"
  then obtain b w where t: "t = (b, w)" "J b" "W w" by (cases t) auto
  from clock_bounded [OF assms(1) t(3)] t(2)
  show "returns (ht_clock (backend_host X nanosleep stop) t)
      (\<lambda>(now_us, t'). (case t' of (b, w) \<Rightarrow> J b \<and> W w) \<and> 0 < now_us \<and> unat now_us < 10000000000000000000)"
    by (auto simp: backend_host_def t(1) elim!: returnsE)
  fix sec nsec
  from assms(3) [OF t(3), of sec nsec] t(2) show "case snd (ht_nanosleep (backend_host X nanosleep stop) t sec nsec) of (b, w) \<Rightarrow> J b \<and> W w"
    by (auto simp: backend_host_def t(1) split: prod.split)
qed

interpretation sim: app_host "local_sim_transport posix_offline 0" "\<lambda>(st, w). linked (\<lambda>m. msg_ok m \<and> admissible m) 0 st \<and> True"
    "backend_host posix_offline (\<lambda>w sec nsec. (0, w)) (\<lambda>w. False)"
  by (rule backend_app_host [OF posix_offline_clock local_sim_keeps_contract [OF posix_offline_clock]]) simp

lemma strtol_show:
  assumes "n < 2 ^ 63"
  shows "strtol (show_nat n) = Some (int n, False, [])"
proof -
  have d: "list_all isdigit (show_nat n)" "show_nat n \<noteq> []" "number 10 (show_nat n) = n" using show_nat_digits [of n] by simp_all
  obtain c cs where ds: "show_nat n = c # cs" "isdigit c" using d(1,2) by (cases "show_nat n") auto
  have tw: "takeWhile isdigit (show_nat n) = show_nat n" "dropWhile isdigit (show_nat n) = []"
    using d(1) by (simp_all add: list_all_iff takeWhile_eq_all_conv)
  have "dropWhile isspace (show_nat n) = show_nat n" "split_sign (show_nat n) = (False, show_nat n)"
    using digit_not_special [OF ds(2)] by (simp_all add: ds(1))
  then show ?thesis using assms d(2,3) by (simp add: strtol_def Let_def tw del: takeWhile_eq_all_conv dropWhile_eq_Nil_conv)
qed

lemma int_of_long_small:
  "0 < int_of_long (int n) \<and> int_of_long (int n) \<le> 65535 \<longleftrightarrow> 0 < n mod 4294967296 \<and> n mod 4294967296 \<le> 65535"
  "n mod 4294967296 \<le> 65535 \<Longrightarrow> int_of_long (int n) = int (n mod 4294967296)"
proof -
  have e: "int_of_long (int n) = (int (n mod 4294967296) + 2147483648) mod 4294967296 - 2147483648"
    by (simp add: int_of_long_def int_word_sint zmod_int mod_simps del: of_int_of_nat_eq)
  have b: "n mod 4294967296 < 4294967296" by simp
  show "n mod 4294967296 \<le> 65535 \<Longrightarrow> int_of_long (int n) = int (n mod 4294967296)" unfolding e by simp
  have "int_of_long (int n) = int (n mod 4294967296) \<or> int_of_long (int n) < 0 \<and> 2147483648 \<le> n mod 4294967296"
  proof (cases "n mod 4294967296 < 2147483648")
    case True
    then show ?thesis unfolding e by simp
  next
    case False
    with b have "(int (n mod 4294967296) + 2147483648) mod 4294967296 = int (n mod 4294967296) + 2147483648 - 4294967296"
      using minus_mod_self2 [of "int (n mod 4294967296) + 2147483648" 4294967296]
        mod_pos_pos_trivial [of "int (n mod 4294967296) + 2147483648 - 4294967296" 4294967296] by linarith
    then show ?thesis unfolding e using False b by linarith
  qed
  then show "0 < int_of_long (int n) \<and> int_of_long (int n) \<le> 65535 \<longleftrightarrow> 0 < n mod 4294967296 \<and> n mod 4294967296 \<le> 65535" by auto
qed

section \<open>Properties\<close>

text \<open>Claim C12. The echo server never aborts: over any transport that keeps its contract and any working clock, from the initialisation
  of its engine through up to 100000 iterations, it trips no assertion, whatever messages arrive and however the sends end. It
  never counts more echoes than messages received, and prints one line of at most 255 characters per message.\<close>

theorem echo_server_never_aborts:
  assumes "app_host T I H" and "I t" and "eng_constructed e"
  shows "returns (do { (e, t) \<leftarrow> DeliveryEngine_init T e t (tcf_channels (server_config port) ! 0) LOCAL_SERVER_NODE_ID True entropy;
      server_loop T H MAX_LOOP_ITERS \<lparr> sv_engine = e, sv_transport = t, sv_messages_received = 0, sv_messages_sent = 0, sv_printed = [] \<rparr> })
    (\<lambda>s. I (sv_transport s) \<and> eng_inv (sv_engine s) \<and> server_ok MAX_LOOP_ITERS s)"
proof -
  let ?s = "\<lambda>e t. \<lparr> sv_engine = e, sv_transport = t, sv_messages_received = 0, sv_messages_sent = 0, sv_printed = [] \<rparr>"
  have cfg: "cc_retry_backoff_ms (tcf_channels (server_config port) ! 0) \<le> 60000"
    by (simp add: server_config_def transport_config_default_def channel_config_default_def)
  from init_spec [OF assms(3) _ cfg app_host.transport [OF assms(1)] assms(2), of LOCAL_SERVER_NODE_ID entropy] obtain e1 t1 where
    e1: "DeliveryEngine_init T e t (tcf_channels (server_config port) ! 0) LOCAL_SERVER_NODE_ID True entropy = Some (e1, t1)" "I t1"
      "eng_inv e1" "eng_drops e1 = 0" by (auto elim!: returnsE)
  have "engine_at (eng_cfg e1) (eng_local_id e1) (4 * MAX_LOOP_ITERS) e1" using e1(3,4) by (simp add: engine_at_def MAX_LOOP_ITERS_def)
  from app_host.server_loop_returns [OF assms(1), of "eng_cfg e1" "eng_local_id e1" MAX_LOOP_ITERS "?s e1 t1" 0] this e1 show ?thesis
    by (auto simp: server_ok_def MAX_LOOP_ITERS_def elim!: returns_mono)
qed

theorem echo_server_never_aborts_witness:
  "returns (do { (e, t) \<leftarrow> DeliveryEngine_init (local_sim_transport posix_offline 0) eng_blank
        ([harness_example 1 slow_config, harness_example 0 slow_config], ()) (tcf_channels (server_config 9000) ! 0) LOCAL_SERVER_NODE_ID True 7;
      server_loop (local_sim_transport posix_offline 0) (backend_host posix_offline (\<lambda>w sec nsec. (0, w)) (\<lambda>w. False)) MAX_LOOP_ITERS
        \<lparr> sv_engine = e, sv_transport = t, sv_messages_received = 0, sv_messages_sent = 0, sv_printed = [] \<rparr> })
    (\<lambda>s. eng_inv (sv_engine s) \<and> server_ok MAX_LOOP_ITERS s)"
  by (rule returns_mono [OF echo_server_never_aborts [OF sim.app_host_axioms _ eng_blank_constructed]])
    (use example_linked [OF example_configs(1,1)] in auto)

text \<open>Claim C13. The server answers the sender, with the sender's own words: the message that \<open>send_echo_reply\<close> puts on the wire goes from
  this node to the node that sent the received message, whatever destination that message claimed, with the same payload, priority
  and class. If the call reports success all its frames were sent; otherwise nothing was, or it is booked for a retry.\<close>

theorem echo_reply_faithful:
  assumes "transport_ok T I" and "I t" and "eng_inv e" and "deliverable (eng_local_id e) received" and "0 < now_us"
    and "unat now_us < 10000000000000000000" and "transport_logs T sent" and "\<not> time_goes_back e now_us"
    and "\<forall>x \<in># at_live (eng_ack_tracker e) + rm_live (eng_retry_manager e). env_key x \<noteq> (eng_local_id e, eng_id_gen e)"
  shows "returns (send_echo_reply T e t received now_us) (\<lambda>(r, e', t'). eng_inv e' \<and>
    (\<exists>m. answers (eng_local_id e) received m \<and> send_outcome m r e (sent t) e' (sent t')))"
proof -
  have m: "env_wf received" "envelope_valid received" using assms(4) by (simp_all add: deliverable_def)
  from send_spec [OF assms(3,5,1,2) echo_sendable [OF m assms(6)], of sent] assms(7-9)
  have "returns (DeliveryEngine_send T e t (echo_of received now_us) now_us) (\<lambda>(r, m, e', t'). eng_inv e' \<and>
      stamped e now_us (echo_of received now_us) m \<and> send_outcome m r e (sent t) e' (sent t'))"
    by (auto elim!: returns_mono dest: eng_stepD)
  moreover have "answers (eng_local_id e) received x" if "stamped e now_us (echo_of received now_us) x" for x
    using that echo_payload [OF m] by (auto simp: stamped_def answers_def echo_of_def payload_bytes_def)
  ultimately show ?thesis unfolding echo_reply_eq [OF m(2) assms(5)] by (fastforce elim!: returns_mono)
qed

theorem echo_reply_faithful_witness:
  "returns (do { (e, t) \<leftarrow> DeliveryEngine_init queue_transport eng_blank ([], []) (eng_cfg eng_blank) 9 True 5;
       (r, e', t') \<leftarrow> send_echo_reply queue_transport e t (data_message 7 9 5) 3; Some (e, t, r, e', t') })
     (\<lambda>(e, t, r, e', t'). \<exists>m. answers 9 (data_message 7 9 5) m \<and> send_outcome m r e (snd t) e' (snd t'))"
proof (rule returns_mono [OF init_witness, THEN returns_bind [THEN iffD2]], clarsimp)
  fix e :: delivery_engine and a b :: "envelope list"
  assume "queue_ok (a, b)" "eng_inv e" "eng_tables e = ({#}, {#})" "eng_last_now_us e = 0" "eng_local_id e = 9"
  moreover have "deliverable 9 (data_message 7 9 5)"
    by (simp add: deliverable_def envelope_valid_def envelope_is_data_def envelope_addressed_to_def)
  ultimately show "returns (send_echo_reply queue_transport e (a, b) (data_message 7 9 5) 3)
      (\<lambda>(r, e', t'). \<exists>m. answers 9 (data_message 7 9 5) m \<and> send_outcome m r e b e' (snd t'))"
    using echo_reply_faithful [OF queue_transport_ok _ _ _ _ _ queue_logs, of "(a, b)" e "data_message 7 9 5" 3]
    by (auto simp: time_goes_back_def eng_tables_def elim!: returns_mono)
qed

text \<open>An iteration of the client aborts exactly if it has counted at least two more echoes than messages sent, which is
  possible because \<open>wait_for_echo\<close> takes any data message for an echo, also one that nobody asked for while the sends fail. In
  all other cases the iteration returns, whatever arrives, and counts at most one more message and one more echo.\<close>

theorem client_aborts_iff_miscounted:
  assumes "app_host T I H" and "I (cl_transport c)" and "eng_inv (cl_engine c)" and "eng_drops (cl_engine c) + 549 < 2 ^ 32"
    and "1 \<le> i" and "i \<le> NUM_MESSAGES"
  shows "if cl_messages_sent c + 1 < cl_echoes_received c then run_client_iteration T H i c = None
    else returns (run_client_iteration T H i c) (\<lambda>c'. eng_inv (cl_engine c') \<and> I (cl_transport c') \<and>
      cl_messages_sent c' \<in> {cl_messages_sent c, cl_messages_sent c + 1} \<and> cl_echoes_received c' \<in> {cl_echoes_received c, cl_echoes_received c + 1})"
proof -
  have e: "engine_at (eng_cfg (cl_engine c)) (eng_local_id (cl_engine c)) (61 + 0) (cl_engine c)" and i: "i \<in> {1..5}"
    using assms(3-6) by (simp_all add: engine_at_def)
  show ?thesis
    using app_host.client_iteration_iff [OF assms(1) _ assms(2) i] app_host.client_iteration [OF assms(1) e assms(2) i] e
    by (auto simp: not_less engine_at_def elim!: returns_mono)
qed

theorem client_aborts_iff_miscounted_witness:
  "returns (DeliveryEngine_init (local_sim_transport posix_offline 0) eng_blank
      ([harness_example 1 slow_config, harness_example 0 slow_config], ()) (tcf_channels (client_config ''::1'' 9000) ! 0) LOCAL_CLIENT_NODE_ID True 7)
    (\<lambda>(e, t). run_client_iteration (local_sim_transport posix_offline 0) (backend_host posix_offline (\<lambda>w sec nsec. (0, w)) (\<lambda>w. False)) 3
      \<lparr> cl_engine = e, cl_transport = t, cl_messages_sent = 0, cl_echoes_received = 2 \<rparr> = None)"
proof -
  have cfg: "cc_retry_backoff_ms (tcf_channels (client_config ''::1'' 9000) ! 0) \<le> 60000"
    by (simp add: client_config_def transport_config_default_def channel_config_default_def)
  show ?thesis
  proof (rule returns_mono [OF init_spec [OF eng_blank_constructed _ cfg sim.transport]], goal_cases)
    case (3 x)
    then show ?case
      using client_aborts_iff_miscounted [OF sim.app_host_axioms, of "\<lparr> cl_engine = fst x, cl_transport = snd x, cl_messages_sent = 0,
        cl_echoes_received = 2 \<rparr>" 3] by (cases x) simp
  qed (use example_linked [OF example_configs(1,1)] in auto)
qed

text \<open>The port argument of both programs: a decimal number below \<open>2^63\<close> is taken modulo \<open>2^32\<close>, and the default port is used
  unless the result lies between 1 and 65535. So every port number is understood, zero and most larger numbers give the default, but
  4294967376 is taken for port 80, where the demos, which compare before they convert, use their default.\<close>

theorem port_argument_modulo:
  assumes "n < 2 ^ 63"
  shows "parse_server_port [prog, show_nat n] =
      Some (if 0 < n mod 2 ^ 32 \<and> n mod 2 ^ 32 \<le> 65535 then of_nat (n mod 2 ^ 32) else 9000) \<and>
    parse_peer_port [prog, ip, show_nat n] = parse_server_port [prog, show_nat n]"
proof
  show "parse_peer_port [prog, ip, show_nat n] = parse_server_port [prog, show_nat n]"
    by (simp add: parse_server_port_def parse_peer_port_def)
  show "parse_server_port [prog, show_nat n] =
      Some (if 0 < n mod 2 ^ 32 \<and> n mod 2 ^ 32 \<le> 65535 then of_nat (n mod 2 ^ 32) else 9000)"
    using int_of_long_small [of n] by (auto simp: parse_server_port_def port_argument_def strtol_show [OF assms])
qed

theorem port_argument_modulo_witness:
  "parse_server_port [''server'', show_nat 4294967376] = Some 80 \<and> parse_peer_port [''client'', ''::1'', show_nat 70000] = Some 9000"
  using port_argument_modulo [of 4294967376 "''server''"] port_argument_modulo [of 70000 "''client''" "''::1''"] by simp

end
