(* ===== verification/Spec2Isabelle.thy ===== *)
theory Spec2Isabelle
  imports DeliveryProperties RequestReplyCorrect LocalSim TcpBackendCorrect UdpBackend DtlsBackendCorrect TlsBackendCorrect EchoApps DemoApps
begin

text \<open>
  A verification development for messageEngine, a C++ library that moves messages between nodes: a delivery engine with best-effort,
  retried and ordered channels over exchangeable transports, and an impairment engine that injects loss, delay, duplication,
  reordering and partitions for tests.

  \<^bold>\<open>How the parts work together.\<close> An application calls the request/reply engine or the delivery engine. The delivery engine
  stamps and fragments outgoing messages, books reliable ones with the ACK tracker and the retry manager and hands frames to a
  transport. Frames that come back pass reassembly, the duplicate filter and the ordering gate. A transport (the in-process
  harness, TCP, TLS over TCP, UDP, DTLS over UDP) serializes envelopes, passes them through its impairment engine and keeps received
  ones in a ring buffer. The socket transports learn who their peer is from its first frame, the HELLO.

  \<^bold>\<open>How the model is made.\<close> Every C++ function is a HOL function with explicit state; a class is a \<^verbatim>\<open>record\<close>, an enumeration a
  \<^verbatim>\<open>datatype\<close>, an integer a word of its width. The result type is \<open>'a option\<close>: \<open>None\<close> is a failed
  \<open>NEVER_COMPILED_OUT_ASSERT\<close>, so \<open>returns (f x) P\<close> says that no assertion fires and the result satisfies \<open>P\<close>. Output
  parameters are arguments and results, also where an error leaves them unchanged. Loops over fixed arrays are \<open>for_each\<close>; the loops of the code are bounded,
  and each bound is the one of the source, so no fuel is added. Time is an argument or comes from the clock of the system; doubles are
  real numbers, except for the generator's conversion in \<open>Prng\<close>, which is rounded as in the code.

  \<^bold>\<open>Theories and sources\<close> (under \<open>src/core\<close>, \<open>src/platform\<close> and \<open>src/app\<close>).
  \<^item> \<open>Prelude\<close>: the failure monad, loops, lists, multisets and words that the components share.
  \<^item> \<open>Types\<close>: \<open>Types.hpp\<close>, \<open>ConstantTime.hpp\<close>, \<open>Timestamp.hpp\<close>, \<open>MessageId.hpp\<close>; \<open>MessageEnvelope\<close>:
    \<open>MessageEnvelope.hpp\<close>; \<open>ChannelConfig\<close>: \<open>ChannelConfig.hpp\<close>, \<open>TlsConfig.hpp\<close>.
  \<^item> \<open>Serializer\<close>: both directions of the wire format, that they are inverse, and that no input makes the decoder abort.
  \<^item> \<open>RingBuffer\<close>: the queue sequentially and as interleaved steps of one producer and one consumer; \<open>DeliveryEventRing\<close>:
    the ring that overwrites its oldest event.
  \<^item> \<open>DuplicateFilter\<close>, \<open>PendingTable\<close> (what the next two share), \<open>AckTracker\<close>, \<open>RetryManager\<close>: the tables of a reliable
    channel, refinements of a window of identifiers and of multisets of entries.
  \<^item> \<open>Fragmentation\<close>, \<open>ReassemblyBuffer\<close>, \<open>OrderingBuffer\<close>: splitting, reassembly in any order, release in order.
  \<^item> \<open>DeliveryEngine\<close>: all operations of \<open>DeliveryEngine.cpp\<close> over an abstract transport. \<open>EngineInvariant\<close>: its invariant and
    the transport contract; \<open>DeliveryReceive\<close> and \<open>DeliverySend\<close>: that the operations keep them; \<open>DeliveryRun\<close>: runs as sequences
    of calls; \<open>DeliveryProperties\<close>: what single operations promise, and two ways in which the engine fails.
  \<^item> \<open>RequestReply\<close>, \<open>RequestReplyCorrect\<close>: \<open>RequestReplyEngine.cpp\<close> over the delivery engine.
  \<^item> \<open>Prng\<close>, \<open>Impairment\<close>, \<open>ImpairedLink\<close>: \<open>PrngEngine.hpp\<close>, \<open>ImpairmentEngine.cpp\<close> and what the transports rely on of them;
    \<open>ConfigLoader\<close>: \<open>ImpairmentConfigLoader.cpp\<close> with the C library functions it calls.
  \<^item> \<open>LocalSim\<close>: \<open>LocalSimHarness.cpp\<close>, in a store of linked harnesses.
  \<^item> \<open>Posix\<close>, \<open>Sockets\<close>: \<open>IPosixSyscalls.hpp\<close>, \<open>SocketUtils.cpp\<close>, \<open>SocketOpsImpl.cpp\<close>; the operating system is a record of
    functions on the state of the world. \<open>BackendContract\<close>: what the socket backends share.
  \<^item> \<open>TcpBackend\<close>, \<open>TcpBackendCorrect\<close>: \<open>TcpBackend.cpp\<close>; \<open>UdpBackend\<close>: \<open>UdpBackend.cpp\<close>.
  \<^item> \<open>Mbedtls\<close>: \<open>MbedtlsOpsImpl.cpp\<close> and the library as a record of functions; \<open>DtlsBackend\<close>, \<open>DtlsBackendCorrect\<close>:
    \<open>DtlsUdpBackend.cpp\<close>; \<open>TlsBackend\<close>, \<open>TlsBackendCorrect\<close>: \<open>TlsTcpBackend.cpp\<close> and \<open>TlsSessionStore.cpp\<close>. The first theory of a pair
    holds the definitions, the second the invariant and the properties.
  \<^item> \<open>EchoApps\<close>: \<open>Server.cpp\<close> and \<open>Client.cpp\<close>, the programs that put a delivery engine on the TCP backend; \<open>DemoApps\<close>:
    \<open>TlsTcpDemo.cpp\<close> and \<open>DtlsUdpDemo.cpp\<close>, the same over the two secure backends. The bounds of their loops are those of the source.

  \<^bold>\<open>Interfaces.\<close>
  \<^item> \<open>fifo_source\<close>, extended to \<open>bounded_fifo\<close> and \<open>overwrite_ring\<close>: queues, interpreted on the ring buffer and the event ring.
  \<^item> \<open>pending_table\<close>: a table of pending messages as a multiset, interpreted on the ACK tracker and the retry manager.
  \<^item> \<open>transport_ok\<close>: the contract of the transport below the delivery engine; \<open>LocalSim\<close> proves it for the harness.
  \<^item> \<open>posix_system\<close> for the system calls and \<open>socket_layer\<close>, \<open>backend_env\<close> for the socket functions, with a
    \<open>sublocale\<close> from the first to the other two; \<open>byte_streams\<close> adds that sockets are reliable streams. All are
    interpreted on a loopback system that transfers two or three bytes per call.
  \<^item> \<open>tls_env\<close>: \<open>backend_env\<close> and the TLS library, interpreted on a library without encryption.
  \<^item> \<open>app_host\<close>: what a program relies on, a transport that keeps \<open>transport_ok\<close>, a clock and a sleep; interpreted on the harness.

  The properties of the backends hold for every system and every TLS library that satisfies the assumptions of these locales; they
  are stated with the locale predicate as a hypothesis, and their witnesses use the interpretation.

  \<^bold>\<open>What is shown.\<close> For the engine: from \<open>init\<close> no sequence of calls aborts, reliable messages are delivered once while the filter
  has not overflowed, the tables follow what was sent, acknowledgements are accepted from the destination only, a reconnect forgets
  exactly the peer. For the components: round trips (wire format, fragments, frames on a byte stream, requests and
  responses, configuration files), refinements (duplicate filter, harness), invariants (ordering, ring buffer, reordering
  window), bounds on retransmissions, termination of the socket loops. For the backends: no call aborts over an arbitrary network (and TLS library),
  messages are accepted only from the peer they name, secure backends open only under safe settings. For the programs: the servers and the demo clients never abort over a transport that keeps the contract, a
  reply goes to the sender with its own words, and every command line gives a configuration that the backend accepts. Where the code does abort or loses a message, the theorem
  says when.

  \<^bold>\<open>Not modelled.\<close> Log output (\<open>Logger.cpp\<close>) and the handling of a failed assertion (\<open>AssertState.cpp\<close>, the reset handler): the
  model ends there with \<open>None\<close>. The thin wrappers of system calls (\<open>PosixSyscallsImpl.cpp\<close>) and of mbedTLS calls that only check
  for null pointers. The mutex of the session
  store. The operating system, the C library beyond the functions of
  the configuration loader and \<open>strtol\<close>, and mbedTLS are parameters. The engine classes are single-threaded and modelled so; the ring buffer is
  the one place where two threads meet.
\<close>

end
